(* ===== verification/Prelude.thy ===== *)
theory Prelude
  imports Main "HOL-Library.Word"
begin

text \<open>
  Shared vocabulary of the development: the machine types of the boxes (MIPS 24KEc, ILP32, so
  \<open>int\<close>, \<open>long\<close>, \<open>size_t\<close> and pointers are 32 bits wide), unsigned 32-bit arithmetic written
  out on natural numbers, list lemmas, and the collections of facts the component theories
  feed to the simplifier.

  Two conventions are used for machine integers. Code that shifts, masks and rotates
  (hashing, ciphers, addresses, sequence numbers) is modelled on \<open>32 word\<close>. Code that counts
  bytes, sectors and samples is modelled on \<open>nat\<close> with \<open>add32\<close>, \<open>sub32\<close> and \<open>mul32\<close>, which
  wrap at \<open>2 ^ 32\<close> as the C operators do.
\<close>

unbundle bit_operations_syntax

type_synonym byte = "8 word"
type_synonym u32 = "32 word"

named_theorems u32_simps \<open>unsigned 32-bit arithmetic on natural numbers without wrap-around\<close>
named_theorems len_simps \<open>lengths of the fixed-size buffers that operations return\<close>
named_theorems inv_intros \<open>operations that preserve the invariant of their component\<close>

section \<open>Unsigned 32-bit arithmetic on natural numbers\<close>

abbreviation two32 :: nat where
  "two32 \<equiv> 4294967296"

definition add32 :: "nat \<Rightarrow> nat \<Rightarrow> nat" where
  "add32 a b = (a + b) mod two32"

definition sub32 :: "nat \<Rightarrow> nat \<Rightarrow> nat" where
  "sub32 a b = (a + (two32 - b mod two32)) mod two32"

definition mul32 :: "nat \<Rightarrow> nat \<Rightarrow> nat" where
  "mul32 a b = (a * b) mod two32"

lemma add32_id [u32_simps]: "a + b < two32 \<Longrightarrow> add32 a b = a + b"
  by (simp add: add32_def)

lemma sub32_id [u32_simps]: "b \<le> a \<Longrightarrow> a < two32 \<Longrightarrow> sub32 a b = a - b"
  by (simp add: sub32_def mod_if)

lemma mul32_id [u32_simps]: "a * b < two32 \<Longrightarrow> mul32 a b = a * b"
  by (simp add: mul32_def)

lemma add32_less [simp]: "add32 a b < two32"
  by (simp add: add32_def)

lemma sub32_less [simp]: "sub32 a b < two32"
  by (simp add: sub32_def)

lemma mul32_less [simp]: "mul32 a b < two32"
  by (simp add: mul32_def)

section \<open>Lists\<close>

lemma nth_append_shift: "(xs @ ys) ! (length xs + i) = ys ! i"
  by (simp add: nth_append)

lemma take_drop_append:
  "m \<le> n \<Longrightarrow> take (n - m) (drop m xs) @ drop n xs = drop m xs"
  using append_take_drop_id [of "n - m" "drop m xs"] by simp

lemma take_Suc_update:
  "i < length xs \<Longrightarrow> take (Suc i) (xs[i := x]) = take i xs @ [x]"
  by (simp add: take_Suc_conv_app_nth)

lemma drop_Suc_update: "drop (Suc i) (xs[i := x]) = drop (Suc i) xs"
  by simp

lemma fold_invariant_list:
  assumes "P s" and "\<And>x s. x \<in> set xs \<Longrightarrow> P s \<Longrightarrow> P (f x s)"
  shows "P (fold f xs s)"
  using assms by (induction xs arbitrary: s) auto

lemma length_concat_const:
  "(\<And>x. x \<in> set xs \<Longrightarrow> length x = n) \<Longrightarrow> length (concat xs) = n * length xs"
  by (induction xs) auto

text \<open>Concatenations of blocks of one length.\<close>

lemma nth_concat_const:
  "(\<And>x. x \<in> set xs \<Longrightarrow> length x = k) \<Longrightarrow> n < k * length xs
    \<Longrightarrow> concat xs ! n = xs ! (n div k) ! (n mod k)"
proof (induction xs arbitrary: n)
  case (Cons x xs)
  show ?case
  proof (cases "n < k")
    case True
    with Cons.prems(1) [of x] show ?thesis by (simp add: nth_append)
  next
    case False
    then have "n - k < k * length xs" using Cons.prems(2) by simp
    moreover have "0 < k" using Cons.prems(2) by (cases k) simp_all
    ultimately show ?thesis
      using False Cons.IH [of "n - k"] Cons.prems(1)
      by (simp add: nth_append le_div_geq le_mod_geq)
  qed
qed simp

lemma drop_concat_const:
  "(\<And>x. x \<in> set xs \<Longrightarrow> length x = k) \<Longrightarrow> drop (k * m) (concat xs) = concat (drop m xs)"
proof (induction xs arbitrary: m)
  case (Cons x xs)
  then show ?case by (cases m) simp_all
qed simp

lemma take_concat_const:
  "(\<And>x. x \<in> set xs \<Longrightarrow> length x = k) \<Longrightarrow> take (k * n) (concat xs) = concat (take n xs)"
proof (induction xs arbitrary: n)
  case (Cons x xs)
  then show ?case by (cases n) simp_all
qed simp

lemma take_drop_concat_const:
  assumes "\<And>x. x \<in> set xs \<Longrightarrow> length x = k"
  shows "take (k * n) (drop (k * m) (concat xs)) = concat (take n (drop m xs))"
proof -
  have "drop (k * m) (concat xs) = concat (drop m xs)"
    using assms by (rule drop_concat_const)
  moreover have "take (k * n) (concat (drop m xs)) = concat (take n (drop m xs))"
    by (rule take_concat_const) (use assms in \<open>auto dest: in_set_dropD\<close>)
  ultimately show ?thesis by simp
qed

section \<open>Bytes and words\<close>

lemma unat_byte_less [simp]: "unat (b :: byte) < 256"
  by (rule order.strict_trans2 [OF unsigned_less]) simp

lemma unat_byte_le [simp]: "unat (b :: byte) \<le> 255"
  using unat_byte_less [of b] by linarith

lemma unat_u32_less [simp]: "unat (w :: u32) < two32"
  by (rule order.strict_trans2 [OF unsigned_less]) simp

lemma unat_drop_bit: "unat (drop_bit n w) = unat w div 2 ^ n"
  unfolding unsigned_drop_bit_eq by (simp add: drop_bit_eq_div take_bit_nat_eq_self)

section \<open>Folds\<close>

text \<open>A fold is undone by the fold of inverse steps over the reversed list.\<close>

lemma fold_undo:
  assumes "P s" and "\<And>x s. x \<in> set xs \<Longrightarrow> P s \<Longrightarrow> P (f x s)"
    and "\<And>x s. x \<in> set xs \<Longrightarrow> P s \<Longrightarrow> g x (f x s) = s"
  shows "fold g (rev xs) (fold f xs s) = s"
  using assms by (induction xs arbitrary: s) auto

text \<open>Bounds of bitwise operations on natural numbers.\<close>

lemma nat_and_le: "a AND b \<le> (b :: nat)"
proof -
  have "int a AND int b \<le> int b" by (rule AND_upper2) simp
  then show ?thesis unfolding and_nat_def by (simp only: nat_le_iff)
qed

lemma and_below: "(b :: nat) < n \<Longrightarrow> a AND b < n"
  using nat_and_le [of a b] by linarith

lemma or_below_power: "a < 2 ^ n \<Longrightarrow> b < 2 ^ n \<Longrightarrow> a OR b < (2 ^ n :: nat)"
proof -
  assume "a < 2 ^ n" "b < 2 ^ n"
  then have "take_bit n a = a" "take_bit n b = b" by (simp_all add: take_bit_eq_mod)
  then have "take_bit n (a OR b) = a OR b" by simp
  then show ?thesis using take_bit_nat_less_exp [of n "a OR b"] by simp
qed

end
