(* ===== verification/Bytes.thy ===== *)
theory Bytes
  imports Prelude
begin

text \<open>
  Byte-order accessors. The repository writes them out once per module
  (\<open>ufs_le16\<close>, \<open>ufs_le32\<close>, \<open>ufs_put32\<close> in \<open>usbfat.h\<close>; \<open>get_be32\<close>, \<open>put_be32\<close>
  in \<open>netstack.h\<close>; \<open>be32\<close> in \<open>smf.c\<close>). A buffer is a byte list and a pointer into it
  an offset.
\<close>

section \<open>Little endian, as numbers (usbfat.h)\<close>

definition ufs_le16 :: "byte list \<Rightarrow> nat \<Rightarrow> nat" where
  "ufs_le16 p i = unat (p ! i) OR push_bit 8 (unat (p ! (i + 1)))"

definition ufs_le32 :: "byte list \<Rightarrow> nat \<Rightarrow> nat" where
  "ufs_le32 p i = unat (p ! i) OR push_bit 8 (unat (p ! (i + 1)))
     OR push_bit 16 (unat (p ! (i + 2))) OR push_bit 24 (unat (p ! (i + 3)))"

definition ufs_put32 :: "nat \<Rightarrow> byte list" where
  "ufs_put32 v = [of_nat v, of_nat (drop_bit 8 v), of_nat (drop_bit 16 v), of_nat (drop_bit 24 v)]"

lemma or_shift_add: "a < 2 ^ k \<Longrightarrow> a OR push_bit k b = a + push_bit k (b :: nat)"
proof -
  assume a: "a < 2 ^ k"
  have "a AND push_bit k b = 0"
  proof (rule bit_eqI)
    fix n
    show "bit (a AND push_bit k b) n \<longleftrightarrow> bit (0 :: nat) n"
    proof (cases "n < k")
      case True
      then show ?thesis by (simp add: bit_simps)
    next
      case False
      then have "a < 2 ^ n"
        using a by (meson less_le_trans one_le_numeral power_increasing not_less)
      then have "\<not> bit a n"
        by (simp add: bit_iff_odd)
      then show ?thesis by (simp add: bit_simps)
    qed
  qed
  then show ?thesis
    by (simp add: disjunctive_add [symmetric] bit_eq_iff bit_simps)
qed

lemma push_bit_nat_mult: "push_bit k (n :: nat) = n * 2 ^ k"
  by (simp add: push_bit_eq_mult)

lemma two_bytes_less: "a \<le> 255 \<Longrightarrow> b \<le> 255 \<Longrightarrow> a + 256 * b < (65536 :: nat)"
  by simp

lemma four_bytes_less:
  "a \<le> 255 \<Longrightarrow> b \<le> 255 \<Longrightarrow> c \<le> 255 \<Longrightarrow> d \<le> 255
    \<Longrightarrow> a + 256 * b + 65536 * c + 16777216 * d < two32"
  by simp

lemma three_bytes_less:
  "a \<le> 255 \<Longrightarrow> b \<le> 255 \<Longrightarrow> c \<le> 255 \<Longrightarrow> a + 256 * b + 65536 * c < (16777216 :: nat)"
  by simp

lemma ufs_le16_eq: "ufs_le16 p i = unat (p ! i) + 256 * unat (p ! (i + 1))"
  unfolding ufs_le16_def by (subst or_shift_add) (simp_all add: push_bit_nat_mult)

lemma ufs_le32_eq:
  "ufs_le32 p i = unat (p ! i) + 256 * unat (p ! (i + 1)) + 65536 * unat (p ! (i + 2))
     + 16777216 * unat (p ! (i + 3))"
proof -
  have b: "unat (p ! j) \<le> 255" for j by simp
  have 1: "unat (p ! i) OR push_bit 8 (unat (p ! (i + 1)))
      = unat (p ! i) + 256 * unat (p ! (i + 1))"
    by (subst or_shift_add) (simp_all add: push_bit_nat_mult)
  have 2: "(unat (p ! i) + 256 * unat (p ! (i + 1))) OR push_bit 16 (unat (p ! (i + 2)))
      = unat (p ! i) + 256 * unat (p ! (i + 1)) + 65536 * unat (p ! (i + 2))"
    using two_bytes_less [OF b b] by (subst or_shift_add) (simp_all add: push_bit_nat_mult)
  show ?thesis
    unfolding ufs_le32_def or.assoc [symmetric] 1 2 using three_bytes_less [OF b b b]
    by (subst or_shift_add) (simp_all add: push_bit_nat_mult)
qed

lemma ufs_le16_less: "ufs_le16 p i < 65536"
  unfolding ufs_le16_eq by (rule two_bytes_less) (rule unat_byte_le)+

lemma ufs_le32_less: "ufs_le32 p i < two32"
  unfolding ufs_le32_eq by (rule four_bytes_less) (rule unat_byte_le)+

lemma length_ufs_put32 [simp]: "length (ufs_put32 v) = 4"
  by (simp add: ufs_put32_def)

lemma base256_digits:
  "v = 256 * q1 + r0 \<Longrightarrow> q1 = 256 * q2 + r1 \<Longrightarrow> q2 = 256 * q3 + r2
    \<Longrightarrow> r0 + 256 * r1 + 65536 * r2 + 16777216 * q3 = (v :: nat)"
  by simp

lemma ufs_le32_put32: "v < two32 \<Longrightarrow> ufs_le32 (ufs_put32 v) 0 = v"
proof -
  assume v: "v < two32"
  have d: "v div 65536 = v div 256 div 256" "v div 16777216 = v div 256 div 256 div 256"
    by (simp_all add: div_mult2_eq [symmetric])
  have "v div 256 div 256 div 256 < 256"
    using v by (simp add: div_mult2_eq [symmetric])
  then have m: "v div 256 div 256 div 256 mod 256 = v div 256 div 256 div 256" by simp
  have "v mod 256 + 256 * (v div 256 mod 256) + 65536 * (v div 65536 mod 256)
      + 16777216 * (v div 16777216 mod 256) = v"
    unfolding d m by (rule base256_digits) (rule mult_div_mod_eq [symmetric])+
  moreover have "v div 16777216 mod 256 = v div 16777216"
    using v by simp
  ultimately show ?thesis
    by (simp add: ufs_le32_eq ufs_put32_def unat_of_nat drop_bit_eq_div)
qed

section \<open>Big endian, as words (netstack.h, wlan.h, wpa.h)\<close>

definition be16 :: "byte list \<Rightarrow> nat \<Rightarrow> u32" where
  "be16 p i = push_bit 8 (ucast (p ! i)) OR ucast (p ! (i + 1))"

definition put_be16 :: "u32 \<Rightarrow> byte list" where
  "put_be16 v = [ucast (drop_bit 8 v), ucast v]"

definition get_be32 :: "byte list \<Rightarrow> nat \<Rightarrow> u32" where
  "get_be32 p i = push_bit 24 (ucast (p ! i)) OR push_bit 16 (ucast (p ! (i + 1)))
     OR push_bit 8 (ucast (p ! (i + 2))) OR ucast (p ! (i + 3))"

definition put_be32 :: "u32 \<Rightarrow> byte list" where
  "put_be32 v = [ucast (drop_bit 24 v), ucast (drop_bit 16 v), ucast (drop_bit 8 v), ucast v]"

text \<open>Reads that are checked against the end of the bytes, and the broadcast address of \<open>wlan.h\<close>.\<close>

definition rd8 :: "byte list \<Rightarrow> nat \<Rightarrow> byte option" where
  "rd8 p i = (if i < length p then Some (p ! i) else None)"

definition rd16 :: "byte list \<Rightarrow> nat \<Rightarrow> u32 option" where
  "rd16 p i = (if i + 1 < length p then Some (be16 p i) else None)"

definition rd32 :: "byte list \<Rightarrow> nat \<Rightarrow> u32 option" where
  "rd32 p i = (if i + 3 < length p then Some (get_be32 p i) else None)"

definition bcast :: "byte list" where
  "bcast = replicate 6 0xff"

lemma length_put_be16 [simp]: "length (put_be16 v) = 2"
  by (simp add: put_be16_def)

lemma length_put_be32 [simp]: "length (put_be32 v) = 4"
  by (simp add: put_be32_def)

lemma get_put_be32 [simp]: "get_be32 (put_be32 v) 0 = v"
  unfolding get_be32_def put_be32_def
proof (rule bit_word_eqI, goal_cases)
  case (1 n)
  then consider "n < 8" | "8 \<le> n" "n < 16" | "16 \<le> n" "n < 24" | "24 \<le> n" "n < 32"
    by fastforce
  then show ?case by cases (auto simp: bit_simps)
qed

lemma byte_nth_ge [simp]: "8 \<le> n \<Longrightarrow> \<not> bit (b :: byte) n"
  by (auto dest: bit_imp_le_length)

lemma put_get_be32: "put_be32 (get_be32 [a, b, c, d] 0) = [a, b, c, d]"
  unfolding get_be32_def put_be32_def
  by (auto intro!: bit_word_eqI simp: bit_simps)

lemma be16_put [simp]: "v < 65536 \<Longrightarrow> be16 (put_be16 v) 0 = v"
  unfolding be16_def put_be16_def
proof (rule bit_word_eqI, goal_cases)
  case (1 n)
  from 1(1) have "take_bit 16 v = v"
    by (simp add: word_unat_eq_iff unsigned_take_bit_eq take_bit_nat_eq_self_iff word_less_nat_alt)
  then have high: "16 \<le> n \<Longrightarrow> \<not> bit v n"
    by (metis bit_take_bit_iff not_less)
  consider "n < 8" | "8 \<le> n" "n < 16" | "16 \<le> n" by fastforce
  then show ?case using high by cases (auto simp: bit_simps)
qed

lemma get_be32_append1: "i + 3 < length xs \<Longrightarrow> get_be32 (xs @ ys) i = get_be32 xs i"
  by (simp add: get_be32_def nth_append)

lemma get_be32_append2: "get_be32 (xs @ ys) (length xs + i) = get_be32 ys i"
  unfolding get_be32_def add.assoc nth_append_shift by simp

lemma be16_append1: "i + 1 < length xs \<Longrightarrow> be16 (xs @ ys) i = be16 xs i"
  by (simp add: be16_def nth_append)

lemma be16_append2: "be16 (xs @ ys) (length xs + i) = be16 ys i"
  unfolding be16_def add.assoc nth_append_shift by simp

end
