(* ===== verification/Sha1.thy ===== *)
theory Sha1
  imports Bytes
begin

text \<open>
  SHA-1 of \<open>wpa.h\<close>: the streaming hash (\<open>sha1_init\<close>, \<open>sha1_update\<close>, \<open>sha1_final\<close>)
  and, for comparison, the hash as FIPS 180-4 describes it on a whole message. The main
  lemma is that the streaming code computes the standard's digest for any stale contents
  of the context's buffer.
\<close>

section \<open>The code\<close>

type_synonym sha1_h = "u32 \<times> u32 \<times> u32 \<times> u32 \<times> u32"

record sha1 =
  sh :: sha1_h
  slen :: u32
  sbuf :: "byte list"

definition sha1_rol :: "u32 \<Rightarrow> nat \<Rightarrow> u32" where
  "sha1_rol x n = push_bit n x OR drop_bit (32 - n) x"

text \<open>The message schedule \<open>w[80]\<close> of \<open>sha1_block\<close>.\<close>

definition sha1_load :: "byte list \<Rightarrow> u32 list" where
  "sha1_load p = map (\<lambda>i. get_be32 p (4 * i)) [0..<16]"

definition sha1_expand :: "nat \<Rightarrow> u32 list \<Rightarrow> u32 list" where
  "sha1_expand i w =
     w @ [sha1_rol (w ! (i - 3) XOR w ! (i - 8) XOR w ! (i - 14) XOR w ! (i - 16)) 1]"

definition sha1_sched :: "byte list \<Rightarrow> u32 list" where
  "sha1_sched p = fold sha1_expand [16..<80] (sha1_load p)"

fun sha1_round :: "u32 list \<Rightarrow> nat \<Rightarrow> sha1_h \<Rightarrow> sha1_h" where
  "sha1_round w i (a, b, c, d, e) =
     (let t = (if i < 20 then ((b AND c) OR (NOT b AND d)) + 0x5a827999
               else if i < 40 then (b XOR c XOR d) + 0x6ed9eba1
               else if i < 60 then ((b AND c) OR (b AND d) OR (c AND d)) + 0x8f1bbcdc
               else (b XOR c XOR d) + 0xca62c1d6);
          t' = t + (sha1_rol a 5 + e + w ! i)
      in (t', a, sha1_rol b 30, c, d))"

fun sha1_add :: "sha1_h \<Rightarrow> sha1_h \<Rightarrow> sha1_h" where
  "sha1_add (h0, h1, h2, h3, h4) (a, b, c, d, e) = (h0 + a, h1 + b, h2 + c, h3 + d, h4 + e)"

definition sha1_block :: "sha1_h \<Rightarrow> byte list \<Rightarrow> sha1_h" where
  "sha1_block h p = sha1_add h (fold (sha1_round (sha1_sched p)) [0..<80] h)"

definition sha1_iv :: sha1_h where
  "sha1_iv = (0x67452301, 0xefcdab89, 0x98badcfe, 0x10325476, 0xc3d2e1f0)"

text \<open>\<open>sha1_init\<close> sets the chaining value and the length and leaves the buffer as it was.\<close>

definition sha1_init :: "sha1 \<Rightarrow> sha1" where
  "sha1_init s = s\<lparr>sh := sha1_iv, slen := 0\<rparr>"

definition sha1_byte :: "byte \<Rightarrow> sha1 \<Rightarrow> sha1" where
  "sha1_byte x s =
     (let s' = s\<lparr>sbuf := (sbuf s)[unat (slen s AND 63) := x], slen := slen s + 1\<rparr>
      in if slen s' AND 63 = 0 then s'\<lparr>sh := sha1_block (sh s') (sbuf s')\<rparr> else s')"

definition sha1_update :: "sha1 \<Rightarrow> byte list \<Rightarrow> sha1" where
  "sha1_update s p = fold sha1_byte p s"

text \<open>
  The padding loop \<open>while ((s->len & 63) != 56)\<close>. Each turn adds one to the length modulo 64,
  so 64 turns are enough: \<open>sha1_zeros_fuel\<close> below.
\<close>

fun sha1_zeros :: "nat \<Rightarrow> sha1 \<Rightarrow> sha1 option" where
  "sha1_zeros fuel s =
     (if slen s AND 63 = 56 then Some s
      else case fuel of 0 \<Rightarrow> None | Suc n \<Rightarrow> sha1_zeros n (sha1_update s [0]))"

declare sha1_zeros.simps [simp del]

fun sha1_words :: "sha1_h \<Rightarrow> u32 list" where
  "sha1_words (a, b, c, d, e) = [a, b, c, d, e]"

definition sha1_lenb :: "u32 \<Rightarrow> byte list" where
  "sha1_lenb bits = map (\<lambda>i. if i < 4 then 0 else ucast (drop_bit (8 * (7 - i)) bits)) [0..<8]"

definition sha1_out :: "sha1_h \<Rightarrow> byte list" where
  "sha1_out h = map (\<lambda>i. ucast (drop_bit (8 * (3 - i mod 4)) (sha1_words h ! (i div 4)))) [0..<20]"

definition sha1_final :: "sha1 \<Rightarrow> byte list option" where
  "sha1_final s =
     (let bits = slen s * 8
      in case sha1_zeros 64 (sha1_update s [0x80]) of
           None \<Rightarrow> None
         | Some s2 \<Rightarrow> Some (sha1_out (sh (sha1_update s2 (sha1_lenb bits)))))"

section \<open>FIPS 180-4\<close>

definition fips_f :: "nat \<Rightarrow> u32 \<Rightarrow> u32 \<Rightarrow> u32 \<Rightarrow> u32" where
  "fips_f t x y z =
     (if t < 20 then (x AND y) XOR (NOT x AND z)
      else if t < 40 then x XOR y XOR z
      else if t < 60 then (x AND y) XOR (x AND z) XOR (y AND z)
      else x XOR y XOR z)"

definition fips_K :: "nat \<Rightarrow> u32" where
  "fips_K t = (if t < 20 then 0x5a827999 else if t < 40 then 0x6ed9eba1
     else if t < 60 then 0x8f1bbcdc else 0xca62c1d6)"

fun fips_W :: "byte list \<Rightarrow> nat \<Rightarrow> u32" where
  "fips_W M t =
     (if t < 16 then get_be32 M (4 * t)
      else word_rotl 1 (fips_W M (t - 3) XOR fips_W M (t - 8) XOR fips_W M (t - 14)
             XOR fips_W M (t - 16)))"

declare fips_W.simps [simp del]

fun fips_round :: "byte list \<Rightarrow> nat \<Rightarrow> sha1_h \<Rightarrow> sha1_h" where
  "fips_round M t (a, b, c, d, e) =
     (word_rotl 5 a + fips_f t b c d + e + fips_K t + fips_W M t, a, word_rotl 30 b, c, d)"

definition fips_compress :: "sha1_h \<Rightarrow> byte list \<Rightarrow> sha1_h" where
  "fips_compress H M = sha1_add H (fold (fips_round M) [0..<80] H)"

function fips_blocks :: "sha1_h \<Rightarrow> byte list \<Rightarrow> sha1_h" where
  "fips_blocks H m =
     (if length m < 64 then H else fips_blocks (fips_compress H (take 64 m)) (drop 64 m))"
  by pat_completeness auto
termination
  by (relation "measure (\<lambda>(H, m). length m)") auto

declare fips_blocks.simps [simp del]

definition fips_be64 :: "nat \<Rightarrow> byte list" where
  "fips_be64 n = map (\<lambda>i. of_nat (n div 256 ^ (7 - i))) [0..<8]"

definition fips_pad :: "byte list \<Rightarrow> byte list" where
  "fips_pad m = m @ [0x80] @ replicate ((119 - length m mod 64) mod 64) 0 @ fips_be64 (8 * length m)"

definition fips_sha1 :: "byte list \<Rightarrow> byte list" where
  "fips_sha1 m = concat (map put_be32 (sha1_words (fips_blocks sha1_iv (fips_pad m))))"

section \<open>The code's compression function is the standard's\<close>

lemma sha1_rol_rotl: "n < 32 \<Longrightarrow> sha1_rol x n = word_rotl n x"
  unfolding sha1_rol_def
proof (rule bit_word_eqI, goal_cases)
  case (1 i)
  show ?case
  proof (cases "i < n")
    case True
    then have "32 - n + i = i + 32 - n" using 1 by simp
    with True 1 show ?thesis by (simp add: bit_simps bit_word_rotl_iff)
  next
    case False
    then have "(i + 32 - n) mod 32 = i - n" "32 \<le> 32 - n + i"
      using 1 by (simp_all add: mod_if)
    with False 1 show ?thesis
      by (auto simp: bit_simps bit_word_rotl_iff dest: bit_imp_le_length)
  qed
qed

lemma choose_or_xor: "(x AND y) OR (NOT x AND z) = (x AND y) XOR (NOT x AND (z :: u32))"
  by (rule bit_word_eqI) (auto simp: bit_simps)

lemma majority_or_xor:
  "(x AND y) OR (x AND z) OR (y AND z) = (x AND y) XOR (x AND z) XOR (y AND (z :: u32))"
  by (rule bit_word_eqI) (auto simp: bit_simps)

lemma length_sha1_load [len_simps]: "length (sha1_load p) = 16"
  by (simp add: sha1_load_def)

lemma sha1_sched_upto:
  "n \<le> 64 \<Longrightarrow> length (fold sha1_expand [16..<16 + n] (sha1_load p)) = 16 + n
     \<and> (\<forall>t < 16 + n. fold sha1_expand [16..<16 + n] (sha1_load p) ! t = fips_W p t)"
proof (induction n)
  case 0
  then show ?case by (simp add: length_sha1_load) (simp add: sha1_load_def fips_W.simps)
next
  case (Suc n)
  define w where "w = fold sha1_expand [16..<16 + n] (sha1_load p)"
  have step: "fold sha1_expand [16..<16 + Suc n] (sha1_load p) = sha1_expand (16 + n) w"
    by (simp only: w_def add_Suc_right upt_Suc_append le_add1 fold_append fold.simps o_apply id_apply)
  from Suc have len: "length w = 16 + n" and eq: "\<And>t. t < 16 + n \<Longrightarrow> w ! t = fips_W p t"
    by (auto simp: w_def)
  have "sha1_expand (16 + n) w ! t = fips_W p t" if "t < 16 + Suc n" for t
  proof (cases "t = 16 + n")
    case True
    then show ?thesis
      using len eq by (simp add: sha1_expand_def nth_append sha1_rol_rotl fips_W.simps [of p "16 + n"])
  next
    case False
    with that have "t < 16 + n" by simp
    then show ?thesis using len eq by (simp add: sha1_expand_def nth_append)
  qed
  then show ?case unfolding step using len by (simp add: sha1_expand_def)
qed

lemma sha1_sched_fips: "t < 80 \<Longrightarrow> sha1_sched p ! t = fips_W p t"
  using sha1_sched_upto [of 64 p] by (simp add: sha1_sched_def)

lemma sha1_round_fips:
  assumes "i < 80"
  shows "sha1_round (sha1_sched p) i s = fips_round p i s"
proof -
  obtain a b c d e where s: "s = (a, b, c, d, e)" by (cases s) auto
  show ?thesis
    using sha1_sched_fips [OF assms, of p]
    by (simp add: s fips_f_def fips_K_def sha1_rol_rotl choose_or_xor majority_or_xor Let_def
        algebra_simps)
qed

lemma sha1_block_fips: "sha1_block h p = fips_compress h p"
proof -
  have "fold (sha1_round (sha1_sched p)) [0..<80] h = fold (fips_round p) [0..<80] h"
    by (rule fold_cong) (simp_all add: sha1_round_fips fun_eq_iff)
  then show ?thesis by (simp add: sha1_block_def fips_compress_def)
qed

section \<open>The streaming code hashes whole blocks as they fill\<close>

text \<open>
  What the context holds after the bytes \<open>m\<close>: their number modulo \<open>2 ^ 32\<close>, the chaining
  value over the full blocks and, at the front of the buffer, the rest.
\<close>

definition sha1_holds :: "sha1 \<Rightarrow> sha1_h \<Rightarrow> byte list \<Rightarrow> bool" where
  "sha1_holds s H m \<longleftrightarrow> length (sbuf s) = 64 \<and> slen s = of_nat (length m)
     \<and> sh s = fips_blocks H m
     \<and> take (length m mod 64) (sbuf s) = drop (64 * (length m div 64)) m"

lemma unat_mod64: "unat ((of_nat n :: u32) AND 63) = n mod 64"
proof -
  have "(of_nat n :: u32) AND 63 = take_bit 6 (of_nat n)"
    by (simp add: take_bit_eq_mask mask_eq_exp_minus_1)
  then have "unat ((of_nat n :: u32) AND 63) = take_bit 6 (take_bit 32 n)"
    by (simp add: unsigned_take_bit_eq unsigned_of_nat)
  then show ?thesis by (simp add: take_bit_take_bit) (simp add: take_bit_eq_mod)
qed

lemma fips_blocks_append:
  "length m = 64 * k \<Longrightarrow> fips_blocks H (m @ x) = fips_blocks (fips_blocks H m) x"
proof (induction k arbitrary: H m)
  case 0
  then show ?case by (simp add: fips_blocks.simps [of H "[]"])
next
  case (Suc k)
  have "length (drop 64 m) = 64 * k" using Suc.prems by simp
  from Suc.IH [OF this] show ?case
    using Suc.prems by (simp add: fips_blocks.simps [of H "m @ x"] fips_blocks.simps [of H m])
qed

lemma fips_blocks_whole:
  "fips_blocks H m = fips_blocks H (take (64 * (length m div 64)) m)"
proof -
  let ?k = "length m div 64"
  have "fips_blocks H m
      = fips_blocks (fips_blocks H (take (64 * ?k) m)) (drop (64 * ?k) m)"
    using fips_blocks_append [of "take (64 * ?k) m" ?k H "drop (64 * ?k) m"]
    by simp
  moreover have "length (drop (64 * ?k) m) < 64"
    by (simp add: minus_mult_div_eq_mod)
  ultimately show ?thesis
    by (simp add: fips_blocks.simps [of _ "drop (64 * ?k) m"])
qed

lemma sha1_byte_holds:
  assumes "sha1_holds s H m"
  shows "sha1_holds (sha1_byte x s) H (m @ [x])"
proof -
  let ?r = "length m mod 64" and ?q = "64 * (length m div 64)"
  let ?buf = "(sbuf s)[?r := x]"
  have len: "length (sbuf s) = 64" and sl: "slen s = of_nat (length m)"
    and hs: "sh s = fips_blocks H m" and front: "take ?r (sbuf s) = drop ?q m"
    using assms by (auto simp: sha1_holds_def)
  have idx: "unat (slen s AND 63) = ?r" by (simp add: sl unat_mod64)
  have r: "?r < 64" by simp
  have sl1: "slen s + 1 = of_nat (length (m @ [x]))" by (simp add: sl)
  have zero: "(slen s + 1) AND 63 = 0 \<longleftrightarrow> Suc (length m) mod 64 = 0"
    unfolding sl1 using unat_mod64 [of "length (m @ [x])"] by (simp add: unat_eq_0 [symmetric])
  have front': "take (Suc ?r) ?buf = drop ?q (m @ [x])"
    using front r len by (simp add: take_Suc_update minus_mult_div_eq_mod)
  show ?thesis
  proof (cases "Suc (length m) mod 64 = 0")
    case True
    then have r63: "?r = 63"
      by (auto simp: mod_Suc split: if_splits)
    have "fips_blocks H (m @ [x]) = fips_compress (sh s) ?buf"
    proof -
      have "m @ [x] = take ?q m @ ?buf"
        using front' r63 len by (simp add: append_eq_conv_conj)
      then have "fips_blocks H (m @ [x]) = fips_blocks (fips_blocks H (take ?q m)) ?buf"
        by (simp add: fips_blocks_append [where k = "length m div 64"] min_absorb2)
      also have "\<dots> = fips_compress (sh s) ?buf"
        using len fips_blocks_whole [of H m]
        by (simp add: hs fips_blocks.simps [of _ "[]"] fips_blocks.simps [of _ ?buf])
      finally show ?thesis .
    qed
    moreover have "64 * (Suc (length m) div 64) = Suc (length m)"
      using True by (simp add: dvd_mult_div_cancel mod_eq_0_iff_dvd)
    then have "drop (64 * (Suc (length m) div 64)) (m @ [x]) = []" by simp
    ultimately show ?thesis
      using True len idx zero sl1
      by (simp add: sha1_holds_def sha1_byte_def sha1_block_fips Let_def del: of_nat_Suc)
  next
    case False
    then have r': "Suc (length m) mod 64 = Suc ?r" "Suc (length m) div 64 = length m div 64"
      by (auto simp: mod_Suc div_Suc split: if_splits)
    have "fips_blocks H (m @ [x]) = fips_blocks H m"
      using r' fips_blocks_whole [of H m] fips_blocks_whole [of H "m @ [x]"] by simp
    then show ?thesis
      using False len idx zero sl1 front' r' hs
      by (simp add: sha1_holds_def sha1_byte_def Let_def del: of_nat_Suc)
  qed
qed

lemma sha1_update_holds:
  "sha1_holds s H m \<Longrightarrow> sha1_holds (sha1_update s p) H (m @ p)"
  unfolding sha1_update_def
proof (induction p arbitrary: s m)
  case (Cons x p)
  from Cons.IH [OF sha1_byte_holds [OF Cons.prems, of x]] show ?case by simp
qed simp

lemma sha1_init_holds: "length (sbuf s) = 64 \<Longrightarrow> sha1_holds (sha1_init s) sha1_iv []"
  by (simp add: sha1_holds_def sha1_init_def fips_blocks.simps [of _ "[]"])

section \<open>Padding and output\<close>

lemma pad_count_cases: "r < 64 \<Longrightarrow> (120 - r) mod 64 = (if r \<le> 56 then 56 - r else 120 - (r :: nat))"
proof (cases "r \<le> 56")
  case True
  then have "120 - r = (56 - r) + 64" by simp
  then have "(120 - r) mod 64 = (56 - r) mod 64" by (simp only: mod_add_self2)
  with True show ?thesis by simp
qed simp

lemma pad_count_Suc: "(120 - Suc n mod 64) mod 64 = (119 - n mod 64) mod (64 :: nat)"
proof (cases "Suc (n mod 64) = 64")
  case True
  then have "n mod 64 = 63" by simp
  then show ?thesis by (simp add: mod_Suc)
qed (simp add: mod_Suc)

lemma pad_count_below:
  "r < 64 \<Longrightarrow> r \<noteq> 56 \<Longrightarrow> Suc r \<noteq> 64 \<Longrightarrow> (120 - r) mod 64 = Suc ((120 - Suc r) mod (64 :: nat))"
  using pad_count_cases [of r] pad_count_cases [of "Suc r"] by auto

lemma pad_count_step:
  "n mod 64 \<noteq> 56 \<Longrightarrow> (120 - n mod 64) mod 64 = Suc ((120 - Suc n mod 64) mod (64 :: nat))"
proof (cases "Suc (n mod 64) = 64")
  case True
  then have "n mod 64 = 63" by simp
  then show ?thesis by (simp add: mod_Suc)
next
  case False
  assume "n mod 64 \<noteq> 56"
  with False show ?thesis using pad_count_below [of "n mod 64"] by (simp add: mod_Suc)
qed

lemma sha1_zeros_holds:
  assumes "sha1_holds s H m" and "(120 - length m mod 64) mod 64 \<le> fuel"
  shows "\<exists>s'. sha1_zeros fuel s = Some s'
    \<and> sha1_holds s' H (m @ replicate ((120 - length m mod 64) mod 64) 0)"
  using assms
proof (induction fuel arbitrary: s m)
  case (0 s m)
  have u: "unat (slen s AND 63) = length m mod 64"
    using 0 unat_mod64 [of "length m"] by (simp add: sha1_holds_def)
  have "length m mod 64 = 56"
    using 0 pad_count_cases [of "length m mod 64"] by (simp split: if_splits)
  moreover from this have "slen s AND 63 = 56"
    using u by (simp add: word_unat_eq_iff)
  ultimately show ?case using 0 by (simp add: sha1_zeros.simps)
next
  case (Suc fuel s m)
  have u: "unat (slen s AND 63) = length m mod 64"
    using Suc.prems(1) unat_mod64 [of "length m"] by (simp add: sha1_holds_def)
  show ?case
  proof (cases "length m mod 64 = 56")
    case True
    then have "slen s AND 63 = 56" using u by (simp add: word_unat_eq_iff)
    with True Suc.prems show ?thesis by (simp add: sha1_zeros.simps)
  next
    case False
    let ?k = "(120 - length (m @ [0 :: byte]) mod 64) mod 64"
    have k: "(120 - length m mod 64) mod 64 = Suc ?k"
      using pad_count_step [OF False] by simp
    have "slen s AND 63 \<noteq> 56" using u False by auto
    moreover have "sha1_holds (sha1_update s [0]) H (m @ [0])"
      using Suc.prems(1) by (rule sha1_update_holds)
    then obtain s' where "sha1_zeros fuel (sha1_update s [0]) = Some s'"
      "sha1_holds s' H ((m @ [0]) @ replicate ?k 0)"
      using Suc.IH [of "sha1_update s [0]" "m @ [0]"] Suc.prems(2) k by auto
    ultimately show ?thesis unfolding k by (simp add: sha1_zeros.simps)
  qed
qed

lemma sha1_out_concat: "sha1_out h = concat (map put_be32 (sha1_words h))"
  by (cases h) (simp add: sha1_out_def put_be32_def upt_rec)

lemma ucast_drop_bit_of_nat:
  assumes "n < two32"
  shows "(ucast (drop_bit k (of_nat n :: u32)) :: byte) = of_nat (n div 2 ^ k)"
proof -
  have "take_bit 32 n = n" using assms by (simp add: take_bit_nat_eq_self_iff)
  then have "unat (ucast (drop_bit k (of_nat n :: u32)) :: byte) = unat (of_nat (n div 2 ^ k) :: byte)"
    by (simp only: unsigned_ucast_eq unsigned_drop_bit_eq unsigned_of_nat) (simp add: drop_bit_eq_div)
  then show ?thesis by (simp add: word_unat_eq_iff)
qed

lemma sha1_lenb_be64:
  assumes "8 * n < two32"
  shows "sha1_lenb (of_nat n * 8) = fips_be64 (8 * n)"
  unfolding sha1_lenb_def fips_be64_def
proof (rule map_cong [OF refl])
  fix i :: nat
  assume "i \<in> set [0..<8]"
  have w: "(of_nat n * 8 :: u32) = of_nat (8 * n)" by simp
  show "(if i < 4 then 0 else ucast (drop_bit (8 * (7 - i)) (of_nat n * 8 :: u32)) :: byte)
      = of_nat (8 * n div 256 ^ (7 - i))"
  proof (cases "i < 4")
    case True
    have "(256 :: nat) ^ 4 \<le> 256 ^ (7 - i)"
      using True by (intro power_increasing) simp_all
    with assms have "8 * n < 256 ^ (7 - i)" by simp
    then have z: "8 * n div 256 ^ (7 - i) = 0" by simp
    have "(of_nat (8 * n div 256 ^ (7 - i)) :: byte) = 0" by (subst z) simp
    with True show ?thesis by (simp only: if_True)
  next
    case False
    have "(2 :: nat) ^ (8 * (7 - i)) = 256 ^ (7 - i)" by (simp add: power_mult)
    then show ?thesis
      unfolding w using False ucast_drop_bit_of_nat [OF assms, of "8 * (7 - i)"] by simp
  qed
qed

lemma sha1_final_fips:
  assumes "sha1_holds s sha1_iv m" and "8 * length m < two32"
  shows "sha1_final s = Some (fips_sha1 m)"
proof -
  have h1: "sha1_holds (sha1_update s [0x80]) sha1_iv (m @ [0x80])"
    by (rule sha1_update_holds) fact
  define k where "k = (119 - length m mod 64) mod 64"
  have k: "(120 - length (m @ [0x80 :: byte]) mod 64) mod 64 = k"
    by (simp add: k_def pad_count_Suc)
  obtain s2 where z: "sha1_zeros 64 (sha1_update s [0x80]) = Some s2"
    and h2: "sha1_holds s2 sha1_iv ((m @ [0x80]) @ replicate k 0)"
    using sha1_zeros_holds [OF h1, of 64] k by (auto simp: k_def)
  have "sha1_holds (sha1_update s2 (sha1_lenb (slen s * 8))) sha1_iv (fips_pad m)"
    using sha1_update_holds [OF h2, of "sha1_lenb (slen s * 8)"] assms
    by (simp add: fips_pad_def k_def sha1_holds_def sha1_lenb_be64)
  then show ?thesis
    by (simp add: sha1_final_def z sha1_out_concat fips_sha1_def sha1_holds_def)
qed

end
