(* ===== verification/Hmac.thy ===== *)
theory Hmac
  imports Sha1
begin

text \<open>
  HMAC-SHA1, PBKDF2 (passphrase to PMK) and the 802.11 PRF of \<open>wpa.h\<close>, against RFC 2104,
  RFC 8018 and IEEE 802.11 12.7.1.2. Local hash contexts start with whatever the stack held:
  that memory is the argument \<open>stk\<close>.
\<close>

section \<open>The code\<close>

record hmac_sha1 =
  hm_in :: sha1
  hm_out :: sha1

definition hmac_key :: "sha1 \<Rightarrow> byte list \<Rightarrow> byte list option" where
  "hmac_key stk key =
     (if length key > 64 then sha1_final (sha1_update (sha1_init stk) key) else Some key)"

definition hmac_sha1_init :: "sha1 \<Rightarrow> hmac_sha1 \<Rightarrow> byte list \<Rightarrow> hmac_sha1 option" where
  "hmac_sha1_init stk m key =
     (case hmac_key stk key of
        None \<Rightarrow> None
      | Some key' \<Rightarrow>
          (let k = map (\<lambda>i. (if i < length key' then key' ! i else 0) XOR 0x36) [0..<64];
               k2 = map (\<lambda>x. x XOR (0x36 XOR 0x5c)) k
           in Some (m\<lparr>hm_in := sha1_update (sha1_init (hm_in m)) k,
                      hm_out := sha1_update (sha1_init (hm_out m)) k2\<rparr>)))"

text \<open>The optional pieces of \<open>hmac_sha1_run\<close>: a null pointer is \<open>None\<close>.\<close>

definition sha1_piece :: "sha1 \<Rightarrow> byte list option \<Rightarrow> sha1" where
  "sha1_piece s d = (case d of None \<Rightarrow> s | Some p \<Rightarrow> sha1_update s p)"

definition hmac_sha1_run ::
  "hmac_sha1 \<Rightarrow> byte list \<Rightarrow> byte list option \<Rightarrow> byte list option \<Rightarrow> byte list option
    \<Rightarrow> byte list option" where
  "hmac_sha1_run m d0 d1 d2 d3 =
     (let s = sha1_piece (sha1_piece (sha1_piece (sha1_update (hm_in m) d0) d1) d2) d3
      in case sha1_final s of
           None \<Rightarrow> None
         | Some ih \<Rightarrow> sha1_final (sha1_update (hm_out m) ih))"

definition hmac_sha1_mac :: "sha1 \<Rightarrow> hmac_sha1 \<Rightarrow> byte list \<Rightarrow> byte list \<Rightarrow> byte list option" where
  "hmac_sha1_mac stk stk' key data =
     (case hmac_sha1_init stk stk' key of
        None \<Rightarrow> None
      | Some m \<Rightarrow> hmac_sha1_run m data None None None)"

text \<open>One turn of the \<open>for (i = 1; i < 4096; i++)\<close> loop of \<open>wpa_pmk\<close>, and the loop.\<close>

fun pmk_iter :: "hmac_sha1 \<Rightarrow> nat \<Rightarrow> byte list \<Rightarrow> byte list \<Rightarrow> byte list option" where
  "pmk_iter m 0 u t = Some t"
| "pmk_iter m (Suc n) u t =
     (case hmac_sha1_run m u None None None of
        None \<Rightarrow> None
      | Some u' \<Rightarrow> pmk_iter m n u' (map2 (XOR) t u'))"

definition pmk_block :: "hmac_sha1 \<Rightarrow> byte list \<Rightarrow> byte \<Rightarrow> byte list option" where
  "pmk_block m ssid blk =
     (case hmac_sha1_run m ssid (Some [0, 0, 0, blk]) None None of
        None \<Rightarrow> None
      | Some u \<Rightarrow> pmk_iter m 4095 u u)"

definition wpa_pmk :: "sha1 \<Rightarrow> hmac_sha1 \<Rightarrow> byte list \<Rightarrow> byte list \<Rightarrow> byte list option" where
  "wpa_pmk stk stk' pass ssid =
     (case hmac_sha1_init stk stk' pass of
        None \<Rightarrow> None
      | Some m \<Rightarrow>
          (case (pmk_block m ssid 1, pmk_block m ssid 2) of
             (Some t1, Some t2) \<Rightarrow> Some (take 20 t1 @ take 12 t2)
           | _ \<Rightarrow> None))"

text \<open>The \<open>while (pos < olen)\<close> loop of \<open>wpa_prf\<close>; \<open>pos\<close> is the length of what is written.\<close>

function prf_loop ::
  "hmac_sha1 \<Rightarrow> byte list \<Rightarrow> byte list \<Rightarrow> byte \<Rightarrow> nat \<Rightarrow> byte list \<Rightarrow> byte list option" where
  "prf_loop m label data i olen out =
     (if length out < olen then
        (case hmac_sha1_run m label (Some [0]) (Some data) (Some [i]) of
           None \<Rightarrow> None
         | Some mac \<Rightarrow>
             prf_loop m label data (i + 1) olen
               (out @ map (\<lambda>k. mac ! k) [0..<min 20 (olen - length out)]))
      else Some out)"
  by pat_completeness auto
termination
  by (relation "measure (\<lambda>(m, label, data, i, olen, out). olen - length out)") auto

declare prf_loop.simps [simp del]

definition wpa_prf ::
  "sha1 \<Rightarrow> hmac_sha1 \<Rightarrow> byte list \<Rightarrow> byte list \<Rightarrow> byte list \<Rightarrow> nat \<Rightarrow> byte list option" where
  "wpa_prf stk stk' key label data olen =
     (case hmac_sha1_init stk stk' key of
        None \<Rightarrow> None
      | Some m \<Rightarrow> prf_loop m label data 0 olen [])"

section \<open>The standards\<close>

definition rfc2104_key :: "byte list \<Rightarrow> byte list" where
  "rfc2104_key key =
     (let k = (if length key > 64 then fips_sha1 key else key)
      in k @ replicate (64 - length k) 0)"

definition rfc2104_hmac :: "byte list \<Rightarrow> byte list \<Rightarrow> byte list" where
  "rfc2104_hmac key text =
     fips_sha1 (map (\<lambda>b. b XOR 0x5c) (rfc2104_key key)
       @ fips_sha1 (map (\<lambda>b. b XOR 0x36) (rfc2104_key key) @ text))"

fun rfc8018_U :: "byte list \<Rightarrow> byte list \<Rightarrow> byte \<Rightarrow> nat \<Rightarrow> byte list" where
  "rfc8018_U pass salt i 0 = rfc2104_hmac pass (salt @ [0, 0, 0, i])"
| "rfc8018_U pass salt i (Suc n) = rfc2104_hmac pass (rfc8018_U pass salt i n)"

definition rfc8018_F :: "byte list \<Rightarrow> byte list \<Rightarrow> nat \<Rightarrow> byte \<Rightarrow> byte list" where
  "rfc8018_F pass salt c i =
     fold (\<lambda>n t. map2 (XOR) t (rfc8018_U pass salt i n)) [1..<c] (rfc8018_U pass salt i 0)"

definition ieee_prf :: "byte list \<Rightarrow> byte list \<Rightarrow> byte list \<Rightarrow> nat \<Rightarrow> byte list" where
  "ieee_prf key label data olen =
     take olen (concat (map (\<lambda>i. rfc2104_hmac key (label @ [0] @ data @ [of_nat i]))
       [0..<(olen + 19) div 20]))"

section \<open>HMAC\<close>

lemma length_fips_sha1 [simp]: "length (fips_sha1 m) = 20"
  by (cases "fips_blocks sha1_iv (fips_pad m)") (simp add: fips_sha1_def)

lemma length_rfc2104_key [simp]: "length (rfc2104_key key) = 64"
  by (simp add: rfc2104_key_def Let_def)

lemma length_rfc2104_hmac [simp]: "length (rfc2104_hmac key text) = 20"
  by (simp add: rfc2104_hmac_def)

lemma sha1_digest_fips:
  "length (sbuf stk) = 64 \<Longrightarrow> 8 * length m < two32
    \<Longrightarrow> sha1_final (sha1_update (sha1_init stk) m) = Some (fips_sha1 m)"
  using sha1_final_fips [OF sha1_update_holds [OF sha1_init_holds, of stk m]] by simp

text \<open>A context prepared by \<open>hmac_sha1_init\<close> for a key.\<close>

definition hmac_ready :: "hmac_sha1 \<Rightarrow> byte list \<Rightarrow> bool" where
  "hmac_ready m key \<longleftrightarrow>
     sha1_holds (hm_in m) sha1_iv (map (\<lambda>b. b XOR 0x36) (rfc2104_key key))
   \<and> sha1_holds (hm_out m) sha1_iv (map (\<lambda>b. b XOR 0x5c) (rfc2104_key key))"

lemma hmac_key_rfc:
  assumes "length (sbuf stk) = 64" and "8 * length key < two32"
  shows "\<exists>k. hmac_key stk key = Some k
    \<and> map (\<lambda>i. if i < length k then k ! i else 0) [0..<64] = rfc2104_key key"
proof -
  have pad: "map (\<lambda>i. if i < length k then k ! i else 0) [0..<64] = k @ replicate (64 - length k) (0 :: byte)"
    if "length k \<le> 64" for k :: "byte list"
    using that by (intro nth_equalityI) (auto simp: nth_append)
  show ?thesis
    using assms pad pad [of "fips_sha1 key"] by (auto simp: hmac_key_def rfc2104_key_def sha1_digest_fips Let_def)
qed

lemma hmac_sha1_init_ready:
  assumes "length (sbuf stk) = 64" and "8 * length key < two32"
    and "length (sbuf (hm_in m)) = 64" and "length (sbuf (hm_out m)) = 64"
  shows "\<exists>m'. hmac_sha1_init stk m key = Some m' \<and> hmac_ready m' key"
proof -
  obtain k where k: "hmac_key stk key = Some k"
    and pad: "map (\<lambda>i. if i < length k then k ! i else 0) [0..<64] = rfc2104_key key"
    using hmac_key_rfc [OF assms(1,2)] by auto
  have ik: "map (\<lambda>i. (if i < length k then k ! i else 0) XOR 0x36) [0..<64]
      = map (\<lambda>b. b XOR 0x36) (rfc2104_key key)"
    unfolding pad [symmetric] by simp
  have ok: "map (\<lambda>x. x XOR (0x36 XOR 0x5c)) (map (\<lambda>b. b XOR 0x36) (rfc2104_key key))
      = map (\<lambda>b. b XOR 0x5c) (rfc2104_key key)"
    by (simp add: xor.assoc)
  show ?thesis
    using sha1_update_holds [OF sha1_init_holds [OF assms(3)], of "map (\<lambda>b. b XOR 0x36) (rfc2104_key key)"]
      sha1_update_holds [OF sha1_init_holds [OF assms(4)], of "map (\<lambda>b. b XOR 0x5c) (rfc2104_key key)"]
    unfolding hmac_sha1_init_def k option.case Let_def ik ok hmac_ready_def by simp
qed

definition piece :: "byte list option \<Rightarrow> byte list" where
  "piece d = (case d of None \<Rightarrow> [] | Some p \<Rightarrow> p)"

lemma piece_simps [simp]: "piece None = []" "piece (Some p) = p"
  by (simp_all add: piece_def)

lemma sha1_piece_holds: "sha1_holds s H m \<Longrightarrow> sha1_holds (sha1_piece s d) H (m @ piece d)"
  by (cases d) (auto simp: sha1_piece_def piece_def intro: sha1_update_holds)

lemma hmac_sha1_run_rfc:
  assumes "hmac_ready m key"
    and "8 * (64 + length d0 + length (piece d1) + length (piece d2) + length (piece d3)) < two32"
  shows "hmac_sha1_run m d0 d1 d2 d3
    = Some (rfc2104_hmac key (d0 @ piece d1 @ piece d2 @ piece d3))"
proof -
  have "sha1_holds (sha1_piece (sha1_piece (sha1_piece (sha1_update (hm_in m) d0) d1) d2) d3) sha1_iv
      (map (\<lambda>b. b XOR 0x36) (rfc2104_key key) @ d0 @ piece d1 @ piece d2 @ piece d3)"
    using assms(1) sha1_piece_holds [OF sha1_piece_holds [OF sha1_piece_holds
        [OF sha1_update_holds [of "hm_in m" sha1_iv]]]]
    by (fastforce simp: hmac_ready_def)
  from sha1_final_fips [OF this] assms(2)
  have inner: "sha1_final (sha1_piece (sha1_piece (sha1_piece (sha1_update (hm_in m) d0) d1) d2) d3)
      = Some (fips_sha1 (map (\<lambda>b. b XOR 0x36) (rfc2104_key key) @ d0 @ piece d1 @ piece d2 @ piece d3))"
    by simp
  let ?ih = "fips_sha1 (map (\<lambda>b. b XOR 0x36) (rfc2104_key key) @ d0 @ piece d1 @ piece d2 @ piece d3)"
  have "sha1_holds (sha1_update (hm_out m) ?ih) sha1_iv (map (\<lambda>b. b XOR 0x5c) (rfc2104_key key) @ ?ih)"
    using assms(1) by (auto simp: hmac_ready_def intro: sha1_update_holds)
  from sha1_final_fips [OF this] show ?thesis
    by (simp add: hmac_sha1_run_def Let_def inner rfc2104_hmac_def)
qed

section \<open>PBKDF2 and the PRF\<close>

lemma length_rfc8018_U [simp]: "length (rfc8018_U pass salt i n) = 20"
  by (cases n) simp_all

lemma length_rfc8018_F [simp]: "length (rfc8018_F pass salt c i) = 20"
  unfolding rfc8018_F_def by (rule fold_invariant_list) simp_all

lemma pmk_iter_rfc:
  assumes "hmac_ready m pass"
  shows "pmk_iter m k (rfc8018_U pass salt i n) t
    = Some (fold (\<lambda>j t. map2 (XOR) t (rfc8018_U pass salt i j)) [Suc n..<Suc n + k] t)"
proof (induction k arbitrary: n t)
  case (Suc k)
  have "hmac_sha1_run m (rfc8018_U pass salt i n) None None None = Some (rfc8018_U pass salt i (Suc n))"
    using hmac_sha1_run_rfc [OF assms, of "rfc8018_U pass salt i n" None None None] by simp
  moreover have "[Suc n..<Suc n + Suc k] = Suc n # [Suc (Suc n)..<Suc (Suc n) + k]"
    by (simp add: upt_rec)
  ultimately show ?case using Suc.IH [of "Suc n"] by (simp del: rfc8018_U.simps)
qed simp

lemma pmk_block_rfc:
  assumes "hmac_ready m pass" and "8 * (68 + length ssid) < two32"
  shows "pmk_block m ssid i = Some (rfc8018_F pass ssid 4096 i)"
proof -
  have "hmac_sha1_run m ssid (Some [0, 0, 0, i]) None None = Some (rfc8018_U pass ssid i 0)"
    using hmac_sha1_run_rfc [OF assms(1), of ssid "Some [0, 0, 0, i]" None None] assms(2) by simp
  then show ?thesis
    using pmk_iter_rfc [OF assms(1), of 4095 ssid i 0]
    by (simp add: pmk_block_def rfc8018_F_def del: rfc8018_U.simps)
qed

lemma map_nth_take: "n \<le> length xs \<Longrightarrow> map (\<lambda>k. xs ! k) [0..<n] = take n xs"
  by (intro nth_equalityI) simp_all

lemma length_concat_blocks: "(\<And>i. length (T i) = 20) \<Longrightarrow> length (concat (map T [0..<k])) = 20 * k"
  by (induction k) simp_all

lemma prf_loop_rfc:
  assumes m: "hmac_ready m key" and len: "8 * (66 + length label + length data) < two32"
    and T: "T = (\<lambda>i. rfc2104_hmac key (label @ [0] @ data @ [of_nat i]))"
    and N: "N = (olen + 19) div 20" and "i \<le> N"
  shows "prf_loop m label data (of_nat i) olen (take olen (concat (map T [0..<i])))
    = Some (take olen (concat (map T [0..<N])))"
  using \<open>i \<le> N\<close>
proof (induction "N - i" arbitrary: i)
  case 0
  then have "i = N" by simp
  moreover have "olen \<le> 20 * N" using N by linarith
  moreover have "length (concat (map T [0..<N])) = 20 * N"
    by (rule length_concat_blocks) (simp add: T)
  ultimately show ?case by (simp add: prf_loop.simps)
next
  case (Suc k)
  then have "20 * i < olen" using N by linarith
  have L: "length (concat (map T [0..<i])) = 20 * i"
    by (rule length_concat_blocks) (simp add: T)
  then have full: "take olen (concat (map T [0..<i])) = concat (map T [0..<i])"
    using \<open>20 * i < olen\<close> by simp
  have mac: "hmac_sha1_run m label (Some [0]) (Some data) (Some [of_nat i]) = Some (T i)"
    using hmac_sha1_run_rfc [OF m, of label "Some [0]" "Some data" "Some [of_nat i]"] len
    by (simp add: T)
  have "length (T i) = 20" by (simp add: T)
  then have "concat (map T [0..<i]) @ map (\<lambda>k. T i ! k) [0..<min 20 (olen - 20 * i)]
      = take olen (concat (map T [0..<Suc i]))"
    using L \<open>20 * i < olen\<close> by (simp add: map_nth_take min_def)
  moreover have "prf_loop m label data (of_nat (Suc i)) olen (take olen (concat (map T [0..<Suc i])))
      = Some (take olen (concat (map T [0..<N])))"
    using Suc by (intro Suc.hyps(1)) simp_all
  ultimately show ?case
    unfolding full using mac L \<open>20 * i < olen\<close>
    by (subst prf_loop.simps) (simp add: add.commute)
qed

text \<open>
  C7: for every passphrase and SSID the box accepts, \<open>wpa_pmk\<close> computes
  PBKDF2-HMAC-SHA1 (RFC 8018) with 4096 iterations and 32 octets of output, where HMAC is
  that of RFC 2104 and SHA-1 that of FIPS 180-4, whatever the stack memory of the hash
  contexts held before.
\<close>

theorem wpa_pmk_pbkdf2:
  assumes "length (sbuf stk) = 64" and "length (sbuf (hm_in stk')) = 64"
    and "length (sbuf (hm_out stk')) = 64"
    and "8 * length pass < two32" and "8 * (68 + length ssid) < two32"
  shows "wpa_pmk stk stk' pass ssid
    = Some (take 32 (rfc8018_F pass ssid 4096 1 @ rfc8018_F pass ssid 4096 2))"
proof -
  obtain m where "hmac_sha1_init stk stk' pass = Some m" and "hmac_ready m pass"
    using hmac_sha1_init_ready [OF assms(1,4,2,3)] by auto
  then show ?thesis
    using assms(5) by (simp add: wpa_pmk_def pmk_block_rfc)
qed

definition stale_sha1 :: sha1 where
  "stale_sha1 = \<lparr>sh = sha1_iv, slen = 7, sbuf = replicate 64 0xcc\<rparr>"

definition stale_hmac :: hmac_sha1 where
  "stale_hmac = \<lparr>hm_in = stale_sha1, hm_out = stale_sha1\<rparr>"

theorem wpa_pmk_pbkdf2_witness:
  "wpa_pmk stale_sha1 stale_hmac [0x70, 0x77] [0x61, 0x70]
    = Some (take 32 (rfc8018_F [0x70, 0x77] [0x61, 0x70] 4096 1
        @ rfc8018_F [0x70, 0x77] [0x61, 0x70] 4096 2))"
  by (rule wpa_pmk_pbkdf2) (simp_all add: stale_sha1_def stale_hmac_def)

text \<open>
  \<open>wpa_prf\<close> computes the PRF of IEEE 802.11 (HMAC over label, a zero octet, the data and a
  counter, truncated to the length asked for) and always returns, for every output length; the
  counter octet wraps after 256 blocks as the C counter does.
\<close>

theorem wpa_prf_ieee:
  assumes "length (sbuf stk) = 64" and "length (sbuf (hm_in stk')) = 64"
    and "length (sbuf (hm_out stk')) = 64"
    and "8 * length key < two32" and "8 * (66 + length label + length data) < two32"
  shows "wpa_prf stk stk' key label data olen = Some (ieee_prf key label data olen)"
proof -
  obtain m where "hmac_sha1_init stk stk' key = Some m" and ready: "hmac_ready m key"
    using hmac_sha1_init_ready [OF assms(1,4,2,3)] by auto
  then show ?thesis
    using prf_loop_rfc [OF ready assms(5) refl refl, of 0 olen]
    by (simp add: wpa_prf_def ieee_prf_def)
qed

theorem wpa_prf_ieee_witness:
  "wpa_prf stale_sha1 stale_hmac [1, 2, 3] [0x50, 0x54, 0x4b] [9, 9] 48
    = Some (ieee_prf [1, 2, 3] [0x50, 0x54, 0x4b] [9, 9] 48)"
  by (rule wpa_prf_ieee) (simp_all add: stale_sha1_def stale_hmac_def)

end
