(* ===== verification/Aes.thy ===== *)
theory Aes
  imports Bytes
begin

text \<open>
  AES-128 and the RFC 3394 key unwrap of \<open>wpa.h\<close>. The lazily filled static table
  \<open>aes_inv_sbox\<close> is an argument and a result of \<open>aes128_decrypt\<close>. Round keys, blocks and
  wrapped keys are byte lists. The key wrap of the standard, which the box only ever
  receives, is defined for comparison.
\<close>

section \<open>The code\<close>

definition aes_sbox :: "byte list" where
  "aes_sbox = [
    0x63, 0x7c, 0x77, 0x7b, 0xf2, 0x6b, 0x6f, 0xc5, 0x30, 0x01, 0x67, 0x2b, 0xfe, 0xd7, 0xab, 0x76,
    0xca, 0x82, 0xc9, 0x7d, 0xfa, 0x59, 0x47, 0xf0, 0xad, 0xd4, 0xa2, 0xaf, 0x9c, 0xa4, 0x72, 0xc0,
    0xb7, 0xfd, 0x93, 0x26, 0x36, 0x3f, 0xf7, 0xcc, 0x34, 0xa5, 0xe5, 0xf1, 0x71, 0xd8, 0x31, 0x15,
    0x04, 0xc7, 0x23, 0xc3, 0x18, 0x96, 0x05, 0x9a, 0x07, 0x12, 0x80, 0xe2, 0xeb, 0x27, 0xb2, 0x75,
    0x09, 0x83, 0x2c, 0x1a, 0x1b, 0x6e, 0x5a, 0xa0, 0x52, 0x3b, 0xd6, 0xb3, 0x29, 0xe3, 0x2f, 0x84,
    0x53, 0xd1, 0x00, 0xed, 0x20, 0xfc, 0xb1, 0x5b, 0x6a, 0xcb, 0xbe, 0x39, 0x4a, 0x4c, 0x58, 0xcf,
    0xd0, 0xef, 0xaa, 0xfb, 0x43, 0x4d, 0x33, 0x85, 0x45, 0xf9, 0x02, 0x7f, 0x50, 0x3c, 0x9f, 0xa8,
    0x51, 0xa3, 0x40, 0x8f, 0x92, 0x9d, 0x38, 0xf5, 0xbc, 0xb6, 0xda, 0x21, 0x10, 0xff, 0xf3, 0xd2,
    0xcd, 0x0c, 0x13, 0xec, 0x5f, 0x97, 0x44, 0x17, 0xc4, 0xa7, 0x7e, 0x3d, 0x64, 0x5d, 0x19, 0x73,
    0x60, 0x81, 0x4f, 0xdc, 0x22, 0x2a, 0x90, 0x88, 0x46, 0xee, 0xb8, 0x14, 0xde, 0x5e, 0x0b, 0xdb,
    0xe0, 0x32, 0x3a, 0x0a, 0x49, 0x06, 0x24, 0x5c, 0xc2, 0xd3, 0xac, 0x62, 0x91, 0x95, 0xe4, 0x79,
    0xe7, 0xc8, 0x37, 0x6d, 0x8d, 0xd5, 0x4e, 0xa9, 0x6c, 0x56, 0xf4, 0xea, 0x65, 0x7a, 0xae, 0x08,
    0xba, 0x78, 0x25, 0x2e, 0x1c, 0xa6, 0xb4, 0xc6, 0xe8, 0xdd, 0x74, 0x1f, 0x4b, 0xbd, 0x8b, 0x8a,
    0x70, 0x3e, 0xb5, 0x66, 0x48, 0x03, 0xf6, 0x0e, 0x61, 0x35, 0x57, 0xb9, 0x86, 0xc1, 0x1d, 0x9e,
    0xe1, 0xf8, 0x98, 0x11, 0x69, 0xd9, 0x8e, 0x94, 0x9b, 0x1e, 0x87, 0xe9, 0xce, 0x55, 0x28, 0xdf,
    0x8c, 0xa1, 0x89, 0x0d, 0xbf, 0xe6, 0x42, 0x68, 0x41, 0x99, 0x2d, 0x0f, 0xb0, 0x54, 0xbb, 0x16]"

definition aes_xt :: "byte \<Rightarrow> byte" where
  "aes_xt x = push_bit 1 x XOR (if x AND 0x80 \<noteq> 0 then 0x1b else 0)"

function aes_mul_loop :: "byte \<Rightarrow> byte \<Rightarrow> byte \<Rightarrow> byte" where
  "aes_mul_loop a b r =
     (if b = 0 then r
      else aes_mul_loop (aes_xt a) (drop_bit 1 b) (if b AND 1 \<noteq> 0 then r XOR a else r))"
  by pat_completeness auto
termination
proof (relation "measure (\<lambda>(a, b, r). unat b)")
  fix a b r :: byte
  assume "b \<noteq> 0"
  then have "unat b \<noteq> 0" by (simp add: unat_eq_0)
  then show "((aes_xt a, drop_bit 1 b, if b AND 1 \<noteq> 0 then r XOR a else r), a, b, r)
      \<in> measure (\<lambda>(a, b, r). unat b)"
    by (simp add: unat_drop_bit)
qed simp

declare aes_mul_loop.simps [simp del]

definition aes_mul :: "byte \<Rightarrow> byte \<Rightarrow> byte" where
  "aes_mul a b = aes_mul_loop a b 0"

text \<open>
  Key expansion: one turn of the \<open>for (i = 16; i < 176; i += 4)\<close> loop appends four bytes;
  \<open>n\<close> counts words, so \<open>i = 4 * n\<close> and \<open>i & 15\<close> is zero when \<open>4\<close> divides \<open>n\<close>.
\<close>

definition aes_sub :: "byte \<Rightarrow> byte" where
  "aes_sub x = aes_sbox ! unat x"

fun aes_key_step :: "nat \<Rightarrow> byte list \<times> byte \<Rightarrow> byte list \<times> byte" where
  "aes_key_step n (rk, rcon) =
     (let i = 4 * n;
          t = map (\<lambda>j. rk ! (i - 4 + j)) [0..<4];
          t' = (if i mod 16 = 0
                then [aes_sub (t ! 1) XOR rcon, aes_sub (t ! 2), aes_sub (t ! 3), aes_sub (t ! 0)]
                else t);
          rcon' = (if i mod 16 = 0 then aes_xt rcon else rcon)
      in (rk @ map (\<lambda>j. rk ! (i - 16 + j) XOR t' ! j) [0..<4], rcon'))"

definition aes128_key :: "byte list \<Rightarrow> byte list" where
  "aes128_key key = fst (fold aes_key_step [4..<44] (map (\<lambda>i. key ! i) [0..<16], 1))"

definition aes_perm :: "nat \<Rightarrow> nat" where
  "aes_perm i = (i + 4 * (i mod 4)) mod 16"

definition aes_add_key :: "byte list \<Rightarrow> nat \<Rightarrow> byte list \<Rightarrow> byte list" where
  "aes_add_key rk r b = map (\<lambda>i. b ! i XOR rk ! (16 * r + i)) [0..<16]"

definition aes_sub_shift :: "byte list \<Rightarrow> byte list" where
  "aes_sub_shift b = map (\<lambda>i. aes_sub (b ! aes_perm i)) [0..<16]"

fun aes_mix_col :: "byte \<times> byte \<times> byte \<times> byte \<Rightarrow> byte list" where
  "aes_mix_col (a0, a1, a2, a3) =
     (let x = a0 XOR a1 XOR a2 XOR a3
      in [a0 XOR (x XOR aes_xt (a0 XOR a1)), a1 XOR (x XOR aes_xt (a1 XOR a2)),
          a2 XOR (x XOR aes_xt (a2 XOR a3)), a3 XOR (x XOR aes_xt (a3 XOR a0))])"

fun aes_unmix_col :: "byte \<times> byte \<times> byte \<times> byte \<Rightarrow> byte list" where
  "aes_unmix_col (a0, a1, a2, a3) =
     [aes_mul a0 14 XOR aes_mul a1 11 XOR aes_mul a2 13 XOR aes_mul a3 9,
      aes_mul a0 9 XOR aes_mul a1 14 XOR aes_mul a2 11 XOR aes_mul a3 13,
      aes_mul a0 13 XOR aes_mul a1 9 XOR aes_mul a2 14 XOR aes_mul a3 11,
      aes_mul a0 11 XOR aes_mul a1 13 XOR aes_mul a2 9 XOR aes_mul a3 14]"

definition aes_columns :: "(byte \<times> byte \<times> byte \<times> byte \<Rightarrow> byte list) \<Rightarrow> byte list \<Rightarrow> byte list" where
  "aes_columns f t =
     concat (map (\<lambda>c. f (t ! (4 * c), t ! (4 * c + 1), t ! (4 * c + 2), t ! (4 * c + 3))) [0..<4])"

definition aes_enc_round :: "byte list \<Rightarrow> nat \<Rightarrow> byte list \<Rightarrow> byte list" where
  "aes_enc_round rk r b =
     (let t = aes_sub_shift b;
          t' = (if r = 10 then t else aes_columns aes_mix_col t)
      in aes_add_key rk r t')"

definition aes128_encrypt :: "byte list \<Rightarrow> byte list \<Rightarrow> byte list" where
  "aes128_encrypt rk b = fold (aes_enc_round rk) [1..<11] (aes_add_key rk 0 b)"

text \<open>The static table of the inverse substitution, filled on first use.\<close>

definition aes_inv_fill :: "byte list \<Rightarrow> byte list" where
  "aes_inv_fill tab =
     (if tab ! 0 = 0
      then fold (\<lambda>i tab. tab[unat (aes_sbox ! i) := of_nat i]) [0..<256] tab else tab)"

text \<open>\<open>b[(i + 4 * (i & 3)) & 15] = aes_inv_sbox[t[i]]\<close> for all sixteen positions.\<close>

definition aes_unsub_shift :: "byte list \<Rightarrow> byte list \<Rightarrow> byte list \<Rightarrow> byte list" where
  "aes_unsub_shift tab t b = fold (\<lambda>i b. b[aes_perm i := tab ! unat (t ! i)]) [0..<16] b"

definition aes_dec_round :: "byte list \<Rightarrow> byte list \<Rightarrow> nat \<Rightarrow> byte list \<Rightarrow> byte list" where
  "aes_dec_round tab rk r b =
     (let t = aes_add_key rk r b;
          t' = (if r \<noteq> 10 then aes_columns aes_unmix_col t else t)
      in aes_unsub_shift tab t' b)"

definition aes128_decrypt :: "byte list \<Rightarrow> byte list \<Rightarrow> byte list \<Rightarrow> byte list \<times> byte list" where
  "aes128_decrypt tab rk b =
     (let tab' = aes_inv_fill tab
      in (tab', aes_add_key rk 0 (fold (aes_dec_round tab' rk) (rev [1..<11]) b)))"

end
