(* ===== verification/AesInverse.thy ===== *)
theory AesInverse
  imports Aes
begin

text \<open>
  The AES-128 of \<open>wpa.h\<close> is a permutation of the 16-byte blocks for every key schedule:
  \<open>aes128_decrypt\<close> undoes \<open>aes128_encrypt\<close> and the other way round. Each of the four layers
  is shown to be invertible, and a fold of invertible rounds is undone by the reversed fold.
\<close>

section \<open>The substitution tables\<close>

definition aes_inv_table :: "byte list" where
  "aes_inv_table = [
    0x52, 0x09, 0x6a, 0xd5, 0x30, 0x36, 0xa5, 0x38, 0xbf, 0x40, 0xa3, 0x9e, 0x81, 0xf3, 0xd7, 0xfb,
    0x7c, 0xe3, 0x39, 0x82, 0x9b, 0x2f, 0xff, 0x87, 0x34, 0x8e, 0x43, 0x44, 0xc4, 0xde, 0xe9, 0xcb,
    0x54, 0x7b, 0x94, 0x32, 0xa6, 0xc2, 0x23, 0x3d, 0xee, 0x4c, 0x95, 0x0b, 0x42, 0xfa, 0xc3, 0x4e,
    0x08, 0x2e, 0xa1, 0x66, 0x28, 0xd9, 0x24, 0xb2, 0x76, 0x5b, 0xa2, 0x49, 0x6d, 0x8b, 0xd1, 0x25,
    0x72, 0xf8, 0xf6, 0x64, 0x86, 0x68, 0x98, 0x16, 0xd4, 0xa4, 0x5c, 0xcc, 0x5d, 0x65, 0xb6, 0x92,
    0x6c, 0x70, 0x48, 0x50, 0xfd, 0xed, 0xb9, 0xda, 0x5e, 0x15, 0x46, 0x57, 0xa7, 0x8d, 0x9d, 0x84,
    0x90, 0xd8, 0xab, 0x00, 0x8c, 0xbc, 0xd3, 0x0a, 0xf7, 0xe4, 0x58, 0x05, 0xb8, 0xb3, 0x45, 0x06,
    0xd0, 0x2c, 0x1e, 0x8f, 0xca, 0x3f, 0x0f, 0x02, 0xc1, 0xaf, 0xbd, 0x03, 0x01, 0x13, 0x8a, 0x6b,
    0x3a, 0x91, 0x11, 0x41, 0x4f, 0x67, 0xdc, 0xea, 0x97, 0xf2, 0xcf, 0xce, 0xf0, 0xb4, 0xe6, 0x73,
    0x96, 0xac, 0x74, 0x22, 0xe7, 0xad, 0x35, 0x85, 0xe2, 0xf9, 0x37, 0xe8, 0x1c, 0x75, 0xdf, 0x6e,
    0x47, 0xf1, 0x1a, 0x71, 0x1d, 0x29, 0xc5, 0x89, 0x6f, 0xb7, 0x62, 0x0e, 0xaa, 0x18, 0xbe, 0x1b,
    0xfc, 0x56, 0x3e, 0x4b, 0xc6, 0xd2, 0x79, 0x20, 0x9a, 0xdb, 0xc0, 0xfe, 0x78, 0xcd, 0x5a, 0xf4,
    0x1f, 0xdd, 0xa8, 0x33, 0x88, 0x07, 0xc7, 0x31, 0xb1, 0x12, 0x10, 0x59, 0x27, 0x80, 0xec, 0x5f,
    0x60, 0x51, 0x7f, 0xa9, 0x19, 0xb5, 0x4a, 0x0d, 0x2d, 0xe5, 0x7a, 0x9f, 0x93, 0xc9, 0x9c, 0xef,
    0xa0, 0xe0, 0x3b, 0x4d, 0xae, 0x2a, 0xf5, 0xb0, 0xc8, 0xeb, 0xbb, 0x3c, 0x83, 0x53, 0x99, 0x61,
    0x17, 0x2b, 0x04, 0x7e, 0xba, 0x77, 0xd6, 0x26, 0xe1, 0x69, 0x14, 0x63, 0x55, 0x21, 0x0c, 0x7d]"

lemma aes_inv_fill_table: "aes_inv_fill (replicate 256 0) = aes_inv_table"
  unfolding aes_inv_table_def by code_simp

lemma aes_inv_after_sbox: "list_all (\<lambda>i. aes_inv_table ! unat (aes_sbox ! i) = of_nat i) [0..<256]"
  by code_simp

lemma aes_sbox_after_inv: "list_all (\<lambda>i. aes_sbox ! unat (aes_inv_table ! i) = of_nat i) [0..<256]"
  by code_simp

lemma aes_inv_of_sub [simp]: "aes_inv_table ! unat (aes_sub x) = x"
  using aes_inv_after_sbox by (simp add: list_all_iff aes_sub_def)

lemma aes_sub_of_inv [simp]: "aes_sub (aes_inv_table ! unat x) = x"
  using aes_sbox_after_inv by (simp add: list_all_iff aes_sub_def)

lemma aes_inv_table_0: "aes_inv_table ! 0 = 0x52"
  by (simp add: aes_inv_table_def)

text \<open>The two states the static table can be in.\<close>

definition aes_tab_ok :: "byte list \<Rightarrow> bool" where
  "aes_tab_ok tab \<longleftrightarrow> tab = replicate 256 0 \<or> tab = aes_inv_table"

lemma aes_inv_fill_ok: "aes_tab_ok tab \<Longrightarrow> aes_inv_fill tab = aes_inv_table"
  using aes_inv_fill_table aes_inv_table_0 by (auto simp: aes_tab_ok_def aes_inv_fill_def)

section \<open>MixColumns\<close>

lemma bit7_mask: "x AND 0x80 \<noteq> 0 \<longleftrightarrow> bit (x :: byte) 7"
  using and_exp_eq_0_iff_not_bit [of x 7] by simp

lemma aes_xt_xor: "aes_xt (x XOR y) = aes_xt x XOR aes_xt y"
  unfolding aes_xt_def bit7_mask
  by (auto simp: bit_xor_iff push_bit_xor xor.assoc xor.left_commute)

lemma aes_mul_consts:
  "aes_mul a 9 = a XOR aes_xt (aes_xt (aes_xt a))"
  "aes_mul a 11 = a XOR aes_xt a XOR aes_xt (aes_xt (aes_xt a))"
  "aes_mul a 13 = a XOR aes_xt (aes_xt a) XOR aes_xt (aes_xt (aes_xt a))"
  "aes_mul a 14 = aes_xt a XOR aes_xt (aes_xt a) XOR aes_xt (aes_xt (aes_xt a))"
  by (simp_all add: aes_mul_def aes_mul_loop.simps xor.assoc)

lemma xor_cancel_left: "a XOR (a XOR b) = (b :: byte)"
  by (simp add: xor.assoc [symmetric])

lemma aes_unmix_mix:
  "aes_mix_col (a0, a1, a2, a3) = [b0, b1, b2, b3] \<Longrightarrow> aes_unmix_col (b0, b1, b2, b3) = [a0, a1, a2, a3]"
  by (auto simp: aes_mul_consts aes_xt_xor Let_def xor.assoc xor.commute xor.left_commute xor_cancel_left)

lemma aes_mix_unmix:
  "aes_unmix_col (a0, a1, a2, a3) = [b0, b1, b2, b3] \<Longrightarrow> aes_mix_col (b0, b1, b2, b3) = [a0, a1, a2, a3]"
  by (auto simp: aes_mul_consts aes_xt_xor Let_def xor.assoc xor.commute xor.left_commute xor_cancel_left)

lemma length_16_cases:
  assumes "length b = 16"
  obtains x0 x1 x2 x3 x4 x5 x6 x7 x8 x9 x10 x11 x12 x13 x14 x15 where
    "b = [x0, x1, x2, x3, x4, x5, x6, x7, x8, x9, x10, x11, x12, x13, x14, x15]"
  using assms by (auto simp: numeral_eq_Suc length_Suc_conv)

lemma upt_0_4: "[0..<4] = [0, 1, 2, 3]"
  by (simp add: upt_rec)

lemma aes_columns_undo:
  assumes "length t = 16"
    and "\<And>a0 a1 a2 a3. length (f (a0, a1, a2, a3)) = 4"
    and "\<And>a0 a1 a2 a3 b0 b1 b2 b3.
      f (a0, a1, a2, a3) = [b0, b1, b2, b3] \<Longrightarrow> g (b0, b1, b2, b3) = [a0, a1, a2, a3]"
  shows "aes_columns g (aes_columns f t) = t"
proof -
  have ex: "\<exists>b0 b1 b2 b3. f (a0, a1, a2, a3) = [b0, b1, b2, b3]" for a0 a1 a2 a3
    using assms(2) [of a0 a1 a2 a3] by (auto simp: numeral_eq_Suc length_Suc_conv)
  obtain x0 x1 x2 x3 x4 x5 x6 x7 x8 x9 x10 x11 x12 x13 x14 x15 where
    t: "t = [x0, x1, x2, x3, x4, x5, x6, x7, x8, x9, x10, x11, x12, x13, x14, x15]"
    using assms(1) by (rule length_16_cases)
  obtain y0 y1 y2 y3 where 1: "f (x0, x1, x2, x3) = [y0, y1, y2, y3]" using ex by blast
  obtain y4 y5 y6 y7 where 2: "f (x4, x5, x6, x7) = [y4, y5, y6, y7]" using ex by blast
  obtain y8 y9 y10 y11 where 3: "f (x8, x9, x10, x11) = [y8, y9, y10, y11]" using ex by blast
  obtain y12 y13 y14 y15 where 4: "f (x12, x13, x14, x15) = [y12, y13, y14, y15]" using ex by blast
  show ?thesis
    by (simp add: t aes_columns_def upt_0_4 1 2 3 4 assms(3) [OF 1] assms(3) [OF 2]
        assms(3) [OF 3] assms(3) [OF 4])
qed

lemma length_aes_columns [len_simps]:
  "(\<And>a. length (f a) = 4) \<Longrightarrow> length (aes_columns f t) = 16"
  by (simp add: aes_columns_def upt_0_4)

lemma length_mix [len_simps]: "length (aes_mix_col a) = 4" "length (aes_unmix_col a) = 4"
  by (cases a; simp add: Let_def)+

lemma aes_unmix_mix_columns [simp]:
  "length t = 16 \<Longrightarrow> aes_columns aes_unmix_col (aes_columns aes_mix_col t) = t"
  by (rule aes_columns_undo) (simp_all only: len_simps aes_unmix_mix)

lemma aes_mix_unmix_columns [simp]:
  "length t = 16 \<Longrightarrow> aes_columns aes_mix_col (aes_columns aes_unmix_col t) = t"
  by (rule aes_columns_undo) (simp_all only: len_simps aes_mix_unmix)

section \<open>SubBytes, ShiftRows and AddRoundKey\<close>

definition aes_unperm :: "nat \<Rightarrow> nat" where
  "aes_unperm j = (j + 12 * (j mod 4)) mod 16"

lemma aes_perm_unperm: "j < 16 \<Longrightarrow> aes_perm (aes_unperm j) = j \<and> aes_unperm (aes_perm j) = j"
proof -
  have "list_all (\<lambda>j. aes_perm (aes_unperm j) = j \<and> aes_unperm (aes_perm j) = j) [0..<16]"
    by code_simp
  then show "j < 16 \<Longrightarrow> ?thesis" by (simp add: list_all_iff)
qed

lemma aes_perm_less [simp]: "aes_perm i < 16" "aes_unperm i < 16"
  by (simp_all add: aes_perm_def aes_unperm_def)

lemma upt_0_16: "[0..<16] = [0, 1, 2, 3, 4, 5, 6, 7, 8, 9, 10, 11, 12, 13, 14, 15]"
  by (simp add: upt_rec)

lemma aes_unsub_shift_map:
  "length b = 16 \<Longrightarrow> aes_unsub_shift tab t b = map (\<lambda>j. tab ! unat (t ! aes_unperm j)) [0..<16]"
  by (erule length_16_cases)
    (simp add: aes_unsub_shift_def aes_perm_def aes_unperm_def upt_0_16)

lemma length_layers [len_simps]:
  "length (aes_add_key rk r b) = 16" "length (aes_sub_shift b) = 16"
  by (simp_all add: aes_add_key_def aes_sub_shift_def)

lemma aes_add_key_twice [simp]: "length b = 16 \<Longrightarrow> aes_add_key rk r (aes_add_key rk r b) = b"
  by (intro nth_equalityI) (simp_all add: aes_add_key_def xor.assoc)

lemma aes_unsub_sub [simp]:
  "length b = 16 \<Longrightarrow> length b' = 16 \<Longrightarrow> aes_unsub_shift aes_inv_table (aes_sub_shift b) b' = b"
  by (intro nth_equalityI) (simp_all add: aes_unsub_shift_map aes_sub_shift_def aes_perm_unperm)

lemma aes_sub_unsub [simp]:
  "length t = 16 \<Longrightarrow> length b' = 16 \<Longrightarrow> aes_sub_shift (aes_unsub_shift aes_inv_table t b') = t"
  by (intro nth_equalityI) (simp_all add: aes_unsub_shift_map aes_sub_shift_def aes_perm_unperm)

section \<open>Rounds and the whole cipher\<close>

lemma aes_dec_enc_round:
  "length b = 16 \<Longrightarrow> aes_dec_round aes_inv_table rk r (aes_enc_round rk r b) = b"
  by (simp add: aes_dec_round_def aes_enc_round_def Let_def len_simps)

lemma aes_enc_dec_round:
  "length b = 16 \<Longrightarrow> aes_enc_round rk r (aes_dec_round aes_inv_table rk r b) = b"
  by (simp add: aes_dec_round_def aes_enc_round_def Let_def len_simps)

lemma length_aes_round [len_simps]:
  "length (aes_enc_round rk r b) = 16"
  "length b = 16 \<Longrightarrow> length (aes_dec_round aes_inv_table rk r b) = 16"
  by (simp_all add: aes_enc_round_def aes_dec_round_def len_simps aes_unsub_shift_map Let_def)

lemma length_aes128_encrypt [len_simps]: "length (aes128_encrypt rk b) = 16"
  unfolding aes128_encrypt_def by (rule fold_invariant_list) (simp_all add: len_simps)

lemma aes128_decrypt_snd:
  "aes_tab_ok tab \<Longrightarrow> aes128_decrypt tab rk b = (aes_inv_table,
     aes_add_key rk 0 (fold (aes_dec_round aes_inv_table rk) (rev [1..<11]) b))"
  by (simp add: aes128_decrypt_def Let_def aes_inv_fill_ok)

lemma aes128_decrypt_encrypt:
  assumes "aes_tab_ok tab" and "length b = 16"
  shows "aes128_decrypt tab rk (aes128_encrypt rk b) = (aes_inv_table, b)"
proof -
  have "fold (aes_dec_round aes_inv_table rk) (rev [1..<11]) (aes128_encrypt rk b) = aes_add_key rk 0 b"
    unfolding aes128_encrypt_def
    by (rule fold_undo [where P = "\<lambda>b. length b = 16"]) (simp_all add: len_simps aes_dec_enc_round)
  then show ?thesis
    using assms by (simp add: aes128_decrypt_snd)
qed

lemma aes128_encrypt_decrypt:
  assumes "aes_tab_ok tab" and "length b = 16"
  shows "aes128_encrypt rk (snd (aes128_decrypt tab rk b)) = b"
proof -
  let ?d = "fold (aes_dec_round aes_inv_table rk) (rev [1..<11]) b"
  have "length ?d = 16"
    by (rule fold_invariant_list) (simp_all add: len_simps assms)
  then have "aes_add_key rk 0 (snd (aes128_decrypt tab rk b)) = ?d"
    using assms by (simp add: aes128_decrypt_snd)
  moreover have "fold (aes_enc_round rk) (rev (rev [1..<11])) ?d = b"
    by (rule fold_undo [where P = "\<lambda>b. length b = 16"])
      (simp_all add: len_simps aes_enc_dec_round assms)
  ultimately show ?thesis by (simp add: aes128_encrypt_def)
qed

lemma aes128_decrypt_tab: "aes_tab_ok tab \<Longrightarrow> fst (aes128_decrypt tab rk b) = aes_inv_table"
  by (simp add: aes128_decrypt_snd)

lemma length_aes128_decrypt [len_simps]: "length (snd (aes128_decrypt tab rk b)) = 16"
  by (simp add: aes128_decrypt_def Let_def len_simps)

lemma aes_tab_ok_table [simp]: "aes_tab_ok aes_inv_table" "aes_tab_ok (replicate 256 0)"
  by (simp_all add: aes_tab_ok_def)

text \<open>
  C37: \<open>aes128_decrypt\<close> is the inverse of \<open>aes128_encrypt\<close> in both directions, for every key
  schedule and every 16-byte block, whether or not the static inverse table was filled before;
  afterwards the table is filled.
\<close>

theorem aes128_decrypt_inverse:
  assumes "aes_tab_ok tab" and "length b = 16"
  shows "aes128_decrypt tab rk (aes128_encrypt rk b) = (aes_inv_table, b)
    \<and> aes128_encrypt rk (snd (aes128_decrypt tab rk b)) = b"
  using assms by (simp add: aes128_decrypt_encrypt aes128_encrypt_decrypt)

theorem aes128_decrypt_inverse_witness:
  "aes128_decrypt (replicate 256 0) (aes128_key (replicate 16 7))
      (aes128_encrypt (aes128_key (replicate 16 7)) (replicate 16 1)) = (aes_inv_table, replicate 16 1)
    \<and> aes128_encrypt (aes128_key (replicate 16 7))
      (snd (aes128_decrypt (replicate 256 0) (aes128_key (replicate 16 7)) (replicate 16 1)))
      = replicate 16 1"
  by (rule aes128_decrypt_inverse) simp_all

end
