(* ===== verification/KeyWrap.thy ===== *)
theory KeyWrap
  imports AesInverse
begin

text \<open>
  \<open>aes_unwrap\<close> of \<open>wpa.h\<close>, which takes the group key out of message 3 of the 4-way handshake,
  against the key wrap of RFC 3394 (index-based description).
\<close>

section \<open>The code\<close>

definition slice :: "nat \<Rightarrow> nat \<Rightarrow> 'a list \<Rightarrow> 'a list" where
  "slice off n xs = take n (drop off xs)"

definition put_slice :: "nat \<Rightarrow> 'a list \<Rightarrow> 'a list \<Rightarrow> 'a list" where
  "put_slice off ys xs = take off xs @ ys @ drop (off + length ys) xs"

text \<open>\<open>a[k] ^ (k >= 4 ? t >> (8 * (7 - k)) : 0)\<close> for the eight bytes.\<close>

definition wrap_xor :: "u32 \<Rightarrow> byte list \<Rightarrow> byte list" where
  "wrap_xor t a = map (\<lambda>k. a ! k XOR (if k \<ge> 4 then ucast (drop_bit (8 * (7 - k)) t) else 0)) [0..<8]"

text \<open>The body of the two nested loops; the state is the table, \<open>a\<close> and \<open>out\<close>.\<close>

type_synonym unwrap_state = "byte list \<times> byte list \<times> byte list"

fun unwrap_step :: "byte list \<Rightarrow> nat \<Rightarrow> nat \<times> nat \<Rightarrow> unwrap_state \<Rightarrow> unwrap_state" where
  "unwrap_step rk n (j, i) (tab, a, out) =
     (let t = of_nat (n * j + i);
          (tab', b) = aes128_decrypt tab rk (wrap_xor t a @ slice (8 * (i - 1)) 8 out)
      in (tab', take 8 b, put_slice (8 * (i - 1)) (drop 8 b) out))"

text \<open>\<open>j\<close> runs from 5 down to 0 and, inside, \<open>i\<close> from \<open>n\<close> down to 1.\<close>

definition wrap_order :: "nat \<Rightarrow> (nat \<times> nat) list" where
  "wrap_order n = concat (map (\<lambda>j. map (Pair j) [1..<Suc n]) [0..<6])"

definition aes_unwrap ::
  "byte list \<Rightarrow> byte list \<Rightarrow> byte list \<Rightarrow> nat \<Rightarrow> byte list \<times> byte list option" where
  "aes_unwrap tab kek inp n =
     (let rk = aes128_key kek;
          (tab', a, out) = fold (unwrap_step rk n) (rev (wrap_order n))
             (tab, take 8 inp, take (8 * n) (drop 8 inp))
      in (tab', if a = replicate 8 0xa6 then Some out else None))"

section \<open>RFC 3394 key wrap\<close>

fun rfc3394_step :: "byte list \<Rightarrow> nat \<Rightarrow> nat \<times> nat \<Rightarrow> byte list \<times> byte list \<Rightarrow> byte list \<times> byte list" where
  "rfc3394_step rk n (j, i) (a, r) =
     (let b = aes128_encrypt rk (a @ slice (8 * (i - 1)) 8 r)
      in (wrap_xor (of_nat (n * j + i)) (take 8 b), put_slice (8 * (i - 1)) (drop 8 b) r))"

definition rfc3394_wrap :: "byte list \<Rightarrow> byte list \<Rightarrow> byte list" where
  "rfc3394_wrap kek p =
     (let n = length p div 8;
          (a, r) = fold (rfc3394_step (aes128_key kek) n) (wrap_order n) (replicate 8 0xa6, p)
      in a @ r)"

section \<open>Slices\<close>

lemma length_slice [len_simps]: "off + n \<le> length xs \<Longrightarrow> length (slice off n xs) = n"
  by (simp add: slice_def)

lemma length_put_slice [len_simps]:
  "off + length ys \<le> length xs \<Longrightarrow> length (put_slice off ys xs) = length xs"
  by (simp add: put_slice_def)

lemma slice_put_slice:
  "off + length ys \<le> length xs \<Longrightarrow> slice off (length ys) (put_slice off ys xs) = ys"
  by (simp add: slice_def put_slice_def)

lemma put_slice_put_slice:
  "off + length ys \<le> length xs \<Longrightarrow> length zs = length ys
    \<Longrightarrow> put_slice off zs (put_slice off ys xs) = put_slice off zs xs"
  by (simp add: put_slice_def)

lemma put_slice_slice: "off + n \<le> length xs \<Longrightarrow> put_slice off (slice off n xs) xs = xs"
  by (simp add: put_slice_def slice_def) (metis append_take_drop_id drop_drop add.commute)

lemma length_wrap_xor [len_simps]: "length (wrap_xor t a) = 8"
  by (simp add: wrap_xor_def)

lemma wrap_xor_twice [simp]: "length a = 8 \<Longrightarrow> wrap_xor t (wrap_xor t a) = a"
  by (intro nth_equalityI) (simp_all add: wrap_xor_def xor.assoc)

lemma wrap_order_range: "x \<in> set (wrap_order n) \<Longrightarrow> 1 \<le> snd x \<and> snd x \<le> n"
  by (auto simp: wrap_order_def)

section \<open>Unwrapping undoes wrapping, step by step\<close>

lemma slice_room: "1 \<le> i \<Longrightarrow> i \<le> n \<Longrightarrow> length r = 8 * n \<Longrightarrow> 8 * (i - 1) + 8 \<le> length (r :: byte list)"
  by simp

lemma unwrap_after_wrap_step:
  assumes "1 \<le> i" "i \<le> n" "length a = 8" "length r = 8 * n" "aes_tab_ok tab"
  shows "unwrap_step rk n (j, i) (tab, rfc3394_step rk n (j, i) (a, r)) = (aes_inv_table, a, r)"
proof -
  note room = slice_room [OF assms(1,2,4)]
  let ?b = "aes128_encrypt rk (a @ slice (8 * (i - 1)) 8 r)"
  have len: "length ?b = 16" by (rule length_aes128_encrypt)
  have "put_slice (8 * (i - 1)) (slice (8 * (i - 1)) 8 r) (put_slice (8 * (i - 1)) (drop 8 ?b) r) = r"
    using room len by (simp add: put_slice_put_slice put_slice_slice length_slice)
  moreover have "slice (8 * (i - 1)) 8 (put_slice (8 * (i - 1)) (drop 8 ?b) r) = drop 8 ?b"
    using room len slice_put_slice [of "8 * (i - 1)" "drop 8 ?b" r] by simp
  ultimately show ?thesis
    using assms room len by (simp add: Let_def aes128_decrypt_encrypt length_slice)
qed

lemma wrap_after_unwrap_step:
  assumes "1 \<le> i" "i \<le> n" "length a = 8" "length r = 8 * n" "aes_tab_ok tab"
  shows "rfc3394_step rk n (j, i) (snd (unwrap_step rk n (j, i) (tab, a, r))) = (a, r)"
proof -
  note room = slice_room [OF assms(1,2,4)]
  let ?c = "wrap_xor (of_nat (n * j + i)) a @ slice (8 * (i - 1)) 8 r"
  let ?b = "snd (aes128_decrypt tab rk ?c)"
  have len: "length ?b = 16" by (rule length_aes128_decrypt)
  have "slice (8 * (i - 1)) 8 (put_slice (8 * (i - 1)) (drop 8 ?b) r) = drop 8 ?b"
    using room len slice_put_slice [of "8 * (i - 1)" "drop 8 ?b" r] by simp
  moreover have "aes128_encrypt rk ?b = ?c"
    using room assms by (intro aes128_encrypt_decrypt) (simp_all add: len_simps)
  moreover have "put_slice (8 * (i - 1)) (slice (8 * (i - 1)) 8 r) (put_slice (8 * (i - 1)) (drop 8 ?b) r) = r"
    using room len by (simp add: put_slice_put_slice put_slice_slice length_slice)
  ultimately show ?thesis
    using assms len by (simp add: Let_def split_beta len_simps)
qed

section \<open>The whole unwrap\<close>

definition unwrap_pure :: "byte list \<Rightarrow> nat \<Rightarrow> nat \<times> nat \<Rightarrow> byte list \<times> byte list \<Rightarrow> byte list \<times> byte list" where
  "unwrap_pure rk n x s = snd (unwrap_step rk n x (aes_inv_table, s))"

definition wrap_lens :: "nat \<Rightarrow> byte list \<times> byte list \<Rightarrow> bool" where
  "wrap_lens n s \<longleftrightarrow> length (fst s) = 8 \<and> length (snd s) = 8 * n"

lemma unwrap_step_pure:
  "aes_tab_ok tab \<Longrightarrow> unwrap_step rk n x (tab, s) = (aes_inv_table, unwrap_pure rk n x s)"
  by (cases x; cases s) (simp add: unwrap_pure_def Let_def aes128_decrypt_snd split_beta)

lemma unwrap_fold_pure:
  "aes_tab_ok tab \<Longrightarrow> \<exists>tab'. aes_tab_ok tab'
     \<and> fold (unwrap_step rk n) xs (tab, s) = (tab', fold (unwrap_pure rk n) xs s)"
  by (induction xs arbitrary: tab s) (auto simp: unwrap_step_pure)

lemma wrap_step_lens:
  assumes "x \<in> set (wrap_order n)" and "wrap_lens n s"
  shows "wrap_lens n (rfc3394_step rk n x s)" and "wrap_lens n (unwrap_pure rk n x s)"
proof -
  obtain j i a r where [simp]: "x = (j, i)" "s = (a, r)" by (cases x, cases s) auto
  have i: "1 \<le> i" "i \<le> n" using wrap_order_range [OF assms(1)] by auto
  have r: "length r = 8 * n" using assms(2) by (simp add: wrap_lens_def)
  note room = slice_room [OF i r]
  show "wrap_lens n (rfc3394_step rk n x s)" and "wrap_lens n (unwrap_pure rk n x s)"
    using room r by (simp_all add: wrap_lens_def unwrap_pure_def Let_def split_beta len_simps)
qed

lemma unwrap_wrap_inverse:
  assumes "x \<in> set (wrap_order n)" and "wrap_lens n s"
  shows "unwrap_pure rk n x (rfc3394_step rk n x s) = s"
    and "rfc3394_step rk n x (unwrap_pure rk n x s) = s"
proof -
  obtain j i a r where [simp]: "x = (j, i)" "s = (a, r)" by (cases x, cases s) auto
  have "1 \<le> i" "i \<le> n" "length a = 8" "length r = 8 * n"
    using wrap_order_range [OF assms(1)] assms(2) by (auto simp: wrap_lens_def)
  then show "unwrap_pure rk n x (rfc3394_step rk n x s) = s"
    and "rfc3394_step rk n x (unwrap_pure rk n x s) = s"
    using unwrap_after_wrap_step [of i n a r aes_inv_table rk j]
      wrap_after_unwrap_step [of i n a r aes_inv_table rk j]
    by (simp_all add: unwrap_pure_def del: unwrap_step.simps rfc3394_step.simps)
qed

lemma unwrap_fold_wrap_fold:
  assumes "wrap_lens n s"
  shows "fold (unwrap_pure rk n) (rev (wrap_order n)) (fold (rfc3394_step rk n) (wrap_order n) s) = s"
    and "fold (rfc3394_step rk n) (wrap_order n) (fold (unwrap_pure rk n) (rev (wrap_order n)) s) = s"
proof -
  show "fold (unwrap_pure rk n) (rev (wrap_order n)) (fold (rfc3394_step rk n) (wrap_order n) s) = s"
    by (rule fold_undo [where P = "wrap_lens n"]) (simp_all add: assms wrap_step_lens unwrap_wrap_inverse)
  have "fold (rfc3394_step rk n) (rev (rev (wrap_order n))) (fold (unwrap_pure rk n) (rev (wrap_order n)) s) = s"
    by (rule fold_undo [where P = "wrap_lens n"]) (simp_all add: assms wrap_step_lens unwrap_wrap_inverse)
  then show "fold (rfc3394_step rk n) (wrap_order n) (fold (unwrap_pure rk n) (rev (wrap_order n)) s) = s"
    by simp
qed

lemma wrap_fold_lens:
  "wrap_lens n s \<Longrightarrow> wrap_lens n (fold (rfc3394_step rk n) (wrap_order n) s)"
  "wrap_lens n s \<Longrightarrow> wrap_lens n (fold (unwrap_pure rk n) (rev (wrap_order n)) s)"
  by (rule fold_invariant_list; simp add: wrap_step_lens)+

lemma aes_unwrap_pure:
  assumes "aes_tab_ok tab"
  shows "snd (aes_unwrap tab kek inp n) =
    (let (a, out) = fold (unwrap_pure (aes128_key kek) n) (rev (wrap_order n))
       (take 8 inp, take (8 * n) (drop 8 inp))
     in if a = replicate 8 0xa6 then Some out else None)"
proof -
  obtain tab' where "fold (unwrap_step (aes128_key kek) n) (rev (wrap_order n))
      (tab, take 8 inp, take (8 * n) (drop 8 inp))
    = (tab', fold (unwrap_pure (aes128_key kek) n) (rev (wrap_order n))
        (take 8 inp, take (8 * n) (drop 8 inp)))"
    using unwrap_fold_pure [OF assms] by blast
  then show ?thesis by (simp add: aes_unwrap_def Let_def split_beta)
qed


lemma length_rfc3394_wrap: "length p = 8 * n \<Longrightarrow> length (rfc3394_wrap kek p) = 8 * (n + 1)"
  using wrap_fold_lens(1) [of n "(replicate 8 0xa6, p)" "aes128_key kek"]
  by (simp add: rfc3394_wrap_def wrap_lens_def Let_def split_beta)


end
