(* ===== verification/UsbDisk.thy ===== *)
theory UsbDisk
  imports Bytes
begin

text \<open>
  Sector access of \<open>usbfat.h\<close>: \<open>ufs_bot_read\<close> (a SCSI READ(10) over Bulk-Only Transport),
  \<open>ufs_sectors\<close> (external reader, own READ(10), U-Boot's reader, in that order) and
  \<open>ufs_write_sector\<close>. The USB hardware, U-Boot's entry points and the hooks
  \<open>ufs_ext_read\<close> and \<open>ufs_ext_write\<close> are the environment record; they act on a world of
  arbitrary type. The statistics \<open>ufs_ticks\<close> (CPU cycle counter) and the console messages are
  left out. A buffer a callee fills is modelled by the bytes the callee wrote to it.
\<close>

section \<open>State and environment\<close>

record 'w usb_env =
  ext_read :: "('w \<Rightarrow> nat \<Rightarrow> nat \<Rightarrow> bool \<times> byte list \<times> 'w) option"
  ext_write :: "('w \<Rightarrow> nat \<Rightarrow> byte list \<Rightarrow> bool \<times> 'w) option"
  stick_present :: "'w \<Rightarrow> bool \<times> 'w"
  bulk_out :: "'w \<Rightarrow> nat \<Rightarrow> byte list \<Rightarrow> int \<times> int \<times> 'w"
  bulk_in :: "'w \<Rightarrow> nat \<Rightarrow> nat \<Rightarrow> int \<times> int \<times> byte list \<times> 'w"
  uboot_read :: "'w \<Rightarrow> nat \<Rightarrow> nat \<Rightarrow> nat \<times> byte list \<times> 'w"
  uboot_write :: "'w \<Rightarrow> nat \<Rightarrow> byte list \<Rightarrow> nat \<times> 'w"
  uboot_write_fn :: "'w \<Rightarrow> nat"

record 'w usb =
  world :: 'w
  usb_lost :: bool
  bot_dev :: bool
  bot_in :: nat
  bot_out :: nat
  bot_lun :: nat
  bot_tag :: nat
  usb_bytes :: nat

definition UFS_SECTOR :: nat where "UFS_SECTOR = 512"
definition UFS_BOT_MAX_SECTORS :: nat where "UFS_BOT_MAX_SECTORS = 256"
definition UFS_BOT_XFER :: nat where "UFS_BOT_XFER = 16384"

text \<open>Bytes written over the front of a buffer.\<close>

definition overwrite :: "'a list \<Rightarrow> 'a list \<Rightarrow> 'a list" where
  "overwrite new old = new @ drop (length new) old"

section \<open>READ(10) over Bulk-Only Transport\<close>

definition ufs_cbw :: "nat \<Rightarrow> nat \<Rightarrow> nat \<Rightarrow> nat \<Rightarrow> nat \<Rightarrow> byte list" where
  "ufs_cbw tag len lun lba n =
     ufs_put32 0x43425355 @ ufs_put32 tag @ ufs_put32 len @ [0x80, of_nat lun, 10]
     @ [0x28, 0, of_nat (drop_bit 24 lba), of_nat (drop_bit 16 lba), of_nat (drop_bit 8 lba),
        of_nat lba, 0, of_nat (drop_bit 8 n), of_nat n]
     @ replicate 7 0"

text \<open>The data phase, \<open>while (done < len)\<close>, in transfers of at most 16 KB.\<close>

function bot_data ::
  "'w usb_env \<Rightarrow> nat \<Rightarrow> nat \<Rightarrow> nat \<Rightarrow> byte list \<Rightarrow> 'w \<Rightarrow> bool \<times> byte list \<times> 'w" where
  "bot_data e ep len done dst w =
     (if done < len then
        (let k = (if len - done < UFS_BOT_XFER then len - done else UFS_BOT_XFER);
             (r, actual, d, w') = bulk_in e w ep k
         in if r < 0 \<or> actual \<noteq> int k then (False, dst @ d, w')
            else bot_data e ep len (done + k) (dst @ d) w')
      else (True, dst, w))"
  by pat_completeness auto
termination
  by (relation "measure (\<lambda>(e, ep, len, done, dst, w). len - done)") (auto simp: UFS_BOT_XFER_def)

declare bot_data.simps [simp del]

definition bot_csw_ok :: "byte list \<Rightarrow> nat \<Rightarrow> bool" where
  "bot_csw_ok s tag \<longleftrightarrow> s ! 0 = 0x55 \<and> s ! 1 = 0x53 \<and> s ! 2 = 0x42 \<and> s ! 3 = 0x53
     \<and> s ! 12 = 0 \<and> ufs_le32 s 4 = tag \<and> ufs_le32 s 8 = 0"

definition ufs_bot_read :: "'w usb_env \<Rightarrow> nat \<Rightarrow> nat \<Rightarrow> 'w usb \<Rightarrow> bool \<times> byte list \<times> 'w usb" where
  "ufs_bot_read e lba n u =
     (let len = mul32 n UFS_SECTOR;
          (r, actual, w1) = bulk_out e (world u) (bot_out u) (ufs_cbw (bot_tag u) len (bot_lun u) lba n)
      in if r < 0 \<or> actual \<noteq> 31 then (False, [], u\<lparr>world := w1\<rparr>)
         else
           (let (ok, dst, w2) = bot_data e (bot_in u) len 0 [] w1
            in if \<not> ok then (False, dst, u\<lparr>world := w2\<rparr>)
               else
                 (let (r3, actual3, s, w3) = bulk_in e w2 (bot_in u) 13
                  in if r3 < 0 \<or> actual3 \<noteq> 13 \<or> \<not> bot_csw_ok s (bot_tag u)
                     then (False, dst, u\<lparr>world := w3\<rparr>)
                     else (True, dst, u\<lparr>world := w3, bot_tag := add32 (bot_tag u) 1\<rparr>))))"

text \<open>The loop of \<open>ufs_sectors\<close> over READ(10) commands; returns how far it got.\<close>

function bot_sectors ::
  "'w usb_env \<Rightarrow> nat \<Rightarrow> nat \<Rightarrow> nat \<Rightarrow> byte list \<Rightarrow> 'w usb \<Rightarrow> nat \<times> byte list \<times> 'w usb" where
  "bot_sectors e start count got buf u =
     (if got < count then
        (let n = (if count - got < UFS_BOT_MAX_SECTORS then count - got else UFS_BOT_MAX_SECTORS);
             (ok, d, u') = ufs_bot_read e (add32 start got) n u
         in if \<not> ok then (got, take (got * UFS_SECTOR) buf @ d, u')
            else bot_sectors e start count (got + n) (take (got * UFS_SECTOR) buf @ d) u')
      else (got, buf, u))"
  by pat_completeness auto
termination
  by (relation "measure (\<lambda>(e, start, count, got, buf, u). count - got)")
    (auto simp: UFS_BOT_MAX_SECTORS_def)

declare bot_sectors.simps [simp del]

section \<open>Raw sector read and write\<close>

definition uboot_sectors ::
  "'w usb_env \<Rightarrow> nat \<Rightarrow> nat \<Rightarrow> byte list \<Rightarrow> 'w usb \<Rightarrow> bool \<times> byte list \<times> 'w usb" where
  "uboot_sectors e start count buf u =
     (let (got, d, w) = uboot_read e (world u) start count;
          u' = u\<lparr>world := w, usb_bytes := add32 (usb_bytes u) (mul32 got UFS_SECTOR)\<rparr>
      in if got \<noteq> count then (False, overwrite d buf, u'\<lparr>usb_lost := True\<rparr>)
         else (True, overwrite d buf, u'))"

definition check_present :: "'w usb_env \<Rightarrow> 'w usb \<Rightarrow> bool \<times> 'w usb" where
  "check_present e u =
     (let (p, w) = stick_present e (world u)
      in (p, if p then u\<lparr>world := w\<rparr> else u\<lparr>world := w, usb_lost := True\<rparr>))"

definition ufs_sectors ::
  "'w usb_env \<Rightarrow> nat \<Rightarrow> nat \<Rightarrow> 'w usb \<Rightarrow> bool \<times> byte list \<times> 'w usb" where
  "ufs_sectors e start count u =
     (case ext_read e of
        Some rd \<Rightarrow>
          if usb_lost u then (False, [], u)
          else
            (let (ok, d, w) = rd (world u) start count
             in if \<not> ok then (False, d, u\<lparr>world := w, usb_lost := True\<rparr>)
                else (True, d, u\<lparr>world := w, usb_bytes := add32 (usb_bytes u) (mul32 count UFS_SECTOR)\<rparr>))
      | None \<Rightarrow>
          if usb_lost u then (False, [], u)
          else
            (let (p, u1) = check_present e u
             in if \<not> p then (False, [], u1)
                else if bot_dev u1 then
                  (let (got, d, u2) = bot_sectors e start count 0 [] u1
                   in if got = count
                      then (True, d, u2\<lparr>usb_bytes := add32 (usb_bytes u2) (mul32 got UFS_SECTOR)\<rparr>)
                      else
                        (let (p3, u3) = check_present e (u2\<lparr>bot_dev := False\<rparr>)
                         in if \<not> p3 then (False, d, u3) else uboot_sectors e start count d u3))
                else uboot_sectors e start count [] u1))"

definition ufs_write_sector :: "'w usb_env \<Rightarrow> nat \<Rightarrow> byte list \<Rightarrow> 'w usb \<Rightarrow> bool \<times> 'w usb" where
  "ufs_write_sector e sec data u =
     (case ext_write e of
        Some wr \<Rightarrow> (let (ok, w) = wr (world u) sec data in (ok, u\<lparr>world := w\<rparr>))
      | None \<Rightarrow>
          if usb_lost u then (False, u)
          else
            (let (p, u1) = check_present e u;
                 fn = uboot_write_fn e (world u1)
             in if \<not> p then (False, u1)
                else if fn < 0x80000000 \<or> fn \<ge> 0x82000000 then (False, u1)
                else
                  (let (n, w) = uboot_write e (world u1) sec (take UFS_SECTOR data)
                   in (n = 1, u1\<lparr>world := w\<rparr>))))"

section \<open>A lost stick stays lost and reads nothing\<close>

lemma check_present_lost: "check_present e u = (p, u') \<Longrightarrow> \<not> p \<Longrightarrow> usb_lost u'"
  by (auto simp: check_present_def split: prod.splits if_splits)

lemma uboot_sectors_lost: "uboot_sectors e start count buf u = (ok, d, u') \<Longrightarrow> \<not> ok \<Longrightarrow> usb_lost u'"
  by (auto simp: uboot_sectors_def Let_def split: prod.splits if_splits)

lemma ufs_sectors_fail_lost:
  "ufs_sectors e start count u = (ok, d, u') \<Longrightarrow> \<not> ok \<Longrightarrow> usb_lost u'"
proof (cases "ext_read e")
  case (Some rd)
  assume "ufs_sectors e start count u = (ok, d, u')" "\<not> ok"
  with Some show ?thesis
    by (auto simp: ufs_sectors_def Let_def split: prod.splits if_splits)
next
  case None
  assume r: "ufs_sectors e start count u = (ok, d, u')" "\<not> ok"
  obtain p u1 where c: "check_present e u = (p, u1)" by fastforce
  obtain got d2 u2 where b: "bot_sectors e start count 0 [] u1 = (got, d2, u2)" by (rule prod_cases3)
  obtain p3 u3 where c3: "check_present e (u2\<lparr>bot_dev := False\<rparr>) = (p3, u3)" by fastforce
  have l1: "\<not> p \<Longrightarrow> usb_lost u1" by (rule check_present_lost [OF c])
  have l3: "\<not> p3 \<Longrightarrow> usb_lost u3" by (rule check_present_lost [OF c3])
  have lu: "uboot_sectors e start count buf v = (ok, d, u') \<Longrightarrow> usb_lost u'" for buf v
    using r(2) by (rule uboot_sectors_lost [rotated])
  show ?thesis
  proof (cases "usb_lost u")
    case True
    then show ?thesis using r None by (simp add: ufs_sectors_def)
  next
    case present: False
    show ?thesis
    proof (cases "p \<and> bot_dev u1")
      case True
      with present r None have "\<not> p3 \<and> u' = u3 \<or> uboot_sectors e start count d2 u3 = (ok, d, u')"
        by (simp add: ufs_sectors_def c b c3 split: if_splits)
      then show ?thesis using l3 lu by blast
    next
      case False
      with present r None have "\<not> p \<and> u' = u1 \<or> uboot_sectors e start count [] u1 = (ok, d, u')"
        by (auto simp: ufs_sectors_def c split: if_splits)
      then show ?thesis using l1 lu by blast
    qed
  qed
qed

lemma ufs_sectors_when_lost: "usb_lost u \<Longrightarrow> ufs_sectors e start count u = (False, [], u)"
  by (simp add: ufs_sectors_def split: option.splits)

section \<open>The interface the file system relies on\<close>

text \<open>
  A working disk with contents \<open>img\<close>: in every state that satisfies \<open>good\<close>, a read delivers
  the sectors asked for, of those with a 32-bit number, and leads to such a state.
\<close>

definition img_read :: "(nat \<Rightarrow> byte list) \<Rightarrow> nat \<Rightarrow> nat \<Rightarrow> byte list" where
  "img_read img start count = concat (map img [start..<start + count])"

locale working_disk =
  fixes e :: "'w usb_env" and img :: "nat \<Rightarrow> byte list" and good :: "'w usb \<Rightarrow> bool"
  assumes sector_length [simp]: "length (img s) = 512"
    and read_good: "good u \<Longrightarrow> start + count \<le> two32
      \<Longrightarrow> \<exists>u'. ufs_sectors e start count u = (True, img_read img start count, u') \<and> good u'"
begin

lemma length_img_read [simp]: "length (img_read img start count) = 512 * count"
  by (induction count) (simp_all add: img_read_def)

lemma img_read_split:
  "img_read img start (m + n) = img_read img start m @ img_read img (start + m) n"
  using upt_add_eq_append [of start "start + m" n] by (simp add: img_read_def add.assoc)

lemma img_read_one [simp]: "img_read img s 1 = img s"
  by (simp add: img_read_def)

end

text \<open>
  The environment of the NCAPPS system and of the tests on disk images: reads and writes go to
  the hooks, here a disk image in memory.
\<close>

definition image_read :: "(nat \<Rightarrow> byte list) \<Rightarrow> nat \<Rightarrow> nat \<Rightarrow> bool \<times> byte list \<times> (nat \<Rightarrow> byte list)" where
  "image_read w start count = (True, img_read w start count, w)"

definition image_write :: "(nat \<Rightarrow> byte list) \<Rightarrow> nat \<Rightarrow> byte list \<Rightarrow> bool \<times> (nat \<Rightarrow> byte list)" where
  "image_write w sec data = (True, w(sec := data))"

definition image_env :: "(nat \<Rightarrow> byte list) usb_env" where
  "image_env = \<lparr>ext_read = Some image_read, ext_write = Some image_write,
     stick_present = (\<lambda>w. (True, w)), bulk_out = (\<lambda>w _ _. (-1, 0, w)),
     bulk_in = (\<lambda>w _ _. (-1, 0, [], w)), uboot_read = (\<lambda>w _ _. (0, [], w)),
     uboot_write = (\<lambda>w _ _. (0, w)), uboot_write_fn = (\<lambda>_. 0)\<rparr>"

definition image_good :: "(nat \<Rightarrow> byte list) \<Rightarrow> (nat \<Rightarrow> byte list) usb \<Rightarrow> bool" where
  "image_good img u \<longleftrightarrow> \<not> usb_lost u \<and> world u = img"

text \<open>Any contents, cut or filled up to whole sectors.\<close>

definition sector_of :: "(nat \<Rightarrow> byte list) \<Rightarrow> nat \<Rightarrow> byte list" where
  "sector_of img s = take 512 (img s @ replicate 512 0)"

interpretation image_disk: working_disk image_env "sector_of img" "image_good (sector_of img)"
  for img :: "nat \<Rightarrow> byte list"
  by unfold_locales
    (auto simp: image_good_def ufs_sectors_def image_env_def image_read_def sector_of_def)

text \<open>
  The other provider: U-Boot's own reader, with a present stick and no own READ(10).
\<close>

definition uboot_image_read :: "(nat \<Rightarrow> byte list) \<Rightarrow> nat \<Rightarrow> nat \<Rightarrow> nat \<times> byte list \<times> (nat \<Rightarrow> byte list)" where
  "uboot_image_read w start count = (count, img_read w start count, w)"

definition uboot_env :: "(nat \<Rightarrow> byte list) usb_env" where
  "uboot_env = image_env\<lparr>ext_read := None, ext_write := None, uboot_read := uboot_image_read,
     uboot_write := (\<lambda>w sec d. (1, w(sec := d))), uboot_write_fn := (\<lambda>_. 0x81000000)\<rparr>"

definition uboot_good :: "(nat \<Rightarrow> byte list) \<Rightarrow> (nat \<Rightarrow> byte list) usb \<Rightarrow> bool" where
  "uboot_good img u \<longleftrightarrow> \<not> usb_lost u \<and> \<not> bot_dev u \<and> world u = img"

lemma uboot_image_sectors:
  "uboot_good img u \<Longrightarrow> ufs_sectors uboot_env start count u = (True, img_read img start count,
     u\<lparr>usb_bytes := add32 (usb_bytes u) (mul32 count UFS_SECTOR)\<rparr>)"
  by (simp add: uboot_good_def ufs_sectors_def uboot_env_def image_env_def uboot_image_read_def
      uboot_sectors_def check_present_def overwrite_def)

interpretation uboot_disk: working_disk uboot_env "sector_of img" "uboot_good (sector_of img)"
  for img :: "nat \<Rightarrow> byte list"
  by unfold_locales (simp_all add: sector_of_def uboot_image_sectors, simp add: uboot_good_def)

end
