(* ===== verification/UsbFat.thy ===== *)
theory UsbFat
  imports UsbDisk
begin

text \<open>
  The FAT16/FAT32 volume of \<open>usbfat.h\<close>: mounting (\<open>ufs_mount\<close>: partition table, boot
  sector, layout), the cached allocation table (\<open>ufs_fat_next\<close>, \<open>ufs_eoc\<close>,
  \<open>ufs_clus_sector\<close>). The module's static variables are the record \<open>ufs\<close>; those that
  \<open>ufs_mount\<close> computes from the boot sector are the record \<open>geometry\<close>.
\<close>

section \<open>State\<close>

record geometry =
  g_fat32 :: bool
  g_spc :: nat
  g_fat_start :: nat
  g_root_start :: nat
  g_root_sectors :: nat
  g_data_start :: nat
  g_root_clus :: nat
  g_clus_bytes :: nat

record 'w ufs =
  usb :: "'w usb"
  geo :: geometry
  fat_cached :: nat
  fatsec :: "byte list"
  ufs_sec :: "byte list"
  dcache :: "(byte list \<times> nat) list"
  dcache_next :: nat

section \<open>The allocation table\<close>

definition ufs_fat_value :: "bool \<Rightarrow> byte list \<Rightarrow> nat \<Rightarrow> nat" where
  "ufs_fat_value fat32 sec off =
     (if fat32
      then (let v = ufs_le32 sec off AND 0x0fffffff in if v \<ge> 0x0ffffff8 then 0x0fffffff else v)
      else (let v = ufs_le16 sec off in if v \<ge> 0xfff8 then 0x0fffffff else v))"

definition ufs_fat_next :: "'w usb_env \<Rightarrow> nat \<Rightarrow> 'w ufs \<Rightarrow> nat \<times> 'w ufs" where
  "ufs_fat_next e c s =
     (let off = (if g_fat32 (geo s) then mul32 c 4 else mul32 c 2);
          sec = add32 (g_fat_start (geo s)) (off div UFS_SECTOR)
      in if sec \<noteq> fat_cached s
         then
           (let (ok, d, u) = ufs_sectors e sec 1 (usb s);
                s' = s\<lparr>usb := u, fatsec := overwrite d (fatsec s)\<rparr>
            in if \<not> ok then (0x0fffffff, s')
               else (ufs_fat_value (g_fat32 (geo s)) (fatsec s') (off mod UFS_SECTOR),
                     s'\<lparr>fat_cached := sec\<rparr>))
         else (ufs_fat_value (g_fat32 (geo s)) (fatsec s) (off mod UFS_SECTOR), s))"

definition ufs_eoc :: "nat \<Rightarrow> bool" where
  "ufs_eoc c \<longleftrightarrow> c < 2 \<or> c \<ge> 0x0ffffff0"

definition ufs_clus_sector :: "geometry \<Rightarrow> nat \<Rightarrow> nat" where
  "ufs_clus_sector g c = add32 (g_data_start g) (mul32 (sub32 c 2) (g_spc g))"

lemma ufs_fat_value_le: "ufs_fat_value fat32 sec off \<le> 0x0fffffff"
proof -
  have "ufs_le16 sec off < 65536" by (rule ufs_le16_less)
  then show ?thesis by (auto simp: ufs_fat_value_def Let_def)
qed

lemma ufs_fat_next_le: "fst (ufs_fat_next e c s) \<le> 0x0fffffff"
  by (auto simp: ufs_fat_next_def Let_def ufs_fat_value_le split: prod.splits)

lemma ufs_fat_next_geo [simp]: "geo (snd (ufs_fat_next e c s)) = geo s"
  by (auto simp: ufs_fat_next_def Let_def split: prod.splits)

section \<open>Mounting\<close>

datatype mount_error =
  Unknown_build | No_device | Block_size | Sector_0 | No_partition | Bad_boot_sector | Fat12

text \<open>What U-Boot's device table says of the stick: type and block size (\<open>block_dev_desc_t\<close>).\<close>

record stick_desc =
  dev_type :: nat
  dev_blksz :: nat

definition ascii_FAT :: "byte list" where
  "ascii_FAT = [0x46, 0x41, 0x54]"

definition is_fat_boot :: "byte list \<Rightarrow> bool" where
  "is_fat_boot b \<longleftrightarrow> (b ! 0 = 0xeb \<or> b ! 0 = 0xe9) \<and> ufs_le16 b 11 = UFS_SECTOR
     \<and> (take 3 (drop 0x36 b) = ascii_FAT \<or> take 3 (drop 0x52 b) = ascii_FAT)"

definition fat_part_type :: "byte \<Rightarrow> bool" where
  "fat_part_type t \<longleftrightarrow> t = 0x01 \<or> t = 0x04 \<or> t = 0x06 \<or> t = 0x0b \<or> t = 0x0c \<or> t = 0x0e"

text \<open>The first FAT entry of the partition table: its start sector.\<close>

definition find_part :: "byte list \<Rightarrow> nat option" where
  "find_part b = map_option (\<lambda>i. ufs_le32 b (0x1be + 16 * i + 8))
     (find (\<lambda>i. fat_part_type (b ! (0x1be + 16 * i + 4))) [0..<4])"

text \<open>
  The layout and the number of clusters from the boot sector \<open>b\<close> of the partition at sector
  \<open>part\<close>.
\<close>

definition boot_layout :: "nat \<Rightarrow> byte list \<Rightarrow> geometry \<times> nat" where
  "boot_layout part b =
     (let spc = unat (b ! 13);
          rsvd = ufs_le16 b 14;
          nfats = unat (b ! 16);
          rootents = ufs_le16 b 17;
          totsec = (if ufs_le16 b 19 \<noteq> 0 then ufs_le16 b 19 else ufs_le32 b 32);
          fatsz = (if ufs_le16 b 22 \<noteq> 0 then ufs_le16 b 22 else ufs_le32 b 36);
          fat_start = add32 part rsvd;
          root_start = add32 fat_start (mul32 nfats fatsz);
          root_sectors = (rootents * 32 + UFS_SECTOR - 1) div UFS_SECTOR;
          data_start = add32 root_start root_sectors;
          clusters = sub32 totsec (sub32 data_start part) div spc
      in (\<lparr>g_fat32 = (clusters \<ge> 65525), g_spc = spc, g_fat_start = fat_start,
            g_root_start = root_start, g_root_sectors = root_sectors,
            g_data_start = data_start, g_root_clus = ufs_le32 b 44,
            g_clus_bytes = spc * UFS_SECTOR\<rparr>, clusters))"

text \<open>
  \<open>ufs_mount\<close> after the build and the device are known. \<open>bot_init\<close> stands for the USB
  descriptor scan \<open>ufs_bot_init\<close>, which only chooses between the two read paths.
\<close>

definition ufs_read_sec :: "'w usb_env \<Rightarrow> nat \<Rightarrow> 'w ufs \<Rightarrow> bool \<times> 'w ufs" where
  "ufs_read_sec e sec s =
     (let (ok, d, u) = ufs_sectors e sec 1 (usb s)
      in (ok, s\<lparr>usb := u, ufs_sec := overwrite d (ufs_sec s)\<rparr>))"

definition empty_dcache :: "(byte list \<times> nat) list" where
  "empty_dcache = replicate 8 ([], 0)"

text \<open>
  The end of \<open>ufs_mount\<close>: a volume that turns out to be FAT12 has already changed the layout
  variables, except the FAT type.
\<close>

definition mount_boot :: "nat \<Rightarrow> 'w ufs \<Rightarrow> (mount_error + unit) \<times> 'w ufs" where
  "mount_boot part s =
     (let b = ufs_sec s
      in if ufs_le16 b 11 \<noteq> UFS_SECTOR \<or> b ! 13 = 0 then (Inl Bad_boot_sector, s)
         else
           (let (g, clusters) = boot_layout part b
            in if clusters < 4085 then (Inl Fat12, s\<lparr>geo := g\<lparr>g_fat32 := g_fat32 (geo s)\<rparr>\<rparr>)
               else (Inr (), s\<lparr>geo := g, dcache := empty_dcache\<rparr>)))"

definition ufs_mount ::
  "'w usb_env \<Rightarrow> bool \<Rightarrow> stick_desc option \<Rightarrow> ('w usb \<Rightarrow> 'w usb) \<Rightarrow> 'w ufs
    \<Rightarrow> (mount_error + unit) \<times> 'w ufs" where
  "ufs_mount e build_known dev bot_init s =
     (if \<not> build_known then (Inl Unknown_build, s)
      else case dev of
        None \<Rightarrow> (Inl No_device, s)
      | Some d \<Rightarrow>
          if dev_type d = 0xff then (Inl No_device, s)
          else if dev_blksz d \<noteq> UFS_SECTOR then (Inl Block_size, s)
          else
            (let s0 = (if ext_read e = None then s\<lparr>usb := bot_init (usb s)\<rparr> else s);
                 (ok, s1) = ufs_read_sec e 0 s0;
                 b = ufs_sec s1
             in if \<not> ok \<or> b ! 510 \<noteq> 0x55 \<or> b ! 511 \<noteq> 0xaa then (Inl Sector_0, s1)
                else if is_fat_boot b then mount_boot 0 s1
                else
                  (case find_part b of
                     None \<Rightarrow> (Inl No_partition, s1)
                   | Some part \<Rightarrow>
                       (let (ok2, s2) = ufs_read_sec e part s1
                        in if \<not> ok2 then (Inl No_partition, s2) else mount_boot part s2))))"

section \<open>What mounting establishes\<close>

text \<open>A mounted geometry is usable: clusters are neither empty nor larger than 255 sectors.\<close>

definition geo_ok :: "geometry \<Rightarrow> bool" where
  "geo_ok g \<longleftrightarrow> 0 < g_spc g \<and> g_spc g \<le> 255 \<and> g_clus_bytes g = g_spc g * 512"

lemma boot_layout_ok: "b ! 13 \<noteq> 0 \<Longrightarrow> geo_ok (fst (boot_layout part b))"
  by (simp add: boot_layout_def Let_def geo_ok_def UFS_SECTOR_def unat_gt_0)

lemma mount_boot_ok: "mount_boot part s = (Inr (), s') \<Longrightarrow> geo_ok (geo s') \<and> dcache s' = empty_dcache"
  using boot_layout_ok [of "ufs_sec s" part]
  by (auto simp: mount_boot_def Let_def split: prod.splits if_splits)

lemma ufs_mount_inv:
  assumes "ufs_mount e known dev bot_init s = (Inr (), s')"
  obtains part s2 where "mount_boot part s2 = (Inr (), s')"
  using assms
  by (auto simp: ufs_mount_def Let_def split: if_splits option.splits prod.splits)

end
