(* ===== verification/FatFile.thy ===== *)
theory FatFile
  imports UsbFat
begin

text \<open>
  Open files of \<open>usbfat.h\<close>: \<open>ufs_load\<close> (fills the 64 KB buffer of a file with the sectors
  around the position, neighbouring clusters merged), \<open>ufs_read\<close>, \<open>ufs_seek\<close>. The main
  lemma is that reading through the buffer and the cluster chain returns the bytes of the file.
\<close>

section \<open>The code\<close>

definition UFS_CHUNK_SECTORS :: nat where "UFS_CHUNK_SECTORS = 128"

record ufile =
  f_size :: nat
  f_pos :: nat
  f_first :: nat
  f_clus :: nat
  f_clus_idx :: nat
  f_cstart :: nat
  f_clen :: nat
  f_cbuf :: "byte list"

text \<open>\<open>while (f->clus_idx < idx)\<close>: follow the chain; \<open>False\<close> when it ends early.\<close>

function ufs_walk ::
  "'w usb_env \<Rightarrow> nat \<Rightarrow> nat \<Rightarrow> nat \<Rightarrow> 'w ufs \<Rightarrow> bool \<times> nat \<times> nat \<times> 'w ufs" where
  "ufs_walk e idx c ci s =
     (if ci < idx then
        (let (c', s') = ufs_fat_next e c s
         in if ufs_eoc c' then (False, c', Suc ci, s') else ufs_walk e idx c' (Suc ci) s')
      else (True, c, ci, s))"
  by pat_completeness auto
termination
  by (relation "measure (\<lambda>(e, idx, c, ci, s). idx - ci)") auto

declare ufs_walk.simps [simp del]

text \<open>The loop that merges contiguous clusters; it stops because a table entry is below \<open>2 ^ 28\<close>.\<close>

function ufs_contig :: "'w usb_env \<Rightarrow> nat \<Rightarrow> nat \<Rightarrow> 'w ufs \<Rightarrow> nat \<times> 'w ufs" where
  "ufs_contig e c count s =
     (if count < UFS_CHUNK_SECTORS then
        (let (v, s') = ufs_fat_next e c s
         in if v \<noteq> add32 c 1 then (count, s')
            else ufs_contig e (add32 c 1) (add32 count (g_spc (geo s'))) s')
      else (count, s))"
  by pat_completeness auto
termination
proof (relation "measure (\<lambda>(e, c, count, s). if c \<le> 0x0fffffff then 0x0fffffff - c else 0x20000000)")
  fix e :: "'w usb_env" and c count s x v s'
  assume "x = ufs_fat_next e c s" "(v, s') = x" "\<not> v \<noteq> add32 c 1"
  then have le: "add32 c 1 \<le> 0x0fffffff"
    using ufs_fat_next_le [of e c s] by (metis fst_conv)
  have "c \<le> 0x0fffffff \<Longrightarrow> add32 c 1 = c + 1"
    by (rule add32_id) simp
  with le show "((e, add32 c 1, add32 count (g_spc (geo s')), s'), e, c, count, s)
      \<in> measure (\<lambda>(e, c, count, s). if c \<le> 0x0fffffff then 0x0fffffff - c else 0x20000000)"
    by auto
qed simp

declare ufs_contig.simps [simp del]

definition sector_floor :: "nat \<Rightarrow> nat" where
  "sector_floor pos = pos - pos mod UFS_SECTOR"

definition ufs_load :: "'w usb_env \<Rightarrow> ufile \<Rightarrow> 'w ufs \<Rightarrow> bool \<times> ufile \<times> 'w ufs" where
  "ufs_load e f s =
     (let idx = f_pos f div g_clus_bytes (geo s);
          sec_in = (f_pos f mod g_clus_bytes (geo s)) div UFS_SECTOR;
          f0 = (if idx < f_clus_idx f then f\<lparr>f_clus := f_first f, f_clus_idx := 0\<rparr> else f);
          (ok, c, ci, s1) = ufs_walk e idx (f_clus f0) (f_clus_idx f0) s;
          f1 = f0\<lparr>f_clus := c, f_clus_idx := ci\<rparr>
      in if \<not> ok \<or> ufs_eoc c then (False, f1, s1)
         else
           (let (n, s2) = ufs_contig e c (sub32 (g_spc (geo s1)) sec_in) s1;
                n1 = (if n > UFS_CHUNK_SECTORS then UFS_CHUNK_SECTORS else n);
                need = add32 (sub32 (f_size f) (sector_floor (f_pos f))) (UFS_SECTOR - 1) div UFS_SECTOR;
                n2 = (if n1 > need then need else n1);
                (ok2, d, u) = ufs_sectors e (add32 (ufs_clus_sector (geo s2) c) sec_in) n2 (usb s2);
                f2 = f1\<lparr>f_cbuf := overwrite d (f_cbuf f1)\<rparr>;
                s3 = s2\<lparr>usb := u\<rparr>
            in if \<not> ok2 then (False, f2, s3)
               else (True, f2\<lparr>f_cstart := sector_floor (f_pos f), f_clen := n2 * UFS_SECTOR\<rparr>, s3)))"

definition ufs_seek :: "ufile \<Rightarrow> nat \<Rightarrow> ufile" where
  "ufs_seek f pos = f\<lparr>f_pos := (if pos < f_size f then pos else f_size f)\<rparr>"

text \<open>
  The loop of \<open>ufs_read\<close>. A turn that transfers nothing would repeat for ever, so the loop runs
  on fuel and \<open>None\<close> means that it did not finish; \<open>len\<close> turns are enough for a good file
  (\<open>ufs_read_file\<close>).
\<close>

definition in_chunk :: "ufile \<Rightarrow> bool" where
  "in_chunk f \<longleftrightarrow> \<not> (f_pos f < f_cstart f \<or> f_pos f \<ge> add32 (f_cstart f) (f_clen f))"

definition ufs_copy :: "ufile \<Rightarrow> nat \<Rightarrow> byte list \<times> ufile" where
  "ufs_copy f left =
     (let n0 = sub32 (add32 (f_cstart f) (f_clen f)) (f_pos f);
          n = (if n0 > left then left else n0)
      in (take n (drop (f_pos f - f_cstart f) (f_cbuf f)), f\<lparr>f_pos := add32 (f_pos f) n\<rparr>))"

fun ufs_read_loop ::
  "'w usb_env \<Rightarrow> nat \<Rightarrow> nat \<Rightarrow> byte list \<Rightarrow> ufile \<Rightarrow> 'w ufs \<Rightarrow> (byte list \<times> ufile \<times> 'w ufs) option" where
  "ufs_read_loop e fuel len out f s =
     (if length out < len then
        (case fuel of
           0 \<Rightarrow> None
         | Suc fuel' \<Rightarrow>
             if in_chunk f then
               (let (bs, f') = ufs_copy f (len - length out)
                in ufs_read_loop e fuel' len (out @ bs) f' s)
             else
               (let (ok, f1, s1) = ufs_load e f s
                in if \<not> ok then Some (out, f1, s1)
                   else (let (bs, f') = ufs_copy f1 (len - length out)
                         in ufs_read_loop e fuel' len (out @ bs) f' s1)))
      else Some (out, f, s))"

declare ufs_read_loop.simps [simp del]

definition ufs_read ::
  "'w usb_env \<Rightarrow> ufile \<Rightarrow> nat \<Rightarrow> 'w ufs \<Rightarrow> (byte list \<times> ufile \<times> 'w ufs) option" where
  "ufs_read e f len s =
     (let avail = sub32 (f_size f) (f_pos f);
          n = (if len > avail then avail else len)
      in ufs_read_loop e n n [] f s)"

section \<open>The file on the disk\<close>

definition fat_entry :: "(nat \<Rightarrow> byte list) \<Rightarrow> geometry \<Rightarrow> nat \<Rightarrow> nat" where
  "fat_entry img g c =
     (let off = (if g_fat32 g then c * 4 else c * 2)
      in ufs_fat_value (g_fat32 g) (img (g_fat_start g + off div 512)) (off mod 512))"

definition clus_base :: "geometry \<Rightarrow> nat \<Rightarrow> nat" where
  "clus_base g c = g_data_start g + (c - 2) * g_spc g"

text \<open>The bytes of a chain of clusters, and the file of a given size stored in them.\<close>

definition chain_bytes :: "(nat \<Rightarrow> byte list) \<Rightarrow> geometry \<Rightarrow> nat list \<Rightarrow> byte list" where
  "chain_bytes img g cl = concat (map (\<lambda>c. img_read img (clus_base g c) (g_spc g)) cl)"

definition file_bytes :: "(nat \<Rightarrow> byte list) \<Rightarrow> geometry \<Rightarrow> nat list \<Rightarrow> nat \<Rightarrow> byte list" where
  "file_bytes img g cl n = take n (chain_bytes img g cl)"

text \<open>
  A chain: data clusters inside the 32-bit sector range, each linked to the next by the
  allocation table.
\<close>

definition good_chain :: "(nat \<Rightarrow> byte list) \<Rightarrow> geometry \<Rightarrow> nat list \<Rightarrow> bool" where
  "good_chain img g cl \<longleftrightarrow> cl \<noteq> []
     \<and> (\<forall>c \<in> set cl. \<not> ufs_eoc c \<and> clus_base g c + g_spc g \<le> two32)
     \<and> (\<forall>i. Suc i < length cl \<longrightarrow> fat_entry img g (cl ! i) = cl ! Suc i)"

definition good_geo :: "geometry \<Rightarrow> bool" where
  "good_geo g \<longleftrightarrow> geo_ok g \<and> g_fat_start g + 0x200000 < 0xffffffff"

definition vol_ok :: "('w usb \<Rightarrow> bool) \<Rightarrow> (nat \<Rightarrow> byte list) \<Rightarrow> geometry \<Rightarrow> 'w ufs \<Rightarrow> bool" where
  "vol_ok good img g s \<longleftrightarrow> good (usb s) \<and> geo s = g \<and> length (fatsec s) = 512
     \<and> (fat_cached s = 0xffffffff \<or> fatsec s = img (fat_cached s))"

definition file_ok :: "(nat \<Rightarrow> byte list) \<Rightarrow> geometry \<Rightarrow> nat list \<Rightarrow> ufile \<Rightarrow> bool" where
  "file_ok img g cl f \<longleftrightarrow> f_size f \<le> 0xfffffe00 \<and> f_size f \<le> length (chain_bytes img g cl)
     \<and> f_pos f \<le> f_size f \<and> f_first f = cl ! 0
     \<and> f_clus_idx f < length cl \<and> f_clus f = cl ! f_clus_idx f
     \<and> f_cstart f + f_clen f \<le> 0xfffffe00
     \<and> f_cstart f + f_clen f \<le> length (chain_bytes img g cl)
     \<and> take (f_clen f) (f_cbuf f) = take (f_clen f) (drop (f_cstart f) (chain_bytes img g cl))
     \<and> f_clen f \<le> length (f_cbuf f)"

section \<open>Positions in sectors\<close>

lemma sector_floor_eq: "sector_floor pos = 512 * (pos div 512)"
  unfolding sector_floor_def UFS_SECTOR_def by (rule minus_mod_eq_mult_div)

lemma pos_sectors:
  fixes pos spc :: nat
  assumes "0 < spc"
  shows "pos div 512 = pos div (spc * 512) * spc + pos mod (spc * 512) div 512"
    and "pos mod (spc * 512) div 512 < spc"
proof -
  have "pos mod (512 * spc) = 512 * (pos div 512 mod spc) + pos mod 512" by (rule mod_mult2_eq)
  then have m: "pos mod (spc * 512) div 512 = pos div 512 mod spc" by (simp add: mult.commute)
  have d: "pos div (spc * 512) = pos div 512 div spc"
    by (metis div_mult2_eq mult.commute)
  show "pos div 512 = pos div (spc * 512) * spc + pos mod (spc * 512) div 512"
    unfolding m d by simp
  show "pos mod (spc * 512) div 512 < spc"
    unfolding m using assms by simp
qed

lemma need_sectors:
  assumes "pos < size'" and "size' \<le> 0xfffffe00"
  defines "need \<equiv> add32 (sub32 size' (sector_floor pos)) (UFS_SECTOR - 1) div UFS_SECTOR"
  shows "need = (size' + 511) div 512 - pos div 512" and "0 < need"
proof -
  let ?q = "pos div 512"
  have q: "512 * ?q \<le> pos" by simp
  have s: "sub32 size' (sector_floor pos) = size' - 512 * ?q"
    unfolding sector_floor_eq by (rule sub32_id) (use assms(1,2) q in simp_all)
  have a: "add32 (size' - 512 * ?q) 511 = size' - 512 * ?q + 511"
    by (rule add32_id) (use assms(2) in simp)
  have "size' - 512 * ?q + 511 = size' + 511 - 512 * ?q" using assms(1) q by linarith
  then have n: "need = (size' + 511 - 512 * ?q) div 512"
    by (simp add: need_def s UFS_SECTOR_def a)
  also have "\<dots> = (size' + 511) div 512 - ?q" by simp
  finally show e: "need = (size' + 511) div 512 - ?q" .
  have "Suc ?q = (pos + 512) div 512" by simp
  also have "\<dots> \<le> (size' + 511) div 512" by (rule div_le_mono) (use assms(1) in simp)
  finally show "0 < need" using e by simp
qed

section \<open>Reading through the chain\<close>

context working_disk
begin

lemma fat_next_entry:
  assumes "vol_ok good img g s" and "good_geo g" and "c \<le> 0x0fffffff"
  shows "\<exists>s'. ufs_fat_next e c s = (fat_entry img g c, s') \<and> vol_ok good img g s'"
proof -
  define off where "off = (if g_fat32 g then c * 4 else c * 2)"
  define sec where "sec = g_fat_start g + off div 512"
  have off: "off \<le> 0x3ffffffc" using assms(3) by (auto simp: off_def)
  then have "off div 512 \<le> 0x1fffff" by (simp add: div_le_mono [of off "0x3ffffffc" 512, simplified])
  then have sec_b: "sec < 0xffffffff" using assms(2) by (simp add: sec_def good_geo_def)
  have g: "geo s = g" using assms(1) by (simp add: vol_ok_def)
  have o: "(if g_fat32 g then mul32 c 4 else mul32 c 2) = off"
    using assms off by (auto simp: off_def u32_simps)
  have a: "add32 (g_fat_start g) (off div 512) = sec"
    using sec_b by (simp add: sec_def u32_simps)
  have entry: "fat_entry img g c = ufs_fat_value (g_fat32 g) (img sec) (off mod 512)"
    by (simp add: fat_entry_def Let_def off_def sec_def)
  show ?thesis
  proof (cases "sec = fat_cached s")
    case True
    then have "fatsec s = img sec" using assms(1) sec_b by (auto simp: vol_ok_def)
    with True show ?thesis
      unfolding ufs_fat_next_def Let_def g o UFS_SECTOR_def a entry using assms(1) by simp
  next
    case False
    obtain u where u: "ufs_sectors e sec 1 (usb s) = (True, img_read img sec 1, u)" "good u"
      using read_good [of "usb s" sec 1] assms(1) sec_b by (auto simp: vol_ok_def)
    have "overwrite (img sec) (fatsec s) = img sec"
      using assms(1) by (simp add: overwrite_def vol_ok_def)
    then show ?thesis
      unfolding ufs_fat_next_def Let_def g o UFS_SECTOR_def a entry
      using False u assms(1) by (simp add: vol_ok_def del: One_nat_def)
  qed
qed

lemma walk_chain:
  assumes "vol_ok good img g s" and "good_geo g" and "good_chain img g cl"
    and "ci \<le> idx" and "idx < length cl"
  shows "\<exists>s'. ufs_walk e idx (cl ! ci) ci s = (True, cl ! idx, idx, s') \<and> vol_ok good img g s'"
  using assms(1,4)
proof (induction "idx - ci" arbitrary: ci s)
  case 0
  then show ?case by (simp add: ufs_walk.simps)
next
  case (Suc k)
  then have lt: "ci < idx" "Suc ci < length cl" using assms(5) by auto
  have mem: "cl ! ci \<in> set cl" "cl ! Suc ci \<in> set cl" using lt assms(5) by auto
  then have "cl ! ci \<le> 0x0fffffff" using assms(3) by (auto simp: good_chain_def ufs_eoc_def)
  then obtain s1 where n: "ufs_fat_next e (cl ! ci) s = (fat_entry img g (cl ! ci), s1)"
    and v: "vol_ok good img g s1"
    using fat_next_entry [OF Suc.prems(1) assms(2)] by blast
  have "fat_entry img g (cl ! ci) = cl ! Suc ci" "\<not> ufs_eoc (cl ! Suc ci)"
    using assms(3) lt mem by (auto simp: good_chain_def)
  then show ?case
    using Suc.hyps(1) [of "Suc ci" s1] Suc.hyps(2) v lt
    by (simp add: ufs_walk.simps [of e idx _ ci] n)
qed

lemma contig_chain:
  assumes "good_geo g" and "good_chain img g cl" and "vol_ok good img g s"
    and "c0 + j \<le> 0x0fffffff" and "count \<le> 510"
    and "\<And>k. k \<le> j \<Longrightarrow> i + k < length cl \<Longrightarrow> cl ! (i + k) = c0 + k"
  shows "\<exists>n s' m. ufs_contig e (c0 + j) count s = (n, s') \<and> vol_ok good img g s'
    \<and> n = count + m * g_spc g
    \<and> (\<forall>k \<le> j + m. i + k < length cl \<longrightarrow> cl ! (i + k) = c0 + k)"
  using assms(3-)
proof (induction "0x0fffffff - (c0 + j)" arbitrary: j count s rule: less_induct)
  case (less j count s)
  obtain s1 where n: "ufs_fat_next e (c0 + j) s = (fat_entry img g (c0 + j), s1)"
    and v: "vol_ok good img g s1"
    using fat_next_entry [OF less.prems(1) assms(1) less.prems(2)] by blast
  have a: "add32 (c0 + j) 1 = c0 + j + 1" using less.prems(2) by (simp add: u32_simps)
  show ?case
  proof (cases "count < UFS_CHUNK_SECTORS \<and> fat_entry img g (c0 + j) = c0 + j + 1")
    case False
    then obtain s' where "ufs_contig e (c0 + j) count s = (count, s')" "vol_ok good img g s'"
      using n a v less.prems(1)
      by (cases "count < UFS_CHUNK_SECTORS") (auto simp: ufs_contig.simps [of e "c0 + j"])
    then show ?thesis
      using less.prems(4) by (intro exI [of _ count] exI [of _ s'] exI [of _ 0]) simp
  next
    case True
    have "fat_entry img g (c0 + j) \<le> 0x0fffffff"
      using ufs_fat_next_le [of e "c0 + j" s] n by simp
    with True have b: "c0 + Suc j \<le> 0x0fffffff" by simp
    have spc: "g_spc g \<le> 255" "geo s1 = g" using assms(1) v by (auto simp: good_geo_def geo_ok_def vol_ok_def)
    then have c: "add32 count (g_spc (geo s1)) = count + g_spc g" "count + g_spc g \<le> 510"
      using True by (simp_all add: u32_simps UFS_CHUNK_SECTORS_def)
    have ext: "cl ! (i + k) = c0 + k" if "k \<le> Suc j" "i + k < length cl" for k
    proof (cases "k = Suc j")
      case k: True
      then have "fat_entry img g (cl ! (i + j)) = cl ! Suc (i + j)"
        using assms(2) that by (simp add: good_chain_def)
      then show ?thesis using True k that less.prems(4) [of j] by simp
    next
      case False
      then show ?thesis using that less.prems(4) by simp
    qed
    obtain n' s' m where r: "ufs_contig e (c0 + Suc j) (count + g_spc g) s1 = (n', s')"
      "vol_ok good img g s'" "n' = count + g_spc g + m * g_spc g"
      "\<forall>k \<le> Suc j + m. i + k < length cl \<longrightarrow> cl ! (i + k) = c0 + k"
      using less.hyps [of "Suc j" s1 "count + g_spc g"] b v c ext less.prems(2) by fastforce
    have "ufs_contig e (c0 + j) count s = (n', s')"
      using True n a c r(1) by (simp add: ufs_contig.simps [of e "c0 + j"])
    then show ?thesis
      using r by (intro exI [of _ n'] exI [of _ s'] exI [of _ "Suc m"]) auto
  qed
qed

text \<open>The chain as a list of sectors.\<close>

lemma concat_concat_map: "concat (concat xss) = concat (map concat xss)"
  by (induction xss) simp_all

lemma chain_bytes_secs:
  assumes "0 < g_spc g"
  shows "chain_bytes img g cl
    = concat (map (\<lambda>n. img (clus_base g (cl ! (n div g_spc g)) + n mod g_spc g)) [0..<g_spc g * length cl])"
proof -
  let ?spc = "g_spc g"
  let ?secs = "map (\<lambda>c. map img [clus_base g c..<clus_base g c + ?spc]) cl"
  have "concat ?secs = map (\<lambda>n. img (clus_base g (cl ! (n div ?spc)) + n mod ?spc)) [0..<?spc * length cl]"
  proof (rule nth_equalityI)
    show len: "length (concat ?secs) = length (map (\<lambda>n. img (clus_base g (cl ! (n div ?spc)) + n mod ?spc))
        [0..<?spc * length cl])"
      by (subst length_concat_const [where n = ?spc]) auto
    fix n
    assume "n < length (concat ?secs)"
    then have n: "n < ?spc * length ?secs" using len by simp
    have "n div ?spc < length cl" using n assms by (simp add: less_mult_imp_div_less mult.commute)
    moreover have "concat ?secs ! n = ?secs ! (n div ?spc) ! (n mod ?spc)"
      by (rule nth_concat_const [OF _ n]) auto
    ultimately show "concat ?secs ! n
        = map (\<lambda>n. img (clus_base g (cl ! (n div ?spc)) + n mod ?spc)) [0..<?spc * length cl] ! n"
      using n assms by simp
  qed
  then have "concat (concat ?secs) = concat (map (\<lambda>n. img (clus_base g (cl ! (n div ?spc)) + n mod ?spc))
      [0..<?spc * length cl])"
    by simp
  then show ?thesis
    unfolding concat_concat_map by (simp add: chain_bytes_def img_read_def o_def)
qed

lemma length_chain_bytes: "0 < g_spc g \<Longrightarrow> length (chain_bytes img g cl) = 512 * (g_spc g * length cl)"
  unfolding chain_bytes_secs by (subst length_concat_const [where n = 512]) auto

lemma img_read_chain:
  assumes "0 < g_spc g" and "\<And>c. c \<in> set cl \<Longrightarrow> 2 \<le> c"
    and run: "\<And>k. k \<le> j \<Longrightarrow> i + k < length cl \<Longrightarrow> cl ! (i + k) = c + k"
    and n: "r + n \<le> (j + 1) * g_spc g" and fits: "i * g_spc g + r + n \<le> g_spc g * length cl"
    and i: "i < length cl"
  shows "img_read img (clus_base g c + r) n
    = take (512 * n) (drop (512 * (i * g_spc g + r)) (chain_bytes img g cl))"
proof -
  let ?spc = "g_spc g" and ?m = "i * g_spc g + r"
  let ?f = "\<lambda>n. img (clus_base g (cl ! (n div ?spc)) + n mod ?spc)"
  have c: "2 \<le> c" using run [of 0] i assms(2) by (metis add_0_right le0 nth_mem)
  have "take n (drop ?m (map ?f [0..<?spc * length cl])) = map img [clus_base g c + r..<clus_base g c + r + n]"
  proof (rule nth_equalityI)
    show "length (take n (drop ?m (map ?f [0..<?spc * length cl])))
        = length (map img [clus_base g c + r..<clus_base g c + r + n])"
      using fits by simp
    fix t
    assume "t < length (take n (drop ?m (map ?f [0..<?spc * length cl])))"
    then have t: "t < n" by simp
    have div: "(?m + t) div ?spc = i + (r + t) div ?spc" "(?m + t) mod ?spc = (r + t) mod ?spc"
      using assms(1) by (simp_all add: add.assoc)
    let ?k = "(r + t) div ?spc"
    have "r + t < (j + 1) * ?spc" using t n by linarith
    then have k: "?k \<le> j" using assms(1) by (simp add: less_mult_imp_div_less less_Suc_eq_le [symmetric] del: mult_Suc)
    have "?m + t < length cl * ?spc" using t fits by (simp add: mult.commute)
    then have ik: "i + ?k < length cl" using div(1) less_mult_imp_div_less by metis
    obtain d where d: "c = d + 2" using c by (metis le_add_diff_inverse2)
    have "?k * ?spc + (r + t) mod ?spc = r + t" by (rule div_mult_mod_eq)
    then have "clus_base g (c + ?k) + (r + t) mod ?spc = clus_base g c + r + t"
      unfolding d clus_base_def by (simp add: add_mult_distrib)
    then have "?f (?m + t) = img (clus_base g c + r + t)"
      using run [OF k ik] div by simp
    moreover have "?m + t < ?spc * length cl" using t fits by linarith
    ultimately show "take n (drop ?m (map ?f [0..<?spc * length cl])) ! t
        = map img [clus_base g c + r..<clus_base g c + r + n] ! t"
      using t by simp
  qed
  then have "concat (take n (drop ?m (map ?f [0..<?spc * length cl])))
      = img_read img (clus_base g c + r) n"
    by (simp add: img_read_def)
  moreover have "concat (take n (drop ?m (map ?f [0..<?spc * length cl])))
      = take (512 * n) (drop (512 * ?m) (concat (map ?f [0..<?spc * length cl])))"
    by (rule take_drop_concat_const [symmetric]) auto
  ultimately show ?thesis using chain_bytes_secs [OF assms(1)] by simp
qed

text \<open>\<open>ufs_load\<close> brings the position into the buffer, with the file's bytes.\<close>

lemma load_file:
  assumes vol: "vol_ok good img g s" and g: "good_geo g" and ch: "good_chain img g cl"
    and f: "file_ok img g cl f" and pos: "f_pos f < f_size f"
  shows "\<exists>f' s'. ufs_load e f s = (True, f', s') \<and> vol_ok good img g s' \<and> file_ok img g cl f'
    \<and> f_pos f' = f_pos f \<and> f_size f' = f_size f \<and> in_chunk f'"
proof -
  let ?spc = "g_spc g" and ?B = "chain_bytes img g cl"
  define idx where "idx = f_pos f div (?spc * 512)"
  define r where "r = f_pos f mod (?spc * 512) div 512"
  have spc: "0 < ?spc" "?spc \<le> 255" "g_clus_bytes g = ?spc * 512"
    using g by (auto simp: good_geo_def geo_ok_def)
  have lenB: "length ?B = 512 * (?spc * length cl)" by (rule length_chain_bytes [OF spc(1)])
  have gs: "geo s = g" using vol by (simp add: vol_ok_def)
  have r: "r < ?spc" and q: "f_pos f div 512 = idx * ?spc + r"
    using pos_sectors [OF spc(1), of "f_pos f"] by (simp_all add: r_def idx_def)
  have "f_pos f < length cl * (?spc * 512)" using pos f lenB by (simp add: file_ok_def mult.commute)
  then have idx: "idx < length cl" unfolding idx_def by (rule less_mult_imp_div_less)
  define f0 where "f0 = (if idx < f_clus_idx f then f\<lparr>f_clus := f_first f, f_clus_idx := 0\<rparr> else f)"
  have f0: "f_clus f0 = cl ! f_clus_idx f0" "f_clus_idx f0 \<le> idx"
    using f by (auto simp: f0_def file_ok_def)
  have f0_same: "f_pos f0 = f_pos f" "f_size f0 = f_size f" "f_cbuf f0 = f_cbuf f" "f_first f0 = f_first f"
    by (simp_all add: f0_def)
  obtain s1 where w: "ufs_walk e idx (f_clus f0) (f_clus_idx f0) s = (True, cl ! idx, idx, s1)"
    and v1: "vol_ok good img g s1"
    using walk_chain [OF vol g ch f0(2) idx] f0(1) by auto
  have mem: "cl ! idx \<in> set cl" using idx by simp
  then have c: "\<not> ufs_eoc (cl ! idx)" "clus_base g (cl ! idx) + ?spc \<le> two32"
    using ch by (auto simp: good_chain_def)
  then have c28: "cl ! idx + 0 \<le> 0x0fffffff" "2 \<le> cl ! idx" by (auto simp: ufs_eoc_def)
  obtain n s2 m where n: "ufs_contig e (cl ! idx) (?spc - r) s1 = (n, s2)" "vol_ok good img g s2"
    "n = ?spc - r + m * ?spc" "\<forall>k \<le> m. idx + k < length cl \<longrightarrow> cl ! (idx + k) = cl ! idx + k"
  proof -
    have "?spc - r \<le> 510" using spc(2) by simp
    then have "\<exists>n s' m. ufs_contig e (cl ! idx + 0) (?spc - r) s1 = (n, s') \<and> vol_ok good img g s'
        \<and> n = ?spc - r + m * ?spc \<and> (\<forall>k \<le> 0 + m. idx + k < length cl \<longrightarrow> cl ! (idx + k) = cl ! idx + k)"
      by (intro contig_chain [OF g ch v1 c28(1)]) auto
    then show ?thesis using that by auto
  qed
  define need where "need = add32 (sub32 (f_size f) (sector_floor (f_pos f))) (UFS_SECTOR - 1) div UFS_SECTOR"
  have size_b: "f_size f \<le> 0xfffffe00" "f_size f \<le> length ?B" using f by (auto simp: file_ok_def)
  note need = need_sectors [OF pos size_b(1), folded need_def]
  define n1 where "n1 = (if n > UFS_CHUNK_SECTORS then UFS_CHUNK_SECTORS else n)"
  define n2 where "n2 = (if n1 > need then need else n1)"
  have n2: "0 < n2" "n2 \<le> n" "n2 \<le> need"
    using n(3) r need(2) by (auto simp: n1_def n2_def UFS_CHUNK_SECTORS_def)
  have "idx * ?spc + r + n2 \<le> (f_size f + 511) div 512"
    using n2(1,3) need(1) q by linarith
  also have "\<dots> \<le> (512 * (?spc * length cl) + 511) div 512"
    by (rule div_le_mono) (use size_b(2) lenB in simp)
  finally have fits: "idx * ?spc + r + n2 \<le> ?spc * length cl" by simp
  have end_b: "512 * (idx * ?spc + r + n2) \<le> 0xfffffe00"
  proof -
    have "idx * ?spc + r + n2 \<le> (f_size f + 511) div 512"
      using n2(1,3) need(1) q by linarith
    also have "\<dots> \<le> (0xfffffe00 + 511) div 512"
      by (rule div_le_mono) (use size_b(1) in simp)
    finally show ?thesis by simp
  qed
  have base: "add32 (ufs_clus_sector g (cl ! idx)) r = clus_base g (cl ! idx) + r"
  proof -
    have "(cl ! idx - 2) * ?spc < two32" "g_data_start g + (cl ! idx - 2) * ?spc < two32"
      using c(2) spc(1) by (simp_all add: clus_base_def)
    then have "ufs_clus_sector g (cl ! idx) = clus_base g (cl ! idx)"
      using c28 by (simp add: ufs_clus_sector_def clus_base_def u32_simps)
    then show ?thesis using c(2) r by (simp add: u32_simps)
  qed
  have run: "clus_base g (cl ! idx) + r + n2 \<le> two32"
  proof -
    let ?k = "(r + n2 - 1) div ?spc"
    have pos: "r + n2 - 1 < (m + 1) * ?spc" "idx * ?spc + (r + n2 - 1) < length cl * ?spc"
      using n2(1,2) n(3) r fits by (simp_all add: mult.commute)
    then have k: "?k \<le> m" "idx + ?k < length cl"
      using less_mult_imp_div_less [OF pos(1)] less_mult_imp_div_less [OF pos(2)] spc(1) by simp_all
    then have "cl ! idx + ?k \<in> set cl" using n(4) nth_mem by metis
    then have "clus_base g (cl ! idx + ?k) + ?spc \<le> two32" using ch by (simp add: good_chain_def)
    moreover have "clus_base g (cl ! idx + ?k) = clus_base g (cl ! idx) + ?k * ?spc"
      using c28(2) by (simp add: clus_base_def add_mult_distrib [symmetric])
    moreover have "r + n2 \<le> ?k * ?spc + ?spc"
      using dividend_less_div_times [OF spc(1), of "r + n2 - 1"] by linarith
    ultimately show ?thesis by linarith
  qed
  obtain u where u: "ufs_sectors e (clus_base g (cl ! idx) + r) n2 (usb s2)
      = (True, img_read img (clus_base g (cl ! idx) + r) n2, u)" "good u"
    using read_good [OF _ run] n(2) by (fastforce simp: vol_ok_def)
  let ?d = "img_read img (clus_base g (cl ! idx) + r) n2"
  have d: "?d = take (512 * n2) (drop (512 * (idx * ?spc + r)) ?B)"
  proof (rule img_read_chain)
    show "r + n2 \<le> (m + 1) * ?spc" using n2(2) n(3) r by simp
    show "2 \<le> c" if "c \<in> set cl" for c
      using that ch by (auto simp: good_chain_def ufs_eoc_def)
  qed (use spc n(4) fits idx in auto)
  define f' where "f' = f0\<lparr>f_clus := cl ! idx, f_clus_idx := idx, f_cbuf := overwrite ?d (f_cbuf f),
     f_cstart := sector_floor (f_pos f), f_clen := n2 * 512\<rparr>"
  have sf: "sector_floor (f_pos f) = 512 * (idx * ?spc + r)" by (simp add: sector_floor_eq q)
  have "ufs_load e f s = (True, f', s2\<lparr>usb := u\<rparr>)"
  proof -
    have sub: "sub32 ?spc r = ?spc - r" using r spc by (simp add: u32_simps)
    have gs': "geo s1 = g" "geo s2 = g" using v1 n(2) by (auto simp: vol_ok_def)
    have f1: "f_pos (f0\<lparr>f_clus := c, f_clus_idx := i\<rparr>) = f_pos f"
      "f_size (f0\<lparr>f_clus := c, f_clus_idx := i\<rparr>) = f_size f"
      "f_cbuf (f0\<lparr>f_clus := c, f_clus_idx := i\<rparr>) = f_cbuf f" for c i
      by (simp_all add: f0_same)
    have "\<not> (\<not> True \<or> ufs_eoc (cl ! idx))" using c(1) by simp
    then show ?thesis
      unfolding ufs_load_def Let_def gs spc(3) idx_def [symmetric] f0_def [symmetric] w prod.case
        UFS_SECTOR_def r_def [symmetric] gs' sub n(1) f1 need_def [symmetric, unfolded UFS_SECTOR_def]
        n1_def [symmetric] n2_def [symmetric] base u(1)
      by (simp add: f'_def)
  qed
  moreover have "vol_ok good img g (s2\<lparr>usb := u\<rparr>)" using n(2) u(2) by (simp add: vol_ok_def)
  moreover have "file_ok img g cl f'"
  proof -
    define a where "a = idx * ?spc + r"
    have "512 * a + 512 * n2 \<le> 0xfffffe00" "512 * a + 512 * n2 \<le> length ?B"
      using end_b fits by (simp_all add: a_def lenB)
    moreover have "?d = take (512 * n2) (drop (512 * a) ?B)" "sector_floor (f_pos f) = 512 * a"
      using d sf by (simp_all add: a_def)
    ultimately show ?thesis
      using f idx pos by (auto simp: file_ok_def f'_def f0_same overwrite_def mult.commute [of _ 512])
  qed
  moreover have "in_chunk f'"
  proof -
    have "add32 (512 * (idx * ?spc + r)) (n2 * 512) = 512 * (idx * ?spc + r + n2)"
      using end_b by (subst add32_id) auto
    moreover have "f_pos f < 512 * (idx * ?spc + r + n2)"
    proof -
      have "f_pos f < 512 * Suc (f_pos f div 512)" by simp
      also have "\<dots> \<le> 512 * (idx * ?spc + r + n2)" using n2(1) q by simp
      finally show ?thesis .
    qed
    moreover have "512 * (idx * ?spc + r) \<le> f_pos f" by (simp add: q [symmetric])
    ultimately show ?thesis by (simp add: in_chunk_def f'_def f0_same sf)
  qed
  ultimately show ?thesis by (auto simp: f'_def f0_same)
qed

text \<open>A copy out of the buffer is the next piece of the file.\<close>

lemma copy_file:
  assumes f: "file_ok img g cl f" and c: "in_chunk f" and left: "0 < left" "left \<le> f_size f - f_pos f"
  shows "\<exists>bs f'. ufs_copy f left = (bs, f') \<and> file_ok img g cl f' \<and> f_size f' = f_size f
    \<and> bs = take (length bs) (drop (f_pos f) (file_bytes img g cl (f_size f)))
    \<and> f_pos f' = f_pos f + length bs \<and> 0 < length bs \<and> length bs \<le> left"
proof -
  let ?B = "chain_bytes img g cl"
  have b: "f_cstart f + f_clen f \<le> 0xfffffe00" using f by (simp add: file_ok_def)
  then have a: "add32 (f_cstart f) (f_clen f) = f_cstart f + f_clen f" by (simp add: u32_simps)
  then have r: "f_cstart f \<le> f_pos f" "f_pos f < f_cstart f + f_clen f"
    using c by (auto simp: in_chunk_def)
  define n where "n = min (f_cstart f + f_clen f - f_pos f) left"
  have n: "0 < n" "n \<le> left" "f_pos f + n \<le> f_cstart f + f_clen f" "f_pos f + n \<le> f_size f"
    using r left by (auto simp: n_def)
  have sub: "sub32 (f_cstart f + f_clen f) (f_pos f) = f_cstart f + f_clen f - f_pos f"
    using r b by (simp add: u32_simps)
  have add: "add32 (f_pos f) n = f_pos f + n" using n b by (simp add: u32_simps)
  let ?bs = "take n (drop (f_pos f - f_cstart f) (f_cbuf f))"
  have copy: "ufs_copy f left = (?bs, f\<lparr>f_pos := f_pos f + n\<rparr>)"
  proof -
    have "(if f_cstart f + f_clen f - f_pos f > left then left else f_cstart f + f_clen f - f_pos f) = n"
      by (auto simp: n_def)
    then show ?thesis using add by (simp add: ufs_copy_def a sub Let_def)
  qed
  have m: "min n (f_clen f - (f_pos f - f_cstart f)) = n" using n r by (intro min.absorb1) linarith
  then have "?bs = take n (drop (f_pos f - f_cstart f) (take (f_clen f) (f_cbuf f)))"
    by (simp add: drop_take)
  also have "\<dots> = take n (drop (f_pos f - f_cstart f) (take (f_clen f) (drop (f_cstart f) ?B)))"
    using f by (simp add: file_ok_def)
  also have "\<dots> = take n (drop (f_pos f) ?B)"
    using m r by (simp add: drop_take)
  also have "\<dots> = take n (drop (f_pos f) (file_bytes img g cl (f_size f)))"
    using n by (simp add: file_bytes_def drop_take min_def)
  finally have bs: "?bs = take n (drop (f_pos f) (file_bytes img g cl (f_size f)))" .
  moreover have "length ?bs = n"
  proof -
    have "f_clen f \<le> length (f_cbuf f)" using f by (simp add: file_ok_def)
    then have "n \<le> length (f_cbuf f) - (f_pos f - f_cstart f)" using n r by linarith
    then show ?thesis unfolding length_take length_drop by (rule min.absorb2)
  qed
  moreover have "file_ok img g cl (f\<lparr>f_pos := f_pos f + n\<rparr>)" using f n by (auto simp: file_ok_def)
  ultimately show ?thesis using copy n by (intro exI [of _ ?bs] exI [of _ "f\<lparr>f_pos := f_pos f + n\<rparr>"]) simp
qed

lemma read_loop_file:
  assumes g: "good_geo g" and ch: "good_chain img g cl"
    and "vol_ok good img g s" and "file_ok img g cl f"
    and "length out \<le> len" and "len - length out \<le> f_size f - f_pos f" and "len - length out \<le> fuel"
  shows "\<exists>f' s'. ufs_read_loop e fuel len out f s
      = Some (out @ take (len - length out) (drop (f_pos f) (file_bytes img g cl (f_size f))), f', s')
    \<and> vol_ok good img g s' \<and> file_ok img g cl f' \<and> f_size f' = f_size f
    \<and> f_pos f' = f_pos f + (len - length out)"
  using assms(3-)
proof (induction fuel arbitrary: out f s)
  case 0
  then show ?case by (simp add: ufs_read_loop.simps)
next
  case (Suc k)
  let ?left = "len - length out" and ?F = "file_bytes img g cl (f_size f)"
  have step: "\<exists>f' s'. (let (bs, f1') = ufs_copy f1 ?left in ufs_read_loop e k len (out @ bs) f1' s1)
      = Some (out @ take ?left (drop (f_pos f) ?F), f', s')
    \<and> vol_ok good img g s' \<and> file_ok img g cl f' \<and> f_size f' = f_size f \<and> f_pos f' = f_pos f + ?left"
    if v: "vol_ok good img g s1" and f1: "file_ok img g cl f1" "in_chunk f1"
      and same: "f_pos f1 = f_pos f" "f_size f1 = f_size f" and more: "length out < len" for f1 s1
  proof -
    have "0 < ?left" "?left \<le> f_size f1 - f_pos f1" using more Suc.prems(4) same by auto
    then obtain bs f2 where c: "ufs_copy f1 ?left = (bs, f2)" "file_ok img g cl f2" "f_size f2 = f_size f"
      "bs = take (length bs) (drop (f_pos f) ?F)" "f_pos f2 = f_pos f + length bs"
      "0 < length bs" "length bs \<le> ?left"
      using copy_file [OF f1, of ?left] same by auto
    let ?out = "out @ bs"
    have h: "length ?out \<le> len" "len - length ?out \<le> f_size f2 - f_pos f2" "len - length ?out \<le> k"
      using c(3,5,6,7) Suc.prems(3,4,5) more by (simp_all, linarith)
    obtain f3 s3 where r: "ufs_read_loop e k len ?out f2 s1
        = Some (?out @ take (len - length ?out) (drop (f_pos f2) (file_bytes img g cl (f_size f2))), f3, s3)"
      "vol_ok good img g s3" "file_ok img g cl f3" "f_size f3 = f_size f2"
      "f_pos f3 = f_pos f2 + (len - length ?out)"
      using Suc.IH [OF v c(2) h] by blast
    have "?out @ take (len - length ?out) (drop (f_pos f2) ?F) = out @ take ?left (drop (f_pos f) ?F)"
    proof -
      have "?left = length bs + (len - length ?out)" using c(7) by simp
      then have "take ?left (drop (f_pos f) ?F)
          = take (length bs) (drop (f_pos f) ?F) @ take (len - length ?out) (drop (f_pos f2) ?F)"
        by (simp add: take_add c(5) add.commute)
      then show ?thesis using c(4) by simp
    qed
    then show ?thesis using c r by auto
  qed
  show ?case
  proof (cases "length out < len")
    case False
    then show ?thesis using Suc.prems by (simp add: ufs_read_loop.simps)
  next
    case more: True
    show ?thesis
    proof (cases "in_chunk f")
      case True
      then show ?thesis
        using step [OF Suc.prems(1,2) True _ _ more] more
        by (simp add: ufs_read_loop.simps [of e "Suc k"])
    next
      case False
      have "f_pos f < f_size f" using more Suc.prems(4) by linarith
      then obtain f1 s1 where l: "ufs_load e f s = (True, f1, s1)" "vol_ok good img g s1"
        "file_ok img g cl f1" "f_pos f1 = f_pos f" "f_size f1 = f_size f" "in_chunk f1"
        using load_file [OF Suc.prems(1) g ch Suc.prems(2)] by blast
      then show ?thesis
        using step [OF l(2,3,6,4,5) more] more False
        by (simp add: ufs_read_loop.simps [of e "Suc k"])
    qed
  qed
qed

lemma read_file:
  assumes "good_geo g" and "good_chain img g cl" and "vol_ok good img g s" and "file_ok img g cl f"
  shows "\<exists>f' s'. ufs_read e f len s
      = Some (take len (drop (f_pos f) (file_bytes img g cl (f_size f))), f', s')
    \<and> vol_ok good img g s' \<and> file_ok img g cl f' \<and> f_size f' = f_size f
    \<and> f_pos f' = f_pos f + min len (f_size f - f_pos f)"
proof -
  let ?n = "min len (f_size f - f_pos f)"
  have "f_pos f \<le> f_size f" "f_size f \<le> 0xfffffe00" using assms(4) by (auto simp: file_ok_def)
  then have sub: "sub32 (f_size f) (f_pos f) = f_size f - f_pos f"
    by (intro sub32_id) simp_all
  have r: "ufs_read e f len s = ufs_read_loop e ?n ?n [] f s"
    by (simp add: ufs_read_def sub Let_def min_def)
  have "take ?n (drop (f_pos f) (file_bytes img g cl (f_size f)))
      = take len (drop (f_pos f) (file_bytes img g cl (f_size f)))"
  proof -
    have "length (drop (f_pos f) (file_bytes img g cl (f_size f))) = f_size f - f_pos f"
      using assms(4) by (simp add: file_bytes_def file_ok_def)
    then show ?thesis by (cases "len \<le> f_size f - f_pos f") (simp_all add: min_def)
  qed
  then show ?thesis
    using read_loop_file [OF assms(1-4), of "[]" ?n ?n] r by simp
qed

lemma seek_file: "file_ok img g cl f \<Longrightarrow> file_ok img g cl (ufs_seek f pos)"
  by (auto simp: file_ok_def ufs_seek_def)

end

end
