(* ===== verification/FatDir.thy ===== *)
theory FatDir
  imports FatFile
begin

text \<open>
  Folders and paths of \<open>usbfat.h\<close>: the raw entries of a folder (\<open>ufs_dir_raw\<close>), long and
  short names (\<open>ufs_readdir\<close>), the folder cache, \<open>ufs_lookup\<close>, \<open>ufs_opendir\<close>,
  \<open>ufs_open\<close>, and the one write the module does, \<open>ufs_overwrite\<close>. A path is the list of
  its bytes without the final NUL; reading at or past the end of a string gives 0.
\<close>

section \<open>Strings\<close>

definition cat :: "byte list \<Rightarrow> nat \<Rightarrow> byte" where
  "cat s i = (if i < length s then s ! i else 0)"

definition ufs_lower :: "byte \<Rightarrow> byte" where
  "ufs_lower c = (if c \<ge> 0x41 \<and> c \<le> 0x5a then c + 32 else c)"

definition ufs_name_eq :: "byte list \<Rightarrow> byte list \<Rightarrow> nat \<Rightarrow> bool" where
  "ufs_name_eq a b blen \<longleftrightarrow>
     (\<forall>i \<in> set [0..<blen]. cat a i \<noteq> 0 \<and> ufs_lower (cat a i) = ufs_lower (cat b i)) \<and> cat a blen = 0"

section \<open>Raw folder entries\<close>

definition UFS_NAME_MAX :: nat where "UFS_NAME_MAX = 256"
definition UFS_DIR_SECTORS :: nat where "UFS_DIR_SECTORS = 16"

record udir =
  d_clus :: nat
  d_sec_idx :: nat
  d_ent :: nat
  d_nent :: nat
  d_done :: bool
  d_buf :: "byte list"

record udirent =
  e_name :: "byte list"
  e_attr :: byte
  e_size :: nat
  e_first :: nat
  e_is_dir :: bool

definition ufs_dir_start :: "udir \<Rightarrow> nat \<Rightarrow> udir" where
  "ufs_dir_start d first_clus =
     d\<lparr>d_clus := first_clus, d_sec_idx := 0, d_ent := 0, d_nent := 0, d_done := False\<rparr>"

text \<open>The sectors to load next: the cluster, the first sector and the number left in the cluster.\<close>

definition dir_next :: "'w usb_env \<Rightarrow> udir \<Rightarrow> 'w ufs \<Rightarrow> (nat \<times> nat) option \<times> udir \<times> 'w ufs" where
  "dir_next e d s =
     (if d_clus d = 0 then
        (if d_sec_idx d = g_root_sectors (geo s) then (None, d, s)
         else (Some (add32 (g_root_start (geo s)) (d_sec_idx d),
                     sub32 (g_root_sectors (geo s)) (d_sec_idx d)), d, s))
      else
        (let (d1, s1) = (if d_sec_idx d = g_spc (geo s)
                         then (let (c, s') = ufs_fat_next e (d_clus d) s
                               in (d\<lparr>d_clus := c, d_sec_idx := 0\<rparr>, s'))
                         else (d, s))
         in if ufs_eoc (d_clus d1) then (None, d1, s1)
            else (Some (add32 (ufs_clus_sector (geo s1) (d_clus d1)) (d_sec_idx d1),
                        sub32 (g_spc (geo s1)) (d_sec_idx d1)), d1, s1)))"

definition dir_take :: "udir \<Rightarrow> byte list \<times> udir" where
  "dir_take d = (take 32 (drop (32 * d_ent d) (d_buf d)), d\<lparr>d_ent := d_ent d + 1\<rparr>)"

definition ufs_dir_raw :: "'w usb_env \<Rightarrow> udir \<Rightarrow> 'w ufs \<Rightarrow> byte list option \<times> udir \<times> 'w ufs" where
  "ufs_dir_raw e d s =
     (if d_done d then (None, d, s)
      else if d_ent d = d_nent d then
        (case dir_next e d s of
           (None, d1, s1) \<Rightarrow> (None, d1\<lparr>d_done := True\<rparr>, s1)
         | (Some (sec, n0), d1, s1) \<Rightarrow>
             (let n = (if n0 > UFS_DIR_SECTORS then UFS_DIR_SECTORS else n0);
                  d2 = d1\<lparr>d_sec_idx := d_sec_idx d1 + n\<rparr>;
                  (ok, b, u) = ufs_sectors e sec n (usb s1);
                  d3 = d2\<lparr>d_buf := overwrite b (d_buf d2)\<rparr>
              in if \<not> ok then (None, d3\<lparr>d_done := True\<rparr>, s1\<lparr>usb := u\<rparr>)
                 else (let (r, d4) = dir_take (d3\<lparr>d_ent := 0, d_nent := n * (UFS_SECTOR div 32)\<rparr>)
                       in (Some r, d4, s1\<lparr>usb := u\<rparr>))))
      else (let (r, d1) = dir_take d in (Some r, d1, s)))"

section \<open>Names\<close>

definition lfn_pos :: "nat list" where
  "lfn_pos = [1, 3, 5, 7, 9, 14, 16, 18, 20, 22, 24, 28, 30]"

definition lfn_char :: "nat \<Rightarrow> byte" where
  "lfn_char ch = (if ch < 128 then of_nat ch else 0x3f)"

text \<open>The loop over the 13 characters of a long name part.\<close>

function lfn_part :: "byte list \<Rightarrow> nat \<Rightarrow> nat \<Rightarrow> byte list \<Rightarrow> byte list" where
  "lfn_part r seq k name =
     (if k < 13 \<and> seq * 13 + k < UFS_NAME_MAX - 1 then
        (let ch = ufs_le16 r (lfn_pos ! k)
         in if ch = 0 then name[seq * 13 + k := 0]
            else lfn_part r seq (Suc k) (name[seq * 13 + k := lfn_char ch]))
      else name)"
  by pat_completeness auto
termination
  by (relation "measure (\<lambda>(r, seq, k, name). 13 - k)") auto

declare lfn_part.simps [simp del]

definition lfn_end :: "nat \<Rightarrow> nat" where
  "lfn_end seq = (let end' = (seq + 1) * 13 in if end' < UFS_NAME_MAX - 1 then end' else UFS_NAME_MAX - 1)"

text \<open>The 8.3 name, without its NUL.\<close>

definition short_name :: "byte list \<Rightarrow> byte list" where
  "short_name r =
     (let base = takeWhile (\<lambda>c. c \<noteq> 0x20) (take 8 r);
          base' = (if base \<noteq> [] \<and> hd base = 0x05 then 0xe5 # tl base else base)
      in if r ! 8 \<noteq> 0x20 then base' @ [0x2e] @ takeWhile (\<lambda>c. c \<noteq> 0x20) (take 3 (drop 8 r)) else base')"

definition is_dot_entry :: "byte list \<Rightarrow> bool" where
  "is_dot_entry r \<longleftrightarrow> r ! 0 = 0x2e \<and> (r ! 1 = 0x20 \<or> (r ! 1 = 0x2e \<and> r ! 2 = 0x20))"

text \<open>
  One turn of the loop of \<open>ufs_readdir\<close> on an entry that is not the end marker: whether the
  entry is returned, \<open>lfn_ok\<close> and the entry filled so far.
\<close>

definition lfn_step :: "byte list \<Rightarrow> bool \<Rightarrow> udirent \<Rightarrow> bool \<times> udirent" where
  "lfn_step r lfn_ok ent =
     (let seq1 = unat (r ! 0 AND 0x1f)
      in if seq1 < 1 \<or> seq1 > 20 then (False, ent)
         else
           (let seq = seq1 - 1;
                last = (r ! 0 AND 0x40 \<noteq> 0);
                name = (if last then (e_name ent)[lfn_end seq := 0] else e_name ent)
            in (lfn_ok \<or> last, ent\<lparr>e_name := lfn_part r seq 0 name\<rparr>)))"

definition dirent_fill :: "bool \<Rightarrow> byte list \<Rightarrow> bool \<Rightarrow> udirent \<Rightarrow> udirent" where
  "dirent_fill fat32 r lfn_ok ent =
     ent\<lparr>e_name := (if lfn_ok then e_name ent else overwrite (short_name r @ [0]) (e_name ent)),
         e_attr := r ! 11,
         e_is_dir := (r ! 11 AND 0x10 \<noteq> 0),
         e_size := ufs_le32 r 28,
         e_first := (if fat32 then ufs_le16 r 20 * 65536 else 0) + ufs_le16 r 26\<rparr>"

definition dir_step :: "bool \<Rightarrow> byte list \<Rightarrow> bool \<Rightarrow> udirent \<Rightarrow> bool \<times> bool \<times> udirent" where
  "dir_step fat32 r lfn_ok ent =
     (if r ! 0 = 0xe5 then (False, False, ent)
      else if r ! 11 = 0x0f then (let (ok, ent') = lfn_step r lfn_ok ent in (False, ok, ent'))
      else if r ! 11 AND 0x08 \<noteq> 0 then (False, False, ent)
      else if is_dot_entry r then (False, False, ent)
      else (True, lfn_ok, dirent_fill fat32 r lfn_ok ent))"

text \<open>
  \<open>ufs_readdir\<close>. A folder whose cluster chain is a cycle without end marker is walked for
  ever, so the loop has fuel and \<open>None\<close> means that it did not end.
\<close>

fun readdir_loop ::
  "'w usb_env \<Rightarrow> nat \<Rightarrow> bool \<Rightarrow> udir \<Rightarrow> udirent \<Rightarrow> 'w ufs \<Rightarrow> (bool \<times> udir \<times> udirent \<times> 'w ufs) option" where
  "readdir_loop e 0 lfn_ok d ent s = None"
| "readdir_loop e (Suc fuel) lfn_ok d ent s =
     (case ufs_dir_raw e d s of
        (None, d1, s1) \<Rightarrow> Some (False, d1, ent, s1)
      | (Some r, d1, s1) \<Rightarrow>
          if r ! 0 = 0 then Some (False, d1\<lparr>d_done := True\<rparr>, ent, s1)
          else
            (let (found, ok, ent1) = dir_step (g_fat32 (geo s1)) r lfn_ok ent
             in if found then Some (True, d1, ent1, s1) else readdir_loop e fuel ok d1 ent1 s1))"

definition ufs_readdir ::
  "'w usb_env \<Rightarrow> nat \<Rightarrow> udir \<Rightarrow> udirent \<Rightarrow> 'w ufs \<Rightarrow> (bool \<times> udir \<times> udirent \<times> 'w ufs) option" where
  "ufs_readdir e fuel d ent s = readdir_loop e fuel False d ent s"

section \<open>The folder cache\<close>

definition UFS_DCACHE :: nat where "UFS_DCACHE = 8"

definition ufs_dcache_put :: "byte list \<Rightarrow> nat \<Rightarrow> nat \<Rightarrow> 'w ufs \<Rightarrow> 'w ufs" where
  "ufs_dcache_put path len clus s =
     (if len = 0 \<or> len \<ge> 128 then s
      else if \<exists>(p, c) \<in> set (dcache s). ufs_name_eq p path len then s
      else s\<lparr>dcache := (dcache s)[dcache_next s := (take len path, clus)],
             dcache_next := (dcache_next s + 1) mod UFS_DCACHE\<rparr>)"

definition dcache_hit :: "byte list \<Rightarrow> nat \<times> nat \<Rightarrow> byte list \<times> nat \<Rightarrow> nat \<times> nat" where
  "dcache_hit path best pc =
     (let len = length (fst pc)
      in if len > fst best \<and> (cat path len = 0x2f \<or> cat path len = 0) \<and> ufs_name_eq (fst pc) path len
         then (len, snd pc) else best)"

definition ufs_dcache_get :: "byte list \<Rightarrow> nat \<Rightarrow> 'w ufs \<Rightarrow> nat \<times> nat" where
  "ufs_dcache_get path clus s = foldl (dcache_hit path) (0, clus) (dcache s)"

section \<open>Paths\<close>

definition skip_slashes :: "byte list \<Rightarrow> byte list" where
  "skip_slashes = dropWhile (\<lambda>c. c = 0x2f)"

definition fresh_dir :: udir where
  "fresh_dir = \<lparr>d_clus = 0, d_sec_idx = 0, d_ent = 0, d_nent = 0, d_done = False, d_buf = []\<rparr>"

definition root_clus :: "geometry \<Rightarrow> nat" where
  "root_clus g = (if g_fat32 g then g_root_clus g else 0)"

text \<open>The loop over the entries of one folder.\<close>

fun lookup_find ::
  "'w usb_env \<Rightarrow> nat \<Rightarrow> byte list \<Rightarrow> udir \<Rightarrow> udirent \<Rightarrow> 'w ufs \<Rightarrow> (bool \<times> udirent \<times> 'w ufs) option" where
  "lookup_find e 0 path d ent s = None"
| "lookup_find e (Suc fuel) path d ent s =
     (case ufs_readdir e fuel d ent s of
        None \<Rightarrow> None
      | Some (found, d1, ent1, s1) \<Rightarrow>
          if \<not> found then Some (False, ent1, s1)
          else if ufs_name_eq (e_name ent1) path (length path) then Some (True, ent1, s1)
          else lookup_find e fuel path d1 ent1 s1)"

lemma length_skip_slashes: "length (skip_slashes p) \<le> length p"
  by (simp add: skip_slashes_def length_dropWhile_le)

lemma lookup_rest_less:
  "path \<noteq> [] \<Longrightarrow> length (skip_slashes (dropWhile (\<lambda>c. c \<noteq> 0x2f) path)) < length path"
proof (cases path)
  case (Cons c cs)
  have "length (dropWhile (\<lambda>c. c = 0x2f) cs) \<le> length cs"
    "length (skip_slashes (dropWhile (\<lambda>c. c \<noteq> 0x2f) cs)) \<le> length cs"
    using length_skip_slashes [of "dropWhile (\<lambda>c. c \<noteq> 0x2f) cs"]
      length_dropWhile_le [of "\<lambda>c. c \<noteq> 0x2f" cs] length_dropWhile_le [of "\<lambda>c. c = 0x2f" cs]
    by simp_all
  then show ?thesis using Cons by (cases "c = 0x2f") (simp_all add: skip_slashes_def)
qed simp

function lookup_loop ::
  "'w usb_env \<Rightarrow> nat \<Rightarrow> byte list \<Rightarrow> byte list \<Rightarrow> nat \<Rightarrow> udirent \<Rightarrow> 'w ufs
    \<Rightarrow> (bool \<times> udirent \<times> 'w ufs) option" where
  "lookup_loop e fuel full path clus ent s =
     (if path = [] then Some (True, ent, s)
      else
        (let comp = takeWhile (\<lambda>c. c \<noteq> 0x2f) path;
             rest = dropWhile (\<lambda>c. c \<noteq> 0x2f) path
         in if \<not> e_is_dir ent then Some (False, ent, s)
            else
              (case lookup_find e fuel comp (ufs_dir_start fresh_dir clus) ent s of
                 None \<Rightarrow> None
               | Some (found, ent1, s1) \<Rightarrow>
                   if \<not> found then Some (False, ent1, s1)
                   else
                     (let clus1 = (if e_is_dir ent1 \<and> e_first ent1 = 0 then root_clus (geo s1)
                                   else e_first ent1);
                          s2 = (if e_is_dir ent1
                                then ufs_dcache_put full (length full - length rest) clus1 s1 else s1)
                      in lookup_loop e fuel full (skip_slashes rest) clus1 ent1 s2))))"
  by pat_completeness auto
termination
  by (relation "measure (\<lambda>(e, fuel, full, path, clus, ent, s). length path)")
    (auto simp: lookup_rest_less)

declare lookup_loop.simps [simp del]

definition root_entry :: "nat \<Rightarrow> udirent \<Rightarrow> udirent" where
  "root_entry clus ent = ent\<lparr>e_name := (e_name ent)[0 := 0], e_is_dir := True, e_first := clus,
     e_size := 0, e_attr := 0x10\<rparr>"

definition ufs_lookup ::
  "'w usb_env \<Rightarrow> nat \<Rightarrow> byte list \<Rightarrow> udirent \<Rightarrow> 'w ufs \<Rightarrow> (bool \<times> udirent \<times> 'w ufs) option" where
  "ufs_lookup e fuel path ent s =
     (let full = skip_slashes path;
          ent0 = root_entry (root_clus (geo s)) ent;
          (skip, clus) = ufs_dcache_get full (root_clus (geo s)) s
      in if skip = 0 then lookup_loop e fuel full full clus ent0 s
         else lookup_loop e fuel full (skip_slashes (drop skip full)) clus (ent0\<lparr>e_first := clus\<rparr>) s)"

definition ufs_opendir ::
  "'w usb_env \<Rightarrow> nat \<Rightarrow> byte list \<Rightarrow> udirent \<Rightarrow> 'w ufs \<Rightarrow> (udir option \<times> 'w ufs) option" where
  "ufs_opendir e fuel path ent s =
     (case ufs_lookup e fuel path ent s of
        None \<Rightarrow> None
      | Some (ok, ent1, s1) \<Rightarrow>
          if \<not> ok \<or> \<not> e_is_dir ent1 then Some (None, s1)
          else Some (Some (ufs_dir_start fresh_dir
            (if e_first ent1 = 0 \<and> g_fat32 (geo s1) then g_root_clus (geo s1) else e_first ent1)), s1))"

definition ufs_open ::
  "'w usb_env \<Rightarrow> nat \<Rightarrow> ufile \<Rightarrow> byte list \<Rightarrow> udirent \<Rightarrow> 'w ufs \<Rightarrow> (bool \<times> ufile \<times> 'w ufs) option" where
  "ufs_open e fuel f path ent s =
     (case ufs_lookup e fuel path ent s of
        None \<Rightarrow> None
      | Some (ok, ent1, s1) \<Rightarrow>
          if \<not> ok \<or> e_is_dir ent1 then Some (False, f, s1)
          else Some (True, f\<lparr>f_first := e_first ent1, f_size := e_size ent1, f_pos := 0,
            f_clus := e_first ent1, f_clus_idx := 0, f_cstart := 0, f_clen := 0\<rparr>, s1))"

section \<open>The only write\<close>

datatype overwrite_error =
  Not_found | Wrong_size | New_data_without_magic | No_usb_write | Unexpected_sector | Write_failed

definition ufs_overwrite ::
  "'w usb_env \<Rightarrow> nat \<Rightarrow> byte list \<Rightarrow> byte list \<Rightarrow> byte list \<Rightarrow> udirent \<Rightarrow> 'w ufs
    \<Rightarrow> ((overwrite_error + unit) \<times> 'w ufs) option" where
  "ufs_overwrite e fuel path data magic ent s =
     (case ufs_lookup e fuel path ent s of
        None \<Rightarrow> None
      | Some (ok, ent1, s1) \<Rightarrow>
          if \<not> ok \<or> e_is_dir ent1 then Some (Inl Not_found, s1)
          else if e_size ent1 \<noteq> UFS_SECTOR \<or> ufs_eoc (e_first ent1) then Some (Inl Wrong_size, s1)
          else if take (length magic) data \<noteq> magic then Some (Inl New_data_without_magic, s1)
          else if ext_write e = None
              \<and> (let fn = uboot_write_fn e (world (usb s1)) in fn < 0x80000000 \<or> fn \<ge> 0x82000000)
            then Some (Inl No_usb_write, s1)
          else
            (let sec = ufs_clus_sector (geo s1) (e_first ent1);
                 (ok2, s2) = ufs_read_sec e sec s1
             in if \<not> ok2 \<or> take (length magic) (ufs_sec s2) \<noteq> magic then Some (Inl Unexpected_sector, s2)
                else
                  (let (ok3, u3) = ufs_write_sector e sec (take UFS_SECTOR data) (usb s2);
                       s3 = s2\<lparr>usb := u3, ufs_sec := replicate UFS_SECTOR 0\<rparr>
                   in if \<not> ok3 then Some (Inl Write_failed, s3)
                      else
                        (let (ok4, s4) = ufs_read_sec e sec s3
                         in if \<not> ok4 \<or> ufs_sec s4 \<noteq> take UFS_SECTOR data
                            then Some (Inl Write_failed, s4) else Some (Inr (), s4)))))"

section \<open>Plugging the stick in again\<close>

text \<open>
  \<open>ufs_remount\<close>: up to three tries of U-Boot's USB stop, init and scan followed by a mount.
  \<open>restart\<close> stands for U-Boot's three calls: \<open>True\<close> when both checked ones succeed.
\<close>

fun remount_try ::
  "'w usb_env \<Rightarrow> ('w \<Rightarrow> bool \<times> 'w) \<Rightarrow> ('w ufs \<Rightarrow> (mount_error + unit) \<times> 'w ufs) \<Rightarrow> nat \<Rightarrow> 'w ufs
    \<Rightarrow> bool \<times> 'w ufs" where
  "remount_try e restart mnt 0 s = (False, s\<lparr>usb := (usb s)\<lparr>usb_lost := True\<rparr>\<rparr>)"
| "remount_try e restart mnt (Suc n) s =
     (let u = (usb s)\<lparr>usb_lost := False, bot_dev := False\<rparr>;
          (ok, w) = restart (world u);
          s1 = s\<lparr>usb := u\<lparr>world := w\<rparr>, fat_cached := 0xffffffff\<rparr>
      in if \<not> ok then remount_try e restart mnt n s1
         else
           (case mnt s1 of
              (Inr _, s2) \<Rightarrow> (True, s2)
            | (Inl _, s2) \<Rightarrow> remount_try e restart mnt n s2))"

definition ufs_remount ::
  "'w usb_env \<Rightarrow> bool \<Rightarrow> ('w \<Rightarrow> bool \<times> 'w) \<Rightarrow> ('w ufs \<Rightarrow> (mount_error + unit) \<times> 'w ufs) \<Rightarrow> 'w ufs
    \<Rightarrow> bool \<times> 'w ufs" where
  "ufs_remount e build_known restart mnt s =
     (if \<not> build_known then (False, s) else remount_try e restart mnt 3 s)"

section \<open>What a write can touch\<close>

text \<open>On a disk image, everything up to the write itself leaves the image as it is.\<close>

named_theorems image_keeps

lemma image_sectors:
  "ufs_sectors image_env start count u =
     (if usb_lost u then (False, [], u)
      else (True, img_read (world u) start count,
            u\<lparr>usb_bytes := add32 (usb_bytes u) (mul32 count UFS_SECTOR)\<rparr>))"
  by (cases u) (simp add: ufs_sectors_def image_env_def image_read_def)

lemma image_fat_next [image_keeps]:
  "ufs_fat_next image_env c s = (v, s') \<Longrightarrow> world (usb s') = world (usb s)"
  by (auto simp: ufs_fat_next_def Let_def image_sectors split: if_splits)

lemma image_read_sec [image_keeps]:
  "ufs_read_sec image_env sec s = (ok, s') \<Longrightarrow> world (usb s') = world (usb s)"
  by (auto simp: ufs_read_sec_def image_sectors split: if_splits)

lemma image_dir_next [image_keeps]:
  "dir_next image_env d s = (r, d', s') \<Longrightarrow> world (usb s') = world (usb s)"
  by (auto simp: dir_next_def Let_def split: if_splits prod.splits dest: image_keeps)

lemma image_dir_raw [image_keeps]:
  "ufs_dir_raw image_env d s = (r, d', s') \<Longrightarrow> world (usb s') = world (usb s)"
  by (auto simp: ufs_dir_raw_def Let_def image_sectors split: if_splits prod.splits option.splits
      dest: image_keeps)

lemma image_readdir_loop:
  "readdir_loop image_env fuel ok d ent s = Some (r, d', ent', s') \<Longrightarrow> world (usb s') = world (usb s)"
  by (induction fuel arbitrary: ok d ent s)
    (auto split: if_splits prod.splits option.splits dest!: image_keeps)

lemma image_readdir [image_keeps]:
  "ufs_readdir image_env fuel d ent s = Some (r, d', ent', s') \<Longrightarrow> world (usb s') = world (usb s)"
  by (auto simp: ufs_readdir_def dest: image_readdir_loop)

lemma image_lookup_find [image_keeps]:
  "lookup_find image_env fuel path d ent s = Some (r, ent', s') \<Longrightarrow> world (usb s') = world (usb s)"
  by (induction fuel arbitrary: d ent s)
    (auto split: if_splits prod.splits option.splits dest!: image_keeps)

lemma dcache_put_usb [simp]: "usb (ufs_dcache_put path len clus s) = usb s"
  by (simp add: ufs_dcache_put_def)

lemma image_lookup_loop [image_keeps]:
  "lookup_loop image_env fuel full path clus ent s = Some (r, ent', s') \<Longrightarrow> world (usb s') = world (usb s)"
proof (induction "length path" arbitrary: path clus ent s rule: less_induct)
  case less
  show ?case
  proof (cases "path = [] \<or> \<not> e_is_dir ent")
    case True
    then show ?thesis
      using less.prems by (auto simp: lookup_loop.simps [of image_env fuel full path] Let_def split: if_splits)
  next
    case False
    then show ?thesis
      using less.prems less.hyps [OF lookup_rest_less]
      by (auto simp: lookup_loop.simps [of image_env fuel full path] Let_def
          split: if_splits option.splits prod.splits dest!: image_keeps)
  qed
qed

lemma image_lookup [image_keeps]:
  "ufs_lookup image_env fuel path ent s = Some (r, ent', s') \<Longrightarrow> world (usb s') = world (usb s)"
  by (auto simp: ufs_lookup_def Let_def split: if_splits prod.splits dest: image_lookup_loop)

section \<open>A folder is the list of its entries\<close>

text \<open>
  The raw entries stored in a cluster chain, and the state of an \<open>udir\<close> that has delivered
  the first \<open>p\<close> of them: the cluster index \<open>i\<close>, the next sector, and the entries of the last
  load that are still in the buffer.
\<close>

definition dir_entries :: "(nat \<Rightarrow> byte list) \<Rightarrow> geometry \<Rightarrow> nat list \<Rightarrow> byte list list" where
  "dir_entries img g cl = map (\<lambda>n. take 32 (drop (32 * n) (chain_bytes img g cl))) [0..<16 * (g_spc g * length cl)]"

definition dir_pos :: "(nat \<Rightarrow> byte list) \<Rightarrow> geometry \<Rightarrow> nat list \<Rightarrow> nat \<Rightarrow> udir \<Rightarrow> nat \<Rightarrow> bool" where
  "dir_pos img g cl p d i \<longleftrightarrow> \<not> d_done d \<and> i < length cl \<and> d_clus d = cl ! i \<and> d_sec_idx d \<le> g_spc g
     \<and> d_ent d \<le> d_nent d \<and> d_nent d \<le> 16 * (i * g_spc g + d_sec_idx d)
     \<and> p + d_nent d = 16 * (i * g_spc g + d_sec_idx d) + d_ent d
     \<and> take (32 * d_nent d) (d_buf d)
       = take (32 * d_nent d) (drop (512 * (i * g_spc g + d_sec_idx d) - 32 * d_nent d) (chain_bytes img g cl))"

definition dir_rest :: "(nat \<Rightarrow> byte list) \<Rightarrow> geometry \<Rightarrow> nat list \<Rightarrow> byte list list \<Rightarrow> udir \<Rightarrow> bool" where
  "dir_rest img g cl rs d \<longleftrightarrow>
     (\<exists>p i. dir_pos img g cl p d i \<and> p \<le> 16 * (g_spc g * length cl) \<and> rs = drop p (dir_entries img g cl))"

text \<open>A folder's chain: good, and its last cluster is marked as the end.\<close>

definition ended_chain :: "(nat \<Rightarrow> byte list) \<Rightarrow> geometry \<Rightarrow> nat list \<Rightarrow> bool" where
  "ended_chain img g cl \<longleftrightarrow> good_chain img g cl \<and> ufs_eoc (fat_entry img g (last cl))"

text \<open>The meaning of \<open>ufs_readdir\<close> on the list of the remaining entries.\<close>

fun readdir_spec :: "bool \<Rightarrow> byte list list \<Rightarrow> bool \<Rightarrow> udirent \<Rightarrow> bool \<times> byte list list \<times> udirent" where
  "readdir_spec fat32 [] ok ent = (False, [], ent)"
| "readdir_spec fat32 (r # rs) ok ent =
     (if r ! 0 = 0 then (False, [], ent)
      else (let (found, ok1, ent1) = dir_step fat32 r ok ent
            in if found then (True, rs, ent1) else readdir_spec fat32 rs ok1 ent1))"

lemma dir_restI:
  "dir_pos img g cl p d i \<Longrightarrow> p \<le> 16 * (g_spc g * length cl)
    \<Longrightarrow> dir_rest img g cl (drop p (dir_entries img g cl)) d"
  by (auto simp: dir_rest_def)

lemma dir_pos_take:
  assumes "dir_pos img g cl p d i" and "d_ent d < d_nent d"
  shows "dir_take d = (take 32 (drop (32 * p) (chain_bytes img g cl)), d\<lparr>d_ent := d_ent d + 1\<rparr>)"
    and "dir_pos img g cl (p + 1) (d\<lparr>d_ent := d_ent d + 1\<rparr>) i"
proof -
  let ?B = "chain_bytes img g cl" and ?o = "512 * (i * g_spc g + d_sec_idx d) - 32 * d_nent d"
  have m: "min 32 (32 * d_nent d - 32 * d_ent d) = 32" using assms(2) by simp
  have "take 32 (drop (32 * d_ent d) (d_buf d)) = take 32 (drop (32 * d_ent d) (take (32 * d_nent d) (d_buf d)))"
    using m by (simp add: drop_take)
  also have "\<dots> = take 32 (drop (32 * d_ent d) (take (32 * d_nent d) (drop ?o ?B)))"
    using assms(1) by (simp add: dir_pos_def)
  also have "\<dots> = take 32 (drop (32 * d_ent d + ?o) ?B)"
    using m by (simp add: drop_take)
  also have "32 * d_ent d + ?o = 32 * p"
  proof -
    define t where "t = i * g_spc g + d_sec_idx d"
    have "d_nent d \<le> 16 * t" "p + d_nent d = 16 * t + d_ent d"
      using assms(1) by (simp_all add: dir_pos_def t_def)
    then show ?thesis unfolding t_def [symmetric] by linarith
  qed
  finally show "dir_take d = (take 32 (drop (32 * p) ?B), d\<lparr>d_ent := d_ent d + 1\<rparr>)"
    by (simp add: dir_take_def)
  show "dir_pos img g cl (p + 1) (d\<lparr>d_ent := d_ent d + 1\<rparr>) i"
    using assms by (simp add: dir_pos_def)
qed

text \<open>The loop of \<open>ufs_lookup\<close> over one folder: the first entry with the name.\<close>

lemma readdir_spec_shorter: "readdir_spec fat32 rs ok ent = (True, rs', ent') \<Longrightarrow> length rs' < length rs"
proof (induction rs arbitrary: ok ent)
  case (Cons r rs)
  then show ?case by (force simp: Let_def split: if_splits prod.splits)
qed simp

function find_spec :: "bool \<Rightarrow> byte list \<Rightarrow> byte list list \<Rightarrow> udirent \<Rightarrow> bool \<times> udirent" where
  "find_spec fat32 name rs ent =
     (case readdir_spec fat32 rs False ent of
        (found, rs', ent') \<Rightarrow>
          if \<not> found then (False, ent')
          else if ufs_name_eq (e_name ent') name (length name) then (True, ent')
          else find_spec fat32 name rs' ent')"
  by pat_completeness auto
termination
  by (relation "measure (\<lambda>(fat32, name, rs, ent). length rs)") (auto dest!: readdir_spec_shorter [OF sym])

declare find_spec.simps [simp del]

context working_disk
begin

text \<open>Loading from sector \<open>r\<close> of cluster \<open>i\<close>.\<close>

lemma dir_load:
  assumes g: "good_geo g" and ch: "good_chain img g cl" and vol: "vol_ok good img g s"
    and i: "i < length cl" and r: "r < g_spc g"
    and d: "\<not> d_done d" "d_clus d = cl ! i" "d_sec_idx d = r"
  defines "n \<equiv> min (g_spc g - r) 16"
  shows "\<exists>u. ufs_sectors e (add32 (ufs_clus_sector g (cl ! i)) r) n (usb s)
      = (True, img_read img (clus_base g (cl ! i) + r) n, u) \<and> good u
    \<and> dir_pos img g cl (16 * (i * g_spc g + r))
        (d\<lparr>d_sec_idx := r + n, d_buf := overwrite (img_read img (clus_base g (cl ! i) + r) n) buf,
           d_ent := 0, d_nent := n * 16\<rparr>) i"
proof -
  have c: "\<not> ufs_eoc (cl ! i)" "clus_base g (cl ! i) + g_spc g \<le> two32"
    using ch i by (auto simp: good_chain_def)
  then have c2: "2 \<le> cl ! i" "cl ! i < 0x0ffffff0" by (auto simp: ufs_eoc_def)
  have n: "r + n \<le> g_spc g" using r by (simp add: n_def)
  have base: "add32 (ufs_clus_sector g (cl ! i)) r = clus_base g (cl ! i) + r"
  proof -
    have "(cl ! i - 2) * g_spc g < two32" "g_data_start g + (cl ! i - 2) * g_spc g < two32"
      using c(2) r by (simp_all add: clus_base_def)
    then have "ufs_clus_sector g (cl ! i) = clus_base g (cl ! i)"
      using c2 by (simp add: ufs_clus_sector_def clus_base_def u32_simps)
    then show ?thesis using c(2) r by (simp add: u32_simps)
  qed
  obtain u where u: "ufs_sectors e (clus_base g (cl ! i) + r) n (usb s)
      = (True, img_read img (clus_base g (cl ! i) + r) n, u)" "good u"
    using read_good [of "usb s" "clus_base g (cl ! i) + r" n] vol c(2) n by (auto simp: vol_ok_def)
  have fits: "i * g_spc g + r + n \<le> g_spc g * length cl"
  proof -
    have "i * g_spc g + r + n \<le> Suc i * g_spc g" using n by simp
    also have "\<dots> \<le> length cl * g_spc g" using i by (intro mult_le_mono1) simp
    finally show ?thesis by (simp add: mult.commute)
  qed
  have data: "img_read img (clus_base g (cl ! i) + r) n
      = take (512 * n) (drop (512 * (i * g_spc g + r)) (chain_bytes img g cl))"
    by (rule img_read_chain [where j = 0])
      (use g ch n fits i in \<open>auto simp: good_geo_def geo_ok_def good_chain_def ufs_eoc_def\<close>)
  have "dir_pos img g cl (16 * (i * g_spc g + r))
        (d\<lparr>d_sec_idx := r + n, d_buf := overwrite (img_read img (clus_base g (cl ! i) + r) n) buf,
           d_ent := 0, d_nent := n * 16\<rparr>) i"
  proof -
    have "512 * (i * g_spc g + (r + n)) - 32 * (n * 16) = 512 * (i * g_spc g + r)" by simp
    moreover have "take (32 * (n * 16)) (overwrite (img_read img (clus_base g (cl ! i) + r) n) buf)
        = img_read img (clus_base g (cl ! i) + r) n"
      by (simp add: overwrite_def mult.commute)
    moreover have "32 * (n * 16) = 512 * n" by simp
    ultimately show ?thesis
      using d i n data by (simp add: dir_pos_def)
  qed
  with u base show ?thesis by auto
qed

lemma dir_raw_step:
  assumes g: "good_geo g" and ch: "ended_chain img g cl" and vol: "vol_ok good img g s"
    and d: "dir_rest img g cl rs d"
  shows "\<exists>d' s'. vol_ok good img g s' \<and>
    (case rs of [] \<Rightarrow> ufs_dir_raw e d s = (None, d', s')
     | r # rs' \<Rightarrow> ufs_dir_raw e d s = (Some r, d', s') \<and> dir_rest img g cl rs' d')"
proof -
  let ?spc = "g_spc g" and ?B = "chain_bytes img g cl"
  let ?N = "16 * (?spc * length cl)"
  have gc: "good_chain img g cl" using ch by (simp add: ended_chain_def)
  have spc: "0 < ?spc" "?spc \<le> 255" using g by (auto simp: good_geo_def geo_ok_def)
  have gs: "geo s = g" using vol by (simp add: vol_ok_def)
  obtain p i where p: "dir_pos img g cl p d i" "p \<le> ?N" "rs = drop p (dir_entries img g cl)"
    using d by (auto simp: dir_rest_def)
  have lenE: "length (dir_entries img g cl) = ?N" by (simp add: dir_entries_def)
  have cons: "rs = take 32 (drop (32 * p) ?B) # drop (Suc p) (dir_entries img g cl)" if "p < ?N"
    using that p(3) by (simp add: Cons_nth_drop_Suc [symmetric] lenE dir_entries_def)
  have i: "i < length cl" "d_clus d = cl ! i" "\<not> d_done d" "d_sec_idx d \<le> ?spc" "d_ent d \<le> d_nent d"
    and pn: "p + d_nent d = 16 * (i * ?spc + d_sec_idx d) + d_ent d"
    using p(1) by (auto simp: dir_pos_def)
  have le: "i' * ?spc + r \<le> ?spc * length cl" if "i' < length cl" "r \<le> ?spc" for i' r
  proof -
    have "i' * ?spc + r \<le> Suc i' * ?spc" using that by simp
    also have "\<dots> \<le> length cl * ?spc" using that by (intro mult_le_mono1) simp
    finally show ?thesis by (simp add: mult.commute)
  qed
  show ?thesis
  proof (cases "d_ent d = d_nent d")
    case False
    with i have lt: "d_ent d < d_nent d" by simp
    have "p < 16 * (i * ?spc + d_sec_idx d)" using pn lt by linarith
    also have "\<dots> \<le> ?N" using le [OF i(1,4)] by (rule mult_le_mono2)
    finally have pN: "p < ?N" .
    have "ufs_dir_raw e d s = (Some (take 32 (drop (32 * p) ?B)), d\<lparr>d_ent := d_ent d + 1\<rparr>, s)"
      using False i dir_pos_take(1) [OF p(1) lt] by (simp add: ufs_dir_raw_def)
    moreover have "dir_rest img g cl (drop (Suc p) (dir_entries img g cl)) (d\<lparr>d_ent := d_ent d + 1\<rparr>)"
      using dir_restI [OF dir_pos_take(2) [OF p(1) lt]] pN by simp
    ultimately show ?thesis using vol cons [OF pN] by auto
  next
    case load: True
    have clus: "\<not> ufs_eoc (cl ! k)" if "k < length cl" for k
      using gc that by (auto simp: good_chain_def)
    then have clus0: "cl ! k \<noteq> 0" "cl ! k \<le> 0x0fffffff" if "k < length cl" for k
      using that by (fastforce simp: ufs_eoc_def)+
    text \<open>A load at sector \<open>r\<close> of cluster \<open>i'\<close>, which is where position \<open>p\<close> is.\<close>
    have loaded: ?thesis
      if n: "dir_next e d s = (Some (add32 (ufs_clus_sector g (cl ! i')) r, sub32 ?spc r), d1, s1)"
        and d1: "\<not> d_done d1" "d_clus d1 = cl ! i'" "d_sec_idx d1 = r" and v1: "vol_ok good img g s1"
        and i': "i' < length cl" "r < ?spc" and at: "p = 16 * (i' * ?spc + r)" for i' r d1 s1
    proof -
      let ?n = "min (?spc - r) 16"
      have sub: "sub32 ?spc r = ?spc - r" using i'(2) spc by (simp add: u32_simps)
      have nn: "(if ?spc - r > UFS_DIR_SECTORS then UFS_DIR_SECTORS else ?spc - r) = ?n"
        by (simp add: UFS_DIR_SECTORS_def)
      let ?b = "img_read img (clus_base g (cl ! i') + r) ?n"
      let ?d3 = "d1\<lparr>d_sec_idx := r + ?n, d_buf := overwrite ?b (d_buf d1), d_ent := 0, d_nent := ?n * 16\<rparr>"
      obtain u where u: "ufs_sectors e (add32 (ufs_clus_sector g (cl ! i')) r) ?n (usb s1) = (True, ?b, u)"
        "good u" "dir_pos img g cl p ?d3 i'"
        using dir_load [OF g gc v1 i' d1] at by blast
      have lt: "d_ent ?d3 < d_nent ?d3" using i'(2) by simp
      have pN: "p < ?N"
      proof -
        have "p + 16 * ?n = 16 * (i' * ?spc + (r + ?n))" using at by simp
        also have "\<dots> \<le> ?N"
        proof -
          have "r + ?n \<le> ?spc" using i'(2) by linarith
          from le [OF i'(1) this] show ?thesis by (rule mult_le_mono2)
        qed
        finally show ?thesis using i'(2) by simp
      qed
      have "ufs_dir_raw e d s = (Some (take 32 (drop (32 * p) ?B)), ?d3\<lparr>d_ent := 1\<rparr>, s1\<lparr>usb := u\<rparr>)"
        using load i(3) n u(1) dir_pos_take(1) [OF u(3) lt] d1
        by (simp add: ufs_dir_raw_def sub nn UFS_SECTOR_def Let_def)
      moreover have "dir_rest img g cl (drop (Suc p) (dir_entries img g cl)) (?d3\<lparr>d_ent := 1\<rparr>)"
        using dir_restI [OF dir_pos_take(2) [OF u(3) lt]] pN by simp
      moreover have "vol_ok good img g (s1\<lparr>usb := u\<rparr>)" using v1 u(2) by (simp add: vol_ok_def)
      ultimately show ?thesis using cons [OF pN] by auto
    qed
    show ?thesis
    proof (cases "d_sec_idx d = ?spc")
      case False
      then have r: "d_sec_idx d < ?spc" using i(4) by simp
      have "dir_next e d s = (Some (add32 (ufs_clus_sector g (cl ! i)) (d_sec_idx d), sub32 ?spc (d_sec_idx d)), d, s)"
        using False clus [OF i(1)] clus0 [OF i(1)] i(2) gs by (simp add: dir_next_def)
      then show ?thesis using loaded [of i "d_sec_idx d"] i(1-3) r vol pn load by simp
    next
      case adv: True
      obtain s1 where f: "ufs_fat_next e (cl ! i) s = (fat_entry img g (cl ! i), s1)"
        and v1: "vol_ok good img g s1"
        using fat_next_entry [OF vol g] clus0 [OF i(1)] by blast
      have gs1: "geo s1 = g" using v1 by (simp add: vol_ok_def)
      show ?thesis
      proof (cases "Suc i < length cl")
        case True
        then have "fat_entry img g (cl ! i) = cl ! Suc i" using gc by (simp add: good_chain_def)
        then have "dir_next e d s = (Some (add32 (ufs_clus_sector g (cl ! Suc i)) 0, sub32 ?spc 0),
            d\<lparr>d_clus := cl ! Suc i, d_sec_idx := 0\<rparr>, s1)"
          using adv f clus [OF True] clus0 [OF i(1)] i(2) gs gs1 by (simp add: dir_next_def)
        then show ?thesis
          using loaded [of "Suc i" 0] True i(3) spc v1 pn load adv by simp
      next
        case False
        then have last: "length cl = Suc i" using i(1) by simp
        then have last_i: "cl ! i = last cl" by (metis diff_Suc_1 last_conv_nth list.size(3) nat.distinct(1))
        then have "ufs_eoc (fat_entry img g (cl ! i))" using ch last_i by (simp add: ended_chain_def)
        then have "dir_next e d s = (None, d\<lparr>d_clus := fat_entry img g (cl ! i), d_sec_idx := 0\<rparr>, s1)"
          using adv f clus0 [OF i(1)] i(2) gs gs1 by (simp add: dir_next_def)
        moreover have "rs = []"
        proof -
          have "p = ?N" using pn load adv last by (simp add: algebra_simps)
          then show ?thesis using p(3) lenE by simp
        qed
        ultimately show ?thesis using load i(3) v1 by (simp add: ufs_dir_raw_def)
      qed
    qed
  qed
qed

lemma readdir_entries:
  assumes "good_geo g" and "ended_chain img g cl"
    and "vol_ok good img g s" and "dir_rest img g cl rs d" and "length rs < fuel"
    and "readdir_spec (g_fat32 g) rs ok ent = (found, rs', ent')"
  shows "\<exists>d' s'. readdir_loop e fuel ok d ent s = Some (found, d', ent', s') \<and> vol_ok good img g s'
    \<and> (found \<longrightarrow> dir_rest img g cl rs' d')"
  using assms(3-)
proof (induction rs arbitrary: fuel ok d ent s)
  case Nil
  then obtain k where "fuel = Suc k" by (cases fuel) auto
  then show ?case using Nil dir_raw_step [OF assms(1,2) Nil.prems(1,2)] by auto
next
  case (Cons r rs)
  then obtain k where k: "fuel = Suc k" "length rs < k" by (cases fuel) auto
  obtain d1 s1 where raw: "ufs_dir_raw e d s = (Some r, d1, s1)" and v1: "vol_ok good img g s1"
    and d1: "dir_rest img g cl rs d1"
    using dir_raw_step [OF assms(1,2) Cons.prems(1,2)] by auto
  have gs1: "geo s1 = g" using v1 by (simp add: vol_ok_def)
  show ?case
  proof (cases "r ! 0 = 0")
    case True
    then show ?thesis using Cons.prems raw v1 k by auto
  next
    case False
    obtain f1 ok1 ent1 where st: "dir_step (g_fat32 g) r ok ent = (f1, ok1, ent1)" by (rule prod_cases3)
    show ?thesis
    proof (cases f1)
      case True
      then show ?thesis using Cons.prems raw v1 k False st gs1 d1 by auto
    next
      case f: False
      then show ?thesis
        using Cons.IH [OF v1 d1 k(2), of ok1 ent1] Cons.prems raw k False st gs1 by auto
    qed
  qed
qed

lemma dir_start_rest:
  "0 < g_spc g \<Longrightarrow> cl \<noteq> [] \<Longrightarrow> dir_rest img g cl (dir_entries img g cl) (ufs_dir_start d (cl ! 0))"
  using dir_restI [of img g cl 0 "ufs_dir_start d (cl ! 0)" 0]
  by (simp add: dir_pos_def ufs_dir_start_def)

lemma find_entries:
  assumes "good_geo g" and "ended_chain img g cl"
    and "vol_ok good img g s" and "dir_rest img g cl rs d" and "length rs + 1 < fuel"
    and "find_spec (g_fat32 g) name rs ent = (found, ent')"
  shows "\<exists>s'. lookup_find e fuel name d ent s = Some (found, ent', s') \<and> vol_ok good img g s'"
  using assms(3-)
proof (induction "length rs" arbitrary: rs fuel d ent s rule: less_induct)
  case less
  obtain k where k: "fuel = Suc k" "length rs < k" using less.prems(3) by (cases fuel) auto
  obtain f rs1 ent1 where sp: "readdir_spec (g_fat32 g) rs False ent = (f, rs1, ent1)" by (rule prod_cases3)
  obtain d1 s1 where r: "ufs_readdir e k d ent s = Some (f, d1, ent1, s1)" "vol_ok good img g s1"
    "f \<longrightarrow> dir_rest img g cl rs1 d1"
    using readdir_entries [OF assms(1,2) less.prems(1,2) k(2) sp] by (auto simp: ufs_readdir_def)
  show ?case
  proof (cases "f \<and> \<not> ufs_name_eq (e_name ent1) name (length name)")
    case False
    then show ?thesis
      using less.prems(4) r k sp by (auto simp: find_spec.simps [of _ _ rs])
  next
    case True
    then have "length rs1 < length rs" using readdir_spec_shorter sp by simp
    then show ?thesis
      using less.hyps [of rs1 s1 d1 k ent1] True less.prems(3,4) r k sp
      by (auto simp: find_spec.simps [of _ _ rs])
  qed
qed

text \<open>A file in the root folder, looked up with nothing cached.\<close>

lemma lookup_root_file:
  assumes g: "good_geo g" "g_fat32 g" and root: "ended_chain img g rcl" "rcl ! 0 = g_root_clus g"
    and vol: "vol_ok good img g s" and cold: "dcache s = empty_dcache"
    and name: "name \<noteq> []" "0x2f \<notin> set name"
    and find: "find_spec True name (dir_entries img g rcl) (root_entry (g_root_clus g) ent) = (True, ent')"
    and isfile: "\<not> e_is_dir ent'"
    and fuel: "16 * (g_spc g * length rcl) + 1 < fuel"
  shows "\<exists>s'. ufs_lookup e fuel name ent s = Some (True, ent', s') \<and> vol_ok good img g s'"
proof -
  let ?rc = "g_root_clus g"
  have gs: "geo s = g" using vol by (simp add: vol_ok_def)
  have skip: "skip_slashes name = name"
    using name by (cases name) (auto simp: skip_slashes_def)
  have part: "takeWhile (\<lambda>c. c \<noteq> 0x2f) name = name" "dropWhile (\<lambda>c. c \<noteq> 0x2f) name = []"
    using name(2) by (auto simp: takeWhile_eq_all_conv dropWhile_eq_Nil_conv)
  have cache: "ufs_dcache_get name ?rc s = (0, ?rc)"
    by (simp add: ufs_dcache_get_def cold empty_dcache_def dcache_hit_def numeral_eq_Suc)
  have spc: "0 < g_spc g" using g by (simp add: good_geo_def geo_ok_def)
  have "dir_rest img g rcl (dir_entries img g rcl) (ufs_dir_start fresh_dir (rcl ! 0))"
    by (rule dir_start_rest) (use spc root in \<open>auto simp: ended_chain_def good_chain_def\<close>)
  moreover have "length (dir_entries img g rcl) + 1 < fuel" using fuel by (simp add: dir_entries_def)
  ultimately obtain s1 where find1: "lookup_find e fuel name (ufs_dir_start fresh_dir (rcl ! 0))
      (root_entry ?rc ent) s = Some (True, ent', s1)" "vol_ok good img g s1"
    using find_entries [OF g(1) root(1) vol _ _ , of _ _ fuel name "root_entry ?rc ent" True ent'] find g(2)
    by (metis (full_types))
  have "ufs_lookup e fuel name ent s = Some (True, ent', s1)"
  proof -
    have dir: "e_is_dir (root_entry ?rc ent)" by (simp add: root_entry_def)
    have "lookup_loop e fuel name name ?rc (root_entry ?rc ent) s = Some (True, ent', s1)"
      using find1(1) name(1) isfile root(2) dir
      by (simp add: lookup_loop.simps [of e fuel name name] lookup_loop.simps [of e fuel name "[]"] part
          Let_def skip_slashes_def)
    then show ?thesis
      unfolding ufs_lookup_def Let_def skip gs root_clus_def using g(2) cache by simp
  qed
  then show ?thesis using find1(2) by blast
qed

lemma open_root_file:
  assumes g: "good_geo g" "g_fat32 g" and root: "ended_chain img g rcl" "rcl ! 0 = g_root_clus g"
    and vol: "vol_ok good img g s" and cold: "dcache s = empty_dcache"
    and name: "name \<noteq> []" "0x2f \<notin> set name"
    and find: "find_spec True name (dir_entries img g rcl) (root_entry (g_root_clus g) ent) = (True, ent')"
    and isfile: "\<not> e_is_dir ent'"
    and fuel: "16 * (g_spc g * length rcl) + 1 < fuel"
  shows "\<exists>s'. ufs_open e fuel f name ent s
      = Some (True, f\<lparr>f_first := e_first ent', f_size := e_size ent', f_pos := 0,
            f_clus := e_first ent', f_clus_idx := 0, f_cstart := 0, f_clen := 0\<rparr>, s')
    \<and> vol_ok good img g s'"
  using lookup_root_file [OF assms] isfile by (auto simp: ufs_open_def)

lemma open_file_ok:
  assumes "good_chain img g cl" and "e_first ent' = cl ! 0"
    and "e_size ent' \<le> length (chain_bytes img g cl)" and "e_size ent' \<le> 0xfffffe00"
  shows "file_ok img g cl (f\<lparr>f_first := e_first ent', f_size := e_size ent', f_pos := 0,
            f_clus := e_first ent', f_clus_idx := 0, f_cstart := 0, f_clen := 0\<rparr>)"
  using assms by (simp add: file_ok_def good_chain_def)

end

end
