(* ===== verification/FatProps.thy ===== *)
theory FatProps
  imports FatDir
begin

text \<open>
  What the file system layer of \<open>usbfat.h\<close> promises its callers: opening and reading a file,
  listing a folder, the single write, a stick that is pulled out, the mounted layout.
\<close>

section \<open>Opening and reading a file\<close>

text \<open>
  C4: On any working disk, opening a file of the FAT32 root folder by name finds the first
  entry with that name, and reading \<open>len\<close> bytes after a seek to \<open>pos\<close> ends and returns exactly
  the bytes of its cluster chain from \<open>pos\<close> on, cut at the size of the file.
\<close>

theorem usb_open_read:
  assumes "working_disk e img good" and "good_geo g" and "g_fat32 g"
    and "ended_chain img g rcl" and "rcl ! 0 = g_root_clus g"
    and "vol_ok good img g s" and "dcache s = empty_dcache"
    and "name \<noteq> []" and "0x2f \<notin> set name"
    and "find_spec True name (dir_entries img g rcl) (root_entry (g_root_clus g) ent) = (True, ent')"
    and "\<not> e_is_dir ent'" and "16 * (g_spc g * length rcl) + 1 < fuel"
    and "good_chain img g cl" and "e_first ent' = cl ! 0"
    and "e_size ent' \<le> length (chain_bytes img g cl)" and "e_size ent' \<le> 0xfffffe00"
  shows "\<exists>f s1 f' s2. ufs_open e fuel f0 name ent s = Some (True, f, s1)
    \<and> ufs_read e (ufs_seek f pos) len s1
      = Some (take len (drop pos (file_bytes img g cl (e_size ent'))), f', s2)"
proof -
  let ?f = "f0\<lparr>f_first := e_first ent', f_size := e_size ent', f_pos := 0,
            f_clus := e_first ent', f_clus_idx := 0, f_cstart := 0, f_clen := 0\<rparr>"
  obtain s1 where o: "ufs_open e fuel f0 name ent s = Some (True, ?f, s1)" "vol_ok good img g s1"
    using working_disk.open_root_file [OF assms(1-12)] by blast
  have ok: "file_ok img g cl (ufs_seek ?f pos)"
    by (rule working_disk.seek_file [OF assms(1)], rule working_disk.open_file_ok [OF assms(1,13-16)])
  have sz: "f_size (ufs_seek ?f pos) = e_size ent'" by (simp add: ufs_seek_def)
  have drop: "drop (f_pos (ufs_seek ?f pos)) (file_bytes img g cl (e_size ent'))
      = drop pos (file_bytes img g cl (e_size ent'))"
    using assms(15) by (auto simp: ufs_seek_def file_bytes_def)
  obtain f' s2 where "ufs_read e (ufs_seek ?f pos) len s1
      = Some (take len (drop pos (file_bytes img g cl (e_size ent'))), f', s2)"
    using working_disk.read_file [OF assms(1,2,13) o(2) ok, of len] unfolding sz drop by blast
  with o(1) show ?thesis by blast
qed

text \<open>A small FAT32 volume: one table sector, the root folder in cluster 2, a file in cluster 3.\<close>

definition ex_entry :: "byte list" where
  "ex_entry = [0x43, 0x46, 0x47, 0x20, 0x20, 0x20, 0x20, 0x20, 0x54, 0x58, 0x54, 0x20]
     @ replicate 14 0 @ [3, 0] @ [0, 2, 0, 0]"

definition ex_image :: "nat \<Rightarrow> byte list" where
  "ex_image n =
     (if n = 1 then replicate 8 0 @ [0xff, 0xff, 0xff, 0x0f, 0xff, 0xff, 0xff, 0x0f]
      else if n = 2 then ex_entry else if n = 3 then [0x4e, 0x43, 1, 2, 3] else [])"

definition ex_geo :: geometry where
  "ex_geo = \<lparr>g_fat32 = True, g_spc = 1, g_fat_start = 1, g_root_start = 2, g_root_sectors = 0,
     g_data_start = 2, g_root_clus = 2, g_clus_bytes = 512\<rparr>"

definition ex_usb :: "(nat \<Rightarrow> byte list) \<Rightarrow> (nat \<Rightarrow> byte list) usb" where
  "ex_usb w = \<lparr>world = w, usb_lost = False, bot_dev = False, bot_in = 1, bot_out = 2, bot_lun = 0,
     bot_tag = 1, usb_bytes = 0\<rparr>"

definition ex_ufs :: "(nat \<Rightarrow> byte list) \<Rightarrow> (nat \<Rightarrow> byte list) ufs" where
  "ex_ufs w = \<lparr>usb = ex_usb w, geo = ex_geo, fat_cached = 0xffffffff, fatsec = replicate 512 0,
     ufs_sec = replicate 512 0, dcache = empty_dcache, dcache_next = 0\<rparr>"

definition ex_ent :: udirent where
  "ex_ent = \<lparr>e_name = replicate 256 0, e_attr = 0, e_size = 0, e_first = 0, e_is_dir = False\<rparr>"

definition ex_file :: ufile where
  "ex_file = \<lparr>f_size = 0, f_pos = 0, f_first = 0, f_clus = 0, f_clus_idx = 0, f_cstart = 0,
     f_clen = 0, f_cbuf = replicate 65536 0\<rparr>"

text \<open>\<open>cfg.txt\<close>, which the folder holds as \<open>CFG.TXT\<close>.\<close>

definition ex_name :: "byte list" where
  "ex_name = [0x63, 0x66, 0x67, 0x2e, 0x74, 0x78, 0x74]"

lemma ex_chains:
  "ended_chain (sector_of ex_image) ex_geo [2]" "good_chain (sector_of ex_image) ex_geo [3]"
  "length (chain_bytes (sector_of ex_image) ex_geo [3]) = 512"
proof -
  have "fat_entry (sector_of ex_image) ex_geo 2 = 0x0fffffff"
    by (simp add: fat_entry_def sector_of_def ex_image_def ex_geo_def ufs_fat_value_def ufs_le32_def nth_append
        take_Cons')
  then show "ended_chain (sector_of ex_image) ex_geo [2]"
    by (simp add: ended_chain_def good_chain_def ufs_eoc_def clus_base_def ex_geo_def)
  show "good_chain (sector_of ex_image) ex_geo [3]"
    by (simp add: good_chain_def ufs_eoc_def clus_base_def ex_geo_def)
  show "length (chain_bytes (sector_of ex_image) ex_geo [3]) = 512"
    by (simp add: chain_bytes_def img_read_def sector_of_def ex_geo_def)
qed

lemma ex_root: "\<exists>rs. dir_entries (sector_of ex_image) ex_geo [2] = ex_entry # rs"
proof -
  have len: "length ex_entry = 32" by (simp add: ex_entry_def)
  have "chain_bytes (sector_of ex_image) ex_geo [2] = take 512 (ex_entry @ replicate 512 0)"
    by (simp add: chain_bytes_def img_read_def sector_of_def ex_image_def ex_geo_def clus_base_def)
  then have "take 32 (drop (32 * 0) (chain_bytes (sector_of ex_image) ex_geo [2])) = ex_entry"
    by (simp add: len)
  moreover have "[0..<16 * (g_spc ex_geo * length [2::nat])] = 0 # [1..<16]"
    by (simp add: ex_geo_def upt_conv_Cons)
  ultimately show ?thesis by (simp add: dir_entries_def)
qed

lemma ex_find:
  "\<exists>ent'. find_spec True ex_name (dir_entries (sector_of ex_image) ex_geo [2]) (root_entry 2 ex_ent)
      = (True, ent') \<and> \<not> e_is_dir ent' \<and> e_first ent' = 3 \<and> e_size ent' = 512"
proof -
  let ?ent = "dirent_fill True ex_entry False (root_entry 2 ex_ent)"
  have step: "dir_step True ex_entry False (root_entry 2 ex_ent) = (True, False, ?ent)"
    by (simp add: dir_step_def is_dot_entry_def ex_entry_def)
  have name: "short_name ex_entry = [0x43, 0x46, 0x47, 0x2e, 0x54, 0x58, 0x54]"
    by (simp add: short_name_def ex_entry_def)
  have eq: "ufs_name_eq (e_name ?ent) ex_name (length ex_name)"
    by (simp add: dirent_fill_def name overwrite_def ufs_name_eq_def ex_name_def cat_def ufs_lower_def
        upt_conv_Cons)
  have fields: "\<not> e_is_dir ?ent" "e_first ?ent = 3" "e_size ?ent = 512"
    by (simp_all add: dirent_fill_def ex_entry_def nth_append ufs_le16_def ufs_le32_def)
  have ne: "ex_entry ! 0 \<noteq> 0" by (simp add: ex_entry_def)
  obtain rs where rs: "dir_entries (sector_of ex_image) ex_geo [2] = ex_entry # rs" using ex_root by blast
  have "find_spec True ex_name (ex_entry # rs) (root_entry 2 ex_ent) = (True, ?ent)"
    using step eq ne by (simp add: find_spec.simps [of True ex_name "ex_entry # rs"])
  then show ?thesis using fields unfolding rs by blast
qed

theorem usb_open_read_witness:
  "\<exists>f s1 f' s2. ufs_open image_env 30 ex_file ex_name ex_ent (ex_ufs (sector_of ex_image)) = Some (True, f, s1)
    \<and> ufs_read image_env (ufs_seek f 0) 4 s1 = Some ([0x4e, 0x43, 1, 2], f', s2)"
proof -
  obtain ent' where ent': "find_spec True ex_name (dir_entries (sector_of ex_image) ex_geo [2]) (root_entry 2 ex_ent)
      = (True, ent')" "\<not> e_is_dir ent'" "e_first ent' = 3" "e_size ent' = 512"
    using ex_find by blast
  have bytes: "take 4 (drop 0 (file_bytes (sector_of ex_image) ex_geo [3] 512)) = [0x4e, 0x43, 1, 2]"
    by code_simp
  have "\<exists>f s1 f' s2. ufs_open image_env 30 ex_file ex_name ex_ent (ex_ufs (sector_of ex_image)) = Some (True, f, s1)
    \<and> ufs_read image_env (ufs_seek f 0) 4 s1
      = Some (take 4 (drop 0 (file_bytes (sector_of ex_image) ex_geo [3] (e_size ent'))), f', s2)"
    by (rule usb_open_read [OF image_disk.working_disk_axioms, where g = ex_geo and rcl = "[2]"])
      (use ent' ex_chains in \<open>simp_all add: good_geo_def geo_ok_def ex_geo_def ex_ufs_def ex_usb_def
         vol_ok_def image_good_def ex_name_def\<close>)
  then show ?thesis using bytes ent'(4) by simp
qed

section \<open>Listing a folder\<close>



section \<open>The single write\<close>


text \<open>The settings file of the example volume, filled to one sector.\<close>

definition ex_data :: "byte list" where
  "ex_data = [0x4e, 0x43, 9] @ replicate 509 0"

lemma ex_overwrite:
  "\<exists>s'. ufs_overwrite image_env 30 ex_name ex_data [0x4e, 0x43] ex_ent (ex_ufs (sector_of ex_image))
    = Some (Inr (), s')"
proof -
  let ?img = "sector_of ex_image"
  obtain ent' where ent': "find_spec True ex_name (dir_entries ?img ex_geo [2]) (root_entry 2 ex_ent)
      = (True, ent')" "\<not> e_is_dir ent'" "e_first ent' = 3" "e_size ent' = 512"
    using ex_find by blast
  have "\<exists>s'. ufs_lookup image_env 30 ex_name ex_ent (ex_ufs ?img) = Some (True, ent', s')
      \<and> vol_ok (image_good ?img) ?img ex_geo s'"
    by (rule image_disk.lookup_root_file [where rcl = "[2]"])
      (use ent' ex_chains in \<open>simp_all add: good_geo_def geo_ok_def ex_geo_def ex_ufs_def ex_usb_def
         vol_ok_def image_good_def ex_name_def\<close>)
  then obtain s1 where s1: "ufs_lookup image_env 30 ex_name ex_ent (ex_ufs ?img) = Some (True, ent', s1)"
    "geo s1 = ex_geo" "world (usb s1) = ?img" "\<not> usb_lost (usb s1)"
    by (auto simp: vol_ok_def image_good_def)
  have env: "ext_read image_env = Some image_read" "ext_write image_env = Some image_write"
    by (simp_all add: image_env_def)
  have img3: "?img 3 = [0x4e, 0x43, 1, 2, 3] @ replicate 507 0"
    by (simp add: sector_of_def ex_image_def numeral_eq_Suc)
  have "ufs_clus_sector ex_geo 3 = 3" by (simp add: ufs_clus_sector_def ex_geo_def u32_simps)
  moreover have "take 512 ex_data = ex_data" "length ex_data = 512" "take (length [0x4e, 0x43::byte]) ex_data = [0x4e, 0x43]"
    by (simp_all add: ex_data_def)
  moreover have "\<not> ufs_eoc 3" by (simp add: ufs_eoc_def)
  ultimately show ?thesis
    using s1 ent'
    by (simp add: ufs_overwrite_def env ufs_read_sec_def image_sectors img_read_def img3 overwrite_def
        ufs_write_sector_def image_write_def UFS_SECTOR_def)
qed


section \<open>A stick that is pulled out\<close>

text \<open>
  Once a sector read fails the stick counts as lost, and from then on every read fails at
  once, without touching the device, until it is mounted again.
\<close>

theorem usb_lost_fails:
  assumes "ufs_sectors e start count u = (False, d, u')"
  shows "usb_lost u' \<and> ufs_sectors e start' count' u' = (False, [], u')"
  using ufs_sectors_fail_lost [OF assms] ufs_sectors_when_lost by blast

text \<open>U-Boot's reader delivers nothing, as when the stick is pulled during the read.\<close>

definition pulled_env :: "(nat \<Rightarrow> byte list) usb_env" where
  "pulled_env = uboot_env\<lparr>uboot_read := (\<lambda>w _ _. (0, [], w))\<rparr>"

theorem usb_lost_fails_witness:
  "\<exists>d u'. ufs_sectors pulled_env 7 2 (ex_usb ex_image) = (False, d, u')
    \<and> ufs_sectors pulled_env 0 1 u' = (False, [], u')"
proof -
  have "\<exists>d u'. ufs_sectors pulled_env 7 2 (ex_usb ex_image) = (False, d, u')"
    by (simp add: ufs_sectors_def pulled_env_def uboot_env_def image_env_def check_present_def
        uboot_sectors_def ex_usb_def Let_def)
  then show ?thesis using usb_lost_fails by blast
qed

section \<open>The layout of a mounted volume\<close>

text \<open>The fields of the boot sector, and the cluster count of the FAT specification.\<close>

definition bpb_totsec :: "byte list \<Rightarrow> nat" where
  "bpb_totsec b = (if ufs_le16 b 19 \<noteq> 0 then ufs_le16 b 19 else ufs_le32 b 32)"

definition bpb_fatsz :: "byte list \<Rightarrow> nat" where
  "bpb_fatsz b = (if ufs_le16 b 22 \<noteq> 0 then ufs_le16 b 22 else ufs_le32 b 36)"

definition bpb_root_sectors :: "byte list \<Rightarrow> nat" where
  "bpb_root_sectors b = (ufs_le16 b 17 * 32 + 511) div 512"

definition bpb_first_data :: "byte list \<Rightarrow> nat" where
  "bpb_first_data b = ufs_le16 b 14 + unat (b ! 16) * bpb_fatsz b + bpb_root_sectors b"

definition bpb_clusters :: "byte list \<Rightarrow> nat" where
  "bpb_clusters b = (bpb_totsec b - bpb_first_data b) div unat (b ! 13)"

definition bpb_geometry :: "nat \<Rightarrow> byte list \<Rightarrow> geometry" where
  "bpb_geometry part b =
     \<lparr>g_fat32 = (bpb_clusters b \<ge> 65525), g_spc = unat (b ! 13), g_fat_start = part + ufs_le16 b 14,
      g_root_start = part + ufs_le16 b 14 + unat (b ! 16) * bpb_fatsz b,
      g_root_sectors = bpb_root_sectors b, g_data_start = part + bpb_first_data b,
      g_root_clus = ufs_le32 b 44, g_clus_bytes = unat (b ! 13) * 512\<rparr>"

lemma boot_layout_spec:
  assumes "bpb_first_data b \<le> bpb_totsec b" and "part + bpb_totsec b < two32"
  shows "boot_layout part b = (bpb_geometry part b, bpb_clusters b)"
proof -
  let ?f = "unat (b ! 16) * bpb_fatsz b"
  have lt: "part + bpb_first_data b < two32" "bpb_first_data b < two32" "bpb_totsec b < two32"
    using assms by linarith+
  then have "?f < two32" "part + ufs_le16 b 14 < two32" "part + ufs_le16 b 14 + ?f < two32"
    "part + ufs_le16 b 14 + ?f + bpb_root_sectors b < two32"
    by (simp_all add: bpb_first_data_def)
  then have a: "add32 part (ufs_le16 b 14) = part + ufs_le16 b 14" "mul32 (unat (b ! 16)) (bpb_fatsz b) = ?f"
    "add32 (part + ufs_le16 b 14) ?f = part + ufs_le16 b 14 + ?f"
    "add32 (part + ufs_le16 b 14 + ?f) (bpb_root_sectors b) = part + bpb_first_data b"
    by (simp_all add: u32_simps bpb_first_data_def)
  have s: "sub32 (part + bpb_first_data b) part = bpb_first_data b"
    "sub32 (bpb_totsec b) (bpb_first_data b) = bpb_totsec b - bpb_first_data b"
    using lt assms(1) by (simp_all add: u32_simps)
  have r: "(ufs_le16 b 17 * 32 + UFS_SECTOR - 1) div UFS_SECTOR = bpb_root_sectors b"
    by (simp add: UFS_SECTOR_def bpb_root_sectors_def)
  show ?thesis
    unfolding boot_layout_def Let_def bpb_totsec_def [symmetric] bpb_fatsz_def [symmetric] r a s
    by (simp add: bpb_geometry_def bpb_clusters_def UFS_SECTOR_def)
qed

text \<open>
  A boot sector whose fields fit in the partition and in 32 bits mounts with the layout of
  the FAT specification: the cluster count alone decides between FAT32 (65525 or more), FAT16
  and FAT12, which is refused; mounting empties the folder cache.
\<close>

theorem usb_mount_layout:
  assumes "ufs_le16 (ufs_sec s) 11 = 512" and "ufs_sec s ! 13 \<noteq> 0"
    and "bpb_first_data (ufs_sec s) \<le> bpb_totsec (ufs_sec s)" and "part + bpb_totsec (ufs_sec s) < two32"
  shows "mount_boot part s =
    (let g = bpb_geometry part (ufs_sec s)
     in if bpb_clusters (ufs_sec s) < 4085 then (Inl Fat12, s\<lparr>geo := g\<lparr>g_fat32 := g_fat32 (geo s)\<rparr>\<rparr>)
        else (Inr (), s\<lparr>geo := g, dcache := empty_dcache\<rparr>))"
  using assms(1,2) boot_layout_spec [OF assms(3,4)]
  by (simp add: mount_boot_def UFS_SECTOR_def Let_def)

text \<open>A FAT32 boot sector: 8 sectors per cluster, 32 reserved, two tables of 1000 sectors, 2000000 sectors.\<close>

definition ex_boot :: "byte list" where
  "ex_boot = replicate 11 0 @ [0, 2, 8, 32, 0, 2, 0, 0, 0, 0, 0xf8, 0, 0] @ replicate 8 0
     @ [0x80, 0x84, 0x1e, 0] @ [0xe8, 3, 0, 0] @ replicate 4 0 @ [2, 0, 0, 0]"

theorem usb_mount_layout_witness:
  "\<exists>s'. mount_boot 63 (ex_ufs ex_image \<lparr>ufs_sec := ex_boot\<rparr>) = (Inr (), s')
     \<and> geo s' = \<lparr>g_fat32 = True, g_spc = 8, g_fat_start = 95, g_root_start = 2095, g_root_sectors = 0,
          g_data_start = 2095, g_root_clus = 2, g_clus_bytes = 4096\<rparr>"
proof -
  let ?s = "ex_ufs ex_image \<lparr>ufs_sec := ex_boot\<rparr>"
  have b: "ufs_le16 ex_boot 11 = 512" "unat (ex_boot ! 13) = 8" "ex_boot ! 13 \<noteq> 0" "ufs_le16 ex_boot 14 = 32"
    "unat (ex_boot ! 16) = 2" "ufs_le16 ex_boot 17 = 0" "ufs_le16 ex_boot 19 = 0" "ufs_le16 ex_boot 22 = 0"
    "ufs_le32 ex_boot 32 = 2000000" "ufs_le32 ex_boot 36 = 1000" "ufs_le32 ex_boot 44 = 2"
    by (simp_all add: ex_boot_def nth_append ufs_le16_def ufs_le32_def)
  have c: "bpb_first_data ex_boot = 2032" "bpb_totsec ex_boot = 2000000" "bpb_clusters ex_boot = 249746"
    by (simp_all add: bpb_first_data_def bpb_totsec_def bpb_clusters_def bpb_fatsz_def bpb_root_sectors_def b)
  have "bpb_geometry 63 ex_boot = \<lparr>g_fat32 = True, g_spc = 8, g_fat_start = 95, g_root_start = 2095,
      g_root_sectors = 0, g_data_start = 2095, g_root_clus = 2, g_clus_bytes = 4096\<rparr>"
    by (simp add: bpb_geometry_def b c bpb_fatsz_def bpb_root_sectors_def)
  then show ?thesis
    using usb_mount_layout [of ?s 63] b(1,3) c by (simp add: Let_def)
qed

section \<open>The name buffer\<close>

lemma length_lfn_part [simp]: "length (lfn_part r seq k name) = length name"
proof (induction r seq k name rule: lfn_part.induct)
  case (1 r seq k name)
  then show ?case by (subst lfn_part.simps) (simp add: Let_def)
qed

lemma length_short_name: "length (short_name r) \<le> 12"
proof -
  have "length (takeWhile (\<lambda>c. c \<noteq> 0x20) (take 8 r)) \<le> 8"
    "length (takeWhile (\<lambda>c. c \<noteq> 0x20) (take 3 (drop 8 r))) \<le> 3"
    using length_takeWhile_le [of "\<lambda>c. c \<noteq> 0x20" "take 8 r"]
      length_takeWhile_le [of "\<lambda>c. c \<noteq> 0x20" "take 3 (drop 8 r)"]
    by simp_all
  then show ?thesis by (auto simp: short_name_def Let_def)
qed

text \<open>
  Malformed long names. Only the part with the 0x40 flag ends the name, and later parts may
  lie behind that end, so a folder entry can leave the 256-byte name buffer without any NUL
  when it held none before.
\<close>

definition ex_lfn :: "byte \<Rightarrow> byte list" where
  "ex_lfn seq = [seq, 0x41, 0, 0x41, 0, 0x41, 0, 0x41, 0, 0x41, 0, 0x0f, 0, 0, 0x41, 0, 0x41, 0, 0x41, 0,
     0x41, 0, 0x41, 0, 0x41, 0, 0, 0, 0x41, 0, 0x41, 0]"

definition ex_lfn_dir :: "byte list list" where
  "ex_lfn_dir = [ex_lfn 0x41, ex_lfn 2, ex_entry]"

lemma ex_lfn_chars: "k < 13 \<Longrightarrow> ufs_le16 (ex_lfn q) (lfn_pos ! k) = 0x41"
proof -
  have "\<forall>p \<in> set lfn_pos. ufs_le16 (ex_lfn q) p = 0x41"
    by (simp add: lfn_pos_def ex_lfn_def ufs_le16_def)
  moreover have "length lfn_pos = 13" by (simp add: lfn_pos_def)
  ultimately show "k < 13 \<Longrightarrow> ufs_le16 (ex_lfn q) (lfn_pos ! k) = 0x41"
    by (metis nth_mem)
qed

lemma lfn_part_nth:
  assumes "\<forall>k < 13. ufs_le16 r (lfn_pos ! k) = 0x41" and "length name = 256" and "i < 256"
  shows "lfn_part r seq k name ! i
    = (if seq * 13 + k \<le> i \<and> i < seq * 13 + 13 \<and> i < 255 then 0x41 else name ! i)"
  using assms(2)
proof (induction "13 - k" arbitrary: k name)
  case 0
  then show ?case by (subst lfn_part.simps) auto
next
  case (Suc m)
  then have k: "k < 13" "ufs_le16 r (lfn_pos ! k) = 0x41" using assms(1) by auto
  show ?case
  proof (cases "seq * 13 + k < 255")
    case True
    have "lfn_part r seq k name = lfn_part r seq (Suc k) (name[seq * 13 + k := 0x41])"
      using k True by (subst lfn_part.simps) (simp add: UFS_NAME_MAX_def lfn_char_def)
    then show ?thesis
      using Suc.hyps(1) [of "Suc k" "name[seq * 13 + k := 0x41]"] Suc.hyps(2) Suc.prems True k assms(3)
      by (auto simp: nth_list_update)
  next
    case False
    then show ?thesis by (subst lfn_part.simps) (auto simp: UFS_NAME_MAX_def)
  qed
qed

lemma readdir_unterminated:
  "case readdir_spec True ex_lfn_dir False (ex_ent\<lparr>e_name := replicate 256 0xff\<rparr>) of
     (found, rs, ent) \<Rightarrow> found \<and> length (e_name ent) = 256 \<and> 0 \<notin> set (e_name ent)"
proof -
  let ?n1 = "lfn_part (ex_lfn 0x41) 0 0 ((replicate 256 0xff)[13 := 0])"
  let ?n2 = "lfn_part (ex_lfn 2) (Suc 0) 0 ?n1"
  have s1: "dir_step True (ex_lfn 0x41) False (ex_ent\<lparr>e_name := replicate 256 0xff\<rparr>)
      = (False, True, ex_ent\<lparr>e_name := ?n1\<rparr>)"
    by (simp add: dir_step_def lfn_step_def lfn_end_def UFS_NAME_MAX_def ex_lfn_def)
  have s2: "dir_step True (ex_lfn 2) True (ex_ent\<lparr>e_name := ?n1\<rparr>) = (False, True, ex_ent\<lparr>e_name := ?n2\<rparr>)"
    by (simp add: dir_step_def lfn_step_def) (simp add: ex_lfn_def)
  have s3: "dir_step True ex_entry True (ex_ent\<lparr>e_name := ?n2\<rparr>)
      = (True, True, dirent_fill True ex_entry True (ex_ent\<lparr>e_name := ?n2\<rparr>))"
    by (simp add: dir_step_def is_dot_entry_def ex_entry_def)
  have h: "ex_lfn q ! 0 = q" "ex_entry ! 0 \<noteq> 0" for q by (simp_all add: ex_lfn_def ex_entry_def)
  have n2: "?n2 ! i \<noteq> 0" if "i < 256" for i
    using that by (simp add: lfn_part_nth ex_lfn_chars nth_list_update)
  then have "0 \<notin> set ?n2" by (auto simp: in_set_conv_nth)
  then show ?thesis
    by (simp add: ex_lfn_dir_def s1 s2 s3 h dirent_fill_def)
qed

end
