(* ===== verification/UsbBot.thy ===== *)
theory UsbBot
  imports UsbDisk
begin

text \<open>
  A stick that follows the Bulk-Only Transport and SCSI READ(10) specifications, as an
  environment for \<open>ufs_sectors\<close>: it decodes the command block wrapper, delivers the sectors in
  pieces of the size the host asks for, then the status wrapper. The third provider of the disk
  interface, next to the hooks and U-Boot's reader (\<open>UsbDisk\<close>).
\<close>

section \<open>The device\<close>

record bot_disk =
  dk_img :: "nat \<Rightarrow> byte list"
  dk_data :: "byte list"
  dk_tag :: nat

definition cbw_lba :: "byte list \<Rightarrow> nat" where
  "cbw_lba c = unat (c ! 17) * 16777216 + unat (c ! 18) * 65536 + unat (c ! 19) * 256 + unat (c ! 20)"

definition cbw_count :: "byte list \<Rightarrow> nat" where
  "cbw_count c = unat (c ! 22) * 256 + unat (c ! 23)"

definition cbw_valid :: "byte list \<Rightarrow> bool" where
  "cbw_valid c \<longleftrightarrow> length c = 31 \<and> ufs_le32 c 0 = 0x43425355 \<and> c ! 12 = 0x80 \<and> c ! 14 = 10
     \<and> c ! 15 = 0x28 \<and> ufs_le32 c 8 = 512 * cbw_count c"

definition disk_out :: "bot_disk \<Rightarrow> nat \<Rightarrow> byte list \<Rightarrow> int \<times> int \<times> bot_disk" where
  "disk_out w ep c =
     (if cbw_valid c
      then (0, 31, w\<lparr>dk_data := img_read (dk_img w) (cbw_lba c) (cbw_count c), dk_tag := ufs_le32 c 4\<rparr>)
      else (-1, 0, w))"

definition disk_csw :: "nat \<Rightarrow> byte list" where
  "disk_csw tag = ufs_put32 0x53425355 @ ufs_put32 tag @ ufs_put32 0 @ [0]"

definition disk_in :: "bot_disk \<Rightarrow> nat \<Rightarrow> nat \<Rightarrow> int \<times> int \<times> byte list \<times> bot_disk" where
  "disk_in w ep k =
     (if dk_data w = [] then (0, int (min k 13), take k (disk_csw (dk_tag w)), w)
      else (0, int (min k (length (dk_data w))), take k (dk_data w), w\<lparr>dk_data := drop k (dk_data w)\<rparr>))"

definition bot_env :: "bot_disk usb_env" where
  "bot_env = \<lparr>ext_read = None, ext_write = None, stick_present = (\<lambda>w. (True, w)),
     bulk_out = disk_out, bulk_in = disk_in, uboot_read = (\<lambda>w _ _. (0, [], w)),
     uboot_write = (\<lambda>w _ _. (0, w)), uboot_write_fn = (\<lambda>_. 0)\<rparr>"

definition bot_good :: "(nat \<Rightarrow> byte list) \<Rightarrow> bot_disk usb \<Rightarrow> bool" where
  "bot_good img u \<longleftrightarrow> \<not> usb_lost u \<and> bot_dev u \<and> dk_img (world u) = img \<and> dk_data (world u) = []
     \<and> bot_tag u < two32"

section \<open>One command\<close>

lemma be32_bytes:
  "lba < two32 \<Longrightarrow> unat (of_nat (drop_bit 24 lba) :: byte) * 16777216
    + unat (of_nat (drop_bit 16 lba) :: byte) * 65536 + unat (of_nat (drop_bit 8 lba) :: byte) * 256
    + unat (of_nat lba :: byte) = lba"
proof -
  assume "lba < two32"
  then have "ufs_le32 (ufs_put32 lba) 0 = lba" by (rule ufs_le32_put32)
  then show ?thesis by (simp add: ufs_le32_eq ufs_put32_def algebra_simps)
qed

lemma ufs_le32_at: "length xs = i \<Longrightarrow> v < two32 \<Longrightarrow> ufs_le32 (xs @ ufs_put32 v @ ys) i = v"
  using ufs_le32_put32 [of v] by (auto simp: ufs_le32_eq ufs_put32_def nth_append)

lemma unat_of_nat_byte: "n < 256 \<Longrightarrow> unat (of_nat n :: byte) = n"
  by (simp add: unat_of_nat)

lemma be16_bytes: "n < 65536 \<Longrightarrow> unat (of_nat (drop_bit 8 n) :: byte) * 256 + unat (of_nat n :: byte) = n"
proof -
  assume "n < 65536"
  then have "drop_bit 8 n < 256" by (simp add: drop_bit_eq_div less_mult_imp_div_less)
  then show ?thesis by (simp add: unat_of_nat drop_bit_eq_div)
qed

lemma cbw_fields:
  assumes "tag < two32" and "n * 512 < two32" and "lba < two32" and "n < 65536"
  shows "cbw_valid (ufs_cbw tag (n * 512) lun lba n)" and "cbw_lba (ufs_cbw tag (n * 512) lun lba n) = lba"
    and "ufs_le32 (ufs_cbw tag (n * 512) lun lba n) 4 = tag"
    and "cbw_count (ufs_cbw tag (n * 512) lun lba n) = n"
proof -
  let ?c = "ufs_cbw tag (n * 512) lun lba n"
  let ?rest = "[0x80, of_nat lun, 10, 0x28, 0, of_nat (drop_bit 24 lba), of_nat (drop_bit 16 lba),
     of_nat (drop_bit 8 lba), of_nat lba, 0, of_nat (drop_bit 8 n), of_nat n] @ replicate 7 (0 :: byte)"
  have c: "?c = ufs_put32 0x43425355 @ ufs_put32 tag @ ufs_put32 (n * 512) @ ?rest"
    by (simp add: ufs_cbw_def)
  have at: "?c ! (12 + i) = ?rest ! i" for i
    unfolding c by (simp add: nth_append)
  have b: "?c ! 12 = 0x80" "?c ! 14 = 10" "?c ! 15 = 0x28"
    "?c ! 17 = of_nat (drop_bit 24 lba)" "?c ! 18 = of_nat (drop_bit 16 lba)"
    "?c ! 19 = of_nat (drop_bit 8 lba)" "?c ! 20 = of_nat lba"
    "?c ! 22 = of_nat (drop_bit 8 n)" "?c ! 23 = of_nat n"
    using at [of 0] at [of 2] at [of 3] at [of 5] at [of 6] at [of 7] at [of 8] at [of 10] at [of 11]
    by simp_all
  show lba: "cbw_lba ?c = lba" using be32_bytes [OF assms(3)] by (simp add: cbw_lba_def b)
  show count: "cbw_count ?c = n" using be16_bytes [OF assms(4)] by (simp add: cbw_count_def b)
  have "ufs_le32 ?c 0 = 0x43425355"
    unfolding c using ufs_le32_at [of "[]" 0 "0x43425355"] by simp
  moreover show "ufs_le32 ?c 4 = tag"
    unfolding c by (rule ufs_le32_at) (use assms in simp_all)
  moreover have "ufs_le32 ?c 8 = n * 512"
    using ufs_le32_at [of "ufs_put32 0x43425355 @ ufs_put32 tag" 8 "n * 512" ?rest] assms
    by (simp add: c)
  moreover have "length ?c = 31" by (simp add: c)
  ultimately show "cbw_valid ?c" by (simp add: cbw_valid_def b count mult.commute)
qed

lemma csw_ok: "tag < two32 \<Longrightarrow> bot_csw_ok (take 13 (disk_csw tag)) tag"
proof -
  assume tag: "tag < two32"
  have "ufs_le32 (disk_csw tag) 4 = tag"
    unfolding disk_csw_def by (rule ufs_le32_at) (use tag in simp_all)
  moreover have "ufs_le32 (disk_csw tag) 8 = 0"
    using ufs_le32_at [of "ufs_put32 0x53425355 @ ufs_put32 tag" 8 0 "[0]"] by (simp add: disk_csw_def)
  moreover have "disk_csw tag ! 12 = 0" by (simp add: disk_csw_def nth_append)
  moreover have "disk_csw tag = [0x55, 0x53, 0x42, 0x53] @ ufs_put32 tag @ ufs_put32 0 @ [0]"
    by (simp add: disk_csw_def ufs_put32_def [of "0x53425355"] drop_bit_eq_div)
  moreover have "take 13 (disk_csw tag) = disk_csw tag" by (simp add: disk_csw_def)
  ultimately show ?thesis by (simp add: bot_csw_ok_def)
qed

lemma bot_data_disk:
  "length (dk_data w) = len - done \<Longrightarrow> done \<le> len
    \<Longrightarrow> bot_data bot_env ep len done dst w = (True, dst @ dk_data w, w\<lparr>dk_data := []\<rparr>)"
proof (induction "len - done" arbitrary: "done" dst w rule: less_induct)
  case less
  show ?case
  proof (cases "done < len")
    case False
    then show ?thesis using less.prems by (simp add: bot_data.simps)
  next
    case True
    define k where "k = (if len - done < UFS_BOT_XFER then len - done else UFS_BOT_XFER)"
    have k: "0 < k" "k \<le> length (dk_data w)" "done + k \<le> len"
      using True less.prems by (auto simp: k_def UFS_BOT_XFER_def)
    then have "bulk_in bot_env w ep k = (0, int k, take k (dk_data w), w\<lparr>dk_data := drop k (dk_data w)\<rparr>)"
      by (auto simp: bot_env_def disk_in_def min_def)
    moreover have "bot_data bot_env ep len (done + k) (dst @ take k (dk_data w)) (w\<lparr>dk_data := drop k (dk_data w)\<rparr>)
        = (True, dst @ dk_data w, w\<lparr>dk_data := []\<rparr>)"
      using less.hyps [of "done + k" "w\<lparr>dk_data := drop k (dk_data w)\<rparr>" "dst @ take k (dk_data w)"] k True less.prems
      by simp
    ultimately show ?thesis
      using True by (simp add: bot_data.simps [of bot_env ep len "done"] k_def [symmetric])
  qed
qed

lemma length_img_read_512:
  "(\<And>s. length (img s) = 512) \<Longrightarrow> length (img_read img start count) = 512 * count"
  by (induction count) (simp_all add: img_read_def)

lemma bot_read_disk:
  assumes "bot_good img u" and "\<And>s. length (img s) = 512" and "lba + n \<le> two32" and "0 < n" and "n \<le> 256"
  shows "\<exists>u'. ufs_bot_read bot_env lba n u = (True, img_read img lba n, u') \<and> bot_good img u'"
proof -
  let ?w = "world u"
  have g: "dk_img ?w = img" "bot_tag u < two32" using assms(1) by (auto simp: bot_good_def)
  have len: "mul32 n UFS_SECTOR = n * 512" using assms(5) by (simp add: UFS_SECTOR_def u32_simps)
  let ?c = "ufs_cbw (bot_tag u) (n * 512) (bot_lun u) lba n"
  have c: "cbw_valid ?c" "cbw_lba ?c = lba" "ufs_le32 ?c 4 = bot_tag u" "cbw_count ?c = n"
    using cbw_fields [of "bot_tag u" n lba "bot_lun u"] g assms by auto
  let ?w1 = "?w\<lparr>dk_data := img_read img lba n, dk_tag := bot_tag u\<rparr>"
  have out: "bulk_out bot_env ?w (bot_out u) ?c = (0, 31, ?w1)"
    using c g by (simp add: bot_env_def disk_out_def)
  have data: "bot_data bot_env (bot_in u) (n * 512) 0 [] ?w1 = (True, img_read img lba n, ?w1\<lparr>dk_data := []\<rparr>)"
    by (subst bot_data_disk) (simp_all add: length_img_read_512 [OF assms(2)] mult.commute)
  let ?w2 = "?w\<lparr>dk_tag := bot_tag u, dk_data := []\<rparr>"
  have w2: "?w1\<lparr>dk_data := []\<rparr> = ?w2" by simp
  have csw: "bulk_in bot_env ?w2 (bot_in u) 13 = (0, 13, take 13 (disk_csw (bot_tag u)), ?w2)"
    by (simp add: bot_env_def disk_in_def)
  have "ufs_bot_read bot_env lba n u = (True, img_read img lba n,
      u\<lparr>world := ?w1\<lparr>dk_data := []\<rparr>, bot_tag := add32 (bot_tag u) 1\<rparr>)"
    using csw_ok [OF g(2)] by (simp add: ufs_bot_read_def len out data [unfolded w2] csw)
  then show ?thesis using assms(1) by (auto simp: bot_good_def)
qed

lemma bot_sectors_disk:
  assumes "\<And>s. length (img s) = 512" and "start + count \<le> two32"
  shows "bot_good img u \<Longrightarrow> got \<le> count \<Longrightarrow> buf = img_read img start got
    \<Longrightarrow> \<exists>u'. bot_sectors bot_env start count got buf u = (count, img_read img start count, u') \<and> bot_good img u'"
proof (induction "count - got" arbitrary: got buf u rule: less_induct)
  case less
  show ?case
  proof (cases "got < count")
    case False
    then show ?thesis using less.prems by (simp add: bot_sectors.simps)
  next
    case True
    define n where "n = (if count - got < UFS_BOT_MAX_SECTORS then count - got else UFS_BOT_MAX_SECTORS)"
    have n: "0 < n" "n \<le> 256" "got + n \<le> count" using True by (auto simp: n_def UFS_BOT_MAX_SECTORS_def)
    have add: "add32 start got = start + got" using True assms(2) by (simp add: u32_simps)
    obtain u1 where r: "ufs_bot_read bot_env (start + got) n u = (True, img_read img (start + got) n, u1)"
      "bot_good img u1"
      using bot_read_disk [OF less.prems(1) assms(1), of "start + got" n] n assms(2) by auto
    have len: "length (img_read img start got) = got * 512"
      by (simp add: length_img_read_512 [OF assms(1)])
    have "img_read img start got @ img_read img (start + got) n = img_read img start (got + n)"
      using upt_add_eq_append [of start "start + got" n] by (simp add: img_read_def add.assoc)
    then have "\<exists>u'. bot_sectors bot_env start count (got + n) (take (got * 512) buf @ img_read img (start + got) n) u1
        = (count, img_read img start count, u') \<and> bot_good img u'"
      using less.hyps [OF _ r(2), of "got + n"] n True less.prems(3) len by simp
    then show ?thesis
      using True r(1) add by (simp add: bot_sectors.simps [of bot_env start count got] n_def [symmetric] UFS_SECTOR_def)
  qed
qed

interpretation bot_disk: working_disk bot_env "sector_of img" "bot_good (sector_of img)"
  for img :: "nat \<Rightarrow> byte list"
proof unfold_locales
  show "length (sector_of img s) = 512" for s by (simp add: sector_of_def)
  fix u :: "bot_disk usb" and start count :: nat
  assume u: "bot_good (sector_of img) u" "start + count \<le> two32"
  obtain u1 where r: "bot_sectors bot_env start count 0 [] u = (count, img_read (sector_of img) start count, u1)"
    "bot_good (sector_of img) u1"
  proof -
    have "length (sector_of img s) = 512" for s by (simp add: sector_of_def)
    then show ?thesis
      using bot_sectors_disk [OF _ u(2) u(1), of 0 "[]"] that by (auto simp: img_read_def)
  qed
  have "check_present bot_env u = (True, u)" by (simp add: check_present_def bot_env_def)
  moreover have "\<not> usb_lost u" "bot_dev u" using u(1) by (simp_all add: bot_good_def)
  moreover have "ext_read bot_env = None" by (simp add: bot_env_def)
  ultimately have "ufs_sectors bot_env start count u = (True, img_read (sector_of img) start count,
      u1\<lparr>usb_bytes := add32 (usb_bytes u1) (mul32 count UFS_SECTOR)\<rparr>)"
    using r(1) by (simp add: ufs_sectors_def)
  moreover have "bot_good (sector_of img) (u1\<lparr>usb_bytes := b\<rparr>)" for b
    using r(2) by (simp add: bot_good_def)
  ultimately show "\<exists>u'. ufs_sectors bot_env start count u
      = (True, img_read (sector_of img) start count, u') \<and> bot_good (sector_of img) u'"
    by blast
qed

text \<open>
  C30: On a stick that follows the Bulk-Only Transport, \<open>ufs_sectors\<close> over the own READ(10)
  path, in commands of at most 256 sectors and transfers of at most 16 KB, delivers exactly the
  sectors asked for, and leaves the connection ready for the next read.
\<close>

theorem usb_bot_sectors:
  assumes "bot_good (sector_of img) u" and "start + count \<le> two32"
  shows "\<exists>u'. ufs_sectors bot_env start count u = (True, img_read (sector_of img) start count, u')
    \<and> bot_good (sector_of img) u'"
  using bot_disk.read_good [OF assms] .

definition bot_start :: "(nat \<Rightarrow> byte list) \<Rightarrow> bot_disk usb" where
  "bot_start img = \<lparr>world = \<lparr>dk_img = img, dk_data = [], dk_tag = 0\<rparr>, usb_lost = False, bot_dev = True,
     bot_in = 1, bot_out = 2, bot_lun = 0, bot_tag = 0xffffffff, usb_bytes = 0\<rparr>"

theorem usb_bot_sectors_witness:
  "\<exists>u'. ufs_sectors bot_env 1000 300 (bot_start (sector_of (\<lambda>n. [of_nat n])))
     = (True, img_read (sector_of (\<lambda>n. [of_nat n])) 1000 300, u')"
  using usb_bot_sectors [of "\<lambda>n. [of_nat n]" "bot_start (sector_of (\<lambda>n. [of_nat n]))" 1000 300]
  by (auto simp: bot_good_def bot_start_def)

end
