(* ===== verification/LibcMem.thy ===== *)
theory LibcMem
  imports Prelude
begin

text \<open>
  Memory and string functions of \<open>sdk/libc/libc.c\<close>. The memory maps addresses to bytes and is
  passed and returned; a pointer is an address. A loop that looks for the terminating NUL does
  not return when there is none, so those are partial functions with \<open>None\<close> for "does not
  return". Objects do not reach the end of the address space, so addresses do not wrap.
\<close>

type_synonym mem = "nat \<Rightarrow> byte"

named_theorems str_rules \<open>what the string functions do on terminated strings\<close>

section \<open>Copying and filling\<close>

definition copy4 :: "nat \<Rightarrow> nat \<Rightarrow> mem \<Rightarrow> mem" where
  "copy4 d s m = m(d := m s, d + 1 := m (s + 1), d + 2 := m (s + 2), d + 3 := m (s + 3))"

function copy_words :: "nat \<Rightarrow> nat \<Rightarrow> nat \<Rightarrow> mem \<Rightarrow> nat \<times> nat \<times> nat \<times> mem" where
  "copy_words d s n m = (if n \<ge> 4 then copy_words (d + 4) (s + 4) (n - 4) (copy4 d s m) else (d, s, n, m))"
  by pat_completeness auto
termination
  by (relation "measure (\<lambda>(d, s, n, m). n)") auto

declare copy_words.simps [simp del]

fun copy_bytes :: "nat \<Rightarrow> nat \<Rightarrow> nat \<Rightarrow> mem \<Rightarrow> mem" where
  "copy_bytes d s 0 m = m"
| "copy_bytes d s (Suc n) m = copy_bytes (d + 1) (s + 1) n (m(d := m s))"

definition memcpy :: "nat \<Rightarrow> nat \<Rightarrow> nat \<Rightarrow> mem \<Rightarrow> mem" where
  "memcpy d s n m =
     (let (d', s', n', m') = (if (d OR s) AND 3 = 0 then copy_words d s n m else (d, s, n, m))
      in copy_bytes d' s' n' m')"

fun move_back :: "nat \<Rightarrow> nat \<Rightarrow> nat \<Rightarrow> mem \<Rightarrow> mem" where
  "move_back d s 0 m = m"
| "move_back d s (Suc n) m = move_back d s n (m(d + n := m (s + n)))"

definition memmove :: "nat \<Rightarrow> nat \<Rightarrow> nat \<Rightarrow> mem \<Rightarrow> mem" where
  "memmove d s n m = (if d \<le> s \<or> d \<ge> s + n then memcpy d s n m else move_back d s n m)"

definition store4 :: "nat \<Rightarrow> u32 \<Rightarrow> mem \<Rightarrow> mem" where
  "store4 d w m = m(d := ucast w, d + 1 := ucast (drop_bit 8 w), d + 2 := ucast (drop_bit 16 w),
     d + 3 := ucast (drop_bit 24 w))"

function set_words :: "nat \<Rightarrow> u32 \<Rightarrow> nat \<Rightarrow> mem \<Rightarrow> nat \<times> nat \<times> mem" where
  "set_words d w n m = (if n \<ge> 4 then set_words (d + 4) w (n - 4) (store4 d w m) else (d, n, m))"
  by pat_completeness auto
termination
  by (relation "measure (\<lambda>(d, w, n, m). n)") auto

declare set_words.simps [simp del]

fun set_bytes :: "nat \<Rightarrow> byte \<Rightarrow> nat \<Rightarrow> mem \<Rightarrow> mem" where
  "set_bytes d c 0 m = m"
| "set_bytes d c (Suc n) m = set_bytes (d + 1) c n (m(d := c))"

definition memset :: "nat \<Rightarrow> byte \<Rightarrow> nat \<Rightarrow> mem \<Rightarrow> mem" where
  "memset d c n m =
     (let (d', n', m') = (if d AND 3 = 0 then set_words d (ucast c * 0x01010101) n m else (d, n, m))
      in set_bytes d' c n' m')"

fun memcmp :: "nat \<Rightarrow> nat \<Rightarrow> nat \<Rightarrow> mem \<Rightarrow> int" where
  "memcmp p q 0 m = 0"
| "memcmp p q (Suc n) m =
     (if m p \<noteq> m q then int (unat (m p)) - int (unat (m q)) else memcmp (p + 1) (q + 1) n m)"

fun memchr :: "nat \<Rightarrow> byte \<Rightarrow> nat \<Rightarrow> mem \<Rightarrow> nat option" where
  "memchr p c 0 m = None"
| "memchr p c (Suc n) m = (if m p = c then Some p else memchr (p + 1) c n m)"

section \<open>Character classes\<close>

text \<open>\<open>char\<close> is signed on this machine; the classes take an \<open>int\<close>.\<close>

abbreviation chr :: "byte \<Rightarrow> int" where
  "chr b \<equiv> sint b"

definition isdigit :: "int \<Rightarrow> bool" where "isdigit c \<longleftrightarrow> c \<ge> 0x30 \<and> c \<le> 0x39"
definition isupper :: "int \<Rightarrow> bool" where "isupper c \<longleftrightarrow> c \<ge> 0x41 \<and> c \<le> 0x5a"
definition islower :: "int \<Rightarrow> bool" where "islower c \<longleftrightarrow> c \<ge> 0x61 \<and> c \<le> 0x7a"
definition isalpha :: "int \<Rightarrow> bool" where "isalpha c \<longleftrightarrow> isupper c \<or> islower c"
definition isalnum :: "int \<Rightarrow> bool" where "isalnum c \<longleftrightarrow> isalpha c \<or> isdigit c"
definition isxdigit :: "int \<Rightarrow> bool" where
  "isxdigit c \<longleftrightarrow> isdigit c \<or> (c \<ge> 0x61 \<and> c \<le> 0x66) \<or> (c \<ge> 0x41 \<and> c \<le> 0x46)"
definition isspace :: "int \<Rightarrow> bool" where "isspace c \<longleftrightarrow> c = 0x20 \<or> (c \<ge> 9 \<and> c \<le> 13)"
definition iscntrl :: "int \<Rightarrow> bool" where "iscntrl c \<longleftrightarrow> (c \<ge> 0 \<and> c < 32) \<or> c = 127"
definition isprint :: "int \<Rightarrow> bool" where "isprint c \<longleftrightarrow> c \<ge> 32 \<and> c < 127"
definition isgraph :: "int \<Rightarrow> bool" where "isgraph c \<longleftrightarrow> c > 32 \<and> c < 127"
definition ispunct :: "int \<Rightarrow> bool" where "ispunct c \<longleftrightarrow> isgraph c \<and> \<not> isalnum c"
definition tolower :: "int \<Rightarrow> int" where "tolower c = (if isupper c then c + 32 else c)"
definition toupper :: "int \<Rightarrow> int" where "toupper c = (if islower c then c - 32 else c)"

section \<open>Strings\<close>

partial_function (option) strlen_loop :: "nat \<Rightarrow> mem \<Rightarrow> nat option" where
  "strlen_loop p m = (if m p \<noteq> 0 then strlen_loop (p + 1) m else Some p)"

definition strlen :: "nat \<Rightarrow> mem \<Rightarrow> nat option" where
  "strlen s m = map_option (\<lambda>p. p - s) (strlen_loop s m)"

function strnlen_loop :: "nat \<Rightarrow> nat \<Rightarrow> nat \<Rightarrow> mem \<Rightarrow> nat" where
  "strnlen_loop s n i m = (if i < n \<and> m (s + i) \<noteq> 0 then strnlen_loop s n (i + 1) m else i)"
  by pat_completeness auto
termination
  by (relation "measure (\<lambda>(s, n, i, m). n - i)") auto

declare strnlen_loop.simps [simp del]

definition strnlen :: "nat \<Rightarrow> nat \<Rightarrow> mem \<Rightarrow> nat" where
  "strnlen s n m = strnlen_loop s n 0 m"

partial_function (option) strcpy :: "nat \<Rightarrow> nat \<Rightarrow> mem \<Rightarrow> mem option" where
  "strcpy d s m = (let m' = m(d := m s) in if m s = 0 then Some m' else strcpy (d + 1) (s + 1) m')"

text \<open>\<open>strncpy\<close>: copy up to the NUL, then fill with NULs.\<close>

function strncpy_copy :: "nat \<Rightarrow> nat \<Rightarrow> nat \<Rightarrow> nat \<Rightarrow> mem \<Rightarrow> nat \<times> mem" where
  "strncpy_copy d s n i m =
     (if i < n \<and> m (s + i) \<noteq> 0 then strncpy_copy d s n (i + 1) (m(d + i := m (s + i))) else (i, m))"
  by pat_completeness auto
termination
  by (relation "measure (\<lambda>(d, s, n, i, m). n - i)") auto

declare strncpy_copy.simps [simp del]

definition strncpy :: "nat \<Rightarrow> nat \<Rightarrow> nat \<Rightarrow> mem \<Rightarrow> mem" where
  "strncpy d s n m = (let (i, m') = strncpy_copy d s n 0 m in set_bytes (d + i) 0 (n - i) m')"

definition strcat :: "nat \<Rightarrow> nat \<Rightarrow> mem \<Rightarrow> mem option" where
  "strcat d s m = Option.bind (strlen d m) (\<lambda>n. strcpy (d + n) s m)"

fun strncat_loop :: "nat \<Rightarrow> nat \<Rightarrow> nat \<Rightarrow> mem \<Rightarrow> mem" where
  "strncat_loop d s 0 m = m(d := 0)"
| "strncat_loop d s (Suc n) m = (if m s \<noteq> 0 then strncat_loop (d + 1) (s + 1) n (m(d := m s)) else m(d := 0))"

definition strncat :: "nat \<Rightarrow> nat \<Rightarrow> nat \<Rightarrow> mem \<Rightarrow> mem option" where
  "strncat d s n m = map_option (\<lambda>k. strncat_loop (d + k) s n m) (strlen d m)"

definition uchar_diff :: "byte \<Rightarrow> byte \<Rightarrow> int" where
  "uchar_diff a b = int (unat a) - int (unat b)"

partial_function (option) strcmp :: "nat \<Rightarrow> nat \<Rightarrow> mem \<Rightarrow> int option" where
  "strcmp a b m = (if m a \<noteq> 0 \<and> m a = m b then strcmp (a + 1) (b + 1) m else Some (uchar_diff (m a) (m b)))"

fun strncmp :: "nat \<Rightarrow> nat \<Rightarrow> nat \<Rightarrow> mem \<Rightarrow> int" where
  "strncmp a b 0 m = 0"
| "strncmp a b (Suc n) m =
     (if m a \<noteq> m b \<or> m a = 0 then uchar_diff (m a) (m b) else strncmp (a + 1) (b + 1) n m)"

definition lower_diff :: "byte \<Rightarrow> byte \<Rightarrow> int" where
  "lower_diff a b = tolower (int (unat a)) - tolower (int (unat b))"

partial_function (option) strcasecmp :: "nat \<Rightarrow> nat \<Rightarrow> mem \<Rightarrow> int option" where
  "strcasecmp a b m =
     (if m a \<noteq> 0 \<and> tolower (chr (m a)) = tolower (chr (m b)) then strcasecmp (a + 1) (b + 1) m
      else Some (lower_diff (m a) (m b)))"

fun strncasecmp :: "nat \<Rightarrow> nat \<Rightarrow> nat \<Rightarrow> mem \<Rightarrow> int" where
  "strncasecmp a b 0 m = 0"
| "strncasecmp a b (Suc n) m =
     (if tolower (chr (m a)) \<noteq> tolower (chr (m b)) \<or> m a = 0 then lower_diff (m a) (m b)
      else strncasecmp (a + 1) (b + 1) n m)"

text \<open>The result of a search: \<open>None\<close> does not return, \<open>Some None\<close> is the null pointer.\<close>

partial_function (option) strchr :: "nat \<Rightarrow> byte \<Rightarrow> mem \<Rightarrow> nat option option" where
  "strchr s c m = (if m s = c then Some (Some s) else if m s = 0 then Some None else strchr (s + 1) c m)"

partial_function (option) strrchr_loop :: "nat \<Rightarrow> byte \<Rightarrow> nat option \<Rightarrow> mem \<Rightarrow> nat option option" where
  "strrchr_loop s c r m =
     (let r' = (if m s = c then Some s else r) in if m s = 0 then Some r' else strrchr_loop (s + 1) c r' m)"

definition strrchr :: "nat \<Rightarrow> byte \<Rightarrow> mem \<Rightarrow> nat option option" where
  "strrchr s c m = strrchr_loop s c None m"

partial_function (option) strstr_loop :: "nat \<Rightarrow> nat \<Rightarrow> nat \<Rightarrow> mem \<Rightarrow> nat option option" where
  "strstr_loop h n len m =
     (if m h \<noteq> 0 then (if strncmp h n len m = 0 then Some (Some h) else strstr_loop (h + 1) n len m)
      else Some (if len \<noteq> 0 then None else Some h))"

definition strstr :: "nat \<Rightarrow> nat \<Rightarrow> mem \<Rightarrow> nat option option" where
  "strstr h n m = Option.bind (strlen n m) (\<lambda>len. strstr_loop h n len m)"

section \<open>Copying: the destination becomes the old source\<close>

definition blit :: "nat \<Rightarrow> nat \<Rightarrow> nat \<Rightarrow> mem \<Rightarrow> mem" where
  "blit d s n m = (\<lambda>a. if d \<le> a \<and> a < d + n then m (s + (a - d)) else m a)"

definition fill :: "nat \<Rightarrow> byte \<Rightarrow> nat \<Rightarrow> mem \<Rightarrow> mem" where
  "fill d c n m = (\<lambda>a. if d \<le> a \<and> a < d + n then c else m a)"

lemma blit_0 [simp]: "blit d s 0 m = m"
  by (rule ext) (auto simp: blit_def)

lemma fill_0 [simp]: "fill d c 0 m = m"
  by (rule ext) (auto simp: fill_def)

lemma copy_bytes_blit: "d \<le> s \<or> s + n \<le> d \<Longrightarrow> copy_bytes d s n m = blit d s n m"
proof (induction n arbitrary: d s m)
  case 0
  then show ?case by simp
next
  case (Suc n)
  have "copy_bytes d s (Suc n) m = blit (d + 1) (s + 1) n (m(d := m s))"
    unfolding copy_bytes.simps by (rule Suc.IH) (use Suc.prems in auto)
  also have "\<dots> = blit d s (Suc n) m"
  proof
    fix a
    show "blit (d + 1) (s + 1) n (m(d := m s)) a = blit d s (Suc n) m a"
    proof (cases "a = d")
      case False
      have "Suc s + (a - Suc d) = s + (a - d)" if "Suc d \<le> a" using that by simp
      moreover have "s + (a - d) \<noteq> d" if "d < a" "a < d + Suc n" using that Suc.prems by auto
      ultimately show ?thesis using False by (auto simp: blit_def)
    qed (simp add: blit_def)
  qed
  finally show ?case .
qed

lemma copy_words_blit:
  assumes "d \<le> s \<or> s + n \<le> d"
  shows "\<exists>k. k \<le> n \<and> copy_words d s n m = (d + k, s + k, n - k, blit d s k m)"
  using assms
proof (induction "n" arbitrary: d s m rule: less_induct)
  case (less n)
  show ?case
  proof (cases "n \<ge> 4")
    case False
    then show ?thesis by (intro exI [of _ 0]) (simp add: copy_words.simps)
  next
    case True
    then obtain k where k: "k \<le> n - 4"
      "copy_words (d + 4) (s + 4) (n - 4) (copy4 d s m)
        = (d + 4 + k, s + 4 + k, n - 4 - k, blit (d + 4) (s + 4) k (copy4 d s m))"
      using less.IH [of "n - 4" "d + 4" "s + 4" "copy4 d s m"] less.prems by auto
    have "blit (d + 4) (s + 4) k (copy4 d s m) = blit d s (k + 4) m"
    proof
      fix a
      consider "a < d" | "a = d" | "a = d + 1" | "a = d + 2" | "a = d + 3" | "d + 4 \<le> a" "a < d + 4 + k"
        | "d + 4 + k \<le> a" by linarith
      then show "blit (d + 4) (s + 4) k (copy4 d s m) a = blit d s (k + 4) m a"
      proof cases
        case 6
        have "s + 4 + (a - (d + 4)) = s + (a - d)" using 6 by simp
        moreover have "s + (a - d) \<notin> {d, d + 1, d + 2, d + 3}" using 6 less.prems k True by auto
        ultimately show ?thesis using 6 by (simp add: blit_def copy4_def)
      qed (auto simp: blit_def copy4_def)
    qed
    then show ?thesis
      using k True by (intro exI [of _ "k + 4"]) (simp add: copy_words.simps [of d s n] algebra_simps)
  qed
qed

lemma blit_blit: "d \<le> s \<or> s + k + n \<le> d \<Longrightarrow> blit (d + k) (s + k) n (blit d s k m) = blit d s (k + n) m"
proof
  fix a
  assume d: "d \<le> s \<or> s + k + n \<le> d"
  consider "a < d" | "d \<le> a" "a < d + k" | "d + k \<le> a" "a < d + k + n" | "d + k + n \<le> a" by linarith
  then show "blit (d + k) (s + k) n (blit d s k m) a = blit d s (k + n) m a"
  proof cases
    case 3
    have "s + k + (a - (d + k)) = s + (a - d)" using 3 by simp
    moreover have "\<not> (d \<le> s + (a - d) \<and> s + (a - d) < d + k)" using 3 d by auto
    ultimately have "blit (d + k) (s + k) n (blit d s k m) a = m (s + (a - d))"
      using 3 unfolding blit_def by presburger
    then show ?thesis using 3 by (simp add: blit_def)
  qed (auto simp: blit_def)
qed

lemma memcpy_blit: "d \<le> s \<or> s + n \<le> d \<Longrightarrow> memcpy d s n m = blit d s n m"
proof -
  assume d: "d \<le> s \<or> s + n \<le> d"
  obtain k where k: "k \<le> n" "copy_words d s n m = (d + k, s + k, n - k, blit d s k m)"
    using copy_words_blit [OF d] by blast
  have "copy_bytes (d + k) (s + k) (n - k) (blit d s k m) = blit d s n m"
    using copy_bytes_blit [of "d + k" "s + k" "n - k"] blit_blit [of d s k "n - k" m] d k(1) by auto
  then show ?thesis using k(2) copy_bytes_blit [OF d] by (simp add: memcpy_def)
qed

lemma move_back_blit: "s \<le> d \<Longrightarrow> move_back d s n m = blit d s n m"
proof (induction n arbitrary: m)
  case (Suc n)
  have "blit d s n (m(d + n := m (s + n))) = blit d s (Suc n) m"
  proof
    fix a
    show "blit d s n (m(d + n := m (s + n))) a = blit d s (Suc n) m a"
    proof (cases "d \<le> a \<and> a < d + n")
      case True
      then have "s + (a - d) \<noteq> d + n" using Suc.prems by auto
      then show ?thesis using True by (simp add: blit_def)
    qed (auto simp: blit_def)
  qed
  then show ?case unfolding move_back.simps Suc.IH [OF Suc.prems] .
qed simp

text \<open>
  \<open>memmove\<close> copies correctly however the two areas overlap, word by word or byte by byte:
  afterwards the destination holds what the source held before, and no other byte changed.
\<close>

theorem memmove_any_overlap:
  "memmove d s n m a = (if d \<le> a \<and> a < d + n then m (s + (a - d)) else m a)"
proof (cases "d \<le> s \<or> d \<ge> s + n")
  case True
  then show ?thesis by (simp add: memmove_def memcpy_blit blit_def)
next
  case False
  then show ?thesis using move_back_blit [of s d n m] by (simp add: memmove_def blit_def)
qed

lemma set_bytes_fill: "set_bytes d c n m = fill d c n m"
proof (induction n arbitrary: d m)
  case (Suc n)
  show ?case unfolding set_bytes.simps Suc.IH by (auto simp: fill_def)
qed simp

lemma splat_bytes:
  fixes c :: byte
  defines "w \<equiv> ucast c * 0x01010101 :: u32"
  shows "ucast w = c" "ucast (drop_bit 8 w) = c" "ucast (drop_bit 16 w) = c" "ucast (drop_bit 24 w) = c"
proof -
  let ?u = "unat c"
  have u: "?u \<le> 255" by simp
  then have "?u * 0x01010101 < 2 ^ 32" by (rule order.strict_trans1 [OF mult_le_mono1]) simp
  then have w: "unat w = ?u * 0x01010101"
    unfolding w_def by (simp add: unat_mult_lem [symmetric] unsigned_ucast_eq take_bit_nat_eq_self unat_word_ariths)
  have "?u * 0x01010101 mod 256 = ?u" "?u * 0x01010101 div 256 mod 256 = ?u"
    "?u * 0x01010101 div 65536 mod 256 = ?u" "?u * 0x01010101 div 16777216 mod 256 = ?u"
  proof -
    have n: "?u * 0x01010101 = ?u + 256 * (?u + 256 * (?u + 256 * ?u))" by simp
    have d: "(?u + 256 * t) div 256 = t" "(?u + 256 * t) mod 256 = ?u" for t using u by simp_all
    have q: "x div 65536 = x div 256 div 256" "x div 16777216 = x div 256 div 256 div 256" for x :: nat
      by (simp_all add: div_mult2_eq [symmetric])
    show "?u * 0x01010101 mod 256 = ?u" "?u * 0x01010101 div 256 mod 256 = ?u"
      "?u * 0x01010101 div 65536 mod 256 = ?u" "?u * 0x01010101 div 16777216 mod 256 = ?u"
      unfolding n q d using u by simp_all
  qed
  then show "ucast w = c" "ucast (drop_bit 8 w) = c" "ucast (drop_bit 16 w) = c" "ucast (drop_bit 24 w) = c"
    by (simp_all add: word_unat_eq_iff unsigned_ucast_eq take_bit_eq_mod unat_drop_bit w drop_bit_eq_div unat_div)
qed

lemma set_words_fill:
  assumes "w = ucast c * 0x01010101"
  shows "\<exists>k. k \<le> n \<and> set_words d w n m = (d + k, n - k, fill d c k m)"
proof (induction "n" arbitrary: d m rule: less_induct)
  case (less n)
  show ?case
  proof (cases "n \<ge> 4")
    case False
    then show ?thesis by (intro exI [of _ 0]) (simp add: set_words.simps)
  next
    case True
    then obtain k where k: "k \<le> n - 4"
      "set_words (d + 4) w (n - 4) (store4 d w m) = (d + 4 + k, n - 4 - k, fill (d + 4) c k (store4 d w m))"
      using less.IH [of "n - 4" "d + 4" "store4 d w m"] by auto
    have "store4 d w m = fill d c 4 m"
      by (rule ext) (auto simp: store4_def fill_def assms splat_bytes)
    then have "fill (d + 4) c k (store4 d w m) = fill d c (k + 4) m"
      by (auto simp: fill_def)
    then show ?thesis
      using k True by (intro exI [of _ "k + 4"]) (simp add: set_words.simps [of d w n] algebra_simps)
  qed
qed

lemma memset_fill: "memset d c n m = fill d c n m"
proof -
  obtain k where k: "k \<le> n" "set_words d (ucast c * 0x01010101) n m = (d + k, n - k, fill d c k m)"
    using set_words_fill by blast
  have "fill (d + k) c (n - k) (fill d c k m) = fill d c n m" using k(1) by (auto simp: fill_def)
  then show ?thesis using k(2) by (simp add: memset_def set_bytes_fill)
qed

text \<open>Bytes stored one behind the other.\<close>

definition store :: "nat \<Rightarrow> byte list \<Rightarrow> mem \<Rightarrow> mem" where
  "store p cs m = (\<lambda>a. if p \<le> a \<and> a < p + length cs then cs ! (a - p) else m a)"

lemma store_Nil [simp]: "store p [] m = m"
  by (rule ext) (auto simp: store_def)

lemma store_Cons: "store p (c # cs) m = store (p + 1) cs (m(p := c))"
proof
  fix a
  consider "a < p" | "a = p" | d where "a = p + Suc d"
    by (metis add.right_neutral less_imp_Suc_add linorder_neqE_nat add_Suc_right)
  then show "store p (c # cs) m a = store (p + 1) cs (m(p := c)) a"
    by cases (auto simp: store_def)
qed

section \<open>Terminated strings\<close>

definition str_at :: "mem \<Rightarrow> nat \<Rightarrow> byte list \<Rightarrow> bool" where
  "str_at m p s \<longleftrightarrow> (\<forall>i < length s. m (p + i) = s ! i) \<and> 0 \<notin> set s \<and> m (p + length s) = 0"

lemma str_at_Nil [simp]: "str_at m p [] \<longleftrightarrow> m p = 0"
  by (simp add: str_at_def)

lemma str_at_Cons [simp]: "str_at m p (c # s) \<longleftrightarrow> m p = c \<and> c \<noteq> 0 \<and> str_at m (p + 1) s"
  by (auto simp: str_at_def All_less_Suc2)

lemma str_at_cong: "str_at m p s \<Longrightarrow> (\<And>a. p \<le> a \<Longrightarrow> a \<le> p + length s \<Longrightarrow> m' a = m a) \<Longrightarrow> str_at m' p s"
  by (auto simp: str_at_def)

lemma strlen_loop_str: "str_at m p s \<Longrightarrow> strlen_loop p m = Some (p + length s)"
  by (induction s arbitrary: p) (simp_all add: strlen_loop.simps)

lemma strlen_str [str_rules]: "str_at m p s \<Longrightarrow> strlen p m = Some (length s)"
  by (simp add: strlen_def strlen_loop_str)

lemma strnlen_loop_str: "str_at m p s \<Longrightarrow> i \<le> min n (length s) \<Longrightarrow> strnlen_loop p n i m = min n (length s)"
proof (induction "n - i" arbitrary: i)
  case 0
  then show ?case by (simp add: strnlen_loop.simps)
next
  case (Suc k)
  have nz: "i < length s \<Longrightarrow> s ! i \<noteq> 0" using Suc.prems(1) by (metis nth_mem str_at_def)
  show ?case
  proof (cases "i < length s")
    case True
    then have "m (p + i) \<noteq> 0" using nz Suc.prems(1) by (simp add: str_at_def)
    then show ?thesis
      using Suc True by (subst strnlen_loop.simps) auto
  next
    case False
    then have "i = length s" "m (p + i) = 0" using Suc.prems by (auto simp: str_at_def)
    then show ?thesis using Suc.hyps(2) by (subst strnlen_loop.simps) auto
  qed
qed

lemma strnlen_str [str_rules]: "str_at m p s \<Longrightarrow> strnlen p n m = min n (length s)"
  by (simp add: strnlen_def strnlen_loop_str)

text \<open>\<open>strcpy\<close>, also when the areas overlap and the destination is below the source.\<close>

lemma strcpy_str [str_rules]:
  "str_at m s str \<Longrightarrow> d \<le> s \<or> s + length str + 1 \<le> d \<Longrightarrow> strcpy d s m = Some (blit d s (length str + 1) m)"
proof (induction str arbitrary: d s m)
  case Nil
  have "m(d := m s) = blit d s 1 m" by (auto simp: blit_def)
  then show ?case using Nil by (simp add: strcpy.simps [of d s])
next
  case (Cons c str)
  have "str_at (m(d := m s)) (s + 1) str"
    by (rule str_at_cong [of m]) (use Cons.prems in auto)
  then have "strcpy (d + 1) (s + 1) (m(d := m s)) = Some (blit (d + 1) (s + 1) (length str + 1) (m(d := m s)))"
    by (rule Cons.IH) (use Cons.prems(2) in auto)
  moreover have "m(d := m s) = blit d s 1 m" by (auto simp: blit_def)
  moreover have "blit (d + 1) (s + 1) (length str + 1) (blit d s 1 m) = blit d s (1 + (length str + 1)) m"
    by (rule blit_blit) (use Cons.prems(2) in auto)
  ultimately show ?case using Cons.prems(1) by (simp add: strcpy.simps [of d s])
qed

lemma str_at_blit: "str_at m s str \<Longrightarrow> str_at (blit d s (length str + 1) m) d str"
  by (auto simp: str_at_def blit_def)

lemma str_at_append: "str_at m p (xs @ ys) \<longleftrightarrow> (\<forall>i < length xs. m (p + i) = xs ! i) \<and> 0 \<notin> set xs \<and> str_at m (p + length xs) ys"
  by (induction xs arbitrary: p) (auto simp: All_less_Suc2)

text \<open>
  \<open>strcat\<close> on two terminated strings, the second not touching the destination, returns and
  leaves the concatenation in the destination, changing only the bytes behind the first string.
\<close>

theorem strcat_appends:
  assumes "str_at m d xs" and "str_at m s ys" and "s + length ys < d \<or> d + length xs + length ys < s"
  shows "\<exists>m'. strcat d s m = Some m' \<and> str_at m' d (xs @ ys)
    \<and> (\<forall>a. a < d + length xs \<or> d + length xs + length ys < a \<longrightarrow> m' a = m a)"
proof -
  let ?e = "d + length xs"
  have c: "strcpy ?e s m = Some (blit ?e s (length ys + 1) m)"
    by (rule strcpy_str [OF assms(2)]) (use assms(3) in auto)
  have "str_at (blit ?e s (length ys + 1) m) d (xs @ ys)"
    using str_at_blit [OF assms(2), of ?e] assms(1)
    by (auto simp: str_at_append str_at_def [of m d xs] blit_def)
  then show ?thesis
    using c strlen_str [OF assms(1)] by (auto simp: strcat_def blit_def)
qed

text \<open>Memory with \<open>NCAPPS\<close> at 16 and \<open>CAP\<close> at 32.\<close>

definition ex_mem :: mem where
  "ex_mem = (\<lambda>a. if 16 \<le> a \<and> a < 22 then [0x4e, 0x43, 0x41, 0x50, 0x50, 0x53] ! (a - 16)
     else if 32 \<le> a \<and> a < 35 then [0x43, 0x41, 0x50] ! (a - 32) else 0)"

lemma ex_strings: "str_at ex_mem 16 [0x4e, 0x43, 0x41, 0x50, 0x50, 0x53]" "str_at ex_mem 32 [0x43, 0x41, 0x50]"
  by (simp_all add: ex_mem_def)

theorem strcat_appends_witness:
  "\<exists>m'. strcat 16 32 ex_mem = Some m' \<and> str_at m' 16 [0x4e, 0x43, 0x41, 0x50, 0x50, 0x53, 0x43, 0x41, 0x50]"
  using strcat_appends [OF ex_strings] by auto

section \<open>Comparing and searching\<close>

definition byte_less :: "(byte \<times> byte) set" where
  "byte_less = {(a, b). a < b}"

lemma uchar_diff_simps [simp]:
  "uchar_diff a b = 0 \<longleftrightarrow> a = b" "uchar_diff a b < 0 \<longleftrightarrow> a < b"
proof -
  have "x - y = 0 \<longleftrightarrow> x = y" "x - y < 0 \<longleftrightarrow> x < y" for x y :: int by linarith+
  then show "uchar_diff a b = 0 \<longleftrightarrow> a = b" "uchar_diff a b < 0 \<longleftrightarrow> a < b"
    unfolding uchar_diff_def word_less_nat_alt word_unat_eq_iff of_nat_less_iff [symmetric, where 'a = int]
      of_nat_eq_iff [symmetric, where 'a = int] by simp_all
qed

text \<open>
  \<open>strcmp\<close> on terminated strings returns zero exactly for equal strings and a negative
  number exactly when the first comes first in the lexicographic order of unsigned bytes.
\<close>

theorem strcmp_lexicographic:
  assumes "str_at m a s" and "str_at m b t"
  shows "\<exists>r. strcmp a b m = Some r \<and> (r = 0 \<longleftrightarrow> s = t) \<and> (r < 0 \<longleftrightarrow> (s, t) \<in> lexord byte_less)"
  using assms
proof (induction s arbitrary: a b t)
  case Nil
  then show ?case
    by (cases t) (auto simp: strcmp.simps [of a] word_gt_0 byte_less_def)
next
  case (Cons c s)
  show ?case
  proof (cases t)
    case Nil
    then show ?thesis using Cons.prems
      by (auto simp: strcmp.simps [of a] word_gt_0 byte_less_def)
  next
    case t: (Cons c' t')
    show ?thesis
    proof (cases "c = c'")
      case True
      then show ?thesis
        using Cons.IH [of "a + 1" "b + 1" t'] Cons.prems t
        by (auto simp: strcmp.simps [of a] byte_less_def)
    next
      case False
      then show ?thesis using Cons.prems t
        by (auto simp: strcmp.simps [of a] byte_less_def)
    qed
  qed
qed

theorem strcmp_lexicographic_witness: "\<exists>r. strcmp 32 16 ex_mem = Some r \<and> r < 0"
proof -
  have "([0x43, 0x41, 0x50], [0x4e, 0x43, 0x41, 0x50, 0x50, 0x53]) \<in> lexord byte_less"
    by (simp add: byte_less_def)
  then show ?thesis using strcmp_lexicographic [OF ex_strings(2,1)] by auto
qed

lemma strncmp_prefix:
  "str_at m a s \<Longrightarrow> str_at m b t \<Longrightarrow> strncmp a b (length t) m = 0 \<longleftrightarrow> (\<exists>u. s = t @ u)"
proof (induction t arbitrary: a b s)
  case (Cons c t)
  then show ?case by (cases s) auto
qed simp

definition occurs_at :: "byte list \<Rightarrow> byte list \<Rightarrow> nat \<Rightarrow> bool" where
  "occurs_at hs ns i \<longleftrightarrow> i \<le> length hs \<and> take (length ns) (drop i hs) = ns"

text \<open>
  \<open>strstr\<close> on terminated strings returns, and finds the first position where the second
  string occurs in the first, or the null pointer when there is none.
\<close>

theorem strstr_first:
  assumes "str_at m h hs" and "str_at m n ns"
  shows "\<exists>r. strstr h n m = Some r \<and>
    (case r of None \<Rightarrow> \<not> (\<exists>i. occurs_at hs ns i)
     | Some p \<Rightarrow> \<exists>i. p = h + i \<and> occurs_at hs ns i \<and> (\<forall>j < i. \<not> occurs_at hs ns j))"
proof -
  have "\<exists>r. strstr_loop h n (length ns) m = Some r \<and>
    (case r of None \<Rightarrow> \<not> (\<exists>i. occurs_at hs ns i)
     | Some p \<Rightarrow> \<exists>i. p = h + i \<and> occurs_at hs ns i \<and> (\<forall>j < i. \<not> occurs_at hs ns j))"
    using assms(1)
  proof (induction hs arbitrary: h)
    case Nil
    then show ?case by (cases ns) (auto simp: strstr_loop.simps [of h] occurs_at_def)
  next
    case (Cons c hs)
    have pre: "strncmp h n (length ns) m = 0 \<longleftrightarrow> occurs_at (c # hs) ns 0"
    proof -
      have "(\<exists>u. c # hs = ns @ u) \<longleftrightarrow> take (length ns) (c # hs) = ns"
        using append_take_drop_id [of "length ns" "c # hs"] by (metis append_eq_conv_conj)
      then show ?thesis using strncmp_prefix [OF Cons.prems assms(2)] by (simp add: occurs_at_def)
    qed
    have shift: "occurs_at (c # hs) ns (Suc i) = occurs_at hs ns i" for i by (simp add: occurs_at_def)
    show ?case
    proof (cases "occurs_at (c # hs) ns 0")
      case True
      then show ?thesis using pre Cons.prems by (auto simp: strstr_loop.simps [of h])
    next
      case False
      obtain r where r: "strstr_loop (h + 1) n (length ns) m = Some r"
        "case r of None \<Rightarrow> \<not> (\<exists>i. occurs_at hs ns i)
         | Some p \<Rightarrow> \<exists>i. p = h + 1 + i \<and> occurs_at hs ns i \<and> (\<forall>j < i. \<not> occurs_at hs ns j)"
        using Cons.IH [of "h + 1"] Cons.prems by auto
      have "strstr_loop h n (length ns) m = Some r"
        using r(1) False pre Cons.prems by (simp add: strstr_loop.simps [of h])
      moreover have "case r of None \<Rightarrow> \<not> (\<exists>i. occurs_at (c # hs) ns i)
         | Some p \<Rightarrow> \<exists>i. p = h + i \<and> occurs_at (c # hs) ns i \<and> (\<forall>j < i. \<not> occurs_at (c # hs) ns j)"
      proof (cases r)
        case None
        have "\<not> occurs_at (c # hs) ns i" for i using r(2) None False shift by (cases i) auto
        then show ?thesis using None by simp
      next
        case (Some p)
        then obtain i where i: "p = h + Suc i" "occurs_at hs ns i" "\<forall>j < i. \<not> occurs_at hs ns j"
          using r(2) by auto
        have "\<not> occurs_at (c # hs) ns j" if "j < Suc i" for j
          using that i(3) False shift by (cases j) auto
        then show ?thesis using i Some shift by auto
      qed
      ultimately show ?thesis by blast
    qed
  qed
  then show ?thesis using strlen_str [OF assms(2)] by (simp add: strstr_def)
qed

theorem strstr_first_witness: "strstr 16 32 ex_mem = Some (Some 17)"
proof -
  let ?h = "[0x4e, 0x43, 0x41, 0x50, 0x50, 0x53] :: byte list" and ?n = "[0x43, 0x41, 0x50] :: byte list"
  have o: "occurs_at ?h ?n 1" "\<not> occurs_at ?h ?n 0" by (simp_all add: occurs_at_def)
  obtain r where r: "strstr 16 32 ex_mem = Some r" "case r of None \<Rightarrow> \<not> (\<exists>i. occurs_at ?h ?n i)
     | Some p \<Rightarrow> \<exists>i. p = 16 + i \<and> occurs_at ?h ?n i \<and> (\<forall>j < i. \<not> occurs_at ?h ?n j)"
    using strstr_first [OF ex_strings] by blast
  then obtain i where i: "r = Some (16 + i)" "occurs_at ?h ?n i" "\<forall>j < i. \<not> occurs_at ?h ?n j"
    using o(1) by (auto split: option.splits)
  then have "i = 1" using o by (metis less_one linorder_neqE_nat)
  then show ?thesis using r(1) i(1) by simp
qed

end
