(* ===== verification/LibcHeap.thy ===== *)
theory LibcHeap
  imports LibcMem
begin

text \<open>
  The heap of \<open>sdk/libc/libc.c\<close>: a first-fit list of free and used blocks over up to four RAM
  regions. A block is the address of its 16-byte header, the payload size and the used flag; the
  list follows the \<open>next\<close> pointers. Sizes are 32-bit numbers with their wrap-around. Handing
  \<open>free\<close> or \<open>realloc\<close> a pointer that is not a payload address is undefined: \<open>None\<close>.
\<close>

section \<open>State\<close>

record hblock =
  b_addr :: nat
  b_size :: nat
  b_used :: bool

record heap =
  regions :: "(nat \<times> nat) list"
  hblocks :: "hblock list"
  heap_in_use :: nat
  heap_total :: nat

definition HDR :: nat where "HDR = 16"
definition HEAP_START :: nat where "HEAP_START = 0x81600000"
definition HEAP_END :: nat where "HEAP_END = 0x843f0000"
definition MAX_REGIONS :: nat where "MAX_REGIONS = 4"

definition floor16 :: "nat \<Rightarrow> nat" where "floor16 x = x - x mod 16"

section \<open>Operations\<close>

definition sdk_heap_region :: "nat \<Rightarrow> nat \<Rightarrow> heap \<Rightarrow> heap" where
  "sdk_heap_region start0 end0 h =
     (let start = floor16 (add32 start0 15);
          end' = floor16 end0
      in if length (regions h) < MAX_REGIONS \<and> end' > add32 start (64 * 1024)
         then h\<lparr>regions := regions h @ [(start, end')],
                heap_total := add32 (heap_total h) (sub32 (sub32 end' start) HDR)\<rparr>
         else h)"

definition region_block :: "nat \<times> nat \<Rightarrow> hblock" where
  "region_block r = \<lparr>b_addr = fst r, b_size = sub32 (sub32 (snd r) (fst r)) HDR, b_used = False\<rparr>"

definition heap_init :: "heap \<Rightarrow> heap" where
  "heap_init h =
     (let h1 = (if regions h = [] then sdk_heap_region HEAP_START HEAP_END h else h);
          bs = map region_block (regions h1)
      in h1\<lparr>hblocks := bs, heap_total := foldl (\<lambda>t b. add32 t (b_size b)) 0 bs\<rparr>)"

text \<open>The search of \<open>malloc\<close>: the payload address, the size of the block handed out, the new list.\<close>

definition too_small :: "nat \<Rightarrow> hblock \<Rightarrow> bool" where
  "too_small n b \<longleftrightarrow> b_used b \<or> b_size b < n"

definition splits :: "nat \<Rightarrow> hblock \<Rightarrow> bool" where
  "splits n b \<longleftrightarrow> b_size b \<ge> add32 (add32 n HDR) 64"

definition rest_block :: "nat \<Rightarrow> hblock \<Rightarrow> hblock" where
  "rest_block n b = \<lparr>b_addr = b_addr b + HDR + n, b_size = sub32 (sub32 (b_size b) n) HDR, b_used = False\<rparr>"

fun alloc_in :: "nat \<Rightarrow> hblock list \<Rightarrow> (nat \<times> nat \<times> hblock list) option" where
  "alloc_in n [] = None"
| "alloc_in n (b # bs) =
     (if too_small n b
      then (case alloc_in n bs of None \<Rightarrow> None | Some (p, k, bs') \<Rightarrow> Some (p, k, b # bs'))
      else if splits n b
      then Some (b_addr b + HDR, n, b\<lparr>b_size := n, b_used := True\<rparr> # rest_block n b # bs)
      else Some (b_addr b + HDR, b_size b, b\<lparr>b_used := True\<rparr> # bs))"

definition round_size :: "nat \<Rightarrow> nat" where
  "round_size n = floor16 (add32 (if n = 0 then 1 else n) 15)"

definition malloc :: "nat \<Rightarrow> heap \<Rightarrow> nat option \<times> heap" where
  "malloc n h0 =
     (let h = (if hblocks h0 = [] then heap_init h0 else h0)
      in case alloc_in (round_size n) (hblocks h) of
           None \<Rightarrow> (None, h)
         | Some (p, k, bs) \<Rightarrow> (Some p, h\<lparr>hblocks := bs, heap_in_use := add32 (heap_in_use h) k\<rparr>))"

text \<open>The pass of \<open>free\<close> over the list: merge a free block with the free block right behind it.\<close>

definition joins :: "hblock \<Rightarrow> hblock \<Rightarrow> bool" where
  "joins b c \<longleftrightarrow> \<not> b_used b \<and> \<not> b_used c \<and> b_addr b + HDR + b_size b = b_addr c"

fun coalesce :: "hblock list \<Rightarrow> hblock list" where
  "coalesce (b # c # bs) =
     (if joins b c then coalesce (b\<lparr>b_size := b_size b + HDR + b_size c\<rparr> # bs)
      else b # coalesce (c # bs))"
| "coalesce bs = bs"

definition payload_of :: "nat \<Rightarrow> hblock \<Rightarrow> bool" where
  "payload_of p b \<longleftrightarrow> b_addr b + HDR = p"

definition release :: "nat \<Rightarrow> hblock list \<Rightarrow> hblock list" where
  "release p bs = map (\<lambda>b. if payload_of p b then b\<lparr>b_used := False\<rparr> else b) bs"

definition heap_free :: "nat option \<Rightarrow> heap \<Rightarrow> heap option" where
  "heap_free q h =
     (case q of
        None \<Rightarrow> Some h
      | Some p \<Rightarrow>
          (case find (payload_of p) (hblocks h) of
             None \<Rightarrow> None
           | Some b \<Rightarrow> Some (h\<lparr>hblocks := coalesce (release p (hblocks h)),
               heap_in_use := sub32 (heap_in_use h) (b_size b)\<rparr>)))"

definition calloc :: "nat \<Rightarrow> nat \<Rightarrow> heap \<Rightarrow> mem \<Rightarrow> nat option \<times> heap \<times> mem" where
  "calloc n sz h m =
     (case malloc (mul32 n sz) h of
        (None, h') \<Rightarrow> (None, h', m)
      | (Some p, h') \<Rightarrow> (Some p, h', memset p 0 (mul32 n sz) m))"

definition realloc :: "nat option \<Rightarrow> nat \<Rightarrow> heap \<Rightarrow> mem \<Rightarrow> (nat option \<times> heap \<times> mem) option" where
  "realloc q n h m =
     (case q of
        None \<Rightarrow> (let (p, h') = malloc n h in Some (p, h', m))
      | Some p \<Rightarrow>
          (case find (payload_of p) (hblocks h) of
             None \<Rightarrow> None
           | Some b \<Rightarrow>
               if b_size b \<ge> n then Some (Some p, h, m)
               else (case malloc n h of
                       (None, h') \<Rightarrow> Some (None, h', m)
                     | (Some q, h') \<Rightarrow>
                         map_option (\<lambda>h2. (Some q, h2, memcpy q p (b_size b) m)) (heap_free (Some p) h'))))"

text \<open>\<open>strdup\<close> and \<open>strndup\<close>; the outer option is for a string without NUL.\<close>

definition strdup :: "nat \<Rightarrow> heap \<Rightarrow> mem \<Rightarrow> (nat option \<times> heap \<times> mem) option" where
  "strdup s h m = Option.bind (strlen s m) (\<lambda>len.
     case malloc (add32 len 1) h of
       (None, h') \<Rightarrow> Some (None, h', m)
     | (Some d, h') \<Rightarrow> map_option (\<lambda>m'. (Some d, h', m')) (strcpy d s m))"

definition strndup :: "nat \<Rightarrow> nat \<Rightarrow> heap \<Rightarrow> mem \<Rightarrow> nat option \<times> heap \<times> mem" where
  "strndup s n h m =
     (let len = strnlen s n m
      in case malloc (add32 len 1) h of
           (None, h') \<Rightarrow> (None, h', m)
         | (Some d, h') \<Rightarrow> (Some d, h', (memcpy d s len m)(d + len := 0)))"

text \<open>\<open>sdk_libc_reset\<close>, the part on the heap.\<close>

definition heap_reset :: "heap \<Rightarrow> heap" where
  "heap_reset h = h\<lparr>hblocks := [], heap_in_use := 0\<rparr>"

section \<open>Invariant\<close>

definition b_end :: "hblock \<Rightarrow> nat" where
  "b_end b = b_addr b + HDR + b_size b"

text \<open>
  Blocks are aligned, lie below the end of the address space and do not overlap; no free block is
  followed by a free block it could be merged with; the count of bytes in use is right.
\<close>

definition block_ok :: "hblock \<Rightarrow> bool" where
  "block_ok b \<longleftrightarrow> b_addr b mod 16 = 0 \<and> b_size b mod 16 = 0 \<and> b_end b < two32"

definition disjoint_blocks :: "hblock \<Rightarrow> hblock \<Rightarrow> bool" where
  "disjoint_blocks b c \<longleftrightarrow> b_end b \<le> b_addr c \<or> b_end c \<le> b_addr b"

definition coalesced :: "hblock list \<Rightarrow> bool" where
  "coalesced bs \<longleftrightarrow> successively (\<lambda>b c. \<not> joins b c) bs"

definition used_bytes :: "hblock list \<Rightarrow> nat" where
  "used_bytes bs = sum_list (map b_size (filter b_used bs))"

definition list_ok :: "hblock list \<Rightarrow> bool" where
  "list_ok bs \<longleftrightarrow> (\<forall>b \<in> set bs. block_ok b) \<and> sorted_wrt disjoint_blocks bs \<and> coalesced bs"

definition heap_ok :: "heap \<Rightarrow> bool" where
  "heap_ok h \<longleftrightarrow> hblocks h \<noteq> [] \<and> list_ok (hblocks h) \<and> heap_in_use h = used_bytes (hblocks h) mod two32"

lemma b_end_greater: "b_addr b < b_end b"
  by (simp add: b_end_def HDR_def)

lemma floor16_mod [simp]: "floor16 x mod 16 = 0"
  by (simp add: floor16_def)

lemma round_size:
  assumes "n \<le> 0xf0000000"
  shows "n \<le> round_size n" "0 < round_size n" "round_size n mod 16 = 0" "round_size n \<le> 0xf0000000"
proof -
  let ?k = "if n = 0 then 1 else n"
  have a: "add32 ?k 15 = ?k + 15" using assms by (simp add: u32_simps)
  have r: "round_size n = 16 * ((?k + 15) div 16)"
    unfolding round_size_def a floor16_def by (rule minus_mod_eq_mult_div)
  have "?k + 15 < 16 + 16 * ((?k + 15) div 16)" by (rule dividend_less_times_div) simp
  then show "n \<le> round_size n" "0 < round_size n" unfolding r by (simp_all split: if_splits)
  show "round_size n mod 16 = 0" by (simp add: r)
  have "(?k + 15) div 16 \<le> (0xf0000000 + 15) div 16" by (rule div_le_mono) (use assms in simp)
  then show "round_size n \<le> 0xf0000000" unfolding r by simp
qed

section \<open>First fit\<close>

lemma alloc_in_Some:
  "alloc_in n bs = Some (p, k, bs') \<Longrightarrow> \<exists>pre b post. bs = pre @ b # post \<and> (\<forall>c \<in> set pre. too_small n c)
    \<and> \<not> too_small n b \<and> p = b_addr b + HDR
    \<and> (if splits n b then k = n \<and> bs' = pre @ b\<lparr>b_size := n, b_used := True\<rparr> # rest_block n b # post
       else k = b_size b \<and> bs' = pre @ b\<lparr>b_used := True\<rparr> # post)"
proof (induction bs arbitrary: p k bs')
  case (Cons b bs)
  show ?case
  proof (cases "too_small n b")
    case True
    then obtain bs1 where r: "alloc_in n bs = Some (p, k, bs1)" "bs' = b # bs1"
      using Cons.prems by (auto split: option.splits)
    then obtain pre c post where "bs = pre @ c # post \<and> (\<forall>c \<in> set pre. too_small n c)
        \<and> \<not> too_small n c \<and> p = b_addr c + HDR
        \<and> (if splits n c then k = n \<and> bs1 = pre @ c\<lparr>b_size := n, b_used := True\<rparr> # rest_block n c # post
           else k = b_size c \<and> bs1 = pre @ c\<lparr>b_used := True\<rparr> # post)"
      using Cons.IH by blast
    then show ?thesis
      using r(2) True by (intro exI [of _ "b # pre"] exI [of _ c] exI [of _ post]) auto
  next
    case False
    then show ?thesis
      using Cons.prems by (intro exI [of _ "[]"] exI [of _ b] exI [of _ bs]) (auto split: if_splits)
  qed
qed simp

lemma alloc_in_None: "alloc_in n bs = None \<Longrightarrow> b \<in> set bs \<Longrightarrow> too_small n b"
  by (induction bs) (auto split: if_splits option.splits)

section \<open>Merging\<close>

lemma coalesce_id: "coalesced bs \<Longrightarrow> coalesce bs = bs"
  by (induction bs rule: coalesce.induct) (auto simp: coalesced_def)

lemma coalesce_undo_split:
  assumes "coalesced (pre @ b # post)" and "joins x y" and "\<not> b_used b"
    and "x\<lparr>b_size := b_size x + HDR + b_size y\<rparr> = b"
  shows "coalesce (pre @ x # y # post) = pre @ b # post"
  using assms(1)
proof (induction pre)
  case Nil
  then show ?case using assms(2,4) coalesce_id [of "b # post"] by simp
next
  case (Cons c pre)
  have "coalesce (pre @ x # y # post) = pre @ b # post"
    by (rule Cons.IH) (use Cons.prems in \<open>simp add: coalesced_def successively_Cons\<close>)
  moreover have "b_addr x = b_addr b" "b_used x = b_used b" using assms(4) by auto
  ultimately show ?case
    using Cons.prems by (cases pre) (auto simp: coalesced_def successively_Cons joins_def)
qed

lemma coalesced_coalesce: "coalesced (coalesce bs)"
proof (induction bs rule: coalesce.induct)
  case (1 b c bs)
  show ?case
  proof (cases "joins b c")
    case True
    then show ?thesis using 1 by simp
  next
    case False
    have hd: "b_addr (hd (coalesce (c # bs))) = b_addr c \<and> b_used (hd (coalesce (c # bs))) = b_used c
        \<and> coalesce (c # bs) \<noteq> []" for c bs
      by (induction "c # bs" arbitrary: c bs rule: coalesce.induct) (auto simp: joins_def)
    have "\<not> joins b (hd (coalesce (c # bs)))" using False hd [of c bs] by (simp add: joins_def)
    then show ?thesis using False 1 hd [of c bs] by (simp add: coalesced_def successively_Cons)
  qed
qed (auto simp: coalesced_def)

lemma used_coalesce: "filter b_used (coalesce bs) = filter b_used bs"
  by (induction bs rule: coalesce.induct) (auto simp: joins_def)

lemma block_ok_join: "joins b c \<Longrightarrow> block_ok b \<Longrightarrow> block_ok c \<Longrightarrow> block_ok (b\<lparr>b_size := b_size b + HDR + b_size c\<rparr>)"
proof -
  assume j: "joins b c" and ok: "block_ok b" "block_ok c"
  have "(b_size b + HDR + b_size c) mod 16 = 0"
    using ok by (auto simp: block_ok_def HDR_def dvd_eq_mod_eq_0 [symmetric])
  then show ?thesis using j ok by (auto simp: joins_def block_ok_def b_end_def)
qed

lemma block_ok_coalesce: "\<forall>b \<in> set bs. block_ok b \<Longrightarrow> \<forall>b \<in> set (coalesce bs). block_ok b"
  by (induction bs rule: coalesce.induct) (auto simp: block_ok_join)

lemma disjoint_join:
  "joins b c \<Longrightarrow> disjoint_blocks b d \<Longrightarrow> disjoint_blocks c d
    \<Longrightarrow> disjoint_blocks (b\<lparr>b_size := b_size b + HDR + b_size c\<rparr>) d"
  using b_end_greater [of d] by (auto simp: joins_def disjoint_blocks_def b_end_def)

lemma disjoint_join2:
  "joins b c \<Longrightarrow> disjoint_blocks d b \<Longrightarrow> disjoint_blocks d c
    \<Longrightarrow> disjoint_blocks d (b\<lparr>b_size := b_size b + HDR + b_size c\<rparr>)"
  using b_end_greater [of d] by (auto simp: joins_def disjoint_blocks_def b_end_def)

lemma disjoint_commI: "disjoint_blocks b c \<Longrightarrow> disjoint_blocks c b"
  by (auto simp: disjoint_blocks_def)

lemma disjoint_coalesce_other:
  "\<forall>c \<in> set bs. disjoint_blocks d c \<Longrightarrow> \<forall>c \<in> set (coalesce bs). disjoint_blocks d c"
proof (induction bs rule: coalesce.induct)
  case (1 b c bs)
  show ?case
  proof (cases "joins b c")
    case True
    have "disjoint_blocks d (b\<lparr>b_size := b_size b + HDR + b_size c\<rparr>)"
      by (rule disjoint_join2 [OF True]) (use 1(3) in simp_all)
    then have "\<forall>x \<in> set (b\<lparr>b_size := b_size b + HDR + b_size c\<rparr> # bs). disjoint_blocks d x"
      using 1(3) unfolding list.set by blast
    moreover have "coalesce (b # c # bs) = coalesce (b\<lparr>b_size := b_size b + HDR + b_size c\<rparr> # bs)"
      using True by simp
    ultimately show ?thesis using 1(1) [OF True] by (simp only:)
  next
    case False
    then show ?thesis using 1(2) [OF False] 1(3) by simp
  qed
qed simp_all

lemma disjoint_coalesce: "sorted_wrt disjoint_blocks bs \<Longrightarrow> sorted_wrt disjoint_blocks (coalesce bs)"
proof (induction bs rule: coalesce.induct)
  case (1 b c bs)
  show ?case
  proof (cases "joins b c")
    case True
    have "\<forall>d \<in> set bs. disjoint_blocks (b\<lparr>b_size := b_size b + HDR + b_size c\<rparr>) d"
      using 1(3) disjoint_join [OF True] by simp
    then have "sorted_wrt disjoint_blocks (b\<lparr>b_size := b_size b + HDR + b_size c\<rparr> # bs)"
      using 1(3) unfolding sorted_wrt.simps by blast
    moreover have "coalesce (b # c # bs) = coalesce (b\<lparr>b_size := b_size b + HDR + b_size c\<rparr> # bs)"
      using True by simp
    ultimately show ?thesis using 1(1) [OF True] by (simp only:)
  next
    case False
    have s: "\<forall>d \<in> set (c # bs). disjoint_blocks b d" "sorted_wrt disjoint_blocks (c # bs)"
      using 1(3) unfolding sorted_wrt.simps by blast+
    have "coalesce (b # c # bs) = b # coalesce (c # bs)" using False by simp
    then show ?thesis using disjoint_coalesce_other [OF s(1)] 1(2) [OF False s(2)]
      by (simp only: sorted_wrt.simps)
  qed
qed simp_all

section \<open>Allocating\<close>

lemma disjoint_sub:
  "disjoint_blocks b c \<Longrightarrow> b_addr b \<le> b_addr x \<Longrightarrow> b_end x \<le> b_end b \<Longrightarrow> disjoint_blocks x c"
  "disjoint_blocks c b \<Longrightarrow> b_addr b \<le> b_addr x \<Longrightarrow> b_end x \<le> b_end b \<Longrightarrow> disjoint_blocks c x"
  by (auto simp: disjoint_blocks_def)

lemma not_payload: "disjoint_blocks b c \<or> disjoint_blocks c b \<Longrightarrow> \<not> payload_of (b_addr b + HDR) c"
  using b_end_greater [of b] b_end_greater [of c] by (auto simp: payload_of_def disjoint_blocks_def)

lemma release_split:
  assumes "\<forall>c \<in> set pre \<union> set post. \<not> payload_of (b_addr x + HDR) c"
  shows "release (b_addr x + HDR) (pre @ x # post) = pre @ x\<lparr>b_used := False\<rparr> # post"
    and "find (payload_of (b_addr x + HDR)) (pre @ x # post) = Some x"
proof -
  have "map (\<lambda>b. if payload_of (b_addr x + HDR) b then b\<lparr>b_used := False\<rparr> else b) ys = ys"
    if "\<forall>c \<in> set ys. \<not> payload_of (b_addr x + HDR) c" for ys
    using that by (induction ys) auto
  then show "release (b_addr x + HDR) (pre @ x # post) = pre @ x\<lparr>b_used := False\<rparr> # post"
    using assms by (simp add: release_def payload_of_def)
  show "find (payload_of (b_addr x + HDR)) (pre @ x # post) = Some x"
    using assms by (induction pre) (auto simp: payload_of_def)
qed

lemma splits_size:
  "splits n b \<Longrightarrow> n \<le> 0xf0000000 \<Longrightarrow> n + 80 \<le> b_size b"
  by (simp add: splits_def HDR_def u32_simps)

lemma rest_block_fields:
  assumes "splits n b" and "n \<le> 0xf0000000" and "block_ok b"
  shows "b_size (rest_block n b) = b_size b - n - HDR" "b_end (rest_block n b) = b_end b"
    "b_addr (rest_block n b) = b_addr b + HDR + n" "\<not> b_used (rest_block n b)"
proof -
  have s: "n + 80 \<le> b_size b" using splits_size assms by blast
  have "b_size b < two32" using assms(3) by (simp add: block_ok_def b_end_def)
  then show size': "b_size (rest_block n b) = b_size b - n - HDR"
    using s by (simp add: rest_block_def u32_simps HDR_def)
  show "b_addr (rest_block n b) = b_addr b + HDR + n" "\<not> b_used (rest_block n b)"
    by (simp_all add: rest_block_def)
  then show "b_end (rest_block n b) = b_end b" using s size' by (simp add: b_end_def HDR_def)
qed

text \<open>What a successful search does to a well-formed list; releasing the block undoes it.\<close>

lemma alloc_ok:
  assumes ok: "list_ok bs" and n: "n mod 16 = 0" "n \<le> 0xf0000000"
    and a: "alloc_in n bs = Some (p, k, bs')"
  shows "\<exists>pre b x post. bs = pre @ b # post \<and> \<not> b_used b \<and> x = b\<lparr>b_size := k, b_used := True\<rparr>
      \<and> p = b_addr b + HDR \<and> n \<le> k \<and> b_end x \<le> b_end b
      \<and> (\<exists>ys. bs' = pre @ x # ys \<and> filter b_used ys = filter b_used post)
      \<and> list_ok bs' \<and> find (payload_of p) bs' = Some x \<and> coalesce (release p bs') = bs"
proof -
  obtain pre b post where sp: "bs = pre @ b # post" "\<not> too_small n b" "p = b_addr b + HDR"
    "if splits n b then k = n \<and> bs' = pre @ b\<lparr>b_size := n, b_used := True\<rparr> # rest_block n b # post
       else k = b_size b \<and> bs' = pre @ b\<lparr>b_used := True\<rparr> # post"
    using alloc_in_Some [OF a] by blast
  have b: "\<not> b_used b" "n \<le> b_size b" using sp(2) by (auto simp: too_small_def)
  have ob: "block_ok b" "\<forall>c \<in> set pre \<union> set post. block_ok c"
    and dpre: "\<forall>c \<in> set pre. disjoint_blocks c b" and dpost: "\<forall>c \<in> set post. disjoint_blocks b c"
    and srt: "sorted_wrt disjoint_blocks pre" "sorted_wrt disjoint_blocks post"
      "\<forall>c \<in> set pre. \<forall>d \<in> set post. disjoint_blocks c d"
    and co: "coalesced (pre @ b # post)"
    using ok sp(1) by (auto simp: list_ok_def sorted_wrt_append)
  have other: "\<forall>c \<in> set pre \<union> set post. \<not> payload_of (b_addr b + HDR) c"
    using dpre dpost not_payload by blast
  show ?thesis
  proof (cases "splits n b")
    case True
    let ?x = "b\<lparr>b_size := k, b_used := True\<rparr>" and ?y = "rest_block n b"
    have k: "k = n" and bs': "bs' = pre @ ?x # ?y # post" using sp(4) True by auto
    note y = rest_block_fields [OF True n(2) ob(1)]
    have s: "n + 80 \<le> b_size b" by (rule splits_size [OF True n(2)])
    have xe: "b_end ?x = b_addr ?y" "b_end ?x \<le> b_end b" "b_addr b \<le> b_addr ?y"
      using s y by (simp_all add: b_end_def HDR_def k)
    have ok': "block_ok ?x" "block_ok ?y"
    proof -
      have "(b_size b - n - 16) mod 16 = 0"
        using s n(1) ob(1) by (simp add: block_ok_def mod_eq_0_iff_dvd dvd_diff_nat)
      moreover have "(b_addr b + HDR + n) mod 16 = 0"
        using n(1) ob(1) by (auto simp: block_ok_def HDR_def mod_eq_0_iff_dvd)
      ultimately show "block_ok ?x" "block_ok ?y"
        using ob(1) n(1) xe y by (auto simp: block_ok_def k HDR_def)
    qed
    have dis: "\<forall>c \<in> set pre. disjoint_blocks c ?x \<and> disjoint_blocks c ?y"
      "\<forall>c \<in> set post. disjoint_blocks ?x c \<and> disjoint_blocks ?y c"
      using dpre dpost disjoint_sub [of b _ ?x] disjoint_sub [of b _ ?y] disjoint_sub [of _ b ?x]
        disjoint_sub [of _ b ?y] xe y by auto
    have xy: "disjoint_blocks ?x ?y" using xe by (simp add: disjoint_blocks_def)
    have "coalesced bs'"
      using co b(1) y xe unfolding bs' coalesced_def
      by (auto simp: successively_append_iff successively_Cons joins_def b_end_def)
    then have "list_ok bs'"
      using ob ok' dis xy srt by (auto simp: list_ok_def bs' sorted_wrt_append)
    moreover have pay: "\<forall>c \<in> set pre \<union> set (?y # post). \<not> payload_of (b_addr ?x + HDR) c"
      using other y by (auto simp: payload_of_def HDR_def)
    moreover have "coalesce (release p bs') = bs"
    proof -
      have "release p bs' = pre @ ?x\<lparr>b_used := False\<rparr> # ?y # post"
        using release_split(1) [OF pay] by (simp add: bs' sp(3))
      moreover have "joins (?x\<lparr>b_used := False\<rparr>) ?y" using y xe(1) by (simp add: joins_def b_end_def)
      moreover have "b_size b = k + HDR + b_size ?y" using s y(1) k by (simp add: HDR_def)
      then have "?x\<lparr>b_used := False, b_size := b_size (?x\<lparr>b_used := False\<rparr>) + HDR + b_size ?y\<rparr> = b"
        using b(1) by simp
      ultimately show ?thesis
        using coalesce_undo_split [OF co] b(1) sp(1) by simp
    qed
    moreover have "find (payload_of p) bs' = Some ?x"
      using release_split(2) [OF pay] by (simp add: bs' sp(3))
    ultimately show ?thesis
      using sp(1,3) b xe k bs' y(4) by (intro exI [of _ pre] exI [of _ b] exI [of _ ?x] exI [of _ post]) auto
  next
    case False
    let ?x = "b\<lparr>b_size := k, b_used := True\<rparr>"
    have k: "k = b_size b" and bs': "bs' = pre @ ?x # post" using sp(4) False by auto
    have xe: "b_end ?x = b_end b" by (simp add: k b_end_def)
    have dis: "\<forall>c \<in> set pre. disjoint_blocks c ?x" "\<forall>c \<in> set post. disjoint_blocks ?x c"
      using dpre dpost disjoint_sub [of b _ ?x] disjoint_sub [of _ b ?x] xe by auto
    have "coalesced bs'"
      using co b(1) unfolding bs' coalesced_def
      by (auto simp: successively_append_iff successively_Cons joins_def)
    moreover have "block_ok ?x" using ob(1) by (simp add: block_ok_def k b_end_def)
    ultimately have "list_ok bs'"
      using ob dis srt by (auto simp: list_ok_def bs' sorted_wrt_append)
    moreover have pay: "\<forall>c \<in> set pre \<union> set post. \<not> payload_of (b_addr ?x + HDR) c" using other by simp
    moreover have "coalesce (release p bs') = bs"
    proof -
      have "release p bs' = pre @ ?x\<lparr>b_used := False\<rparr> # post"
        using release_split(1) [OF pay] by (simp add: bs' sp(3))
      moreover have "?x\<lparr>b_used := False\<rparr> = b" using b(1) k by simp
      ultimately show ?thesis using coalesce_id [OF co] sp(1) by simp
    qed
    moreover have "find (payload_of p) bs' = Some ?x"
      using release_split(2) [OF pay] by (simp add: bs' sp(3))
    ultimately show ?thesis
      using sp(1,3) b xe k bs' by (intro exI [of _ pre] exI [of _ b] exI [of _ ?x] exI [of _ post]) auto
  qed
qed

section \<open>What callers rely on\<close>

lemma used_bytes_simps [simp]:
  "used_bytes (xs @ ys) = used_bytes xs + used_bytes ys"
  "used_bytes (b # bs) = (if b_used b then b_size b else 0) + used_bytes bs"
  by (simp_all add: used_bytes_def)

lemma used_bytes_filter: "filter b_used xs = filter b_used ys \<Longrightarrow> used_bytes xs = used_bytes ys"
  by (simp add: used_bytes_def)

lemma add32_mod: "a = x mod two32 \<Longrightarrow> add32 a k = (x + k) mod two32"
  by (simp add: add32_def mod_simps)

lemma sub32_mod: "a = (x + k) mod two32 \<Longrightarrow> sub32 a k = x mod two32"
proof -
  assume a: "a = (x + k) mod two32"
  have "sub32 a k = ((x + k) + (two32 - k mod two32)) mod two32"
    unfolding sub32_def a by (rule mod_add_left_eq)
  also have "(x + k) + (two32 - k mod two32) = x + (k div two32) * two32 + two32"
    using div_mult_mod_eq [of k two32] mod_less_divisor [of two32 k] by linarith
  also have "(x + (k div two32) * two32 + two32) mod two32 = x mod two32"
    by (simp only: mod_add_self2 mod_mult_self1)
  finally show ?thesis .
qed

text \<open>The payload bytes of a pointer of a given size stay clear of another block.\<close>

definition clear_of :: "nat \<Rightarrow> nat \<Rightarrow> hblock \<Rightarrow> bool" where
  "clear_of p n c \<longleftrightarrow> p + n \<le> b_addr c \<or> b_end c \<le> p"

lemma malloc_spec:
  assumes "heap_ok h" and "n \<le> 0xf0000000" and "malloc n h = (r, h')"
  shows "heap_ok h' \<and> (case r of
      None \<Rightarrow> h' = h \<and> (\<forall>b \<in> set (hblocks h). b_used b \<or> b_size b < round_size n)
    | Some p \<Rightarrow> p mod 16 = 0 \<and> (\<exists>x. find (payload_of p) (hblocks h') = Some x \<and> b_used x \<and> n \<le> b_size x
        \<and> (\<forall>c \<in> set (hblocks h). b_used c \<longrightarrow> c \<in> set (hblocks h') \<and> clear_of p (b_size x) c)))"
proof -
  have h: "hblocks h \<noteq> []" "list_ok (hblocks h)" "heap_in_use h = used_bytes (hblocks h) mod two32"
    using assms(1) by (auto simp: heap_ok_def)
  note rs = round_size [OF assms(2)]
  show ?thesis
  proof (cases "alloc_in (round_size n) (hblocks h)")
    case None
    then have "r = None" "h' = h" using assms(3) h(1) by (auto simp: malloc_def)
    then show ?thesis using assms(1) alloc_in_None [OF None] by (auto simp: too_small_def)
  next
    case (Some pkb)
    then obtain p k bs' where a: "alloc_in (round_size n) (hblocks h) = Some (p, k, bs')" by (cases pkb) auto
    then have r: "r = Some p" "hblocks h' = bs'" "heap_in_use h' = add32 (heap_in_use h) k"
      using assms(3) h(1) by (auto simp: malloc_def)
    obtain pre b x post ys where x: "hblocks h = pre @ b # post" "\<not> b_used b" "x = b\<lparr>b_size := k, b_used := True\<rparr>"
      "p = b_addr b + HDR" "round_size n \<le> k" "b_end x \<le> b_end b" "bs' = pre @ x # ys"
      "filter b_used ys = filter b_used post" "list_ok bs'" "find (payload_of p) bs' = Some x"
      using alloc_ok [OF h(2) rs(3,4) a] by blast
    have ys: "c \<in> set ys \<longleftrightarrow> c \<in> set post" if "b_used c" for c
    proof -
      have "set (filter b_used ys) = set (filter b_used post)" using x(8) by simp
      then show ?thesis using that by auto
    qed
    have used: "c \<in> set bs' \<and> clear_of p (b_size x) c" if c: "c \<in> set (hblocks h)" "b_used c" for c
    proof -
      have "disjoint_blocks b c \<or> disjoint_blocks c b"
        using c x(1,2) h(2) by (auto simp: list_ok_def sorted_wrt_append)
      then have "clear_of p (b_size x) c" using x(3,4,6) by (auto simp: disjoint_blocks_def clear_of_def b_end_def)
      then show ?thesis using c x(1,2,7) ys by auto
    qed
    have "used_bytes bs' = used_bytes (hblocks h) + k"
      using x(1,2,3,7) used_bytes_filter [OF x(8)] by simp
    then have "heap_in_use h' = used_bytes bs' mod two32" using r(3) add32_mod [OF h(3)] by simp
    then have "heap_ok h'" using r(2) x(7,9) by (simp add: heap_ok_def)
    moreover have "p mod 16 = 0"
      using h(2) x(1,4) by (auto simp: list_ok_def block_ok_def HDR_def mod_eq_0_iff_dvd)
    ultimately show ?thesis using r x(3,5,10) rs(1) used by simp
  qed
qed

text \<open>
  C9: \<open>malloc\<close> on a well-formed heap either finds no free block that is large enough, and
  changes nothing, or returns a 16-byte aligned pointer to a used block of at least the size
  asked for, whose bytes overlap no block that was in use before; all those blocks are still
  there and the heap is well formed again.
\<close>

theorem malloc_fresh:
  assumes "heap_ok h" and "n \<le> 0xf0000000" and "malloc n h = (r, h')"
  shows "heap_ok h' \<and> (case r of
      None \<Rightarrow> h' = h \<and> (\<forall>b \<in> set (hblocks h). b_used b \<or> b_size b < round_size n)
    | Some p \<Rightarrow> p mod 16 = 0 \<and> (\<exists>x. find (payload_of p) (hblocks h') = Some x \<and> b_used x \<and> n \<le> b_size x
        \<and> (\<forall>c \<in> set (hblocks h). b_used c \<longrightarrow> c \<in> set (hblocks h') \<and> clear_of p (b_size x) c)))"
  using assms by (rule malloc_spec)

text \<open>
  Freeing what \<open>malloc\<close> has just returned gives back exactly the heap from before: the
  split is undone, nothing is lost to fragmentation.
\<close>

theorem free_undoes_malloc:
  assumes "heap_ok h" and "n \<le> 0xf0000000" and "malloc n h = (Some p, h')"
  shows "heap_free (Some p) h' = Some h"
proof -
  have h: "hblocks h \<noteq> []" "list_ok (hblocks h)" "heap_in_use h = used_bytes (hblocks h) mod two32"
    using assms(1) by (auto simp: heap_ok_def)
  note rs = round_size [OF assms(2)]
  obtain k bs' where a: "alloc_in (round_size n) (hblocks h) = Some (p, k, bs')"
    and h': "h' = h\<lparr>hblocks := bs', heap_in_use := add32 (heap_in_use h) k\<rparr>"
    using assms(3) h(1) by (auto simp: malloc_def split: option.splits)
  obtain x where x: "find (payload_of p) bs' = Some x" "b_size x = k" "coalesce (release p bs') = hblocks h"
    using alloc_ok [OF h(2) rs(3,4) a] by auto
  have "sub32 (add32 (heap_in_use h) k) k = heap_in_use h"
    using sub32_mod [OF add32_mod [OF h(3)]] h(3) by simp
  then show ?thesis using x by (simp add: heap_free_def h')
qed

lemma find_release: "find (payload_of p) bs = Some b \<Longrightarrow> \<exists>pre post. bs = pre @ b # post \<and> payload_of p b"
  by (induction bs) (auto split: if_splits intro: Cons_eq_appendI)

lemma free_spec:
  assumes "heap_ok h" and "find (payload_of p) (hblocks h) = Some b" and "b_used b"
  shows "\<exists>h'. heap_free (Some p) h = Some h' \<and> heap_ok h'
    \<and> filter b_used (hblocks h') = filter (\<lambda>c. c \<noteq> b) (filter b_used (hblocks h))"
proof -
  have h: "list_ok (hblocks h)" "heap_in_use h = used_bytes (hblocks h) mod two32"
    using assms(1) by (auto simp: heap_ok_def)
  obtain pre post where sp: "hblocks h = pre @ b # post" "p = b_addr b + HDR"
    using find_release [OF assms(2)] by (auto simp: payload_of_def)
  have dis: "\<forall>c \<in> set pre. disjoint_blocks c b" "\<forall>c \<in> set post. disjoint_blocks b c"
    using h(1) sp(1) by (auto simp: list_ok_def sorted_wrt_append)
  have other: "\<forall>c \<in> set pre \<union> set post. \<not> payload_of (b_addr b + HDR) c"
    using dis not_payload by blast
  let ?x = "b\<lparr>b_used := False\<rparr>" and ?bs = "pre @ b\<lparr>b_used := False\<rparr> # post"
  have rel: "release p (hblocks h) = ?bs" using release_split(1) [OF other] sp by simp
  have x: "b_end ?x = b_end b" by (simp add: b_end_def)
  have "\<forall>c \<in> set pre. disjoint_blocks c ?x" "\<forall>c \<in> set post. disjoint_blocks ?x c"
    using dis disjoint_sub [of b _ ?x] disjoint_sub [of _ b ?x] x by auto
  then have "sorted_wrt disjoint_blocks ?bs"
    using h(1) sp(1) by (auto simp: list_ok_def sorted_wrt_append)
  moreover have "\<forall>c \<in> set ?bs. block_ok c"
    using h(1) sp(1) by (auto simp: list_ok_def block_ok_def x)
  ultimately have "sorted_wrt disjoint_blocks (coalesce ?bs)" "\<forall>c \<in> set (coalesce ?bs). block_ok c"
    using disjoint_coalesce block_ok_coalesce by blast+
  then have ok: "list_ok (coalesce ?bs)"
    using coalesced_coalesce unfolding list_ok_def by blast
  have ne: "c \<noteq> b" if "c \<in> set pre \<union> set post" for c
    using that dis b_end_greater [of b] by (auto simp: disjoint_blocks_def)
  have keep: "filter (\<lambda>c. c \<noteq> b) (filter b_used ys) = filter b_used ys" if "set ys \<subseteq> set pre \<union> set post" for ys
    using that ne by (intro filter_True) auto
  have used: "filter b_used (coalesce ?bs) = filter (\<lambda>c. c \<noteq> b) (filter b_used (hblocks h))"
    using keep [of pre] keep [of post] assms(3) by (simp add: used_coalesce sp(1))
  have "used_bytes (coalesce ?bs) = used_bytes ?bs" by (rule used_bytes_filter) (rule used_coalesce)
  then have "used_bytes (hblocks h) = used_bytes (coalesce ?bs) + b_size b"
    using assms(3) by (simp add: sp(1))
  then have "sub32 (heap_in_use h) (b_size b) = used_bytes (coalesce ?bs) mod two32"
    using h(2) sub32_mod by simp
  moreover have "coalesce ?bs \<noteq> []"
  proof -
    have "bs \<noteq> [] \<Longrightarrow> coalesce bs \<noteq> []" for bs by (induction bs rule: coalesce.induct) auto
    then show ?thesis by simp
  qed
  ultimately show ?thesis
    using ok used assms(2) rel by (auto simp: heap_free_def heap_ok_def)
qed

text \<open>
  \<open>free\<close> of a used block of a well-formed heap succeeds, leaves every other used block
  as it is, and merges free neighbours, so that the heap is well formed again.
\<close>

theorem free_keeps_others:
  assumes "heap_ok h" and "find (payload_of p) (hblocks h) = Some b" and "b_used b"
  shows "\<exists>h'. heap_free (Some p) h = Some h' \<and> heap_ok h'
    \<and> filter b_used (hblocks h') = filter (\<lambda>c. c \<noteq> b) (filter b_used (hblocks h))"
  using assms by (rule free_spec)

lemma find_block:
  assumes "list_ok bs" and "x \<in> set bs" and "p = b_addr x + HDR"
  shows "find (payload_of p) bs = Some x"
proof -
  obtain pre post where sp: "bs = pre @ x # post" using assms(2) by (meson split_list)
  have "\<forall>c \<in> set pre. disjoint_blocks c x" "\<forall>c \<in> set post. disjoint_blocks x c"
    using assms(1) sp by (auto simp: list_ok_def sorted_wrt_append)
  then have "\<forall>c \<in> set pre \<union> set post. \<not> payload_of (b_addr x + HDR) c" using not_payload by blast
  then show ?thesis using release_split(2) sp assms(3) by simp
qed

lemma find_payload: "find (payload_of p) bs = Some b \<Longrightarrow> b \<in> set bs \<and> p = b_addr b + HDR"
  using find_release by (fastforce simp: payload_of_def)

text \<open>
  \<open>realloc\<close> of a used block ends, keeps the heap well formed, and either fails and changes
  nothing, or returns a used block of at least the new size that holds the old contents, however
  the block moved.
\<close>

theorem realloc_keeps_contents:
  assumes "heap_ok h" and "find (payload_of p) (hblocks h) = Some b" and "b_used b" and "n \<le> 0xf0000000"
  shows "\<exists>r h' m'. realloc (Some p) n h m = Some (r, h', m') \<and> heap_ok h' \<and> (case r of
      None \<Rightarrow> h' = h \<and> m' = m
    | Some q \<Rightarrow> (\<exists>x. find (payload_of q) (hblocks h') = Some x \<and> b_used x \<and> n \<le> b_size x)
        \<and> (\<forall>i < min n (b_size b). m' (q + i) = m (p + i)))"
proof (cases "b_size b \<ge> n")
  case True
  then show ?thesis using assms by (simp add: realloc_def)
next
  case grow: False
  obtain r h1 where ma: "malloc n h = (r, h1)" by fastforce
  note spec = malloc_spec [OF assms(1,4) ma]
  show ?thesis
  proof (cases r)
    case None
    then show ?thesis using spec ma grow assms by (simp add: realloc_def)
  next
    case (Some q)
    then obtain x where x: "heap_ok h1" "find (payload_of q) (hblocks h1) = Some x" "b_used x" "n \<le> b_size x"
      "b \<in> set (hblocks h1)" "clear_of q (b_size x) b"
      using spec assms(2,3) find_payload by fastforce
    have p: "p = b_addr b + HDR" using find_payload [OF assms(2)] by simp
    have l1: "list_ok (hblocks h1)" using x(1) by (simp add: heap_ok_def)
    obtain h2 where h2: "heap_free (Some p) h1 = Some h2" "heap_ok h2"
      "filter b_used (hblocks h2) = filter (\<lambda>c. c \<noteq> b) (filter b_used (hblocks h1))"
      using free_spec [OF x(1) find_block [OF l1 x(5) p] assms(3)] by blast
    have "x \<noteq> b" using x(4) grow by auto
    then have "x \<in> set (filter b_used (hblocks h2))"
      using find_payload [OF x(2)] x(3) unfolding h2(3) by simp
    then have fx: "find (payload_of q) (hblocks h2) = Some x"
      using find_block [of "hblocks h2" x q] find_payload [OF x(2)] h2(2) by (simp add: heap_ok_def)
    have "q \<le> p \<or> p + b_size b \<le> q" using x(6) p by (auto simp: clear_of_def b_end_def)
    then have "memcpy q p (b_size b) m = blit q p (b_size b) m" by (rule memcpy_blit)
    then have "realloc (Some p) n h m = Some (Some q, h2, blit q p (b_size b) m)"
      using assms(2) grow ma Some h2(1) by (simp add: realloc_def)
    then show ?thesis using h2(2) fx x(3,4) by (auto simp: blit_def)
  qed
qed

section \<open>The first heap\<close>

definition regions_ok :: "(nat \<times> nat) list \<Rightarrow> bool" where
  "regions_ok rs \<longleftrightarrow> rs \<noteq> [] \<and> sorted_wrt (\<lambda>r s. snd r < fst s \<or> snd s < fst r) rs
     \<and> (\<forall>(a, e) \<in> set rs. a mod 16 = 0 \<and> e mod 16 = 0 \<and> a + 65536 < e \<and> e < two32)"

lemma region_block_fields:
  "regions_ok rs \<Longrightarrow> r \<in> set rs \<Longrightarrow> block_ok (region_block r) \<and> b_end (region_block r) = snd r
    \<and> b_addr (region_block r) = fst r \<and> \<not> b_used (region_block r)"
proof -
  assume "regions_ok rs" "r \<in> set rs"
  then have r: "fst r mod 16 = 0" "snd r mod 16 = 0" "fst r + 65536 < snd r" "snd r < two32"
    by (auto simp: regions_ok_def)
  have sz: "b_size (region_block r) = snd r - fst r - HDR"
    using r by (simp add: region_block_def u32_simps HDR_def)
  have "(snd r - fst r - HDR) mod 16 = 0"
    using r by (simp add: HDR_def mod_eq_0_iff_dvd dvd_diff_nat)
  then show ?thesis using r sz by (simp add: block_ok_def b_end_def region_block_def HDR_def)
qed

text \<open>
  Regions that do not touch each other make a well-formed heap of one free block each.\<close>

theorem heap_init_ok:
  assumes "regions_ok (regions h)" and "heap_in_use h = 0"
  shows "heap_ok (heap_init h) \<and> length (hblocks (heap_init h)) = length (regions h)"
proof -
  let ?rs = "regions h"
  have ne: "?rs \<noteq> []" and srt: "sorted_wrt (\<lambda>r s. snd r < fst s \<or> snd s < fst r) ?rs"
    using assms(1) by (auto simp: regions_ok_def)
  note f = region_block_fields [OF assms(1)]
  have "sorted_wrt disjoint_blocks (map region_block ?rs)"
    unfolding sorted_wrt_map
    by (rule sorted_wrt_mono_rel [OF _ srt]) (auto simp: disjoint_blocks_def f)
  moreover have "coalesced (map region_block ?rs)"
  proof -
    have "\<not> joins (region_block r) (region_block s)"
      if "r \<in> set ?rs" "s \<in> set ?rs" "snd r < fst s \<or> snd s < fst r" for r s
      using that f [of r] f [of s] b_end_greater [of "region_block r"] b_end_greater [of "region_block s"]
      by (auto simp: joins_def b_end_def)
    then have "sorted_wrt (\<lambda>r s. \<not> joins (region_block r) (region_block s)) ?rs"
      using sorted_wrt_mono_rel [OF _ srt] by (metis (mono_tags, lifting))
    then show ?thesis
      unfolding coalesced_def by (simp add: successively_map successively_if_sorted_wrt)
  qed
  moreover have "used_bytes (map region_block ?rs) = 0"
    by (simp add: used_bytes_def region_block_def o_def)
  moreover have "\<forall>b \<in> set (map region_block ?rs). block_ok b" using f by auto
  ultimately show ?thesis
    using ne assms(2) by (simp add: heap_ok_def heap_init_def list_ok_def Let_def)
qed

text \<open>The heap of an app that added no region, and an allocation in it.\<close>

definition empty_heap :: heap where
  "empty_heap = \<lparr>regions = [(HEAP_START, HEAP_END)], hblocks = [], heap_in_use = 0, heap_total = 0\<rparr>"

definition ex_heap :: heap where
  "ex_heap = heap_init empty_heap"

theorem heap_init_ok_witness: "heap_ok ex_heap"
  using heap_init_ok [of empty_heap]
  by (simp add: ex_heap_def empty_heap_def regions_ok_def HEAP_START_def HEAP_END_def)

lemma ex_heap_ok: "heap_ok ex_heap"
proof -
  have "hblocks ex_heap = [\<lparr>b_addr = 0x81600000, b_size = 0x2defff0, b_used = False\<rparr>]" "heap_in_use ex_heap = 0"
    by (simp_all add: ex_heap_def empty_heap_def heap_init_def region_block_def HEAP_START_def HEAP_END_def
        sub32_def HDR_def)
  then show ?thesis
    by (simp add: heap_ok_def list_ok_def block_ok_def b_end_def HDR_def coalesced_def used_bytes_def)
qed

lemma ex_malloc:
  "\<exists>h'. malloc 100 ex_heap = (Some 0x81600010, h')
    \<and> hblocks h' = [\<lparr>b_addr = 0x81600000, b_size = 112, b_used = True\<rparr>,
                     \<lparr>b_addr = 0x81600080, b_size = 0x2deff70, b_used = False\<rparr>]"
  by (simp add: malloc_def ex_heap_def empty_heap_def heap_init_def region_block_def HEAP_START_def
      HEAP_END_def sub32_def add32_def HDR_def round_size_def floor16_def too_small_def splits_def rest_block_def)

theorem malloc_fresh_witness: "\<exists>h'. malloc 100 ex_heap = (Some 0x81600010, h') \<and> heap_ok h'"
  using ex_malloc malloc_fresh [OF ex_heap_ok, of 100] by fastforce

theorem free_undoes_malloc_witness:
  "\<exists>h'. malloc 100 ex_heap = (Some 0x81600010, h') \<and> heap_free (Some 0x81600010) h' = Some ex_heap"
  using ex_malloc free_undoes_malloc [OF ex_heap_ok, of 100] by fastforce

text \<open>One used block, then free memory.\<close>

definition ex_used :: hblock where
  "ex_used = \<lparr>b_addr = 0x81600000, b_size = 112, b_used = True\<rparr>"

definition ex_heap1 :: heap where
  "ex_heap1 = ex_heap\<lparr>hblocks := [ex_used, \<lparr>b_addr = 0x81600080, b_size = 0x2deff70, b_used = False\<rparr>],
     heap_in_use := 112\<rparr>"

lemma ex_heap1_ok: "heap_ok ex_heap1" "find (payload_of 0x81600010) (hblocks ex_heap1) = Some ex_used"
  by (simp_all add: ex_heap1_def ex_used_def heap_ok_def list_ok_def block_ok_def b_end_def HDR_def
      coalesced_def used_bytes_def disjoint_blocks_def joins_def payload_of_def)

theorem free_keeps_others_witness:
  "\<exists>h'. heap_free (Some 0x81600010) ex_heap1 = Some h' \<and> heap_ok h' \<and> filter b_used (hblocks h') = []"
  using free_keeps_others [OF ex_heap1_ok] by (simp add: ex_heap1_def ex_used_def)

theorem realloc_keeps_contents_witness:
  "\<exists>r h' m'. realloc (Some 0x81600010) 200 ex_heap1 ex_mem = Some (r, h', m') \<and> heap_ok h'"
  using realloc_keeps_contents [OF ex_heap1_ok, of 200 ex_mem] by (auto simp: ex_used_def)

text \<open>
  A request just below 4 GB wraps to size 0 and succeeds: \<open>(n + 15u) & ~15u\<close> is not checked.
\<close>

lemma malloc_wraps:
  "\<exists>h' x. malloc 0xfffffff5 ex_heap = (Some 0x81600010, h') \<and> find (payload_of 0x81600010) (hblocks h') = Some x
    \<and> b_size x = 0"
  by (simp add: malloc_def ex_heap_def empty_heap_def heap_init_def region_block_def HEAP_START_def
      HEAP_END_def sub32_def add32_def HDR_def round_size_def floor16_def too_small_def splits_def
      rest_block_def payload_of_def)

end
