(* ===== verification/LibcNum.thy ===== *)
theory LibcNum
  imports LibcMem "HOL-Library.Multiset"
begin

text \<open>
  Numbers and sorting in \<open>sdk/libc/libc.c\<close>: \<open>strtoul\<close> and its relatives, the random generator,
  \<open>qsort\<close>. \<open>unsigned long\<close> and \<open>long\<close> have 32 bits; a \<open>long\<close> is the same word read as a
  signed number. \<open>None\<close> is a loop that does not end (a string of digits or blanks without end).
\<close>

section \<open>Parsing numbers\<close>

partial_function (option) skip_space :: "nat \<Rightarrow> mem \<Rightarrow> nat option" where
  "skip_space s m = (if isspace (chr (m s)) then skip_space (s + 1) m else Some s)"

text \<open>The value of a digit or letter, \<open>None\<close> for any other character.\<close>

definition digit_val :: "byte \<Rightarrow> int option" where
  "digit_val b =
     (let c = chr b
      in if isdigit c then Some (c - 0x30)
         else if isalpha c then Some (tolower c - 0x61 + 10) else None)"

definition digit_in :: "int \<Rightarrow> byte \<Rightarrow> bool" where
  "digit_in base b \<longleftrightarrow> (case digit_val b of None \<Rightarrow> False | Some d \<Rightarrow> d < base)"

partial_function (option) parse_digits :: "int \<Rightarrow> nat \<Rightarrow> u32 \<Rightarrow> mem \<Rightarrow> (u32 \<times> nat) option" where
  "parse_digits base s v m =
     (if digit_in base (m s)
      then parse_digits base (s + 1) (v * of_int base + of_int (the (digit_val (m s)))) m
      else Some (v, s))"

text \<open>The prefix: which base, and where the digits begin.\<close>

definition number_base :: "int \<Rightarrow> nat \<Rightarrow> mem \<Rightarrow> int \<times> nat" where
  "number_base base s m =
     (if (base = 0 \<or> base = 16) \<and> m s = 0x30 \<and> (m (s + 1) = 0x78 \<or> m (s + 1) = 0x58)
         \<and> isxdigit (chr (m (s + 2))) then (16, s + 2)
      else if base = 0 \<and> m s = 0x30 then (8, s)
      else if base = 0 then (10, s)
      else (base, s))"

definition strtoul :: "nat \<Rightarrow> int \<Rightarrow> mem \<Rightarrow> (u32 \<times> nat) option" where
  "strtoul s0 base0 m = Option.bind (skip_space s0 m) (\<lambda>s1.
     let sign = (m s1 = 0x2b \<or> m s1 = 0x2d);
         neg = (m s1 = 0x2d);
         s2 = (if sign then s1 + 1 else s1);
         (base, s3) = number_base base0 s2 m
     in map_option (\<lambda>(v, e). (if neg then - v else v, e)) (parse_digits base s3 0 m))"

definition strtol :: "nat \<Rightarrow> int \<Rightarrow> mem \<Rightarrow> (int \<times> nat) option" where
  "strtol s base m = map_option (\<lambda>(v, e). (sint v, e)) (strtoul s base m)"

definition atoi :: "nat \<Rightarrow> mem \<Rightarrow> int option" where
  "atoi s m = map_option fst (strtol s 10 m)"

definition abs_int :: "u32 \<Rightarrow> u32" where
  "abs_int x = (if sint x < 0 then - x else x)"

text \<open>A run of bytes in memory.\<close>

definition bytes_at :: "mem \<Rightarrow> nat \<Rightarrow> byte list \<Rightarrow> bool" where
  "bytes_at m p s \<longleftrightarrow> (\<forall>i < length s. m (p + i) = s ! i)"

lemma bytes_at_simps [simp]:
  "bytes_at m p []" "bytes_at m p (c # s) \<longleftrightarrow> m p = c \<and> bytes_at m (p + 1) s"
  by (auto simp: bytes_at_def All_less_Suc2)

lemma bytes_at_append [simp]: "bytes_at m p (xs @ ys) \<longleftrightarrow> bytes_at m p xs \<and> bytes_at m (p + length xs) ys"
  by (induction xs arbitrary: p) auto

definition digits_int :: "int \<Rightarrow> byte list \<Rightarrow> int" where
  "digits_int base cs = foldl (\<lambda>v c. v * base + the (digit_val c)) 0 cs"

lemma skip_space_run:
  "bytes_at m s ws \<Longrightarrow> \<forall>c \<in> set ws. isspace (chr c) \<Longrightarrow> \<not> isspace (chr (m (s + length ws)))
    \<Longrightarrow> skip_space s m = Some (s + length ws)"
  by (induction ws arbitrary: s) (simp_all add: skip_space.simps)

lemma parse_digits_run:
  "bytes_at m s cs \<Longrightarrow> \<forall>c \<in> set cs. digit_in base c \<Longrightarrow> \<not> digit_in base (m (s + length cs))
    \<Longrightarrow> parse_digits base s (of_int v) m
      = Some (of_int (foldl (\<lambda>v c. v * base + the (digit_val c)) v cs), s + length cs)"
proof (induction cs arbitrary: s v)
  case Nil
  then show ?case by (simp add: parse_digits.simps)
next
  case (Cons c cs)
  have "(of_int v * of_int base + of_int (the (digit_val c)) :: u32) = of_int (v * base + the (digit_val c))"
    by simp
  then show ?case
    using Cons.IH [of "s + 1" "v * base + the (digit_val c)"] Cons.prems
    by (simp add: parse_digits.simps [of base s])
qed

lemma strtoul_run:
  assumes "bytes_at m s (ws @ sg @ cs)" and "\<forall>c \<in> set ws. isspace (chr c)"
    and "sg \<in> {[], [0x2b], [0x2d]}" and "cs \<noteq> []" and "\<forall>c \<in> set cs. digit_in base c"
    and "\<not> digit_in base (m (s + length (ws @ sg @ cs)))"
    and "number_base base (s + length ws + length sg) m = (base, s + length ws + length sg)" and "base \<le> 36"
  shows "strtoul s base m = Some (of_int (if sg = [0x2d] then - digits_int base cs else digits_int base cs),
      s + length (ws @ sg @ cs))"
proof -
  obtain c ct where cs: "cs = c # ct" using assms(4) by (cases cs) auto
  then have dc: "digit_in base c" using assms(5) by simp
  have cval: "isdigit (chr c) \<or> isalpha (chr c)" using dc by (auto simp: digit_in_def digit_val_def Let_def split: if_splits)
  then have csp: "\<not> isspace (chr c)" "c \<noteq> 0x2b" "c \<noteq> 0x2d"
    by (auto simp: isdigit_def isalpha_def isupper_def islower_def isspace_def)
  have at: "bytes_at m s ws" "bytes_at m (s + length ws) sg" "bytes_at m (s + length ws + length sg) cs"
    using assms(1) by (auto simp: add.assoc)
  have "\<not> isspace (chr (m (s + length ws)))"
    using at(2,3) assms(3) csp by (auto simp: cs isspace_def)
  then have sk: "skip_space s m = Some (s + length ws)" using skip_space_run at(1) assms(2) by blast
  have pd: "parse_digits base (s + length ws + length sg) 0 m
      = Some (of_int (digits_int base cs), s + length ws + length sg + length cs)"
    using parse_digits_run [OF at(3) assms(5), of 0] assms(6) by (simp add: digits_int_def add.assoc)
  show ?thesis
    using at(2,3) assms(3,7) csp pd sk
    by (auto simp: strtoul_def cs add.assoc)
qed

lemma atoi_run:
  assumes "bytes_at m s (ws @ sg @ cs)" and "\<forall>c \<in> set ws. isspace (chr c)"
    and "sg \<in> {[], [0x2b], [0x2d]}" and "cs \<noteq> []" and "\<forall>c \<in> set cs. isdigit (chr c)"
    and "\<not> isdigit (chr (m (s + length (ws @ sg @ cs))))"
    and "v = (if sg = [0x2d] then - digits_int 10 cs else digits_int 10 cs)"
    and "- 0x80000000 \<le> v" and "v < 0x80000000"
  shows "atoi s m = Some v"
proof -
  have d10: "digit_in 10 c \<longleftrightarrow> isdigit (chr c)" for c
    by (auto simp: digit_in_def digit_val_def Let_def isdigit_def isalpha_def isupper_def islower_def tolower_def)
  have "strtoul s 10 m = Some (of_int v, s + length (ws @ sg @ cs))"
    unfolding assms(7)
    by (rule strtoul_run [OF assms(1-4)]) (use assms d10 in \<open>auto simp: number_base_def\<close>)
  moreover have "sint (of_int v :: u32) = v"
    using assms(8,9) by (simp add: sint_sbintrunc' signed_take_bit_int_eq_self)
  ultimately show ?thesis by (simp add: atoi_def strtol_def)
qed

text \<open>
  \<open>atoi\<close> skips blanks, takes an optional sign and the following decimal digits, and
  returns their value whenever it fits a 32-bit \<open>int\<close>; what follows the digits is ignored.
\<close>

theorem atoi_value:
  assumes "bytes_at m s (ws @ sg @ cs)" and "\<forall>c \<in> set ws. isspace (chr c)"
    and "sg \<in> {[], [0x2b], [0x2d]}" and "cs \<noteq> []" and "\<forall>c \<in> set cs. isdigit (chr c)"
    and "\<not> isdigit (chr (m (s + length (ws @ sg @ cs))))"
    and "v = (if sg = [0x2d] then - digits_int 10 cs else digits_int 10 cs)"
    and "- 0x80000000 \<le> v" and "v < 0x80000000"
  shows "atoi s m = Some v"
  using assms by (rule atoi_run)

text \<open>Memory with \<open>" -42x"\<close> at 64.\<close>

theorem atoi_value_witness:
  "atoi 64 (\<lambda>a. if 64 \<le> a \<and> a < 69 then [0x20, 0x2d, 0x34, 0x32, 0x78] ! (a - 64) else 0) = Some (- 42)"
  by (rule atoi_value [where ws = "[0x20]" and sg = "[0x2d]" and cs = "[0x34, 0x32]"])
    (simp_all add: isspace_def isdigit_def digits_int_def digit_val_def)

section \<open>Random numbers\<close>

definition RAND_MAX :: u32 where "RAND_MAX = 0x7fffffff"

definition rand_next :: "u32 \<Rightarrow> u32 \<times> u32" where
  "rand_next st = (let st' = st * 1103515245 + 12345 in (drop_bit 1 st' AND RAND_MAX, st'))"

section \<open>Shell sort\<close>

text \<open>
  An array of \<open>n\<close> elements of \<open>size\<close> bytes, each moved as a whole, is a list of elements;
  \<open>cmp\<close> is the caller's comparison.
\<close>

function shift_up :: "('a \<Rightarrow> 'a \<Rightarrow> int) \<Rightarrow> nat \<Rightarrow> 'a \<Rightarrow> nat \<Rightarrow> 'a list \<Rightarrow> 'a list" where
  "shift_up cmp gap tmp j a =
     (if gap > 0 \<and> j \<ge> gap \<and> cmp (a ! (j - gap)) tmp > 0
      then shift_up cmp gap tmp (j - gap) (a[j := a ! (j - gap)])
      else a[j := tmp])"
  by pat_completeness auto
termination
  by (relation "measure (\<lambda>(cmp, gap, tmp, j, a). j)") auto

declare shift_up.simps [simp del]

definition gap_pass :: "('a \<Rightarrow> 'a \<Rightarrow> int) \<Rightarrow> nat \<Rightarrow> 'a list \<Rightarrow> 'a list" where
  "gap_pass cmp gap a = foldl (\<lambda>a i. shift_up cmp gap (a ! i) i a) a [gap..<length a]"

function shell :: "('a \<Rightarrow> 'a \<Rightarrow> int) \<Rightarrow> nat \<Rightarrow> 'a list \<Rightarrow> 'a list" where
  "shell cmp gap a = (if gap > 0 then shell cmp (gap div 2) (gap_pass cmp gap a) else a)"
  by pat_completeness auto
termination
  by (relation "measure (\<lambda>(cmp, gap, a). gap)") auto

declare shell.simps [simp del]

definition qsort :: "nat \<Rightarrow> ('a \<Rightarrow> 'a \<Rightarrow> int) \<Rightarrow> 'a list \<Rightarrow> 'a list" where
  "qsort sz cmp a = (if sz > 64 then a else shell cmp (length a div 2) a)"

section \<open>Sorting is right\<close>

lemma length_shift_up [simp]: "length (shift_up cmp gap tmp j a) = length a"
proof (induction cmp gap tmp j a rule: shift_up.induct)
  case (1 cmp gap tmp j a)
  then show ?case by (subst shift_up.simps) simp
qed

lemma length_gap_pass [simp]: "length (gap_pass cmp gap a) = length a"
proof -
  have "length (foldl (\<lambda>a i. shift_up cmp gap (a ! i) i a) a is) = length a" for "is"
    by (induction "is" arbitrary: a) simp_all
  then show ?thesis by (simp add: gap_pass_def)
qed

lemma mset_shift_up: "j < length a \<Longrightarrow> mset (shift_up cmp gap tmp j a) = mset (a[j := tmp])"
proof (induction cmp gap tmp j a rule: shift_up.induct)
  case (1 cmp gap tmp j a)
  show ?case
  proof (cases "gap > 0 \<and> j \<ge> gap \<and> cmp (a ! (j - gap)) tmp > 0")
    case True
    then have "mset (shift_up cmp gap tmp j a) = mset (a[j := a ! (j - gap), j - gap := tmp])"
      using 1 by (subst shift_up.simps) simp
    also have "a[j := a ! (j - gap), j - gap := tmp]
        = (a[j := tmp])[j := a[j := tmp] ! (j - gap), j - gap := a[j := tmp] ! j]"
    proof -
      have "j \<noteq> j - gap" using True by auto
      then show ?thesis using 1(2) by simp
    qed
    also have "mset \<dots> = mset (a[j := tmp])"
      using True 1(2) by (intro mset_swap) auto
    finally show ?thesis .
  next
    case False
    then have "shift_up cmp gap tmp j a = a[j := tmp]" by (subst shift_up.simps) auto
    then show ?thesis by simp
  qed
qed

lemma mset_gap_pass: "mset (gap_pass cmp gap a) = mset a"
proof -
  have "(\<forall>i \<in> set is. i < length a) \<Longrightarrow> mset (foldl (\<lambda>a i. shift_up cmp gap (a ! i) i a) a is) = mset a" for "is"
    by (induction "is" arbitrary: a) (simp_all add: mset_shift_up)
  then show ?thesis by (simp add: gap_pass_def)
qed

lemma mset_shell: "mset (shell cmp gap a) = mset a"
proof (induction cmp gap a rule: shell.induct)
  case (1 cmp gap a)
  then show ?case by (subst shell.simps) (simp add: mset_gap_pass)
qed

text \<open>
  A comparison function of a total order up to equality: what C asks of \<open>cmp\<close>.
\<close>

definition cmp_le :: "('a \<Rightarrow> 'a \<Rightarrow> int) \<Rightarrow> 'a \<Rightarrow> 'a \<Rightarrow> bool" where
  "cmp_le cmp x y \<longleftrightarrow> \<not> cmp x y > 0"

definition good_cmp :: "('a \<Rightarrow> 'a \<Rightarrow> int) \<Rightarrow> bool" where
  "good_cmp cmp \<longleftrightarrow> (\<forall>x y. cmp_le cmp x y \<or> cmp_le cmp y x)
     \<and> (\<forall>x y z. cmp_le cmp x y \<longrightarrow> cmp_le cmp y z \<longrightarrow> cmp_le cmp x z)"

text \<open>The first \<open>i + 1\<close> elements are in order except for the hole at \<open>j\<close>, behind which all are above \<open>tmp\<close>.\<close>

definition holed :: "('a \<Rightarrow> 'a \<Rightarrow> int) \<Rightarrow> 'a \<Rightarrow> nat \<Rightarrow> nat \<Rightarrow> 'a list \<Rightarrow> bool" where
  "holed cmp tmp j i a \<longleftrightarrow> (\<forall>p q. p < q \<and> q \<le> i \<and> p \<noteq> j \<and> q \<noteq> j \<longrightarrow> cmp_le cmp (a ! p) (a ! q))
     \<and> (\<forall>q. j < q \<and> q \<le> i \<longrightarrow> cmp_le cmp tmp (a ! q))"

definition ordered_upto :: "('a \<Rightarrow> 'a \<Rightarrow> int) \<Rightarrow> nat \<Rightarrow> 'a list \<Rightarrow> bool" where
  "ordered_upto cmp n a \<longleftrightarrow> (\<forall>p q. p < q \<and> q < n \<longrightarrow> cmp_le cmp (a ! p) (a ! q))"

lemma shift_up_ordered:
  assumes g: "good_cmp cmp"
  shows "holed cmp tmp j i a \<Longrightarrow> j \<le> i \<Longrightarrow> i < length a \<Longrightarrow> ordered_upto cmp (Suc i) (shift_up cmp 1 tmp j a)"
proof (induction j arbitrary: a)
  case 0
  have "shift_up cmp 1 tmp 0 a = a[0 := tmp]" by (subst shift_up.simps) simp
  moreover have "cmp_le cmp (a[0 := tmp] ! p) (a ! q)" if "p < q" "q \<le> i" for p q
  proof -
    have "0 < length a" using 0(3) by linarith
    then show ?thesis using that 0 by (cases "p = 0") (auto simp: holed_def)
  qed
  ultimately show ?case by (simp add: ordered_upto_def less_Suc_eq_le)
next
  case (Suc j)
  have tot: "cmp_le cmp x y \<or> cmp_le cmp y x" for x y using g by (simp add: good_cmp_def)
  have trans: "cmp_le cmp x y \<Longrightarrow> cmp_le cmp y z \<Longrightarrow> cmp_le cmp x z" for x y z
    using g unfolding good_cmp_def by blast
  have H: "cmp_le cmp (a ! p) (a ! q)" if "p < q" "q \<le> i" "p \<noteq> Suc j" "q \<noteq> Suc j" for p q
    using that Suc.prems(1) unfolding holed_def by blast
  show ?case
  proof (cases "cmp (a ! j) tmp > 0")
    case True
    let ?a = "a[Suc j := a ! j]"
    have step: "shift_up cmp 1 tmp (Suc j) a = shift_up cmp 1 tmp j ?a"
      using True by (subst shift_up.simps) simp
    have gt: "cmp_le cmp tmp (a ! j)" using True tot [of tmp "a ! j"] by (simp add: cmp_le_def)
    have "holed cmp tmp j i ?a"
      unfolding holed_def
    proof (intro conjI allI impI)
      fix p q
      assume pq: "p < q \<and> q \<le> i \<and> p \<noteq> j \<and> q \<noteq> j"
      then have "p < length a" "q < length a" using Suc.prems(3) by auto
      moreover have "cmp_le cmp (a ! j) (a ! q)" if "p = Suc j"
        using H [of j q] pq that by auto
      moreover have "cmp_le cmp (a ! p) (a ! j)" if "q = Suc j"
        using H [of p j] pq that by auto
      moreover have "cmp_le cmp (a ! p) (a ! q)" if "p \<noteq> Suc j" "q \<noteq> Suc j"
        using Suc.prems(1) pq that unfolding holed_def by blast
      ultimately show "cmp_le cmp (?a ! p) (?a ! q)"
        using pq by (cases "p = Suc j"; cases "q = Suc j") simp_all
    next
      fix q
      assume q: "j < q \<and> q \<le> i"
      have len: "q < length a" using q Suc.prems(3) by simp
      show "cmp_le cmp tmp (?a ! q)"
      proof (cases "q = Suc j")
        case True
        then show ?thesis using gt len by simp
      next
        case False
        then have "Suc j < q" using q by simp
        then have "cmp_le cmp tmp (a ! q)" using Suc.prems(1) q unfolding holed_def by blast
        then show ?thesis using False by simp
      qed
    qed
    then show ?thesis unfolding step using Suc by simp
  next
    case False
    have stop: "shift_up cmp 1 tmp (Suc j) a = a[Suc j := tmp]"
      using False by (subst shift_up.simps) simp
    have le: "cmp_le cmp (a ! j) tmp" using False by (simp add: cmp_le_def)
    show ?thesis
      unfolding stop ordered_upto_def
    proof (intro allI impI)
      fix p q
      assume pq: "p < q \<and> q < Suc i"
      have below: "cmp_le cmp (a ! p) tmp" if "p < Suc j"
      proof (cases "p = j")
        case True
        then show ?thesis using le by simp
      next
        case False
        then have "cmp_le cmp (a ! p) (a ! j)"
          using H [of p j] Suc.prems(2) that by auto
        then show ?thesis using le trans by blast
      qed
      have above: "cmp_le cmp tmp (a ! q)" if "Suc j < q" using that Suc.prems(1) pq by (simp add: holed_def)
      have rest: "cmp_le cmp (a ! p) (a ! q)" if "p \<noteq> Suc j" "q \<noteq> Suc j"
        using that Suc.prems(1) pq by (simp add: holed_def)
      show "cmp_le cmp (a[Suc j := tmp] ! p) (a[Suc j := tmp] ! q)"
        using pq Suc.prems(3) below above rest by (cases "p = Suc j"; cases "q = Suc j") simp_all
    qed
  qed
qed

lemma gap_pass_1_ordered:
  assumes "good_cmp cmp"
  shows "ordered_upto cmp (length a) (gap_pass cmp 1 a)"
proof (cases a)
  case Nil
  then show ?thesis by (simp add: ordered_upto_def)
next
  case (Cons x xs)
  have "k \<le> length xs \<Longrightarrow> ordered_upto cmp (Suc k) (foldl (\<lambda>a i. shift_up cmp 1 (a ! i) i a) a [1..<Suc k])
      \<and> length (foldl (\<lambda>a i. shift_up cmp 1 (a ! i) i a) a [1..<Suc k]) = length a" for k
  proof (induction k)
    case 0
    then show ?case by (simp add: ordered_upto_def)
  next
    case (Suc k)
    let ?b = "foldl (\<lambda>a i. shift_up cmp 1 (a ! i) i a) a [1..<Suc k]"
    have b: "ordered_upto cmp (Suc k) ?b" "length ?b = length a" using Suc by auto
    have "holed cmp (?b ! Suc k) (Suc k) (Suc k) ?b" using b(1) by (auto simp: holed_def ordered_upto_def)
    then have "ordered_upto cmp (Suc (Suc k)) (shift_up cmp 1 (?b ! Suc k) (Suc k) ?b)"
      by (rule shift_up_ordered [OF assms]) (use b(2) Suc.prems Cons in auto)
    moreover have "[1..<Suc (Suc k)] = [1..<Suc k] @ [Suc k]" by simp
    ultimately show ?case using b(2) by simp
  qed
  from this [of "length xs"] show ?thesis using Cons by (simp add: gap_pass_def)
qed

lemma shell_ordered: "good_cmp cmp \<Longrightarrow> gap > 0 \<Longrightarrow> ordered_upto cmp (length a) (shell cmp gap a)"
proof (induction cmp gap a rule: shell.induct)
  case (1 cmp gap a)
  show ?case
  proof (cases "gap = 1")
    case True
    then have "shell cmp gap a = gap_pass cmp 1 a"
      by (simp add: shell.simps [of cmp "Suc 0"] shell.simps [of cmp 0])
    then show ?thesis using gap_pass_1_ordered 1 by simp
  next
    case False
    then have "gap div 2 > 0" using 1(3) by simp
    then show ?thesis using 1 by (simp add: shell.simps [of cmp gap])
  qed
qed

text \<open>
  \<open>qsort\<close> with a comparison of a total order ends with the elements in order, and they are
  a permutation of the old ones, for elements of at most 64 bytes; larger elements are left as
  they are.
\<close>

theorem qsort_sorts:
  assumes "good_cmp cmp"
  shows "mset (qsort sz cmp a) = mset a
    \<and> (if sz \<le> 64 then sorted_wrt (cmp_le cmp) (qsort sz cmp a) else qsort sz cmp a = a)"
proof -
  have "ordered_upto cmp (length a) (shell cmp (length a div 2) a)"
  proof (cases "length a div 2 > 0")
    case True
    then show ?thesis using shell_ordered assms by blast
  next
    case False
    then have "length a < 2" by simp
    then show ?thesis by (auto simp: ordered_upto_def)
  qed
  moreover have "length (shell cmp (length a div 2) a) = length a"
    using mset_shell by (metis size_mset)
  ultimately have "sorted_wrt (cmp_le cmp) (shell cmp (length a div 2) a)"
    by (simp add: sorted_wrt_iff_nth_less ordered_upto_def)
  then show ?thesis by (simp add: qsort_def mset_shell)
qed

definition ex_cmp :: "nat \<Rightarrow> nat \<Rightarrow> int" where
  "ex_cmp x y = int x - int y"

theorem qsort_sorts_witness:
  "mset (qsort 4 ex_cmp [5, 1, 4, 1, 3]) = {#1, 1, 3, 4, 5#} \<and> sorted_wrt (\<le>) (qsort 4 ex_cmp [5, 1, 4, 1, 3])"
proof -
  have "good_cmp ex_cmp" by (auto simp: good_cmp_def cmp_le_def ex_cmp_def)
  moreover have "cmp_le ex_cmp = (\<le>)" by (auto simp: cmp_le_def ex_cmp_def fun_eq_iff)
  ultimately show ?thesis using qsort_sorts [of ex_cmp 4 "[5, 1, 4, 1, 3]"] by (simp add: add_mset_commute)
qed

end
