(* ===== verification/LibcPrintf.thy ===== *)
theory LibcPrintf
  imports LibcNum
begin

text \<open>
  The \<open>printf\<close> family of \<open>sdk/libc/libc.c\<close>. The buffer is an area of the memory; an argument
  list is the list of 32-bit words (\<open>int\<close>, \<open>long\<close>, pointers), 64-bit words and doubles that were
  passed. An argument that is missing or of another width is undefined: \<open>None\<close>. Doubles are
  values of an arbitrary type; \<open>dparts\<close> stands for the floating-point operations of \<open>%f\<close>: the
  sign test, the integer part and the scaled fraction.
\<close>

section \<open>Output\<close>

record out =
  o_mem :: mem
  o_buf :: nat
  o_size :: nat
  o_len :: nat

definition out_c :: "out \<Rightarrow> byte \<Rightarrow> out" where
  "out_c o' c =
     (let o1 = (if o_len o' + 1 < o_size o' then o'\<lparr>o_mem := (o_mem o')(o_buf o' + o_len o' := c)\<rparr> else o')
      in o1\<lparr>o_len := o_len o' + 1\<rparr>)"

fun out_pad :: "out \<Rightarrow> byte \<Rightarrow> nat \<Rightarrow> out" where
  "out_pad o' c 0 = o'"
| "out_pad o' c (Suc n) = out_pad (out_c o' c) c n"

definition digit_chars :: "bool \<Rightarrow> byte list" where
  "digit_chars upper =
     [0x30, 0x31, 0x32, 0x33, 0x34, 0x35, 0x36, 0x37, 0x38, 0x39]
     @ (if upper then [0x41, 0x42, 0x43, 0x44, 0x45, 0x46] else [0x61, 0x62, 0x63, 0x64, 0x65, 0x66])"

text \<open>\<open>do { tmp[n++] = digits[v % base]; v /= base; } while (v)\<close>, for a base of at least 2.\<close>

function num_digits :: "bool \<Rightarrow> nat \<Rightarrow> nat \<Rightarrow> byte list" where
  "num_digits upper base v =
     digit_chars upper ! (v mod base) # (if v div base \<noteq> 0 \<and> base > 1 then num_digits upper base (v div base) else [])"
  by pat_completeness auto
termination
  by (relation "measure (\<lambda>(upper, base, v). v)") (auto intro!: div_less_dividend intro: gr0I)

declare num_digits.simps [simp del]

text \<open>The contents of \<open>tmp[32]\<close>, lowest digit first.\<close>

definition num_tmp :: "nat \<Rightarrow> nat \<Rightarrow> bool \<Rightarrow> int \<Rightarrow> bool \<Rightarrow> byte list" where
  "num_tmp v base upper prec alt =
     (let t0 = num_digits upper base v;
          t1 = t0 @ replicate (nat (min prec 30) - length t0) 0x30
      in if alt \<and> base = 16 then t1 @ [if upper then 0x58 else 0x78, 0x30] else t1)"

definition out_list :: "out \<Rightarrow> byte list \<Rightarrow> out" where
  "out_list o' cs = foldl out_c o' cs"

definition out_num ::
  "out \<Rightarrow> nat \<Rightarrow> nat \<Rightarrow> bool \<Rightarrow> byte \<Rightarrow> int \<Rightarrow> int \<Rightarrow> bool \<Rightarrow> bool \<Rightarrow> bool \<Rightarrow> out" where
  "out_num o0 v base upper sign width prec left zero alt =
     (let tmp = num_tmp v base upper prec alt;
          zero' = (zero \<and> prec < 0);
          total = int (length tmp) + (if sign \<noteq> 0 then 1 else 0);
          o1 = (if \<not> left \<and> \<not> zero' then out_pad o0 0x20 (nat (width - total)) else o0);
          o2 = (if sign \<noteq> 0 then out_c o1 sign else o1);
          o3 = (if \<not> left \<and> zero' then out_pad o2 0x30 (nat (width - total)) else o2);
          o4 = out_list o3 (rev tmp)
      in if left then out_pad o4 0x20 (nat (width - total)) else o4)"

text \<open>The characters of a string are read as they are written; \<open>rd\<close> reads the \<open>i\<close>-th.\<close>

fun out_chars :: "out \<Rightarrow> (out \<Rightarrow> nat \<Rightarrow> byte) \<Rightarrow> nat \<Rightarrow> nat \<Rightarrow> out" where
  "out_chars o' rd i 0 = o'"
| "out_chars o' rd i (Suc n) = out_chars (out_c o' (rd o' i)) rd (i + 1) n"

definition out_str :: "out \<Rightarrow> (out \<Rightarrow> nat \<Rightarrow> byte) \<Rightarrow> int \<Rightarrow> int \<Rightarrow> bool \<Rightarrow> out" where
  "out_str o0 rd len width left =
     (let o1 = (if \<not> left then out_pad o0 0x20 (nat (width - len)) else o0);
          o2 = out_chars o1 rd 0 (nat len)
      in if left then out_pad o2 0x20 (nat (width - len)) else o2)"

section \<open>Format specifications\<close>

record fspec =
  fs_left :: bool
  fs_zero :: bool
  fs_plus :: bool
  fs_space :: bool
  fs_alt :: bool
  fs_width :: int
  fs_prec :: int
  fs_lng :: nat

definition fspec0 :: fspec where
  "fspec0 = \<lparr>fs_left = False, fs_zero = False, fs_plus = False, fs_space = False, fs_alt = False,
     fs_width = 0, fs_prec = -1, fs_lng = 0\<rparr>"

fun parse_flags :: "fspec \<Rightarrow> byte list \<Rightarrow> fspec \<times> byte list" where
  "parse_flags sp [] = (sp, [])"
| "parse_flags sp (c # cs) =
     (if c = 0x2d then parse_flags (sp\<lparr>fs_left := True\<rparr>) cs
      else if c = 0x30 then parse_flags (sp\<lparr>fs_zero := True\<rparr>) cs
      else if c = 0x2b then parse_flags (sp\<lparr>fs_plus := True\<rparr>) cs
      else if c = 0x20 then parse_flags (sp\<lparr>fs_space := True\<rparr>) cs
      else if c = 0x23 then parse_flags (sp\<lparr>fs_alt := True\<rparr>) cs
      else (sp, c # cs))"

definition wrap_int :: "int \<Rightarrow> int" where
  "wrap_int x = sint (of_int x :: u32)"

fun parse_int :: "int \<Rightarrow> byte list \<Rightarrow> int \<times> byte list" where
  "parse_int v [] = (v, [])"
| "parse_int v (c # cs) =
     (if isdigit (chr c) then parse_int (wrap_int (v * 10 + (chr c - 0x30))) cs else (v, c # cs))"

datatype 'd va = V32 u32 | V64 "64 word" | VDbl 'd

fun va_int :: "'d va list \<Rightarrow> (u32 \<times> 'd va list) option" where
  "va_int (V32 w # args) = Some (w, args)"
| "va_int _ = None"

fun va_llong :: "'d va list \<Rightarrow> (64 word \<times> 'd va list) option" where
  "va_llong (V64 w # args) = Some (w, args)"
| "va_llong _ = None"

fun va_double :: "'d va list \<Rightarrow> ('d \<times> 'd va list) option" where
  "va_double (VDbl d # args) = Some (d, args)"
| "va_double _ = None"

definition parse_width :: "fspec \<Rightarrow> byte list \<Rightarrow> 'd va list \<Rightarrow> (fspec \<times> byte list \<times> 'd va list) option" where
  "parse_width sp fmt args =
     (if fmt \<noteq> [] \<and> hd fmt = 0x2a then
        (case va_int args of
           None \<Rightarrow> None
         | Some (w, args') \<Rightarrow>
             Some (if sint w < 0 then sp\<lparr>fs_left := True, fs_width := wrap_int (- sint w)\<rparr>
                   else sp\<lparr>fs_width := sint w\<rparr>, tl fmt, args'))
      else (let (v, rest) = parse_int 0 fmt in Some (sp\<lparr>fs_width := v\<rparr>, rest, args)))"

definition parse_prec :: "fspec \<Rightarrow> byte list \<Rightarrow> 'd va list \<Rightarrow> (fspec \<times> byte list \<times> 'd va list) option" where
  "parse_prec sp fmt args =
     (if fmt \<noteq> [] \<and> hd fmt = 0x2e then
        (if tl fmt \<noteq> [] \<and> hd (tl fmt) = 0x2a then
           (case va_int args of
              None \<Rightarrow> None
            | Some (w, args') \<Rightarrow> Some (sp\<lparr>fs_prec := sint w\<rparr>, tl (tl fmt), args'))
         else (let (v, rest) = parse_int 0 (tl fmt) in Some (sp\<lparr>fs_prec := v\<rparr>, rest, args)))
      else Some (sp, fmt, args))"

fun parse_length :: "fspec \<Rightarrow> byte list \<Rightarrow> fspec \<times> byte list" where
  "parse_length sp [] = (sp, [])"
| "parse_length sp (c # cs) =
     (if c = 0x6c then parse_length (sp\<lparr>fs_lng := fs_lng sp + 1\<rparr>) cs
      else if c = 0x68 \<or> c = 0x7a \<or> c = 0x74 \<or> c = 0x6a then parse_length sp cs
      else (sp, c # cs))"

definition parse_spec :: "byte list \<Rightarrow> 'd va list \<Rightarrow> (fspec \<times> byte list \<times> 'd va list) option" where
  "parse_spec fmt args =
     (let (sp1, f1) = parse_flags fspec0 fmt
      in case parse_width sp1 f1 args of
           None \<Rightarrow> None
         | Some (sp2, f2, args2) \<Rightarrow>
             (case parse_prec sp2 f2 args2 of
                None \<Rightarrow> None
              | Some (sp3, f3, args3) \<Rightarrow> (let (sp4, f4) = parse_length sp3 f3 in Some (sp4, f4, args3))))"

section \<open>Conversions\<close>

definition conv_signed :: "fspec \<Rightarrow> int \<Rightarrow> out \<Rightarrow> out" where
  "conv_signed sp sv o' =
     out_num o' (nat \<bar>sv\<bar>) 10 False
       (if sv < 0 then 0x2d else if fs_plus sp then 0x2b else if fs_space sp then 0x20 else 0)
       (fs_width sp) (fs_prec sp) (fs_left sp) (fs_zero sp) False"

definition conv_unsigned :: "fspec \<Rightarrow> byte \<Rightarrow> nat \<Rightarrow> out \<Rightarrow> out" where
  "conv_unsigned sp k v o' =
     out_num o' v (if k = 0x6f then 8 else if k = 0x75 then 10 else 16) (k = 0x58) 0
       (fs_width sp) (fs_prec sp) (fs_left sp) (fs_zero sp) (fs_alt sp)"

definition null_text :: "byte list" where
  "null_text = [0x28, 0x6e, 0x75, 0x6c, 0x6c, 0x29]"

definition conv_string :: "fspec \<Rightarrow> u32 \<Rightarrow> out \<Rightarrow> out option" where
  "conv_string sp w o' =
     (let p = unat w;
          rd = (if p = 0 then (\<lambda>_ i. null_text ! i) else (\<lambda>o1 i. o_mem o1 (p + i)))
      in map_option (\<lambda>n.
           let len = (if fs_prec sp \<ge> 0 \<and> int n > fs_prec sp then fs_prec sp else int n)
           in out_str o' rd len (fs_width sp) (fs_left sp))
         (if p = 0 then Some 6 else strlen p (o_mem o')))"

definition conv_float :: "('d \<Rightarrow> nat \<Rightarrow> bool \<times> u32 \<times> u32) \<Rightarrow> fspec \<Rightarrow> 'd \<Rightarrow> out \<Rightarrow> out" where
  "conv_float dparts sp d o0 =
     (let p0 = (if fs_prec sp < 0 then 6 else fs_prec sp);
          prec = (if p0 > 9 then 9 else p0);
          (neg, ip0, fp0) = dparts d (nat prec);
          o1 = (if neg then out_c o0 0x2d else o0);
          scale = of_nat (10 ^ nat prec) :: u32;
          (ip, fp) = (if fp0 \<ge> scale then (ip0 + 1, fp0 - scale) else (ip0, fp0));
          o2 = out_num o1 (unat ip) 10 False 0 0 (-1) False False False
      in if prec \<noteq> 0 then out_num (out_c o2 0x2e) (unat fp) 10 False 0 0 prec False False False else o2)"

definition convert ::
  "('d \<Rightarrow> nat \<Rightarrow> bool \<times> u32 \<times> u32) \<Rightarrow> fspec \<Rightarrow> byte \<Rightarrow> 'd va list \<Rightarrow> out \<Rightarrow> (out \<times> 'd va list) option" where
  "convert dparts sp k args o' =
     (if k = 0x64 \<or> k = 0x69 then
        (if fs_lng sp \<ge> 2 then map_option (\<lambda>(w, a). (conv_signed sp (sint w) o', a)) (va_llong args)
         else map_option (\<lambda>(w, a). (conv_signed sp (sint w) o', a)) (va_int args))
      else if k = 0x75 \<or> k = 0x78 \<or> k = 0x58 \<or> k = 0x6f then
        (if fs_lng sp \<ge> 2 then map_option (\<lambda>(w, a). (conv_unsigned sp k (unat w) o', a)) (va_llong args)
         else map_option (\<lambda>(w, a). (conv_unsigned sp k (unat w) o', a)) (va_int args))
      else if k = 0x70 then
        map_option (\<lambda>(w, a). (out_num o' (unat w) 16 False 0 (fs_width sp) (fs_prec sp) (fs_left sp)
          (fs_zero sp) True, a)) (va_int args)
      else if k = 0x63 then
        map_option (\<lambda>(w, a). (out_str o' (\<lambda>_ _. ucast w) 1 (fs_width sp) (fs_left sp), a)) (va_int args)
      else if k = 0x73 then
        Option.bind (va_int args) (\<lambda>(w, a). map_option (\<lambda>o1. (o1, a)) (conv_string sp w o'))
      else if k = 0x66 \<or> k = 0x67 \<or> k = 0x65 then
        map_option (\<lambda>(d, a). (conv_float dparts sp d o', a)) (va_double args)
      else if k = 0x25 then Some (out_c o' 0x25, args)
      else Some (out_c (out_c o' 0x25) k, args))"

section \<open>The loop over the format\<close>

lemma length_parse_flags: "parse_flags sp cs = (sp', r) \<Longrightarrow> length r \<le> length cs"
  by (induction sp cs rule: parse_flags.induct) (auto split: if_splits)

lemma length_parse_int: "parse_int v cs = (v', r) \<Longrightarrow> length r \<le> length cs"
  by (induction v cs rule: parse_int.induct) (auto split: if_splits)

lemma length_parse_length: "parse_length sp cs = (sp', r) \<Longrightarrow> length r \<le> length cs"
  by (induction sp cs rule: parse_length.induct) (auto split: if_splits)

lemma length_parse_width: "parse_width sp cs args = Some (sp', r, a) \<Longrightarrow> length r \<le> length cs"
  by (auto simp: parse_width_def split: if_splits option.splits prod.splits dest: length_parse_int)

lemma length_parse_prec: "parse_prec sp cs args = Some (sp', r, a) \<Longrightarrow> length r \<le> length cs"
proof -
  have "length (tl (tl cs)) \<le> length cs" by simp
  moreover have "parse_int 0 (tl cs) = (v, r) \<Longrightarrow> length r \<le> length cs" for v
    using length_parse_int [of 0 "tl cs"] by fastforce
  ultimately show "parse_prec sp cs args = Some (sp', r, a) \<Longrightarrow> length r \<le> length cs"
    by (auto simp: parse_prec_def split: if_splits option.splits prod.splits)
qed

lemma length_parse_spec: "parse_spec cs args = Some (sp, r, a) \<Longrightarrow> length r \<le> length cs"
  by (auto simp: parse_spec_def split: option.splits prod.splits
      dest!: length_parse_flags length_parse_width length_parse_prec length_parse_length)

function printf_loop ::
  "('d \<Rightarrow> nat \<Rightarrow> bool \<times> u32 \<times> u32) \<Rightarrow> byte list \<Rightarrow> 'd va list \<Rightarrow> out \<Rightarrow> out option" where
  "printf_loop dparts [] args o' = Some o'"
| "printf_loop dparts (c # fmt) args o' =
     (if c \<noteq> 0x25 then printf_loop dparts fmt args (out_c o' c)
      else
        (case parse_spec fmt args of
           None \<Rightarrow> None
         | Some (sp, rest, args') \<Rightarrow>
             (case rest of
                [] \<Rightarrow> Some o'
              | k # rest' \<Rightarrow>
                  (case convert dparts sp k args' o' of
                     None \<Rightarrow> None
                   | Some (o1, args'') \<Rightarrow> printf_loop dparts rest' args'' o1))))"
  by pat_completeness auto
termination
  by (relation "measure (\<lambda>(dparts, fmt, args, o'). length fmt)") (auto dest!: length_parse_spec)

definition vsnprintf ::
  "('d \<Rightarrow> nat \<Rightarrow> bool \<times> u32 \<times> u32) \<Rightarrow> nat \<Rightarrow> nat \<Rightarrow> byte list \<Rightarrow> 'd va list \<Rightarrow> mem \<Rightarrow> (nat \<times> mem) option" where
  "vsnprintf dparts buf size' fmt args m =
     map_option (\<lambda>o'. (o_len o',
         if size' = 0 then o_mem o'
         else (o_mem o')(buf + (if o_len o' < size' then o_len o' else size' - 1) := 0)))
       (printf_loop dparts fmt args \<lparr>o_mem = m, o_buf = buf, o_size = size', o_len = 0\<rparr>)"

definition vsprintf ::
  "('d \<Rightarrow> nat \<Rightarrow> bool \<times> u32 \<times> u32) \<Rightarrow> nat \<Rightarrow> byte list \<Rightarrow> 'd va list \<Rightarrow> mem \<Rightarrow> (nat \<times> mem) option" where
  "vsprintf dparts buf fmt args m = vsnprintf dparts buf 0x7fffffff fmt args m"

section \<open>Everything the family writes is a piece of text\<close>

named_theorems emits \<open>an output function appends some text\<close>

definition emits_text :: "out \<Rightarrow> out \<Rightarrow> bool" where
  "emits_text o' o1 \<longleftrightarrow> (\<exists>cs. o1 = out_list o' cs)"

lemma out_list_simps [simp]:
  "out_list o' [] = o'" "out_list o' (c # cs) = out_list (out_c o' c) cs"
  "out_list o' (xs @ ys) = out_list (out_list o' xs) ys"
  by (simp_all add: out_list_def)

lemma emits_refl [emits]: "emits_text o' o'"
  unfolding emits_text_def by (rule exI [of _ "[]"]) simp

lemma emits_trans: "emits_text o' o1 \<Longrightarrow> emits_text o1 o2 \<Longrightarrow> emits_text o' o2"
  unfolding emits_text_def by (metis out_list_simps(3))

lemma emits_out_list [emits]: "emits_text o' (out_list o' cs)"
  unfolding emits_text_def by blast

lemma emits_out_c [emits]: "emits_text o' (out_c o' c)"
  using emits_out_list [of o' "[c]"] by simp

lemma out_pad_list: "out_pad o' c n = out_list o' (replicate n c)"
  by (induction n arbitrary: o') simp_all

lemma emits_out_chars [emits]: "emits_text o' (out_chars o' rd i n)"
  by (induction n arbitrary: o' i) (auto intro: emits_refl emits_trans [OF emits_out_c])

lemma emits_out_str [emits]: "emits_text o' (out_str o' rd len width left)"
proof -
  have "emits_text o1 (out_pad (out_chars o1 rd 0 (nat len)) c n)" for o1 c n
    unfolding out_pad_list by (rule emits_trans [OF emits_out_chars emits_out_list])
  moreover have "emits_text o' (out_chars (out_pad o' c n) rd 0 (nat len))" for c n
    unfolding out_pad_list by (rule emits_trans [OF emits_out_list emits_out_chars])
  ultimately show ?thesis by (simp add: out_str_def Let_def)
qed

text \<open>The text of a number.\<close>

definition num_text :: "nat \<Rightarrow> nat \<Rightarrow> bool \<Rightarrow> byte \<Rightarrow> int \<Rightarrow> int \<Rightarrow> bool \<Rightarrow> bool \<Rightarrow> bool \<Rightarrow> byte list" where
  "num_text v base upper sign width prec left zero alt =
     (let tmp = num_tmp v base upper prec alt;
          sg = (if sign \<noteq> 0 then [sign] else []);
          fill = nat (width - int (length (sg @ tmp)))
      in if left then sg @ rev tmp @ replicate fill 0x20
         else if zero \<and> prec < 0 then sg @ replicate fill 0x30 @ rev tmp
         else replicate fill 0x20 @ sg @ rev tmp)"

lemma out_num_text:
  "out_num o' v base upper sign width prec left zero alt
    = out_list o' (num_text v base upper sign width prec left zero alt)"
  by (cases left; cases "zero \<and> prec < 0"; cases "sign = 0")
    (auto simp: out_num_def num_text_def Let_def out_pad_list add.commute)

lemma emits_out_num [emits]: "emits_text o' (out_num o' v base upper sign width prec left zero alt)"
  unfolding out_num_text by (rule emits_out_list)

lemma emits_conv_float [emits]: "emits_text o' (conv_float dparts sp d o')"
proof -
  obtain neg ip fp where p: "dparts d (nat (if (if fs_prec sp < 0 then 6 else fs_prec sp) > 9 then 9
      else (if fs_prec sp < 0 then 6 else fs_prec sp))) = (neg, ip, fp)" by (rule prod_cases3)
  have two: "emits_text o1 (out_num (out_c (out_num o1 a b u s w p l z t) c) a' b' u' s' w' p' l' z' t')"
    for o1 a b u s w p l z t c a' b' u' s' w' p' l' z' t'
    by (rule emits_trans [OF emits_out_num], rule emits_trans [OF emits_out_c], rule emits_out_num)
  then show ?thesis
    unfolding conv_float_def Let_def p
    by (auto intro: two emits_out_num emits_trans [OF emits_out_c two] emits_trans [OF emits_out_c emits_out_num])
qed

lemma emits_convert: "convert dparts sp k args o' = Some (o1, args') \<Longrightarrow> emits_text o' o1"
  by (auto simp: convert_def conv_string_def conv_signed_def conv_unsigned_def Let_def bind_eq_Some_conv
      split: if_splits intro: emits emits_trans [OF emits_out_c])

lemma emits_printf_loop: "printf_loop dparts fmt args o' = Some o1 \<Longrightarrow> emits_text o' o1"
proof (induction dparts fmt args o' rule: printf_loop.induct)
  case (2 dparts c fmt args o')
  show ?case
  proof (cases "c = 0x25")
    case False
    then show ?thesis using 2 emits_trans [OF emits_out_c] by simp
  next
    case True
    then consider sp a where "parse_spec fmt args = Some (sp, [], a)" "o1 = o'"
      | sp k rest a o2 a2 where "parse_spec fmt args = Some (sp, k # rest, a)"
        "convert dparts sp k a o' = Some (o2, a2)" "printf_loop dparts rest a2 o2 = Some o1"
      using 2(3) by (auto split: option.splits list.splits)
    then show ?thesis
    proof cases
      case 1
      then show ?thesis using emits_refl by simp
    next
      case b: 2
      then have "emits_text o2 o1" using 2(2) [of _ sp "(k # rest, a)"] True by blast
      then show ?thesis by (rule emits_trans [OF emits_convert [OF b(2)]])
    qed
  qed
qed (auto intro: emits_refl)

lemma out_list_fields:
  "out_list o' cs = o'\<lparr>o_mem := store (o_buf o' + o_len o') (take (o_size o' - 1 - o_len o') cs) (o_mem o'),
     o_len := o_len o' + length cs\<rparr>"
proof (induction cs arbitrary: o')
  case Nil
  then show ?case by simp
next
  case (Cons c cs)
  let ?p = "o_buf o' + o_len o'"
  show ?case
  proof (cases "o_len o' + 1 < o_size o'")
    case True
    then obtain k where k: "o_size o' - 1 - o_len o' = Suc k" "o_size o' - 1 - (o_len o' + 1) = k"
      by (metis Suc_diff_Suc add.commute add_diff_cancel_left' diff_diff_left less_diff_conv plus_1_eq_Suc)
    have "store (?p + 1) (take k cs) ((o_mem o')(?p := c)) = store ?p (c # take k cs) (o_mem o')"
      by (simp only: store_Cons)
    then show ?thesis using True k by (simp add: Cons.IH out_c_def del: fun_upd_apply)
  next
    case False
    then show ?thesis by (simp add: Cons.IH out_c_def)
  qed
qed



section \<open>The digits of a number\<close>

lemma length_num_digits: "v < base ^ k \<Longrightarrow> 0 < k \<Longrightarrow> 1 < base \<Longrightarrow> length (num_digits upper base v) \<le> k"
proof (induction k arbitrary: v)
  case (Suc k)
  show ?case
  proof (cases "v div base = 0")
    case True
    then show ?thesis by (subst num_digits.simps) simp
  next
    case False
    then have "v div base < base ^ k" using Suc.prems by (simp add: less_mult_imp_div_less mult.commute)
    moreover from this False have "0 < k" by (cases k) auto
    ultimately have "length (num_digits upper base (v div base)) \<le> k" using Suc by blast
    then show ?thesis by (subst num_digits.simps) simp
  qed
qed simp

text \<open>
  The digit buffer \<open>tmp[32]\<close> of \<open>out_num\<close> never overflows, for any value of 64 bits, any
  precision and the three bases, the \<open>0x\<close> prefix included.
\<close>

theorem out_num_tmp_fits:
  assumes "v < 2 ^ 64" and "base \<in> {8, 10, 16}"
  shows "length (num_tmp v base upper prec alt) \<le> 32"
proof -
  have "(2 :: nat) ^ 64 \<le> base ^ 22" using assms(2) by auto
  then have "length (num_digits upper base v) \<le> 22"
    using assms by (intro length_num_digits) auto
  then show ?thesis by (auto simp: num_tmp_def Let_def)
qed

theorem out_num_tmp_fits_witness: "length (num_tmp 0xffffffffffffffff 8 False 100 True) \<le> 32"
  by (rule out_num_tmp_fits) simp_all

lemma digit_val_char: "d < 10 \<Longrightarrow> digit_val (digit_chars upper ! d) = Some (int d) \<and> isdigit (chr (digit_chars upper ! d))"
proof -
  assume "d < 10"
  then have "d \<in> {0, 1, 2, 3, 4, 5, 6, 7, 8, 9}" by auto
  then show ?thesis by (auto simp: digit_chars_def digit_val_def isdigit_def)
qed

lemma digits_int_append: "digits_int b (cs @ [c]) = digits_int b cs * b + the (digit_val c)"
  by (simp add: digits_int_def)

lemma num_digits_value:
  "digits_int 10 (rev (num_digits upper 10 v)) = int v \<and> (\<forall>c \<in> set (num_digits upper 10 v). isdigit (chr c))"
proof (induction v rule: less_induct)
  case (less v)
  have d: "digit_val (digit_chars upper ! (v mod 10)) = Some (int (v mod 10))"
    "isdigit (chr (digit_chars upper ! (v mod 10)))"
    using digit_val_char [of "v mod 10"] by auto
  show ?case
  proof (cases "v div 10 = 0")
    case True
    then have "num_digits upper 10 v = [digit_chars upper ! (v mod 10)]" by (subst num_digits.simps) simp
    then show ?thesis using d True by (simp add: digits_int_def)
  next
    case False
    then have e: "num_digits upper 10 v = digit_chars upper ! (v mod 10) # num_digits upper 10 (v div 10)"
      by (subst num_digits.simps) simp
    have "v div 10 < v" using False by (intro div_less_dividend) (auto intro: gr0I)
    then have ih: "digits_int 10 (rev (num_digits upper 10 (v div 10))) = int (v div 10)"
      "\<forall>c \<in> set (num_digits upper 10 (v div 10)). isdigit (chr c)"
      using less by blast+
    have "int (v div 10) * 10 + int (v mod 10) = int v"
      by (metis div_mult_mod_eq of_nat_add of_nat_mult of_nat_numeral)
    then show ?thesis using d ih by (simp add: e digits_int_append)
  qed
qed

lemma num_digits_ne: "num_digits upper base v \<noteq> []"
  by (subst num_digits.simps) simp

lemma printf_d_text:
  assumes "vsnprintf dparts buf sz [0x25, 0x64] [V32 w] m = Some (r, m')" and "12 \<le> sz"
  shows "\<exists>sg ds. bytes_at m' buf (sg @ ds) \<and> m' (buf + length (sg @ ds)) = 0 \<and> sg \<in> {[], [0x2d]} \<and> ds \<noteq> []
    \<and> (\<forall>c \<in> set ds. isdigit (chr c))
    \<and> sint w = (if sg = [0x2d] then - digits_int 10 ds else digits_int 10 ds)"
proof -
  define sg where "sg = (if sint w < 0 then [0x2d :: byte] else [])"
  define ds where "ds = rev (num_digits False 10 (nat \<bar>sint w\<bar>))"
  have spec: "parse_spec [0x64] [V32 w] = Some (fspec0, [0x64], [V32 w])"
    by (simp add: parse_spec_def parse_width_def parse_prec_def fspec0_def isdigit_def)
  have shape: "num_text (nat \<bar>sint w\<bar>) 10 False (if sint w < 0 then 0x2d else 0) 0 (-1) False False False = sg @ ds"
    by (simp add: num_text_def num_tmp_def sg_def ds_def Let_def)
  have range: "- 0x80000000 \<le> sint w" "sint w < 0x80000000"
    using sint_ge [of w] sint_lt [of w] by simp_all
  then have "nat \<bar>sint w\<bar> \<le> 0x80000000" by linarith
  then have "nat \<bar>sint w\<bar> < 10 ^ 10" by (rule order.strict_trans1) simp
  then have "length ds \<le> 10"
    unfolding ds_def length_rev by (rule length_num_digits) simp_all
  moreover have "length sg \<le> 1" by (simp add: sg_def)
  ultimately have len: "length (sg @ ds) \<le> 11" by simp
  have "conv_signed fspec0 (sint w) ob = out_list ob (sg @ ds)" for ob
    unfolding conv_signed_def out_num_text shape [symmetric] by (simp add: fspec0_def)
  then have loop: "printf_loop dparts [0x25, 0x64] [V32 w] ob = Some (out_list ob (sg @ ds))" for ob
    by (simp add: spec convert_def) (simp add: fspec0_def)
  define t where "t = sg @ ds"
  have tk: "take (sz - 1) t = t" "length t < sz" using len assms(2) by (simp_all add: t_def)
  let ?o = "\<lparr>o_mem = m, o_buf = buf, o_size = sz, o_len = 0\<rparr>"
  have "out_list ?o t = ?o\<lparr>o_mem := store buf t m, o_len := length t\<rparr>"
    unfolding out_list_fields using tk(1) by simp
  then have "m' = (store buf t m)(buf + length t := 0)"
    using assms(1) tk(2) loop unfolding vsnprintf_def t_def [symmetric] by auto
  then have m': "m' = store buf (sg @ ds @ [0]) m"
    by (intro ext) (auto simp: store_def nth_append t_def)
  have at: "bytes_at m' buf (sg @ ds)" "m' (buf + length (sg @ ds)) = 0"
    by (auto simp: bytes_at_def m' store_def nth_append)
  have "ds \<noteq> []" by (simp add: ds_def num_digits_ne)
  moreover have "\<forall>c \<in> set ds. isdigit (chr c)" using num_digits_value by (simp add: ds_def)
  moreover have "sint w = (if sg = [0x2d] then - digits_int 10 ds else digits_int 10 ds)"
    using num_digits_value [of False "nat \<bar>sint w\<bar>"] by (simp add: ds_def sg_def)
  moreover have "sg \<in> {[], [0x2d]}" by (simp add: sg_def)
  ultimately show ?thesis using at by blast
qed

text \<open>
  Printing an \<open>int\<close> with \<open>%d\<close> into a buffer that is large enough and reading it back with
  \<open>atoi\<close> gives the same \<open>int\<close>, the most negative one included.
\<close>

theorem printf_atoi_roundtrip:
  assumes "vsnprintf dparts buf sz [0x25, 0x64] [V32 w] m = Some (r, m')" and "12 \<le> sz"
  shows "atoi buf m' = Some (sint w)"
proof -
  obtain sg ds where t: "bytes_at m' buf (sg @ ds)" "m' (buf + length (sg @ ds)) = 0" "sg \<in> {[], [0x2d]}"
    "ds \<noteq> []" "\<forall>c \<in> set ds. isdigit (chr c)"
    "sint w = (if sg = [0x2d] then - digits_int 10 ds else digits_int 10 ds)"
    using printf_d_text [OF assms] by blast
  show ?thesis
  proof (rule atoi_run [of m' buf "[]" sg ds])
    show "\<not> isdigit (chr (m' (buf + length ([] @ sg @ ds))))" using t(2) by (simp add: isdigit_def)
    show "- 0x80000000 \<le> sint w" "sint w < 0x80000000" using sint_ge [of w] sint_lt [of w] by simp_all
  qed (use t in auto)
qed

lemma vsnprintf_d_returns: "\<exists>r m'. vsnprintf dparts buf sz [0x25, 0x64] [V32 w] m = Some (r, m')"
  by (simp add: vsnprintf_def parse_spec_def parse_width_def parse_prec_def fspec0_def isdigit_def convert_def)

theorem printf_atoi_roundtrip_witness:
  "\<exists>r m'. vsnprintf (\<lambda>(d :: unit) n. (False, 0, 0)) 100 16 [0x25, 0x64] [V32 0x80000000] ex_mem = Some (r, m')
     \<and> atoi 100 m' = Some (- 0x80000000)"
proof -
  obtain r m' where m': "vsnprintf (\<lambda>(d :: unit) n. (False, 0, 0)) 100 16 [0x25, 0x64] [V32 0x80000000] ex_mem
      = Some (r, m')"
    using vsnprintf_d_returns by blast
  then have "atoi 100 m' = Some (sint (0x80000000 :: u32))" by (rule printf_atoi_roundtrip) simp
  then show ?thesis using m' by simp
qed

end
