(* ===== verification/LibcScan.thy ===== *)
theory LibcScan
  imports LibcPrintf
begin

text \<open>
  \<open>sscanf\<close> of \<open>sdk/libc/libc.c\<close>: the input is a string in memory, the arguments are the
  addresses of the results. A missing argument is undefined and an input without NUL makes a loop
  run on: both are \<open>None\<close>.
\<close>

fun scan_length :: "byte list \<Rightarrow> byte list" where
  "scan_length [] = []"
| "scan_length (c # cs) = (if c = 0x6c \<or> c = 0x68 then scan_length cs else c # cs)"

definition is_int_conv :: "byte \<Rightarrow> bool" where
  "is_int_conv k \<longleftrightarrow> k \<in> {0x64, 0x69, 0x75, 0x78, 0x58, 0x6f}"

definition conv_base :: "byte \<Rightarrow> int" where
  "conv_base k = (if k = 0x78 \<or> k = 0x58 then 16 else if k = 0x6f then 8 else if k = 0x69 then 0 else 10)"

text \<open>The loop of \<open>%s\<close>: the number of characters stored and the place after them.\<close>

partial_function (option) scan_word :: "nat \<Rightarrow> nat \<Rightarrow> int \<Rightarrow> nat \<Rightarrow> mem \<Rightarrow> (nat \<times> nat \<times> mem) option" where
  "scan_word d s width n m =
     (if m s \<noteq> 0 \<and> \<not> isspace (chr (m s)) \<and> (width = 0 \<or> int n < width)
      then scan_word d (s + 1) width (n + 1) (m(d + n := m s))
      else Some (n, s, m))"

text \<open>One conversion: \<open>Some None\<close> is the \<open>break\<close>, else the place in the input, whether an
  argument was filled, and the memory.\<close>

definition scan_conv ::
  "byte \<Rightarrow> int \<Rightarrow> nat list \<Rightarrow> nat \<Rightarrow> mem \<Rightarrow> (nat \<times> bool \<times> nat list \<times> mem) option option" where
  "scan_conv k width args s m =
     (if is_int_conv k then
        Option.bind (strtoul s (conv_base k) m) (\<lambda>(v, e).
          if e = s then Some None
          else (case args of [] \<Rightarrow> None | d # args' \<Rightarrow> Some (Some (e, True, args', store4 d v m))))
      else if k = 0x73 then
        (if m s = 0 then (case args of [] \<Rightarrow> None | _ \<Rightarrow> Some None)
         else
           (case args of
              [] \<Rightarrow> None
            | d # args' \<Rightarrow>
                map_option (\<lambda>(n, e, m'). Some (e, True, args', m'(d + n := 0))) (scan_word d s width 0 m)))
      else if k = 0x63 then
        (if m s = 0 then Some None
         else (case args of [] \<Rightarrow> None | d # args' \<Rightarrow> Some (Some (s + 1, True, args', m(d := m s)))))
      else if k = 0x25 then (if m s \<noteq> 0x25 then Some None else Some (Some (s + 1, False, args, m)))
      else Some None)"

lemma length_scan_length: "length (scan_length cs) \<le> length cs"
  by (induction cs) auto

lemma scan_rest_less: "(w, f1) = parse_int 0 fmt \<Longrightarrow> k # rest = scan_length f1 \<Longrightarrow> length rest < Suc (length fmt)"
  using length_parse_int [of 0 fmt w f1] length_scan_length [of f1] by (metis length_Cons less_Suc_eq_le order.trans Suc_leD)

function sscanf_loop :: "byte list \<Rightarrow> nat list \<Rightarrow> nat \<Rightarrow> nat \<Rightarrow> mem \<Rightarrow> (nat \<times> mem) option" where
  "sscanf_loop [] args s cnt m = Some (cnt, m)"
| "sscanf_loop (c # fmt) args s cnt m =
     (if isspace (chr c) then
        Option.bind (skip_space s m) (\<lambda>s'. sscanf_loop fmt args s' cnt m)
      else if c \<noteq> 0x25 then
        (if m s \<noteq> c then Some (cnt, m) else sscanf_loop fmt args (s + 1) cnt m)
      else
        (let (width, f1) = parse_int 0 fmt;
             f2 = scan_length f1
         in case f2 of
              [] \<Rightarrow> map_option (\<lambda>_. (cnt, m)) (skip_space s m)
            | k # rest \<Rightarrow>
                (case (if k \<noteq> 0x63 then skip_space s m else Some s) of
                   None \<Rightarrow> None
                 | Some s1 \<Rightarrow>
                     (case scan_conv k width args s1 m of
                        None \<Rightarrow> None
                      | Some None \<Rightarrow> Some (cnt, m)
                      | Some (Some (s2, filled, args', m')) \<Rightarrow>
                          sscanf_loop rest args' s2 (if filled then cnt + 1 else cnt) m'))))"
  by pat_completeness auto
termination
  by (relation "measure (\<lambda>(fmt, args, s, cnt, m). length fmt)")
    (auto intro: scan_rest_less)

definition sscanf :: "nat \<Rightarrow> byte list \<Rightarrow> nat list \<Rightarrow> mem \<Rightarrow> (nat \<times> mem) option" where
  "sscanf s fmt args m = sscanf_loop fmt args s 0 m"

declare sscanf_loop.simps [simp del]

section \<open>Reading back what was printed\<close>

definition load4 :: "mem \<Rightarrow> nat \<Rightarrow> u32" where
  "load4 m p = ucast (m p) OR push_bit 8 (ucast (m (p + 1))) OR push_bit 16 (ucast (m (p + 2)))
     OR push_bit 24 (ucast (m (p + 3)))"

lemma load4_store4 [simp]: "load4 (store4 p w m) p = w"
  unfolding load4_def store4_def
proof (rule bit_word_eqI, goal_cases)
  case (1 n)
  then consider "n < 8" | "8 \<le> n" "n < 16" | "16 \<le> n" "n < 24" | "24 \<le> n" "n < 32" by fastforce
  then show ?case by cases (auto simp: bit_simps)
qed

text \<open>
  \<open>sscanf\<close> with \<open>%d\<close> on what \<open>snprintf\<close> printed with \<open>%d\<close> fills the one argument
  with the printed \<open>int\<close>.
\<close>

theorem printf_sscanf_roundtrip:
  assumes "vsnprintf dparts buf sz [0x25, 0x64] [V32 w] m = Some (r, m')" and "12 \<le> sz"
  shows "\<exists>m2. sscanf buf [0x25, 0x64] [d] m' = Some (1, m2) \<and> load4 m2 d = w"
proof -
  obtain sg ds where t: "bytes_at m' buf (sg @ ds)" "m' (buf + length (sg @ ds)) = 0" "sg \<in> {[], [0x2d]}"
    "ds \<noteq> []" "\<forall>c \<in> set ds. isdigit (chr c)"
    "sint w = (if sg = [0x2d] then - digits_int 10 ds else digits_int 10 ds)"
    using printf_d_text [OF assms] by blast
  have d10: "digit_in 10 c \<longleftrightarrow> isdigit (chr c)" for c
    by (auto simp: digit_in_def digit_val_def Let_def isdigit_def isalpha_def isupper_def islower_def tolower_def)
  have "strtoul buf 10 m' = Some (of_int (if sg = [0x2d] then - digits_int 10 ds else digits_int 10 ds),
      buf + length ([] @ sg @ ds))"
  proof (rule strtoul_run)
    show "bytes_at m' buf ([] @ sg @ ds)" using t(1) by simp
    show "sg \<in> {[], [0x2b], [0x2d]}" using t(3) by blast
    show "\<forall>c \<in> set ds. digit_in 10 c" using t(5) d10 by blast
    show "\<not> digit_in 10 (m' (buf + length ([] @ sg @ ds)))" using t(2) unfolding d10 by (simp add: isdigit_def)
  qed (use t(4) in \<open>simp_all add: number_base_def\<close>)
  then have st: "strtoul buf 10 m' = Some (w, buf + length (sg @ ds))"
    unfolding t(6) [symmetric] by simp
  have hd: "m' buf = hd (sg @ ds)" using t(1,4) by (cases "sg @ ds") auto
  moreover have "hd (sg @ ds) = 0x2d \<or> isdigit (chr (hd (sg @ ds)))"
    using t(3,4,5) by (cases ds) auto
  ultimately have "\<not> isspace (chr (m' buf))" by (auto simp: isspace_def isdigit_def)
  then have sk: "skip_space buf m' = Some buf" by (simp add: skip_space.simps)
  have "length (sg @ ds) \<noteq> 0" using t(4) by simp
  then have "sscanf buf [0x25, 0x64] [d] m' = Some (1, store4 d w m')"
    using sk st by (simp add: sscanf_def sscanf_loop.simps isspace_def isdigit_def scan_conv_def is_int_conv_def conv_base_def)
  then show ?thesis by simp
qed

theorem printf_sscanf_roundtrip_witness:
  "\<exists>r m' m2. vsnprintf (\<lambda>(d :: unit) n. (False, 0, 0)) 100 16 [0x25, 0x64] [V32 (- 7)] ex_mem = Some (r, m')
     \<and> sscanf 100 [0x25, 0x64] [200] m' = Some (1, m2) \<and> load4 m2 200 = - 7"
proof -
  obtain r m' where m': "vsnprintf (\<lambda>(d :: unit) n. (False, 0, 0)) 100 16 [0x25, 0x64] [V32 (- 7)] ex_mem
      = Some (r, m')"
    using vsnprintf_d_returns by blast
  then have "\<exists>m2. sscanf 100 [0x25, 0x64] [200] m' = Some (1, m2) \<and> load4 m2 200 = - 7"
    by (rule printf_sscanf_roundtrip) simp
  then show ?thesis using m' by blast
qed

end
