(* ===== verification/LibcFile.thy ===== *)
theory LibcFile
  imports LibcHeap LibcNum
begin

text \<open>
  Files of \<open>sdk/libc/libc.c\<close>: read-only, held whole in memory. An open file is the record of
  its \<open>FILE\<close> structure; \<open>long\<close> values are integers of 32 bits. The files loaded once stay in a
  cache of eight. The loader \<open>sdk_load_file\<close> of the runtime and the console are parameters and
  state: the loader acts on a world of arbitrary type, the console is the list of bytes sent.
\<close>

section \<open>State\<close>

record cfile =
  c_data :: nat
  c_size :: int
  c_pos :: int
  c_console :: bool
  c_eof :: bool
  c_err :: bool

datatype errno = E_none | ENOENT | ENOMEM | EROFS

record 'w libc =
  l_world :: 'w
  l_heap :: heap
  l_mem :: mem
  l_cache :: "(byte list \<times> nat \<times> int) list"
  l_errno :: errno
  l_console :: "byte list"

definition MAX_CACHED :: nat where "MAX_CACHED = 8"
definition FILE_SIZE :: nat where "FILE_SIZE = 24"

definition con_out :: cfile where
  "con_out = \<lparr>c_data = 0, c_size = 0, c_pos = 0, c_console = True, c_eof = False, c_err = False\<rparr>"

definition con_in :: cfile where
  "con_in = \<lparr>c_data = 0, c_size = 0, c_pos = 0, c_console = True, c_eof = True, c_err = False\<rparr>"

definition no_file :: "byte list \<times> nat \<times> int" where
  "no_file = ([], 0, 0)"

definition sdk_libc_reset :: "'w libc \<Rightarrow> 'w libc" where
  "sdk_libc_reset l = l\<lparr>l_heap := heap_reset (l_heap l), l_cache := replicate MAX_CACHED no_file,
     l_errno := E_none\<rparr>"

section \<open>Opening and closing\<close>

text \<open>Names are byte lists here; \<open>str_case_eq\<close> is \<open>strcasecmp (a, b) == 0\<close> on them.\<close>

definition str_case_eq :: "byte list \<Rightarrow> byte list \<Rightarrow> bool" where
  "str_case_eq a b \<longleftrightarrow> map (\<lambda>c. tolower (chr c)) a = map (\<lambda>c. tolower (chr c)) b"

fun skip_dots :: "byte list \<Rightarrow> byte list" where
  "skip_dots (a # b # cs) = (if a = 0x2e \<and> b = 0x2f then skip_dots cs else a # b # cs)"
| "skip_dots cs = cs"

definition write_mode :: "byte list \<Rightarrow> bool" where
  "write_mode mode \<longleftrightarrow> 0x77 \<in> set mode \<or> 0x61 \<in> set mode \<or> 0x2b \<in> set mode"

definition cache_find :: "byte list \<Rightarrow> (byte list \<times> nat \<times> int) list \<Rightarrow> (nat \<times> int) option" where
  "cache_find name cache =
     map_option snd (find (\<lambda>(n, data, size'). data \<noteq> 0 \<and> str_case_eq n name) cache)"

text \<open>The first free slot of the cache takes the file, its name cut to 127 characters.\<close>

fun cache_add :: "byte list \<Rightarrow> nat \<Rightarrow> int \<Rightarrow> (byte list \<times> nat \<times> int) list \<Rightarrow> (byte list \<times> nat \<times> int) list" where
  "cache_add name data sz [] = []"
| "cache_add name data sz ((n, d, k) # cs) =
     (if d = 0 then (take 127 name, data, sz) # cs else (n, d, k) # cache_add name data sz cs)"

definition open_struct :: "nat \<Rightarrow> int \<Rightarrow> 'w libc \<Rightarrow> (nat \<times> cfile) option \<times> 'w libc" where
  "open_struct data sz l =
     (case calloc 1 FILE_SIZE (l_heap l) (l_mem l) of
        (None, h, m) \<Rightarrow> (None, l\<lparr>l_heap := h, l_mem := m, l_errno := ENOMEM\<rparr>)
      | (Some p, h, m) \<Rightarrow>
          (Some (p, \<lparr>c_data = data, c_size = sz, c_pos = 0, c_console = False, c_eof = False, c_err = False\<rparr>),
           l\<lparr>l_heap := h, l_mem := m\<rparr>))"

definition fopen ::
  "(byte list \<Rightarrow> 'w libc \<Rightarrow> (nat \<times> int) option \<times> 'w libc) \<Rightarrow> byte list \<Rightarrow> byte list \<Rightarrow> 'w libc
    \<Rightarrow> (nat \<times> cfile) option \<times> 'w libc" where
  "fopen load path mode l =
     (if write_mode mode then (None, l\<lparr>l_errno := EROFS\<rparr>)
      else
        (let name = skip_dots path
         in case cache_find name (l_cache l) of
              Some (data, sz) \<Rightarrow> open_struct data sz l
            | None \<Rightarrow>
                (case load name l of
                   (None, l1) \<Rightarrow> (None, l1\<lparr>l_errno := ENOENT\<rparr>)
                 | (Some (data, sz), l1) \<Rightarrow>
                     open_struct data sz (l1\<lparr>l_cache := cache_add name data sz (l_cache l1)\<rparr>))))"

definition fclose :: "(nat \<times> cfile) option \<Rightarrow> 'w libc \<Rightarrow> 'w libc option" where
  "fclose f l =
     (case f of
        None \<Rightarrow> Some l
      | Some (p, c) \<Rightarrow>
          if c_console c then Some l else map_option (\<lambda>h. l\<lparr>l_heap := h\<rparr>) (heap_free (Some p) (l_heap l)))"

section \<open>Reading\<close>

definition to_size :: "int \<Rightarrow> nat" where
  "to_size x = nat (x mod 2 ^ 32)"

definition to_long :: "int \<Rightarrow> int" where
  "to_long x = sint (of_int x :: u32)"

definition fread :: "nat \<Rightarrow> nat \<Rightarrow> nat \<Rightarrow> cfile \<Rightarrow> mem \<Rightarrow> nat \<times> cfile \<times> mem" where
  "fread ptr sz n f m =
     (if c_console f \<or> sz = 0 then (0, f, m)
      else
        (let want0 = to_long (int (mul32 sz n));
             left = c_size f - c_pos f;
             short = want0 > left;
             want = (if short then to_long (left - int (to_size left mod sz)) else want0);
             m' = memcpy ptr (c_data f + nat (c_pos f)) (to_size want) m
         in (to_size want div sz, f\<lparr>c_eof := (c_eof f \<or> short), c_pos := c_pos f + want\<rparr>, m')))"

datatype whence = SEEK_SET | SEEK_CUR | SEEK_END

definition fseek :: "cfile \<Rightarrow> int \<Rightarrow> whence \<Rightarrow> int \<times> cfile" where
  "fseek f off w =
     (let base = (case w of SEEK_SET \<Rightarrow> 0 | SEEK_CUR \<Rightarrow> c_pos f | SEEK_END \<Rightarrow> c_size f)
      in if c_console f \<or> base + off < 0 \<or> base + off > c_size f then (-1, f)
         else (0, f\<lparr>c_pos := base + off, c_eof := False\<rparr>))"

text \<open>\<open>fgetc\<close>: \<open>None\<close> is \<open>EOF\<close>.\<close>

definition fgetc :: "cfile \<Rightarrow> mem \<Rightarrow> byte option \<times> cfile" where
  "fgetc f m =
     (if c_console f \<or> c_pos f \<ge> c_size f then (None, f\<lparr>c_eof := True\<rparr>)
      else (Some (m (c_data f + nat (c_pos f))), f\<lparr>c_pos := c_pos f + 1\<rparr>))"

text \<open>The loop of \<open>fgets\<close>: \<open>k\<close> characters may still be stored. Returns how many were, and whether
  it ended on \<open>EOF\<close>.\<close>

fun fgets_loop :: "nat \<Rightarrow> nat \<Rightarrow> nat \<Rightarrow> cfile \<Rightarrow> mem \<Rightarrow> nat \<times> bool \<times> cfile \<times> mem" where
  "fgets_loop s i 0 f m = (i, False, f, m)"
| "fgets_loop s i (Suc k) f m =
     (case fgetc f m of
        (None, f1) \<Rightarrow> (i, True, f1, m)
      | (Some c, f1) \<Rightarrow>
          (let m1 = m(s + i := c)
           in if c = 0x0a then (i + 1, False, f1, m1) else fgets_loop s (i + 1) k f1 m1))"

definition fgets :: "nat \<Rightarrow> int \<Rightarrow> cfile \<Rightarrow> mem \<Rightarrow> nat option \<times> cfile \<times> mem" where
  "fgets s n f m =
     (let (i, ended, f1, m1) = fgets_loop s 0 (nat (n - 1)) f m
      in if i = 0 \<and> ended then (None, f1, m1) else (Some s, f1, m1(s + i := 0)))"

section \<open>The console\<close>

fun con_text :: "byte list \<Rightarrow> byte list" where
  "con_text [] = []"
| "con_text (c # cs) = (if c = 0x0a then [0x0d, c] else [c]) @ con_text cs"

definition con_write :: "byte list \<Rightarrow> 'w libc \<Rightarrow> 'w libc" where
  "con_write cs l = l\<lparr>l_console := l_console l @ con_text cs\<rparr>"

definition fwrite :: "nat \<Rightarrow> nat \<Rightarrow> nat \<Rightarrow> cfile \<Rightarrow> 'w libc \<Rightarrow> nat \<times> 'w libc" where
  "fwrite ptr sz n f l =
     (if c_console f then (n, con_write (map (\<lambda>i. l_mem l (ptr + i)) [0..<mul32 sz n]) l) else (0, l))"

definition fputc :: "byte \<Rightarrow> cfile \<Rightarrow> 'w libc \<Rightarrow> 'w libc" where
  "fputc c f l = (if c_console f then con_write [c] l else l)"

definition fputs :: "nat \<Rightarrow> cfile \<Rightarrow> 'w libc \<Rightarrow> 'w libc option" where
  "fputs s f l = map_option (\<lambda>n. snd (fwrite s 1 n f l)) (strlen s (l_mem l))"

definition puts :: "nat \<Rightarrow> 'w libc \<Rightarrow> 'w libc option" where
  "puts s l = map_option (fputc 0x0a con_out) (fputs s con_out l)"

text \<open>\<open>access\<close> and \<open>stat\<close>: a file exists when it can be opened; \<open>W_OK\<close> never holds.\<close>

definition access ::
  "(byte list \<Rightarrow> 'w libc \<Rightarrow> (nat \<times> int) option \<times> 'w libc) \<Rightarrow> byte list \<Rightarrow> bool \<Rightarrow> 'w libc
    \<Rightarrow> (int \<times> 'w libc) option" where
  "access load path w_ok l =
     (if w_ok then Some (-1, l)
      else (case fopen load path [0x72, 0x62] l of
              (None, l1) \<Rightarrow> Some (-1, l1)
            | (Some f, l1) \<Rightarrow> map_option (\<lambda>l2. (0, l2)) (fclose (Some f) l1)))"

definition stat_size ::
  "(byte list \<Rightarrow> 'w libc \<Rightarrow> (nat \<times> int) option \<times> 'w libc) \<Rightarrow> byte list \<Rightarrow> 'w libc
    \<Rightarrow> (int option \<times> 'w libc) option" where
  "stat_size load path l =
     (case fopen load path [0x72, 0x62] l of
        (None, l1) \<Rightarrow> Some (None, l1)
      | (Some f, l1) \<Rightarrow> map_option (\<lambda>l2. (Some (c_size (snd f)), l2)) (fclose (Some f) l1))"

section \<open>Reading stays inside the file\<close>

definition cfile_ok :: "cfile \<Rightarrow> bool" where
  "cfile_ok f \<longleftrightarrow> 0 \<le> c_pos f \<and> c_pos f \<le> c_size f \<and> c_size f < 2 ^ 31"

lemma to_long_id: "- 0x80000000 \<le> x \<Longrightarrow> x < 0x80000000 \<Longrightarrow> to_long x = x"
  unfolding to_long_def by (simp add: sint_sbintrunc' signed_take_bit_int_eq_self)

lemma to_size_id: "0 \<le> x \<Longrightarrow> x < 2 ^ 32 \<Longrightarrow> to_size x = nat x"
  by (simp add: to_size_def)

text \<open>
  \<open>fread\<close> of \<open>n\<close> elements returns the number of whole elements that are left, at most \<open>n\<close>,
  has stored exactly their bytes at the destination, in file order, moved the position behind
  them and set the end-of-file flag when it delivered fewer than asked for.
\<close>

theorem fread_elements:
  assumes "cfile_ok f" and "\<not> c_console f" and "0 < sz" and "sz * n < 2 ^ 31"
    and "ptr \<le> c_data f + nat (c_pos f) \<or> c_data f + nat (c_pos f) + sz * n \<le> ptr"
  shows "\<exists>f' m'. fread ptr sz n f m = (min n (nat (c_size f - c_pos f) div sz), f', m')
    \<and> (let k = min n (nat (c_size f - c_pos f) div sz) * sz
       in m' = blit ptr (c_data f + nat (c_pos f)) k m \<and> c_pos f' = c_pos f + int k \<and> cfile_ok f'
          \<and> c_eof f' = (c_eof f \<or> c_size f - c_pos f < int (sz * n)))"
proof -
  define left where "left = nat (c_size f - c_pos f)"
  have left: "c_size f - c_pos f = int left" "int left < 2 ^ 31" using assms(1) by (auto simp: cfile_ok_def left_def)
  have "mul32 sz n = sz * n" using assms(4) by (simp add: u32_simps)
  then have want0: "to_long (int (mul32 sz n)) = int (sz * n)"
    using assms(4) by (simp add: to_long_id del: of_nat_mult)
  let ?k = "min n (left div sz) * sz"
  have want: "(if int (sz * n) > int left then to_long (int left - int (to_size (int left) mod sz)) else int (sz * n)) = int ?k"
  proof (cases "sz * n > left")
    case True
    have "to_size (int left) = left" using left by (simp add: to_size_id)
    moreover have "left - left mod sz = left div sz * sz" by (metis minus_mod_eq_div_mult)
    moreover have "left div sz < n" using True assms(3) by (simp add: less_mult_imp_div_less mult.commute)
    moreover have "int left - int (left mod sz) = int (left - left mod sz)" by (simp add: of_nat_diff)
    moreover have "to_long (int (left div sz * sz)) = int (left div sz * sz)"
    proof (rule to_long_id)
      have "int (left div sz * sz) \<le> int left" by (simp only: of_nat_le_iff div_times_less_eq_dividend)
      then show "int (left div sz * sz) < 0x80000000" using left(2) by simp
      show "- 0x80000000 \<le> int (left div sz * sz)" by (rule order.trans [of _ 0]) simp_all
    qed
    ultimately show ?thesis using True by (simp del: of_nat_mult)
  next
    case False
    then have "n \<le> left div sz" using assms(3) by (simp add: less_eq_div_iff_mult_less_eq mult.commute)
    then show ?thesis using False by (simp add: mult.commute del: of_nat_mult)
  qed
  have kle: "?k \<le> sz * n" "?k \<le> left"
  proof -
    show "?k \<le> sz * n" by (simp add: mult.commute)
    have "?k \<le> left div sz * sz" by (rule mult_le_mono1) simp
    then show "?k \<le> left" by (meson div_times_less_eq_dividend le_trans)
  qed
  have size': "to_size (int ?k) = ?k" using kle left(2) by (simp add: to_size_id del: of_nat_mult)
  have copy: "memcpy ptr (c_data f + nat (c_pos f)) ?k m = blit ptr (c_data f + nat (c_pos f)) ?k m"
    using assms(5) kle(1) by (intro memcpy_blit) linarith
  let ?f = "f\<lparr>c_eof := (c_eof f \<or> int (sz * n) > int left), c_pos := c_pos f + int ?k\<rparr>"
  have "fread ptr sz n f m = (?k div sz, ?f, blit ptr (c_data f + nat (c_pos f)) ?k m)"
    using assms(2,3) unfolding fread_def Let_def want0 left(1) want size' copy by simp
  moreover have "cfile_ok ?f"
    using assms(1) kle(2) left(1) unfolding cfile_ok_def by simp (metis add_le_cancel_left diff_add_cancel add.commute of_nat_le_iff of_nat_mult)
  moreover have "?k div sz = min n (left div sz)" using assms(3) by simp
  ultimately show ?thesis using left unfolding left_def [symmetric] by (auto simp: Let_def)
qed

text \<open>A file of six bytes at 16 of the example memory.\<close>

definition ex_cfile :: cfile where
  "ex_cfile = \<lparr>c_data = 16, c_size = 6, c_pos = 0, c_console = False, c_eof = False, c_err = False\<rparr>"

theorem fread_elements_witness:
  "\<exists>f' m'. fread 100 4 2 ex_cfile ex_mem = (1, f', m') \<and> c_eof f' \<and> c_pos f' = 4 \<and> bytes_at m' 100 [0x4e, 0x43, 0x41, 0x50]"
proof -
  have ok: "cfile_ok ex_cfile" by (simp add: cfile_ok_def ex_cfile_def)
  obtain f' m' where r: "fread 100 4 2 ex_cfile ex_mem = (1, f', m')"
    "m' = blit 100 16 4 ex_mem" "c_pos f' = 4" "c_eof f'"
    using fread_elements [OF ok, of 4 2 100 ex_mem] by (auto simp: ex_cfile_def Let_def)
  have "bytes_at m' 100 [0x4e, 0x43, 0x41, 0x50]" by (simp add: r(2) blit_def ex_mem_def)
  then show ?thesis using r by blast
qed

section \<open>Lines\<close>

text \<open>The rest of a file, and what \<open>fgets\<close> should take of it.\<close>

definition rest_bytes :: "cfile \<Rightarrow> mem \<Rightarrow> byte list" where
  "rest_bytes f m = map (\<lambda>i. m (c_data f + nat (c_pos f) + i)) [0..<nat (c_size f - c_pos f)]"

fun line_of :: "nat \<Rightarrow> byte list \<Rightarrow> byte list" where
  "line_of 0 cs = []"
| "line_of (Suc k) [] = []"
| "line_of (Suc k) (c # cs) = (if c = 0x0a then [c] else c # line_of k cs)"

lemma length_line_of: "length (line_of k cs) \<le> k" "length (line_of k cs) \<le> length cs"
  by (induction k cs rule: line_of.induct) auto

lemma fgetc_rest:
  assumes "cfile_ok f" and "\<not> c_console f"
  shows "case rest_bytes f m of
      [] \<Rightarrow> fgetc f m = (None, f\<lparr>c_eof := True\<rparr>)
    | c # cs \<Rightarrow> fgetc f m = (Some c, f\<lparr>c_pos := c_pos f + 1\<rparr>) \<and> cfile_ok (f\<lparr>c_pos := c_pos f + 1\<rparr>)
        \<and> rest_bytes (f\<lparr>c_pos := c_pos f + 1\<rparr>) m = cs"
proof (cases "c_pos f < c_size f")
  case False
  then show ?thesis using assms by (simp add: rest_bytes_def fgetc_def cfile_ok_def)
next
  case True
  then obtain k where k: "nat (c_size f - c_pos f) = Suc k" "nat (c_size f - (c_pos f + 1)) = k"
    by (metis Suc_nat_eq_nat_zadd1 add.commute add_diff_cancel_left' diff_add_cancel diff_diff_add diff_ge_0_iff_ge zless_imp_add1_zle)
  have n: "nat (c_pos f + 1) = Suc (nat (c_pos f))" using assms(1) by (simp add: cfile_ok_def nat_add_distrib)
  have "rest_bytes f m = m (c_data f + nat (c_pos f)) # rest_bytes (f\<lparr>c_pos := c_pos f + 1\<rparr>) m"
    unfolding rest_bytes_def by (simp add: k n upt_conv_Cons map_Suc_upt [symmetric] del: upt_Suc)
  then show ?thesis using True assms by (simp add: fgetc_def cfile_ok_def)
qed

lemma fgets_loop_line:
  assumes "\<not> c_console f" and "cfile_ok f" and "s + i + k \<le> c_data f \<or> c_data f + nat (c_size f) \<le> s"
  shows "\<exists>f'. fgets_loop s i k f m = (i + length (line_of k (rest_bytes f m)),
      length (line_of k (rest_bytes f m)) < k \<and> 0x0a \<notin> set (line_of k (rest_bytes f m)), f',
      store (s + i) (line_of k (rest_bytes f m)) m)
    \<and> cfile_ok f' \<and> c_pos f' = c_pos f + int (length (line_of k (rest_bytes f m)))"
  using assms
proof (induction k arbitrary: i f m)
  case 0
  then show ?case by auto
next
  case (Suc k)
  note fg = fgetc_rest [OF Suc.prems(2,1), of m]
  show ?case
  proof (cases "rest_bytes f m")
    case Nil
    then show ?thesis using fg Suc.prems by (auto simp: cfile_ok_def)
  next
    case (Cons c cs)
    let ?f = "f\<lparr>c_pos := c_pos f + 1\<rparr>" and ?m = "m(s + i := c)"
    have f: "fgetc f m = (Some c, ?f)" "cfile_ok ?f" "rest_bytes ?f m = cs" using fg Cons by auto
    show ?thesis
    proof (cases "c = 0x0a")
      case True
      have "store (s + i) [c] m = ?m" by (simp add: store_Cons)
      then show ?thesis using f Cons True by (simp del: fun_upd_apply)
    next
      case False
      have "rest_bytes ?f ?m = rest_bytes ?f m"
      proof -
        have ne: "s + i \<noteq> c_data f + nat (c_pos f + 1) + j" if "j < nat (c_size f - (c_pos f + 1))" for j
          using that Suc.prems(2,3) by (auto simp: cfile_ok_def)
        show ?thesis unfolding rest_bytes_def by (rule map_cong) (use ne in \<open>auto dest!: sym [of _ "s + i"]\<close>)
      qed
      then have r: "rest_bytes ?f ?m = cs" using f(3) by simp
      obtain f' where ih: "fgets_loop s (i + 1) k ?f ?m = (i + 1 + length (line_of k cs),
          length (line_of k cs) < k \<and> 0x0a \<notin> set (line_of k cs), f', store (s + (i + 1)) (line_of k cs) ?m)"
        "cfile_ok f'" "c_pos f' = c_pos ?f + int (length (line_of k cs))"
        using Suc.IH [of ?f "i + 1" ?m] Suc.prems f(2) unfolding r by (auto simp del: fun_upd_apply)
      moreover have "line_of (Suc k) (c # cs) = c # line_of k cs" using False by simp
      moreover have "store (s + i) (c # line_of k cs) m = store (s + (i + 1)) (line_of k cs) ?m"
        by (simp add: store_Cons)
      ultimately show ?thesis
        unfolding Cons using f(1) False by (auto simp: Let_def simp del: fun_upd_apply)
    qed
  qed
qed

text \<open>
  \<open>fgets\<close> into a buffer of \<open>n\<close> bytes away from the file stores the next line, cut to
  \<open>n - 1\<close> characters, newline included, followed by a NUL, and never writes behind the buffer;
  it returns the null pointer exactly when nothing was left.
\<close>

theorem fgets_line:
  assumes "cfile_ok f" and "\<not> c_console f" and "2 \<le> n"
    and "s + nat n \<le> c_data f \<or> c_data f + nat (c_size f) \<le> s"
  shows "\<exists>f'. fgets s n f m =
      (if rest_bytes f m = [] then (None, f', m)
       else (Some s, f', store s (line_of (nat (n - 1)) (rest_bytes f m) @ [0]) m))
    \<and> cfile_ok f' \<and> c_pos f' = c_pos f + int (length (line_of (nat (n - 1)) (rest_bytes f m)))
    \<and> length (line_of (nat (n - 1)) (rest_bytes f m) @ [0]) \<le> nat n"
proof -
  let ?k = "nat (n - 1)" and ?r = "rest_bytes f m"
  let ?l = "line_of ?k ?r"
  obtain f' where l: "fgets_loop s 0 ?k f m = (length ?l, length ?l < ?k \<and> 0x0a \<notin> set ?l, f', store s ?l m)"
    "cfile_ok f'" "c_pos f' = c_pos f + int (length ?l)"
  proof -
    have "s + 0 + ?k \<le> c_data f \<or> c_data f + nat (c_size f) \<le> s" using assms(4) by linarith
    then show ?thesis using fgets_loop_line [OF assms(2,1), of s 0 ?k m] that by auto
  qed
  have k: "0 < ?k" using assms(3) by simp
  have ne: "?l = [] \<longleftrightarrow> ?r = []" using k by (cases ?k; cases ?r) auto
  have "(store s ?l m)(s + length ?l := 0) = store s (?l @ [0]) m"
    by (intro ext) (auto simp: store_def nth_append)
  moreover have "length (?l @ [0]) \<le> nat n" using length_line_of(1) [of ?k ?r] assms(3) by simp
  ultimately show ?thesis
    using l ne k by (intro exI [of _ f']) (auto simp: fgets_def)
qed

text \<open>\<open>NCAPPS\<close> read with a buffer of 4 bytes.\<close>

theorem fgets_line_witness:
  "\<exists>f' m'. fgets 100 4 ex_cfile ex_mem = (Some 100, f', m') \<and> bytes_at m' 100 [0x4e, 0x43, 0x41, 0]"
proof -
  have r: "rest_bytes ex_cfile ex_mem = [0x4e, 0x43, 0x41, 0x50, 0x50, 0x53]"
    by (simp add: rest_bytes_def ex_cfile_def ex_mem_def upt_conv_Cons)
  have "cfile_ok ex_cfile" by (simp add: cfile_ok_def ex_cfile_def)
  then obtain f' where "fgets 100 4 ex_cfile ex_mem = (Some 100, f', store 100 (line_of 3 (rest_bytes ex_cfile ex_mem) @ [0]) ex_mem)"
    using fgets_line [of ex_cfile 4 100 ex_mem] r by (auto simp: ex_cfile_def)
  moreover have "line_of 3 (rest_bytes ex_cfile ex_mem) = [0x4e, 0x43, 0x41]"
    unfolding r by (simp add: numeral_3_eq_3)
  ultimately show ?thesis by (simp add: store_def)
qed

section \<open>The file cache\<close>

text \<open>
  A file that was opened and has a slot in the cache is found there by every later
  \<open>fopen\<close> for reading, under any spelling in upper and lower case, with the same data and size
  and without calling the loader again.
\<close>

theorem fopen_cached:
  assumes "cache_find (skip_dots path) (l_cache l) = Some (data, sz)" and "\<not> write_mode mode"
    and "str_case_eq (skip_dots path) (skip_dots path')"
  shows "fopen load path' mode l = open_struct data sz l"
proof -
  have "str_case_eq n (skip_dots path') = str_case_eq n (skip_dots path)" for n
    using assms(3) by (simp add: str_case_eq_def)
  then have "cache_find (skip_dots path') (l_cache l) = Some (data, sz)"
    using assms(1) by (simp add: cache_find_def)
  then show ?thesis using assms(2) by (simp add: fopen_def)
qed

definition ex_libc :: "unit libc" where
  "ex_libc = \<lparr>l_world = (), l_heap = ex_heap, l_mem = ex_mem, l_cache = [([0x57, 0x41, 0x44], 16, 6)],
     l_errno = E_none, l_console = []\<rparr>"

theorem fopen_cached_witness:
  "fopen (\<lambda>name l. (None, l)) [0x2e, 0x2f, 0x77, 0x61, 0x64] [0x72] ex_libc = open_struct 16 6 ex_libc"
  by (rule fopen_cached [where path = "[0x57, 0x41, 0x44]"])
    (simp_all add: ex_libc_def cache_find_def str_case_eq_def write_mode_def tolower_def isupper_def)

end
