(* ===== verification/NetStack.thy ===== *)
theory NetStack
  imports Bytes "HOL-Library.Monad_Syntax"
begin

text \<open>
  The IPv4 stack \<open>netstack.h\<close>: ARP, IP, UDP, DHCP, ICMP, DNS and one TCP client connection. The
  static variables are the record \<open>net\<close>; addresses, ports and sequence numbers are 32-bit
  words. Below is the radio driver (\<open>wlan.h\<close>), the environment record \<open>nenv\<close> on a world of
  arbitrary type: \<open>wlan_send\<close> sends a frame; \<open>wlan_start\<close> begins a poll of so many
  milliseconds, \<open>wlan_next\<close> gives the next frame of the poll, or \<open>None\<close> when its time is over,
  which it is after \<open>wlan_most\<close> frames; \<open>cycle_count\<close> reads the cycle counter.

  A received frame is the list of its bytes. Every read of it goes through \<open>rd8\<close>, \<open>rd16\<close>,
  \<open>rd32\<close>, which give \<open>None\<close> outside of the frame, so that \<open>None\<close> as the result of a receive
  function is a read out of bounds. Console messages and \<open>net_debug\<close> are left out.
\<close>

section \<open>State\<close>

datatype dhcp_st = DHCP_OFF | DHCP_SELECTING | DHCP_REQUESTING | DHCP_BOUND
datatype tcp_st = TCP_CLOSED | TCP_SYN_SENT | TCP_ESTABLISHED | TCP_FIN_WAIT | TCP_DONE

type_synonym frame = "byte list \<times> byte list \<times> u32 \<times> byte list"

record 'w nenv =
  own_mac :: "byte list"
  wlan_send :: "'w \<Rightarrow> byte list \<Rightarrow> u32 \<Rightarrow> byte list \<Rightarrow> int \<times> 'w"
  wlan_start :: "nat \<Rightarrow> 'w \<Rightarrow> 'w"
  wlan_next :: "'w \<Rightarrow> frame option \<times> 'w"
  wlan_most :: nat
  cycle_count :: "'w \<Rightarrow> u32 \<times> 'w"

record 'w net =
  nw :: 'w
  net_ip :: u32
  net_mask :: u32
  net_gw :: u32
  net_dns :: u32
  net_dhcp_server :: u32
  net_lease :: u32
  net_pings :: u32
  net_arp_replies :: u32
  net_ip_rx :: u32
  arp_cache :: "(u32 \<times> byte list) list"
  arp_next :: nat
  ip_id :: u32
  dns_hook :: bool
  dhcp_state :: dhcp_st
  dhcp_xid :: u32
  dhcp_offer_ip :: u32
  rand_x :: u32
  dns_id :: u32
  dns_port :: u32
  dns_result :: u32
  dns_done :: bool
  tcp_state :: tcp_st
  tcp_rip :: u32
  tcp_rport :: u32
  tcp_lport :: u32
  tcp_snd_una :: u32
  tcp_snd_nxt :: u32
  tcp_rcv_nxt :: u32
  tcp_rx_bytes :: u32
  tcp_dup :: u32
  tcp_ack_due :: u32
  tcp_sink :: bool
  tcp_got :: "byte list"

text \<open>The statics as the program starts with them.\<close>

definition ARP_CACHE :: nat where "ARP_CACHE = 8"

definition net_start :: "'w \<Rightarrow> 'w net" where
  "net_start w = \<lparr>nw = w, net_ip = 0, net_mask = 0, net_gw = 0, net_dns = 0, net_dhcp_server = 0,
     net_lease = 0, net_pings = 0, net_arp_replies = 0, net_ip_rx = 0,
     arp_cache = replicate ARP_CACHE (0, replicate 6 0), arp_next = 0, ip_id = 0, dns_hook = False,
     dhcp_state = DHCP_OFF, dhcp_xid = 0, dhcp_offer_ip = 0, rand_x = 0x9e3779b9, dns_id = 0,
     dns_port = 0, dns_result = 0, dns_done = False, tcp_state = TCP_CLOSED, tcp_rip = 0,
     tcp_rport = 0, tcp_lport = 0, tcp_snd_una = 0, tcp_snd_nxt = 0, tcp_rcv_nxt = 0,
     tcp_rx_bytes = 0, tcp_dup = 0, tcp_ack_due = 0, tcp_sink = False, tcp_got = []\<rparr>"

section \<open>The checksum\<close>

text \<open>\<open>net_csum\<close>: the loop over pairs, then the folding of the carries.\<close>

fun csum_words :: "byte list \<Rightarrow> u32 \<Rightarrow> u32" where
  "csum_words (a # b # p) s = csum_words p (s + (push_bit 8 (ucast a) OR ucast b))"
| "csum_words [a] s = s + push_bit 8 (ucast a)"
| "csum_words [] s = s"

lemma unat_and_ffff: "unat (s AND 0xffff :: u32) = unat s mod 65536"
proof -
  have "unat (s AND 0xffff) = unat s AND 0xffff"
    by (simp only: unsigned_and_eq) simp
  also have "\<dots> = take_bit 16 (unat s)"
    by (simp add: take_bit_eq_mask mask_eq_exp_minus_1)
  finally show ?thesis by (simp add: take_bit_eq_mod)
qed

lemma csum_fold_less:
  fixes s :: u32
  assumes "drop_bit 16 s \<noteq> 0"
  shows "unat ((s AND 0xffff) + drop_bit 16 s) = unat s mod 65536 + unat s div 65536"
    and "unat s mod 65536 + unat s div 65536 < unat s"
proof -
  note m = unat_and_ffff [of s]
  have d: "unat (drop_bit 16 s) = unat s div 65536"
    by (simp only: unat_drop_bit) simp
  have "unat s div 65536 < 65536"
    by (rule less_mult_imp_div_less) (use unat_u32_less [of s] in simp)
  moreover have "unat s mod 65536 < 65536" by simp
  ultimately have "unat s mod 65536 + unat s div 65536 < two32" by linarith
  then show "unat ((s AND 0xffff) + drop_bit 16 s) = unat s mod 65536 + unat s div 65536"
    unfolding unat_word_ariths m d by simp
  have "unat s div 65536 \<noteq> 0" using assms d by (metis unat_eq_zero)
  then have "unat s div 65536 < 65536 * (unat s div 65536)" by simp
  then show "unat s mod 65536 + unat s div 65536 < unat s"
    using div_mult_mod_eq [of "unat s" 65536] by linarith
qed

lemma csum_fold_measure:
  "drop_bit 16 (s :: u32) \<noteq> 0 \<Longrightarrow> unat ((s AND 0xffff) + drop_bit 16 s) < unat s"
  using csum_fold_less [of s] by linarith

function csum_fold :: "u32 \<Rightarrow> u32" where
  "csum_fold s = (if drop_bit 16 s \<noteq> 0 then csum_fold ((s AND 0xffff) + drop_bit 16 s) else s)"
  by pat_completeness auto
termination
  by (relation "measure unat") (rule wf_measure, unfold in_measure, erule csum_fold_measure)

declare csum_fold.simps [simp del]

definition net_csum :: "byte list \<Rightarrow> u32 \<Rightarrow> u32" where
  "net_csum p s = csum_fold (csum_words p s)"

section \<open>ARP\<close>

definition arp_learn :: "u32 \<Rightarrow> byte list \<Rightarrow> 'w net \<Rightarrow> 'w net" where
  "arp_learn ip m s =
     (if ip \<in> fst ` set (arp_cache s)
      then s\<lparr>arp_cache := (let i = length (takeWhile (\<lambda>e. fst e \<noteq> ip) (arp_cache s))
                           in (arp_cache s)[i := (ip, m)])\<rparr>
      else s\<lparr>arp_cache := (arp_cache s)[arp_next s := (ip, m)], arp_next := (arp_next s + 1) mod ARP_CACHE\<rparr>)"

definition arp_lookup :: "u32 \<Rightarrow> 'w net \<Rightarrow> byte list option" where
  "arp_lookup ip s = map_option snd (find (\<lambda>e. ip \<noteq> 0 \<and> fst e = ip) (arp_cache s))"

text \<open>Handing a frame to the radio.\<close>

definition send_frame :: "'w nenv \<Rightarrow> byte list \<Rightarrow> u32 \<Rightarrow> byte list \<Rightarrow> 'w net \<Rightarrow> int \<times> 'w net" where
  "send_frame e dst ty d s = (let (r, w) = wlan_send e (nw s) dst ty d in (r, s\<lparr>nw := w\<rparr>))"

definition arp_packet :: "'w nenv \<Rightarrow> u32 \<Rightarrow> u32 \<Rightarrow> byte list \<Rightarrow> u32 \<Rightarrow> byte list" where
  "arp_packet e ip op tmac tip =
     put_be16 1 @ put_be16 0x0800 @ [6, 4] @ put_be16 op @ own_mac e @ put_be32 ip
     @ (if op = 1 then replicate 6 0 else tmac) @ put_be32 tip"

definition arp_send :: "'w nenv \<Rightarrow> u32 \<Rightarrow> byte list \<Rightarrow> u32 \<Rightarrow> 'w net \<Rightarrow> 'w net" where
  "arp_send e op tmac tip s =
     snd (send_frame e (if op = 1 then bcast else tmac) 0x0806 (arp_packet e (net_ip s) op tmac tip) s)"

definition arp_rx :: "'w nenv \<Rightarrow> byte list \<Rightarrow> 'w net \<Rightarrow> 'w net option" where
  "arp_rx e a s =
     (if length a < 28 then Some s
      else do {
        hw \<leftarrow> rd16 a 0;
        pr \<leftarrow> rd16 a 2;
        if hw \<noteq> 1 \<or> pr \<noteq> 0x0800 then Some s
        else do {
          op \<leftarrow> rd16 a 6;
          sip \<leftarrow> rd32 a 14;
          tip \<leftarrow> rd32 a 24;
          let smac = take 6 (drop 8 a);
          let s1 = (if sip \<noteq> 0 then arp_learn sip smac s else s);
          if op = 1 \<and> net_ip s1 \<noteq> 0 \<and> tip = net_ip s1
          then Some ((arp_send e 2 smac sip s1)\<lparr>net_arp_replies := net_arp_replies s1 + 1\<rparr>)
          else Some s1
        }
      })"

section \<open>IPv4 and UDP, sending\<close>

definition ip_header :: "'w net \<Rightarrow> u32 \<Rightarrow> byte \<Rightarrow> nat \<Rightarrow> u32 \<Rightarrow> byte list" where
  "ip_header s dst proto len ck =
     [0x45, 0] @ put_be16 (of_nat (20 + len)) @ put_be16 (ip_id s) @ put_be16 0 @ [64, proto]
     @ put_be16 ck @ put_be32 (net_ip s) @ put_be32 dst"

definition ip_send :: "'w nenv \<Rightarrow> u32 \<Rightarrow> byte \<Rightarrow> byte list \<Rightarrow> 'w net \<Rightarrow> int \<times> 'w net" where
  "ip_send e dst proto payload s =
     (if length payload > 1480 then (-1, s)
      else
        (let via = (if net_mask s \<noteq> 0 \<and> dst AND net_mask s \<noteq> net_ip s AND net_mask s then net_gw s else dst);
             dmac = (if dst = 0xffffffff then Some bcast else arp_lookup via s)
         in case dmac of
              None \<Rightarrow> (-1, arp_send e 1 [] via s)
            | Some m \<Rightarrow>
                (let ck = NOT (net_csum (ip_header s dst proto (length payload) 0) 0) AND 0xffff
                 in send_frame e m 0x0800 (ip_header s dst proto (length payload) ck @ payload)
                      (s\<lparr>ip_id := ip_id s + 1\<rparr>))))"

definition udp_send :: "'w nenv \<Rightarrow> u32 \<Rightarrow> u32 \<Rightarrow> u32 \<Rightarrow> byte list \<Rightarrow> 'w net \<Rightarrow> int \<times> 'w net" where
  "udp_send e dst sport dport d s =
     (if length d > 1472 then (-1, s)
      else ip_send e dst 17 (put_be16 sport @ put_be16 dport @ put_be16 (of_nat (8 + length d)) @ put_be16 0 @ d) s)"

section \<open>DHCP\<close>

definition hostname :: "byte list" where
  "hostname = [0x6e, 0x63, 0x77, 0x69, 0x66, 0x69]"

definition dhcp_params :: "byte list" where
  "dhcp_params = [1, 3, 6, 15, 51, 54]"

text \<open>The message, and its 300-byte buffer: \<open>dhcp_send_fits\<close> shows that it is long enough.\<close>

definition dhcp_options :: "'w nenv \<Rightarrow> byte \<Rightarrow> 'w net \<Rightarrow> byte list" where
  "dhcp_options e ty s =
     [53, 1, ty] @ [61, 7, 1] @ own_mac e @ [12, of_nat (length hostname)] @ hostname
     @ (if ty = 3 then [50, 4] @ put_be32 (dhcp_offer_ip s) @ [54, 4] @ put_be32 (net_dhcp_server s) else [])
     @ [55, of_nat (length dhcp_params)] @ dhcp_params @ [255]"

definition dhcp_message :: "'w nenv \<Rightarrow> byte \<Rightarrow> 'w net \<Rightarrow> byte list" where
  "dhcp_message e ty s =
     (let d = [1, 1, 6, 0] @ put_be32 (dhcp_xid s) @ [0, 0] @ put_be16 0x8000 @ replicate 16 0 @ own_mac e
            @ replicate 202 0 @ put_be32 0x63825363 @ dhcp_options e ty s
      in d @ replicate (300 - length d) 0)"

definition dhcp_send :: "'w nenv \<Rightarrow> byte \<Rightarrow> 'w net \<Rightarrow> 'w net" where
  "dhcp_send e ty s = snd (udp_send e 0xffffffff 68 67 (dhcp_message e ty s) s)"

record dhcp_opts =
  op_type :: u32
  op_mask :: u32
  op_gw :: u32
  op_dns :: u32
  op_server :: u32
  op_lease :: u32

definition no_opts :: dhcp_opts where
  "no_opts = \<lparr>op_type = 0, op_mask = 0, op_gw = 0, op_dns = 0, op_server = 0, op_lease = 0\<rparr>"

text \<open>One option of tag \<open>t\<close> and length \<open>n\<close> at offset \<open>i\<close>.\<close>

definition dhcp_opt :: "byte list \<Rightarrow> nat \<Rightarrow> byte \<Rightarrow> nat \<Rightarrow> dhcp_opts \<Rightarrow> dhcp_opts option" where
  "dhcp_opt d i t n v =
     (if t = 53 \<and> n \<ge> 1 then do { x \<leftarrow> rd8 d (i + 2); Some (v\<lparr>op_type := ucast x\<rparr>) }
      else if t = 1 \<and> n \<ge> 4 then do { x \<leftarrow> rd32 d (i + 2); Some (v\<lparr>op_mask := x\<rparr>) }
      else if t = 3 \<and> n \<ge> 4 then do { x \<leftarrow> rd32 d (i + 2); Some (v\<lparr>op_gw := x\<rparr>) }
      else if t = 6 \<and> n \<ge> 4 then do { x \<leftarrow> rd32 d (i + 2); Some (v\<lparr>op_dns := x\<rparr>) }
      else if t = 54 \<and> n \<ge> 4 then do { x \<leftarrow> rd32 d (i + 2); Some (v\<lparr>op_server := x\<rparr>) }
      else if t = 51 \<and> n \<ge> 4 then do { x \<leftarrow> rd32 d (i + 2); Some (v\<lparr>op_lease := x\<rparr>) }
      else Some v)"

function dhcp_parse :: "byte list \<Rightarrow> nat \<Rightarrow> dhcp_opts \<Rightarrow> dhcp_opts option" where
  "dhcp_parse d i v =
     (if i + 2 \<le> length d
      then (case rd8 d i of
              None \<Rightarrow> None
            | Some t \<Rightarrow>
                if t = 255 then Some v
                else if t = 0 then dhcp_parse d (i + 1) v
                else (case rd8 d (i + 1) of
                        None \<Rightarrow> None
                      | Some n \<Rightarrow>
                          if i + 2 + unat n > length d then Some v
                          else (case dhcp_opt d i t (unat n) v of
                                  None \<Rightarrow> None
                                | Some v' \<Rightarrow> dhcp_parse d (i + 2 + unat n) v')))
      else Some v)"
  by pat_completeness auto
termination
  by (relation "measure (\<lambda>(d, i, v). length d - i)") auto

declare dhcp_parse.simps [simp del]

text \<open>The state machine, on the parsed options of a reply that is for us.\<close>

definition dhcp_step :: "'w nenv \<Rightarrow> dhcp_opts \<Rightarrow> u32 \<Rightarrow> 'w net \<Rightarrow> 'w net" where
  "dhcp_step e v yiaddr s =
     (if op_type v = 2 \<and> dhcp_state s = DHCP_SELECTING then
        dhcp_send e 3 (s\<lparr>dhcp_offer_ip := yiaddr, net_dhcp_server := op_server v, dhcp_state := DHCP_REQUESTING\<rparr>)
      else if op_type v = 5 \<and> dhcp_state s = DHCP_REQUESTING then
        s\<lparr>net_ip := yiaddr, net_mask := op_mask v, net_gw := op_gw v, net_dns := op_dns v,
          net_lease := op_lease v, dhcp_state := DHCP_BOUND\<rparr>
      else if op_type v = 6 then dhcp_send e 1 (s\<lparr>dhcp_state := DHCP_SELECTING\<rparr>)
      else s)"

definition dhcp_rx :: "'w nenv \<Rightarrow> byte list \<Rightarrow> 'w net \<Rightarrow> 'w net option" where
  "dhcp_rx e d s =
     (if length d < 244 then Some s
      else do {
        op \<leftarrow> rd8 d 0;
        xid \<leftarrow> rd32 d 4;
        cookie \<leftarrow> rd32 d 236;
        if op \<noteq> 2 \<or> xid \<noteq> dhcp_xid s \<or> cookie \<noteq> 0x63825363 \<or> take 6 (drop 28 d) \<noteq> own_mac e then Some s
        else do {
          v \<leftarrow> dhcp_parse d 240 no_opts;
          ip \<leftarrow> rd32 d 16;
          Some (dhcp_step e v ip s)
        }
      })"

end
