(* ===== verification/NetTcp.thy ===== *)
theory NetTcp
  imports NetStack
begin

text \<open>
  The upper half of \<open>netstack.h\<close>: ICMP echo, the DNS client, the TCP connection, the dispatch of
  received frames (\<open>net_rx\<close>) and the operations that wait for the peer by polling the radio
  (\<open>dns_resolve\<close>, \<open>tcp_connect\<close>, \<open>tcp_write\<close>, \<open>tcp_read_all\<close>, \<open>dhcp_run\<close>). What the receive
  callback of the connection was given is the list \<open>tcp_got\<close>; \<open>tcp_sink\<close> says whether a callback
  is set. The progress callback of \<open>tcp_read_all\<close> is left out.
\<close>

section \<open>ICMP\<close>

definition icmp_rx :: "'w nenv \<Rightarrow> u32 \<Rightarrow> byte list \<Rightarrow> 'w net \<Rightarrow> 'w net option" where
  "icmp_rx e src p s =
     (if length p < 8 then Some s
      else do {
        ty \<leftarrow> rd8 p 0;
        if ty \<noteq> 8 \<or> length p > 1480 then Some s
        else
          (let r = p[0 := 0, 2 := 0, 3 := 0];
               ck = put_be16 (NOT (net_csum r 0) AND 0xffff);
               (res, s') = ip_send e src 1 (r[2 := ck ! 0, 3 := ck ! 1]) s
           in Some (if res = 0 then s'\<lparr>net_pings := net_pings s' + 1\<rparr> else s'))
      })"

section \<open>DNS, receiving\<close>

function dns_labels :: "byte list \<Rightarrow> nat \<Rightarrow> nat" where
  "dns_labels d p =
     (if p < length d \<and> d ! p \<noteq> 0 \<and> (d ! p) AND 0xc0 \<noteq> 0xc0 then dns_labels d (p + 1 + unat (d ! p)) else p)"
  by pat_completeness auto
termination
  by (relation "measure (\<lambda>(d, p). length d - p)") auto

declare dns_labels.simps [simp del]

definition dns_name_end :: "byte list \<Rightarrow> nat \<Rightarrow> nat" where
  "dns_name_end d p =
     (let q = dns_labels d p in q + (if q < length d \<and> (d ! q) AND 0xc0 = 0xc0 then 2 else 1))"

primrec dns_questions :: "byte list \<Rightarrow> nat \<Rightarrow> nat \<Rightarrow> nat" where
  "dns_questions d 0 p = p"
| "dns_questions d (Suc n) p = dns_questions d n (dns_name_end d p + 4)"

primrec dns_answers :: "byte list \<Rightarrow> nat \<Rightarrow> nat \<Rightarrow> u32 option option" where
  "dns_answers d 0 p = Some None"
| "dns_answers d (Suc n) p =
     (if p + 12 \<le> length d
      then (let q = dns_name_end d p
            in if q + 10 > length d then Some None
               else do {
                 ty \<leftarrow> rd16 d q;
                 rdlen \<leftarrow> rd16 d (q + 8);
                 if ty = 1 \<and> rdlen = 4 \<and> q + 14 \<le> length d
                 then do { a \<leftarrow> rd32 d (q + 10); Some (Some a) }
                 else dns_answers d n (q + 10 + unat rdlen)
               })
      else Some None)"

definition dns_rx :: "byte list \<Rightarrow> 'w net \<Rightarrow> 'w net option" where
  "dns_rx d s =
     (if length d < 12 then Some s
      else do {
        i \<leftarrow> rd16 d 0;
        fl \<leftarrow> rd8 d 2;
        if i \<noteq> dns_id s \<or> fl AND 0x80 = 0 then Some s
        else do {
          let s1 = s\<lparr>dns_done := True\<rparr>;
          rcode \<leftarrow> rd8 d 3;
          if rcode AND 15 \<noteq> 0 then Some s1
          else do {
            q \<leftarrow> rd16 d 4;
            an \<leftarrow> rd16 d 6;
            r \<leftarrow> dns_answers d (unat an) (dns_questions d (unat q) 12);
            Some (case r of Some a \<Rightarrow> s1\<lparr>dns_result := a\<rparr> | None \<Rightarrow> s1)
          }
        }
      })"

definition net_udp_rx :: "u32 \<Rightarrow> u32 \<Rightarrow> byte list \<Rightarrow> 'w net \<Rightarrow> 'w net option" where
  "net_udp_rx sport dport d s = (if sport = 53 \<and> dport = dns_port s then dns_rx d s else Some s)"

section \<open>TCP segments\<close>

definition TCP_MSS :: nat where "TCP_MSS = 1400"
definition TCP_WINDOW :: u32 where "TCP_WINDOW = 65535"
definition TF_FIN :: byte where "TF_FIN = 0x01"
definition TF_SYN :: byte where "TF_SYN = 0x02"
definition TF_RST :: byte where "TF_RST = 0x04"
definition TF_PSH :: byte where "TF_PSH = 0x08"
definition TF_ACK :: byte where "TF_ACK = 0x10"

text \<open>The segment before its checksum is filled in, and the pseudo header.\<close>

definition tcp_hl :: "byte \<Rightarrow> nat" where
  "tcp_hl flags = (if flags AND TF_SYN \<noteq> 0 then 24 else 20)"

definition tcp_bytes :: "u32 \<Rightarrow> byte \<Rightarrow> byte list \<Rightarrow> u32 \<Rightarrow> 'w net \<Rightarrow> byte list" where
  "tcp_bytes seq flags d ck s =
     put_be16 (tcp_lport s) @ put_be16 (tcp_rport s) @ put_be32 seq
     @ put_be32 (if flags AND TF_ACK \<noteq> 0 then tcp_rcv_nxt s else 0)
     @ [push_bit 4 (of_nat (tcp_hl flags div 4)), flags] @ put_be16 TCP_WINDOW @ put_be16 ck @ [0, 0]
     @ (if flags AND TF_SYN \<noteq> 0 then [2, 4] @ put_be16 (of_nat TCP_MSS) else []) @ d"

definition tcp_pseudo :: "nat \<Rightarrow> 'w net \<Rightarrow> byte list" where
  "tcp_pseudo n s = put_be32 (net_ip s) @ put_be32 (tcp_rip s) @ [0, 6] @ put_be16 (of_nat n)"

definition tcp_seg :: "'w nenv \<Rightarrow> u32 \<Rightarrow> byte \<Rightarrow> byte list \<Rightarrow> 'w net \<Rightarrow> int \<times> 'w net" where
  "tcp_seg e seq flags d s =
     (let n = tcp_hl flags + length d
      in if n > 1480 then (-1, s)
         else (let sm = net_csum (tcp_bytes seq flags d 0 s) (net_csum (tcp_pseudo n s) 0)
               in ip_send e (tcp_rip s) 6 (tcp_bytes seq flags d (NOT sm AND 0xffff) s) s))"

section \<open>TCP, receiving\<close>

text \<open>The parts of \<open>tcp_rx\<close> after the segment is found to be for the connection: the handshake, the
  acknowledgement, the data, the FIN and the delayed ACK.\<close>

definition tcp_synack :: "'w nenv \<Rightarrow> u32 \<Rightarrow> u32 \<Rightarrow> byte \<Rightarrow> 'w net \<Rightarrow> 'w net" where
  "tcp_synack e seq ack flags s =
     (if flags AND (TF_SYN OR TF_ACK) = TF_SYN OR TF_ACK \<and> ack = tcp_snd_nxt s
      then snd (tcp_seg e (tcp_snd_nxt s) TF_ACK []
             (s\<lparr>tcp_rcv_nxt := seq + 1, tcp_snd_una := ack, tcp_state := TCP_ESTABLISHED\<rparr>))
      else s)"

definition tcp_take_ack :: "u32 \<Rightarrow> byte \<Rightarrow> 'w net \<Rightarrow> 'w net" where
  "tcp_take_ack ack flags s =
     (if flags AND TF_ACK \<noteq> 0 \<and> 0 < sint (ack - tcp_snd_una s) \<and> sint (ack - tcp_snd_nxt s) \<le> 0
      then s\<lparr>tcp_snd_una := ack\<rparr> else s)"

definition tcp_take_data :: "u32 \<Rightarrow> byte list \<Rightarrow> 'w net \<Rightarrow> 'w net" where
  "tcp_take_data seq d s =
     (if d = [] then s
      else if seq = tcp_rcv_nxt s
      then s\<lparr>tcp_got := (if tcp_sink s then tcp_got s @ d else tcp_got s),
             tcp_rcv_nxt := tcp_rcv_nxt s + of_nat (length d),
             tcp_rx_bytes := tcp_rx_bytes s + of_nat (length d),
             tcp_ack_due := tcp_ack_due s + 1\<rparr>
      else s\<lparr>tcp_dup := tcp_dup s + 1, tcp_ack_due := tcp_ack_due s + 2\<rparr>)"

definition tcp_take_fin :: "'w nenv \<Rightarrow> u32 \<Rightarrow> byte \<Rightarrow> nat \<Rightarrow> 'w net \<Rightarrow> 'w net" where
  "tcp_take_fin e seq flags dlen s =
     (if flags AND TF_FIN \<noteq> 0 \<and> seq + of_nat dlen = tcp_rcv_nxt s
      then (let s1 = s\<lparr>tcp_rcv_nxt := tcp_rcv_nxt s + 1\<rparr>;
                s2 = (if tcp_state s1 = TCP_ESTABLISHED
                      then (snd (tcp_seg e (tcp_snd_nxt s1) (TF_FIN OR TF_ACK) [] s1))
                             \<lparr>tcp_snd_nxt := tcp_snd_nxt s1 + 1\<rparr>
                      else s1)
            in s2\<lparr>tcp_state := TCP_DONE\<rparr>)
      else s)"

definition tcp_send_ack :: "'w nenv \<Rightarrow> 'w net \<Rightarrow> 'w net" where
  "tcp_send_ack e s = (snd (tcp_seg e (tcp_snd_nxt s) TF_ACK [] s))\<lparr>tcp_ack_due := 0\<rparr>"

definition tcp_delayed_ack :: "'w nenv \<Rightarrow> byte \<Rightarrow> nat \<Rightarrow> 'w net \<Rightarrow> 'w net" where
  "tcp_delayed_ack e flags dlen s =
     (if flags AND TF_FIN \<noteq> 0 \<or> tcp_ack_due s \<ge> 2 \<or> (dlen \<noteq> 0 \<and> dlen < TCP_MSS)
      then tcp_send_ack e s else s)"

definition tcp_segment :: "'w nenv \<Rightarrow> u32 \<Rightarrow> u32 \<Rightarrow> byte \<Rightarrow> byte list \<Rightarrow> 'w net \<Rightarrow> 'w net" where
  "tcp_segment e seq ack flags d s =
     (if flags AND TF_RST \<noteq> 0 then s\<lparr>tcp_state := TCP_DONE\<rparr>
      else if tcp_state s = TCP_SYN_SENT then tcp_synack e seq ack flags s
      else tcp_delayed_ack e flags (length d)
             (tcp_take_fin e seq flags (length d) (tcp_take_data seq d (tcp_take_ack ack flags s))))"

definition tcp_rx :: "'w nenv \<Rightarrow> u32 \<Rightarrow> byte list \<Rightarrow> 'w net \<Rightarrow> 'w net option" where
  "tcp_rx e src p s =
     (if length p < 20 \<or> src \<noteq> tcp_rip s then Some s
      else do {
        sp \<leftarrow> rd16 p 0;
        dp \<leftarrow> rd16 p 2;
        if sp \<noteq> tcp_rport s \<or> dp \<noteq> tcp_lport s \<or> tcp_state s = TCP_CLOSED then Some s
        else do {
          off \<leftarrow> rd8 p 12;
          let hl = unat (drop_bit 4 off) * 4;
          if hl < 20 \<or> hl > length p then Some s
          else do {
            seq \<leftarrow> rd32 p 4;
            ack \<leftarrow> rd32 p 8;
            flags \<leftarrow> rd8 p 13;
            Some (tcp_segment e seq ack flags (drop hl p) s)
          }
        }
      })"

definition tcp_ack_flush :: "'w nenv \<Rightarrow> 'w net \<Rightarrow> 'w net" where
  "tcp_ack_flush e s =
     (if tcp_ack_due s \<noteq> 0 \<and> tcp_state s \<noteq> TCP_CLOSED then tcp_send_ack e s else s)"

section \<open>The dispatch of a received frame\<close>

definition for_us :: "u32 \<Rightarrow> byte \<Rightarrow> 'w net \<Rightarrow> bool" where
  "for_us dip proto s =
     (dip = net_ip s \<or> dip = 0xffffffff \<or> (net_mask s \<noteq> 0 \<and> dip = net_ip s OR NOT (net_mask s))
      \<or> (dhcp_state s \<noteq> DHCP_BOUND \<and> proto = 17))"

definition udp_deliver :: "'w nenv \<Rightarrow> u32 \<Rightarrow> u32 \<Rightarrow> byte list \<Rightarrow> 'w net \<Rightarrow> 'w net option" where
  "udp_deliver e sport dport d s =
     (if dport = 68 \<and> sport = 67 then dhcp_rx e d s
      else if dns_hook s then net_udp_rx sport dport d s
      else Some s)"

definition udp_rx :: "'w nenv \<Rightarrow> byte list \<Rightarrow> 'w net \<Rightarrow> 'w net option" where
  "udp_rx e p s =
     do {
       sport \<leftarrow> rd16 p 0;
       dport \<leftarrow> rd16 p 2;
       ulen \<leftarrow> rd16 p 4;
       if unat ulen < 8 \<or> unat ulen > length p then Some s
       else udp_deliver e sport dport (take (unat ulen - 8) (drop 8 p)) s
     }"

definition ip_dispatch :: "'w nenv \<Rightarrow> u32 \<Rightarrow> byte list \<Rightarrow> byte \<Rightarrow> byte list \<Rightarrow> 'w net \<Rightarrow> 'w net option" where
  "ip_dispatch e sip src proto d s =
     (let s1 = s\<lparr>net_ip_rx := net_ip_rx s + 1\<rparr>;
          s2 = (if sip \<noteq> 0 then arp_learn sip src s1 else s1)
      in if proto = 1 then icmp_rx e sip d s2
         else if proto = 6 then tcp_rx e sip d s2
         else if proto = 17 \<and> length d \<ge> 8 then udp_rx e d s2
         else Some s2)"

definition net_rx :: "'w nenv \<Rightarrow> frame \<Rightarrow> 'w net \<Rightarrow> 'w net option" where
  "net_rx e f s =
     (case f of (dst, src, ty, p) \<Rightarrow>
        if ty = 0x0806 then arp_rx e p s
        else if ty \<noteq> 0x0800 \<or> length p < 20 then Some s
        else do {
          vi \<leftarrow> rd8 p 0;
          if drop_bit 4 vi \<noteq> 4 then Some s
          else do {
            let ihl = unat (vi AND 15) * 4;
            tot \<leftarrow> rd16 p 2;
            if ihl < 20 \<or> unat tot < ihl \<or> unat tot > length p
               \<or> net_csum (take ihl p) 0 AND 0xffff \<noteq> 0xffff
            then Some s
            else do {
              frag \<leftarrow> rd16 p 6;
              if frag AND 0x3fff \<noteq> 0 then Some s
              else do {
                proto \<leftarrow> rd8 p 9;
                sip \<leftarrow> rd32 p 12;
                dip \<leftarrow> rd32 p 16;
                if \<not> for_us dip proto s then Some s
                else ip_dispatch e sip src proto (take (unat tot - ihl) (drop ihl p)) s
              }
            }
          }
        })"

section \<open>Polling the radio\<close>

primrec poll_frames :: "'w nenv \<Rightarrow> nat \<Rightarrow> 'w net \<Rightarrow> 'w net option" where
  "poll_frames e 0 s = Some s"
| "poll_frames e (Suc n) s =
     (let (r, w) = wlan_next e (nw s); s1 = s\<lparr>nw := w\<rparr>
      in case r of None \<Rightarrow> Some s1 | Some f \<Rightarrow> do { s2 \<leftarrow> net_rx e f s1; poll_frames e n s2 })"

definition wlan_poll :: "'w nenv \<Rightarrow> nat \<Rightarrow> 'w net \<Rightarrow> 'w net option" where
  "wlan_poll e ms s = poll_frames e (wlan_most e) (s\<lparr>nw := wlan_start e ms (nw s)\<rparr>)"

text \<open>The loop \<open>for (w = 0; w < n && cond; w++) wlan_poll (100, net_rx)\<close>.\<close>

primrec poll_while :: "'w nenv \<Rightarrow> ('w net \<Rightarrow> bool) \<Rightarrow> nat \<Rightarrow> 'w net \<Rightarrow> 'w net option" where
  "poll_while e c 0 s = Some s"
| "poll_while e c (Suc n) s =
     (if c s then do { s1 \<leftarrow> wlan_poll e 100 s; poll_while e c n s1 } else Some s)"

definition net_rand :: "'w nenv \<Rightarrow> 'w net \<Rightarrow> u32 \<times> 'w net" where
  "net_rand e s =
     (let (c, w) = cycle_count e (nw s);
          x = rand_x s XOR (c + push_bit 6 (rand_x s) + drop_bit 2 (rand_x s))
      in (x, s\<lparr>nw := w, rand_x := x\<rparr>))"

section \<open>DNS, asking\<close>

text \<open>One label: the characters up to a dot or the end of the name, but not past offset 280 of the
  buffer, where the next character would go to offset \<open>p\<close>.\<close>

fun dns_label :: "byte list \<Rightarrow> nat \<Rightarrow> byte list \<times> byte list" where
  "dns_label [] p = ([], [])"
| "dns_label (c # s) p =
     (if c \<noteq> 0x2e \<and> p < 280 then (let (l, r) = dns_label s (p + 1) in (c # l, r)) else ([], c # s))"

lemma dns_label_split: "dns_label s p = (l, r) \<Longrightarrow> s = l @ r"
  by (induction s p arbitrary: l r rule: dns_label.induct) (auto split: prod.splits if_splits)

text \<open>Whether the rest of the name is a dot to be dropped: \<open>if (*s == '.') s++\<close>.\<close>

definition skip_dot :: "byte list \<Rightarrow> byte list" where
  "skip_dot s = (case s of [] \<Rightarrow> [] | c # r \<Rightarrow> if c = 0x2e then r else s)"

text \<open>The labels from offset \<open>p\<close> of the buffer. When the length byte is the last one before offset
  280 the code leaves the loop without having taken a character.\<close>

function dns_encode :: "byte list \<Rightarrow> nat \<Rightarrow> byte list" where
  "dns_encode s p =
     (if s \<noteq> [] \<and> p < 280
      then (let (l, r) = dns_label s (p + 1)
            in of_nat (length l) # l @ dns_encode (skip_dot r) (p + 1 + length l))
      else [])"
  by pat_completeness auto
termination
  by (relation "measure (\<lambda>(s, p). 280 - p)") auto

declare dns_encode.simps [simp del]

definition dns_query :: "u32 \<Rightarrow> byte list \<Rightarrow> byte list" where
  "dns_query i name =
     put_be16 i @ [0x01, 0] @ put_be16 1 @ replicate 6 0 @ dns_encode name 12
     @ [0] @ put_be16 1 @ put_be16 1"

definition dns_try :: "'w nenv \<Rightarrow> byte list \<Rightarrow> 'w net \<Rightarrow> 'w net option" where
  "dns_try e name s =
     (let (a, s1) = net_rand e s;
          (b, s2) = net_rand e s1;
          s3 = s2\<lparr>dns_id := a AND 0xffff, dns_port := 49152 + (b AND 0x3fff), dns_done := False\<rparr>;
          q = dns_query (dns_id s3) name;
          (r, s4) = udp_send e (net_dns s3) (dns_port s3) 53 q s3
      in do {
        s5 \<leftarrow> (if r < 0
               then do { s' \<leftarrow> wlan_poll e 300 s4; Some (snd (udp_send e (net_dns s') (dns_port s') 53 q s')) }
               else Some s4);
        poll_while e (\<lambda>s. \<not> dns_done s) 30 s5
      })"

definition dns_resolve :: "'w nenv \<Rightarrow> byte list \<Rightarrow> 'w net \<Rightarrow> (u32 \<times> 'w net) option" where
  "dns_resolve e name s =
     do {
       s1 \<leftarrow> dns_try e name (s\<lparr>dns_hook := True, dns_result := 0\<rparr>);
       s2 \<leftarrow> (if dns_result s1 = 0 then dns_try e name s1 else Some s1);
       Some (dns_result s2, s2)
     }"

section \<open>TCP, waiting for the peer\<close>

primrec tcp_syn_tries :: "'w nenv \<Rightarrow> u32 \<Rightarrow> nat \<Rightarrow> 'w net \<Rightarrow> 'w net option" where
  "tcp_syn_tries e isn 0 s = Some s"
| "tcp_syn_tries e isn (Suc n) s =
     (if tcp_state s = TCP_SYN_SENT
      then (let (r, s1) = tcp_seg e isn TF_SYN [] s
            in do {
              s2 \<leftarrow> (if r < 0 then wlan_poll e 300 s1
                     else poll_while e (\<lambda>s. tcp_state s = TCP_SYN_SENT) 10 s1);
              tcp_syn_tries e isn n s2
            })
      else Some s)"

definition tcp_connect :: "'w nenv \<Rightarrow> u32 \<Rightarrow> u32 \<Rightarrow> bool \<Rightarrow> 'w net \<Rightarrow> (int \<times> 'w net) option" where
  "tcp_connect e ip port sink s =
     (let (a, s1) = net_rand e (s\<lparr>tcp_sink := sink, tcp_got := [], tcp_rip := ip, tcp_rport := port\<rparr>);
          (isn, s2) = net_rand e (s1\<lparr>tcp_lport := 49152 + (a AND 0x3fff)\<rparr>)
      in do {
        s3 \<leftarrow> tcp_syn_tries e isn 5
                (s2\<lparr>tcp_snd_una := isn, tcp_snd_nxt := isn + 1, tcp_rcv_nxt := 0, tcp_rx_bytes := 0,
                    tcp_dup := 0, tcp_ack_due := 0, tcp_state := TCP_SYN_SENT\<rparr>);
        Some (if tcp_state s3 = TCP_ESTABLISHED then 0 else -1, s3)
      })"

text \<open>One piece \<open>d\<close> of \<open>tcp_write\<close>, sent up to \<open>n\<close> times.\<close>

primrec tcp_piece :: "'w nenv \<Rightarrow> u32 \<Rightarrow> byte list \<Rightarrow> nat \<Rightarrow> 'w net \<Rightarrow> 'w net option" where
  "tcp_piece e seq d 0 s = Some s"
| "tcp_piece e seq d (Suc n) s =
     (if tcp_snd_una s \<noteq> seq + of_nat (length d)
      then do {
        let s1 = (if tcp_state s = TCP_ESTABLISHED
                  then snd (tcp_seg e seq (TF_ACK OR TF_PSH) d s) else s);
        s2 \<leftarrow> poll_while e (\<lambda>s. tcp_snd_una s \<noteq> seq + of_nat (length d)) 10 s1;
        tcp_piece e seq d n s2
      }
      else Some s)"

function tcp_write :: "'w nenv \<Rightarrow> byte list \<Rightarrow> 'w net \<Rightarrow> (int \<times> 'w net) option" where
  "tcp_write e d s =
     (if d \<noteq> [] \<and> tcp_state s = TCP_ESTABLISHED
      then (let c = take TCP_MSS d; nxt = tcp_snd_nxt s + of_nat (length c)
            in case tcp_piece e (tcp_snd_nxt s) c 6 (s\<lparr>tcp_snd_nxt := nxt\<rparr>) of
                 None \<Rightarrow> None
               | Some s1 \<Rightarrow>
                   if tcp_snd_una s1 \<noteq> nxt \<and> sint (tcp_snd_una s1 - nxt) < 0 then Some (-1, s1)
                   else tcp_write e (drop TCP_MSS d) s1)
      else Some (if d \<noteq> [] then -1 else 0, s))"
  by pat_completeness auto
termination
  by (relation "measure (\<lambda>(e, d, s). length d)") (auto simp: TCP_MSS_def)

declare tcp_write.simps [simp del]

text \<open>\<open>tcp_read_all\<close>: the loop ends only when the peer falls silent or closes.\<close>

partial_function (option) tcp_read_loop
  :: "'w nenv \<Rightarrow> u32 \<Rightarrow> u32 \<Rightarrow> u32 \<Rightarrow> 'w net \<Rightarrow> 'w net option" where
  "tcp_read_loop e idle_ms last_rx idle s =
     (if tcp_state s = TCP_ESTABLISHED \<and> idle < idle_ms
      then Option.bind (wlan_poll e 50 s) (\<lambda>s1.
             if tcp_rx_bytes (tcp_ack_flush e s1) \<noteq> last_rx
             then tcp_read_loop e idle_ms (tcp_rx_bytes (tcp_ack_flush e s1)) 0 (tcp_ack_flush e s1)
             else tcp_read_loop e idle_ms last_rx (idle + 50) (tcp_ack_flush e s1))
      else Some s)"

definition tcp_read_all :: "'w nenv \<Rightarrow> u32 \<Rightarrow> 'w net \<Rightarrow> 'w net option" where
  "tcp_read_all e idle_ms s =
     do { s1 \<leftarrow> tcp_read_loop e idle_ms (tcp_rx_bytes s) 0 s; Some (s1\<lparr>tcp_sink := False\<rparr>) }"

section \<open>DHCP, waiting for the server\<close>

primrec dhcp_tries :: "'w nenv \<Rightarrow> nat \<Rightarrow> 'w net \<Rightarrow> 'w net option" where
  "dhcp_tries e 0 s = Some s"
| "dhcp_tries e (Suc n) s =
     (if dhcp_state s \<noteq> DHCP_BOUND
      then do {
        s1 \<leftarrow> wlan_poll e 3000 (dhcp_send e 1 (s\<lparr>dhcp_state := DHCP_SELECTING\<rparr>));
        s2 \<leftarrow> (if dhcp_state s1 = DHCP_REQUESTING then wlan_poll e 3000 s1 else Some s1);
        dhcp_tries e n s2
      }
      else Some s)"

definition dhcp_run :: "'w nenv \<Rightarrow> nat \<Rightarrow> 'w net \<Rightarrow> (int \<times> 'w net) option" where
  "dhcp_run e tries s =
     (let (c, w) = cycle_count e (nw s);
          xid = c XOR push_bit 24 (ucast (own_mac e ! 5)) XOR push_bit 16 (ucast (own_mac e ! 4))
      in do {
        s1 \<leftarrow> dhcp_tries e tries (s\<lparr>nw := w, dhcp_xid := xid\<rparr>);
        Some (if dhcp_state s1 = DHCP_BOUND then 0 else -1, s1)
      })"

end
