(* ===== verification/NetProps.thy ===== *)
theory NetProps
  imports NetTcp "HOL-Library.Sublist"
begin

text \<open>
  What the receive path of \<open>netstack.h\<close> promises: no received frame makes it read outside of the
  frame, what one stack sends another one receives, TCP data reaches the program in order and
  once, the DHCP options and the DNS names are understood as the RFCs write them.
\<close>

section \<open>Reads within the frame\<close>

lemma rd8_some [simp]: "i < length p \<Longrightarrow> rd8 p i = Some (p ! i)"
  by (simp add: rd8_def)

lemma rd8_first [simp]: "8 \<le> length p \<Longrightarrow> rd8 p 0 = Some (p ! 0)"
  by (rule rd8_some) linarith

lemma rd16_some [simp]: "i + 1 < length p \<Longrightarrow> rd16 p i = Some (be16 p i)"
  by (simp add: rd16_def)

lemma rd32_some [simp]: "i + 3 < length p \<Longrightarrow> rd32 p i = Some (get_be32 p i)"
  by (simp add: rd32_def)

lemma arp_rx_some: "arp_rx e a s \<noteq> None"
  by (auto simp: arp_rx_def Let_def)

lemma icmp_rx_some: "icmp_rx e src p s \<noteq> None"
  by (auto simp: icmp_rx_def Let_def split: prod.split)

lemma dhcp_opt_some:
  "i + 2 + n \<le> length d \<Longrightarrow> dhcp_opt d i t n v \<noteq> None"
  by (auto simp: dhcp_opt_def)

lemma dhcp_parse_some: "dhcp_parse d i v \<noteq> None"
proof (induction d i v rule: dhcp_parse.induct)
  case (1 d i v)
  show ?case
  proof (cases "i + 2 \<le> length d")
    case True
    show ?thesis
    proof (cases "d ! i = 255 \<or> d ! i = 0 \<or> i + 2 + unat (d ! (i + 1)) > length d")
      case True
      then show ?thesis
        using \<open>i + 2 \<le> length d\<close> "1.IH"(1) [of "d ! i"]
        by (subst dhcp_parse.simps) auto
    next
      case False
      then obtain v' where v: "dhcp_opt d i (d ! i) (unat (d ! (i + 1))) v = Some v'"
        using dhcp_opt_some [of i "unat (d ! (i + 1))" d "d ! i" v] by auto
      have "dhcp_parse d (i + 2 + unat (d ! (i + 1))) v' \<noteq> None"
        by (rule "1.IH"(2)) (use False True v in simp_all)
      then show ?thesis
        using False True v by (subst dhcp_parse.simps) simp
    qed
  next
    case False
    then show ?thesis by (subst dhcp_parse.simps) simp
  qed
qed

lemma dhcp_rx_some: "dhcp_rx e d s \<noteq> None"
  using dhcp_parse_some [of d 240 no_opts] by (auto simp: dhcp_rx_def)

lemma dns_answers_some: "dns_answers d n p \<noteq> None"
  by (induction n arbitrary: p) (auto simp: Let_def)

lemma dns_rx_some: "dns_rx d s \<noteq> None"
proof -
  obtain r where "dns_answers d (unat (be16 d 6)) (dns_questions d (unat (be16 d 4)) 12) = Some r"
    using dns_answers_some by blast
  then show ?thesis by (auto simp: dns_rx_def Let_def)
qed

lemma tcp_rx_some: "tcp_rx e src p s \<noteq> None"
  by (auto simp: tcp_rx_def Let_def)

lemma udp_rx_some: "8 \<le> length p \<Longrightarrow> udp_rx e p s \<noteq> None"
  by (auto simp: udp_rx_def udp_deliver_def net_udp_rx_def dhcp_rx_some [simplified] dns_rx_some [simplified])

lemma ip_dispatch_some: "ip_dispatch e sip src proto d s \<noteq> None"
  by (auto simp: ip_dispatch_def Let_def icmp_rx_some [simplified] tcp_rx_some [simplified]
      udp_rx_some [simplified])

lemma net_rx_some: "net_rx e f s \<noteq> None"
  by (cases f)
    (auto simp: net_rx_def Let_def arp_rx_some [simplified] ip_dispatch_some [simplified])

lemma poll_frames_some: "poll_frames e n s \<noteq> None"
proof (induction n arbitrary: s)
  case (Suc n)
  obtain r w where n: "wlan_next e (nw s) = (r, w)" by (cases "wlan_next e (nw s)")
  show ?case
  proof (cases r)
    case (Some f)
    obtain s2 where "net_rx e f (s\<lparr>nw := w\<rparr>) = Some s2" using net_rx_some by blast
    then show ?thesis using Suc n Some by simp
  qed (use n in simp)
qed simp


section \<open>The Internet checksum\<close>

text \<open>The sum of the 16-bit words as a number, without wrap-around or folding.\<close>

fun word_sum :: "byte list \<Rightarrow> nat" where
  "word_sum (a # b # p) = 256 * unat a + unat b + word_sum p"
| "word_sum [a] = 256 * unat a"
| "word_sum [] = 0"

lemma unat_ucast_byte [simp]: "unat (ucast (b :: byte) :: u32) = unat b"
  by (simp add: unsigned_ucast_eq take_bit_nat_eq_self_iff order.strict_trans1 [OF unat_byte_le])

lemma byte_shift_less: "unat (a :: byte) * 256 < two32"
  using unat_byte_le [of a] by linarith

lemma unat_be16_word: "unat (push_bit 8 (ucast a) OR ucast b :: u32) = 256 * unat (a :: byte) + unat (b :: byte)"
proof -
  have "push_bit 8 (ucast a) OR ucast b = (ucast b OR push_bit 8 (ucast a) :: u32)"
    by (rule or.commute)
  then have "unat (push_bit 8 (ucast a) OR ucast b :: u32)
      = unat (ucast b :: u32) OR unat (push_bit 8 (ucast a) :: u32)"
    by (simp only: unsigned_or_eq)
  also have "unat (push_bit 8 (ucast a) :: u32) = push_bit 8 (unat a)"
    unfolding unsigned_push_bit_eq unat_ucast_byte
    by (rule take_bit_nat_eq_self) (simp add: push_bit_nat_mult byte_shift_less)
  also have "unat (ucast b :: u32) OR push_bit 8 (unat a) = unat b + push_bit 8 (unat a)"
    unfolding unat_ucast_byte by (rule or_shift_add) simp
  finally show ?thesis by (simp add: push_bit_nat_mult)
qed

lemma word_sum_le: "word_sum p \<le> 65535 * length p"
proof (induction p rule: word_sum.induct)
  case (1 a b p)
  have "256 * unat a + unat b \<le> 131070" using unat_byte_le [of a] unat_byte_le [of b] by linarith
  then show ?case using 1 by simp
next
  case (2 a)
  have "256 * unat a \<le> 65535" using unat_byte_le [of a] by linarith
  then show ?case by simp
qed simp

lemma unat_csum_words:
  "word_sum p + unat s < two32 \<Longrightarrow> unat (csum_words p s) = word_sum p + unat s"
proof (induction p s rule: csum_words.induct)
  case (1 a b p s)
  have "unat (s + (push_bit 8 (ucast a) OR ucast b)) = unat s + (256 * unat a + unat b)"
    using 1(2) by (subst unat_add_lem [THEN iffD1]) (simp_all add: unat_be16_word)
  then show ?case using 1 by simp
next
  case (2 a s)
  have "unat (push_bit 8 (ucast a) :: u32) = 256 * unat a"
    using unat_be16_word [of a 0] by simp
  then show ?case
    using 2 by (simp add: unat_add_lem [THEN iffD1])
qed simp

lemma unat_csum_fold:
  "unat (csum_fold s) \<le> 65535 \<and> unat (csum_fold s) mod 65535 = unat s mod 65535
    \<and> (csum_fold s = 0 \<longleftrightarrow> s = 0)"
proof (induction s rule: csum_fold.induct)
  case (1 s)
  show ?case
  proof (cases "drop_bit 16 s = 0")
    case True
    have "unat s div 65536 = unat (drop_bit 16 s)" by (simp only: unat_drop_bit) simp
    then have "unat s div 65536 = 0" unfolding True by simp
    then have "unat s \<le> 65535" by linarith
    then show ?thesis using True by (subst (1 2 3) csum_fold.simps) simp
  next
    case False
    let ?t = "(s AND 0xffff) + drop_bit 16 s"
    have t: "unat ?t = unat s mod 65536 + unat s div 65536"
      by (rule csum_fold_less) (rule False)
    have "unat s = 65535 * (unat s div 65536) + unat ?t"
      unfolding t using mult_div_mod_eq [of 65536 "unat s"] by linarith
    then have "unat s mod 65535 = unat ?t mod 65535" by (metis mod_mult_self4)
    moreover have "?t \<noteq> 0"
    proof
      assume "?t = 0"
      then have "unat s mod 65536 + unat s div 65536 = 0" using t by simp
      then have "unat s = 0" using mult_div_mod_eq [of 65536 "unat s"] by simp
      then have "s = 0" by (simp only: unat_eq_zero)
      then show False using False by simp
    qed
    moreover have "s \<noteq> 0" using False by auto
    ultimately show ?thesis
      using "1" [OF False] False by (subst (1 2 3) csum_fold.simps) simp
  qed
qed

lemma net_csum_props:
  assumes "word_sum p + unat s < two32"
  shows "unat (net_csum p s) \<le> 65535"
    and "unat (net_csum p s) mod 65535 = (word_sum p + unat s) mod 65535"
    and "net_csum p s = 0 \<longleftrightarrow> word_sum p + unat s = 0"
  unfolding net_csum_def
  using unat_csum_fold [of "csum_words p s"] unat_csum_words [OF assms]
  by (simp_all add: unat_eq_zero [symmetric])

lemma net_csum_ffff:
  assumes "word_sum p + unat s < two32" "word_sum p + unat s \<noteq> 0" "(word_sum p + unat s) mod 65535 = 0"
  shows "net_csum p s = 0xffff"
proof -
  note c = net_csum_props [OF assms(1)]
  have "unat (net_csum p s) \<noteq> 0" using c(3) assms(2) by (simp add: unat_eq_zero)
  moreover have "unat (net_csum p s) mod 65535 = 0" using c(2) assms(3) by simp
  ultimately have "unat (net_csum p s) = 65535"
    using c(1) by (cases "unat (net_csum p s) = 65535") simp_all
  then have "unat (net_csum p s) = unat (0xffff :: u32)" by simp
  then show ?thesis by (simp only: word_unat_eq_iff)
qed

lemma word_sum_append: "even (length xs) \<Longrightarrow> word_sum (xs @ ys) = word_sum xs + word_sum ys"
  by (induction xs rule: word_sum.induct) auto

lemma word_sum_put_be16: "unat v \<le> 65535 \<Longrightarrow> word_sum (put_be16 v) = unat v"
proof -
  assume v: "unat v \<le> 65535"
  have b: "be16 (put_be16 v) 0 = v" by (rule be16_put) (use v in \<open>simp add: word_less_nat_alt\<close>)
  have "word_sum (put_be16 v) = unat (be16 (put_be16 v) 0)"
    unfolding be16_def put_be16_def by (simp add: unat_be16_word)
  then show ?thesis unfolding b .
qed

lemma unat_not_ffff: "unat (c :: u32) \<le> 65535 \<Longrightarrow> unat (NOT c AND 0xffff) = 65535 - unat c"
proof -
  assume c: "unat c \<le> 65535"
  have "take_bit 16 c = c"
    using c by (simp add: word_unat_eq_iff unsigned_take_bit_eq take_bit_nat_eq_self_iff)
  then have cm: "c AND 0xffff = c"
    by (simp add: take_bit_eq_mask mask_eq_exp_minus_1)
  have "c AND (NOT c AND 0xffff) = 0"
    by (simp add: and.assoc [symmetric])
  moreover have "c OR (NOT c AND 0xffff) = 0xffff"
  proof -
    have "c OR (NOT c AND 0xffff) = (c AND 0xffff) OR (NOT c AND 0xffff)" unfolding cm ..
    also have "\<dots> = (c OR NOT c) AND 0xffff" by (simp only: bit.conj_disj_distrib2)
    finally show ?thesis by simp
  qed
  ultimately have sm: "c + (NOT c AND 0xffff) = 0xffff"
    using word_plus_and_or [of c "NOT c AND 0xffff"] by simp
  have "unat (NOT c AND 0xffff) \<le> 65535"
    unfolding unat_and_ffff using mod_less_divisor [of 65536 "unat (NOT c)"] by linarith
  then have "unat (c + (NOT c AND 0xffff)) = unat c + unat (NOT c AND 0xffff)"
    using c by (subst unat_add_lem [THEN iffD1]) simp_all
  then show ?thesis unfolding sm by simp
qed

text \<open>The complement of the sum over a field of zeros makes the sum all ones.\<close>

lemma checksum_closes:
  assumes ev: "even (length a)" and short: "length (a @ b) \<le> 60000" "unat s \<le> 65535"
    and nz: "word_sum a + word_sum b + unat s \<noteq> 0"
  shows "net_csum (a @ put_be16 (NOT (net_csum (a @ put_be16 0 @ b) s) AND 0xffff) @ b) s = 0xffff"
proof -
  let ?w = "word_sum a + word_sum b + unat s"
  have ws: "word_sum (a @ put_be16 v @ b) = word_sum a + unat v + word_sum b" if "unat v \<le> 65535" for v
    using that ev by (simp add: word_sum_append word_sum_put_be16)
  have "word_sum a + word_sum b \<le> 65535 * length (a @ b)"
    using word_sum_le [of a] word_sum_le [of b] by simp
  also have "\<dots> \<le> 65535 * 60000" using short by (intro mult_le_mono2) simp
  finally have small: "?w + 65535 < two32" using short by simp
  define c where "c = net_csum (a @ put_be16 0 @ b) s"
  have z: "word_sum (a @ put_be16 0 @ b) = word_sum a + word_sum b" using ws [of 0] by simp
  have sz: "word_sum (a @ put_be16 0 @ b) + unat s < two32" unfolding z using small by linarith
  note cp = net_csum_props [OF sz, folded c_def, unfolded z]
  define k where "k = NOT c AND 0xffff"
  have k: "unat k = 65535 - unat c" unfolding k_def by (rule unat_not_ffff) (rule cp(1))
  have wk: "word_sum (a @ put_be16 k @ b) + unat s = ?w + (65535 - unat c)"
    using ws [of k] k by simp
  have "(?w + (65535 - unat c)) mod 65535 = (unat c + (65535 - unat c)) mod 65535"
    using cp(2) by (metis mod_add_left_eq)
  then have m: "(?w + (65535 - unat c)) mod 65535 = 0" using cp(1) by simp
  have "net_csum (a @ put_be16 k @ b) s = 0xffff"
  proof (rule net_csum_ffff)
    show "word_sum (a @ put_be16 k @ b) + unat s \<noteq> 0" unfolding wk using nz by (metis add_is_0)
    show "(word_sum (a @ put_be16 k @ b) + unat s) mod 65535 = 0" unfolding wk by (rule m)
    show "word_sum (a @ put_be16 k @ b) + unat s < two32" unfolding wk using small by linarith
  qed
  then show ?thesis unfolding k_def c_def .
qed

lemma ip_header_checksum:
  "net_csum (ip_header s dst proto n (NOT (net_csum (ip_header s dst proto n 0) 0) AND 0xffff)) 0 = 0xffff"
proof -
  let ?a = "[0x45, 0] @ put_be16 (of_nat (20 + n)) @ put_be16 (ip_id s) @ put_be16 0 @ [64, proto]"
  let ?b = "put_be32 (net_ip s) @ put_be32 dst"
  have h: "ip_header s dst proto n v = ?a @ put_be16 v @ ?b" for v
    by (simp add: ip_header_def)
  show ?thesis unfolding h by (rule checksum_closes) simp_all
qed

section \<open>What one stack sends another one receives\<close>

lemma be16_put_bytes:
  "unat v < 65536 \<Longrightarrow> push_bit 8 (ucast (ucast (drop_bit 8 v) :: byte)) OR ucast (ucast v :: byte) = (v :: u32)"
  using be16_put [of v] by (simp add: be16_def put_be16_def word_less_nat_alt)

lemma be32_put_bytes:
  "push_bit 24 (ucast (ucast (drop_bit 24 v) :: byte)) OR push_bit 16 (ucast (ucast (drop_bit 16 v) :: byte))
     OR push_bit 8 (ucast (ucast (drop_bit 8 v) :: byte)) OR ucast (ucast v :: byte) = (v :: u32)"
  using get_put_be32 [of v] by (simp add: get_be32_def put_be32_def)

lemma unat_of_nat_u32: "n < two32 \<Longrightarrow> unat (of_nat n :: u32) = n"
  by (simp add: unat_of_nat)

lemma length_ip_header [simp]: "length (ip_header s dst proto n ck) = 20"
  by (simp add: ip_header_def)

lemma ip_header_fields:
  assumes "n \<le> 1480"
  shows "(ip_header s dst proto n ck @ d) ! 0 = 0x45"
    and "be16 (ip_header s dst proto n ck @ d) 2 = of_nat (20 + n)"
    and "be16 (ip_header s dst proto n ck @ d) 6 = 0"
    and "(ip_header s dst proto n ck @ d) ! 9 = proto"
    and "get_be32 (ip_header s dst proto n ck @ d) 12 = net_ip s"
    and "get_be32 (ip_header s dst proto n ck @ d) 16 = dst"
  using assms
  by (simp_all add: ip_header_def put_be16_def put_be32_def be16_def get_be32_def be32_put_bytes
      be16_put_bytes unat_of_nat_u32 del: of_nat_add)

lemma net_rx_ip_packet:
  assumes n: "length d \<le> 1480" and us: "for_us dst proto s2"
    and ck: "ck = NOT (net_csum (ip_header s dst proto (length d) 0) 0) AND 0xffff"
  shows "net_rx e (m, src, 0x0800, ip_header s dst proto (length d) ck @ d) s2
    = ip_dispatch e (net_ip s) src proto d s2"
proof -
  let ?h = "ip_header s dst proto (length d) ck"
  have t: "unat (of_nat (20 + length d) :: u32) = 20 + length d"
    by (rule unat_of_nat_u32) (use n in simp)
  have c: "net_csum ?h 0 AND 0xffff = 0xffff"
    unfolding ck ip_header_checksum by simp
  show ?thesis
    unfolding net_rx_def prod.case
    by (simp add: ip_header_fields [OF n] t c us Let_def del: of_nat_add)
qed

lemma udp_rx_datagram:
  assumes n: "length d \<le> 1472" and p: "unat sport < 65536" "unat dport < 65536"
  shows "udp_rx e (put_be16 sport @ put_be16 dport @ put_be16 (of_nat (8 + length d)) @ put_be16 0 @ d) s
    = udp_deliver e sport dport d s"
proof -
  let ?p = "put_be16 sport @ put_be16 dport @ put_be16 (of_nat (8 + length d)) @ put_be16 0 @ d"
  have t: "unat (of_nat (8 + length d) :: u32) = 8 + length d"
    by (rule unat_of_nat_u32) (use n in simp)
  have "be16 ?p 0 = sport" "be16 ?p 2 = dport" "be16 ?p 4 = of_nat (8 + length d)"
    using n p by (simp_all add: put_be16_def be16_def be16_put_bytes t del: of_nat_add)
  then show ?thesis
    unfolding udp_rx_def by (simp add: t del: of_nat_add)
qed

text \<open>The route of \<open>ip_send\<close>: the destination, or the gateway when it is outside of our network, and
  the Ethernet address, when it is known.\<close>

definition next_hop :: "u32 \<Rightarrow> 'w net \<Rightarrow> u32" where
  "next_hop dst s =
     (if net_mask s \<noteq> 0 \<and> dst AND net_mask s \<noteq> net_ip s AND net_mask s then net_gw s else dst)"

definition hop_mac :: "u32 \<Rightarrow> 'w net \<Rightarrow> byte list option" where
  "hop_mac dst s = (if dst = 0xffffffff then Some bcast else arp_lookup (next_hop dst s) s)"

lemma ip_send_known:
  assumes "length d \<le> 1480" "hop_mac dst s = Some m"
  shows "ip_send e dst proto d s
    = send_frame e m 0x0800 (ip_header s dst proto (length d)
        (NOT (net_csum (ip_header s dst proto (length d) 0) 0) AND 0xffff) @ d) (s\<lparr>ip_id := ip_id s + 1\<rparr>)"
  using assms unfolding ip_send_def hop_mac_def next_hop_def Let_def by simp

lemma ip_send_unknown:
  assumes "length d \<le> 1480" "hop_mac dst s = None"
  shows "ip_send e dst proto d s = (-1, arp_send e 1 [] (next_hop dst s) s)"
  using assms unfolding ip_send_def hop_mac_def next_hop_def Let_def by (simp split: if_splits)

text \<open>
  C24: \<open>udp_send\<close> to a destination whose Ethernet address is known hands the radio one IPv4 packet
  with a right header checksum, and \<open>net_rx\<close> of any stack that the destination address names takes
  that packet for a datagram with exactly the ports and the bytes that were sent.
\<close>
theorem udp_send_received:
  assumes n: "length d \<le> 1472" and p: "unat sport < 65536" "unat dport < 65536"
    and m: "hop_mac dst s = Some mac"
  shows "\<exists>pkt. udp_send e dst sport dport d s = send_frame e mac 0x0800 pkt (s\<lparr>ip_id := ip_id s + 1\<rparr>)
    \<and> length pkt = 28 + length d
    \<and> (\<forall>e2 src s2. for_us dst 17 s2 \<longrightarrow>
         net_rx e2 (mac, src, 0x0800, pkt) s2
         = udp_deliver e2 sport dport d
             (let s3 = s2\<lparr>net_ip_rx := net_ip_rx s2 + 1\<rparr>
              in if net_ip s \<noteq> 0 then arp_learn (net_ip s) src s3 else s3))"
proof -
  let ?u = "put_be16 sport @ put_be16 dport @ put_be16 (of_nat (8 + length d)) @ put_be16 0 @ d"
  have u: "length ?u \<le> 1480" "length ?u = 8 + length d" using n by simp_all
  define ck where "ck = NOT (net_csum (ip_header s dst 17 (length ?u) 0) 0) AND 0xffff"
  define pkt where "pkt = ip_header s dst 17 (length ?u) ck @ ?u"
  have "udp_send e dst sport dport d s = send_frame e mac 0x0800 pkt (s\<lparr>ip_id := ip_id s + 1\<rparr>)"
    using n ip_send_known [OF u(1) m, of e 17] unfolding udp_send_def pkt_def ck_def by simp
  moreover have "length pkt = 28 + length d" unfolding pkt_def by simp
  moreover have "net_rx e2 (mac, src, 0x0800, pkt) s2
         = udp_deliver e2 sport dport d
             (let s3 = s2\<lparr>net_ip_rx := net_ip_rx s2 + 1\<rparr>
              in if net_ip s \<noteq> 0 then arp_learn (net_ip s) src s3 else s3)"
    if "for_us dst 17 s2" for e2 src s2
    unfolding pkt_def net_rx_ip_packet [OF u(1) that ck_def] ip_dispatch_def Let_def
    by (simp only: udp_rx_datagram [OF n p] u(2)) simp
  ultimately show ?thesis by blast
qed

text \<open>A radio that takes every frame and never hears one, for examples.\<close>

definition quiet_env :: "unit nenv" where
  "quiet_env = \<lparr>own_mac = [2, 0, 0, 0, 0, 1], wlan_send = (\<lambda>w _ _ _. (0, w)), wlan_start = (\<lambda>_ w. w),
     wlan_next = (\<lambda>w. (None, w)), wlan_most = 0, cycle_count = (\<lambda>w. (7, w))\<rparr>"

theorem udp_send_received_witness:
  "hop_mac 0xffffffff (net_start ()) = Some bcast
    \<and> (\<exists>pkt. udp_send quiet_env 0xffffffff 5 7 [1, 2, 3] (net_start ())
          = send_frame quiet_env bcast 0x0800 pkt ((net_start ())\<lparr>ip_id := ip_id (net_start ()) + 1\<rparr>)
        \<and> length pkt = 28 + length ([1, 2, 3] :: byte list)
        \<and> (\<forall>(e2 :: unit nenv) src s2. for_us 0xffffffff 17 s2 \<longrightarrow>
             net_rx e2 (bcast, src, 0x0800, pkt) s2
             = udp_deliver e2 5 7 [1, 2, 3]
                 (let s3 = s2\<lparr>net_ip_rx := net_ip_rx s2 + 1\<rparr>
                  in if net_ip (net_start ()) \<noteq> 0 then arp_learn (net_ip (net_start ())) src s3 else s3)))"
proof
  show m: "hop_mac 0xffffffff (net_start ()) = Some bcast" by (simp add: hop_mac_def)
  show "\<exists>pkt. udp_send quiet_env 0xffffffff 5 7 [1, 2, 3] (net_start ())
          = send_frame quiet_env bcast 0x0800 pkt ((net_start ())\<lparr>ip_id := ip_id (net_start ()) + 1\<rparr>)
        \<and> length pkt = 28 + length ([1, 2, 3] :: byte list)
        \<and> (\<forall>(e2 :: unit nenv) src s2. for_us 0xffffffff 17 s2 \<longrightarrow>
             net_rx e2 (bcast, src, 0x0800, pkt) s2
             = udp_deliver e2 5 7 [1, 2, 3]
                 (let s3 = s2\<lparr>net_ip_rx := net_ip_rx s2 + 1\<rparr>
                  in if net_ip (net_start ()) \<noteq> 0 then arp_learn (net_ip (net_start ())) src s3 else s3))"
    by (rule udp_send_received) (simp_all add: m)
qed

section \<open>TCP: what a segment changes\<close>

text \<open>Sending touches the radio and the packet counter only.\<close>

lemma ip_send_only: "\<exists>w i. snd (ip_send e dst proto d s) = s\<lparr>nw := w, ip_id := i\<rparr>"
proof (cases "length d \<le> 1480")
  case True
  show ?thesis
  proof (cases "hop_mac dst s")
    case None
    obtain r w where "wlan_send e (nw s) bcast 0x0806 (arp_packet e (net_ip s) 1 [] (next_hop dst s)) = (r, w)"
      by (cases "wlan_send e (nw s) bcast 0x0806 (arp_packet e (net_ip s) 1 [] (next_hop dst s))")
    then have "snd (ip_send e dst proto d s) = s\<lparr>nw := w, ip_id := ip_id s\<rparr>"
      unfolding ip_send_unknown [OF True None] arp_send_def send_frame_def by simp
    then show ?thesis by blast
  next
    case (Some m)
    have "\<exists>w. snd (send_frame e m ty p s') = s'\<lparr>nw := w\<rparr>" for ty p s'
      unfolding send_frame_def by (cases "wlan_send e (nw s') m ty p") auto
    then obtain w where "snd (ip_send e dst proto d s) = (s\<lparr>ip_id := ip_id s + 1\<rparr>)\<lparr>nw := w\<rparr>"
      unfolding ip_send_known [OF True Some] by blast
    then have "snd (ip_send e dst proto d s) = s\<lparr>nw := w, ip_id := ip_id s + 1\<rparr>" by simp
    then show ?thesis by blast
  qed
next
  case False
  then have "snd (ip_send e dst proto d s) = s\<lparr>nw := nw s, ip_id := ip_id s\<rparr>"
    unfolding ip_send_def by simp
  then show ?thesis by blast
qed

lemma tcp_seg_only:
  obtains w i where "snd (tcp_seg e seq fl d s) = s\<lparr>nw := w, ip_id := i\<rparr>"
proof (cases "tcp_hl fl + length d > 1480")
  case True
  then have "snd (tcp_seg e seq fl d s) = s\<lparr>nw := nw s, ip_id := ip_id s\<rparr>"
    unfolding tcp_seg_def Let_def by simp
  then show ?thesis by (rule that)
next
  case False
  then obtain p where p: "tcp_seg e seq fl d s = ip_send e (tcp_rip s) 6 p s"
    unfolding tcp_seg_def Let_def by simp
  show ?thesis
    using ip_send_only [of e "tcp_rip s" 6 p s] that unfolding p by blast
qed

text \<open>The fields of a connection, and that an ACK leaves them alone, but for the ACK counter.\<close>

definition conn :: "'w net \<Rightarrow> (u32 \<times> u32 \<times> u32) \<times> bool" where
  "conn s = ((tcp_rip s, tcp_rport s, tcp_lport s), tcp_sink s)"

definition rcvd :: "'w net \<Rightarrow> byte list \<times> u32 \<times> u32" where
  "rcvd s = (tcp_got s, tcp_rcv_nxt s, tcp_rx_bytes s)"

lemma tcp_send_ack_keeps:
  "conn (tcp_send_ack e s) = conn s \<and> rcvd (tcp_send_ack e s) = rcvd s
    \<and> tcp_state (tcp_send_ack e s) = tcp_state s"
  by (rule tcp_seg_only [of e "tcp_snd_nxt s" TF_ACK "[]" s])
    (simp add: tcp_send_ack_def conn_def rcvd_def)

lemma tcp_delayed_ack_keeps:
  "conn (tcp_delayed_ack e fl n s) = conn s \<and> rcvd (tcp_delayed_ack e fl n s) = rcvd s
    \<and> tcp_state (tcp_delayed_ack e fl n s) = tcp_state s"
  unfolding tcp_delayed_ack_def using tcp_send_ack_keeps [of e s] by simp

lemma tcp_take_ack_keeps:
  "conn (tcp_take_ack ack fl s) = conn s \<and> rcvd (tcp_take_ack ack fl s) = rcvd s
    \<and> tcp_state (tcp_take_ack ack fl s) = tcp_state s"
  by (simp add: tcp_take_ack_def conn_def rcvd_def)

lemma tcp_take_fin_effect:
  "conn (tcp_take_fin e seq fl n s) = conn s
    \<and> rcvd (tcp_take_fin e seq fl n s) =
        (tcp_got s,
         if fl AND TF_FIN \<noteq> 0 \<and> seq + of_nat n = tcp_rcv_nxt s then tcp_rcv_nxt s + 1 else tcp_rcv_nxt s,
         tcp_rx_bytes s)
    \<and> tcp_state (tcp_take_fin e seq fl n s) =
        (if fl AND TF_FIN \<noteq> 0 \<and> seq + of_nat n = tcp_rcv_nxt s then TCP_DONE else tcp_state s)"
proof -
  let ?s1 = "s\<lparr>tcp_rcv_nxt := tcp_rcv_nxt s + 1\<rparr>"
  show ?thesis
    by (rule tcp_seg_only [of e "tcp_snd_nxt ?s1" "TF_FIN OR TF_ACK" "[]" ?s1])
      (simp add: tcp_take_fin_def conn_def rcvd_def Let_def)
qed

lemma tcp_take_data_effect:
  "conn (tcp_take_data seq d s) = conn s
    \<and> rcvd (tcp_take_data seq d s) =
        (if d \<noteq> [] \<and> seq = tcp_rcv_nxt s
         then (if tcp_sink s then tcp_got s @ d else tcp_got s,
               tcp_rcv_nxt s + of_nat (length d), tcp_rx_bytes s + of_nat (length d))
         else rcvd s)
    \<and> tcp_state (tcp_take_data seq d s) = tcp_state s"
  by (simp add: tcp_take_data_def conn_def rcvd_def)

lemma tcp_segment_effect:
  assumes "tcp_state s \<noteq> TCP_SYN_SENT" "fl AND TF_RST = 0" "tcp_sink s"
    and new: "rcv' = (if d \<noteq> [] \<and> seq = tcp_rcv_nxt s then tcp_rcv_nxt s + of_nat (length d) else tcp_rcv_nxt s)"
    and fin: "fin \<longleftrightarrow> fl AND TF_FIN \<noteq> 0 \<and> seq + of_nat (length d) = rcv'"
  shows "conn (tcp_segment e seq ack fl d s) = conn s"
    and "rcvd (tcp_segment e seq ack fl d s) =
      (if d \<noteq> [] \<and> seq = tcp_rcv_nxt s then tcp_got s @ d else tcp_got s,
       if fin then rcv' + 1 else rcv',
       if d \<noteq> [] \<and> seq = tcp_rcv_nxt s then tcp_rx_bytes s + of_nat (length d) else tcp_rx_bytes s)"
    and "tcp_state (tcp_segment e seq ack fl d s) = (if fin then TCP_DONE else tcp_state s)"
proof -
  let ?s1 = "tcp_take_ack ack fl s"
  let ?s2 = "tcp_take_data seq d ?s1"
  let ?s3 = "tcp_take_fin e seq fl (length d) ?s2"
  have seg: "tcp_segment e seq ack fl d s = tcp_delayed_ack e fl (length d) ?s3"
    using assms by (simp add: tcp_segment_def)
  have 1: "tcp_sink ?s1" "tcp_rcv_nxt ?s1 = tcp_rcv_nxt s" "tcp_got ?s1 = tcp_got s"
      "tcp_rx_bytes ?s1 = tcp_rx_bytes s"
    using tcp_take_ack_keeps [of ack fl s] assms(3) by (simp_all add: conn_def rcvd_def)
  have 2: "tcp_got ?s2 = (if d \<noteq> [] \<and> seq = tcp_rcv_nxt s then tcp_got s @ d else tcp_got s)"
      "tcp_rcv_nxt ?s2 = rcv'"
      "tcp_rx_bytes ?s2 = (if d \<noteq> [] \<and> seq = tcp_rcv_nxt s then tcp_rx_bytes s + of_nat (length d) else tcp_rx_bytes s)"
    using tcp_take_data_effect [of seq d ?s1] 1 unfolding new rcvd_def by (auto split: if_splits)
  show "conn (tcp_segment e seq ack fl d s) = conn s"
    unfolding seg using tcp_delayed_ack_keeps [of e fl "length d" ?s3] tcp_take_fin_effect [of e seq fl "length d" ?s2]
      tcp_take_data_effect [of seq d ?s1] tcp_take_ack_keeps [of ack fl s] by simp
  show "rcvd (tcp_segment e seq ack fl d s) =
      (if d \<noteq> [] \<and> seq = tcp_rcv_nxt s then tcp_got s @ d else tcp_got s,
       if fin then rcv' + 1 else rcv',
       if d \<noteq> [] \<and> seq = tcp_rcv_nxt s then tcp_rx_bytes s + of_nat (length d) else tcp_rx_bytes s)"
    unfolding seg fin using tcp_delayed_ack_keeps [of e fl "length d" ?s3]
      tcp_take_fin_effect [of e seq fl "length d" ?s2] 2 by simp
  show "tcp_state (tcp_segment e seq ack fl d s) = (if fin then TCP_DONE else tcp_state s)"
    unfolding seg fin using tcp_delayed_ack_keeps [of e fl "length d" ?s3]
      tcp_take_fin_effect [of e seq fl "length d" ?s2]
      tcp_take_data_effect [of seq d ?s1] tcp_take_ack_keeps [of ack fl s] 2 by simp
qed

section \<open>TCP: the stream of the peer\<close>

text \<open>A segment for the connection, and what a peer may send that has the bytes \<open>str\<close> to say and
  the initial sequence number \<open>irs\<close>: a SYN without data, or any piece of the stream at its place,
  the FIN only with the last byte, in any order and as often as it likes. It does not reset the
  connection.\<close>

definition tcp_match :: "'w net \<Rightarrow> u32 \<Rightarrow> byte list \<Rightarrow> bool" where
  "tcp_match s src p = (20 \<le> length p \<and> src = tcp_rip s \<and> be16 p 0 = tcp_rport s \<and> be16 p 2 = tcp_lport s
     \<and> 20 \<le> unat (drop_bit 4 (p ! 12)) * 4 \<and> unat (drop_bit 4 (p ! 12)) * 4 \<le> length p)"

definition seg_data :: "byte list \<Rightarrow> byte list" where
  "seg_data p = drop (unat (drop_bit 4 (p ! 12)) * 4) p"

definition peer_seg :: "u32 \<Rightarrow> byte list \<Rightarrow> u32 \<Rightarrow> byte \<Rightarrow> byte list \<Rightarrow> bool" where
  "peer_seg irs str seq fl d =
     (fl AND TF_RST = 0
      \<and> (if fl AND TF_SYN \<noteq> 0 then seq = irs \<and> d = [] \<and> fl AND TF_FIN = 0
      else \<exists>i\<le>length str. i + length d \<le> length str \<and> d = take (length d) (drop i str)
             \<and> seq = irs + 1 + of_nat i \<and> (fl AND TF_FIN \<noteq> 0 \<longrightarrow> i + length d = length str)))"

fun tcp_rx_all :: "'w nenv \<Rightarrow> (u32 \<times> byte list) list \<Rightarrow> 'w net \<Rightarrow> 'w net option" where
  "tcp_rx_all e [] s = Some s"
| "tcp_rx_all e ((src, p) # ps) s = Option.bind (tcp_rx e src p s) (tcp_rx_all e ps)"

lemma tcp_rx_match:
  "tcp_rx e src p s = Some (if tcp_match s src p \<and> tcp_state s \<noteq> TCP_CLOSED
     then tcp_segment e (get_be32 p 4) (get_be32 p 8) (p ! 13) (seg_data p) s else s)"
  by (auto simp: tcp_rx_def tcp_match_def seg_data_def Let_def)

text \<open>What has arrived: \<open>n\<close> bytes of the stream, and maybe the FIN after the last one.\<close>

definition got_prefix :: "u32 \<Rightarrow> byte list \<Rightarrow> 'w net \<Rightarrow> bool" where
  "got_prefix irs str s = (\<exists>n\<le>length str. (tcp_state s \<noteq> TCP_DONE \<and> rcvd s = (take n str, irs + 1 + of_nat n, of_nat n))
     \<or> (n = length str \<and> tcp_state s = TCP_DONE \<and> rcvd s = (str, irs + 1 + of_nat n + 1, of_nat n)))"

text \<open>Before the handshake nothing has arrived and the next number is not yet known.\<close>

definition stream_ok :: "u32 \<Rightarrow> byte list \<Rightarrow> (u32 \<times> u32 \<times> u32) \<Rightarrow> 'w net \<Rightarrow> bool" where
  "stream_ok irs str c s = (conn s = (c, True)
     \<and> (if tcp_state s = TCP_SYN_SENT then tcp_got s = [] \<and> tcp_rx_bytes s = 0
        else got_prefix irs str s))"

lemma offset_eq:
  "a < two32 \<Longrightarrow> b < two32 \<Longrightarrow> (c + of_nat a = (c + of_nat b :: u32)) \<longleftrightarrow> a = b"
proof -
  assume "a < two32" "b < two32"
  then have "(of_nat a = (of_nat b :: u32)) \<longleftrightarrow> a = b"
    by (metis unat_of_nat_u32)
  then show ?thesis by simp
qed

lemma of_nat_Suc_offset: "c + of_nat n + 1 = (c + of_nat (Suc n) :: u32)"
  by (simp add: algebra_simps)

lemma synack_stream_ok:
  assumes ok: "stream_ok irs str c s" and st: "tcp_state s = TCP_SYN_SENT"
    and seg: "peer_seg irs str seq fl d"
  shows "stream_ok irs str c (tcp_segment e seq ack fl d s)"
proof -
  have seg': "tcp_segment e seq ack fl d s = tcp_synack e seq ack fl s"
    using seg st by (simp add: tcp_segment_def peer_seg_def)
  show ?thesis
  proof (cases "fl AND (TF_SYN OR TF_ACK) = TF_SYN OR TF_ACK \<and> ack = tcp_snd_nxt s")
    case True
    have "(fl AND (TF_SYN OR TF_ACK)) AND TF_SYN = TF_SYN"
      using True by (simp add: TF_SYN_def TF_ACK_def)
    then have "fl AND TF_SYN \<noteq> 0" by (auto simp: and.assoc TF_SYN_def TF_ACK_def)
    then have "seq = irs" using seg by (simp add: peer_seg_def)
    let ?s1 = "s\<lparr>tcp_rcv_nxt := seq + 1, tcp_snd_una := ack, tcp_state := TCP_ESTABLISHED\<rparr>"
    obtain w i where "snd (tcp_seg e (tcp_snd_nxt s) TF_ACK [] ?s1) = ?s1\<lparr>nw := w, ip_id := i\<rparr>"
      by (rule tcp_seg_only)
    then have "tcp_segment e seq ack fl d s = ?s1\<lparr>nw := w, ip_id := i\<rparr>"
      unfolding seg' tcp_synack_def using True by simp
    then show ?thesis
      using ok st \<open>seq = irs\<close> by (simp add: stream_ok_def got_prefix_def conn_def rcvd_def exI [of _ 0])
  next
    case False
    then have "tcp_segment e seq ack fl d s = s" unfolding seg' tcp_synack_def by (rule if_not_P)
    then show ?thesis using ok by simp
  qed
qed

lemma data_stream_ok:
  assumes ok: "stream_ok irs str c s" and st: "tcp_state s \<noteq> TCP_SYN_SENT"
    and seg: "peer_seg irs str seq fl d" and len: "length str + 2 < two32"
  shows "stream_ok irs str c (tcp_segment e seq ack fl d s)"
proof -
  define rcv where "rcv = (if d \<noteq> [] \<and> seq = tcp_rcv_nxt s then tcp_rcv_nxt s + of_nat (length d) else tcp_rcv_nxt s)"
  define fin where "fin \<longleftrightarrow> fl AND TF_FIN \<noteq> 0 \<and> seq + of_nat (length d) = rcv"
  have sink: "tcp_sink s" and cn: "conn s = (c, True)" using ok by (simp_all add: stream_ok_def conn_def)
  have rst: "fl AND TF_RST = 0" using seg by (simp add: peer_seg_def)
  note eff = tcp_segment_effect [OF st rst sink rcv_def fin_def, of e ack]
  let ?s = "tcp_segment e seq ack fl d s"
  have st': "tcp_state ?s \<noteq> TCP_SYN_SENT" using eff(3) st by (simp split: if_splits)
  from ok st have "got_prefix irs str s" by (simp add: stream_ok_def)
  then obtain n where n: "n \<le> length str" and
    pre: "(tcp_state s \<noteq> TCP_DONE \<and> rcvd s = (take n str, irs + 1 + of_nat n, of_nat n))
     \<or> (n = length str \<and> tcp_state s = TCP_DONE \<and> rcvd s = (str, irs + 1 + of_nat n + 1, of_nat n))"
    unfolding got_prefix_def by blast
  have "got_prefix irs str ?s"
  proof (cases "fl AND TF_SYN \<noteq> 0")
    case True
    then have "d = []" "\<not> fin" using seg by (simp_all add: peer_seg_def fin_def)
    then have "rcvd ?s = rcvd s" using eff(2) by (simp add: rcv_def rcvd_def)
    then show ?thesis using n pre eff(3) \<open>\<not> fin\<close> unfolding got_prefix_def by auto
  next
    case False
    then obtain i where i: "i + length d \<le> length str" "d = take (length d) (drop i str)"
      "seq = irs + 1 + of_nat i" "fl AND TF_FIN \<noteq> 0 \<longrightarrow> i + length d = length str"
      using seg by (auto simp: peer_seg_def)
    have sl: "seq + of_nat (length d) = irs + 1 + of_nat (i + length d)" using i(3) by simp
    from pre show ?thesis
    proof
      assume p: "tcp_state s \<noteq> TCP_DONE \<and> rcvd s = (take n str, irs + 1 + of_nat n, of_nat n)"
      then have r: "tcp_got s = take n str" "tcp_rcv_nxt s = irs + 1 + of_nat n" "tcp_rx_bytes s = of_nat n"
        by (simp_all add: rcvd_def)
      have hit: "seq = tcp_rcv_nxt s \<longleftrightarrow> i = n"
        unfolding i(3) r(2) by (rule offset_eq) (use i n len in simp_all)
      define m where "m = (if d \<noteq> [] \<and> i = n then n + length d else n)"
      have rcv: "rcv = (if d \<noteq> [] \<and> i = n then irs + 1 + of_nat n + of_nat (length d) else irs + 1 + of_nat n)"
        unfolding rcv_def hit unfolding r(2) by (rule refl)
      have m: "m \<le> length str" "rcv = irs + 1 + of_nat m" using i n unfolding m_def rcv by auto
      have got: "(if d \<noteq> [] \<and> seq = tcp_rcv_nxt s then tcp_got s @ d else tcp_got s) = take m str"
        using i(2) take_add [of n "length d" str] unfolding hit r(1) m_def by auto
      have rx: "(if d \<noteq> [] \<and> seq = tcp_rcv_nxt s then tcp_rx_bytes s + of_nat (length d) else tcp_rx_bytes s) = of_nat m"
        unfolding hit r(3) m_def by simp
      have e: "rcvd ?s = (take m str, if fin then rcv + 1 else rcv, of_nat m)"
        using eff(2) unfolding got rx .
      show ?thesis
      proof (cases fin)
        case True
        then have "irs + 1 + of_nat (i + length d) = irs + 1 + of_nat m" "i + length d = length str"
          using i(4) unfolding fin_def sl [symmetric] m(2) [symmetric] by simp_all
        then have "irs + 1 + of_nat (length str) = irs + 1 + of_nat m" by (simp only:)
        then have "length str = m" by (subst (asm) offset_eq) (use m len in simp_all)
        then show ?thesis using e eff(3) True m(2) unfolding got_prefix_def by auto
      next
        case False
        then show ?thesis using e m p eff(3) unfolding got_prefix_def by auto
      qed
    next
      assume p: "n = length str \<and> tcp_state s = TCP_DONE \<and> rcvd s = (str, irs + 1 + of_nat n + 1, of_nat n)"
      then have r: "tcp_got s = str" "tcp_rcv_nxt s = irs + 1 + of_nat (Suc n)" "tcp_rx_bytes s = of_nat n"
        by (simp_all add: rcvd_def)
      have "seq \<noteq> tcp_rcv_nxt s"
        unfolding i(3) r(2) by (subst offset_eq) (use i p len in simp_all)
      moreover have "seq + of_nat (length d) \<noteq> tcp_rcv_nxt s"
        unfolding sl r(2) by (subst offset_eq) (use i p len in simp_all)
      ultimately have "\<not> fin" "rcv = tcp_rcv_nxt s" unfolding fin_def rcv_def by simp_all
      then have "rcvd ?s = rcvd s" using eff(2) \<open>seq \<noteq> tcp_rcv_nxt s\<close> by (simp add: rcvd_def)
      then show ?thesis using p n eff(3) \<open>\<not> fin\<close> unfolding got_prefix_def by auto
    qed
  qed
  then show ?thesis using st' eff(1) cn by (simp add: stream_ok_def)
qed

lemma segment_stream_ok:
  "stream_ok irs str c s \<Longrightarrow> peer_seg irs str seq fl d \<Longrightarrow> length str + 2 < two32
    \<Longrightarrow> stream_ok irs str c (tcp_segment e seq ack fl d s)"
  using synack_stream_ok data_stream_ok by blast

lemma tcp_match_conn: "conn s = conn s' \<Longrightarrow> tcp_match s src p = tcp_match s' src p"
  by (simp add: conn_def tcp_match_def)

lemma tcp_rx_all_stream_ok:
  "stream_ok irs str c s \<Longrightarrow> length str + 2 < two32
    \<Longrightarrow> (\<And>src p. (src, p) \<in> set ps \<Longrightarrow> tcp_match s src p
           \<Longrightarrow> peer_seg irs str (get_be32 p 4) (p ! 13) (seg_data p))
    \<Longrightarrow> \<exists>s'. tcp_rx_all e ps s = Some s' \<and> stream_ok irs str c s'"
proof (induction ps arbitrary: s)
  case (Cons x ps)
  obtain src p where x: "x = (src, p)" by (cases x)
  define s1 where "s1 = (if tcp_match s src p \<and> tcp_state s \<noteq> TCP_CLOSED
     then tcp_segment e (get_be32 p 4) (get_be32 p 8) (p ! 13) (seg_data p) s else s)"
  have ok: "stream_ok irs str c s1"
  proof (cases "tcp_match s src p \<and> tcp_state s \<noteq> TCP_CLOSED")
    case True
    then have "peer_seg irs str (get_be32 p 4) (p ! 13) (seg_data p)"
      by (intro Cons.prems(3) [of src p]) (simp_all add: x)
    then show ?thesis
      unfolding s1_def if_P [OF True] by (rule segment_stream_ok [OF Cons.prems(1) _ Cons.prems(2)])
  next
    case False
    then show ?thesis unfolding s1_def if_not_P [OF False] by (intro Cons.prems(1))
  qed
  then have "conn s1 = conn s" using Cons.prems(1) by (simp add: stream_ok_def)
  then have "\<exists>s'. tcp_rx_all e ps s1 = Some s' \<and> stream_ok irs str c s'"
    using Cons.IH [OF ok Cons.prems(2)] Cons.prems(3) tcp_match_conn [of s1 s] by auto
  then show ?case unfolding x by (simp add: tcp_rx_match s1_def)
qed simp

text \<open>
  C3: while the handshake runs (as \<open>tcp_connect\<close> leaves the connection) and after it, whatever
  segments arrive from a peer that has the bytes \<open>str\<close> to say (lost, repeated, in any order, cut
  anywhere, among segments for other connections), what the program's callback has been given is
  the first \<open>n\<close> bytes of \<open>str\<close>, each once and in order, \<open>tcp_rx_bytes\<close> counts them, and the
  connection is found closed only after all of them.
\<close>
theorem tcp_stream_prefix:
  assumes "tcp_state s = TCP_SYN_SENT" "tcp_got s = []" "tcp_rx_bytes s = 0" "tcp_sink s"
    and "length str + 2 < two32"
    and "\<And>src p. (src, p) \<in> set ps \<Longrightarrow> tcp_match s src p
      \<Longrightarrow> peer_seg irs str (get_be32 p 4) (p ! 13) (seg_data p)"
  shows "\<exists>s' n. tcp_rx_all e ps s = Some s' \<and> n \<le> length str \<and> tcp_got s' = take n str
    \<and> tcp_rx_bytes s' = of_nat n
    \<and> (tcp_state s' = TCP_DONE \<longrightarrow> tcp_got s' = str)"
proof -
  have "stream_ok irs str (fst (conn s)) s"
    using assms(1-4) by (simp add: stream_ok_def conn_def)
  then obtain s' where s': "tcp_rx_all e ps s = Some s'" "stream_ok irs str (fst (conn s)) s'"
    using tcp_rx_all_stream_ok assms(5-6) by blast
  then show ?thesis
  proof (cases "tcp_state s' = TCP_SYN_SENT")
    case True
    then show ?thesis using s' by (auto simp: stream_ok_def intro!: exI [of _ 0])
  next
    case False
    then obtain n where n: "n \<le> length str"
      "(tcp_state s' \<noteq> TCP_DONE \<and> rcvd s' = (take n str, irs + 1 + of_nat n, of_nat n))
       \<or> (n = length str \<and> tcp_state s' = TCP_DONE \<and> rcvd s' = (str, irs + 1 + of_nat n + 1, of_nat n))"
      using s'(2) unfolding stream_ok_def got_prefix_def by auto
    then show ?thesis using s'(1) by (auto simp: rcvd_def intro!: exI [of _ n])
  qed
qed

definition syn_sent :: "unit net" where
  "syn_sent = (net_start ())\<lparr>tcp_state := TCP_SYN_SENT, tcp_sink := True, tcp_rip := 5, tcp_rport := 80,
     tcp_lport := 1000, tcp_snd_una := 0, tcp_snd_nxt := 1\<rparr>"

definition two_segments :: "(u32 \<times> byte list) list" where
  "two_segments =
     [(5, [0, 80, 3, 232, 0, 0, 0, 9, 0, 0, 0, 1, 0x50, 0x12, 255, 255, 0, 0, 0, 0]),
      (5, [0, 80, 3, 232, 0, 0, 0, 10, 0, 0, 0, 1, 0x50, 0x10, 255, 255, 0, 0, 0, 0, 65, 66])]"

theorem tcp_stream_prefix_witness:
  "\<exists>s' n. tcp_rx_all quiet_env two_segments syn_sent = Some s' \<and> n \<le> length [65, 66 :: byte]
    \<and> tcp_got s' = take n [65, 66] \<and> tcp_rx_bytes s' = of_nat n
    \<and> (tcp_state s' = TCP_DONE \<longrightarrow> tcp_got s' = [65, 66])"
proof (rule tcp_stream_prefix [where irs = 9])
  fix src p
  assume "(src, p) \<in> set two_segments"
  then show "peer_seg 9 [65, 66] (get_be32 p 4) (p ! 13) (seg_data p)"
    by (auto simp: two_segments_def peer_seg_def get_be32_def seg_data_def TF_RST_def TF_SYN_def TF_FIN_def
        intro: exI [of _ 0])
qed (simp_all add: syn_sent_def net_start_def)

text \<open>A peer that always cuts its stream into the same pieces, and the order in which they arrive.\<close>

definition piece_seq :: "u32 \<Rightarrow> byte list list \<Rightarrow> nat \<Rightarrow> u32" where
  "piece_seq irs cs k = irs + 1 + of_nat (length (concat (take k cs)))"

definition take_piece :: "'w nenv \<Rightarrow> u32 \<Rightarrow> byte list list \<Rightarrow> nat \<times> u32 \<Rightarrow> 'w net \<Rightarrow> 'w net" where
  "take_piece e irs cs ka s = tcp_segment e (piece_seq irs cs (fst ka)) (snd ka) TF_ACK (cs ! fst ka) s"

lemma length_concat_take_mono:
  "k \<le> n \<Longrightarrow> length (concat (take k cs)) \<le> length (concat (take n cs))"
proof -
  assume "k \<le> n"
  then have "take n cs = take k cs @ take (n - k) (drop k cs)" using take_add [of k "n - k" cs] by simp
  then show ?thesis by simp
qed

lemma length_concat_take_Suc:
  "k < length cs \<Longrightarrow> length (concat (take (Suc k) cs)) = length (concat (take k cs)) + length (cs ! k)"
  by (simp add: take_Suc_conv_app_nth)

lemma piece_seq_inj:
  assumes "\<And>c. c \<in> set cs \<Longrightarrow> c \<noteq> []" "length (concat cs) < two32" "k < length cs" "n \<le> length cs"
    "piece_seq irs cs k = piece_seq irs cs n"
  shows "k = n"
proof -
  have l: "length (concat (take i cs)) < two32" if "i \<le> length cs" for i
    using length_concat_take_mono [OF that, of cs] assms(2) by simp
  have e: "length (concat (take k cs)) = length (concat (take n cs))"
    using assms(5) offset_eq [OF l l, of k n] assms(3,4) unfolding piece_seq_def by simp
  have lt: "length (concat (take i cs)) < length (concat (take j cs))" if "i < j" "j \<le> length cs" for i j
  proof -
    have "0 < length (cs ! i)" using assms(1) that by simp
    then have "length (concat (take i cs)) < length (concat (take (Suc i) cs))"
      using length_concat_take_Suc [of i cs] that by simp
    also have "\<dots> \<le> length (concat (take j cs))" by (rule length_concat_take_mono) (use that in simp)
    finally show ?thesis .
  qed
  show ?thesis using lt [of k n] lt [of n k] e assms(3,4) by (metis less_irrefl nat_neq_iff less_imp_le)
qed

definition pieces_got :: "u32 \<Rightarrow> byte list list \<Rightarrow> nat \<Rightarrow> 'w net \<Rightarrow> bool" where
  "pieces_got irs cs n s = (tcp_sink s \<and> tcp_state s = TCP_ESTABLISHED \<and> n \<le> length cs
     \<and> tcp_got s = concat (take n cs) \<and> tcp_rcv_nxt s = piece_seq irs cs n)"

lemma take_piece_got:
  assumes g: "pieces_got irs cs n s" and ne: "\<And>c. c \<in> set cs \<Longrightarrow> c \<noteq> []"
    and len: "length (concat cs) < two32" and k: "fst ka < length cs"
  shows "pieces_got irs cs (if fst ka = n then Suc n else n) (take_piece e irs cs ka s)"
proof -
  obtain k a where ka: "ka = (k, a)" by (cases ka)
  have st: "tcp_state s \<noteq> TCP_SYN_SENT" "TF_ACK AND TF_RST = 0" "tcp_sink s"
    using g by (simp_all add: pieces_got_def TF_ACK_def TF_RST_def)
  have fin: "False \<longleftrightarrow> TF_ACK AND TF_FIN \<noteq> 0 \<and> x" for x by (simp add: TF_ACK_def TF_FIN_def)
  note eff = tcp_segment_effect [OF st refl fin, of e "piece_seq irs cs k" a "cs ! k", folded rcvd_def]
  have ck: "cs ! k \<noteq> []" by (rule ne) (use k ka in simp)
  have hit: "piece_seq irs cs k = tcp_rcv_nxt s \<longleftrightarrow> k = n"
    using piece_seq_inj [OF ne len, of k n irs] g k ka by (auto simp: pieces_got_def)
  have nx: "piece_seq irs cs n + of_nat (length (cs ! n)) = piece_seq irs cs (Suc n)" if "n < length cs"
    unfolding piece_seq_def length_concat_take_Suc [OF that] by simp
  show ?thesis
  proof (cases "k = n")
    case True
    then have "n < length cs" using k ka by simp
    then show ?thesis
      using eff g hit True ck nx [OF \<open>n < length cs\<close>] unfolding take_piece_def pieces_got_def ka conn_def rcvd_def
      by (simp add: take_Suc_conv_app_nth)
  next
    case False
    then show ?thesis
      using eff g hit unfolding take_piece_def pieces_got_def ka conn_def rcvd_def by simp
  qed
qed

lemma fold_take_piece_got:
  "pieces_got irs cs n s \<Longrightarrow> (\<And>c. c \<in> set cs \<Longrightarrow> c \<noteq> []) \<Longrightarrow> length (concat cs) < two32
    \<Longrightarrow> (\<And>ka. ka \<in> set kas \<Longrightarrow> fst ka < length cs)
    \<Longrightarrow> pieces_got irs cs (fold (\<lambda>k n. if k = n then Suc n else n) (map fst kas) n)
         (fold (take_piece e irs cs) kas s)"
proof (induction kas arbitrary: n s)
  case (Cons ka kas)
  have "pieces_got irs cs (if fst ka = n then Suc n else n) (take_piece e irs cs ka s)"
    by (rule take_piece_got) (use Cons.prems in auto)
  from Cons.IH [OF this Cons.prems(2,3)] Cons.prems(4) show ?case by simp
qed simp

text \<open>An order of arrival in which the rest of the pieces can be found brings the count to the end.\<close>

lemma arrival_count:
  "subseq [n..<m] ks \<Longrightarrow> n \<le> m \<Longrightarrow> (\<And>k. k \<in> set ks \<Longrightarrow> k < m)
    \<Longrightarrow> fold (\<lambda>k n. if k = n then Suc n else n) ks n = m"
proof (induction ks arbitrary: n)
  case Nil
  then have "[n..<m] = []" by (cases "[n..<m]") auto
  then show ?case using Nil.prems(2) by auto
next
  case (Cons k ks)
  show ?case
  proof (cases "n < m")
    case False
    then have "k \<noteq> n" using Cons.prems(2) Cons.prems(3) [of k] by auto
    then show ?thesis using Cons.IH [of n] Cons.prems False by (simp add: subseq_singleton_left)
  next
    case True
    then have c: "[n..<m] = n # [Suc n..<m]" by (rule upt_conv_Cons)
    have "subseq (if k = n then [Suc n..<m] else [n..<m]) ks"
      using Cons.prems(1) unfolding c by (auto elim: list_emb.cases)
    then show ?thesis using Cons.IH [of "if k = n then Suc n else n"] Cons.prems True by (auto split: if_splits)
  qed
qed

text \<open>
  C20: when the peer sends every piece of its stream again until it has got through, so that among
  the segments that arrive all pieces can be found in their order, whatever else arrives between
  them, the callback has been given the whole stream.
\<close>
theorem tcp_stream_complete:
  assumes "tcp_state s = TCP_ESTABLISHED" "tcp_sink s" "tcp_got s = []" "tcp_rcv_nxt s = irs + 1"
    and "\<And>c. c \<in> set cs \<Longrightarrow> c \<noteq> []" "length (concat cs) < two32"
    and "\<And>ka. ka \<in> set kas \<Longrightarrow> fst ka < length cs"
    and "subseq [0..<length cs] (map fst kas)"
  shows "tcp_got (fold (take_piece e irs cs) kas s) = concat cs"
proof -
  have "pieces_got irs cs 0 s" using assms(1-4) by (simp add: pieces_got_def piece_seq_def)
  from fold_take_piece_got [OF this assms(5-7)]
  have "pieces_got irs cs (fold (\<lambda>k n. if k = n then Suc n else n) (map fst kas) 0)
      (fold (take_piece e irs cs) kas s)" .
  moreover have "fold (\<lambda>k n. if k = n then Suc n else n) (map fst kas) 0 = length cs"
    by (rule arrival_count) (use assms(7,8) in auto)
  ultimately show ?thesis by (simp add: pieces_got_def)
qed

definition established :: "unit net" where
  "established = (net_start ())\<lparr>tcp_state := TCP_ESTABLISHED, tcp_sink := True, tcp_rcv_nxt := 10\<rparr>"

theorem tcp_stream_complete_witness:
  "tcp_got (fold (take_piece quiet_env 9 [[1], [2, 3]]) [(1, 0), (0, 0), (0, 0), (1, 0)] established) = [1, 2, 3]"
proof -
  have "tcp_got (fold (take_piece quiet_env 9 [[1], [2, 3]]) [(1, 0), (0, 0), (0, 0), (1, 0)] established)
      = concat [[1], [2, 3]]"
    by (rule tcp_stream_complete) (auto simp: established_def net_start_def upt_rec)
  then show ?thesis by simp
qed

end
