(* ===== verification/NetDhcp.thy ===== *)
theory NetDhcp
  imports NetProps
begin

text \<open>
  The DHCP client and the DNS client of \<open>netstack.h\<close> against the formats they speak: options as
  RFC 2132 writes them, the exchange of offer, request and acknowledgement, names as RFC 1035
  writes them.
\<close>

section \<open>DHCP options\<close>

text \<open>An option field: a pad, or a tag with a value.\<close>

fun opt_bytes :: "(byte \<times> byte list) option \<Rightarrow> byte list" where
  "opt_bytes None = [0]"
| "opt_bytes (Some (t, x)) = t # of_nat (length x) # x"

definition opt_valid :: "(byte \<times> byte list) option \<Rightarrow> bool" where
  "opt_valid f = (case f of None \<Rightarrow> True | Some (t, x) \<Rightarrow> t \<noteq> 0 \<and> t \<noteq> 255 \<and> length x \<le> 255)"

text \<open>What the client notes of an option. A value shorter than its field is skipped.\<close>

fun opt_meaning :: "(byte \<times> byte list) option \<Rightarrow> dhcp_opts \<Rightarrow> dhcp_opts" where
  "opt_meaning None v = v"
| "opt_meaning (Some (t, x)) v =
     (if t = 53 \<and> length x \<ge> 1 then v\<lparr>op_type := ucast (x ! 0)\<rparr>
      else if t = 1 \<and> length x \<ge> 4 then v\<lparr>op_mask := get_be32 x 0\<rparr>
      else if t = 3 \<and> length x \<ge> 4 then v\<lparr>op_gw := get_be32 x 0\<rparr>
      else if t = 6 \<and> length x \<ge> 4 then v\<lparr>op_dns := get_be32 x 0\<rparr>
      else if t = 54 \<and> length x \<ge> 4 then v\<lparr>op_server := get_be32 x 0\<rparr>
      else if t = 51 \<and> length x \<ge> 4 then v\<lparr>op_lease := get_be32 x 0\<rparr>
      else v)"

lemma get_be32_at: "3 < length x \<Longrightarrow> get_be32 (pre @ x @ post) (length pre) = get_be32 x 0"
  using get_be32_append2 [of pre "x @ post" 0] get_be32_append1 [of 0 x post] by simp

lemma get_be32_mid:
  "d = pre @ x @ post \<Longrightarrow> length pre = n \<Longrightarrow> 3 < length x \<Longrightarrow> get_be32 d n = get_be32 x 0"
  using get_be32_at [of x pre post] by simp

lemma dhcp_opt_meaning:
  "dhcp_opt (pre @ t # n # x @ post) (length pre) t (length x) v = Some (opt_meaning (Some (t, x)) v)"
proof -
  have r4: "rd32 (pre @ t # n # x @ post) (length pre + 2) = Some (get_be32 x 0)" if "4 \<le> length x"
    using that get_be32_at [of x "pre @ [t, n]" post] by (simp add: rd32_def)
  have r1: "rd8 (pre @ t # n # x @ post) (length pre + 2) = Some (x ! 0)" if "1 \<le> length x"
    using that by (cases x) (simp_all add: rd8_def nth_append)
  consider "4 \<le> length x" | "1 \<le> length x" "\<not> 4 \<le> length x" | "\<not> 1 \<le> length x" by blast
  then show ?thesis
  proof cases
    case 1
    then have "1 \<le> length x" by simp
    note r = r1 [OF this] r4 [OF 1]
    show ?thesis unfolding dhcp_opt_def opt_meaning.simps r bind.bind_lunit
      by (simp only: if_distrib [of Some] simp_thms \<open>1 \<le> length x\<close> 1)
  next
    case 2
    note r = r1 [OF 2(1)]
    show ?thesis unfolding dhcp_opt_def opt_meaning.simps r bind.bind_lunit
      by (simp only: if_distrib [of Some] simp_thms 2 if_False)
  next
    case 3
    then have "\<not> 4 \<le> length x" by simp
    then show ?thesis unfolding dhcp_opt_def opt_meaning.simps
      by (simp only: simp_thms 3 if_False)
  qed
qed

lemma dhcp_parse_options:
  "(\<And>f. f \<in> set fs \<Longrightarrow> opt_valid f)
    \<Longrightarrow> dhcp_parse (pre @ concat (map opt_bytes fs) @ 255 # post) (length pre) v
      = Some (fold opt_meaning fs v)"
proof (induction fs arbitrary: pre v)
  case Nil
  show ?case by (subst dhcp_parse.simps) (simp add: rd8_def)
next
  case (Cons f fs)
  let ?tl = "concat (map opt_bytes fs) @ 255 # post"
  show ?case
  proof (cases f)
    case None
    have "dhcp_parse (pre @ 0 # ?tl) (length pre) v = dhcp_parse (pre @ 0 # ?tl) (length pre + 1) v"
      by (subst dhcp_parse.simps) (simp add: rd8_def)
    also have "\<dots> = Some (fold opt_meaning fs v)"
      using Cons.IH [of "pre @ [0]" v] Cons.prems by simp
    finally show ?thesis by (simp add: None)
  next
    case (Some tx)
    obtain t x where tx: "tx = (t, x)" by (cases tx)
    have ok: "t \<noteq> 0" "t \<noteq> 255" "length x \<le> 255"
      using Cons.prems [of f] by (simp_all add: Some tx opt_valid_def)
    let ?n = "of_nat (length x) :: byte"
    let ?d = "pre @ t # ?n # x @ ?tl"
    have n: "unat ?n = length x" using ok by (simp add: unat_of_nat)
    have r: "rd8 ?d (length pre) = Some t" "rd8 ?d (length pre + 1) = Some ?n"
      by (simp_all add: rd8_def nth_append)
    have "dhcp_parse ?d (length pre) v = dhcp_parse ?d (length pre + 2 + length x) (opt_meaning f v)"
      using ok r dhcp_opt_meaning [of pre t ?n x ?tl v] n
      by (subst dhcp_parse.simps) (simp add: Some tx)
    also have "\<dots> = Some (fold opt_meaning fs (opt_meaning f v))"
      using Cons.IH [of "pre @ t # ?n # x" "opt_meaning f v"] Cons.prems by simp
    finally show ?thesis by (simp add: Some tx)
  qed
qed

section \<open>The exchange\<close>

text \<open>A reply (RFC 2131, figure 1): to \<open>xid\<close> and the client address \<open>m\<close>, offering \<open>ip\<close>. The other
  fields, \<open>a\<close> to \<open>c\<close>, and what follows the options are arbitrary.\<close>

definition dhcp_reply
  :: "byte list \<Rightarrow> byte list \<Rightarrow> byte list \<Rightarrow> byte list \<Rightarrow> u32 \<Rightarrow> u32 \<Rightarrow> byte list
    \<Rightarrow> (byte \<times> byte list) option list \<Rightarrow> byte list" where
  "dhcp_reply a b c post xid ip m fs =
     [2, 1, 6, 0] @ put_be32 xid @ a @ put_be32 ip @ b @ m @ c @ put_be32 0x63825363
     @ concat (map opt_bytes fs) @ 255 # post"

lemma dhcp_rx_reply:
  assumes len: "length a = 8" "length b = 8" "length c = 202" "length (own_mac e) = 6"
    and m: "m = own_mac e" and fs: "\<And>f. f \<in> set fs \<Longrightarrow> opt_valid f"
    and long: "3 \<le> length (concat (map opt_bytes fs) @ post)"
  shows "dhcp_rx e (dhcp_reply a b c post (dhcp_xid s) ip m fs) s
    = Some (dhcp_step e (fold opt_meaning fs no_opts) ip s)"
proof -
  let ?tl = "concat (map opt_bytes fs) @ 255 # post"
  let ?d = "dhcp_reply a b c post (dhcp_xid s) ip m fs"
  let ?pre = "[2, 1, 6, 0] @ put_be32 (dhcp_xid s) @ a @ put_be32 ip @ b @ m @ c @ put_be32 0x63825363"
  have d: "?d = ?pre @ ?tl" by (simp add: dhcp_reply_def)
  have lp: "length ?pre = 240" using len m by simp
  have "length ?d = length ?pre + length ?tl" unfolding d by (rule length_append)
  then have ld: "244 \<le> length ?d" unfolding lp using long by simp
  have op: "rd8 ?d 0 = Some 2" by (simp add: dhcp_reply_def rd8_def)
  have "get_be32 ?d 4 = get_be32 (put_be32 (dhcp_xid s)) 0"
    by (rule get_be32_mid [of _ "[2, 1, 6, 0]"]) (simp_all add: dhcp_reply_def)
  then have xid: "get_be32 ?d 4 = dhcp_xid s" by simp
  have "get_be32 ?d 16 = get_be32 (put_be32 ip) 0"
    by (rule get_be32_mid [of _ "[2, 1, 6, 0] @ put_be32 (dhcp_xid s) @ a"])
      (simp_all add: dhcp_reply_def len)
  then have yi: "get_be32 ?d 16 = ip" by simp
  have "get_be32 ?d 236 = get_be32 (put_be32 0x63825363) 0"
    by (rule get_be32_mid [of _ "[2, 1, 6, 0] @ put_be32 (dhcp_xid s) @ a @ put_be32 ip @ b @ m @ c"])
      (simp_all add: dhcp_reply_def len m)
  then have ck: "get_be32 ?d 236 = 0x63825363" by simp
  have mac: "take 6 (drop 28 ?d) = own_mac e"
  proof -
    let ?q = "[2, 1, 6, 0] @ put_be32 (dhcp_xid s) @ a @ put_be32 ip @ b"
    have "?d = ?q @ m @ c @ put_be32 0x63825363 @ ?tl" by (simp add: dhcp_reply_def)
    moreover have "length ?q = 28" using len by simp
    ultimately have "drop 28 ?d = m @ c @ put_be32 0x63825363 @ ?tl" by (metis append_eq_conv_conj)
    then show ?thesis using len m by simp
  qed
  have p: "dhcp_parse ?d 240 no_opts = Some (fold opt_meaning fs no_opts)"
    using dhcp_parse_options [of fs ?pre post no_opts] fs unfolding d lp by blast
  have "rd32 ?d 4 = Some (dhcp_xid s)" "rd32 ?d 16 = Some ip" "rd32 ?d 236 = Some 0x63825363"
    using ld xid yi ck by (simp_all add: rd32_def)
  then show ?thesis
    using ld op mac p unfolding dhcp_rx_def by simp
qed

lemma dhcp_send_only: obtains w i where "dhcp_send e ty s = s\<lparr>nw := w, ip_id := i\<rparr>"
proof -
  have "\<exists>p. udp_send e 0xffffffff 68 67 (dhcp_message e ty s) s = (-1, s)
      \<or> udp_send e 0xffffffff 68 67 (dhcp_message e ty s) s = ip_send e 0xffffffff 17 p s"
    unfolding udp_send_def by (cases "1472 < length (dhcp_message e ty s)") auto
  then obtain p where "udp_send e 0xffffffff 68 67 (dhcp_message e ty s) s = (-1, s)
      \<or> udp_send e 0xffffffff 68 67 (dhcp_message e ty s) s = ip_send e 0xffffffff 17 p s"
    by blast
  then show ?thesis
  proof
    assume "udp_send e 0xffffffff 68 67 (dhcp_message e ty s) s = (-1, s)"
    then have "dhcp_send e ty s = s\<lparr>nw := nw s, ip_id := ip_id s\<rparr>" by (simp add: dhcp_send_def)
    then show ?thesis by (rule that)
  next
    assume "udp_send e 0xffffffff 68 67 (dhcp_message e ty s) s = ip_send e 0xffffffff 17 p s"
    then show ?thesis using ip_send_only [of e "0xffffffff" 17 p s] that by (auto simp: dhcp_send_def)
  qed
qed

text \<open>
  C33: an OFFER and then an ACK for our transaction and our Ethernet address, with their options in
  any order and between any padding, bring the client from SELECTING over REQUESTING, with the
  offered address and the server noted for the REQUEST, to BOUND with the address, the mask, the
  router, the name server and the lease of the ACK.
\<close>
theorem dhcp_exchange:
  assumes "length a1 = 8" "length b1 = 8" "length c1 = 202"
    and "length a2 = 8" "length b2 = 8" "length c2 = 202" "length (own_mac e) = 6"
    and "\<And>f. f \<in> set fs1 \<Longrightarrow> opt_valid f" "3 \<le> length (concat (map opt_bytes fs1) @ post1)"
    and "\<And>f. f \<in> set fs2 \<Longrightarrow> opt_valid f" "3 \<le> length (concat (map opt_bytes fs2) @ post2)"
    and offer: "op_type (fold opt_meaning fs1 no_opts) = 2" and st: "dhcp_state s = DHCP_SELECTING"
    and ack: "op_type o2 = 5" and o2: "o2 = fold opt_meaning fs2 no_opts"
  shows "\<exists>s1 s2. dhcp_rx e (dhcp_reply a1 b1 c1 post1 (dhcp_xid s) ip1 (own_mac e) fs1) s = Some s1
    \<and> dhcp_state s1 = DHCP_REQUESTING \<and> dhcp_offer_ip s1 = ip1
    \<and> net_dhcp_server s1 = op_server (fold opt_meaning fs1 no_opts)
    \<and> dhcp_rx e (dhcp_reply a2 b2 c2 post2 (dhcp_xid s) ip2 (own_mac e) fs2) s1 = Some s2
    \<and> dhcp_state s2 = DHCP_BOUND \<and> net_ip s2 = ip2 \<and> net_mask s2 = op_mask o2
    \<and> net_gw s2 = op_gw o2 \<and> net_dns s2 = op_dns o2 \<and> net_lease s2 = op_lease o2"
proof -
  let ?o1 = "fold opt_meaning fs1 no_opts"
  let ?s0 = "s\<lparr>dhcp_offer_ip := ip1, net_dhcp_server := op_server ?o1, dhcp_state := DHCP_REQUESTING\<rparr>"
  obtain w i where "dhcp_send e 3 ?s0 = ?s0\<lparr>nw := w, ip_id := i\<rparr>" by (rule dhcp_send_only)
  then have 1: "dhcp_rx e (dhcp_reply a1 b1 c1 post1 (dhcp_xid s) ip1 (own_mac e) fs1) s
      = Some (?s0\<lparr>nw := w, ip_id := i\<rparr>)"
    using dhcp_rx_reply [of a1 b1 c1 e "own_mac e" fs1 post1 s ip1] assms by (simp add: dhcp_step_def)
  let ?s1 = "?s0\<lparr>nw := w, ip_id := i\<rparr>"
  have x: "dhcp_xid s = dhcp_xid ?s1" by simp
  have "dhcp_rx e (dhcp_reply a2 b2 c2 post2 (dhcp_xid s) ip2 (own_mac e) fs2) ?s1
      = Some (dhcp_step e o2 ip2 ?s1)"
    unfolding x o2 by (rule dhcp_rx_reply) (use assms in auto)
  moreover have "dhcp_step e o2 ip2 ?s1 =
      ?s1\<lparr>net_ip := ip2, net_mask := op_mask o2, net_gw := op_gw o2, net_dns := op_dns o2,
          net_lease := op_lease o2, dhcp_state := DHCP_BOUND\<rparr>"
    using ack by (simp add: dhcp_step_def)
  ultimately show ?thesis using 1 by simp
qed

definition demo_offer :: "(byte \<times> byte list) option list" where
  "demo_offer = [Some (53, [2]), None, Some (54, [10, 0, 0, 1])]"

definition demo_ack :: "(byte \<times> byte list) option list" where
  "demo_ack = [Some (1, [255, 255, 255, 0]), Some (53, [5]), Some (51, [0, 0, 14, 16])]"

definition selecting :: "unit net" where
  "selecting = (net_start ())\<lparr>dhcp_state := DHCP_SELECTING, dhcp_xid := 77\<rparr>"

lemma demo_opts_valid: "f \<in> set demo_offer \<Longrightarrow> opt_valid f" "f \<in> set demo_ack \<Longrightarrow> opt_valid f"
  by (auto simp: demo_offer_def demo_ack_def opt_valid_def)

lemma demo_opts_length:
  "3 \<le> length (concat (map opt_bytes demo_offer) @ [])" "3 \<le> length (concat (map opt_bytes demo_ack) @ [])"
  by (simp_all add: demo_offer_def demo_ack_def)

lemma demo_meaning:
  "op_type (fold opt_meaning demo_offer no_opts) = 2" "op_server (fold opt_meaning demo_offer no_opts) = 0x0a000001"
  "op_type (fold opt_meaning demo_ack no_opts) = 5" "op_mask (fold opt_meaning demo_ack no_opts) = 0xffffff00"
  "op_lease (fold opt_meaning demo_ack no_opts) = 3600"
  by (simp_all add: demo_offer_def demo_ack_def no_opts_def get_be32_def)

theorem dhcp_exchange_witness:
  "\<exists>s1 s2. dhcp_rx quiet_env (dhcp_reply (replicate 8 0) (replicate 8 0) (replicate 202 0) [] 77 0x0a000005
       (own_mac quiet_env) demo_offer) selecting = Some s1
    \<and> dhcp_state s1 = DHCP_REQUESTING \<and> dhcp_offer_ip s1 = 0x0a000005 \<and> net_dhcp_server s1 = 0x0a000001
    \<and> dhcp_rx quiet_env (dhcp_reply (replicate 8 0) (replicate 8 0) (replicate 202 0) [] 77 0x0a000005
       (own_mac quiet_env) demo_ack) s1 = Some s2
    \<and> dhcp_state s2 = DHCP_BOUND \<and> net_ip s2 = 0x0a000005 \<and> net_mask s2 = 0xffffff00 \<and> net_lease s2 = 3600"
proof -
  have x: "dhcp_xid selecting = 77" "dhcp_state selecting = DHCP_SELECTING" by (simp_all add: selecting_def)
  have m: "length (own_mac quiet_env) = 6" by (simp add: quiet_env_def)
  note ex = dhcp_exchange [of "replicate 8 0" "replicate 8 0" "replicate 202 0" "replicate 8 0" "replicate 8 0"
      "replicate 202 0" quiet_env demo_offer "[]" demo_ack "[]" selecting, OF _ _ _ _ _ _ m demo_opts_valid(1)
      demo_opts_length(1) demo_opts_valid(2) demo_opts_length(2) demo_meaning(1) x(2) demo_meaning(3) refl]
  show ?thesis using ex [of "0x0a000005" "0x0a000005"] by (simp add: x demo_meaning) blast
qed

text \<open>
  The client becomes bound only by an ACK (message type 5) that it waits for, after an OFFER,
  and that carries its transaction number, its Ethernet address and the magic cookie; the address
  it takes is the one of that message.
\<close>
theorem dhcp_bound_only_by_ack:
  assumes "dhcp_rx e d s = Some s'" "dhcp_state s' = DHCP_BOUND" "dhcp_state s \<noteq> DHCP_BOUND"
  shows "dhcp_state s = DHCP_REQUESTING \<and> 244 \<le> length d \<and> d ! 0 = 2 \<and> get_be32 d 4 = dhcp_xid s
    \<and> get_be32 d 236 = 0x63825363 \<and> take 6 (drop 28 d) = own_mac e
    \<and> (\<exists>v. dhcp_parse d 240 no_opts = Some v \<and> op_type v = 5) \<and> net_ip s' = get_be32 d 16"
proof -
  have long: "244 \<le> length d" and
    hd: "d ! 0 = 2" "get_be32 d 4 = dhcp_xid s" "get_be32 d 236 = 0x63825363" "take 6 (drop 28 d) = own_mac e"
    using assms unfolding dhcp_rx_def by (auto split: if_splits)
  obtain v where v: "dhcp_parse d 240 no_opts = Some v" using dhcp_parse_some by blast
  have s': "s' = dhcp_step e v (get_be32 d 16) s"
    using assms(1) long hd v unfolding dhcp_rx_def by simp
  have keep: "dhcp_state (dhcp_send e ty s0) = dhcp_state s0" for ty s0
    by (rule dhcp_send_only [of e ty s0]) simp
  have "op_type v = 5 \<and> dhcp_state s = DHCP_REQUESTING"
    using assms(2,3) unfolding s' dhcp_step_def by (auto simp: keep split: if_splits)
  then show ?thesis
    using long hd v unfolding s' dhcp_step_def by simp
qed

definition requesting :: "unit net" where
  "requesting = (net_start ())\<lparr>dhcp_state := DHCP_REQUESTING, dhcp_xid := 77\<rparr>"

definition demo_ack_message :: "byte list" where
  "demo_ack_message = dhcp_reply (replicate 8 0) (replicate 8 0) (replicate 202 0) [] 77 0x0a000005
     (own_mac quiet_env) demo_ack"

theorem dhcp_bound_only_by_ack_witness:
  "\<exists>s'. dhcp_rx quiet_env demo_ack_message requesting = Some s' \<and> dhcp_state s' = DHCP_BOUND
    \<and> demo_ack_message ! 0 = 2 \<and> get_be32 demo_ack_message 4 = 77
    \<and> net_ip s' = get_be32 demo_ack_message 16"
proof -
  let ?s' = "dhcp_step quiet_env (fold opt_meaning demo_ack no_opts) 0x0a000005 requesting"
  have x: "dhcp_xid requesting = 77" "dhcp_state requesting = DHCP_REQUESTING" by (simp_all add: requesting_def)
  have "dhcp_rx quiet_env (dhcp_reply (replicate 8 0) (replicate 8 0) (replicate 202 0) [] (dhcp_xid requesting)
      0x0a000005 (own_mac quiet_env) demo_ack) requesting = Some ?s'"
    by (rule dhcp_rx_reply [OF _ _ _ _ refl demo_opts_valid(2) demo_opts_length(2)]) (simp_all add: quiet_env_def)
  then have 1: "dhcp_rx quiet_env demo_ack_message requesting = Some ?s'" by (simp add: x demo_ack_message_def)
  have 2: "dhcp_state ?s' = DHCP_BOUND" using x by (simp add: dhcp_step_def demo_meaning)
  have 3: "dhcp_state requesting \<noteq> DHCP_BOUND" using x by simp
  from dhcp_bound_only_by_ack [OF 1 2 3] x 1 2 show ?thesis by simp
qed

section \<open>DNS names\<close>

text \<open>A name as the program writes it, and as the packet has it (RFC 1035, 4.1.2).\<close>

fun dotted :: "byte list list \<Rightarrow> byte list" where
  "dotted [] = []"
| "dotted [l] = l"
| "dotted (l # ls) = l @ 0x2e # dotted ls"

definition wire_name :: "byte list list \<Rightarrow> byte list" where
  "wire_name ls = concat (map (\<lambda>l. of_nat (length l) # l) ls)"

lemma dns_label_whole:
  "0x2e \<notin> set l \<Longrightarrow> p + length l \<le> 280 \<Longrightarrow> r = [] \<or> hd r = 0x2e \<Longrightarrow> dns_label (l @ r) p = (l, r)"
proof (induction l arbitrary: p)
  case Nil
  then show ?case by (cases r) auto
next
  case (Cons c l)
  then show ?case by (auto split: prod.split)
qed

lemma dns_encode_dotted:
  "(\<And>l. l \<in> set ls \<Longrightarrow> l \<noteq> [] \<and> 0x2e \<notin> set l) \<Longrightarrow> p + length (wire_name ls) \<le> 280
    \<Longrightarrow> dns_encode (dotted ls) p = wire_name ls"
proof (induction ls arbitrary: p rule: dotted.induct)
  case 1
  then show ?case by (subst dns_encode.simps) (simp add: wire_name_def)
next
  case (2 l)
  have "dns_label (l @ []) (p + 1) = (l, [])"
    by (rule dns_label_whole) (use 2 in \<open>auto simp: wire_name_def\<close>)
  then show ?case
    using 2 by (subst dns_encode.simps) (subst dns_encode.simps, auto simp: wire_name_def skip_dot_def)
next
  case (3 l l2 ls)
  have w: "wire_name (l # l2 # ls) = of_nat (length l) # l @ wire_name (l2 # ls)"
    by (simp add: wire_name_def)
  have "dns_label (l @ 0x2e # dotted (l2 # ls)) (p + 1) = (l, 0x2e # dotted (l2 # ls))"
    by (rule dns_label_whole) (use 3 w in auto)
  moreover have "dns_encode (dotted (l2 # ls)) (p + 1 + length l) = wire_name (l2 # ls)"
    by (rule "3.IH") (use "3.prems" w in auto)
  ultimately show ?case
    using "3.prems" w by (subst dns_encode.simps) (auto simp: skip_dot_def)
qed

lemma dns_label_length: "dns_label s p = (l, r) \<Longrightarrow> p \<le> 280 \<Longrightarrow> p + length l \<le> 280"
  by (induction s p arbitrary: l r rule: dns_label.induct) (auto split: prod.splits if_splits)

lemma dns_encode_length: "p \<le> 280 \<Longrightarrow> p + length (dns_encode s p) \<le> 280"
proof (induction s p rule: dns_encode.induct)
  case (1 s p)
  show ?case
  proof (cases "s \<noteq> [] \<and> p < 280")
    case True
    obtain l r where lr: "dns_label s (p + 1) = (l, r)" by (cases "dns_label s (p + 1)")
    have "p + 1 + length l \<le> 280" using dns_label_length [OF lr] True by simp
    moreover have "p + 1 + length l \<le> 280 \<Longrightarrow>
        p + 1 + length l + length (dns_encode (skip_dot r) (p + 1 + length l)) \<le> 280"
      by (rule "1.IH" [OF True lr [symmetric] refl])
    ultimately show ?thesis using True lr by (subst dns_encode.simps) simp
  next
    case False
    then show ?thesis using 1 by (subst dns_encode.simps) auto
  qed
qed

text \<open>
  The query of \<open>dns_resolve\<close> never outgrows its 300-byte buffer, whatever the name, and a name
  of dotted labels that fits is written as RFC 1035 has it: header, the labels with their lengths,
  the root, type A, class IN.
\<close>
theorem dns_query_name:
  shows "length (dns_query i name) \<le> 300
    \<and> ((\<forall>l\<in>set ls. l \<noteq> [] \<and> 0x2e \<notin> set l) \<and> 12 + length (wire_name ls) \<le> 280 \<longrightarrow>
       dns_query i (dotted ls) = put_be16 i @ [1, 0] @ put_be16 1 @ replicate 6 0 @ wire_name ls
         @ [0, 0, 1, 0, 1])"
proof (intro conjI impI)
  show "length (dns_query i name) \<le> 300"
    using dns_encode_length [of 12 name] by (simp add: dns_query_def)
next
  assume "(\<forall>l\<in>set ls. l \<noteq> [] \<and> 0x2e \<notin> set l) \<and> 12 + length (wire_name ls) \<le> 280"
  then have "dns_encode (dotted ls) 12 = wire_name ls" by (intro dns_encode_dotted) auto
  then show "dns_query i (dotted ls) = put_be16 i @ [1, 0] @ put_be16 1 @ replicate 6 0 @ wire_name ls
      @ [0, 0, 1, 0, 1]"
    by (simp add: dns_query_def put_be16_def)
qed

theorem dns_query_name_witness:
  "dns_query 5 (dotted [[0x61, 0x62], [0x63]]) =
     [0, 5, 1, 0, 0, 1, 0, 0, 0, 0, 0, 0, 2, 0x61, 0x62, 1, 0x63, 0, 0, 1, 0, 1]"
proof -
  have "dns_query 5 (dotted [[0x61, 0x62], [0x63]]) =
      put_be16 5 @ [1, 0] @ put_be16 1 @ replicate 6 0 @ wire_name [[0x61, 0x62], [0x63]] @ [0, 0, 1, 0, 1]"
    by (rule dns_query_name [THEN conjunct2, rule_format]) (auto simp: wire_name_def)
  moreover have "replicate 6 0 = [0, 0, 0, 0, 0, 0 :: byte]" by (simp add: numeral_eq_Suc)
  ultimately show ?thesis by (simp add: put_be16_def wire_name_def)
qed

end
