(* ===== verification/Smf.thy ===== *)
theory Smf
  imports Bytes "HOL-Library.Monad_Syntax"
begin

text \<open>
  The MIDI sequencer \<open>smf.c\<close>. The file is the list of its bytes, a pointer into it an offset;
  the static variables are the record \<open>smf\<close>. A read of the file outside of it gives \<open>None\<close>. The
  synthesizer is a table of callbacks: \<open>calls\<close> lists the calls made, each with the number of the
  engine that was called. Unsigned arithmetic wraps at \<open>2 ^ 32\<close> and \<open>2 ^ 64\<close> as written out.
\<close>

section \<open>State\<close>

datatype synth_call =
    Note_on nat nat nat
  | Note_off nat nat
  | Control nat nat nat
  | Program nat nat
  | Bend nat nat
  | Reset
  | Render int int

record track =
  tp :: nat
  tend :: nat
  next_tick :: nat
  tstatus :: nat
  tdone :: bool

record smf =
  smf_file :: "byte list"
  tracks :: "track list"
  division :: nat
  syn :: "nat option"
  tempo :: nat
  spt :: nat
  cur_tick :: nat
  tick_time :: nat
  now :: nat
  finished :: bool
  length_ms :: nat
  title :: "byte list"
  chan_level :: "nat \<Rightarrow> nat"
  chan_program :: "nat \<Rightarrow> nat"
  chan_used :: "nat \<Rightarrow> bool"
  chan_cc :: "nat \<Rightarrow> nat \<Rightarrow> nat"
  chan_bend :: "nat \<Rightarrow> nat"
  calls :: "(nat \<times> synth_call) list"

definition MAX_TRACKS :: nat where "MAX_TRACKS = 64"
definition SYNTH_RATE :: nat where "SYNTH_RATE = 48000"

abbreviation two64 :: nat where
  "two64 \<equiv> 18446744073709551616"

definition s32 :: "nat \<Rightarrow> int" where
  "s32 v = (if v mod two32 < 2147483648 then int (v mod two32) else int (v mod two32) - int two32)"

section \<open>Reading the file\<close>

definition rd :: "byte list \<Rightarrow> nat \<Rightarrow> nat option" where
  "rd f i = (if i < length f then Some (unat (f ! i)) else None)"

definition rdn :: "byte list \<Rightarrow> nat \<Rightarrow> nat \<Rightarrow> byte list option" where
  "rdn f i n = (if i + n \<le> length f then Some (take n (drop i f)) else None)"

primrec vlq_loop :: "byte list \<Rightarrow> nat \<Rightarrow> nat \<Rightarrow> track \<Rightarrow> (nat \<times> track) option" where
  "vlq_loop f 0 v t = Some (v, t)"
| "vlq_loop f (Suc n) v t =
     (if tp t < tend t
      then do {
        b \<leftarrow> rd f (tp t);
        let v' = push_bit 7 v OR (b AND 0x7f);
        let t' = t\<lparr>tp := tp t + 1\<rparr>;
        if b AND 0x80 = 0 then Some (v', t') else vlq_loop f n v' t'
      }
      else Some (v, t))"

definition vlq :: "byte list \<Rightarrow> track \<Rightarrow> (nat \<times> track) option" where
  "vlq f t = vlq_loop f 4 0 t"

definition read_delta :: "byte list \<Rightarrow> track \<Rightarrow> track option" where
  "read_delta f t =
     (if tp t \<ge> tend t then Some (t\<lparr>tdone := True\<rparr>)
      else do { (v, t') \<leftarrow> vlq f t; Some (t'\<lparr>next_tick := (next_tick t' + v) mod two32\<rparr>) })"

text \<open>\<open>p < end ? *p++ : 0\<close>.\<close>

definition take_byte :: "byte list \<Rightarrow> track \<Rightarrow> (nat \<times> track) option" where
  "take_byte f t =
     (if tp t < tend t then do { b \<leftarrow> rd f (tp t); Some (b, t\<lparr>tp := tp t + 1\<rparr>) } else Some (0, t))"

section \<open>Events\<close>

definition set_tempo :: "nat \<Rightarrow> smf \<Rightarrow> smf" where
  "set_tempo us s =
     (let te = (if us \<noteq> 0 then us else 500000)
      in s\<lparr>tempo := te, spt := te * (SYNTH_RATE div 1000) * two32 mod two64 div (1000 * division s)\<rparr>)"

definition call_syn :: "synth_call \<Rightarrow> smf \<Rightarrow> smf" where
  "call_syn c s = (case syn s of None \<Rightarrow> s | Some i \<Rightarrow> s\<lparr>calls := calls s @ [(i, c)]\<rparr>)"

text \<open>\<open>send\<close>: 0 nothing (length scan), 1 everything, 2 all but notes (seek).\<close>

definition channel_event :: "nat \<Rightarrow> nat \<Rightarrow> nat \<Rightarrow> nat \<Rightarrow> smf \<Rightarrow> smf" where
  "channel_event st a b send s =
     (let ch = st AND 15; kind = st AND 0xf0
      in if kind = 0x80 then (if send = 1 then call_syn (Note_off ch a) s else s)
         else if kind = 0x90 then
           (if b = 0 then (if send = 1 then call_syn (Note_off ch a) s else s)
            else
              (let s1 = s\<lparr>chan_used := (chan_used s)(ch := True)\<rparr>
               in if send = 1
                  then (let s2 = call_syn (Note_on ch a b) s1
                        in if b > chan_level s2 ch
                           then s2\<lparr>chan_level := (chan_level s2)(ch := b)\<rparr> else s2)
                  else s1))
         else if kind = 0xb0 then
           (let s1 = s\<lparr>chan_cc := (chan_cc s)(ch := (chan_cc s ch)(a AND 127 := b))\<rparr>
            in if send \<noteq> 0 then call_syn (Control ch a b) s1 else s1)
         else if kind = 0xc0 then
           (let s1 = s\<lparr>chan_program := (chan_program s)(ch := a)\<rparr>
            in if send \<noteq> 0 then call_syn (Program ch a) s1 else s1)
         else if kind = 0xe0 then
           (let s1 = s\<lparr>chan_bend := (chan_bend s)(ch := a OR push_bit 7 b)\<rparr>
            in if send \<noteq> 0 then call_syn (Bend ch (chan_bend s1 ch)) s1 else s1)
         else s)"

text \<open>The song title: printable characters, at most 63, without the blanks at the end.\<close>

definition clean_title :: "byte list \<Rightarrow> byte list" where
  "clean_title cs =
     rev (dropWhile (\<lambda>c. c = 0x20) (rev (map (\<lambda>c. if 32 \<le> c \<and> c < 127 then c else 0x20) (take 63 cs))))"

definition meta_event :: "byte list \<Rightarrow> nat \<Rightarrow> nat \<Rightarrow> nat \<Rightarrow> smf \<Rightarrow> smf option" where
  "meta_event f ty len p s =
     (if ty = 0x51 \<and> len = 3 then do {
        a \<leftarrow> rd f p;
        b \<leftarrow> rd f (p + 1);
        c \<leftarrow> rd f (p + 2);
        Some (set_tempo (push_bit 16 a OR push_bit 8 b OR c) s)
      }
      else if ty = 0x2f then Some s
      else if (ty = 3 \<or> ty = 1) \<and> title s = [] \<and> len > 0 then do {
        cs \<leftarrow> rdn f p (min len 63);
        Some (s\<lparr>title := clean_title cs\<rparr>)
      }
      else Some s)"

text \<open>One event of a track and, when the track goes on, the time to its next one: the body of the
  inner loop of \<open>step\<close>.\<close>

definition event_body :: "byte list \<Rightarrow> nat \<Rightarrow> nat \<Rightarrow> track \<Rightarrow> smf \<Rightarrow> (track \<times> smf) option" where
  "event_body f send st t s =
     (if st = 0xff then do {
        (ty, t1) \<leftarrow> take_byte f t;
        (len, t2) \<leftarrow> vlq f t1;
        if tp t2 + len > tend t2 then Some (t2\<lparr>tdone := True\<rparr>, s)
        else do {
          s' \<leftarrow> meta_event f ty len (tp t2) s;
          Some (t2\<lparr>tp := tp t2 + len, tdone := (ty = 0x2f)\<rparr>, s')
        }
      }
      else if st = 0xf0 \<or> st = 0xf7 then do {
        (len, t1) \<leftarrow> vlq f t;
        Some (t1\<lparr>tp := tp t1 + len, tdone := (tp t1 + len > tend t1)\<rparr>, s)
      }
      else if 0x80 \<le> st \<and> st < 0xf0 then do {
        let kind = st AND 0xf0;
        (a, t1) \<leftarrow> take_byte f (t\<lparr>tstatus := st\<rparr>);
        (b, t2) \<leftarrow> (if kind \<noteq> 0xc0 \<and> kind \<noteq> 0xd0 then take_byte f t1 else Some (0, t1));
        Some (t2, channel_event st (a AND 0x7f) (b AND 0x7f) send s)
      }
      else Some (t\<lparr>tdone := True\<rparr>, s))"

definition track_event :: "byte list \<Rightarrow> nat \<Rightarrow> track \<Rightarrow> smf \<Rightarrow> (track \<times> smf) option" where
  "track_event f send t s =
     (if tp t \<ge> tend t then Some (t\<lparr>tdone := True\<rparr>, s)
      else do {
        c \<leftarrow> rd f (tp t);
        (t', s') \<leftarrow> (if c AND 0x80 \<noteq> 0 then event_body f send c (t\<lparr>tp := tp t + 1\<rparr>) s
                     else event_body f send (tstatus t) t s);
        t2 \<leftarrow> (if tdone t' then Some t' else read_delta f t');
        Some (t2, s')
      })"

section \<open>The tracks\<close>

text \<open>The inner loop of \<open>step\<close>. It does not return when it goes round without reading a byte; that
  it always reads one is a theorem below. In the same way the loops after it are stated.\<close>

partial_function (option) track_loop
  :: "byte list \<Rightarrow> nat \<Rightarrow> track \<Rightarrow> smf \<Rightarrow> (track \<times> smf) option" where
  "track_loop f send t s =
     (if \<not> tdone t \<and> next_tick t = cur_tick s
      then Option.bind (track_event f send t s) (\<lambda>r. track_loop f send (fst r) (snd r))
      else Some (t, s))"

fun run_tracks :: "byte list \<Rightarrow> nat \<Rightarrow> track list \<Rightarrow> smf \<Rightarrow> (track list \<times> smf) option" where
  "run_tracks f send [] s = Some ([], s)"
| "run_tracks f send (t # ts) s =
     do {
       (t', s1) \<leftarrow> track_loop f send t s;
       (ts', s2) \<leftarrow> run_tracks f send ts s1;
       Some (t' # ts', s2)
     }"

text \<open>The earliest pending tick; 0xffffffff when there is none.\<close>

definition earliest :: "track list \<Rightarrow> nat" where
  "earliest ts =
     fold (\<lambda>t m. if \<not> tdone t \<and> next_tick t < m then next_tick t else m) ts 0xffffffff"

definition event_time :: "smf \<Rightarrow> nat" where
  "event_time s =
     (tick_time s + (earliest (tracks s) + two32 - cur_tick s) mod two32 * spt s) mod two64"

definition smf_step :: "nat \<Rightarrow> smf \<Rightarrow> (bool \<times> smf) option" where
  "smf_step send s =
     (let m = earliest (tracks s)
      in if m = 0xffffffff then Some (False, s)
         else do {
           (ts, s') \<leftarrow> run_tracks (smf_file s) send (tracks s) (s\<lparr>tick_time := event_time s, cur_tick := m\<rparr>);
           Some (True, s'\<lparr>tracks := ts\<rparr>)
         })"

text \<open>The chunks of the file from \<open>pos\<close> on. The end of a chunk is a 32-bit sum: one from \<open>2 ^ 31\<close> on
  is negative, is not cut to the end of the file and moves back, and a track that ends so is empty
  (the addresses of the box begin at \<open>2 ^ 31\<close>, KSEG0, so that its end pointer wraps too).\<close>

partial_function (option) init_chunks :: "byte list \<Rightarrow> int \<Rightarrow> track list \<Rightarrow> track list option" where
  "init_chunks f pos ts =
     (if pos + 8 \<le> int (length f) \<and> length ts < MAX_TRACKS
      then Option.bind (if 0 \<le> pos then rdn f (nat pos) 8 else None) (\<lambda>h.
           if take 4 h = [0x4d, 0x54, 0x72, 0x6b]
           then Option.bind
                  (read_delta f \<lparr>tp = nat (pos + 8),
                     tend = nat (min (s32 (nat pos + 8 + unat (get_be32 h 4))) (int (length f))),
                     next_tick = 0, tstatus = 0, tdone = False\<rparr>)
                  (\<lambda>t. init_chunks f (min (s32 (nat pos + 8 + unat (get_be32 h 4))) (int (length f))) (ts @ [t]))
           else init_chunks f (min (s32 (nat pos + 8 + unat (get_be32 h 4))) (int (length f))) ts)
      else Some ts)"

definition init_tracks :: "smf \<Rightarrow> smf option" where
  "init_tracks s =
     do {
       ts \<leftarrow> init_chunks (smf_file s) 14 [];
       Some ((set_tempo 500000 (s\<lparr>tracks := ts, chan_level := (\<lambda>_. 0), chan_program := (\<lambda>_. 0),
                chan_cc := (\<lambda>_. (\<lambda>_. 0)(7 := 100, 10 := 64, 11 := 127)), chan_bend := (\<lambda>_. 8192)\<rparr>))
              \<lparr>cur_tick := 0, tick_time := 0, now := 0, finished := False\<rparr>)
     }"

definition smf_rewind :: "smf \<Rightarrow> smf option" where
  "smf_rewind s = do { s1 \<leftarrow> init_tracks s; Some (call_syn Reset s1) }"

partial_function (option) dry_run :: "smf \<Rightarrow> smf option" where
  "dry_run s = Option.bind (smf_step 0 s) (\<lambda>r. if fst r then dry_run (snd r) else Some (snd r))"

text \<open>\<open>smf_load\<close>: the result code and the new state.\<close>

definition smf_load :: "byte list \<Rightarrow> nat \<Rightarrow> smf \<Rightarrow> (int \<times> smf) option" where
  "smf_load f eng s =
     (let s1 = s\<lparr>smf_file := f, title := []\<rparr>
      in if length f < 14 then Some (-1, s1)
         else if take 4 f \<noteq> [0x4d, 0x54, 0x68, 0x64] \<or> unat (get_be32 f 4) < 6 then Some (-1, s1)
         else
           (let d = push_bit 8 (unat (f ! 12)) OR unat (f ! 13);
                s2 = s1\<lparr>division := d\<rparr>
            in if d AND 0x8000 \<noteq> 0 then Some (-1, s2)
               else do {
                 s3 \<leftarrow> init_tracks (s2\<lparr>division := (if d = 0 then 96 else d), syn := None\<rparr>);
                 s4 \<leftarrow> dry_run (s3\<lparr>chan_used := (\<lambda>_. False)\<rparr>);
                 let s5 = s4\<lparr>length_ms := (tick_time s4 div two32 * 1000 div SYNTH_RATE) mod two32,
                             syn := Some eng\<rparr>;
                 s6 \<leftarrow> smf_rewind s5;
                 Some (0, s6)
               }))"

definition chase_channel :: "nat \<Rightarrow> smf \<Rightarrow> smf" where
  "chase_channel ch s =
     call_syn (Bend ch (chan_bend s ch))
       (call_syn (Control ch 11 (chan_cc s ch 11))
         (call_syn (Control ch 10 (chan_cc s ch 10))
           (call_syn (Control ch 7 (chan_cc s ch 7))
             (call_syn (Program ch (chan_program s ch)) s))))"

definition smf_set_synth :: "nat \<Rightarrow> smf \<Rightarrow> smf" where
  "smf_set_synth eng s =
     fold chase_channel [0..<16] (call_syn Reset ((call_syn Reset s)\<lparr>syn := Some eng\<rparr>))"

text \<open>\<open>smf_render\<close> of \<open>n\<close> samples from offset \<open>pos\<close> of the buffers.\<close>

definition segment :: "smf \<Rightarrow> int \<Rightarrow> int" where
  "segment s n = min (s32 ((event_time s - now s + 0xffffffff) mod two64 div two32)) n"

definition play_samples :: "int \<Rightarrow> int \<Rightarrow> smf \<Rightarrow> smf" where
  "play_samples pos seg s =
     (call_syn (Render pos seg) s)\<lparr>now := nat ((int (now s) + seg * int two32) mod int two64)\<rparr>"

partial_function (option) smf_render :: "int \<Rightarrow> int \<Rightarrow> smf \<Rightarrow> smf option" where
  "smf_render pos n s =
     (if 0 < n
      then if earliest (tracks s) = 0xffffffff
           then smf_render (pos + n) 0 (play_samples pos n (s\<lparr>finished := True\<rparr>))
           else if event_time s \<le> now s
           then Option.bind (smf_step 1 s) (\<lambda>r. smf_render pos n (snd r))
           else smf_render (pos + segment s n) (n - segment s n) (play_samples pos (segment s n) s)
      else Some s)"

partial_function (option) seek_loop :: "nat \<Rightarrow> smf \<Rightarrow> smf option" where
  "seek_loop target s =
     (if earliest (tracks s) = 0xffffffff then Some (s\<lparr>finished := True\<rparr>)
      else if event_time s > target then Some s
      else Option.bind (smf_step 2 s) (\<lambda>r. seek_loop target (snd r)))"

definition seek_target :: "nat \<Rightarrow> nat" where
  "seek_target ms = (ms * SYNTH_RATE div 1000 * two32) mod two64"

definition smf_seek :: "nat \<Rightarrow> smf \<Rightarrow> smf option" where
  "smf_seek ms s =
     do {
       s1 \<leftarrow> init_tracks s;
       s2 \<leftarrow> seek_loop (seek_target ms) (call_syn Reset s1);
       Some (s2\<lparr>now := seek_target ms\<rparr>)
     }"

definition smf_position_ms :: "smf \<Rightarrow> nat" where
  "smf_position_ms s = (now s div two32 * 1000 div SYNTH_RATE) mod two32"

definition smf_position_beats_q16 :: "smf \<Rightarrow> nat" where
  "smf_position_beats_q16 s =
     (let st = spt s div 65536;
          q = cur_tick s * 65536 + (if now s > tick_time s \<and> st \<noteq> 0 then (now s - tick_time s) div st else 0)
      in if division s \<noteq> 0 then (q mod two64 div division s) mod two32 else 0)"

definition smf_tempo_bpm :: "smf \<Rightarrow> nat" where
  "smf_tempo_bpm s = (if tempo s \<noteq> 0 then 60000000 div tempo s else 0)"

end
