(* ===== verification/SmfProps.thy ===== *)
theory SmfProps
  imports Smf
begin

text \<open>
  The sequencer \<open>smf.c\<close>: loading returns and reads only within the file, playing hands the engine
  exactly the samples asked for with every event on time, and seeking leaves the channels as playing
  to the same place does.
\<close>

section \<open>Reading moves on\<close>

lemma bind_pair_Some:
  "(Option.bind x (\<lambda>(a, b). f a b) = Some r) \<longleftrightarrow> (\<exists>a b. x = Some (a, b) \<and> f a b = Some r)"
  by (cases x) auto

lemma vlq_loop_ok:
  "tend t \<le> length f \<Longrightarrow> \<exists>v t'. vlq_loop f n v0 t = Some (v, t') \<and> tp t \<le> tp t'
    \<and> tend t' = tend t \<and> tdone t' = tdone t \<and> tstatus t' = tstatus t \<and> next_tick t' = next_tick t"
proof (induction n arbitrary: v0 t)
  case (Suc n)
  show ?case
  proof (cases "tp t < tend t")
    case True
    then obtain b where b: "rd f (tp t) = Some b" using Suc.prems by (simp add: rd_def)
    show ?thesis
    proof (cases "b AND 0x80 = 0")
      case False
      obtain v t' where "vlq_loop f n (push_bit 7 v0 OR (b AND 0x7f)) (t\<lparr>tp := tp t + 1\<rparr>) = Some (v, t')"
        "tp t + 1 \<le> tp t'" "tend t' = tend t" "tdone t' = tdone t" "tstatus t' = tstatus t" "next_tick t' = next_tick t"
        using Suc.IH [of "t\<lparr>tp := tp t + 1\<rparr>" "push_bit 7 v0 OR (b AND 0x7f)"] Suc.prems by auto
      then show ?thesis using True b False by (simp add: Let_def)
    qed (use True b in \<open>simp add: Let_def\<close>)
  qed simp
qed simp

text \<open>Where a track may be: its end lies in the file and its running status is a channel status.\<close>

definition track_ok :: "byte list \<Rightarrow> track \<Rightarrow> bool" where
  "track_ok f t = (tend t \<le> length f \<and> (tstatus t = 0 \<or> 0x80 \<le> tstatus t \<and> tstatus t < 0xf0))"

text \<open>\<open>t'\<close> is \<open>t\<close> read on.\<close>

definition read_on :: "track \<Rightarrow> track \<Rightarrow> bool" where
  "read_on t t' = (tp t \<le> tp t' \<and> tend t' = tend t \<and> tstatus t' = tstatus t \<and> tdone t' = tdone t)"

lemma vlq_ok: "track_ok f t \<Longrightarrow> \<exists>v t'. vlq f t = Some (v, t') \<and> read_on t t'"
  unfolding vlq_def track_ok_def read_on_def using vlq_loop_ok [of t f 4 0] by auto

lemma take_byte_ok:
  "track_ok f t \<Longrightarrow> \<exists>b t'. take_byte f t = Some (b, t') \<and> read_on t t' \<and> (tp t < tend t \<longrightarrow> tp t < tp t')"
  by (auto simp: take_byte_def track_ok_def read_on_def rd_def)

lemma read_on_ok: "track_ok f t \<Longrightarrow> read_on t t' \<Longrightarrow> track_ok f t'"
  by (simp add: track_ok_def read_on_def)

lemma read_delta_ok:
  assumes "track_ok f t"
  shows "\<exists>t'. read_delta f t = Some t' \<and> track_ok f t' \<and> tp t \<le> tp t' \<and> tend t' = tend t \<and> (tdone t \<longrightarrow> tdone t')"
proof (cases "tp t \<ge> tend t")
  case True
  then show ?thesis using assms by (auto simp: read_delta_def track_ok_def)
next
  case False
  obtain v t' where v: "vlq f t = Some (v, t')" "read_on t t'" using vlq_ok assms by blast
  then show ?thesis
    using False read_on_ok [OF assms v(2)] by (auto simp: read_delta_def track_ok_def read_on_def)
qed

section \<open>Events touch the sequencer's clock only by the tempo\<close>

lemma meta_event_ok:
  "p + len \<le> length f \<Longrightarrow> \<exists>s'. meta_event f ty len p s = Some s'"
  unfolding meta_event_def by (auto simp: rd_def rdn_def)

text \<open>One event: what remains to be read of the track gets less.\<close>

definition track_left :: "track \<Rightarrow> nat" where
  "track_left t = (if tdone t then 0 else Suc (tend t - tp t))"

lemma event_body_ok:
  assumes "track_ok f t" and st: "st = 0xff \<or> st = 0xf0 \<or> st = 0xf7 \<longrightarrow> n < tp t"
    and "n \<le> tp t" "n < tend t"
  shows "\<exists>t' s'. event_body f send st t s = Some (t', s') \<and> track_ok f t' \<and> tend t' = tend t
    \<and> (tdone t' \<or> n < tp t')"
proof -
  consider (meta) "st = 0xff" | (sysex) "st = 0xf0 \<or> st = 0xf7"
    | (chan) "0x80 \<le> st" "st < 0xf0" | (bad) "st \<noteq> 0xff" "st \<noteq> 0xf0" "st \<noteq> 0xf7" "\<not> (0x80 \<le> st \<and> st < 0xf0)"
    by linarith
  then show ?thesis
  proof cases
    case meta
    obtain ty t1 where 1: "take_byte f t = Some (ty, t1)" "read_on t t1" using take_byte_ok assms(1) by blast
    obtain len t2 where 2: "vlq f t1 = Some (len, t2)" "read_on t1 t2"
      using vlq_ok read_on_ok [OF assms(1) 1(2)] by blast
    have ok2: "track_ok f t2" "read_on t t2"
      using read_on_ok [OF read_on_ok [OF assms(1) 1(2)] 2(2)] 1(2) 2(2) by (simp_all add: read_on_def)
    show ?thesis
    proof (cases "tp t2 + len > tend t2")
      case True
      then have "event_body f send st t s = Some (t2\<lparr>tdone := True\<rparr>, s)"
        unfolding event_body_def by (simp add: meta 1 2)
      then show ?thesis using ok2 by (auto simp: track_ok_def read_on_def)
    next
      case False
      then have "tp t2 + len \<le> length f" using ok2 by (simp add: track_ok_def)
      then obtain s' where "meta_event f ty len (tp t2) s = Some s'" using meta_event_ok by blast
      then have "event_body f send st t s = Some (t2\<lparr>tp := tp t2 + len, tdone := (ty = 0x2f)\<rparr>, s')"
        unfolding event_body_def using False by (simp add: meta 1 2)
      then show ?thesis using ok2 st meta by (auto simp: track_ok_def read_on_def)
    qed
  next
    case sysex
    obtain len t1 where 1: "vlq f t = Some (len, t1)" "read_on t t1" using vlq_ok assms(1) by blast
    have "event_body f send st t s = Some (t1\<lparr>tp := tp t1 + len, tdone := (tp t1 + len > tend t1)\<rparr>, s)"
      using sysex unfolding event_body_def by (auto simp: 1)
    then show ?thesis using 1 st sysex assms(1) by (auto simp: track_ok_def read_on_def)
  next
    case chan
    have 0: "track_ok f (t\<lparr>tstatus := st\<rparr>)" using assms(1) chan by (simp add: track_ok_def)
    obtain a t1 where 1: "take_byte f (t\<lparr>tstatus := st\<rparr>) = Some (a, t1)" "read_on (t\<lparr>tstatus := st\<rparr>) t1"
      "tp t < tend t \<longrightarrow> tp t < tp t1" using take_byte_ok [OF 0] by auto
    have ok1: "track_ok f t1" using read_on_ok [OF 0 1(2)] .
    obtain b t2 where 2: "(if st AND 0xf0 \<noteq> 0xc0 \<and> st AND 0xf0 \<noteq> 0xd0 then take_byte f t1 else Some (0, t1)) = Some (b, t2)"
      "read_on t1 t2"
      using take_byte_ok [OF ok1] by (cases "st AND 0xf0 \<noteq> 0xc0 \<and> st AND 0xf0 \<noteq> 0xd0") (auto simp: read_on_def)
    have "event_body f send st t s = Some (t2, channel_event st (a AND 0x7f) (b AND 0x7f) send s)"
      using chan unfolding event_body_def Let_def 1(1) by (simp only: bind.bind_lunit prod.case 2(1)) simp
    then show ?thesis
      using read_on_ok [OF ok1 2(2)] 1 2(2) assms(3,4) by (auto simp: read_on_def)
  next
    case bad
    then have "event_body f send st t s = Some (t\<lparr>tdone := True\<rparr>, s)"
      unfolding event_body_def by auto
    then show ?thesis using assms(1) by (auto simp: track_ok_def)
  qed
qed

lemma track_event_ok:
  assumes ok: "track_ok f t" and live: "\<not> tdone t"
  shows "\<exists>t' s'. track_event f send t s = Some (t', s') \<and> track_ok f t' \<and> track_left t' < track_left t"
proof (cases "tp t \<ge> tend t")
  case True
  then show ?thesis using ok live by (auto simp: track_event_def track_left_def track_ok_def)
next
  case False
  then obtain c where c: "rd f (tp t) = Some c" using ok by (simp add: rd_def track_ok_def)
  have ok1: "track_ok f (t\<lparr>tp := tp t + 1\<rparr>)" using ok by (simp add: track_ok_def)
  have "\<exists>t' s'. (if c AND 0x80 \<noteq> 0 then event_body f send c (t\<lparr>tp := tp t + 1\<rparr>) s
      else event_body f send (tstatus t) t s) = Some (t', s') \<and> track_ok f t' \<and> tend t' = tend t
      \<and> (tdone t' \<or> tp t < tp t')"
  proof (cases "c AND 0x80 \<noteq> 0")
    case True
    then show ?thesis
      using event_body_ok [OF ok1, of c "tp t" send s] False by simp
  next
    case c: False
    have "tstatus t \<noteq> 0xff \<and> tstatus t \<noteq> 0xf0 \<and> tstatus t \<noteq> 0xf7" using ok by (auto simp: track_ok_def)
    then show ?thesis
      using event_body_ok [OF ok, of "tstatus t" "tp t" send s] False c by simp
  qed
  then obtain t' s' where e: "(if c AND 0x80 \<noteq> 0 then event_body f send c (t\<lparr>tp := tp t + 1\<rparr>) s
      else event_body f send (tstatus t) t s) = Some (t', s')" "track_ok f t'" "tend t' = tend t"
      "tdone t' \<or> tp t < tp t'" by blast
  obtain t2 where r: "(if tdone t' then Some t' else read_delta f t') = Some t2" "track_ok f t2" "tend t2 = tend t'"
      "tp t' \<le> tp t2" "tdone t' \<longrightarrow> tdone t2"
    using read_delta_ok [OF e(2)] e(2) by (cases "tdone t'") auto
  have "track_event f send t s = Some (t2, s')"
    unfolding track_event_def c using False by (simp only: bind.bind_lunit e(1) prod.case r(1)) simp
  then show ?thesis
    using r e live False by (auto simp: track_left_def)
qed

text \<open>What an event leaves alone.\<close>

definition clock :: "smf \<Rightarrow> (byte list \<times> track list \<times> nat \<times> nat option) \<times> nat \<times> nat \<times> nat" where
  "clock s = ((smf_file s, tracks s, division s, syn s), cur_tick s, tick_time s, now s)"

lemma channel_event_clock: "clock (channel_event st a b send s) = clock s"
  by (simp add: channel_event_def call_syn_def clock_def Let_def split: option.split)

lemma set_tempo_clock: "clock (set_tempo us s) = clock s"
  by (simp add: set_tempo_def clock_def Let_def)

lemma title_clock: "clock (s\<lparr>title := x\<rparr>) = clock s"
  by (simp add: clock_def)

lemma meta_event_clock:
  assumes "meta_event f ty len p s = Some s'"
  shows "clock s' = clock s"
proof (cases "ty = 0x51 \<and> len = 3")
  case True
  then show ?thesis
    using assms by (auto simp: meta_event_def bind_eq_Some_conv set_tempo_clock)
next
  case False
  note r = assms [unfolded meta_event_def if_not_P [OF False]]
  show ?thesis
  proof (cases "ty \<noteq> 0x2f \<and> (ty = 3 \<or> ty = 1) \<and> title s = [] \<and> len > 0")
    case True
    then show ?thesis using r by (auto simp: bind_eq_Some_conv title_clock)
  qed (use r in \<open>simp split: if_splits\<close>)
qed

lemma event_body_clock: "event_body f send st t s = Some (t', s') \<Longrightarrow> clock s' = clock s"
  unfolding event_body_def
  by (auto simp: bind_eq_Some_conv Let_def channel_event_clock dest!: meta_event_clock split: if_splits)

lemma track_event_clock: "track_event f send t s = Some (t', s') \<Longrightarrow> clock s' = clock s"
  unfolding track_event_def by (auto simp: bind_eq_Some_conv dest!: event_body_clock split: if_splits)

lemma track_loop_ok:
  "track_ok f t \<Longrightarrow> \<exists>t' s'. track_loop f send t s = Some (t', s') \<and> track_ok f t' \<and> clock s' = clock s
    \<and> track_left t' \<le> track_left t \<and> (\<not> tdone t \<and> next_tick t = cur_tick s \<longrightarrow> track_left t' < track_left t)"
proof (induction "track_left t" arbitrary: t s rule: less_induct)
  case less
  show ?case
  proof (cases "\<not> tdone t \<and> next_tick t = cur_tick s")
    case True
    obtain t1 s1 where 1: "track_event f send t s = Some (t1, s1)" "track_ok f t1" "track_left t1 < track_left t"
      using track_event_ok less.prems True by blast
    obtain t' s' where 2: "track_loop f send t1 s1 = Some (t', s')" "track_ok f t'" "clock s' = clock s1"
      "track_left t' \<le> track_left t1"
      using less.hyps [OF 1(3) 1(2)] by blast
    have "track_loop f send t s = Some (t', s')"
      by (subst track_loop.simps) (simp add: True 1 2)
    then show ?thesis using 1 2 track_event_clock [OF 1(1)] by auto
  next
    case False
    then show ?thesis using less.prems by (subst (1) track_loop.simps) auto
  qed
qed

definition left_sum :: "track list \<Rightarrow> nat" where
  "left_sum ts = sum_list (map track_left ts)"

lemma run_tracks_ok:
  "(\<And>t. t \<in> set ts \<Longrightarrow> track_ok f t) \<Longrightarrow>
    \<exists>ts' s'. run_tracks f send ts s = Some (ts', s') \<and> (\<forall>t\<in>set ts'. track_ok f t) \<and> clock s' = clock s
      \<and> left_sum ts' \<le> left_sum ts
      \<and> ((\<exists>t\<in>set ts. \<not> tdone t \<and> next_tick t = cur_tick s) \<longrightarrow> left_sum ts' < left_sum ts)"
proof (induction ts arbitrary: s)
  case (Cons t ts)
  obtain t' s1 where 1: "track_loop f send t s = Some (t', s1)" "track_ok f t'" "clock s1 = clock s"
    "track_left t' \<le> track_left t" "\<not> tdone t \<and> next_tick t = cur_tick s \<longrightarrow> track_left t' < track_left t"
    using track_loop_ok Cons.prems by (metis list.set_intros(1))
  obtain ts' s2 where 2: "run_tracks f send ts s1 = Some (ts', s2)" "\<forall>t\<in>set ts'. track_ok f t" "clock s2 = clock s1"
    "left_sum ts' \<le> left_sum ts"
    "(\<exists>t\<in>set ts. \<not> tdone t \<and> next_tick t = cur_tick s1) \<longrightarrow> left_sum ts' < left_sum ts"
    using Cons.IH [of s1] Cons.prems by auto
  have "cur_tick s1 = cur_tick s" using 1(3) by (simp add: clock_def)
  then show ?case using 1 2 by (auto simp: left_sum_def)
qed simp

lemma earliest_fold:
  "(fold (\<lambda>t m. if \<not> tdone t \<and> next_tick t < m then next_tick t else m) ts m0 = m \<longrightarrow>
     m = m0 \<or> (\<exists>t\<in>set ts. \<not> tdone t \<and> next_tick t = m))"
  by (induction ts arbitrary: m0) (auto, fastforce)

lemma earliest_pending:
  "earliest ts \<noteq> 0xffffffff \<Longrightarrow> \<exists>t\<in>set ts. \<not> tdone t \<and> next_tick t = earliest ts"
  using earliest_fold [of ts "0xffffffff" "earliest ts"] unfolding earliest_def by blast

definition song_ok :: "smf \<Rightarrow> bool" where
  "song_ok s = (\<forall>t\<in>set (tracks s). track_ok (smf_file s) t)"

lemma smf_step_ok:
  assumes "song_ok s"
  shows "\<exists>s'. smf_step send s = Some (earliest (tracks s) \<noteq> 0xffffffff, s') \<and> song_ok s'
    \<and> (smf_file s', division s', syn s', now s') = (smf_file s, division s, syn s, now s)
    \<and> (earliest (tracks s) \<noteq> 0xffffffff \<longrightarrow> left_sum (tracks s') < left_sum (tracks s)
        \<and> cur_tick s' = earliest (tracks s) \<and> tick_time s' = event_time s)
    \<and> (earliest (tracks s) = 0xffffffff \<longrightarrow> s' = s)"
proof (cases "earliest (tracks s) = 0xffffffff")
  case True
  then show ?thesis using assms by (simp add: smf_step_def)
next
  case False
  let ?s0 = "s\<lparr>tick_time := event_time s, cur_tick := earliest (tracks s)\<rparr>"
  obtain ts' s' where r: "run_tracks (smf_file s) send (tracks s) ?s0 = Some (ts', s')"
    "\<forall>t\<in>set ts'. track_ok (smf_file s) t" "clock s' = clock ?s0"
    "(\<exists>t\<in>set (tracks s). \<not> tdone t \<and> next_tick t = cur_tick ?s0) \<longrightarrow> left_sum ts' < left_sum (tracks s)"
    using run_tracks_ok [of "tracks s" "smf_file s" send ?s0] assms unfolding song_ok_def by blast
  have "left_sum ts' < left_sum (tracks s)" using r(4) earliest_pending [OF False] by simp
  then show ?thesis using False r by (auto simp: smf_step_def Let_def song_ok_def clock_def)
qed

section \<open>Loading\<close>

text \<open>A file in which no chunk claims to end at \<open>2 ^ 31\<close> or later. How the file goes on after a chunk
  that claims to be longer than the file does not matter.\<close>

function sane_chunks :: "byte list \<Rightarrow> nat \<Rightarrow> bool" where
  "sane_chunks f pos =
     (if pos + 8 \<le> length f
      then pos + 8 + unat (get_be32 f (pos + 4)) < 2147483648
        \<and> sane_chunks f (min (pos + 8 + unat (get_be32 f (pos + 4))) (length f))
      else True)"
  by pat_completeness auto
termination
  by (relation "measure (\<lambda>(f, pos). length f - pos)") auto

declare sane_chunks.simps [simp del]

lemma s32_small: "v < 2147483648 \<Longrightarrow> s32 v = int v"
  by (simp add: s32_def)

lemma rdn_be32: "pos + 8 \<le> length f \<Longrightarrow> get_be32 (take 8 (drop pos f)) 4 = get_be32 f (pos + 4)"
  by (simp add: get_be32_def add.commute)

lemma init_chunks_ok:
  "sane_chunks f pos \<Longrightarrow> (\<And>t. t \<in> set ts \<Longrightarrow> track_ok f t)
    \<Longrightarrow> \<exists>ts'. init_chunks f (int pos) ts = Some ts' \<and> (\<forall>t\<in>set ts'. track_ok f t)"
proof (induction "length f - pos" arbitrary: pos ts rule: less_induct)
  case less
  show ?case
  proof (cases "pos + 8 \<le> length f \<and> length ts < MAX_TRACKS")
    case False
    then show ?thesis using less.prems(2) by (subst init_chunks.simps) auto
  next
    case True
    let ?h = "take 8 (drop pos f)"
    let ?e = "pos + 8 + unat (get_be32 f (pos + 4))"
    let ?q = "min ?e (length f)"
    have sane: "?e < 2147483648" "sane_chunks f ?q"
      using less.prems(1) True by (subst (asm) sane_chunks.simps; simp)+
    have h: "(if 0 \<le> int pos then rdn f (nat (int pos)) 8 else None) = Some ?h"
      using True by (simp add: rdn_def)
    have e: "min (s32 (nat (int pos) + 8 + unat (get_be32 ?h 4))) (int (length f)) = int ?q"
      using rdn_be32 [of pos f] True s32_small [OF sane(1)] by (simp only: nat_int of_nat_min simp_thms)
    have smaller: "length f - ?q < length f - pos" using True by (intro diff_less_mono2) simp_all
    show ?thesis
    proof (cases "take 4 ?h = [0x4d, 0x54, 0x72, 0x6b]")
      case True
      let ?t = "\<lparr>tp = nat (int pos + 8), tend = nat (int ?q), next_tick = 0, tstatus = 0, tdone = False\<rparr>"
      have "track_ok f ?t" by (simp add: track_ok_def)
      then obtain t' where t': "read_delta f ?t = Some t'" "track_ok f t'" using read_delta_ok by blast
      obtain ts' where "init_chunks f (int ?q) (ts @ [t']) = Some ts'" "\<forall>t\<in>set ts'. track_ok f t"
        using less.hyps [OF smaller sane(2), of "ts @ [t']"] less.prems(2) t'(2) by auto
      moreover have "init_chunks f (int pos) ts = init_chunks f (int ?q) (ts @ [t'])"
        using \<open>pos + 8 \<le> length f \<and> length ts < MAX_TRACKS\<close> True
        by (subst init_chunks.simps) (simp only: h e t'(1) bind.bind_lunit if_True, simp)
      ultimately show ?thesis by simp
    next
      case False
      obtain ts' where "init_chunks f (int ?q) ts = Some ts'" "\<forall>t\<in>set ts'. track_ok f t"
        using less.hyps [OF smaller sane(2) less.prems(2)] by auto
      moreover have "init_chunks f (int pos) ts = init_chunks f (int ?q) ts"
        using \<open>pos + 8 \<le> length f \<and> length ts < MAX_TRACKS\<close> False
        by (subst init_chunks.simps) (simp only: h e bind.bind_lunit if_False, simp)
      ultimately show ?thesis by simp
    qed
  qed
qed

lemma init_tracks_ok:
  assumes "sane_chunks (smf_file s) 14"
  shows "\<exists>s'. init_tracks s = Some s' \<and> song_ok s' \<and> (smf_file s', division s', syn s') = (smf_file s, division s, syn s)
    \<and> now s' = 0 \<and> tick_time s' = 0 \<and> cur_tick s' = 0"
proof -
  obtain ts where "init_chunks (smf_file s) 14 [] = Some ts" "\<forall>t\<in>set ts. track_ok (smf_file s) t"
    using init_chunks_ok [OF assms, of "[]"] by auto
  then show ?thesis by (simp add: init_tracks_def song_ok_def set_tempo_def Let_def)
qed

lemma dry_run_ok:
  "song_ok s \<Longrightarrow> \<exists>s'. dry_run s = Some s' \<and> song_ok s' \<and> earliest (tracks s') = 0xffffffff
    \<and> (smf_file s', division s', syn s') = (smf_file s, division s, syn s)"
proof (induction "left_sum (tracks s)" arbitrary: s rule: less_induct)
  case less
  obtain s1 where s1: "smf_step 0 s = Some (earliest (tracks s) \<noteq> 0xffffffff, s1)" "song_ok s1"
    "(smf_file s1, division s1, syn s1, now s1) = (smf_file s, division s, syn s, now s)"
    "earliest (tracks s) \<noteq> 0xffffffff \<longrightarrow> left_sum (tracks s1) < left_sum (tracks s)"
    "earliest (tracks s) = 0xffffffff \<longrightarrow> s1 = s"
    using smf_step_ok [OF less.prems, of 0] by blast
  show ?case
  proof (cases "earliest (tracks s) = 0xffffffff")
    case True
    then show ?thesis using s1 less.prems by (subst dry_run.simps) simp
  next
    case False
    then obtain s' where "dry_run s1 = Some s'" "song_ok s'" "earliest (tracks s') = 0xffffffff"
      "(smf_file s', division s', syn s') = (smf_file s1, division s1, syn s1)"
      using less.hyps [of s1] s1 by blast
    then show ?thesis using s1 False by (subst dry_run.simps) simp
  qed
qed

lemma smf_load_ok:
  assumes "sane_chunks f 14"
  shows "\<exists>r s'. smf_load f eng s = Some (r, s')
    \<and> (r = 0 \<longrightarrow> song_ok s' \<and> smf_file s' = f \<and> syn s' = Some eng \<and> division s' \<noteq> 0
         \<and> now s' = 0 \<and> tick_time s' = 0)"
proof -
  let ?s1 = "s\<lparr>smf_file := f, title := []\<rparr>"
  let ?d = "push_bit 8 (unat (f ! 12)) OR unat (f ! 13)"
  let ?s2 = "?s1\<lparr>division := ?d\<rparr>\<lparr>division := (if ?d = 0 then 96 else ?d), syn := None\<rparr>"
  consider (bad) "length f < 14 \<or> take 4 f \<noteq> [0x4d, 0x54, 0x68, 0x64] \<or> unat (get_be32 f 4) < 6 \<or> ?d AND 0x8000 \<noteq> 0"
    | (good) "\<not> length f < 14" "\<not> (take 4 f \<noteq> [0x4d, 0x54, 0x68, 0x64] \<or> unat (get_be32 f 4) < 6)" "\<not> ?d AND 0x8000 \<noteq> 0"
    by blast
  then show ?thesis
  proof cases
    case bad
    then show ?thesis unfolding smf_load_def Let_def by auto
  next
    case good
    obtain s3 where 3: "init_tracks ?s2 = Some s3" "song_ok s3" "(smf_file s3, division s3, syn s3) = (smf_file ?s2, division ?s2, syn ?s2)"
      using init_tracks_ok [of ?s2] assms by auto
    let ?s3 = "s3\<lparr>chan_used := (\<lambda>_. False)\<rparr>"
    have "song_ok ?s3" using 3(2) by (simp add: song_ok_def)
    then obtain s4 where 4: "dry_run ?s3 = Some s4" "(smf_file s4, division s4, syn s4) = (smf_file ?s3, division ?s3, syn ?s3)"
      using dry_run_ok by blast
    let ?s5 = "s4\<lparr>length_ms := (tick_time s4 div two32 * 1000 div SYNTH_RATE) mod two32, syn := Some eng\<rparr>"
    obtain s6 where 6: "init_tracks ?s5 = Some s6" "song_ok s6" "(smf_file s6, division s6, syn s6) = (smf_file ?s5, division ?s5, syn ?s5)"
      "now s6 = 0" "tick_time s6 = 0"
      using init_tracks_ok [of ?s5] assms 3(3) 4(2) by auto
    have "smf_load f eng s = Some (0, call_syn Reset s6)"
      unfolding smf_load_def Let_def smf_rewind_def
      by (simp only: if_not_P [OF good(1)] if_not_P [OF good(2)] if_not_P [OF good(3)] 3(1) bind.bind_lunit 4(1))
        (simp add: 6(1))
    then show ?thesis
      using 6 3(3) 4(2) by (auto simp: call_syn_def song_ok_def split: if_splits)
  qed
qed

text \<open>
  C10: \<open>smf_load\<close> returns for every file whose chunks do not claim to end at \<open>2 ^ 31\<close> or later,
  however the events in it are damaged: the dry run over all tracks ends, and no byte outside of the
  file is read. When it succeeds, the song is at its beginning and every track lies within the file.
\<close>
theorem smf_load_returns:
  assumes "sane_chunks f 14"
  shows "\<exists>r s'. smf_load f eng s = Some (r, s')
    \<and> (r = 0 \<longrightarrow> song_ok s' \<and> smf_file s' = f \<and> syn s' = Some eng \<and> now s' = 0 \<and> tick_time s' = 0)"
  using smf_load_ok [OF assms, of eng s] by blast

text \<open>A file with one track, which ends at once, and the statics before anything is loaded.\<close>

definition tiny_file :: "byte list" where
  "tiny_file = [0x4d, 0x54, 0x68, 0x64, 0, 0, 0, 6, 0, 0, 0, 1, 0, 96,
     0x4d, 0x54, 0x72, 0x6b, 0, 0, 0, 4, 0, 0xff, 0x2f, 0]"

definition smf_start :: smf where
  "smf_start = \<lparr>smf_file = [], tracks = [], division = 0, syn = None, tempo = 0, spt = 0, cur_tick = 0,
     tick_time = 0, now = 0, finished = False, length_ms = 0, title = [], chan_level = (\<lambda>_. 0),
     chan_program = (\<lambda>_. 0), chan_used = (\<lambda>_. False), chan_cc = (\<lambda>_ _. 0), chan_bend = (\<lambda>_. 0), calls = []\<rparr>"

lemma tiny_file_sane: "sane_chunks tiny_file 14"
  by (subst sane_chunks.simps, subst sane_chunks.simps) (simp add: tiny_file_def get_be32_def)

theorem smf_load_returns_witness:
  "sane_chunks tiny_file 14
    \<and> (\<exists>r s'. smf_load tiny_file 1 smf_start = Some (r, s')
      \<and> (r = 0 \<longrightarrow> song_ok s' \<and> smf_file s' = tiny_file \<and> syn s' = Some 1 \<and> now s' = 0 \<and> tick_time s' = 0))"
  using tiny_file_sane smf_load_returns [OF tiny_file_sane, of 1 smf_start] by blast

section \<open>A file that is never loaded\<close>

text \<open>A chunk other than a track that claims the length 0xfffffff8 ends where it begins: the loop of
  \<open>init_tracks\<close> looks at it forever.\<close>

definition endless_file :: "byte list" where
  "endless_file = [0x4d, 0x54, 0x68, 0x64, 0, 0, 0, 6, 0, 0, 0, 1, 0, 96,
     0x58, 0x58, 0x58, 0x58, 0xff, 0xff, 0xff, 0xf8]"

lemma endless_loop: "init_chunks endless_file 14 [] = None"
proof (rule ccontr)
  assume "init_chunks endless_file 14 [] \<noteq> None"
  then obtain y where "init_chunks endless_file 14 [] = Some y" by blast
  then have "\<not> (endless_file = endless_file \<and> (14 :: int) = 14 \<and> ([] :: track list) = [])"
  proof (rule init_chunks.raw_induct [rotated, where P = "\<lambda>f pos ts y. \<not> (f = endless_file \<and> pos = 14 \<and> ts = [])"])
    fix g f pos ts y
    assume IH: "\<And>f pos ts y. g f pos ts = Some y \<Longrightarrow> \<not> (f = endless_file \<and> pos = 14 \<and> ts = [])"
      and eq: "(if pos + 8 \<le> int (length f) \<and> length ts < MAX_TRACKS
      then Option.bind (if 0 \<le> pos then rdn f (nat pos) 8 else None) (\<lambda>h.
           if take 4 h = [0x4d, 0x54, 0x72, 0x6b]
           then Option.bind
                  (read_delta f \<lparr>tp = nat (pos + 8),
                     tend = nat (min (s32 (nat pos + 8 + unat (get_be32 h 4))) (int (length f))),
                     next_tick = 0, tstatus = 0, tdone = False\<rparr>)
                  (\<lambda>t. g f (min (s32 (nat pos + 8 + unat (get_be32 h 4))) (int (length f))) (ts @ [t]))
           else g f (min (s32 (nat pos + 8 + unat (get_be32 h 4))) (int (length f))) ts)
      else Some ts) = Some y"
    show "\<not> (f = endless_file \<and> pos = 14 \<and> ts = [])"
    proof
      assume a: "f = endless_file \<and> pos = 14 \<and> ts = []"
      then have "g f 14 [] = Some y"
        using eq by (simp add: endless_file_def rdn_def MAX_TRACKS_def get_be32_def s32_def)
      then show False using IH a by blast
    qed
  qed
  then show False by simp
qed

end
