(* ===== verification/SmfPlay.thy ===== *)
theory SmfPlay
  imports SmfProps
begin

text \<open>
  Playing and seeking in \<open>smf.c\<close>. One pass over the events serves three uses, chosen by \<open>send\<close>: the
  length scan (0), playing (1) and seeking (2). The locale \<open>event_map\<close> states when two of them agree
  under a map of the state; its interpretations show that the scan and the seek are playing with the
  notes left out.
\<close>

section \<open>One pass under a map of the state\<close>

locale event_map =
  fixes U :: "smf \<Rightarrow> smf" and send send' :: nat
  assumes U_tempo: "U (set_tempo us s) = set_tempo us (U s)"
    and U_title: "U (s\<lparr>title := x\<rparr>) = (U s)\<lparr>title := x\<rparr>"
    and U_channel: "U (channel_event st a b send s) = channel_event st a b send' (U s)"
    and U_time: "U (s\<lparr>tick_time := tm, cur_tick := tk\<rparr>) = (U s)\<lparr>tick_time := tm, cur_tick := tk\<rparr>"
    and U_tracks: "U (s\<lparr>tracks := ts\<rparr>) = (U s)\<lparr>tracks := ts\<rparr>"
    and U_same: "title (U s) = title s" "cur_tick (U s) = cur_tick s" "tick_time (U s) = tick_time s"
      "spt (U s) = spt s" "tracks (U s) = tracks s" "smf_file (U s) = smf_file s"
begin

lemma meta_event_map: "meta_event f ty len p (U s) = map_option U (meta_event f ty len p s)"
proof (cases "ty = 0x51 \<and> len = 3")
  case True
  then show ?thesis
    unfolding meta_event_def by (simp add: U_tempo map_option_bind o_def)
next
  case False
  show ?thesis
    unfolding meta_event_def if_not_P [OF False] U_same
    by (auto simp: U_title map_option_bind o_def)
qed

lemma event_body_map:
  "event_body f send' st t (U s) = map_option (apsnd U) (event_body f send st t s)"
proof -
  consider "st = 0xff" | "st \<noteq> 0xff" "st = 0xf0 \<or> st = 0xf7" | "st \<noteq> 0xff" "\<not> (st = 0xf0 \<or> st = 0xf7)"
    by blast
  then show ?thesis
  proof cases
    case 1
    then show ?thesis
      unfolding event_body_def if_P [OF 1] meta_event_map bind_map_option
      by (auto simp: map_option_bind o_def intro!: Option.bind_cong split: prod.split)
  next
    case 2
    then show ?thesis
      unfolding event_body_def if_not_P [OF 2(1)] if_P [OF 2(2)]
      by (auto simp: map_option_bind o_def intro!: Option.bind_cong split: prod.split)
  next
    case 3
    then show ?thesis
      unfolding event_body_def if_not_P [OF 3(1)] if_not_P [OF 3(2)]
      by (auto simp: Let_def U_channel map_option_bind o_def intro!: Option.bind_cong split: prod.split)
  qed
qed

lemma track_event_map:
  "track_event f send' t (U s) = map_option (apsnd U) (track_event f send t s)"
  unfolding track_event_def event_body_map if_distrib [of "map_option (apsnd U)", symmetric] bind_map_option
  by (auto simp: map_option_bind o_def intro!: Option.bind_cong split: prod.split)

lemma track_loop_map:
  "track_ok f t \<Longrightarrow> track_loop f send' t (U s) = map_option (apsnd U) (track_loop f send t s)"
proof (induction "track_left t" arbitrary: t s rule: less_induct)
  case less
  show ?case
  proof (cases "\<not> tdone t \<and> next_tick t = cur_tick s")
    case True
    obtain t1 s1 where 1: "track_event f send t s = Some (t1, s1)" "track_ok f t1" "track_left t1 < track_left t"
      using track_event_ok less.prems True by blast
    have "track_loop f send' t (U s) = track_loop f send' t1 (U s1)"
      using True 1(1) by (subst track_loop.simps) (simp add: U_same track_event_map)
    moreover have "track_loop f send t s = track_loop f send t1 s1"
      using True 1(1) by (subst track_loop.simps) simp
    ultimately show ?thesis using less.hyps [OF 1(3) 1(2)] by simp
  next
    case False
    then show ?thesis by (subst (1 2) track_loop.simps) (auto simp: U_same)
  qed
qed

lemma run_tracks_map:
  "(\<And>t. t \<in> set ts \<Longrightarrow> track_ok f t)
    \<Longrightarrow> run_tracks f send' ts (U s) = map_option (apsnd U) (run_tracks f send ts s)"
proof (induction ts arbitrary: s)
  case (Cons t ts)
  have "track_loop f send' t (U s) = map_option (apsnd U) (track_loop f send t s)"
    by (rule track_loop_map) (simp add: Cons.prems)
  then show ?case
    using Cons by (cases "track_loop f send t s") (auto simp: map_option_bind o_def bind_map_option intro!: Option.bind_cong split: prod.split)
qed simp

lemma smf_step_map:
  "song_ok s \<Longrightarrow> smf_step send' (U s) = map_option (apsnd U) (smf_step send s)"
proof -
  assume ok: "song_ok s"
  have e: "event_time (U s) = event_time s" by (simp add: event_time_def U_same)
  have "run_tracks (smf_file s) send' (tracks s) (U (s\<lparr>tick_time := event_time s, cur_tick := earliest (tracks s)\<rparr>))
      = map_option (apsnd U) (run_tracks (smf_file s) send (tracks s) (s\<lparr>tick_time := event_time s, cur_tick := earliest (tracks s)\<rparr>))"
    by (rule run_tracks_map) (use ok in \<open>simp add: song_ok_def\<close>)
  then show ?thesis
    unfolding smf_step_def Let_def U_same e U_time
    by (auto simp: map_option_bind o_def bind_map_option U_tracks intro!: Option.bind_cong split: prod.split)
qed

end

lemma set_tempo_fields:
  "\<exists>x y. set_tempo us s = s\<lparr>tempo := x, spt := y (division s)\<rparr>
    \<and> (\<forall>s'. set_tempo us s' = s'\<lparr>tempo := x, spt := y (division s')\<rparr>)"
  unfolding set_tempo_def Let_def
  by (rule exI [of _ "if us \<noteq> 0 then us else 500000"],
      rule exI [of _ "\<lambda>d. (if us \<noteq> 0 then us else 500000) * (SYNTH_RATE div 1000) * two32 mod two64 div (1000 * d)"])
    (intro conjI allI refl)

text \<open>The length scan is playing without an engine.\<close>

definition scan_view :: "smf \<Rightarrow> smf" where
  "scan_view s = s\<lparr>now := 0, syn := None, calls := [], chan_level := (\<lambda>_. 0)\<rparr>"

lemma scan_view_same [simp]:
  "title (scan_view s) = title s" "cur_tick (scan_view s) = cur_tick s" "tick_time (scan_view s) = tick_time s"
  "spt (scan_view s) = spt s" "tracks (scan_view s) = tracks s" "smf_file (scan_view s) = smf_file s"
  "chan_used (scan_view s) = chan_used s" "chan_cc (scan_view s) = chan_cc s" "division (scan_view s) = division s"
  "chan_program (scan_view s) = chan_program s" "chan_bend (scan_view s) = chan_bend s"
  by (simp_all add: scan_view_def)

lemma scan_view_updates [simp]:
  "scan_view (s\<lparr>title := x\<rparr>) = (scan_view s)\<lparr>title := x\<rparr>"
  "scan_view (s\<lparr>tick_time := tm, cur_tick := tk\<rparr>) = (scan_view s)\<lparr>tick_time := tm, cur_tick := tk\<rparr>"
  "scan_view (s\<lparr>tracks := ts\<rparr>) = (scan_view s)\<lparr>tracks := ts\<rparr>"
  "scan_view (s\<lparr>tempo := p, spt := q\<rparr>) = (scan_view s)\<lparr>tempo := p, spt := q\<rparr>"
  "scan_view (s\<lparr>chan_used := u\<rparr>) = (scan_view s)\<lparr>chan_used := u\<rparr>"
  "scan_view (s\<lparr>chan_cc := c\<rparr>) = (scan_view s)\<lparr>chan_cc := c\<rparr>"
  "scan_view (s\<lparr>chan_program := g\<rparr>) = (scan_view s)\<lparr>chan_program := g\<rparr>"
  "scan_view (s\<lparr>chan_bend := d\<rparr>) = (scan_view s)\<lparr>chan_bend := d\<rparr>"
  "scan_view (s\<lparr>chan_level := l\<rparr>) = scan_view s"
  "scan_view (call_syn k s) = scan_view s"
  by (simp_all add: scan_view_def call_syn_def split: option.split)

lemma scan_channel: "scan_view (channel_event st a b 1 s) = channel_event st a b 0 (scan_view s)"
  by (simp add: channel_event_def Let_def)

lemma scan_view_tempo: "scan_view (set_tempo us s) = set_tempo us (scan_view s)"
proof -
  obtain x y where xy: "\<And>s. set_tempo us s = s\<lparr>tempo := x, spt := y (division s)\<rparr>"
    using set_tempo_fields [of us] by blast
  show ?thesis unfolding xy by simp
qed

interpretation scan: event_map scan_view 1 0
  by unfold_locales (rule scan_view_tempo scan_view_updates scan_view_same scan_channel)+

text \<open>Seeking is playing without the notes.\<close>

fun is_note :: "nat \<times> synth_call \<Rightarrow> bool" where
  "is_note (e, Note_on c k v) = True"
| "is_note (e, Note_off c k) = True"
| "is_note (e, c) = False"

definition seek_view :: "smf \<Rightarrow> smf" where
  "seek_view s = s\<lparr>chan_level := (\<lambda>_. 0), calls := filter (\<lambda>c. \<not> is_note c) (calls s)\<rparr>"

lemma seek_view_same [simp]:
  "title (seek_view s) = title s" "cur_tick (seek_view s) = cur_tick s" "tick_time (seek_view s) = tick_time s"
  "spt (seek_view s) = spt s" "tracks (seek_view s) = tracks s" "smf_file (seek_view s) = smf_file s"
  "chan_used (seek_view s) = chan_used s" "chan_cc (seek_view s) = chan_cc s" "division (seek_view s) = division s"
  "chan_program (seek_view s) = chan_program s" "chan_bend (seek_view s) = chan_bend s"
  by (simp_all add: seek_view_def)

lemma seek_view_updates [simp]:
  "seek_view (s\<lparr>title := x\<rparr>) = (seek_view s)\<lparr>title := x\<rparr>"
  "seek_view (s\<lparr>tick_time := tm, cur_tick := tk\<rparr>) = (seek_view s)\<lparr>tick_time := tm, cur_tick := tk\<rparr>"
  "seek_view (s\<lparr>tracks := ts\<rparr>) = (seek_view s)\<lparr>tracks := ts\<rparr>"
  "seek_view (s\<lparr>tempo := p, spt := q\<rparr>) = (seek_view s)\<lparr>tempo := p, spt := q\<rparr>"
  "seek_view (s\<lparr>chan_used := u\<rparr>) = (seek_view s)\<lparr>chan_used := u\<rparr>"
  "seek_view (s\<lparr>chan_cc := c\<rparr>) = (seek_view s)\<lparr>chan_cc := c\<rparr>"
  "seek_view (s\<lparr>chan_program := g\<rparr>) = (seek_view s)\<lparr>chan_program := g\<rparr>"
  "seek_view (s\<lparr>chan_bend := d\<rparr>) = (seek_view s)\<lparr>chan_bend := d\<rparr>"
  "seek_view (s\<lparr>chan_level := l\<rparr>) = seek_view s"
  by (simp_all add: seek_view_def)

lemma seek_view_calls [simp]:
  "seek_view (call_syn (Note_on c k v) s) = seek_view s"
  "seek_view (call_syn (Note_off c k) s) = seek_view s"
  "seek_view (call_syn (Control c k v) s) = call_syn (Control c k v) (seek_view s)"
  "seek_view (call_syn (Program c k) s) = call_syn (Program c k) (seek_view s)"
  "seek_view (call_syn (Bend c k) s) = call_syn (Bend c k) (seek_view s)"
  "seek_view (call_syn Reset s) = call_syn Reset (seek_view s)"
  by (simp_all add: seek_view_def call_syn_def split: option.split)

lemma seek_channel: "seek_view (channel_event st a b 1 s) = channel_event st a b 2 (seek_view s)"
  by (simp add: channel_event_def Let_def)

lemma reseek_channel: "seek_view (channel_event st a b 2 s) = channel_event st a b 2 (seek_view s)"
  by (simp add: channel_event_def Let_def)

lemma seek_view_tempo: "seek_view (set_tempo us s) = set_tempo us (seek_view s)"
proof -
  obtain x y where xy: "\<And>s. set_tempo us s = s\<lparr>tempo := x, spt := y (division s)\<rparr>"
    using set_tempo_fields [of us] by blast
  show ?thesis unfolding xy by simp
qed

lemmas seek_view_facts = seek_view_tempo seek_view_updates seek_view_same

interpretation seek: event_map seek_view 1 2
  by unfold_locales (rule seek_view_facts seek_channel)+

interpretation reseek: event_map seek_view 2 2
  by unfold_locales (rule seek_view_facts reseek_channel)+

end
