(* ===== verification/SmfTime.thy ===== *)
theory SmfTime
  imports SmfPlay
begin

text \<open>Playing on time, and seeking: the properties of \<open>smf_render\<close> and \<open>smf_seek\<close>.\<close>

section \<open>What playing calls\<close>

fun is_render :: "nat \<times> synth_call \<Rightarrow> bool" where
  "is_render (e, Render p k) = True"
| "is_render (e, c) = False"

text \<open>Arguments as the MIDI standard has them: channels of four bits, data of seven, bends of fourteen.\<close>

fun midi_call :: "synth_call \<Rightarrow> bool" where
  "midi_call (Note_on ch k v) = (ch < 16 \<and> k < 128 \<and> v < 128)"
| "midi_call (Note_off ch k) = (ch < 16 \<and> k < 128)"
| "midi_call (Control ch cc v) = (ch < 16 \<and> cc < 128 \<and> v < 128)"
| "midi_call (Program ch p) = (ch < 16 \<and> p < 128)"
| "midi_call (Bend ch v) = (ch < 16 \<and> v < 16384)"
| "midi_call c = True"

text \<open>The calls that \<open>s'\<close> has made since \<open>s\<close>: to the engine of \<open>s\<close>, in range, none of them for samples.\<close>

definition plain :: "nat option \<Rightarrow> nat \<times> synth_call \<Rightarrow> bool" where
  "plain e c = (e = Some (fst c) \<and> \<not> is_render c \<and> midi_call (snd c))"

definition calls_on :: "smf \<Rightarrow> smf \<Rightarrow> bool" where
  "calls_on s s' = (syn s' = syn s \<and> (\<exists>cs. calls s' = calls s @ cs \<and> (\<forall>c\<in>set cs. plain (syn s) c)))"

lemma calls_on_refl: "calls s' = calls s \<Longrightarrow> syn s' = syn s \<Longrightarrow> calls_on s s'"
  by (simp add: calls_on_def)

lemma calls_on_trans: "calls_on s s1 \<Longrightarrow> calls_on s1 s2 \<Longrightarrow> calls_on s s2"
  by (auto simp: calls_on_def)

lemma call_syn_on: "midi_call c \<Longrightarrow> (\<And>i. \<not> is_render (i, c)) \<Longrightarrow> calls_on s (call_syn c s)"
  by (auto simp: calls_on_def call_syn_def plain_def split: option.split)

lemma channel_event_on:
  assumes "a < 128" "b < 128"
  shows "calls_on s (channel_event st a b send s)"
proof -
  have "st AND 15 < 16" by (simp add: and_below)
  moreover have "a OR push_bit 7 b < 16384" using or_below_power [of a 14 "push_bit 7 b"] assms by (simp add: push_bit_nat_mult)
  ultimately show ?thesis using assms
    by (simp add: channel_event_def call_syn_def calls_on_def plain_def Let_def split: option.split)
qed

lemma meta_event_on: "meta_event f ty len p s = Some s' \<Longrightarrow> calls_on s s'"
proof -
  assume m: "meta_event f ty len p s = Some s'"
  have "calls s' = calls s \<and> syn s' = syn s"
  proof (cases "ty = 0x51 \<and> len = 3")
    case True
    with m show ?thesis by (auto simp: meta_event_def bind_eq_Some_conv set_tempo_def Let_def)
  next
    case False
    from m have r: "(if ty = 0x2f then Some s
        else if (ty = 3 \<or> ty = 1) \<and> title s = [] \<and> len > 0 then do {
          cs \<leftarrow> rdn f p (min len 63);
          Some (s\<lparr>title := clean_title cs\<rparr>)
        } else Some s) = Some s'" unfolding meta_event_def if_not_P [OF False] .
    show ?thesis
    proof (cases "ty \<noteq> 0x2f \<and> (ty = 3 \<or> ty = 1) \<and> title s = [] \<and> len > 0")
      case True
      then show ?thesis using r by (auto simp: bind_eq_Some_conv)
    qed (use r in \<open>simp split: if_splits\<close>)
  qed
  then show ?thesis by (simp add: calls_on_refl)
qed

lemma event_body_on: "event_body f send st t s = Some (t', s') \<Longrightarrow> calls_on s s'"
  unfolding event_body_def
  by (auto simp: bind_eq_Some_conv Let_def channel_event_on and_below calls_on_refl dest!: meta_event_on split: if_splits)

lemma track_event_on: "track_event f send t s = Some (t', s') \<Longrightarrow> calls_on s s'"
  unfolding track_event_def
  by (auto simp: bind_eq_Some_conv calls_on_refl dest!: event_body_on split: if_splits)

lemma track_loop_on:
  "track_ok f t \<Longrightarrow> track_loop f send t s = Some (t', s') \<Longrightarrow> calls_on s s'"
proof (induction "track_left t" arbitrary: t s rule: less_induct)
  case less
  show ?case
  proof (cases "\<not> tdone t \<and> next_tick t = cur_tick s")
    case True
    obtain t1 s1 where 1: "track_event f send t s = Some (t1, s1)" "track_ok f t1" "track_left t1 < track_left t"
      using track_event_ok less.prems(1) True by blast
    have "track_loop f send t1 s1 = Some (t', s')"
      using less.prems(2) True 1(1) by (subst (asm) track_loop.simps) simp
    then show ?thesis using less.hyps [OF 1(3) 1(2)] track_event_on [OF 1(1)] calls_on_trans by blast
  next
    case False
    then show ?thesis using less.prems(2) by (subst (asm) track_loop.simps) (auto simp: calls_on_refl split: if_splits)
  qed
qed

lemma run_tracks_on:
  "(\<And>t. t \<in> set ts \<Longrightarrow> track_ok f t) \<Longrightarrow> run_tracks f send ts s = Some (ts', s') \<Longrightarrow> calls_on s s'"
proof (induction ts arbitrary: s ts')
  case Nil
  then show ?case by (simp add: calls_on_refl)
next
  case (Cons t ts)
  from Cons.prems(2) obtain t1 s1 ts1 where
    1: "track_loop f send t s = Some (t1, s1)" "run_tracks f send ts s1 = Some (ts1, s')"
    by (auto simp: bind_eq_Some_conv)
  show ?case
    using calls_on_trans [OF track_loop_on [OF _ 1(1)] Cons.IH [OF _ 1(2)]] Cons.prems(1) by simp
qed

lemma smf_step_on:
  assumes "song_ok s" "smf_step send s = Some (r, s')"
  shows "calls_on s s'"
proof (cases "earliest (tracks s) = 0xffffffff")
  case True
  then show ?thesis using assms by (simp add: smf_step_def calls_on_refl)
next
  case False
  let ?s0 = "s\<lparr>tick_time := event_time s, cur_tick := earliest (tracks s)\<rparr>"
  obtain ts s1 where r: "run_tracks (smf_file s) send (tracks s) ?s0 = Some (ts, s1)" "s' = s1\<lparr>tracks := ts\<rparr>"
    using assms(2) False by (auto simp: smf_step_def Let_def bind_eq_Some_conv)
  have "calls_on ?s0 s1"
    by (rule run_tracks_on [OF _ r(1)]) (use assms(1) in \<open>simp add: song_ok_def\<close>)
  then show ?thesis unfolding r(2) by (simp add: calls_on_def)
qed

text \<open>The calls for samples fill the buffers from \<open>a\<close> to \<open>b\<close> without gap or overlap.\<close>

fun tiles :: "int \<Rightarrow> int \<Rightarrow> (nat \<times> synth_call) list \<Rightarrow> bool" where
  "tiles a b [] = (a = b)"
| "tiles a b ((e, Render p k) # cs) = (p = a \<and> 0 < k \<and> tiles (a + k) b cs)"
| "tiles a b (c # cs) = tiles a b cs"

lemma tiles_no_render: "(\<forall>c\<in>set cs. \<not> is_render c) \<Longrightarrow> tiles a b (cs @ ds) = tiles a b ds"
proof (induction cs)
  case (Cons c cs)
  then show ?case by (cases c rule: is_render.cases) auto
qed simp

section \<open>Playing\<close>

text \<open>The song, seen by the length scan, has every event within \<open>2 ^ 31\<close> samples (12 hours).\<close>

primrec scan_steps :: "nat \<Rightarrow> smf \<Rightarrow> smf option" where
  "scan_steps 0 s = Some s"
| "scan_steps (Suc k) s = Option.bind (smf_step 0 s) (\<lambda>r. scan_steps k (snd r))"

definition pending_time :: "smf \<Rightarrow> nat" where
  "pending_time s = tick_time s + (earliest (tracks s) + two32 - cur_tick s) mod two32 * spt s"

definition short_song :: "smf \<Rightarrow> bool" where
  "short_song s = (\<forall>k s'. scan_steps k (scan_view s) = Some s' \<and> earliest (tracks s') \<noteq> 0xffffffff
     \<longrightarrow> pending_time s' + two32 \<le> 9223372036854775808)"

lemma short_song_pending:
  assumes "short_song s" "earliest (tracks s) \<noteq> 0xffffffff"
  shows "event_time s = pending_time s \<and> pending_time s + two32 \<le> 9223372036854775808"
proof -
  have "pending_time (scan_view s) + two32 \<le> 9223372036854775808"
    using assms unfolding short_song_def by (metis scan.U_same(5) scan_steps.simps(1))
  moreover have "pending_time (scan_view s) = pending_time s"
    unfolding pending_time_def scan.U_same ..
  ultimately show ?thesis unfolding event_time_def pending_time_def [symmetric] by simp
qed

lemma short_song_step:
  assumes "short_song s" "song_ok s" "smf_step 1 s = Some (r, s')"
  shows "short_song s'"
proof -
  have "smf_step 0 (scan_view s) = Some (r, scan_view s')"
    using scan.smf_step_map [OF assms(2)] assms(3) by simp
  then have "scan_steps (Suc k) (scan_view s) = scan_steps k (scan_view s')" for k by simp
  then show ?thesis using assms(1) unfolding short_song_def by metis
qed

lemma scan_steps_over: "earliest (tracks s) = 0xffffffff \<Longrightarrow> scan_steps k s = Some s"
  by (induction k) (simp_all add: smf_step_def)

lemma short_song_over: "earliest (tracks s) = 0xffffffff \<Longrightarrow> short_song s"
  unfolding short_song_def using scan_steps_over scan.U_same(5) by (metis option.inject)

lemma short_song_samples: "short_song (play_samples pos k s) = short_song s"
  by (simp add: short_song_def play_samples_def call_syn_def scan_view_def split: option.split)

definition on_time :: "smf \<Rightarrow> bool" where
  "on_time s = (tick_time s \<le> now s \<and> (earliest (tracks s) \<noteq> 0xffffffff \<longrightarrow> now s < event_time s + two32))"

lemma ceil_samples:
  assumes "0 < (d :: nat)"
  shows "d \<le> (d + 0xffffffff) div two32 * two32" "(d + 0xffffffff) div two32 * two32 < d + two32"
    "0 < (d + 0xffffffff) div two32"
proof -
  have e: "(d + 0xffffffff) div two32 * two32 + (d + 0xffffffff) mod two32 = d + 0xffffffff" by simp
  have "(d + 0xffffffff) mod two32 < two32" by simp
  with e show 1: "d \<le> (d + 0xffffffff) div two32 * two32" by linarith
  from e show "(d + 0xffffffff) div two32 * two32 < d + two32" by linarith
  show "0 < (d + 0xffffffff) div two32"
  proof (rule ccontr)
    assume "\<not> 0 < (d + 0xffffffff) div two32"
    then have "(d + 0xffffffff) div two32 = 0" by (simp only: not_gr_zero)
    then show False using 1 assms by simp
  qed
qed

lemma segment_due:
  assumes late: "now s < event_time s" and small: "event_time s + two32 \<le> 9223372036854775808" and n: "0 < n"
  shows "0 < segment s n" "segment s n \<le> n"
    and "int (now s) + segment s n * int two32 < int (event_time s) + int two32"
proof -
  let ?d = "event_time s - now s"
  let ?q = "(?d + 0xffffffff) div two32"
  have d: "0 < ?d" using late by simp
  note c = ceil_samples [OF d]
  have eq: "(event_time s - now s + 0xffffffff) mod two64 = ?d + 0xffffffff"
    using small by (intro mod_less) linarith
  have "?q * two32 < 2147483648 * two32" using c(2) small by linarith
  then have q: "?q < 2147483648" by simp
  have sg: "segment s n = min (int ?q) n" unfolding segment_def eq s32_small [OF q] ..
  show "0 < segment s n" unfolding sg using c(3) n by simp
  show "segment s n \<le> n" unfolding sg by simp
  have "segment s n * int two32 \<le> int ?q * int two32" unfolding sg by (intro mult_right_mono) simp_all
  also have "\<dots> = int (?q * two32)" by simp
  also have "\<dots> < int (?d + two32)" using c(2) by (simp only: of_nat_less_iff)
  finally show "int (now s) + segment s n * int two32 < int (event_time s) + int two32"
    using late by simp
qed

lemma play_samples_effect:
  assumes "syn s = Some e" "0 \<le> k" "int (now s) + k * int two32 < int two64"
  shows "calls (play_samples pos k s) = calls s @ [(e, Render pos k)]"
    and "int (now (play_samples pos k s)) = int (now s) + k * int two32"
    and "tracks (play_samples pos k s) = tracks s" "event_time (play_samples pos k s) = event_time s"
    and "tick_time (play_samples pos k s) = tick_time s" "syn (play_samples pos k s) = Some e"
    and "song_ok (play_samples pos k s) = song_ok s"
  using assms by (simp_all add: play_samples_def call_syn_def event_time_def song_ok_def mod_pos_pos_trivial)

lemma smf_render_exact:
  "song_ok s \<Longrightarrow> syn s = Some e \<Longrightarrow> short_song s \<Longrightarrow> on_time s \<Longrightarrow> 0 \<le> n
    \<Longrightarrow> int (now s) + n * int two32 < 9223372036854775808
    \<Longrightarrow> \<exists>s' cs. smf_render pos n s = Some s' \<and> int (now s') = int (now s) + n * int two32 \<and> on_time s'
      \<and> calls s' = calls s @ cs \<and> tiles pos (pos + n) cs \<and> (\<forall>c\<in>set cs. fst c = e \<and> midi_call (snd c)) \<and> song_ok s' \<and> syn s' = Some e \<and> short_song s'"
proof (induction "left_sum (tracks s) + nat n" arbitrary: s pos n rule: less_induct)
  case less
  note ok = less.prems(1) and eng = less.prems(2) and short = less.prems(3) and time = less.prems(4)
    and room = less.prems(6)
  show ?case
  proof (cases "0 < n")
    case False
    then have "n = 0" using less.prems(5) by simp
    then show ?thesis using time ok eng short by (subst smf_render.simps) simp
  next
    case n: True
    show ?thesis
    proof (cases "earliest (tracks s) = 0xffffffff")
      case True
      let ?s = "s\<lparr>finished := True\<rparr>"
      let ?p = "play_samples pos n ?s"
      have "smf_render pos n s = Some ?p"
        using True n by (subst smf_render.simps) (simp, subst smf_render.simps, simp)
      moreover have "calls ?p = calls s @ [(e, Render pos n)]" "int (now ?p) = int (now s) + n * int two32"
        "tracks ?p = tracks s" "tick_time ?p = tick_time s"
        using play_samples_effect [of ?s e n pos] eng room n by simp_all
      moreover have "on_time ?p"
        using True time calculation n unfolding on_time_def by simp
      moreover have "song_ok ?p" "syn ?p = Some e" "short_song ?p"
        using play_samples_effect [of ?s e n pos] eng room n ok short_song_over [of ?p] True
        by (simp_all add: song_ok_def)
      ultimately show ?thesis using n by auto
    next
      case pend: False
      have et: "event_time s + two32 \<le> 9223372036854775808"
        using short_song_pending [OF short pend] by simp
      have tick: "tick_time s \<le> event_time s"
        using short_song_pending [OF short pend] by (simp add: pending_time_def)
      show ?thesis
      proof (cases "event_time s \<le> now s")
        case True
        obtain s1 where s1: "smf_step 1 s = Some (True, s1)" "song_ok s1" "left_sum (tracks s1) < left_sum (tracks s)"
          "tick_time s1 = event_time s" "syn s1 = syn s" "now s1 = now s"
          using smf_step_ok [OF ok, of 1] pend by auto
        have short1: "short_song s1" by (rule short_song_step [OF short ok s1(1)])
        have "on_time s1"
          unfolding on_time_def
        proof (intro conjI impI)
          show "tick_time s1 \<le> now s1" using s1 True by simp
          assume "earliest (tracks s1) \<noteq> 0xffffffff"
          then have "tick_time s1 \<le> event_time s1"
            using short_song_pending [OF short1] by (simp add: pending_time_def)
          then show "now s1 < event_time s1 + two32" using s1 time pend by (simp add: on_time_def)
        qed
        then obtain s' cs where r: "smf_render pos n s1 = Some s'" "int (now s') = int (now s) + n * int two32"
          "on_time s'" "calls s' = calls s1 @ cs" "tiles pos (pos + n) cs"
          "\<forall>c\<in>set cs. fst c = e \<and> midi_call (snd c)" "song_ok s'" "syn s' = Some e" "short_song s'"
          using less.hyps [of s1 n pos] s1 short1 eng room n by auto
        obtain ds where ds: "calls s1 = calls s @ ds" "\<forall>c\<in>set ds. \<not> is_render c" "\<forall>c\<in>set ds. fst c = e \<and> midi_call (snd c)"
          using smf_step_on [OF ok s1(1)] eng unfolding calls_on_def plain_def by auto
        have "smf_render pos n s = smf_render pos n s1"
          using n pend True s1(1) by (subst smf_render.simps) simp
        then show ?thesis using r ds tiles_no_render [OF ds(2), of pos "pos + n" cs] by auto
      next
        case False
        then have late: "now s < event_time s" by simp
        let ?k = "segment s n"
        let ?p = "play_samples pos ?k s"
        note sg = segment_due [OF late et n]
        have "?k * int two32 \<le> n * int two32" using sg(2) by (intro mult_right_mono) simp_all
        then have fits: "int (now s) + ?k * int two32 < int two64" using room by simp
        note pe = play_samples_effect [OF eng order_less_imp_le [OF sg(1)] fits]
        have "on_time ?p"
          unfolding on_time_def
        proof (intro conjI impI)
          have "int (now s) \<le> int (now ?p)" unfolding pe(2) using sg(1) by simp
          then show "tick_time ?p \<le> now ?p" using time unfolding on_time_def pe(5) by linarith
          have "int (now ?p) < int (event_time ?p) + int two32" unfolding pe(2,4) by (rule sg(3))
          then show "now ?p < event_time ?p + two32" by linarith
        qed
        moreover have "left_sum (tracks ?p) + nat (n - ?k) < left_sum (tracks s) + nat n"
          unfolding pe(3) using sg(1,2) n by simp
        moreover have "int (now ?p) + (n - ?k) * int two32 = int (now s) + n * int two32"
          unfolding pe(2) by (simp add: algebra_simps)
        ultimately obtain s' cs where r: "smf_render (pos + ?k) (n - ?k) ?p = Some s'"
          "int (now s') = int (now s) + n * int two32" "on_time s'" "calls s' = calls ?p @ cs"
          "tiles (pos + ?k) (pos + ?k + (n - ?k)) cs" "\<forall>c\<in>set cs. fst c = e \<and> midi_call (snd c)" "song_ok s'" "syn s' = Some e" "short_song s'"
          using less.hyps [of ?p "n - ?k" "pos + ?k"] pe ok short sg(2) room
          by (auto simp: short_song_samples)
        have "smf_render pos n s = smf_render (pos + ?k) (n - ?k) ?p"
          using n pend False by (subst smf_render.simps) simp
        then show ?thesis using r sg(1) unfolding pe(1) by auto
      qed
    qed
  qed
qed


text \<open>A song of one note, a sample after the beginning.\<close>

definition one_note :: smf where
  "one_note = smf_start\<lparr>smf_file := [0x90, 60, 100], division := 1, syn := Some 1, spt := two32,
     tracks := [\<lparr>tp = 0, tend = 3, next_tick = 1, tstatus = 0, tdone = False\<rparr>]\<rparr>"

lemma one_note_earliest: "earliest (tracks one_note) = 1"
  by (simp add: one_note_def earliest_def)

lemma one_note_event:
  "cur_tick u = 1 \<Longrightarrow> \<exists>t' u'. track_loop [0x90, 60, 100] 0
     \<lparr>tp = 0, tend = 3, next_tick = 1, tstatus = 0, tdone = False\<rparr> u = Some (t', u') \<and> tdone t'"
  by (subst track_loop.simps)
    (simp add: track_event_def event_body_def take_byte_def rd_def read_delta_def Let_def,
      subst track_loop.simps, simp)

lemma one_note_short: "short_song one_note"
  unfolding short_song_def
proof (intro allI impI)
  fix k s'
  assume s': "scan_steps k (scan_view one_note) = Some s' \<and> earliest (tracks s') \<noteq> 0xffffffff"
  let ?s = "scan_view one_note"
  let ?u = "?s\<lparr>tick_time := event_time ?s, cur_tick := 1\<rparr>"
  obtain t1 u1 where 1: "track_loop [0x90, 60, 100] 0
     \<lparr>tp = 0, tend = 3, next_tick = 1, tstatus = 0, tdone = False\<rparr> ?u = Some (t1, u1)" "tdone t1"
    using one_note_event [of ?u] by auto
  have e: "earliest (tracks ?s) = 1" using one_note_earliest by simp
  have t: "tracks one_note = [\<lparr>tp = 0, tend = 3, next_tick = 1, tstatus = 0, tdone = False\<rparr>]"
    "smf_file one_note = [0x90, 60, 100]" by (simp_all add: one_note_def)
  have "smf_step 0 ?s = Some (True, u1\<lparr>tracks := [t1]\<rparr>)"
    unfolding smf_step_def Let_def e using 1 by (simp add: t)
  moreover have "earliest (tracks (u1\<lparr>tracks := [t1]\<rparr>)) = 0xffffffff" using 1(2) by (simp add: earliest_def)
  ultimately have "scan_steps (Suc j) ?s = Some (u1\<lparr>tracks := [t1]\<rparr>)" for j
    using scan_steps_over [of "u1\<lparr>tracks := [t1]\<rparr>" j] by simp
  then have "k = 0"
    using s' \<open>earliest (tracks (u1\<lparr>tracks := [t1]\<rparr>)) = 0xffffffff\<close> by (cases k) auto
  then have "s' = ?s" using s' by simp
  then show "pending_time s' + two32 \<le> 9223372036854775808"
    using e by (simp add: pending_time_def one_note_def smf_start_def)
qed


section \<open>Seeking\<close>

primrec play_steps :: "nat \<Rightarrow> smf \<Rightarrow> smf option" where
  "play_steps 0 s = Some s"
| "play_steps (Suc k) s = Option.bind (smf_step 1 s) (\<lambda>r. play_steps k (snd r))"

text \<open>The state of the channels and of the clock, and the calls but for notes.\<close>

definition chased :: "smf \<Rightarrow> smf" where
  "chased s = seek_view (s\<lparr>finished := False, now := 0\<rparr>)"

lemma chased_same:
  assumes "seek_view a = seek_view b"
  shows "tracks a = tracks b" "event_time a = event_time b" "smf_file a = smf_file b" "chased a = chased b"
proof -
  show 1: "tracks a = tracks b" "smf_file a = smf_file b" using assms by (metis seek_view_same)+
  have "tick_time a = tick_time b" "spt a = spt b" "cur_tick a = cur_tick b" using assms by (metis seek_view_same)+
  then show "event_time a = event_time b" by (simp add: event_time_def 1)
  have "chased s = (seek_view s)\<lparr>finished := False, now := 0\<rparr>" for s
    by (simp add: chased_def seek_view_def)
  then show "chased a = chased b" using assms by simp
qed

lemma seek_loop_chases:
  "song_ok a \<Longrightarrow> song_ok b \<Longrightarrow> seek_view a = seek_view b \<Longrightarrow>
    \<exists>a' k p. seek_loop target a = Some a' \<and> play_steps k b = Some p \<and> chased a' = chased p
      \<and> (earliest (tracks p) = 0xffffffff \<or> target < event_time p)
      \<and> (\<forall>j<k. \<exists>q. play_steps j b = Some q \<and> earliest (tracks q) \<noteq> 0xffffffff \<and> event_time q \<le> target)"
proof (induction "left_sum (tracks a)" arbitrary: a b rule: less_induct)
  case less
  note same = chased_same [OF less.prems(3)]
  show ?case
  proof (cases "earliest (tracks a) = 0xffffffff \<or> target < event_time a")
    case True
    have "\<exists>a'. seek_loop target a = Some a' \<and> chased a' = chased a"
      using True by (subst seek_loop.simps) (auto simp: chased_def)
    then obtain a' where "seek_loop target a = Some a'" "chased a' = chased a" by blast
    then have "seek_loop target a = Some a' \<and> play_steps 0 b = Some b \<and> chased a' = chased b
      \<and> (earliest (tracks b) = 0xffffffff \<or> target < event_time b)"
      using True same by simp
    then show ?thesis by blast
  next
    case False
    obtain a1 where a1: "smf_step 2 a = Some (True, a1)" "song_ok a1" "left_sum (tracks a1) < left_sum (tracks a)"
      using smf_step_ok [OF less.prems(1), of 2] False by auto
    obtain b1 where b1: "smf_step 1 b = Some (True, b1)" "song_ok b1"
      using smf_step_ok [OF less.prems(2), of 1] False same by auto
    have "Some (True, seek_view a1) = Some (True, seek_view b1)"
      using reseek.smf_step_map [OF less.prems(1)] seek.smf_step_map [OF less.prems(2)] a1(1) b1(1) less.prems(3)
      by simp
    then have "seek_view a1 = seek_view b1" by simp
    from less.hyps [OF a1(3) a1(2) b1(2) this] obtain a' k p where r:
      "seek_loop target a1 = Some a'" "play_steps k b1 = Some p" "chased a' = chased p"
      "earliest (tracks p) = 0xffffffff \<or> target < event_time p"
      "\<forall>j<k. \<exists>q. play_steps j b1 = Some q \<and> earliest (tracks q) \<noteq> 0xffffffff \<and> event_time q \<le> target"
      by blast
    have "seek_loop target a = Some a'"
      using False a1(1) r(1) by (subst seek_loop.simps) simp
    moreover have "play_steps (Suc k) b = Some p" using b1(1) r(2) by simp
    moreover have "\<exists>q. play_steps j b = Some q \<and> earliest (tracks q) \<noteq> 0xffffffff \<and> event_time q \<le> target"
      if "j < Suc k" for j
      using that r(5) b1(1) False same by (cases j) auto
    ultimately show ?thesis using r(3,4) by blast
  qed
qed

text \<open>
  C38: \<open>smf_seek\<close> returns, and leaves the song where playing from the beginning would be with every
  event up to the wanted time processed and none after it: the same position in every track, the
  same tempo, programs, controllers, bends and title, and the same calls to the engine except for
  the notes, which are left out.
\<close>
theorem smf_seek_chases:
  assumes "sane_chunks (smf_file s) 14"
  shows "\<exists>s0 s' k p. init_tracks s = Some s0 \<and> smf_seek ms s = Some s' \<and> now s' = seek_target ms
    \<and> play_steps k (call_syn Reset s0) = Some p \<and> chased s' = chased p
    \<and> (earliest (tracks p) = 0xffffffff \<or> seek_target ms < event_time p)
    \<and> (\<forall>j<k. \<exists>q. play_steps j (call_syn Reset s0) = Some q \<and> event_time q \<le> seek_target ms)"
proof -
  obtain s0 where s0: "init_tracks s = Some s0" "song_ok s0" using init_tracks_ok [OF assms] by blast
  let ?b = "call_syn Reset s0"
  have "song_ok ?b" using s0(2) by (simp add: call_syn_def song_ok_def split: option.split)
  then obtain a' k p where r: "seek_loop (seek_target ms) ?b = Some a'" "play_steps k ?b = Some p"
    "chased a' = chased p" "earliest (tracks p) = 0xffffffff \<or> seek_target ms < event_time p"
    "\<forall>j<k. \<exists>q. play_steps j ?b = Some q \<and> earliest (tracks q) \<noteq> 0xffffffff \<and> event_time q \<le> seek_target ms"
    using seek_loop_chases [OF _ _ refl, of ?b "seek_target ms"] by blast
  have "smf_seek ms s = Some (a'\<lparr>now := seek_target ms\<rparr>)"
    by (simp add: smf_seek_def s0(1) r(1))
  moreover have "chased (a'\<lparr>now := seek_target ms\<rparr>) = chased a'" by (simp add: chased_def)
  ultimately show ?thesis using s0(1) r by fastforce
qed

theorem smf_seek_chases_witness:
  "\<exists>s0 s' k p. init_tracks (smf_start\<lparr>smf_file := tiny_file\<rparr>) = Some s0
    \<and> smf_seek 5 (smf_start\<lparr>smf_file := tiny_file\<rparr>) = Some s' \<and> now s' = seek_target 5
    \<and> play_steps k (call_syn Reset s0) = Some p \<and> chased s' = chased p"
proof -
  have "sane_chunks (smf_file (smf_start\<lparr>smf_file := tiny_file\<rparr>)) 14" using tiny_file_sane by simp
  from smf_seek_chases [OF this, of 5] show ?thesis by blast
qed

end
