(* ===== verification/TjcDct.thy ===== *)
theory TjcDct
  imports Bytes
begin

text \<open>
  The block transform of the TJC video decoder, \<open>tjcdec.c\<close>: the inverse DCT in 32-bit arithmetic
  that wraps, its version for a block with nothing but the DC coefficient, and that the two agree.
  A block of samples is the list of its eight rows.
\<close>

type_synonym i32 = "32 word"

definition CONST_BITS :: nat where "CONST_BITS = 13"
definition PASS1_BITS :: nat where "PASS1_BITS = 2"
definition SH2 :: nat where "SH2 = CONST_BITS + PASS1_BITS + 3"
definition FIX_0_298631336 :: i32 where "FIX_0_298631336 = 2446"
definition FIX_0_390180644 :: i32 where "FIX_0_390180644 = 3196"
definition FIX_0_541196100 :: i32 where "FIX_0_541196100 = 4433"
definition FIX_0_765366865 :: i32 where "FIX_0_765366865 = 6270"
definition FIX_0_899976223 :: i32 where "FIX_0_899976223 = 7373"
definition FIX_1_175875602 :: i32 where "FIX_1_175875602 = 9633"
definition FIX_1_501321110 :: i32 where "FIX_1_501321110 = 12299"
definition FIX_1_847759065 :: i32 where "FIX_1_847759065 = 15137"
definition FIX_1_961570560 :: i32 where "FIX_1_961570560 = 16069"
definition FIX_2_053119869 :: i32 where "FIX_2_053119869 = 16819"
definition FIX_2_562915447 :: i32 where "FIX_2_562915447 = 20995"
definition FIX_3_072711026 :: i32 where "FIX_3_072711026 = 25172"

definition descale :: "i32 \<Rightarrow> nat \<Rightarrow> i32" where
  "descale x n = signed_drop_bit n (x + push_bit (n - 1) 1)"

definition clamp_u8 :: "i32 \<Rightarrow> byte" where
  "clamp_u8 v = (if sint v < 0 then 0 else if sint v > 255 then 255 else ucast v)"

text \<open>The eight sums of one column or row, before the scaling: even part, odd part, and the
  butterfly between them. The code has it twice, for the columns and for the rows.\<close>

definition idct_even :: "i32 \<Rightarrow> i32 \<Rightarrow> i32 \<Rightarrow> i32 \<Rightarrow> i32 list" where
  "idct_even c0 c2 c4 c6 =
     (let z1 = (c2 + c6) * FIX_0_541196100;
          tmp2 = z1 - c6 * FIX_1_847759065;
          tmp3 = z1 + c2 * FIX_0_765366865;
          tmp0 = (c0 + c4) * push_bit CONST_BITS 1;
          tmp1 = (c0 - c4) * push_bit CONST_BITS 1
      in [tmp0 + tmp3, tmp1 + tmp2, tmp1 - tmp2, tmp0 - tmp3])"

definition idct_odd :: "i32 \<Rightarrow> i32 \<Rightarrow> i32 \<Rightarrow> i32 \<Rightarrow> i32 list" where
  "idct_odd c1 c3 c5 c7 =
     (let z1 = (c7 + c1) * (- FIX_0_899976223);
          z2 = (c5 + c3) * (- FIX_2_562915447);
          z5 = ((c7 + c3) + (c5 + c1)) * FIX_1_175875602;
          z3 = (c7 + c3) * (- FIX_1_961570560) + z5;
          z4 = (c5 + c1) * (- FIX_0_390180644) + z5
      in [c7 * FIX_0_298631336 + (z1 + z3), c5 * FIX_2_053119869 + (z2 + z4),
          c3 * FIX_3_072711026 + (z2 + z3), c1 * FIX_1_501321110 + (z1 + z4)])"

definition idct_1d :: "i32 list \<Rightarrow> i32 list" where
  "idct_1d c =
     (let e = idct_even (c ! 0) (c ! 2) (c ! 4) (c ! 6);
          d = idct_odd (c ! 1) (c ! 3) (c ! 5) (c ! 7)
      in [e ! 0 + d ! 3, e ! 1 + d ! 2, e ! 2 + d ! 1, e ! 3 + d ! 0,
          e ! 3 - d ! 0, e ! 2 - d ! 1, e ! 1 - d ! 2, e ! 0 - d ! 3])"

definition idct_column :: "i32 list \<Rightarrow> nat \<Rightarrow> i32 list" where
  "idct_column c x =
     (let col = map (\<lambda>j. c ! (8 * j + x)) [0..<8]
      in if \<forall>v\<in>set (tl col). v = 0 then replicate 8 (c ! x * push_bit PASS1_BITS 1)
         else map (\<lambda>v. descale v (CONST_BITS - PASS1_BITS)) (idct_1d col))"

definition idct_row :: "i32 list \<Rightarrow> byte list" where
  "idct_row r =
     (if \<forall>v\<in>set (tl r). v = 0
      then replicate 8 (clamp_u8 (descale (hd r * push_bit CONST_BITS 1) SH2 + 128))
      else map (\<lambda>v. clamp_u8 (descale v SH2 + 128)) (idct_1d r))"

definition idct8x8 :: "i32 list \<Rightarrow> byte list list" where
  "idct8x8 c =
     (let ws = map (idct_column c) [0..<8]
      in map (\<lambda>y. idct_row (map (\<lambda>x. ws ! x ! y) [0..<8])) [0..<8])"

definition idct8x8_dc :: "i32 \<Rightarrow> byte list list" where
  "idct8x8_dc dc =
     replicate 8 (replicate 8
       (clamp_u8 (descale (dc * push_bit PASS1_BITS 1 * push_bit CONST_BITS 1) SH2 + 128)))"

lemma length_idct8x8: "length (idct8x8 c) = 8" "r \<in> set (idct8x8 c) \<Longrightarrow> length r = 8"
  by (auto simp: idct8x8_def idct_row_def idct_1d_def Let_def)

lemma length_idct8x8_dc: "length (idct8x8_dc c) = 8" "r \<in> set (idct8x8_dc c) \<Longrightarrow> length r = 8"
  by (auto simp: idct8x8_dc_def)

lemma idct_column_dc:
  assumes "length c = 64" "\<And>i. 0 < i \<Longrightarrow> i < 64 \<Longrightarrow> c ! i = 0" "x < 8"
  shows "idct_column c x = replicate 8 (if x = 0 then c ! 0 * push_bit PASS1_BITS 1 else 0)"
proof -
  have "\<forall>v\<in>set (tl (map (\<lambda>j. c ! (8 * j + x)) [0..<8])). v = 0"
    using assms(2,3) by (auto simp: upt_rec map_tl [symmetric])
  then show ?thesis using assms(2) [of x] assms(3) by (simp add: idct_column_def Let_def)
qed

text \<open>
  The shortcut for a block with no AC coefficient gives the bytes that the full transform gives
  for it, for every DC value.
\<close>
theorem idct8x8_dc_same:
  assumes "length c = 64" "\<And>i. 0 < i \<Longrightarrow> i < 64 \<Longrightarrow> c ! i = 0"
  shows "idct8x8 c = idct8x8_dc (c ! 0)"
proof -
  let ?w = "c ! 0 * push_bit PASS1_BITS 1"
  have row: "map (\<lambda>x. map (idct_column c) [0..<8] ! x ! y) [0..<8] = ?w # replicate 7 0" if "y < 8" for y
    using that by (intro nth_equalityI) (auto simp: idct_column_dc [OF assms] nth_Cons')
  have "idct_row (?w # replicate 7 0)
      = replicate 8 (clamp_u8 (descale (?w * push_bit CONST_BITS 1) SH2 + 128))"
    by (simp add: idct_row_def)
  then have "idct8x8 c = map (\<lambda>y. replicate 8 (clamp_u8 (descale (?w * push_bit CONST_BITS 1) SH2 + 128))) [0..<8]"
    unfolding idct8x8_def Let_def by (intro map_cong refl) (simp only: row set_upt atLeastLessThan_iff)
  then show ?thesis by (simp add: idct8x8_dc_def map_replicate_const)
qed

theorem idct8x8_dc_same_witness:
  "idct8x8 (5 # replicate 63 0) = idct8x8_dc 5"
proof -
  have "idct8x8 (5 # replicate 63 0) = idct8x8_dc ((5 # replicate 63 0) ! 0)"
    by (rule idct8x8_dc_same) (auto simp: nth_Cons')
  then show ?thesis by simp
qed

end
