(* ===== verification/TjcHuff.thy ===== *)
theory TjcHuff
  imports Bytes
begin

text \<open>
  Entropy decoding of the TJC video decoder, \<open>tjcdec.c\<close>: the tables of the canonical Huffman codes
  with their 9-bit lookahead, the bit reader, and the decoding of one symbol. The bit buffer is a
  32-bit word, the count of the bits in it never negative.
\<close>

section \<open>Code tables\<close>

record huff_dec =
  lut :: "nat list"
  maxcode :: "int list"
  valoff :: "int list"
  hvals :: "nat list"

definition huff_zero :: huff_dec where
  "huff_zero = \<lparr>lut = replicate 512 0, maxcode = replicate 17 0, valoff = replicate 17 0, hvals = replicate 256 0\<rparr>"

text \<open>The inner loops of \<open>build_huff\<close>: one symbol of length \<open>n\<close>, then all of that length.\<close>

definition lut_fill :: "nat \<Rightarrow> nat \<Rightarrow> nat \<Rightarrow> nat list \<Rightarrow> nat list" where
  "lut_fill n code sy l =
     fold (\<lambda>j l. l[push_bit (9 - n) code + j := (push_bit 8 n OR sy) mod 65536])
       [0..<push_bit (9 - n) 1] l"

definition huff_symbol :: "nat list \<Rightarrow> nat \<Rightarrow> nat \<times> nat \<times> huff_dec \<Rightarrow> nat \<times> nat \<times> huff_dec" where
  "huff_symbol vals n st =
     (case st of (code, k, d) \<Rightarrow>
        (code + 1, k + 1,
         d\<lparr>hvals := (hvals d)[k := vals ! k],
           lut := (if n \<le> 9 then lut_fill n code (vals ! k) (lut d) else lut d)\<rparr>))"

definition huff_length :: "nat list \<Rightarrow> nat list \<Rightarrow> nat \<Rightarrow> nat \<times> nat \<times> huff_dec \<Rightarrow> nat \<times> nat \<times> huff_dec" where
  "huff_length bits vals n st =
     (case st of (code, k, d) \<Rightarrow>
        let c = bits ! (n - 1);
            d0 = d\<lparr>maxcode := (maxcode d)[n := -1]\<rparr>
        in if c \<noteq> 0
           then (case (huff_symbol vals n ^^ c) (code, k, d0\<lparr>valoff := (valoff d0)[n := int k - int code]\<rparr>) of
                   (code', k', d') \<Rightarrow> (2 * code', k', d'\<lparr>maxcode := (maxcode d')[n := int code' - 1]\<rparr>))
           else (2 * code, k, d0))"

definition build_huff :: "nat list \<Rightarrow> nat list \<Rightarrow> huff_dec" where
  "build_huff bits vals = snd (snd (fold (huff_length bits vals) [1..<17] (0, 0, huff_zero)))"

text \<open>ITU T.81 Annex K.3.\<close>

definition dc_luma_bits :: "nat list" where
  "dc_luma_bits = [0, 1, 5, 1, 1, 1, 1, 1, 1, 0, 0, 0, 0, 0, 0, 0]"
definition dc_chroma_bits :: "nat list" where
  "dc_chroma_bits = [0, 3, 1, 1, 1, 1, 1, 1, 1, 1, 1, 0, 0, 0, 0, 0]"
definition dc_vals :: "nat list" where
  "dc_vals = [0, 1, 2, 3, 4, 5, 6, 7, 8, 9, 10, 11]"
definition ac_luma_bits :: "nat list" where
  "ac_luma_bits = [0, 2, 1, 3, 3, 2, 4, 3, 5, 5, 4, 4, 0, 0, 1, 0x7d]"
definition ac_luma_vals :: "nat list" where
  "ac_luma_vals = [
     0x01, 0x02, 0x03, 0x00, 0x04, 0x11, 0x05, 0x12, 0x21, 0x31, 0x41, 0x06, 0x13, 0x51, 0x61, 0x07,
     0x22, 0x71, 0x14, 0x32, 0x81, 0x91, 0xa1, 0x08, 0x23, 0x42, 0xb1, 0xc1, 0x15, 0x52, 0xd1, 0xf0,
     0x24, 0x33, 0x62, 0x72, 0x82, 0x09, 0x0a, 0x16, 0x17, 0x18, 0x19, 0x1a, 0x25, 0x26, 0x27, 0x28,
     0x29, 0x2a, 0x34, 0x35, 0x36, 0x37, 0x38, 0x39, 0x3a, 0x43, 0x44, 0x45, 0x46, 0x47, 0x48, 0x49,
     0x4a, 0x53, 0x54, 0x55, 0x56, 0x57, 0x58, 0x59, 0x5a, 0x63, 0x64, 0x65, 0x66, 0x67, 0x68, 0x69,
     0x6a, 0x73, 0x74, 0x75, 0x76, 0x77, 0x78, 0x79, 0x7a, 0x83, 0x84, 0x85, 0x86, 0x87, 0x88, 0x89,
     0x8a, 0x92, 0x93, 0x94, 0x95, 0x96, 0x97, 0x98, 0x99, 0x9a, 0xa2, 0xa3, 0xa4, 0xa5, 0xa6, 0xa7,
     0xa8, 0xa9, 0xaa, 0xb2, 0xb3, 0xb4, 0xb5, 0xb6, 0xb7, 0xb8, 0xb9, 0xba, 0xc2, 0xc3, 0xc4, 0xc5,
     0xc6, 0xc7, 0xc8, 0xc9, 0xca, 0xd2, 0xd3, 0xd4, 0xd5, 0xd6, 0xd7, 0xd8, 0xd9, 0xda, 0xe1, 0xe2,
     0xe3, 0xe4, 0xe5, 0xe6, 0xe7, 0xe8, 0xe9, 0xea, 0xf1, 0xf2, 0xf3, 0xf4, 0xf5, 0xf6, 0xf7, 0xf8,
     0xf9, 0xfa]"
definition ac_chroma_bits :: "nat list" where
  "ac_chroma_bits = [0, 2, 1, 2, 4, 4, 3, 4, 7, 5, 4, 4, 0, 1, 2, 0x77]"
definition ac_chroma_vals :: "nat list" where
  "ac_chroma_vals = [
     0x00, 0x01, 0x02, 0x03, 0x11, 0x04, 0x05, 0x21, 0x31, 0x06, 0x12, 0x41, 0x51, 0x07, 0x61, 0x71,
     0x13, 0x22, 0x32, 0x81, 0x08, 0x14, 0x42, 0x91, 0xa1, 0xb1, 0xc1, 0x09, 0x23, 0x33, 0x52, 0xf0,
     0x15, 0x62, 0x72, 0xd1, 0x0a, 0x16, 0x24, 0x34, 0xe1, 0x25, 0xf1, 0x17, 0x18, 0x19, 0x1a, 0x26,
     0x27, 0x28, 0x29, 0x2a, 0x35, 0x36, 0x37, 0x38, 0x39, 0x3a, 0x43, 0x44, 0x45, 0x46, 0x47, 0x48,
     0x49, 0x4a, 0x53, 0x54, 0x55, 0x56, 0x57, 0x58, 0x59, 0x5a, 0x63, 0x64, 0x65, 0x66, 0x67, 0x68,
     0x69, 0x6a, 0x73, 0x74, 0x75, 0x76, 0x77, 0x78, 0x79, 0x7a, 0x82, 0x83, 0x84, 0x85, 0x86, 0x87,
     0x88, 0x89, 0x8a, 0x92, 0x93, 0x94, 0x95, 0x96, 0x97, 0x98, 0x99, 0x9a, 0xa2, 0xa3, 0xa4, 0xa5,
     0xa6, 0xa7, 0xa8, 0xa9, 0xaa, 0xb2, 0xb3, 0xb4, 0xb5, 0xb6, 0xb7, 0xb8, 0xb9, 0xba, 0xc2, 0xc3,
     0xc4, 0xc5, 0xc6, 0xc7, 0xc8, 0xc9, 0xca, 0xd2, 0xd3, 0xd4, 0xd5, 0xd6, 0xd7, 0xd8, 0xd9, 0xda,
     0xe2, 0xe3, 0xe4, 0xe5, 0xe6, 0xe7, 0xe8, 0xe9, 0xea, 0xf2, 0xf3, 0xf4, 0xf5, 0xf6, 0xf7, 0xf8,
     0xf9, 0xfa]"

section \<open>The bit reader\<close>

record bitreader =
  br_data :: "byte list"
  br_pos :: nat
  br_buf :: u32
  br_cnt :: nat

definition br_start :: "byte list \<Rightarrow> bitreader" where
  "br_start d = \<lparr>br_data = d, br_pos = 0, br_buf = 0, br_cnt = 0\<rparr>"

function br_refill :: "bitreader \<Rightarrow> bitreader" where
  "br_refill br =
     (if br_cnt br \<le> 24
      then br_refill (br\<lparr>br_pos := br_pos br + 1,
             br_buf := br_buf br OR push_bit (24 - br_cnt br)
               (if br_pos br < length (br_data br) then ucast (br_data br ! br_pos br) else 0),
             br_cnt := br_cnt br + 8\<rparr>)
      else br)"
  by pat_completeness auto
termination
  by (relation "measure (\<lambda>br. 32 - br_cnt br)") auto

declare br_refill.simps [simp del]

definition br_skip :: "nat \<Rightarrow> bitreader \<Rightarrow> bitreader" where
  "br_skip n br = br\<lparr>br_buf := push_bit n (br_buf br), br_cnt := br_cnt br - n\<rparr>"

definition br_get :: "nat \<Rightarrow> bitreader \<Rightarrow> nat \<times> bitreader" where
  "br_get n br =
     (if n = 0 then (0, br)
      else (let b = br_refill br in (unat (drop_bit (32 - n) (br_buf b)), br_skip n b)))"

text \<open>The codes longer than 9 bits, from length \<open>n\<close> on, \<open>m\<close> lengths at most.\<close>

primrec huff_long :: "huff_dec \<Rightarrow> nat \<Rightarrow> nat \<Rightarrow> bitreader \<Rightarrow> int \<times> bitreader" where
  "huff_long t 0 n br = (-1, br)"
| "huff_long t (Suc m) n br =
     (let code = int (unat (drop_bit (32 - n) (br_buf br)))
      in if code \<le> maxcode t ! n
         then (int (hvals t ! nat (code + valoff t ! n)), br_skip n br)
         else huff_long t m (n + 1) br)"

definition huff_decode :: "huff_dec \<Rightarrow> bitreader \<Rightarrow> int \<times> bitreader" where
  "huff_decode t br0 =
     (let br = br_refill br0;
          e = lut t ! unat (drop_bit 23 (br_buf br))
      in if e \<noteq> 0 then (int (e AND 0xff), br_skip (drop_bit 8 e) br)
         else huff_long t 7 10 br)"

section \<open>The procedure of ITU T.81\<close>

text \<open>DECODE (F.2.2.3): one bit after the other, until the code is not above the greatest one of its
  length; without a lookahead. \<open>None\<close> when no code of up to 16 bits fits.\<close>

primrec t81_decode :: "huff_dec \<Rightarrow> nat \<Rightarrow> nat \<Rightarrow> u32 \<Rightarrow> (nat \<times> nat) option" where
  "t81_decode t 0 n buf = None"
| "t81_decode t (Suc m) n buf =
     (let code = int (unat (drop_bit (32 - n) buf))
      in if code \<le> maxcode t ! n then Some (n, hvals t ! nat (code + valoff t ! n))
         else t81_decode t m (n + 1) buf)"

end
