(* ===== verification/TjcCode.thy ===== *)
theory TjcCode
  imports TjcHuff
begin

text \<open>
  The lookahead of \<open>huff_decode\<close> against the bit-by-bit procedure of ITU T.81: the tables that
  \<open>build_huff\<close> makes of a code whose lengths fit (Kraft's inequality) decode every bit buffer the
  same way.
\<close>

section \<open>The canonical code\<close>

text \<open>The first code of length \<open>n + 1\<close>, and the number of shorter codes.\<close>

primrec first_code :: "nat list \<Rightarrow> nat \<Rightarrow> nat" where
  "first_code bits 0 = 0"
| "first_code bits (Suc n) = 2 * (first_code bits n + bits ! n)"

primrec shorter :: "nat list \<Rightarrow> nat \<Rightarrow> nat" where
  "shorter bits 0 = 0"
| "shorter bits (Suc n) = shorter bits n + bits ! n"

definition code_valid :: "nat list \<Rightarrow> nat list \<Rightarrow> bool" where
  "code_valid bits vals =
     (length bits = 16 \<and> shorter bits 16 = length vals \<and> length vals \<le> 256 \<and> (\<forall>v\<in>set vals. v < 256)
      \<and> (\<forall>n<16. first_code bits n + bits ! n \<le> 2 ^ (n + 1)))"

lemma shorter_mono: "m \<le> n \<Longrightarrow> shorter bits m \<le> shorter bits n"
  by (induction n) (auto simp: le_Suc_eq)

text \<open>Where the codes of length \<open>n + 1\<close> lie in the lookahead.\<close>

definition zone :: "nat list \<Rightarrow> nat \<Rightarrow> nat \<times> nat" where
  "zone bits n = (first_code bits n * 2 ^ (8 - n), (first_code bits n + bits ! n) * 2 ^ (8 - n))"

lemma zone_next: "n < 8 \<Longrightarrow> fst (zone bits (Suc n)) = snd (zone bits n)"
proof -
  assume "n < 8"
  then have "(2 :: nat) ^ (8 - n) = 2 * 2 ^ (8 - Suc n)"
    by (metis Suc_diff_Suc power_Suc)
  then show ?thesis by (simp add: zone_def)
qed

lemma zone_prev: "0 < n \<and> n \<le> 8 \<Longrightarrow> snd (zone bits (n - 1)) = fst (zone bits n)"
  using zone_next [of "n - 1" bits] by (cases n) simp_all

lemma zone_order: "m < n \<Longrightarrow> n \<le> 8 \<Longrightarrow> snd (zone bits m) \<le> fst (zone bits n)"
proof (induction n)
  case (Suc n)
  then have z: "fst (zone bits (Suc n)) = snd (zone bits n)" by (intro zone_next) simp
  show ?case
  proof (cases "m = n")
    case False
    then have "snd (zone bits m) \<le> fst (zone bits n)" using Suc by simp
    also have "\<dots> \<le> snd (zone bits n)" by (simp add: zone_def)
    finally show ?thesis unfolding z .
  qed (simp add: z)
qed simp

section \<open>What the tables hold\<close>

lemma length_fold_fill: "length (fold (\<lambda>j l. l[f j := v]) js l) = length l"
  by (induction js arbitrary: l) simp_all

lemma length_lut_fill [simp]: "length (lut_fill n code sy l) = length l"
  unfolding lut_fill_def by (rule length_fold_fill)

lemma fold_fill_nth:
  "i < length l \<Longrightarrow> fold (\<lambda>j l. l[a + j := v]) [0..<m] l ! i = (if a \<le> i \<and> i < a + m then v else l ! i)
    \<and> length (fold (\<lambda>j l. l[a + j := v]) [0..<m] l) = length l"
proof (induction m)
  case (Suc m)
  then show ?case by (cases "i = a + m") (auto simp: nth_list_update)
qed auto

lemma lut_entry: "n < 256 \<Longrightarrow> sy < 256 \<Longrightarrow> (push_bit 8 n OR sy) mod 65536 = 256 * n + (sy :: nat)"
proof -
  assume "n < 256" "sy < 256"
  have "push_bit 8 n OR sy = sy OR push_bit 8 n" by (rule or.commute)
  also have "\<dots> = sy + push_bit 8 n" using or_shift_add [of sy 8 n] \<open>sy < 256\<close> by simp
  finally show ?thesis using \<open>n < 256\<close> \<open>sy < 256\<close> by (simp add: push_bit_nat_mult)
qed

lemma lut_fill_nth:
  assumes "i < length l" "n \<le> 9" "sy < 256"
  shows "lut_fill n code sy l ! i =
    (if code * 2 ^ (9 - n) \<le> i \<and> i < (code + 1) * 2 ^ (9 - n) then 256 * n + sy else l ! i)"
  using fold_fill_nth [OF assms(1), of "code * 2 ^ (9 - n)" "256 * n + sy" "2 ^ (9 - n)"] lut_entry [of n sy] assms(2,3)
  unfolding lut_fill_def push_bit_nat_mult by (simp add: algebra_simps)

text \<open>All symbols of one length.\<close>

lemma symbols_effect:
  assumes v: "\<forall>v\<in>set vals. v < 256" and n: "1 \<le> n"
  shows "k + c \<le> length vals \<Longrightarrow> length (lut d) = 512 \<Longrightarrow> length (hvals d) = 256 \<Longrightarrow> length vals \<le> 256 \<Longrightarrow>
    \<exists>d'. (huff_symbol vals n ^^ c) (code, k, d) = (code + c, k + c, d')
      \<and> maxcode d' = maxcode d \<and> valoff d' = valoff d \<and> length (lut d') = 512 \<and> length (hvals d') = 256
      \<and> (\<forall>i<256. hvals d' ! i = (if k \<le> i \<and> i < k + c then vals ! i else hvals d ! i))
      \<and> (\<forall>i<512. lut d' ! i = (if n \<le> 9 \<and> code * 2 ^ (9 - n) \<le> i \<and> i < (code + c) * 2 ^ (9 - n)
           then 256 * n + vals ! (k + (i div 2 ^ (9 - n) - code)) else lut d ! i))"
proof (induction c)
  case 0
  then show ?case by (intro exI [of _ d]) auto
next
  case (Suc c)
  then obtain d' where IH: "(huff_symbol vals n ^^ c) (code, k, d) = (code + c, k + c, d')"
    "maxcode d' = maxcode d" "valoff d' = valoff d" "length (lut d') = 512" "length (hvals d') = 256"
    "\<forall>i<256. hvals d' ! i = (if k \<le> i \<and> i < k + c then vals ! i else hvals d ! i)"
    "\<forall>i<512. lut d' ! i = (if n \<le> 9 \<and> code * 2 ^ (9 - n) \<le> i \<and> i < (code + c) * 2 ^ (9 - n)
           then 256 * n + vals ! (k + (i div 2 ^ (9 - n) - code)) else lut d ! i)"
    by auto
  let ?x = "vals ! (k + c)"
  have x: "?x < 256" using v Suc.prems(1) by simp
  let ?d = "d'\<lparr>hvals := (hvals d')[k + c := ?x], lut := (if n \<le> 9 then lut_fill n (code + c) ?x (lut d') else lut d')\<rparr>"
  have st: "(huff_symbol vals n ^^ Suc c) (code, k, d) = (code + Suc c, k + Suc c, ?d)"
    using IH(1) by (simp add: huff_symbol_def)
  have hv: "hvals ?d ! i = (if k \<le> i \<and> i < k + Suc c then vals ! i else hvals d ! i)" if "i < 256" for i
    using IH(5,6) that by (cases "i = k + c") (auto simp: nth_list_update)
  have lu: "lut ?d ! i = (if n \<le> 9 \<and> code * 2 ^ (9 - n) \<le> i \<and> i < (code + Suc c) * 2 ^ (9 - n)
           then 256 * n + vals ! (k + (i div 2 ^ (9 - n) - code)) else lut d ! i)" if i: "i < 512" for i
  proof (cases "n \<le> 9")
    case True
    let ?p = "(2 :: nat) ^ (9 - n)"
    have l: "lut ?d ! i = (if (code + c) * ?p \<le> i \<and> i < (code + c + 1) * ?p then 256 * n + ?x else lut d' ! i)"
      using lut_fill_nth [of i "lut d'" n ?x "code + c"] IH(4) i True x by simp
    have le: "code * ?p \<le> (code + c) * ?p" by simp
    show ?thesis
    proof (cases "(code + c) * ?p \<le> i \<and> i < (code + c + 1) * ?p")
      case in_zone: True
      have "i div ?p = code + c"
        by (rule div_nat_eqI) (use in_zone in \<open>simp_all add: algebra_simps\<close>)
      moreover have "code * ?p \<le> i" by (rule order_trans [OF le]) (use in_zone in blast)
      moreover have "i < (code + Suc c) * ?p" using in_zone by simp
      ultimately show ?thesis using l in_zone True by simp
    next
      case False
      have "i < (code + Suc c) * ?p \<longleftrightarrow> i < (code + c) * ?p \<or> ((code + c) * ?p \<le> i \<and> i < (code + c + 1) * ?p)"
        by (auto simp: algebra_simps)
      then show ?thesis using l False IH(7) i by auto
    qed
  next
    case False
    then show ?thesis using IH(7) i by simp
  qed
  show ?case
    using st IH(2-5) hv lu by (intro exI [of _ ?d]) simp
qed

text \<open>The tables after the first \<open>n\<close> lengths.\<close>

definition tables_upto :: "nat list \<Rightarrow> nat list \<Rightarrow> nat \<Rightarrow> huff_dec \<Rightarrow> bool" where
  "tables_upto bits vals n d =
     (length (lut d) = 512 \<and> length (hvals d) = 256 \<and> length (maxcode d) = 17 \<and> length (valoff d) = 17
      \<and> (\<forall>m<n. maxcode d ! (m + 1) = (if bits ! m = 0 then -1 else int (first_code bits m + bits ! m) - 1))
      \<and> (\<forall>m<n. bits ! m \<noteq> 0 \<longrightarrow> valoff d ! (m + 1) = int (shorter bits m) - int (first_code bits m))
      \<and> (\<forall>i < shorter bits n. hvals d ! i = vals ! i)
      \<and> (\<forall>m<n. m \<le> 8 \<longrightarrow> (\<forall>i. fst (zone bits m) \<le> i \<and> i < snd (zone bits m) \<longrightarrow>
           lut d ! i = 256 * (m + 1) + vals ! (shorter bits m + (i div 2 ^ (8 - m) - first_code bits m))))
      \<and> (\<forall>i<512. (n = 0 \<or> snd (zone bits (min (n - 1) 8)) \<le> i) \<longrightarrow> lut d ! i = 0))"

lemma zone_512: "code_valid bits vals \<Longrightarrow> m \<le> 8 \<Longrightarrow> snd (zone bits m) \<le> 512"
proof -
  assume "code_valid bits vals" "m \<le> 8"
  then have "first_code bits m + bits ! m \<le> 2 ^ (m + 1)" by (simp add: code_valid_def)
  then have "(first_code bits m + bits ! m) * 2 ^ (8 - m) \<le> 2 ^ (m + 1) * 2 ^ (8 - m)" by (rule mult_le_mono1)
  also have "\<dots> = 2 ^ (m + 1 + (8 - m))" by (simp only: power_add)
  also have "m + 1 + (8 - m) = 9" using \<open>m \<le> 8\<close> by simp
  finally show ?thesis by (simp add: zone_def)
qed

lemma huff_length_upto:
  assumes cv: "code_valid bits vals" and n: "n < 16" and up: "tables_upto bits vals n d"
  shows "\<exists>d'. huff_length bits vals (n + 1) (first_code bits n, shorter bits n, d)
      = (first_code bits (n + 1), shorter bits (n + 1), d') \<and> tables_upto bits vals (n + 1) d'"
proof -
  let ?d0 = "d\<lparr>maxcode := (maxcode d)[n + 1 := -1]\<rparr>"
  let ?F = "first_code bits n" and ?K = "shorter bits n" and ?c = "bits ! n"
  have len: "length (lut d) = 512" "length (hvals d) = 256" "length (maxcode d) = 17" "length (valoff d) = 17"
    using up by (simp_all add: tables_upto_def)
  have zero: "\<forall>i<512. (n = 0 \<or> snd (zone bits (min (n - 1) 8)) \<le> i) \<longrightarrow> lut d ! i = 0"
    using up unfolding tables_upto_def by blast
  have kc: "?K + ?c \<le> length vals"
    using shorter_mono [of "n + 1" 16 bits] n cv by (simp add: code_valid_def)
  have vs: "\<forall>v\<in>set vals. v < 256" "length vals \<le> 256" using cv by (simp_all add: code_valid_def)
  show ?thesis
  proof (cases "?c = 0")
    case True
    have z: "snd (zone bits n) = fst (zone bits n)" using True by (simp add: zone_def)
    have "tables_upto bits vals (n + 1) ?d0"
      unfolding tables_upto_def
    proof (intro conjI allI impI)
      fix m
      assume "m < n + 1"
      then show "maxcode ?d0 ! (m + 1) = (if bits ! m = 0 then -1 else int (first_code bits m + bits ! m) - 1)"
        using up len True n by (cases "m = n") (simp_all add: tables_upto_def)
    next
      fix m
      assume "m < n + 1" "bits ! m \<noteq> 0"
      then show "valoff ?d0 ! (m + 1) = int (shorter bits m) - int (first_code bits m)"
        using up True by (cases "m = n") (simp_all add: tables_upto_def)
    next
      fix m i
      assume m: "m < n + 1" "m \<le> 8" and i: "fst (zone bits m) \<le> i \<and> i < snd (zone bits m)"
      then have "m < n" using z by (cases "m = n") simp_all
      then show "lut ?d0 ! i = 256 * (m + 1) + vals ! (shorter bits m + (i div 2 ^ (8 - m) - first_code bits m))"
        using up m i by (simp add: tables_upto_def)
    next
      fix i :: nat
      assume i: "i < 512" "n + 1 = 0 \<or> snd (zone bits (min (n + 1 - 1) 8)) \<le> i"
      have "n = 0 \<or> snd (zone bits (min (n - 1) 8)) \<le> i"
      proof (cases "0 < n \<and> n \<le> 8")
        case True
        then have "snd (zone bits (n - 1)) = fst (zone bits n)" by (rule zone_prev)
        then show ?thesis using i(2) z True by (auto simp: min_def)
      next
        case False
        then have "n = 0 \<or> min (n - 1) 8 = min (n + 1 - 1) 8" by auto
        then show ?thesis using i(2) by auto
      qed
      then have "lut d ! i = 0" using zero i(1) by blast
      then show "lut ?d0 ! i = 0" by simp
    qed (use up len True in \<open>simp_all add: tables_upto_def\<close>)
    moreover have "huff_length bits vals (n + 1) (?F, ?K, d) = (2 * ?F, ?K, ?d0)"
      using True by (simp add: huff_length_def Let_def)
    ultimately show ?thesis using True by simp
  next
    case False
    let ?d1 = "?d0\<lparr>valoff := (valoff ?d0)[n + 1 := int ?K - int ?F]\<rparr>"
    obtain d' where d': "(huff_symbol vals (n + 1) ^^ ?c) (?F, ?K, ?d1) = (?F + ?c, ?K + ?c, d')"
      "maxcode d' = maxcode ?d1" "valoff d' = valoff ?d1" "length (lut d') = 512" "length (hvals d') = 256"
      "\<forall>i<256. hvals d' ! i = (if ?K \<le> i \<and> i < ?K + ?c then vals ! i else hvals ?d1 ! i)"
      "\<forall>i<512. lut d' ! i = (if n + 1 \<le> 9 \<and> ?F * 2 ^ (9 - (n + 1)) \<le> i \<and> i < (?F + ?c) * 2 ^ (9 - (n + 1))
           then 256 * (n + 1) + vals ! (?K + (i div 2 ^ (9 - (n + 1)) - ?F)) else lut ?d1 ! i)"
      using symbols_effect [OF vs(1), of "n + 1" ?K ?c ?d1 ?F] kc len vs(2) by auto
    let ?d2 = "d'\<lparr>maxcode := (maxcode d')[n + 1 := int (?F + ?c) - 1]\<rparr>"
    have lut: "lut ?d2 ! i = (if n \<le> 8 \<and> fst (zone bits n) \<le> i \<and> i < snd (zone bits n)
           then 256 * (n + 1) + vals ! (?K + (i div 2 ^ (8 - n) - ?F)) else lut d ! i)" if "i < 512" for i
      using d'(7) that by (simp add: zone_def)
    have "tables_upto bits vals (n + 1) ?d2"
      unfolding tables_upto_def
    proof (intro conjI allI impI)
      fix m
      assume "m < n + 1"
      then show "maxcode ?d2 ! (m + 1) = (if bits ! m = 0 then -1 else int (first_code bits m + bits ! m) - 1)"
        using up len d'(2) n False by (cases "m = n") (simp_all add: tables_upto_def)
    next
      fix m
      assume "m < n + 1" "bits ! m \<noteq> 0"
      then show "valoff ?d2 ! (m + 1) = int (shorter bits m) - int (first_code bits m)"
        using up d'(3) len n by (cases "m = n") (simp_all add: tables_upto_def)
    next
      fix i
      assume "i < shorter bits (n + 1)"
      then show "hvals ?d2 ! i = vals ! i"
        using up d'(6) kc vs(2) by (cases "i < ?K") (simp_all add: tables_upto_def)
    next
      fix m i
      assume m: "m < n + 1" "m \<le> 8" and i: "fst (zone bits m) \<le> i \<and> i < snd (zone bits m)"
      then have i512: "i < 512" using zone_512 [OF cv m(2)] by linarith
      show "lut ?d2 ! i = 256 * (m + 1) + vals ! (shorter bits m + (i div 2 ^ (8 - m) - first_code bits m))"
      proof (cases "m = n")
        case True
        then show ?thesis using lut [OF i512] m i by simp
      next
        case False
        then have mn: "m < n" using m by simp
        have "\<not> (n \<le> 8 \<and> fst (zone bits n) \<le> i)"
          using zone_order [OF mn, of bits] i by linarith
        then have "lut ?d2 ! i = lut d ! i" using lut [OF i512] by auto
        then show ?thesis using up mn m i by (simp add: tables_upto_def)
      qed
    next
      fix i :: nat
      assume i: "i < 512" "n + 1 = 0 \<or> snd (zone bits (min (n + 1 - 1) 8)) \<le> i"
      have "\<not> (n \<le> 8 \<and> i < snd (zone bits n))" using i(2) by (auto simp: min_def)
      then have "lut ?d2 ! i = lut d ! i" using lut [OF i(1)] by auto
      moreover have "n = 0 \<or> snd (zone bits (min (n - 1) 8)) \<le> i"
      proof (cases "0 < n \<and> n \<le> 8")
        case True
        then have "snd (zone bits (n - 1)) = fst (zone bits n)" by (rule zone_prev)
        moreover have "fst (zone bits n) \<le> snd (zone bits n)" by (simp add: zone_def)
        ultimately show ?thesis using i(2) True by (auto simp: min_def)
      next
        case False
        then have "n = 0 \<or> min (n - 1) 8 = min (n + 1 - 1) 8" by auto
        then show ?thesis using i(2) by auto
      qed
      ultimately show "lut ?d2 ! i = 0" using zero i(1) by metis
    qed (use d' len in simp_all)
    moreover have "huff_length bits vals (n + 1) (?F, ?K, d) = (2 * (?F + ?c), ?K + ?c, ?d2)"
      using False d'(1) by (simp add: huff_length_def Let_def)
    ultimately show ?thesis by simp
  qed
qed

lemma fold_huff_length:
  assumes "code_valid bits vals"
  shows "n \<le> 16 \<Longrightarrow> \<exists>d. fold (huff_length bits vals) [1..<Suc n] (0, 0, huff_zero)
      = (first_code bits n, shorter bits n, d) \<and> tables_upto bits vals n d"
proof (induction n)
  case 0
  then show ?case by (simp add: tables_upto_def huff_zero_def)
next
  case (Suc n)
  then obtain d where d: "fold (huff_length bits vals) [1..<Suc n] (0, 0, huff_zero)
      = (first_code bits n, shorter bits n, d)" "tables_upto bits vals n d" by auto
  obtain d' where "huff_length bits vals (n + 1) (first_code bits n, shorter bits n, d)
      = (first_code bits (n + 1), shorter bits (n + 1), d')" "tables_upto bits vals (n + 1) d'"
    using huff_length_upto [OF assms _ d(2)] Suc.prems by auto
  then show ?case using d(1) by (simp add: upt_Suc_append)
qed

lemma build_huff_tables:
  assumes "code_valid bits vals"
  shows "tables_upto bits vals 16 (build_huff bits vals)"
proof -
  obtain d where d: "fold (huff_length bits vals) [1..<Suc 16] (0, 0, huff_zero)
      = (first_code bits 16, shorter bits 16, d)" "tables_upto bits vals 16 d"
    using fold_huff_length [OF assms, of 16] by auto
  have "[1..<17] = [1..<Suc 16]" by (simp only: Suc_numeral semiring_norm)
  then show ?thesis using d unfolding build_huff_def by simp
qed

section \<open>Decoding\<close>

text \<open>A prefix of \<open>n + 1\<close> bits of the lookahead is a code of that length, or shorter, when it lies
  before the end of its zone.\<close>

lemma top_bits:
  "n \<le> 9 \<Longrightarrow> unat (drop_bit (32 - n) (w :: u32)) = unat (drop_bit 23 w) div 2 ^ (9 - n)"
proof -
  assume "n \<le> 9"
  then have n: "32 - n = (9 - n) + 23" by simp
  have "drop_bit (32 - n) w = drop_bit (9 - n) (drop_bit 23 w)"
    unfolding n by (rule drop_bit_drop_bit [symmetric])
  then show ?thesis by (simp only: unat_drop_bit)
qed

lemma lookahead_less: "unat (drop_bit 23 (w :: u32)) < 512"
proof -
  have "unat w div 2 ^ 23 < 512"
    by (rule less_mult_imp_div_less) (use unat_u32_less [of w] in simp)
  then show ?thesis by (simp only: unat_drop_bit)
qed

lemma below_maxcode:
  assumes "tables_upto bits vals 16 t" "m < 16" "m \<le> 8"
  shows "int (i div 2 ^ (8 - m)) \<le> maxcode t ! (m + 1) \<longleftrightarrow> bits ! m \<noteq> 0 \<and> i < snd (zone bits m)"
proof -
  have mc: "maxcode t ! (m + 1) = (if bits ! m = 0 then -1 else int (first_code bits m + bits ! m) - 1)"
    using assms(1,2) unfolding tables_upto_def by blast
  have "i div 2 ^ (8 - m) < a \<longleftrightarrow> i < a * 2 ^ (8 - m)" for a
    by (rule div_less_iff_less_mult) simp
  note lt = this [of "first_code bits m + bits ! m"]
  show ?thesis
  proof (cases "bits ! m = 0")
    case True
    have "\<not> int (i div 2 ^ (8 - m)) \<le> -1" by simp
    then show ?thesis unfolding mc using True by simp
  next
    case False
    have "int (i div 2 ^ (8 - m)) \<le> int (first_code bits m + bits ! m) - 1
        \<longleftrightarrow> i div 2 ^ (8 - m) < first_code bits m + bits ! m" by linarith
    then show ?thesis unfolding mc zone_def using False lt by simp
  qed
qed

text \<open>The bit-by-bit procedure from length \<open>n + 1\<close> on, when no shorter code fitted.\<close>

lemma t81_lookahead:
  assumes up: "tables_upto bits vals 16 t" and cv: "code_valid bits vals"
  shows "n \<le> 9 \<Longrightarrow> (\<forall>m<n. snd (zone bits m) \<le> unat (drop_bit 23 w)) \<Longrightarrow>
    (let e = lut t ! unat (drop_bit 23 w)
     in (e \<noteq> 0 \<longrightarrow> t81_decode t (16 - n) (n + 1) w = Some (drop_bit 8 e, e AND 0xff))
      \<and> (e = 0 \<longrightarrow> t81_decode t (16 - n) (n + 1) w = t81_decode t 7 10 w))"
proof (induction "9 - n" arbitrary: n)
  case 0
  then have n: "n = 9" by simp
  let ?i = "unat (drop_bit 23 w)"
  have "snd (zone bits 8) \<le> ?i" using 0(3) n by simp
  then have "lut t ! ?i = 0"
    using up lookahead_less [of w] unfolding tables_upto_def by simp
  then show ?case by (simp add: n Let_def)
next
  case (Suc k)
  let ?i = "unat (drop_bit 23 w)"
  have n: "n \<le> 8" "n < 16" using Suc.hyps(2) by simp_all
  have m: "16 - n = Suc (16 - Suc n)" using n by simp
  have code: "unat (drop_bit (32 - (n + 1)) w) = ?i div 2 ^ (8 - n)"
    using top_bits [of "n + 1" w] n by simp
  note bm = below_maxcode [OF up n(2) n(1), of ?i]
  show ?case
  proof (cases "bits ! n \<noteq> 0 \<and> ?i < snd (zone bits n)")
    case True
    have lo: "fst (zone bits n) \<le> ?i"
    proof (cases n)
      case 0
      then show ?thesis by (simp add: zone_def)
    next
      case (Suc p)
      then have "fst (zone bits n) = snd (zone bits p)" using zone_next [of p bits] n by simp
      then show ?thesis using Suc.prems(2) Suc by simp
    qed
    let ?j = "shorter bits n + (?i div 2 ^ (8 - n) - first_code bits n)"
    have e: "lut t ! ?i = 256 * (n + 1) + vals ! ?j"
      using up lo True n unfolding tables_upto_def by blast
    have ge: "first_code bits n \<le> ?i div 2 ^ (8 - n)"
      using lo by (simp add: zone_def less_eq_div_iff_mult_less_eq)
    have lt: "?i div 2 ^ (8 - n) < first_code bits n + bits ! n"
      using True by (simp add: zone_def div_less_iff_less_mult)
    have "?j < shorter bits (n + 1)" using ge lt by simp
    also have sh: "shorter bits (n + 1) \<le> shorter bits 16" by (rule shorter_mono) (use n in simp)
    finally have j: "?j < shorter bits 16" .
    then have jv: "vals ! ?j < 256" "hvals t ! ?j = vals ! ?j"
      using cv up unfolding tables_upto_def code_valid_def by auto
    have vo: "valoff t ! (n + 1) = int (shorter bits n) - int (first_code bits n)"
      using up True n unfolding tables_upto_def by blast
    have ix: "nat (int (?i div 2 ^ (8 - n)) + valoff t ! (n + 1)) = ?j"
      using ge unfolding vo by simp
    have "t81_decode t (16 - n) (n + 1) w = Some (n + 1, vals ! ?j)"
      unfolding m t81_decode.simps Let_def code using bm True ix jv(2) by simp
    moreover have "drop_bit 8 (256 * (n + 1) + vals ! ?j) = n + 1"
      using jv(1) by (simp add: drop_bit_eq_div)
    moreover have "(256 * (n + 1) + vals ! ?j) AND 0xff = vals ! ?j"
    proof -
      have "x AND 0xff = x mod 256" for x :: nat
        using take_bit_eq_mask [of 8 x] by (simp add: mask_eq_exp_minus_1 take_bit_eq_mod)
      then have "(256 * (n + 1) + vals ! ?j) AND 0xff = (256 * (n + 1) + vals ! ?j) mod 256" .
      also have "\<dots> = vals ! ?j mod 256" by (rule mod_mult_self4)
      also have "\<dots> = vals ! ?j" using jv(1) by (rule mod_less)
      finally show ?thesis .
    qed
    ultimately show ?thesis unfolding e Let_def by simp
  next
    case False
    have z: "snd (zone bits n) \<le> ?i"
    proof (cases "bits ! n = 0")
      case True
      have "snd (zone bits n) = fst (zone bits n)" using True by (simp add: zone_def)
      also have "\<dots> \<le> ?i"
      proof (cases n)
        case (Suc p)
        then have "fst (zone bits n) = snd (zone bits p)" using zone_next [of p bits] n by simp
        then show ?thesis using Suc.prems(2) Suc by simp
      qed (simp add: zone_def)
      finally show ?thesis .
    qed (use False in simp)
    have "t81_decode t (16 - n) (n + 1) w = t81_decode t (16 - Suc n) (Suc n + 1) w"
      unfolding m t81_decode.simps Let_def code if_not_P [OF False [folded bm]] by simp
    moreover have "\<forall>m<Suc n. snd (zone bits m) \<le> ?i" using Suc.prems(2) z by (auto simp: less_Suc_eq)
    ultimately show ?thesis using Suc.hyps(1) [of "Suc n"] Suc.hyps(2) n by simp
  qed
qed

lemma huff_long_t81:
  "huff_long t m n br = (case t81_decode t m n (br_buf br) of None \<Rightarrow> (-1, br)
     | Some (k, v) \<Rightarrow> (int v, br_skip k br))"
  by (induction m arbitrary: n) (simp_all add: Let_def)

text \<open>
  C17: with the tables that \<open>build_huff\<close> makes of any code whose lengths fit, \<open>huff_decode\<close> finds in
  every bit buffer the symbol, and takes the bits, that the procedure DECODE of ITU T.81 finds bit by
  bit, and fails exactly where it finds no code.
\<close>
theorem huff_decode_t81:
  assumes "code_valid bits vals"
  shows "huff_decode (build_huff bits vals) br =
    (let b = br_refill br
     in case t81_decode (build_huff bits vals) 16 1 (br_buf b) of
          None \<Rightarrow> (-1, b) | Some (n, v) \<Rightarrow> (int v, br_skip n b))"
proof -
  let ?t = "build_huff bits vals" and ?b = "br_refill br"
  have l: "(let e = lut ?t ! unat (drop_bit 23 (br_buf ?b))
     in (e \<noteq> 0 \<longrightarrow> t81_decode ?t (16 - 0) (0 + 1) (br_buf ?b) = Some (drop_bit 8 e, e AND 0xff))
      \<and> (e = 0 \<longrightarrow> t81_decode ?t (16 - 0) (0 + 1) (br_buf ?b) = t81_decode ?t 7 10 (br_buf ?b)))"
    by (rule t81_lookahead [OF build_huff_tables [OF assms] assms]) simp_all
  show ?thesis
    using l unfolding huff_decode_def Let_def huff_long_t81 by (cases "lut ?t ! unat (drop_bit 23 (br_buf ?b)) = 0") simp_all
qed

text \<open>The codes of Annex K fit.\<close>

lemma first_code_list: "n \<le> length bits \<Longrightarrow> first_code bits n = foldl (\<lambda>c b. 2 * (c + b)) 0 (take n bits)"
  by (induction n) (simp_all add: take_Suc_conv_app_nth)

lemma shorter_list: "n \<le> length bits \<Longrightarrow> shorter bits n = sum_list (take n bits)"
  by (induction n) (simp_all add: take_Suc_conv_app_nth)

lemma upto_16: "[0..<16] = [0, 1, 2, 3, 4, 5, 6, 7, 8, 9, 10, 11, 12, 13, 14, 15 :: nat]"
  by (simp add: upt_conv_Cons numeral_eq_Suc)

lemma code_valid_list:
  "length bits = 16 \<Longrightarrow> code_valid bits vals \<longleftrightarrow>
    sum_list bits = length vals \<and> length vals \<le> 256 \<and> list_all (\<lambda>v. v < 256) vals
    \<and> list_all (\<lambda>n. foldl (\<lambda>c b. 2 * (c + b)) 0 (take n bits) + bits ! n \<le> 2 ^ (n + 1)) [0..<16]"
  by (simp add: code_valid_def first_code_list shorter_list list_all_iff) (simp add: Ball_def)

lemma annex_k_valid:
  "code_valid dc_luma_bits dc_vals" "code_valid dc_chroma_bits dc_vals"
  "code_valid ac_luma_bits ac_luma_vals" "code_valid ac_chroma_bits ac_chroma_vals"
  by (simp_all add: code_valid_list dc_luma_bits_def dc_chroma_bits_def dc_vals_def ac_luma_bits_def upto_16
      ac_luma_vals_def ac_chroma_bits_def ac_chroma_vals_def)

theorem huff_decode_t81_witness:
  "code_valid ac_luma_bits ac_luma_vals
    \<and> huff_decode (build_huff ac_luma_bits ac_luma_vals) (br_start [0xa5]) =
      (let b = br_refill (br_start [0xa5])
       in case t81_decode (build_huff ac_luma_bits ac_luma_vals) 16 1 (br_buf b) of
            None \<Rightarrow> (-1, b) | Some (n, v) \<Rightarrow> (int v, br_skip n b))"
  using annex_k_valid(3) huff_decode_t81 [OF annex_k_valid(3)] by blast

end
