(* ===== verification/TjcDec.thy ===== *)
theory TjcDec
  imports TjcDct TjcCode "HOL-Library.Monad_Syntax"
begin

text \<open>
  The TJC video decoder \<open>tjcdec.c\<close> over its tables and its transform: the stream header, the layout
  and the planes, the coefficients of a block and the payload of a tile. A plane is the list of its
  bytes; a write past its end gives \<open>None\<close>. \<open>malloc\<close> is the parameter \<open>alloc\<close>, which says whether a
  block of so many bytes can be had for a plane. The Huffman tables, which the code builds once, are the record
  \<open>tjc_tabs\<close>.
\<close>

section \<open>Tables\<close>

definition std_luma_q :: "nat list" where
  "std_luma_q = [16, 11, 10, 16, 24, 40, 51, 61,
     12, 12, 14, 19, 26, 58, 60, 55,
     14, 13, 16, 24, 40, 57, 69, 56,
     14, 17, 22, 29, 51, 87, 80, 62,
     18, 22, 37, 56, 68, 109, 103, 77,
     24, 35, 55, 64, 81, 104, 113, 92,
     49, 64, 78, 87, 103, 121, 120, 101,
     72, 92, 95, 98, 112, 100, 103, 99]"

definition std_chroma_q :: "nat list" where
  "std_chroma_q = [17, 18, 24, 47, 99, 99, 99, 99,
     18, 21, 26, 66, 99, 99, 99, 99,
     24, 26, 56, 99, 99, 99, 99, 99,
     47, 66, 99, 99, 99, 99, 99, 99] @ replicate 32 99"

definition zigzag :: "nat list" where
  "zigzag = [0, 1, 8, 16, 9, 2, 3, 10, 17, 24, 32, 25, 18, 11, 4, 5,
     12, 19, 26, 33, 40, 48, 41, 34, 27, 20, 13, 6, 7, 14, 21, 28,
     35, 42, 49, 56, 57, 50, 43, 36, 29, 22, 15, 23, 30, 37, 44, 51,
     58, 59, 52, 45, 38, 31, 39, 46, 53, 60, 61, 54, 47, 55, 62, 63]"

record tjc_tabs =
  huff_ready :: bool
  huff_dc :: "huff_dec list"
  huff_ac :: "huff_dec list"

section \<open>One block\<close>

definition clamp_coef :: "int \<Rightarrow> int" where
  "clamp_coef v = (if v < -2048 then -2048 else if v > 2047 then 2047 else v)"

text \<open>The value of \<open>n\<close> magnitude bits: \<open>if (v < (1 << (n - 1))) v -= (1 << n) - 1\<close>.\<close>

definition extend_bits :: "nat \<Rightarrow> nat \<Rightarrow> int" where
  "extend_bits n v = (if v < 2 ^ (n - 1) then int v - (2 ^ n - 1) else int v)"

text \<open>The AC coefficients from position \<open>k\<close> on. \<open>None\<close> is the result -1, bad data.\<close>

function ac_loop :: "huff_dec \<Rightarrow> nat list \<Rightarrow> nat \<Rightarrow> bool \<Rightarrow> int list \<Rightarrow> bitreader
    \<Rightarrow> (bool \<times> int list \<times> bitreader) option" where
  "ac_loop ac q k has coef br =
     (if k < 64
      then (case huff_decode ac br of (rs, br1) \<Rightarrow>
        if rs < 0 then None
        else
          (let r = drop_bit 4 (nat rs); n = nat rs AND 15
           in if n = 0
              then (if r \<noteq> 15 then Some (has, coef, br1) else ac_loop ac q (k + 16) has coef br1)
              else if k + r > 63 then None
              else (case br_get n br1 of (a, br2) \<Rightarrow>
                ac_loop ac q (k + r + 1) True
                  (coef[zigzag ! (k + r) := clamp_coef (extend_bits n a * int (q ! (k + r)))]) br2)))
      else Some (has, coef, br))"
  by pat_completeness auto
termination
  by (relation "measure (\<lambda>(ac, q, k, has, coef, br). 64 - k)") auto

declare ac_loop.simps [simp del]

text \<open>\<open>decode_block\<close>: the prediction, whether there are AC coefficients, the coefficients in natural
  order.\<close>

definition decode_block
  :: "tjc_tabs \<Rightarrow> nat \<Rightarrow> nat list \<Rightarrow> int \<Rightarrow> bitreader \<Rightarrow> (int \<times> bool \<times> int list \<times> bitreader) option" where
  "decode_block tb table q pred br =
     (case huff_decode (huff_dc tb ! table) br of (s, br1) \<Rightarrow>
        if s < 0 \<or> s > 11 then None
        else
          (case (if s \<noteq> 0 then (case br_get (nat s) br1 of (d, b) \<Rightarrow> (extend_bits (nat s) d, b)) else (0, br1))
           of (diff, br2) \<Rightarrow>
             if pred + diff < -2047 \<or> pred + diff > 2047 then None
             else
               (case ac_loop (huff_ac tb ! table) q 1 False
                   ((replicate 64 0)[0 := clamp_coef ((pred + diff) * int (q ! 0))]) br2 of
                  None \<Rightarrow> None
                | Some (has, coef, br3) \<Rightarrow> Some (pred + diff, has, coef, br3))))"

definition block_rows :: "bool \<Rightarrow> int list \<Rightarrow> byte list list" where
  "block_rows has coef =
     (if has then idct8x8 (map of_int coef) else idct8x8_dc (of_int (coef ! 0)))"

section \<open>Header and layout\<close>

record tjc_header =
  version :: nat
  width :: nat
  height :: nat
  tile_w :: nat
  tile_h :: nat
  refresh_mode :: nat
  refresh_param :: nat
  quality :: nat
  fps_num :: nat
  fps_den :: nat
  audio_codec :: nat
  audio_channels :: nat
  audio_rate :: nat

definition TJC_HDR_SIZE_V1 :: nat where "TJC_HDR_SIZE_V1 = 18"
definition TJC_HDR_SIZE :: nat where "TJC_HDR_SIZE = 34"
definition TJC_QOA_MAX_CH :: nat where "TJC_QOA_MAX_CH = 8"

definition worst_case_tile_bytes :: "nat \<Rightarrow> nat \<Rightarrow> nat" where
  "worst_case_tile_bytes tw th =
     (let luma = ((tw + 7) div 8) * ((th + 7) div 8);
          chroma = (((tw + 1) div 2 + 7) div 8) * (((th + 1) div 2 + 7) div 8)
      in ((luma + 2 * chroma) * (27 + 63 * 26) + 7) div 8)"

text \<open>The audio part of a version 2 header; \<open>None\<close> when it is bad.\<close>

definition tjc_header_v2 :: "byte list \<Rightarrow> tjc_header \<Rightarrow> tjc_header option" where
  "tjc_header_v2 b r =
     (let r1 = r\<lparr>fps_num := ufs_le32 b 18, fps_den := ufs_le32 b 22, audio_codec := unat (b ! 26)\<rparr>
      in if fps_num r1 = 0 \<or> fps_den r1 = 0 \<or> audio_codec r1 > 1 then None
         else if audio_codec r1 \<noteq> 0
         then
           (let r2 = r1\<lparr>audio_channels := unat (b ! 27), audio_rate := ufs_le32 b 28\<rparr>
            in if audio_channels r2 < 1 \<or> audio_channels r2 > TJC_QOA_MAX_CH \<or> audio_rate r2 < 1
                 \<or> audio_rate r2 > 0xffffff
               then None else Some r2)
         else Some r1)"

definition tjc_parse_header :: "byte list \<Rightarrow> int \<times> tjc_header option" where
  "tjc_parse_header b =
     (if length b < 4 then (0, None)
      else if take 3 b \<noteq> [0x54, 0x4a, 0x43] \<or> (b ! 3 \<noteq> 0x31 \<and> b ! 3 \<noteq> 0x32) then (-1, None)
      else
        (let v = unat (b ! 3) - 0x30;
             need = (if v = 1 then TJC_HDR_SIZE_V1 else TJC_HDR_SIZE);
             r = \<lparr>version = v, width = 0, height = 0, tile_w = 0, tile_h = 0, refresh_mode = 0,
                  refresh_param = 0, quality = 0, fps_num = 30, fps_den = 1, audio_codec = 0,
                  audio_channels = 0, audio_rate = 0\<rparr>
         in if length b < need then (0, None)
            else
              (case (if v = 2 then tjc_header_v2 b r else Some r) of
                 None \<Rightarrow> (-1, None)
               | Some r1 \<Rightarrow>
                   (let r2 = r1\<lparr>width := ufs_le16 b 4, height := ufs_le16 b 6, tile_w := unat (b ! 8),
                               tile_h := unat (b ! 9)\<rparr>
                    in if b ! 10 \<noteq> 0 \<or> b ! 11 > 2 then (-1, None)
                       else
                         (let r3 = r2\<lparr>refresh_mode := unat (b ! 11), refresh_param := ufs_le16 b 12,
                                     quality := unat (b ! 14)\<rparr>
                          in if quality r3 < 1 \<or> quality r3 > 100 \<or> width r3 < 1 \<or> height r3 < 1
                               \<or> tile_w r3 < 1 \<or> tile_h r3 < 1
                               \<or> worst_case_tile_bytes (tile_w r3) (tile_h r3) > 65535
                             then (-1, None) else (int need, Some r3))))))"

record tjc_dec =
  hdr :: tjc_header
  cwidth :: nat
  cheight :: nat
  cols :: nat
  rows :: nat
  tiles :: nat
  pwidth :: nat
  pheight :: nat
  pcwidth :: nat
  pcheight :: nat
  planes :: "byte list list"
  strides :: "nat list"
  dquant :: "nat list list"

definition quant_entry :: "nat list \<Rightarrow> nat \<Rightarrow> nat \<Rightarrow> nat" where
  "quant_entry std scale k =
     (let l = (std ! (zigzag ! k) * scale + 50) div 100 in if l < 1 then 1 else if l > 255 then 255 else l)"

definition tjc_layout :: "tjc_header \<Rightarrow> tjc_dec" where
  "tjc_layout h =
     (let c = (width h + tile_w h - 1) div tile_w h; r = (height h + tile_h h - 1) div tile_h h
      in \<lparr>hdr = h, cwidth = (width h + 1) div 2, cheight = (height h + 1) div 2, cols = c, rows = r,
          tiles = c * r, pwidth = c * tile_w h, pheight = r * tile_h h,
          pcwidth = (c * tile_w h + 1) div 2, pcheight = (r * tile_h h + 1) div 2,
          planes = [[], [], []], strides = [0, 0, 0], dquant = [replicate 64 0, replicate 64 0]\<rparr>)"

definition tjc_tables :: "tjc_tabs \<Rightarrow> tjc_tabs" where
  "tjc_tables tb =
     (if huff_ready tb then tb
      else \<lparr>huff_ready = True,
            huff_dc = [build_huff dc_luma_bits dc_vals, build_huff dc_chroma_bits dc_vals],
            huff_ac = [build_huff ac_luma_bits ac_luma_vals, build_huff ac_chroma_bits ac_chroma_vals]\<rparr>)"

definition tjc_dec_free :: "tjc_dec \<Rightarrow> tjc_dec" where
  "tjc_dec_free d = d\<lparr>planes := [[], [], []]\<rparr>"

definition tjc_dec_init :: "(nat \<Rightarrow> nat \<Rightarrow> bool) \<Rightarrow> tjc_header \<Rightarrow> tjc_tabs \<Rightarrow> int \<times> tjc_dec \<times> tjc_tabs" where
  "tjc_dec_init alloc h tb =
     (let d = tjc_layout h;
          scale = (if quality h < 50 then 5000 div quality h else 200 - quality h * 2);
          ls = mul32 (pwidth d) (pheight d);
          cs = mul32 (pcwidth d) (pcheight d)
      in if \<not> alloc 0 ls \<or> \<not> alloc 1 cs \<or> \<not> alloc 2 cs then (-1, tjc_dec_free d, tb)
         else (0, d\<lparr>planes := [replicate ls 16, replicate cs 128, replicate cs 128],
                    strides := [pwidth d, pcwidth d, pcwidth d],
                    dquant := [map (quant_entry std_luma_q scale) [0..<64],
                               map (quant_entry std_chroma_q scale) [0..<64]]\<rparr>,
               tjc_tables tb))"

section \<open>One tile\<close>

text \<open>\<open>tjc_tile_rect\<close>: x, y, width and height.\<close>

definition tjc_tile_rect :: "tjc_dec \<Rightarrow> nat \<Rightarrow> nat \<Rightarrow> nat \<times> nat \<times> nat \<times> nat" where
  "tjc_tile_rect d tile c =
     (let x0 = (tile mod cols d) * tile_w (hdr d); y0 = (tile div cols d) * tile_h (hdr d)
      in if c = 0 then (x0, y0, tile_w (hdr d), tile_h (hdr d))
         else ((x0 + 1) div 2, (y0 + 1) div 2,
               (x0 + tile_w (hdr d) + 1) div 2 - (x0 + 1) div 2,
               (y0 + tile_h (hdr d) + 1) div 2 - (y0 + 1) div 2))"

text \<open>Writing rows of bytes, \<open>stride\<close> apart.\<close>

fun write_rows :: "nat \<Rightarrow> nat \<Rightarrow> byte list list \<Rightarrow> byte list \<Rightarrow> byte list option" where
  "write_rows off stride [] p = Some p"
| "write_rows off stride (r # rs) p =
     (if off + length r \<le> length p
      then write_rows (off + stride) stride rs (take off p @ r @ drop (off + length r) p)
      else None)"

text \<open>The blocks of a component, \<open>bx, by\<close>, in the order in which the loops visit them.\<close>

definition block_list :: "nat \<Rightarrow> nat \<Rightarrow> (nat \<times> nat) list" where
  "block_list w h =
     concat (map (\<lambda>j. map (\<lambda>i. (8 * i, 8 * j)) [0..<(w + 7) div 8]) [0..<(h + 7) div 8])"

text \<open>The blocks of one component at \<open>x, y\<close>: whether all were good, the plane, the reader.\<close>

fun decode_blocks
  :: "tjc_tabs \<Rightarrow> nat \<Rightarrow> nat list \<Rightarrow> nat \<Rightarrow> nat \<times> nat \<times> nat \<times> nat \<Rightarrow> (nat \<times> nat) list \<Rightarrow> int
    \<Rightarrow> byte list \<times> bitreader \<Rightarrow> (bool \<times> byte list \<times> bitreader) option" where
  "decode_blocks tb table q stride rect [] pred (p, br) = Some (True, p, br)"
| "decode_blocks tb table q stride (x, y, w, h) ((bx, by) # bs) pred (p, br) =
     (case decode_block tb table q pred br of
        None \<Rightarrow> Some (False, p, br)
      | Some (pred', has, coef, br') \<Rightarrow>
          (case write_rows ((y + by) * stride + x + bx) stride
                  (map (take (min 8 (w - bx))) (take (min 8 (h - by)) (block_rows has coef))) p of
             None \<Rightarrow> None
           | Some p' \<Rightarrow> decode_blocks tb table q stride (x, y, w, h) bs pred' (p', br')))"

primrec decode_comps
  :: "tjc_tabs \<Rightarrow> nat \<Rightarrow> nat \<Rightarrow> nat \<Rightarrow> tjc_dec \<times> bitreader \<Rightarrow> (bool \<times> tjc_dec \<times> bitreader) option" where
  "decode_comps tb tile c 0 st = Some (True, st)"
| "decode_comps tb tile c (Suc n) st =
     (case st of (d, br) \<Rightarrow>
        (case tjc_tile_rect d tile c of (x, y, w, h) \<Rightarrow>
          (case decode_blocks tb (if c = 0 then 0 else 1) (dquant d ! (if c = 0 then 0 else 1))
                  (strides d ! c) (x, y, w, h) (block_list w h) 0 (planes d ! c, br) of
             None \<Rightarrow> None
           | Some (good, p, br') \<Rightarrow>
               (let d' = d\<lparr>planes := (planes d)[c := p]\<rparr>
                in if good then decode_comps tb tile (c + 1) n (d', br') else Some (False, d', br')))))"

definition tjc_decode_tile :: "tjc_tabs \<Rightarrow> tjc_dec \<Rightarrow> byte list \<Rightarrow> nat \<Rightarrow> (int \<times> tjc_dec) option" where
  "tjc_decode_tile tb d data tile =
     (case decode_comps tb tile 0 3 (d, br_start data) of
        None \<Rightarrow> None
      | Some (good, d', br) \<Rightarrow>
          Some (if \<not> good \<or> br_pos br * 8 - br_cnt br > length data * 8 then -1 else 0, d'))"

end
