(* ===== verification/TjcTile.thy ===== *)
theory TjcTile
  imports TjcDec
begin

text \<open>
  Where \<open>tjc_decode_tile\<close> writes: within the planes, and in them within the rectangle of the tile,
  whatever the payload holds.
\<close>

section \<open>Planes as rows\<close>

definition in_rect :: "nat \<Rightarrow> nat \<times> nat \<times> nat \<times> nat \<Rightarrow> nat \<Rightarrow> bool" where
  "in_rect stride r i = (case r of (x, y, w, h) \<Rightarrow>
     y \<le> i div stride \<and> i div stride < y + h \<and> x \<le> i mod stride \<and> i mod stride < x + w)"

text \<open>\<open>p'\<close> is \<open>p\<close> but for the rectangle.\<close>

definition only_in :: "nat \<Rightarrow> nat \<times> nat \<times> nat \<times> nat \<Rightarrow> byte list \<Rightarrow> byte list \<Rightarrow> bool" where
  "only_in stride r p p' =
     (length p' = length p \<and> (\<forall>i<length p. \<not> in_rect stride r i \<longrightarrow> p' ! i = p ! i))"

lemma only_in_refl: "only_in stride r p p"
  by (simp add: only_in_def)

lemma only_in_trans: "only_in stride r p q \<Longrightarrow> only_in stride r q s \<Longrightarrow> only_in stride r p s"
  by (simp add: only_in_def)

lemma put_row:
  assumes "Y * stride + X + length r \<le> length p" "x \<le> X" "X + length r \<le> x + w" "x + w \<le> stride"
    "y \<le> Y" "Y < y + h"
  shows "only_in stride (x, y, w, h) p
    (take (Y * stride + X) p @ r @ drop (Y * stride + X + length r) p)"
proof -
  let ?o = "Y * stride + X"
  let ?q = "take ?o p @ r @ drop (?o + length r) p"
  have l: "length ?q = length p" using assms(1) by simp
  have "?q ! i = p ! i" if i: "i < length p" "\<not> in_rect stride (x, y, w, h) i" for i
  proof (cases "?o \<le> i \<and> i < ?o + length r")
    case True
    then have m: "i = Y * stride + (i - Y * stride)" "i - Y * stride < stride" using assms by linarith+
    have d: "i div stride = Y" by (rule div_nat_eqI) (use m in \<open>simp_all add: algebra_simps\<close>)
    have "i mod stride = i - Y * stride" unfolding modulo_nat_def d ..
    then have "in_rect stride (x, y, w, h) i" using True assms m d by (simp add: in_rect_def) linarith
    then show ?thesis using i(2) by simp
  next
    case False
    then show ?thesis using assms(1) i(1) by (auto simp: nth_append)
  qed
  then show ?thesis unfolding only_in_def using l by blast
qed

lemma write_rows_only_in:
  assumes "x \<le> X" "x + w \<le> stride" "\<And>r. r \<in> set rs \<Longrightarrow> X + length r \<le> x + w"
  shows "y \<le> Y \<Longrightarrow> Y + length rs \<le> y + h \<Longrightarrow> (y + h) * stride \<le> length p \<Longrightarrow>
    \<exists>p'. write_rows (Y * stride + X) stride rs p = Some p' \<and> only_in stride (x, y, w, h) p p'"
  using assms(3)
proof (induction rs arbitrary: Y p)
  case Nil
  then show ?case by (simp add: only_in_refl)
next
  case (Cons r rs)
  let ?o = "Y * stride + X"
  let ?q = "take ?o p @ r @ drop (?o + length r) p"
  have r: "X + length r \<le> x + w" using Cons.prems(4) by simp
  have Y: "Y + 1 \<le> y + h" using Cons.prems(2) by simp
  have "(Y + 1) * stride \<le> (y + h) * stride" using Y by (rule mult_le_mono1)
  then have fits: "?o + length r \<le> length p" using r assms(2) Cons.prems(3) by (simp add: algebra_simps)
  have q: "only_in stride (x, y, w, h) p ?q"
    by (rule put_row) (use fits assms(1,2) r Cons.prems Y in simp_all)
  then have lq: "length ?q = length p" by (simp add: only_in_def)
  obtain p' where p': "write_rows ((Y + 1) * stride + X) stride rs ?q = Some p'" "only_in stride (x, y, w, h) ?q p'"
    using Cons.IH [of "Y + 1" ?q] Cons.prems lq by auto
  have "write_rows ?o stride (r # rs) p = write_rows ((Y + 1) * stride + X) stride rs ?q"
    using fits by (simp add: algebra_simps)
  then show ?case using p' only_in_trans [OF q p'(2)] by simp
qed

section \<open>Blocks and components\<close>

lemma block_list_in: "(bx, by) \<in> set (block_list w h) \<Longrightarrow> bx < w \<and> by < h"
  by (auto simp: block_list_def)

lemma length_block_rows: "length (block_rows has coef) = 8" "r \<in> set (block_rows has coef) \<Longrightarrow> length r = 8"
  by (auto simp: block_rows_def length_idct8x8 length_idct8x8_dc split: if_splits)

lemma decode_blocks_only_in:
  assumes "x + w \<le> stride"
  shows "(\<And>bx by. (bx, by) \<in> set bs \<Longrightarrow> bx < w \<and> by < h) \<Longrightarrow> (y + h) * stride \<le> length p \<Longrightarrow>
    \<exists>good p' br'. decode_blocks tb table q stride (x, y, w, h) bs pred (p, br) = Some (good, p', br')
      \<and> only_in stride (x, y, w, h) p p'"
proof (induction bs arbitrary: pred p br)
  case Nil
  then show ?case using only_in_refl by auto
next
  case (Cons b bs)
  obtain bx "by" where b: "b = (bx, by)" by (cases b)
  have in_wh: "bx < w" "by < h" using Cons.prems(1) [of bx "by"] b by simp_all
  show ?case
  proof (cases "decode_block tb table q pred br")
    case None
    then show ?thesis using only_in_refl by (auto simp: b)
  next
    case (Some res)
    obtain pred' has coef br' where res: "res = (pred', has, coef, br')" by (cases res)
    let ?rs = "map (take (min 8 (w - bx))) (take (min 8 (h - by)) (block_rows has coef))"
    have n: "length ?rs \<le> h - by" by (simp add: length_block_rows)
    have m: "x + bx + length r \<le> x + w" if "r \<in> set ?rs" for r
      using that in_wh by (auto simp: min_def split: if_splits)
    have "\<exists>p'. write_rows ((y + by) * stride + (x + bx)) stride ?rs p = Some p' \<and> only_in stride (x, y, w, h) p p'"
    proof (rule write_rows_only_in [OF _ assms m])
      show "x \<le> x + bx" "y \<le> y + by" by simp_all
      show "y + by + length ?rs \<le> y + h" using n in_wh by linarith
      show "(y + h) * stride \<le> length p" by (rule Cons.prems(2))
    qed
    then obtain p' where p': "write_rows ((y + by) * stride + (x + bx)) stride ?rs p = Some p'"
      "only_in stride (x, y, w, h) p p'" by blast
    have in_bs: "\<And>bx by. (bx, by) \<in> set bs \<Longrightarrow> bx < w \<and> by < h"
      using Cons.prems(1) by (meson list.set_intros(2))
    have len: "length p' = length p" using p'(2) by (simp add: only_in_def)
    obtain good p'' br'' where r: "decode_blocks tb table q stride (x, y, w, h) bs pred' (p', br') = Some (good, p'', br'')"
      "only_in stride (x, y, w, h) p' p''"
      using Cons.IH [OF in_bs, of p' pred' br'] Cons.prems(2) len by auto
    have "decode_blocks tb table q stride (x, y, w, h) (b # bs) pred (p, br) = Some (good, p'', br'')"
      using Some p'(1) r(1) by (simp add: b res add.assoc)
    then show ?thesis using only_in_trans [OF p'(2) r(2)] by blast
  qed
qed

text \<open>A decoder as \<open>tjc_dec_init\<close> leaves it: whole tiles, and planes of the size of the layout.\<close>

definition comp_rows :: "tjc_dec \<Rightarrow> nat \<Rightarrow> nat" where
  "comp_rows d c = (if c = 0 then pheight d else pcheight d)"

definition dec_ok :: "tjc_dec \<Rightarrow> bool" where
  "dec_ok d = (1 \<le> tile_w (hdr d) \<and> 1 \<le> tile_h (hdr d) \<and> tiles d = cols d * rows d
     \<and> pwidth d = cols d * tile_w (hdr d) \<and> pheight d = rows d * tile_h (hdr d)
     \<and> pcwidth d = (pwidth d + 1) div 2 \<and> pcheight d = (pheight d + 1) div 2
     \<and> strides d = [pwidth d, pcwidth d, pcwidth d] \<and> length (planes d) = 3
     \<and> (\<forall>c<3. length (planes d ! c) = strides d ! c * comp_rows d c))"

text \<open>The same decoder but for the bytes of the planes.\<close>

definition same_layout :: "tjc_dec \<Rightarrow> tjc_dec \<Rightarrow> bool" where
  "same_layout d d' = (d' = d\<lparr>planes := planes d'\<rparr>)"

lemma same_layout_eqs:
  assumes "same_layout d0 d"
  shows "tiles d = tiles d0 \<and> strides d = strides d0 \<and> dquant d = dquant d0 \<and> hdr d = hdr d0 \<and> cols d = cols d0
    \<and> tjc_tile_rect d tile c = tjc_tile_rect d0 tile c"
proof -
  obtain ps where "d = d0\<lparr>planes := ps\<rparr>" using assms unfolding same_layout_def by blast
  then show ?thesis by (simp add: tjc_tile_rect_def cong: if_cong)
qed

lemma same_layout_step: "same_layout d0 d \<Longrightarrow> same_layout d0 (d\<lparr>planes := ps\<rparr>)"
  unfolding same_layout_def by (metis tjc_dec.surjective tjc_dec.update_convs(11) tjc_dec.select_convs(11))

lemma tile_rect_fits:
  assumes ok: "dec_ok d" and t: "tile < tiles d" and c: "c < 3" and r: "tjc_tile_rect d tile c = (x, y, w, h)"
  shows "x + w \<le> strides d ! c \<and> y + h \<le> comp_rows d c"
proof -
  have tc: "0 < cols d" using t ok by (auto simp: dec_ok_def intro: gr0I)
  have "tile mod cols d < cols d" using tc by simp
  then have "(tile mod cols d + 1) * tile_w (hdr d) \<le> cols d * tile_w (hdr d)" by (intro mult_le_mono1) simp
  then have X: "(tile mod cols d) * tile_w (hdr d) + tile_w (hdr d) \<le> pwidth d" using ok by (simp add: dec_ok_def)
  have "tile div cols d < rows d"
    using t ok tc by (simp add: dec_ok_def div_less_iff_less_mult mult.commute)
  then have "(tile div cols d + 1) * tile_h (hdr d) \<le> rows d * tile_h (hdr d)" by (intro mult_le_mono1) simp
  then have Y: "(tile div cols d) * tile_h (hdr d) + tile_h (hdr d) \<le> pheight d" using ok by (simp add: dec_ok_def)
  have s: "strides d ! c = (if c = 0 then pwidth d else (pwidth d + 1) div 2)"
    using ok c by (auto simp: dec_ok_def nth_Cons' less_Suc_eq numeral_eq_Suc)
  have half: "(a + 1) div 2 + ((a + k + 1) div 2 - (a + 1) div 2) = (a + k + 1) div 2" for a k :: nat
    by (simp add: div_le_mono)
  have mono: "a \<le> b \<Longrightarrow> (a + 1) div 2 \<le> (b + 1) div 2" for a b :: nat by (simp add: div_le_mono)
  show ?thesis
  proof (cases "c = 0")
    case True
    then show ?thesis using r X Y s by (auto simp: tjc_tile_rect_def Let_def comp_rows_def)
  next
    case False
    have ph: "comp_rows d c = (pheight d + 1) div 2" using ok False by (simp add: comp_rows_def dec_ok_def)
    define x0 where "x0 = (tile mod cols d) * tile_w (hdr d)"
    define y0 where "y0 = (tile div cols d) * tile_h (hdr d)"
    have eqs: "x = (x0 + 1) div 2" "y = (y0 + 1) div 2"
      "w = (x0 + tile_w (hdr d) + 1) div 2 - (x0 + 1) div 2"
      "h = (y0 + tile_h (hdr d) + 1) div 2 - (y0 + 1) div 2"
      using r unfolding tjc_tile_rect_def Let_def if_not_P [OF False] x0_def y0_def by auto
    show ?thesis
      unfolding s ph eqs half using mono [OF X] mono [OF Y] False by (simp add: x0_def y0_def)
  qed
qed

lemma decode_comps_only_in:
  assumes t: "tile < tiles d0"
  shows "dec_ok d \<Longrightarrow> same_layout d0 d \<Longrightarrow> c + n \<le> 3 \<Longrightarrow>
    \<exists>good d' br'. decode_comps tb tile c n (d, br) = Some (good, d', br') \<and> dec_ok d' \<and> same_layout d0 d'
      \<and> (\<forall>k<3. only_in (strides d0 ! k) (tjc_tile_rect d0 tile k) (planes d ! k) (planes d' ! k))"
proof (induction n arbitrary: c d br)
  case 0
  then show ?case using only_in_refl by auto
next
  case (Suc n)
  obtain x y w h where r: "tjc_tile_rect d tile c = (x, y, w, h)" by (cases "tjc_tile_rect d tile c")
  have lay: "tiles d = tiles d0" "strides d = strides d0" "tjc_tile_rect d tile k = tjc_tile_rect d0 tile k" for k
    using same_layout_eqs [OF Suc.prems(2)] by simp_all
  have c: "c < 3" using Suc.prems(3) by simp
  have fit: "x + w \<le> strides d ! c" "y + h \<le> comp_rows d c"
    using tile_rect_fits [OF Suc.prems(1) _ c r] t lay(1) by simp_all
  have "(y + h) * (strides d ! c) \<le> comp_rows d c * (strides d ! c)" using fit(2) by (rule mult_le_mono1)
  also have "\<dots> = length (planes d ! c)" using Suc.prems(1) c by (simp add: dec_ok_def mult.commute)
  finally have room: "(y + h) * (strides d ! c) \<le> length (planes d ! c)" .
  obtain good p' br' where b: "decode_blocks tb (if c = 0 then 0 else 1) (dquant d ! (if c = 0 then 0 else 1))
      (strides d ! c) (x, y, w, h) (block_list w h) 0 (planes d ! c, br) = Some (good, p', br')"
    "only_in (strides d ! c) (x, y, w, h) (planes d ! c) p'"
    using decode_blocks_only_in [OF fit(1) block_list_in room] by blast
  let ?d = "d\<lparr>planes := (planes d)[c := p']\<rparr>"
  have lp: "length (planes d) = 3" using Suc.prems(1) by (simp add: dec_ok_def)
  have lp': "length p' = length (planes d ! c)" using b(2) by (simp add: only_in_def)
  have ok: "dec_ok ?d"
    using Suc.prems(1) lp' c lp by (auto simp: dec_ok_def comp_rows_def nth_list_update)
  have lay': "same_layout d0 ?d" using Suc.prems(2) by (rule same_layout_step)
  have step: "only_in (strides d0 ! k) (tjc_tile_rect d0 tile k) (planes d ! k) (planes ?d ! k)" if "k < 3" for k
    using b(2) r lay only_in_refl lp that by (cases "k = c") auto
  show ?case
  proof (cases good)
    case True
    then obtain good' d' br'' where r': "decode_comps tb tile (c + 1) n (?d, br') = Some (good', d', br'')"
      "dec_ok d'" "same_layout d0 d'"
      "\<forall>k<3. only_in (strides d0 ! k) (tjc_tile_rect d0 tile k) (planes ?d ! k) (planes d' ! k)"
      using Suc.IH [OF ok lay', of "c + 1" br'] Suc.prems(3) by auto
    have "decode_comps tb tile c (Suc n) (d, br) = Some (good', d', br'')"
      using b(1) r r'(1) True by (simp add: Let_def)
    then show ?thesis using r' step only_in_trans by blast
  next
    case False
    then have "decode_comps tb tile c (Suc n) (d, br) = Some (False, ?d, br')"
      using b(1) r by (simp add: Let_def)
    then show ?thesis using ok lay' step by blast
  qed
qed

lemma tjc_decode_tile_only_in:
  assumes "dec_ok d" "tile < tiles d"
  shows "\<exists>r d'. tjc_decode_tile tb d data tile = Some (r, d') \<and> dec_ok d' \<and> same_layout d d'
    \<and> (\<forall>c<3. only_in (strides d ! c) (tjc_tile_rect d tile c) (planes d ! c) (planes d' ! c))"
proof -
  have "same_layout d d" by (simp add: same_layout_def)
  then obtain good d' br where "decode_comps tb tile 0 3 (d, br_start data) = Some (good, d', br)"
    "dec_ok d'" "same_layout d d'"
    "\<forall>c<3. only_in (strides d ! c) (tjc_tile_rect d tile c) (planes d ! c) (planes d' ! c)"
    using decode_comps_only_in [OF assms(2,1), of 0 3 tb "br_start data"] by auto
  then show ?thesis by (auto simp: tjc_decode_tile_def)
qed

section \<open>A decoder for a stream\<close>

lemma tjc_header_valid:
  assumes "tjc_parse_header b = (n, Some h)"
  shows "1 \<le> tile_w h \<and> 1 \<le> tile_h h \<and> 1 \<le> width h \<and> 1 \<le> height h \<and> 1 \<le> quality h \<and> quality h \<le> 100"
  using assms unfolding tjc_parse_header_def Let_def
  by (auto split: if_splits option.splits)

lemma tjc_init_ok:
  assumes h: "1 \<le> tile_w h" "1 \<le> tile_h h" and i: "tjc_dec_init alloc h tb = (0, d, tb')"
    and small: "pwidth d * pheight d < two32"
  shows "dec_ok d"
proof -
  let ?l = "tjc_layout h"
  let ?ls = "mul32 (pwidth ?l) (pheight ?l)" and ?cs = "mul32 (pcwidth ?l) (pcheight ?l)"
  have d: "pwidth d = pwidth ?l" "pheight d = pheight ?l" "pcwidth d = pcwidth ?l" "pcheight d = pcheight ?l"
    "strides d = [pwidth ?l, pcwidth ?l, pcwidth ?l]" "hdr d = h" "cols d = cols ?l" "rows d = rows ?l" "tiles d = tiles ?l"
    "planes d = [replicate ?ls 16, replicate ?cs 128, replicate ?cs 128]"
    using i by (auto simp: tjc_dec_init_def Let_def tjc_layout_def split: if_splits)
  have g: "pcwidth ?l = (pwidth ?l + 1) div 2" "pcheight ?l = (pheight ?l + 1) div 2"
    "pwidth ?l = cols ?l * tile_w h" "pheight ?l = rows ?l * tile_h h" "tiles ?l = cols ?l * rows ?l"
    by (simp_all add: tjc_layout_def Let_def)
  have ls: "?ls = pwidth ?l * pheight ?l" using small d by (simp add: mul32_id)
  have half: "(a + 1) div 2 \<le> a" for a :: nat by simp
  have "pcwidth ?l * pcheight ?l \<le> pwidth ?l * pheight ?l"
    unfolding g(1,2) by (intro mult_le_mono half)
  then have cs: "?cs = pcwidth ?l * pcheight ?l" using small d by (simp add: mul32_id)
  have "\<forall>c<3. length (planes d ! c) = strides d ! c * comp_rows d c"
    unfolding d ls cs comp_rows_def by (auto simp: less_Suc_eq numeral_eq_Suc nth_Cons')
  then show ?thesis using h g unfolding dec_ok_def d(1-9) by (simp add: d)
qed

text \<open>The tiles of a stream, one after the other, each with its payload.\<close>

primrec decode_tiles :: "tjc_tabs \<Rightarrow> (nat \<times> byte list) list \<Rightarrow> tjc_dec \<Rightarrow> tjc_dec option" where
  "decode_tiles tb [] d = Some d"
| "decode_tiles tb (t # ts) d =
     (case tjc_decode_tile tb d (snd t) (fst t) of None \<Rightarrow> None | Some (r, d') \<Rightarrow> decode_tiles tb ts d')"

lemma same_layout_trans: "same_layout d0 d \<Longrightarrow> same_layout d d' \<Longrightarrow> same_layout d0 d'"
  by (metis same_layout_def same_layout_step)

lemma same_layout_length:
  assumes "dec_ok d0" "dec_ok d" "same_layout d0 d" "c < 3"
  shows "length (planes d ! c) = length (planes d0 ! c)"
proof -
  obtain ps where "d = d0\<lparr>planes := ps\<rparr>" using assms(3) unfolding same_layout_def by blast
  then show ?thesis using assms(1,2,4) by (simp add: dec_ok_def comp_rows_def)
qed

lemma decode_tiles_total:
  assumes "dec_ok d0" "\<And>t. t \<in> set ts \<Longrightarrow> fst t < tiles d0" "same_layout d0 d" "dec_ok d"
  shows "\<exists>d'. decode_tiles tb ts d = Some d' \<and> dec_ok d' \<and> same_layout d0 d'"
  using assms(2-4)
proof (induction ts arbitrary: d)
  case Nil
  then show ?case by simp
next
  case (Cons t ts)
  have "fst t < tiles d" using Cons.prems(1) [of t] same_layout_eqs [OF Cons.prems(2)] by simp
  from tjc_decode_tile_only_in [OF Cons.prems(3) this, of tb "snd t"]
  obtain r d' where d': "tjc_decode_tile tb d (snd t) (fst t) = Some (r, d')" "dec_ok d'" "same_layout d d'"
    by blast
  then show ?case
    using Cons.IH [of d'] Cons.prems same_layout_trans [OF Cons.prems(2) d'(3)] by simp
qed

text \<open>
  C16: in a decoder set up for a parsed header whose luma plane has fewer than \<open>2 ^ 32\<close> samples, any
  tiles of the stream decode, whatever their payloads hold, and so does the next: no write leaves a
  plane, and in each plane nothing changes outside of the rectangle of that tile.
\<close>
theorem tjc_tile_stays_in_rect:
  assumes "tjc_parse_header b = (n, Some h)" "tjc_dec_init alloc h tb = (0, d0, tb')"
    and "pwidth d0 * pheight d0 < two32" "tile < tiles d0"
    and "list_all (\<lambda>t. fst t < tiles d0) ts"
  shows "\<exists>d r d'. decode_tiles tb' ts d0 = Some d \<and> tjc_decode_tile tb' d data tile = Some (r, d')
    \<and> (\<forall>c<3. length (planes d' ! c) = length (planes d0 ! c)
        \<and> (\<forall>i<length (planes d ! c). \<not> in_rect (strides d0 ! c) (tjc_tile_rect d0 tile c) i
             \<longrightarrow> planes d' ! c ! i = planes d ! c ! i))"
proof -
  have ok: "dec_ok d0" using tjc_init_ok [OF _ _ assms(2,3)] tjc_header_valid [OF assms(1)] by blast
  have ts: "fst t < tiles d0" if "t \<in> set ts" for t using assms(5) that by (auto simp: list_all_iff)
  have "same_layout d0 d0" by (simp add: same_layout_def)
  from decode_tiles_total [OF ok ts this ok]
  obtain d where d: "decode_tiles tb' ts d0 = Some d" "dec_ok d" "same_layout d0 d" by blast
  note eqs = same_layout_eqs [OF d(3)]
  have "tile < tiles d" using assms(4) eqs by simp
  from tjc_decode_tile_only_in [OF d(2) this, of tb' data]
  obtain r d' where d': "tjc_decode_tile tb' d data tile = Some (r, d')" "dec_ok d'" "same_layout d d'"
    "\<forall>c<3. only_in (strides d0 ! c) (tjc_tile_rect d0 tile c) (planes d ! c) (planes d' ! c)"
    using eqs by auto
  have "\<forall>c<3. length (planes d' ! c) = length (planes d0 ! c)"
    using same_layout_length [OF ok d'(2) same_layout_trans [OF d(3) d'(3)]] by blast
  then show ?thesis using d(1) d'(1,4) unfolding only_in_def by blast
qed

definition demo_stream :: "byte list" where
  "demo_stream = [0x54, 0x4a, 0x43, 0x31, 20, 0, 9, 0, 16, 8, 0, 0, 0, 0, 50, 0, 0, 0]"

definition demo_header :: tjc_header where
  "demo_header = \<lparr>version = 1, width = 20, height = 9, tile_w = 16, tile_h = 8, refresh_mode = 0,
     refresh_param = 0, quality = 50, fps_num = 30, fps_den = 1, audio_codec = 0, audio_channels = 0,
     audio_rate = 0\<rparr>"

definition no_tabs :: tjc_tabs where
  "no_tabs = \<lparr>huff_ready = False, huff_dc = [], huff_ac = []\<rparr>"

definition demo_dec :: tjc_dec where
  "demo_dec = fst (snd (tjc_dec_init (\<lambda>_ _. True) demo_header no_tabs))"

lemma demo_parse: "tjc_parse_header demo_stream = (18, Some demo_header)"
  by (simp add: demo_stream_def demo_header_def tjc_parse_header_def TJC_HDR_SIZE_V1_def
      worst_case_tile_bytes_def ufs_le16_def)

lemma demo_init: "tjc_dec_init (\<lambda>_ _. True) demo_header no_tabs = (0, demo_dec, tjc_tables no_tabs)"
  by (simp add: demo_dec_def tjc_dec_init_def Let_def)

lemma demo_size: "pwidth demo_dec = 32" "pheight demo_dec = 16" "tiles demo_dec = 4"
  by (simp_all add: demo_dec_def tjc_dec_init_def Let_def tjc_layout_def demo_header_def)

theorem tjc_tile_stays_in_rect_witness:
  "\<exists>d r d'. decode_tiles (tjc_tables no_tabs) [(0, [0xff, 0x12]), (2, [])] demo_dec = Some d
    \<and> tjc_decode_tile (tjc_tables no_tabs) d [0x55, 0xaa] 3 = Some (r, d')
    \<and> (\<forall>c<3. length (planes d' ! c) = length (planes demo_dec ! c)
        \<and> (\<forall>i<length (planes d ! c). \<not> in_rect (strides demo_dec ! c) (tjc_tile_rect demo_dec 3 c) i
             \<longrightarrow> planes d' ! c ! i = planes d ! c ! i))"
  by (rule tjc_tile_stays_in_rect [OF demo_parse demo_init]) (simp_all add: demo_size)

end
