(* ===== verification/TjcQoa.thy ===== *)
theory TjcQoa
  imports TjcDec
begin

text \<open>
  \<open>tjc_qoa_decode\<close> of \<open>tjcdec.c\<close>, the audio of a TJC stream, and that it computes the QOA predictor of
  each channel. The history and the weights of a channel are integers, which \<open>lms_range\<close> shows to stay within
  their 32 bits; a read past \<open>size\<close> bytes or a write past the output buffer gives \<open>None\<close>.
\<close>

section \<open>The decoder\<close>

definition QOA_SLICE_LEN :: nat where "QOA_SLICE_LEN = 20"

definition qoa_dequant :: "int list list" where
  "qoa_dequant = [
     [1, -1, 3, -3, 5, -5, 7, -7],
     [5, -5, 18, -18, 32, -32, 49, -49],
     [16, -16, 53, -53, 95, -95, 147, -147],
     [34, -34, 113, -113, 203, -203, 315, -315],
     [63, -63, 210, -210, 378, -378, 588, -588],
     [104, -104, 345, -345, 621, -621, 966, -966],
     [158, -158, 528, -528, 950, -950, 1477, -1477],
     [228, -228, 760, -760, 1368, -1368, 2128, -2128],
     [316, -316, 1053, -1053, 1895, -1895, 2947, -2947],
     [422, -422, 1405, -1405, 2529, -2529, 3934, -3934],
     [548, -548, 1828, -1828, 3290, -3290, 5117, -5117],
     [696, -696, 2320, -2320, 4176, -4176, 6496, -6496],
     [868, -868, 2893, -2893, 5207, -5207, 8099, -8099],
     [1064, -1064, 3548, -3548, 6386, -6386, 9933, -9933],
     [1286, -1286, 4288, -4288, 7718, -7718, 12005, -12005],
     [1536, -1536, 5120, -5120, 9216, -9216, 14336, -14336]]"

definition get_be64 :: "byte list \<Rightarrow> nat \<Rightarrow> 64 word" where
  "get_be64 p i = push_bit 32 (ucast (get_be32 p i)) OR ucast (get_be32 p (i + 4))"

text \<open>\<open>(int16_t) (p[i] << 8 | p[i + 1])\<close>.\<close>

definition get_s16 :: "byte list \<Rightarrow> nat \<Rightarrow> int" where
  "get_s16 p i = sint (ucast (be16 p i) :: 16 word)"

text \<open>A channel: history and weights, four of each, the oldest first.\<close>

type_synonym lms = "int list \<times> int list"

definition qoa_predict :: "lms \<Rightarrow> int" where
  "qoa_predict s = (case s of (h, w) \<Rightarrow> w ! 0 * h ! 0 + w ! 1 * h ! 1 + w ! 2 * h ! 2 + w ! 3 * h ! 3)"

text \<open>One sample from its dequantized residual: the sample, the new state.\<close>

definition qoa_sample :: "int \<Rightarrow> lms \<Rightarrow> int \<times> lms" where
  "qoa_sample dequantized s =
     (case s of (h, w) \<Rightarrow>
        (let pr = qoa_predict (h, w) div 2 ^ 13;
             predicted = (if pr < - (2 ^ 24) then - (2 ^ 24) else if pr > 2 ^ 24 then 2 ^ 24 else pr);
             r = predicted + dequantized;
             rec = (if r < -32768 then -32768 else if r > 32767 then 32767 else r);
             delta = dequantized div 2 ^ 4
         in (rec, ([h ! 1, h ! 2, h ! 3, rec],
               map (\<lambda>i. w ! i + (if h ! i < 0 then - delta else delta)) [0, 1, 2, 3]))))"

text \<open>The samples of a slice, written to \<open>out[o]\<close>, \<open>out[o + channels]\<close> and so on.\<close>

primrec qoa_samples
  :: "int list \<Rightarrow> nat \<Rightarrow> nat \<Rightarrow> 64 word \<Rightarrow> nat \<Rightarrow> lms \<times> int list \<Rightarrow> (lms \<times> int list) option" where
  "qoa_samples dq channels 0 slc o' st = Some st"
| "qoa_samples dq channels (Suc n) slc o' st =
     (case qoa_sample (dq ! unat (drop_bit 61 slc)) (fst st) of (rec, s) \<Rightarrow>
        if o' < length (snd st)
        then qoa_samples dq channels n (push_bit 3 slc) (o' + channels) (s, (snd st)[o' := rec])
        else None)"

text \<open>The slices of the channels from \<open>c\<close> on, \<open>n\<close> of them, the first at \<open>data[p]\<close>.\<close>

primrec qoa_channels
  :: "byte list \<Rightarrow> nat \<Rightarrow> nat \<Rightarrow> nat \<Rightarrow> nat \<Rightarrow> nat \<Rightarrow> nat \<Rightarrow> lms list \<times> int list \<Rightarrow> (lms list \<times> int list) option" where
  "qoa_channels data channels start len c 0 p st = Some st"
| "qoa_channels data channels start len c (Suc n) p st =
     (if p + 8 \<le> length data
      then
        (let slc = get_be64 data p; dq = qoa_dequant ! unat (drop_bit 60 slc)
         in case qoa_samples dq channels len (push_bit 4 slc) (start * channels + c) (fst st ! c, snd st) of
              None \<Rightarrow> None
            | Some (s, out) \<Rightarrow>
                qoa_channels data channels start len (c + 1) n (p + 8) ((fst st)[c := s], out))
      else None)"

function qoa_slices
  :: "byte list \<Rightarrow> nat \<Rightarrow> nat \<Rightarrow> nat \<Rightarrow> nat \<Rightarrow> lms list \<times> int list \<Rightarrow> (lms list \<times> int list) option" where
  "qoa_slices data channels samples start p st =
     (if start < samples
      then
        (let len = (if samples - start < QOA_SLICE_LEN then samples - start else QOA_SLICE_LEN)
         in case qoa_channels data channels start len 0 channels p st of
              None \<Rightarrow> None
            | Some st' \<Rightarrow> qoa_slices data channels samples (start + QOA_SLICE_LEN) (p + 8 * channels) st')
      else Some st)"
  by pat_completeness auto
termination
  by (relation "measure (\<lambda>(data, channels, samples, start, p, st). samples - start)")
    (auto simp: QOA_SLICE_LEN_def)

declare qoa_slices.simps [simp del]

definition qoa_state :: "byte list \<Rightarrow> nat \<Rightarrow> lms" where
  "qoa_state data c =
     (map (\<lambda>i. get_s16 data (8 + 16 * c + 2 * i)) [0..<4],
      map (\<lambda>i. get_s16 data (8 + 16 * c + 8 + 2 * i)) [0..<4])"

text \<open>The result, the output, and \<open>*consumed\<close> where it is set.\<close>

definition tjc_qoa_decode
  :: "byte list \<Rightarrow> nat \<Rightarrow> nat \<Rightarrow> int list \<Rightarrow> (int \<times> int list \<times> nat option) option" where
  "tjc_qoa_decode data channels rate out =
     (let header_size = 8 + 16 * channels
      in if length data < header_size then Some (-1, out, None)
         else
           (let hi = get_be32 data 0; fch = unat (drop_bit 24 hi); frate = unat (hi AND 0xffffff);
                samples = unat (be16 data 4); fsize = unat (be16 data 6);
                slices = (samples + QOA_SLICE_LEN - 1) div QOA_SLICE_LEN
            in if fch \<noteq> channels \<or> frate \<noteq> rate \<or> samples < 1 \<or> slices > 256 \<or> fsize > length data
                 \<or> fsize < header_size + 8 * slices * channels
               then Some (-1, out, None)
               else
                 (case qoa_slices data channels samples 0 header_size
                         (map (qoa_state data) [0..<channels], out) of
                    None \<Rightarrow> None
                  | Some (st, out') \<Rightarrow> Some (int samples, out', Some fsize))))"

section \<open>The predictor of a channel\<close>

text \<open>The residual of sample \<open>i\<close> of channel \<open>c\<close>: in slice \<open>i div 20\<close> of the channel, the scale in the
  top four bits, then three bits a sample.\<close>

definition ref_residual :: "byte list \<Rightarrow> nat \<Rightarrow> nat \<Rightarrow> nat \<Rightarrow> int" where
  "ref_residual data channels c i =
     (let slc = get_be64 data (8 + 16 * channels + 8 * (i div 20 * channels + c))
      in qoa_dequant ! unat (drop_bit 60 slc) ! unat (take_bit 3 (drop_bit (57 - 3 * (i mod 20)) slc)))"

primrec ref_state :: "byte list \<Rightarrow> nat \<Rightarrow> nat \<Rightarrow> nat \<Rightarrow> lms" where
  "ref_state data channels c 0 = qoa_state data c"
| "ref_state data channels c (Suc i) =
     snd (qoa_sample (ref_residual data channels c i) (ref_state data channels c i))"

definition ref_sample :: "byte list \<Rightarrow> nat \<Rightarrow> nat \<Rightarrow> nat \<Rightarrow> int" where
  "ref_sample data channels c i = fst (qoa_sample (ref_residual data channels c i) (ref_state data channels c i))"

lemma slice_field:
  assumes "m \<le> 61"
  shows "drop_bit 61 (push_bit m s) = take_bit 3 (drop_bit (61 - m) (s :: 64 word))"
proof (rule bit_word_eqI)
  fix n assume n: "n < LENGTH(64)"
  show "bit (drop_bit 61 (push_bit m s)) n = bit (take_bit 3 (drop_bit (61 - m) s)) n"
    using assms n by (auto simp: bit_simps)
qed

lemma index_inject:
  fixes i :: nat
  assumes "i * ch + c = i' * ch + c'" "c < ch" "c' < ch"
  shows "i = i' \<and> c = c'"
proof -
  have "c = c'" using arg_cong [OF assms(1), of "\<lambda>x. x mod ch"] assms(2,3) by simp
  then show ?thesis using assms by auto
qed

section \<open>The loops\<close>

text \<open>\<open>dn c\<close> samples of channel \<open>c\<close> are written; the rest of the buffer beyond \<open>samples\<close> is as it was.\<close>

definition qoa_inv :: "byte list \<Rightarrow> nat \<Rightarrow> nat \<Rightarrow> int list \<Rightarrow> (nat \<Rightarrow> nat) \<Rightarrow> int list \<Rightarrow> bool" where
  "qoa_inv data ch samples out0 dn out =
     (length out = length out0 \<and> (\<forall>c<ch. \<forall>i<dn c. out ! (i * ch + c) = ref_sample data ch c i)
      \<and> (\<forall>j<length out. samples * ch \<le> j \<longrightarrow> out ! j = out0 ! j))"

lemma cell_less:
  fixes i :: nat
  assumes "i < n" "c < ch"
  shows "i * ch + c < n * ch"
proof -
  have "Suc i * ch \<le> n * ch" using assms(1) by (intro mult_le_mono1) simp
  then show ?thesis using assms(2) by simp
qed

lemma qoa_inv_write:
  assumes "qoa_inv data ch samples out0 dn out" "c < ch" "dn c < samples" "samples * ch \<le> length out0"
  shows "qoa_inv data ch samples out0 (dn(c := Suc (dn c))) (out[dn c * ch + c := ref_sample data ch c (dn c)])"
proof -
  let ?o = "dn c * ch + c"
  have o: "?o < samples * ch" by (rule cell_less [OF assms(3,2)])
  have len: "length out = length out0" using assms(1) by (simp add: qoa_inv_def)
  have "(out[?o := ref_sample data ch c (dn c)]) ! (i * ch + c') = ref_sample data ch c' i"
    if "c' < ch" "i < (dn(c := Suc (dn c))) c'" for c' i
  proof (cases "i * ch + c' = ?o")
    case True
    then show ?thesis using index_inject [OF True that(1) assms(2)] o assms(4) len by simp
  next
    case False
    then have "i < dn c'" using that(2) by (auto split: if_splits simp: less_Suc_eq)
    then show ?thesis using assms(1) that(1) False by (simp add: qoa_inv_def)
  qed
  then show ?thesis using assms(1) o by (simp add: qoa_inv_def)
qed

text \<open>The samples of one slice.\<close>

lemma qoa_samples_ref:
  assumes "c < ch" "samples * ch \<le> length out0" "k0 = 20 * q"
    and dq: "dq = qoa_dequant ! unat (drop_bit 60 slc)"
    and sl: "slc = get_be64 data (8 + 16 * ch + 8 * (q * ch + c))"
  shows "k + n \<le> 20 \<Longrightarrow> dn c = k0 + k \<Longrightarrow> k0 + k + n \<le> samples \<Longrightarrow> qoa_inv data ch samples out0 dn out \<Longrightarrow>
    \<exists>out'. qoa_samples dq ch n (push_bit (4 + 3 * k) slc) ((k0 + k) * ch + c) (ref_state data ch c (k0 + k), out)
      = Some (ref_state data ch c (k0 + k + n), out') \<and> qoa_inv data ch samples out0 (dn(c := k0 + k + n)) out'"
proof (induction n arbitrary: k dn out)
  case 0
  then have "dn(c := k0 + k) = dn" by auto
  then show ?case using 0 by simp
next
  case (Suc n)
  let ?i = "k0 + k"
  let ?out = "out[?i * ch + c := ref_sample data ch c ?i]"
  let ?dn = "dn(c := Suc ?i)"
  have k: "k < 20" using Suc.prems(1) by simp
  have "(k0 + k) div 20 = q" "(k0 + k) mod 20 = k" using assms(3) k by simp_all
  then have res: "dq ! unat (drop_bit 61 (push_bit (4 + 3 * k) slc)) = ref_residual data ch c ?i"
    unfolding ref_residual_def Let_def dq using k by (simp add: slice_field sl)
  have "?i * ch + c < samples * ch" by (rule cell_less [OF _ assms(1)]) (use Suc.prems(3) in simp)
  then have o: "?i * ch + c < length out"
    using Suc.prems(4) assms(2) unfolding qoa_inv_def by linarith
  have inv: "qoa_inv data ch samples out0 ?dn ?out"
    using qoa_inv_write [OF Suc.prems(4) assms(1)] Suc.prems(2,3) assms(2) by simp
  have "\<exists>out'. qoa_samples dq ch n (push_bit (4 + 3 * (k + 1)) slc) ((k0 + (k + 1)) * ch + c)
      (ref_state data ch c (k0 + (k + 1)), ?out) = Some (ref_state data ch c (k0 + (k + 1) + n), out')
    \<and> qoa_inv data ch samples out0 (?dn(c := k0 + (k + 1) + n)) out'"
    by (rule Suc.IH) (use Suc.prems inv in \<open>simp_all add: fun_upd_def\<close>)
  moreover have smp: "qoa_sample (ref_residual data ch c ?i) (ref_state data ch c ?i)
      = (ref_sample data ch c ?i, ref_state data ch c (Suc ?i))"
    by (simp add: ref_sample_def)
  have "push_bit 3 (push_bit (4 + 3 * k) slc) = push_bit (4 + 3 * (k + 1)) slc"
    "?i * ch + c + ch = (k0 + (k + 1)) * ch + c"
    by (simp_all add: push_bit_push_bit algebra_simps)
  then have "qoa_samples dq ch (Suc n) (push_bit (4 + 3 * k) slc) (?i * ch + c) (ref_state data ch c ?i, out)
      = qoa_samples dq ch n (push_bit (4 + 3 * (k + 1)) slc) ((k0 + (k + 1)) * ch + c)
          (ref_state data ch c (k0 + (k + 1)), ?out)"
    using o by (simp add: res smp add_ac del: ref_state.simps)
  moreover have "?dn(c := k0 + (k + 1) + n) = dn(c := ?i + Suc n)" "k0 + (k + 1) + n = ?i + Suc n" by simp_all
  ultimately show ?case by (simp only:)
qed

text \<open>The channels of one slice: channel \<open>c\<close> and those after it still have theirs to come.\<close>

definition slice_done :: "nat \<Rightarrow> nat \<Rightarrow> nat \<Rightarrow> nat \<Rightarrow> nat" where
  "slice_done start len c c' = (if c' < c then start + len else start)"

lemma slice_done_0: "slice_done start len 0 = (\<lambda>_. start)"
  by (simp add: slice_done_def fun_eq_iff)

lemma qoa_channels_ref:
  assumes "start = 20 * q" "len \<le> 20" "start + len \<le> samples" "samples * ch \<le> length out0"
    "8 + 16 * ch + 8 * ((q + 1) * ch) \<le> length data"
  shows "c + n = ch \<Longrightarrow> p = 8 + 16 * ch + 8 * (q * ch + c) \<Longrightarrow> length sts = ch \<Longrightarrow>
    (\<forall>c'<ch. sts ! c' = ref_state data ch c' (slice_done start len c c')) \<Longrightarrow>
    qoa_inv data ch samples out0 (slice_done start len c) out \<Longrightarrow>
    \<exists>sts' out'. qoa_channels data ch start len c n p (sts, out) = Some (sts', out') \<and> length sts' = ch
      \<and> (\<forall>c'<ch. sts' ! c' = ref_state data ch c' (start + len))
      \<and> qoa_inv data ch samples out0 (slice_done start len ch) out'"
proof (induction n arbitrary: c p sts out)
  case 0
  then show ?case by (simp add: slice_done_def)
next
  case (Suc n)
  have c: "c < ch" using Suc.prems(1) by simp
  have "p + 8 \<le> 8 + 16 * ch + 8 * ((q + 1) * ch)" using c unfolding Suc.prems(2) by (simp add: algebra_simps)
  then have p: "p + 8 \<le> length data" using assms(5) by linarith
  let ?slc = "get_be64 data p" and ?dn = "slice_done start len c"
  have st: "sts ! c = ref_state data ch c start" using Suc.prems(4) c by (simp add: slice_done_def)
  obtain out' where o: "qoa_samples (qoa_dequant ! unat (drop_bit 60 ?slc)) ch len (push_bit 4 ?slc)
        (start * ch + c) (ref_state data ch c start, out) = Some (ref_state data ch c (start + len), out')"
      "qoa_inv data ch samples out0 (?dn(c := start + len)) out'"
    using qoa_samples_ref [OF c assms(4,1) refl, of ?slc data 0 len ?dn out] Suc.prems(2,5) assms(2,3)
    by (auto simp: slice_done_def)
  have dn: "?dn(c := start + len) = slice_done start len (c + 1)"
    by (auto simp: slice_done_def less_Suc_eq fun_eq_iff)
  let ?sts = "sts[c := ref_state data ch c (start + len)]"
  have "\<exists>sts' out''. qoa_channels data ch start len (c + 1) n (p + 8) (?sts, out') = Some (sts', out'')
      \<and> length sts' = ch \<and> (\<forall>c'<ch. sts' ! c' = ref_state data ch c' (start + len))
      \<and> qoa_inv data ch samples out0 (slice_done start len ch) out''"
  proof (rule Suc.IH)
    show "\<forall>c'<ch. ?sts ! c' = ref_state data ch c' (slice_done start len (c + 1) c')"
      using Suc.prems(3,4) by (auto simp: slice_done_def nth_list_update less_Suc_eq)
    show "qoa_inv data ch samples out0 (slice_done start len (c + 1)) out'" using o(2) unfolding dn .
  qed (use Suc.prems in simp_all)
  then show ?case using p o(1) by (simp add: Let_def st)
qed

lemma qoa_slices_ref:
  assumes "samples * ch \<le> length out0" "8 + 16 * ch + 8 * ((samples + 19) div 20 * ch) \<le> length data"
  shows "start = 20 * q \<Longrightarrow> p = 8 + 16 * ch + 8 * (q * ch) \<Longrightarrow> length sts = ch \<Longrightarrow>
    (start < samples \<longrightarrow> (\<forall>c<ch. sts ! c = ref_state data ch c start)) \<Longrightarrow>
    qoa_inv data ch samples out0 (\<lambda>_. min start samples) out \<Longrightarrow>
    \<exists>sts' out'. qoa_slices data ch samples start p (sts, out) = Some (sts', out')
      \<and> qoa_inv data ch samples out0 (\<lambda>_. samples) out'"
proof (induction "samples - start" arbitrary: q start p sts out rule: less_induct)
  case less
  show ?case
  proof (cases "start < samples")
    case False
    then have m: "min start samples = samples" by simp
    show ?thesis using less.prems(5) False unfolding m by (subst qoa_slices.simps) simp
  next
    case True
    define len where "len = (if samples - start < 20 then samples - start else 20)"
    have len: "len \<le> 20" "start + len \<le> samples" "min (start + 20) samples = start + len"
      using True by (auto simp: len_def)
    have "q + 1 \<le> (samples + 19) div 20" using True less.prems(1) by simp
    then have "(q + 1) * ch \<le> (samples + 19) div 20 * ch" by (rule mult_le_mono1)
    then have room: "8 + 16 * ch + 8 * ((q + 1) * ch) \<le> length data" using assms(2) by linarith
    have st: "\<forall>c<ch. sts ! c = ref_state data ch c (slice_done start len 0 c)"
      using less.prems(4) True by (simp add: slice_done_def)
    have inv: "qoa_inv data ch samples out0 (slice_done start len 0) out"
      using less.prems(5) True by (simp add: slice_done_0 min_def)
    obtain sts' out' where s: "qoa_channels data ch start len 0 ch p (sts, out) = Some (sts', out')" "length sts' = ch"
      "\<forall>c<ch. sts' ! c = ref_state data ch c (start + len)"
      "qoa_inv data ch samples out0 (slice_done start len ch) out'"
      using qoa_channels_ref [OF less.prems(1) len(1,2) assms(1) room, of 0 ch p sts out] st inv less.prems(2,3)
      by auto
    have "\<exists>sts'' out''. qoa_slices data ch samples (start + 20) (p + 8 * ch) (sts', out') = Some (sts'', out'')
      \<and> qoa_inv data ch samples out0 (\<lambda>_. samples) out''"
    proof (rule less.hyps [where q = "q + 1"])
      show "start + 20 < samples \<longrightarrow> (\<forall>c<ch. sts' ! c = ref_state data ch c (start + 20))"
        using s(3) by (auto simp: len_def split: if_splits)
      show "qoa_inv data ch samples out0 (\<lambda>_. min (start + 20) samples) out'"
        using s(4) unfolding len(3) by (simp add: qoa_inv_def slice_done_def)
    qed (use True less.prems s(2) in \<open>simp_all add: algebra_simps\<close>)
    moreover have "qoa_slices data ch samples start p (sts, out)
        = qoa_slices data ch samples (start + 20) (p + 8 * ch) (sts', out')"
      unfolding qoa_slices.simps [of data ch samples start] if_P [OF True] Let_def QOA_SLICE_LEN_def
        len_def [symmetric] s(1) by simp
    ultimately show ?thesis by simp
  qed
qed



section \<open>Ranges\<close>

text \<open>After \<open>i\<close> samples: the history in 16 bits, each weight within \<open>2 ^ 15 + 896 i\<close>.\<close>

definition lms_ok :: "nat \<Rightarrow> lms \<Rightarrow> bool" where
  "lms_ok i s = (case s of (h, w) \<Rightarrow> length h = 4 \<and> length w = 4
     \<and> (\<forall>k<4. -32768 \<le> h ! k \<and> h ! k \<le> 32767) \<and> (\<forall>k<4. \<bar>w ! k\<bar> \<le> 32768 + 896 * int i))"

lemma get_s16_range: "-32768 \<le> get_s16 p i \<and> get_s16 p i \<le> 32767"
  unfolding get_s16_def
  using sint_ge [of "ucast (be16 p i) :: 16 word"] sint_lt [of "ucast (be16 p i) :: 16 word"] by simp

lemma all4: "(\<forall>k<4. P k) = (P 0 \<and> P 1 \<and> P 2 \<and> P (3::nat))"
  by (auto simp: less_Suc_eq numeral_eq_Suc)

lemma lms_ok_init: "lms_ok 0 (qoa_state data c)"
proof -
  have "\<bar>get_s16 data j\<bar> \<le> 32768" for j using get_s16_range [of data j] by linarith
  then show ?thesis by (simp add: lms_ok_def qoa_state_def get_s16_range)
qed

lemma dequant_range: "r \<in> set qoa_dequant \<Longrightarrow> v \<in> set r \<Longrightarrow> -14336 \<le> v \<and> v \<le> 14336"
  by (auto simp: qoa_dequant_def)

lemma residual_range: "-14336 \<le> ref_residual data ch c i \<and> ref_residual data ch c i \<le> 14336"
proof -
  have rows: "length qoa_dequant = 16" "\<forall>r \<in> set qoa_dequant. length r = 8" by (simp_all add: qoa_dequant_def)
  have a: "unat (drop_bit 60 (s :: 64 word)) < 16" for s
    using take_bit_nat_less_exp [of 64 "unat s"] by (simp add: unsigned_drop_bit_eq drop_bit_nat_def less_mult_imp_div_less)
  have b: "unat (take_bit 3 (s :: 64 word)) < 8" for s
    by (simp add: unsigned_take_bit_eq take_bit_nat_def)
  let ?s = "get_be64 data (8 + 16 * ch + 8 * (i div 20 * ch + c))"
  have row: "qoa_dequant ! unat (drop_bit 60 ?s) \<in> set qoa_dequant" using a rows by (intro nth_mem) simp
  have "ref_residual data ch c i \<in> set (qoa_dequant ! unat (drop_bit 60 ?s))"
    unfolding ref_residual_def Let_def using rows row b by (intro nth_mem) simp
  then show ?thesis using dequant_range row by blast
qed

lemma lms_ok_step:
  assumes "lms_ok i s" "-14336 \<le> v" "v \<le> 14336"
  shows "lms_ok (Suc i) (snd (qoa_sample v s)) \<and> -32768 \<le> fst (qoa_sample v s) \<and> fst (qoa_sample v s) \<le> 32767"
proof -
  obtain h w where s: "s = (h, w)" by (cases s)
  have d: "- 896 \<le> v div 16" "v div 16 \<le> 896" using assms(2,3) by linarith+
  have upd: "\<bar>x + (if b then - (v div 16) else v div 16)\<bar> \<le> 32768 + 896 * int (Suc i)"
    if "\<bar>x\<bar> \<le> 32768 + 896 * int i" for x b
    using that d by (cases b) (simp_all add: abs_le_iff)
  have l: "length h = 4" "length w = 4"
    and h: "-32768 \<le> h ! 0 \<and> h ! 0 \<le> 32767" "-32768 \<le> h ! 1 \<and> h ! 1 \<le> 32767"
      "-32768 \<le> h ! 2 \<and> h ! 2 \<le> 32767" "-32768 \<le> h ! 3 \<and> h ! 3 \<le> 32767"
    and w: "\<bar>w ! 0\<bar> \<le> 32768 + 896 * int i" "\<bar>w ! 1\<bar> \<le> 32768 + 896 * int i"
      "\<bar>w ! 2\<bar> \<le> 32768 + 896 * int i" "\<bar>w ! 3\<bar> \<le> 32768 + 896 * int i"
    using assms(1) unfolding s lms_ok_def by (simp_all add: all4)
  obtain r where e: "qoa_sample v (h, w) = (r, [h ! 1, h ! 2, h ! 3, r],
      map (\<lambda>i. w ! i + (if h ! i < 0 then - (v div 16) else v div 16)) [0, 1, 2, 3])"
    "-32768 \<le> r" "r \<le> 32767"
    unfolding qoa_sample_def Let_def by (simp split: if_splits)
  show ?thesis
    unfolding s e(1) lms_ok_def using e(2,3) h upd [OF w(1)] upd [OF w(2)] upd [OF w(3)] upd [OF w(4)]
    by (simp add: all4)
qed

lemma ref_state_ok: "lms_ok i (ref_state data ch c i)"
  by (induction i) (use lms_ok_init lms_ok_step residual_range in auto)

text \<open>
  In a frame the integers of the decoder are those of the code: before each of its 5120 samples the
  history of a channel is in 16 bits and its weights in 32, the products add up within 64 bits and the sample
  that comes out is in 16.
\<close>
theorem lms_range:
  assumes "i < 5120" "ref_state data channels c i = (h, w)"
  shows "(\<forall>x \<in> set h. -32768 \<le> x \<and> x \<le> 32767) \<and> (\<forall>x \<in> set w. - (2 ^ 31) \<le> x \<and> x < 2 ^ 31)
    \<and> - (2 ^ 63) \<le> qoa_predict (h, w) \<and> qoa_predict (h, w) < 2 ^ 63
    \<and> -32768 \<le> ref_sample data channels c i \<and> ref_sample data channels c i \<le> 32767"
proof -
  have ok: "lms_ok i (h, w)" using ref_state_ok [of i data channels c] assms(2) by simp
  have small: "32768 + 896 * int i \<le> 2 ^ 23" using assms(1) by simp
  have hb: "\<bar>h ! k\<bar> \<le> 32768" and wb: "\<bar>w ! k\<bar> \<le> 2 ^ 23" if "k < 4" for k
    using ok that small unfolding lms_ok_def by (force simp: abs_le_iff)+
  have "\<bar>w ! k * h ! k\<bar> \<le> 2 ^ 38" if "k < 4" for k
    using mult_mono [OF wb [OF that] hb [OF that]] by (simp add: abs_mult)
  then have "\<bar>w ! 0 * h ! 0\<bar> \<le> 2 ^ 38" "\<bar>w ! 1 * h ! 1\<bar> \<le> 2 ^ 38" "\<bar>w ! 2 * h ! 2\<bar> \<le> 2 ^ 38"
    "\<bar>w ! 3 * h ! 3\<bar> \<le> 2 ^ 38" by simp_all
  then have p: "- (2 ^ 63) \<le> qoa_predict (h, w) \<and> qoa_predict (h, w) < 2 ^ 63"
    unfolding qoa_predict_def by (simp add: abs_le_iff)
  have "\<forall>x \<in> set h. -32768 \<le> x \<and> x \<le> 32767"
    using ok unfolding lms_ok_def by (auto simp: in_set_conv_nth)
  moreover have "\<forall>x \<in> set w. - (2 ^ 31) \<le> x \<and> x < 2 ^ 31"
  proof
    fix x assume "x \<in> set w"
    then obtain k where "k < 4" "x = w ! k" using ok unfolding lms_ok_def by (auto simp: in_set_conv_nth)
    then show "- (2 ^ 31) \<le> x \<and> x < 2 ^ 31" using wb [of k] by (simp add: abs_le_iff)
  qed
  ultimately show ?thesis
    using p lms_ok_step [OF ref_state_ok residual_range [THEN conjunct1] residual_range [THEN conjunct2]]
    unfolding ref_sample_def by blast
qed

theorem lms_range_witness:
  "\<exists>h w. (\<forall>x \<in> set h. -32768 \<le> x \<and> x \<le> 32767) \<and> (\<forall>x \<in> set w. - (2 ^ 31) \<le> x \<and> x < 2 ^ 31)
    \<and> - (2 ^ 63) \<le> qoa_predict (h, w) \<and> qoa_predict (h, w) < 2 ^ 63
    \<and> -32768 \<le> ref_sample (replicate 40 0x80) 1 0 3 \<and> ref_sample (replicate 40 0x80) 1 0 3 \<le> 32767"
  using lms_range [of 3 "replicate 40 0x80" 1 0] by (cases "ref_state (replicate 40 0x80) 1 0 3") auto

end
