(* ===== verification/Wlan.thy ===== *)
theory Wlan
  imports KeyWrap Hmac "HOL-Library.Monad_Syntax"
begin

text \<open>
  The WPA2 station of \<open>wlan.h\<close>, first half: its state, the frames it sends and the keys it loads
  into the chip. The driver below it (\<open>rtl8188.h\<close>, \<open>ehci.h\<close>) is the list \<open>w_radio\<close> of the calls
  made to it, in order, with their answers taken from the environment \<open>wenv\<close>: what is on the stack
  under the hash contexts, the cycle counter at its \<open>n\<close>-th reading, the results of the bulk transfers
  and of a register read. Messages on the console are left out.
\<close>

section \<open>State\<close>

datatype wstate = S_SCAN | S_AUTH | S_ASSOC | S_4WAY | S_DONE | S_FAIL | S_IDLE | S_SCANALL

datatype wsec = WLAN_OPEN | WLAN_WEP_WPA1 | WLAN_WPA2_PSK | WLAN_RSN_OTHER

datatype radio =
    Tx_mgmt "byte list"
  | Bulk_out nat "byte list"
  | Wr8 u32 u32
  | Wr16 u32 u32
  | Wr32 u32 u32
  | Set_channel nat
  | Set_tx_power nat
  | Set_mac "byte list"
  | Enable_rf

record wenv =
  stk :: sha1
  stk_hmac :: hmac_sha1
  cycles :: "nat \<Rightarrow> u32"
  bulk_res :: "radio list \<Rightarrow> int"
  reg16 :: "radio list \<Rightarrow> u32 \<Rightarrow> u32"

text \<open>What \<open>wlan_scan_cb\<close> was called with: name, address, channel, signal and security.\<close>

type_synonym scan_result = "byte list \<times> byte list \<times> nat \<times> int \<times> wsec"

text \<open>What \<open>wlan_rx_cb\<close> was called with: destination, source, type and data.\<close>

type_synonym rx_frame = "byte list \<times> byte list \<times> u32 \<times> byte list"

record wlan =
  w_scan_cb :: bool
  w_scans :: "scan_result list"
  w_frame_rssi :: int
  w_rssi :: int
  w_ap_seen :: nat
  w_rekeys :: nat
  w_mac :: "byte list"
  w_bssid :: "byte list"
  w_seq :: u32
  w_state :: wstate
  w_ap_channel :: nat
  w_ssid :: "byte list"
  w_psk :: "byte list"
  w_ap_rates :: "byte list"
  w_ap_xrates :: "byte list"
  w_rsn_ok :: bool
  w_keys_on :: bool
  w_data_be :: bool
  w_data_rate :: u32
  w_pn :: u32
  w_rx_frames :: nat
  w_rx_data :: nat
  w_rx_undecrypted :: nat
  w_tx_data :: nat
  w_rx_max :: nat
  w_pmk :: "byte list"
  w_ptk :: "byte list"
  w_anonce :: "byte list"
  w_snonce :: "byte list"
  w_gtk :: "byte list"
  w_gtk_len :: nat
  w_gtk_id :: u32
  w_kd :: "byte list"
  w_inv_sbox :: "byte list"
  w_rx_cb :: bool
  w_got :: "rx_frame list"
  w_radio :: "radio list"
  w_now :: nat
  w_readings :: nat

definition rsn_ie :: "byte list" where
  "rsn_ie = [0x30, 20, 0x01, 0x00,
     0x00, 0x0f, 0xac, 0x04,
     0x01, 0x00, 0x00, 0x0f, 0xac, 0x04,
     0x01, 0x00, 0x00, 0x0f, 0xac, 0x02,
     0x00, 0x00]"

definition radio_do :: "radio \<Rightarrow> wlan \<Rightarrow> wlan" where
  "radio_do r s = s\<lparr>w_radio := w_radio s @ [r]\<rparr>"

section \<open>Frames out\<close>

text \<open>Four bytes of a descriptor word, the low one first; and back, as \<open>le32\<close> of \<open>wlan.h\<close> does.\<close>

definition word_bytes :: "u32 \<Rightarrow> byte list" where
  "word_bytes w = [ucast w, ucast (drop_bit 8 w), ucast (drop_bit 16 w), ucast (drop_bit 24 w)]"

definition le32 :: "byte list \<Rightarrow> nat \<Rightarrow> u32" where
  "le32 p i = ucast (p ! i) OR push_bit 8 (ucast (p ! (i + 1))) OR push_bit 16 (ucast (p ! (i + 2)))
     OR push_bit 24 (ucast (p ! (i + 3)))"

text \<open>The 24-byte header of an 802.11 frame.\<close>

definition hdr80211 :: "u32 \<Rightarrow> byte list \<Rightarrow> byte list \<Rightarrow> byte list \<Rightarrow> wlan \<Rightarrow> byte list \<times> wlan" where
  "hdr80211 fc a1 a2 a3 s =
     ([ucast fc, ucast (drop_bit 8 fc), 0, 0] @ a1 @ a2 @ a3
        @ [ucast (push_bit 4 (w_seq s) AND 0xff), ucast (drop_bit 8 (push_bit 4 (w_seq s)))],
      s\<lparr>w_seq := (w_seq s + 1) AND 0xfff\<rparr>)"

text \<open>The transmit descriptor before its checksum, the checksum over its first 32 bytes.\<close>

definition tx_desc :: "byte list \<Rightarrow> bool \<Rightarrow> u32 \<Rightarrow> bool \<Rightarrow> byte list" where
  "tx_desc frame sec rate be =
     [ucast (of_nat (length frame) AND 0xff :: u32), ucast (drop_bit 8 (of_nat (length frame) :: u32)), 40,
      (0x80 OR 0x08 OR 0x04) OR (if frame ! 4 AND 1 \<noteq> 0 then 0x01 else 0)]
     @ word_bytes (push_bit 8 (if be then 0x00 else 0x12) OR (if sec then 0x00c00000 else 0))
     @ word_bytes (push_bit 16 1) @ word_bytes (push_bit 8 1)
     @ word_bytes ((rate AND 0x7f) OR push_bit 18 6 OR push_bit 17 1)
     @ replicate 16 0
     @ word_bytes (push_bit 12 (drop_bit 4 (ucast (frame ! 22) OR push_bit 8 (ucast (frame ! 23)))))"

definition tx_csum :: "byte list \<Rightarrow> u32" where
  "tx_csum d = fold (\<lambda>i c. c XOR (ucast (d ! (2 * i)) OR push_bit 8 (ucast (d ! (2 * i + 1))))) [0..<16] 0"

definition wlan_tx :: "wenv \<Rightarrow> byte list \<Rightarrow> bool \<Rightarrow> u32 \<Rightarrow> wlan \<Rightarrow> int \<times> wlan" where
  "wlan_tx e frame sec rate s =
     (if length frame > 2048 then (-1, s)
      else
        (let d = tx_desc frame sec rate (w_data_be s); c = tx_csum d;
             s' = radio_do (Bulk_out (if w_data_be s then 0x03 else 0x02)
                    (d[28 := ucast (c AND 0xff), 29 := ucast (drop_bit 8 c)] @ frame)) s
         in (bulk_res e (w_radio s'), s')))"

text \<open>The CCMP header: the packet number and key id 0.\<close>

definition ccmp_header :: "u32 \<Rightarrow> byte list" where
  "ccmp_header pn = [ucast pn, ucast (drop_bit 8 pn), 0, 0x20, ucast (drop_bit 16 pn), ucast (drop_bit 24 pn), 0, 0]"

definition wlan_send :: "wenv \<Rightarrow> byte list \<Rightarrow> u32 \<Rightarrow> byte list \<Rightarrow> wlan \<Rightarrow> int \<times> wlan" where
  "wlan_send e dst type data s =
     (case hdr80211 (if w_keys_on s then 0x4108 else 0x0108) (w_bssid s) (w_mac s) dst s of (h, s1) \<Rightarrow>
        if length data > 1500 then (-1, s1)
        else
          (let (c, s2) = (if w_keys_on s1 then (ccmp_header (w_pn s1), s1\<lparr>w_pn := w_pn s1 + 1\<rparr>) else ([], s1))
           in wlan_tx e (h @ c @ [0xaa, 0xaa, 0x03, 0, 0, 0] @ put_be16 type @ data) (w_keys_on s2)
                (w_data_rate s2) (s2\<lparr>w_tx_data := w_tx_data s2 + 1\<rparr>)))"

definition probe_rates :: "byte list" where
  "probe_rates = [0x01, 0x08, 0x82, 0x84, 0x8b, 0x96, 0x0c, 0x12, 0x18, 0x24,
     0x32, 0x04, 0x30, 0x48, 0x60, 0x6c]"

definition send_probe_for :: "byte list \<Rightarrow> wlan \<Rightarrow> wlan" where
  "send_probe_for name s =
     (case hdr80211 0x0040 bcast (w_mac s) bcast s of (h, s1) \<Rightarrow>
        radio_do (Tx_mgmt (h @ [0, of_nat (length name)] @ name @ probe_rates)) s1)"

definition send_probe :: "wlan \<Rightarrow> wlan" where
  "send_probe s = send_probe_for (w_ssid s) s"

definition send_deauth :: "wlan \<Rightarrow> wlan" where
  "send_deauth s =
     (case hdr80211 0x00c0 (w_bssid s) (w_mac s) (w_bssid s) s of (h, s1) \<Rightarrow>
        radio_do (Tx_mgmt (h @ [3, 0])) s1)"

definition send_auth :: "wlan \<Rightarrow> wlan" where
  "send_auth s =
     (case hdr80211 0x00b0 (w_bssid s) (w_mac s) (w_bssid s) s of (h, s1) \<Rightarrow>
        radio_do (Tx_mgmt (h @ [0, 0, 1, 0, 0, 0])) s1)"

text \<open>The element \<open>ap_rates\<close> or \<open>ap_xrates\<close> with its length byte.\<close>

definition rates_ie :: "byte list \<Rightarrow> byte list" where
  "rates_ie r = take (2 + unat (r ! 1)) r"

definition send_assoc :: "wlan \<Rightarrow> wlan" where
  "send_assoc s =
     (case hdr80211 0x0000 (w_bssid s) (w_mac s) (w_bssid s) s of (h, s1) \<Rightarrow>
        radio_do (Tx_mgmt (h @ [0x31, 0x04, 10, 0, 0, of_nat (length (w_ssid s))] @ w_ssid s
          @ rates_ie (w_ap_rates s) @ (if w_ap_xrates s ! 1 \<noteq> 0 then rates_ie (w_ap_xrates s) else [])
          @ rsn_ie)) s1)"

section \<open>Keys\<close>

definition EK_INFO :: nat where "EK_INFO = 5"
definition EK_REPLAY :: nat where "EK_REPLAY = 9"
definition EK_NONCE :: nat where "EK_NONCE = 17"
definition EK_MIC :: nat where "EK_MIC = 81"
definition EK_DLEN :: nat where "EK_DLEN = 97"
definition EK_DATA :: nat where "EK_DATA = 99"
definition KI_VER2 :: u32 where "KI_VER2 = 0x0002"
definition KI_PAIRWISE :: u32 where "KI_PAIRWISE = 0x0008"
definition KI_INSTALL :: u32 where "KI_INSTALL = 0x0040"
definition KI_ACK :: u32 where "KI_ACK = 0x0080"
definition KI_MIC :: u32 where "KI_MIC = 0x0100"
definition KI_SECURE :: u32 where "KI_SECURE = 0x0200"
definition KI_ENC :: u32 where "KI_ENC = 0x1000"

text \<open>\<open>hmac_sha1 (key, 16, ...)\<close>, which the code calls with a stack of any content.\<close>

definition mac_of :: "wenv \<Rightarrow> byte list \<Rightarrow> byte list \<Rightarrow> byte list option" where
  "mac_of e key d = hmac_sha1_mac (stk e) (stk_hmac e) key d"

text \<open>The EAPOL-Key frame of \<open>send_eapol\<close> with a zero MIC; a null nonce is \<open>None\<close>.\<close>

definition eapol_key :: "u32 \<Rightarrow> byte list \<Rightarrow> byte list option \<Rightarrow> byte list \<Rightarrow> byte list" where
  "eapol_key info replay nonce data =
     [2, 3] @ put_be16 (of_nat (EK_DATA + length data) - 4) @ [2] @ put_be16 info @ [0, 0] @ replay
       @ (case nonce of None \<Rightarrow> replicate 32 0 | Some n \<Rightarrow> n) @ replicate 48 0
       @ put_be16 (of_nat (length data)) @ data"

definition llc_eapol :: "byte list" where
  "llc_eapol = [0xaa, 0xaa, 0x03, 0, 0, 0, 0x88, 0x8e]"

definition send_eapol
  :: "wenv \<Rightarrow> u32 \<Rightarrow> byte list \<Rightarrow> byte list option \<Rightarrow> byte list \<Rightarrow> wlan \<Rightarrow> wlan option" where
  "send_eapol e info replay nonce data s =
     (case hdr80211 0x0108 (w_bssid s) (w_mac s) (w_bssid s) s of (h, s1) \<Rightarrow>
        do {
          mic \<leftarrow> mac_of e (take 16 (w_ptk s)) (eapol_key info replay nonce data);
          let f = put_slice EK_MIC (take 16 mic) (eapol_key info replay nonce data);
          Some (if w_keys_on s1 then snd (wlan_send e (w_bssid s1) 0x888e f s1)
                else radio_do (Tx_mgmt (h @ llc_eapol @ f)) s1)
        })"

fun memcmp_bytes :: "byte list \<Rightarrow> byte list \<Rightarrow> int" where
  "memcmp_bytes (x # xs) (y # ys) = (if x \<noteq> y then int (unat x) - int (unat y) else memcmp_bytes xs ys)"
| "memcmp_bytes xs ys = 0"

definition ptk_data :: "wlan \<Rightarrow> byte list" where
  "ptk_data s =
     (if memcmp_bytes (w_bssid s) (w_mac s) < 0 then w_bssid s @ w_mac s else w_mac s @ w_bssid s)
     @ (if memcmp_bytes (w_anonce s) (w_snonce s) < 0 then w_anonce s @ w_snonce s else w_snonce s @ w_anonce s)"

text \<open>The bytes of ``Pairwise key expansion''.\<close>

definition ptk_label :: "byte list" where
  "ptk_label = [0x50, 0x61, 0x69, 0x72, 0x77, 0x69, 0x73, 0x65, 0x20, 0x6b, 0x65, 0x79, 0x20,
     0x65, 0x78, 0x70, 0x61, 0x6e, 0x73, 0x69, 0x6f, 0x6e]"

definition derive_ptk :: "wenv \<Rightarrow> wlan \<Rightarrow> wlan option" where
  "derive_ptk e s =
     do {
       k \<leftarrow> wpa_prf (stk e) (stk_hmac e) (w_pmk s) ptk_label (ptk_data s) 48;
       Some (s\<lparr>w_ptk := k\<rparr>)
     }"

text \<open>\<open>mic_ok\<close> on the first \<open>elen\<close> bytes of the frame; the MIC it clears is put back afterwards.\<close>

definition mic_ok :: "wenv \<Rightarrow> byte list \<Rightarrow> nat \<Rightarrow> wlan \<Rightarrow> bool option" where
  "mic_ok e f elen s =
     do {
       mic \<leftarrow> mac_of e (take 16 (w_ptk s)) (take elen (put_slice EK_MIC (replicate 16 0) f));
       Some (slice EK_MIC 16 f = take 16 mic)
     }"

text \<open>\<open>find_gtk\<close>: the buffer \<open>k\<close> is the 256 bytes of \<open>kd\<close>, of which \<open>n\<close> are the key data. A read
  past the buffer is \<open>None\<close>.\<close>

definition is_gtk_kde :: "byte list \<Rightarrow> nat \<Rightarrow> bool option" where
  "is_gtk_kde k i =
     (if k ! i \<noteq> 0xdd \<or> unat (k ! (i + 1)) < 6 then Some False
      else do {
        a \<leftarrow> rd8 k (i + 2);
        if a \<noteq> 0x00 then Some False else do {
        b \<leftarrow> rd8 k (i + 3);
        if b \<noteq> 0x0f then Some False else do {
        c \<leftarrow> rd8 k (i + 4);
        if c \<noteq> 0xac then Some False else do {
        d \<leftarrow> rd8 k (i + 5);
        Some (d = 0x01 \<and> unat (k ! (i + 1)) - 6 \<le> 32) }}}})"

definition take_gtk :: "byte list \<Rightarrow> nat \<Rightarrow> wlan \<Rightarrow> wlan option" where
  "take_gtk k i s =
     do {
       d \<leftarrow> rd8 k (i + 6);
       let n = unat (k ! (i + 1)) - 6;
       if i + 8 + n \<le> length k
       then Some (s\<lparr>w_gtk_id := ucast d AND 3, w_gtk_len := n, w_gtk := slice (i + 8) n k @ drop n (w_gtk s)\<rparr>)
       else None
     }"

function find_gtk :: "byte list \<Rightarrow> nat \<Rightarrow> nat \<Rightarrow> wlan \<Rightarrow> wlan option" where
  "find_gtk k n i s =
     (if i + 2 \<le> n
      then (case is_gtk_kde k i of
              None \<Rightarrow> None
            | Some kde \<Rightarrow>
                (case (if kde then take_gtk k i s else Some s) of
                   None \<Rightarrow> None
                 | Some s' \<Rightarrow>
                     if k ! i = 0xdd \<and> k ! (i + 1) = 0 then Some s'
                     else find_gtk k n (i + 2 + unat (k ! (i + 1))) s'))
      else Some s)"
  by pat_completeness auto
termination
  by (relation "measure (\<lambda>(k, n, i, s). n - i)") auto

declare find_gtk.simps [simp del]

definition read_cycles :: "wenv \<Rightarrow> wlan \<Rightarrow> u32 \<times> wlan" where
  "read_cycles e s = (cycles e (w_readings s), s\<lparr>w_readings := w_readings s + 1\<rparr>)"

definition new_snonce :: "wenv \<Rightarrow> wlan \<Rightarrow> wlan option" where
  "new_snonce e s =
     (let (c, s1) = read_cycles e s; (c', s2) = read_cycles e s1;
          pre = take 16 (w_pmk s) @ w_mac s @ word_bytes c
      in do {
        h \<leftarrow> mac_of e (take 16 (drop 16 (w_pmk s))) (pre @ [1]);
        h' \<leftarrow> mac_of e (take 16 (drop 16 (w_pmk s))) (pre @ [2, ucast c']);
        Some (s2\<lparr>w_snonce := h @ take 12 h'\<rparr>)
      })"

section \<open>The key table of the chip\<close>

definition cam_word :: "byte list \<Rightarrow> u32 \<Rightarrow> bool \<Rightarrow> byte list \<Rightarrow> nat \<Rightarrow> u32" where
  "cam_word bssid keyid grp key j =
     (if j = 0 then
        (push_bit 2 4 OR keyid OR push_bit 15 1 OR (if grp then push_bit 6 1 else 0))
          OR push_bit 16 (ucast (bssid ! 0)) OR push_bit 24 (ucast (bssid ! 1))
      else if j = 1 then le32 bssid 2
      else le32 key ((j - 2) * 4))"

definition cam_write :: "u32 \<Rightarrow> u32 \<Rightarrow> bool \<Rightarrow> byte list \<Rightarrow> wlan \<Rightarrow> wlan" where
  "cam_write entry keyid grp key s =
     fold (\<lambda>j s. radio_do (Wr32 0x0670 (push_bit 31 1 OR push_bit 16 1 OR (push_bit 3 entry + of_nat j)))
             (radio_do (Wr32 0x0674 (cam_word (w_bssid s) keyid grp key j)) s)) [5, 4, 3, 2, 1, 0] s"

definition wlan_install_keys :: "wenv \<Rightarrow> wlan \<Rightarrow> wlan" where
  "wlan_install_keys e s =
     (let s1 = cam_write 0 0 False (drop 32 (w_ptk s)) (radio_do (Wr32 0x0670 (push_bit 31 1 OR push_bit 30 1)) s);
          s2 = (if w_gtk_len s1 \<ge> 16 \<and> w_gtk_id s1 \<noteq> 0
                then cam_write (w_gtk_id s1) (w_gtk_id s1) True (w_gtk s1) s1 else s1);
          s3 = radio_do (Wr16 0x0100 (reg16 e (w_radio s2) 0x0100 OR push_bit 9 1)) s2
      in (radio_do (Wr8 0x0680 0xcf) s3)\<lparr>w_keys_on := True\<rparr>)"

definition wlan_keys_off :: "wlan \<Rightarrow> wlan" where
  "wlan_keys_off s =
     (if w_keys_on s
      then (radio_do (Wr32 0x0670 (push_bit 31 1 OR push_bit 30 1)) (radio_do (Wr8 0x0680 0) s))\<lparr>w_keys_on := False\<rparr>
      else s)"

end
