(* ===== verification/WlanRx.thy ===== *)
theory WlanRx
  imports Wlan
begin

text \<open>
  The WPA2 station of \<open>wlan.h\<close>, second half: received frames (\<open>handle_eapol\<close>, \<open>handle_data\<close>,
  \<open>handle_frame\<close>, \<open>handle_rx\<close>), scanning and joining. A frame is the list of its bytes; a read behind its
  last byte is \<open>None\<close>. What the antenna hears is the list of the rounds of the receive loop, each
  with the milliseconds it takes and the buffers that are ready in it; after its end there is silence.
\<close>

section \<open>The 4-way handshake and the group key\<close>

text \<open>What \<open>aes_unwrap\<close> leaves in its output buffer, accepted or not.\<close>

definition unwrap_out :: "byte list \<Rightarrow> byte list \<Rightarrow> byte list \<Rightarrow> nat \<Rightarrow> byte list" where
  "unwrap_out tab kek inp n =
     snd (snd (fold (unwrap_step (aes128_key kek) n) (rev (wrap_order n))
       (tab, take 8 inp, take (8 * n) (drop 8 inp))))"

text \<open>The key data of a message: skipped unless it is encrypted and of a length that fits.\<close>

definition key_data_fits :: "u32 \<Rightarrow> nat \<Rightarrow> bool" where
  "key_data_fits info dlen = (info AND KI_ENC \<noteq> 0 \<and> dlen \<ge> 24 \<and> dlen \<le> 256 + 8 \<and> dlen AND 7 = 0)"

definition unwrap_key_data :: "byte list \<Rightarrow> nat \<Rightarrow> wlan \<Rightarrow> (bool \<times> wlan) option" where
  "unwrap_key_data f dlen s =
     (if EK_DATA + dlen > length f then None
      else
        (let kek = slice 16 16 (w_ptk s); inp = slice EK_DATA dlen f; n = dlen div 8 - 1;
             (tab, r) = aes_unwrap (w_inv_sbox s) kek inp n
         in Some (r \<noteq> None, s\<lparr>w_inv_sbox := tab,
                    w_kd := unwrap_out (w_inv_sbox s) kek inp n @ drop (8 * n) (w_kd s)\<rparr>)))"

definition group_message :: "wenv \<Rightarrow> byte list \<Rightarrow> nat \<Rightarrow> u32 \<Rightarrow> nat \<Rightarrow> wlan \<Rightarrow> wlan option" where
  "group_message e f elen info dlen s =
     do {
       ok \<leftarrow> mic_ok e f elen s;
       if \<not> ok then Some s
       else do {
         s1 \<leftarrow> (if key_data_fits info dlen
                then do {
                  (good, s1) \<leftarrow> unwrap_key_data f dlen s;
                  if good
                  then do {
                    s2 \<leftarrow> find_gtk (w_kd s1) (dlen - 8) 0 (s1\<lparr>w_gtk_len := 0\<rparr>);
                    Some (if w_gtk_len s2 \<ge> 16 \<and> w_gtk_id s2 \<noteq> 0 \<and> w_keys_on s2
                          then cam_write (w_gtk_id s2) (w_gtk_id s2) True (w_gtk s2) s2 else s2)
                  }
                  else Some s1
                }
                else Some s);
         s2 \<leftarrow> send_eapol e (KI_VER2 OR KI_MIC OR KI_SECURE) (slice EK_REPLAY 8 f) None [] s1;
         Some (s2\<lparr>w_rekeys := w_rekeys s2 + 1\<rparr>)
       }
     }"

definition message_1 :: "wenv \<Rightarrow> byte list \<Rightarrow> wlan \<Rightarrow> wlan option" where
  "message_1 e f s =
     do {
       s1 \<leftarrow> (if w_keys_on s then new_snonce e s else Some s);
       s2 \<leftarrow> derive_ptk e (s1\<lparr>w_anonce := slice EK_NONCE 32 f\<rparr>);
       send_eapol e (KI_VER2 OR KI_PAIRWISE OR KI_MIC) (slice EK_REPLAY 8 f) (Some (w_snonce s2)) rsn_ie s2
     }"

definition message_3 :: "wenv \<Rightarrow> byte list \<Rightarrow> nat \<Rightarrow> u32 \<Rightarrow> nat \<Rightarrow> wlan \<Rightarrow> wlan option" where
  "message_3 e f elen info dlen s =
     do {
       ok \<leftarrow> mic_ok e f elen s;
       if \<not> ok then Some (s\<lparr>w_state := S_FAIL\<rparr>)
       else do {
         s1 \<leftarrow> (if key_data_fits info dlen
                then do {
                  (good, s1) \<leftarrow> unwrap_key_data f dlen s;
                  if good then find_gtk (w_kd s1) (dlen - 8) 0 s1 else Some s1
                }
                else Some s);
         s2 \<leftarrow> send_eapol e (KI_VER2 OR KI_PAIRWISE OR KI_MIC OR KI_SECURE) (slice EK_REPLAY 8 f) None [] s1;
         let s3 = (if w_keys_on s2
                   then (wlan_install_keys e s2)\<lparr>w_pn := 1, w_rekeys := w_rekeys s2 + 1\<rparr> else s2);
         Some (s3\<lparr>w_state := S_DONE\<rparr>)
       }
     }"

definition handle_eapol :: "wenv \<Rightarrow> byte list \<Rightarrow> wlan \<Rightarrow> wlan option" where
  "handle_eapol e f s =
     (if length f < EK_DATA \<or> f ! 1 \<noteq> 3 \<or> f ! 4 \<noteq> 2 then Some s
      else
        (let elen = 4 + unat (be16 f 2); info = be16 f EK_INFO; dlen = unat (be16 f EK_DLEN)
         in if elen > length f then Some s
            else if info AND 7 \<noteq> 2 then Some (s\<lparr>w_state := S_FAIL\<rparr>)
            else if info AND KI_PAIRWISE = 0 \<and> info AND (KI_ACK OR KI_MIC) = KI_ACK OR KI_MIC
            then group_message e f elen info dlen s
            else if info AND (KI_PAIRWISE OR KI_ACK OR KI_MIC) = KI_PAIRWISE OR KI_ACK then message_1 e f s
            else if info AND (KI_PAIRWISE OR KI_ACK OR KI_MIC) = KI_PAIRWISE OR KI_ACK OR KI_MIC
            then message_3 e f elen info dlen s
            else Some s))"

section \<open>Data frames\<close>

text \<open>What follows the header: \<open>None\<close> for a frame that is dropped, with its count.\<close>

definition data_body :: "byte list \<Rightarrow> nat \<Rightarrow> bool \<Rightarrow> wlan \<Rightarrow> (byte list option \<times> wlan) option" where
  "data_body f h decrypted s =
     (if f ! 1 AND 0x40 \<noteq> 0
      then
        (if \<not> decrypted then Some (None, s\<lparr>w_rx_undecrypted := w_rx_undecrypted s + 1\<rparr>)
         else if length f < h + 8 + 8 + 8 then Some (None, s)
         else Some (Some (slice (h + 8) (length f - h - 8 - 8) f), s))
      else if length f < h then None
      else Some (Some (drop h f), s))"

definition handle_data :: "wenv \<Rightarrow> byte list \<Rightarrow> nat \<Rightarrow> bool \<Rightarrow> wlan \<Rightarrow> wlan option" where
  "handle_data e f h decrypted s =
     (if f ! 1 AND 0x02 = 0 \<or> f ! 1 AND 0x01 \<noteq> 0 then Some s
      else
        (case data_body f h decrypted s of
           None \<Rightarrow> None
         | Some (None, s1) \<Rightarrow> Some s1
         | Some (Some p, s1) \<Rightarrow>
             if length p < 8 \<or> p ! 0 \<noteq> 0xaa \<or> p ! 1 \<noteq> 0xaa \<or> p ! 2 \<noteq> 0x03 then Some s1
             else if slice 16 6 f = w_mac s1 then Some s1
             else if be16 p 6 = 0x888e then handle_eapol e (drop 8 p) s1
             else
               Some (s1\<lparr>w_rx_data := w_rx_data s1 + 1,
                        w_got := (if w_rx_cb s1 then w_got s1 @ [(slice 4 6 f, slice 16 6 f, be16 p 6, drop 8 p)]
                                  else w_got s1)\<rparr>)))"

section \<open>Management frames\<close>

text \<open>The elements of a beacon from position \<open>i\<close> on, each with its id and length byte.\<close>

function ies :: "byte list \<Rightarrow> nat \<Rightarrow> byte list list" where
  "ies f i =
     (if i + 2 \<le> length f \<and> i + 2 + unat (f ! (i + 1)) \<le> length f
      then slice i (2 + unat (f ! (i + 1))) f # ies f (i + 2 + unat (f ! (i + 1)))
      else [])"
  by pat_completeness auto
termination
  by (relation "measure (\<lambda>(f, i). length f - i)") auto

declare ies.simps [simp del]

definition rsn_security :: "byte list \<Rightarrow> wsec" where
  "rsn_security ie =
     (let npw = unat (ie ! 8) + 256 * unat (ie ! 9); a = 10 + 4 * npw
      in if a + 6 \<le> 2 + unat (ie ! 1)
         then
           (let nakm = unat (ie ! a) + 256 * unat (ie ! (a + 1))
            in if list_ex (\<lambda>k. a + 6 + 4 * k \<le> 2 + unat (ie ! 1)
                    \<and> slice (a + 2 + 4 * k) 4 ie = [0x00, 0x0f, 0xac, 2]) [0..<nakm]
               then WLAN_WPA2_PSK else WLAN_RSN_OTHER)
         else WLAN_RSN_OTHER)"

definition scan_ie :: "byte list \<Rightarrow> byte list \<times> nat \<times> wsec \<Rightarrow> byte list \<times> nat \<times> wsec" where
  "scan_ie ie x =
     (case x of (name, ch, sec) \<Rightarrow>
        if ie ! 0 = 0 \<and> ie ! 1 \<le> 32 then (drop 2 ie, ch, sec)
        else if ie ! 0 = 3 \<and> ie ! 1 = 1 then (name, unat (ie ! 2), sec)
        else if ie ! 0 = 48 \<and> ie ! 1 \<ge> 20 then (name, ch, rsn_security ie)
        else x)"

definition scan_beacon :: "byte list \<Rightarrow> wlan \<Rightarrow> wlan" where
  "scan_beacon f s =
     (case fold scan_ie (ies f 36) ([], 0, if f ! 34 AND 0x10 \<noteq> 0 then WLAN_WEP_WPA1 else WLAN_OPEN) of
        (name, ch, sec) \<Rightarrow>
          if name \<noteq> [] \<and> name ! 0 \<noteq> 0
          then s\<lparr>w_scans := w_scans s @ [(name, slice 16 6 f, ch, w_frame_rssi s, sec)]\<rparr>
          else s)"

definition join_ie :: "byte list \<Rightarrow> bool \<times> nat \<times> bool \<times> wlan \<Rightarrow> bool \<times> nat \<times> bool \<times> wlan" where
  "join_ie ie x =
     (case x of (match, ch, rsn, s) \<Rightarrow>
        if ie ! 0 = 0 \<and> unat (ie ! 1) = length (w_ssid s) \<and> drop 2 ie = w_ssid s then (True, ch, rsn, s)
        else if ie ! 0 = 1 \<and> ie ! 1 \<le> 16 then (match, ch, rsn, s\<lparr>w_ap_rates := put_slice 0 ie (w_ap_rates s)\<rparr>)
        else if ie ! 0 = 50 \<and> ie ! 1 \<le> 16 then (match, ch, rsn, s\<lparr>w_ap_xrates := put_slice 0 ie (w_ap_xrates s)\<rparr>)
        else if ie ! 0 = 3 \<and> ie ! 1 = 1 then (match, unat (ie ! 2), rsn, s)
        else if ie ! 0 = 48 then (match, ch, True, s)
        else x)"

definition join_beacon :: "byte list \<Rightarrow> wlan \<Rightarrow> wlan" where
  "join_beacon f s =
     (case fold join_ie (ies f 36) (False, 0, False, s) of (match, ch, rsn, s1) \<Rightarrow>
        if match
        then s1\<lparr>w_bssid := slice 16 6 f, w_ap_channel := ch, w_rsn_ok := rsn, w_state := S_AUTH\<rparr>
        else s1)"

text \<open>C's division of a signed number by 8.\<close>

definition div8 :: "int \<Rightarrow> int" where
  "div8 x = (if x < 0 then - (- x div 8) else x div 8)"

definition frame_seen :: "byte list \<Rightarrow> wlan \<Rightarrow> wlan" where
  "frame_seen f s =
     (let s1 = s\<lparr>w_rx_frames := w_rx_frames s + 1,
                w_rx_max := (if length f > w_rx_max s \<and> f ! 0 AND 0x0c = 0x08 then length f else w_rx_max s)\<rparr>
      in if w_state s1 = S_DONE \<and> slice 10 6 f = w_bssid s1
         then s1\<lparr>w_ap_seen := w_now s1,
                 w_rssi := (if w_frame_rssi s1 > -100 then div8 (w_rssi s1 * 7 + w_frame_rssi s1) else w_rssi s1)\<rparr>
         else s1)"

definition frame_for_us :: "wenv \<Rightarrow> byte list \<Rightarrow> wlan \<Rightarrow> wlan option" where
  "frame_for_us e f s =
     (let fc = ucast (f ! 0) OR push_bit 8 (ucast (f ! 1)) :: u32; ty = drop_bit 2 fc AND 3; sub = drop_bit 4 fc AND 15
      in if ty = 0 \<and> sub = 11 \<and> w_state s = S_AUTH \<and> length f \<ge> 30
         then Some (if f ! 28 \<noteq> 0 \<or> f ! 29 \<noteq> 0 then s\<lparr>w_state := S_FAIL\<rparr> else send_assoc (s\<lparr>w_state := S_ASSOC\<rparr>))
         else if ty = 0 \<and> sub = 1 \<and> w_state s = S_ASSOC \<and> length f \<ge> 30
         then Some (s\<lparr>w_state := if f ! 26 \<noteq> 0 \<or> f ! 27 \<noteq> 0 then S_FAIL else S_4WAY\<rparr>)
         else if ty = 0 \<and> (sub = 12 \<or> sub = 10) \<and> slice 10 6 f = w_bssid s
           \<and> w_state s \<noteq> S_IDLE \<and> w_state s \<noteq> S_SCANALL \<and> w_state s \<noteq> S_SCAN
         then Some (s\<lparr>w_state := S_FAIL\<rparr>)
         else if ty = 2 \<and> fc AND 0x4000 = 0
         then
           (let h = 24 + (if sub AND 8 \<noteq> 0 then 2 else 0)
            in if length f \<ge> h + 8 + EK_DATA \<and> f ! h = 0xaa \<and> f ! (h + 1) = 0xaa \<and> f ! (h + 6) = 0x88
                 \<and> f ! (h + 7) = 0x8e
               then handle_eapol e (drop (h + 8) f) s else Some s)
         else Some s)"

definition handle_frame :: "wenv \<Rightarrow> byte list \<Rightarrow> bool \<Rightarrow> wlan \<Rightarrow> wlan option" where
  "handle_frame e f decrypted s0 =
     (if length f < 24 then Some s0
      else
        (let s = frame_seen f s0;
             fc = ucast (f ! 0) OR push_bit 8 (ucast (f ! 1)) :: u32; ty = drop_bit 2 fc AND 3; sub = drop_bit 4 fc AND 15
         in if ty = 0 \<and> (sub = 5 \<or> sub = 8) \<and> w_state s = S_SCANALL \<and> length f \<ge> 36 \<and> w_scan_cb s
            then Some (scan_beacon f s)
            else if ty = 0 \<and> (sub = 5 \<or> sub = 8) \<and> w_state s = S_SCAN \<and> length f \<ge> 36 then Some (join_beacon f s)
            else if ty = 2 \<and> w_state s = S_DONE \<and> slice 10 6 f = w_bssid s
              \<and> (slice 4 6 f = w_mac s \<or> f ! 4 AND 1 \<noteq> 0)
            then handle_data e f (24 + (if sub AND 8 \<noteq> 0 then 2 else 0)) decrypted s
            else if slice 4 6 f \<noteq> w_mac s then Some s
            else frame_for_us e f s))"

section \<open>Receive buffers\<close>

definition frame_rssi :: "byte list \<Rightarrow> nat \<Rightarrow> int" where
  "frame_rssi buf off =
     (let w0 = le32 buf off; drvinfo = 8 * unat (drop_bit 16 w0 AND 0xf)
      in if bit w0 26 \<and> drvinfo \<ge> 8
         then
           (if le32 buf (off + 12) AND 0x7f < 4
            then
              (let lna = unat (drop_bit 5 (buf ! (off + 29))); vga = int (unat (buf ! (off + 29) AND 0x1f))
               in if lna = 7 then (if vga \<le> 27 then -100 + 2 * (27 - vga) else -100)
                  else if lna = 5 then -74 + 2 * (21 - vga)
                  else if lna = 3 then -60 + 2 * (20 - vga)
                  else if lna = 1 then -44 + 2 * (19 - vga) else -100)
            else int (unat (drop_bit 1 (buf ! (off + 28)))) - 110)
         else -100)"

function handle_rx :: "wenv \<Rightarrow> byte list \<Rightarrow> nat \<Rightarrow> wlan \<Rightarrow> wlan option" where
  "handle_rx e buf off s =
     (if off + 24 \<le> length buf
      then
        (let w0 = le32 buf off; w2 = le32 buf (off + 8); pktlen = unat (w0 AND 0x3fff);
             drvinfo = 8 * unat (drop_bit 16 w0 AND 0xf); shift = unat (drop_bit 24 w0 AND 3);
             total = 24 + drvinfo + shift + pktlen;
             decrypted = (drop_bit 20 w0 AND 7 \<noteq> 0 \<and> \<not> bit w0 27)
         in if pktlen = 0 \<or> off + total > length buf then Some s
            else
              (case (if w0 AND push_bit 14 3 = 0 \<and> \<not> bit w2 28
                     then handle_frame e (slice (off + 24 + drvinfo + shift) pktlen buf) decrypted
                            (s\<lparr>w_frame_rssi := frame_rssi buf off\<rparr>)
                     else Some s) of
                 None \<Rightarrow> None
               | Some s' \<Rightarrow> handle_rx e buf (off + 128 * ((total + 127) div 128)) s'))
      else Some s)"
  by pat_completeness auto
termination
  by (relation "measure (\<lambda>(e, buf, off, s). length buf - off)") auto

declare handle_rx.simps [simp del]

type_synonym air = "(nat \<times> byte list list) list"

primrec rx_buffers :: "wenv \<Rightarrow> byte list list \<Rightarrow> wlan \<Rightarrow> wlan option" where
  "rx_buffers e [] s = Some s"
| "rx_buffers e (b # bs) s = do { s' \<leftarrow> handle_rx e b 0 s; rx_buffers e bs s' }"

text \<open>\<open>wlan_listen\<close> from the time \<open>t0\<close> and the state \<open>st\<close> on.\<close>

fun listen_loop :: "wenv \<Rightarrow> nat \<Rightarrow> bool \<Rightarrow> nat \<Rightarrow> wstate \<Rightarrow> air \<Rightarrow> wlan \<Rightarrow> (air \<times> wlan) option" where
  "listen_loop e ms until t0 st [] s =
     Some ([], if w_now s - t0 < ms \<and> (\<not> until \<or> w_state s = st) then s\<lparr>w_now := t0 + ms\<rparr> else s)"
| "listen_loop e ms until t0 st ((dt, bufs) # air) s =
     (if w_now s - t0 < ms \<and> (\<not> until \<or> w_state s = st)
      then do {
        s' \<leftarrow> rx_buffers e bufs s;
        listen_loop e ms until t0 st air (s'\<lparr>w_now := w_now s' + dt\<rparr>)
      }
      else Some ((dt, bufs) # air, s))"

definition wlan_listen :: "wenv \<Rightarrow> nat \<Rightarrow> bool \<Rightarrow> air \<times> wlan \<Rightarrow> (air \<times> wlan) option" where
  "wlan_listen e ms until x =
     (case x of (air, s) \<Rightarrow> listen_loop e ms until (w_now s) (w_state s) air s)"

definition station_poll :: "wenv \<Rightarrow> nat \<Rightarrow> bool \<Rightarrow> air \<times> wlan \<Rightarrow> (int \<times> air \<times> wlan) option" where
  "station_poll e ms rx x =
     do {
       (air, s) \<leftarrow> wlan_listen e ms False (fst x, (snd x)\<lparr>w_rx_cb := rx\<rparr>);
       Some (if w_state s = S_DONE then 0 else -1, air, s)
     }"

section \<open>Scanning and joining\<close>

text \<open>\<open>read_wifi_txt\<close>: the lines of the text, without the NUL at its end.\<close>

definition line_value :: "nat \<Rightarrow> byte list \<Rightarrow> byte list" where
  "line_value n v = take n (takeWhile (\<lambda>c. c \<noteq> 13 \<and> c \<noteq> 10) v)"

function wifi_lines :: "byte list \<Rightarrow> wlan \<Rightarrow> wlan" where
  "wifi_lines t s =
     (if t = [] then s
      else
        (let s' = (if take 5 t = [0x73, 0x73, 0x69, 0x64, 0x3d] then s\<lparr>w_ssid := line_value 32 (drop 5 t)\<rparr>
                   else if take 4 t = [0x70, 0x73, 0x6b, 0x3d] then s\<lparr>w_psk := line_value 63 (drop 4 t)\<rparr>
                   else s)
         in wifi_lines (tl (dropWhile (\<lambda>c. c \<noteq> 10) t)) s'))"
  by pat_completeness auto
termination
  by (relation "measure (\<lambda>(t, s). length t)")
    (auto simp: less_Suc_eq_le diff_le_mono le_less_trans [OF diff_le_mono [OF length_dropWhile_le]])

declare wifi_lines.simps [simp del]

definition read_wifi_txt :: "byte list \<Rightarrow> wlan \<Rightarrow> int \<times> wlan" where
  "read_wifi_txt t s =
     (let s' = wifi_lines t s in (if w_ssid s' \<noteq> [] \<and> w_psk s' \<noteq> [] then 0 else -1, s'))"

text \<open>\<open>wlan_up\<close>: the driver finds the chip or not, has its eFuse and a result of the start.\<close>

definition wlan_up :: "bool \<Rightarrow> byte list \<Rightarrow> int \<Rightarrow> byte list \<Rightarrow> wlan \<Rightarrow> int \<times> wlan" where
  "wlan_up found efuse init fw s =
     (if (push_bit 8 (ucast (fw ! 1)) OR (ucast (fw ! 0) AND 0xf0) :: u32) \<noteq> 0x88f0 \<or> \<not> found then (-1, s)
      else
        (let s1 = s\<lparr>w_mac := slice 0xd7 6 efuse\<rparr>
         in if init < 0 then (-1, s1)
            else (0, (radio_do Enable_rf (radio_do (Wr8 0x0423 0xff) (radio_do (Set_mac (w_mac s1)) s1)))
                       \<lparr>w_keys_on := False, w_state := S_IDLE\<rparr>)))"

definition set_channel :: "nat \<Rightarrow> wlan \<Rightarrow> wlan" where
  "set_channel ch s = radio_do (Set_tx_power ch) (radio_do (Set_channel ch) s)"

primrec scan_channels :: "wenv \<Rightarrow> nat \<Rightarrow> nat list \<Rightarrow> air \<times> wlan \<Rightarrow> (air \<times> wlan) option" where
  "scan_channels e ms [] x = Some x"
| "scan_channels e ms (ch # chs) x =
     do {
       y \<leftarrow> wlan_listen e ms False (fst x, send_probe_for [] (set_channel ch (snd x)));
       scan_channels e ms chs y
     }"

definition wlan_scan :: "wenv \<Rightarrow> bool \<Rightarrow> nat \<Rightarrow> air \<times> wlan \<Rightarrow> (air \<times> wlan) option" where
  "wlan_scan e cb ms x =
     do {
       (air, s) \<leftarrow> scan_channels e ms [1..<14] (fst x, (wlan_keys_off (snd x))\<lparr>w_scan_cb := cb, w_state := S_SCANALL\<rparr>);
       Some (air, s\<lparr>w_state := S_IDLE, w_scan_cb := False\<rparr>)
     }"

text \<open>The two rounds over the channels, until the network is found.\<close>

primrec find_network :: "wenv \<Rightarrow> nat list \<Rightarrow> air \<times> wlan \<Rightarrow> (air \<times> wlan) option" where
  "find_network e [] x = Some x"
| "find_network e (ch # chs) x =
     (if w_state (snd x) = S_SCAN
      then do {
        y \<leftarrow> wlan_listen e 250 True (fst x, send_probe (set_channel ch (snd x)));
        find_network e chs y
      }
      else Some x)"

primrec auth_tries :: "wenv \<Rightarrow> nat \<Rightarrow> air \<times> wlan \<Rightarrow> (air \<times> wlan) option" where
  "auth_tries e 0 x = Some x"
| "auth_tries e (Suc n) x =
     (if w_state (snd x) = S_AUTH
      then do { y \<leftarrow> wlan_listen e 500 True (fst x, send_auth (snd x)); auth_tries e n y }
      else Some x)"

primrec assoc_tries :: "wenv \<Rightarrow> nat \<Rightarrow> bool \<Rightarrow> air \<times> wlan \<Rightarrow> (air \<times> wlan) option" where
  "assoc_tries e 0 again x = Some x"
| "assoc_tries e (Suc n) again x =
     (if w_state (snd x) = S_ASSOC
      then do {
        y \<leftarrow> wlan_listen e 800 True (fst x, if again then send_assoc (snd x) else snd x);
        assoc_tries e n True y
      }
      else Some x)"

text \<open>From the found network to the end of the handshake.\<close>

definition join_found :: "wenv \<Rightarrow> air \<times> wlan \<Rightarrow> (air \<times> wlan) option" where
  "join_found e x =
     do {
       (air1, s1) \<leftarrow> wlan_listen e 100 False (fst x,
          send_deauth ((if w_ap_channel (snd x) \<noteq> 0 then set_channel (w_ap_channel (snd x)) (snd x)
                        else snd x)\<lparr>w_state := S_SCAN\<rparr>));
       y \<leftarrow> auth_tries e 3 (air1, s1\<lparr>w_state := S_AUTH\<rparr>);
       y \<leftarrow> assoc_tries e 3 False y;
       y \<leftarrow> (if w_state (snd y) = S_4WAY then wlan_listen e 3000 True y else Some y);
       if w_state (snd y) = S_4WAY then wlan_listen e 3000 True y else Some y
     }"

definition wlan_connect :: "wenv \<Rightarrow> byte list \<Rightarrow> byte list \<Rightarrow> air \<times> wlan \<Rightarrow> (int \<times> air \<times> wlan) option" where
  "wlan_connect e name pass x =
     (let s = (wlan_keys_off (snd x))\<lparr>w_ssid := take 32 name, w_psk := take 63 pass\<rparr>
      in if length (w_psk s) < 8 then Some (-1, fst x, s\<lparr>w_state := S_IDLE\<rparr>)
         else do {
           pmk \<leftarrow> wpa_pmk (stk e) (stk_hmac e) (w_psk s) (w_ssid s);
           s1 \<leftarrow> new_snonce e (s\<lparr>w_pmk := pmk\<rparr>);
           (air2, s2) \<leftarrow> find_network e ([1..<14] @ [1..<14])
              (fst x, s1\<lparr>w_ap_xrates := (w_ap_xrates s1)[1 := 0], w_gtk_len := 0, w_state := S_SCAN\<rparr>);
           if w_state s2 \<noteq> S_AUTH \<or> \<not> w_rsn_ok s2 then Some (-1, air2, s2\<lparr>w_state := S_IDLE\<rparr>)
           else do {
             (air3, s3) \<leftarrow> join_found e (air2, s2);
             Some (if w_state s3 \<noteq> S_DONE then (-1, air3, s3\<lparr>w_state := S_IDLE\<rparr>)
                   else (0, air3, s3\<lparr>w_ap_seen := w_now s3,
                           w_rssi := (if w_frame_rssi s3 > -100 then w_frame_rssi s3 else -70)\<rparr>))
           }
         })"

definition wlan_join
  :: "wenv \<Rightarrow> bool \<Rightarrow> byte list \<Rightarrow> int \<Rightarrow> byte list \<Rightarrow> byte list \<Rightarrow> air \<times> wlan \<Rightarrow> (int \<times> air \<times> wlan) option" where
  "wlan_join e found efuse init fw wifi_txt x =
     (case read_wifi_txt wifi_txt (snd x) of (r, s) \<Rightarrow>
        if r < 0 then Some (-1, fst x, s)
        else (case wlan_up found efuse init fw s of (r', s') \<Rightarrow>
          if r' < 0 then Some (-1, fst x, s')
          else wlan_connect e (w_ssid s') (w_psk s') (fst x, s')))"

end
