(* ===== verification/WlanKeys.thy ===== *)
theory WlanKeys
  imports WlanRx
begin

text \<open>
  The 4-way handshake of IEEE 802.11 as the access point runs it (12.7.6), and what
  \<open>handle_eapol\<close> does with its messages: the derived key, the frames sent back, the group key.
\<close>

section \<open>The access point\<close>

definition be_num :: "byte list \<Rightarrow> nat" where
  "be_num xs = fold (\<lambda>b a. 256 * a + unat b) xs 0"

text \<open>12.7.1.3: the pairwise key, with the addresses and the nonces in their order as numbers.\<close>

definition ieee_ptk :: "byte list \<Rightarrow> byte list \<Rightarrow> byte list \<Rightarrow> byte list \<Rightarrow> byte list \<Rightarrow> byte list" where
  "ieee_ptk pmk aa spa an sn =
     ieee_prf pmk ptk_label
       ((if be_num aa < be_num spa then aa @ spa else spa @ aa)
        @ (if be_num an < be_num sn then an @ sn else sn @ an)) 48"

text \<open>An EAPOL-Key frame (12.7.2): key length, nonce, key IV, RSC and key data are the sender's.\<close>

record key_frame =
  kf_info :: u32
  kf_keylen :: "byte list"
  kf_replay :: "byte list"
  kf_nonce :: "byte list"
  kf_mid :: "byte list"
  kf_data :: "byte list"

definition kf_ok :: "key_frame \<Rightarrow> bool" where
  "kf_ok k = (kf_info k < 65536 \<and> length (kf_keylen k) = 2 \<and> length (kf_replay k) = 8 \<and> length (kf_nonce k) = 32
     \<and> length (kf_mid k) = 32 \<and> length (kf_data k) < 1400)"

definition kf_bytes :: "key_frame \<Rightarrow> byte list \<Rightarrow> byte list" where
  "kf_bytes k mic =
     [2, 3] @ put_be16 (of_nat (95 + length (kf_data k))) @ [2] @ put_be16 (kf_info k) @ kf_keylen k @ kf_replay k
       @ kf_nonce k @ kf_mid k @ mic @ put_be16 (of_nat (length (kf_data k))) @ kf_data k"

definition kf_signed :: "byte list \<Rightarrow> key_frame \<Rightarrow> byte list" where
  "kf_signed kck k = kf_bytes k (take 16 (rfc2104_hmac kck (kf_bytes k (replicate 16 0))))"

text \<open>The station's answer as the access point checks it: descriptor, flags, replay counter and MIC.\<close>

definition ap_accepts :: "byte list \<Rightarrow> u32 \<Rightarrow> byte list \<Rightarrow> byte list \<Rightarrow> bool" where
  "ap_accepts kck info replay f =
     (length f \<ge> 99 \<and> f ! 1 = 3 \<and> f ! 4 = 2 \<and> unat (be16 f 2) + 4 = length f \<and> be16 f 5 = info
      \<and> slice 9 8 f = replay
      \<and> slice 81 16 f = take 16 (rfc2104_hmac kck (put_slice 81 (replicate 16 0) f)))"

text \<open>Key data: elements before and after the key data encapsulation of the group key, padded.\<close>

definition gtk_kde :: "u32 \<Rightarrow> byte list \<Rightarrow> byte list" where
  "gtk_kde kid key = [0xdd, of_nat (6 + length key), 0x00, 0x0f, 0xac, 0x01, ucast kid, 0] @ key"

definition element_ok :: "byte list \<Rightarrow> bool" where
  "element_ok el = (length el \<ge> 2 \<and> el ! 0 \<noteq> 0xdd \<and> length el = 2 + unat (el ! 1))"

definition padding_ok :: "byte list \<Rightarrow> bool" where
  "padding_ok p = (p = [] \<or> (\<exists>n. p = 0xdd # replicate n 0))"

section \<open>Hashes of the station\<close>

definition env_ok :: "wenv \<Rightarrow> bool" where
  "env_ok e = (length (sbuf (stk e)) = 64 \<and> length (sbuf (hm_in (stk_hmac e))) = 64
     \<and> length (sbuf (hm_out (stk_hmac e))) = 64)"

lemma mac_of_rfc:
  assumes "env_ok e" "8 * length key < two32" "8 * (64 + length d) < two32"
  shows "mac_of e key d = Some (rfc2104_hmac key d)"
proof -
  have l: "length (sbuf (stk e)) = 64" "length (sbuf (hm_in (stk_hmac e))) = 64"
    "length (sbuf (hm_out (stk_hmac e))) = 64" using assms(1) by (simp_all add: env_ok_def)
  obtain m where m: "hmac_sha1_init (stk e) (stk_hmac e) key = Some m" "hmac_ready m key"
    using hmac_sha1_init_ready [OF l(1) assms(2) l(2,3)] by blast
  show ?thesis
    using hmac_sha1_run_rfc [OF m(2), of d None None None] assms(3)
    by (simp add: mac_of_def hmac_sha1_mac_def m(1))
qed

lemma mac_of_some: "env_ok e \<Longrightarrow> length d < 70000 \<Longrightarrow> mac_of e (take 16 key) d = Some (rfc2104_hmac (take 16 key) d)"
  by (rule mac_of_rfc) simp_all

lemma be_num_fold: "fold (\<lambda>b a. 256 * a + unat (b :: byte)) xs n = 256 ^ length xs * n + be_num xs"
proof (induction xs arbitrary: n)
  case Nil
  then show ?case by (simp add: be_num_def)
next
  case (Cons x xs)
  have "be_num (x # xs) = 256 ^ length xs * unat x + be_num xs"
    unfolding be_num_def fold_simps using Cons.IH [of "unat x"] by (simp add: be_num_def)
  then show ?case using Cons.IH [of "256 * n + unat x"] by (simp add: algebra_simps)
qed

lemma be_num_Cons: "be_num (x # xs) = 256 ^ length xs * unat x + be_num xs"
  unfolding be_num_def fold_simps using be_num_fold [of xs "unat x"] by (simp add: be_num_def)

lemma be_num_less: "be_num xs < 256 ^ length xs"
proof (induction xs)
  case Nil
  then show ?case by (simp add: be_num_def)
next
  case (Cons x xs)
  have "unat x \<le> 255" by (rule unat_byte_le)
  then have "256 ^ length xs * unat x \<le> 256 ^ length xs * 255" by simp
  then show ?case using Cons unfolding be_num_Cons length_Cons power_Suc by linarith
qed

lemma memcmp_bytes_num: "length xs = length ys \<Longrightarrow> memcmp_bytes xs ys < 0 \<longleftrightarrow> be_num xs < be_num ys"
proof (induction xs ys rule: memcmp_bytes.induct)
  case (1 x xs y ys)
  have b: "be_num xs < 256 ^ length ys" "be_num ys < 256 ^ length ys"
    using 1(2) be_num_less [of xs] be_num_less [of ys] by simp_all
  show ?case
  proof (cases "unat x = unat y")
    case True
    then show ?thesis using 1 by (simp add: be_num_Cons word_unat_eq_iff)
  next
    case False
    have m: "256 ^ length ys * unat a + 256 ^ length ys \<le> 256 ^ length ys * unat c" if "unat a < unat c" for a c :: byte
    proof -
      have "256 ^ length ys * (unat a + 1) \<le> 256 ^ length ys * unat c" using that by (intro mult_le_mono2) simp
      then show ?thesis by simp
    qed
    have "x \<noteq> y" using False by auto
    then have "memcmp_bytes (x # xs) (y # ys) = int (unat x) - int (unat y)" by simp
    then have c: "memcmp_bytes (x # xs) (y # ys) < 0 \<longleftrightarrow> unat x < unat y" by linarith
    have l: "length xs = length ys" using 1(2) by simp
    show ?thesis
    proof (cases "unat x < unat y")
      case True
      then show ?thesis using b m [OF True] c unfolding be_num_Cons l by linarith
    next
      case ge: False
      then have "unat y < unat x" using False by linarith
      then show ?thesis using b m [of y x] c ge unfolding be_num_Cons l by linarith
    qed
  qed
qed auto

definition wlan_ok :: "wlan \<Rightarrow> bool" where
  "wlan_ok s = (length (w_mac s) = 6 \<and> length (w_bssid s) = 6 \<and> length (w_pmk s) = 32 \<and> length (w_snonce s) = 32
     \<and> length (w_anonce s) = 32 \<and> length (w_gtk s) = 32 \<and> length (w_kd s) = 256 \<and> length (w_ptk s) = 48
     \<and> aes_tab_ok (w_inv_sbox s))"

lemma ptk_prf:
  assumes "env_ok e" "wlan_ok s"
  shows "wpa_prf (stk e) (stk_hmac e) (w_pmk s) ptk_label (ptk_data s) 48
    = Some (ieee_ptk (w_pmk s) (w_bssid s) (w_mac s) (w_anonce s) (w_snonce s))"
proof -
  have l: "length (sbuf (stk e)) = 64" "length (sbuf (hm_in (stk_hmac e))) = 64"
    "length (sbuf (hm_out (stk_hmac e))) = 64" using assms(1) by (simp_all add: env_ok_def)
  have k: "8 * length (w_pmk s) < two32" using assms(2) by (simp add: wlan_ok_def)
  obtain m where m: "hmac_sha1_init (stk e) (stk_hmac e) (w_pmk s) = Some m" and ready: "hmac_ready m (w_pmk s)"
    using hmac_sha1_init_ready [OF l(1) k l(2,3)] by blast
  have "8 * (66 + length ptk_label + length (ptk_data s)) < two32"
    using assms(2) by (auto simp: wlan_ok_def ptk_label_def ptk_data_def)
  from prf_loop_rfc [OF ready this refl refl, of 0 48]
  have "wpa_prf (stk e) (stk_hmac e) (w_pmk s) ptk_label (ptk_data s) 48
      = Some (ieee_prf (w_pmk s) ptk_label (ptk_data s) 48)"
    by (simp add: wpa_prf_def ieee_prf_def m)
  moreover have "ieee_prf (w_pmk s) ptk_label (ptk_data s) 48
      = ieee_ptk (w_pmk s) (w_bssid s) (w_mac s) (w_anonce s) (w_snonce s)"
    using assms(2) by (simp add: ieee_ptk_def ptk_data_def wlan_ok_def memcmp_bytes_num)
  ultimately show ?thesis by simp
qed

lemma derive_ptk_ieee:
  "env_ok e \<Longrightarrow> wlan_ok s \<Longrightarrow>
    derive_ptk e s = Some (s\<lparr>w_ptk := ieee_ptk (w_pmk s) (w_bssid s) (w_mac s) (w_anonce s) (w_snonce s)\<rparr>)"
  by (simp add: derive_ptk_def ptk_prf)

lemma length_ieee_ptk: "length (ieee_ptk pmk aa spa an sn) = 48"
proof -
  have "length (concat (map f [0..<3])) = 60" if "\<And>i. length (f i :: byte list) = 20" for f
    using length_concat_blocks [OF that, of "\<lambda>i. i" 3] that by (simp add: length_concat_blocks)
  then show ?thesis by (simp add: ieee_ptk_def ieee_prf_def)
qed

section \<open>Fields of an EAPOL-Key frame\<close>

lemma be16_at: "length A = i \<Longrightarrow> v < 65536 \<Longrightarrow> be16 (A @ put_be16 v @ R) i = v"
  using be16_append2 [of A "put_be16 v @ R" 0] be16_append1 [of 0 "put_be16 v" R] by simp

lemma slice_at: "length A = i \<Longrightarrow> length B = n \<Longrightarrow> slice i n (A @ B @ R) = B"
  by (simp add: slice_def)

lemma put_slice_at: "length A = i \<Longrightarrow> length B = length C \<Longrightarrow> put_slice i C (A @ B @ R) = A @ C @ R"
  by (simp add: put_slice_def)

lemma kf_length:
  assumes "kf_ok k" "length mic = 16"
  shows "length (kf_bytes k mic) = 99 + length (kf_data k)"
  using assms by (simp add: kf_ok_def kf_bytes_def)

lemma kf_head: "kf_bytes k mic ! 1 = 3" "kf_bytes k mic ! Suc 0 = 3" "kf_bytes k mic ! 4 = 2"
  by (simp_all add: kf_bytes_def put_be16_def)

lemma of_nat_small: "n < 65536 \<Longrightarrow> unat (of_nat n :: u32) = n"
  by (simp add: unat_of_nat)

lemma of_nat_less_16: "n < 65536 \<Longrightarrow> (of_nat n :: u32) < 65536"
  by (simp add: word_less_nat_alt of_nat_small)

lemma kf_body_length:
  assumes "kf_ok k"
  shows "unat (be16 (kf_bytes k mic) 2) = 95 + length (kf_data k)"
proof -
  have n: "95 + length (kf_data k) < 65536" using assms by (simp add: kf_ok_def)
  have "be16 (kf_bytes k mic) 2 = of_nat (95 + length (kf_data k))"
    unfolding kf_bytes_def by (rule be16_at) (simp_all only: length_Cons list.size of_nat_less_16 [OF n])
  then show ?thesis by (simp only: of_nat_small [OF n])
qed

lemma kf_info_field:
  assumes "kf_ok k"
  shows "be16 (kf_bytes k mic) 5 = kf_info k"
proof -
  have "kf_bytes k mic = ([2, 3] @ put_be16 (of_nat (95 + length (kf_data k))) @ [2]) @ put_be16 (kf_info k)
      @ kf_keylen k @ kf_replay k @ kf_nonce k @ kf_mid k @ mic @ put_be16 (of_nat (length (kf_data k))) @ kf_data k"
    by (simp add: kf_bytes_def)
  then show ?thesis using be16_at [of "[2, 3] @ put_be16 (of_nat (95 + length (kf_data k))) @ [2]" 5 "kf_info k"] assms
    by (simp add: kf_ok_def)
qed

text \<open>The frame as the parts before and after a field.\<close>

definition kf_start :: "key_frame \<Rightarrow> byte list" where
  "kf_start k = [2, 3] @ put_be16 (of_nat (95 + length (kf_data k))) @ [2] @ put_be16 (kf_info k) @ kf_keylen k"

definition kf_end :: "key_frame \<Rightarrow> byte list" where
  "kf_end k = put_be16 (of_nat (length (kf_data k))) @ kf_data k"

lemma kf_bytes_parts: "kf_bytes k mic = kf_start k @ kf_replay k @ kf_nonce k @ kf_mid k @ mic @ kf_end k"
  by (simp add: kf_bytes_def kf_start_def kf_end_def)

lemma length_kf_start: "kf_ok k \<Longrightarrow> length (kf_start k) = 9"
  by (simp add: kf_start_def kf_ok_def)

lemma kf_fields:
  assumes "kf_ok k" "length mic = 16"
  shows "slice 9 8 (kf_bytes k mic) = kf_replay k" "slice 17 32 (kf_bytes k mic) = kf_nonce k"
    "slice 81 16 (kf_bytes k mic) = mic" "slice 99 (length (kf_data k)) (kf_bytes k mic) = kf_data k"
    "length mic' = 16 \<Longrightarrow> put_slice 81 mic' (kf_bytes k mic) = kf_bytes k mic'"
    "unat (be16 (kf_bytes k mic) 97) = length (kf_data k)"
proof -
  have l: "length (kf_start k) = 9" "length (kf_replay k) = 8" "length (kf_nonce k) = 32" "length (kf_mid k) = 32"
    using assms by (simp_all add: length_kf_start) (simp_all add: kf_ok_def)
  show "slice 9 8 (kf_bytes k mic) = kf_replay k" "slice 17 32 (kf_bytes k mic) = kf_nonce k"
    "slice 81 16 (kf_bytes k mic) = mic" "slice 99 (length (kf_data k)) (kf_bytes k mic) = kf_data k"
    using assms(2) l by (simp_all add: kf_bytes_parts slice_def kf_end_def)
  show "put_slice 81 mic' (kf_bytes k mic) = kf_bytes k mic'" if "length mic' = 16"
    using assms(2) l that by (simp add: kf_bytes_parts put_slice_def)
  have n: "length (kf_data k) < 65536" using assms(1) by (simp add: kf_ok_def)
  have "be16 (kf_bytes k mic) 97 = of_nat (length (kf_data k))"
    using be16_at [of "kf_start k @ kf_replay k @ kf_nonce k @ kf_mid k @ mic" 97 "of_nat (length (kf_data k))" "kf_data k"]
      assms(2) l of_nat_less_16 [OF n] by (simp add: kf_bytes_parts kf_end_def)
  then show "unat (be16 (kf_bytes k mic) 97) = length (kf_data k)" by (simp only: of_nat_small [OF n])
qed

text \<open>The frame of \<open>send_eapol\<close>, and its MIC.\<close>

definition sent_key :: "u32 \<Rightarrow> byte list \<Rightarrow> byte list option \<Rightarrow> byte list \<Rightarrow> key_frame" where
  "sent_key info replay nonce data =
     \<lparr>kf_info = info, kf_keylen = [0, 0], kf_replay = replay,
      kf_nonce = (case nonce of None \<Rightarrow> replicate 32 0 | Some n \<Rightarrow> n), kf_mid = replicate 32 0, kf_data = data\<rparr>"

lemma eapol_key_frame: "eapol_key info replay nonce data = kf_bytes (sent_key info replay nonce data) (replicate 16 0)"
proof -
  have "replicate 48 (0 :: byte) = replicate 32 0 @ replicate 16 0" by (simp add: replicate_add [symmetric])
  then show ?thesis by (simp add: eapol_key_def kf_bytes_def sent_key_def EK_DATA_def)
qed

lemma length_mic [simp]: "length (take 16 (rfc2104_hmac k d)) = 16"
  by simp

lemma kf_signed_accepted:
  assumes "kf_ok k"
  shows "ap_accepts kck (kf_info k) (kf_replay k) (kf_signed kck k)"
  unfolding ap_accepts_def kf_signed_def using assms
  by (simp add: kf_length kf_head kf_body_length kf_info_field kf_fields)

lemma send_eapol_signed:
  assumes "env_ok e" "\<not> w_keys_on s" "kf_ok (sent_key info replay nonce data)"
  shows "send_eapol e info replay nonce data s
    = Some (radio_do (Tx_mgmt (fst (hdr80211 0x0108 (w_bssid s) (w_mac s) (w_bssid s) s)
          @ llc_eapol @ kf_signed (take 16 (w_ptk s)) (sent_key info replay nonce data)))
        (snd (hdr80211 0x0108 (w_bssid s) (w_mac s) (w_bssid s) s)))"
proof -
  let ?k = "sent_key info replay nonce data"
  have "length (kf_bytes ?k (replicate 16 0)) < 70000" using assms(3) kf_length [OF assms(3)] by (simp add: kf_ok_def)
  then have "mac_of e (take 16 (w_ptk s)) (kf_bytes ?k (replicate 16 0))
      = Some (rfc2104_hmac (take 16 (w_ptk s)) (kf_bytes ?k (replicate 16 0)))"
    by (rule mac_of_some [OF assms(1)])
  then show ?thesis
    using assms(2,3)
    by (simp add: send_eapol_def hdr80211_def eapol_key_frame kf_signed_def EK_MIC_def kf_fields Let_def)
qed

lemma mic_ok_signed:
  assumes "env_ok e" "kf_ok k"
  shows "mic_ok e (kf_signed (take 16 (w_ptk s)) k) (4 + unat (be16 (kf_signed (take 16 (w_ptk s)) k) 2)) s = Some True"
proof -
  have "length (kf_bytes k (replicate 16 0)) < 70000" using assms(2) kf_length [OF assms(2)] by (simp add: kf_ok_def)
  then have m: "mac_of e (take 16 (w_ptk s)) (kf_bytes k (replicate 16 0))
      = Some (rfc2104_hmac (take 16 (w_ptk s)) (kf_bytes k (replicate 16 0)))"
    by (rule mac_of_some [OF assms(1)])
  have "take (99 + length (kf_data k)) (kf_bytes k (replicate 16 0)) = kf_bytes k (replicate 16 0)"
    using kf_length [OF assms(2), of "replicate 16 0"] by simp
  then show ?thesis
    unfolding mic_ok_def kf_signed_def EK_MIC_def using assms(2) m
    by (simp add: kf_body_length kf_fields)
qed

section \<open>The group key in the key data\<close>

lemma unwrap_wrapped:
  assumes "aes_tab_ok tab" "length key = 8 * n"
  shows "\<exists>tab'. aes_tab_ok tab' \<and> aes_unwrap tab kek (rfc3394_wrap kek key) n = (tab', Some key)
    \<and> unwrap_out tab kek (rfc3394_wrap kek key) n = key"
proof -
  let ?rk = "aes128_key kek" and ?p = "(replicate 8 0xa6 :: byte list, key)" and ?c = "rfc3394_wrap kek key"
  let ?W = "fold (rfc3394_step ?rk n) (wrap_order n) ?p"
  have p: "wrap_lens n ?p" using assms(2) by (simp add: wrap_lens_def)
  have "wrap_lens n ?W" by (rule wrap_fold_lens(1) [OF p])
  then have c: "(take 8 ?c, take (8 * n) (drop 8 ?c)) = ?W"
    using assms(2) by (cases ?W) (simp add: rfc3394_wrap_def wrap_lens_def)
  obtain tab' where t: "aes_tab_ok tab'" "fold (unwrap_step ?rk n) (rev (wrap_order n)) (tab, take 8 ?c, take (8 * n) (drop 8 ?c))
      = (tab', fold (unwrap_pure ?rk n) (rev (wrap_order n)) (take 8 ?c, take (8 * n) (drop 8 ?c)))"
    using unwrap_fold_pure [OF assms(1), of ?rk n "rev (wrap_order n)" "(take 8 ?c, take (8 * n) (drop 8 ?c))"] by blast
  have "fold (unwrap_pure ?rk n) (rev (wrap_order n)) (take 8 ?c, take (8 * n) (drop 8 ?c)) = ?p"
    unfolding c by (rule unwrap_fold_wrap_fold(1) [OF p])
  then show ?thesis using t by (simp add: aes_unwrap_def unwrap_out_def Let_def)
qed

lemma find_gtk_element:
  assumes "k = A @ el @ R" "length A = i" "element_ok el" "i + length el \<le> n"
  shows "find_gtk k n i s = find_gtk k n (i + length el) s"
proof -
  obtain x l body where el: "el = x # l # body" using assms(3) by (cases el rule: list.exhaust) (auto simp: element_ok_def neq_Nil_conv Suc_le_eq)
  have "k ! i = x" "k ! (i + 1) = l" unfolding assms(1) el using assms(2) by (simp_all add: nth_append)
  moreover have "x \<noteq> 0xdd" "length el = 2 + unat l" using assms(3) el by (simp_all add: element_ok_def)
  ultimately show ?thesis using assms(4)
    by (subst find_gtk.simps) (simp add: is_gtk_kde_def el add.assoc)
qed

lemma find_gtk_elements:
  "k = A @ concat els @ R \<Longrightarrow> length A = i \<Longrightarrow> (\<And>el. el \<in> set els \<Longrightarrow> element_ok el) \<Longrightarrow>
    i + length (concat els) \<le> n \<Longrightarrow> find_gtk k n i s = find_gtk k n (i + length (concat els)) s"
proof (induction els arbitrary: A i)
  case Nil
  then show ?case by simp
next
  case (Cons el els)
  have "find_gtk k n i s = find_gtk k n (i + length el) s"
    using Cons.prems by (intro find_gtk_element [of k A el "concat els @ R"]) auto
  also have "\<dots> = find_gtk k n (i + length el + length (concat els)) s"
    using Cons.prems by (intro Cons.IH [of "A @ el"]) auto
  finally show ?case by (simp add: add.assoc)
qed

lemma find_gtk_padding:
  assumes "k = A @ pad @ R" "length A = i" "padding_ok pad" "n = i + length pad"
  shows "find_gtk k n i s = Some s"
proof (cases pad)
  case Nil
  then show ?thesis using assms(4) by (subst find_gtk.simps) simp
next
  case (Cons x m)
  then obtain j where m: "x = 0xdd" "m = replicate j 0" using assms(3) by (auto simp: padding_ok_def)
  show ?thesis
  proof (cases j)
    case 0
    then show ?thesis using assms(4) Cons m by (subst find_gtk.simps) simp
  next
    case (Suc j')
    have "k ! i = 0xdd" "k ! (i + 1) = 0" unfolding assms(1) Cons m Suc using assms(2) by (simp_all add: nth_append)
    then show ?thesis using assms(4) Cons m Suc
      by (subst find_gtk.simps) (simp add: is_gtk_kde_def)
  qed
qed

lemma of_nat_byte: "n < 256 \<Longrightarrow> unat (of_nat n :: byte) = n"
  by (simp add: unat_of_nat)

lemma find_gtk_kde:
  assumes k: "k = A @ gtk_kde kid key @ R" and i: "length A = i" and key: "length key \<le> 32" and kid: "kid < 4"
    and n: "i + 8 + length key \<le> n" and g: "length (w_gtk s) = 32"
  shows "find_gtk k n i s = find_gtk k n (i + 8 + length key)
    (s\<lparr>w_gtk_id := kid, w_gtk_len := length key, w_gtk := key @ drop (length key) (w_gtk s)\<rparr>)"
proof -
  have b: "k ! i = 0xdd" "k ! (i + 1) = of_nat (6 + length key)" "k ! (i + 2) = 0" "k ! (i + 3) = 0x0f" "k ! (i + 4) = 0xac"
    "k ! (i + 5) = 1" "k ! (i + 6) = ucast kid"
    unfolding k gtk_kde_def using i by (simp_all add: nth_append)
  have l: "unat (of_nat (6 + length key) :: byte) = 6 + length key" by (rule of_nat_byte) (use key in simp)
  have lk: "i + 8 + length key \<le> length k" unfolding k gtk_kde_def using i by simp
  have "unat kid < 4" using kid by (simp add: word_less_nat_alt)
  then have "unat kid \<in> {0, 1, 2, 3}" by auto
  then have "of_nat (unat kid) \<in> (of_nat ` {0, 1, 2, 3} :: u32 set)" by (rule imageI)
  then have "kid \<in> {0, 1, 2, 3}" by simp
  then have id: "ucast (ucast kid :: byte) AND 3 = kid" by auto
  have sl: "slice (i + 8) (length key) k = key" unfolding k gtk_kde_def using i by (simp add: slice_def)
  have kde: "is_gtk_kde k i = Some True"
    unfolding is_gtk_kde_def b l rd8_def using lk key by simp
  have tk: "take_gtk k i s = Some (s\<lparr>w_gtk_id := kid, w_gtk_len := length key, w_gtk := key @ drop (length key) (w_gtk s)\<rparr>)"
    unfolding take_gtk_def b l rd8_def using lk by (simp add: sl id Let_def)
  have nz: "(of_nat (6 + length key) :: byte) \<noteq> 0" using l by (metis add_is_0 unat_0 zero_neq_numeral)
  have step: "i + 2 \<le> n" "k ! (i + 1) \<noteq> 0" "i + 2 + unat (k ! (i + 1)) = i + 8 + length key"
    using n nz unfolding b l by simp_all
  show ?thesis
    unfolding find_gtk.simps [of k n i] if_P [OF step(1)] kde option.case if_True tk step(3) using step(2) by simp
qed

section \<open>Messages\<close>

lemma handle_message_1:
  assumes "kf_ok k" "length mic = 16" "kf_info k = 0x008a"
  shows "handle_eapol e (kf_bytes k mic) s = message_1 e (kf_bytes k mic) s"
  unfolding handle_eapol_def EK_DATA_def EK_INFO_def EK_DLEN_def Let_def
  using assms
  by (simp add: kf_length kf_head kf_body_length kf_info_field kf_fields KI_PAIRWISE_def KI_ACK_def KI_MIC_def)

lemma handle_message_3:
  assumes "kf_ok k" "length mic = 16" "kf_info k = 0x13ca"
  shows "handle_eapol e (kf_bytes k mic) s
    = message_3 e (kf_bytes k mic) (99 + length (kf_data k)) 0x13ca (length (kf_data k)) s"
  unfolding handle_eapol_def EK_DATA_def EK_INFO_def EK_DLEN_def Let_def
  using assms
  by (simp add: kf_length kf_head kf_body_length kf_info_field kf_fields KI_PAIRWISE_def KI_ACK_def KI_MIC_def)

text \<open>Key data as in message 3, with the group key \<open>key\<close> under the id \<open>kid\<close>.\<close>

definition key_data :: "byte list list \<Rightarrow> u32 \<Rightarrow> byte list \<Rightarrow> byte list \<Rightarrow> byte list" where
  "key_data els kid key pad = concat els @ gtk_kde kid key @ pad"

definition key_data_ok :: "byte list list \<Rightarrow> u32 \<Rightarrow> byte list \<Rightarrow> byte list \<Rightarrow> bool" where
  "key_data_ok els kid key pad =
     (list_all element_ok els \<and> padding_ok pad \<and> kid < 4 \<and> length key \<le> 32
      \<and> length (key_data els kid key pad) mod 8 = 0 \<and> 16 \<le> length (key_data els kid key pad)
      \<and> length (key_data els kid key pad) \<le> 256)"

lemma find_gtk_key_data:
  assumes ok: "key_data_ok els kid key pad" and k: "k = key_data els kid key pad @ R" and g: "length (w_gtk s) = 32"
  shows "find_gtk k (length (key_data els kid key pad)) 0 s
    = Some (s\<lparr>w_gtk_id := kid, w_gtk_len := length key, w_gtk := key @ drop (length key) (w_gtk s)\<rparr>)"
proof -
  let ?n = "length (key_data els kid key pad)" and ?c = "length (concat els)"
  have n: "?n = ?c + 8 + length key + length pad" by (simp add: key_data_def gtk_kde_def)
  have el: "\<And>el. el \<in> set els \<Longrightarrow> element_ok el" using ok by (auto simp: key_data_ok_def list_all_iff)
  have "find_gtk k ?n 0 s = find_gtk k ?n ?c s"
    using find_gtk_elements [of k "[]" els "gtk_kde kid key @ pad @ R" 0 ?n s] el n by (simp add: k key_data_def)
  also have "\<dots> = find_gtk k ?n (?c + 8 + length key)
      (s\<lparr>w_gtk_id := kid, w_gtk_len := length key, w_gtk := key @ drop (length key) (w_gtk s)\<rparr>)"
    by (rule find_gtk_kde [of k "concat els" kid key "pad @ R"])
      (use ok n g in \<open>simp_all add: k key_data_def key_data_ok_def\<close>)
  also have "\<dots> = Some (s\<lparr>w_gtk_id := kid, w_gtk_len := length key, w_gtk := key @ drop (length key) (w_gtk s)\<rparr>)"
    by (rule find_gtk_padding [of k "concat els @ gtk_kde kid key" pad R])
      (use ok n in \<open>simp_all add: k key_data_def key_data_ok_def gtk_kde_def\<close>)
  finally show ?thesis .
qed

text \<open>The station after the key data of a message 3: the group key is the access point's.\<close>

definition took_gtk :: "u32 \<Rightarrow> byte list \<Rightarrow> byte list \<Rightarrow> byte list \<Rightarrow> wlan \<Rightarrow> wlan" where
  "took_gtk kid key tab kd s =
     s\<lparr>w_inv_sbox := tab, w_kd := kd @ drop (length kd) (w_kd s), w_gtk_id := kid, w_gtk_len := length key,
       w_gtk := key @ drop (length key) (w_gtk s)\<rparr>"

lemma unwrap_key_data_wrapped:
  assumes "wlan_ok s" "kf_ok k" "length mic = 16" "length kd = 8 * n"
    "kf_data k = rfc3394_wrap (slice 16 16 (w_ptk s)) kd"
  shows "\<exists>tab. aes_tab_ok tab \<and> unwrap_key_data (kf_bytes k mic) (length (kf_data k)) s
    = Some (True, s\<lparr>w_inv_sbox := tab, w_kd := kd @ drop (length kd) (w_kd s)\<rparr>)"
proof -
  have d: "length (kf_data k) = 8 * (n + 1)" unfolding assms(5) by (rule length_rfc3394_wrap [OF assms(4)])
  obtain tab where tab: "aes_tab_ok tab"
      "aes_unwrap (w_inv_sbox s) (slice 16 16 (w_ptk s)) (kf_data k) n = (tab, Some kd)"
      "unwrap_out (w_inv_sbox s) (slice 16 16 (w_ptk s)) (kf_data k) n = kd"
    unfolding assms(5) using unwrap_wrapped [OF _ assms(4)] assms(1) by (auto simp: wlan_ok_def)
  have len: "99 + length (kf_data k) \<le> length (kf_bytes k mic)" using kf_length [OF assms(2,3)] by simp
  have sl: "slice 99 (length (kf_data k)) (kf_bytes k mic) = kf_data k" by (rule kf_fields(4) [OF assms(2,3)])
  have n: "length (kf_data k) div 8 - 1 = n" using d by simp
  show ?thesis
    unfolding unwrap_key_data_def EK_DATA_def if_not_P [OF len [unfolded not_less [symmetric]]] sl n Let_def tab(2,3)
    using tab(1) assms(4) by auto
qed

lemma message_3_signed:
  assumes "env_ok e" "wlan_ok s" "kf_ok k" "key_data_ok els kid key pad"
    "kf_data k = rfc3394_wrap (slice 16 16 (w_ptk s)) (key_data els kid key pad)" "kf_info k = 0x13ca"
  shows "\<exists>tab. aes_tab_ok tab \<and> handle_eapol e (kf_signed (take 16 (w_ptk s)) k) s
    = do {
        s2 \<leftarrow> send_eapol e 0x030a (kf_replay k) None [] (took_gtk kid key tab (key_data els kid key pad) s);
        let s3 = (if w_keys_on s2
                  then (wlan_install_keys e s2)\<lparr>w_pn := 1, w_rekeys := w_rekeys s2 + 1\<rparr> else s2);
        Some (s3\<lparr>w_state := S_DONE\<rparr>)
      }"
proof -
  let ?kd = "key_data els kid key pad"
  let ?f = "kf_signed (take 16 (w_ptk s)) k" and ?mic = "take 16 (rfc2104_hmac (take 16 (w_ptk s)) (kf_bytes k (replicate 16 0)))"
  have f: "?f = kf_bytes k ?mic" by (simp add: kf_signed_def)
  have mic: "length ?mic = 16" by simp
  obtain n where n: "length ?kd = 8 * n" using assms(4) by (auto simp: key_data_ok_def mod_eq_0_iff_dvd dvd_def)
  have d: "length (kf_data k) = 8 * (n + 1)" unfolding assms(5) by (rule length_rfc3394_wrap [OF n])
  have nn: "2 \<le> n" "n \<le> 32" using assms(4) n by (auto simp: key_data_ok_def)
  have kd256: "length (w_kd s) = 256" "length (w_gtk s) = 32" using assms(2) by (simp_all add: wlan_ok_def)
  have m: "mic_ok e ?f (99 + length (kf_data k)) s = Some True"
    using mic_ok_signed [OF assms(1,3), of s] kf_body_length [OF assms(3)] by (simp add: f)
  have "length (kf_data k) AND 7 = 0"
    unfolding d using mask_eq_exp_minus_1 [of 3, where 'a = nat] take_bit_eq_mask [of 3 "8 * (n + 1)"]
    by (simp add: take_bit_nat_def)
  then have fits: "key_data_fits 0x13ca (length (kf_data k))"
    using d nn by (simp add: key_data_fits_def KI_ENC_def)
  obtain tab where tab: "aes_tab_ok tab" "unwrap_key_data (kf_bytes k ?mic) (length (kf_data k)) s
      = Some (True, s\<lparr>w_inv_sbox := tab, w_kd := ?kd @ drop (length ?kd) (w_kd s)\<rparr>)"
    using unwrap_key_data_wrapped [OF assms(2,3) mic n assms(5)] by blast
  have e: "length (kf_data k) - 8 = length ?kd" using d n by simp
  have g: "find_gtk (?kd @ drop (length ?kd) (w_kd s)) (length ?kd) 0
      (s\<lparr>w_inv_sbox := tab, w_kd := ?kd @ drop (length ?kd) (w_kd s)\<rparr>) = Some (took_gtk kid key tab ?kd s)"
    using find_gtk_key_data [OF assms(4) refl, of "s\<lparr>w_inv_sbox := tab, w_kd := ?kd @ drop (length ?kd) (w_kd s)\<rparr>"] kd256
    by (simp add: took_gtk_def)
  have flags: "KI_VER2 OR KI_PAIRWISE OR KI_MIC OR KI_SECURE = 0x030a"
    by (simp add: KI_VER2_def KI_PAIRWISE_def KI_MIC_def KI_SECURE_def)
  have r: "slice EK_REPLAY 8 (kf_bytes k ?mic) = kf_replay k"
    using kf_fields(1) [OF assms(3) mic] by (simp add: EK_REPLAY_def)
  have "handle_eapol e ?f s = message_3 e ?f (99 + length (kf_data k)) 0x13ca (length (kf_data k)) s"
    unfolding f by (rule handle_message_3 [OF assms(3) mic assms(6)])
  then show ?thesis
    using tab(1) fits unfolding message_3_def m unfolding f
    by (intro exI [of _ tab]) (simp add: tab(2) e g flags r)
qed

lemma message_1_answer:
  assumes "env_ok e" "wlan_ok s" "\<not> w_keys_on s" "kf_ok k" "length mic = 16" "kf_info k = 0x008a"
    "ptk = ieee_ptk (w_pmk s) (w_bssid s) (w_mac s) (kf_nonce k) (w_snonce s)"
  shows "handle_eapol e (kf_bytes k mic) s
    = Some (radio_do (Tx_mgmt (fst (hdr80211 0x0108 (w_bssid s) (w_mac s) (w_bssid s) s) @ llc_eapol
          @ kf_signed (take 16 ptk) (sent_key 0x010a (kf_replay k) (Some (w_snonce s)) rsn_ie)))
        (s\<lparr>w_anonce := kf_nonce k, w_ptk := ptk, w_seq := (w_seq s + 1) AND 0xfff\<rparr>))"
proof -
  have flags: "KI_VER2 OR KI_PAIRWISE OR KI_MIC = 0x010a"
    by (simp add: KI_VER2_def KI_PAIRWISE_def KI_MIC_def)
  have nonce: "length (kf_nonce k) = 32" "length (kf_replay k) = 8" using assms(4) by (simp_all add: kf_ok_def)
  have d: "derive_ptk e (s\<lparr>w_anonce := kf_nonce k\<rparr>) = Some (s\<lparr>w_anonce := kf_nonce k, w_ptk := ptk\<rparr>)"
    using derive_ptk_ieee [OF assms(1), of "s\<lparr>w_anonce := kf_nonce k\<rparr>"] assms(2,7) nonce
    by (simp add: wlan_ok_def)
  have ok: "kf_ok (sent_key 0x010a (kf_replay k) (Some (w_snonce s)) rsn_ie)"
    using assms(2) nonce by (simp add: kf_ok_def sent_key_def rsn_ie_def wlan_ok_def)
  show ?thesis
    using send_eapol_signed [OF assms(1) _ ok, of "s\<lparr>w_anonce := kf_nonce k, w_ptk := ptk\<rparr>"] assms(3)
    by (simp add: handle_message_1 [OF assms(4-6)] message_1_def EK_NONCE_def EK_REPLAY_def
        kf_fields [OF assms(4,5)] d flags hdr80211_def)
qed

lemma hdr80211_length:
  "length a1 = 6 \<Longrightarrow> length a2 = 6 \<Longrightarrow> length a3 = 6 \<Longrightarrow> length (fst (hdr80211 fc a1 a2 a3 s)) = 24"
  by (simp add: hdr80211_def)

text \<open>A message 3 under the pairwise key the station holds, before the keys are in use.\<close>

lemma message_3_answer:
  assumes "env_ok e" "wlan_ok s" "\<not> w_keys_on s" "kf_ok k" "key_data_ok els kid key pad"
    "kf_data k = rfc3394_wrap (slice 16 16 (w_ptk s)) (key_data els kid key pad)" "kf_info k = 0x13ca"
  shows "\<exists>s2 h. handle_eapol e (kf_signed (take 16 (w_ptk s)) k) s = Some s2
    \<and> w_radio s2 = w_radio s @ [Tx_mgmt (h @ kf_signed (take 16 (w_ptk s)) (sent_key 0x030a (kf_replay k) None []))]
    \<and> length h = 32 \<and> w_state s2 = S_DONE \<and> w_ptk s2 = w_ptk s \<and> w_gtk_id s2 = kid \<and> w_gtk_len s2 = length key
    \<and> take (w_gtk_len s2) (w_gtk s2) = key"
proof -
  obtain tab where t: "handle_eapol e (kf_signed (take 16 (w_ptk s)) k) s
      = do {
        s2 \<leftarrow> send_eapol e 0x030a (kf_replay k) None [] (took_gtk kid key tab (key_data els kid key pad) s);
        let s3 = (if w_keys_on s2
                  then (wlan_install_keys e s2)\<lparr>w_pn := 1, w_rekeys := w_rekeys s2 + 1\<rparr> else s2);
        Some (s3\<lparr>w_state := S_DONE\<rparr>)
      }"
    using message_3_signed [OF assms(1,2,4,5,6,7)] by blast
  define g where "g = took_gtk kid key tab (key_data els kid key pad) s"
  have g: "w_keys_on g = w_keys_on s" "w_ptk g = w_ptk s" "w_bssid g = w_bssid s" "w_mac g = w_mac s"
    "w_gtk_id g = kid" "w_gtk_len g = length key" "take (length key) (w_gtk g) = key" "w_radio g = w_radio s"
    by (simp_all add: g_def took_gtk_def)
  have k4: "kf_ok (sent_key 0x030a (kf_replay k) None [])" using assms(4) by (simp add: kf_ok_def sent_key_def)
  have l: "length (w_bssid g) = 6" "length (w_mac g) = 6" using assms(2) g by (simp_all add: wlan_ok_def)
  let ?h = "fst (hdr80211 0x0108 (w_bssid g) (w_mac g) (w_bssid g) g) @ llc_eapol"
  have "send_eapol e 0x030a (kf_replay k) None [] g
      = Some (radio_do (Tx_mgmt (?h @ kf_signed (take 16 (w_ptk s)) (sent_key 0x030a (kf_replay k) None [])))
          (snd (hdr80211 0x0108 (w_bssid g) (w_mac g) (w_bssid g) g)))"
    using send_eapol_signed [OF assms(1) _ k4, of g] assms(3) g(1,2) by simp
  moreover have "length ?h = 32" using l by (simp add: hdr80211_length llc_eapol_def)
  ultimately show ?thesis
    using t [folded g_def] assms(3) g
    by (simp add: radio_do_def hdr80211_def)
qed

end
