(* ===== verification/WlanProps.thy ===== *)
theory WlanProps
  imports WlanKeys
begin

text \<open>
  What the station of \<open>wlan.h\<close> guarantees: that it completes the 4-way handshake of an access point
  with the same key, what it takes for a message of it, and how it numbers the frames it encrypts.
\<close>

section \<open>The 4-way handshake\<close>

lemma wlan_ok_keys:
  "wlan_ok s \<Longrightarrow> length an = 32 \<Longrightarrow> length k = 48 \<Longrightarrow> wlan_ok (s\<lparr>w_anonce := an, w_ptk := k, w_seq := n, w_radio := r\<rparr>)"
  by (simp add: wlan_ok_def)

text \<open>
  C1: the station and an access point that share the pairwise master key complete the handshake: on
  message 1 the station answers with a message 2 that carries its nonce and its RSN element and that the
  access point accepts under the pairwise key IEEE 802.11 defines; on the message 3 signed and encrypted under
  that key it answers with a message 4 that the access point accepts, is connected, and holds the pairwise key
  and the group key of the access point.
\<close>
theorem wpa_handshake:
  assumes "env_ok e" "wlan_ok s" "\<not> w_keys_on s"
    and "kf_ok k1" "kf_info k1 = 0x008a" "length mic1 = 16"
    and "ptk = ieee_ptk (w_pmk s) (w_bssid s) (w_mac s) (kf_nonce k1) (w_snonce s)"
    and "key_data_ok els kid key pad"
    and "kf_ok k3" "kf_info k3 = 0x13ca" "kf_data k3 = rfc3394_wrap (slice 16 16 ptk) (key_data els kid key pad)"
  shows "\<exists>s1 s2 h2 m2 h4 m4.
    handle_eapol e (kf_bytes k1 mic1) s = Some s1 \<and> w_radio s1 = w_radio s @ [Tx_mgmt (h2 @ m2)] \<and> length h2 = 32
    \<and> ap_accepts (take 16 ptk) 0x010a (kf_replay k1) m2 \<and> slice 17 32 m2 = w_snonce s \<and> drop 99 m2 = rsn_ie
    \<and> handle_eapol e (kf_signed (take 16 ptk) k3) s1 = Some s2
    \<and> w_radio s2 = w_radio s1 @ [Tx_mgmt (h4 @ m4)] \<and> length h4 = 32
    \<and> ap_accepts (take 16 ptk) 0x030a (kf_replay k3) m4
    \<and> w_state s2 = S_DONE \<and> w_ptk s2 = ptk \<and> w_gtk_id s2 = kid \<and> take (w_gtk_len s2) (w_gtk s2) = key"
proof -
  let ?K2 = "sent_key 0x010a (kf_replay k1) (Some (w_snonce s)) rsn_ie"
  let ?K4 = "sent_key 0x030a (kf_replay k3) None []"
  let ?h2 = "fst (hdr80211 0x0108 (w_bssid s) (w_mac s) (w_bssid s) s) @ llc_eapol"
  let ?s1 = "radio_do (Tx_mgmt (?h2 @ kf_signed (take 16 ptk) ?K2))
      (s\<lparr>w_anonce := kf_nonce k1, w_ptk := ptk, w_seq := (w_seq s + 1) AND 0xfff\<rparr>)"
  have l: "length (w_bssid s) = 6" "length (w_mac s) = 6" "length (w_snonce s) = 32" "length (kf_nonce k1) = 32"
    "length (kf_replay k1) = 8" "length (kf_replay k3) = 8"
    using assms(2,4,9) by (simp_all add: wlan_ok_def kf_ok_def)
  have s1: "handle_eapol e (kf_bytes k1 mic1) s = Some ?s1"
    using message_1_answer [OF assms(1-4,6,5,7)] by simp
  have k2: "kf_ok ?K2" "kf_info ?K2 = 0x010a" "kf_replay ?K2 = kf_replay k1" "kf_nonce ?K2 = w_snonce s" "kf_data ?K2 = rsn_ie"
    using l by (simp_all add: kf_ok_def sent_key_def rsn_ie_def)
  have k4: "kf_ok ?K4" "kf_info ?K4 = 0x030a" "kf_replay ?K4 = kf_replay k3"
    using l by (simp_all add: kf_ok_def sent_key_def)
  have m2: "ap_accepts (take 16 ptk) 0x010a (kf_replay k1) (kf_signed (take 16 ptk) ?K2)"
    using kf_signed_accepted [OF k2(1)] k2(2,3) by simp
  have m2n: "slice 17 32 (kf_signed (take 16 ptk) ?K2) = w_snonce s" "drop 99 (kf_signed (take 16 ptk) ?K2) = rsn_ie"
    using kf_fields(2,4) [OF k2(1), of "take 16 (rfc2104_hmac (take 16 ptk) (kf_bytes ?K2 (replicate 16 0)))"]
      kf_length [OF k2(1), of "take 16 (rfc2104_hmac (take 16 ptk) (kf_bytes ?K2 (replicate 16 0)))"] k2(4,5)
    by (simp_all add: kf_signed_def slice_def)
  have m4: "ap_accepts (take 16 ptk) 0x030a (kf_replay k3) (kf_signed (take 16 ptk) ?K4)"
    using kf_signed_accepted [OF k4(1)] k4(2,3) by simp
  have p: "length ptk = 48" using assms(7) length_ieee_ptk by simp
  have ok1: "wlan_ok ?s1" using wlan_ok_keys [OF assms(2) l(4) p] by (simp add: radio_do_def)
  have ptk1: "w_ptk ?s1 = ptk" "\<not> w_keys_on ?s1" "w_bssid ?s1 = w_bssid s" "w_mac ?s1 = w_mac s"
    using assms(3) by (simp_all add: radio_do_def)
  obtain s2 h4 where s2: "handle_eapol e (kf_signed (take 16 ptk) k3) ?s1 = Some s2"
    "w_radio s2 = w_radio ?s1 @ [Tx_mgmt (h4 @ kf_signed (take 16 ptk) ?K4)]" "length h4 = 32"
    "w_state s2 = S_DONE" "w_ptk s2 = ptk" "w_gtk_id s2 = kid" "take (w_gtk_len s2) (w_gtk s2) = key"
    using message_3_answer [OF assms(1) ok1 ptk1(2) assms(9,8) _ assms(10)] assms(11) unfolding ptk1(1) by blast
  have h: "length ?h2 = 32" using l by (simp add: hdr80211_length llc_eapol_def)
  have r: "w_radio ?s1 = w_radio s @ [Tx_mgmt (?h2 @ kf_signed (take 16 ptk) ?K2)]" by (simp add: radio_do_def)
  show ?thesis using s1 r h m2 m2n s2 m4 by blast
qed

text \<open>A station and an access point to try it on.\<close>

definition demo_env :: wenv where
  "demo_env = \<lparr>stk = stale_sha1, stk_hmac = stale_hmac, cycles = of_nat, bulk_res = (\<lambda>_. 0), reg16 = (\<lambda>_ _. 0)\<rparr>"

definition station_at :: "wstate \<Rightarrow> bool \<Rightarrow> byte list \<Rightarrow> wlan" where
  "station_at st on k =
     \<lparr>w_scan_cb = False, w_scans = [], w_frame_rssi = -50, w_rssi = -100, w_ap_seen = 0, w_rekeys = 0,
      w_mac = [2, 0, 0, 0, 0, 1], w_bssid = [2, 0, 0, 0, 0, 9], w_seq = 5, w_state = st, w_ap_channel = 6,
      w_ssid = [0x61], w_psk = replicate 8 0x70, w_ap_rates = replicate 18 0, w_ap_xrates = replicate 18 0,
      w_rsn_ok = True, w_keys_on = on, w_data_be = False, w_data_rate = 8, w_pn = 1, w_rx_frames = 0,
      w_rx_data = 0, w_rx_undecrypted = 0, w_tx_data = 0, w_rx_max = 0, w_pmk = replicate 32 7, w_ptk = k,
      w_anonce = replicate 32 0, w_snonce = replicate 32 3, w_gtk = replicate 32 0, w_gtk_len = 0,
      w_gtk_id = 0, w_kd = replicate 256 0, w_inv_sbox = replicate 256 0, w_rx_cb = True, w_got = [],
      w_radio = [], w_now = 0, w_readings = 0\<rparr>"

definition demo_frame :: "u32 \<Rightarrow> byte list \<Rightarrow> key_frame" where
  "demo_frame info d =
     \<lparr>kf_info = info, kf_keylen = [0, 16], kf_replay = [0, 0, 0, 0, 0, 0, 0, 1], kf_nonce = replicate 32 5,
      kf_mid = replicate 32 0, kf_data = d\<rparr>"

definition demo_ptk :: "byte list" where
  "demo_ptk = ieee_ptk (replicate 32 7) [2, 0, 0, 0, 0, 9] [2, 0, 0, 0, 0, 1] (replicate 32 5) (replicate 32 3)"

definition demo_data :: "byte list \<Rightarrow> byte list" where
  "demo_data kek = rfc3394_wrap kek (key_data [rsn_ie] 1 (replicate 16 0x2a) [0xdd, 0])"

lemma demo_env_ok: "env_ok demo_env"
  by (simp add: env_ok_def demo_env_def stale_sha1_def stale_hmac_def)

lemma demo_station_ok: "length k = 48 \<Longrightarrow> wlan_ok (station_at st on k)"
  by (simp add: wlan_ok_def station_at_def)

lemma demo_key_data_ok: "key_data_ok [rsn_ie] 1 (replicate 16 0x2a) [0xdd, 0]"
proof -
  have "padding_ok [0xdd, 0]" unfolding padding_ok_def by (intro disjI2 exI [of _ 1]) simp
  then show ?thesis by (simp add: key_data_ok_def key_data_def element_ok_def rsn_ie_def gtk_kde_def)
qed

lemma demo_data_length: "length (demo_data kek) = 56"
  unfolding demo_data_def
  by (subst length_rfc3394_wrap [of _ 6]) (simp_all add: key_data_def rsn_ie_def gtk_kde_def)

lemma demo_frame_ok: "info < 65536 \<Longrightarrow> length d \<le> 100 \<Longrightarrow> kf_ok (demo_frame info d)"
  by (simp add: kf_ok_def demo_frame_def)

theorem wpa_handshake_witness:
  "\<exists>s1 s2 h2 m2 h4 m4.
    handle_eapol demo_env (kf_bytes (demo_frame 0x008a []) (replicate 16 0)) (station_at S_4WAY False (replicate 48 0)) = Some s1
    \<and> w_radio s1 = w_radio (station_at S_4WAY False (replicate 48 0)) @ [Tx_mgmt (h2 @ m2)] \<and> length h2 = 32
    \<and> ap_accepts (take 16 demo_ptk) 0x010a (kf_replay (demo_frame 0x008a [])) m2
    \<and> slice 17 32 m2 = w_snonce (station_at S_4WAY False (replicate 48 0)) \<and> drop 99 m2 = rsn_ie
    \<and> handle_eapol demo_env (kf_signed (take 16 demo_ptk) (demo_frame 0x13ca (demo_data (slice 16 16 demo_ptk)))) s1 = Some s2
    \<and> w_radio s2 = w_radio s1 @ [Tx_mgmt (h4 @ m4)] \<and> length h4 = 32
    \<and> ap_accepts (take 16 demo_ptk) 0x030a (kf_replay (demo_frame 0x13ca (demo_data (slice 16 16 demo_ptk)))) m4
    \<and> w_state s2 = S_DONE \<and> w_ptk s2 = demo_ptk \<and> w_gtk_id s2 = 1 \<and> take (w_gtk_len s2) (w_gtk s2) = replicate 16 0x2a"
  by (rule wpa_handshake [OF demo_env_ok demo_station_ok _ demo_frame_ok _ _ _ demo_key_data_ok demo_frame_ok])
    (simp_all add: demo_data_length station_at_def demo_frame_def demo_ptk_def demo_data_def [symmetric])

section \<open>Messages out of turn\<close>

text \<open>
  C39: a station that has seen no message 1 yet (its pairwise key is the zeros of static memory) takes a
  message 3 that anybody can make: signed and encrypted under the zero key, it connects the station, with the
  zero key as pairwise key and the sender's group key.
\<close>
theorem message_3_without_1:
  assumes "env_ok e" "wlan_ok s" "\<not> w_keys_on s" "w_ptk s = replicate 48 0"
    and "kf_ok k" "kf_info k = 0x13ca" "key_data_ok els kid key pad"
    and "kf_data k = rfc3394_wrap (replicate 16 0) (key_data els kid key pad)"
  shows "\<exists>s'. handle_eapol e (kf_signed (replicate 16 0) k) s = Some s' \<and> w_state s' = S_DONE
    \<and> w_ptk s' = replicate 48 0 \<and> w_gtk_id s' = kid \<and> take (w_gtk_len s') (w_gtk s') = key"
proof -
  have k: "take 16 (w_ptk s) = replicate 16 0" "slice 16 16 (w_ptk s) = replicate 16 0"
    using assms(4) by (simp_all add: slice_def)
  show ?thesis
    using message_3_answer [OF assms(1-3,5,7) _ assms(6)] assms(4,8) unfolding k by auto
qed

theorem message_3_without_1_witness:
  "\<exists>s'. handle_eapol demo_env (kf_signed (replicate 16 0) (demo_frame 0x13ca (demo_data (replicate 16 0))))
      (station_at S_4WAY False (replicate 48 0)) = Some s' \<and> w_state s' = S_DONE
    \<and> w_ptk s' = replicate 48 0 \<and> w_gtk_id s' = 1 \<and> take (w_gtk_len s') (w_gtk s') = replicate 16 0x2a"
  by (rule message_3_without_1 [OF demo_env_ok demo_station_ok _ _ demo_frame_ok _ demo_key_data_ok])
    (simp_all add: demo_data_length station_at_def demo_frame_def demo_data_def [symmetric])

section \<open>Packet numbers\<close>

text \<open>\<open>send_eapol\<close> always returns, and leaves the keys and their use as they are.\<close>

lemma wlan_send_keeps:
  "w_ptk (snd (wlan_send e dst ty d s)) = w_ptk s" "w_keys_on (snd (wlan_send e dst ty d s)) = w_keys_on s"
  "w_gtk (snd (wlan_send e dst ty d s)) = w_gtk s" "w_gtk_len (snd (wlan_send e dst ty d s)) = w_gtk_len s"
  "w_gtk_id (snd (wlan_send e dst ty d s)) = w_gtk_id s" "w_state (snd (wlan_send e dst ty d s)) = w_state s"
  "w_pmk (snd (wlan_send e dst ty d s)) = w_pmk s"
  by (simp_all add: wlan_send_def hdr80211_def wlan_tx_def radio_do_def Let_def)

lemma cam_write_keeps:
  "w_ptk (cam_write n i g k s) = w_ptk s" "w_state (cam_write n i g k s) = w_state s"
  "w_pmk (cam_write n i g k s) = w_pmk s" "w_keys_on (cam_write n i g k s) = w_keys_on s"
  by (simp_all add: cam_write_def radio_do_def)

lemma install_keeps:
  "w_ptk (wlan_install_keys e s) = w_ptk s" "w_state (wlan_install_keys e s) = w_state s"
  "w_pmk (wlan_install_keys e s) = w_pmk s" "w_keys_on (wlan_install_keys e s)"
  by (simp_all add: wlan_install_keys_def cam_write_keeps radio_do_def Let_def)

lemma send_eapol_keeps:
  assumes "send_eapol e info replay nonce d s = Some s'"
  shows "w_ptk s' = w_ptk s \<and> w_keys_on s' = w_keys_on s \<and> w_state s' = w_state s \<and> w_pmk s' = w_pmk s"
  using assms
  by (auto simp: send_eapol_def hdr80211_def Let_def wlan_send_keeps radio_do_def split: bind_splits if_splits)

lemma send_eapol_some:
  assumes "env_ok e" "length replay = 8" "length d < 1400" "\<And>n. nonce = Some n \<Longrightarrow> length n = 32"
  shows "\<exists>s'. send_eapol e info replay nonce d s = Some s'"
proof -
  have "length (eapol_key info replay nonce d) < 70000"
    using assms(2-4) by (cases nonce) (simp_all add: eapol_key_def)
  from mac_of_some [OF assms(1) this, of "w_ptk s"] show ?thesis by (simp add: send_eapol_def hdr80211_def Let_def)
qed

text \<open>
  A connected station takes a message 3 that it has answered before once more, whatever its replay
  counter: it loads the same pairwise key into the chip again and numbers the next packet 1.
\<close>
theorem message_3_again:
  assumes "env_ok e" "wlan_ok s" "w_keys_on s"
    and "kf_ok k" "kf_info k = 0x13ca" "key_data_ok els kid key pad"
    and "kf_data k = rfc3394_wrap (slice 16 16 (w_ptk s)) (key_data els kid key pad)"
  shows "\<exists>s'. handle_eapol e (kf_signed (take 16 (w_ptk s)) k) s = Some s' \<and> w_state s' = S_DONE \<and> w_keys_on s'
    \<and> w_ptk s' = w_ptk s \<and> w_pn s' = 1"
proof -
  obtain tab where t: "handle_eapol e (kf_signed (take 16 (w_ptk s)) k) s
      = do {
        s2 \<leftarrow> send_eapol e 0x030a (kf_replay k) None [] (took_gtk kid key tab (key_data els kid key pad) s);
        let s3 = (if w_keys_on s2
                  then (wlan_install_keys e s2)\<lparr>w_pn := 1, w_rekeys := w_rekeys s2 + 1\<rparr> else s2);
        Some (s3\<lparr>w_state := S_DONE\<rparr>)
      }"
    using message_3_signed [OF assms(1,2,4,6,7,5)] by blast
  define g where "g = took_gtk kid key tab (key_data els kid key pad) s"
  have g: "w_keys_on g" "w_ptk g = w_ptk s" using assms(3) by (simp_all add: g_def took_gtk_def)
  have "length (kf_replay k) = 8" using assms(4) by (simp add: kf_ok_def)
  then obtain s2 where s2: "send_eapol e 0x030a (kf_replay k) None [] g = Some s2"
    using send_eapol_some [OF assms(1)] by fastforce
  show ?thesis
    using t [folded g_def] send_eapol_keeps [OF s2] g by (simp add: s2 install_keeps)
qed

theorem message_3_again_witness:
  "\<exists>s'. handle_eapol demo_env (kf_signed (take 16 demo_ptk) (demo_frame 0x13ca (demo_data (slice 16 16 demo_ptk))))
      (station_at S_DONE True demo_ptk) = Some s' \<and> w_state s' = S_DONE \<and> w_keys_on s'
    \<and> w_ptk s' = demo_ptk \<and> w_pn s' = 1"
proof -
  have k: "w_ptk (station_at S_DONE True demo_ptk) = demo_ptk" by (simp add: station_at_def)
  have d: "kf_ok (demo_frame 0x13ca (demo_data (slice 16 16 demo_ptk)))"
    by (rule demo_frame_ok) (simp_all add: demo_data_length)
  show ?thesis
    using message_3_again [OF demo_env_ok demo_station_ok [of demo_ptk S_DONE True] _ d _ demo_key_data_ok]
    unfolding k by (simp add: demo_ptk_def length_ieee_ptk station_at_def demo_frame_def demo_data_def)
qed

definition sends :: "wenv \<Rightarrow> (byte list \<times> u32 \<times> byte list) list \<Rightarrow> wlan \<Rightarrow> wlan" where
  "sends e fs s = fold (\<lambda>f s. snd (wlan_send e (fst f) (fst (snd f)) (snd (snd f)) s)) fs s"

lemma length_tx_desc: "length (tx_desc f sec rate be) = 40"
  by (simp add: tx_desc_def word_bytes_def)

lemma wlan_send_frame:
  assumes "w_keys_on s" "length (w_mac s) = 6" "length (w_bssid s) = 6" "length dst = 6" "length d \<le> 1500"
  shows "\<exists>f s'. wlan_send e dst ty d s = (bulk_res e (w_radio s'), s')
    \<and> w_radio s' = w_radio s @ [Bulk_out (if w_data_be s then 0x03 else 0x02) f] \<and> slice 64 8 f = ccmp_header (w_pn s)
    \<and> w_pn s' = w_pn s + 1 \<and> w_keys_on s' \<and> w_mac s' = w_mac s \<and> w_bssid s' = w_bssid s \<and> w_data_be s' = w_data_be s"
proof -
  define h where "h = fst (hdr80211 0x4108 (w_bssid s) (w_mac s) dst s)"
  define fr where "fr = h @ ccmp_header (w_pn s) @ [0xaa, 0xaa, 0x03, 0, 0, 0] @ put_be16 ty @ d"
  define s2 where "s2 = s\<lparr>w_seq := (w_seq s + 1) AND 0xfff, w_pn := w_pn s + 1, w_tx_data := w_tx_data s + 1\<rparr>"
  have lh: "length h = 24" unfolding h_def by (rule hdr80211_length) (use assms in simp_all)
  have lc: "length (ccmp_header (w_pn s)) = 8" by (simp add: ccmp_header_def)
  have run: "wlan_send e dst ty d s = wlan_tx e fr True (w_data_rate s) s2"
    using assms(1,5) by (simp add: wlan_send_def hdr80211_def fr_def h_def s2_def)
  have "length fr \<le> 2048" using assms(5) lh lc by (simp add: fr_def)
  moreover have "slice 64 8 ((tx_desc fr True (w_data_rate s) (w_data_be s))[28 := a, 29 := b] @ fr) = ccmp_header (w_pn s)" for a b
    using lh lc by (simp add: slice_def length_tx_desc fr_def)
  ultimately show ?thesis
    unfolding run by (simp add: wlan_tx_def Let_def radio_do_def s2_def assms(1))
qed

lemma sends_frames:
  assumes "length (w_mac s) = 6" "length (w_bssid s) = 6" "\<And>f. f \<in> set fs \<Longrightarrow> length (fst f) = 6 \<and> length (snd (snd f)) \<le> 1500"
    "w_keys_on s"
  shows "\<exists>gs. w_radio (sends e fs s) = w_radio s @ map (Bulk_out (if w_data_be s then 0x03 else 0x02)) gs
    \<and> map (slice 64 8) gs = map (\<lambda>i. ccmp_header (w_pn s + of_nat i)) [0..<length fs]"
  using assms
proof (induction fs arbitrary: s)
  case Nil
  then show ?case by (simp add: sends_def)
next
  case (Cons f fs)
  obtain g s' where g: "wlan_send e (fst f) (fst (snd f)) (snd (snd f)) s = (bulk_res e (w_radio s'), s')"
    "w_radio s' = w_radio s @ [Bulk_out (if w_data_be s then 0x03 else 0x02) g]" "slice 64 8 g = ccmp_header (w_pn s)"
    "w_pn s' = w_pn s + 1" "w_keys_on s'" "w_mac s' = w_mac s" "w_bssid s' = w_bssid s" "w_data_be s' = w_data_be s"
    using wlan_send_frame [of s "fst f" "snd (snd f)" e "fst (snd f)"] Cons.prems by auto
  obtain gs where gs: "w_radio (sends e fs s') = w_radio s' @ map (Bulk_out (if w_data_be s then 0x03 else 0x02)) gs"
    "map (slice 64 8) gs = map (\<lambda>i. ccmp_header (w_pn s + 1 + of_nat i)) [0..<length fs]"
    using Cons.IH [of s'] Cons.prems g by auto
  have "sends e (f # fs) s = sends e fs s'" by (simp add: sends_def g(1))
  moreover have "map (\<lambda>i. ccmp_header (w_pn s + of_nat i)) [0..<length (f # fs)]
      = ccmp_header (w_pn s) # map (\<lambda>i. ccmp_header (w_pn s + 1 + of_nat i)) [0..<length fs]"
    unfolding length_Cons map_upt_Suc by (simp add: add.assoc)
  ultimately show ?case using g gs by (intro exI [of _ "g # gs"]) simp
qed

lemma ccmp_header_inj: "ccmp_header a = ccmp_header b \<Longrightarrow> a = b"
proof (rule bit_word_eqI)
  fix n assume eq: "ccmp_header a = ccmp_header b" and n: "n < LENGTH(32)"
  have low: "take_bit 8 (drop_bit k a) = take_bit 8 (drop_bit k b)" if "k \<in> {0, 8, 16, 24}" for k
  proof -
    have "(ucast (drop_bit k a) :: byte) = ucast (drop_bit k b)"
      using eq that by (auto simp: ccmp_header_def)
    then have "(ucast (ucast (drop_bit k a) :: byte) :: u32) = ucast (ucast (drop_bit k b) :: byte)" by simp
    then show ?thesis by (simp add: unsigned_ucast_eq)
  qed
  have "n div 8 = 0 \<or> n div 8 = 1 \<or> n div 8 = 2 \<or> n div 8 = 3" using n by auto
  then have m: "8 * (n div 8) \<in> {0, 8, 16, 24}" by auto
  have "bit (take_bit 8 (drop_bit (8 * (n div 8)) a)) (n mod 8) = bit (take_bit 8 (drop_bit (8 * (n div 8)) b)) (n mod 8)"
    using low [OF m] by simp
  then show "bit a n = bit b n" by (simp add: bit_take_bit_iff bit_drop_bit_eq)
qed

text \<open>
  Between two handshakes the frames of the station carry the packet numbers from \<open>wlan_pn\<close> on, in
  order, in their CCMP headers, and no number twice, for as many frames as 32 bits count.
\<close>
theorem ccmp_numbers_distinct:
  assumes "w_keys_on s" "length (w_mac s) = 6" "length (w_bssid s) = 6"
    and "list_all (\<lambda>f. length (fst f) = 6 \<and> length (snd (snd f)) \<le> 1500) fs" "length fs \<le> two32"
  shows "\<exists>gs. w_radio (sends e fs s) = w_radio s @ map (Bulk_out (if w_data_be s then 0x03 else 0x02)) gs
    \<and> map (slice 64 8) gs = map (\<lambda>i. ccmp_header (w_pn s + of_nat i)) [0..<length fs]
    \<and> distinct (map (slice 64 8) gs)"
proof -
  obtain gs where gs: "w_radio (sends e fs s) = w_radio s @ map (Bulk_out (if w_data_be s then 0x03 else 0x02)) gs"
    "map (slice 64 8) gs = map (\<lambda>i. ccmp_header (w_pn s + of_nat i)) [0..<length fs]"
    using sends_frames [OF assms(2,3) _ assms(1), of fs e] assms(4) by (auto simp: list_all_iff)
  have "i = j" if "ccmp_header (w_pn s + of_nat i) = ccmp_header (w_pn s + of_nat j)" "i < length fs" "j < length fs" for i j
  proof -
    have "(of_nat i :: u32) = of_nat j" using ccmp_header_inj [OF that(1)] by simp
    then have "unat (of_nat i :: u32) = unat (of_nat j :: u32)" by simp
    then show ?thesis using that(2,3) assms(5) by (simp add: unat_of_nat)
  qed
  then have "distinct (map (\<lambda>i. ccmp_header (w_pn s + of_nat i)) [0..<length fs])"
    by (simp add: distinct_map inj_on_def)
  then show ?thesis using gs by metis
qed

theorem ccmp_numbers_distinct_witness:
  "\<exists>gs. w_radio (sends demo_env [(bcast, 0x0800, [1, 2]), (bcast, 0x0806, [])] (station_at S_DONE True demo_ptk))
      = w_radio (station_at S_DONE True demo_ptk)
        @ map (Bulk_out (if w_data_be (station_at S_DONE True demo_ptk) then 0x03 else 0x02)) gs
    \<and> map (slice 64 8) gs = map (\<lambda>i. ccmp_header (w_pn (station_at S_DONE True demo_ptk) + of_nat i))
        [0..<length [(bcast, 0x0800 :: u32, [1, 2 :: byte]), (bcast, 0x0806, [])]]
    \<and> distinct (map (slice 64 8) gs)"
  by (rule ccmp_numbers_distinct) (simp_all add: station_at_def bcast_def)

section \<open>WIFI.TXT\<close>

lemma line_value_at:
  assumes "length v \<le> n" "\<forall>c\<in>set v. c \<noteq> 13 \<and> c \<noteq> 10" "rest = [] \<or> hd rest = 13 \<or> hd rest = 10"
  shows "line_value n (v @ rest) = v"
proof -
  have "takeWhile (\<lambda>c. c \<noteq> 13 \<and> c \<noteq> 10) rest = []" using assms(3) by (cases rest) auto
  then have "takeWhile (\<lambda>c. c \<noteq> 13 \<and> c \<noteq> 10) (v @ rest) = v"
    using takeWhile_append2 [of v "\<lambda>c. c \<noteq> 13 \<and> c \<noteq> 10" rest] assms(2) by simp
  then show ?thesis using assms(1) by (simp add: line_value_def)
qed

text \<open>The ends of a line the file may have.\<close>

definition eol :: "byte list \<Rightarrow> bool" where
  "eol l = (l = [10] \<or> l = [13, 10])"

lemma next_line:
  assumes "\<forall>c\<in>set v. c \<noteq> 13 \<and> c \<noteq> 10" "eol l"
  shows "tl (dropWhile (\<lambda>c. c \<noteq> 10) (v @ l @ rest)) = rest"
proof -
  have "dropWhile (\<lambda>c. c \<noteq> 10) (v @ l @ rest) = 10 # rest"
    using assms by (auto simp: eol_def dropWhile_append2)
  then show ?thesis by simp
qed

lemma wifi_skip:
  "t \<noteq> [] \<Longrightarrow> take 5 t \<noteq> [0x73, 0x73, 0x69, 0x64, 0x3d] \<Longrightarrow> take 4 t \<noteq> [0x70, 0x73, 0x6b, 0x3d] \<Longrightarrow>
    wifi_lines t s = wifi_lines (tl (dropWhile (\<lambda>c. c \<noteq> 10) t)) s"
  by (subst wifi_lines.simps) simp

text \<open>
  A WIFI.TXT with an \<open>ssid=\<close> line of 1 to 32 and a \<open>psk=\<close> line of 1 to 63 characters, ended as on
  Unix or on Windows, with a line of another name before, gives exactly these two strings.
\<close>
theorem wifi_txt_read:
  assumes "1 \<le> length name" "length name \<le> 32" "1 \<le> length pass" "length pass \<le> 63"
    and "\<forall>c\<in>set (name @ pass @ other). c \<noteq> 13 \<and> c \<noteq> 10" "eol l"
    and "other \<noteq> []" "take 5 other \<noteq> [0x73, 0x73, 0x69, 0x64, 0x3d]" "take 4 other \<noteq> [0x70, 0x73, 0x6b, 0x3d]"
    and "length other \<ge> 5"
  shows "read_wifi_txt (other @ l @ [0x73, 0x73, 0x69, 0x64, 0x3d] @ name @ l @ [0x70, 0x73, 0x6b, 0x3d] @ pass @ l) s
    = (0, s\<lparr>w_ssid := name, w_psk := pass\<rparr>)"
proof -
  let ?s = "[0x73, 0x73, 0x69, 0x64, 0x3d] :: byte list" and ?p = "[0x70, 0x73, 0x6b, 0x3d] :: byte list"
  have c: "\<forall>c\<in>set name. c \<noteq> 13 \<and> c \<noteq> 10" "\<forall>c\<in>set pass. c \<noteq> 13 \<and> c \<noteq> 10" "\<forall>c\<in>set other. c \<noteq> 13 \<and> c \<noteq> 10"
    using assms(5) by auto
  have sp: "\<forall>c\<in>set (?s @ name). c \<noteq> 13 \<and> c \<noteq> 10" "\<forall>c\<in>set (?p @ pass). c \<noteq> 13 \<and> c \<noteq> 10"
    using c by auto
  have l: "hd (l @ r) = 13 \<or> hd (l @ r) = 10" "l @ r \<noteq> []" for r using assms(6) by (auto simp: eol_def)
  have v1: "line_value 32 (name @ l @ ?p @ pass @ l) = name" by (rule line_value_at) (use assms(2) c l in auto)
  have v2: "line_value 63 (pass @ l) = pass" by (rule line_value_at) (use assms(4) c l [of "[]"] in auto)
  have n1: "tl (dropWhile (\<lambda>c. c \<noteq> 10) (other @ l @ ?s @ name @ l @ ?p @ pass @ l)) = ?s @ name @ l @ ?p @ pass @ l"
    by (rule next_line [OF c(3) assms(6)])
  have n2: "tl (dropWhile (\<lambda>c. c \<noteq> 10) (?s @ name @ l @ ?p @ pass @ l)) = ?p @ pass @ l"
    using next_line [OF sp(1) assms(6)] by simp
  have n3: "tl (dropWhile (\<lambda>c. c \<noteq> 10) (?p @ pass @ l)) = []"
    using next_line [OF sp(2) assms(6), of "[]"] by simp
  have t: "take 5 (other @ r) = take 5 other" "take 4 (other @ r) = take 4 other" for r :: "byte list"
    using assms(10) by simp_all
  have "wifi_lines (other @ r) s = wifi_lines (tl (dropWhile (\<lambda>c. c \<noteq> 10) (other @ r))) s" for r
    by (rule wifi_skip) (unfold t, use assms(7-9) in simp_all)
  then have "wifi_lines (other @ l @ ?s @ name @ l @ ?p @ pass @ l) s = wifi_lines (?s @ name @ l @ ?p @ pass @ l) s"
    using n1 by metis
  also have "\<dots> = wifi_lines (?p @ pass @ l) (s\<lparr>w_ssid := name\<rparr>)"
    by (subst wifi_lines.simps) (use v1 n2 in \<open>simp add: Let_def\<close>)
  finally have "wifi_lines (other @ l @ ?s @ name @ l @ ?p @ pass @ l) s
      = wifi_lines (?p @ pass @ l) (s\<lparr>w_ssid := name\<rparr>)" .
  moreover have "\<dots> = s\<lparr>w_ssid := name, w_psk := pass\<rparr>"
    by (subst wifi_lines.simps) (use v2 n3 in \<open>simp add: Let_def wifi_lines.simps [of "[]"]\<close>)
  moreover have "name \<noteq> []" "pass \<noteq> []" using assms(1,3) by auto
  ultimately show ?thesis by (simp add: read_wifi_txt_def Let_def)
qed

theorem wifi_txt_read_witness:
  "read_wifi_txt ([0x23, 0x20, 0x61, 0x62, 0x63] @ [13, 10] @ [0x73, 0x73, 0x69, 0x64, 0x3d] @ [0x6d, 0x79] @ [13, 10]
      @ [0x70, 0x73, 0x6b, 0x3d] @ [0x70, 0x77] @ [13, 10]) (station_at S_IDLE False [])
    = (0, (station_at S_IDLE False [])\<lparr>w_ssid := [0x6d, 0x79], w_psk := [0x70, 0x77]\<rparr>)"
  by (rule wifi_txt_read) (simp_all add: eol_def)

end
