(* ===== verification/WlanSafe.thy ===== *)
theory WlanSafe
  imports WlanProps "HOL-Library.Sublist"
begin

text \<open>
  What the station does while nobody it listens to knows the keys: every frame is handled within its
  bytes and none of them connects it.
\<close>

section \<open>Keys and messages\<close>

definition valid_mic :: "wenv \<Rightarrow> byte list \<Rightarrow> byte list \<Rightarrow> bool" where
  "valid_mic e kck f =
     (\<exists>m. mac_of e kck (take (4 + unat (be16 f 2)) (put_slice EK_MIC (replicate 16 0) f)) = Some m
        \<and> slice EK_MIC 16 f = take 16 m)"

text \<open>A pairwise key of the station: made from the master key, or the one it held before.\<close>

definition own_key :: "wenv \<Rightarrow> byte list \<Rightarrow> byte list \<Rightarrow> byte list \<Rightarrow> bool" where
  "own_key e pmk k0 k = (k = k0 \<or> (\<exists>d. wpa_prf (stk e) (stk_hmac e) pmk ptk_label d 48 = Some k))"

text \<open>No part of the buffer is a message with a MIC of such a key.\<close>

definition keyless :: "wenv \<Rightarrow> byte list \<Rightarrow> byte list \<Rightarrow> byte list \<Rightarrow> bool" where
  "keyless e pmk k0 b = (\<forall>f k. sublist f b \<longrightarrow> own_key e pmk k0 k \<longrightarrow> \<not> valid_mic e (take 16 k) f)"

lemma keyless_sublist: "keyless e pmk k0 b \<Longrightarrow> sublist f b \<Longrightarrow> keyless e pmk k0 f"
  unfolding keyless_def by (meson sublist_order.order_trans)

lemma keyless_drop: "keyless e pmk k0 b \<Longrightarrow> keyless e pmk k0 (drop n b)"
  by (erule keyless_sublist) simp

lemma keyless_slice: "keyless e pmk k0 b \<Longrightarrow> keyless e pmk k0 (slice i n b)"
  unfolding slice_def
  by (rule keyless_sublist [of _ _ _ "drop i b"]) (simp_all add: keyless_drop)

text \<open>The station between two frames.\<close>

definition waiting :: "wenv \<Rightarrow> byte list \<Rightarrow> byte list \<Rightarrow> wlan \<Rightarrow> bool" where
  "waiting e pmk k0 s = (wlan_ok s \<and> w_pmk s = pmk \<and> own_key e pmk k0 (w_ptk s) \<and> w_state s \<noteq> S_DONE)"

text \<open>What it depends on.\<close>

definition core :: "wlan \<Rightarrow> _" where
  "core s = (w_mac s, w_bssid s, w_pmk s, w_snonce s, w_anonce s, w_gtk s, w_kd s, w_ptk s, w_inv_sbox s, w_state s)"

lemma waiting_core: "core s' = core s \<Longrightarrow> waiting e pmk k0 s' = waiting e pmk k0 s"
  by (simp add: waiting_def wlan_ok_def core_def)

lemma waiting_state: "waiting e pmk k0 s \<Longrightarrow> st \<noteq> S_DONE \<Longrightarrow> waiting e pmk k0 (s\<lparr>w_state := st\<rparr>)"
  by (auto simp: waiting_def wlan_ok_def)

lemma core_radio: "core (radio_do r s) = core s"
  by (simp add: core_def radio_do_def)

lemma core_seq: "core (s\<lparr>w_seq := n\<rparr>) = core s"
  by (simp add: core_def)

lemma core_send: "core (snd (wlan_send e dst ty d s)) = core s"
  by (simp add: core_def wlan_send_def hdr80211_def wlan_tx_def radio_do_def Let_def)

lemma core_probe: "core (send_probe_for n s) = core s"
  by (simp add: core_def send_probe_for_def hdr80211_def radio_do_def)

lemma core_send_auth: "core (send_auth s) = core s"
  by (simp add: core_def send_auth_def hdr80211_def radio_do_def)

lemma core_send_assoc: "core (send_assoc s) = core s"
  by (simp add: core_def send_assoc_def hdr80211_def radio_do_def)

lemma core_send_deauth: "core (send_deauth s) = core s"
  by (simp add: core_def send_deauth_def hdr80211_def radio_do_def)

lemma core_set_channel: "core (set_channel ch s) = core s"
  by (simp add: core_def set_channel_def radio_do_def)

lemma core_keys_off: "core (wlan_keys_off s) = core s"
  by (simp add: core_def wlan_keys_off_def radio_do_def)

lemma core_frame_seen: "core (frame_seen f s) = core s"
  by (simp add: core_def frame_seen_def Let_def)

lemma core_scan_beacon: "core (scan_beacon f s) = core s"
  by (simp add: core_def scan_beacon_def split: prod.splits)

lemma core_send_eapol: "send_eapol e info replay nonce d s = Some s' \<Longrightarrow> core s' = core s"
  by (auto simp: send_eapol_def hdr80211_def Let_def core_send core_radio core_seq split: bind_splits if_splits)

lemmas core_simps = core_send core_probe core_send_auth core_send_assoc core_send_deauth core_set_channel core_keys_off
  core_frame_seen core_scan_beacon

section \<open>EAPOL\<close>

lemma mic_ok_keyless:
  assumes "env_ok e" "waiting e pmk k0 s" "keyless e pmk k0 f" "length f < 16384" "99 \<le> length f"
    "elen = 4 + unat (be16 f 2)"
  shows "mic_ok e f elen s = Some False"
proof -
  have "length (take elen (put_slice EK_MIC (replicate 16 0) f)) < 70000"
    using assms(4,5) by (simp add: put_slice_def EK_MIC_def)
  from mac_of_some [OF assms(1) this, of "w_ptk s"]
  obtain m where m: "mac_of e (take 16 (w_ptk s)) (take elen (put_slice EK_MIC (replicate 16 0) f)) = Some m" by blast
  have "\<not> valid_mic e (take 16 (w_ptk s)) f"
    using assms(2,3) unfolding keyless_def waiting_def by blast
  then show ?thesis using m assms(6) by (simp add: mic_ok_def valid_mic_def)
qed

lemma waiting_derive:
  assumes "env_ok e" "waiting e pmk k0 s" "length an = 32"
  shows "\<exists>s'. derive_ptk e (s\<lparr>w_anonce := an\<rparr>) = Some s' \<and> waiting e pmk k0 s' \<and> length (w_snonce s') = 32"
proof -
  let ?s = "s\<lparr>w_anonce := an\<rparr>"
  have ok: "wlan_ok ?s" using assms(2,3) by (auto simp: waiting_def wlan_ok_def)
  note d = derive_ptk_ieee [OF assms(1) ok]
  have "own_key e pmk k0 (ieee_ptk (w_pmk ?s) (w_bssid ?s) (w_mac ?s) (w_anonce ?s) (w_snonce ?s))"
    using ptk_prf [OF assms(1) ok] assms(2) unfolding own_key_def waiting_def by auto
  then show ?thesis
    using d assms(2) ok length_ieee_ptk by (auto simp: waiting_def wlan_ok_def)
qed

lemma new_snonce_some:
  assumes "env_ok e" "wlan_ok s"
  shows "\<exists>s'. new_snonce e s = Some s' \<and> length (w_snonce s') = 32
    \<and> s' = s\<lparr>w_snonce := w_snonce s', w_readings := w_readings s'\<rparr>"
proof -
  have m: "mac_of e (take 16 (drop 16 (w_pmk s))) d = Some (rfc2104_hmac (take 16 (drop 16 (w_pmk s))) d)" if "length d < 70000" for d
    by (rule mac_of_some [OF assms(1) that])
  have l: "length (take 16 (w_pmk s) @ w_mac s @ word_bytes c @ x) = 26 + length x" for c x
    using assms(2) by (simp add: wlan_ok_def word_bytes_def)
  show ?thesis using m l by (simp add: new_snonce_def read_cycles_def Let_def)
qed

lemma message_1_waiting:
  assumes "env_ok e" "waiting e pmk k0 s" "99 \<le> length f"
  shows "\<exists>s'. message_1 e f s = Some s' \<and> waiting e pmk k0 s'"
proof -
  have ok: "wlan_ok s" using assms(2) by (simp add: waiting_def)
  obtain s0 where s0: "new_snonce e s = Some s0" "length (w_snonce s0) = 32"
    "s0 = s\<lparr>w_snonce := w_snonce s0, w_readings := w_readings s0\<rparr>"
    using new_snonce_some [OF assms(1) ok] by blast
  have "waiting e pmk k0 (s\<lparr>w_snonce := w_snonce s0, w_readings := w_readings s0\<rparr>)"
    using assms(2) s0(2) by (auto simp: waiting_def wlan_ok_def)
  then have "waiting e pmk k0 s0" using s0(3) by simp
  then obtain s1 where s1: "(if w_keys_on s then new_snonce e s else Some s) = Some s1" "waiting e pmk k0 s1"
    using s0(1) assms(2) by (cases "w_keys_on s") auto
  have "length (slice EK_NONCE 32 f) = 32" using assms(3) by (simp add: slice_def EK_NONCE_def)
  from waiting_derive [OF assms(1) s1(2) this]
  obtain s2 where s2: "derive_ptk e (s1\<lparr>w_anonce := slice EK_NONCE 32 f\<rparr>) = Some s2" "waiting e pmk k0 s2" "length (w_snonce s2) = 32"
    by blast
  have "\<exists>s'. send_eapol e (KI_VER2 OR KI_PAIRWISE OR KI_MIC) (slice EK_REPLAY 8 f) (Some (w_snonce s2)) rsn_ie s2 = Some s'"
    by (rule send_eapol_some [OF assms(1)]) (use assms(3) s2(3) in \<open>auto simp: slice_def EK_REPLAY_def rsn_ie_def\<close>)
  then obtain s' where s': "send_eapol e (KI_VER2 OR KI_PAIRWISE OR KI_MIC) (slice EK_REPLAY 8 f) (Some (w_snonce s2)) rsn_ie s2 = Some s'" ..
  then show ?thesis
    using s1(1) s2(1,2) waiting_core [OF core_send_eapol [OF s']] by (simp add: message_1_def)
qed

lemma handle_eapol_waiting:
  assumes "env_ok e" "waiting e pmk k0 s" "keyless e pmk k0 f" "length f < 16384"
  shows "\<exists>s'. handle_eapol e f s = Some s' \<and> waiting e pmk k0 s'"
proof (cases "length f < EK_DATA \<or> f ! 1 \<noteq> 3 \<or> f ! 4 \<noteq> 2")
  case True
  then show ?thesis using assms(2) by (simp add: handle_eapol_def)
next
  case False
  then have len: "99 \<le> length f" by (simp add: EK_DATA_def)
  have mic: "mic_ok e f (4 + unat (be16 f 2)) s = Some False" by (rule mic_ok_keyless [OF assms len refl])
  have fail: "waiting e pmk k0 (s\<lparr>w_state := S_FAIL\<rparr>)" using assms(2) by (simp add: waiting_state)
  show ?thesis
    unfolding handle_eapol_def if_not_P [OF False] Let_def group_message_def message_3_def mic
    using message_1_waiting [OF assms(1,2) len] fail assms(2) by simp
qed

section \<open>Frames\<close>

lemma join_ie_keeps:
  "core (snd (snd (snd (join_ie ie x)))) = core (snd (snd (snd x)))"
  by (cases x) (simp add: join_ie_def core_def)

lemma join_fold_keeps: "core (snd (snd (snd (fold join_ie els x)))) = core (snd (snd (snd x)))"
  by (induction els arbitrary: x) (simp_all add: join_ie_keeps)

lemma join_beacon_waiting:
  assumes "waiting e pmk k0 s" "24 \<le> length f"
  shows "waiting e pmk k0 (join_beacon f s)"
proof -
  obtain match ch rsn s1 where x: "fold join_ie (ies f 36) (False, 0, False, s) = (match, ch, rsn, s1)"
    by (cases "fold join_ie (ies f 36) (False, 0, False, s)")
  have "core s1 = core s" using join_fold_keeps [of "ies f 36" "(False, 0, False, s)"] by (simp add: x)
  then have "waiting e pmk k0 s1" using waiting_core assms(1) by blast
  moreover have "length (slice 16 6 f) = 6" using assms(2) by (simp add: slice_def)
  ultimately show ?thesis by (auto simp: join_beacon_def x waiting_def wlan_ok_def)
qed

lemma frame_for_us_waiting:
  assumes "env_ok e" "waiting e pmk k0 s" "keyless e pmk k0 f" "length f < 16384"
  shows "\<exists>s'. frame_for_us e f s = Some s' \<and> waiting e pmk k0 s'"
proof -
  have ep: "\<exists>s'. handle_eapol e (drop n f) s = Some s' \<and> waiting e pmk k0 s'" for n
    by (rule handle_eapol_waiting [OF assms(1,2) keyless_drop [OF assms(3)]]) (use assms(4) in simp)
  have w: "waiting e pmk k0 (s\<lparr>w_state := st\<rparr>)" if "st \<noteq> S_DONE" for st
    using assms(2) that by (rule waiting_state)
  have a: "waiting e pmk k0 (send_assoc (s\<lparr>w_state := S_ASSOC\<rparr>))"
    using w waiting_core [OF core_send_assoc] by simp
  show ?thesis unfolding frame_for_us_def Let_def using ep w a assms(2) by simp
qed

lemma handle_frame_waiting:
  assumes "env_ok e" "waiting e pmk k0 s" "keyless e pmk k0 f" "length f < 16384"
  shows "\<exists>s'. handle_frame e f decrypted s = Some s' \<and> waiting e pmk k0 s'"
proof (cases "length f < 24")
  case True
  then show ?thesis using assms(2) by (simp add: handle_frame_def)
next
  case False
  have w: "waiting e pmk k0 (frame_seen f s)" using assms(2) waiting_core [OF core_frame_seen] by blast
  have nd: "w_state (frame_seen f s) \<noteq> S_DONE" using w by (simp add: waiting_def)
  have b: "waiting e pmk k0 (scan_beacon f (frame_seen f s))" "waiting e pmk k0 (join_beacon f (frame_seen f s))"
    using w waiting_core [OF core_scan_beacon] join_beacon_waiting [OF w] False by simp_all
  show ?thesis
    unfolding handle_frame_def Let_def using False nd b w frame_for_us_waiting [OF assms(1) w assms(3,4)] by simp
qed

lemma handle_rx_waiting:
  assumes "env_ok e" "keyless e pmk k0 buf"
  shows "waiting e pmk k0 s \<Longrightarrow> \<exists>s'. handle_rx e buf off s = Some s' \<and> waiting e pmk k0 s'"
proof (induction "length buf - off" arbitrary: off s rule: less_induct)
  case less
  show ?case
  proof (cases "off + 24 \<le> length buf")
    case False
    then show ?thesis using less.prems by (subst handle_rx.simps) simp
  next
    case True
    let ?w0 = "le32 buf off"
    define n where "n = unat (?w0 AND 0x3fff)"
    define dr where "dr = 8 * unat (drop_bit 16 ?w0 AND 0xf)"
    define sh where "sh = unat (drop_bit 24 ?w0 AND 3)"
    define d where "d = (drop_bit 20 ?w0 AND 7 \<noteq> 0 \<and> \<not> bit ?w0 27)"
    define good where "good = (?w0 AND push_bit 14 3 = 0 \<and> \<not> bit (le32 buf (off + 8)) 28)"
    have run: "handle_rx e buf off s = (if n = 0 \<or> off + (24 + dr + sh + n) > length buf then Some s
        else (case (if good then handle_frame e (slice (off + 24 + dr + sh) n buf) d (s\<lparr>w_frame_rssi := frame_rssi buf off\<rparr>) else Some s) of
                None \<Rightarrow> None | Some s' \<Rightarrow> handle_rx e buf (off + 128 * ((24 + dr + sh + n + 127) div 128)) s'))"
      unfolding handle_rx.simps [of e buf off s] if_P [OF True] Let_def n_def dr_def sh_def d_def good_def ..
    show ?thesis
    proof (cases "n = 0 \<or> off + (24 + dr + sh + n) > length buf")
      case True
      then show ?thesis using less.prems run by auto
    next
      case False
      have "?w0 AND 0x3fff \<le> 0x3fff" by (rule word_and_le1)
      then have n: "n < 16384" by (simp add: n_def word_le_nat_alt)
      have len: "length (slice (off + 24 + dr + sh) n buf) < 16384" using n by (simp add: slice_def)
      have "waiting e pmk k0 (s\<lparr>w_frame_rssi := frame_rssi buf off\<rparr>)"
        using less.prems waiting_core [of "s\<lparr>w_frame_rssi := frame_rssi buf off\<rparr>" s] by (simp add: core_def)
      from handle_frame_waiting [OF assms(1) this keyless_slice [OF assms(2)], of "off + 24 + dr + sh" n d] len
      obtain s1 where s1: "handle_frame e (slice (off + 24 + dr + sh) n buf) d (s\<lparr>w_frame_rssi := frame_rssi buf off\<rparr>) = Some s1"
        "waiting e pmk k0 s1" by blast
      obtain s' where s': "(if good then handle_frame e (slice (off + 24 + dr + sh) n buf) d (s\<lparr>w_frame_rssi := frame_rssi buf off\<rparr>) else Some s)
          = Some s'" "waiting e pmk k0 s'"
        using s1 less.prems by (cases good) auto
      have "length buf - (off + 128 * ((24 + dr + sh + n + 127) div 128)) < length buf - off"
        using \<open>off + 24 \<le> length buf\<close> by linarith
      from less.hyps [OF this s'(2)] show ?thesis unfolding run if_not_P [OF False] s'(1) by simp
    qed
  qed
qed

section \<open>Listening and joining\<close>

definition keyless_air :: "wenv \<Rightarrow> byte list \<Rightarrow> byte list \<Rightarrow> air \<Rightarrow> bool" where
  "keyless_air e pmk k0 air = (\<forall>r\<in>set air. \<forall>b\<in>set (snd r). keyless e pmk k0 b)"

lemma rx_buffers_waiting:
  "env_ok e \<Longrightarrow> (\<forall>b\<in>set bs. keyless e pmk k0 b) \<Longrightarrow> waiting e pmk k0 s \<Longrightarrow>
    \<exists>s'. rx_buffers e bs s = Some s' \<and> waiting e pmk k0 s'"
proof (induction bs arbitrary: s)
  case (Cons b bs)
  then obtain s1 where "handle_rx e b 0 s = Some s1" "waiting e pmk k0 s1" using handle_rx_waiting [of e pmk k0 b s 0] by auto
  then show ?case using Cons.IH [of s1] Cons.prems by auto
qed simp

lemma waiting_now: "waiting e pmk k0 (s\<lparr>w_now := n\<rparr>) = waiting e pmk k0 s"
  by (rule waiting_core) (simp add: core_def)

definition air_ok :: "wenv \<Rightarrow> byte list \<Rightarrow> byte list \<Rightarrow> air \<times> wlan \<Rightarrow> bool" where
  "air_ok e pmk k0 x = (keyless_air e pmk k0 (fst x) \<and> waiting e pmk k0 (snd x))"

lemma listen_loop_waiting:
  assumes "env_ok e"
  shows "keyless_air e pmk k0 air \<Longrightarrow> waiting e pmk k0 s \<Longrightarrow>
    \<exists>y. listen_loop e ms until t0 st air s = Some y \<and> air_ok e pmk k0 y"
proof (induction air arbitrary: s)
  case Nil
  then show ?case by (simp add: air_ok_def keyless_air_def waiting_now)
next
  case (Cons r air)
  obtain dt bufs where r: "r = (dt, bufs)" by (cases r)
  have k: "\<forall>b\<in>set bufs. keyless e pmk k0 b" "keyless_air e pmk k0 air" using Cons.prems(1) by (auto simp: keyless_air_def r)
  obtain s1 where s1: "rx_buffers e bufs s = Some s1" "waiting e pmk k0 s1"
    using rx_buffers_waiting [OF assms k(1) Cons.prems(2)] by blast
  have "waiting e pmk k0 (s1\<lparr>w_now := w_now s1 + dt\<rparr>)" using s1(2) waiting_now by blast
  from Cons.IH [OF k(2) this] show ?case using Cons.prems s1(1) by (simp add: r air_ok_def)
qed

lemma wlan_listen_waiting:
  "env_ok e \<Longrightarrow> air_ok e pmk k0 x \<Longrightarrow> \<exists>y. wlan_listen e ms until x = Some y \<and> air_ok e pmk k0 y"
  using listen_loop_waiting [of e pmk k0 "fst x" "snd x" ms until "w_now (snd x)" "w_state (snd x)"]
  by (simp add: wlan_listen_def air_ok_def split_beta del: split_paired_Ex)

lemma air_ok_core: "air_ok e pmk k0 x \<Longrightarrow> core s = core (snd x) \<Longrightarrow> air_ok e pmk k0 (fst x, s)"
  using waiting_core [of s "snd x" e pmk k0] by (simp add: air_ok_def)

lemma find_network_waiting:
  assumes "env_ok e"
  shows "air_ok e pmk k0 x \<Longrightarrow> \<exists>y. find_network e chs x = Some y \<and> air_ok e pmk k0 y"
proof (induction chs arbitrary: x)
  case (Cons ch chs)
  have "air_ok e pmk k0 (fst x, send_probe (set_channel ch (snd x)))"
    using Cons.prems by (rule air_ok_core) (simp add: send_probe_def core_simps)
  from wlan_listen_waiting [OF assms this, of 250 True]
  obtain y where "wlan_listen e 250 True (fst x, send_probe (set_channel ch (snd x))) = Some y" "air_ok e pmk k0 y" by blast
  then show ?case using Cons by (simp del: split_paired_Ex)
qed simp

lemma auth_tries_waiting:
  assumes "env_ok e"
  shows "air_ok e pmk k0 x \<Longrightarrow> \<exists>y. auth_tries e n x = Some y \<and> air_ok e pmk k0 y"
proof (induction n arbitrary: x)
  case (Suc n)
  have "air_ok e pmk k0 (fst x, send_auth (snd x))" using Suc.prems by (rule air_ok_core) (simp add: core_simps)
  from wlan_listen_waiting [OF assms this, of 500 True]
  obtain y where "wlan_listen e 500 True (fst x, send_auth (snd x)) = Some y" "air_ok e pmk k0 y" by blast
  then show ?case using Suc by (simp del: split_paired_Ex)
qed simp

lemma assoc_tries_waiting:
  assumes "env_ok e"
  shows "air_ok e pmk k0 x \<Longrightarrow> \<exists>y. assoc_tries e n again x = Some y \<and> air_ok e pmk k0 y"
proof (induction n arbitrary: x again)
  case (Suc n)
  have "air_ok e pmk k0 (fst x, if again then send_assoc (snd x) else snd x)"
    using Suc.prems by (rule air_ok_core) (simp add: core_simps)
  from wlan_listen_waiting [OF assms this, of 800 True]
  obtain y where "wlan_listen e 800 True (fst x, if again then send_assoc (snd x) else snd x) = Some y" "air_ok e pmk k0 y" by blast
  then show ?case using Suc by (simp del: split_paired_Ex)
qed simp

lemma air_ok_state: "air_ok e pmk k0 (a, s) \<Longrightarrow> st \<noteq> S_DONE \<Longrightarrow> air_ok e pmk k0 (a, s\<lparr>w_state := st\<rparr>)"
  by (simp add: air_ok_def waiting_state)

lemma join_found_waiting:
  assumes "env_ok e" "air_ok e pmk k0 x"
  shows "\<exists>y. join_found e x = Some y \<and> air_ok e pmk k0 y"
proof -
  let ?s = "if w_ap_channel (snd x) \<noteq> 0 then set_channel (w_ap_channel (snd x)) (snd x) else snd x"
  have "air_ok e pmk k0 (fst x, ?s)" using assms(2) by (rule air_ok_core) (simp add: core_simps)
  then have "air_ok e pmk k0 (fst x, ?s\<lparr>w_state := S_SCAN\<rparr>)" by (rule air_ok_state) simp
  then have "air_ok e pmk k0 (fst x, send_deauth (?s\<lparr>w_state := S_SCAN\<rparr>))"
    using air_ok_core core_send_deauth by fastforce
  from wlan_listen_waiting [OF assms(1) this, of 100 False]
  obtain a1 s1 where 1: "wlan_listen e 100 False (fst x, send_deauth (?s\<lparr>w_state := S_SCAN\<rparr>)) = Some (a1, s1)"
    "air_ok e pmk k0 (a1, s1)" by auto
  have "air_ok e pmk k0 (a1, s1\<lparr>w_state := S_AUTH\<rparr>)" using 1(2) by (rule air_ok_state) simp
  from auth_tries_waiting [OF assms(1) this, of 3]
  obtain y2 where 2: "auth_tries e 3 (a1, s1\<lparr>w_state := S_AUTH\<rparr>) = Some y2" "air_ok e pmk k0 y2" by blast
  obtain y3 where 3: "assoc_tries e 3 False y2 = Some y3" "air_ok e pmk k0 y3"
    using assoc_tries_waiting [OF assms(1) 2(2)] by blast
  have l: "\<exists>y'. (if w_state (snd y) = S_4WAY then wlan_listen e 3000 True y else Some y) = Some y' \<and> air_ok e pmk k0 y'"
    if "air_ok e pmk k0 y" for y
    using wlan_listen_waiting [OF assms(1) that] that by (simp del: split_paired_Ex)
  obtain y4 where 4: "(if w_state (snd y3) = S_4WAY then wlan_listen e 3000 True y3 else Some y3) = Some y4" "air_ok e pmk k0 y4"
    using l [OF 3(2)] by blast
  show ?thesis unfolding join_found_def 1(1) by (simp add: 2(1) 3(1) 4(1) l [OF 4(2)] del: split_paired_Ex)
qed

lemma wpa_pmk_rfc:
  assumes "env_ok e" "length pass \<le> 63" "length name \<le> 32"
  shows "wpa_pmk (stk e) (stk_hmac e) pass name
    = Some (take 32 (rfc8018_F pass name 4096 1 @ rfc8018_F pass name 4096 2))"
proof -
  have l: "length (sbuf (stk e)) = 64" "length (sbuf (hm_in (stk_hmac e))) = 64"
    "length (sbuf (hm_out (stk_hmac e))) = 64" using assms(1) by (simp_all add: env_ok_def)
  have p: "8 * length pass < two32" "8 * (68 + length name) < two32" using assms(2,3) by simp_all
  obtain m where "hmac_sha1_init (stk e) (stk_hmac e) pass = Some m" "hmac_ready m pass"
    using hmac_sha1_init_ready [OF l(1) p(1) l(2,3)] by auto
  then show ?thesis using p(2) by (simp add: wpa_pmk_def pmk_block_rfc)
qed


lemma keyless_short:
  assumes "env_ok e" "length b < 81"
  shows "keyless e pmk k0 b"
proof -
  have "\<not> valid_mic e (take 16 k) f" if "sublist f b" for f k
  proof -
    have f: "length f < 81" using sublist_length_le [OF that] assms(2) by simp
    then have s: "slice EK_MIC 16 f = []" by (simp add: slice_def EK_MIC_def)
    have "length (take n (put_slice EK_MIC (replicate 16 0) f)) < 70000" for n
      using f by (simp add: put_slice_def EK_MIC_def)
    from mac_of_some [OF assms(1) this]
    show ?thesis by (auto simp: valid_mic_def s dest: arg_cong [of _ "[]" length])
  qed
  then show ?thesis by (simp add: keyless_def)
qed


section \<open>Frames that are not checked\<close>

lemma frame_seen_fields:
  "w_state (frame_seen f s) = w_state s" "w_bssid (frame_seen f s) = w_bssid s" "w_mac (frame_seen f s) = w_mac s"
  "w_rx_cb (frame_seen f s) = w_rx_cb s" "w_got (frame_seen f s) = w_got s"
  by (simp_all add: frame_seen_def Let_def)

text \<open>A QoS data frame of 24 bytes, two less than its header: the length of its body wraps below zero.\<close>

lemma short_qos_frame:
  assumes "length f = 24" "f ! 0 = 0x88" "f ! 1 = 0x02" "w_state s = S_DONE" "slice 10 6 f = w_bssid s" "slice 4 6 f = w_mac s"
  shows "handle_frame e f decrypted s = None"
  using assms by (simp add: handle_frame_def handle_data_def data_body_def frame_seen_fields Let_def)

text \<open>An unencrypted data frame reaches the callback although the keys are in use.\<close>

lemma plain_data_delivered:
  assumes "f = [0x08, 0x02, 0, 0] @ w_mac s @ w_bssid s @ sa @ [0, 0] @ [0xaa, 0xaa, 0x03, 0, 0, 0, 0x08, 0x00] @ d"
    "length (w_mac s) = 6" "length (w_bssid s) = 6" "length sa = 6" "sa \<noteq> w_mac s" "w_state s = S_DONE" "w_keys_on s" "w_rx_cb s"
  shows "\<exists>s'. handle_frame e f False s = Some s' \<and> w_got s' = w_got s @ [(w_mac s, sa, 0x0800, d)]"
proof -
  have b: "length f \<ge> 32" "f ! 0 = 0x08" "f ! 1 = 0x02" "slice 10 6 f = w_bssid s" "slice 4 6 f = w_mac s" "slice 16 6 f = sa"
    "drop 24 f = [0xaa, 0xaa, 0x03, 0, 0, 0, 0x08, 0x00] @ d"
    using assms(2-4) unfolding assms(1) by (simp_all add: slice_def)
  have l: "length f = 32 + length d" using assms(2-4) unfolding assms(1) by simp
  show ?thesis using assms(5-8) b l
    by (simp add: handle_frame_def handle_data_def data_body_def frame_seen_fields Let_def be16_def)
qed

end
