(* ===== verification/I2c.thy ===== *)
theory I2c
  imports Bytes
begin

text \<open>
  The I2C master of the box (\<open>i2c.h\<close>) and the front panel chip on it (\<open>fd650.h\<close>), with the share of \<open>sdk/runtime.c\<close>
  that gives applications the bus. The controller is hardware: its byte registers are read and written through
  the functions of a record, which also has the clock of the box and what passes while a program waits.
\<close>

section \<open>The hardware\<close>

record 'd i2c_hw =
  hw_read :: "u32 \<Rightarrow> 'd \<Rightarrow> byte \<times> 'd"
  hw_write :: "u32 \<Rightarrow> byte \<Rightarrow> 'd \<Rightarrow> 'd"
  hw_delay :: "nat \<Rightarrow> 'd \<Rightarrow> 'd"
  hw_timer :: "'d \<Rightarrow> nat"
  hw_idle :: "nat \<Rightarrow> 'd \<Rightarrow> 'd"

text \<open>The device and the statics of \<open>i2c.h\<close>, \<open>fd650.h\<close> and of the bus section of \<open>runtime.c\<close>.\<close>

record 'd bus =
  b_dev :: 'd
  i2c_last_cmd :: byte
  i2c_app_pre :: nat
  i2c_cur_pre :: nat
  fd650_regs :: "byte list"
  box_sat :: bool

definition I2C_ST :: u32 where "I2C_ST = 0x04"
definition I2C_TXD :: u32 where "I2C_TXD = 0x08"
definition I2C_RXD :: u32 where "I2C_RXD = 0x0c"
definition I2C_CTRL :: u32 where "I2C_CTRL = 0x10"
definition I2C_CMD :: u32 where "I2C_CMD = 0x14"
definition I2C_PRE_HI :: u32 where "I2C_PRE_HI = 0x18"
definition I2C_PRE_LO :: u32 where "I2C_PRE_LO = 0x1c"
definition I2C_CMD_START :: byte where "I2C_CMD_START = 0x80"
definition I2C_CMD_STOP :: byte where "I2C_CMD_STOP = 0x40"
definition I2C_CMD_WRITE :: byte where "I2C_CMD_WRITE = 0x20"
definition I2C_CMD_READ :: byte where "I2C_CMD_READ = 0x10"
definition I2C_CMD_NACK :: byte where "I2C_CMD_NACK = 0x04"
definition I2C_CMD_DONE :: byte where "I2C_CMD_DONE = 0x04"
definition I2C_ST_NACK :: byte where "I2C_ST_NACK = 0x80"
definition I2C_ST_ERR :: byte where "I2C_ST_ERR = 0x20"
definition I2C_E_TIMEOUT :: int where "I2C_E_TIMEOUT = - 1"
definition I2C_E_NACK :: int where "I2C_E_NACK = - 2"
definition I2C_E_BUS :: int where "I2C_E_BUS = - 3"
definition I2C_E_CHANNEL :: int where "I2C_E_CHANNEL = - 4"
definition I2C_CH_FP :: int where "I2C_CH_FP = 2"

lemmas i2c_consts = I2C_ST_def I2C_TXD_def I2C_RXD_def I2C_CTRL_def I2C_CMD_def I2C_PRE_HI_def I2C_PRE_LO_def
  I2C_CMD_START_def I2C_CMD_STOP_def I2C_CMD_WRITE_def I2C_CMD_READ_def I2C_CMD_NACK_def I2C_CMD_DONE_def
  I2C_ST_NACK_def I2C_ST_ERR_def I2C_E_TIMEOUT_def I2C_E_NACK_def I2C_E_BUS_def I2C_E_CHANNEL_def

definition i2c_bases :: "u32 list" where
  "i2c_bases = [0xbf560000, 0xbf570000, 0xbf158000, 0xbf5c0000, 0xbf580000]"

definition i2c_base :: "int \<Rightarrow> u32" where
  "i2c_base ch = (if 0 \<le> ch \<and> ch < 5 then i2c_bases ! nat ch else 0)"

text \<open>\<open>REG8\<close> on either side of an assignment.\<close>

definition get8 :: "'d i2c_hw \<Rightarrow> u32 \<Rightarrow> ('d, 'z) bus_scheme \<Rightarrow> byte \<times> ('d, 'z) bus_scheme" where
  "get8 D a s = (let (v, d) = hw_read D a (b_dev s) in (v, s\<lparr>b_dev := d\<rparr>))"

definition set8 :: "'d i2c_hw \<Rightarrow> u32 \<Rightarrow> byte \<Rightarrow> ('d, 'z) bus_scheme \<Rightarrow> ('d, 'z) bus_scheme" where
  "set8 D a v s = s\<lparr>b_dev := hw_write D a v (b_dev s)\<rparr>"

section \<open>Speed\<close>

definition I2C_CLK_HZ :: nat where "I2C_CLK_HZ = 27000000"

definition i2c_prescale :: "nat \<Rightarrow> nat" where
  "i2c_prescale khz0 =
     (let khz = (if khz0 < 1 then 1 else khz0);
          dv = mul32 (mul32 5 khz) 1000
      in sub32 (sub32 (add32 I2C_CLK_HZ dv) 1 div dv) 1)"

definition i2c_scl_hz :: "nat \<Rightarrow> nat" where
  "i2c_scl_hz prescale = I2C_CLK_HZ div mul32 5 (add32 prescale 1)"

definition i2c_set_prescale :: "'d i2c_hw \<Rightarrow> int \<Rightarrow> nat \<Rightarrow> ('d, 'z) bus_scheme \<Rightarrow> int \<times> ('d, 'z) bus_scheme" where
  "i2c_set_prescale D ch prescale s =
     (let base = i2c_base ch
      in if base = 0 then (I2C_E_CHANNEL, s)
         else (0, set8 D (base + I2C_PRE_LO) (of_nat prescale) (set8 D (base + I2C_PRE_HI) (of_nat (drop_bit 8 prescale)) s)))"

definition i2c_init :: "'d i2c_hw \<Rightarrow> int \<Rightarrow> nat \<Rightarrow> ('d, 'z) bus_scheme \<Rightarrow> int \<times> ('d, 'z) bus_scheme" where
  "i2c_init D ch prescale s =
     (let base = i2c_base ch
      in if base = 0 then (I2C_E_CHANNEL, s)
         else (0, set8 D (base + I2C_CTRL) 0x80 (snd (i2c_set_prescale D ch prescale s))))"

section \<open>Bytes\<close>

fun wait_loop :: "'d i2c_hw \<Rightarrow> u32 \<Rightarrow> nat \<Rightarrow> ('d, 'z) bus_scheme \<Rightarrow> int \<times> ('d, 'z) bus_scheme" where
  "wait_loop D base 0 s = (I2C_E_TIMEOUT, s)"
| "wait_loop D base (Suc n) s =
     (let (v, s1) = get8 D (base + I2C_CMD) s;
          s2 = s1\<lparr>i2c_last_cmd := v\<rparr>
      in if v = I2C_CMD_DONE then (0, s2)
         else wait_loop D base n (s2\<lparr>b_dev := hw_delay D 2 (b_dev s2)\<rparr>))"

definition i2c_wait :: "'d i2c_hw \<Rightarrow> u32 \<Rightarrow> ('d, 'z) bus_scheme \<Rightarrow> int \<times> ('d, 'z) bus_scheme" where
  "i2c_wait D base s = wait_loop D base 20000 s"

definition i2c_write_byte :: "'d i2c_hw \<Rightarrow> u32 \<Rightarrow> byte \<Rightarrow> bool \<Rightarrow> ('d, 'z) bus_scheme \<Rightarrow> int \<times> ('d, 'z) bus_scheme" where
  "i2c_write_byte D base b start s =
     (let s1 = set8 D (base + I2C_TXD) b s;
          s2 = set8 D (base + I2C_CMD) (if start then I2C_CMD_START OR I2C_CMD_WRITE else I2C_CMD_WRITE) s1;
          (r, s3) = i2c_wait D base s2
      in if r < 0 then (I2C_E_TIMEOUT, s3)
         else (let (st, s4) = get8 D (base + I2C_ST) s3
               in if st AND I2C_ST_ERR \<noteq> 0 then (I2C_E_BUS, s4)
                  else if st AND I2C_ST_NACK \<noteq> 0 then (I2C_E_NACK, s4) else (0, s4)))"

text \<open>A byte read is in the list when the code has stored it.\<close>

definition i2c_read_byte :: "'d i2c_hw \<Rightarrow> u32 \<Rightarrow> bool \<Rightarrow> ('d, 'z) bus_scheme \<Rightarrow> int \<times> byte list \<times> ('d, 'z) bus_scheme" where
  "i2c_read_byte D base final s =
     (let s1 = set8 D (base + I2C_CMD) (if final then I2C_CMD_READ OR I2C_CMD_NACK else I2C_CMD_READ) s;
          (r, s2) = i2c_wait D base s1
      in if r < 0 then (I2C_E_TIMEOUT, [], s2)
         else (let (st, s3) = get8 D (base + I2C_ST) s2
               in if st AND I2C_ST_ERR \<noteq> 0 then (I2C_E_BUS, [], s3)
                  else (let (v, s4) = get8 D (base + I2C_RXD) s3 in (0, [v], s4))))"

definition i2c_stop :: "'d i2c_hw \<Rightarrow> u32 \<Rightarrow> ('d, 'z) bus_scheme \<Rightarrow> int \<times> ('d, 'z) bus_scheme" where
  "i2c_stop D base s =
     (let (r, s1) = i2c_wait D base (set8 D (base + I2C_CMD) I2C_CMD_STOP s)
      in if r < 0 then (I2C_E_TIMEOUT, s1)
         else (let (st, s2) = get8 D (base + I2C_ST) s1 in (if st AND I2C_ST_ERR \<noteq> 0 then I2C_E_BUS else 0, s2)))"

section \<open>Transfers\<close>

fun write_bytes :: "'d i2c_hw \<Rightarrow> u32 \<Rightarrow> byte list \<Rightarrow> ('d, 'z) bus_scheme \<Rightarrow> int \<times> ('d, 'z) bus_scheme" where
  "write_bytes D base [] s = (0, s)"
| "write_bytes D base (b # bs) s =
     (let (r, s1) = i2c_write_byte D base b False s in if r = 0 then write_bytes D base bs s1 else (r, s1))"

text \<open>The last of the bytes read is answered with a NACK.\<close>

fun read_bytes :: "'d i2c_hw \<Rightarrow> u32 \<Rightarrow> nat \<Rightarrow> ('d, 'z) bus_scheme \<Rightarrow> int \<times> byte list \<times> ('d, 'z) bus_scheme" where
  "read_bytes D base 0 s = (0, [], s)"
| "read_bytes D base (Suc n) s =
     (let (r, v, s1) = i2c_read_byte D base (n = 0) s
      in if r = 0 then (let (r', vs, s2) = read_bytes D base n s1 in (r', v @ vs, s2)) else (r, v, s1))"

definition addr_byte :: "nat \<Rightarrow> bool \<Rightarrow> byte" where
  "addr_byte addr rd = of_nat (push_bit 1 addr OR (if rd then 1 else 0))"

definition i2c_write :: "'d i2c_hw \<Rightarrow> int \<Rightarrow> nat \<Rightarrow> byte list \<Rightarrow> ('d, 'z) bus_scheme \<Rightarrow> int \<times> ('d, 'z) bus_scheme" where
  "i2c_write D ch addr data s =
     (let base = i2c_base ch
      in if base = 0 then (I2C_E_CHANNEL, s)
         else (let (r, s1) = i2c_write_byte D base (addr_byte addr False) True s;
                   (r2, s2) = (if r = 0 then write_bytes D base data s1 else (r, s1))
               in (r2, snd (i2c_stop D base s2))))"

definition i2c_read :: "'d i2c_hw \<Rightarrow> int \<Rightarrow> nat \<Rightarrow> nat \<Rightarrow> ('d, 'z) bus_scheme \<Rightarrow> int \<times> byte list \<times> ('d, 'z) bus_scheme" where
  "i2c_read D ch addr len s =
     (let base = i2c_base ch
      in if base = 0 then (I2C_E_CHANNEL, [], s)
         else (let (r, s1) = i2c_write_byte D base (addr_byte addr True) True s;
                   (r2, vs, s2) = (if r = 0 then read_bytes D base len s1 else (r, [], s1))
               in (r2, vs, snd (i2c_stop D base s2))))"

definition i2c_write_read :: "'d i2c_hw \<Rightarrow> int \<Rightarrow> nat \<Rightarrow> byte list \<Rightarrow> nat \<Rightarrow> ('d, 'z) bus_scheme
    \<Rightarrow> int \<times> byte list \<times> ('d, 'z) bus_scheme" where
  "i2c_write_read D ch addr wdata rlen s =
     (let base = i2c_base ch
      in if base = 0 then (I2C_E_CHANNEL, [], s)
         else (let (r, s1) = i2c_write_byte D base (addr_byte addr False) True s;
                   (r2, s2) = (if r = 0 then write_bytes D base wdata s1 else (r, s1));
                   (r3, s3) = (if r2 = 0 then i2c_write_byte D base (addr_byte addr True) True s2 else (r2, s2));
                   (r4, vs, s4) = (if r3 = 0 then read_bytes D base rlen s3 else (r3, [], s3))
               in (r4, vs, snd (i2c_stop D base s4))))"

section \<open>The bus for applications (runtime.c)\<close>

definition FD650_PRESCALE_100K :: nat where "FD650_PRESCALE_100K = 0x35"

definition i2c_use :: "'d i2c_hw \<Rightarrow> nat \<Rightarrow> ('d, 'z) bus_scheme \<Rightarrow> ('d, 'z) bus_scheme" where
  "i2c_use D pre s =
     (if pre \<noteq> i2c_cur_pre s then (snd (i2c_set_prescale D I2C_CH_FP pre s))\<lparr>i2c_cur_pre := pre\<rparr> else s)"

definition sdk_i2c_speed :: "int \<Rightarrow> ('d, 'z) bus_scheme \<Rightarrow> int \<times> ('d, 'z) bus_scheme" where
  "sdk_i2c_speed khz0 s =
     (let khz = (if khz0 < 1 then 1 else if khz0 > 1000 then 1000 else khz0);
          s1 = s\<lparr>i2c_app_pre := i2c_prescale (nat khz)\<rparr>
      in (int (i2c_scl_hz (i2c_app_pre s1) div 1000), s1))"

definition sdk_i2c_write :: "'d i2c_hw \<Rightarrow> nat \<Rightarrow> byte list \<Rightarrow> ('d, 'z) bus_scheme \<Rightarrow> int \<times> ('d, 'z) bus_scheme" where
  "sdk_i2c_write D addr data s =
     (if \<not> box_sat s then (- 4, s) else i2c_write D I2C_CH_FP addr data (i2c_use D (i2c_app_pre s) s))"

definition sdk_i2c_read :: "'d i2c_hw \<Rightarrow> nat \<Rightarrow> nat \<Rightarrow> ('d, 'z) bus_scheme \<Rightarrow> int \<times> byte list \<times> ('d, 'z) bus_scheme" where
  "sdk_i2c_read D addr len s =
     (if \<not> box_sat s then (- 4, [], s) else i2c_read D I2C_CH_FP addr len (i2c_use D (i2c_app_pre s) s))"

definition sdk_i2c_write_read :: "'d i2c_hw \<Rightarrow> nat \<Rightarrow> byte list \<Rightarrow> nat \<Rightarrow> ('d, 'z) bus_scheme
    \<Rightarrow> int \<times> byte list \<times> ('d, 'z) bus_scheme" where
  "sdk_i2c_write_read D addr wdata rlen s =
     (if \<not> box_sat s then (- 4, [], s)
      else i2c_write_read D I2C_CH_FP addr wdata rlen (i2c_use D (i2c_app_pre s) s))"

section \<open>The panel chip (fd650.h)\<close>

definition fd650_font :: "byte list" where
  "fd650_font = [0x3f, 0x06, 0x5b, 0x4f, 0x66, 0x6d, 0x7d, 0x07, 0x7f, 0x6f, 0x77, 0x7c, 0x39, 0x5e, 0x79, 0x71]"

definition fd650_segbit :: "nat list" where
  "fd650_segbit = [6, 0, 2, 4, 5, 7, 1, 3]"

definition fd650_map :: "byte \<Rightarrow> byte" where
  "fd650_map sg = fold (\<lambda>i v. if sg AND push_bit i 1 \<noteq> 0 then v OR push_bit (fd650_segbit ! i) 1 else v) [0..<8] 0"

definition fd650_letters :: "(byte \<times> byte) list" where
  "fd650_letters =
     [(0x41, 0xe7), (0x42, 0xb6), (0x62, 0xb6), (0x43, 0xf0), (0x63, 0x32),
      (0x44, 0x37), (0x64, 0x37), (0x45, 0xf2), (0x46, 0xe2), (0x48, 0xa7),
      (0x68, 0xa6), (0x4c, 0xb0), (0x6e, 0x26), (0x4e, 0xe5), (0x4f, 0xf5),
      (0x6f, 0x36), (0x50, 0xe3), (0x52, 0xe0), (0x72, 0xe0), (0x53, 0xd6),
      (0x54, 0xa2), (0x74, 0xa2), (0x55, 0xb5), (0x2d, 0x02)]"

definition other_case :: "byte \<Rightarrow> byte" where
  "other_case c = (if 0x61 \<le> c \<and> c \<le> 0x7a then c - 32 else if 0x41 \<le> c \<and> c \<le> 0x5a then c + 32 else c)"

text \<open>\<open>char\<close> is signed on the box, but no character from 0x80 on is a digit or a letter either way.\<close>

definition fd650_char :: "byte \<Rightarrow> byte" where
  "fd650_char c =
     (if 0x30 \<le> c \<and> c \<le> 0x39 then fd650_map (fd650_font ! unat (c - 0x30))
      else case map_of fd650_letters c of Some sg \<Rightarrow> sg
      | None \<Rightarrow> (case map_of fd650_letters (other_case c) of Some sg \<Rightarrow> sg | None \<Rightarrow> 0))"

definition FD650_LED_BIT :: byte where "FD650_LED_BIT = 0x08"
definition FD650_LED_REG :: nat where "FD650_LED_REG = 1"

definition fd650_pos_reg :: "nat list" where
  "fd650_pos_reg = [2, 3, 1]"

definition fd650_digit :: "'d i2c_hw \<Rightarrow> nat \<Rightarrow> byte \<Rightarrow> ('d, 'z) bus_scheme \<Rightarrow> int \<times> ('d, 'z) bus_scheme" where
  "fd650_digit D n sg s =
     i2c_write D I2C_CH_FP (0x34 + (n AND 3)) [sg] (s\<lparr>fd650_regs := (fd650_regs s)[n AND 3 := sg]\<rparr>)"

text \<open>The characters of a text, blank when it has ended; \<open>cs\<close> is the text up to its NUL.\<close>

fun next_char :: "byte list \<Rightarrow> byte \<times> byte list" where
  "next_char [] = (0x20, [])"
| "next_char (c # cs) = (c, cs)"

definition keep_led :: "nat \<Rightarrow> byte \<Rightarrow> byte list \<Rightarrow> byte" where
  "keep_led reg sg rs = (if reg = FD650_LED_REG then (sg AND NOT FD650_LED_BIT) OR (rs ! reg AND FD650_LED_BIT) else sg)"

fun show_digits :: "'d i2c_hw \<Rightarrow> nat list \<Rightarrow> byte list \<Rightarrow> ('d, 'z) bus_scheme \<Rightarrow> ('d, 'z) bus_scheme" where
  "show_digits D [] cs s = s"
| "show_digits D (reg # rgs) cs s =
     (let (c, cs') = next_char cs
      in show_digits D rgs cs' (snd (fd650_digit D reg (keep_led reg (fd650_char c) (fd650_regs s)) s)))"

definition fd650_show :: "'d i2c_hw \<Rightarrow> byte list \<Rightarrow> ('d, 'z) bus_scheme \<Rightarrow> ('d, 'z) bus_scheme" where
  "fd650_show D cs s = show_digits D fd650_pos_reg cs s"

definition fd650_led :: "'d i2c_hw \<Rightarrow> bool \<Rightarrow> ('d, 'z) bus_scheme \<Rightarrow> ('d, 'z) bus_scheme" where
  "fd650_led D on s =
     snd (fd650_digit D FD650_LED_REG
       ((fd650_regs s ! FD650_LED_REG AND NOT FD650_LED_BIT) OR (if on then FD650_LED_BIT else 0)) s)"

definition fd650_key :: "'d i2c_hw \<Rightarrow> ('d, 'z) bus_scheme \<Rightarrow> int \<times> ('d, 'z) bus_scheme" where
  "fd650_key D s =
     (let (r, vs, s1) = i2c_read D I2C_CH_FP 0x27 1 s
      in (if r < 0 then r else case vs of [] \<Rightarrow> 0 | v # _ \<Rightarrow> int (unat v), s1))"

end
