(* ===== verification/BrimodClock.thy ===== *)
theory BrimodClock
  imports Bytes "HOL-Library.Signed_Division"
begin

text \<open>
  The clock of \<open>src/sdk/brimod.c\<close>: \<open>brimod_split_time\<close> and \<open>brimod_make_time\<close>, Unix seconds and an
  offset from UTC to a local date and back, against the Gregorian calendar as it is defined: leap years and
  lengths of months, the days counted one by one.
\<close>

section \<open>The code\<close>

record brimod_time =
  t_utc :: nat
  t_tz_min :: int
  t_source :: nat
  t_year :: nat
  t_month :: nat
  t_day :: nat
  t_hour :: nat
  t_min :: nat
  t_sec :: nat
  t_wday :: nat

text \<open>The local time in seconds: it wraps to the east and stops at 0 to the west.\<close>

definition local_seconds :: "nat \<Rightarrow> int \<Rightarrow> nat" where
  "local_seconds utc tz_min =
     (let shift = mul32 (nat \<bar>tz_min\<bar>) 60
      in if tz_min \<ge> 0 then add32 utc shift else if utc > shift then utc - shift else 0)"

definition brimod_split_time :: "nat \<Rightarrow> int \<Rightarrow> brimod_time \<Rightarrow> brimod_time" where
  "brimod_split_time utc tz_min t =
     (let local = local_seconds utc tz_min; days = local div 86400; secs = local mod 86400;
          z = days + 719468; era = z div 146097; doe = z - era * 146097;
          yoe = (doe - doe div 1460 + doe div 36524 - doe div 146096) div 365;
          doy = doe - (365 * yoe + yoe div 4 - yoe div 100); mp = (5 * doy + 2) div 153;
          month = (if mp < 10 then mp + 3 else mp - 9)
      in t\<lparr>t_hour := secs div 3600, t_min := secs div 60 mod 60, t_sec := secs mod 60, t_wday := (days + 4) mod 7,
           t_day := doy - (153 * mp + 2) div 5 + 1, t_month := month,
           t_year := yoe + era * 400 + (if month \<le> 2 then 1 else 0)\<rparr>)"

text \<open>The fields are \<open>int\<close>, the division of C rounds to zero, and from \<open>yoe\<close> on everything is unsigned.\<close>

definition brimod_make_time :: "int \<Rightarrow> int \<Rightarrow> int \<Rightarrow> int \<Rightarrow> int \<Rightarrow> int \<Rightarrow> int \<Rightarrow> nat" where
  "brimod_make_time year month day hour mi sec tz_min =
     (let y = year - (if month \<le> 2 then 1 else 0); era = y sdiv 400; yoe = (y - era * 400) mod 2 ^ 32;
          doy = ((153 * (if month > 2 then month - 3 else month + 9) + 2) sdiv 5 + day - 1) mod 2 ^ 32;
          doe = (yoe * 365 + yoe div 4 - yoe div 100 + doy) mod 2 ^ 32;
          days = (era * 146097 + doe - 719468) mod 2 ^ 32;
          local = (days * 86400 + hour * 3600 + mi * 60 + sec) mod 2 ^ 32
      in nat ((if tz_min \<ge> 0 then local - tz_min * 60 else local + (- tz_min) * 60) mod 2 ^ 32))"

section \<open>The Gregorian calendar\<close>

definition leap :: "nat \<Rightarrow> bool" where
  "leap y = (4 dvd y \<and> (\<not> 100 dvd y \<or> 400 dvd y))"

definition month_days :: "nat \<Rightarrow> nat \<Rightarrow> nat" where
  "month_days y m = (if m = 2 then (if leap y then 29 else 28) else if m \<in> {4, 6, 9, 11} then 30 else 31)"

text \<open>The days from 1 January 1970 to a date, counted through the years and months before it.\<close>

definition calendar_days :: "nat \<Rightarrow> nat \<Rightarrow> nat \<Rightarrow> nat" where
  "calendar_days y m d =
     sum_list (map (\<lambda>k. sum_list (map (month_days k) [1..<13])) [1970..<y]) + sum_list (map (month_days y) [1..<m]) + (d - 1)"

definition valid_date :: "nat \<Rightarrow> nat \<Rightarrow> nat \<Rightarrow> bool" where
  "valid_date y m d = (1970 \<le> y \<and> 1 \<le> m \<and> m \<le> 12 \<and> 1 \<le> d \<and> d \<le> month_days y m)"

section \<open>Days in closed form\<close>

text \<open>The first day of the year that begins in March of year \<open>n\<close>, from 1 March of year 0.\<close>

definition march :: "nat \<Rightarrow> int" where
  "march n = 365 * int n + int (n div 4) - int (n div 100) + int (n div 400)"

lemma upt13: "[1..<13] = [1, 2, 3, 4, 5, 6, 7, 8, 9, 10, 11, 12 :: nat]"
  by (simp add: upt_rec)

lemma year_days: "sum_list (map (month_days y) [1..<13]) = (if leap y then 366 else 365)"
  unfolding upt13 by (simp add: month_days_def)

lemma march_step:
  "(C \<Longrightarrow> B) \<Longrightarrow> (B \<Longrightarrow> A) \<Longrightarrow>
    365 * int (Suc n) + int (a + (if A then 1 else 0)) - int (b + (if B then 1 else 0)) + int (c + (if C then 1 else 0))
      = 365 * int n + int a - int b + int c + (if A \<and> (\<not> B \<or> C) then 366 else 365)"
  by auto

lemma march_Suc: "march (Suc n) = march n + (if leap (Suc n) then 366 else 365)"
proof -
  have 4: "Suc n div 4 = n div 4 + (if 4 dvd Suc n then 1 else 0)"
    and 100: "Suc n div 100 = n div 100 + (if 100 dvd Suc n then 1 else 0)"
    and 400: "Suc n div 400 = n div 400 + (if 400 dvd Suc n then 1 else 0)"
    by (simp_all add: div_Suc dvd_eq_mod_eq_0)
  have "400 dvd Suc n \<Longrightarrow> 100 dvd Suc n" "100 dvd Suc n \<Longrightarrow> 4 dvd Suc n"
    using dvd_trans [of "100::nat" 400 "Suc n"] dvd_trans [of "4::nat" 100 "Suc n"] by simp_all
  then show ?thesis unfolding march_def leap_def 4 100 400 by (rule march_step)
qed

lemma years_days:
  "1970 \<le> y \<Longrightarrow> int (sum_list (map (\<lambda>k. sum_list (map (month_days k) [1..<13])) [1970..<y])) + 719468 = march (y - 1) + 306"
proof (induction y rule: dec_induct)
  case base
  then show ?case by (simp add: march_def)
next
  case (step n)
  have "march n = march (n - 1) + (if leap n then 366 else 365)"
    using march_Suc [of "n - 1"] step.hyps(1) by simp
  then show ?case using step unfolding year_days by simp
qed

lemma months_list:
  "map (month_days y) [1..<13] = [31, 28 + (if leap y then 1 else 0), 31, 30, 31, 30, 31, 31, 30, 31, 30, 31]"
  unfolding upt13 by (simp add: month_days_def)

lemma months_days:
  assumes "1 \<le> m" "m \<le> 12"
  shows "sum_list (map (month_days y) [1..<m])
    = (if m \<le> 2 then 31 * (m - 1) else 59 + (if leap y then 1 else 0) + (153 * (m - 3) + 2) div 5)"
proof -
  have "[1..<m] = take (m - 1) [1..<13]" using assms by simp
  then have s: "sum_list (map (month_days y) [1..<m]) = sum_list (take (m - 1) (map (month_days y) [1..<13]))"
    by (simp add: take_map)
  have "m = 1 \<or> m = 2 \<or> m = 3 \<or> m = 4 \<or> m = 5 \<or> m = 6 \<or> m = 7 \<or> m = 8 \<or> m = 9 \<or> m = 10 \<or> m = 11 \<or> m = 12"
    using assms by arith
  then show ?thesis unfolding s months_list by (elim disjE) (simp_all only:, simp_all)
qed


text \<open>Both counts together: the years from March, and the fifths of 153 days that the months from March are.\<close>

definition from_march :: "nat \<Rightarrow> nat \<Rightarrow> nat" where
  "from_march y m = y - (if m \<le> 2 then 1 else 0)"

definition march_month :: "nat \<Rightarrow> nat" where
  "march_month m = (if m \<le> 2 then m + 9 else m - 3)"

lemma calendar_days_march:
  assumes "valid_date y m d"
  shows "int (calendar_days y m d) + 719468 = march (from_march y m) + int ((153 * march_month m + 2) div 5) + int d - 1"
proof -
  have y: "1970 \<le> y" and m: "1 \<le> m" "m \<le> 12" and d: "1 \<le> d" using assms by (simp_all add: valid_date_def)
  have s: "march y = march (y - 1) + (if leap y then 366 else 365)" using march_Suc [of "y - 1"] y by simp
  show ?thesis
  proof (cases "m \<le> 2")
    case True
    then have "m = 1 \<or> m = 2" using m by arith
    then show ?thesis using years_days [OF y] months_days [OF m, of y] d
      by (elim disjE) (simp_all add: calendar_days_def from_march_def march_month_def)
  next
    case False
    then show ?thesis using years_days [OF y] months_days [OF m, of y] d s
      by (simp add: calendar_days_def from_march_def march_month_def)
  qed
qed

section \<open>From days to a year\<close>

lemma march_era: "march (n + 400 * e) = march n + 146097 * int e"
proof -
  have "(n + 400 * e) div 4 = n div 4 + 100 * e" "(n + 400 * e) div 100 = n div 100 + 4 * e" "(n + 400 * e) div 400 = n div 400 + e"
    using div_mult_self1 [of 4 n "100 * e"] div_mult_self1 [of 100 n "4 * e"] div_mult_self1 [of 400 n e] by simp_all
  then show ?thesis unfolding march_def by simp
qed

text \<open>The estimate of the year of an era, before its division by 365; it grows with the day.\<close>

definition year_days_est :: "nat \<Rightarrow> nat" where
  "year_days_est doe = doe - doe div 1460 + doe div 36524 - doe div 146096"

lemma est_step: "b' \<le> b + 1 \<Longrightarrow> c \<le> c' \<Longrightarrow> b \<le> n \<Longrightarrow> n - b + c - 0 \<le> Suc n - b' + c' - (0 :: nat)"
  by linarith

lemma est_Suc:
  assumes "Suc n < 146097"
  shows "year_days_est n \<le> year_days_est (Suc n)"
proof (cases "Suc n = 146096")
  case True
  then have "n = 146095" by simp
  then show ?thesis by (simp add: year_days_est_def)
next
  case False
  then have z: "Suc n div 146096 = 0" "n div 146096 = 0" using assms by simp_all
  have "Suc n div 1460 \<le> n div 1460 + 1" by (simp add: div_Suc)
  moreover have "n div 36524 \<le> Suc n div 36524" by (simp add: div_le_mono)
  moreover have "n div 1460 \<le> n" by simp
  ultimately show ?thesis unfolding year_days_est_def z by (rule est_step)
qed

lemma est_mono: "m \<le> n \<Longrightarrow> n < 146097 \<Longrightarrow> year_days_est m \<le> year_days_est n"
proof (induction n rule: dec_induct)
  case (step n)
  then show ?case using est_Suc [of n] by simp
qed simp

definition year_start :: "nat \<Rightarrow> nat" where
  "year_start y = 365 * y + y div 4 + y div 400 - y div 100"

lemma march_year_start: "march y = int (year_start y)"
proof -
  have "y div 100 \<le> y div 4" by (simp add: div_le_mono2)
  then show ?thesis by (simp add: march_def year_start_def of_nat_diff)
qed

lemma year_start_pos: "1 \<le> year_start (y + 1)"
  using march_Suc [of y] by (simp add: march_year_start split: if_splits)

lemma est_table:
  "\<forall>y\<in>set [0..399]. let s = (\<lambda>n. 365 * n + n div 4 + n div 400 - n div 100); f = (\<lambda>d. d - d div 1460 + d div 36524 - d div 146096)
    in 365 * y \<le> f (s y) \<and> f (s (y + 1) - 1) < 365 * (y + 1 :: int)"
  by code_simp

lemma int_year_start: "int (year_start y) = 365 * int y + int y div 4 + int y div 400 - int y div 100"
  using march_year_start [of y] by (simp add: march_def zdiv_int)

lemma int_est: "int (year_days_est d) = int d - int d div 1460 + int d div 36524 - int d div 146096"
proof -
  have "d div 1460 \<le> d" "d div 146096 \<le> d div 36524" by (simp_all add: div_le_mono2)
  then have "int (year_days_est d) = int d - int (d div 1460) + int (d div 36524) - int (d div 146096)"
    unfolding year_days_est_def by linarith
  then show ?thesis by (simp add: zdiv_int)
qed

lemma est_years:
  assumes "y < 400"
  shows "365 * y \<le> year_days_est (year_start y) \<and> year_days_est (year_start (y + 1) - 1) < 365 * (y + 1)"
proof -
  have "int y \<in> set [0..399]" using assms by simp
  from bspec [OF est_table this] have
    "365 * int y \<le> int (year_days_est (year_start y)) \<and> int (year_days_est (year_start (y + 1) - 1)) < 365 * (int y + 1)"
    using year_start_pos [of y] unfolding Let_def int_est by (simp add: of_nat_diff int_year_start add.commute)
  then show ?thesis by simp
qed

lemma year_exists: "doe < year_start n \<Longrightarrow> \<exists>y<n. year_start y \<le> doe \<and> doe < year_start (y + 1)"
proof (induction n)
  case 0
  then show ?case by (simp add: year_start_def)
next
  case (Suc n)
  then show ?case by (cases "doe < year_start n") (auto intro: less_SucI)
qed

lemma year_start_mono: "year_start y < year_start (y + 1)"
  using march_Suc [of y] by (simp add: march_year_start split: if_splits)

lemma year_of_era:
  assumes "doe < 146097"
  shows "year_days_est doe div 365 < 400 \<and> year_start (year_days_est doe div 365) \<le> doe
    \<and> doe < year_start (year_days_est doe div 365 + 1)"
proof -
  have "doe < year_start 400" using assms by (simp add: year_start_def)
  then obtain y where y: "y < 400" "year_start y \<le> doe" "doe < year_start (y + 1)" using year_exists by blast
  have e: "365 * y \<le> year_days_est (year_start y)" "year_days_est (year_start (y + 1) - 1) < 365 * (y + 1)"
    using est_years [OF y(1)] by simp_all
  have top: "year_start (y + 1) \<le> 146097"
    using y(1) lift_Suc_mono_le [of year_start "y + 1" 400] year_start_mono by (simp add: year_start_def less_imp_le)
  have "year_days_est (year_start y) \<le> year_days_est doe" "year_days_est doe \<le> year_days_est (year_start (y + 1) - 1)"
    using est_mono [OF y(2)] est_mono [of doe "year_start (y + 1) - 1"] y top assms by simp_all
  then have "365 * y \<le> year_days_est doe" "year_days_est doe < 365 * (y + 1)" using e by linarith+
  then have "year_days_est doe div 365 = y" by (simp add: div_nat_eqI)
  then show ?thesis using y by simp
qed

section \<open>From a day of the year to a month\<close>

definition doy_month :: "nat \<Rightarrow> nat" where
  "doy_month doy = (let mp = (5 * doy + 2) div 153 in if mp < 10 then mp + 3 else mp - 9)"

definition doy_day :: "nat \<Rightarrow> nat" where
  "doy_day doy = (let mp = (5 * doy + 2) div 153 in doy - (153 * mp + 2) div 5 + 1)"

lemma doy_table_int:
  "\<forall>doy\<in>set [0..365]. let mp = (5 * doy + 2) div 153; m = (if mp < 10 then mp + 3 else mp - 9); d = doy - (153 * mp + 2) div 5 + 1
    in 0 \<le> mp \<and> mp \<le> 11 \<and> 1 \<le> d
    \<and> d \<le> (if m = 2 then (if doy = 365 then 29 else 28) else if m = 4 \<or> m = 6 \<or> m = 9 \<or> m = 11 then 30 else (31 :: int))"
  by code_simp


text \<open>What the table says of the code's month and day: the March count of the month is \<open>mp\<close>, and the day is in the month.\<close>

lemma month_lens_int:
  "int d \<le> (if int m = 2 then (if int x = 365 then 29 else 28)
      else if int m = 4 \<or> int m = 6 \<or> int m = 9 \<or> int m = 11 then 30 else 31) \<Longrightarrow>
    d \<le> (if m = 2 then (if x = 365 then 29 else 28) else if m \<in> {4, 6, 9, 11} then 30 else 31)"
  by (auto split: if_splits)

lemma month_of_mp: "mp \<le> 11 \<Longrightarrow> 1 \<le> (if mp < 10 then mp + 3 else mp - 9) \<and> (if mp < 10 then mp + 3 else mp - 9) \<le> (12 :: nat)"
  "mp \<le> 11 \<Longrightarrow> march_month (if mp < 10 then mp + 3 else mp - 9) = mp"
  by (auto simp: march_month_def)

lemma doy_bounds:
  assumes "doy < 366"
  shows "(5 * doy + 2) div 153 \<le> 11 \<and> 1 \<le> doy_day doy
    \<and> doy_day doy \<le> (if doy_month doy = 2 then (if doy = 365 then 29 else 28) else if doy_month doy \<in> {4, 6, 9, 11} then 30 else 31)
    \<and> (153 * ((5 * doy + 2) div 153) + 2) div 5 + doy_day doy = doy + 1"
proof -
  define mp where "mp = (5 * doy + 2) div 153"
  have imp: "int mp = (5 * int doy + 2) div 153" unfolding mp_def by (simp add: zdiv_int)
  have "int doy \<in> set [0..365]" using assms by simp
  note tab = bspec [OF doy_table_int this, unfolded Let_def, folded imp]
  have mp: "mp \<le> 11" using tab by simp
  have "5 * doy + 2 \<ge> 153 * mp" unfolding mp_def by (rule times_div_less_eq_dividend)
  then have le: "(153 * mp + 2) div 5 \<le> doy" by linarith
  have i5: "int ((153 * mp + 2) div 5) = (153 * int mp + 2) div 5" by (simp add: zdiv_int)
  have d: "int (doy_day doy) = int doy - (153 * int mp + 2) div 5 + 1"
    unfolding doy_day_def Let_def mp_def [symmetric] i5 [symmetric] using le by simp
  have m: "int (doy_month doy) = (if int mp < 10 then int mp + 3 else int mp - 9)"
    unfolding doy_month_def Let_def mp_def [symmetric] by auto
  have "int (doy_day doy) \<le> (if int (doy_month doy) = 2 then (if int doy = 365 then 29 else 28)
      else if int (doy_month doy) = 4 \<or> int (doy_month doy) = 6 \<or> int (doy_month doy) = 9 \<or> int (doy_month doy) = 11 then 30 else 31)"
    using tab unfolding d m by blast
  note this [THEN month_lens_int]
  moreover have "1 \<le> doy_day doy" by (simp add: doy_day_def Let_def)
  moreover have "(153 * mp + 2) div 5 + doy_day doy = doy + 1" unfolding doy_day_def Let_def mp_def [symmetric] using le by simp
  ultimately show ?thesis using mp unfolding mp_def by blast
qed

lemma march_month_doy: "doy < 366 \<Longrightarrow> march_month (doy_month doy) = (5 * doy + 2) div 153"
  using doy_bounds [of doy] month_of_mp(2) unfolding doy_month_def Let_def by blast

lemma doy_month_range: "doy < 366 \<Longrightarrow> 1 \<le> doy_month doy \<and> doy_month doy \<le> 12"
  using doy_bounds [of doy] month_of_mp(1) unfolding doy_month_def Let_def by blast

section \<open>The date of a day\<close>

definition civil_year :: "nat \<Rightarrow> nat" where
  "civil_year z = year_days_est (z mod 146097) div 365"

definition civil_doy :: "nat \<Rightarrow> nat" where
  "civil_doy z = (let yoe = civil_year z in z mod 146097 - (365 * yoe + yoe div 4 - yoe div 100))"

lemma split_time_eq:
  fixes utc :: nat and tz :: int
  defines "loc \<equiv> local_seconds utc tz"
  defines "z \<equiv> loc div 86400 + 719468"
  shows "brimod_split_time utc tz t =
    t\<lparr>t_hour := loc mod 86400 div 3600, t_min := loc mod 86400 div 60 mod 60, t_sec := loc mod 86400 mod 60,
      t_wday := (loc div 86400 + 4) mod 7, t_day := doy_day (civil_doy z), t_month := doy_month (civil_doy z),
      t_year := civil_year z + z div 146097 * 400 + (if doy_month (civil_doy z) \<le> 2 then 1 else 0)\<rparr>"
  unfolding brimod_split_time_def Let_def loc_def [symmetric] z_def [symmetric] doy_day_def doy_month_def civil_doy_def
    civil_year_def year_days_est_def minus_div_mult_eq_mod
  by (rule refl)

lemma civil_year_start:
  "civil_year z < 400" "year_start (civil_year z) + civil_doy z = z mod 146097"
  "civil_doy z < (if leap (civil_year z + 1) then 366 else 365)"
proof -
  have y: "civil_year z < 400" "year_start (civil_year z) \<le> z mod 146097" "z mod 146097 < year_start (civil_year z + 1)"
    using year_of_era [of "z mod 146097"] by (simp_all add: civil_year_def)
  show "civil_year z < 400" by (rule y)
  then have "civil_doy z = z mod 146097 - year_start (civil_year z)"
    by (simp add: civil_doy_def Let_def year_start_def)
  with y(2) show e: "year_start (civil_year z) + civil_doy z = z mod 146097" by simp
  show "civil_doy z < (if leap (civil_year z + 1) then 366 else 365)"
    using y(3) march_Suc [of "civil_year z"] e by (simp add: march_year_start split: if_splits)
qed

lemma leap_era: "leap (n + 400 * e) = leap n"
proof -
  have "(k::nat) dvd 400 \<Longrightarrow> k dvd n + 400 * e \<longleftrightarrow> k dvd n" for k by (simp add: dvd_add_left_iff)
  from this [of 4] this [of 100] this [of 400] show ?thesis unfolding leap_def by simp
qed

text \<open>The year from March, month and day of \<open>z\<close> are a date of the calendar, and it is day \<open>z\<close>.\<close>

lemma civil_date:
  fixes z :: nat
  assumes "719468 \<le> z"
  defines "m \<equiv> doy_month (civil_doy z)" and "d \<equiv> doy_day (civil_doy z)"
  defines "y \<equiv> civil_year z + z div 146097 * 400 + (if m \<le> 2 then 1 else 0)"
  shows "valid_date y m d \<and> calendar_days y m d + 719468 = z"
proof -
  define Y where "Y = civil_year z + 400 * (z div 146097)"
  have doy: "civil_doy z < 366" using civil_year_start(3) [of z] by (simp split: if_splits)
  have z: "int z = march Y + int (civil_doy z)"
  proof -
    have "int z = 146097 * int (z div 146097) + int (z mod 146097)"
      using mult_div_mod_eq [of 146097 z] by (metis of_nat_add of_nat_mult of_nat_numeral)
    then show ?thesis unfolding Y_def march_era unfolding march_year_start civil_year_start(2) [symmetric] by simp
  qed
  have leapY: "leap (Suc Y) = leap (civil_year z + 1)"
    using leap_era [of "civil_year z + 1" "z div 146097"] unfolding Y_def by (simp add: add.commute add.left_commute)
  have yY: "y = Y + (if m \<le> 2 then 1 else 0)" unfolding y_def Y_def by simp
  have b: "1 \<le> m" "m \<le> 12" "1 \<le> d" "march_month m = (5 * civil_doy z + 2) div 153"
    "(153 * march_month m + 2) div 5 + d = civil_doy z + 1"
    using doy_bounds [OF doy] doy_month_range [OF doy] march_month_doy [OF doy] unfolding m_def d_def by simp_all
  have dm: "d \<le> month_days y m"
  proof -
    have "d \<le> (if m = 2 then (if civil_doy z = 365 then 29 else 28) else if m \<in> {4, 6, 9, 11} then 30 else 31)"
      using doy_bounds [OF doy] unfolding m_def d_def by blast
    moreover have "m = 2 \<Longrightarrow> y = Suc Y" by (simp add: yY)
    ultimately show ?thesis using civil_year_start(3) [of z] leapY unfolding month_days_def by (simp split: if_splits)
  qed
  have y0: "1970 \<le> y"
  proof (rule ccontr)
    assume "\<not> 1970 \<le> y"
    then have less: "Y \<le> 1969" "m \<le> 2 \<Longrightarrow> Y \<le> 1968" by (simp_all add: yY split: if_splits)
    have mono: "a \<le> b \<Longrightarrow> march a \<le> march b" for a b
      using lift_Suc_mono_le [of march a b] march_Suc by (simp split: if_splits)
    show False
    proof (cases "m \<le> 2")
      case True
      have "civil_doy z < 366" by (rule doy)
      then show ?thesis using mono [OF less(2) [OF True]] z assms(1) by (simp add: march_def)
    next
      case False
      then have "march_month m \<le> 9" using b(2) by (simp add: march_month_def)
      then have "civil_doy z \<le> 305" using b(4) by linarith
      then show ?thesis using mono [OF less(1)] z assms(1) by (simp add: march_def)
    qed
  qed
  have v: "valid_date y m d" unfolding valid_date_def using y0 b dm by simp
  have "from_march y m = Y" by (simp add: from_march_def yY)
  then have "int (calendar_days y m d) + 719468 = int z"
    using calendar_days_march [OF v] z b(5) by simp
  with v show ?thesis by simp
qed


section \<open>Splitting and making times\<close>

lemma split_time_all:
  fixes utc :: nat and tz :: int and t :: brimod_time
  defines "r \<equiv> brimod_split_time utc tz t"
  shows "valid_date (t_year r) (t_month r) (t_day r)
    \<and> 86400 * calendar_days (t_year r) (t_month r) (t_day r) + 3600 * t_hour r + 60 * t_min r + t_sec r = local_seconds utc tz
    \<and> t_hour r < 24 \<and> t_min r < 60 \<and> t_sec r < 60
    \<and> t_wday r = (calendar_days (t_year r) (t_month r) (t_day r) + 4) mod 7"
proof -
  define loc where "loc = local_seconds utc tz"
  define z where "z = loc div 86400 + 719468"
  have c: "valid_date (t_year r) (t_month r) (t_day r) \<and> calendar_days (t_year r) (t_month r) (t_day r) + 719468 = z"
    using civil_date [of z] unfolding r_def split_time_eq loc_def [symmetric] z_def [symmetric] by (simp add: z_def)
  have f: "t_hour r = loc mod 86400 div 3600" "t_min r = loc mod 86400 div 60 mod 60" "t_sec r = loc mod 86400 mod 60"
    "t_wday r = (loc div 86400 + 4) mod 7"
    unfolding r_def split_time_eq loc_def [symmetric] by simp_all
  have d: "calendar_days (t_year r) (t_month r) (t_day r) = loc div 86400" using c unfolding z_def by simp
  have day: "x < 86400 \<Longrightarrow> 3600 * (x div 3600) + 60 * (x div 60 mod 60) + x mod 60 = x \<and> x div 3600 < 24" for x :: nat
  proof -
    assume x: "x < 86400"
    define a where "a = x div 60"
    have "x div 3600 = a div 60" unfolding a_def by (simp add: div_mult2_eq [symmetric])
    moreover have "x = 60 * a + x mod 60" "a = 60 * (a div 60) + a mod 60" by (simp_all add: a_def)
    ultimately show ?thesis using x unfolding a_def [symmetric] by linarith
  qed
  have m: "86400 * (loc div 86400) + loc mod 86400 = loc" "loc mod 86400 < 86400" by simp_all
  note s = day [OF m(2)]
  have "86400 * (loc div 86400) + 3600 * (loc mod 86400 div 3600) + 60 * (loc mod 86400 div 60 mod 60) + loc mod 86400 mod 60 = loc"
    using m(1) conjunct1 [OF s, unfolded add.assoc] unfolding add.assoc by metis
  then show ?thesis unfolding loc_def [symmetric] d using c s unfolding f by simp
qed


text \<open>C's division of numbers that are not negative is the division of natural numbers.\<close>

lemma int_sdiv: "int a sdiv int b = int (a div b)"
  by (cases "a = 0"; cases "b = 0") (simp_all add: signed_divide_int_def zdiv_int)

text \<open>The arithmetic of \<open>brimod_make_time\<close> wraps at 32 bits in every step; only the sum counts.\<close>

lemma wrap_steps:
  "((((e + ((q + doy mod M) mod M) - c) mod M) * k + h + mi + s) mod M - t) mod M = ((e + q + doy - c) * k + h + mi + s - t) mod (M :: int)"
proof -
  have "(e + ((q + doy mod M) mod M)) mod M = (e + q + doy) mod M" by (simp add: mod_simps add.assoc)
  then have "(e + ((q + doy mod M) mod M) - c) mod M = (e + q + doy - c) mod M" by (metis mod_diff_left_eq)
  then have "(((e + ((q + doy mod M) mod M) - c) mod M) * k + h + mi + s) mod M = ((e + q + doy - c) * k + h + mi + s) mod M"
    by (metis (no_types) mod_add_left_eq mod_mult_left_eq)
  then show ?thesis by (metis mod_diff_left_eq)
qed

lemma march_mod_era: "march Y = int (Y div 400) * 146097 + (int (Y mod 400) * 365 + int (Y mod 400 div 4) - int (Y mod 400 div 100))"
proof -
  have "march Y = march (Y mod 400) + 146097 * int (Y div 400)"
    using march_era [of "Y mod 400" "Y div 400"] mod_mult_div_eq [of Y 400] by simp
  then show ?thesis unfolding march_def by simp
qed

lemma make_time_days:
  assumes "valid_date y m d"
  shows "brimod_make_time (int y) (int m) (int d) h mi s tz
    = nat ((int (calendar_days y m d) * 86400 + h * 3600 + mi * 60 + s - tz * 60) mod 2 ^ 32)"
proof -
  define Y where "Y = from_march y m"
  define k where "k = (153 * march_month m + 2) div 5 + d - 1"
  have y: "1970 \<le> y" and m: "1 \<le> m" "m \<le> 12" and d: "1 \<le> d" using assms by (simp_all add: valid_date_def)
  have cd: "int (calendar_days y m d) = march Y + int k - 719468"
    using calendar_days_march [OF assms] d unfolding Y_def k_def by simp
  have yy: "int y - (if int m \<le> 2 then 1 else 0) = int Y" using y by (simp add: Y_def from_march_def)
  have era: "int Y sdiv 400 = int (Y div 400)" by (rule int_sdiv [of Y 400, simplified])
  have "int Y - int (Y div 400) * 400 = int (Y mod 400)" by (simp add: minus_div_mult_eq_mod zdiv_int zmod_int)
  moreover have "Y mod 400 < 400" by simp
  ultimately have yoe: "(int Y - int (Y div 400) * 400) mod 2 ^ 32 = int (Y mod 400)" by simp
  have mm: "(if int m > 2 then int m - 3 else int m + 9) = int (march_month m)" using m by (auto simp: march_month_def)
  have "(153 * int (march_month m) + 2) sdiv 5 = int ((153 * march_month m + 2) div 5)"
    using int_sdiv [of "153 * march_month m + 2" 5] by (simp add: add.commute)
  then have doy: "(153 * int (march_month m) + 2) sdiv 5 + int d - 1 = int k" using d by (simp add: k_def)
  have tz: "(if tz \<ge> 0 then l - tz * 60 else l + (- tz) * 60) = l - tz * 60" for l :: int by simp
  have q: "int (Y div 400) * 146097 + (int (Y mod 400) * 365 + int (Y mod 400) div 4 - int (Y mod 400) div 100) + int k - 719468
      = int (calendar_days y m d)"
    unfolding cd march_mod_era by (simp add: zdiv_int)
  show ?thesis unfolding brimod_make_time_def Let_def yy era yoe mm doy tz wrap_steps q by (rule refl)
qed

text \<open>
  \<open>brimod_make_time\<close> after \<open>brimod_split_time\<close>: with an offset of at most 14 hours and a local time that fits
  in 32 bits, the seconds come back.
\<close>

theorem make_split_time:
  assumes "utc < 2 ^ 32" "\<bar>tz\<bar> \<le> 840" "0 \<le> int utc + 60 * tz" "int utc + 60 * tz < 2 ^ 32"
  shows "(let r = brimod_split_time utc tz t in brimod_make_time (int (t_year r)) (int (t_month r)) (int (t_day r))
    (int (t_hour r)) (int (t_min r)) (int (t_sec r)) tz) = utc"
proof -
  define r where "r = brimod_split_time utc tz t"
  have l: "int (local_seconds utc tz) = int utc + 60 * tz"
  proof (cases "tz \<ge> 0")
    case True
    then show ?thesis using assms unfolding local_seconds_def Let_def by (simp add: add32_def mul32_def nat_less_iff nat_mult_distrib)
  next
    case False
    then have "mul32 (nat \<bar>tz\<bar>) 60 = nat (- tz) * 60" using assms(2) by (simp add: mul32_def)
    then show ?thesis using assms False unfolding local_seconds_def Let_def by auto
  qed
  have "int (calendar_days (t_year r) (t_month r) (t_day r)) * 86400 + int (t_hour r) * 3600 + int (t_min r) * 60 + int (t_sec r)
      = int (local_seconds utc tz)"
    using split_time_all [of utc tz t] unfolding r_def by linarith
  then have "int (calendar_days (t_year r) (t_month r) (t_day r)) * 86400 + int (t_hour r) * 3600 + int (t_min r) * 60
      + int (t_sec r) - tz * 60 = int utc" unfolding l by simp
  moreover have "valid_date (t_year r) (t_month r) (t_day r)" using split_time_all [of utc tz t] unfolding r_def by blast
  ultimately show ?thesis using assms(1) unfolding r_def [symmetric] Let_def by (simp add: make_time_days)
qed

text \<open>29 February 2024, a Thursday, 12:34:56 in Bangkok, and back.\<close>

definition some_time :: brimod_time where
  "some_time = \<lparr>t_utc = 0, t_tz_min = 0, t_source = 0, t_year = 0, t_month = 0, t_day = 0, t_hour = 0, t_min = 0,
    t_sec = 0, t_wday = 0\<rparr>"

theorem make_split_time_witness:
  "(let r = brimod_split_time 1709184896 420 some_time in brimod_make_time (int (t_year r)) (int (t_month r)) (int (t_day r))
    (int (t_hour r)) (int (t_min r)) (int (t_sec r)) 420) = 1709184896"
  by (rule make_split_time) simp_all

end
