(* ===== verification/LibcText.thy ===== *)
theory LibcText
  imports LibcNum
begin

text \<open>
  Texts as lists of characters, where the code has them in buffers of its own: decimal numbers as \<open>%d\<close> prints them and \<open>atoi\<close> reads
  them, and lines.
\<close>

section \<open>Decimal numbers\<close>

text \<open>Decimal digits, as \<open>%d\<close> prints them.\<close>

fun dec_nat :: "nat \<Rightarrow> byte list" where
  "dec_nat n = (if n < 10 then [of_nat (48 + n)] else dec_nat (n div 10) @ [of_nat (48 + n mod 10)])"

declare dec_nat.simps [simp del]

definition dec :: "int \<Rightarrow> byte list" where
  "dec v = (if v < 0 then 0x2d # dec_nat (nat (- v)) else dec_nat (nat v))"

definition text_mem :: "byte list \<Rightarrow> mem" where
  "text_mem t = (\<lambda>i. if i < length t then t ! i else 0)"

definition text_int :: "byte list \<Rightarrow> int option" where
  "text_int t = atoi 0 (text_mem t)"

section \<open>Lines\<close>

text \<open>\<open>strchr (p, '\n')\<close> and one further: the text behind the line, if there is one.\<close>

definition next_line :: "byte list \<Rightarrow> byte list option" where
  "next_line p = (case dropWhile (\<lambda>c. c \<noteq> 10) p of [] \<Rightarrow> None | _ # q \<Rightarrow> Some q)"

lemma next_line_shorter: "next_line p = Some q \<Longrightarrow> length q < length p"
  using length_dropWhile_le [of "\<lambda>c. c \<noteq> 10" p] by (auto simp: next_line_def split: list.splits)

section \<open>What is printed is what is read\<close>

lemma digit_of: "d < 10 \<Longrightarrow> digit_val (of_nat (48 + d)) = Some (int d) \<and> isdigit (chr (of_nat (48 + d)))"
proof -
  assume "d < 10"
  then have "d \<in> {0, 1, 2, 3, 4, 5, 6, 7, 8, 9}" by auto
  then show ?thesis by (elim insertE emptyE) (simp_all add: digit_val_def isdigit_def)
qed

lemma dec_nat_digits: "dec_nat n \<noteq> [] \<and> (\<forall>c\<in>set (dec_nat n). isdigit (chr c)) \<and> digits_int 10 (dec_nat n) = int n"
proof (induction n rule: less_induct)
  case (less n)
  show ?case
  proof (cases "n < 10")
    case True
    then show ?thesis using digit_of [of n] by (subst (1 2 3) dec_nat.simps) (simp add: digits_int_def)
  next
    case False
    then have "n div 10 < n" by simp
    from less.IH [OF this] have 1: "\<forall>c\<in>set (dec_nat (n div 10)). isdigit (chr c)" "digits_int 10 (dec_nat (n div 10)) = int (n div 10)"
      by simp_all
    have 2: "digit_val (of_nat (48 + n mod 10)) = Some (int (n mod 10))" "isdigit (chr (of_nat (48 + n mod 10)))"
      using digit_of [of "n mod 10"] by simp_all
    have 3: "dec_nat n = dec_nat (n div 10) @ [of_nat (48 + n mod 10)]" using False by (subst dec_nat.simps) simp
    have "digits_int 10 (dec_nat n) = int (n div 10) * 10 + int (n mod 10)"
      unfolding 3 using 1(2) 2(1) by (simp add: digits_int_def)
    then have "digits_int 10 (dec_nat n) = int n" using div_mult_mod_eq [of n 10] by linarith
    then show ?thesis using 1(1) 2(2) 3 by auto
  qed
qed

lemma dec_nat_length: "n < 10 ^ Suc k \<Longrightarrow> length (dec_nat n) \<le> Suc k"
proof (induction k arbitrary: n)
  case 0
  then show ?case by (subst dec_nat.simps) simp
next
  case (Suc k)
  then have "n div 10 < 10 ^ Suc k" by (simp add: less_mult_imp_div_less mult.commute)
  from Suc.IH [OF this] show ?case by (subst dec_nat.simps) simp
qed

lemma dec_chars: "dec v \<noteq> [] \<and> (\<forall>c\<in>set (dec v). c = 0x2d \<or> isdigit (chr c))"
  using dec_nat_digits by (simp add: dec_def)

lemma dec_length: "\<bar>v\<bar> < 10 ^ Suc k \<Longrightarrow> length (dec v) \<le> Suc (Suc k)"
proof -
  assume "\<bar>v\<bar> < 10 ^ Suc k"
  then have "nat \<bar>v\<bar> < 10 ^ Suc k" by (simp add: nat_less_iff)
  moreover have "nat (- v) \<le> nat \<bar>v\<bar>" "nat v \<le> nat \<bar>v\<bar>" by (auto intro: nat_mono)
  ultimately have "nat (- v) < 10 ^ Suc k" "nat v < 10 ^ Suc k" by (blast intro: le_less_trans)+
  from this [THEN dec_nat_length] show ?thesis by (auto simp: dec_def)
qed

lemma text_mem_at: "bytes_at (text_mem t) 0 t \<and> text_mem t (length t) = 0"
  by (simp add: bytes_at_def text_mem_def)

lemma dec_read: "- 0x80000000 \<le> v \<Longrightarrow> v < 0x80000000 \<Longrightarrow> text_int (dec v) = Some v"
proof -
  assume v: "- 0x80000000 \<le> v" "v < 0x80000000"
  define sg where "sg = (if v < 0 then [0x2d] else [] :: byte list)"
  define cs where "cs = dec_nat (nat \<bar>v\<bar>)"
  have d: "dec v = sg @ cs" by (simp add: dec_def sg_def cs_def)
  have n: "cs \<noteq> []" "\<forall>c\<in>set cs. isdigit (chr c)" "digits_int 10 cs = \<bar>v\<bar>" using dec_nat_digits [of "nat \<bar>v\<bar>"] by (simp_all add: cs_def)
  show ?thesis unfolding text_int_def
    by (rule atoi_run [where ws = "[]" and sg = sg and cs = cs])
      (use n v text_mem_at [of "dec v"] in \<open>auto simp: d sg_def isdigit_def\<close>)
qed

end
