(* ===== verification/Brimod.thy ===== *)
theory Brimod
  imports I2c BrimodClock LibcText "HOL-Library.Monad_Syntax"
begin

text \<open>
  The driver of the ESP32 bridge (\<open>sdk/brimod.c\<close>) over the transfers of \<open>I2c\<close>: registers, clock, sensors, FM
  transmitter, front panel, mailbox and WiFi. A text is the list of its characters before the NUL. A command may wait for the bridge for
  as long as the clock of the box allows: \<open>None\<close> is a wait that never ends.
\<close>

section \<open>State\<close>

text \<open>The statics of \<open>brimod.c\<close>, and those of the panel functions of \<open>runtime.c\<close>.\<close>

record 'd brimod = "'d bus" +
  sdk_brimod :: bool
  brimod_fw :: nat
  panel_seg :: "byte list"
  bell :: nat
  front_press_ms :: nat
  panel_text :: "byte list"
  panel_led_on :: int

definition BRIMOD_ADDR :: nat where "BRIMOD_ADDR = 0x42"
definition BRIMOD_PRESCALE :: nat where "BRIMOD_PRESCALE = 0x35"
definition BRIMOD_PREP_US :: nat where "BRIMOD_PREP_US = 300"
definition BRIMOD_REPEAT_DELAY_MS :: nat where "BRIMOD_REPEAT_DELAY_MS = 400"
definition BRIMOD_READ_MAX :: int where "BRIMOD_READ_MAX = 32"
definition BRIMOD_WRITE_MAX :: int where "BRIMOD_WRITE_MAX = 127"
definition BRIMOD_CMD_MAX :: int where "BRIMOD_CMD_MAX = 120"
definition BRIMOD_ENODEV :: int where "BRIMOD_ENODEV = - 10"
definition BRIMOD_EBUSY :: int where "BRIMOD_EBUSY = - 11"
definition BRIMOD_ETIMEOUT :: int where "BRIMOD_ETIMEOUT = - 12"
definition BRIMOD_EFAIL :: int where "BRIMOD_EFAIL = - 13"
definition BRIMOD_EPROTO :: int where "BRIMOD_EPROTO = - 14"

lemmas brimod_consts = BRIMOD_ADDR_def BRIMOD_PRESCALE_def BRIMOD_PREP_US_def BRIMOD_READ_MAX_def BRIMOD_WRITE_MAX_def
  BRIMOD_CMD_MAX_def BRIMOD_ENODEV_def BRIMOD_EBUSY_def BRIMOD_ETIMEOUT_def BRIMOD_EFAIL_def BRIMOD_EPROTO_def

definition le16 :: "byte list \<Rightarrow> nat \<Rightarrow> nat" where
  "le16 b i = unat (b ! i) OR push_bit 8 (unat (b ! (i + 1)))"

definition les16 :: "byte list \<Rightarrow> nat \<Rightarrow> int" where
  "les16 b i = signed_take_bit 15 (int (le16 b i))"

text \<open>The bytes of a number, low first.\<close>

definition by0 :: "int \<Rightarrow> byte" where "by0 v = of_int v"
definition by1 :: "int \<Rightarrow> byte" where "by1 v = of_int (drop_bit 8 v)"

section \<open>Registers\<close>

definition raw_read :: "'d i2c_hw \<Rightarrow> nat \<Rightarrow> int \<Rightarrow> 'd brimod \<Rightarrow> int \<times> byte list \<times> 'd brimod" where
  "raw_read D reg n s =
     (if n < 1 \<or> n > BRIMOD_READ_MAX then (BRIMOD_EPROTO, [], s)
      else (let s1 = i2c_use D BRIMOD_PRESCALE s;
                (r, s2) = i2c_write D I2C_CH_FP BRIMOD_ADDR [0xff, of_nat reg, of_int n] s1
            in if r \<noteq> 0 then (r, [], s2)
               else (let s3 = s2\<lparr>b_dev := hw_delay D BRIMOD_PREP_US (b_dev s2)\<rparr>;
                         (r2, vs, s4) = i2c_read D I2C_CH_FP BRIMOD_ADDR (nat n) s3
                     in if r2 \<noteq> 0 then (let (r3, dummy, s5) = i2c_read D I2C_CH_FP BRIMOD_ADDR 1 s4 in (r2, vs, s5))
                        else (r2, vs, s4))))"

definition brimod_read :: "'d i2c_hw \<Rightarrow> nat \<Rightarrow> int \<Rightarrow> 'd brimod \<Rightarrow> int \<times> byte list \<times> 'd brimod" where
  "brimod_read D reg n s = (if \<not> sdk_brimod s then (BRIMOD_ENODEV, [], s) else raw_read D reg n s)"

definition brimod_write :: "'d i2c_hw \<Rightarrow> nat \<Rightarrow> byte list \<Rightarrow> 'd brimod \<Rightarrow> int \<times> 'd brimod" where
  "brimod_write D reg buf s =
     (if \<not> sdk_brimod s then (BRIMOD_ENODEV, s)
      else if int (length buf) > BRIMOD_WRITE_MAX then (BRIMOD_EPROTO, s)
      else i2c_write D I2C_CH_FP BRIMOD_ADDR (of_nat reg # buf) (i2c_use D BRIMOD_PRESCALE s))"

definition brimod_detect :: "'d i2c_hw \<Rightarrow> 'd brimod \<Rightarrow> int \<times> 'd brimod" where
  "brimod_detect D s0 =
     (let s = s0\<lparr>sdk_brimod := False\<rparr>; (r, b, s1) = raw_read D 0x00 5 s
      in if r \<noteq> 0 \<or> take 4 b \<noteq> [0x4e, 0x43, 0x42, 0x31] then (0, s1)
         else (let s2 = s1\<lparr>brimod_fw := unat (b ! 4)\<rparr>; (r2, p, s3) = raw_read D 0xa0 4 s2
               in (1, s3\<lparr>panel_seg := p @ drop (length p) (panel_seg s3), sdk_brimod := True\<rparr>)))"

definition read8 :: "'d i2c_hw \<Rightarrow> nat \<Rightarrow> 'd brimod \<Rightarrow> int \<times> 'd brimod" where
  "read8 D reg s = (let (r, v, s1) = brimod_read D reg 1 s in (if r < 0 then r else int (unat (v ! 0)), s1))"

definition write8 :: "'d i2c_hw \<Rightarrow> nat \<Rightarrow> int \<Rightarrow> 'd brimod \<Rightarrow> int \<times> 'd brimod" where
  "write8 D reg v s = brimod_write D reg [by0 v] s"

definition brimod_present :: "'d i2c_hw \<Rightarrow> 'd brimod \<Rightarrow> int \<times> 'd brimod" where
  "brimod_present D s = read8 D 0x05 s"

definition brimod_config :: "'d i2c_hw \<Rightarrow> int \<Rightarrow> int \<Rightarrow> 'd brimod \<Rightarrow> int \<times> 'd brimod" where
  "brimod_config D st cl s =
     (let (v, s1) = read8 D 0x0a s
      in if v < 0 then (v, s1)
         else (let v' = (v OR st) AND NOT cl AND 0xff; (r, s2) = write8 D 0x0a v' s1 in (if r < 0 then r else v', s2)))"

definition brimod_restart :: "'d i2c_hw \<Rightarrow> 'd brimod \<Rightarrow> int \<times> 'd brimod" where
  "brimod_restart D s = write8 D 0xf0 0xa5 s"

section \<open>Events\<close>

definition brimod_events :: "'d i2c_hw \<Rightarrow> 'd brimod \<Rightarrow> int \<times> 'd brimod" where
  "brimod_events D s =
     (let (r, b, s1) = brimod_read D 0x06 2 s
      in if r < 0 then (r, s1)
         else (let (r2, s2) = (if b ! 0 OR b ! 1 \<noteq> 0 then brimod_write D 0x06 b s1 else (0, s1))
               in if r2 < 0 then (r2, s2) else (int (le16 b 0), s2)))"

definition brimod_doorbell :: "'d brimod \<Rightarrow> int \<times> 'd brimod" where
  "brimod_doorbell s = (if sdk_brimod s then int (bell s) else BRIMOD_ENODEV, s\<lparr>bell := 0\<rparr>)"

definition brimod_set_bell_mask :: "'d i2c_hw \<Rightarrow> int \<Rightarrow> 'd brimod \<Rightarrow> int \<times> 'd brimod" where
  "brimod_set_bell_mask D evs s = brimod_write D 0x08 [by0 evs, by1 evs] s"

section \<open>Clock and sensors\<close>

definition brimod_get_time :: "'d i2c_hw \<Rightarrow> brimod_time \<Rightarrow> 'd brimod \<Rightarrow> int \<times> brimod_time \<times> 'd brimod" where
  "brimod_get_time D t s =
     (let (r, b, s1) = brimod_read D 0x10 7 s
      in if r < 0 then (r, t, s1)
         else (let t1 = t\<lparr>t_utc := ufs_le32 b 0, t_tz_min := les16 b 4, t_source := unat (b ! 6)\<rparr>
               in (0, brimod_split_time (t_utc t1) (t_tz_min t1) t1, s1)))"

definition brimod_set_time :: "'d i2c_hw \<Rightarrow> nat \<Rightarrow> 'd brimod \<Rightarrow> int \<times> 'd brimod" where
  "brimod_set_time D utc s = brimod_write D 0x10 (ufs_put32 utc) s"

definition brimod_set_tz :: "'d i2c_hw \<Rightarrow> int \<Rightarrow> 'd brimod \<Rightarrow> int \<times> 'd brimod" where
  "brimod_set_tz D minutes s = brimod_write D 0x14 [by0 minutes, by1 minutes] s"

record brimod_climate =
  cl_temp :: int
  cl_humidity :: nat
  cl_pressure :: nat
  cl_bmp_temp :: int

definition brimod_get_climate :: "'d i2c_hw \<Rightarrow> brimod_climate \<Rightarrow> 'd brimod \<Rightarrow> int \<times> brimod_climate \<times> 'd brimod" where
  "brimod_get_climate D c s =
     (let (r, b, s1) = brimod_read D 0x20 10 s
      in if r < 0 then (r, c, s1)
         else (0, \<lparr>cl_temp = les16 b 0, cl_humidity = le16 b 2, cl_pressure = ufs_le32 b 4, cl_bmp_temp = les16 b 8\<rparr>, s1))"

record brimod_adc =
  adc_mv :: "nat \<times> nat"
  adc_chip_temp :: int

definition brimod_get_adc :: "'d i2c_hw \<Rightarrow> brimod_adc \<Rightarrow> 'd brimod \<Rightarrow> int \<times> brimod_adc \<times> 'd brimod" where
  "brimod_get_adc D a s =
     (let (r, b, s1) = brimod_read D 0x38 6 s
      in if r < 0 then (r, a, s1) else (0, \<lparr>adc_mv = (le16 b 0, le16 b 2), adc_chip_temp = les16 b 4\<rparr>, s1))"

section \<open>FM transmitter\<close>

record brimod_fm =
  fm_freq :: int
  fm_power :: int
  fm_flags :: int
  fm_antcap :: int
  fm_rds_opts :: int
  fm_noise :: int
  fm_antcap_used :: int
  fm_in_flags :: int
  fm_in_level :: int

definition brimod_fm_get :: "'d i2c_hw \<Rightarrow> brimod_fm \<Rightarrow> 'd brimod \<Rightarrow> int \<times> brimod_fm \<times> 'd brimod" where
  "brimod_fm_get D fm s =
     (let (r, b, s1) = brimod_read D 0x40 6 s;
          (r2, t, s2) = (if r = 0 then brimod_read D 0x30 4 s1 else (r, [], s1))
      in if r2 < 0 then (r2, fm, s2)
         else (0, \<lparr>fm_freq = int (le16 b 0), fm_power = uint (b ! 2), fm_flags = uint (b ! 3), fm_antcap = uint (b ! 4),
                   fm_rds_opts = uint (b ! 5), fm_noise = uint (t ! 0), fm_antcap_used = uint (t ! 1),
                   fm_in_flags = uint (t ! 2), fm_in_level = sint (t ! 3)\<rparr>, s2))"

definition brimod_fm_write :: "'d i2c_hw \<Rightarrow> brimod_fm \<Rightarrow> 'd brimod \<Rightarrow> int \<times> 'd brimod" where
  "brimod_fm_write D fm s =
     brimod_write D 0x40 [by0 (fm_freq fm), by1 (fm_freq fm), by0 (fm_power fm), by0 (fm_flags fm), by0 (fm_antcap fm),
       by0 (fm_rds_opts fm)] s"

definition brimod_fm_set :: "'d i2c_hw \<Rightarrow> int \<Rightarrow> int \<Rightarrow> int \<Rightarrow> 'd brimod \<Rightarrow> int \<times> 'd brimod" where
  "brimod_fm_set D freq pw flags s = brimod_write D 0x40 [by0 freq, by1 freq, by0 pw, by0 flags] s"

definition write_text :: "'d i2c_hw \<Rightarrow> nat \<Rightarrow> byte list \<Rightarrow> nat \<Rightarrow> 'd brimod \<Rightarrow> int \<times> 'd brimod" where
  "write_text D reg t len s = brimod_write D reg (map (\<lambda>i. if i < length t then t ! i else 0x20) [0..<len]) s"

definition brimod_rds_set :: "'d i2c_hw \<Rightarrow> int \<Rightarrow> byte list option \<Rightarrow> byte list option \<Rightarrow> 'd brimod \<Rightarrow> int \<times> 'd brimod" where
  "brimod_rds_set D pi ps txt s =
     (let (r, s1) = brimod_write D 0x46 [by0 pi, by1 pi] s;
          (r2, s2) = (case ps of Some t \<Rightarrow> if r = 0 then write_text D 0x48 t 8 s1 else (r, s1) | None \<Rightarrow> (r, s1));
          (r3, s3) = (case txt of Some t \<Rightarrow> if r2 = 0 then write_text D 0x50 t 64 s2 else (r2, s2) | None \<Rightarrow> (r2, s2))
      in (r3, s3))"

text \<open>Pieces of 32 characters. What a failed read leaves of the caller's buffer is not returned.\<close>

fun text_pieces :: "'d i2c_hw \<Rightarrow> nat \<Rightarrow> nat \<Rightarrow> nat list \<Rightarrow> 'd brimod \<Rightarrow> int \<times> byte list \<times> 'd brimod" where
  "text_pieces D reg n [] s = (0, [], s)"
| "text_pieces D reg n (i # is) s =
     (let (r, v, s1) = brimod_read D (reg + i) (if int n - int i > BRIMOD_READ_MAX then BRIMOD_READ_MAX else int n - int i) s
      in if r = 0 then (let (r2, v2, s2) = text_pieces D reg n is s1 in (r2, v @ v2, s2)) else (r, [], s1))"

definition cut_blanks :: "byte list \<Rightarrow> byte list" where
  "cut_blanks t = rev (dropWhile (\<lambda>c. c = 0x20 \<or> c = 0) (rev t))"

definition read_text :: "'d i2c_hw \<Rightarrow> nat \<Rightarrow> nat \<Rightarrow> 'd brimod \<Rightarrow> int \<times> byte list \<times> 'd brimod" where
  "read_text D reg n s =
     (let (r, v, s1) = text_pieces D reg n (map (\<lambda>k. k * nat BRIMOD_READ_MAX) [0..<(n + 31) div nat BRIMOD_READ_MAX]) s
      in (r, cut_blanks v, s1))"

definition brimod_rds_get :: "'d i2c_hw \<Rightarrow> 'd brimod \<Rightarrow> int \<times> nat \<times> byte list \<times> byte list \<times> 'd brimod" where
  "brimod_rds_get D s =
     (let (r, b, s1) = brimod_read D 0x46 2 s
      in if r \<noteq> 0 then (r, 0, [], [], s1)
         else (let (r2, ps, s2) = read_text D 0x48 8 s1
               in if r2 \<noteq> 0 then (r2, le16 b 0, ps, [], s2)
                  else (let (r3, t, s3) = read_text D 0x50 64 s2 in (r3, le16 b 0, ps, t, s3))))"

definition brimod_si_get :: "'d i2c_hw \<Rightarrow> int \<Rightarrow> 'd brimod \<Rightarrow> int \<times> 'd brimod" where
  "brimod_si_get D p s =
     (let (r, s1) = brimod_write D 0x90 [by0 p, by1 p] s;
          (r2, b, s2) = (if r = 0 then brimod_read D 0x90 4 s1 else (r, [], s1))
      in if r2 < 0 then (r2, s2)
         else if int (le16 b 0) \<noteq> p AND 0xffff \<or> le16 b 2 = 0xffff then (BRIMOD_EPROTO, s2)
         else (int (le16 b 2), s2))"

definition brimod_si_set :: "'d i2c_hw \<Rightarrow> int \<Rightarrow> int \<Rightarrow> 'd brimod \<Rightarrow> int \<times> 'd brimod" where
  "brimod_si_set D p v s = brimod_write D 0x90 [by0 p, by1 p, by0 v, by1 v] s"

section \<open>Front panel\<close>

definition brimod_panel_raw :: "'d i2c_hw \<Rightarrow> byte list \<Rightarrow> 'd brimod \<Rightarrow> int \<times> 'd brimod" where
  "brimod_panel_raw D sg s =
     (let (r, s1) = brimod_write D 0xa0 sg s in (r, if r = 0 then s1\<lparr>panel_seg := sg\<rparr> else s1))"

definition brimod_panel_control :: "'d i2c_hw \<Rightarrow> int \<Rightarrow> 'd brimod \<Rightarrow> int \<times> 'd brimod" where
  "brimod_panel_control D v s = write8 D 0xa4 v s"

fun panel_digits :: "nat list \<Rightarrow> byte list \<Rightarrow> byte list \<Rightarrow> byte list" where
  "panel_digits [] cs rs = rs"
| "panel_digits (reg # rgs) cs rs =
     (let (c, cs') = next_char cs in panel_digits rgs cs' (rs[reg := keep_led reg (fd650_char c) rs]))"

definition brimod_panel_show :: "'d i2c_hw \<Rightarrow> byte list \<Rightarrow> 'd brimod \<Rightarrow> 'd brimod" where
  "brimod_panel_show D cs s =
     (let s1 = s\<lparr>panel_seg := panel_digits fd650_pos_reg cs (panel_seg s)\<rparr> in snd (brimod_write D 0xa0 (panel_seg s1) s1))"

definition brimod_panel_led :: "'d i2c_hw \<Rightarrow> bool \<Rightarrow> 'd brimod \<Rightarrow> 'd brimod" where
  "brimod_panel_led D on s =
     (let v = (panel_seg s ! FD650_LED_REG AND NOT FD650_LED_BIT) OR (if on then FD650_LED_BIT else 0);
          s1 = s\<lparr>panel_seg := (panel_seg s)[FD650_LED_REG := v]\<rparr>
      in snd (brimod_write D (0xa0 + FD650_LED_REG) [v] s1))"

text \<open>\<open>strncmp\<close> of three characters on two texts.\<close>

definition same3 :: "byte list \<Rightarrow> byte list \<Rightarrow> bool" where
  "same3 a b = (take 3 (takeWhile (\<lambda>c. c \<noteq> 0) a) = take 3 b)"

definition sdk_panel_invalidate :: "'d brimod \<Rightarrow> 'd brimod" where
  "sdk_panel_invalidate s = s\<lparr>panel_text := 1 # tl (panel_text s), panel_led_on := - 1\<rparr>"

definition sdk_panel_show :: "'d i2c_hw \<Rightarrow> byte list \<Rightarrow> 'd brimod \<Rightarrow> 'd brimod" where
  "sdk_panel_show D t s =
     (if box_sat s \<and> \<not> same3 (panel_text s) t
      then (let s1 = s\<lparr>panel_text := take 3 (t @ [0, 0, 0]) @ drop 3 (panel_text s)\<rparr>
            in if sdk_brimod s1 then brimod_panel_show D t s1 else fd650_show D t (i2c_use D FD650_PRESCALE_100K s1))
      else s)"

definition sdk_panel_led :: "'d i2c_hw \<Rightarrow> bool \<Rightarrow> 'd brimod \<Rightarrow> 'd brimod" where
  "sdk_panel_led D on s =
     (let v = (if on then 1 else 0)
      in if box_sat s \<and> v \<noteq> panel_led_on s
         then (let s1 = s\<lparr>panel_led_on := v\<rparr>
               in if sdk_brimod s1 then brimod_panel_led D on s1 else fd650_led D on (i2c_use D FD650_PRESCALE_100K s1))
         else s)"

section \<open>IR frames of the bridge\<close>

record ir_event =
  ev_user :: nat
  ev_key :: nat
  ev_repeat :: bool

text \<open>The keys of the panel with the buttons of \<open>sdk.h\<close>: menu, OK, left, right, down, up.\<close>

definition front_btn :: "(nat \<times> nat) list" where
  "front_btn = [(0x05, 8), (0x2d, 5), (0x15, 3), (0x1d, 4), (0x25, 2), (0x35, 1)]"

definition brimod_ir_key :: "'d i2c_hw \<Rightarrow> ir_event \<Rightarrow> 'd brimod \<Rightarrow> (nat \<times> bool) option \<times> 'd brimod" where
  "brimod_ir_key D ev s =
     (if ev_user ev = 0xa55b then (None, s\<lparr>bell := bell s OR ev_key ev\<rparr>)
      else if ev_user ev \<noteq> 0xa55a then (None, s)
      else if ev_repeat ev \<and> sub32 (hw_timer D (b_dev s)) (front_press_ms s) < BRIMOD_REPEAT_DELAY_MS then (None, s)
      else (map_option (\<lambda>b. (b, ev_repeat ev)) (map_of front_btn (ev_key ev)),
            if ev_repeat ev then s else s\<lparr>front_press_ms := hw_timer D (b_dev s)\<rparr>))"

section \<open>Mailbox\<close>

definition brimod_cmd_start :: "'d i2c_hw \<Rightarrow> byte list \<Rightarrow> 'd brimod \<Rightarrow> int \<times> 'd brimod" where
  "brimod_cmd_start D cmd s =
     (let n = int (length cmd)
      in if \<not> sdk_brimod s then (BRIMOD_ENODEV, s)
         else if n < 1 \<or> n > BRIMOD_CMD_MAX then (BRIMOD_EPROTO, s)
         else (let (r, st, s1) = brimod_read D 0xc0 1 s
               in if r < 0 then (r, s1)
                  else if st ! 0 = 1 then (BRIMOD_EBUSY, s1)
                  else brimod_write D 0xc0 cmd s1))"

text \<open>The status or an error, and the length of the reply.\<close>

definition brimod_cmd_status :: "'d i2c_hw \<Rightarrow> 'd brimod \<Rightarrow> int \<times> nat \<times> 'd brimod" where
  "brimod_cmd_status D s =
     (let (r, b, s1) = brimod_read D 0xc0 3 s
      in if r < 0 then (r, 0, s1) else (int (unat (b ! 0)), le16 b 1, s1))"

function reply_loop :: "'d i2c_hw \<Rightarrow> int \<Rightarrow> int \<Rightarrow> int \<Rightarrow> byte list \<Rightarrow> 'd brimod \<Rightarrow> int \<times> byte list \<times> 'd brimod" where
  "reply_loop D len mx got buf s =
     (if got < len \<and> got < mx - 1
      then (let n0 = len - got; n1 = (if n0 > BRIMOD_READ_MAX then BRIMOD_READ_MAX else n0);
                n = (if n1 > mx - 1 - got then mx - 1 - got else n1);
                (r, v, s1) = brimod_read D 0xc8 n s
            in if r = 0 then reply_loop D len mx (got + n) (buf @ v) s1 else (r, buf, s1))
      else (0, buf, s))"
  by pat_completeness auto
termination by (relation "measure (\<lambda>(D, len, mx, got, buf, s). nat (len - got))") (auto simp: BRIMOD_READ_MAX_def)

declare reply_loop.simps [simp del]

text \<open>The reply in the caller's buffer of \<open>mx\<close> bytes, without the NUL that ends it; \<open>None\<close> when nothing is stored.\<close>

definition brimod_cmd_reply :: "'d i2c_hw \<Rightarrow> int \<Rightarrow> 'd brimod \<Rightarrow> int \<times> byte list option \<times> 'd brimod" where
  "brimod_cmd_reply D mx s =
     (let (r, len, s1) = brimod_cmd_status D s
      in if r < 0 then (r, None, s1)
         else if mx < 1 then (int len, None, s1)
         else (let (r2, s2) = brimod_write D 0xc8 [0, 0] s1;
                   (r3, buf, s3) = (if r2 = 0 then reply_loop D (int len) mx 0 [] s2 else (r2, [], s2))
               in (if r3 < 0 then r3 else int len, Some buf, s3)))"

text \<open>The wait for the end of a command: its status, or the error that \<open>brimod_cmd\<close> returns at once.\<close>

partial_function (option) cmd_wait :: "'d i2c_hw \<Rightarrow> nat \<Rightarrow> nat \<Rightarrow> 'd brimod \<Rightarrow> ((int + int) \<times> 'd brimod) option" where
  "cmd_wait D t0 timeout_ms s =
     (let (st, len, s1) = brimod_cmd_status D s
      in if st < 0 then Some (Inl st, s1)
         else if st = 2 \<or> st = 3 then Some (Inr st, s1)
         else if sub32 (hw_timer D (b_dev s1)) t0 \<ge> timeout_ms then Some (Inl BRIMOD_ETIMEOUT, s1)
         else cmd_wait D t0 timeout_ms (s1\<lparr>b_dev := hw_idle D 20000 (b_dev s1)\<rparr>))"

definition brimod_cmd :: "'d i2c_hw \<Rightarrow> byte list \<Rightarrow> int \<Rightarrow> nat \<Rightarrow> 'd brimod \<Rightarrow> (int \<times> byte list option \<times> 'd brimod) option" where
  "brimod_cmd D cmd mx timeout_ms s =
     (let t0 = hw_timer D (b_dev s); (r, s1) = brimod_cmd_start D cmd s
      in if r < 0 then Some (r, None, s1)
         else do {
           (w, s2) \<leftarrow> cmd_wait D t0 timeout_ms s1;
           (case w of
              Inl e \<Rightarrow> Some (e, None, s2)
            | Inr st \<Rightarrow> (let (r2, buf, s3) = brimod_cmd_reply D mx s2
                        in Some (if r2 < 0 then r2 else if st = 3 then BRIMOD_EFAIL else r2, buf, s3)))
         })"

section \<open>Commands\<close>

definition zero_or :: "int \<Rightarrow> int" where
  "zero_or r = (if r < 0 then r else 0)"

definition brimod_ntp_sync :: "'d i2c_hw \<Rightarrow> int \<Rightarrow> 'd brimod \<Rightarrow> (int \<times> byte list option \<times> 'd brimod) option" where
  "brimod_ntp_sync D mx s = do { (r, m, s1) \<leftarrow> brimod_cmd D [0x4e, 0x54, 0x50] mx 12000 s; Some (zero_or r, m, s1) }"

definition brimod_fm_defaults :: "'d i2c_hw \<Rightarrow> 'd brimod \<Rightarrow> (int \<times> 'd brimod) option" where
  "brimod_fm_defaults D s = do {
     (r, m, s1) \<leftarrow> brimod_cmd D [0x46,0x4d,0x44,0x45,0x46,0x41,0x55,0x4c,0x54,0x53] 32 2000 s; Some (zero_or r, s1) }"

definition brimod_wifi_forget :: "'d i2c_hw \<Rightarrow> 'd brimod \<Rightarrow> (int \<times> 'd brimod) option" where
  "brimod_wifi_forget D s = do {
     (r, m, s1) \<leftarrow> brimod_cmd D [0x57,0x49,0x46,0x49,0x4f,0x46,0x46] 16 3000 s; Some (zero_or r, s1) }"

text \<open>A reply as a text: up to its first NUL.\<close>

definition as_text :: "byte list option \<Rightarrow> byte list" where
  "as_text m = (case m of Some t \<Rightarrow> takeWhile (\<lambda>c. c \<noteq> 0) t | None \<Rightarrow> [])"

definition skip_blanks :: "byte list \<Rightarrow> byte list" where
  "skip_blanks p = dropWhile (\<lambda>c. c = 0x20) p"

definition word_end :: "byte \<Rightarrow> bool" where
  "word_end c = (c = 0x20 \<or> c = 10)"

text \<open>\<open>word\<close>: the word that fits, and the text behind all of it.\<close>

definition take_word :: "nat \<Rightarrow> byte list \<Rightarrow> byte list \<times> byte list" where
  "take_word mx p =
     (let q = skip_blanks p in (take (mx - 1) (takeWhile (\<lambda>c. \<not> word_end c) q), dropWhile (\<lambda>c. \<not> word_end c) q))"

definition copy_line :: "nat \<Rightarrow> byte list \<Rightarrow> byte list" where
  "copy_line mx p = take (mx - 1) (takeWhile (\<lambda>c. c \<noteq> 10) (skip_blanks p))"

record brimod_wifi =
  wf_connected :: bool
  wf_rssi :: int
  wf_ip :: "byte list"
  wf_ssid :: "byte list"

definition brimod_wifi_status :: "'d i2c_hw \<Rightarrow> 'd brimod \<Rightarrow> (int \<times> brimod_wifi \<times> 'd brimod) option" where
  "brimod_wifi_status D s = do {
     (r, m, s1) \<leftarrow> brimod_cmd D [0x57, 0x49, 0x46, 0x49, 0x3f] 96 2000 s;
     let w0 = \<lparr>wf_connected = False, wf_rssi = 0, wf_ip = [], wf_ssid = []\<rparr>;
     if r < 0 then Some (r, w0, s1)
     else do {
       let (t, p) = take_word 16 (as_text m);
       if t = [0x43,0x4f,0x4e,0x4e,0x45,0x43,0x54,0x45,0x44] then do {
         let (ip, p1) = take_word 16 p;
         let (t1, p2) = take_word 16 p1;
         v \<leftarrow> text_int t1;
         let (t2, p3) = take_word 16 p2;
         Some (0, \<lparr>wf_connected = True, wf_rssi = v, wf_ip = ip, wf_ssid = copy_line 33 p3\<rparr>, s1)
       } else Some (0, w0\<lparr>wf_ssid := copy_line 33 p\<rparr>, s1)
     }
   }"

record brimod_net =
  nt_rssi :: int
  nt_channel :: int
  nt_secure :: int
  nt_ssid :: "byte list"

text \<open>One line of a scan, and the text behind its numbers.\<close>

definition drop_blank :: "byte list \<Rightarrow> byte list" where
  "drop_blank p = (case p of c # q \<Rightarrow> if c = 0x20 then q else p | [] \<Rightarrow> p)"

definition scan_entry :: "byte list \<Rightarrow> (brimod_net \<times> byte list) option" where
  "scan_entry p =
     (let w1 = take_word 8 p; w2 = take_word 8 (snd w1); w3 = take_word 8 (snd w2); q = drop_blank (snd w3)
      in do {
        v1 \<leftarrow> text_int (fst w1);
        v2 \<leftarrow> text_int (fst w2);
        v3 \<leftarrow> text_int (fst w3);
        Some (\<lparr>nt_rssi = v1, nt_channel = v2, nt_secure = v3, nt_ssid = copy_line 33 q\<rparr>, q)
      })"

definition known_net :: "brimod_net list \<Rightarrow> brimod_net \<Rightarrow> bool" where
  "known_net nets e = (nt_ssid e \<in> nt_ssid ` set nets)"

lemma drop_blank_shorter: "length (drop_blank p) \<le> length p"
  by (simp add: drop_blank_def split: list.splits)

lemma take_word_shorter: "length (snd (take_word n p)) \<le> length p"
  using length_dropWhile_le [of "\<lambda>c. \<not> word_end c" "skip_blanks p"] length_dropWhile_le [of "\<lambda>c. c = 0x20" p]
  by (simp add: take_word_def skip_blanks_def Let_def)

lemma scan_entry_shorter: "scan_entry p = Some (e, q) \<Longrightarrow> length q \<le> length p"
proof -
  assume "scan_entry p = Some (e, q)"
  then have "q = drop_blank (snd (take_word 8 (snd (take_word 8 (snd (take_word 8 p))))))"
    unfolding scan_entry_def Let_def by (auto simp: bind_eq_Some_conv)
  then have "length q \<le> length (snd (take_word 8 (snd (take_word 8 (snd (take_word 8 p))))))" by (simp only: drop_blank_shorter)
  also have "\<dots> \<le> length (snd (take_word 8 (snd (take_word 8 p))))" by (rule take_word_shorter)
  also have "\<dots> \<le> length (snd (take_word 8 p))" by (rule take_word_shorter)
  also have "\<dots> \<le> length p" by (rule take_word_shorter)
  finally show ?thesis .
qed

function scan_lines :: "nat \<Rightarrow> byte list \<Rightarrow> brimod_net list \<Rightarrow> brimod_net list option" where
  "scan_lines mx p nets =
     (if p = [] \<or> \<not> length nets < mx then Some nets
      else (case scan_entry p of
              None \<Rightarrow> None
            | Some (e, q) \<Rightarrow>
                (let nets' = (if nt_ssid e \<noteq> [] \<and> \<not> known_net nets e then nets @ [e] else nets)
                 in case next_line q of None \<Rightarrow> Some nets' | Some p' \<Rightarrow> scan_lines mx p' nets')))"
  by pat_completeness auto
termination
  by (relation "measure (\<lambda>(mx, p, nets). length p)")
    (auto dest!: next_line_shorter scan_entry_shorter)

declare scan_lines.simps [simp del]

definition brimod_wifi_scan :: "'d i2c_hw \<Rightarrow> nat \<Rightarrow> 'd brimod \<Rightarrow> (int \<times> brimod_net list \<times> 'd brimod) option" where
  "brimod_wifi_scan D mx s = do {
     (r, m, s1) \<leftarrow> brimod_cmd D [0x53, 0x43, 0x41, 0x4e] 3072 15000 s;
     if r < 0 then Some (r, [], s1)
     else do { nets \<leftarrow> scan_lines mx (as_text m) []; Some (int (length nets), nets, s1) }
   }"

definition wifi_cmd :: "byte list \<Rightarrow> byte list \<Rightarrow> byte list" where
  "wifi_cmd ssid pass = [0x57, 0x49, 0x46, 0x49, 9] @ ssid @ [9] @ pass"

definition brimod_wifi_connect :: "'d i2c_hw \<Rightarrow> byte list \<Rightarrow> byte list \<Rightarrow> int \<Rightarrow> 'd brimod
    \<Rightarrow> (int \<times> byte list option \<times> 'd brimod) option" where
  "brimod_wifi_connect D ssid pass mx s =
     (if ssid = [] \<or> length ssid > 32 \<or> length pass > 63 \<or> int (length ssid + length pass + 6) > BRIMOD_CMD_MAX
      then Some (BRIMOD_EPROTO, None, s)
      else do {
        (r, m, s1) \<leftarrow> brimod_cmd D (take (nat BRIMOD_CMD_MAX) (wifi_cmd ssid pass)) mx 20000 s;
        Some (zero_or r, m, s1)
      })"

text \<open>The lines of a noise scan; \<open>strtol\<close> begins the second number where the first has ended.\<close>

function fm_lines :: "nat \<Rightarrow> byte list \<Rightarrow> (int \<times> int) list \<Rightarrow> (int \<times> int) list option" where
  "fm_lines mx p fs =
     (if p = [] \<or> \<not> length fs < mx then Some fs
      else (case strtol 0 10 (text_mem p) of
              None \<Rightarrow> None
            | Some (f, e) \<Rightarrow>
                if e = 0 then Some fs
                else (case strtol e 10 (text_mem p) of
                        None \<Rightarrow> None
                      | Some (v, e2) \<Rightarrow>
                          (case next_line (drop e2 p) of
                             None \<Rightarrow> Some (fs @ [(f, v)])
                           | Some p' \<Rightarrow> fm_lines mx p' (fs @ [(f, v)])))))"
  by pat_completeness auto
termination by (relation "measure (\<lambda>(mx, p, fs). length p)") (auto dest!: next_line_shorter)

declare fm_lines.simps [simp del]

definition brimod_fm_scan :: "'d i2c_hw \<Rightarrow> nat \<Rightarrow> 'd brimod \<Rightarrow> (int \<times> (int \<times> int) list \<times> 'd brimod) option" where
  "brimod_fm_scan D mx s = do {
     (r, m, s1) \<leftarrow> brimod_cmd D [0x46, 0x4d, 0x53, 0x43, 0x41, 0x4e] 128 30000 s;
     if r < 0 then Some (r, [], s1)
     else do { fs \<leftarrow> fm_lines mx (as_text m) []; Some (int (length fs), fs, s1) }
   }"

end
