(* ===== verification/Bridge.thy ===== *)
theory Bridge
  imports Bytes LibcText
begin

text \<open>
  The firmware of the ESP32 on the panel bus (\<open>esp32c3/bridge/bridge.ino\<close>), as far as the box sees it: the register
  file that the I2C slave serves, and the mailbox that runs text commands. The WiFi library and the other jobs
  that commands start are a parameter; the Wire library is seen as what it calls, \<open>on_box_receive\<close>, and as the bytes it is
  given to send.
\<close>

section \<open>State\<close>

record 'x bridge =
  regs :: "byte list"
  panel_dirty :: bool
  fm_dirty :: bool
  rds_dirty :: bool
  siprop_dirty :: bool
  time_set_pending :: bool
  time_set_value :: nat
  cmd_pending :: bool
  restart_pending :: bool
  fm_save_ms :: nat
  si_val :: "nat list"
  reply_off :: nat
  cmd_buf :: "byte list"
  br_reply :: "byte list"
  pending_bell :: nat
  done_count :: byte
  br_millis :: nat
  br_esp :: 'x

definition REPLY_MAX :: nat where "REPLY_MAX = 8192"
definition CMD_MAX :: nat where "CMD_MAX = 121"

definition si_table :: "(nat \<times> nat) list" where
  "si_table =
     [(0x2101, 6625), (0x2102, 675), (0x2103, 200), (0x2104, 0x327C), (0x2105, 0), (0x2106, 1), (0x2107, 19000),
      (0x2200, 0x0002), (0x2201, 0xFFD8), (0x2202, 0), (0x2203, 4), (0x2204, 15), (0x2205, 102),
      (0x2C02, 3), (0x2C03, 0x1808), (0x2C06, 0xE0E0)]"

definition si_index :: "nat \<Rightarrow> nat option" where
  "si_index prop = (case filter (\<lambda>i. fst (si_table ! i) = prop) [0..<length si_table] of [] \<Rightarrow> None | i # _ \<Rightarrow> Some i)"

definition lo8 :: "nat \<Rightarrow> byte" where "lo8 v = of_nat v"
definition hi8 :: "nat \<Rightarrow> byte" where "hi8 v = of_nat (drop_bit 8 v)"

definition put8 :: "nat \<Rightarrow> byte \<Rightarrow> 'x bridge \<Rightarrow> 'x bridge" where
  "put8 r v b = b\<lparr>regs := (regs b)[r := v]\<rparr>"

definition put16 :: "nat \<Rightarrow> nat \<Rightarrow> 'x bridge \<Rightarrow> 'x bridge" where
  "put16 r v b = b\<lparr>regs := (regs b)[r := lo8 v, r + 1 := hi8 v]\<rparr>"

definition get16 :: "nat \<Rightarrow> 'x bridge \<Rightarrow> nat" where
  "get16 r b = unat (regs b ! r) OR push_bit 8 (unat (regs b ! (r + 1)))"

definition raise_event :: "nat \<Rightarrow> 'x bridge \<Rightarrow> 'x bridge" where
  "raise_event ev b =
     (let b1 = b\<lparr>regs := (regs b)[0x06 := regs b ! 0x06 OR lo8 ev, 0x07 := regs b ! 0x07 OR hi8 ev]\<rparr>;
          mask = get16 0x08 b1
      in b1\<lparr>pending_bell := pending_bell b1 OR (ev AND mask)\<rparr>)"

section \<open>The slave\<close>

text \<open>\<open>prepare_read\<close>, with the bytes for \<open>Wire.slaveWrite\<close>\<close>

definition prepare_read :: "nat \<Rightarrow> nat \<Rightarrow> 'x bridge \<Rightarrow> byte list \<times> 'x bridge" where
  "prepare_read reg n0 b =
     (let n = (if n0 > 32 then 32 else n0)
      in if reg = 0xc8
         then (map (\<lambda>i. let p = reply_off b + i in if p < length (br_reply b) then br_reply b ! p else 0) [0..<n],
               b\<lparr>reply_off := (reply_off b + n) mod 65536\<rparr>)
         else (map (\<lambda>i. regs b ! ((reg + i) mod 256)) [0..<n], b))"

definition millis_mark :: "'x bridge \<Rightarrow> nat" where
  "millis_mark b = br_millis b OR 1"

definition siprop_write :: "byte list \<Rightarrow> 'x bridge \<Rightarrow> 'x bridge" where
  "siprop_write d b =
     (let prop = unat (d ! 0) OR push_bit 8 (unat (d ! 1));
          k = si_index prop;
          b1 = (case k of
                  Some k' \<Rightarrow> if length d \<ge> 4
                            then b\<lparr>si_val := (si_val b)[k' := unat (d ! 2) OR push_bit 8 (unat (d ! 3))],
                                   siprop_dirty := True, fm_save_ms := millis_mark b\<rparr>
                            else b
                | None \<Rightarrow> b);
          v = (case k of Some k' \<Rightarrow> si_val b1 ! k' | None \<Rightarrow> 0xffff)
      in b1\<lparr>regs := (regs b1)[0x90 := d ! 0, 0x91 := d ! 1, 0x92 := lo8 v, 0x93 := hi8 v]\<rparr>)"

definition cmd_write :: "byte list \<Rightarrow> 'x bridge \<Rightarrow> 'x bridge" where
  "cmd_write d b =
     (if regs b ! 0xc0 \<noteq> 1 \<and> length d > 0
      then b\<lparr>cmd_buf := take CMD_MAX d, regs := (regs b)[0xc0 := 1], cmd_pending := True\<rparr>
      else b)"

definition events_clear :: "byte list \<Rightarrow> 'x bridge \<Rightarrow> 'x bridge" where
  "events_clear d b =
     (let b1 = b\<lparr>regs := (regs b)[0x06 := regs b ! 0x06 AND NOT (d ! 0)]\<rparr>
      in if length d \<ge> 2 then b1\<lparr>regs := (regs b1)[0x07 := regs b1 ! 0x07 AND NOT (d ! 1)]\<rparr> else b1)"

definition settable :: "nat \<Rightarrow> bool" where
  "settable r = (0x08 \<le> r \<and> r \<le> 0x0a \<or> r = 0x14 \<or> r = 0x15 \<or> 0x40 \<le> r \<and> r \<le> 0x8f \<or> 0xa0 \<le> r \<and> r \<le> 0xa4)"

definition reg_store :: "nat \<Rightarrow> byte \<Rightarrow> 'x bridge \<Rightarrow> 'x bridge" where
  "reg_store r v b =
     (if settable r then
        (let b1 = b\<lparr>regs := (regs b)[r := v]\<rparr>
         in if 0xa0 \<le> r \<and> r \<le> 0xa4 then b1\<lparr>panel_dirty := True\<rparr>
            else if 0x40 \<le> r \<and> r \<le> 0x45 then b1\<lparr>fm_dirty := True, fm_save_ms := millis_mark b1\<rparr>
            else if 0x46 \<le> r \<and> r \<le> 0x8f then b1\<lparr>rds_dirty := True, fm_save_ms := millis_mark b1\<rparr>
            else if r = 0x0a then b1\<lparr>panel_dirty := True\<rparr> else b1)
      else b)"

fun reg_stores :: "nat \<Rightarrow> byte list \<Rightarrow> 'x bridge \<Rightarrow> 'x bridge" where
  "reg_stores r [] b = b"
| "reg_stores r (v # d) b = (if r > 0xff then b else reg_stores (r + 1) d (reg_store r v b))"

text \<open>The clear of the events reads a first byte that a write of none does not have: \<open>None\<close> there.\<close>

definition handle_write :: "nat \<Rightarrow> byte list \<Rightarrow> 'x bridge \<Rightarrow> 'x bridge option" where
  "handle_write reg d b =
     (if reg = 0x90 then Some (if length d \<ge> 2 then siprop_write d b else b)
      else if reg = 0xc0 then Some (cmd_write d b)
      else if reg = 0xc8 then
        Some (if length d \<ge> 2 then b\<lparr>reply_off := unat (d ! 0) OR push_bit 8 (unat (d ! 1))\<rparr> else b)
      else if reg = 0xf0 then Some (if length d \<ge> 1 \<and> d ! 0 = 0xa5 then b\<lparr>restart_pending := True\<rparr> else b)
      else if reg = 0x06 then (if d = [] then None else Some (events_clear d b))
      else if reg = 0x10 \<and> length d \<ge> 4 then
        Some (b\<lparr>time_set_value := ufs_le32 d 0, time_set_pending := True\<rparr>)
      else Some (reg_stores reg d b))"

text \<open>Of the bytes received the first \<open>CMD_MAX + 8\<close> are kept.\<close>

definition on_box_receive :: "byte list \<Rightarrow> 'x bridge \<Rightarrow> (byte list \<times> 'x bridge) option" where
  "on_box_receive rx b =
     (let buf = take (CMD_MAX + 8) rx
      in if buf = [] then Some ([], b)
         else if buf ! 0 = 0xff
         then Some (if length buf \<ge> 3 then prepare_read (unat (buf ! 1)) (unat (buf ! 2)) b else ([], b))
         else map_option (\<lambda>b'. ([], b')) (handle_write (unat (buf ! 0)) (tl buf) b))"

section \<open>The mailbox\<close>

text \<open>The jobs of commands: joining a network (the address, or why not), a scan (strength, channel, secured, name), the
  time zone of an NTP command as a number and its answer, and the reply of every other command by its name and line.\<close>

record 'x esp =
  esp_join :: "byte list \<Rightarrow> byte list \<Rightarrow> 'x \<Rightarrow> (byte list + byte list) \<times> 'x"
  esp_scan :: "'x \<Rightarrow> (int \<times> int \<times> bool \<times> byte list) list \<times> 'x"
  esp_tz :: "byte list \<Rightarrow> nat"
  esp_ntp :: "'x \<Rightarrow> (byte list + byte list) \<times> 'x"
  esp_other :: "byte list \<Rightarrow> byte list \<Rightarrow> 'x \<Rightarrow> bool \<times> byte list \<times> 'x"

definition rep :: "byte list \<Rightarrow> 'x bridge \<Rightarrow> 'x bridge" where
  "rep t b = b\<lparr>br_reply := take (REPLY_MAX - 1) (br_reply b @ t)\<rparr>"

fun skip_words :: "nat \<Rightarrow> byte list \<Rightarrow> byte list" where
  "skip_words 0 l = l"
| "skip_words (Suc k) l = skip_words k (dropWhile (\<lambda>c. c = 0x20) (dropWhile (\<lambda>c. c \<noteq> 0x20) l))"

definition arg :: "byte list \<Rightarrow> nat \<Rightarrow> bool \<Rightarrow> byte list" where
  "arg line i rest = (let l = skip_words i line in if rest then l else takeWhile (\<lambda>c. c \<noteq> 0x20) l)"

definition upper :: "byte \<Rightarrow> byte" where
  "upper c = (if 0x61 \<le> c \<and> c \<le> 0x7a then c - 32 else c)"

definition cmd_name :: "byte list \<Rightarrow> byte list" where
  "cmd_name line = map upper (takeWhile (\<lambda>c. c \<noteq> 9) (arg line 0 False))"

definition wifi_args :: "byte list \<Rightarrow> byte list \<times> byte list" where
  "wifi_args line =
     (if 9 \<in> set line
      then (let r = tl (dropWhile (\<lambda>c. c \<noteq> 9) line)
            in (takeWhile (\<lambda>c. c \<noteq> 9) r, tl (dropWhile (\<lambda>c. c \<noteq> 9) r)))
      else (arg line 1 False, arg line 2 True))"

definition txt_OK :: "byte list" where "txt_OK = [0x4f, 0x4b, 0x20]"
definition txt_usage :: "byte list" where
  "txt_usage = [0x75,0x73,0x61,0x67,0x65,0x3a,0x20,0x57,0x49,0x46,0x49,0x20,0x73,0x73,0x69,0x64,0x20,0x70,0x61,0x73,0x73,0x77,0x6f,0x72,0x64]"
definition txt_not :: "byte list" where
  "txt_not = [0x6e,0x6f,0x74,0x20,0x63,0x6f,0x6e,0x6e,0x65,0x63,0x74,0x65,0x64,0x3a,0x20]"

definition scan_line :: "int \<times> int \<times> bool \<times> byte list \<Rightarrow> byte list" where
  "scan_line = (\<lambda>(rssi, ch, sec, name). dec rssi @ [0x20] @ dec ch @ [0x20] @ dec (if sec then 1 else 0) @ [0x20] @ name @ [10])"

definition fm_defaults :: "'x bridge \<Rightarrow> 'x bridge" where
  "fm_defaults b =
     rep [0x4f, 0x4b] (b\<lparr>si_val := map snd si_table, regs := (regs b)[0x43 := regs b ! 0x43 AND NOT 4, 0x44 := 0, 0x45 := 0],
       siprop_dirty := True, fm_dirty := True, fm_save_ms := millis_mark b\<rparr>)"

definition ntp_command :: "'x esp \<Rightarrow> byte list \<Rightarrow> 'x bridge \<Rightarrow> bool \<times> 'x bridge" where
  "ntp_command E line b =
     (let tz = arg line 1 False;
          b1 = (if tz \<noteq> [] then put16 0x14 (esp_tz E tz) b else b)
      in case esp_ntp E (br_esp b1) of
           (Inr t, x) \<Rightarrow> (True, rep (txt_OK @ t) (b1\<lparr>br_esp := x\<rparr>))
         | (Inl why, x) \<Rightarrow> (False, rep why (b1\<lparr>br_esp := x\<rparr>)))"

definition cmd_run :: "'x esp \<Rightarrow> byte list \<Rightarrow> 'x bridge \<Rightarrow> bool \<times> 'x bridge" where
  "cmd_run E line b =
     (let c = cmd_name line
      in if c = [0x50,0x49,0x4e,0x47] then (True, rep [0x50,0x4f,0x4e,0x47] b)
         else if c = [0x57,0x49,0x46,0x49] then
           (let (ssid, pass) = wifi_args line
            in if ssid = [] then (False, rep txt_usage b)
               else (case esp_join E ssid pass (br_esp b) of
                       (Inr ip, x) \<Rightarrow> (True, rep (txt_OK @ ip) (b\<lparr>br_esp := x\<rparr>))
                     | (Inl why, x) \<Rightarrow> (False, rep (txt_not @ why) (b\<lparr>br_esp := x\<rparr>))))
         else if c = [0x53,0x43,0x41,0x4e] then
           (let (nets, x) = esp_scan E (br_esp b)
            in (True, fold (\<lambda>n. rep (scan_line n)) nets (b\<lparr>br_esp := x\<rparr>)))
         else if c = [0x4e,0x54,0x50] then ntp_command E line b
         else if c = [0x46,0x4d,0x44,0x45,0x46,0x41,0x55,0x4c,0x54,0x53] then (True, fm_defaults b)
         else (let (ok, t, x) = esp_other E c line (br_esp b) in (ok, rep t (b\<lparr>br_esp := x\<rparr>))))"

definition mailbox_poll :: "'x esp \<Rightarrow> 'x bridge \<Rightarrow> 'x bridge" where
  "mailbox_poll E b =
     (if \<not> cmd_pending b then b
      else (let line = takeWhile (\<lambda>c. c \<noteq> 0) (cmd_buf b);
                (ok, b1) = cmd_run E line (b\<lparr>cmd_pending := False, br_reply := [], reply_off := 0\<rparr>);
                b2 = put16 0xc1 (length (br_reply b1)) b1;
                b3 = put8 0xc3 (done_count b2 + 1) (b2\<lparr>done_count := done_count b2 + 1\<rparr>);
                b4 = put8 0xc0 (if ok then 2 else 3) b3
            in raise_event 32 b4))"

end
