(* ===== verification/BrimodLink.thy ===== *)
theory BrimodLink
  imports Brimod Bridge
begin

text \<open>
  The driver and the firmware together. What the driver needs of the wire between them and of the time that passes is
  the locale \<open>bridge_link\<close>: a write reaches the bridge, a read gives the bytes that the bridge prepared for it, and while
  the box waits the bridge goes on with its jobs, the pending command among them.
\<close>

section \<open>The bridge while the box waits\<close>

text \<open>The registers that the jobs of the bridge write by themselves.\<close>

definition job_reg :: "nat \<Rightarrow> bool" where
  "job_reg r = (r \<in> {0x05, 0x06, 0x07, 0x0b, 0x16} \<or> 0x0c \<le> r \<and> r \<le> 0x13 \<or> 0x20 \<le> r \<and> r \<le> 0x29
     \<or> 0x30 \<le> r \<and> r \<le> 0x33 \<or> 0x38 \<le> r \<and> r \<le> 0x3d)"

definition kept :: "'x bridge \<Rightarrow> 'x bridge \<Rightarrow> bool" where
  "kept b c = (length (regs c) = length (regs b) \<and> (\<forall>r<256. \<not> job_reg r \<longrightarrow> regs c ! r = regs b ! r)
     \<and> cmd_pending c = cmd_pending b \<and> cmd_buf c = cmd_buf b \<and> br_reply c = br_reply b \<and> reply_off c = reply_off b
     \<and> si_val c = si_val b)"

definition runs :: "'x esp \<Rightarrow> 'x bridge \<Rightarrow> 'x bridge \<Rightarrow> bool" where
  "runs E b c = (kept b c \<or> cmd_pending b \<and> (\<exists>b0. kept b b0 \<and> kept (mailbox_poll E b0) c))"

lemma kept_refl [simp]: "kept b b"
  by (simp add: kept_def)

lemma kept_trans: "kept a b \<Longrightarrow> kept b c \<Longrightarrow> kept a c"
  by (simp add: kept_def)

lemma runs_refl [simp]: "runs E b b"
  by (simp add: runs_def)

text \<open>What the box may find: the sizes of the arrays, and a mailbox that is busy just as long as its command is pending.\<close>

definition bridge_ok :: "'x bridge \<Rightarrow> bool" where
  "bridge_ok b = (length (regs b) = 256 \<and> length (si_val b) = 16 \<and> length (br_reply b) < REPLY_MAX
     \<and> (cmd_pending b \<longleftrightarrow> regs b ! 0xc0 = 1))"

lemma kept_ok: "kept b c \<Longrightarrow> bridge_ok b \<Longrightarrow> bridge_ok c"
  by (simp add: kept_def bridge_ok_def job_reg_def)

section \<open>Commands\<close>

text \<open>What running a command leaves alone.\<close>

definition cmd_keeps :: "'x bridge \<Rightarrow> 'x bridge \<Rightarrow> bool" where
  "cmd_keeps b c = (length (regs c) = length (regs b) \<and> cmd_pending c = cmd_pending b \<and> length (si_val c) = length (si_val b)
     \<and> (length (br_reply b) < REPLY_MAX \<longrightarrow> length (br_reply c) < REPLY_MAX) \<and> reply_off c = reply_off b
     \<and> regs c ! 0xc0 = regs b ! 0xc0)"

lemma rep_fields [simp]:
  "regs (rep t b) = regs b" "cmd_pending (rep t b) = cmd_pending b" "si_val (rep t b) = si_val b" "reply_off (rep t b) = reply_off b"
  by (simp_all add: rep_def)

lemma rep_short [simp]: "length (br_reply (rep t b)) < REPLY_MAX"
proof -
  have "length (take 8191 xs) \<le> 8191" for xs :: "byte list" by simp
  moreover have "br_reply (rep t b) = take 8191 (br_reply b @ t)" by (simp add: rep_def REPLY_MAX_def del: take_append)
  ultimately have "length (br_reply (rep t b)) \<le> 8191" by (simp only:)
  then show ?thesis by (simp add: REPLY_MAX_def)
qed

lemma cmd_keeps_rep: "cmd_keeps b (rep t b)"
  by (simp add: cmd_keeps_def)

lemma cmd_keeps_trans: "cmd_keeps a b \<Longrightarrow> cmd_keeps b c \<Longrightarrow> cmd_keeps a c"
  by (simp add: cmd_keeps_def)

lemma cmd_keeps_esp: "cmd_keeps b (b\<lparr>br_esp := x\<rparr>)"
  by (simp add: cmd_keeps_def)

lemma rep_esp: "cmd_keeps b (rep t (b\<lparr>br_esp := x\<rparr>))"
  by (rule cmd_keeps_trans [OF cmd_keeps_esp cmd_keeps_rep])

lemma fold_rep: "cmd_keeps b (fold (\<lambda>n. rep (f n)) ns b)"
proof (induction ns arbitrary: b)
  case Nil
  then show ?case by (simp add: cmd_keeps_def)
next
  case (Cons n ns)
  show ?case using cmd_keeps_trans [OF cmd_keeps_rep Cons.IH] by simp
qed

lemma ntp_keeps: "cmd_keeps b (snd (ntp_command E line b))"
  by (simp add: ntp_command_def Let_def put16_def cmd_keeps_def split: sum.splits prod.splits)

lemma fm_defaults_keeps: "length (si_val b) = 16 \<Longrightarrow> cmd_keeps b (fm_defaults b)"
  by (simp add: fm_defaults_def cmd_keeps_def si_table_def)

lemma cmd_run_keeps:
  assumes "length (si_val b) = 16"
  shows "cmd_keeps b (snd (cmd_run E line b))"
proof -
  have scan: "cmd_keeps b (fold (\<lambda>n. rep (scan_line n)) ns (b\<lparr>br_esp := x\<rparr>))" for ns x
    by (rule cmd_keeps_trans [OF cmd_keeps_esp fold_rep])
  have join: "cmd_keeps b (snd (case r of (Inr ip, x) \<Rightarrow> (True, rep (txt_OK @ ip) (b\<lparr>br_esp := x\<rparr>))
      | (Inl why, x) \<Rightarrow> (False, rep (txt_not @ why) (b\<lparr>br_esp := x\<rparr>))))" for r
    using rep_esp [of b] by (simp split: prod.splits sum.splits)
  show ?thesis
    unfolding cmd_run_def Let_def
    using ntp_keeps [of b E line] fm_defaults_keeps [OF assms] cmd_keeps_rep [of b] rep_esp [of b] scan join
    by (simp add: split_beta del: rep_fields)
qed

text \<open>What \<open>mailbox_poll\<close> leaves in the mailbox when a command was pending.\<close>

lemma poll_result:
  assumes "bridge_ok b" "cmd_pending b"
  shows "\<exists>okf b1. cmd_run E (takeWhile (\<lambda>c. c \<noteq> 0) (cmd_buf b)) (b\<lparr>cmd_pending := False, br_reply := [], reply_off := 0\<rparr>) = (okf, b1)
    \<and> \<not> cmd_pending (mailbox_poll E b) \<and> br_reply (mailbox_poll E b) = br_reply b1 \<and> reply_off (mailbox_poll E b) = 0
    \<and> bridge_ok (mailbox_poll E b) \<and> length (br_reply b1) < REPLY_MAX
    \<and> regs (mailbox_poll E b) ! 0xc0 = (if okf then 2 else 3)
    \<and> regs (mailbox_poll E b) ! 0xc1 = lo8 (length (br_reply b1)) \<and> regs (mailbox_poll E b) ! 0xc2 = hi8 (length (br_reply b1))"
proof -
  define b0 where "b0 = b\<lparr>cmd_pending := False, br_reply := [], reply_off := 0\<rparr>"
  obtain okf b1 where r: "cmd_run E (takeWhile (\<lambda>c. c \<noteq> 0) (cmd_buf b)) b0 = (okf, b1)" by force
  have "length (si_val b0) = 16" using assms(1) by (simp add: b0_def bridge_ok_def)
  from cmd_run_keeps [OF this, of E "takeWhile (\<lambda>c. c \<noteq> 0) (cmd_buf b)"] have k: "cmd_keeps b0 b1" by (simp add: r)
  then have l: "length (regs b1) = 256" "length (si_val b1) = 16" "length (br_reply b1) < REPLY_MAX" "\<not> cmd_pending b1" "reply_off b1 = 0"
    using assms(1) by (simp_all add: cmd_keeps_def b0_def bridge_ok_def REPLY_MAX_def)
  have "mailbox_poll E b = raise_event 32 (put8 0xc0 (if okf then 2 else 3) (put8 0xc3 (done_count b1 + 1)
      ((put16 0xc1 (length (br_reply b1)) b1)\<lparr>done_count := done_count b1 + 1\<rparr>)))"
    using assms(2) by (simp add: mailbox_poll_def Let_def b0_def [symmetric] r put16_def)
  then show ?thesis using r l unfolding b0_def
    by (simp add: raise_event_def Let_def put8_def put16_def bridge_ok_def)
qed

lemma runs_pending:
  assumes "runs E b c" "bridge_ok b"
  shows "bridge_ok c \<and> (cmd_pending c \<longrightarrow> kept b c)"
proof (cases "kept b c")
  case True
  then show ?thesis using kept_ok assms(2) by blast
next
  case False
  then obtain b0 where b0: "cmd_pending b" "kept b b0" "kept (mailbox_poll E b0) c" using assms(1) by (auto simp: runs_def)
  then have "bridge_ok b0" "cmd_pending b0" using kept_ok assms(2) by (auto simp: kept_def)
  from poll_result [OF this, of E] have "\<not> cmd_pending (mailbox_poll E b0)" "bridge_ok (mailbox_poll E b0)" by auto
  then show ?thesis using kept_ok [OF b0(3)] b0(3) by (simp add: kept_def)
qed

lemma runs_trans:
  assumes "runs E a b" "runs E b c" "bridge_ok a"
  shows "runs E a c"
proof (cases "kept a b")
  case True
  then show ?thesis using assms(2) kept_trans by (auto simp: runs_def kept_def)
next
  case False
  then have "\<not> cmd_pending b" using runs_pending [OF assms(1,3)] by blast
  then have "kept b c" using assms(2) by (simp add: runs_def)
  then show ?thesis using assms(1) False kept_trans by (auto simp: runs_def)
qed

lemma runs_idle: "runs E b c \<Longrightarrow> \<not> cmd_pending b \<Longrightarrow> kept b c"
  by (simp add: runs_def)

section \<open>The wire\<close>

text \<open>The parts of the driver's state that a transfer does not change.\<close>

definition same_box :: "'d brimod \<Rightarrow> 'd brimod \<Rightarrow> bool" where
  "same_box s s' = (\<exists>d c p. s' = s\<lparr>b_dev := d, i2c_last_cmd := c, i2c_cur_pre := p\<rparr>)"

lemma same_box_refl: "same_box s s"
  unfolding same_box_def by (intro exI [of _ "b_dev s"] exI [of _ "i2c_last_cmd s"] exI [of _ "i2c_cur_pre s"]) simp

lemma same_box_trans: "same_box a b \<Longrightarrow> same_box b c \<Longrightarrow> same_box a c"
  unfolding same_box_def by fastforce

lemma same_box_dev: "same_box s (s\<lparr>b_dev := d\<rparr>)"
  unfolding same_box_def by (intro exI [of _ d] exI [of _ "i2c_last_cmd s"] exI [of _ "i2c_cur_pre s"]) simp

lemma same_box_fields: "same_box s s' \<Longrightarrow> sdk_brimod s' = sdk_brimod s \<and> panel_seg s' = panel_seg s \<and> bell s' = bell s
  \<and> box_sat s' = box_sat s \<and> panel_text s' = panel_text s \<and> panel_led_on s' = panel_led_on s"
  by (auto simp: same_box_def)

locale bridge_link =
  fixes D :: "'d i2c_hw" and E :: "'x esp" and br :: "'d \<Rightarrow> 'x bridge" and ok :: "'d \<Rightarrow> bool"
    and clk :: "'d \<Rightarrow> nat" and due :: "'d \<Rightarrow> nat" and N :: nat and tm :: nat
  assumes fine: "ok d \<Longrightarrow> bridge_ok (br d) \<and> due d \<le> N"
    and timer: "hw_timer D d = clk d mod two32"
    and speed: "ok d \<Longrightarrow> a = i2c_base I2C_CH_FP + I2C_PRE_HI \<or> a = i2c_base I2C_CH_FP + I2C_PRE_LO \<Longrightarrow>
      ok (hw_write D a v d) \<and> br (hw_write D a v d) = br d \<and> clk (hw_write D a v d) = clk d \<and> due (hw_write D a v d) = due d"
    and put: "ok (b_dev s) \<Longrightarrow> length data \<le> 128 \<Longrightarrow> on_box_receive data (br (b_dev s)) = Some ([], b) \<Longrightarrow>
      \<exists>s'. i2c_write D I2C_CH_FP BRIMOD_ADDR data s = (0, s') \<and> same_box (s :: 'd brimod) s' \<and> ok (b_dev s') \<and> br (b_dev s') = b
        \<and> clk (b_dev s) \<le> clk (b_dev s') \<and> clk (b_dev s') \<le> clk (b_dev s) + tm
        \<and> (cmd_pending (br (b_dev s)) \<longrightarrow> due (b_dev s') \<le> due (b_dev s))"
    and ask: "ok (b_dev s) \<Longrightarrow> on_box_receive [0xff, reg, n] (br (b_dev s)) = Some (out, b) \<Longrightarrow> out \<noteq> [] \<Longrightarrow>
      \<exists>s1 s'. i2c_write D I2C_CH_FP BRIMOD_ADDR [0xff, reg, n] s = (0, s1)
        \<and> i2c_read D I2C_CH_FP BRIMOD_ADDR (length out) (s1\<lparr>b_dev := hw_delay D BRIMOD_PREP_US (b_dev s1)\<rparr>) = (0, out, s')
        \<and> same_box s s' \<and> ok (b_dev s') \<and> runs E b (br (b_dev s'))
        \<and> clk (b_dev s) \<le> clk (b_dev s') \<and> clk (b_dev s') \<le> clk (b_dev s) + tm
        \<and> (cmd_pending (br (b_dev s')) \<longrightarrow> due (b_dev s') \<le> due (b_dev s))"
    and wait: "ok d \<Longrightarrow> ok (hw_idle D 20000 d) \<and> runs E (br d) (br (hw_idle D 20000 d))
        \<and> clk d \<le> clk (hw_idle D 20000 d) \<and> clk (hw_idle D 20000 d) \<le> clk d + tm
        \<and> (cmd_pending (br (hw_idle D 20000 d)) \<longrightarrow> due (hw_idle D 20000 d) < due d)"
begin

lemma use_ok:
  assumes "ok (b_dev (s :: 'd brimod))"
  shows "same_box s (i2c_use D p s) \<and> ok (b_dev (i2c_use D p s)) \<and> br (b_dev (i2c_use D p s)) = br (b_dev s)
    \<and> clk (b_dev (i2c_use D p s)) = clk (b_dev s) \<and> due (b_dev (i2c_use D p s)) = due (b_dev s)"
proof (cases "p = i2c_cur_pre s")
  case True
  then show ?thesis using assms same_box_refl by (simp add: i2c_use_def)
next
  case False
  have b: "i2c_base I2C_CH_FP \<noteq> 0" by (simp add: i2c_base_def i2c_bases_def I2C_CH_FP_def)
  define d1 where "d1 = hw_write D (i2c_base I2C_CH_FP + I2C_PRE_HI) (of_nat (drop_bit 8 p)) (b_dev s)"
  define d2 where "d2 = hw_write D (i2c_base I2C_CH_FP + I2C_PRE_LO) (of_nat p) d1"
  have 1: "ok d1 \<and> br d1 = br (b_dev s) \<and> clk d1 = clk (b_dev s) \<and> due d1 = due (b_dev s)"
    unfolding d1_def by (rule speed [OF assms]) simp
  then have 2: "ok d2 \<and> br d2 = br (b_dev s) \<and> clk d2 = clk (b_dev s) \<and> due d2 = due (b_dev s)"
    unfolding d2_def using speed [of d1 "i2c_base I2C_CH_FP + I2C_PRE_LO" "of_nat p"] by simp
  have e: "i2c_use D p s = s\<lparr>b_dev := d2, i2c_cur_pre := p\<rparr>"
    using False b unfolding i2c_use_def i2c_set_prescale_def Let_def by (simp add: set8_def d1_def d2_def)
  have "same_box s (i2c_use D p s)" unfolding e same_box_def
    by (intro exI [of _ d2] exI [of _ "i2c_last_cmd s"] exI [of _ p]) simp
  then show ?thesis using 2 by (simp add: e)
qed

text \<open>A read of the driver: what \<open>prepare_read\<close> gives.\<close>

lemma read_ok:
  assumes "ok (b_dev s)" "sdk_brimod s" "1 \<le> n" "n \<le> 32" "reg < 256"
  shows "\<exists>s'. brimod_read D reg n s = (0, fst (prepare_read reg (nat n) (br (b_dev s))), s') \<and> same_box s s' \<and> ok (b_dev s')
    \<and> runs E (snd (prepare_read reg (nat n) (br (b_dev s)))) (br (b_dev s'))
    \<and> clk (b_dev s) \<le> clk (b_dev s') \<and> clk (b_dev s') \<le> clk (b_dev s) + tm
    \<and> (cmd_pending (br (b_dev s')) \<longrightarrow> due (b_dev s') \<le> due (b_dev s))"
proof -
  define s1 where "s1 = i2c_use D BRIMOD_PRESCALE s"
  have 1: "same_box s s1" "ok (b_dev s1)" "br (b_dev s1) = br (b_dev s)" "clk (b_dev s1) = clk (b_dev s)" "due (b_dev s1) = due (b_dev s)"
    using use_ok [OF assms(1), of BRIMOD_PRESCALE] by (simp_all add: s1_def)
  obtain out b where p: "prepare_read reg (nat n) (br (b_dev s)) = (out, b)" by force
  have u: "unat (of_nat reg :: byte) = reg" "unat (of_int n :: byte) = nat n"
    using assms(3-5) by (simp_all add: unsigned_of_nat unsigned_of_int take_bit_nat_eq_self take_bit_int_eq_self)
  have rx: "on_box_receive [0xff, of_nat reg, of_int n] (br (b_dev s1)) = Some (out, b)"
    by (simp add: on_box_receive_def CMD_MAX_def Let_def u p 1(3))
  have l: "length out = nat n" using p assms(4) by (auto simp: prepare_read_def Let_def split: if_splits)
  then have "out \<noteq> []" using assms(3) by auto
  from ask [OF 1(2) rx this] obtain s2 s' where
    2: "i2c_write D I2C_CH_FP BRIMOD_ADDR [0xff, of_nat reg, of_int n] s1 = (0, s2)"
      "i2c_read D I2C_CH_FP BRIMOD_ADDR (length out) (s2\<lparr>b_dev := hw_delay D BRIMOD_PREP_US (b_dev s2)\<rparr>) = (0, out, s')"
      "same_box s1 s'" "ok (b_dev s')" "runs E b (br (b_dev s'))" "clk (b_dev s1) \<le> clk (b_dev s')"
      "clk (b_dev s') \<le> clk (b_dev s1) + tm" "cmd_pending (br (b_dev s')) \<longrightarrow> due (b_dev s') \<le> due (b_dev s1)" by blast
  have "brimod_read D reg n s = (0, out, s')"
    using assms(2-4) 2(2) unfolding brimod_read_def raw_read_def Let_def s1_def [symmetric] 2(1) l by (simp add: BRIMOD_READ_MAX_def)
  then show ?thesis using 2(3-8) same_box_trans [OF 1(1)] 1(4,5) by (simp add: p)
qed

lemma write_ok:
  assumes "ok (b_dev s)" "sdk_brimod s" "length data \<le> 127" "reg < 255" "handle_write reg data (br (b_dev s)) = Some b"
  shows "\<exists>s'. brimod_write D reg data s = (0, s') \<and> same_box s s' \<and> ok (b_dev s') \<and> br (b_dev s') = b
    \<and> clk (b_dev s) \<le> clk (b_dev s') \<and> clk (b_dev s') \<le> clk (b_dev s) + tm
    \<and> (cmd_pending (br (b_dev s)) \<longrightarrow> due (b_dev s') \<le> due (b_dev s))"
proof -
  define s1 where "s1 = i2c_use D BRIMOD_PRESCALE s"
  have 1: "same_box s s1" "ok (b_dev s1)" "br (b_dev s1) = br (b_dev s)" "clk (b_dev s1) = clk (b_dev s)" "due (b_dev s1) = due (b_dev s)"
    using use_ok [OF assms(1), of BRIMOD_PRESCALE] by (simp_all add: s1_def)
  have u: "unat (of_nat reg :: byte) = reg" using assms(4) by (simp add: unsigned_of_nat take_bit_nat_eq_self)
  then have "(of_nat reg :: byte) \<noteq> 0xff" using assms(4) by auto
  then have "on_box_receive (of_nat reg # data) (br (b_dev s1)) = Some ([], b)"
    using assms(3,5) by (simp add: on_box_receive_def CMD_MAX_def Let_def u 1(3))
  from put [OF 1(2) _ this] assms(3) obtain s' where
    2: "i2c_write D I2C_CH_FP BRIMOD_ADDR (of_nat reg # data) s1 = (0, s')" "same_box s1 s'" "ok (b_dev s')" "br (b_dev s') = b"
      "clk (b_dev s1) \<le> clk (b_dev s')" "clk (b_dev s') \<le> clk (b_dev s1) + tm"
      "cmd_pending (br (b_dev s1)) \<longrightarrow> due (b_dev s') \<le> due (b_dev s1)" by auto
  have "brimod_write D reg data s = (0, s')"
    using assms(2,3) 2(1) by (simp add: brimod_write_def s1_def BRIMOD_WRITE_MAX_def)
  then show ?thesis using 2 same_box_trans [OF 1(1)] 1(3-5) by simp
qed

end

end
