(* ===== verification/BrimodRegs.thy ===== *)
theory BrimodRegs
  imports BrimodLink
begin

text \<open>
  Registers through the driver and the firmware: what is written is what is read back, for the texts of the FM
  transmitter, its properties and the front panel.
\<close>

section \<open>The register file\<close>

text \<open>Everything of the bridge that a write to settable registers leaves alone.\<close>

definition same_mail :: "'x bridge \<Rightarrow> 'x bridge \<Rightarrow> bool" where
  "same_mail b c = (cmd_pending c = cmd_pending b \<and> cmd_buf c = cmd_buf b \<and> br_reply c = br_reply b \<and> reply_off c = reply_off b
     \<and> length (si_val c) = length (si_val b) \<and> length (regs c) = length (regs b) \<and> regs c ! 0xc0 = regs b ! 0xc0)"

lemma same_mail_ok: "same_mail b c \<Longrightarrow> bridge_ok b \<Longrightarrow> bridge_ok c"
  by (simp add: same_mail_def bridge_ok_def)

lemma reg_store_settable:
  assumes "settable r" "length (regs b) = 256"
  shows "regs (reg_store r v b) = (regs b)[r := v] \<and> same_mail b (reg_store r v b) \<and> si_val (reg_store r v b) = si_val b"
proof -
  have "r \<noteq> 0xc0" "r < 256" using assms(1) by (auto simp: settable_def)
  then show ?thesis using assms by (simp add: reg_store_def same_mail_def Let_def)
qed

lemma same_mail_trans: "same_mail a b \<Longrightarrow> same_mail b c \<Longrightarrow> same_mail a c"
  by (simp add: same_mail_def)

lemma reg_stores_settable:
  "\<forall>i<length d. settable (r + i) \<Longrightarrow> length (regs b) = 256 \<Longrightarrow>
    same_mail b (reg_stores r d b) \<and> si_val (reg_stores r d b) = si_val b
    \<and> (\<forall>j. regs (reg_stores r d b) ! j = (if r \<le> j \<and> j < r + length d then d ! (j - r) else regs b ! j))"
proof (induction d arbitrary: r b)
  case Nil
  then show ?case by (auto simp: same_mail_def)
next
  case (Cons v d)
  have s: "settable r" using Cons.prems(1) by force
  then have r: "r < 256" by (auto simp: settable_def)
  note 1 = reg_store_settable [OF s Cons.prems(2), of v]
  have "\<forall>i<length d. settable (Suc r + i)" using Cons.prems(1) by auto
  from Cons.IH [OF this, of "reg_store r v b"] 1 Cons.prems(2)
  have 2: "same_mail (reg_store r v b) (reg_stores (Suc r) d (reg_store r v b))"
    "si_val (reg_stores (Suc r) d (reg_store r v b)) = si_val (reg_store r v b)"
    "\<forall>j. regs (reg_stores (Suc r) d (reg_store r v b)) ! j
      = (if Suc r \<le> j \<and> j < Suc r + length d then d ! (j - Suc r) else regs (reg_store r v b) ! j)" by simp_all
  have "regs (reg_stores (Suc r) d (reg_store r v b)) ! j = (if r \<le> j \<and> j < r + length (v # d) then (v # d) ! (j - r) else regs b ! j)" for j
  proof (cases "j = r")
    case True
    then show ?thesis using 2(3) 1 r Cons.prems(2) by simp
  next
    case False
    then have "Suc r \<le> j \<longleftrightarrow> r \<le> j" by arith
    then show ?thesis using 2(3) 1 False by (simp add: nth_Cons' Suc_diff_Suc)
  qed
  then show ?case using 1 2(1,2) r same_mail_trans by auto
qed

lemma write_settable:
  assumes "\<forall>i<length d. settable (r + i)" "d \<noteq> []" "length (regs b) = 256"
  shows "\<exists>c. handle_write r d b = Some c \<and> same_mail b c \<and> si_val c = si_val b
    \<and> (\<forall>j. regs c ! j = (if r \<le> j \<and> j < r + length d then d ! (j - r) else regs b ! j))"
proof -
  have "settable r" using assms(1,2) by force
  then have "r \<noteq> 0x90" "r \<noteq> 0xc0" "r \<noteq> 0xc8" "r \<noteq> 0xf0" "r \<noteq> 0x06" "r \<noteq> 0x10" by (auto simp: settable_def)
  then have "handle_write r d b = Some (reg_stores r d b)" by (simp add: handle_write_def)
  then show ?thesis using reg_stores_settable [OF assms(1,3)] by auto
qed

lemma prepare_plain: "reg \<noteq> 0xc8 \<Longrightarrow> n \<le> 32 \<Longrightarrow> reg + n \<le> 256 \<Longrightarrow> prepare_read reg n b = (map (\<lambda>i. regs b ! (reg + i)) [0..<n], b)"
  by (auto simp: prepare_read_def Let_def)

section \<open>Texts\<close>

lemma cut_blanks_pad: "cut_blanks (t @ replicate k 0x20) = cut_blanks t"
  by (simp add: cut_blanks_def dropWhile_append3 dropWhile_append1) (induction k; simp)

definition padded :: "byte list \<Rightarrow> nat \<Rightarrow> byte list" where
  "padded t n = map (\<lambda>i. if i < length t then t ! i else 0x20) [0..<n]"

lemma padded_eq: "padded t n = take n t @ replicate (n - length t) 0x20"
  by (rule nth_equalityI) (auto simp: padded_def nth_append)

lemma cut_padded: "cut_blanks (padded t n) = cut_blanks (take n t)"
  by (simp add: padded_eq cut_blanks_pad)

context bridge_link
begin

lemma read_plain:
  assumes "ok (b_dev s)" "sdk_brimod s" "\<not> cmd_pending (br (b_dev s))" "1 \<le> n" "n \<le> 32" "reg + nat n \<le> 256" "reg \<noteq> 0xc8"
  shows "\<exists>s'. brimod_read D reg n s = (0, map (\<lambda>i. regs (br (b_dev s)) ! (reg + i)) [0..<nat n], s') \<and> same_box s s' \<and> ok (b_dev s')
    \<and> kept (br (b_dev s)) (br (b_dev s'))"
proof -
  have "reg < 256" using assms(4,6) by arith
  then show ?thesis
    using read_ok [OF assms(1,2,4,5)] prepare_plain [OF assms(7) _ assms(6), of "br (b_dev s)"] assms(3,5) runs_idle by fastforce
qed

lemma write_plain:
  assumes "ok (b_dev s)" "sdk_brimod s" "\<forall>i<length d. settable (r + i)" "d \<noteq> []" "length d \<le> 127"
  shows "\<exists>s'. brimod_write D r d s = (0, s') \<and> same_box s s' \<and> ok (b_dev s') \<and> same_mail (br (b_dev s)) (br (b_dev s'))
    \<and> (\<forall>j. regs (br (b_dev s')) ! j = (if r \<le> j \<and> j < r + length d then d ! (j - r) else regs (br (b_dev s)) ! j))"
proof -
  have l: "length (regs (br (b_dev s))) = 256" using fine [OF assms(1)] by (simp add: bridge_ok_def)
  obtain c where c: "handle_write r d (br (b_dev s)) = Some c" "same_mail (br (b_dev s)) c"
    "\<forall>j. regs c ! j = (if r \<le> j \<and> j < r + length d then d ! (j - r) else regs (br (b_dev s)) ! j)"
    using write_settable [OF assms(3,4) l] by blast
  have "settable r" using assms(3,4) by force
  then have "r < 255" by (auto simp: settable_def)
  from write_ok [OF assms(1,2,5) this c(1)] c(2,3) show ?thesis by auto
qed

lemma text_written:
  assumes "ok (b_dev s)" "sdk_brimod s" "\<forall>i<n. settable (r + i)" "0 < n" "n \<le> 64"
  shows "\<exists>s'. write_text D r t n s = (0, s') \<and> same_box s s' \<and> ok (b_dev s') \<and> same_mail (br (b_dev s)) (br (b_dev s'))
    \<and> (\<forall>j. regs (br (b_dev s')) ! j = (if r \<le> j \<and> j < r + n then padded t n ! (j - r) else regs (br (b_dev s)) ! j))"
  unfolding write_text_def padded_def [symmetric]
  using write_plain [OF assms(1,2), of "padded t n" r] assms(3-5) by (simp add: padded_def)

lemma kept_regs: "kept b c \<Longrightarrow> \<not> job_reg r \<Longrightarrow> r < 256 \<Longrightarrow> regs c ! r = regs b ! r"
  by (simp add: kept_def)

lemma pieces_read:
  "ok (b_dev s) \<Longrightarrow> sdk_brimod s \<Longrightarrow> \<not> cmd_pending (br (b_dev s)) \<Longrightarrow> \<forall>i\<in>set is. i < n \<Longrightarrow> reg + n \<le> 0xc8
    \<Longrightarrow> \<forall>j<n. \<not> job_reg (reg + j)
    \<Longrightarrow> \<exists>s'. text_pieces D reg n is s = (0, concat (map (\<lambda>i. map (\<lambda>j. regs (br (b_dev s)) ! (reg + (i + j))) [0..<min 32 (n - i)]) is), s')
      \<and> same_box s s' \<and> ok (b_dev s') \<and> kept (br (b_dev s)) (br (b_dev s'))"
proof (induction "is" arbitrary: s)
  case Nil
  then show ?case using same_box_refl by simp
next
  case (Cons i "is")
  have m: "(if int n - int i > BRIMOD_READ_MAX then BRIMOD_READ_MAX else int n - int i) = int (min 32 (n - i))"
    using Cons.prems(4) by (auto simp: BRIMOD_READ_MAX_def)
  have i: "i < n" using Cons.prems(4) by simp
  then have q: "1 \<le> int (min 32 (n - i))" "int (min 32 (n - i)) \<le> 32" "reg + i + nat (int (min 32 (n - i))) \<le> 256" "reg + i \<noteq> 0xc8"
    using Cons.prems(5) by arith+
  obtain s1 where 1: "brimod_read D (reg + i) (int (min 32 (n - i))) s = (0, map (\<lambda>j. regs (br (b_dev s)) ! (reg + i + j)) [0..<min 32 (n - i)], s1)"
    "same_box s s1" "ok (b_dev s1)" "kept (br (b_dev s)) (br (b_dev s1))"
    using read_plain [OF Cons.prems(1-3), of "int (min 32 (n - i))" "reg + i"] q by auto
  have p: "sdk_brimod s1" "\<not> cmd_pending (br (b_dev s1))" using same_box_fields [OF 1(2)] Cons.prems(2,3) 1(4) by (simp_all add: kept_def)
  obtain s2 where 2: "text_pieces D reg n is s1
      = (0, concat (map (\<lambda>i. map (\<lambda>j. regs (br (b_dev s1)) ! (reg + (i + j))) [0..<min 32 (n - i)]) is), s2)"
    "same_box s1 s2" "ok (b_dev s2)" "kept (br (b_dev s1)) (br (b_dev s2))"
    using Cons.IH [OF 1(3) p _ Cons.prems(5,6)] Cons.prems(4) by auto
  have "regs (br (b_dev s1)) ! (reg + (k + j)) = regs (br (b_dev s)) ! (reg + (k + j))" if "k \<in> set is" "j < min 32 (n - k)" for k j
  proof -
    have "k + j < n" using that by arith
    then have "\<not> job_reg (reg + (k + j))" "reg + (k + j) < 256" using Cons.prems(5,6) by auto
    then show ?thesis by (rule kept_regs [OF 1(4)])
  qed
  then have e: "map (\<lambda>k. map (\<lambda>j. regs (br (b_dev s1)) ! (reg + (k + j))) [0..<min 32 (n - k)]) is
      = map (\<lambda>k. map (\<lambda>j. regs (br (b_dev s)) ! (reg + (k + j))) [0..<min 32 (n - k)]) is"
    by (intro map_cong refl) auto
  have "text_pieces D reg n (i # is) s = (0, concat (map (\<lambda>i. map (\<lambda>j. regs (br (b_dev s)) ! (reg + (i + j))) [0..<min 32 (n - i)]) (i # is)), s2)"
    unfolding text_pieces.simps Let_def m 1(1) prod.case 2(1) e by (simp add: add.assoc)
  then show ?case using 2(2-4) same_box_trans [OF 1(2)] kept_trans [OF 1(4)] by blast
qed

lemma text_back:
  assumes "ok (b_dev s)" "sdk_brimod s" "\<not> cmd_pending (br (b_dev s))" "n = 8 \<or> n = 64" "reg + n \<le> 0xc8" "\<forall>j<n. \<not> job_reg (reg + j)"
  shows "\<exists>s'. read_text D reg n s = (0, cut_blanks (map (\<lambda>j. regs (br (b_dev s)) ! (reg + j)) [0..<n]), s')
    \<and> same_box s s' \<and> ok (b_dev s') \<and> kept (br (b_dev s)) (br (b_dev s'))"
proof -
  define ks where "ks = map (\<lambda>k. k * nat BRIMOD_READ_MAX) [0..<(n + 31) div nat BRIMOD_READ_MAX]"
  have u: "[0..<64] = [0..<32] @ map (\<lambda>j. 32 + j) [0..<(32 :: nat)]" by (simp add: upt_rec)
  have c: "(\<forall>i\<in>set ks. i < n) \<and> concat (map (\<lambda>i. map (\<lambda>j. regs (br (b_dev s)) ! (reg + (i + j))) [0..<min 32 (n - i)]) ks)
      = map (\<lambda>j. regs (br (b_dev s)) ! (reg + j)) [0..<n]"
    using assms(4)
  proof
    assume "n = 8"
    then show ?thesis by (simp add: ks_def BRIMOD_READ_MAX_def)
  next
    assume n: "n = 64"
    have "ks = [0, 32]" by (simp add: ks_def n BRIMOD_READ_MAX_def upt_rec)
    then show ?thesis unfolding n u by simp
  qed
  obtain s' where "text_pieces D reg n ks s = (0, map (\<lambda>j. regs (br (b_dev s)) ! (reg + j)) [0..<n], s')"
    "same_box s s'" "ok (b_dev s')" "kept (br (b_dev s)) (br (b_dev s'))"
    using pieces_read [OF assms(1-3) conjunct1 [OF c] assms(5,6)] unfolding conjunct2 [OF c] by blast
  then show ?thesis unfolding read_text_def ks_def [symmetric] by simp
qed

end

section \<open>Numbers\<close>

lemma le16_by: "unat (by0 p) OR push_bit 8 (unat (by1 p)) = nat (p mod 65536)"
proof -
  have u: "unat (by0 p) = nat (p mod 256)" "unat (by1 p) = nat (p div 256 mod 256)"
    by (simp_all add: by0_def by1_def unsigned_of_int take_bit_eq_mod drop_bit_eq_div)
  have "p mod 65536 = 256 * (p div 256 mod 256) + p mod 256" using zmod_zmult2_eq [of 256 p 256] by simp
  moreover have "0 \<le> p mod 256" "0 \<le> p div 256 mod 256" by simp_all
  ultimately have n: "nat (p mod 65536) = nat (p mod 256) + 256 * nat (p div 256 mod 256)"
    by (simp only: nat_add_distrib nat_mult_distrib mult_nonneg_nonneg) simp
  have "unat (by0 p) OR push_bit 8 (unat (by1 p)) = unat (by0 p) + push_bit 8 (unat (by1 p))"
    by (rule or_shift_add) simp
  then show ?thesis unfolding n u push_bit_nat_mult by simp
qed

lemma le16_lo_hi: "v < 65536 \<Longrightarrow> unat (lo8 v) OR push_bit 8 (unat (hi8 v)) = v"
proof -
  assume v: "v < 65536"
  have "int (drop_bit 8 v) = drop_bit 8 (int v)" by (simp add: drop_bit_eq_div zdiv_int)
  then have "hi8 v = by1 (int v)" unfolding hi8_def by1_def by (metis of_int_of_nat_eq)
  moreover have "lo8 v = by0 (int v)" by (simp add: lo8_def by0_def)
  ultimately show ?thesis using le16_by [of "int v"] v by simp
qed

lemma si_index_less: "si_index p = Some k \<Longrightarrow> k < 16"
proof -
  assume "si_index p = Some k"
  then have "k \<in> set (filter (\<lambda>i. fst (si_table ! i) = p) [0..<length si_table])"
    unfolding si_index_def by (cases "filter (\<lambda>i. fst (si_table ! i) = p) [0..<length si_table]") simp_all
  then have "k < length si_table" unfolding set_filter by simp
  then show ?thesis by (simp add: si_table_def)
qed

context bridge_link
begin

lemma rds_round:
  assumes "ok (b_dev s)" "sdk_brimod s" "\<not> cmd_pending (br (b_dev s))"
  shows "\<exists>s1 s2. brimod_rds_set D p (Some ps) (Some rt) s = (0, s1)
    \<and> brimod_rds_get D s1 = (0, nat (p mod 65536), cut_blanks (take 8 ps), cut_blanks (take 64 rt), s2) \<and> same_box s s2 \<and> ok (b_dev s2)"
proof -
  have "\<forall>i<length [by0 p, by1 p]. settable (0x46 + i)" by (simp add: All_less_Suc settable_def)
  from write_plain [OF assms(1,2) this] obtain a where
    a: "brimod_write D 0x46 [by0 p, by1 p] s = (0, a)" "same_box s a" "ok (b_dev a)" "same_mail (br (b_dev s)) (br (b_dev a))"
      "\<forall>j. regs (br (b_dev a)) ! j = (if 0x46 \<le> j \<and> j < 0x46 + 2 then [by0 p, by1 p] ! (j - 0x46) else regs (br (b_dev s)) ! j)"
    by auto
  have pa: "sdk_brimod a" "\<not> cmd_pending (br (b_dev a))"
    using same_box_fields [OF a(2)] assms(2,3) a(4) by (simp_all add: same_mail_def)
  have "\<forall>i<8. settable (0x48 + i)" by (simp add: settable_def)
  from text_written [where t = ps, OF a(3) pa(1) this] obtain b where
    b: "write_text D 0x48 ps 8 a = (0, b)" "same_box a b" "ok (b_dev b)" "same_mail (br (b_dev a)) (br (b_dev b))"
      "\<forall>j. regs (br (b_dev b)) ! j = (if 0x48 \<le> j \<and> j < 0x48 + 8 then padded ps 8 ! (j - 0x48) else regs (br (b_dev a)) ! j)" by auto
  have pb: "sdk_brimod b" "\<not> cmd_pending (br (b_dev b))"
    using same_box_fields [OF b(2)] pa b(4) by (simp_all add: same_mail_def)
  have "\<forall>i<64. settable (0x50 + i)" by (simp add: settable_def)
  from text_written [where t = rt, OF b(3) pb(1) this] obtain c where
    c: "write_text D 0x50 rt 64 b = (0, c)" "same_box b c" "ok (b_dev c)" "same_mail (br (b_dev b)) (br (b_dev c))"
      "\<forall>j. regs (br (b_dev c)) ! j = (if 0x50 \<le> j \<and> j < 0x50 + 64 then padded rt 64 ! (j - 0x50) else regs (br (b_dev b)) ! j)" by auto
  have pc: "sdk_brimod c" "\<not> cmd_pending (br (b_dev c))"
    using same_box_fields [OF c(2)] pb c(4) by (simp_all add: same_mail_def)
  have set: "brimod_rds_set D p (Some ps) (Some rt) s = (0, c)"
    unfolding brimod_rds_set_def a(1) Let_def by (simp add: b(1) c(1))
  have ja: "\<not> job_reg (0x46 + j)" if "j < 74" for j using that by (simp add: job_reg_def)
  obtain d where d: "brimod_read D 0x46 2 c = (0, map (\<lambda>i. regs (br (b_dev c)) ! (0x46 + i)) [0..<2], d)" "same_box c d" "ok (b_dev d)"
    "kept (br (b_dev c)) (br (b_dev d))"
    using read_plain [where n = "2" and reg = "0x46", OF c(3) pc] by auto
  have pd: "sdk_brimod d" "\<not> cmd_pending (br (b_dev d))" using same_box_fields [OF d(2)] pc d(4) by (simp_all add: kept_def)
  have "\<forall>j<8. \<not> job_reg (0x48 + j)" by (simp add: job_reg_def)
  from text_back [OF d(3) pd _ _ this] obtain e where
    e: "read_text D 0x48 8 d = (0, cut_blanks (map (\<lambda>j. regs (br (b_dev d)) ! (0x48 + j)) [0..<8]), e)" "same_box d e" "ok (b_dev e)"
      "kept (br (b_dev d)) (br (b_dev e))" by auto
  have pe: "sdk_brimod e" "\<not> cmd_pending (br (b_dev e))" using same_box_fields [OF e(2)] pd e(4) by (simp_all add: kept_def)
  have "\<forall>j<64. \<not> job_reg (0x50 + j)" by (simp add: job_reg_def)
  from text_back [OF e(3) pe _ _ this] obtain f where
    f: "read_text D 0x50 64 e = (0, cut_blanks (map (\<lambda>j. regs (br (b_dev e)) ! (0x50 + j)) [0..<64]), f)" "same_box e f" "ok (b_dev f)"
      "kept (br (b_dev e)) (br (b_dev f))" by auto
  have kd: "regs (br (b_dev d)) ! (0x48 + j) = padded ps 8 ! j" if "j < 8" for j
    using kept_regs [OF d(4), of "0x48 + j"] that b(5) c(5) by (simp add: job_reg_def)
  have ke: "regs (br (b_dev e)) ! (0x50 + j) = padded rt 64 ! j" if "j < 64" for j
    using kept_regs [OF kept_trans [OF d(4) e(4)], of "0x50 + j"] that c(5) by (simp add: job_reg_def)
  have m: "map (\<lambda>j. regs (br (b_dev d)) ! (0x48 + j)) [0..<8] = padded ps 8" "map (\<lambda>j. regs (br (b_dev e)) ! (0x50 + j)) [0..<64] = padded rt 64"
    using kd ke by (simp_all add: padded_def list_eq_iff_nth_eq)
  have n: "le16 (map (\<lambda>i. regs (br (b_dev c)) ! (0x46 + i)) [0..<2]) 0 = nat (p mod 65536)"
    using a(5) b(5) c(5) le16_by [of p] by (simp add: le16_def)
  have "brimod_rds_get D c = (0, nat (p mod 65536), cut_blanks (take 8 ps), cut_blanks (take 64 rt), f)"
    unfolding brimod_rds_get_def d(1) Let_def prod.case e(1) f(1) n m cut_padded by simp
  then show ?thesis using set f(3) same_box_trans [OF a(2) same_box_trans [OF b(2) same_box_trans [OF c(2) same_box_trans [OF d(2) same_box_trans [OF e(2) f(2)]]]]]
    by blast
qed

end

end
