(* ===== verification/BrimodCmd.thy ===== *)
theory BrimodCmd
  imports BrimodRegs
begin

text \<open>
  The properties of the FM chip and the mailbox through the driver and the firmware: a command that is started is run
  by the bridge once, the wait ends within the timeout when the bridge is fast enough, and the caller has the reply.
\<close>

section \<open>Properties of the FM chip\<close>

lemma siprop_ok:
  assumes "bridge_ok b" "2 \<le> length d"
  shows "bridge_ok (siprop_write d b) \<and> cmd_pending (siprop_write d b) = cmd_pending b"
  using assms by (auto simp: siprop_write_def bridge_ok_def Let_def split: option.splits)

lemma siprop_regs:
  assumes "bridge_ok b" "si_index (unat x OR push_bit 8 (unat y)) = Some k"
  shows "map (\<lambda>i. regs (siprop_write [x, y] b) ! (0x90 + i)) [0..<4] = [x, y, lo8 (si_val b ! k), hi8 (si_val b ! k)]"
    and "si_val (siprop_write [x, y, u, v] b) = (si_val b)[k := unat u OR push_bit 8 (unat v)]"
  using assms by (simp_all add: siprop_write_def bridge_ok_def Let_def upt_rec)

context bridge_link
begin

lemma si_round:
  assumes "ok (b_dev s)" "sdk_brimod s" "\<not> cmd_pending (br (b_dev s))" "si_index (nat (p mod 65536)) = Some k"
  shows "\<exists>s1 s2. brimod_si_set D p v s = (0, s1) \<and> same_box s s1
    \<and> brimod_si_get D p s1 = (if v mod 65536 = 65535 then BRIMOD_EPROTO else v mod 65536, s2) \<and> same_box s s2 \<and> ok (b_dev s2)"
proof -
  define b where "b = br (b_dev s)"
  define c where "c = siprop_write [by0 p, by1 p, by0 v, by1 v] b"
  define e where "e = siprop_write [by0 p, by1 p] c"
  have bo: "bridge_ok b" using fine [OF assms(1)] by (simp add: b_def)
  have x: "si_index (unat (by0 p) OR push_bit 8 (unat (by1 p))) = Some k" using assms(4) by (simp add: le16_by)
  have co: "bridge_ok c" "\<not> cmd_pending c" using siprop_ok [OF bo, of "[by0 p, by1 p, by0 v, by1 v]"] assms(3) by (simp_all add: c_def b_def)
  have eo: "bridge_ok e" "\<not> cmd_pending e" using siprop_ok [OF co(1), of "[by0 p, by1 p]"] co(2) by (simp_all add: e_def)
  have "handle_write 0x90 [by0 p, by1 p, by0 v, by1 v] (br (b_dev s)) = Some c" by (simp add: handle_write_def c_def b_def)
  from write_ok [OF assms(1,2) _ _ this] obtain s1 where
    1: "brimod_write D 0x90 [by0 p, by1 p, by0 v, by1 v] s = (0, s1)" "same_box s s1" "ok (b_dev s1)" "br (b_dev s1) = c" by auto
  have p1: "sdk_brimod s1" using same_box_fields [OF 1(2)] assms(2) by simp
  have "handle_write 0x90 [by0 p, by1 p] (br (b_dev s1)) = Some e" by (simp add: handle_write_def e_def 1(4))
  from write_ok [OF 1(3) p1 _ _ this] obtain s2 where
    2: "brimod_write D 0x90 [by0 p, by1 p] s1 = (0, s2)" "same_box s1 s2" "ok (b_dev s2)" "br (b_dev s2) = e" by auto
  have p2: "sdk_brimod s2" using same_box_fields [OF 2(2)] p1 by simp
  obtain s3 where 3: "brimod_read D 0x90 4 s2 = (0, map (\<lambda>i. regs e ! (0x90 + i)) [0..<4], s3)" "same_box s2 s3" "ok (b_dev s3)"
    using read_plain [where n = "4" and reg = "0x90", OF 2(3) p2] eo by (auto simp: 2(4))
  have k: "k < length (si_val b)" using si_index_less [OF assms(4)] bo by (simp add: bridge_ok_def)
  define w where "w = si_val c ! k"
  have w: "w = nat (v mod 65536)" unfolding w_def c_def siprop_regs(2) [OF bo x] using k by (simp add: le16_by)
  have m: "map (\<lambda>i. regs e ! (0x90 + i)) [0..<4] = [by0 p, by1 p, lo8 w, hi8 w]"
    unfolding e_def w_def by (rule siprop_regs(1) [OF co(1) x])
  have q: "le16 [by0 p, by1 p, lo8 w, hi8 w] 0 = nat (p mod 65536)" "le16 [by0 p, by1 p, lo8 w, hi8 w] 2 = nat (v mod 65536)"
    using le16_lo_hi [of w] w by (simp_all add: le16_def le16_by)
  have a: "p AND 0xffff = p mod 65536" using take_bit_eq_mask [of 16 p] by (simp add: take_bit_eq_mod mask_eq_exp_minus_1)
  have z: "nat (v mod 65536) = 65535 \<longleftrightarrow> v mod 65536 = 65535" by auto
  have "brimod_si_get D p s1 = (if v mod 65536 = 65535 then BRIMOD_EPROTO else v mod 65536, s3)"
    unfolding brimod_si_get_def 2(1) Let_def prod.case by (simp add: 3(1) m q a z)
  then show ?thesis using 1(1,2) 3(2,3) same_box_trans [OF same_box_trans [OF 1(2) 2(2)] 3(2)] unfolding brimod_si_set_def by blast
qed

end

section \<open>The mailbox\<close>

lemma sub32_clock: "c0 \<le> c \<Longrightarrow> c - c0 < two32 \<Longrightarrow> sub32 (c mod two32) (c0 mod two32) = c - c0"
proof -
  assume c: "c0 \<le> c" "c - c0 < two32"
  define r where "r = c0 mod two32"
  have r: "r < two32" by (simp add: r_def)
  have "c mod two32 = (c0 + (c - c0)) mod two32" using c(1) by simp
  also have "\<dots> = (r + (c - c0)) mod two32" unfolding r_def by (rule mod_add_left_eq [symmetric])
  finally have "sub32 (c mod two32) r = (r + (c - c0) + (two32 - r)) mod two32"
    using r by (simp only: sub32_def mod_add_left_eq mod_less)
  also have "r + (c - c0) + (two32 - r) = c - c0 + two32" using r by arith
  finally show ?thesis using c(2) by (simp add: r_def)
qed

text \<open>A mailbox whose command has ended: status, length and reply agree.\<close>

definition replied :: "bool \<Rightarrow> byte list \<Rightarrow> 'x bridge \<Rightarrow> bool" where
  "replied okf t b = (\<not> cmd_pending b \<and> br_reply b = t \<and> length t < REPLY_MAX \<and> regs b ! 0xc0 = (if okf then 2 else 3)
     \<and> regs b ! 0xc1 = lo8 (length t) \<and> regs b ! 0xc2 = hi8 (length t))"

lemma replied_kept: "replied okf t b \<Longrightarrow> kept b c \<Longrightarrow> replied okf t c"
  by (simp add: replied_def kept_def job_reg_def)

lemma replied_off [simp]: "replied okf t (b\<lparr>reply_off := n\<rparr>) = replied okf t b"
  by (simp add: replied_def)

text \<open>The bridge once the command of \<open>b\<close> has been run: by \<open>mailbox_poll\<close>, from a state that only the jobs had changed.\<close>

definition ran :: "'x esp \<Rightarrow> 'x bridge \<Rightarrow> bool \<Rightarrow> byte list \<Rightarrow> bool" where
  "ran E b okf t = (\<exists>b0 b1. kept b b0
     \<and> cmd_run E (takeWhile (\<lambda>c. c \<noteq> 0) (cmd_buf b)) (b0\<lparr>cmd_pending := False, br_reply := [], reply_off := 0\<rparr>) = (okf, b1)
     \<and> br_reply b1 = t)"

lemma runs_replied:
  assumes "runs E b c" "bridge_ok b" "cmd_pending b" "\<not> cmd_pending c"
  shows "\<exists>okf t. ran E b okf t \<and> replied okf t c"
proof -
  have "\<not> kept b c" using assms(3,4) by (auto simp: kept_def)
  then obtain b0 where b0: "kept b b0" "kept (mailbox_poll E b0) c" using assms(1) by (auto simp: runs_def)
  have o: "bridge_ok b0" "cmd_pending b0" "cmd_buf b0 = cmd_buf b" using kept_ok [OF b0(1) assms(2)] b0(1) assms(3) by (simp_all add: kept_def)
  from poll_result [OF o(1,2), of E] obtain okf b1 where
    r: "cmd_run E (takeWhile (\<lambda>c. c \<noteq> 0) (cmd_buf b0)) (b0\<lparr>cmd_pending := False, br_reply := [], reply_off := 0\<rparr>) = (okf, b1)"
    and q: "replied okf (br_reply b1) (mailbox_poll E b0)" by (auto simp: replied_def)
  have "ran E b okf (br_reply b1)" unfolding ran_def using r b0(1) o(3) by auto
  then show ?thesis using replied_kept [OF q b0(2)] by blast
qed

lemma replied_status: "replied okf t b \<Longrightarrow> int (unat (regs b ! 0xc0)) = (if okf then 2 else 3)
    \<and> le16 [regs b ! 0xc0, regs b ! 0xc1, regs b ! 0xc2] 1 = length t"
  using le16_lo_hi [of "length t"] by (simp add: replied_def le16_def REPLY_MAX_def)

context bridge_link
begin

lemma status_ok:
  assumes "ok (b_dev s)" "sdk_brimod s"
  shows "\<exists>s'. brimod_cmd_status D s = (int (unat (regs (br (b_dev s)) ! 0xc0)),
      le16 [regs (br (b_dev s)) ! 0xc0, regs (br (b_dev s)) ! 0xc1, regs (br (b_dev s)) ! 0xc2] 1, s')
    \<and> same_box s s' \<and> ok (b_dev s') \<and> runs E (br (b_dev s)) (br (b_dev s'))
    \<and> clk (b_dev s) \<le> clk (b_dev s') \<and> clk (b_dev s') \<le> clk (b_dev s) + tm
    \<and> (cmd_pending (br (b_dev s')) \<longrightarrow> due (b_dev s') \<le> due (b_dev s))"
proof -
  have p: "prepare_read 0xc0 (nat 3) b = ([regs b ! 0xc0, regs b ! 0xc1, regs b ! 0xc2], b)" for b :: "'x bridge"
    by (simp add: prepare_plain upt_rec)
  have r: "(1 :: int) \<le> 3" "(3 :: int) \<le> 32" "(0xc0 :: nat) < 256" by simp_all
  show ?thesis using read_ok [OF assms r] unfolding p fst_conv snd_conv
    by (force simp: brimod_cmd_status_def)
qed

lemma wait_over:
  assumes "ok (b_dev s)" "sdk_brimod s" "replied okf t (br (b_dev s))"
  shows "\<exists>s'. cmd_wait D t0 timeout s = Some (Inr (if okf then 2 else 3), s') \<and> same_box s s' \<and> ok (b_dev s') \<and> kept (br (b_dev s)) (br (b_dev s'))"
proof -
  obtain s' len where "brimod_cmd_status D s = ((if okf then 2 else 3), len, s')" "same_box s s'" "ok (b_dev s')" "runs E (br (b_dev s)) (br (b_dev s'))"
    using status_ok [OF assms(1,2)] replied_status [OF assms(3)] by auto
  moreover have "\<not> cmd_pending (br (b_dev s))" using assms(3) by (simp add: replied_def)
  ultimately show ?thesis using runs_idle by (subst cmd_wait.simps) (auto simp: Let_def)
qed

lemma wait_round:
  assumes "ok (b_dev s)" "sdk_brimod s" "cmd_pending (br (b_dev s))" "c0 \<le> clk (b_dev s)" "clk (b_dev s) + tm < c0 + timeout" "timeout < two32"
  shows "\<exists>s'. cmd_wait D (c0 mod two32) timeout s = cmd_wait D (c0 mod two32) timeout s' \<and> same_box s s' \<and> ok (b_dev s')
    \<and> runs E (br (b_dev s)) (br (b_dev s')) \<and> clk (b_dev s) \<le> clk (b_dev s') \<and> clk (b_dev s') \<le> clk (b_dev s) + 2 * tm
    \<and> (cmd_pending (br (b_dev s')) \<longrightarrow> due (b_dev s') < due (b_dev s))"
proof -
  have bo: "bridge_ok (br (b_dev s))" using fine assms(1) by blast
  then have st: "regs (br (b_dev s)) ! 0xc0 = 1" using assms(3) by (simp add: bridge_ok_def)
  obtain s1 len where 1: "brimod_cmd_status D s = (1, len, s1)" "same_box s s1" "ok (b_dev s1)" "runs E (br (b_dev s)) (br (b_dev s1))"
    "clk (b_dev s) \<le> clk (b_dev s1)" "clk (b_dev s1) \<le> clk (b_dev s) + tm" "cmd_pending (br (b_dev s1)) \<longrightarrow> due (b_dev s1) \<le> due (b_dev s)"
    using status_ok [OF assms(1,2)] st by auto
  define s2 where "s2 = s1\<lparr>b_dev := hw_idle D 20000 (b_dev s1)\<rparr>"
  have 2: "ok (b_dev s2)" "runs E (br (b_dev s1)) (br (b_dev s2))" "clk (b_dev s1) \<le> clk (b_dev s2)" "clk (b_dev s2) \<le> clk (b_dev s1) + tm"
    "cmd_pending (br (b_dev s2)) \<longrightarrow> due (b_dev s2) < due (b_dev s1)" using wait [OF 1(3)] by (simp_all add: s2_def)
  have "sub32 (hw_timer D (b_dev s1)) (c0 mod two32) = clk (b_dev s1) - c0"
    unfolding timer by (rule sub32_clock) (use assms(4-6) 1(5,6) in linarith)+
  then have "\<not> timeout \<le> sub32 (hw_timer D (b_dev s1)) (c0 mod two32)" using assms(4,5) 1(6) by linarith
  then have "cmd_wait D (c0 mod two32) timeout s = cmd_wait D (c0 mod two32) timeout s2"
    by (subst cmd_wait.simps) (simp add: 1(1) s2_def)
  moreover have "same_box s s2" using same_box_trans [OF 1(2) same_box_dev] by (simp add: s2_def)
  moreover have "runs E (br (b_dev s)) (br (b_dev s2))" by (rule runs_trans [OF 1(4) 2(2) bo])
  moreover have "cmd_pending (br (b_dev s2)) \<longrightarrow> due (b_dev s2) < due (b_dev s)"
    using 1(7) 2(2,5) runs_idle by (fastforce simp: kept_def)
  ultimately show ?thesis using 1(5,6) 2(1,3,4) by (intro exI [of _ s2]) auto
qed

lemma wait_ends:
  "ok (b_dev s) \<Longrightarrow> sdk_brimod s \<Longrightarrow> runs E b (br (b_dev s)) \<Longrightarrow> bridge_ok b \<Longrightarrow> cmd_pending b
    \<Longrightarrow> (cmd_pending (br (b_dev s)) \<longrightarrow> due (b_dev s) < m) \<Longrightarrow> c0 \<le> clk (b_dev s) \<Longrightarrow> clk (b_dev s) + 2 * m * tm < c0 + timeout
    \<Longrightarrow> timeout < two32
    \<Longrightarrow> \<exists>okf t s'. cmd_wait D (c0 mod two32) timeout s = Some (Inr (if okf then 2 else 3), s') \<and> ran E b okf t
      \<and> same_box s s' \<and> ok (b_dev s') \<and> replied okf t (br (b_dev s'))"
proof (induction m arbitrary: s)
  case 0
  then obtain okf t where r: "ran E b okf t" "replied okf t (br (b_dev s))" using runs_replied [OF 0(3-5)] by auto
  then show ?case using wait_over [OF 0(1,2) r(2)] replied_kept by blast
next
  case (Suc m)
  show ?case
  proof (cases "cmd_pending (br (b_dev s))")
    case False
    then obtain okf t where r: "ran E b okf t" "replied okf t (br (b_dev s))" using runs_replied [OF Suc.prems(3-5)] by auto
    then show ?thesis using wait_over [OF Suc.prems(1,2) r(2)] replied_kept by blast
  next
    case True
    have "clk (b_dev s) + tm < c0 + timeout" using Suc.prems(8) by simp
    from wait_round [OF Suc.prems(1,2) True Suc.prems(7) this Suc.prems(9)] obtain s2 where
      2: "cmd_wait D (c0 mod two32) timeout s = cmd_wait D (c0 mod two32) timeout s2" "same_box s s2" "ok (b_dev s2)"
        "runs E (br (b_dev s)) (br (b_dev s2))" "clk (b_dev s) \<le> clk (b_dev s2)" "clk (b_dev s2) \<le> clk (b_dev s) + 2 * tm"
        "cmd_pending (br (b_dev s2)) \<longrightarrow> due (b_dev s2) < due (b_dev s)" by blast
    have c: "c0 \<le> clk (b_dev s2)" "clk (b_dev s2) + 2 * m * tm < c0 + timeout" using Suc.prems(7,8) 2(5,6) by simp_all
    have d: "cmd_pending (br (b_dev s2)) \<longrightarrow> due (b_dev s2) < m" using Suc.prems(6) True 2(7) by auto
    have p: "sdk_brimod s2" using same_box_fields [OF 2(2)] Suc.prems(2) by simp
    from Suc.IH [OF 2(3) p runs_trans [OF Suc.prems(3) 2(4) Suc.prems(4)] Suc.prems(4,5) d c Suc.prems(9)]
    show ?thesis unfolding 2(1) using same_box_trans [OF 2(2)] by blast
  qed
qed

end

section \<open>Replies\<close>

context bridge_link
begin

lemma reply_step:
  assumes "ok (b_dev s)" "sdk_brimod s" "replied okf t (br (b_dev s))" "reply_off (br (b_dev s)) = g" "g + n \<le> length t" "1 \<le> n" "n \<le> 32"
  shows "\<exists>s'. brimod_read D 0xc8 (int n) s = (0, take n (drop g t), s') \<and> same_box s s' \<and> ok (b_dev s') \<and> replied okf t (br (b_dev s'))
    \<and> reply_off (br (b_dev s')) = g + n"
proof -
  define b where "b = br (b_dev s)"
  have r: "br_reply b = t" "length t < 8192" "\<not> cmd_pending b" using assms(3) by (simp_all add: b_def replied_def REPLY_MAX_def)
  have v: "map (\<lambda>i. let p = g + i in if p < length t then t ! p else 0) [0..<n] = take n (drop g t)"
    using assms(5) by (intro nth_equalityI) (simp_all add: Let_def)
  have p: "prepare_read 0xc8 (nat (int n)) b = (take n (drop g t), b\<lparr>reply_off := g + n\<rparr>)"
    using assms(4,5,7) r v by (simp add: prepare_read_def b_def cong: if_cong)
  have q: "1 \<le> int n" "int n \<le> 32" "(0xc8 :: nat) < 256" using assms(6,7) by simp_all
  obtain s' where 1: "brimod_read D 0xc8 (int n) s = (0, take n (drop g t), s')" "same_box s s'" "ok (b_dev s')"
    "runs E (b\<lparr>reply_off := g + n\<rparr>) (br (b_dev s'))"
    using read_ok [OF assms(1,2) q] p unfolding b_def by auto
  have k: "kept (b\<lparr>reply_off := g + n\<rparr>) (br (b_dev s'))" using runs_idle [OF 1(4)] r(3) by simp
  have "replied okf t (b\<lparr>reply_off := g + n\<rparr>)" using assms(3) by (simp add: b_def)
  from replied_kept [OF this k] k show ?thesis using 1 by (simp add: kept_def)
qed

lemma reply_all:
  "ok (b_dev s) \<Longrightarrow> sdk_brimod s \<Longrightarrow> replied okf t (br (b_dev s)) \<Longrightarrow> reply_off (br (b_dev s)) = g \<Longrightarrow> g \<le> min (length t) (nat (mx - 1))
    \<Longrightarrow> 1 \<le> mx \<Longrightarrow> buf = take g t
    \<Longrightarrow> \<exists>s'. reply_loop D (int (length t)) mx (int g) buf s = (0, take (nat (mx - 1)) t, s') \<and> same_box s s' \<and> ok (b_dev s')
      \<and> replied okf t (br (b_dev s'))"
proof (induction "min (length t) (nat (mx - 1)) - g" arbitrary: g buf s rule: less_induct)
  case less
  show ?case
  proof (cases "g = min (length t) (nat (mx - 1))")
    case True
    then have "\<not> (int g < int (length t) \<and> int g < mx - 1)" by auto
    then have "reply_loop D (int (length t)) mx (int g) buf s = (0, buf, s)" by (subst reply_loop.simps) (simp only: if_False)
    moreover have "buf = take (nat (mx - 1)) t" using True less.prems(7) by (simp add: min_def)
    ultimately show ?thesis using less.prems(1,3) same_box_refl by blast
  next
    case False
    then have g: "g < length t" "int g < mx - 1" using less.prems(5,6) by auto
    define n where "n = min (min (length t - g) 32) (nat (mx - 1) - g)"
    have n: "1 \<le> n" "n \<le> 32" "g + n \<le> length t" "g + n \<le> nat (mx - 1)" using g by (auto simp: n_def)
    have e: "(let n0 = int (length t) - int g; n1 = (if n0 > BRIMOD_READ_MAX then BRIMOD_READ_MAX else n0)
        in (if n1 > mx - 1 - int g then mx - 1 - int g else n1)) = int n"
      using g by (auto simp: Let_def n_def BRIMOD_READ_MAX_def)
    obtain s1 where 1: "brimod_read D 0xc8 (int n) s = (0, take n (drop g t), s1)" "same_box s s1" "ok (b_dev s1)"
      "replied okf t (br (b_dev s1))" "reply_off (br (b_dev s1)) = g + n"
      using reply_step [OF less.prems(1-4) n(3,1,2)] by blast
    have p: "sdk_brimod s1" using same_box_fields [OF 1(2)] less.prems(2) by simp
    have l: "reply_loop D (int (length t)) mx (int g) buf s
        = reply_loop D (int (length t)) mx (int (g + n)) (buf @ take n (drop g t)) s1"
      using g e by (subst reply_loop.simps) (simp add: Let_def 1(1))
    have m: "min (length t) (nat (mx - 1)) - (g + n) < min (length t) (nat (mx - 1)) - g"
      "g + n \<le> min (length t) (nat (mx - 1))" "buf @ take n (drop g t) = take (g + n) t"
      using n less.prems(7) by (auto simp: take_add)
    from less.hyps [OF m(1) 1(3) p 1(4,5) m(2) less.prems(6) m(3)] show ?thesis
      unfolding l using same_box_trans [OF 1(2)] by blast
  qed
qed

lemma reply_ok:
  assumes "ok (b_dev s)" "sdk_brimod s" "replied okf t (br (b_dev s))" "1 \<le> mx"
  shows "\<exists>s'. brimod_cmd_reply D mx s = (int (length t), Some (take (nat (mx - 1)) t), s') \<and> same_box s s' \<and> ok (b_dev s')
    \<and> replied okf t (br (b_dev s'))"
proof -
  have np: "\<not> cmd_pending (br (b_dev s))" using assms(3) by (simp add: replied_def)
  obtain s1 where 1: "brimod_cmd_status D s = ((if okf then 2 else 3), length t, s1)" "same_box s s1" "ok (b_dev s1)" "runs E (br (b_dev s)) (br (b_dev s1))"
    using status_ok [OF assms(1,2)] replied_status [OF assms(3)] by auto
  have r1: "replied okf t (br (b_dev s1))" using replied_kept [OF assms(3)] runs_idle [OF 1(4) np] by blast
  have p1: "sdk_brimod s1" using same_box_fields [OF 1(2)] assms(2) by simp
  have "handle_write 0xc8 [0, 0] (br (b_dev s1)) = Some ((br (b_dev s1))\<lparr>reply_off := 0\<rparr>)" by (simp add: handle_write_def)
  from write_ok [OF 1(3) p1 _ _ this] obtain s2 where
    2: "brimod_write D 0xc8 [0, 0] s1 = (0, s2)" "same_box s1 s2" "ok (b_dev s2)" "br (b_dev s2) = (br (b_dev s1))\<lparr>reply_off := 0\<rparr>" by auto
  have p2: "sdk_brimod s2" using same_box_fields [OF 2(2)] p1 by simp
  obtain s3 where 3: "reply_loop D (int (length t)) mx 0 [] s2 = (0, take (nat (mx - 1)) t, s3)" "same_box s2 s3" "ok (b_dev s3)"
    "replied okf t (br (b_dev s3))"
    using reply_all [where g = 0 and buf = "[]" and t = t and okf = okf and mx = mx, OF 2(3) p2] r1 2(4) assms(4) by auto
  have "brimod_cmd_reply D mx s = (int (length t), Some (take (nat (mx - 1)) t), s3)"
    using assms(4) unfolding brimod_cmd_reply_def 1(1) Let_def by (simp add: 2(1) 3(1))
  then show ?thesis using 3 same_box_trans [OF same_box_trans [OF 1(2) 2(2)] 3(2)] by blast
qed

lemma start_ok:
  assumes "ok (b_dev s)" "sdk_brimod s" "\<not> cmd_pending (br (b_dev s))" "cmd \<noteq> []" "length cmd \<le> 120"
  shows "\<exists>s' b. brimod_cmd_start D cmd s = (0, s') \<and> same_box s s' \<and> ok (b_dev s') \<and> kept (br (b_dev s)) b
    \<and> br (b_dev s') = b\<lparr>cmd_buf := cmd, regs := (regs b)[0xc0 := 1], cmd_pending := True\<rparr>
    \<and> clk (b_dev s) \<le> clk (b_dev s') \<and> clk (b_dev s') \<le> clk (b_dev s) + 2 * tm"
proof -
  have l: "1 \<le> int (length cmd)" "int (length cmd) \<le> 120" using assms(4,5) by (cases cmd; simp)+
  have x: "regs (br (b_dev s)) ! 0xc0 \<noteq> 1" using fine [OF assms(1)] assms(3) by (simp add: bridge_ok_def)
  have r: "(1 :: int) \<le> 1" "(1 :: int) \<le> 32" "(0xc0 :: nat) < 256" by simp_all
  have pr: "prepare_read 0xc0 (nat 1) b = ([regs b ! 0xc0], b)" for b :: "'x bridge" by (simp add: prepare_plain)
  obtain s1 where 1: "brimod_read D 0xc0 1 s = (0, [regs (br (b_dev s)) ! 0xc0], s1)" "same_box s s1" "ok (b_dev s1)"
    "runs E (br (b_dev s)) (br (b_dev s1))" "clk (b_dev s) \<le> clk (b_dev s1)" "clk (b_dev s1) \<le> clk (b_dev s) + tm"
    using read_ok [OF assms(1,2) r] unfolding pr by auto
  have p1: "sdk_brimod s1" using same_box_fields [OF 1(2)] assms(2) by simp
  have k: "kept (br (b_dev s)) (br (b_dev s1))" by (rule runs_idle [OF 1(4) assms(3)])
  then have y: "regs (br (b_dev s1)) ! 0xc0 \<noteq> 1" using x by (simp add: kept_def job_reg_def)
  define c where "c = (br (b_dev s1))\<lparr>cmd_buf := cmd, regs := (regs (br (b_dev s1)))[0xc0 := 1], cmd_pending := True\<rparr>"
  have "handle_write 0xc0 cmd (br (b_dev s1)) = Some c"
    using y assms(4,5) by (simp add: handle_write_def cmd_write_def CMD_MAX_def c_def)
  from write_ok [OF 1(3) p1 _ _ this] assms(5) obtain s2 where
    2: "brimod_write D 0xc0 cmd s1 = (0, s2)" "same_box s1 s2" "ok (b_dev s2)" "br (b_dev s2) = c"
      "clk (b_dev s1) \<le> clk (b_dev s2)" "clk (b_dev s2) \<le> clk (b_dev s1) + tm" by auto
  have "brimod_cmd_start D cmd s = (0, s2)"
    using assms(2,4) l x unfolding brimod_cmd_start_def Let_def by (simp add: BRIMOD_CMD_MAX_def 1(1) 2(1))
  then show ?thesis using 1(5,6) 2 k same_box_trans [OF 1(2) 2(2)] unfolding c_def
    by (intro exI [of _ s2] exI [of _ "br (b_dev s1)"]) simp
qed

text \<open>A whole command.\<close>

lemma cmd_ok:
  assumes "ok (b_dev s)" "sdk_brimod s" "\<not> cmd_pending (br (b_dev s))" "cmd \<noteq> []" "length cmd \<le> 120" "1 \<le> mx"
    and "(2 * N + 4) * tm < timeout" "timeout < two32"
  shows "\<exists>b b1 okf s'. kept ((br (b_dev s))\<lparr>cmd_buf := cmd, regs := (regs (br (b_dev s)))[0xc0 := 1], cmd_pending := True\<rparr>) b
    \<and> cmd_run E (takeWhile (\<lambda>c. c \<noteq> 0) cmd) (b\<lparr>cmd_pending := False, br_reply := [], reply_off := 0\<rparr>) = (okf, b1)
    \<and> brimod_cmd D cmd mx timeout s
      = Some (if okf then int (length (br_reply b1)) else BRIMOD_EFAIL, Some (take (nat (mx - 1)) (br_reply b1)), s')
    \<and> same_box s s' \<and> ok (b_dev s') \<and> replied okf (br_reply b1) (br (b_dev s'))"
proof -
  obtain s1 a where 1: "brimod_cmd_start D cmd s = (0, s1)" "same_box s s1" "ok (b_dev s1)" "kept (br (b_dev s)) a"
    "br (b_dev s1) = a\<lparr>cmd_buf := cmd, regs := (regs a)[0xc0 := 1], cmd_pending := True\<rparr>"
    "clk (b_dev s) \<le> clk (b_dev s1)" "clk (b_dev s1) \<le> clk (b_dev s) + 2 * tm"
    using start_ok [OF assms(1-5)] by blast
  define b where "b = br (b_dev s1)"
  have p1: "sdk_brimod s1" using same_box_fields [OF 1(2)] assms(2) by simp
  have bo: "bridge_ok b" "cmd_pending b" "cmd_buf b = cmd" using fine [OF 1(3)] by (simp_all add: b_def 1(5))
  have d: "cmd_pending (br (b_dev s1)) \<longrightarrow> due (b_dev s1) < Suc N" using fine [OF 1(3)] by simp
  have c: "clk (b_dev s1) + 2 * Suc N * tm < clk (b_dev s) + timeout"
  proof -
    have "(2 * N + 4) * tm = 2 * tm + 2 * Suc N * tm" by (simp add: algebra_simps)
    then show ?thesis using assms(7) 1(7) by linarith
  qed
  have rb: "runs E b (br (b_dev s1))" by (simp add: b_def)
  obtain okf t s2 where 2: "cmd_wait D (clk (b_dev s) mod two32) timeout s1 = Some (Inr (if okf then 2 else 3), s2)" "ran E b okf t"
    "same_box s1 s2" "ok (b_dev s2)" "replied okf t (br (b_dev s2))"
    using wait_ends [OF 1(3) p1 rb bo(1,2) d 1(6) c assms(8)] by blast
  have p2: "sdk_brimod s2" using same_box_fields [OF 2(3)] p1 by simp
  obtain s3 where 3: "brimod_cmd_reply D mx s2 = (int (length t), Some (take (nat (mx - 1)) t), s3)" "same_box s2 s3" "ok (b_dev s3)"
    "replied okf t (br (b_dev s3))"
    using reply_ok [OF 2(4) p2 2(5) assms(6)] by blast
  have r: "brimod_cmd D cmd mx timeout s = Some (if okf then int (length t) else BRIMOD_EFAIL, Some (take (nat (mx - 1)) t), s3)"
    unfolding brimod_cmd_def timer Let_def 1(1) by (simp add: 2(1) 3(1))
  obtain b0 b1 where q: "kept b b0" "br_reply b1 = t"
    "cmd_run E (takeWhile (\<lambda>c. c \<noteq> 0) cmd) (b0\<lparr>cmd_pending := False, br_reply := [], reply_off := 0\<rparr>) = (okf, b1)"
    using 2(2) unfolding ran_def bo(3) by blast
  have "kept ((br (b_dev s))\<lparr>cmd_buf := cmd, regs := (regs (br (b_dev s)))[0xc0 := 1], cmd_pending := True\<rparr>) b"
    using 1(4) fine [OF assms(1)] unfolding b_def 1(5) by (simp add: kept_def bridge_ok_def nth_list_update)
  from kept_trans [OF this q(1)] show ?thesis unfolding q(2) [symmetric]
    using q(3) r [folded q(2)] 3(3,4) [folded q(2)] same_box_trans [OF same_box_trans [OF 1(2) 2(3)] 3(2)]
    by (intro exI [of _ b0] exI [of _ b1] exI [of _ okf] exI [of _ s3]) (simp add: q(2))
qed

end

end
