(* ===== verification/I2cBus.thy ===== *)
theory I2cBus
  imports I2c
begin

text \<open>
  What the transfers of \<open>i2c.h\<close> put on the bus: a controller that follows the register description at the head of
  \<open>i2c.h\<close>, with one slave at an address of its own, takes and gives exactly the bytes of the transfer.
\<close>

section \<open>A controller and a slave\<close>

text \<open>A slave takes the bytes of a write when it has ended, gives a byte for each one read, and hears of the end of a
  read. It may change while time passes.\<close>

record 'b slave =
  sl_addr :: nat
  sl_receive :: "byte list \<Rightarrow> 'b \<Rightarrow> 'b"
  sl_send :: "'b \<Rightarrow> byte \<times> 'b"
  sl_sent :: "'b \<Rightarrow> 'b"
  sl_pass :: "nat \<Rightarrow> 'b \<Rightarrow> 'b"

datatype bus_mode = Quiet | Other | Writing "byte list" | Reading

record 'b oc =
  oc_txd :: byte
  oc_rxd :: byte
  oc_st :: byte
  oc_pre :: "byte \<times> byte"
  oc_mode :: bus_mode
  oc_slave :: 'b
  oc_us :: nat

definition oc_finish :: "'b slave \<Rightarrow> 'b oc \<Rightarrow> 'b oc" where
  "oc_finish sl d =
     (case oc_mode d of
        Writing w \<Rightarrow> d\<lparr>oc_mode := Quiet, oc_slave := sl_receive sl w (oc_slave d), oc_st := 0\<rparr>
      | Reading \<Rightarrow> d\<lparr>oc_mode := Quiet, oc_slave := sl_sent sl (oc_slave d), oc_st := 0\<rparr>
      | _ \<Rightarrow> d\<lparr>oc_mode := Quiet, oc_st := 0\<rparr>)"

definition oc_start :: "'b slave \<Rightarrow> 'b oc \<Rightarrow> 'b oc" where
  "oc_start sl d0 =
     (let d = oc_finish sl d0
      in if drop_bit 1 (oc_txd d) = of_nat (sl_addr sl)
         then d\<lparr>oc_mode := (if bit (oc_txd d) 0 then Reading else Writing []), oc_st := 0\<rparr>
         else d\<lparr>oc_mode := Other, oc_st := I2C_ST_NACK\<rparr>)"

definition oc_put :: "'b oc \<Rightarrow> 'b oc" where
  "oc_put d = (case oc_mode d of Writing w \<Rightarrow> d\<lparr>oc_mode := Writing (w @ [oc_txd d]), oc_st := 0\<rparr> | _ \<Rightarrow> d\<lparr>oc_st := I2C_ST_NACK\<rparr>)"

definition oc_get :: "'b slave \<Rightarrow> 'b oc \<Rightarrow> 'b oc" where
  "oc_get sl d =
     (case oc_mode d of
        Reading \<Rightarrow> (let (v, b) = sl_send sl (oc_slave d) in d\<lparr>oc_rxd := v, oc_slave := b, oc_st := 0\<rparr>)
      | _ \<Rightarrow> d\<lparr>oc_rxd := 0xff, oc_st := 0\<rparr>)"

definition oc_command :: "'b slave \<Rightarrow> byte \<Rightarrow> 'b oc \<Rightarrow> 'b oc" where
  "oc_command sl v d =
     (if v AND I2C_CMD_START \<noteq> 0 then oc_start sl d
      else if v AND I2C_CMD_WRITE \<noteq> 0 then oc_put d
      else if v AND I2C_CMD_READ \<noteq> 0 then oc_get sl d
      else if v AND I2C_CMD_STOP \<noteq> 0 then oc_finish sl d else d)"

abbreviation FP :: u32 where "FP \<equiv> 0xbf158000"

definition oc_pass :: "'b slave \<Rightarrow> nat \<Rightarrow> 'b oc \<Rightarrow> 'b oc" where
  "oc_pass sl us d = d\<lparr>oc_us := oc_us d + us, oc_slave := sl_pass sl us (oc_slave d)\<rparr>"

definition oc_read :: "u32 \<Rightarrow> 'b oc \<Rightarrow> byte \<times> 'b oc" where
  "oc_read a d =
     (if a = FP + I2C_ST then oc_st d else if a = FP + I2C_RXD then oc_rxd d
      else if a = FP + I2C_CMD then I2C_CMD_DONE else 0, d)"

definition oc_write :: "'b slave \<Rightarrow> u32 \<Rightarrow> byte \<Rightarrow> 'b oc \<Rightarrow> 'b oc" where
  "oc_write sl a v d =
     (if a = FP + I2C_TXD then d\<lparr>oc_txd := v\<rparr>
      else if a = FP + I2C_CMD then oc_command sl v d
      else if a = FP + I2C_PRE_HI then d\<lparr>oc_pre := (v, snd (oc_pre d))\<rparr>
      else if a = FP + I2C_PRE_LO then d\<lparr>oc_pre := (fst (oc_pre d), v)\<rparr>
      else d)"

definition oc_hw :: "'b slave \<Rightarrow> 'b oc i2c_hw" where
  "oc_hw sl = \<lparr>hw_read = oc_read, hw_write = oc_write sl, hw_delay = oc_pass sl,
     hw_timer = (\<lambda>d. oc_us d div 1000 mod two32), hw_idle = oc_pass sl\<rparr>"

section \<open>Bytes\<close>

lemma FP_base: "i2c_base I2C_CH_FP = FP"
  by (simp add: i2c_base_def i2c_bases_def I2C_CH_FP_def)

lemma oc_wait: "i2c_wait (oc_hw sl) FP s = (0, s\<lparr>i2c_last_cmd := I2C_CMD_DONE\<rparr>)"
proof -
  have "wait_loop (oc_hw sl) FP (Suc n) s = (0, s\<lparr>i2c_last_cmd := I2C_CMD_DONE\<rparr>)" for n
    by (simp add: get8_def oc_hw_def oc_read_def i2c_consts)
  from this [of 19999] show ?thesis by (simp add: i2c_wait_def)
qed

text \<open>The driver's state with another state of the device, after a command.\<close>

definition onto :: "('b oc, 'z) bus_scheme \<Rightarrow> 'b oc \<Rightarrow> ('b oc, 'z) bus_scheme" where
  "onto s d = s\<lparr>b_dev := d, i2c_last_cmd := I2C_CMD_DONE\<rparr>"

lemma onto_onto [simp]: "onto (onto s d) e = onto s e" "b_dev (onto s d) = d" "i2c_last_cmd (onto s d) = I2C_CMD_DONE"
  by (simp_all add: onto_def)

lemma oc_write_byte:
  "i2c_write_byte (oc_hw sl) FP b st s =
     (let d = (b_dev s)\<lparr>oc_txd := b\<rparr>; e = (if st then oc_start sl d else oc_put d)
      in (if oc_st e AND I2C_ST_ERR \<noteq> 0 then I2C_E_BUS else if oc_st e AND I2C_ST_NACK \<noteq> 0 then I2C_E_NACK else 0, onto s e))"
  unfolding i2c_write_byte_def oc_wait Let_def
  by (simp add: set8_def get8_def oc_hw_def oc_read_def oc_write_def oc_command_def onto_def i2c_consts)

lemma oc_read_byte:
  "i2c_read_byte (oc_hw sl) FP fin s =
     (let e = oc_get sl (b_dev s) in if oc_st e AND I2C_ST_ERR \<noteq> 0 then (I2C_E_BUS, [], onto s e) else (0, [oc_rxd e], onto s e))"
  unfolding i2c_read_byte_def oc_wait Let_def
  by (simp add: set8_def get8_def oc_hw_def oc_read_def oc_write_def oc_command_def onto_def i2c_consts)

lemma oc_stop: "snd (i2c_stop (oc_hw sl) FP s) = onto s (oc_finish sl (b_dev s))"
  unfolding i2c_stop_def oc_wait Let_def
  by (simp add: set8_def get8_def oc_hw_def oc_read_def oc_write_def oc_command_def onto_def i2c_consts)

lemma addr_parts: "a < 128 \<Longrightarrow> drop_bit 1 (addr_byte a rd) = (of_nat a :: byte) \<and> bit (addr_byte a rd) 0 = rd"
proof -
  assume a: "a < 128"
  define x :: nat where "x = (if rd then 1 else 0)"
  have "push_bit 1 a OR x = 2 * a + x"
    using or_shift_add [of x 1 a] by (simp add: x_def push_bit_nat_mult or.commute)
  then have u: "unat (addr_byte a rd) = 2 * a + x"
    using a unfolding addr_byte_def x_def [symmetric] unsigned_of_nat by (simp add: take_bit_nat_eq_self x_def)
  have "unat (drop_bit 1 (addr_byte a rd)) = a" by (simp add: unat_drop_bit u x_def)
  then have "drop_bit 1 (addr_byte a rd) = (of_nat a :: byte)"
    using a by (simp add: word_unat_eq_iff unsigned_of_nat take_bit_nat_eq_self)
  moreover have "bit (addr_byte a rd) 0 = odd (unat (addr_byte a rd))" 
    using bit_unsigned_iff [of "addr_byte a rd" 0, where 'a = nat] by (simp add: bit_0)
  ultimately show ?thesis by (simp add: u x_def)
qed

section \<open>Transfers\<close>

definition calm_bus :: "'b oc \<Rightarrow> bool" where
  "calm_bus d = (oc_mode d = Quiet)"

definition bus_keeps :: "('b oc, 'z) bus_scheme \<Rightarrow> ('b oc, 'z) bus_scheme \<Rightarrow> 'b \<Rightarrow> bool" where
  "bus_keeps s s' b = (\<exists>d. s' = onto s d \<and> calm_bus d \<and> oc_slave d = b \<and> oc_us d = oc_us (b_dev s) \<and> oc_pre d = oc_pre (b_dev s))"

lemma oc_write_bytes:
  "oc_mode (b_dev s) = Writing w \<Longrightarrow> \<exists>d. write_bytes (oc_hw sl) FP data s = (0, s\<lparr>b_dev := d, i2c_last_cmd := (if data = [] then i2c_last_cmd s else I2C_CMD_DONE)\<rparr>)
    \<and> oc_mode d = Writing (w @ data) \<and> oc_slave d = oc_slave (b_dev s) \<and> oc_us d = oc_us (b_dev s) \<and> oc_pre d = oc_pre (b_dev s)"
proof (induction data arbitrary: s w)
  case Nil
  then show ?case by (intro exI [of _ "b_dev s"]) simp
next
  case (Cons b data)
  define e where "e = oc_put ((b_dev s)\<lparr>oc_txd := b\<rparr>)"
  have e: "oc_mode e = Writing (w @ [b])" "oc_st e = 0" "oc_slave e = oc_slave (b_dev s)" "oc_us e = oc_us (b_dev s)" "oc_pre e = oc_pre (b_dev s)"
    using Cons.prems by (simp_all add: e_def oc_put_def)
  have "i2c_write_byte (oc_hw sl) FP b False s = (0, onto s e)" by (simp add: oc_write_byte Let_def e_def [symmetric] e(2))
  moreover obtain d where d: "write_bytes (oc_hw sl) FP data (onto s e) = (0, (onto s e)\<lparr>b_dev := d, i2c_last_cmd := (if data = [] then i2c_last_cmd (onto s e) else I2C_CMD_DONE)\<rparr>)"
    "oc_mode d = Writing ((w @ [b]) @ data)" "oc_slave d = oc_slave e" "oc_us d = oc_us e" "oc_pre d = oc_pre e"
    using Cons.IH [of "onto s e" "w @ [b]"] e(1) by auto
  ultimately show ?case using e by (intro exI [of _ d]) (simp add: onto_def)
qed

lemma oc_transfer_start:
  assumes "calm_bus (b_dev s)" "sl_addr sl < 128" "sl_addr sl = a"
  shows "\<exists>d. i2c_write_byte (oc_hw sl) FP (addr_byte a rd) True s = (0, onto s d)
    \<and> oc_mode d = (if rd then Reading else Writing []) \<and> oc_slave d = oc_slave (b_dev s) \<and> oc_us d = oc_us (b_dev s) \<and> oc_pre d = oc_pre (b_dev s)"
proof -
  define d where "d = (b_dev s)\<lparr>oc_txd := addr_byte a rd, oc_mode := (if rd then Reading else Writing []), oc_st := 0\<rparr>"
  have "oc_start sl ((b_dev s)\<lparr>oc_txd := addr_byte a rd\<rparr>) = d"
    using assms addr_parts [of a rd] by (simp add: d_def oc_start_def oc_finish_def calm_bus_def Let_def)
  then have "i2c_write_byte (oc_hw sl) FP (addr_byte a rd) True s = (0, onto s d)"
    by (simp add: oc_write_byte Let_def d_def)
  then show ?thesis by (intro exI [of _ d]) (simp add: d_def)
qed

theorem oc_i2c_write:
  assumes "calm_bus (b_dev s)" "sl_addr sl < 128" "sl_addr sl = a"
  shows "\<exists>s'. i2c_write (oc_hw sl) I2C_CH_FP a data s = (0, s') \<and> bus_keeps s s' (sl_receive sl data (oc_slave (b_dev s)))"
proof -
  obtain d where d: "i2c_write_byte (oc_hw sl) FP (addr_byte a False) True s = (0, onto s d)" "oc_mode d = Writing []"
    "oc_slave d = oc_slave (b_dev s)" "oc_us d = oc_us (b_dev s)" "oc_pre d = oc_pre (b_dev s)"
    using oc_transfer_start [OF assms, of False] by auto
  obtain e where e: "write_bytes (oc_hw sl) FP data (onto s d) = (0, onto s e)" "oc_mode e = Writing data" "oc_slave e = oc_slave d"
    "oc_us e = oc_us d" "oc_pre e = oc_pre d"
    using oc_write_bytes [of "onto s d" "[]" sl data] d(2) by (auto simp: onto_def cong: if_cong)
  have "i2c_write (oc_hw sl) I2C_CH_FP a data s = (0, onto s (oc_finish sl e))"
    unfolding i2c_write_def FP_base Let_def by (simp add: d(1) e(1) oc_stop)
  then show ?thesis using d(3-5) e(2-5) unfolding bus_keeps_def
    by (intro exI [of _ "onto s (oc_finish sl e)"] conjI exI [of _ "oc_finish sl e"]) (simp_all add: oc_finish_def calm_bus_def)
qed

text \<open>\<open>n\<close> bytes from the slave.\<close>

fun sends :: "'b slave \<Rightarrow> nat \<Rightarrow> 'b \<Rightarrow> byte list \<times> 'b" where
  "sends sl 0 b = ([], b)"
| "sends sl (Suc n) b = (let (v, b1) = sl_send sl b; (vs, b2) = sends sl n b1 in (v # vs, b2))"

lemma oc_read_bytes:
  "oc_mode (b_dev s) = Reading \<Longrightarrow> \<exists>d. read_bytes (oc_hw sl) FP n s = (0, fst (sends sl n (oc_slave (b_dev s))), s\<lparr>b_dev := d, i2c_last_cmd := (if n = 0 then i2c_last_cmd s else I2C_CMD_DONE)\<rparr>)
    \<and> oc_mode d = Reading \<and> oc_slave d = snd (sends sl n (oc_slave (b_dev s))) \<and> oc_us d = oc_us (b_dev s) \<and> oc_pre d = oc_pre (b_dev s)"
proof (induction n arbitrary: s)
  case 0
  then show ?case by (intro exI [of _ "b_dev s"]) simp
next
  case (Suc n)
  obtain v b where vb: "sl_send sl (oc_slave (b_dev s)) = (v, b)" by force
  define e where "e = oc_get sl (b_dev s)"
  have e: "oc_mode e = Reading" "oc_st e = 0" "oc_slave e = b" "oc_rxd e = v" "oc_us e = oc_us (b_dev s)" "oc_pre e = oc_pre (b_dev s)"
    using Suc.prems by (simp_all add: e_def oc_get_def vb)
  have "i2c_read_byte (oc_hw sl) FP (n = 0) s = (0, [v], onto s e)" by (simp add: oc_read_byte Let_def e_def [symmetric] e(2,4))
  moreover obtain d where "read_bytes (oc_hw sl) FP n (onto s e) = (0, fst (sends sl n b), (onto s e)\<lparr>b_dev := d, i2c_last_cmd := (if n = 0 then i2c_last_cmd (onto s e) else I2C_CMD_DONE)\<rparr>)"
    "oc_mode d = Reading" "oc_slave d = snd (sends sl n b)" "oc_us d = oc_us e" "oc_pre d = oc_pre e"
    using Suc.IH [of "onto s e"] e(1,3) by auto
  ultimately show ?case using e vb by (intro exI [of _ d]) (simp add: onto_def split_beta)
qed

theorem oc_i2c_read:
  assumes "calm_bus (b_dev s)" "sl_addr sl < 128" "sl_addr sl = a"
  shows "\<exists>s'. i2c_read (oc_hw sl) I2C_CH_FP a n s = (0, fst (sends sl n (oc_slave (b_dev s))), s')
    \<and> bus_keeps s s' (sl_sent sl (snd (sends sl n (oc_slave (b_dev s)))))"
proof -
  obtain d where d: "i2c_write_byte (oc_hw sl) FP (addr_byte a True) True s = (0, onto s d)" "oc_mode d = Reading"
    "oc_slave d = oc_slave (b_dev s)" "oc_us d = oc_us (b_dev s)" "oc_pre d = oc_pre (b_dev s)"
    using oc_transfer_start [OF assms, of True] by auto
  obtain e where e: "read_bytes (oc_hw sl) FP n (onto s d) = (0, fst (sends sl n (oc_slave d)), onto s e)" "oc_mode e = Reading"
    "oc_slave e = snd (sends sl n (oc_slave d))" "oc_us e = oc_us d" "oc_pre e = oc_pre d"
    using oc_read_bytes [of "onto s d" sl n] d(2) by (auto simp: onto_def cong: if_cong)
  have "i2c_read (oc_hw sl) I2C_CH_FP a n s = (0, fst (sends sl n (oc_slave d)), onto s (oc_finish sl e))"
    unfolding i2c_read_def FP_base Let_def by (simp add: d(1) e(1) oc_stop)
  then show ?thesis using d(3-5) e(2-5) unfolding bus_keeps_def
    by (intro exI [of _ "onto s (oc_finish sl e)"] conjI exI [of _ "oc_finish sl e"]) (simp_all add: oc_finish_def calm_bus_def)
qed

section \<open>The promise to the drivers\<close>

lemma oc_start_nack:
  assumes "calm_bus (b_dev s)" "a < 128" "sl_addr sl < 128" "sl_addr sl \<noteq> a"
  shows "\<exists>d. i2c_write_byte (oc_hw sl) FP (addr_byte a rd) True s = (I2C_E_NACK, onto s d)
    \<and> oc_mode d = Other \<and> oc_slave d = oc_slave (b_dev s) \<and> oc_us d = oc_us (b_dev s) \<and> oc_pre d = oc_pre (b_dev s)"
proof -
  define d where "d = (b_dev s)\<lparr>oc_txd := addr_byte a rd, oc_mode := Other, oc_st := I2C_ST_NACK\<rparr>"
  have u: "unat (of_nat k :: byte) = k" if "k < 128" for k using that by (simp add: unsigned_of_nat take_bit_nat_eq_self)
  have "(of_nat a :: byte) \<noteq> of_nat (sl_addr sl)"
  proof
    assume "(of_nat a :: byte) = of_nat (sl_addr sl)"
    then have "unat (of_nat a :: byte) = unat (of_nat (sl_addr sl) :: byte)" by (rule arg_cong)
    then show False using assms(2-4) by (simp add: u)
  qed
  then have "oc_start sl ((b_dev s)\<lparr>oc_txd := addr_byte a rd\<rparr>) = d"
    using assms addr_parts [of a rd] by (simp add: d_def oc_start_def oc_finish_def calm_bus_def Let_def)
  then have "i2c_write_byte (oc_hw sl) FP (addr_byte a rd) True s = (I2C_E_NACK, onto s d)"
    by (simp add: oc_write_byte Let_def d_def i2c_consts)
  then show ?thesis by (intro exI [of _ d]) (simp add: d_def)
qed

lemma oc_nack:
  assumes "calm_bus (b_dev s)" "a < 128" "sl_addr sl < 128" "sl_addr sl \<noteq> a"
  shows "\<exists>s'. i2c_write (oc_hw sl) I2C_CH_FP a data s = (I2C_E_NACK, s') \<and> bus_keeps s s' (oc_slave (b_dev s))"
    and "\<exists>s'. i2c_read (oc_hw sl) I2C_CH_FP a n s = (I2C_E_NACK, [], s') \<and> bus_keeps s s' (oc_slave (b_dev s))"
proof -
  obtain d where d: "i2c_write_byte (oc_hw sl) FP (addr_byte a False) True s = (I2C_E_NACK, onto s d)" "oc_mode d = Other"
    "oc_slave d = oc_slave (b_dev s)" "oc_us d = oc_us (b_dev s)" "oc_pre d = oc_pre (b_dev s)"
    using oc_start_nack [OF assms, of False] by blast
  have "i2c_write (oc_hw sl) I2C_CH_FP a data s = (I2C_E_NACK, onto s (oc_finish sl d))"
    unfolding i2c_write_def FP_base Let_def by (simp add: d(1) oc_stop i2c_consts)
  then show "\<exists>s'. i2c_write (oc_hw sl) I2C_CH_FP a data s = (I2C_E_NACK, s') \<and> bus_keeps s s' (oc_slave (b_dev s))"
    using d(2-5) unfolding bus_keeps_def
    by (intro exI [of _ "onto s (oc_finish sl d)"] conjI exI [of _ "oc_finish sl d"]) (simp_all add: oc_finish_def calm_bus_def)
  obtain e where e: "i2c_write_byte (oc_hw sl) FP (addr_byte a True) True s = (I2C_E_NACK, onto s e)" "oc_mode e = Other"
    "oc_slave e = oc_slave (b_dev s)" "oc_us e = oc_us (b_dev s)" "oc_pre e = oc_pre (b_dev s)"
    using oc_start_nack [OF assms, of True] by blast
  have "i2c_read (oc_hw sl) I2C_CH_FP a n s = (I2C_E_NACK, [], onto s (oc_finish sl e))"
    unfolding i2c_read_def FP_base Let_def by (simp add: e(1) oc_stop i2c_consts)
  then show "\<exists>s'. i2c_read (oc_hw sl) I2C_CH_FP a n s = (I2C_E_NACK, [], s') \<and> bus_keeps s s' (oc_slave (b_dev s))"
    using e(2-5) unfolding bus_keeps_def
    by (intro exI [of _ "onto s (oc_finish sl e)"] conjI exI [of _ "oc_finish sl e"]) (simp_all add: oc_finish_def calm_bus_def)
qed

text \<open>
  C35: On a controller that follows the register description, with a slave on the bus: a transfer to the slave's address succeeds, gives it all the
  bytes of a write as one write, or has the bytes that it sends; to any other address it fails with the NACK error and nothing reaches the slave. Either way the
  bus is at rest again afterwards, and the clock setting is what it was.\<close>

theorem i2c_transfers:
  assumes "calm_bus (b_dev s)" "a < 128" "sl_addr sl < 128"
  shows "\<exists>s1 s2. i2c_write (oc_hw sl) I2C_CH_FP a data s = (if sl_addr sl = a then 0 else I2C_E_NACK, s1)
    \<and> bus_keeps s s1 (if sl_addr sl = a then sl_receive sl data (oc_slave (b_dev s)) else oc_slave (b_dev s))
    \<and> i2c_read (oc_hw sl) I2C_CH_FP a n s
      = (if sl_addr sl = a then (0, fst (sends sl n (oc_slave (b_dev s))), s2) else (I2C_E_NACK, [], s2))
    \<and> bus_keeps s s2 (if sl_addr sl = a then sl_sent sl (snd (sends sl n (oc_slave (b_dev s)))) else oc_slave (b_dev s))"
  using oc_i2c_write [OF assms(1,3)] oc_i2c_read [OF assms(1,3)] oc_nack [OF assms] by (cases "sl_addr sl = a") force+

text \<open>A memory that is written by its first byte, with a bus at rest.\<close>

theorem i2c_transfers_witness:
  "\<exists>s1 s2. i2c_write (oc_hw \<lparr>sl_addr = 0x50, sl_receive = (\<lambda>w b. w), sl_send = (\<lambda>b. (7, b)), sl_sent = (\<lambda>b. b), sl_pass = (\<lambda>us b. b)\<rparr>)
      I2C_CH_FP 0x50 [1, 2] \<lparr>b_dev = \<lparr>oc_txd = 0, oc_rxd = 0, oc_st = 0, oc_pre = (0, 0), oc_mode = Quiet, oc_slave = [], oc_us = 0\<rparr>,
        i2c_last_cmd = 0, i2c_app_pre = 0, i2c_cur_pre = 0, fd650_regs = [], box_sat = False\<rparr> = (0, s1)
    \<and> oc_slave (b_dev s1) = [1, 2]
    \<and> i2c_read (oc_hw \<lparr>sl_addr = 0x50, sl_receive = (\<lambda>w b. w), sl_send = (\<lambda>b. (7, b)), sl_sent = (\<lambda>b. b), sl_pass = (\<lambda>us b. b)\<rparr>)
      I2C_CH_FP 0x51 2 s1 = (I2C_E_NACK, [], s2)"
proof -
  let ?sl = "\<lparr>sl_addr = 0x50, sl_receive = (\<lambda>w b. w), sl_send = (\<lambda>b. (7, b)), sl_sent = (\<lambda>b. b), sl_pass = (\<lambda>us b. b)\<rparr> :: byte list slave"
  let ?s = "\<lparr>b_dev = \<lparr>oc_txd = 0, oc_rxd = 0, oc_st = 0, oc_pre = (0, 0), oc_mode = Quiet, oc_slave = [], oc_us = 0\<rparr>,
        i2c_last_cmd = 0, i2c_app_pre = 0, i2c_cur_pre = 0, fd650_regs = [], box_sat = False\<rparr> :: byte list oc bus"
  have c: "calm_bus (b_dev ?s)" "(0x50 :: nat) < 128" "(0x51 :: nat) < 128" "sl_addr ?sl < 128" by (simp_all add: calm_bus_def)
  obtain s1 where 1: "i2c_write (oc_hw ?sl) I2C_CH_FP 0x50 [1, 2] ?s = (0, s1)" "bus_keeps ?s s1 [1, 2]"
    using i2c_transfers [OF c(1,2,4), of "[1, 2]"] by auto
  then have "calm_bus (b_dev s1)" "oc_slave (b_dev s1) = [1, 2]" by (auto simp: bus_keeps_def)
  then show ?thesis using i2c_transfers [OF _ c(3,4), of s1 "[]" 2] 1(1) by auto
qed

end
