(* ===== verification/BrimodBox.thy ===== *)
theory BrimodBox
  imports BrimodCmd I2cBus
begin

text \<open>
  The box and the bridge on one bus: the controller of \<open>I2cBus\<close> with the firmware of \<open>Bridge\<close> as its slave. This is what
  the locale \<open>bridge_link\<close> asks for, so the driver's functions do on it what they promise.
\<close>

section \<open>The bridge as a slave\<close>

text \<open>The firmware, the bytes that it has put up to be read, and the microseconds until it looks at a command. What the other jobs
  do while time passes is a list of writes to their own registers.\<close>

record 'x wire =
  w_bridge :: "'x bridge"
  w_fifo :: "byte list"
  w_left :: nat

definition job_writes :: "(nat \<times> byte) list \<Rightarrow> 'x bridge \<Rightarrow> 'x bridge" where
  "job_writes ws = fold (\<lambda>(r, v) b. if job_reg r then put8 r v b else b) ws"

definition wire_receive :: "nat \<Rightarrow> byte list \<Rightarrow> 'x wire \<Rightarrow> 'x wire" where
  "wire_receive work rx w =
     (case on_box_receive rx (w_bridge w) of
        None \<Rightarrow> w
      | Some (out, b) \<Rightarrow> \<lparr>w_bridge = b, w_fifo = w_fifo w @ out, w_left = (if cmd_pending (w_bridge w) then w_left w else work)\<rparr>)"

definition wire_send :: "'x wire \<Rightarrow> byte \<times> 'x wire" where
  "wire_send w = (case w_fifo w of [] \<Rightarrow> (0xff, w) | v # vs \<Rightarrow> (v, w\<lparr>w_fifo := vs\<rparr>))"

definition wire_pass :: "'x esp \<Rightarrow> (nat \<Rightarrow> 'x bridge \<Rightarrow> (nat \<times> byte) list) \<Rightarrow> nat \<Rightarrow> 'x wire \<Rightarrow> 'x wire" where
  "wire_pass E job us w =
     (let b = job_writes (job us (w_bridge w)) (w_bridge w)
      in if w_left w \<le> us then w\<lparr>w_bridge := mailbox_poll E b, w_left := 0\<rparr> else w\<lparr>w_bridge := b, w_left := w_left w - us\<rparr>)"

definition wire_slave :: "'x esp \<Rightarrow> (nat \<Rightarrow> 'x bridge \<Rightarrow> (nat \<times> byte) list) \<Rightarrow> nat \<Rightarrow> 'x wire slave" where
  "wire_slave E job work = \<lparr>sl_addr = BRIMOD_ADDR, sl_receive = wire_receive work, sl_send = wire_send,
     sl_sent = (\<lambda>w. w\<lparr>w_fifo := []\<rparr>), sl_pass = wire_pass E job\<rparr>"

text \<open>A bus at rest with a bridge in order.\<close>

definition box_ok :: "nat \<Rightarrow> 'x wire oc \<Rightarrow> bool" where
  "box_ok work d = (calm_bus d \<and> bridge_ok (w_bridge (oc_slave d)) \<and> w_fifo (oc_slave d) = [] \<and> w_left (oc_slave d) \<le> work)"

section \<open>The laws of the wire\<close>

lemma put8_kept: "job_reg r \<Longrightarrow> kept b (put8 r v b)"
proof -
  assume "job_reg r"
  then have "r \<noteq> s" if "\<not> job_reg s" for s using that by auto
  then show ?thesis by (auto simp: kept_def put8_def)
qed

lemma job_writes_kept: "kept b (job_writes ws b)"
proof (induction ws arbitrary: b)
  case Nil
  then show ?case by (simp add: job_writes_def)
next
  case (Cons x ws)
  obtain r v where x: "x = (r, v)" by force
  have "kept b (if job_reg r then put8 r v b else b)" by (simp add: put8_kept)
  from kept_trans [OF this Cons.IH] show ?case by (simp add: x job_writes_def)
qed

lemma wire_pass_runs: "runs E (w_bridge w) (w_bridge (wire_pass E job us w))"
proof -
  define b where "b = job_writes (job us (w_bridge w)) (w_bridge w)"
  have k: "kept (w_bridge w) b" unfolding b_def by (rule job_writes_kept)
  have "runs E (w_bridge w) (mailbox_poll E b)"
  proof (cases "cmd_pending b")
    case True
    then show ?thesis using k by (auto simp: runs_def kept_def)
  next
    case False
    then show ?thesis using k by (simp add: mailbox_poll_def runs_def)
  qed
  then show ?thesis using k by (simp add: wire_pass_def Let_def b_def [symmetric] runs_def)
qed

lemma wire_pass_left:
  assumes "bridge_ok (w_bridge w)" "cmd_pending (w_bridge (wire_pass E job us w))"
  shows "w_left (wire_pass E job us w) + us = w_left w"
proof (rule ccontr)
  define b where "b = job_writes (job us (w_bridge w)) (w_bridge w)"
  assume "w_left (wire_pass E job us w) + us \<noteq> w_left w"
  then have l: "w_left w \<le> us" by (auto simp: wire_pass_def Let_def split: if_splits)
  then have p: "cmd_pending (mailbox_poll E b)" using assms(2) by (simp add: wire_pass_def Let_def b_def)
  have bo: "bridge_ok b" unfolding b_def by (rule kept_ok [OF job_writes_kept assms(1)])
  show False
  proof (cases "cmd_pending b")
    case True
    then show ?thesis using poll_result [OF bo True, of E] p by auto
  next
    case False
    then show ?thesis using p by (simp add: mailbox_poll_def)
  qed
qed

lemma wire_pass_fields: "w_fifo (wire_pass E job us w) = w_fifo w" "w_left (wire_pass E job us w) \<le> w_left w"
  by (simp_all add: wire_pass_def Let_def)

lemma reg_stores_keeps: "length (regs b) = 256 \<Longrightarrow> same_mail b (reg_stores r d b) \<and> si_val (reg_stores r d b) = si_val b"
proof (induction d arbitrary: r b)
  case Nil
  then show ?case by (simp add: same_mail_def)
next
  case (Cons v d)
  have 1: "same_mail b (reg_store r v b)" "si_val (reg_store r v b) = si_val b"
    using reg_store_settable [of r b v] Cons.prems by (cases "settable r", simp_all add: reg_store_def same_mail_def)
  then have "length (regs (reg_store r v b)) = 256" using Cons.prems by (simp add: same_mail_def)
  from Cons.IH [OF this] 1 same_mail_trans show ?case by (auto simp: same_mail_def)
qed

lemma handle_write_ok:
  assumes "bridge_ok b" "handle_write r d b = Some c"
  shows "bridge_ok c \<and> (cmd_pending b \<longrightarrow> cmd_pending c)"
proof (cases "r = 0x90 \<or> r = 0xc0 \<or> r = 0xc8 \<or> r = 0xf0 \<or> r = 0x06 \<or> r = 0x10 \<and> 4 \<le> length d")
  case True
  have "bridge_ok (siprop_write d b) \<and> cmd_pending (siprop_write d b) = cmd_pending b" if "2 \<le> length d"
    by (rule siprop_ok [OF assms(1) that])
  moreover have "bridge_ok (cmd_write d b)" using assms(1) by (auto simp: cmd_write_def bridge_ok_def)
  moreover have "bridge_ok (events_clear d b) \<and> cmd_pending (events_clear d b) = cmd_pending b"
    using assms(1) by (simp add: events_clear_def bridge_ok_def Let_def)
  ultimately show ?thesis using True assms
    by (auto simp: handle_write_def cmd_write_def bridge_ok_def split: if_splits)
next
  case False
  then have "c = reg_stores r d b" using assms(2) by (auto simp: handle_write_def split: if_splits)
  then show ?thesis using reg_stores_keeps [of b r d] same_mail_ok assms(1) by (auto simp: bridge_ok_def same_mail_def)
qed

lemma receive_ok:
  assumes "bridge_ok b" "on_box_receive rx b = Some (out, c)"
  shows "bridge_ok c \<and> (cmd_pending b \<longrightarrow> cmd_pending c)"
proof -
  define buf where "buf = take (CMD_MAX + 8) rx"
  have p: "bridge_ok (snd (prepare_read r n b)) \<and> cmd_pending (snd (prepare_read r n b)) = cmd_pending b" for r n
    using assms(1) by (simp add: prepare_read_def bridge_ok_def Let_def)
  consider "buf = []" | "buf \<noteq> []" "buf ! 0 = 0xff" | "buf \<noteq> []" "buf ! 0 \<noteq> 0xff" by blast
  then show ?thesis
  proof cases
    case 2
    then have "c = b \<or> c = snd (prepare_read (unat (buf ! 1)) (unat (buf ! 2)) b)"
      using assms(2) unfolding on_box_receive_def Let_def buf_def [symmetric] by (auto split: if_splits)
    then show ?thesis using p assms(1) by auto
  next
    case 3
    then have "handle_write (unat (buf ! 0)) (tl buf) b = Some c"
      using assms(2) unfolding on_box_receive_def Let_def buf_def [symmetric] by auto
    then show ?thesis by (rule handle_write_ok [OF assms(1)])
  qed (use assms in \<open>simp add: on_box_receive_def Let_def buf_def [symmetric]\<close>)
qed

lemma wire_sends: "w_fifo w = vs @ rest \<Longrightarrow> sl_send sl = wire_send \<Longrightarrow> sends sl (length vs) w = (vs, w\<lparr>w_fifo := rest\<rparr>)"
  by (induction vs arbitrary: w) (simp_all add: wire_send_def)


text \<open>The three laws that are about transfers and time, for the slave.\<close>

lemma keeps_box: "bus_keeps s s' w \<Longrightarrow> same_box s s' \<and> calm_bus (b_dev s') \<and> oc_slave (b_dev s') = w \<and> oc_us (b_dev s') = oc_us (b_dev s)"
proof -
  assume "bus_keeps s s' w"
  then obtain d where d: "s' = onto s d" "calm_bus d" "oc_slave d = w" "oc_us d = oc_us (b_dev s)" by (auto simp: bus_keeps_def)
  have "same_box s (onto s d)" unfolding same_box_def onto_def
    by (intro exI [of _ d] exI [of _ I2C_CMD_DONE] exI [of _ "i2c_cur_pre s"]) simp
  then show ?thesis using d by simp
qed

lemma box_put:
  fixes s :: "'x wire oc brimod"
  assumes "box_ok work (b_dev s)" "length data \<le> 128" "on_box_receive data (w_bridge (oc_slave (b_dev s))) = Some ([], b)"
  shows "\<exists>s'. i2c_write (oc_hw (wire_slave E job work)) I2C_CH_FP BRIMOD_ADDR data s = (0, s') \<and> same_box s s' \<and> box_ok work (b_dev s')
    \<and> w_bridge (oc_slave (b_dev s')) = b \<and> oc_us (b_dev s') = oc_us (b_dev s)
    \<and> (cmd_pending (w_bridge (oc_slave (b_dev s))) \<longrightarrow> w_left (oc_slave (b_dev s')) \<le> w_left (oc_slave (b_dev s)))"
proof -
  define w where "w = oc_slave (b_dev s)"
  have c: "calm_bus (b_dev s)" "sl_addr (wire_slave E job work) < 128" "sl_addr (wire_slave E job work) = BRIMOD_ADDR"
    using assms(1) by (simp_all add: box_ok_def wire_slave_def BRIMOD_ADDR_def)
  obtain s' where s': "i2c_write (oc_hw (wire_slave E job work)) I2C_CH_FP BRIMOD_ADDR data s = (0, s')"
    "bus_keeps s s' (sl_receive (wire_slave E job work) data w)"
    using oc_i2c_write [OF c] unfolding w_def by blast
  have r: "sl_receive (wire_slave E job work) data w = \<lparr>w_bridge = b, w_fifo = [], w_left = (if cmd_pending (w_bridge w) then w_left w else work)\<rparr>"
    using assms(1,3) by (simp add: wire_slave_def wire_receive_def w_def box_ok_def)
  have "bridge_ok b" using receive_ok [OF _ assms(3)] assms(1) by (simp add: box_ok_def)
  then show ?thesis using s'(1) keeps_box [OF s'(2)] assms(1) unfolding r by (intro exI [of _ s']) (simp add: box_ok_def w_def)
qed

lemma box_pass: "hw_delay (oc_hw (wire_slave E job work)) us d = oc_pass (wire_slave E job work) us d"
    "hw_idle (oc_hw (wire_slave E job work)) us d = oc_pass (wire_slave E job work) us d"
  by (simp_all add: oc_hw_def)

lemma pass_fields: "calm_bus (oc_pass sl us d) = calm_bus d" "oc_slave (oc_pass sl us d) = sl_pass sl us (oc_slave d)"
    "oc_us (oc_pass sl us d) = oc_us d + us"
  by (simp_all add: oc_pass_def calm_bus_def)

lemma box_ask:
  fixes s :: "'x wire oc brimod"
  assumes "box_ok work (b_dev s)" "on_box_receive [0xff, reg, n] (w_bridge (oc_slave (b_dev s))) = Some (out, b)" "out \<noteq> []"
  shows "\<exists>s1 s'. i2c_write (oc_hw (wire_slave E job work)) I2C_CH_FP BRIMOD_ADDR [0xff, reg, n] s = (0, s1)
    \<and> i2c_read (oc_hw (wire_slave E job work)) I2C_CH_FP BRIMOD_ADDR (length out)
        (s1\<lparr>b_dev := hw_delay (oc_hw (wire_slave E job work)) BRIMOD_PREP_US (b_dev s1)\<rparr>) = (0, out, s')
    \<and> same_box s s' \<and> box_ok work (b_dev s') \<and> runs E b (w_bridge (oc_slave (b_dev s'))) \<and> oc_us (b_dev s') = oc_us (b_dev s) + BRIMOD_PREP_US
    \<and> (cmd_pending (w_bridge (oc_slave (b_dev s'))) \<longrightarrow> w_left (oc_slave (b_dev s')) \<le> w_left (oc_slave (b_dev s)))"
proof -
  let ?sl = "wire_slave E job work"
  define w where "w = oc_slave (b_dev s)"
  define w1 where "w1 = \<lparr>w_bridge = b, w_fifo = out, w_left = (if cmd_pending (w_bridge w) then w_left w else work)\<rparr>"
  define w2 where "w2 = wire_pass E job BRIMOD_PREP_US w1"
  have c: "calm_bus (b_dev s)" "sl_addr ?sl < 128" "sl_addr ?sl = BRIMOD_ADDR"
    using assms(1) by (simp_all add: box_ok_def wire_slave_def BRIMOD_ADDR_def)
  have r: "sl_receive ?sl [0xff, reg, n] w = w1"
    using assms(1,2) by (simp add: wire_slave_def wire_receive_def w_def box_ok_def w1_def)
  obtain s1 where s1: "i2c_write (oc_hw ?sl) I2C_CH_FP BRIMOD_ADDR [0xff, reg, n] s = (0, s1)" "bus_keeps s s1 w1"
    using oc_i2c_write [OF c] unfolding r [symmetric] w_def by blast
  define t where "t = s1\<lparr>b_dev := hw_delay (oc_hw ?sl) BRIMOD_PREP_US (b_dev s1)\<rparr>"
  have t: "calm_bus (b_dev t)" "oc_slave (b_dev t) = w2" "oc_us (b_dev t) = oc_us (b_dev s) + BRIMOD_PREP_US"
    using keeps_box [OF s1(2)] by (simp_all add: t_def box_pass pass_fields w2_def) (simp_all add: wire_slave_def)
  have st: "same_box s t" unfolding t_def by (rule same_box_trans [OF conjunct1 [OF keeps_box [OF s1(2)]] same_box_dev])
  have "w_fifo w2 = out @ []" by (simp add: w2_def wire_pass_fields w1_def)
  from wire_sends [OF this, of ?sl] have g: "sends ?sl (length out) w2 = (out, w2\<lparr>w_fifo := []\<rparr>)" by (simp add: wire_slave_def)
  obtain s' where s': "i2c_read (oc_hw ?sl) I2C_CH_FP BRIMOD_ADDR (length out) t = (0, out, s')" "bus_keeps t s' (w2\<lparr>w_fifo := []\<rparr>)"
    using oc_i2c_read [OF t(1) c(2,3), of "length out"] unfolding t(2) g by (auto simp: wire_slave_def)
  note k = keeps_box [OF s'(2)]
  have b: "bridge_ok b" "cmd_pending b = cmd_pending (w_bridge w)"
    using receive_ok [OF _ assms(2)] assms(1,2) by (auto simp: box_ok_def w_def on_box_receive_def CMD_MAX_def prepare_read_def Let_def split: if_splits)
  have l: "w_left w2 \<le> w_left w1" unfolding w2_def by (rule wire_pass_fields)
  have rn: "runs E b (w_bridge w2)" using wire_pass_runs [of E w1 job BRIMOD_PREP_US] by (simp add: w2_def w1_def)
  have bo: "bridge_ok (w_bridge w2)" using runs_pending [OF rn b(1)] by blast
  have p: "cmd_pending (w_bridge w2) \<longrightarrow> w_left w2 \<le> w_left w"
    using runs_pending [OF rn b(1)] l b(2) by (auto simp: w1_def kept_def)
  have ok: "box_ok work (b_dev s')" using k bo l assms(1) by (auto simp: box_ok_def w1_def w_def split: if_splits)
  show ?thesis unfolding t_def [symmetric]
    using s1(1) s'(1) ok k t(3) rn p same_box_trans [OF st] by (intro exI [of _ s1] exI [of _ s']) (auto simp: t_def w_def)
qed


section \<open>The interface\<close>

definition box_hw :: "'x esp \<Rightarrow> (nat \<Rightarrow> 'x bridge \<Rightarrow> (nat \<times> byte) list) \<Rightarrow> nat \<Rightarrow> 'x wire oc i2c_hw" where
  "box_hw E job work = oc_hw (wire_slave E job work)"

definition firmware :: "'x wire oc brimod \<Rightarrow> 'x bridge" where
  "firmware s = w_bridge (oc_slave (b_dev s))"

text \<open>The driver has found the bridge, the bus is at rest and no command is pending.\<close>

definition box_idle :: "nat \<Rightarrow> 'x wire oc brimod \<Rightarrow> bool" where
  "box_idle work s = (box_ok work (b_dev s) \<and> sdk_brimod s \<and> \<not> cmd_pending (firmware s))"

interpretation box: bridge_link "box_hw E job work" E "\<lambda>d. w_bridge (oc_slave d)" "box_ok work" "\<lambda>d. oc_us d div 1000"
  "\<lambda>d. w_left (oc_slave d) div 20000" "work div 20000" 20 for E :: "'x esp" and job work
proof unfold_locales
  fix d :: "'x wire oc" and s :: "'x wire oc brimod" and a v data b reg n out
  show "box_ok work d \<Longrightarrow> bridge_ok (w_bridge (oc_slave d)) \<and> w_left (oc_slave d) div 20000 \<le> work div 20000"
    by (simp add: box_ok_def div_le_mono)
  show "hw_timer (box_hw E job work) d = oc_us d div 1000 mod two32" by (simp add: box_hw_def oc_hw_def)
  show "box_ok work d \<Longrightarrow> a = i2c_base I2C_CH_FP + I2C_PRE_HI \<or> a = i2c_base I2C_CH_FP + I2C_PRE_LO \<Longrightarrow>
      box_ok work (hw_write (box_hw E job work) a v d) \<and> w_bridge (oc_slave (hw_write (box_hw E job work) a v d)) = w_bridge (oc_slave d)
      \<and> oc_us (hw_write (box_hw E job work) a v d) div 1000 = oc_us d div 1000
      \<and> w_left (oc_slave (hw_write (box_hw E job work) a v d)) div 20000 = w_left (oc_slave d) div 20000"
    by (auto simp: FP_base box_hw_def oc_hw_def oc_write_def box_ok_def calm_bus_def i2c_consts)
  show "box_ok work (b_dev s) \<Longrightarrow> length data \<le> 128 \<Longrightarrow> on_box_receive data (w_bridge (oc_slave (b_dev s))) = Some ([], b) \<Longrightarrow>
      \<exists>s'. i2c_write (box_hw E job work) I2C_CH_FP BRIMOD_ADDR data s = (0, s') \<and> same_box s s' \<and> box_ok work (b_dev s')
        \<and> w_bridge (oc_slave (b_dev s')) = b \<and> oc_us (b_dev s) div 1000 \<le> oc_us (b_dev s') div 1000
        \<and> oc_us (b_dev s') div 1000 \<le> oc_us (b_dev s) div 1000 + 20
        \<and> (cmd_pending (w_bridge (oc_slave (b_dev s))) \<longrightarrow> w_left (oc_slave (b_dev s')) div 20000 \<le> w_left (oc_slave (b_dev s)) div 20000)"
    using box_put [of work s data b E job] unfolding box_hw_def by (metis div_le_mono le_add1 order_refl)
  show "box_ok work (b_dev s) \<Longrightarrow> on_box_receive [0xff, reg, n] (w_bridge (oc_slave (b_dev s))) = Some (out, b) \<Longrightarrow> out \<noteq> [] \<Longrightarrow>
      \<exists>s1 s'. i2c_write (box_hw E job work) I2C_CH_FP BRIMOD_ADDR [0xff, reg, n] s = (0, s1)
        \<and> i2c_read (box_hw E job work) I2C_CH_FP BRIMOD_ADDR (length out)
            (s1\<lparr>b_dev := hw_delay (box_hw E job work) BRIMOD_PREP_US (b_dev s1)\<rparr>) = (0, out, s')
        \<and> same_box s s' \<and> box_ok work (b_dev s') \<and> runs E b (w_bridge (oc_slave (b_dev s')))
        \<and> oc_us (b_dev s) div 1000 \<le> oc_us (b_dev s') div 1000 \<and> oc_us (b_dev s') div 1000 \<le> oc_us (b_dev s) div 1000 + 20
        \<and> (cmd_pending (w_bridge (oc_slave (b_dev s'))) \<longrightarrow> w_left (oc_slave (b_dev s')) div 20000 \<le> w_left (oc_slave (b_dev s)) div 20000)"
  proof -
    assume a: "box_ok work (b_dev s)" "on_box_receive [0xff, reg, n] (w_bridge (oc_slave (b_dev s))) = Some (out, b)" "out \<noteq> []"
    have t: "u div 1000 \<le> (u + BRIMOD_PREP_US) div 1000" "(u + BRIMOD_PREP_US) div 1000 \<le> u div 1000 + 20" for u
      unfolding BRIMOD_PREP_US_def by arith+
    show ?thesis using box_ask [OF a, of E job] t [of "oc_us (b_dev s)"] unfolding box_hw_def by (metis div_le_mono)
  qed
  show "box_ok work d \<Longrightarrow> box_ok work (hw_idle (box_hw E job work) 20000 d)
      \<and> runs E (w_bridge (oc_slave d)) (w_bridge (oc_slave (hw_idle (box_hw E job work) 20000 d)))
      \<and> oc_us d div 1000 \<le> oc_us (hw_idle (box_hw E job work) 20000 d) div 1000
      \<and> oc_us (hw_idle (box_hw E job work) 20000 d) div 1000 \<le> oc_us d div 1000 + 20
      \<and> (cmd_pending (w_bridge (oc_slave (hw_idle (box_hw E job work) 20000 d)))
        \<longrightarrow> w_left (oc_slave (hw_idle (box_hw E job work) 20000 d)) div 20000 < w_left (oc_slave d) div 20000)"
  proof -
    assume o: "box_ok work d"
    define w where "w = oc_slave d"
    have i: "oc_slave (hw_idle (box_hw E job work) 20000 d) = wire_pass E job 20000 w" "oc_us (hw_idle (box_hw E job work) 20000 d) = oc_us d + 20000"
      "calm_bus (hw_idle (box_hw E job work) 20000 d) = calm_bus d"
      by (simp_all add: box_hw_def box_pass pass_fields w_def) (simp add: wire_slave_def)
    have r: "runs E (w_bridge w) (w_bridge (wire_pass E job 20000 w))" by (rule wire_pass_runs)
    have bo: "bridge_ok (w_bridge w)" using o by (simp add: box_ok_def w_def)
    have "w_left (wire_pass E job 20000 w) div 20000 < w_left w div 20000" if "cmd_pending (w_bridge (wire_pass E job 20000 w))"
      using wire_pass_left [OF bo that] by (metis add_diff_cancel_right' div_add_self2 le_add2 lessI zero_neq_numeral Suc_eq_plus1)
    then show ?thesis using o r runs_pending [OF r bo] wire_pass_fields [of E job 20000 w]
      unfolding i by (auto simp: box_ok_def i w_def)
  qed
qed

end
