(* ===== verification/BrimodProps.thy ===== *)
theory BrimodProps
  imports BrimodBox
begin

text \<open>
  What the driver promises its callers, with the firmware at the other end of the bus: registers are read back as they were
  written, a command is run and answered in time, and joining and scanning networks take and give their names.
\<close>

section \<open>Registers\<close>

text \<open>
  The texts of the FM transmitter: after \<open>brimod_rds_set\<close> with a program number, a station name and a text,
  \<open>brimod_rds_get\<close> has the number modulo 65536 and the first 8 and 64 characters, without the blanks at their ends.\<close>

theorem rds_roundtrip:
  assumes "box_idle work s"
  shows "\<exists>s1 s2. brimod_rds_set (box_hw E job work) p (Some ps) (Some rt) s = (0, s1)
    \<and> brimod_rds_get (box_hw E job work) s1 = (0, nat (p mod 65536), cut_blanks (take 8 ps), cut_blanks (take 64 rt), s2)
    \<and> same_box s s2 \<and> box_ok work (b_dev s2)"
  using box.rds_round assms unfolding box_idle_def firmware_def by blast

text \<open>
  The properties of the FM chip: for every property the firmware has, \<open>brimod_si_get\<close> gives the value that \<open>brimod_si_set\<close> has
  written, but for 0xFFFF. The driver takes that one for the mark of an unknown property and returns the error of
  the protocol, so a threshold of -1 dBFS can be set and not be read.\<close>

theorem si_property_back:
  assumes "box_idle work s" "si_index (nat (p mod 65536)) = Some k"
  shows "\<exists>s1 s2. brimod_si_set (box_hw E job work) p v s = (0, s1)
    \<and> brimod_si_get (box_hw E job work) p s1 = (if v mod 65536 = 65535 then BRIMOD_EPROTO else v mod 65536, s2)
    \<and> same_box s s2 \<and> box_ok work (b_dev s2)"
  using box.si_round assms unfolding box_idle_def firmware_def by blast

section \<open>Commands\<close>

text \<open>The bridge with a command in its mailbox.\<close>

definition posted :: "byte list \<Rightarrow> 'x bridge \<Rightarrow> 'x bridge" where
  "posted cmd b = b\<lparr>cmd_buf := cmd, regs := (regs b)[0xc0 := 1], cmd_pending := True\<rparr>"

definition taken :: "'x bridge \<Rightarrow> 'x bridge" where
  "taken b = b\<lparr>cmd_pending := False, br_reply := [], reply_off := 0\<rparr>"

lemma box_cmd:
  assumes "box_idle work s" "cmd \<noteq> []" "length cmd \<le> 120" "1 \<le> mx" "(2 * (work div 20000) + 4) * 20 < timeout" "timeout < two32"
  shows "\<exists>b b1 okf s'. kept (posted cmd (firmware s)) b \<and> cmd_run E (takeWhile (\<lambda>c. c \<noteq> 0) cmd) (taken b) = (okf, b1)
    \<and> brimod_cmd (box_hw E job work) cmd mx timeout s
      = Some (if okf then int (length (br_reply b1)) else BRIMOD_EFAIL, Some (take (nat (mx - 1)) (br_reply b1)), s')
    \<and> same_box s s' \<and> box_idle work s'"
proof -
  have a: "box_ok work (b_dev s)" "sdk_brimod s" "\<not> cmd_pending (w_bridge (oc_slave (b_dev s)))"
    using assms(1) by (simp_all add: box_idle_def firmware_def)
  obtain b b1 okf s' where 1: "kept (posted cmd (firmware s)) b" "cmd_run E (takeWhile (\<lambda>c. c \<noteq> 0) cmd) (taken b) = (okf, b1)"
    "brimod_cmd (box_hw E job work) cmd mx timeout s
      = Some (if okf then int (length (br_reply b1)) else BRIMOD_EFAIL, Some (take (nat (mx - 1)) (br_reply b1)), s')"
    "same_box s s'" "box_ok work (b_dev s')" "replied okf (br_reply b1) (w_bridge (oc_slave (b_dev s')))"
    using box.cmd_ok [OF a assms(2-6), of E job] unfolding posted_def taken_def firmware_def by blast
  have "box_idle work s'" using 1(5,6) a(2) same_box_fields [OF 1(4)] by (simp add: box_idle_def firmware_def replied_def)
  then show ?thesis using 1(1-4) by blast
qed


section \<open>Joining a network\<close>

lemma wifi_line: "cmd_name (wifi_cmd ssid pass) = [0x57, 0x49, 0x46, 0x49]"
  by (simp add: cmd_name_def wifi_cmd_def arg_def upper_def)

lemma wifi_line_args: "wifi_args (wifi_cmd ssid pass)
    = (takeWhile (\<lambda>c. c \<noteq> 9) ssid, if 9 \<in> set ssid then tl (dropWhile (\<lambda>c. c \<noteq> 9) ssid) @ 9 # pass else pass)"
proof (cases "9 \<in> set ssid")
  case True
  then show ?thesis by (auto simp: wifi_args_def wifi_cmd_def takeWhile_append1 dropWhile_append1 tl_append split: list.splits)
next
  case False
  then have "takeWhile (\<lambda>c. c \<noteq> 9) ssid = ssid" "dropWhile (\<lambda>c. c \<noteq> 9) ssid = []" by (auto simp: takeWhile_eq_all_conv)
  then show ?thesis using False
    by (simp add: wifi_args_def wifi_cmd_def takeWhile_append dropWhile_append del: takeWhile_eq_all_conv)
qed

text \<open>
  C23: \<open>brimod_wifi_connect\<close> joins with the name and the password it is given, blanks in both included, and has 0 and the reply with the address,
  or the error of a failed command with the reason. A tab in the name is the exception: the line separates its parts with tabs, so the firmware
  joins with what is before the first tab and takes the rest of the name for the password.\<close>

theorem wifi_connect_joins:
  assumes "box_idle work s" "ssid \<noteq> []" "hd ssid \<noteq> 9" "length ssid \<le> 32" "length pass \<le> 63" "0 \<notin> set (ssid @ pass)"
    "1 \<le> mx" "work div 20000 < 498"
  shows "\<exists>x s'. (let (r, _) = esp_join E (takeWhile (\<lambda>c. c \<noteq> 9) ssid)
                          (if 9 \<in> set ssid then tl (dropWhile (\<lambda>c. c \<noteq> 9) ssid) @ 9 # pass else pass) x
           in brimod_wifi_connect (box_hw E job work) ssid pass mx s
             = (case r of
                  Inr ip \<Rightarrow> Some (0, Some (take (nat (mx - 1)) (take (REPLY_MAX - 1) (txt_OK @ ip))), s')
                | Inl why \<Rightarrow> Some (BRIMOD_EFAIL, Some (take (nat (mx - 1)) (take (REPLY_MAX - 1) (txt_not @ why))), s')))
    \<and> same_box s s' \<and> box_idle work s'"
proof -
  define cmd where "cmd = wifi_cmd ssid pass"
  have l: "cmd \<noteq> []" "length cmd \<le> 120" "take (nat BRIMOD_CMD_MAX) cmd = cmd" using assms(4,5) by (simp_all add: cmd_def wifi_cmd_def BRIMOD_CMD_MAX_def)
  have z: "takeWhile (\<lambda>c. c \<noteq> 0) cmd = cmd" using assms(6) by (auto simp: takeWhile_eq_all_conv cmd_def wifi_cmd_def)
  have t: "(2 * (work div 20000) + 4) * 20 < 20000" "(20000 :: nat) < two32" using assms(8) by simp_all
  obtain b b1 okf s' where 1: "cmd_run E cmd (taken b) = (okf, b1)" "brimod_cmd (box_hw E job work) cmd mx 20000 s
      = Some (if okf then int (length (br_reply b1)) else BRIMOD_EFAIL, Some (take (nat (mx - 1)) (br_reply b1)), s')"
    "same_box s s'" "box_idle work s'"
    using box_cmd [OF assms(1) l(1,2) assms(7) t, of E job] unfolding z by blast
  have h: "takeWhile (\<lambda>c. c \<noteq> 9) ssid \<noteq> []" using assms(2,3) by (cases ssid) simp_all
  obtain r x' where j: "esp_join E (takeWhile (\<lambda>c. c \<noteq> 9) ssid) (if 9 \<in> set ssid then tl (dropWhile (\<lambda>c. c \<noteq> 9) ssid) @ 9 # pass else pass) (br_esp b)
      = (r, x')" by force
  have c: "cmd_run E cmd (taken b) = (case r of Inr ip \<Rightarrow> (True, rep (txt_OK @ ip) ((taken b)\<lparr>br_esp := x'\<rparr>))
      | Inl why \<Rightarrow> (False, rep (txt_not @ why) ((taken b)\<lparr>br_esp := x'\<rparr>)))"
    using h j unfolding cmd_run_def cmd_def wifi_line wifi_line_args Let_def by (simp add: taken_def split: sum.splits)
  have w: "brimod_wifi_connect (box_hw E job work) ssid pass mx s
      = Some (zero_or (if okf then int (length (br_reply b1)) else BRIMOD_EFAIL), Some (take (nat (mx - 1)) (br_reply b1)), s')"
    using assms(2,4,5) 1(2) l(3) unfolding brimod_wifi_connect_def cmd_def [symmetric] by (simp add: BRIMOD_CMD_MAX_def)
  show ?thesis using w c 1(1,3,4) j by (intro exI [of _ "br_esp b"] exI [of _ s']) (auto simp: rep_def taken_def zero_or_def BRIMOD_EFAIL_def split: sum.splits)
qed

section \<open>Scanning\<close>

text \<open>Numbers as the firmware prints them and the driver reads them.\<close>

lemma dec_plain: "\<bar>v\<bar> < 1000 \<Longrightarrow> dec v \<noteq> [] \<and> length (dec v) \<le> 4 \<and> (\<forall>c\<in>set (dec v). \<not> word_end c \<and> c \<noteq> 0)"
proof -
  assume "\<bar>v\<bar> < 1000"
  then have "length (dec v) \<le> 4" using dec_length [of v 2] by simp
  moreover have "\<not> word_end c \<and> c \<noteq> 0" if "c \<in> set (dec v)" for c
    using that dec_chars [of v] by (auto simp: word_end_def isdigit_def)
  ultimately show ?thesis using dec_chars by blast
qed

lemma dec_small: "\<bar>v\<bar> < 1000 \<Longrightarrow> text_int (dec v) = Some v"
  by (rule dec_read) auto

lemma word_of_dec:
  assumes "\<bar>v\<bar> < 1000"
  shows "take_word 8 (dec v @ 0x20 # r) = (dec v, 0x20 # r)" and "take_word 8 (0x20 # dec v @ 0x20 # r) = (dec v, 0x20 # r)"
proof -
  note p = dec_plain [OF assms]
  then obtain c cs where c: "dec v = c # cs" by (cases "dec v") auto
  then have "c \<noteq> 0x20" using p by (auto simp: word_end_def)
  then have s: "skip_blanks (dec v @ 0x20 # r) = dec v @ 0x20 # r" "skip_blanks (0x20 # dec v @ 0x20 # r) = dec v @ 0x20 # r"
    by (simp_all add: skip_blanks_def c)
  have "takeWhile (\<lambda>c. \<not> word_end c) (dec v @ 0x20 # r) = dec v" "dropWhile (\<lambda>c. \<not> word_end c) (dec v @ 0x20 # r) = 0x20 # r"
    using p by (simp_all add: takeWhile_append2 dropWhile_append2 word_end_def)
  then show "take_word 8 (dec v @ 0x20 # r) = (dec v, 0x20 # r)" "take_word 8 (0x20 # dec v @ 0x20 # r) = (dec v, 0x20 # r)"
    unfolding take_word_def s Let_def using p by simp_all
qed

text \<open>What a network is to the radio of the bridge, and the entry of the box for it: its name without the blanks before it.\<close>

definition fine_net :: "int \<times> int \<times> bool \<times> byte list \<Rightarrow> bool" where
  "fine_net = (\<lambda>(rssi, ch, sec, name). \<bar>rssi\<bar> < 1000 \<and> \<bar>ch\<bar> < 1000 \<and> 10 \<notin> set name \<and> 0 \<notin> set name)"

definition net_entry :: "int \<times> int \<times> bool \<times> byte list \<Rightarrow> brimod_net" where
  "net_entry = (\<lambda>(rssi, ch, sec, name). \<lparr>nt_rssi = rssi, nt_channel = ch, nt_secure = (if sec then 1 else 0),
     nt_ssid = take 32 (dropWhile (\<lambda>c. c = 0x20) name)\<rparr>)"

fun listed :: "nat \<Rightarrow> brimod_net list \<Rightarrow> brimod_net list \<Rightarrow> brimod_net list" where
  "listed mx nets [] = nets"
| "listed mx nets (e # es) =
     (if length nets < mx then listed mx (if nt_ssid e \<noteq> [] \<and> \<not> known_net nets e then nets @ [e] else nets) es else nets)"

lemma scan_entry_line:
  assumes "fine_net n"
  shows "\<exists>q. scan_entry (scan_line n @ rest) = Some (net_entry n, q) \<and> next_line q = Some rest"
proof -
  obtain rssi ch sec name where n: "n = (rssi, ch, sec, name)" by (cases n) auto
  define k where "k = (if sec then 1 else 0 :: int)"
  have a: "\<bar>rssi\<bar> < 1000" "\<bar>ch\<bar> < 1000" "\<bar>k\<bar> < 1000" "10 \<notin> set name" using assms by (simp_all add: fine_net_def n k_def)
  define q where "q = name @ 10 # rest"
  have l: "scan_line n @ rest = dec rssi @ 0x20 # dec ch @ 0x20 # dec k @ 0x20 # q" by (simp add: scan_line_def n k_def q_def)
  have w: "take_word 8 (scan_line n @ rest) = (dec rssi, 0x20 # dec ch @ 0x20 # dec k @ 0x20 # q)"
    "take_word 8 (0x20 # dec ch @ 0x20 # dec k @ 0x20 # q) = (dec ch, 0x20 # dec k @ 0x20 # q)"
    "take_word 8 (0x20 # dec k @ 0x20 # q) = (dec k, 0x20 # q)"
    unfolding l by (rule word_of_dec, rule a)+
  have e: "drop_blank (0x20 # q) = q" by (simp add: drop_blank_def)
  have c: "copy_line 33 q = take 32 (dropWhile (\<lambda>c. c = 0x20) name)"
  proof -
    have t: "takeWhile (\<lambda>c. c \<noteq> 10) (dropWhile (\<lambda>c. c = 0x20) (xs @ 10 # rest)) = dropWhile (\<lambda>c. c = 0x20) xs"
      if "10 \<notin> set xs" for xs :: "byte list"
      using that
    proof (induction xs)
      case (Cons x xs)
      then have "takeWhile (\<lambda>c. c \<noteq> 10) (xs @ 10 # rest) = xs" by (subst takeWhile_append2) auto
      then show ?case using Cons by auto
    qed simp
    show ?thesis unfolding copy_line_def skip_blanks_def q_def using t [OF a(4)] by simp
  qed
  have "next_line q = Some rest" unfolding next_line_def q_def using a(4) by (subst dropWhile_append2) auto
  then show ?thesis unfolding scan_entry_def w Let_def fst_conv snd_conv e c
    by (simp add: dec_small [OF a(1)] dec_small [OF a(2)] dec_small [OF a(3)] net_entry_def n k_def [symmetric])
qed

lemma scan_line_not_nil: "scan_line n \<noteq> []"
  by (simp add: scan_line_def split: prod.splits)

lemma scan_lines_listed: "\<forall>n\<in>set ns. fine_net n \<Longrightarrow> scan_lines mx (concat (map scan_line ns)) nets = Some (listed mx nets (map net_entry ns))"
proof (induction ns arbitrary: nets)
  case Nil
  then show ?case by (simp add: scan_lines.simps)
next
  case (Cons n ns)
  obtain q where q: "scan_entry (scan_line n @ concat (map scan_line ns)) = Some (net_entry n, q)" "next_line q = Some (concat (map scan_line ns))"
    using scan_entry_line Cons.prems by (meson list.set_intros(1))
  show ?case using Cons q scan_line_not_nil [of n] by (subst scan_lines.simps) (simp add: Let_def)
qed

lemma fold_scan: "br_reply (b :: 'x bridge) = [] \<Longrightarrow> length (concat (map scan_line ns)) < REPLY_MAX
    \<Longrightarrow> br_reply (fold (\<lambda>n. rep (scan_line n)) ns b) = concat (map scan_line ns)"
proof -
  have "br_reply (fold (\<lambda>n. rep (scan_line n)) ns b) = br_reply b @ concat (map scan_line ns)"
    if "length (br_reply b @ concat (map scan_line ns)) < REPLY_MAX" for b :: "'x bridge"
    using that
  proof (induction ns arbitrary: b)
    case (Cons n ns)
    have "br_reply (rep (scan_line n) b) = br_reply b @ scan_line n"
      using Cons.prems by (simp add: rep_def REPLY_MAX_def)
    then show ?case using Cons by simp
  qed simp
  then show "br_reply b = [] \<Longrightarrow> length (concat (map scan_line ns)) < REPLY_MAX
    \<Longrightarrow> br_reply (fold (\<lambda>n. rep (scan_line n)) ns b) = concat (map scan_line ns)" by simp
qed

lemma scan_no_nul: "\<forall>n\<in>set ns. fine_net n \<Longrightarrow> 0 \<notin> set (concat (map scan_line ns))"
proof -
  assume f: "\<forall>n\<in>set ns. fine_net n"
  have "0 \<notin> set (scan_line n)" if n: "n \<in> set ns" for n
  proof -
    obtain rssi ch sec name where x: "n = (rssi, ch, sec, name)" by (cases n) auto
    then have "\<bar>rssi\<bar> < 1000" "\<bar>ch\<bar> < 1000" "0 \<notin> set name" using f n by (auto simp: fine_net_def)
    then show ?thesis using dec_plain [of rssi] dec_plain [of ch] dec_plain [of 0] dec_plain [of 1] by (auto simp: scan_line_def x)
  qed
  then show ?thesis by auto
qed


section \<open>A box with a bridge\<close>

text \<open>A bus at rest, a bridge that has just started, and a radio that sees two networks, one of them twice, and joins any.\<close>

definition demo_bridge :: "unit bridge" where
  "demo_bridge = \<lparr>regs = replicate 256 0, panel_dirty = False, fm_dirty = False, rds_dirty = False, siprop_dirty = False,
     time_set_pending = False, time_set_value = 0, cmd_pending = False, restart_pending = False, fm_save_ms = 0,
     si_val = map snd si_table, reply_off = 0, cmd_buf = [], br_reply = [], pending_bell = 0, done_count = 0, br_millis = 0, br_esp = ()\<rparr>"

definition demo_box :: "unit wire oc brimod" where
  "demo_box = \<lparr>b_dev = \<lparr>oc_txd = 0, oc_rxd = 0, oc_st = 0, oc_pre = (0, 0), oc_mode = Quiet,
       oc_slave = \<lparr>w_bridge = demo_bridge, w_fifo = [], w_left = 0\<rparr>, oc_us = 5000\<rparr>,
     i2c_last_cmd = 0, i2c_app_pre = 0, i2c_cur_pre = 0, fd650_regs = [], box_sat = False, sdk_brimod = True, brimod_fw = 1, panel_seg = [0, 0, 0, 0], bell = 0, front_press_ms = 0,
     panel_text = [], panel_led_on = 0\<rparr>"

definition demo_esp :: "unit esp" where
  "demo_esp = \<lparr>esp_join = (\<lambda>ssid pass x. (Inr [0x31, 0x2e, 0x31], x)),
     esp_scan = (\<lambda>x. ([(- 50, 6, True, [0x20, 0x61]), (- 60, 11, False, [0x62]), (- 70, 6, True, [0x20, 0x61])], x)),
     esp_tz = (\<lambda>_. 0), esp_ntp = (\<lambda>x. (Inl [], x)), esp_other = (\<lambda>c l x. (False, [], x))\<rparr>"

lemma demo_idle: "box_idle 40000 demo_box"
  by (simp add: box_idle_def box_ok_def calm_bus_def bridge_ok_def firmware_def demo_box_def demo_bridge_def si_table_def REPLY_MAX_def)

theorem rds_roundtrip_witness:
  "\<exists>s1 s2. brimod_rds_set (box_hw demo_esp (\<lambda>us b. []) 40000) 0x12345 (Some [0x41, 0x42, 0x20]) (Some [0x43]) demo_box = (0, s1)
    \<and> brimod_rds_get (box_hw demo_esp (\<lambda>us b. []) 40000) s1 = (0, 0x2345, [0x41, 0x42], [0x43], s2)"
  using rds_roundtrip [OF demo_idle, of demo_esp "\<lambda>us b. []" "0x12345" "[0x41, 0x42, 0x20]" "[0x43]"] by (auto simp: cut_blanks_def)

theorem si_property_back_witness:
  "\<exists>s1 s2. brimod_si_set (box_hw demo_esp (\<lambda>us b. []) 40000) 0x2201 0xffff demo_box = (0, s1)
    \<and> brimod_si_get (box_hw demo_esp (\<lambda>us b. []) 40000) 0x2201 s1 = (BRIMOD_EPROTO, s2)"
proof -
  have "si_index (nat (0x2201 mod 65536)) = Some 8" by (simp add: si_index_def si_table_def upt_rec)
  from si_property_back [OF demo_idle this, of demo_esp "\<lambda>us b. []" "0xffff"] show ?thesis by auto
qed


theorem wifi_connect_joins_witness:
  "\<exists>s'. brimod_wifi_connect (box_hw demo_esp (\<lambda>us b. []) 40000) [0x61, 0x20, 0x62] [0x70] 64 demo_box
    = Some (0, Some [0x4f, 0x4b, 0x20, 0x31, 0x2e, 0x31], s')"
  using wifi_connect_joins [OF demo_idle, of "[0x61, 0x20, 0x62]" "[0x70]" 64 demo_esp "\<lambda>us b. []"]
  by (auto simp: demo_esp_def txt_OK_def REPLY_MAX_def)


end
