(* ===== verification/SdkConfig.thy ===== *)
theory SdkConfig
  imports LibcText
begin

text \<open>
  The settings of an application (\<open>sdk/runtime.c\<close>, \<open>sdk_config_*\<close>): a table of at most 16 keys, kept in a file of exactly 512
  bytes that is overwritten in place. A text is the list of its characters before the NUL; reading and overwriting the file
  are parameters.
\<close>

section \<open>The table\<close>

type_synonym cfg = "(byte list \<times> byte list) list"

definition CFG_MAX :: nat where "CFG_MAX = 16"
definition CFG_SIZE :: nat where "CFG_SIZE = 512"
definition CFG_PATH_MAX :: nat where "CFG_PATH_MAX = 128"

definition bytes_of :: "string \<Rightarrow> byte list" where
  "bytes_of s = map of_char s"

text \<open>A value ends with its line, and after 31 characters.\<close>

definition cfg_value :: "byte list \<Rightarrow> byte list" where
  "cfg_value v = take 31 (takeWhile (\<lambda>c. c \<noteq> 13 \<and> c \<noteq> 10) v)"

fun cfg_put :: "nat \<Rightarrow> byte list \<Rightarrow> byte list \<Rightarrow> cfg \<Rightarrow> cfg" where
  "cfg_put n k v [] = (if n = CFG_MAX then [] else [(take 15 k, cfg_value v)])"
| "cfg_put n k v ((k', v') # c) = (if k' = k then (k', cfg_value v) # c else (k', v') # cfg_put (n + 1) k v c)"

definition sdk_config_set :: "byte list \<Rightarrow> byte list \<Rightarrow> cfg \<Rightarrow> cfg" where
  "sdk_config_set k v c = cfg_put 0 k v c"

definition sdk_config_get :: "byte list \<Rightarrow> byte list option \<Rightarrow> cfg \<Rightarrow> byte list option" where
  "sdk_config_get k d c = (case map_of c k of Some v \<Rightarrow> Some v | None \<Rightarrow> d)"

definition sdk_config_get_int :: "byte list \<Rightarrow> int \<Rightarrow> cfg \<Rightarrow> int option" where
  "sdk_config_get_int k d c = (case sdk_config_get k None c of Some v \<Rightarrow> text_int v | None \<Rightarrow> Some d)"

definition sdk_config_set_int :: "byte list \<Rightarrow> int \<Rightarrow> cfg \<Rightarrow> cfg" where
  "sdk_config_set_int k v c = sdk_config_set k (take 15 (dec v)) c"

section \<open>The file\<close>

definition cfg_path :: "byte list \<Rightarrow> byte list option" where
  "cfg_path dir = (if dir = [] then None else Some (take (CFG_PATH_MAX - 1) (bytes_of ''/'' @ dir @ bytes_of ''/CONFIG.TXT'')))"

definition config_line :: "byte list \<Rightarrow> cfg \<Rightarrow> cfg" where
  "config_line l c =
     (case dropWhile (\<lambda>c. c \<noteq> 0x3d) l of
        [] \<Rightarrow> c
      | _ # v \<Rightarrow> (let k = takeWhile (\<lambda>c. c \<noteq> 0x3d) l in if hd l \<noteq> 0x23 \<and> k \<noteq> [] then sdk_config_set k v c else c))"

function config_lines :: "byte list \<Rightarrow> cfg \<Rightarrow> cfg" where
  "config_lines t c =
     (if t = [] then c
      else (let c' = config_line (takeWhile (\<lambda>c. c \<noteq> 10) t) c
            in case next_line t of None \<Rightarrow> c' | Some t' \<Rightarrow> config_lines t' c'))"
  by pat_completeness auto
termination by (relation "measure (\<lambda>(t, c). length t)") (auto dest: next_line_shorter)

declare config_lines.simps [simp del]

text \<open>\<open>rd\<close> is \<open>sdk_read_file\<close>: the number of bytes, or less than one, and the bytes.\<close>

definition sdk_config_load :: "(byte list \<Rightarrow> nat \<Rightarrow> int \<times> byte list) \<Rightarrow> byte list \<Rightarrow> int \<times> cfg" where
  "sdk_config_load rd dir =
     (case cfg_path dir of
        None \<Rightarrow> (- 1, [])
      | Some p \<Rightarrow> (let (n, b) = rd p CFG_SIZE in if n \<le> 0 then (- 1, []) else (0, config_lines (takeWhile (\<lambda>c. c \<noteq> 0) (take (nat n) b)) [])))"

definition cfg_magic :: "byte list" where
  "cfg_magic = bytes_of ''# NCAPPS app config''"

definition cfg_header :: "byte list" where
  "cfg_header = cfg_magic @ [10] @ bytes_of ''# Written by the app. Keep it exactly 512 bytes (overwritten in place).'' @ [10]"

definition cfg_line :: "byte list \<times> byte list \<Rightarrow> byte list" where
  "cfg_line = (\<lambda>(k, v). k @ [0x3d] @ v @ [10])"

fun save_lines :: "byte list \<Rightarrow> cfg \<Rightarrow> byte list option" where
  "save_lines b [] = Some b"
| "save_lines b (e # c) = (let b' = b @ cfg_line e in if length b' \<ge> CFG_SIZE - 1 then None else save_lines b' c)"

text \<open>The bytes of the file; \<open>None\<close> is the error for too much text.\<close>

definition config_text :: "cfg \<Rightarrow> byte list option" where
  "config_text c = map_option (\<lambda>b. b @ replicate (CFG_SIZE - 1 - length b) 0x23 @ [10]) (save_lines cfg_header c)"

definition sdk_config_save :: "(byte list \<Rightarrow> byte list \<Rightarrow> byte list \<Rightarrow> 's \<Rightarrow> int \<times> 's) \<Rightarrow> byte list \<Rightarrow> cfg \<Rightarrow> 's \<Rightarrow> int \<times> 's" where
  "sdk_config_save ow dir c s =
     (case cfg_path dir of
        None \<Rightarrow> (- 1, s)
      | Some p \<Rightarrow> (case config_text c of None \<Rightarrow> (- 1, s) | Some b \<Rightarrow> ow p b cfg_magic s))"

section \<open>The table as a map\<close>

text \<open>The tables that the operations keep: no key twice, and the sizes of the arrays.\<close>

definition cfg_ok :: "cfg \<Rightarrow> bool" where
  "cfg_ok c = (distinct (map fst c) \<and> length c \<le> CFG_MAX \<and> (\<forall>(k, v)\<in>set c. length k \<le> 15 \<and> cfg_value v = v))"

lemma cfg_value_plain: "length (cfg_value v) \<le> 31 \<and> (\<forall>c\<in>set (cfg_value v). c \<noteq> 13 \<and> c \<noteq> 10)"
  by (auto simp: cfg_value_def dest!: in_set_takeD set_takeWhileD)

lemma cfg_value_same: "length t \<le> 31 \<Longrightarrow> \<forall>c\<in>set t. c \<noteq> 13 \<and> c \<noteq> 10 \<Longrightarrow> cfg_value t = t"
proof -
  assume t: "length t \<le> 31" "\<forall>c\<in>set t. c \<noteq> 13 \<and> c \<noteq> 10"
  have "takeWhile (\<lambda>c. c \<noteq> 13 \<and> c \<noteq> 10) t = t" using t(2) by (rule takeWhile_eq_all_conv [THEN iffD2])
  then show ?thesis unfolding cfg_value_def using t(1) by (simp only: take_all)
qed

lemma cfg_value_id [simp]: "cfg_value (cfg_value v) = cfg_value v"
  using cfg_value_plain by (intro cfg_value_same) blast+

lemma cfg_put_keys: "length k \<le> 15 \<Longrightarrow> n + length c \<le> CFG_MAX
    \<Longrightarrow> map fst (cfg_put n k v c) = (if k \<in> fst ` set c \<or> n + length c = CFG_MAX then map fst c else map fst c @ [k])"
  by (induction n k v c rule: cfg_put.induct) auto

lemma cfg_put_map: "length k \<le> 15
    \<Longrightarrow> map_of (cfg_put n k v c) = (if k \<in> fst ` set c \<or> n + length c \<noteq> CFG_MAX then (map_of c)(k \<mapsto> cfg_value v) else map_of c)"
  by (induction n k v c rule: cfg_put.induct) (auto simp: fun_eq_iff)

lemma cfg_put_ok: "\<forall>(k, v)\<in>set c. length k \<le> 15 \<and> cfg_value v = v \<Longrightarrow> \<forall>(k, v)\<in>set (cfg_put n k v c). length k \<le> 15 \<and> cfg_value v = v"
  by (induction n k v c rule: cfg_put.induct) auto


lemma config_set_map:
  assumes "cfg_ok c" "length k \<le> 15"
  shows "cfg_ok (sdk_config_set k v c)
    \<and> map_of (sdk_config_set k v c) = (if k \<in> dom (map_of c) \<or> length c < CFG_MAX then (map_of c)(k \<mapsto> cfg_value v) else map_of c)
    \<and> map fst (sdk_config_set k v c) = (if k \<in> dom (map_of c) \<or> length c = CFG_MAX then map fst c else map fst c @ [k])"
proof -
  have l: "length c \<le> CFG_MAX" "distinct (map fst c)" "\<forall>(k, v)\<in>set c. length k \<le> 15 \<and> cfg_value v = v" using assms(1) by (auto simp: cfg_ok_def)
  have m: "map fst (cfg_put 0 k v c) = (if k \<in> fst ` set c \<or> length c = CFG_MAX then map fst c else map fst c @ [k])"
    using cfg_put_keys [OF assms(2), of 0 c v] l(1) by simp
  have "length (cfg_put 0 k v c) = length (map fst (cfg_put 0 k v c))" by simp
  then have n: "length (cfg_put 0 k v c) \<le> CFG_MAX" using l(1) unfolding m by (auto split: if_splits)
  have "distinct (map fst (cfg_put 0 k v c))" unfolding m using l(2) by auto
  then have "cfg_ok (cfg_put 0 k v c)" using n cfg_put_ok [OF l(3), of 0 k v] by (simp add: cfg_ok_def)
  then show ?thesis using m cfg_put_map [OF assms(2), of 0 v c] l(1)
    by (auto simp: sdk_config_set_def dom_map_of_conv_image_fst)
qed

section \<open>The file as a table\<close>

text \<open>Entries that a line can hold.\<close>

definition line_entry :: "byte list \<times> byte list \<Rightarrow> bool" where
  "line_entry = (\<lambda>(k, v). k \<noteq> [] \<and> hd k \<noteq> 0x23 \<and> 0x3d \<notin> set k \<and> 10 \<notin> set k \<and> 0 \<notin> set (k @ v))"

lemma cfg_line_read:
  assumes "line_entry (k, v)" "cfg_value v = v"
  shows "config_lines (cfg_line (k, v) @ t) c = config_lines t (sdk_config_set k v c)"
proof -
  have e: "10 \<notin> set v" using cfg_value_plain [of v] assms(2) by auto
  have k: "k \<noteq> []" "hd k \<noteq> 0x23" "0x3d \<notin> set k" "10 \<notin> set k" using assms(1) by (simp_all add: line_entry_def)
  define l where "l = k @ 0x3d # v"
  have s: "cfg_line (k, v) @ t = l @ 10 # t" by (simp add: cfg_line_def l_def)
  have l: "10 \<notin> set l" using k(4) e by (simp add: l_def)
  have w: "takeWhile (\<lambda>c. c \<noteq> 10) (l @ 10 # t) = l" "dropWhile (\<lambda>c. c \<noteq> 10) (l @ 10 # t) = 10 # t"
    using l by (auto simp: takeWhile_append dropWhile_append)
  have q: "takeWhile (\<lambda>c. c \<noteq> 0x3d) l = k" "dropWhile (\<lambda>c. c \<noteq> 0x3d) l = 0x3d # v"
    using k(3) unfolding l_def by (auto simp: takeWhile_append dropWhile_append)
  have "config_line l c = sdk_config_set k v c" unfolding config_line_def q using k(1,2) by (simp add: l_def)
  then show ?thesis unfolding s by (subst config_lines.simps) (simp add: w next_line_def)
qed

lemma comment_read: "10 \<notin> set l \<Longrightarrow> config_lines (0x23 # l @ 10 # t) c = config_lines t c"
proof -
  assume l: "10 \<notin> set l"
  have w: "takeWhile (\<lambda>c. c \<noteq> 10) (0x23 # l @ 10 # t) = 0x23 # l" "dropWhile (\<lambda>c. c \<noteq> 10) (0x23 # l @ 10 # t) = 10 # t"
    using l by (auto simp: takeWhile_append dropWhile_append)
  have "config_line (0x23 # l) c = c" by (auto simp: config_line_def Let_def split: list.splits)
  then show ?thesis by (subst config_lines.simps) (simp only: w next_line_def list.case option.case Let_def, simp)
qed

lemma save_lines_text: "save_lines b c = Some b' \<Longrightarrow> length b < CFG_SIZE - 1 \<Longrightarrow> b' = b @ concat (map cfg_line c) \<and> length b' < CFG_SIZE - 1"
  by (induction b c rule: save_lines.induct) (auto simp: Let_def split: if_splits)

lemma config_lines_entries:
  "\<forall>e\<in>set c. line_entry e \<and> cfg_value (snd e) = snd e \<Longrightarrow> config_lines (concat (map cfg_line c) @ t) d = config_lines t (fold (\<lambda>(k, v). sdk_config_set k v) c d)"
proof (induction c arbitrary: d)
  case (Cons e c)
  obtain k v where e: "e = (k, v)" by force
  show ?case using Cons cfg_line_read [of k v "concat (map cfg_line c) @ t" d] by (simp add: e)
qed simp

lemma cfg_put_new: "k \<notin> fst ` set d \<Longrightarrow> n + length d < CFG_MAX \<Longrightarrow> cfg_put n k v d = d @ [(take 15 k, cfg_value v)]"
  by (induction n k v d rule: cfg_put.induct) auto

lemma fold_set: "cfg_ok (d @ c) \<Longrightarrow> fold (\<lambda>(k, v). sdk_config_set k v) c d = d @ c"
proof (induction c arbitrary: d)
  case (Cons e c)
  obtain k v where e: "e = (k, v)" by force
  have "cfg_put 0 k v d = d @ [(k, v)]"
    using Cons.prems cfg_put_new [of k d 0 v] by (auto simp: cfg_ok_def e image_iff)
  then show ?case using Cons by (simp add: e sdk_config_set_def)
qed simp

section \<open>Properties\<close>

text \<open>The table is a map from keys to values with room for 16 keys: setting a key of at most 15 characters changes that key alone, to the value up to its first
  line end and its 31st character; a key that is new to a full table changes nothing. The sizes of the arrays and the distinctness of the keys are kept.\<close>

theorem sdk_config_table:
  assumes "cfg_ok c" "length k \<le> 15"
  shows "cfg_ok (sdk_config_set k v c)
    \<and> (\<forall>q d. sdk_config_get q d (sdk_config_set k v c)
         = (if q = k \<and> (k \<in> dom (map_of c) \<or> length c < CFG_MAX) then Some (cfg_value v) else sdk_config_get q d c))"
  using config_set_map [OF assms, of v] by (auto simp: sdk_config_get_def)

theorem sdk_config_table_witness:
  "sdk_config_get [0x61] None (sdk_config_set [0x61] [0x31, 10, 0x32] [([0x62], [0x33])]) = Some [0x31]"
proof -
  have c: "cfg_ok [([0x62], [0x33])]" "length [0x61 :: byte] \<le> 15" by (simp_all add: cfg_ok_def CFG_MAX_def cfg_value_def)
  show ?thesis using sdk_config_table [OF c, of "[0x31, 10, 0x32]"] by (simp add: CFG_MAX_def cfg_value_def)
qed

lemma dec_value: "- 0x80000000 \<le> v \<Longrightarrow> v < 0x80000000 \<Longrightarrow> cfg_value (take 15 (dec v)) = dec v"
proof -
  assume "- 0x80000000 \<le> v" "v < 0x80000000"
  then have "length (dec v) \<le> 11" using dec_length [of v 9] by simp
  moreover have "\<forall>c\<in>set (dec v). c \<noteq> 13 \<and> c \<noteq> 10" using dec_chars [of v] by (auto simp: isdigit_def)
  ultimately show ?thesis using cfg_value_same [of "dec v"] by simp
qed

text \<open>Numbers in the table: for every 32-bit number and a key of at most 15 characters that the table has or has room for,
  \<open>sdk_config_get_int\<close> gives what \<open>sdk_config_set_int\<close> has set.\<close>

theorem sdk_config_int:
  assumes "cfg_ok c" "length k \<le> 15" "k \<in> dom (map_of c) \<or> length c < CFG_MAX" "- 0x80000000 \<le> v" "v < 0x80000000"
  shows "sdk_config_get_int k d (sdk_config_set_int k v c) = Some v"
  using config_set_map [OF assms(1,2), of "take 15 (dec v)"] assms(3) dec_value [OF assms(4,5)] dec_read [OF assms(4,5)]
  by (auto simp: sdk_config_get_int_def sdk_config_set_int_def sdk_config_get_def)

theorem sdk_config_int_witness:
  "sdk_config_get_int [0x76] 7 (sdk_config_set_int [0x76] (- 2147483648) []) = Some (- 2147483648)"
  by (rule sdk_config_int) (simp_all add: cfg_ok_def CFG_MAX_def)

lemma save_lines_fits: "save_lines b c = (if c = [] \<or> length (b @ concat (map cfg_line c)) < CFG_SIZE - 1 then Some (b @ concat (map cfg_line c)) else None)"
  by (induction b c rule: save_lines.induct) (auto simp: Let_def)

lemma cfg_header_form: "\<exists>l m. cfg_header = 0x23 # l @ [10] @ 0x23 # m @ [10] \<and> 10 \<notin> set l \<and> 10 \<notin> set m \<and> 0 \<notin> set cfg_header \<and> length cfg_header < 511"
  by (intro exI [of _ "bytes_of '' NCAPPS app config''"]
      exI [of _ "bytes_of '' Written by the app. Keep it exactly 512 bytes (overwritten in place).''"])
    (simp add: cfg_header_def cfg_magic_def bytes_of_def)

lemma padding_read: "config_lines (replicate n 0x23 @ [10]) c = c"
proof (cases n)
  case 0
  then show ?thesis by (simp add: config_lines.simps next_line_def config_line_def)
next
  case (Suc m)
  then show ?thesis using comment_read [of "replicate m 0x23" "[]" c] by (simp add: config_lines.simps [of "[]"])
qed

text \<open>The bytes of a file that fits.\<close>

definition cfg_bytes :: "cfg \<Rightarrow> byte list" where
  "cfg_bytes c = (let b = cfg_header @ concat (map cfg_line c) in b @ replicate (CFG_SIZE - 1 - length b) 0x23 @ [10])"

lemma cfg_bytes_read:
  assumes "cfg_ok c" "\<forall>e\<in>set c. line_entry e"
  shows "config_lines (takeWhile (\<lambda>c. c \<noteq> 0) (cfg_bytes c)) [] = c"
proof -
  obtain l m where h: "cfg_header = 0x23 # l @ [10] @ 0x23 # m @ [10]" "10 \<notin> set l" "10 \<notin> set m" "0 \<notin> set cfg_header" using cfg_header_form by blast
  have v: "\<forall>e\<in>set c. line_entry e \<and> cfg_value (snd e) = snd e" using assms by (auto simp: cfg_ok_def)
  have "0 \<notin> set (cfg_line e)" if "e \<in> set c" for e using assms(2) that by (cases e) (auto simp: line_entry_def cfg_line_def)
  then have "\<forall>x\<in>set (cfg_bytes c). x \<noteq> 0" using h(4) by (auto simp: cfg_bytes_def Let_def)
  then have z: "takeWhile (\<lambda>c. c \<noteq> 0) (cfg_bytes c) = cfg_bytes c" by (rule takeWhile_eq_all_conv [THEN iffD2])
  define n where "n = CFG_SIZE - 1 - length (cfg_header @ concat (map cfg_line c))"
  have "cfg_bytes c = 0x23 # l @ 10 # 0x23 # m @ 10 # (concat (map cfg_line c) @ replicate n 0x23 @ [10])"
    unfolding cfg_bytes_def Let_def n_def h(1) by simp
  then have "config_lines (cfg_bytes c) [] = config_lines (concat (map cfg_line c) @ replicate n 0x23 @ [10]) []"
    by (simp add: comment_read [OF h(2)] comment_read [OF h(3)])
  also have "\<dots> = fold (\<lambda>(k, v). sdk_config_set k v) c []" unfolding config_lines_entries [OF v] by (rule padding_read)
  also have "\<dots> = c" using fold_set [of "[]" c] assms(1) by simp
  finally show ?thesis unfolding z .
qed

lemma cfg_bytes_shape:
  "length (cfg_header @ concat (map cfg_line c)) < CFG_SIZE - 1 \<Longrightarrow> length (cfg_bytes c) = CFG_SIZE \<and> take (length cfg_magic) (cfg_bytes c) = cfg_magic"
  by (simp add: cfg_bytes_def Let_def CFG_SIZE_def cfg_header_def)



end
