(* ===== verification/SdkStorage.thy ===== *)
theory SdkStorage
  imports FatDir LibcText "HOL-Library.Monad_Syntax"
begin

text \<open>
  Files for applications (\<open>sdk/runtime.c\<close>): mounting when it is needed, a stick that is pulled out and put back while programs
  run, and the handles of streamed files and folders, over \<open>usbfat.h\<close>. \<open>None\<close> is an access of \<open>usbfat.h\<close> outside its buffers,
  or the screen \<open>USB stick removed\<close>, which only a restart of the box leaves.
\<close>

section \<open>State\<close>

text \<open>The system that runs the application, if there is one: \<open>storage_gen\<close> and \<open>storage_present\<close>; the box's clock, U-Boot's USB
  restart, and what the stack holds where a directory entry is declared.\<close>

record 'w sdk_env =
  se_usb :: "'w usb_env"
  se_build :: bool
  se_dev :: "stick_desc option"
  se_bot_init :: "'w usb \<Rightarrow> 'w usb"
  se_restart :: "'w \<Rightarrow> bool \<times> 'w"
  se_timer :: "'w \<Rightarrow> nat"
  se_sys :: "(('w \<Rightarrow> nat) \<times> ('w \<Rightarrow> bool)) option"
  se_hotplug :: bool
  se_ent :: udirent
  se_fuel :: nat

record 'w storage =
  fs :: "'w ufs"
  mounted :: bool
  mounted_gen :: nat
  storage_gen :: nat
  stick_ok :: int
  since :: nat
  streams :: "ufile list"
  stream_used :: "bool list"
  stream_gen :: "nat list"
  dirs :: "udir list"
  dir_used :: "bool list"
  dir_gen :: "nat list"
  sdk_app_dir :: "byte list"

definition SDK_PATH_MAX :: nat where "SDK_PATH_MAX = 128"
definition MAX_STREAMS :: nat where "MAX_STREAMS = 3"
definition MAX_DIRS :: nat where "MAX_DIRS = 4"

definition disk_world :: "'w storage \<Rightarrow> 'w" where
  "disk_world s = world (usb (fs s))"

definition ufs_lost :: "'w storage \<Rightarrow> bool" where
  "ufs_lost s = usb_lost (usb (fs s))"

definition set_lost :: "bool \<Rightarrow> 'w storage \<Rightarrow> 'w storage" where
  "set_lost b s = s\<lparr>fs := (fs s)\<lparr>usb := (usb (fs s))\<lparr>usb_lost := b\<rparr>\<rparr>\<rparr>"

definition soft_lost :: "'w sdk_env \<Rightarrow> bool" where
  "soft_lost E = (se_sys E \<noteq> None \<or> se_hotplug E)"

definition lost_check :: "'w sdk_env \<Rightarrow> 'w storage \<Rightarrow> 'w storage option" where
  "lost_check E s = (if ufs_lost s then (if soft_lost E then Some (s\<lparr>mounted := False\<rparr>) else None) else Some s)"

definition sdk_storage_gen :: "'w sdk_env \<Rightarrow> 'w storage \<Rightarrow> nat" where
  "sdk_storage_gen E s = (case se_sys E of Some (g, p) \<Rightarrow> g (disk_world s) | None \<Rightarrow> storage_gen s)"

definition sdk_storage_present :: "'w sdk_env \<Rightarrow> 'w storage \<Rightarrow> bool" where
  "sdk_storage_present E s = (case se_sys E of Some (g, p) \<Rightarrow> p (disk_world s) | None \<Rightarrow> \<not> se_hotplug E \<or> stick_ok s \<noteq> 0)"

section \<open>Mounting\<close>

definition env_mount :: "'w sdk_env \<Rightarrow> 'w ufs \<Rightarrow> (mount_error + unit) \<times> 'w ufs" where
  "env_mount E f = ufs_mount (se_usb E) (se_build E) (se_dev E) (se_bot_init E) f"

text \<open>Another stick, or the same one put back.\<close>

definition note_change :: "'w sdk_env \<Rightarrow> 'w storage \<Rightarrow> 'w storage" where
  "note_change E s = (if soft_lost E \<and> mounted s \<and> mounted_gen s \<noteq> sdk_storage_gen E s then s\<lparr>mounted := False\<rparr> else s)"

definition forget_disk :: "'w storage \<Rightarrow> 'w storage" where
  "forget_disk s = (set_lost False s)\<lparr>fs := (fs (set_lost False s))\<lparr>fat_cached := 0xffffffff\<rparr>\<rparr>"

definition mount_now :: "'w sdk_env \<Rightarrow> 'w storage \<Rightarrow> (bool \<times> 'w storage) option" where
  "mount_now E s =
     (case env_mount E (fs s) of
        (Inl _, f) \<Rightarrow> do { s1 \<leftarrow> lost_check E (s\<lparr>fs := f\<rparr>); Some (False, s1) }
      | (Inr _, f) \<Rightarrow> (let s1 = s\<lparr>fs := f, mounted := True\<rparr> in Some (True, s1\<lparr>mounted_gen := sdk_storage_gen E s1\<rparr>)))"

definition mount :: "'w sdk_env \<Rightarrow> 'w storage \<Rightarrow> (bool \<times> 'w storage) option" where
  "mount E s0 =
     (let s = note_change E s0
      in if soft_lost E
         then (if mounted s then Some (True, s)
               else if \<not> sdk_storage_present E s then Some (False, s)
               else mount_now E (forget_disk s))
         else do {
           s1 \<leftarrow> lost_check E s;
           (if mounted s1 then Some (True, s1) else mount_now E s1)
         })"

section \<open>The stick goes and comes back\<close>

definition sdk_storage_poll :: "'w sdk_env \<Rightarrow> 'w storage \<Rightarrow> int \<times> 'w storage" where
  "sdk_storage_poll E s0 =
     (let (now, u) = check_present (se_usb E) (usb (fs s0));
          s1 = s0\<lparr>fs := (fs s0)\<lparr>usb := u\<rparr>\<rparr>;
          s = (if stick_ok s1 < 0 then s1\<lparr>stick_ok := (if now \<and> mounted s1 \<and> \<not> ufs_lost s1 then 1 else 0)\<rparr> else s1)
      in if stick_ok s \<noteq> 0 \<and> (\<not> now \<or> ufs_lost s)
         then (1, (set_lost True s)\<lparr>mounted := False, stick_ok := 0, storage_gen := add32 (storage_gen s) 1, since := 0\<rparr>)
         else if stick_ok s \<noteq> 0 \<or> \<not> now then (0, s\<lparr>since := 0\<rparr>)
         else if since s = 0 then (0, s\<lparr>since := se_timer E (disk_world s) OR 1\<rparr>)
         else if sub32 (se_timer E (disk_world s)) (since s) < 800 then (0, s)
         else (let (r, f) = ufs_remount (se_usb E) (se_build E) (se_restart E) (env_mount E) (fs s); s2 = s\<lparr>fs := f\<rparr>
               in if r then (let g = add32 (storage_gen s2) 1
                             in (1, s2\<lparr>mounted := True, storage_gen := g, mounted_gen := g, stick_ok := 1, since := 0\<rparr>))
                  else (0, s2\<lparr>since := se_timer E (disk_world s2) OR 1\<rparr>)))"

section \<open>Files\<close>

definition copy_arg :: "byte list \<Rightarrow> byte list" where
  "copy_arg t = take (SDK_PATH_MAX - 1) t"

text \<open>A path is the list of its characters: \<open>path[0]\<close> of the empty one is its NUL.\<close>

definition sdk_resolve :: "byte list \<Rightarrow> byte list \<Rightarrow> byte list" where
  "sdk_resolve app path =
     (if path \<noteq> [] \<and> hd path = 0x2f then copy_arg (tl path)
      else if app = [] then copy_arg path
      else take (SDK_PATH_MAX - 1) (app @ 0x2f # path))"

definition open_full :: "'w sdk_env \<Rightarrow> ufile \<Rightarrow> byte list \<Rightarrow> 'w storage \<Rightarrow> (bool \<times> ufile \<times> 'w storage) option" where
  "open_full E f path s = do {
     (ok, f1, u) \<leftarrow> ufs_open (se_usb E) (se_fuel E) f (sdk_resolve (sdk_app_dir s) path) (se_ent E) (fs s);
     Some (ok, f1, s\<lparr>fs := u\<rparr>)
   }"

definition read_at :: "'w sdk_env \<Rightarrow> ufile \<Rightarrow> nat \<Rightarrow> 'w storage \<Rightarrow> (byte list \<times> ufile \<times> 'w storage) option" where
  "read_at E f n s = do { (b, f1, u) \<leftarrow> ufs_read (se_usb E) f n (fs s); Some (b, f1, s\<lparr>fs := u\<rparr>) }"

definition sdk_file_size :: "'w sdk_env \<Rightarrow> ufile \<Rightarrow> byte list \<Rightarrow> 'w storage \<Rightarrow> (int \<times> ufile \<times> 'w storage) option" where
  "sdk_file_size E f path s = do {
     (m, s1) \<leftarrow> mount E s;
     if \<not> m then Some (- 1, f, s1)
     else do {
       (ok, f1, s2) \<leftarrow> open_full E f path s1;
       if \<not> ok then do { s3 \<leftarrow> lost_check E s2; Some (- 1, f1, s3) }
       else Some (int (f_size f1), f1, s2)
     }
   }"

text \<open>The loop of \<open>sdk_read_file\<close>, in pieces of 256 KB; no bytes end it with an error.\<close>

fun read_pieces :: "'w sdk_env \<Rightarrow> nat \<Rightarrow> nat \<Rightarrow> byte list \<Rightarrow> ufile \<Rightarrow> 'w storage \<Rightarrow> (bool \<times> byte list \<times> ufile \<times> 'w storage) option" where
  "read_pieces E fuel tot out f s =
     (if length out < tot then
        (case fuel of
           0 \<Rightarrow> None
         | Suc fuel' \<Rightarrow> do {
             (b, f1, s1) \<leftarrow> read_at E f (if tot - length out < 262144 then tot - length out else 262144) s;
             if b = [] then do { s2 \<leftarrow> lost_check E s1; Some (False, out, f1, s2) }
             else read_pieces E fuel' tot (out @ b) f1 s1
           })
      else Some (True, out, f, s))"

declare read_pieces.simps [simp del]

definition sdk_read_file :: "'w sdk_env \<Rightarrow> ufile \<Rightarrow> byte list \<Rightarrow> nat \<Rightarrow> 'w storage \<Rightarrow> (int \<times> byte list \<times> ufile \<times> 'w storage) option" where
  "sdk_read_file E f path mx s = do {
     (m, s1) \<leftarrow> mount E s;
     if \<not> m then Some (- 1, [], f, s1)
     else do {
       (ok, f1, s2) \<leftarrow> open_full E f path s1;
       if \<not> ok then Some (- 1, [], f1, s2)
       else do {
         let tot = (if f_size f1 < mx then f_size f1 else mx);
         (r, b, f2, s3) \<leftarrow> read_pieces E tot tot [] f1 s2;
         Some (if r then int (length b) else - 1, b, f2, s3)
       }
     }
   }"

definition sdk_raw_read :: "'w sdk_env \<Rightarrow> nat \<Rightarrow> nat \<Rightarrow> 'w storage \<Rightarrow> (bool \<times> byte list \<times> 'w storage) option" where
  "sdk_raw_read E start n s = do {
     (m, s1) \<leftarrow> mount E s;
     if \<not> m then Some (False, [], s1)
     else do {
       let (ok, b, u) = ufs_sectors (se_usb E) start n (usb (fs s1));
       s2 \<leftarrow> lost_check E (s1\<lparr>fs := (fs s1)\<lparr>usb := u\<rparr>\<rparr>);
       Some (ok, b, s2)
     }
   }"

definition sdk_raw_write :: "'w sdk_env \<Rightarrow> nat \<Rightarrow> byte list \<Rightarrow> 'w storage \<Rightarrow> (bool \<times> 'w storage) option" where
  "sdk_raw_write E sec b s = do {
     (m, s1) \<leftarrow> mount E s;
     if \<not> m then Some (False, s1)
     else do {
       let (ok, u) = ufs_write_sector (se_usb E) sec b (usb (fs s1));
       s2 \<leftarrow> lost_check E (s1\<lparr>fs := (fs s1)\<lparr>usb := u\<rparr>\<rparr>);
       Some (ok, s2)
     }
   }"

definition sdk_overwrite_sector_file :: "'w sdk_env \<Rightarrow> byte list \<Rightarrow> byte list \<Rightarrow> byte list \<Rightarrow> 'w storage \<Rightarrow> (int \<times> 'w storage) option" where
  "sdk_overwrite_sector_file E path data magic s = do {
     (m, s1) \<leftarrow> mount E s;
     if \<not> m then Some (- 1, s1)
     else do {
       (r, u) \<leftarrow> ufs_overwrite (se_usb E) (se_fuel E) (sdk_resolve (sdk_app_dir s1) path) data magic (se_ent E) (fs s1);
       s2 \<leftarrow> lost_check E (s1\<lparr>fs := u\<rparr>);
       Some (case r of Inr _ \<Rightarrow> 0 | Inl _ \<Rightarrow> - 1, s2)
     }
   }"

section \<open>Handles\<close>

text \<open>The first free place.\<close>

fun free_slot :: "bool list \<Rightarrow> nat option" where
  "free_slot [] = None"
| "free_slot (u # us) = (if u then map_option Suc (free_slot us) else Some 0)"

definition sdk_open :: "'w sdk_env \<Rightarrow> byte list \<Rightarrow> 'w storage \<Rightarrow> (int \<times> 'w storage) option" where
  "sdk_open E path s = do {
     (m, s1) \<leftarrow> mount E s;
     if \<not> m then Some (- 1, s1)
     else (case free_slot (stream_used s1) of
             None \<Rightarrow> Some (- 1, s1)
           | Some h \<Rightarrow> do {
               (ok, f, s2) \<leftarrow> open_full E (streams s1 ! h) path s1;
               if \<not> ok then do { s3 \<leftarrow> lost_check E s2; Some (- 1, s3) }
               else Some (int h, s2\<lparr>streams := (streams s2)[h := f], stream_used := (stream_used s2)[h := True],
                   stream_gen := (stream_gen s2)[h := mounted_gen s2]\<rparr>)
             })
   }"

definition open_stream :: "int \<Rightarrow> 'w storage \<Rightarrow> bool" where
  "open_stream h s = (0 \<le> h \<and> h < int MAX_STREAMS \<and> stream_used s ! nat h)"

definition sdk_read :: "'w sdk_env \<Rightarrow> int \<Rightarrow> int \<Rightarrow> 'w storage \<Rightarrow> (byte list \<times> 'w storage) option" where
  "sdk_read E h len s =
     (if \<not> open_stream h s \<or> len \<le> 0 then Some ([], s)
      else do {
        (m, s1) \<leftarrow> mount E s;
        if \<not> m \<or> stream_gen s1 ! nat h \<noteq> mounted_gen s1 then Some ([], s1)
        else do {
          (b, f, s2) \<leftarrow> read_at E (streams s1 ! nat h) (nat len) s1;
          s3 \<leftarrow> lost_check E (s2\<lparr>streams := (streams s2)[nat h := f]\<rparr>);
          Some (b, s3)
        }
      })"

definition sdk_seek :: "int \<Rightarrow> nat \<Rightarrow> 'w storage \<Rightarrow> 'w storage" where
  "sdk_seek h pos s = (if open_stream h s then s\<lparr>streams := (streams s)[nat h := ufs_seek (streams s ! nat h) pos]\<rparr> else s)"

definition sdk_tell :: "int \<Rightarrow> 'w storage \<Rightarrow> nat" where
  "sdk_tell h s = (if open_stream h s then f_pos (streams s ! nat h) else 0)"

definition sdk_size :: "int \<Rightarrow> 'w storage \<Rightarrow> nat" where
  "sdk_size h s = (if open_stream h s then f_size (streams s ! nat h) else 0)"

definition sdk_close :: "int \<Rightarrow> 'w storage \<Rightarrow> 'w storage" where
  "sdk_close h s = (if 0 \<le> h \<and> h < int MAX_STREAMS then s\<lparr>stream_used := (stream_used s)[nat h := False]\<rparr> else s)"

definition sdk_dir_open :: "'w sdk_env \<Rightarrow> byte list \<Rightarrow> 'w storage \<Rightarrow> (int \<times> 'w storage) option" where
  "sdk_dir_open E path s = do {
     (m, s1) \<leftarrow> mount E s;
     if \<not> m then Some (- 1, s1)
     else (case free_slot (dir_used s1) of
             None \<Rightarrow> Some (- 1, s1)
           | Some h \<Rightarrow> do {
               (r, u) \<leftarrow> ufs_opendir (se_usb E) (se_fuel E) (sdk_resolve (sdk_app_dir s1) path) (se_ent E) (fs s1);
               let s2 = s1\<lparr>fs := u\<rparr>;
               (case r of
                  None \<Rightarrow> do { s3 \<leftarrow> lost_check E s2; Some (- 1, s3) }
                | Some d \<Rightarrow> Some (int h, s2\<lparr>dirs := (dirs s2)[h := d], dir_used := (dir_used s2)[h := True],
                    dir_gen := (dir_gen s2)[h := mounted_gen s2]\<rparr>))
             })
   }"

text \<open>The entry for the caller: name, folder, size.\<close>

definition sdk_dir_read :: "'w sdk_env \<Rightarrow> int \<Rightarrow> 'w storage \<Rightarrow> ((byte list \<times> bool \<times> nat) option \<times> 'w storage) option" where
  "sdk_dir_read E h s =
     (if h < 0 \<or> h \<ge> int MAX_DIRS \<or> \<not> dir_used s ! nat h then do { s1 \<leftarrow> lost_check E s; Some (None, s1) }
      else do {
        (m, s1) \<leftarrow> mount E s;
        if \<not> m \<or> dir_gen s1 ! nat h \<noteq> mounted_gen s1 then do { s2 \<leftarrow> lost_check E s1; Some (None, s2) }
        else do {
          (ok, d, e, u) \<leftarrow> ufs_readdir (se_usb E) (se_fuel E) (dirs s1 ! nat h) (se_ent E) (fs s1);
          let s2 = s1\<lparr>fs := u, dirs := (dirs s1)[nat h := d]\<rparr>;
          if \<not> ok then do { s3 \<leftarrow> lost_check E s2; Some (None, s3) }
          else Some (Some (copy_arg (takeWhile (\<lambda>c. c \<noteq> 0) (e_name e)), e_is_dir e, e_size e), s2)
        }
      })"

definition sdk_dir_close :: "int \<Rightarrow> 'w storage \<Rightarrow> 'w storage" where
  "sdk_dir_close h s = (if 0 \<le> h \<and> h < int MAX_DIRS then s\<lparr>dir_used := (dir_used s)[nat h := False]\<rparr> else s)"

end
