(* ===== verification/SdkFiles.thy ===== *)
theory SdkFiles
  imports SdkStorage FatProps
begin

text \<open>
  What programs rely on when they have files open: the bytes of a file come through a handle, and a handle never reads from
  another stick than the one it was opened on.
\<close>

section \<open>Operations in any order\<close>

datatype sdk_op =
  Op_poll | Op_open "byte list" | Op_read int int | Op_seek int nat | Op_close int | Op_size "byte list" | Op_file "byte list" nat
  | Op_overwrite "byte list" "byte list" "byte list" | Op_raw_read nat nat | Op_raw_write nat "byte list"
  | Op_dir_open "byte list" | Op_dir_read int | Op_dir_close int

text \<open>\<open>f\<close> is the static file that \<open>sdk_read_file\<close> and \<open>sdk_file_size\<close> open.\<close>

definition sdk_step :: "'w sdk_env \<Rightarrow> ufile \<Rightarrow> sdk_op \<Rightarrow> 'w storage \<Rightarrow> 'w storage option" where
  "sdk_step E f a s =
     (case a of
        Op_poll \<Rightarrow> Some (snd (sdk_storage_poll E s))
      | Op_open p \<Rightarrow> map_option snd (sdk_open E p s)
      | Op_read h n \<Rightarrow> map_option snd (sdk_read E h n s)
      | Op_seek h p \<Rightarrow> Some (sdk_seek h p s)
      | Op_close h \<Rightarrow> Some (sdk_close h s)
      | Op_size p \<Rightarrow> map_option (\<lambda>(r, g, s'). s') (sdk_file_size E f p s)
      | Op_file p n \<Rightarrow> map_option (\<lambda>(r, b, g, s'). s') (sdk_read_file E f p n s)
      | Op_overwrite p d m \<Rightarrow> map_option snd (sdk_overwrite_sector_file E p d m s)
      | Op_raw_read a n \<Rightarrow> map_option (\<lambda>(r, b, s'). s') (sdk_raw_read E a n s)
      | Op_raw_write a b \<Rightarrow> map_option snd (sdk_raw_write E a b s)
      | Op_dir_open p \<Rightarrow> map_option snd (sdk_dir_open E p s)
      | Op_dir_read h \<Rightarrow> map_option snd (sdk_dir_read E h s)
      | Op_dir_close h \<Rightarrow> Some (sdk_dir_close h s))"

fun sdk_run :: "'w sdk_env \<Rightarrow> ufile \<Rightarrow> sdk_op list \<Rightarrow> 'w storage \<Rightarrow> 'w storage option" where
  "sdk_run E f [] s = Some s"
| "sdk_run E f (a # as) s = do { s1 \<leftarrow> sdk_step E f a s; sdk_run E f as s1 }"

text \<open>The launcher hosts the programs and looks after the stick itself.\<close>

definition host :: "'w sdk_env \<Rightarrow> bool" where
  "host E = (se_sys E = None \<and> se_hotplug E)"

section \<open>What an operation leaves alone\<close>

text \<open>The handles, and the count of sticks.\<close>

definition same_handles :: "'w storage \<Rightarrow> 'w storage \<Rightarrow> bool" where
  "same_handles s s' = (stream_used s' = stream_used s \<and> stream_gen s' = stream_gen s \<and> length (streams s') = length (streams s)
     \<and> storage_gen s' = storage_gen s)"

lemma same_handles_refl [simp]: "same_handles s s"
  by (simp add: same_handles_def)

lemma same_handles_trans: "same_handles a b \<Longrightarrow> same_handles b c \<Longrightarrow> same_handles a c"
  by (simp add: same_handles_def)

lemma same_handles_updates [simp]:
  "same_handles a (s\<lparr>fs := u\<rparr>) = same_handles a s" "same_handles a (s\<lparr>mounted := m\<rparr>) = same_handles a s"
  "same_handles a (s\<lparr>mounted_gen := g\<rparr>) = same_handles a s" "same_handles a (s\<lparr>dirs := ds\<rparr>) = same_handles a s"
  "same_handles a (s\<lparr>dir_used := us\<rparr>) = same_handles a s" "same_handles a (s\<lparr>dir_gen := gs\<rparr>) = same_handles a s"
  "same_handles a (s\<lparr>streams := (streams s)[h := f]\<rparr>) = same_handles a s" "same_handles (s\<lparr>fs := u\<rparr>) a = same_handles s a"
  "same_handles (s\<lparr>dirs := ds\<rparr>) a = same_handles s a" "same_handles (s\<lparr>streams := (streams s)[h := f]\<rparr>) a = same_handles s a"
  by (simp_all add: same_handles_def)

lemma lost_check_keeps: "lost_check E s = Some s' \<Longrightarrow> same_handles s s'"
  by (auto simp: lost_check_def split: if_splits)

lemma forget_disk_keeps [simp]: "same_handles a (forget_disk s) = same_handles a s" "same_handles (forget_disk s) a = same_handles s a"
  by (simp_all add: forget_disk_def set_lost_def)

lemma mount_now_keeps: "mount_now E s = Some (m, s') \<Longrightarrow> same_handles s s'"
  by (auto simp: mount_now_def Let_def bind_eq_Some_conv split: prod.splits sum.splits dest: lost_check_keeps)

lemma note_change_keeps [simp]: "same_handles a (note_change E s) = same_handles a s" "same_handles (note_change E s) a = same_handles s a"
  by (simp_all add: note_change_def same_handles_def)

lemma mount_keeps: "mount E s = Some (m, s') \<Longrightarrow> same_handles s s'"
  unfolding mount_def Let_def
  by (auto simp: bind_eq_Some_conv split: if_splits dest!: lost_check_keeps mount_now_keeps intro: same_handles_trans)

text \<open>Under a host a mount that succeeds is of the stick that is counted now, and it never ends on the screen of the lost stick.\<close>

lemma mount_host:
  assumes "host E"
  shows "\<exists>m s'. mount E s = Some (m, s') \<and> same_handles s s' \<and> (m \<longrightarrow> mounted_gen s' = storage_gen s')"
proof -
  have soft: "soft_lost E" "\<And>t. sdk_storage_gen E t = storage_gen t" using assms by (simp_all add: host_def soft_lost_def sdk_storage_gen_def)
  have now: "\<exists>m s'. mount_now E t = Some (m, s') \<and> (m \<longrightarrow> mounted_gen s' = storage_gen s')" for t
    by (cases "env_mount E (fs t)") (auto simp: mount_now_def Let_def lost_check_def soft split: sum.splits)
  have "\<exists>m s'. mount E s = Some (m, s') \<and> (m \<longrightarrow> mounted_gen s' = storage_gen s')"
    using now [of "forget_disk (note_change E s)"] by (auto simp: mount_def Let_def soft note_change_def)
  then show ?thesis using mount_keeps by blast
qed

lemma open_full_keeps: "open_full E f p s = Some (b, g, s') \<Longrightarrow> same_handles s s'"
  by (auto simp: open_full_def bind_eq_Some_conv)

lemma read_at_keeps: "read_at E f n s = Some (b, g, s') \<Longrightarrow> same_handles s s'"
  by (auto simp: read_at_def bind_eq_Some_conv)

lemma read_pieces_step:
  "read_pieces E (Suc k) n out f s =
     (if length out < n then
        (case read_at E f (min (n - length out) 262144) s of
           None \<Rightarrow> None
         | Some (b, f1, s1) \<Rightarrow>
             if b = [] then map_option (\<lambda>s2. (False, out, f1, s2)) (lost_check E s1) else read_pieces E k n (out @ b) f1 s1)
      else Some (True, out, f, s))"
proof -
  have "(if n - length out < 262144 then n - length out else 262144) = min (n - length out) 262144" by simp
  then show ?thesis unfolding read_pieces.simps [of E "Suc k"]
    by (cases "read_at E f (min (n - length out) 262144) s"; cases "lost_check E (snd (snd (the (read_at E f (min (n - length out) 262144) s))))")
      (auto simp: split_beta)
qed

lemma read_pieces_keeps: "read_pieces E fuel n out f s = Some (r, b, g, s') \<Longrightarrow> same_handles s s'"
proof (induction fuel arbitrary: out f s)
  case 0
  then show ?case by (simp add: read_pieces.simps split: if_splits)
next
  case (Suc k)
  show ?case
  proof (cases "length out < n")
    case False
    then show ?thesis using Suc.prems by (simp add: read_pieces_step)
  next
    case True
    then obtain b1 f1 s1 where r: "read_at E f (min (n - length out) 262144) s = Some (b1, f1, s1)"
      using Suc.prems by (auto simp: read_pieces_step split: option.splits)
    note k = read_at_keeps [OF r]
    show ?thesis
    proof (cases "b1 = []")
      case True
      then show ?thesis using Suc.prems r k \<open>length out < n\<close> lost_check_keeps [of E s1] by (auto simp: read_pieces_step intro: same_handles_trans)
    next
      case False
      then have "read_pieces E k n (out @ b1) f1 s1 = Some (r, b, g, s')" using Suc.prems r True by (simp add: read_pieces_step)
      from same_handles_trans [OF k Suc.IH [OF this]] show ?thesis .
    qed
  qed
qed


text \<open>The remaining operations, one by one.\<close>

lemma file_size_keeps: "sdk_file_size E f p s = Some (r, g, s') \<Longrightarrow> same_handles s s'"
  by (auto simp: sdk_file_size_def bind_eq_Some_conv split: if_splits
      dest!: mount_keeps open_full_keeps lost_check_keeps intro: same_handles_trans)

lemma read_file_keeps: "sdk_read_file E f p n s = Some (r, b, g, s') \<Longrightarrow> same_handles s s'"
  by (auto simp: sdk_read_file_def Let_def bind_eq_Some_conv split: if_splits
      dest!: mount_keeps open_full_keeps read_pieces_keeps intro: same_handles_trans)

lemma overwrite_keeps: "sdk_overwrite_sector_file E p d m s = Some (r, s') \<Longrightarrow> same_handles s s'"
  by (auto simp: sdk_overwrite_sector_file_def bind_eq_Some_conv split: if_splits
      dest!: mount_keeps lost_check_keeps intro: same_handles_trans)

lemma raw_keeps:
  "sdk_raw_read E a n s = Some (ok, b, s') \<Longrightarrow> same_handles s s'"
  "sdk_raw_write E a d s = Some (ok, s') \<Longrightarrow> same_handles s s'"
  by (auto simp: sdk_raw_read_def sdk_raw_write_def split_beta Let_def bind_eq_Some_conv split: if_splits
      dest!: mount_keeps lost_check_keeps intro: same_handles_trans)

lemma dir_open_keeps: "sdk_dir_open E p s = Some (r, s') \<Longrightarrow> same_handles s s'"
  by (auto simp: sdk_dir_open_def Let_def bind_eq_Some_conv split: if_splits option.splits
      dest!: mount_keeps lost_check_keeps intro: same_handles_trans)

lemma dir_read_keeps: "sdk_dir_read E h s = Some (r, s') \<Longrightarrow> same_handles s s'"
  unfolding sdk_dir_read_def Let_def
  by (auto simp: bind_eq_Some_conv split: if_splits dest!: mount_keeps lost_check_keeps intro: same_handles_trans)

lemma read_keeps: "sdk_read E h n s = Some (r, s') \<Longrightarrow> same_handles s s'"
  unfolding sdk_read_def
  by (auto simp: bind_eq_Some_conv split: if_splits dest!: mount_keeps lost_check_keeps read_at_keeps intro: same_handles_trans)

lemma poll_keeps:
  assumes "sdk_storage_poll E s = (r, s')"
  shows "stream_used s' = stream_used s \<and> stream_gen s' = stream_gen s \<and> streams s' = streams s
    \<and> storage_gen s' = (if r = 1 then add32 (storage_gen s) 1 else storage_gen s)"
proof -
  obtain now u where c: "check_present (se_usb E) (usb (fs s)) = (now, u)" by force
  define s1 where "s1 = s\<lparr>fs := (fs s)\<lparr>usb := u\<rparr>\<rparr>"
  define t where "t = (if stick_ok s1 < 0 then s1\<lparr>stick_ok := (if now \<and> mounted s1 \<and> \<not> ufs_lost s1 then 1 else 0)\<rparr> else s1)"
  have t: "stream_used t = stream_used s" "stream_gen t = stream_gen s" "streams t = streams s" "storage_gen t = storage_gen s"
    by (simp_all add: t_def s1_def)
  obtain rr f where m: "ufs_remount (se_usb E) (se_build E) (se_restart E) (env_mount E) (fs t) = (rr, f)" by force
  show ?thesis using assms t unfolding sdk_storage_poll_def c Let_def prod.case s1_def [symmetric] t_def [symmetric] m
    by (auto simp: set_lost_def split: if_splits)
qed

section \<open>Old handles\<close>

definition handles_ok :: "'w storage \<Rightarrow> bool" where
  "handles_ok s = (length (streams s) = MAX_STREAMS \<and> length (stream_used s) = MAX_STREAMS \<and> length (stream_gen s) = MAX_STREAMS
     \<and> storage_gen s < two32 \<and> (\<forall>h<MAX_STREAMS. stream_used s ! h \<longrightarrow> stream_gen s ! h \<le> storage_gen s))"

text \<open>Handles stay what they are, but for the closed one.\<close>

definition goes_on :: "sdk_op \<Rightarrow> 'w storage \<Rightarrow> 'w storage \<Rightarrow> bool" where
  "goes_on a s s' = (handles_ok s' \<and> storage_gen s \<le> storage_gen s' \<and> storage_gen s' \<le> storage_gen s + 1
     \<and> (\<forall>h<MAX_STREAMS. stream_used s ! h \<and> a \<noteq> Op_close (int h) \<longrightarrow> stream_used s' ! h \<and> stream_gen s' ! h = stream_gen s ! h))"

lemma same_goes_on: "same_handles s s' \<Longrightarrow> handles_ok s \<Longrightarrow> goes_on a s s'"
  by (simp add: goes_on_def same_handles_def handles_ok_def)

lemma free_slot_free: "free_slot us = Some h \<Longrightarrow> h < length us \<and> \<not> us ! h"
  by (induction us arbitrary: h) (auto split: if_splits)

lemma open_goes_on:
  assumes "host E" "handles_ok s" "sdk_open E p s = Some (r, s')"
  shows "goes_on a s s'"
proof -
  obtain m s1 where 1: "mount E s = Some (m, s1)" "same_handles s s1" "m \<longrightarrow> mounted_gen s1 = storage_gen s1"
    using mount_host [OF assms(1)] by blast
  show ?thesis
  proof (cases "m \<and> free_slot (stream_used s1) \<noteq> None")
    case False
    then have "s' = s1" using assms(3) 1(1) by (auto simp: sdk_open_def split: option.splits)
    then show ?thesis using same_goes_on [OF 1(2) assms(2)] by simp
  next
    case True
    then obtain h where h: "free_slot (stream_used s1) = Some h" by blast
    obtain ok f s2 where 2: "open_full E (streams s1 ! h) p s1 = Some (ok, f, s2)"
      using assms(3) 1(1) True h by (auto simp: sdk_open_def bind_eq_Some_conv)
    have 3: "mounted_gen s2 = mounted_gen s1" using 2 by (auto simp: open_full_def bind_eq_Some_conv)
    have k: "same_handles s s2" by (rule same_handles_trans [OF 1(2) open_full_keeps [OF 2]])
    show ?thesis
    proof (cases ok)
      case False
      then have "lost_check E s2 = Some s'" using assms(3) 1(1) True h 2 by (auto simp: sdk_open_def bind_eq_Some_conv)
      from same_goes_on [OF same_handles_trans [OF k lost_check_keeps [OF this]] assms(2)] show ?thesis .
    next
      case True
      then have s': "s' = s2\<lparr>streams := (streams s2)[h := f], stream_used := (stream_used s2)[h := True], stream_gen := (stream_gen s2)[h := mounted_gen s2]\<rparr>"
        using assms(3) 1(1) \<open>m \<and> free_slot (stream_used s1) \<noteq> None\<close> h 2 by (simp add: sdk_open_def)
      have g: "mounted_gen s2 = storage_gen s" using 1(2,3) 3 \<open>m \<and> free_slot (stream_used s1) \<noteq> None\<close> by (simp add: same_handles_def)
      have u: "\<not> stream_used s ! h" "h < MAX_STREAMS" using free_slot_free [OF h] 1(2) assms(2) by (simp_all add: same_handles_def handles_ok_def)
      show ?thesis using k assms(2) g u unfolding s' by (auto simp: goes_on_def handles_ok_def same_handles_def nth_list_update)
    qed
  qed
qed

lemma step_goes_on:
  assumes "host E" "handles_ok s" "storage_gen s + 1 < two32" "sdk_step E f a s = Some s'"
  shows "goes_on a s s'"
proof (cases a)
  case Op_poll
  obtain r t where t: "sdk_storage_poll E s = (r, t)" by force
  have "add32 (storage_gen s) 1 = storage_gen s + 1" using assms(3) by (simp add: add32_id)
  then show ?thesis using poll_keeps [OF t] assms(2-4) t Op_poll by (auto simp: sdk_step_def goes_on_def handles_ok_def)
next
  case (Op_open p)
  then show ?thesis using open_goes_on [OF assms(1,2)] assms(4) by (auto simp: sdk_step_def)
next
  case (Op_close h)
  then show ?thesis using assms(2,4) by (auto simp: sdk_step_def sdk_close_def goes_on_def handles_ok_def nth_list_update MAX_STREAMS_def split: if_splits)
qed (use assms in \<open>auto simp: sdk_step_def sdk_seek_def sdk_dir_close_def intro!: same_goes_on
      dest: read_keeps file_size_keeps read_file_keeps overwrite_keeps raw_keeps dir_open_keeps dir_read_keeps\<close>)


lemma run_goes_on:
  assumes "host E"
  shows "handles_ok s \<Longrightarrow> storage_gen s + length as < two32 \<Longrightarrow> sdk_run E f as s = Some s' \<Longrightarrow> Op_close (int h) \<notin> set as
    \<Longrightarrow> h < MAX_STREAMS \<Longrightarrow> stream_used s ! h
    \<Longrightarrow> handles_ok s' \<and> storage_gen s \<le> storage_gen s' \<and> stream_used s' ! h \<and> stream_gen s' ! h = stream_gen s ! h"
proof (induction as arbitrary: s)
  case (Cons a as)
  from Cons.prems(3) obtain t where t: "sdk_step E f a s = Some t" "sdk_run E f as t = Some s'" by (auto simp: bind_eq_Some_conv)
  have "goes_on a s t" using step_goes_on [OF assms Cons.prems(1) _ t(1)] Cons.prems(2) by simp
  then have g: "handles_ok t" "storage_gen s \<le> storage_gen t" "storage_gen t \<le> storage_gen s + 1" "stream_used t ! h" "stream_gen t ! h = stream_gen s ! h"
    using Cons.prems(4-6) by (auto simp: goes_on_def)
  then show ?case using Cons.IH [OF g(1) _ t(2)] Cons.prems(2,4,5) by auto
qed simp

text \<open>
  C25: Under the launcher, which notices the stick, a handle never reads from another stick than its own: once a poll has reported a change, the handles open then
  return no bytes for good, whatever programs and poller do meanwhile (unless the program itself closes the handle), and each such read returns.
  The count of sticks must not have wrapped.\<close>

theorem old_handle_reads_nothing:
  assumes "host E" "handles_ok s" "h < MAX_STREAMS" "stream_used s ! h" "sdk_storage_poll E s = (1, s1)"
    "sdk_run E f ops s1 = Some s2" "Op_close (int h) \<notin> set ops" "storage_gen s + 1 + length ops < two32"
  shows "\<exists>s3. sdk_read E (int h) n s2 = Some ([], s3)"
proof -
  note p = poll_keeps [OF assms(5)]
  have g: "storage_gen s1 = storage_gen s + 1" using p assms(8) by (simp add: add32_id)
  have 1: "handles_ok s1" using p assms(2,8) g by (auto simp: handles_ok_def)
  have u: "stream_used s1 ! h" using p assms(4) by simp
  have 2: "handles_ok s2" "storage_gen s1 \<le> storage_gen s2" "stream_used s2 ! h" "stream_gen s2 ! h = stream_gen s1 ! h"
    using run_goes_on [OF assms(1) 1 _ assms(6,7,3) u] g assms(8) by simp_all
  have "stream_gen s ! h \<le> storage_gen s" using assms(2-4) by (simp add: handles_ok_def)
  then have old: "stream_gen s2 ! h < storage_gen s2" using 2(2,4) p g by simp
  obtain m t where t: "mount E s2 = Some (m, t)" "same_handles s2 t" "m \<longrightarrow> mounted_gen t = storage_gen t"
    using mount_host [OF assms(1)] by blast
  have "\<not> m \<or> stream_gen t ! h \<noteq> mounted_gen t" using t(2,3) old by (auto simp: same_handles_def)
  then show ?thesis using t(1) by (auto simp: sdk_read_def)
qed

section \<open>The bytes of a file\<close>

text \<open>A mounted stick that works.\<close>

definition running :: "'w sdk_env \<Rightarrow> 'w storage \<Rightarrow> bool" where
  "running E s = (se_sys E = None \<and> mounted s \<and> (soft_lost E \<longrightarrow> mounted_gen s = storage_gen s))"

lemma mount_running: "running E s \<Longrightarrow> \<not> ufs_lost s \<Longrightarrow> mount E s = Some (True, s)"
  by (auto simp: running_def mount_def note_change_def sdk_storage_gen_def lost_check_def)

lemma working_not_lost: "working_disk e img good \<Longrightarrow> good u \<Longrightarrow> \<not> usb_lost u"
  using working_disk.read_good [of e img good u 0 0] ufs_sectors_when_lost [of u e 0 0] by fastforce

text \<open>A stream on such a stick, at a position of its file.\<close>

definition stream_ok :: "'w sdk_env \<Rightarrow> ('w usb \<Rightarrow> bool) \<Rightarrow> (nat \<Rightarrow> byte list) \<Rightarrow> geometry \<Rightarrow> nat list \<Rightarrow> nat \<Rightarrow> 'w storage \<Rightarrow> bool" where
  "stream_ok E good img g cl h s = (running E s \<and> length (streams s) = MAX_STREAMS \<and> h < MAX_STREAMS \<and> stream_used s ! h \<and> stream_gen s ! h = mounted_gen s
     \<and> vol_ok good img g (fs s) \<and> file_ok img g cl (streams s ! h))"

lemma stream_read:
  assumes "working_disk (se_usb E) img good" "good_geo g" "good_chain img g cl" "stream_ok E good img g cl h s"
  shows "\<exists>s'. sdk_read E (int h) (int n) s = Some (take n (drop (f_pos (streams s ! h)) (file_bytes img g cl (f_size (streams s ! h)))), s')
    \<and> stream_ok E good img g cl h s' \<and> f_size (streams s' ! h) = f_size (streams s ! h)
    \<and> f_pos (streams s' ! h) = f_pos (streams s ! h) + min n (f_size (streams s ! h) - f_pos (streams s ! h))"
proof (cases "n = 0")
  case True
  then show ?thesis using assms(4) by (intro exI [of _ s]) (simp add: sdk_read_def)
next
  case False
  define f where "f = streams s ! h"
  have o: "running E s" "length (streams s) = MAX_STREAMS" "h < MAX_STREAMS" "stream_used s ! h" "stream_gen s ! h = mounted_gen s" "vol_ok good img g (fs s)" "file_ok img g cl f"
    using assms(4) by (simp_all add: stream_ok_def f_def)
  have nl: "\<not> ufs_lost s" using working_not_lost [OF assms(1)] o(6) by (simp add: ufs_lost_def vol_ok_def)
  obtain f' u where r: "ufs_read (se_usb E) f n (fs s) = Some (take n (drop (f_pos f) (file_bytes img g cl (f_size f))), f', u)"
    "vol_ok good img g u" "file_ok img g cl f'" "f_size f' = f_size f" "f_pos f' = f_pos f + min n (f_size f - f_pos f)"
    using working_disk.read_file [OF assms(1,2,3) o(6,7)] by blast
  define s' where "s' = s\<lparr>fs := u, streams := (streams s)[h := f']\<rparr>"
  have nl': "\<not> ufs_lost s'" using working_not_lost [OF assms(1)] r(2) by (simp add: ufs_lost_def vol_ok_def s'_def)
  have "sdk_read E (int h) (int n) s = Some (take n (drop (f_pos f) (file_bytes img g cl (f_size f))), s')"
    using False o(3-5) mount_running [OF o(1) nl] r(1) nl' unfolding sdk_read_def read_at_def lost_check_def
    by (simp add: open_stream_def f_def [symmetric] s'_def)
  moreover have "stream_ok E good img g cl h s'" using o(1-5) r(2,3) by (simp add: stream_ok_def s'_def running_def)
  ultimately show ?thesis using r(4,5) o(2,3) by (intro exI [of _ s']) (simp add: f_def s'_def)
qed

text \<open>Reads of the given lengths, one after another.\<close>

fun sdk_reads :: "'w sdk_env \<Rightarrow> int \<Rightarrow> nat list \<Rightarrow> 'w storage \<Rightarrow> (byte list \<times> 'w storage) option" where
  "sdk_reads E h [] s = Some ([], s)"
| "sdk_reads E h (n # ns) s = do { (b, s1) \<leftarrow> sdk_read E h (int n) s; (bs, s2) \<leftarrow> sdk_reads E h ns s1; Some (b @ bs, s2) }"

lemma stream_reads:
  assumes "working_disk (se_usb E) img good" "good_geo g" "good_chain img g cl"
  shows "stream_ok E good img g cl h s \<Longrightarrow> \<exists>s'. sdk_reads E (int h) ns s
    = Some (take (sum_list ns) (drop (f_pos (streams s ! h)) (file_bytes img g cl (f_size (streams s ! h)))), s')"
proof (induction ns arbitrary: s)
  case (Cons n ns)
  define b where "b = file_bytes img g cl (f_size (streams s ! h))"
  define p where "p = f_pos (streams s ! h)"
  have l: "length b = f_size (streams s ! h)" using Cons.prems by (simp add: b_def stream_ok_def file_ok_def file_bytes_def)
  obtain s1 where 1: "sdk_read E (int h) (int n) s = Some (take n (drop p b), s1)" "stream_ok E good img g cl h s1"
    "f_size (streams s1 ! h) = f_size (streams s ! h)" "f_pos (streams s1 ! h) = p + min n (length b - p)"
    using stream_read [OF assms Cons.prems, of n] l unfolding b_def p_def by auto
  obtain s2 where 2: "sdk_reads E (int h) ns s1 = Some (take (sum_list ns) (drop (p + min n (length b - p)) b), s2)"
    using Cons.IH [OF 1(2)] 1(3,4) b_def by auto
  have "take n (drop p b) @ take (sum_list ns) (drop (p + min n (length b - p)) b) = take (n + sum_list ns) (drop p b)"
  proof (cases "n \<le> length b - p")
    case True
    then show ?thesis by (simp add: take_add add.commute)
  next
    case False
    then show ?thesis by (simp add: min_def)
  qed
  then show ?case using 1(1) 2 unfolding b_def p_def by simp
qed simp

lemma resolve_root: "0x2f \<notin> set name \<Longrightarrow> length name < SDK_PATH_MAX \<Longrightarrow> sdk_resolve [] name = name"
  by (cases name) (auto simp: sdk_resolve_def copy_arg_def SDK_PATH_MAX_def)

lemma open_full_root:
  assumes "working_disk (se_usb E) img good" "good_geo g" "g_fat32 g" "ended_chain img g rcl" "rcl ! 0 = g_root_clus g"
    "vol_ok good img g (fs s)" "dcache (fs s) = empty_dcache" "sdk_app_dir s = []" "name \<noteq> []" "0x2f \<notin> set name" "length name < SDK_PATH_MAX"
    "find_spec True name (dir_entries img g rcl) (root_entry (g_root_clus g) (se_ent E)) = (True, ent')" "\<not> e_is_dir ent'"
    "16 * (g_spc g * length rcl) + 1 < se_fuel E" "good_chain img g cl" "e_first ent' = cl ! 0"
    "e_size ent' \<le> length (chain_bytes img g cl)" "e_size ent' \<le> 0xfffffe00"
  shows "\<exists>f1 u. open_full E f name s = Some (True, f1, s\<lparr>fs := u\<rparr>) \<and> vol_ok good img g u \<and> file_ok img g cl f1
    \<and> f_size f1 = e_size ent' \<and> f_pos f1 = 0"
proof -
  let ?f = "f\<lparr>f_first := e_first ent', f_size := e_size ent', f_pos := 0, f_clus := e_first ent', f_clus_idx := 0, f_cstart := 0, f_clen := 0\<rparr>"
  obtain u where u: "ufs_open (se_usb E) (se_fuel E) f name (se_ent E) (fs s) = Some (True, ?f, u)" "vol_ok good img g u"
    using working_disk.open_root_file [OF assms(1-7,9,10,12-14)] by blast
  have "file_ok img g cl ?f" by (rule working_disk.open_file_ok [OF assms(1,15-18)])
  moreover have "open_full E f name s = Some (True, ?f, s\<lparr>fs := u\<rparr>)"
    by (simp add: open_full_def assms(8) resolve_root [OF assms(10,11)] u(1))
  ultimately show ?thesis using u(2) by (intro exI [of _ ?f] exI [of _ u]) simp
qed

text \<open>
  C26: A file of the root folder through a handle, on any working disk: \<open>sdk_open\<close> takes the first free handle, and after \<open>sdk_seek\<close> to any
  position the reads that follow, of whatever lengths, return together exactly the bytes of the file from there on (none beyond its end).\<close>

theorem sdk_file_bytes:
  assumes "working_disk (se_usb E) img good" "good_geo g" "g_fat32 g" "ended_chain img g rcl" "rcl ! 0 = g_root_clus g"
    "vol_ok good img g (fs s)" "dcache (fs s) = empty_dcache" "sdk_app_dir s = []" "name \<noteq> []" "0x2f \<notin> set name" "length name < SDK_PATH_MAX"
    "find_spec True name (dir_entries img g rcl) (root_entry (g_root_clus g) (se_ent E)) = (True, ent')" "\<not> e_is_dir ent'"
    "16 * (g_spc g * length rcl) + 1 < se_fuel E" "good_chain img g cl" "e_first ent' = cl ! 0"
    "e_size ent' \<le> length (chain_bytes img g cl)" "e_size ent' \<le> 0xfffffe00"
    and "running E s" "handles_ok s" "free_slot (stream_used s) = Some h"
  shows "\<exists>s1 s2. sdk_open E name s = Some (int h, s1)
    \<and> sdk_reads E (int h) ns (sdk_seek (int h) pos s1) = Some (take (sum_list ns) (drop pos (file_bytes img g cl (e_size ent'))), s2)"
proof -
  have h: "h < MAX_STREAMS" using free_slot_free [OF assms(21)] assms(20) by (simp add: handles_ok_def)
  have nl: "\<not> ufs_lost s" using working_not_lost [OF assms(1)] assms(6) by (simp add: ufs_lost_def vol_ok_def)
  obtain f1 u where o: "open_full E (streams s ! h) name s = Some (True, f1, s\<lparr>fs := u\<rparr>)" "vol_ok good img g u" "file_ok img g cl f1"
    "f_size f1 = e_size ent'" "f_pos f1 = 0"
    using open_full_root [OF assms(1-18)] by blast
  define s1 where "s1 = s\<lparr>fs := u, streams := (streams s)[h := f1], stream_used := (stream_used s)[h := True], stream_gen := (stream_gen s)[h := mounted_gen s]\<rparr>"
  have 1: "sdk_open E name s = Some (int h, s1)" by (simp add: sdk_open_def mount_running [OF assms(19) nl] assms(21) o(1) s1_def)
  define t where "t = sdk_seek (int h) pos s1"
  have l: "length (streams s) = MAX_STREAMS" "length (stream_used s) = MAX_STREAMS" "length (stream_gen s) = MAX_STREAMS"
    using assms(20) by (simp_all add: handles_ok_def)
  have t: "t = s1\<lparr>streams := (streams s)[h := ufs_seek f1 pos]\<rparr>" using h l by (simp add: t_def sdk_seek_def open_stream_def s1_def)
  have f: "file_ok img g cl (ufs_seek f1 pos)" by (rule working_disk.seek_file [OF assms(1) o(3)])
  have lost: "\<not> ufs_lost t" using working_not_lost [OF assms(1)] o(2) by (simp add: ufs_lost_def vol_ok_def t s1_def)
  have "stream_ok E good img g cl h t" using assms(19) h l o(2) f by (simp add: stream_ok_def t s1_def running_def)
  then obtain s2 where s2: "sdk_reads E (int h) ns t = Some (take (sum_list ns) (drop (f_pos (streams t ! h)) (file_bytes img g cl (f_size (streams t ! h)))), s2)"
    using stream_reads [OF assms(1,2,15)] by blast
  have q: "streams t ! h = ufs_seek f1 pos" using h l by (simp add: t)
  have z: "f_size (ufs_seek f1 pos) = e_size ent'" using o(4) by (simp add: ufs_seek_def)
  have d: "drop (f_pos (ufs_seek f1 pos)) (file_bytes img g cl (e_size ent')) = drop pos (file_bytes img g cl (e_size ent'))"
    using assms(17) o(4) by (auto simp: ufs_seek_def file_bytes_def)
  show ?thesis using 1 s2 [unfolded q z d] unfolding t_def by blast
qed

lemma pieces_ok:
  assumes "working_disk (se_usb E) img good" "good_geo g" "good_chain img g cl"
  shows "vol_ok good img g (fs s) \<Longrightarrow> file_ok img g cl f \<Longrightarrow> f_pos f = length out \<Longrightarrow> out = take (length out) (file_bytes img g cl (f_size f))
    \<Longrightarrow> length out \<le> n \<Longrightarrow> n \<le> f_size f \<Longrightarrow> n \<le> length out + fuel
    \<Longrightarrow> \<exists>f' s'. read_pieces E fuel n out f s = Some (True, take n (file_bytes img g cl (f_size f)), f', s')"
proof (induction fuel arbitrary: out f s)
  case 0
  then show ?case by (simp add: read_pieces.simps)
next
  case (Suc fuel)
  show ?case
  proof (cases "length out < n")
    case False
    then have "n = length out" using Suc.prems(5) by simp
    then show ?thesis using Suc.prems(4) by (simp add: read_pieces_step)
  next
    case True
    define b where "b = file_bytes img g cl (f_size f)"
    define k where "k = min (n - length out) 262144"
    have l: "length b = f_size f" using Suc.prems(2) by (simp add: b_def file_ok_def file_bytes_def)
    have k: "1 \<le> k" "length out + k \<le> n" using True by (simp_all add: k_def)
    obtain f1 u where r: "ufs_read (se_usb E) f k (fs s) = Some (take k (drop (length out) b), f1, u)" "vol_ok good img g u" "file_ok img g cl f1"
      "f_size f1 = f_size f" "f_pos f1 = length out + min k (f_size f - length out)"
      using working_disk.read_file [OF assms Suc.prems(1,2), of k] unfolding b_def Suc.prems(3) by blast
    define c where "c = take k (drop (length out) b)"
    have c: "length c = k" "c \<noteq> []" using k Suc.prems(6) l by (auto simp: c_def)
    have o: "out @ c = take (length (out @ c)) b" using Suc.prems(4) c(1) unfolding b_def [symmetric] c_def by (simp add: take_add)
    have lc: "length (out @ c) = length out + k" using c(1) by simp
    have 3: "vol_ok good img g (fs (s\<lparr>fs := u\<rparr>))" "f_pos f1 = length (out @ c)" "length (out @ c) \<le> n" "n \<le> f_size f1" "n \<le> length (out @ c) + fuel"
      unfolding lc using r(2,4,5) k Suc.prems(6,7) by simp_all
    have 4: "out @ c = take (length (out @ c)) (file_bytes img g cl (f_size f1))" using o unfolding b_def r(4) .
    obtain f' s' where 2: "read_pieces E fuel n (out @ c) f1 (s\<lparr>fs := u\<rparr>) = Some (True, take n b, f', s')"
      using Suc.IH [OF 3(1) r(3) 3(2) 4 3(3-5)] unfolding b_def r(4) by blast
    have "read_at E f k s = Some (c, f1, s\<lparr>fs := u\<rparr>)" by (simp add: read_at_def r(1) c_def)
    then show ?thesis using True 2 c(2) unfolding read_pieces_step k_def [symmetric] b_def [symmetric] by simp
  qed
qed

text \<open>A whole file at once: \<open>sdk_read_file\<close> on a mounted, working disk returns, with their number, the first bytes of a file of the root
  folder, all of them when they fit into the caller's buffer; it needs no more pieces than bytes.\<close>

theorem sdk_read_file_bytes:
  assumes "working_disk (se_usb E) img good" "good_geo g" "g_fat32 g" "ended_chain img g rcl" "rcl ! 0 = g_root_clus g"
    "vol_ok good img g (fs s)" "dcache (fs s) = empty_dcache" "sdk_app_dir s = []" "name \<noteq> []" "0x2f \<notin> set name" "length name < SDK_PATH_MAX"
    "find_spec True name (dir_entries img g rcl) (root_entry (g_root_clus g) (se_ent E)) = (True, ent')" "\<not> e_is_dir ent'"
    "16 * (g_spc g * length rcl) + 1 < se_fuel E" "good_chain img g cl" "e_first ent' = cl ! 0"
    "e_size ent' \<le> length (chain_bytes img g cl)" "e_size ent' \<le> 0xfffffe00"
    and "running E s"
  shows "\<exists>f' s'. sdk_read_file E f name mx s = Some (int (min mx (e_size ent')), take mx (file_bytes img g cl (e_size ent')), f', s')"
proof -
  have nl: "\<not> ufs_lost s" using working_not_lost [OF assms(1)] assms(6) by (simp add: ufs_lost_def vol_ok_def)
  obtain f1 u where o: "open_full E f name s = Some (True, f1, s\<lparr>fs := u\<rparr>)" "vol_ok good img g u" "file_ok img g cl f1"
    "f_size f1 = e_size ent'" "f_pos f1 = 0"
    using open_full_root [OF assms(1-18)] by blast
  define n where "n = min mx (e_size ent')"
  define b where "b = file_bytes img g cl (e_size ent')"
  have l: "length b = e_size ent'" using assms(17) by (simp add: b_def file_bytes_def)
  obtain f' s' where 1: "read_pieces E n n [] f1 (s\<lparr>fs := u\<rparr>) = Some (True, take n b, f', s')"
    using pieces_ok [OF assms(1,2,15), of "s\<lparr>fs := u\<rparr>" f1 "[]" n n] o(2-5) by (auto simp: n_def b_def)
  have t: "(if f_size f1 < mx then f_size f1 else mx) = n" "take n b = take mx b" "length (take mx b) = n" using l o(4) by (auto simp: n_def min_def)
  have "sdk_read_file E f name mx s = Some (int n, take mx b, f', s')"
    unfolding sdk_read_file_def mount_running [OF assms(19) nl] using 1 t(2,3) by (simp add: o(1) t(1) Let_def split del: if_split)
  then show ?thesis unfolding n_def b_def by blast
qed

section \<open>A small volume under the launcher\<close>

definition demo_env :: "(nat \<Rightarrow> byte list) sdk_env" where
  "demo_env = \<lparr>se_usb = image_env, se_build = True, se_dev = Some \<lparr>dev_type = 0, dev_blksz = 512\<rparr>, se_bot_init = (\<lambda>u. u),
     se_restart = (\<lambda>w. (True, w)), se_timer = (\<lambda>w. 5000), se_sys = None, se_hotplug = True, se_ent = ex_ent, se_fuel = 30\<rparr>"

definition demo_storage :: "(nat \<Rightarrow> byte list) storage" where
  "demo_storage = \<lparr>fs = ex_ufs (sector_of ex_image), mounted = True, mounted_gen = 1, storage_gen = 1, stick_ok = 1, since = 0,
     streams = replicate 3 ex_file, stream_used = replicate 3 False, stream_gen = replicate 3 0,
     dirs = replicate 4 fresh_dir, dir_used = replicate 4 False, dir_gen = replicate 4 0, sdk_app_dir = []\<rparr>"

lemma demo_found:
  "\<exists>ent'. find_spec True ex_name (dir_entries (sector_of ex_image) ex_geo [2]) (root_entry (g_root_clus ex_geo) ex_ent) = (True, ent')
    \<and> \<not> e_is_dir ent' \<and> e_first ent' = 3 \<and> e_size ent' = 512"
  using ex_find by (simp add: ex_geo_def)

lemma demo_facts:
  "good_geo ex_geo" "g_fat32 ex_geo" "[2] ! 0 = g_root_clus ex_geo" "vol_ok (image_good (sector_of ex_image)) (sector_of ex_image) ex_geo (fs demo_storage)"
  "dcache (fs demo_storage) = empty_dcache" "sdk_app_dir demo_storage = []" "ex_name \<noteq> []" "0x2f \<notin> set ex_name" "length ex_name < SDK_PATH_MAX"
  "16 * (g_spc ex_geo * length [2 :: nat]) + 1 < se_fuel demo_env" "running demo_env demo_storage" "handles_ok demo_storage"
  "working_disk (se_usb demo_env) (sector_of ex_image) (image_good (sector_of ex_image))" "se_ent demo_env = ex_ent"
  using image_disk.working_disk_axioms [of ex_image]
  by (simp_all add: good_geo_def geo_ok_def ex_geo_def ex_ufs_def ex_usb_def vol_ok_def image_good_def ex_name_def demo_env_def demo_storage_def
      SDK_PATH_MAX_def running_def handles_ok_def MAX_STREAMS_def)

lemma demo_bytes: "take 5 (file_bytes (sector_of ex_image) ex_geo [3] 512) = [0x4e, 0x43, 1, 2, 3]"
  by code_simp

lemma demo_middle: "take (sum_list [1, 2]) (drop 2 (file_bytes (sector_of ex_image) ex_geo [3] 512)) = [1, 2, 3]"
  by code_simp

theorem sdk_file_bytes_witness:
  "\<exists>s1 s2. sdk_open demo_env ex_name demo_storage = Some (0, s1)
    \<and> sdk_reads demo_env 0 [1, 2] (sdk_seek 0 2 s1) = Some ([1, 2, 3], s2)"
proof -
  obtain ent' where e: "find_spec True ex_name (dir_entries (sector_of ex_image) ex_geo [2]) (root_entry (g_root_clus ex_geo) (se_ent demo_env)) = (True, ent')"
    "\<not> e_is_dir ent'" "e_first ent' = 3" "e_size ent' = 512" using demo_found unfolding demo_facts(14) by blast
  have f: "free_slot (stream_used demo_storage) = Some 0" by (simp add: demo_storage_def numeral_3_eq_3)
  have z: "e_first ent' = [3] ! 0" "e_size ent' \<le> length (chain_bytes (sector_of ex_image) ex_geo [3])" "e_size ent' \<le> 0xfffffe00"
    using e(3,4) ex_chains(3) by simp_all
  show ?thesis
    using sdk_file_bytes [OF demo_facts(13,1,2) ex_chains(1) demo_facts(3-9) e(1,2) demo_facts(10) ex_chains(2) z demo_facts(11,12) f, of "[1, 2]" 2]
    unfolding e(4) demo_middle by auto
qed

theorem sdk_read_file_bytes_witness:
  "\<exists>f' s'. sdk_read_file demo_env ex_file ex_name 5 demo_storage = Some (5, [0x4e, 0x43, 1, 2, 3], f', s')"
proof -
  obtain ent' where e: "find_spec True ex_name (dir_entries (sector_of ex_image) ex_geo [2]) (root_entry (g_root_clus ex_geo) (se_ent demo_env)) = (True, ent')"
    "\<not> e_is_dir ent'" "e_first ent' = 3" "e_size ent' = 512" using demo_found unfolding demo_facts(14) by blast
  have z: "e_first ent' = [3] ! 0" "e_size ent' \<le> length (chain_bytes (sector_of ex_image) ex_geo [3])" "e_size ent' \<le> 0xfffffe00"
    using e(3,4) ex_chains(3) by simp_all
  show ?thesis
    using sdk_read_file_bytes [OF demo_facts(13,1,2) ex_chains(1) demo_facts(3-9) e(1,2) demo_facts(10) ex_chains(2) z demo_facts(11), of ex_file 5]
    unfolding e(4) demo_bytes by simp
qed

text \<open>A handle that was open when the stick went.\<close>

theorem old_handle_reads_nothing_witness:
  "\<exists>s s1 s2 s3. stream_used s ! 0 \<and> sdk_storage_poll demo_env s = (1, s1)
    \<and> sdk_run demo_env ex_file [Op_seek 0 7, Op_close 1] s1 = Some s2 \<and> sdk_read demo_env 0 4 s2 = Some ([], s3)"
proof -
  define s where "s = set_lost True (demo_storage\<lparr>stream_used := [True, False, False], stream_gen := [1, 0, 0]\<rparr>)"
  define s1 where "s1 = snd (sdk_storage_poll demo_env s)"
  have p: "sdk_storage_poll demo_env s = (1, s1)"
    by (simp add: s1_def sdk_storage_poll_def s_def set_lost_def demo_storage_def demo_env_def check_present_def image_env_def ufs_lost_def Let_def split_beta)
  obtain s2 where r: "sdk_run demo_env ex_file [Op_seek 0 7, Op_close 1] s1 = Some s2" by (simp add: sdk_step_def)
  have a: "host demo_env" "handles_ok s" "0 < MAX_STREAMS" "stream_used s ! 0" "Op_close (int 0) \<notin> set [Op_seek 0 7, Op_close 1]"
    "storage_gen s + 1 + length [Op_seek 0 7, Op_close 1] < two32"
    by (simp_all add: host_def demo_env_def handles_ok_def s_def set_lost_def demo_storage_def MAX_STREAMS_def All_less_Suc numeral_3_eq_3)
  from old_handle_reads_nothing [OF a(1-4) p r a(5,6), of 4] obtain s3 where "sdk_read demo_env 0 4 s2 = Some ([], s3)" by auto
  with p r a(4) show ?thesis by blast
qed

end
