(* ===== verification/CInt.thy ===== *)
theory CInt
  imports Main "HOL-Library.Word"
begin

text \<open>
  Integers of C where the code computes with \<open>int\<close>: values that wrap, values that must not leave the type, and arrays read with
  an \<open>int\<close> index.
\<close>

text \<open>The value of a 32-bit pattern read as an \<open>int\<close>.\<close>

definition i32 :: "int \<Rightarrow> int" where
  "i32 x = signed_take_bit 31 x"

lemma i32_id: "- (2 ^ 31) \<le> x \<Longrightarrow> x < 2 ^ 31 \<Longrightarrow> i32 x = x"
  unfolding i32_def by (simp add: signed_take_bit_int_eq_self)

text \<open>A 16-bit pattern read as a \<open>short\<close>.\<close>

definition i16 :: "nat \<Rightarrow> int" where
  "i16 x = signed_take_bit 15 (int x)"

text \<open>The result of an \<open>int\<close> operation, which C defines only within the type.\<close>

definition fit :: "int \<Rightarrow> int option" where
  "fit x = (if - 2147483648 \<le> x \<and> x < 2147483648 then Some x else None)"

lemma fit_Some: "- 2147483648 \<le> x \<Longrightarrow> x < 2147483648 \<Longrightarrow> fit x = Some x"
  by (simp add: fit_def)

text \<open>An array read with an \<open>int\<close> index.\<close>

definition at :: "'a list \<Rightarrow> int \<Rightarrow> 'a option" where
  "at xs i = (if 0 \<le> i \<and> i < int (length xs) then Some (xs ! nat i) else None)"

lemma at_Some: "0 \<le> i \<Longrightarrow> i < int (length xs) \<Longrightarrow> at xs i = Some (xs ! nat i)"
  by (simp add: at_def)

text \<open>Samples of both sides within a range.\<close>

definition loud :: "int \<Rightarrow> (int \<times> int) list \<Rightarrow> bool" where
  "loud b buf = (\<forall>(l, r)\<in>set buf. \<bar>l\<bar> \<le> b \<and> \<bar>r\<bar> \<le> b)"

lemma loud_mono: "loud a buf \<Longrightarrow> a \<le> b \<Longrightarrow> loud b buf"
  by (auto simp: loud_def)

lemma loud_parts: "loud b buf \<Longrightarrow> loud b (take n buf) \<and> loud b (drop n buf)"
  by (auto simp: loud_def dest: in_set_takeD in_set_dropD)

lemma loud_append [simp]: "loud b (xs @ ys) = (loud b xs \<and> loud b ys)"
  by (auto simp: loud_def)

lemma loud_Cons [simp]: "loud b (x # xs) = (\<bar>fst x\<bar> \<le> b \<and> \<bar>snd x\<bar> \<le> b \<and> loud b xs)" "loud b []"
  by (auto simp: loud_def split: prod.splits)

end
