(* ===== verification/OplChip.thy ===== *)
theory OplChip
  imports Bytes CInt "HOL-Library.Monad_Syntax"
begin

text \<open>
  The FM synthesizer emulator \<open>src/sdk/opl.c\<close>: the registers of an OPL2 with a second bank, the envelopes and
  the sample loop. What \<open>opl_init\<close> computes in floating point (the sine, the steps of the gain, the lengths
  of the envelope phases) is an argument, the record \<open>opl_float\<close>; the tables it fills from them are the
  record \<open>opl_tabs\<close>. An access to a table outside of it is \<open>None\<close>.
\<close>

section \<open>State\<close>

definition OPL_CHANNELS :: nat where "OPL_CHANNELS = 18"
definition ENV_MAX :: int where "ENV_MAX = 511 * 2 ^ 16"

datatype eg_state = EG_OFF | EG_ATTACK | EG_DECAY | EG_SUSTAIN | EG_RELEASE

record opl_op =
  o_phase :: u32
  o_step :: u32
  o_env :: int
  o_state :: eg_state
  o_tl :: int
  o_ar :: nat
  o_dr :: nat
  o_sl :: int
  o_rr :: nat
  o_egt :: bool
  o_mult :: nat
  o_wave :: nat
  o_out :: int
  o_prev :: int

record opl_chan =
  c_mod :: opl_op
  c_car :: opl_op
  c_fnum :: nat
  c_block :: nat
  c_key :: bool
  c_fb :: nat
  c_conn :: bool

record opl_chip =
  chs :: "opl_chan list"
  wave_select :: bool

section \<open>Tables\<close>

text \<open>What \<open>opl_init\<close> computes with \<open>double\<close>, converted to integers as the code does: sample \<open>i\<close> of the sine,
  the \<open>i\<close>th power of the gain step times 4096, \<open>ENV_MAX\<close> over the samples of each phase, the step factor.\<close>

record opl_float =
  fl_sin :: "nat \<Rightarrow> int"
  fl_gain :: "nat \<Rightarrow> nat"
  fl_attack :: "nat \<Rightarrow> nat"
  fl_decay :: "nat \<Rightarrow> nat"
  fl_step_k :: nat

record opl_tabs =
  wave_tab :: "int list list"
  gain_tab :: "nat list"
  attack_step :: "nat list"
  decay_step :: "nat list"
  step_k :: nat

definition opl_init_tabs :: "opl_float \<Rightarrow> opl_tabs" where
  "opl_init_tabs fl =
    \<lparr>wave_tab =
       [map (fl_sin fl) [0..<1024],
        map (\<lambda>i. if i < 512 then fl_sin fl i else 0) [0..<1024],
        map (\<lambda>i. \<bar>fl_sin fl i\<bar>) [0..<1024],
        map (\<lambda>i. if i AND 256 \<noteq> 0 then 0 else \<bar>fl_sin fl i\<bar>) [0..<1024]],
     gain_tab = map (fl_gain fl) [0..<1024],
     attack_step = map (\<lambda>i. if i = 0 then 0 else if i = 15 then nat ENV_MAX else fl_attack fl i) [0..<16],
     decay_step = map (\<lambda>i. if i = 0 then 0 else fl_decay fl i) [0..<16],
     step_k = fl_step_k fl\<rparr>"

definition mult_x2 :: "nat list" where
  "mult_x2 = [1, 2, 4, 6, 8, 10, 12, 14, 16, 18, 20, 20, 24, 24, 30, 30]"

definition slot_of_off :: "int list" where
  "slot_of_off = [0, 1, 2, 3, 4, 5, -1, -1, 6, 7, 8, 9, 10, 11, -1, -1, 12, 13, 14, 15, 16, 17]"

section \<open>Registers\<close>

text \<open>The operator of a register offset: its channel, and whether it is the carrier.\<close>

definition op_of_off :: "nat \<Rightarrow> nat \<Rightarrow> (nat \<times> bool) option" where
  "op_of_off bank off =
     (if off \<ge> 0x16 \<or> slot_of_off ! off < 0 then None
      else (let s = nat (slot_of_off ! off); k = s mod 6 in Some (bank * 9 + s div 6 * 3 + k mod 3, k div 3 = 1)))"

definition op_zero :: opl_op where
  "op_zero = \<lparr>o_phase = 0, o_step = 0, o_env = ENV_MAX, o_state = EG_OFF, o_tl = 0, o_ar = 0, o_dr = 0, o_sl = 0,
     o_rr = 0, o_egt = False, o_mult = 0, o_wave = 0, o_out = 0, o_prev = 0\<rparr>"

definition opl_reset :: opl_chip where
  "opl_reset = \<lparr>chs = replicate OPL_CHANNELS \<lparr>c_mod = op_zero, c_car = op_zero, c_fnum = 0, c_block = 0, c_key = False,
     c_fb = 0, c_conn = False\<rparr>, wave_select = False\<rparr>"

definition op_step :: "opl_tabs \<Rightarrow> u32 \<Rightarrow> opl_op \<Rightarrow> opl_op" where
  "op_step T f o1 = o1\<lparr>o_step := ucast (drop_bit 10 ((ucast f :: 64 word) * ucast (of_nat (mult_x2 ! o_mult o1) * of_nat (step_k T) :: u32)))\<rparr>"

definition set_step :: "opl_tabs \<Rightarrow> opl_chan \<Rightarrow> opl_chan" where
  "set_step T c =
     (let f = push_bit (c_block c) (of_nat (c_fnum c)) :: u32
      in c\<lparr>c_mod := op_step T f (c_mod c), c_car := op_step T f (c_car c)\<rparr>)"

definition key_on :: "opl_op \<Rightarrow> opl_op" where
  "key_on o1 =
     (let o2 = o1\<lparr>o_phase := 0\<rparr>
      in if o_ar o2 = 15 then o2\<lparr>o_env := 0, o_state := EG_DECAY\<rparr> else o2\<lparr>o_state := EG_ATTACK\<rparr>)"

definition key_off :: "opl_op \<Rightarrow> opl_op" where
  "key_off o1 = (if o_state o1 \<noteq> EG_OFF then o1\<lparr>o_state := EG_RELEASE\<rparr> else o1)"

definition upd_chan :: "nat \<Rightarrow> (opl_chan \<Rightarrow> opl_chan) \<Rightarrow> opl_chip \<Rightarrow> opl_chip" where
  "upd_chan i f ch = ch\<lparr>chs := (chs ch)[i := f (chs ch ! i)]\<rparr>"

definition upd_op :: "(nat \<times> bool) option \<Rightarrow> (opl_op \<Rightarrow> opl_op) \<Rightarrow> opl_chip \<Rightarrow> opl_chip" where
  "upd_op w f ch =
     (case w of None \<Rightarrow> ch
      | Some (i, car) \<Rightarrow> upd_chan i (\<lambda>c. if car then c\<lparr>c_car := f (c_car c)\<rparr> else c\<lparr>c_mod := f (c_mod c)\<rparr>) ch)"

text \<open>Register \<open>0xb0\<close>: the high bits of the frequency, and the key, which acts on its edges.\<close>

definition set_key :: "bool \<Rightarrow> opl_chan \<Rightarrow> opl_chan" where
  "set_key key c =
     (let c1 = (if key \<and> \<not> c_key c then c\<lparr>c_mod := key_on (c_mod c), c_car := key_on (c_car c)\<rparr>
                else if \<not> key \<and> c_key c then c\<lparr>c_mod := key_off (c_mod c), c_car := key_off (c_car c)\<rparr>
                else c)
      in c1\<lparr>c_key := key\<rparr>)"

definition write_a0 :: "opl_tabs \<Rightarrow> nat \<Rightarrow> opl_chan \<Rightarrow> opl_chan" where
  "write_a0 T val c = set_step T (c\<lparr>c_fnum := c_fnum c AND 0x300 OR val\<rparr>)"

definition write_b0 :: "opl_tabs \<Rightarrow> nat \<Rightarrow> opl_chan \<Rightarrow> opl_chan" where
  "write_b0 T val c =
     set_key (drop_bit 5 val AND 1 = 1)
       (set_step T (c\<lparr>c_fnum := c_fnum c AND 0xff OR push_bit 8 (val AND 3), c_block := drop_bit 2 val AND 7\<rparr>))"

definition opl_write :: "opl_tabs \<Rightarrow> nat \<Rightarrow> nat \<Rightarrow> opl_chip \<Rightarrow> opl_chip" where
  "opl_write T reg0 val0 ch =
     (let bank = drop_bit 8 reg0 AND 1; reg = reg0 AND 0xff; val = val0 AND 0xff
      in if reg = 0x01 \<and> bank = 0 then ch\<lparr>wave_select := (val AND 0x20 \<noteq> 0)\<rparr>
         else if reg AND 0xe0 = 0x20 then
           upd_op (op_of_off bank (reg - 0x20)) (\<lambda>p. p\<lparr>o_egt := (drop_bit 5 val AND 1 = 1), o_mult := val AND 15\<rparr>) ch
         else if reg AND 0xe0 = 0x40 then
           upd_op (op_of_off bank (reg - 0x40)) (\<lambda>p. p\<lparr>o_tl := int (val AND 0x3f) * 4\<rparr>) ch
         else if reg AND 0xe0 = 0x60 then
           upd_op (op_of_off bank (reg - 0x60)) (\<lambda>p. p\<lparr>o_ar := drop_bit 4 val, o_dr := val AND 15\<rparr>) ch
         else if reg AND 0xe0 = 0x80 then
           upd_op (op_of_off bank (reg - 0x80))
             (\<lambda>p. p\<lparr>o_sl := (if drop_bit 4 val = 15 then 511 else int (drop_bit 4 val) * 16) * 2 ^ 16, o_rr := val AND 15\<rparr>) ch
         else if reg AND 0xe0 = 0xe0 then
           upd_op (op_of_off bank (reg - 0xe0)) (\<lambda>p. p\<lparr>o_wave := val AND 3\<rparr>) ch
         else if reg AND 0xe0 = 0xa0 then
           (if reg \<ge> 0xa0 \<and> reg \<le> 0xa8 then upd_chan (bank * 9 + (reg - 0xa0)) (write_a0 T val) ch
            else if reg \<ge> 0xb0 \<and> reg \<le> 0xb8 then upd_chan (bank * 9 + (reg - 0xb0)) (write_b0 T val) ch
            else ch)
         else if reg AND 0xe0 = 0xc0 then
           (if reg \<ge> 0xc0 \<and> reg \<le> 0xc8
            then upd_chan (bank * 9 + (reg - 0xc0)) (\<lambda>c. c\<lparr>c_fb := drop_bit 1 val AND 7, c_conn := (val AND 1 = 1)\<rparr>) ch
            else ch)
         else ch)"

section \<open>Samples\<close>

definition env_clip :: "opl_op \<Rightarrow> opl_op" where
  "env_clip p =
     (if o_env p \<ge> ENV_MAX
      then (let p1 = p\<lparr>o_env := ENV_MAX\<rparr> in if o_state p1 \<noteq> EG_ATTACK then p1\<lparr>o_state := EG_OFF\<rparr> else p1)
      else p)"

text \<open>The steps are unsigned, so the envelope is too while it is added, and an \<open>int\<close> again when stored.\<close>

definition env_move :: "opl_tabs \<Rightarrow> opl_op \<Rightarrow> opl_op option" where
  "env_move T p =
     (case o_state p of
        EG_ATTACK \<Rightarrow> do {
          d \<leftarrow> at (attack_step T) (int (o_ar p));
          let e = i32 (o_env p - int d);
          Some (if e \<le> 0 then p\<lparr>o_env := 0, o_state := EG_DECAY\<rparr> else p\<lparr>o_env := e\<rparr>)
        }
      | EG_DECAY \<Rightarrow> do {
          d \<leftarrow> at (decay_step T) (int (o_dr p));
          let e = i32 (o_env p + int d);
          Some (if e \<ge> o_sl p then p\<lparr>o_env := o_sl p, o_state := EG_SUSTAIN\<rparr> else p\<lparr>o_env := e\<rparr>)
        }
      | EG_SUSTAIN \<Rightarrow>
          (if \<not> o_egt p then do {
             d \<leftarrow> at (decay_step T) (int (o_rr p));
             Some (p\<lparr>o_env := i32 (o_env p + int d)\<rparr>)
           } else Some p)
      | EG_RELEASE \<Rightarrow> do {
          d \<leftarrow> at (decay_step T) (int (o_rr p));
          Some (p\<lparr>o_env := i32 (o_env p + int d)\<rparr>)
        }
      | EG_OFF \<Rightarrow> Some p)"

definition env_step :: "opl_tabs \<Rightarrow> opl_op \<Rightarrow> opl_op option" where
  "env_step T p = map_option env_clip (env_move T p)"

definition op_calc :: "opl_tabs \<Rightarrow> opl_op \<Rightarrow> int list \<Rightarrow> int \<Rightarrow> (int \<times> opl_op) option" where
  "op_calc T p wave md = do {
     let att0 = o_env p div 2 ^ 16 + o_tl p;
     let att = (if att0 > 1023 then 1023 else att0);
     w \<leftarrow> at wave (uint ((drop_bit 22 (o_phase p) + word_of_int md) AND 1023));
     g \<leftarrow> at (gain_tab T) att;
     p' \<leftarrow> env_step T (p\<lparr>o_phase := o_phase p + o_step p\<rparr>);
     Some (w * int g div 2 ^ 12, p')
   }"

text \<open>One sample of a channel: the two operators, and what they put out together.\<close>

definition chan_sample :: "opl_tabs \<Rightarrow> int list \<Rightarrow> int list \<Rightarrow> opl_chan \<Rightarrow> (int \<times> opl_chan) option" where
  "chan_sample T wm wk c = do {
     let m = c_mod c;
     let fbs = (if c_fb c \<noteq> 0 then 9 - c_fb c else 0);
     let fb = (if fbs \<noteq> 0 then (o_out m + o_prev m) div 2 ^ fbs else 0);
     (mo, m1) \<leftarrow> op_calc T m wm fb;
     let m2 = m1\<lparr>o_prev := o_out m1, o_out := mo\<rparr>;
     (ko, k1) \<leftarrow> op_calc T (c_car c) wk (if c_conn c then 0 else mo);
     Some (if c_conn c then mo + ko else ko, c\<lparr>c_mod := m2, c_car := k1\<rparr>)
   }"

fun chan_loop :: "opl_tabs \<Rightarrow> int list \<Rightarrow> int list \<Rightarrow> int \<Rightarrow> int \<Rightarrow> opl_chan \<Rightarrow> (int \<times> int) list
    \<Rightarrow> (opl_chan \<times> (int \<times> int) list) option" where
  "chan_loop T wm wk gl gr c [] = Some (c, [])"
| "chan_loop T wm wk gl gr c ((l, r) # buf) = do {
     (out, c1) \<leftarrow> chan_sample T wm wk c;
     (c2, buf2) \<leftarrow> chan_loop T wm wk gl gr c1 buf;
     Some (c2, (l + out * gl div 2 ^ 8, r + out * gr div 2 ^ 8) # buf2)
   }"

definition chan_silent :: "opl_chan \<Rightarrow> bool" where
  "chan_silent c = (o_state (c_car c) = EG_OFF \<and> (\<not> c_conn c \<or> o_state (c_mod c) = EG_OFF))"

definition chan_render :: "opl_tabs \<Rightarrow> bool \<Rightarrow> int \<Rightarrow> int \<Rightarrow> opl_chan \<Rightarrow> (int \<times> int) list
    \<Rightarrow> (opl_chan \<times> (int \<times> int) list) option" where
  "chan_render T ws gl gr c buf =
     (if chan_silent c then Some (c, buf)
      else do {
        wm \<leftarrow> at (wave_tab T) (if ws then int (o_wave (c_mod c)) else 0);
        wk \<leftarrow> at (wave_tab T) (if ws then int (o_wave (c_car c)) else 0);
        chan_loop T wm wk gl gr c buf
      })"

text \<open>\<open>opl_render\<close>: the buffers are one list of pairs (left, right), of the \<open>n\<close> samples wanted.\<close>

fun render_chans :: "opl_tabs \<Rightarrow> bool \<Rightarrow> int list \<Rightarrow> int list \<Rightarrow> opl_chan list \<Rightarrow> (int \<times> int) list
    \<Rightarrow> (opl_chan list \<times> (int \<times> int) list) option" where
  "render_chans T ws (gl # pl) (gr # pr) (c # cs) buf = do {
     (c1, buf1) \<leftarrow> chan_render T ws gl gr c buf;
     (cs1, buf2) \<leftarrow> render_chans T ws pl pr cs buf1;
     Some (c1 # cs1, buf2)
   }"
| "render_chans T ws _ _ [] buf = Some ([], buf)"
| "render_chans T ws _ _ (c # cs) buf = None"

definition opl_render :: "opl_tabs \<Rightarrow> (int \<times> int) list \<Rightarrow> int list \<Rightarrow> int list \<Rightarrow> opl_chip \<Rightarrow> ((int \<times> int) list \<times> opl_chip) option" where
  "opl_render T buf pan_l pan_r ch = do {
     (cs, buf1) \<leftarrow> render_chans T (wave_select ch) pan_l pan_r (chs ch) buf;
     Some (buf1, ch\<lparr>chs := cs\<rparr>)
   }"

end
