(* ===== verification/OplBounds.thy ===== *)
theory OplBounds
  imports OplChip
begin

text \<open>
  The ranges of the synthesizer of \<open>OplChip\<close>: no register write and no sample leaves them, no table is read
  outside of it, no integer of the sample loop wraps; and a released note ends.
\<close>

section \<open>Ranges\<close>

text \<open>What the floating-point part of \<open>opl_init\<close> delivers: a sine of amplitude 4095, gains that start at 4096 and
  fall, steps of at most the whole envelope (the code divides \<open>ENV_MAX\<close> by at least 1).\<close>

definition float_ok :: "opl_float \<Rightarrow> bool" where
  "float_ok fl = ((\<forall>i. \<bar>fl_sin fl i\<bar> \<le> 4095) \<and> (\<forall>i. fl_gain fl i \<le> 4096)
     \<and> (\<forall>i. int (fl_attack fl i) \<le> ENV_MAX) \<and> (\<forall>i. int (fl_decay fl i) \<le> ENV_MAX))"

definition tabs_ok :: "opl_tabs \<Rightarrow> bool" where
  "tabs_ok T = (length (wave_tab T) = 4 \<and> (\<forall>w\<in>set (wave_tab T). length w = 1024 \<and> (\<forall>x\<in>set w. \<bar>x\<bar> \<le> 4095))
     \<and> length (gain_tab T) = 1024 \<and> (\<forall>g\<in>set (gain_tab T). g \<le> 4096)
     \<and> length (attack_step T) = 16 \<and> (\<forall>d\<in>set (attack_step T). int d \<le> ENV_MAX)
     \<and> length (decay_step T) = 16 \<and> (\<forall>d\<in>set (decay_step T). int d \<le> ENV_MAX))"

lemma opl_init_tabs_ok: "float_ok fl \<Longrightarrow> tabs_ok (opl_init_tabs fl)"
  unfolding tabs_ok_def opl_init_tabs_def float_ok_def by (auto simp: ENV_MAX_def)

definition op_ok :: "opl_op \<Rightarrow> bool" where
  "op_ok p = (0 \<le> o_env p \<and> o_env p \<le> ENV_MAX \<and> 0 \<le> o_tl p \<and> o_tl p \<le> 252 \<and> o_ar p < 16 \<and> o_dr p < 16
     \<and> 0 \<le> o_sl p \<and> o_sl p \<le> ENV_MAX \<and> o_rr p < 16 \<and> o_mult p < 16 \<and> o_wave p < 4
     \<and> \<bar>o_out p\<bar> \<le> 4095 \<and> \<bar>o_prev p\<bar> \<le> 4095)"

definition chan_ok :: "opl_chan \<Rightarrow> bool" where
  "chan_ok c = (op_ok (c_mod c) \<and> op_ok (c_car c) \<and> c_fnum c < 1024 \<and> c_block c < 8 \<and> c_fb c < 8)"

definition chip_ok :: "opl_chip \<Rightarrow> bool" where
  "chip_ok ch = (length (chs ch) = OPL_CHANNELS \<and> (\<forall>c\<in>set (chs ch). chan_ok c))"

lemma opl_reset_ok: "chip_ok opl_reset"
  by (simp add: chip_ok_def opl_reset_def chan_ok_def op_ok_def op_zero_def ENV_MAX_def)

section \<open>Register writes\<close>

lemma key_on_ok: "op_ok p \<Longrightarrow> op_ok (key_on p)"
  by (simp add: key_on_def op_ok_def Let_def ENV_MAX_def)

lemma key_off_ok: "op_ok p \<Longrightarrow> op_ok (key_off p)"
  by (simp add: key_off_def op_ok_def)

lemma set_key_ok: "chan_ok c \<Longrightarrow> chan_ok (set_key k c)"
  by (simp add: set_key_def chan_ok_def Let_def key_on_ok key_off_ok)

lemma set_step_ok: "chan_ok (set_step T c) = chan_ok c"
  by (simp add: set_step_def op_step_def chan_ok_def op_ok_def Let_def)

lemma or_below_1024: "a < 1024 \<Longrightarrow> b < 1024 \<Longrightarrow> a OR b < (1024 :: nat)"
  using or_below_power [of a 10 b] by simp

lemma write_a0_ok: "chan_ok c \<Longrightarrow> val < 256 \<Longrightarrow> chan_ok (write_a0 T val c)"
  unfolding write_a0_def set_step_ok
  by (simp add: chan_ok_def or_below_1024 and_below)

lemma write_b0_ok: "chan_ok c \<Longrightarrow> val < 256 \<Longrightarrow> chan_ok (write_b0 T val c)"
proof -
  assume c: "chan_ok c" and v: "val < 256"
  have "val AND 3 < 4" "drop_bit 2 val AND 7 < 8" by (simp_all add: and_below)
  then have "push_bit 8 (val AND 3) < 1024" by (simp add: push_bit_nat_mult)
  then show ?thesis using c \<open>drop_bit 2 val AND 7 < 8\<close> unfolding write_b0_def
    by (intro set_key_ok) (simp only: set_step_ok, simp add: chan_ok_def or_below_1024 and_below)
qed

lemma upd_chan_ok: "chip_ok ch \<Longrightarrow> (\<And>c. chan_ok c \<Longrightarrow> chan_ok (f c)) \<Longrightarrow> chip_ok (upd_chan i f ch)"
proof (cases "i < length (chs ch)")
  case True
  assume "chip_ok ch" "\<And>c. chan_ok c \<Longrightarrow> chan_ok (f c)"
  then show ?thesis using True unfolding chip_ok_def upd_chan_def by (auto dest!: subsetD [OF set_update_subset_insert])
next
  case False
  assume "chip_ok ch"
  then show ?thesis using False by (simp add: chip_ok_def upd_chan_def list_update_beyond)
qed

lemma upd_op_ok: "chip_ok ch \<Longrightarrow> (\<And>p. op_ok p \<Longrightarrow> op_ok (f p)) \<Longrightarrow> chip_ok (upd_op w f ch)"
  unfolding upd_op_def by (auto split: option.splits intro!: upd_chan_ok simp: chan_ok_def)

lemma drop_bit4_byte: "val < 256 \<Longrightarrow> drop_bit 4 val < (16 :: nat)"
  by (simp add: drop_bit_eq_div less_mult_imp_div_less)

lemma if_chip_ok: "(c \<Longrightarrow> chip_ok x) \<Longrightarrow> (\<not> c \<Longrightarrow> chip_ok y) \<Longrightarrow> chip_ok (if c then x else y)"
  by simp

lemma opl_write_ok: "chip_ok ch \<Longrightarrow> chip_ok (opl_write T reg val ch)"
proof -
  assume ch: "chip_ok ch"
  have v: "val AND 0xff < 256" by (simp add: and_below)
  have ops: "op_ok p \<Longrightarrow> op_ok (p\<lparr>o_egt := e, o_mult := (val AND 0xff) AND 15\<rparr>)"
    "op_ok p \<Longrightarrow> op_ok (p\<lparr>o_tl := int ((val AND 0xff) AND 0x3f) * 4\<rparr>)"
    "op_ok p \<Longrightarrow> op_ok (p\<lparr>o_ar := drop_bit 4 (val AND 0xff), o_dr := (val AND 0xff) AND 15\<rparr>)"
    "op_ok p \<Longrightarrow> op_ok (p\<lparr>o_sl := (if drop_bit 4 (val AND 0xff) = 15 then 511 else int (drop_bit 4 (val AND 0xff)) * 16) * 2 ^ 16,
       o_rr := (val AND 0xff) AND 15\<rparr>)"
    "op_ok p \<Longrightarrow> op_ok (p\<lparr>o_wave := (val AND 0xff) AND 3\<rparr>)" for p e
    using drop_bit4_byte [OF v] and_below [of 15 16 "val AND 0xff"] and_below [of 63 64 "val AND 0xff"] and_below [of 3 4 "val AND 0xff"]
    unfolding op_ok_def ENV_MAX_def by (simp_all del: One_nat_def add: and_below nat_and_le)
  have fb: "chan_ok c \<Longrightarrow> chan_ok (c\<lparr>c_fb := drop_bit 1 (val AND 0xff) AND 7, c_conn := k\<rparr>)" for c k
    by (simp add: chan_ok_def and_below)
  have ws: "chip_ok (ch\<lparr>wave_select := k\<rparr>)" for k using ch by (simp add: chip_ok_def)
  show ?thesis unfolding opl_write_def Let_def
    by (intro if_chip_ok ws upd_op_ok upd_chan_ok ch ops write_a0_ok write_b0_ok fb v)
qed


section \<open>Samples\<close>

lemma at_nth: "at xs i = Some x \<Longrightarrow> x \<in> set xs"
  by (auto simp: at_def split: if_splits)

lemma at_in: "0 \<le> i \<Longrightarrow> i < int (length xs) \<Longrightarrow> \<exists>x\<in>set xs. at xs i = Some x"
  by (simp add: at_def)

lemma attack_at: "tabs_ok T \<Longrightarrow> r < 16 \<Longrightarrow> \<exists>d. at (attack_step T) (int r) = Some d \<and> int d \<le> ENV_MAX"
  using at_in [of "int r" "attack_step T"] by (auto simp: tabs_ok_def)

lemma decay_at: "tabs_ok T \<Longrightarrow> r < 16 \<Longrightarrow> \<exists>d. at (decay_step T) (int r) = Some d \<and> int d \<le> ENV_MAX"
  using at_in [of "int r" "decay_step T"] by (auto simp: tabs_ok_def)

text \<open>One step of the envelope never wraps.\<close>

lemma env_no_wrap:
  assumes "0 \<le> e" "e \<le> ENV_MAX" "int d \<le> ENV_MAX"
  shows "i32 (e + int d) = e + int d" "i32 (e - int d) = e - int d"
  using assms by (simp_all add: i32_id ENV_MAX_def)

lemma env_move_cases:
  assumes "tabs_ok T" "op_ok p"
  shows "\<exists>p'. env_move T p = Some p' \<and> 0 \<le> o_env p' \<and> op_ok (p'\<lparr>o_env := 0\<rparr>)"
proof -
  have r: "o_ar p < 16" "o_dr p < 16" "o_rr p < 16" and e: "0 \<le> o_env p" "o_env p \<le> ENV_MAX" and sl: "0 \<le> o_sl p"
    and clear: "op_ok (p\<lparr>o_env := 0\<rparr>)" "op_ok (p\<lparr>o_state := st, o_env := 0\<rparr>)" for st
    using assms(2) by (simp_all add: op_ok_def)
  obtain a where a: "at (attack_step T) (int (o_ar p)) = Some a" "int a \<le> ENV_MAX" using attack_at [OF assms(1) r(1)] by blast
  obtain d where d: "at (decay_step T) (int (o_dr p)) = Some d" "int d \<le> ENV_MAX" using decay_at [OF assms(1) r(2)] by blast
  obtain s where s: "at (decay_step T) (int (o_rr p)) = Some s" "int s \<le> ENV_MAX" using decay_at [OF assms(1) r(3)] by blast
  note nw = env_no_wrap [OF e a(2)] env_no_wrap [OF e d(2)] env_no_wrap [OF e s(2)]
  show ?thesis
    by (cases "o_state p") (use e sl clear in \<open>simp_all add: env_move_def a(1) d(1) s(1) nw Let_def\<close>)
qed

lemma env_clip_ok: "0 \<le> o_env p \<Longrightarrow> op_ok (p\<lparr>o_env := 0\<rparr>) \<Longrightarrow> op_ok (env_clip p)"
  by (simp add: env_clip_def op_ok_def Let_def ENV_MAX_def)

lemma env_step_ok:
  assumes "tabs_ok T" "op_ok p"
  shows "\<exists>p'. env_step T p = Some p' \<and> op_ok p'"
proof -
  obtain q where "env_move T p = Some q" "0 \<le> o_env q" "op_ok (q\<lparr>o_env := 0\<rparr>)" using env_move_cases [OF assms] by blast
  then show ?thesis by (simp add: env_step_def env_clip_ok)
qed

lemma scaled_bound:
  assumes "\<bar>w\<bar> \<le> b" "0 \<le> g" "g \<le> m" "0 < (m :: int)"
  shows "\<bar>w * g div m\<bar> \<le> b"
proof -
  have b: "0 \<le> b" using assms(1) by linarith
  have "w * g \<le> b * m" using assms by (intro mult_mono) simp_all
  moreover have "- (b * m) \<le> w * g"
  proof -
    have "- w * g \<le> b * m" using assms by (intro mult_mono) simp_all
    then show ?thesis by simp
  qed
  moreover have "(- b * m) div m = - b" "b * m div m = b"
    using assms(4) nonzero_mult_div_cancel_right [of m "- b"] by simp_all
  ultimately have "w * g div m \<le> b" "- b \<le> w * g div m"
    using assms(4) zdiv_mono1 [of "w * g" "b * m" m] zdiv_mono1 [of "- b * m" "w * g" m] by auto
  then show ?thesis by simp
qed

lemma op_calc_ok:
  assumes "tabs_ok T" "op_ok p" "w \<in> set (wave_tab T)"
  shows "\<exists>v p'. op_calc T p w md = Some (v, p') \<and> \<bar>v\<bar> \<le> 4095 \<and> op_ok p'"
proof -
  define att0 where "att0 = o_env p div 2 ^ 16 + o_tl p"
  define att where "att = (if att0 > 1023 then 1023 else att0)"
  define idx where "idx = uint ((drop_bit 22 (o_phase p) + word_of_int md) AND 1023)"
  have "0 \<le> o_env p div 2 ^ 16" using assms(2) by (simp add: op_ok_def pos_imp_zdiv_nonneg_iff)
  then have "0 \<le> att0" using assms(2) by (simp add: att0_def op_ok_def)
  then have att: "0 \<le> att" "att < 1024" by (simp_all add: att_def)
  have idx: "0 \<le> idx" "idx < 1024"
    unfolding idx_def by (simp_all add: uint_and)
  have w: "length w = 1024" "\<forall>x\<in>set w. \<bar>x\<bar> \<le> 4095" using assms(1,3) by (auto simp: tabs_ok_def)
  obtain x where x: "at w idx = Some x" "\<bar>x\<bar> \<le> 4095" using at_in [of idx w] idx w by auto
  obtain g where g: "at (gain_tab T) att = Some g" "g \<le> 4096"
    using at_in [of att "gain_tab T"] att assms(1) by (auto simp: tabs_ok_def)
  have "op_ok (p\<lparr>o_phase := o_phase p + o_step p\<rparr>)" using assms(2) by (simp add: op_ok_def)
  from env_step_ok [OF assms(1) this] obtain p' where
    p': "env_step T (p\<lparr>o_phase := o_phase p + o_step p\<rparr>) = Some p'" "op_ok p'" by blast
  have "op_calc T p w md = Some (x * int g div 2 ^ 12, p')"
    unfolding op_calc_def Let_def att0_def [symmetric] att_def [symmetric] idx_def [symmetric] x(1) g(1) p'(1) by simp
  moreover have "\<bar>x * int g div 2 ^ 12\<bar> \<le> 4095" using scaled_bound [OF x(2), of "int g" "2 ^ 12"] g(2) by simp
  ultimately show ?thesis using p'(2) by blast
qed

text \<open>What a channel keeps while it sounds: the settings of its registers.\<close>

definition same_regs :: "opl_chan \<Rightarrow> opl_chan \<Rightarrow> bool" where
  "same_regs c c' = (c_fnum c' = c_fnum c \<and> c_block c' = c_block c \<and> c_key c' = c_key c \<and> c_fb c' = c_fb c \<and> c_conn c' = c_conn c)"

lemma same_regs_refl: "same_regs c c"
  by (simp add: same_regs_def)

lemma same_regs_trans: "same_regs a b \<Longrightarrow> same_regs b c \<Longrightarrow> same_regs a c"
  by (simp add: same_regs_def)

lemma chan_sample_ok:
  assumes "tabs_ok T" "chan_ok c" "wm \<in> set (wave_tab T)" "wk \<in> set (wave_tab T)"
  shows "\<exists>v c'. chan_sample T wm wk c = Some (v, c') \<and> \<bar>v\<bar> \<le> 8190 \<and> chan_ok c' \<and> same_regs c c'"
proof -
  define fbs where "fbs = (if c_fb c \<noteq> 0 then 9 - c_fb c else 0)"
  define fb where "fb = (if fbs \<noteq> 0 then (o_out (c_mod c) + o_prev (c_mod c)) div 2 ^ fbs else 0)"
  obtain mo m1 where m: "op_calc T (c_mod c) wm fb = Some (mo, m1)" "\<bar>mo\<bar> \<le> 4095" "op_ok m1"
    using op_calc_ok [OF assms(1) _ assms(3)] assms(2) unfolding chan_ok_def by blast
  obtain ko k1 where k: "op_calc T (c_car c) wk (if c_conn c then 0 else mo) = Some (ko, k1)" "\<bar>ko\<bar> \<le> 4095" "op_ok k1"
    using op_calc_ok [OF assms(1) _ assms(4)] assms(2) unfolding chan_ok_def by blast
  have "op_ok (m1\<lparr>o_prev := o_out m1, o_out := mo\<rparr>)" using m(2,3) by (simp add: op_ok_def)
  moreover have "\<bar>if c_conn c then mo + ko else ko\<bar> \<le> 8190" using m(2) k(2) by (auto simp: abs_le_iff)
  ultimately show ?thesis using assms(2) m k
    unfolding chan_sample_def Let_def fbs_def [symmetric] fb_def [symmetric] m(1) bind.bind_lunit case_prod_conv
    by (simp del: abs_le_iff add: chan_ok_def same_regs_def)
qed

lemma chan_loop_ok:
  assumes "tabs_ok T" "wm \<in> set (wave_tab T)" "wk \<in> set (wave_tab T)" "0 \<le> gl" "gl \<le> 256" "0 \<le> gr" "gr \<le> 256"
  shows "chan_ok c \<Longrightarrow> loud b buf \<Longrightarrow> \<exists>c' buf'. chan_loop T wm wk gl gr c buf = Some (c', buf')
    \<and> chan_ok c' \<and> same_regs c c' \<and> length buf' = length buf \<and> loud (b + 8190) buf'"
proof (induction buf arbitrary: c)
  case Nil
  then show ?case by (simp add: same_regs_refl loud_def)
next
  case (Cons x buf)
  obtain l r where x: "x = (l, r)" by force
  obtain v c1 where s: "chan_sample T wm wk c = Some (v, c1)" "\<bar>v\<bar> \<le> 8190" "chan_ok c1" "same_regs c c1"
    using chan_sample_ok [OF assms(1) Cons.prems(1) assms(2,3)] by blast
  have "loud b buf" using Cons.prems(2) by (simp add: loud_def)
  from Cons.IH [OF s(3) this] obtain c2 buf2 where
    i: "chan_loop T wm wk gl gr c1 buf = Some (c2, buf2)" "chan_ok c2" "same_regs c1 c2" "length buf2 = length buf"
      "loud (b + 8190) buf2" by blast
  have "\<bar>v * gl div 2 ^ 8\<bar> \<le> 8190" "\<bar>v * gr div 2 ^ 8\<bar> \<le> 8190"
    using scaled_bound [OF s(2), of gl "2 ^ 8"] scaled_bound [OF s(2), of gr "2 ^ 8"] assms by simp_all
  moreover have "\<bar>l\<bar> \<le> b" "\<bar>r\<bar> \<le> b" using Cons.prems(2) by (simp_all add: loud_def x)
  ultimately have "\<bar>l + v * gl div 2 ^ 8\<bar> \<le> b + 8190" "\<bar>r + v * gr div 2 ^ 8\<bar> \<le> b + 8190" by linarith+
  then show ?case using s(1,4) i by (auto simp: x loud_def intro: same_regs_trans)
qed


lemma wave_at:
  assumes "tabs_ok T" "n < 4"
  shows "\<exists>w\<in>set (wave_tab T). at (wave_tab T) (int n) = Some w"
  using at_in [of "int n" "wave_tab T"] assms by (auto simp: tabs_ok_def)

lemma wave_sel:
  "tabs_ok T \<Longrightarrow> n < 4 \<Longrightarrow> \<exists>w. w \<in> set (wave_tab T) \<and> at (wave_tab T) (if ws then int n else 0) = Some w"
  using wave_at [of T n] wave_at [of T 0] by (cases ws) auto

lemma chan_render_ok:
  assumes "tabs_ok T" "0 \<le> gl" "gl \<le> 256" "0 \<le> gr" "gr \<le> 256" "chan_ok c" "loud b buf"
  shows "\<exists>c' buf'. chan_render T ws gl gr c buf = Some (c', buf') \<and> chan_ok c' \<and> same_regs c c'
    \<and> length buf' = length buf \<and> loud (b + 8190) buf'"
proof (cases "chan_silent c")
  case True
  then show ?thesis using assms(6,7) loud_mono [of b buf "b + 8190"] by (simp add: chan_render_def same_regs_refl)
next
  case False
  have "o_wave (c_mod c) < 4" "o_wave (c_car c) < 4" using assms(6) by (simp_all add: chan_ok_def op_ok_def)
  then obtain wm wk where w: "wm \<in> set (wave_tab T)" "at (wave_tab T) (if ws then int (o_wave (c_mod c)) else 0) = Some wm"
    "wk \<in> set (wave_tab T)" "at (wave_tab T) (if ws then int (o_wave (c_car c)) else 0) = Some wk"
    using wave_sel [OF assms(1)] by blast
  show ?thesis using False chan_loop_ok [OF assms(1) w(1,3) assms(2-7)] by (simp add: chan_render_def w(2,4))
qed

definition pan_ok :: "int list \<Rightarrow> bool" where
  "pan_ok p = (length p = OPL_CHANNELS \<and> (\<forall>g\<in>set p. 0 \<le> g \<and> g \<le> 256))"

lemma render_chans_ok:
  assumes "tabs_ok T"
  shows "\<forall>c\<in>set cs. chan_ok c \<Longrightarrow> \<forall>g\<in>set pl. 0 \<le> g \<and> g \<le> 256 \<Longrightarrow> \<forall>g\<in>set pr. 0 \<le> g \<and> g \<le> 256
    \<Longrightarrow> length pl = length cs \<Longrightarrow> length pr = length cs \<Longrightarrow> loud b buf
    \<Longrightarrow> \<exists>cs' buf'. render_chans T ws pl pr cs buf = Some (cs', buf') \<and> list_all2 same_regs cs cs' \<and> (\<forall>c\<in>set cs'. chan_ok c)
      \<and> length buf' = length buf \<and> loud (b + 8190 * int (length cs)) buf'"
proof (induction cs arbitrary: pl pr b buf)
  case Nil
  then show ?case by simp
next
  case (Cons c cs)
  obtain gl pl1 gr pr1 where p: "pl = gl # pl1" "pr = gr # pr1" using Cons.prems(4,5) by (cases pl; cases pr) auto
  have g: "0 \<le> gl" "gl \<le> 256" "0 \<le> gr" "gr \<le> 256" "chan_ok c" using Cons.prems(1-3) p by simp_all
  obtain c1 buf1 where c1: "chan_render T ws gl gr c buf = Some (c1, buf1)" "chan_ok c1" "same_regs c c1"
    "length buf1 = length buf" "loud (b + 8190) buf1"
    using chan_render_ok [OF assms g Cons.prems(6)] by blast
  obtain cs1 buf2 where i: "render_chans T ws pl1 pr1 cs buf1 = Some (cs1, buf2)" "list_all2 same_regs cs cs1"
    "\<forall>c\<in>set cs1. chan_ok c" "length buf2 = length buf1" "loud (b + 8190 + 8190 * int (length cs)) buf2"
    using Cons.IH [of pl1 pr1 "b + 8190" buf1] Cons.prems p c1(5) by auto
  then show ?case using c1 p by (simp add: algebra_simps)
qed

text \<open>A whole call: no table is missed, the settings stay, and each sample gains at most 18 times 8190.\<close>

lemma opl_render_ok:
  assumes "tabs_ok T" "chip_ok ch" "pan_ok pl" "pan_ok pr" "loud b buf"
  shows "\<exists>buf' ch'. opl_render T buf pl pr ch = Some (buf', ch') \<and> chip_ok ch' \<and> wave_select ch' = wave_select ch
    \<and> list_all2 same_regs (chs ch) (chs ch') \<and> length buf' = length buf \<and> loud (b + 147420) buf'"
proof -
  have h: "\<forall>c\<in>set (chs ch). chan_ok c" "\<forall>g\<in>set pl. 0 \<le> g \<and> g \<le> 256" "\<forall>g\<in>set pr. 0 \<le> g \<and> g \<le> 256"
    "length pl = length (chs ch)" "length pr = length (chs ch)" "length (chs ch) = 18"
    using assms(2-4) by (simp_all add: chip_ok_def pan_ok_def OPL_CHANNELS_def)
  obtain cs buf' where r: "render_chans T (wave_select ch) pl pr (chs ch) buf = Some (cs, buf')" "list_all2 same_regs (chs ch) cs"
    "\<forall>c\<in>set cs. chan_ok c" "length buf' = length buf" "loud (b + 8190 * int (length (chs ch))) buf'"
    using render_chans_ok [OF assms(1) h(1-5) assms(5), of "wave_select ch"] by blast
  have "length cs = OPL_CHANNELS" using list_all2_lengthD [OF r(2)] h(6) by (simp add: OPL_CHANNELS_def)
  then show ?thesis using r h(6) by (simp add: opl_render_def chip_ok_def)
qed

section \<open>A released note ends\<close>

text \<open>In the release the envelope only grows, by its step in each sample; the note is over when it is at its end.\<close>

lemma env_release:
  assumes "tabs_ok T" "op_ok p" "o_state p = EG_RELEASE"
  shows "\<exists>p'. env_step T p = Some p' \<and> op_ok p' \<and> o_rr p' = o_rr p
    \<and> (if o_env p + int (decay_step T ! o_rr p) \<ge> ENV_MAX then o_state p' = EG_OFF
       else o_state p' = EG_RELEASE \<and> o_env p' = o_env p + int (decay_step T ! o_rr p))"
proof -
  have r: "o_rr p < 16" and e: "0 \<le> o_env p" "o_env p \<le> ENV_MAX" using assms(2) by (simp_all add: op_ok_def)
  have a: "at (decay_step T) (int (o_rr p)) = Some (decay_step T ! o_rr p)" "int (decay_step T ! o_rr p) \<le> ENV_MAX"
    using assms(1) r by (auto simp: at_def tabs_ok_def)
  have m: "env_move T p = Some (p\<lparr>o_env := o_env p + int (decay_step T ! o_rr p)\<rparr>)"
    by (simp add: env_move_def assms(3) a(1) env_no_wrap [OF e a(2)])
  obtain p' where "env_step T p = Some p'" "op_ok p'" using env_step_ok [OF assms(1,2)] by blast
  then show ?thesis using m assms(3) by (auto simp: env_step_def env_clip_def Let_def)
qed

lemma env_off: "o_state p = EG_OFF \<Longrightarrow> op_ok p \<Longrightarrow> env_step T p = Some p"
  by (cases p) (simp add: env_step_def env_move_def env_clip_def op_ok_def Let_def)


text \<open>An operator that is over within \<open>n\<close> samples: off, or released with steps that reach the end.\<close>

definition ends_in :: "opl_tabs \<Rightarrow> nat \<Rightarrow> opl_op \<Rightarrow> bool" where
  "ends_in T n p = (op_ok p \<and> (o_state p = EG_OFF
     \<or> o_state p = EG_RELEASE \<and> ENV_MAX \<le> o_env p + int n * int (decay_step T ! o_rr p) \<and> 0 < n))"

lemma op_calc_ends:
  assumes "tabs_ok T" "ends_in T (Suc n) p" "op_calc T p w md = Some (v, p')"
  shows "ends_in T n p'"
proof -
  define q where "q = p\<lparr>o_phase := o_phase p + o_step p\<rparr>"
  have q: "op_ok q" "o_state q = o_state p" "o_env q = o_env p" "o_rr q = o_rr p"
    using assms(2) by (simp_all add: q_def ends_in_def op_ok_def)
  have s: "env_step T q = Some p'"
    using assms(3) unfolding op_calc_def Let_def q_def [symmetric] by (auto split: bind_splits)
  show ?thesis
  proof (cases "o_state p = EG_OFF")
    case True
    then show ?thesis using s env_off [of q T] q by (simp add: ends_in_def)
  next
    case False
    then have r: "o_state q = EG_RELEASE" "ENV_MAX \<le> o_env p + int (Suc n) * int (decay_step T ! o_rr p)"
      using assms(2) q by (simp_all add: ends_in_def)
    have p': "op_ok p'" "o_rr p' = o_rr p"
      "if o_env p + int (decay_step T ! o_rr p) \<ge> ENV_MAX then o_state p' = EG_OFF
       else o_state p' = EG_RELEASE \<and> o_env p' = o_env p + int (decay_step T ! o_rr p)"
      using env_release [OF assms(1) q(1) r(1)] s q(3,4) by simp_all
    show ?thesis
    proof (cases "o_env p + int (decay_step T ! o_rr p) \<ge> ENV_MAX")
      case True
      then show ?thesis using p' by (simp add: ends_in_def)
    next
      case False
      then have "0 < n" using r(2) by (cases n) simp_all
      then show ?thesis using False p' r(2) by (simp add: ends_in_def algebra_simps)
    qed
  qed
qed

definition chan_ends_in :: "opl_tabs \<Rightarrow> nat \<Rightarrow> opl_chan \<Rightarrow> bool" where
  "chan_ends_in T n c = (ends_in T n (c_mod c) \<and> ends_in T n (c_car c))"

lemma chan_sample_calcs:
  assumes "chan_sample T wm wk c = Some (v, c')"
  shows "\<exists>fb md mo m1 ko k1. op_calc T (c_mod c) wm fb = Some (mo, m1) \<and> op_calc T (c_car c) wk md = Some (ko, k1)
    \<and> c' = c\<lparr>c_mod := m1\<lparr>o_prev := o_out m1, o_out := mo\<rparr>, c_car := k1\<rparr>"
  using assms unfolding chan_sample_def Let_def
  by (auto simp del: split_paired_Ex split: bind_splits) (metis+)?

lemma chan_sample_ends:
  assumes "tabs_ok T" "chan_ends_in T (Suc n) c" "chan_sample T wm wk c = Some (v, c')" "chan_ok c'"
  shows "chan_ends_in T n c'"
proof -
  obtain fb md mo m1 ko k1 where s: "op_calc T (c_mod c) wm fb = Some (mo, m1)" "op_calc T (c_car c) wk md = Some (ko, k1)"
    "c' = c\<lparr>c_mod := m1\<lparr>o_prev := o_out m1, o_out := mo\<rparr>, c_car := k1\<rparr>"
    using chan_sample_calcs [OF assms(3)] by blast
  have "ends_in T n m1" "ends_in T n k1"
    using op_calc_ends [OF assms(1) _ s(1)] op_calc_ends [OF assms(1) _ s(2)] assms(2) by (simp_all add: chan_ends_in_def)
  then show ?thesis using assms(4) by (simp add: s(3) chan_ends_in_def ends_in_def chan_ok_def)
qed

lemma ends_in_mono: "ends_in T m p \<Longrightarrow> m \<le> n \<Longrightarrow> ends_in T n p"
proof -
  assume p: "ends_in T m p" and n: "m \<le> n"
  have "int m * int (decay_step T ! o_rr p) \<le> int n * int (decay_step T ! o_rr p)" using n by (intro mult_right_mono) simp_all
  then show ?thesis using p n by (auto simp: ends_in_def)
qed

lemma chan_ends_in_mono: "chan_ends_in T m c \<Longrightarrow> m \<le> n \<Longrightarrow> chan_ends_in T n c"
  using ends_in_mono by (auto simp: chan_ends_in_def)

lemma chan_loop_ends:
  assumes "tabs_ok T" "wm \<in> set (wave_tab T)" "wk \<in> set (wave_tab T)"
  shows "chan_ok c \<Longrightarrow> chan_ends_in T (length buf + n) c \<Longrightarrow> chan_loop T wm wk gl gr c buf = Some (c', buf')
    \<Longrightarrow> chan_ends_in T n c'"
proof (induction buf arbitrary: c buf')
  case Nil
  then show ?case by simp
next
  case (Cons x buf)
  obtain l r where x: "x = (l, r)" by force
  obtain v c1 where s: "chan_sample T wm wk c = Some (v, c1)" "chan_ok c1"
    using chan_sample_ok [OF assms(1) Cons.prems(1) assms(2,3)] by blast
  have e: "chan_ends_in T (length buf + n) c1"
    using chan_sample_ends [OF assms(1) _ s(1,2)] Cons.prems(2) by simp
  show ?case using Cons.IH [OF s(2) e] Cons.prems(3) by (auto simp: x s(1) split: bind_splits)
qed

lemma ends_0_off: "chan_ends_in T 0 c \<Longrightarrow> chan_silent c"
  by (auto simp: chan_ends_in_def ends_in_def chan_silent_def)

lemma silent_loop: "chan_render T ws gl gr c buf = Some (c', buf') \<Longrightarrow> chan_silent c \<Longrightarrow> c' = c"
  by (simp add: chan_render_def)

text \<open>A channel that is over now, or within \<open>n\<close> samples.\<close>

definition over_in :: "opl_tabs \<Rightarrow> nat \<Rightarrow> opl_chan \<Rightarrow> bool" where
  "over_in T n c = (chan_silent c \<or> chan_ends_in T n c)"

lemma over_in_0: "over_in T 0 c \<Longrightarrow> chan_silent c"
  using ends_0_off by (auto simp: over_in_def)

lemma chan_render_ends:
  assumes "tabs_ok T" "chan_ok c" "over_in T (length buf + n) c" "chan_render T ws gl gr c buf = Some (c', buf')"
  shows "over_in T n c'"
proof (cases "chan_silent c")
  case True
  then show ?thesis using silent_loop [OF assms(4)] by (simp add: over_in_def)
next
  case False
  obtain wm wk where w: "wm \<in> set (wave_tab T)" "wk \<in> set (wave_tab T)"
    and l: "chan_loop T wm wk gl gr c buf = Some (c', buf')"
    using assms(4) False by (auto simp: chan_render_def split: bind_splits dest: at_nth)
  have "chan_ends_in T (length buf + n) c" using assms(3) False by (simp add: over_in_def)
  then have "chan_ends_in T n c'" by (rule chan_loop_ends [OF assms(1) w assms(2) _ l])
  then show ?thesis by (simp add: over_in_def)
qed

lemma chan_render_length:
  "chan_render T ws gl gr c buf = Some (c', buf') \<Longrightarrow> length buf' = length buf"
proof -
  have "chan_loop T wm wk gl gr c buf = Some (c', buf') \<Longrightarrow> length buf' = length buf" for wm wk
    by (induction T wm wk gl gr c buf arbitrary: c' buf' rule: chan_loop.induct) (auto split: bind_splits)
  then show "chan_render T ws gl gr c buf = Some (c', buf') \<Longrightarrow> length buf' = length buf"
    by (auto simp: chan_render_def split: if_splits bind_splits)
qed

text \<open>Every channel is rendered, with a buffer of the length asked for.\<close>

lemma render_chans_nth:
  "render_chans T ws pl pr cs buf = Some (cs', buf') \<Longrightarrow> i < length cs \<Longrightarrow>
    \<exists>bi bi'. length bi = length buf \<and> chan_render T ws (pl ! i) (pr ! i) (cs ! i) bi = Some (cs' ! i, bi')"
proof (induction cs arbitrary: pl pr buf cs' buf' i)
  case (Cons c cs)
  obtain gl pl1 gr pr1 where p: "pl = gl # pl1" "pr = gr # pr1" using Cons.prems(1) by (cases pl; cases pr) auto
  obtain c1 b1 cs1 where r: "chan_render T ws gl gr c buf = Some (c1, b1)" "render_chans T ws pl1 pr1 cs b1 = Some (cs1, buf')"
    "cs' = c1 # cs1"
    using Cons.prems(1) unfolding p by (auto split: bind_splits)
  have "length b1 = length buf" by (rule chan_render_length [OF r(1)])
  then show ?case using Cons.IH [OF r(2), of "i - 1"] Cons.prems(2) r(1,3) p by (cases i) auto
qed simp

lemma opl_render_ends:
  assumes "tabs_ok T" "chip_ok ch" "opl_render T buf pl pr ch = Some (buf', ch')" "i < OPL_CHANNELS"
    and "over_in T (length buf + n) (chs ch ! i)"
  shows "over_in T n (chs ch' ! i)"
proof -
  obtain cs where r: "render_chans T (wave_select ch) pl pr (chs ch) buf = Some (cs, buf')" "chs ch' = cs"
    using assms(3) by (auto simp: opl_render_def split: bind_splits)
  have i: "i < length (chs ch)" "chan_ok (chs ch ! i)" using assms(2,4) by (simp_all add: chip_ok_def)
  obtain bi bi' where b: "length bi = length buf"
    "chan_render T (wave_select ch) (pl ! i) (pr ! i) (chs ch ! i) bi = Some (cs ! i, bi')"
    using render_chans_nth [OF r(1) i(1)] by blast
  show ?thesis unfolding r(2) by (rule chan_render_ends [OF assms(1) i(2) _ b(2)]) (simp only: b(1) assms(5))
qed

text \<open>The key of a channel that was down is written as up: it ends within \<open>ENV_MAX div d + 1\<close> samples when the
  release of both operators steps by \<open>d\<close> or more.\<close>

lemma key_off_ends:
  assumes "op_ok p" "0 < d" "d \<le> decay_step T ! o_rr p"
  shows "ends_in T (nat ENV_MAX div d + 1) (key_off p)"
proof -
  have "nat ENV_MAX < (nat ENV_MAX div d + 1) * d" using assms(2) by (simp add: add.commute dividend_less_div_times)
  also have "\<dots> \<le> (nat ENV_MAX div d + 1) * decay_step T ! o_rr p" using assms(3) by (rule mult_le_mono2)
  finally have "ENV_MAX \<le> int ((nat ENV_MAX div d + 1) * decay_step T ! o_rr p)" unfolding nat_le_iff [symmetric] by (rule less_imp_le)
  then have "ENV_MAX \<le> o_env p + int (nat ENV_MAX div d + 1) * int (decay_step T ! o_rr p)"
    using assms(1) unfolding of_nat_mult by (simp add: op_ok_def)
  then show ?thesis using key_off_ok [OF assms(1)] by (simp add: ends_in_def key_off_def)
qed

lemma write_b0_off_ends:
  assumes "chan_ok c" "c_key c" "val < 256" "drop_bit 5 val AND 1 = 0" "0 < d"
    and "d \<le> decay_step T ! o_rr (c_mod c)" "d \<le> decay_step T ! o_rr (c_car c)"
  shows "chan_ends_in T (nat ENV_MAX div d + 1) (write_b0 T val c)"
proof -
  define c1 where "c1 = set_step T (c\<lparr>c_fnum := c_fnum c AND 0xff OR push_bit 8 (val AND 3), c_block := drop_bit 2 val AND 7\<rparr>)"
  have "op_ok (c_mod c1)" "op_ok (c_car c1)" "c_key c1" "o_rr (c_mod c1) = o_rr (c_mod c)" "o_rr (c_car c1) = o_rr (c_car c)"
    using assms(1,2) by (simp_all add: c1_def set_step_def op_step_def chan_ok_def op_ok_def Let_def)
  then show ?thesis using key_off_ends [of _ d T] assms(4-7)
    unfolding write_b0_def c1_def [symmetric] set_key_def chan_ends_in_def by simp
qed

end
