(* ===== verification/OplSynth.thy ===== *)
theory OplSynth
  imports OplBounds "HOL-Library.Signed_Division"
begin

text \<open>
  The FM engine of the MIDI player, \<open>src/apps/midi/synth_opl.c\<close>: voices of GENMIDI instruments on the chip of
  \<open>OplChip\<close>. The instrument data is a list of bytes and an instrument its offset there; a read outside of it, of a
  table, or of the voices is \<open>None\<close>. What \<open>build_tables\<close> computes in floating point is the record \<open>fm_float\<close>: the
  rounded frequency numbers, and whether the amplitude after \<open>a + 1\<close> steps is still at least \<open>i\<close>.
\<close>

section \<open>State\<close>

definition NVOICES :: nat where "NVOICES = OPL_CHANNELS"
definition GAIN_MUL :: int where "GAIN_MUL = 5"
definition GAIN_SHIFT :: nat where "GAIN_SHIFT = 3"

record fm_voice =
  fv_on :: bool
  fv_sustained :: bool
  fv_chan :: nat
  fv_key :: nat
  fv_note :: int
  fv_vel :: nat
  fv_second :: bool
  fv_age :: nat
  fv_ins :: nat

record fm_chan =
  fc_program :: nat
  fc_volume :: nat
  fc_expression :: nat
  fc_pan :: nat
  fc_bend :: nat
  fc_bend_range :: nat
  fc_sustain :: bool
  fc_rpn_msb :: nat
  fc_rpn_lsb :: nat

record fm_float =
  ff_opl :: opl_float
  ff_fnum :: "nat \<Rightarrow> nat"
  ff_louder :: "nat \<Rightarrow> nat \<Rightarrow> bool"

record fm =
  fm_gm :: "byte list option"
  fm_voices :: "fm_voice list"
  fm_chans :: "fm_chan list"
  fm_pan_l :: "int list"
  fm_pan_r :: "int list"
  fm_age :: nat
  fm_fnum :: "nat list"
  fm_atten :: "nat list"
  fm_tabs :: opl_tabs
  fm_chip :: opl_chip

definition gmb :: "fm \<Rightarrow> nat \<Rightarrow> nat option" where
  "gmb s i = (case fm_gm s of None \<Rightarrow> None | Some f \<Rightarrow> if i < length f then Some (unat (f ! i)) else None)"

definition gm16 :: "fm \<Rightarrow> nat \<Rightarrow> nat option" where
  "gm16 s i = do { a \<leftarrow> gmb s i; b \<leftarrow> gmb s (i + 1); Some (a OR push_bit 8 b) }"

text \<open>The OPL register of voice \<open>v\<close>: voices from 9 on are in the second bank.\<close>

definition reg :: "nat \<Rightarrow> nat \<Rightarrow> nat" where
  "reg v base = push_bit 8 (v div 9) OR (base + v mod 9)"

definition op_reg :: "nat \<Rightarrow> nat \<Rightarrow> bool \<Rightarrow> nat" where
  "op_reg v base carrier = push_bit 8 (v div 9) OR (base + [0, 1, 2, 8, 9, 10, 16, 17, 18] ! (v mod 9) + (if carrier then 3 else 0))"

definition fm_write :: "nat \<Rightarrow> nat \<Rightarrow> fm \<Rightarrow> fm" where
  "fm_write r v s = s\<lparr>fm_chip := opl_write (fm_tabs s) r v (fm_chip s)\<rparr>"

section \<open>Tables\<close>

function atten_while :: "(nat \<Rightarrow> nat \<Rightarrow> bool) \<Rightarrow> nat \<Rightarrow> nat \<Rightarrow> nat" where
  "atten_while louder i a = (if louder a i \<and> a < 63 then atten_while louder i (a + 1) else a)"
  by pat_completeness auto
termination by (relation "measure (\<lambda>(_, _, a). 63 - a)") auto

declare atten_while.simps [simp del]

fun atten_fill :: "(nat \<Rightarrow> nat \<Rightarrow> bool) \<Rightarrow> nat \<Rightarrow> nat \<Rightarrow> nat list \<Rightarrow> nat list" where
  "atten_fill louder a 0 t = t"
| "atten_fill louder a (Suc i) t =
     (let a' = atten_while louder (Suc i) a in atten_fill louder a' i (t[Suc i := a']))"

definition build_fnum :: "fm_float \<Rightarrow> nat list" where
  "build_fnum ff = map (ff_fnum ff) [0..<384]"

definition build_atten :: "fm_float \<Rightarrow> nat list" where
  "build_atten ff = atten_fill (ff_louder ff) 0 127 ((replicate 128 0)[0 := 63])"

section \<open>A voice on its channel\<close>

definition voice_data :: "fm_voice \<Rightarrow> nat" where
  "voice_data v = fv_ins v + 4 + (if fv_second v then 16 else 0)"

definition cut63 :: "nat \<Rightarrow> nat" where
  "cut63 x = (if x > 63 then 63 else x)"

definition set_volume :: "nat \<Rightarrow> fm \<Rightarrow> fm option" where
  "set_volume vi s = do {
     v \<leftarrow> at (fm_voices s) (int vi);
     c \<leftarrow> at (fm_chans s) (int (fv_chan v));
     let vo = voice_data v;
     let amp = fv_vel v * fc_volume c div 127 * fc_expression c div 127;
     att \<leftarrow> at (fm_atten s) (int amp);
     b12 \<leftarrow> gmb s (vo + 12);
     b11 \<leftarrow> gmb s (vo + 11);
     let s1 = fm_write (op_reg vi 0x40 True) (b11 OR cut63 ((b12 AND 0x3f) + att)) s;
     b6 \<leftarrow> gmb s1 (vo + 6);
     if b6 AND 1 \<noteq> 0 then do {
       b5 \<leftarrow> gmb s1 (vo + 5);
       b4 \<leftarrow> gmb s1 (vo + 4);
       Some (fm_write (op_reg vi 0x40 False) (b4 OR cut63 ((b5 AND 0x3f) + att)) s1)
     } else Some s1
   }"

definition pan_left :: "nat \<Rightarrow> int" where
  "pan_left pan = (if pan \<le> 64 then 256 else (127 - int pan) * 256 sdiv 63)"

definition pan_right :: "nat \<Rightarrow> int" where
  "pan_right pan = (if pan \<ge> 64 then 256 else int pan * 256 sdiv 64)"

definition set_pan :: "nat \<Rightarrow> fm \<Rightarrow> fm option" where
  "set_pan vi s = do {
     v \<leftarrow> at (fm_voices s) (int vi);
     c \<leftarrow> at (fm_chans s) (int (fv_chan v));
     Some (s\<lparr>fm_pan_l := (fm_pan_l s)[vi := pan_left (fc_pan c)], fm_pan_r := (fm_pan_r s)[vi := pan_right (fc_pan c)]\<rparr>)
   }"

text \<open>The loops that move the frequency number into the eight blocks of the chip.\<close>

function block_up :: "int \<Rightarrow> nat \<Rightarrow> int \<times> nat" where
  "block_up block fnum = (if block < 0 then block_up (block + 1) (drop_bit 1 fnum) else (block, fnum))"
  by pat_completeness auto
termination by (relation "measure (\<lambda>(b, _). nat (- b))") auto

function block_down :: "int \<Rightarrow> nat \<Rightarrow> int \<times> nat" where
  "block_down block fnum = (if block > 7 then block_down (block - 1) (push_bit 1 fnum) else (block, fnum))"
  by pat_completeness auto
termination by (relation "measure (\<lambda>(b, _). nat b)") auto

declare block_up.simps [simp del] block_down.simps [simp del]

text \<open>The pitch of a note in 32nds of a semitone.\<close>

definition pitch :: "fm_voice \<Rightarrow> fm_chan \<Rightarrow> int" where
  "pitch v c = fv_note v * 32 + (int (fc_bend c) - 8192) * int (fc_bend_range c) * 32 sdiv 8192"

definition octave_of :: "int \<Rightarrow> int \<times> int" where
  "octave_of p =
     (let k = (p - 60 * 32) smod 384; oct = (p - 60 * 32) sdiv 384
      in if k < 0 then (k + 384, oct - 1) else (k, oct))"

definition set_freq :: "nat \<Rightarrow> bool \<Rightarrow> fm \<Rightarrow> fm option" where
  "set_freq vi key s = do {
     v \<leftarrow> at (fm_voices s) (int vi);
     c \<leftarrow> at (fm_chans s) (int (fv_chan v));
     p1 \<leftarrow> (if fv_second v then do {
              b2 \<leftarrow> gmb s (fv_ins v + 2);
              Some (pitch v c + (int b2 - 128) sdiv 2)
            } else Some (pitch v c));
     let p = (if p1 < 0 then 0 else p1);
     let (k, oct) = octave_of p;
     f0 \<leftarrow> at (fm_fnum s) k;
     let (b1, f1) = block_up (4 + oct) f0;
     let (block, f2) = block_down b1 f1;
     let fnum = (if f2 > 1023 then 1023 else f2);
     let s1 = fm_write (reg vi 0xa0) (fnum AND 0xff) s;
     Some (fm_write (reg vi 0xb0) ((if key then 0x20 else 0) OR push_bit 2 (nat block) OR drop_bit 8 fnum) s1)
   }"

definition set_voice :: "nat \<Rightarrow> (fm_voice \<Rightarrow> fm_voice) \<Rightarrow> fm \<Rightarrow> fm" where
  "set_voice vi f s = s\<lparr>fm_voices := (fm_voices s)[vi := f (fm_voices s ! vi)]\<rparr>"

text \<open>\<open>++age_counter\<close>\<close>

definition tick_age :: "fm \<Rightarrow> fm" where
  "tick_age s = s\<lparr>fm_age := add32 (fm_age s) 1\<rparr>"

definition voice_off :: "nat \<Rightarrow> fm \<Rightarrow> fm option" where
  "voice_off vi s = do {
     v \<leftarrow> at (fm_voices s) (int vi);
     if fv_on v then (let s1 = tick_age s
       in set_freq vi False (set_voice vi (\<lambda>v. v\<lparr>fv_on := False, fv_sustained := False, fv_age := fm_age s1\<rparr>) s1))
     else Some s
   }"

text \<open>One pass of \<open>alloc_voice\<close>: the smallest age among the voices looked at, from \<open>~0u\<close> on.\<close>

definition oldest_pass :: "(fm_voice \<Rightarrow> bool) \<Rightarrow> fm_voice list \<Rightarrow> nat option \<times> nat \<Rightarrow> nat option \<times> nat" where
  "oldest_pass P vs start =
     fold (\<lambda>i (best, best_age). if P (vs ! i) \<and> fv_age (vs ! i) < best_age then (Some i, fv_age (vs ! i)) else (best, best_age))
       [0..<length vs] start"

definition alloc_voice :: "fm \<Rightarrow> (nat \<times> fm) option" where
  "alloc_voice s =
     (let (best, best_age) = oldest_pass (\<lambda>v. \<not> fv_on v) (fm_voices s) (None, two32 - 1)
      in case best of
           Some b \<Rightarrow> Some (b, s)
         | None \<Rightarrow> do {
             b \<leftarrow> fst (oldest_pass (\<lambda>v. True) (fm_voices s) (None, best_age));
             s1 \<leftarrow> voice_off b s;
             Some (b, s1)
           })"

definition clip_note :: "int \<Rightarrow> int" where
  "clip_note play = (if play < 0 then 0 else if play > 127 then 127 else play)"

definition write_byte :: "nat \<Rightarrow> nat \<Rightarrow> fm \<Rightarrow> fm option" where
  "write_byte r i s = do { b \<leftarrow> gmb s i; Some (fm_write r b s) }"

text \<open>The patch of a voice: the registers of its two operators and of its channel.\<close>

definition load_patch :: "nat \<Rightarrow> nat \<Rightarrow> fm \<Rightarrow> fm option" where
  "load_patch vi vo s = do {
     s \<leftarrow> write_byte (op_reg vi 0x20 False) vo s;
     s \<leftarrow> write_byte (op_reg vi 0x60 False) (vo + 1) s;
     s \<leftarrow> write_byte (op_reg vi 0x80 False) (vo + 2) s;
     s \<leftarrow> write_byte (op_reg vi 0xe0 False) (vo + 3) s;
     b4 \<leftarrow> gmb s (vo + 4);
     b5 \<leftarrow> gmb s (vo + 5);
     let s = fm_write (op_reg vi 0x40 False) (b4 OR b5 AND 0x3f) s;
     s \<leftarrow> write_byte (op_reg vi 0x20 True) (vo + 7) s;
     s \<leftarrow> write_byte (op_reg vi 0x60 True) (vo + 8) s;
     s \<leftarrow> write_byte (op_reg vi 0x80 True) (vo + 9) s;
     s \<leftarrow> write_byte (op_reg vi 0xe0 True) (vo + 10) s;
     b6 \<leftarrow> gmb s (vo + 6);
     Some (fm_write (reg vi 0xc0) (b6 OR 0x30) s)
   }"

definition start_voice :: "nat \<Rightarrow> nat \<Rightarrow> nat \<Rightarrow> nat \<Rightarrow> bool \<Rightarrow> fm \<Rightarrow> fm option" where
  "start_voice ch key vel ins second s = do {
     let vo = ins + 4 + (if second then 16 else 0);
     (vi, s) \<leftarrow> alloc_voice s;
     flags \<leftarrow> gm16 s ins;
     play0 \<leftarrow> (if flags AND 1 \<noteq> 0 then gmb s (ins + 3) else Some key);
     off \<leftarrow> gm16 s (vo + 14);
     let play = clip_note (int play0 + i16 off);
     s \<leftarrow> set_freq vi False s;
     let s = tick_age s;
     let s = set_voice vi (\<lambda>_. \<lparr>fv_on = True, fv_sustained = False, fv_chan = ch, fv_key = key, fv_note = play,
       fv_vel = vel, fv_second = second, fv_age = fm_age s, fv_ins = ins\<rparr>) s;
     s \<leftarrow> load_patch vi vo s;
     s \<leftarrow> set_volume vi s;
     s \<leftarrow> set_pan vi s;
     set_freq vi True s
   }"

section \<open>Events\<close>

definition fm_start :: "nat \<Rightarrow> nat \<Rightarrow> nat \<Rightarrow> nat \<Rightarrow> fm \<Rightarrow> fm option" where
  "fm_start ch key vel ins s = do {
     s1 \<leftarrow> start_voice ch key vel ins False s;
     flags \<leftarrow> gm16 s1 ins;
     if flags AND 4 \<noteq> 0 then start_voice ch key vel ins True s1 else Some s1
   }"

definition s_note_on :: "nat \<Rightarrow> nat \<Rightarrow> nat \<Rightarrow> fm \<Rightarrow> fm option" where
  "s_note_on ch key vel s =
     (if fm_gm s = None then Some s
      else if ch = 9 then
        (if key < 35 \<or> key > 81 then Some s else fm_start ch key vel (8 + (128 + key - 35) * 36) s)
      else do {
        c \<leftarrow> at (fm_chans s) (int ch);
        fm_start ch key vel (8 + fc_program c * 36) s
      })"

text \<open>A loop over the voices whose body may fail.\<close>

fun for_voices :: "(nat \<Rightarrow> fm \<Rightarrow> fm option) \<Rightarrow> nat list \<Rightarrow> fm \<Rightarrow> fm option" where
  "for_voices f [] s = Some s"
| "for_voices f (i # is) s = do { s1 \<leftarrow> f i s; for_voices f is s1 }"

definition note_off_voice :: "nat \<Rightarrow> nat \<Rightarrow> nat \<Rightarrow> fm \<Rightarrow> fm option" where
  "note_off_voice ch key i s = do {
     v \<leftarrow> at (fm_voices s) (int i);
     if fv_on v \<and> fv_chan v = ch \<and> fv_key v = key then do {
       c \<leftarrow> at (fm_chans s) (int ch);
       if fc_sustain c then Some (set_voice i (\<lambda>v. v\<lparr>fv_sustained := True\<rparr>) s) else voice_off i s
     } else Some s
   }"

definition s_note_off :: "nat \<Rightarrow> nat \<Rightarrow> fm \<Rightarrow> fm option" where
  "s_note_off ch key s = for_voices (note_off_voice ch key) [0..<NVOICES] s"

definition if_sounding :: "nat \<Rightarrow> (nat \<Rightarrow> fm \<Rightarrow> fm option) \<Rightarrow> nat \<Rightarrow> fm \<Rightarrow> fm option" where
  "if_sounding ch fn i s = do {
     v \<leftarrow> at (fm_voices s) (int i);
     if fv_on v \<and> fv_chan v = ch then fn i s else Some s
   }"

definition each_voice :: "nat \<Rightarrow> (nat \<Rightarrow> fm \<Rightarrow> fm option) \<Rightarrow> fm \<Rightarrow> fm option" where
  "each_voice ch fn s = for_voices (if_sounding ch fn) [0..<NVOICES] s"

definition set_chan :: "nat \<Rightarrow> (fm_chan \<Rightarrow> fm_chan) \<Rightarrow> fm \<Rightarrow> fm" where
  "set_chan ch f s = s\<lparr>fm_chans := (fm_chans s)[ch := f (fm_chans s ! ch)]\<rparr>"

definition s_program :: "nat \<Rightarrow> nat \<Rightarrow> fm \<Rightarrow> fm" where
  "s_program ch prog s = set_chan ch (\<lambda>c. c\<lparr>fc_program := prog AND 127\<rparr>) s"

definition unsustain_voice :: "nat \<Rightarrow> nat \<Rightarrow> fm \<Rightarrow> fm option" where
  "unsustain_voice ch i s = do {
     v \<leftarrow> at (fm_voices s) (int i);
     if fv_on v \<and> fv_chan v = ch \<and> fv_sustained v then voice_off i s else Some s
   }"

definition silence_voice :: "nat \<Rightarrow> nat \<Rightarrow> fm \<Rightarrow> fm option" where
  "silence_voice ch i s = do {
     v \<leftarrow> at (fm_voices s) (int i);
     if fv_chan v = ch then voice_off i s else Some s
   }"

definition s_control :: "nat \<Rightarrow> nat \<Rightarrow> nat \<Rightarrow> fm \<Rightarrow> fm option" where
  "s_control ch cc val s =
     (if cc = 7 then each_voice ch set_volume (set_chan ch (\<lambda>c. c\<lparr>fc_volume := val\<rparr>) s)
      else if cc = 11 then each_voice ch set_volume (set_chan ch (\<lambda>c. c\<lparr>fc_expression := val\<rparr>) s)
      else if cc = 10 then each_voice ch set_pan (set_chan ch (\<lambda>c. c\<lparr>fc_pan := val\<rparr>) s)
      else if cc = 64 then
        (let s1 = set_chan ch (\<lambda>c. c\<lparr>fc_sustain := (val \<ge> 64)\<rparr>) s
         in if \<not> val \<ge> 64 then for_voices (unsustain_voice ch) [0..<NVOICES] s1 else Some s1)
      else if cc = 101 then Some (set_chan ch (\<lambda>c. c\<lparr>fc_rpn_msb := val\<rparr>) s)
      else if cc = 100 then Some (set_chan ch (\<lambda>c. c\<lparr>fc_rpn_lsb := val\<rparr>) s)
      else if cc = 6 then
        Some (set_chan ch (\<lambda>c. if fc_rpn_msb c = 0 \<and> fc_rpn_lsb c = 0
                                then c\<lparr>fc_bend_range := (if val > 24 then 24 else val)\<rparr> else c) s)
      else if cc = 120 \<or> cc = 123 then for_voices (silence_voice ch) [0..<NVOICES] s
      else if cc = 121 then Some (set_chan ch (\<lambda>c. c\<lparr>fc_expression := 127, fc_bend := 8192, fc_sustain := False\<rparr>) s)
      else Some s)"

definition s_bend :: "nat \<Rightarrow> nat \<Rightarrow> fm \<Rightarrow> fm option" where
  "s_bend ch v s = each_voice ch (\<lambda>vi. set_freq vi True) (set_chan ch (\<lambda>c. c\<lparr>fc_bend := v\<rparr>) s)"

definition reset_voice :: "nat \<Rightarrow> fm \<Rightarrow> fm option" where
  "reset_voice i s = do { s1 \<leftarrow> voice_off i s; Some (set_voice i (\<lambda>v. v\<lparr>fv_age := 0\<rparr>) s1) }"

definition chan_default :: fm_chan where
  "chan_default = \<lparr>fc_program = 0, fc_volume = 100, fc_expression = 127, fc_pan = 64, fc_bend = 8192,
     fc_bend_range = 2, fc_sustain = False, fc_rpn_msb = 127, fc_rpn_lsb = 127\<rparr>"

definition s_reset :: "fm \<Rightarrow> fm option" where
  "s_reset s = do {
     s1 \<leftarrow> for_voices reset_voice [0..<NVOICES] s;
     Some (s1\<lparr>fm_chans := replicate 16 chan_default\<rparr>)
   }"

text \<open>\<open>s_render\<close> adds to the caller's buffers, 256 samples at a time.\<close>

definition mix_gain :: "int \<times> int \<Rightarrow> int \<times> int \<Rightarrow> int \<times> int" where
  "mix_gain lr t = (fst lr + fst t * GAIN_MUL div 2 ^ GAIN_SHIFT, snd lr + snd t * GAIN_MUL div 2 ^ GAIN_SHIFT)"

function s_render :: "(int \<times> int) list \<Rightarrow> fm \<Rightarrow> ((int \<times> int) list \<times> fm) option" where
  "s_render buf s =
     (if buf = [] then Some ([], s)
      else do {
        let m = min 256 (length buf);
        (t, ch) \<leftarrow> opl_render (fm_tabs s) (replicate m (0, 0)) (fm_pan_l s) (fm_pan_r s) (fm_chip s);
        (rest, s2) \<leftarrow> s_render (drop m buf) (s\<lparr>fm_chip := ch\<rparr>);
        Some (map2 mix_gain (take m buf) t @ rest, s2)
      })"
  by pat_completeness auto
termination by (relation "measure (\<lambda>(buf, _). length buf)") auto

declare s_render.simps [simp del]

definition s_voices :: "fm \<Rightarrow> nat" where
  "s_voices s = length (filter fv_on (fm_voices s))"

definition voice_zero :: fm_voice where
  "voice_zero = \<lparr>fv_on = False, fv_sustained = False, fv_chan = 0, fv_key = 0, fv_note = 0, fv_vel = 0, fv_second = False,
     fv_age = 0, fv_ins = 0\<rparr>"

definition synth_opl_init :: "fm_float \<Rightarrow> byte list option \<Rightarrow> fm \<Rightarrow> (int \<times> fm) option" where
  "synth_opl_init ff genmidi s =
     (case genmidi of
        None \<Rightarrow> Some (- 1, s\<lparr>fm_gm := None\<rparr>)
      | Some f \<Rightarrow>
          if length f < 8 + 175 * 36 \<or> take 8 f \<noteq> [0x23, 0x4f, 0x50, 0x4c, 0x5f, 0x49, 0x49, 0x23]
          then Some (- 1, s\<lparr>fm_gm := None\<rparr>)
          else do {
            let s1 = s\<lparr>fm_gm := Some f, fm_fnum := build_fnum ff, fm_atten := build_atten ff,
                       fm_tabs := opl_init_tabs (ff_opl ff), fm_chip := opl_reset\<rparr>;
            let s2 = fm_write 0x01 0x20 s1;
            s3 \<leftarrow> s_reset (s2\<lparr>fm_voices := replicate NVOICES voice_zero\<rparr>);
            Some (0, s3)
          })"

end
