(* ===== verification/OplVoices.thy ===== *)
theory OplVoices
  imports OplSynth
begin

text \<open>
  The FM engine in order: which channel a register write of a voice reaches, what each operation of
  \<open>OplSynth\<close> keeps, and that none of them misses a table, a voice or the instrument data.
\<close>

section \<open>Registers of a voice\<close>

lemma lt18: "v < OPL_CHANNELS \<Longrightarrow> v \<in> {0, 1, 2, 3, 4, 5, 6, 7, 8, 9, 10, 11, 12, 13, 14, 15, 16, 17 :: nat}"
  unfolding OPL_CHANNELS_def insert_iff empty_iff by arith

definition op_bases :: "nat set" where
  "op_bases = {0x20, 0x40, 0x60, 0x80, 0xe0}"

lemma op_reg_table:
  "\<forall>v\<in>{0, 1, 2, 3, 4, 5, 6, 7, 8, 9, 10, 11, 12, 13, 14, 15, 16, 17 :: nat}. \<forall>base\<in>op_bases. \<forall>car\<in>{False, True}.
     (op_reg v base car AND 0xff) AND 0xe0 = base \<and> \<not> (op_reg v base car AND 0xff) = 1
     \<and> op_of_off (drop_bit 8 (op_reg v base car) AND 1) ((op_reg v base car AND 0xff) - base) = Some (v, car)"
  unfolding op_bases_def by (simp add: op_reg_def op_of_off_def slot_of_off_def)

lemma reg_table:
  "\<forall>v\<in>{0, 1, 2, 3, 4, 5, 6, 7, 8, 9, 10, 11, 12, 13, 14, 15, 16, 17 :: nat}.
     opl_write T (reg v 0xa0) val ch = upd_chan v (write_a0 T (val AND 0xff)) ch
     \<and> opl_write T (reg v 0xb0) val ch = upd_chan v (write_b0 T (val AND 0xff)) ch
     \<and> opl_write T (reg v 0xc0) val ch
       = upd_chan v (\<lambda>c. c\<lparr>c_fb := drop_bit 1 (val AND 0xff) AND 7, c_conn := ((val AND 0xff) AND 1 = 1)\<rparr>) ch"
  by (simp add: reg_def opl_write_def numeral_2_eq_2 [symmetric])

text \<open>What a write to a channel of the chip leaves: the other channels, and the key of this one.\<close>

definition chan_only :: "nat \<Rightarrow> bool \<Rightarrow> opl_chip \<Rightarrow> opl_chip \<Rightarrow> bool" where
  "chan_only vi key ch ch' = (length (chs ch') = length (chs ch) \<and> (\<forall>j. j \<noteq> vi \<longrightarrow> chs ch' ! j = chs ch ! j)
     \<and> (vi < length (chs ch) \<longrightarrow> c_key (chs ch' ! vi) = key) \<and> (chip_ok ch \<longrightarrow> chip_ok ch'))"

lemma chan_only_trans: "chan_only vi k1 a b \<Longrightarrow> chan_only vi k b c \<Longrightarrow> chan_only vi k a c"
  by (simp add: chan_only_def)

lemma chan_only_refl: "chan_only vi (c_key (chs ch ! vi)) ch ch"
  by (simp add: chan_only_def)

lemma opl_write_op_reg:
  assumes "vi < OPL_CHANNELS" "base \<in> op_bases"
  shows "\<exists>f. opl_write T (op_reg vi base car) val ch = upd_op (Some (vi, car)) f ch"
proof -
  have t: "(op_reg vi base car AND 0xff) AND 0xe0 = base" "\<not> (op_reg vi base car AND 0xff) = 1"
    "op_of_off (drop_bit 8 (op_reg vi base car) AND 1) ((op_reg vi base car AND 0xff) - base) = Some (vi, car)"
    using op_reg_table [THEN bspec, OF lt18 [OF assms(1)], THEN bspec, OF assms(2), THEN bspec, of car] by simp_all
  have "base = 0x20 \<or> base = 0x40 \<or> base = 0x60 \<or> base = 0x80 \<or> base = 0xe0" using assms(2) by (simp add: op_bases_def)
  then show ?thesis
    by (elim disjE) (use t in \<open>simp only: opl_write_def Let_def simp_thms if_True if_False; simp; blast\<close>)+
qed

lemma op_reg_only:
  assumes "vi < OPL_CHANNELS" "base \<in> op_bases"
  shows "chan_only vi (c_key (chs ch ! vi)) ch (opl_write T (op_reg vi base car) val ch)"
proof -
  obtain f where f: "opl_write T (op_reg vi base car) val ch = upd_op (Some (vi, car)) f ch"
    using opl_write_op_reg [OF assms] by blast
  have "chip_ok ch \<Longrightarrow> chip_ok (upd_op (Some (vi, car)) f ch)" unfolding f [symmetric] by (rule opl_write_ok)
  then show ?thesis unfolding f by (simp add: chan_only_def upd_op_def upd_chan_def)
qed

lemma reg_a0_only: "vi < OPL_CHANNELS \<Longrightarrow> chan_only vi (c_key (chs ch ! vi)) ch (opl_write T (reg vi 0xa0) val ch)"
proof -
  assume v: "vi < OPL_CHANNELS"
  have e: "opl_write T (reg vi 0xa0) val ch = upd_chan vi (write_a0 T (val AND 0xff)) ch"
    using reg_table lt18 [OF v] by blast
  have "chip_ok ch \<Longrightarrow> chip_ok (upd_chan vi (write_a0 T (val AND 0xff)) ch)" unfolding e [symmetric] by (rule opl_write_ok)
  then show ?thesis unfolding e
    by (simp add: chan_only_def upd_chan_def write_a0_def set_step_def Let_def)
qed

lemma reg_c0_only: "vi < OPL_CHANNELS \<Longrightarrow> chan_only vi (c_key (chs ch ! vi)) ch (opl_write T (reg vi 0xc0) val ch)"
proof -
  assume v: "vi < OPL_CHANNELS"
  obtain f where e: "opl_write T (reg vi 0xc0) val ch = upd_chan vi (\<lambda>c. c\<lparr>c_fb := fst (f :: nat \<times> bool), c_conn := snd f\<rparr>) ch"
    using reg_table lt18 [OF v] by fastforce
  have "chip_ok ch \<Longrightarrow> chip_ok (upd_chan vi (\<lambda>c. c\<lparr>c_fb := fst f, c_conn := snd f\<rparr>) ch)" unfolding e [symmetric] by (rule opl_write_ok)
  then show ?thesis unfolding e by (simp add: chan_only_def upd_chan_def)
qed

lemma reg_b0_only:
  "vi < OPL_CHANNELS \<Longrightarrow> chan_only vi (drop_bit 5 (val AND 0xff) AND 1 = 1) ch (opl_write T (reg vi 0xb0) val ch)"
proof -
  assume v: "vi < OPL_CHANNELS"
  have e: "opl_write T (reg vi 0xb0) val ch = upd_chan vi (write_b0 T (val AND 0xff)) ch"
    using reg_table lt18 [OF v] by blast
  have "chip_ok ch \<Longrightarrow> chip_ok (upd_chan vi (write_b0 T (val AND 0xff)) ch)" unfolding e [symmetric] by (rule opl_write_ok)
  then show ?thesis unfolding e
    by (simp add: chan_only_def upd_chan_def write_b0_def set_key_def Let_def)
qed

section \<open>Pitch\<close>

lemma smod_384: "(x :: int) smod 384 = (if 0 \<le> x then x mod 384 else - ((- x) mod 384))"
  by (simp add: signed_modulo_int_def signed_divide_int_def minus_mult_div_eq_mod [symmetric] sgn_if abs_if algebra_simps)

lemma sdiv_384: "(x :: int) sdiv 384 = (if 0 \<le> x then x div 384 else - ((- x) div 384))"
  by (simp add: signed_divide_int_def sgn_if abs_if)

text \<open>The division of C that rounds to zero, mended, is the division that rounds down.\<close>

lemma octave_floor: "octave_of p = ((p - 1920) mod 384, (p - 1920) div 384)"
proof -
  define x where "x = p - 1920"
  have neg: "x < 0 \<Longrightarrow> (- x) mod 384 = (if x mod 384 = 0 then 0 else 384 - x mod 384)" "x < 0 \<Longrightarrow> - ((- x) div 384) = (if x mod 384 = 0 then x div 384 else x div 384 + 1)"
    by (simp_all add: zmod_zminus1_eq_if zdiv_zminus1_eq_if)
  have "0 \<le> x mod 384" "x mod 384 < 384" by simp_all
  then show ?thesis unfolding octave_of_def Let_def smod_384 sdiv_384
    using neg by (auto simp: x_def [symmetric])
qed

lemma block_up_eq: "block_up b f = (if b < 0 then (0, drop_bit (nat (- b)) f) else (b, f))"
proof (induction b f rule: block_up.induct)
  case (1 b f)
  show ?case
  proof (cases "b < 0")
    case True
    then have "nat (- b) = Suc (nat (- (b + 1)))" by simp
    then show ?thesis using 1 True by (subst block_up.simps) (auto simp: drop_bit_Suc drop_bit_eq_div div_mult2_eq)
  next
    case False
    then show ?thesis by (subst block_up.simps) simp
  qed
qed

lemma block_down_range: "0 \<le> b \<Longrightarrow> 0 \<le> fst (block_down b f) \<and> fst (block_down b f) \<le> 7"
proof (induction b f rule: block_down.induct)
  case (1 b f)
  then show ?case by (subst block_down.simps) (auto simp: block_down.simps)
qed

lemma block_down_id: "b \<le> 7 \<Longrightarrow> block_down b f = (b, f)"
  by (subst block_down.simps) simp

text \<open>The byte for register \<open>0xb0\<close>: key, block and the top of the frequency number do not disturb each other.\<close>

lemma b0_table:
  "\<forall>b\<in>{0, 1, 2, 3, 4, 5, 6, 7 :: nat}. \<forall>h\<in>{0, 1, 2, 3 :: nat}. \<forall>key\<in>{False, True}.
     let val = (if key then 0x20 else 0) OR push_bit 2 b OR h
     in val AND 0xff = val \<and> (drop_bit 5 val AND 1 = 1) = key \<and> drop_bit 2 val AND 7 = b \<and> val AND 3 = h"
  by simp


section \<open>The state in order\<close>

definition voice_ok :: "byte list \<Rightarrow> fm_voice \<Rightarrow> bool" where
  "voice_ok f v = (fv_chan v < 16 \<and> fv_vel v \<le> 127 \<and> fv_ins v + 36 \<le> length f)"

definition fm_chan_ok :: "fm_chan \<Rightarrow> bool" where
  "fm_chan_ok c = (fc_program c < 128 \<and> fc_volume c \<le> 127 \<and> fc_expression c \<le> 127 \<and> fc_pan c \<le> 127)"

text \<open>Everything but the keys of the chip.\<close>

definition fm_base :: "byte list \<Rightarrow> fm \<Rightarrow> bool" where
  "fm_base f s = (fm_gm s = Some f \<and> 6308 \<le> length f
     \<and> length (fm_voices s) = 18 \<and> (\<forall>v\<in>set (fm_voices s). voice_ok f v \<and> fv_age v \<le> fm_age s)
     \<and> length (fm_chans s) = 16 \<and> (\<forall>c\<in>set (fm_chans s). fm_chan_ok c)
     \<and> pan_ok (fm_pan_l s) \<and> pan_ok (fm_pan_r s) \<and> length (fm_fnum s) = 384
     \<and> length (fm_atten s) = 128 \<and> (\<forall>a\<in>set (fm_atten s). a \<le> 63) \<and> tabs_ok (fm_tabs s) \<and> chip_ok (fm_chip s))"

text \<open>The key of a channel of the chip is down exactly when its voice is on; the pedal holds only voices that are on.\<close>

definition fm_synced :: "fm \<Rightarrow> bool" where
  "fm_synced s = (\<forall>i<18. c_key (chs (fm_chip s) ! i) = fv_on (fm_voices s ! i)
     \<and> (fv_sustained (fm_voices s ! i) \<longrightarrow> fv_on (fm_voices s ! i)))"

definition fm_ok :: "byte list \<Rightarrow> fm \<Rightarrow> bool" where
  "fm_ok f s = (fm_base f s \<and> fm_synced s)"

text \<open>The counter of ages has room for \<open>n\<close> more steps.\<close>

definition room :: "nat \<Rightarrow> fm \<Rightarrow> bool" where
  "room n s = (fm_age s + n < two32 - 1)"

text \<open>What an operation on the voices \<open>V\<close> leaves alone, and how far it moves the counter of ages.\<close>

definition touch :: "nat set \<Rightarrow> nat \<Rightarrow> fm \<Rightarrow> fm \<Rightarrow> bool" where
  "touch V n s s' = (fm_chans s' = fm_chans s \<and> fm_fnum s' = fm_fnum s \<and> fm_atten s' = fm_atten s \<and> fm_tabs s' = fm_tabs s
     \<and> (\<forall>j. j \<notin> V \<longrightarrow> fm_voices s' ! j = fm_voices s ! j \<and> chs (fm_chip s') ! j = chs (fm_chip s) ! j)
     \<and> fm_age s \<le> fm_age s' \<and> fm_age s' \<le> fm_age s + n)"

lemma touch_refl: "touch {} 0 s s"
  by (simp add: touch_def)

lemma touch_trans: "touch V m a b \<Longrightarrow> touch W n b c \<Longrightarrow> touch (V \<union> W) (m + n) a c"
  by (simp add: touch_def)

lemma touch_mono: "touch V m a b \<Longrightarrow> V \<subseteq> W \<Longrightarrow> m \<le> n \<Longrightarrow> touch W n a b"
  unfolding touch_def by (blast intro: le_trans add_le_mono1 add_left_mono)

lemma touch_room: "touch V m a b \<Longrightarrow> room (m + n) a \<Longrightarrow> room n b"
  by (simp add: touch_def room_def)

lemma fm_base_parts:
  assumes "fm_base f s" "vi < 18"
  shows "at (fm_voices s) (int vi) = Some (fm_voices s ! vi)" "voice_ok f (fm_voices s ! vi)"
    "fv_age (fm_voices s ! vi) \<le> fm_age s"
    "at (fm_chans s) (int (fv_chan (fm_voices s ! vi))) = Some (fm_chans s ! fv_chan (fm_voices s ! vi))"
    "fm_chan_ok (fm_chans s ! fv_chan (fm_voices s ! vi))"
proof -
  have v: "fm_voices s ! vi \<in> set (fm_voices s)" using assms by (simp add: fm_base_def)
  then show "voice_ok f (fm_voices s ! vi)" "fv_age (fm_voices s ! vi) \<le> fm_age s" using assms(1) by (simp_all add: fm_base_def)
  then have "fv_chan (fm_voices s ! vi) < length (fm_chans s)" using assms(1) by (simp add: fm_base_def voice_ok_def)
  then show "at (fm_chans s) (int (fv_chan (fm_voices s ! vi))) = Some (fm_chans s ! fv_chan (fm_voices s ! vi))"
    "fm_chan_ok (fm_chans s ! fv_chan (fm_voices s ! vi))" using assms(1) by (simp_all add: fm_base_def at_def)
  show "at (fm_voices s) (int vi) = Some (fm_voices s ! vi)" using assms by (simp add: fm_base_def at_def)
qed

lemma gmb_Some: "fm_gm s = Some f \<Longrightarrow> i < length f \<Longrightarrow> gmb s i = Some (unat (f ! i))"
  by (simp add: gmb_def)

section \<open>One voice at a time\<close>

text \<open>A step that writes to the channel of one voice only.\<close>

definition chip_step :: "nat \<Rightarrow> bool \<Rightarrow> fm \<Rightarrow> fm \<Rightarrow> bool" where
  "chip_step vi key s s' = (\<exists>ch'. s' = s\<lparr>fm_chip := ch'\<rparr> \<and> chan_only vi key (fm_chip s) ch')"

definition key_of :: "nat \<Rightarrow> fm \<Rightarrow> bool" where
  "key_of vi s = c_key (chs (fm_chip s) ! vi)"

lemma chip_step_refl: "chip_step vi (key_of vi s) s s"
  unfolding chip_step_def key_of_def using chan_only_refl by (intro exI [of _ "fm_chip s"]) simp

lemma chip_step_trans: "chip_step vi k1 a b \<Longrightarrow> chip_step vi k b c \<Longrightarrow> chip_step vi k a c"
proof -
  assume "chip_step vi k1 a b" "chip_step vi k b c"
  then obtain ch1 ch2 where "b = a\<lparr>fm_chip := ch1\<rparr>" "chan_only vi k1 (fm_chip a) ch1" "c = b\<lparr>fm_chip := ch2\<rparr>"
    "chan_only vi k (fm_chip b) ch2" unfolding chip_step_def by blast
  then show ?thesis unfolding chip_step_def using chan_only_trans [of vi k1 "fm_chip a" ch1 k ch2] by (intro exI [of _ ch2]) simp
qed

lemma chip_step_key: "chip_step vi k s s' \<Longrightarrow> fm_base f s \<Longrightarrow> vi < 18 \<Longrightarrow> key_of vi s' = k"
  by (auto simp: chip_step_def chan_only_def key_of_def fm_base_def chip_ok_def OPL_CHANNELS_def)

lemma chip_step_base: "chip_step vi k s s' \<Longrightarrow> fm_base f s \<Longrightarrow> fm_base f s' \<and> touch {vi} 0 s s' \<and> fm_voices s' = fm_voices s
    \<and> fm_age s' = fm_age s"
  by (auto simp: chip_step_def chan_only_def fm_base_def touch_def)

lemma write_op_step:
  "vi < 18 \<Longrightarrow> base \<in> op_bases \<Longrightarrow> chip_step vi (key_of vi s) s (fm_write (op_reg vi base car) v s)"
  unfolding chip_step_def fm_write_def key_of_def using op_reg_only [of vi base "fm_chip s"] by (auto simp: OPL_CHANNELS_def)

lemma write_a0_step: "vi < 18 \<Longrightarrow> chip_step vi (key_of vi s) s (fm_write (reg vi 0xa0) v s)"
  unfolding chip_step_def fm_write_def key_of_def using reg_a0_only [of vi "fm_chip s"] by (auto simp: OPL_CHANNELS_def)

lemma write_c0_step: "vi < 18 \<Longrightarrow> chip_step vi (key_of vi s) s (fm_write (reg vi 0xc0) v s)"
  unfolding chip_step_def fm_write_def key_of_def using reg_c0_only [of vi "fm_chip s"] by (auto simp: OPL_CHANNELS_def)

lemma write_b0_step: "vi < 18 \<Longrightarrow> chip_step vi (drop_bit 5 (v AND 0xff) AND 1 = 1) s (fm_write (reg vi 0xb0) v s)"
  unfolding chip_step_def fm_write_def using reg_b0_only [of vi v "fm_chip s"] by (auto simp: OPL_CHANNELS_def)

lemma fm_write_keeps [simp]:
  "fm_gm (fm_write r v s) = fm_gm s" "fm_voices (fm_write r v s) = fm_voices s" "fm_chans (fm_write r v s) = fm_chans s"
  "gmb (fm_write r v s) i = gmb s i"
  by (simp_all add: fm_write_def gmb_def)

text \<open>Steps that keep the key.\<close>

definition quiet :: "nat \<Rightarrow> fm \<Rightarrow> fm \<Rightarrow> bool" where
  "quiet vi s s' = chip_step vi (key_of vi s) s s'"

lemma quiet_trans: "fm_base f a \<Longrightarrow> vi < 18 \<Longrightarrow> quiet vi a b \<Longrightarrow> quiet vi b c \<Longrightarrow> quiet vi a c"
proof -
  assume a: "fm_base f a" "vi < 18" and q: "quiet vi a b" "quiet vi b c"
  have k: "key_of vi b = key_of vi a" using q(1) unfolding quiet_def by (rule chip_step_key [OF _ a])
  show ?thesis using q chip_step_trans [of vi "key_of vi a" a b "key_of vi a" c] unfolding quiet_def k by simp
qed

lemma quiet_base: "quiet vi s s' \<Longrightarrow> fm_base f s \<Longrightarrow> fm_base f s'"
  unfolding quiet_def using chip_step_base by blast

lemma base_regs: "0x20 \<in> op_bases" "0x40 \<in> op_bases" "0x60 \<in> op_bases" "0x80 \<in> op_bases" "0xe0 \<in> op_bases"
  by (simp_all add: op_bases_def)

lemma set_volume_quiet:
  assumes "fm_base f s" "vi < 18"
  shows "\<exists>s'. set_volume vi s = Some s' \<and> quiet vi s s'"
proof -
  define v where "v = fm_voices s ! vi"
  define c where "c = fm_chans s ! fv_chan v"
  note p = fm_base_parts [OF assms, folded v_def c_def]
  have gm: "fm_gm s = Some f" using assms(1) by (simp add: fm_base_def)
  have "fv_vel v * fc_volume c \<le> 127 * 127" using p(2,5) by (intro mult_le_mono) (simp_all add: voice_ok_def fm_chan_ok_def)
  then have "fv_vel v * fc_volume c div 127 \<le> 127" using div_le_mono [of _ "127 * 127" 127] by fastforce
  then have "fv_vel v * fc_volume c div 127 * fc_expression c \<le> 127 * 127"
    using p(5) by (intro mult_le_mono) (simp_all add: fm_chan_ok_def)
  then have "fv_vel v * fc_volume c div 127 * fc_expression c div 127 \<le> 127" using div_le_mono [of _ "127 * 127" 127] by fastforce
  then obtain att where att: "at (fm_atten s) (int (fv_vel v * fc_volume c div 127 * fc_expression c div 127)) = Some att"
    using assms(1) by (simp add: fm_base_def at_def)
  have b: "i < 16 \<Longrightarrow> gmb s (voice_data v + i) = Some (unat (f ! (voice_data v + i)))" for i
    using p(2) by (intro gmb_Some gm) (simp add: voice_ok_def voice_data_def)
  define s1 where "s1 = fm_write (op_reg vi 0x40 True) (unat (f ! (voice_data v + 11)) OR cut63 ((unat (f ! (voice_data v + 12)) AND 0x3f) + att)) s"
  have q1: "quiet vi s s1" unfolding quiet_def s1_def by (rule write_op_step [OF assms(2) base_regs(2)])
  have "quiet vi s (fm_write (op_reg vi 0x40 False) x s1)" for x
    by (rule quiet_trans [OF assms q1]) (simp add: quiet_def write_op_step [OF assms(2) base_regs(2)])
  then show ?thesis using q1 b [of 4] b [of 5] b [of 6] b [of 11] b [of 12]
    unfolding set_volume_def Let_def p(1,4) bind.bind_lunit v_def [symmetric] c_def [symmetric] att
    by (simp add: s1_def [symmetric]) (simp add: s1_def)
qed

lemma set_freq_writes:
  assumes "fm_base f s" "vi < 18"
  shows "\<exists>av bv. set_freq vi key s = Some (fm_write (reg vi 0xb0) bv (fm_write (reg vi 0xa0) av s))
    \<and> (drop_bit 5 (bv AND 0xff) AND 1 = 1) = key"
proof -
  define v where "v = fm_voices s ! vi"
  define c where "c = fm_chans s ! fv_chan v"
  note p = fm_base_parts [OF assms, folded v_def c_def]
  have gm: "fm_gm s = Some f" using assms(1) by (simp add: fm_base_def)
  have "gmb s (fv_ins v + 2) = Some (unat (f ! (fv_ins v + 2)))" using p(2) by (intro gmb_Some gm) (simp add: voice_ok_def)
  then have "\<exists>p1. (if fv_second v then do { b2 \<leftarrow> gmb s (fv_ins v + 2); Some (pitch v c + (int b2 - 128) sdiv 2) }
    else Some (pitch v c)) = Some p1" by (simp only: bind.bind_lunit split: if_splits) simp
  then obtain p1 where p1: "(if fv_second v then do { b2 \<leftarrow> gmb s (fv_ins v + 2); Some (pitch v c + (int b2 - 128) sdiv 2) }
    else Some (pitch v c)) = Some p1" by blast
  define q where "q = (if p1 < 0 then 0 else p1)"
  define k where "k = (q - 1920) mod 384"
  define oct where "oct = (q - 1920) div 384"
  have k: "0 \<le> k" "k < 384" by (simp_all add: k_def)
  obtain f0 where f0: "at (fm_fnum s) k = Some f0" using assms(1) k by (simp add: fm_base_def at_def)
  obtain b1 f1 where b1: "block_up (4 + oct) f0 = (b1, f1)" by force
  have "0 \<le> b1" using b1 by (simp add: block_up_eq split: if_splits)
  obtain block f2 where bl: "block_down b1 f1 = (block, f2)" by force
  have block: "0 \<le> block" "block \<le> 7" using block_down_range [OF \<open>0 \<le> b1\<close>, of f1] by (simp_all add: bl)
  define fnum where "fnum = (if f2 > 1023 then 1023 else f2)"
  have "nat block \<in> {0, 1, 2, 3, 4, 5, 6, 7}" "drop_bit 8 fnum \<in> {0, 1, 2, 3}"
  proof -
    have "nat block < 8" "drop_bit 8 fnum < 4" using block(2) by (auto simp: fnum_def drop_bit_eq_div less_mult_imp_div_less)
    then show "nat block \<in> {0, 1, 2, 3, 4, 5, 6, 7}" "drop_bit 8 fnum \<in> {0, 1, 2, 3}"
      unfolding insert_iff empty_iff by arith+
  qed
  note tab = b0_table [THEN bspec, OF this(1), THEN bspec, OF this(2), THEN bspec, of key, unfolded Let_def]
  define val where "val = (if key then 0x20 else 0) OR push_bit 2 (nat block) OR drop_bit 8 fnum"
  have key: "(drop_bit 5 (val AND 0xff) AND 1 = 1) = key" using tab by (cases key) (simp_all add: val_def)
  have "set_freq vi key s = Some (fm_write (reg vi 0xb0) val (fm_write (reg vi 0xa0) (fnum AND 0xff) s))"
    unfolding set_freq_def p(1,4) bind.bind_lunit v_def [symmetric] c_def [symmetric] p1 Let_def q_def [symmetric]
      octave_floor k_def [symmetric] oct_def [symmetric] prod.case f0 b1 bl fnum_def [symmetric]
      val_def [symmetric] by (rule refl)
  with key show ?thesis by blast
qed

lemma set_freq_step:
  assumes "fm_base f s" "vi < 18"
  shows "\<exists>s'. set_freq vi key s = Some s' \<and> chip_step vi key s s'"
proof -
  obtain av bv where w: "set_freq vi key s = Some (fm_write (reg vi 0xb0) bv (fm_write (reg vi 0xa0) av s))"
    "(drop_bit 5 (bv AND 0xff) AND 1 = 1) = key" using set_freq_writes [OF assms] by blast
  have "chip_step vi (key_of vi s) s (fm_write (reg vi 0xa0) av s)" by (rule write_a0_step [OF assms(2)])
  moreover have "chip_step vi key (fm_write (reg vi 0xa0) av s) (fm_write (reg vi 0xb0) bv (fm_write (reg vi 0xa0) av s))"
    using write_b0_step [OF assms(2), of bv "fm_write (reg vi 0xa0) av s"] unfolding w(2) .
  ultimately show ?thesis using chip_step_trans w(1) by blast
qed

text \<open>The release of both operators of a channel steps by at least \<open>d\<close>.\<close>

definition releases :: "opl_tabs \<Rightarrow> nat \<Rightarrow> opl_chan \<Rightarrow> bool" where
  "releases T d c = (0 < d \<and> d \<le> decay_step T ! o_rr (c_mod c) \<and> d \<le> decay_step T ! o_rr (c_car c))"

text \<open>A pitch written with the key up ends a channel whose key was down.\<close>

lemma set_freq_off_ends:
  assumes "fm_base f s" "vi < 18" "key_of vi s" "set_freq vi False s = Some s'" "releases (fm_tabs s) d (chs (fm_chip s) ! vi)"
  shows "chan_ends_in (fm_tabs s) (nat ENV_MAX div d + 1) (chs (fm_chip s') ! vi)"
proof -
  define T where "T = fm_tabs s"
  define c where "c = chs (fm_chip s) ! vi"
  obtain av bv where w: "s' = fm_write (reg vi 0xb0) bv (fm_write (reg vi 0xa0) av s)"
    "\<not> drop_bit 5 (bv AND 0xff) AND 1 = 1" using set_freq_writes [OF assms(1,2), of False] assms(4) by auto
  have vi: "vi < OPL_CHANNELS" "vi < length (chs (fm_chip s))" "chan_ok c"
    using assms(1,2) by (simp_all add: OPL_CHANNELS_def fm_base_def chip_ok_def c_def)
  have e: "opl_write T (reg vi 0xa0) v ch = upd_chan vi (write_a0 T (v AND 0xff)) ch"
    "opl_write T (reg vi 0xb0) v ch = upd_chan vi (write_b0 T (v AND 0xff)) ch" for v ch
    using reg_table lt18 [OF vi(1)] by blast+
  have chip: "chs (fm_chip s') ! vi = write_b0 T (bv AND 0xff) (write_a0 T (av AND 0xff) c)"
    using vi(2) by (simp add: w(1) fm_write_def T_def [symmetric] e upd_chan_def c_def)
  have a: "chan_ok (write_a0 T (av AND 0xff) c)" by (rule write_a0_ok [OF vi(3)]) (simp add: and_below)
  have k: "c_key (write_a0 T (av AND 0xff) c)" "o_rr (c_mod (write_a0 T (av AND 0xff) c)) = o_rr (c_mod c)"
    "o_rr (c_car (write_a0 T (av AND 0xff) c)) = o_rr (c_car c)"
    using assms(3) by (simp_all add: write_a0_def set_step_def op_step_def Let_def key_of_def c_def)
  have z: "drop_bit 5 (bv AND 0xff) AND 1 = 0" using w(2) nat_and_le [of "drop_bit 5 (bv AND 0xff)" 1] by linarith
  have b: "bv AND 0xff < 256" by (simp add: and_below)
  show ?thesis unfolding chip T_def [symmetric] using assms(5) k
    by (intro write_b0_off_ends [OF a k(1) b z]) (simp_all add: releases_def T_def c_def)
qed

lemma write_byte_quiet:
  assumes "fm_base f s" "vi < 18" "i < length f" "base \<in> op_bases"
  shows "\<exists>s'. write_byte (op_reg vi base car) i s = Some s' \<and> quiet vi s s'"
proof -
  have "fm_gm s = Some f" using assms(1) by (simp add: fm_base_def)
  from gmb_Some [OF this assms(3)] show ?thesis
    unfolding write_byte_def quiet_def by (simp add: write_op_step [OF assms(2,4)])
qed

text \<open>Quiet steps in a row: the state at each is in order again.\<close>

definition calm :: "byte list \<Rightarrow> nat \<Rightarrow> fm \<Rightarrow> fm \<Rightarrow> bool" where
  "calm f vi a b = (fm_base f b \<and> quiet vi a b)"

lemma calm_refl: "fm_base f a \<Longrightarrow> calm f vi a a"
  unfolding calm_def quiet_def using chip_step_refl by blast

lemma calm_step:
  assumes "fm_base f a" "vi < 18" "calm f vi a b" "quiet vi b s'"
  shows "calm f vi a s'"
proof -
  have "quiet vi a b" "fm_base f b" using assms(3) by (simp_all add: calm_def)
  then show ?thesis unfolding calm_def using quiet_trans [OF assms(1,2) _ assms(4)] quiet_base [OF assms(4)] by blast
qed

lemma calm_write_byte:
  assumes "fm_base f a" "vi < 18" "calm f vi a b" "i < length f" "base \<in> op_bases"
  shows "\<exists>s'. write_byte (op_reg vi base car) i b = Some s' \<and> calm f vi a s'"
proof -
  have "fm_base f b" using assms(3) by (simp add: calm_def)
  then show ?thesis using write_byte_quiet [OF _ assms(2,4,5)] calm_step [OF assms(1-3)] by blast
qed

lemma load_patch_quiet:
  assumes "fm_base f a" "vi < 18" "vo + 16 \<le> length f"
  shows "\<exists>s'. load_patch vi vo a = Some s' \<and> calm f vi a s'"
proof -
  note wb = calm_write_byte [OF assms(1,2)]
  have i: "k < 16 \<Longrightarrow> vo + k < length f" for k using assms(3) by simp
  obtain s1 where 1: "write_byte (op_reg vi 0x20 False) vo a = Some s1" "calm f vi a s1"
    using wb [OF calm_refl [OF assms(1)] _ base_regs(1), of vo] i [of 0] by auto
  obtain s2 where 2: "write_byte (op_reg vi 0x60 False) (vo + 1) s1 = Some s2" "calm f vi a s2"
    using wb [OF 1(2) i base_regs(3), of 1] by auto
  obtain s3 where 3: "write_byte (op_reg vi 0x80 False) (vo + 2) s2 = Some s3" "calm f vi a s3"
    using wb [OF 2(2) i base_regs(4), of 2] by auto
  obtain s4 where 4: "write_byte (op_reg vi 0xe0 False) (vo + 3) s3 = Some s4" "calm f vi a s4"
    using wb [OF 3(2) i base_regs(5), of 3] by auto
  have gm: "calm f vi a s \<Longrightarrow> k < 16 \<Longrightarrow> gmb s (vo + k) = Some (unat (f ! (vo + k)))" for s k
    using i [of k] by (intro gmb_Some) (simp_all add: calm_def fm_base_def)
  define s5 where "s5 = fm_write (op_reg vi 0x40 False) (unat (f ! (vo + 4)) OR unat (f ! (vo + 5)) AND 0x3f) s4"
  have 5: "calm f vi a s5"
    by (rule calm_step [OF assms(1,2) 4(2)]) (simp add: s5_def quiet_def write_op_step [OF assms(2) base_regs(2)])
  obtain s6 where 6: "write_byte (op_reg vi 0x20 True) (vo + 7) s5 = Some s6" "calm f vi a s6"
    using wb [OF 5 i base_regs(1), of 7] by auto
  obtain s7 where 7: "write_byte (op_reg vi 0x60 True) (vo + 8) s6 = Some s7" "calm f vi a s7"
    using wb [OF 6(2) i base_regs(3), of 8] by auto
  obtain s8 where 8: "write_byte (op_reg vi 0x80 True) (vo + 9) s7 = Some s8" "calm f vi a s8"
    using wb [OF 7(2) i base_regs(4), of 9] by auto
  obtain s9 where 9: "write_byte (op_reg vi 0xe0 True) (vo + 10) s8 = Some s9" "calm f vi a s9"
    using wb [OF 8(2) i base_regs(5), of 10] by auto
  define s10 where "s10 = fm_write (reg vi 0xc0) (unat (f ! (vo + 6)) OR 0x30) s9"
  have 10: "calm f vi a s10"
    by (rule calm_step [OF assms(1,2) 9(2)]) (simp add: s10_def quiet_def write_c0_step [OF assms(2)])
  have "load_patch vi vo a = Some s10"
    unfolding load_patch_def 1(1) 2(1) 3(1) 4(1) bind.bind_lunit gm [OF 4(2), of 4, simplified] gm [OF 4(2), of 5, simplified] Let_def
      s5_def [symmetric] 6(1) 7(1) 8(1) 9(1) gm [OF 9(2), of 6, simplified] s10_def by (rule refl)
  then show ?thesis using 10 by blast
qed

lemma pan_range: "p \<le> 127 \<Longrightarrow> 0 \<le> pan_left p \<and> pan_left p \<le> 256 \<and> 0 \<le> pan_right p \<and> pan_right p \<le> 256"
proof -
  assume p: "p \<le> 127"
  have l: "\<not> p \<le> 64 \<Longrightarrow> (127 - int p) * 256 sdiv 63 = (127 - int p) * 256 div 63"
    using p by (simp add: signed_divide_int_def sgn_if abs_if)
  have r: "int p * 256 sdiv 64 = int p * 256 div 64" by (simp add: signed_divide_int_def sgn_if abs_if)
  have "\<not> p \<le> 64 \<Longrightarrow> 0 \<le> (127 - int p) * 256 div 63 \<and> (127 - int p) * 256 div 63 \<le> 256"
    using p zdiv_mono1 [of "(127 - int p) * 256" "62 * 256" 63] by (simp add: pos_imp_zdiv_nonneg_iff)
  moreover have "\<not> 64 \<le> p \<Longrightarrow> 0 \<le> int p * 256 div 64 \<and> int p * 256 div 64 \<le> 256"
    using zdiv_mono1 [of "int p * 256" "63 * 256" 64] by (simp add: pos_imp_zdiv_nonneg_iff)
  ultimately show ?thesis using l r by (simp add: pan_left_def pan_right_def)
qed

lemma pan_ok_update: "pan_ok p \<Longrightarrow> 0 \<le> x \<Longrightarrow> x \<le> 256 \<Longrightarrow> pan_ok (p[i := x])"
  unfolding pan_ok_def by (auto dest!: subsetD [OF set_update_subset_insert])

lemma set_pan_some:
  assumes "fm_base f s" "vi < 18"
  shows "\<exists>s'. set_pan vi s = Some s' \<and> fm_base f s' \<and> touch {} 0 s s' \<and> fm_voices s' = fm_voices s \<and> fm_chip s' = fm_chip s"
proof -
  note p = fm_base_parts [OF assms]
  define pan where "pan = fc_pan (fm_chans s ! fv_chan (fm_voices s ! vi))"
  have r: "0 \<le> pan_left pan \<and> pan_left pan \<le> 256 \<and> 0 \<le> pan_right pan \<and> pan_right pan \<le> 256"
    using p(5) by (intro pan_range) (simp add: pan_def fm_chan_ok_def)
  show ?thesis unfolding set_pan_def p(1,4) bind.bind_lunit pan_def [symmetric]
    using assms(1) r by (simp add: fm_base_def touch_def pan_ok_update)
qed


section \<open>Which voice\<close>

text \<open>The voice that a pass over the voices should find: the first with the smallest age.\<close>

definition is_oldest :: "(fm_voice \<Rightarrow> bool) \<Rightarrow> fm_voice list \<Rightarrow> nat \<Rightarrow> bool" where
  "is_oldest P vs b = (b < length vs \<and> P (vs ! b) \<and> (\<forall>j<length vs. P (vs ! j) \<longrightarrow> fv_age (vs ! b) \<le> fv_age (vs ! j))
     \<and> (\<forall>j<b. P (vs ! j) \<longrightarrow> fv_age (vs ! b) < fv_age (vs ! j)))"

lemma oldest_upto:
  assumes "n \<le> length vs"
  shows "(case fold (\<lambda>i (best, best_age). if P (vs ! i) \<and> fv_age (vs ! i) < best_age then (Some i, fv_age (vs ! i))
            else (best, best_age)) [0..<n] (None, m) of
       (None, a) \<Rightarrow> a = m \<and> (\<forall>j<n. P (vs ! j) \<longrightarrow> m \<le> fv_age (vs ! j))
     | (Some b, a) \<Rightarrow> b < n \<and> P (vs ! b) \<and> a = fv_age (vs ! b) \<and> a < m \<and> (\<forall>j<n. P (vs ! j) \<longrightarrow> a \<le> fv_age (vs ! j))
         \<and> (\<forall>j<b. P (vs ! j) \<longrightarrow> a < fv_age (vs ! j)))"
  using assms
proof (induction n)
  case 0
  then show ?case by simp
next
  case (Suc n)
  then show ?case
    by (auto simp: less_Suc_eq split: prod.splits option.splits if_splits)
qed

lemma oldest_pass_spec:
  "(case oldest_pass P vs (None, m) of
      (None, a) \<Rightarrow> a = m \<and> (\<forall>v\<in>set vs. P v \<longrightarrow> m \<le> fv_age v)
    | (Some b, a) \<Rightarrow> is_oldest P vs b)"
  using oldest_upto [where n = "length vs" and vs = vs and P = P and m = m] unfolding oldest_pass_def is_oldest_def
  by (auto simp: all_set_conv_all_nth split: prod.splits option.splits)

text \<open>Updates of one voice keep the order of the state when the voice they write is in order.\<close>

lemma set_voice_base:
  assumes "fm_base f s" "vi < 18" "voice_ok f (g (fm_voices s ! vi))" "fv_age (g (fm_voices s ! vi)) \<le> fm_age s"
  shows "fm_base f (set_voice vi g s) \<and> touch {vi} 0 s (set_voice vi g s) \<and> fm_chip (set_voice vi g s) = fm_chip s
    \<and> fm_voices (set_voice vi g s) = (fm_voices s)[vi := g (fm_voices s ! vi)]"
  using assms unfolding fm_base_def touch_def set_voice_def
  by (auto dest!: subsetD [OF set_update_subset_insert])

lemma tick_age_base:
  assumes "fm_base f s" "room 1 s"
  shows "fm_base f (tick_age s) \<and> touch {} 1 s (tick_age s) \<and> fm_age (tick_age s) = fm_age s + 1
    \<and> fm_chip (tick_age s) = fm_chip s \<and> fm_voices (tick_age s) = fm_voices s"
  using assms unfolding fm_base_def touch_def tick_age_def room_def
  by (auto simp: add32_def intro: le_SucI)

text \<open>\<open>voice_off\<close>: the voice is off, its key up, its age the newest; the others stay.\<close>

lemma voice_off_on:
  assumes "fm_base f s" "vi < 18" "room 1 s" "fv_on (fm_voices s ! vi)"
  shows "\<exists>s2 s'. voice_off vi s = Some s' \<and> fm_base f s' \<and> touch {vi} 1 s s' \<and> key_of vi s' = False
    \<and> fm_voices s' = (fm_voices s)[vi := (fm_voices s ! vi)\<lparr>fv_on := False, fv_sustained := False, fv_age := fm_age s + 1\<rparr>]
    \<and> set_freq vi False s2 = Some s' \<and> fm_base f s2 \<and> fm_chip s2 = fm_chip s \<and> fm_tabs s2 = fm_tabs s"
proof -
  define s1 where "s1 = tick_age s"
  have 1: "fm_base f s1" "touch {} 1 s s1" "fm_age s1 = fm_age s + 1" "fm_voices s1 = fm_voices s"
    using tick_age_base [OF assms(1,3)] by (simp_all add: s1_def)
  define g :: "fm_voice \<Rightarrow> fm_voice" where "g = (\<lambda>v. v\<lparr>fv_on := False, fv_sustained := False, fv_age := fm_age s1\<rparr>)"
  define s2 where "s2 = set_voice vi g s1"
  have "voice_ok f (g (fm_voices s1 ! vi))" "fv_age (g (fm_voices s1 ! vi)) \<le> fm_age s1"
    using fm_base_parts(2) [OF 1(1) assms(2)] by (simp_all add: g_def voice_ok_def)
  from set_voice_base [where g = g, OF 1(1) assms(2) this]
  have 2: "fm_base f s2" "touch {vi} 0 s1 s2" "fm_voices s2 = (fm_voices s)[vi := g (fm_voices s ! vi)]"
    by (simp_all add: s2_def 1(4))
  have chip: "fm_chip s2 = fm_chip s" "fm_tabs s2 = fm_tabs s" by (simp_all add: s2_def set_voice_def s1_def tick_age_def)
  obtain s3 where 3: "set_freq vi False s2 = Some s3" "chip_step vi False s2 s3" using set_freq_step [OF 2(1) assms(2)] by blast
  have "voice_off vi s = Some s3"
    unfolding voice_off_def fm_base_parts(1) [OF assms(1,2)] bind.bind_lunit Let_def s1_def [symmetric] g_def [symmetric]
      s2_def [symmetric] using assms(4) 3(1) by simp
  moreover have "touch {vi} 1 s s3"
    using touch_trans [OF touch_trans [OF 1(2) 2(2)]] chip_step_base [OF 3(2) 2(1)] by fastforce
  ultimately show ?thesis
    using chip_step_base [OF 3(2) 2(1)] chip_step_key [OF 3(2) 2(1) assms(2)] 2(1,3) 3(1)
    by (intro exI [of _ s2] exI [of _ s3]) (simp add: g_def 1(3) chip)
qed

lemma touch_synced:
  assumes "fm_synced s" "touch V n s s'" "\<And>i. i \<in> V \<Longrightarrow> i < 18 \<Longrightarrow>
    key_of i s' = fv_on (fm_voices s' ! i) \<and> (fv_sustained (fm_voices s' ! i) \<longrightarrow> fv_on (fm_voices s' ! i))"
  shows "fm_synced s'"
  using assms unfolding fm_synced_def touch_def key_of_def by metis

text \<open>Operations on the voices \<open>V\<close> that take at most \<open>n\<close> ages.\<close>

definition good :: "byte list \<Rightarrow> nat set \<Rightarrow> nat \<Rightarrow> fm \<Rightarrow> fm \<Rightarrow> bool" where
  "good f V n s s' = (fm_ok f s' \<and> touch V n s s')"

lemma voice_off_good:
  assumes "fm_ok f s" "vi < 18" "room 1 s"
  shows "\<exists>s'. voice_off vi s = Some s' \<and> good f {vi} 1 s s' \<and> \<not> fv_on (fm_voices s' ! vi)
    \<and> (fv_on (fm_voices s ! vi) \<longrightarrow> (\<forall>d. releases (fm_tabs s) d (chs (fm_chip s) ! vi)
        \<longrightarrow> chan_ends_in (fm_tabs s) (nat ENV_MAX div d + 1) (chs (fm_chip s') ! vi)))"
proof (cases "fv_on (fm_voices s ! vi)")
  case True
  have b: "fm_base f s" "fm_synced s" using assms(1) by (simp_all add: fm_ok_def)
  obtain s2 s' where s': "voice_off vi s = Some s'" "fm_base f s'" "touch {vi} 1 s s'" "key_of vi s' = False"
    "fm_voices s' = (fm_voices s)[vi := (fm_voices s ! vi)\<lparr>fv_on := False, fv_sustained := False, fv_age := fm_age s + 1\<rparr>]"
    "set_freq vi False s2 = Some s'" "fm_base f s2" "fm_chip s2 = fm_chip s" "fm_tabs s2 = fm_tabs s"
    using voice_off_on [OF b(1) assms(2,3) True] by blast
  have v: "\<not> fv_on (fm_voices s' ! vi)" "\<not> fv_sustained (fm_voices s' ! vi)"
    using s'(5) b(1) assms(2) by (simp_all add: fm_base_def)
  have "fm_synced s'" by (rule touch_synced [OF b(2) s'(3)]) (use v s'(4) in auto)
  moreover have "key_of vi s2" using b(2) True assms(2) by (simp add: key_of_def s'(8) fm_synced_def)
  ultimately show ?thesis using s' v set_freq_off_ends [OF s'(7) assms(2) _ s'(6)] by (simp add: good_def fm_ok_def)
next
  case False
  then have "voice_off vi s = Some s" using fm_base_parts(1) [of f s vi] assms(1,2) by (simp add: voice_off_def fm_ok_def)
  then show ?thesis using assms(1) False touch_mono [OF touch_refl [of s], of "{vi}" 1] by (simp add: good_def)
qed

text \<open>\<open>alloc_voice\<close>: the voice that has been off for longest, or, when all are on, the one that has been on for longest.\<close>

lemma alloc_voice_spec:
  assumes "fm_ok f s" "room 1 s"
  shows "\<exists>b s'. alloc_voice s = Some (b, s') \<and> good f {b} 1 s s' \<and> \<not> fv_on (fm_voices s' ! b)
    \<and> (if \<exists>v\<in>set (fm_voices s). \<not> fv_on v then is_oldest (\<lambda>v. \<not> fv_on v) (fm_voices s) b else is_oldest (\<lambda>_. True) (fm_voices s) b)"
proof -
  have b: "fm_base f s" using assms(1) by (simp add: fm_ok_def)
  have l: "length (fm_voices s) = 18" using b by (simp add: fm_base_def)
  have ages: "fv_age v < two32 - 1" if "v \<in> set (fm_voices s)" for v
    using b assms(2) that by (fastforce simp: fm_base_def room_def)
  obtain best a where p1: "oldest_pass (\<lambda>v. \<not> fv_on v) (fm_voices s) (None, two32 - 1) = (best, a)" by force
  note sp1 = oldest_pass_spec [where P = "\<lambda>v. \<not> fv_on v" and vs = "fm_voices s" and m = "two32 - 1", unfolded p1]
  show ?thesis
  proof (cases best)
    case (Some i)
    then have o: "is_oldest (\<lambda>v. \<not> fv_on v) (fm_voices s) i" using sp1 by simp
    then have "\<exists>v\<in>set (fm_voices s). \<not> fv_on v" "\<not> fv_on (fm_voices s ! i)" by (auto simp: is_oldest_def)
    moreover have "alloc_voice s = Some (i, s)" unfolding alloc_voice_def p1 Some by simp
    ultimately show ?thesis using o assms(1) touch_mono [OF touch_refl [of s], of "{i}" 1] by (auto simp: good_def)
  next
    case None
    then have a: "a = two32 - 1" and on: "\<not> (\<exists>v\<in>set (fm_voices s). \<not> fv_on v)" using sp1 ages by fastforce+
    obtain best2 a2 where p2: "oldest_pass (\<lambda>_. True) (fm_voices s) (None, two32 - 1) = (best2, a2)" by force
    note sp2 = oldest_pass_spec [where P = "\<lambda>_. True" and vs = "fm_voices s" and m = "two32 - 1", unfolded p2]
    have v0: "fm_voices s ! 0 \<in> set (fm_voices s)" using l by simp
    have "best2 \<noteq> None"
    proof
      assume "best2 = None"
      then have "two32 - 1 \<le> fv_age (fm_voices s ! 0)" using sp2 v0 by simp
      then show False using ages [OF v0] by simp
    qed
    then obtain i where i: "best2 = Some i" by blast
    then have o: "is_oldest (\<lambda>_. True) (fm_voices s) i" using sp2 by simp
    then have "i < 18" using l by (simp add: is_oldest_def)
    from voice_off_good [OF assms(1) this assms(2)] obtain s' where
      s': "voice_off i s = Some s'" "good f {i} 1 s s'" "\<not> fv_on (fm_voices s' ! i)" by blast
    have "alloc_voice s = Some (i, s')" unfolding alloc_voice_def p1 None a Let_def prod.case option.case p2 i by (simp add: s'(1))
    then show ?thesis using s' o on by auto
  qed
qed


section \<open>Starting a voice\<close>

definition new_voice :: "nat \<Rightarrow> nat \<Rightarrow> nat \<Rightarrow> nat \<Rightarrow> bool \<Rightarrow> int \<Rightarrow> nat \<Rightarrow> fm_voice" where
  "new_voice ch key vel ins second note age = \<lparr>fv_on = True, fv_sustained = False, fv_chan = ch, fv_key = key, fv_note = note,
     fv_vel = vel, fv_second = second, fv_age = age, fv_ins = ins\<rparr>"

lemma chip_step_touch:
  "chip_step vi k s s' \<Longrightarrow> fm_base f s \<Longrightarrow> touch V n a s \<Longrightarrow> vi \<in> V \<Longrightarrow> touch V n a s'"
  using touch_trans [of V n a s "{vi}" 0 s'] chip_step_base [of vi k s s' f] by (simp add: insert_absorb)

text \<open>The second half of \<open>start_voice\<close>: the patch, the volume, the pan and the pitch with the key down.\<close>

lemma sound_voice:
  assumes "fm_base f s" "b < 18" "vo + 16 \<le> length f"
  shows "\<exists>s5 s6 s7 s8. load_patch b vo s = Some s5 \<and> set_volume b s5 = Some s6 \<and> set_pan b s6 = Some s7
    \<and> set_freq b True s7 = Some s8 \<and> fm_base f s8 \<and> touch {b} 0 s s8 \<and> key_of b s8 \<and> fm_voices s8 = fm_voices s"
proof -
  obtain s5 where 5: "load_patch b vo s = Some s5" "calm f b s s5" using load_patch_quiet [OF assms] by blast
  then have b5: "fm_base f s5" "chip_step b (key_of b s) s s5" by (simp_all add: calm_def quiet_def)
  obtain s6 where 6: "set_volume b s5 = Some s6" "quiet b s5 s6" using set_volume_quiet [OF b5(1) assms(2)] by blast
  have b6: "fm_base f s6" "chip_step b (key_of b s5) s5 s6" using quiet_base [OF 6(2) b5(1)] 6(2) by (simp_all add: quiet_def)
  obtain s7 where 7: "set_pan b s6 = Some s7" "fm_base f s7" "touch {} 0 s6 s7" "fm_voices s7 = fm_voices s6"
    using set_pan_some [OF b6(1) assms(2)] by blast
  obtain s8 where 8: "set_freq b True s7 = Some s8" "chip_step b True s7 s8" using set_freq_step [OF 7(2) assms(2)] by blast
  note c = chip_step_base [OF b5(2) assms(1)] chip_step_base [OF b6(2) b5(1)] chip_step_base [OF 8(2) 7(2)]
  have "touch {b} 0 s s8" using touch_trans [OF touch_trans [OF touch_trans [of "{b}" 0 s s5 "{b}" 0 s6] 7(3)], of "{b}" 0 s8] c by simp
  then show ?thesis using 5(1) 6(1) 7(1,4) 8(1) c chip_step_key [OF 8(2) 7(2) assms(2)] by auto
qed

text \<open>A start takes the voice that \<open>alloc_voice\<close> chooses and no other, and leaves it on, with its key down.\<close>

lemma start_voice_spec:
  assumes "fm_ok f s" "room 2 s" "ch < 16" "vel \<le> 127" "ins + 36 \<le> length f"
  shows "\<exists>b s'. start_voice ch key vel ins second s = Some s' \<and> good f {b} 2 s s'
    \<and> (\<exists>note age. fm_voices s' ! b = new_voice ch key vel ins second note age)
    \<and> (if \<exists>v\<in>set (fm_voices s). \<not> fv_on v then is_oldest (\<lambda>v. \<not> fv_on v) (fm_voices s) b else is_oldest (\<lambda>_. True) (fm_voices s) b)"
proof -
  define vo where "vo = ins + 4 + (if second then 16 else 0)"
  have "room 1 s" using assms(2) by (simp add: room_def)
  from alloc_voice_spec [OF assms(1) this] obtain b s1 where
    1: "alloc_voice s = Some (b, s1)" "good f {b} 1 s s1"
      "if \<exists>v\<in>set (fm_voices s). \<not> fv_on v then is_oldest (\<lambda>v. \<not> fv_on v) (fm_voices s) b else is_oldest (\<lambda>_. True) (fm_voices s) b"
    by blast
  have b1: "fm_base f s1" "touch {b} 1 s s1" "fm_synced s1" using 1(2) by (simp_all add: good_def fm_ok_def)
  have "length (fm_voices s) = 18" using assms(1) by (simp add: fm_ok_def fm_base_def)
  then have b: "b < 18" using 1(3) by (auto simp: is_oldest_def split: if_splits)
  have gm: "fm_gm s1 = Some f" using b1(1) by (simp add: fm_base_def)
  have gb: "i < length f \<Longrightarrow> gmb s1 i = Some (unat (f ! i))" for i by (rule gmb_Some [OF gm])
  have i: "ins < length f" "ins + 1 < length f" "ins + 3 < length f" "vo + 14 < length f" "vo + 14 + 1 < length f"
    using assms(5) by (simp_all add: vo_def)
  define flags where "flags = unat (f ! ins) OR push_bit 8 (unat (f ! (ins + 1)))"
  define off where "off = unat (f ! (vo + 14)) OR push_bit 8 (unat (f ! (vo + 14 + 1)))"
  define play0 where "play0 = (if flags AND 1 \<noteq> 0 then unat (f ! (ins + 3)) else key)"
  define play where "play = clip_note (int play0 + i16 off)"
  have fl: "gm16 s1 ins = Some flags" "gm16 s1 (vo + 14) = Some off"
    using i by (simp_all add: gm16_def gb flags_def off_def)
  have pl: "(if flags AND 1 \<noteq> 0 then gmb s1 (ins + 3) else Some key) = Some play0" using gb [OF i(3)] by (simp add: play0_def)
  obtain s2 where 2: "set_freq b False s1 = Some s2" "chip_step b False s1 s2" using set_freq_step [OF b1(1) b] by blast
  have b2: "fm_base f s2" "fm_voices s2 = fm_voices s1" "fm_age s2 = fm_age s1" using chip_step_base [OF 2(2) b1(1)] by simp_all
  have t2: "touch {b} 1 s s2" by (rule chip_step_touch [OF 2(2) b1(1,2)]) simp
  define s3 where "s3 = tick_age s2"
  have "room 1 s2" using touch_room [OF t2, of 1] assms(2) by (simp add: numeral_2_eq_2)
  note tick = tick_age_base [OF b2(1) this, folded s3_def]
  define nv where "nv = new_voice ch key vel ins second play (fm_age s3)"
  define s4 where "s4 = set_voice b (\<lambda>_. nv) s3"
  have "voice_ok f nv" "fv_age nv \<le> fm_age s3" using assms(3-5) by (simp_all add: nv_def new_voice_def voice_ok_def)
  from set_voice_base [where g = "\<lambda>_. nv", OF conjunct1 [OF tick] b this]
  have b4: "fm_base f s4" "touch {b} 0 s3 s4" "fm_voices s4 = (fm_voices s3)[b := nv]" by (simp_all add: s4_def)
  have t4: "touch {b} 2 s s4"
    using touch_trans [OF touch_trans [OF t2 conjunct1 [OF conjunct2 [OF tick]]] b4(2)] by (simp add: numeral_2_eq_2)
  have "vo + 16 \<le> length f" using assms(5) by (simp add: vo_def)
  from sound_voice [OF b4(1) b this] obtain s5 s6 s7 s8 where 5: "load_patch b vo s4 = Some s5" "set_volume b s5 = Some s6"
    "set_pan b s6 = Some s7" "set_freq b True s7 = Some s8" "fm_base f s8" "touch {b} 0 s4 s8" "key_of b s8"
    "fm_voices s8 = fm_voices s4" by blast
  have t8: "touch {b} 2 s s8" using touch_trans [OF t4 5(6)] by simp
  have l: "length (fm_voices s3) = 18" using conjunct1 [OF tick] by (simp add: fm_base_def)
  have nb: "fm_voices s8 ! b = nv" using b4(3) b l 5(8) by simp
  have "fm_synced s" using assms(1) by (simp add: fm_ok_def)
  then have "fm_synced s8" by (rule touch_synced [OF _ t8]) (use nb 5(7) in \<open>simp add: nv_def new_voice_def\<close>)
  then have g: "good f {b} 2 s s8" using t8 5(5) by (simp add: good_def fm_ok_def)
  have "start_voice ch key vel ins second s = Some s8"
    unfolding start_voice_def Let_def vo_def [symmetric] 1(1) bind.bind_lunit prod.case fl pl play_def [symmetric] 2(1)
      s3_def [symmetric] new_voice_def [symmetric] nv_def [symmetric] s4_def [symmetric] 5(1-3) by (rule 5(4))
  then show ?thesis using g nb 1(3) unfolding nv_def by blast
qed

end
