(* ===== verification/OplEvents.thy ===== *)
theory OplEvents
  imports OplVoices
begin

text \<open>
  The events of the FM engine: each keeps the state in order. Most of them are a pass over the voices, so
  what a pass does is stated once, in the locale \<open>voice_pass\<close>, for every operation that keeps the
  order while it works on its own voice.
\<close>

text \<open>An event that takes at most \<open>n\<close> ages.\<close>

definition event_ok :: "byte list \<Rightarrow> nat \<Rightarrow> fm \<Rightarrow> fm option \<Rightarrow> bool" where
  "event_ok f n s r = (\<exists>s'. r = Some s' \<and> fm_ok f s' \<and> fm_age s' \<le> fm_age s + n)"

lemma event_okI: "r = Some s' \<Longrightarrow> fm_ok f s' \<Longrightarrow> fm_age s' \<le> fm_age s + n \<Longrightarrow> event_ok f n s r"
  by (simp add: event_ok_def)

section \<open>Passes over the voices\<close>

text \<open>What a pass sees of a voice: its record and the channel of the chip behind it.\<close>

definition view :: "nat \<Rightarrow> fm \<Rightarrow> fm_voice \<times> opl_chan" where
  "view i s = (fm_voices s ! i, chs (fm_chip s) ! i)"

lemma touch_view: "touch V n s s' \<Longrightarrow> i \<notin> V \<Longrightarrow> view i s' = view i s"
  by (simp add: touch_def view_def)

locale voice_pass =
  fixes f :: "byte list" and g :: "nat \<Rightarrow> fm \<Rightarrow> fm option"
    and Q :: "opl_tabs \<Rightarrow> fm_voice \<times> opl_chan \<Rightarrow> fm_voice \<times> opl_chan \<Rightarrow> bool"
  assumes one: "i < 18 \<Longrightarrow> fm_ok f s \<Longrightarrow> room 1 s \<Longrightarrow>
    \<exists>s'. g i s = Some s' \<and> good f {i} 1 s s' \<and> Q (fm_tabs s) (view i s) (view i s')"
begin

lemma some_voices:
  "distinct is \<Longrightarrow> \<forall>i\<in>set is. i < 18 \<Longrightarrow> fm_ok f s \<Longrightarrow> room (length is) s \<Longrightarrow>
    \<exists>s'. for_voices g is s = Some s' \<and> good f (set is) (length is) s s' \<and> (\<forall>i\<in>set is. Q (fm_tabs s) (view i s) (view i s'))"
proof (induction "is" arbitrary: s)
  case Nil
  then show ?case using touch_refl by (simp add: good_def)
next
  case (Cons i "is")
  have "room 1 s" using Cons.prems(4) by (simp add: room_def)
  then obtain s1 where 1: "g i s = Some s1" "good f {i} 1 s s1" "Q (fm_tabs s) (view i s) (view i s1)"
    using one [of i s] Cons.prems(2,3) by auto
  then have "fm_ok f s1" "room (length is) s1" using Cons.prems(4) touch_room [of "{i}" 1 s s1 "length is"] by (simp_all add: good_def)
  with Cons.IH [of s1] Cons.prems obtain s2 where
    2: "for_voices g is s1 = Some s2" "good f (set is) (length is) s1 s2" "\<forall>j\<in>set is. Q (fm_tabs s1) (view j s1) (view j s2)" by auto
  have t: "touch {i} 1 s s1" "touch (set is) (length is) s1 s2" "fm_tabs s1 = fm_tabs s"
    using 1(2) 2(2) by (simp_all add: good_def touch_def)
  have "view i s2 = view i s1" using touch_view [OF t(2)] Cons.prems(1) by simp
  moreover have "view j s1 = view j s" if "j \<in> set is" for j
    using touch_view [OF t(1), of j] Cons.prems(1) that by auto
  ultimately have "\<forall>j\<in>set (i # is). Q (fm_tabs s) (view j s) (view j s2)" using 1(3) 2(3) t(3) by auto
  then show ?case using 1 2 touch_trans [OF t(1,2)] by (auto simp: good_def)
qed

lemma pass:
  assumes "fm_ok f s" "room 18 s"
  shows "\<exists>s'. for_voices g [0..<NVOICES] s = Some s' \<and> fm_ok f s' \<and> touch {0..<18} 18 s s'
    \<and> (\<forall>i<18. Q (fm_tabs s) (view i s) (view i s'))"
proof -
  obtain s' where s': "for_voices g [0..<18] s = Some s'" "good f {0..<18} 18 s s'"
    "\<forall>i\<in>{0..<18}. Q (fm_tabs s) (view i s) (view i s')"
    using some_voices [of "[0..<18]" s] assms by auto
  then show ?thesis by (simp add: NVOICES_def OPL_CHANNELS_def good_def)
qed

lemma pass_event:
  assumes "fm_ok f s0" "fm_age s0 = fm_age s" "room 18 s"
  shows "event_ok f 18 s (for_voices g [0..<NVOICES] s0)"
proof -
  have "room 18 s0" using assms(2,3) by (simp add: room_def)
  from pass [OF assms(1) this] show ?thesis using assms(2) by (auto simp: event_ok_def touch_def)
qed

end

section \<open>The operations of the passes\<close>

lemma good_refl: "fm_ok f s \<Longrightarrow> good f {i} 1 s s"
  using touch_mono [OF touch_refl [of s], of "{i}" 1] by (simp add: good_def)

lemma quiet_good:
  assumes "fm_ok f s" "i < 18" "quiet i s s'"
  shows "good f {i} 1 s s' \<and> fm_voices s' = fm_voices s"
proof -
  have b: "fm_base f s" "fm_synced s" using assms(1) by (simp_all add: fm_ok_def)
  have c: "fm_base f s'" "touch {i} 0 s s'" "fm_voices s' = fm_voices s" "key_of i s' = key_of i s"
    using chip_step_base [OF assms(3) [unfolded quiet_def] b(1)] chip_step_key [OF assms(3) [unfolded quiet_def] b(1) assms(2)]
    by simp_all
  have "fm_synced s'" by (rule touch_synced [OF b(2) c(2)]) (use b(2) assms(2) c(3,4) in \<open>simp add: fm_synced_def key_of_def\<close>)
  then show ?thesis using c touch_mono [OF c(2), of "{i}" 1] by (simp add: good_def fm_ok_def)
qed

lemma set_volume_good: "fm_ok f s \<Longrightarrow> i < 18 \<Longrightarrow> \<exists>s'. set_volume i s = Some s' \<and> good f {i} 1 s s'"
  using set_volume_quiet [of f s i] quiet_good [of f s i] by (auto simp: fm_ok_def)

lemma set_pan_good: "fm_ok f s \<Longrightarrow> i < 18 \<Longrightarrow> \<exists>s'. set_pan i s = Some s' \<and> good f {i} 1 s s'"
proof -
  assume s: "fm_ok f s" and i: "i < 18"
  obtain s' where s': "set_pan i s = Some s'" "fm_base f s'" "touch {} 0 s s'" "fm_voices s' = fm_voices s" "fm_chip s' = fm_chip s"
    using set_pan_some [of f s i] s i by (auto simp: fm_ok_def)
  have "fm_synced s'" using s s'(4,5) by (simp add: fm_ok_def fm_synced_def)
  then show ?thesis using s' touch_mono [OF s'(3), of "{i}" 1] by (simp add: good_def fm_ok_def)
qed

lemma set_freq_good:
  assumes "fm_ok f s" "i < 18" "fv_on (fm_voices s ! i)"
  shows "\<exists>s'. set_freq i True s = Some s' \<and> good f {i} 1 s s'"
proof -
  have b: "fm_base f s" "fm_synced s" using assms(1) by (simp_all add: fm_ok_def)
  obtain s' where s': "set_freq i True s = Some s'" "chip_step i True s s'" using set_freq_step [OF b(1) assms(2)] by blast
  have "key_of i s = True" using b(2) assms(2,3) by (simp add: fm_synced_def key_of_def)
  then have "quiet i s s'" using s'(2) by (simp add: quiet_def)
  then show ?thesis using quiet_good [OF assms(1,2)] s'(1) by blast
qed

lemma if_sounding_good:
  assumes "\<And>s. fm_ok f s \<Longrightarrow> fv_on (fm_voices s ! i) \<Longrightarrow> \<exists>s'. fn i s = Some s' \<and> good f {i} 1 s s'" "i < 18" "fm_ok f s"
  shows "\<exists>s'. if_sounding ch fn i s = Some s' \<and> good f {i} 1 s s'"
proof -
  have "at (fm_voices s) (int i) = Some (fm_voices s ! i)" using fm_base_parts(1) [of f s i] assms(2,3) by (simp add: fm_ok_def)
  then show ?thesis using assms(1,3) good_refl [OF assms(3), of i] by (simp add: if_sounding_def)
qed

lemma note_off_voice_good:
  assumes "i < 18" "fm_ok f s" "room 1 s" "ch < 16"
  shows "\<exists>s'. note_off_voice ch key i s = Some s' \<and> good f {i} 1 s s'"
proof -
  have b: "fm_base f s" "fm_synced s" using assms(2) by (simp_all add: fm_ok_def)
  note v = fm_base_parts [OF b(1) assms(1)]
  have c: "at (fm_chans s) (int ch) = Some (fm_chans s ! ch)" using b(1) assms(4) by (simp add: fm_base_def at_def)
  have sus: "fv_on (fm_voices s ! i) \<Longrightarrow> good f {i} 1 s (set_voice i (\<lambda>v. v\<lparr>fv_sustained := True\<rparr>) s)"
  proof -
    assume on: "fv_on (fm_voices s ! i)"
    let ?g = "\<lambda>v :: fm_voice. v\<lparr>fv_sustained := True\<rparr>"
    have "voice_ok f (?g (fm_voices s ! i))" "fv_age (?g (fm_voices s ! i)) \<le> fm_age s" using v(2,3) by (simp_all add: voice_ok_def)
    from set_voice_base [where g = ?g, OF b(1) assms(1) this]
    have s': "fm_base f (set_voice i ?g s)" "touch {i} 0 s (set_voice i ?g s)" "fm_chip (set_voice i ?g s) = fm_chip s"
      "fm_voices (set_voice i ?g s) = (fm_voices s)[i := ?g (fm_voices s ! i)]" by simp_all
    have "length (fm_voices s) = 18" using b(1) by (simp add: fm_base_def)
    then have "fm_synced (set_voice i ?g s)"
      by (intro touch_synced [OF b(2) s'(2)]) (use b(2) on assms(1) s'(3,4) in \<open>simp add: fm_synced_def key_of_def\<close>)
    then show ?thesis using s'(1) touch_mono [OF s'(2), of "{i}" 1] by (simp add: good_def fm_ok_def)
  qed
  show ?thesis
    using voice_off_good [OF assms(2,1,3)] sus good_refl [OF assms(2), of i] by (auto simp: note_off_voice_def v(1) c)
qed

lemma unsustain_good:
  assumes "i < 18" "fm_ok f s" "room 1 s"
  shows "\<exists>s'. unsustain_voice ch i s = Some s' \<and> good f {i} 1 s s'"
  using voice_off_good [OF assms(2,1,3)] good_refl [OF assms(2), of i] fm_base_parts(1) [of f s i] assms(1,2)
  by (auto simp: unsustain_voice_def fm_ok_def)

text \<open>Silence on a channel: its voices are off, and what sounded is released.\<close>

definition silenced :: "nat \<Rightarrow> opl_tabs \<Rightarrow> fm_voice \<times> opl_chan \<Rightarrow> fm_voice \<times> opl_chan \<Rightarrow> bool" where
  "silenced ch T a b = (if fv_chan (fst a) = ch
     then \<not> fv_on (fst b) \<and> (fv_on (fst a) \<longrightarrow> (\<forall>d. releases T d (snd a) \<longrightarrow> chan_ends_in T (nat ENV_MAX div d + 1) (snd b)))
     else b = a)"

lemma silence_good:
  assumes "i < 18" "fm_ok f s" "room 1 s"
  shows "\<exists>s'. silence_voice ch i s = Some s' \<and> good f {i} 1 s s' \<and> silenced ch (fm_tabs s) (view i s) (view i s')"
  using voice_off_good [OF assms(2,1,3)] good_refl [OF assms(2), of i] fm_base_parts(1) [of f s i] assms(1,2)
  by (auto simp: silence_voice_def silenced_def view_def fm_ok_def)

lemma reset_voice_good:
  assumes "i < 18" "fm_ok f s" "room 1 s"
  shows "\<exists>s'. reset_voice i s = Some s' \<and> good f {i} 1 s s' \<and> \<not> fv_on (fm_voices s' ! i)"
proof -
  obtain s1 where 1: "voice_off i s = Some s1" "good f {i} 1 s s1" "\<not> fv_on (fm_voices s1 ! i)"
    using voice_off_good [OF assms(2,1,3)] by blast
  have b: "fm_base f s1" "fm_synced s1" using 1(2) by (simp_all add: good_def fm_ok_def)
  let ?g = "\<lambda>v :: fm_voice. v\<lparr>fv_age := 0\<rparr>"
  have "voice_ok f (?g (fm_voices s1 ! i))" "fv_age (?g (fm_voices s1 ! i)) \<le> fm_age s1"
    using fm_base_parts(2) [OF b(1) assms(1)] by (simp_all add: voice_ok_def)
  from set_voice_base [where g = ?g, OF b(1) assms(1) this]
  have s': "fm_base f (set_voice i ?g s1)" "touch {i} 0 s1 (set_voice i ?g s1)" "fm_chip (set_voice i ?g s1) = fm_chip s1"
    "fm_voices (set_voice i ?g s1) = (fm_voices s1)[i := ?g (fm_voices s1 ! i)]" by simp_all
  have l: "length (fm_voices s1) = 18" using b(1) by (simp add: fm_base_def)
  then have "fm_synced (set_voice i ?g s1)"
    by (intro touch_synced [OF b(2) s'(2)]) (use b(2) assms(1) s'(3,4) in \<open>simp add: fm_synced_def key_of_def\<close>)
  then show ?thesis using s'(1,4) 1 l assms(1) touch_trans [OF _ s'(2), of "{i}" 1 s]
    by (simp add: reset_voice_def good_def fm_ok_def)
qed

interpretation volume_pass: voice_pass f "if_sounding ch set_volume" "\<lambda>_ _ _. True" for f ch
  by unfold_locales (use if_sounding_good set_volume_good in blast)

interpretation pan_pass: voice_pass f "if_sounding ch set_pan" "\<lambda>_ _ _. True" for f ch
  by unfold_locales (use if_sounding_good set_pan_good in blast)

interpretation freq_pass: voice_pass f "if_sounding ch (\<lambda>vi. set_freq vi True)" "\<lambda>_ _ _. True" for f ch
  by unfold_locales (use if_sounding_good [where fn = "\<lambda>vi. set_freq vi True"] set_freq_good in blast)

interpretation unsustain_pass: voice_pass f "unsustain_voice ch" "\<lambda>_ _ _. True" for f ch
  by unfold_locales (use unsustain_good in blast)

interpretation silence_pass: voice_pass f "silence_voice ch" "silenced ch" for f ch
  by unfold_locales (rule silence_good)

interpretation reset_pass: voice_pass f reset_voice "\<lambda>_ _ b. \<not> fv_on (fst b)" for f
  by unfold_locales (use reset_voice_good in \<open>simp add: view_def\<close>)

section \<open>Events\<close>

lemma set_chan_ok:
  assumes "fm_ok f s" "ch < 16" "fm_chan_ok (h (fm_chans s ! ch))"
  shows "fm_ok f (set_chan ch h s) \<and> fm_age (set_chan ch h s) = fm_age s \<and> fm_voices (set_chan ch h s) = fm_voices s"
  using assms unfolding fm_ok_def fm_base_def fm_synced_def set_chan_def
  by (auto dest!: subsetD [OF set_update_subset_insert])

lemma chan_nth_ok: "fm_ok f s \<Longrightarrow> ch < 16 \<Longrightarrow> fm_chan_ok (fm_chans s ! ch)"
  by (simp add: fm_ok_def fm_base_def)

lemma note_off_pass: "ch < 16 \<Longrightarrow> voice_pass f (note_off_voice ch key) (\<lambda>_ _ _. True)"
  by unfold_locales (use note_off_voice_good in blast)

lemma s_note_off_ok: "fm_ok f s \<Longrightarrow> room 18 s \<Longrightarrow> ch < 16 \<Longrightarrow> event_ok f 18 s (s_note_off ch key s)"
  unfolding s_note_off_def by (rule voice_pass.pass_event [OF note_off_pass]) simp_all

lemma fm_start_ok:
  assumes "fm_ok f s" "room 18 s" "ch < 16" "vel \<le> 127" "ins + 36 \<le> length f"
  shows "event_ok f 18 s (fm_start ch key vel ins s)"
proof -
  have "room 2 s" using assms(2) by (simp add: room_def)
  from start_voice_spec [OF assms(1) this assms(3-5)] obtain b1 s1 where
    1: "start_voice ch key vel ins False s = Some s1" "good f {b1} 2 s s1" by blast
  then have g1: "fm_ok f s1" "fm_age s1 \<le> fm_age s + 2" by (simp_all add: good_def touch_def)
  then have r1: "room 2 s1" using assms(2) by (simp add: room_def)
  from start_voice_spec [OF g1(1) r1 assms(3-5)] obtain b2 s2 where
    2: "start_voice ch key vel ins True s1 = Some s2" "good f {b2} 2 s1 s2" by blast
  then have g2: "fm_ok f s2" "fm_age s2 \<le> fm_age s1 + 2" by (simp_all add: good_def touch_def)
  have "fm_gm s1 = Some f" using g1(1) by (simp add: fm_ok_def fm_base_def)
  then have "gm16 s1 ins = Some (unat (f ! ins) OR push_bit 8 (unat (f ! (ins + 1))))"
    using assms(5) by (simp add: gm16_def gmb_Some)
  then show ?thesis using 1(1) 2(1) g1 g2 by (auto simp: event_ok_def fm_start_def)
qed

lemma s_note_on_ok:
  assumes "fm_ok f s" "room 18 s" "ch < 16" "vel \<le> 127"
  shows "event_ok f 18 s (s_note_on ch key vel s)"
proof -
  have l: "6308 \<le> length f" "fm_gm s = Some f" "at (fm_chans s) (int ch) = Some (fm_chans s ! ch)"
    using assms(1,3) by (simp_all add: fm_ok_def fm_base_def at_def)
  have "fc_program (fm_chans s ! ch) < 128" using chan_nth_ok [OF assms(1,3)] by (simp add: fm_chan_ok_def)
  then have p: "8 + fc_program (fm_chans s ! ch) * 36 + 36 \<le> length f" using l(1) by simp
  have d: "\<not> (key < 35 \<or> key > 81) \<Longrightarrow> 8 + (128 + key - 35) * 36 + 36 \<le> length f" using l(1) by simp
  show ?thesis
    using fm_start_ok [OF assms p] fm_start_ok [OF assms d] event_okI [of "Some s" s f s 18] assms(1)
    unfolding s_note_on_def by (cases "ch = 9") (simp_all add: l(2,3))
qed

lemma s_program_ok: "fm_ok f s \<Longrightarrow> ch < 16 \<Longrightarrow> fm_ok f (s_program ch p s) \<and> fm_age (s_program ch p s) = fm_age s"
  unfolding s_program_def using set_chan_ok [of f s ch] chan_nth_ok [of f s ch] and_below [of 127 128 p] by (simp add: fm_chan_ok_def)

lemma s_bend_ok: "fm_ok f s \<Longrightarrow> room 18 s \<Longrightarrow> ch < 16 \<Longrightarrow> event_ok f 18 s (s_bend ch v s)"
  unfolding s_bend_def each_voice_def
  using set_chan_ok [of f s ch] chan_nth_ok [of f s ch] by (intro freq_pass.pass_event) (simp_all add: fm_chan_ok_def)

lemma s_control_ok:
  assumes "fm_ok f s" "room 18 s" "ch < 16" "val \<le> 127"
  shows "event_ok f 18 s (s_control ch cc val s)"
proof -
  note c = chan_nth_ok [OF assms(1,3)]
  have up: "fm_chan_ok (h (fm_chans s ! ch)) \<Longrightarrow> fm_ok f (set_chan ch h s) \<and> fm_age (set_chan ch h s) = fm_age s" for h
    using set_chan_ok [OF assms(1,3)] by blast
  have plain: "fm_chan_ok (h (fm_chans s ! ch)) \<Longrightarrow> event_ok f 18 s (Some (set_chan ch h s))" for h
    using up [of h] by (simp add: event_ok_def)
  have vol: "fm_chan_ok (h (fm_chans s ! ch)) \<Longrightarrow> event_ok f 18 s (each_voice ch set_volume (set_chan ch h s))" for h
    unfolding each_voice_def using up [of h] assms(2) by (intro volume_pass.pass_event) simp_all
  have pan: "fm_chan_ok (h (fm_chans s ! ch)) \<Longrightarrow> event_ok f 18 s (each_voice ch set_pan (set_chan ch h s))" for h
    unfolding each_voice_def using up [of h] assms(2) by (intro pan_pass.pass_event) simp_all
  have sus: "fm_chan_ok (h (fm_chans s ! ch)) \<Longrightarrow> event_ok f 18 s (for_voices (unsustain_voice ch) [0..<NVOICES] (set_chan ch h s))" for h
    using up [of h] assms(2) by (intro unsustain_pass.pass_event) simp_all
  have sil: "event_ok f 18 s (for_voices (silence_voice ch) [0..<NVOICES] s)"
    using assms(1,2) by (intro silence_pass.pass_event) simp_all
  have id: "event_ok f 18 s (Some s)" using assms(1) by (simp add: event_ok_def)
  show ?thesis using c assms(4) unfolding s_control_def Let_def
    by (simp add: vol pan sus sil plain id fm_chan_ok_def)
qed

lemma s_reset_ok:
  assumes "fm_ok f s" "room 18 s"
  shows "\<exists>s'. s_reset s = Some s' \<and> fm_ok f s' \<and> fm_age s' \<le> fm_age s + 18 \<and> (\<forall>v\<in>set (fm_voices s'). \<not> fv_on v)"
proof -
  obtain s1 where 1: "for_voices reset_voice [0..<NVOICES] s = Some s1" "fm_ok f s1" "touch {0..<18} 18 s s1"
    "\<forall>i<18. \<not> fv_on (fst (view i s1))"
    using reset_pass.pass [OF assms] by blast
  have "length (fm_voices s1) = 18" using 1(2) by (simp add: fm_ok_def fm_base_def)
  then have off: "\<forall>v\<in>set (fm_voices s1). \<not> fv_on v" using 1(4) by (simp add: view_def all_set_conv_all_nth)
  have "fm_chan_ok chan_default" by (simp add: fm_chan_ok_def chan_default_def)
  then have "fm_ok f (s1\<lparr>fm_chans := replicate 16 chan_default\<rparr>)"
    using 1(2) by (simp add: fm_ok_def fm_base_def fm_synced_def)
  then show ?thesis using 1(1,3) off by (simp add: s_reset_def touch_def)
qed

section \<open>Samples\<close>

lemma same_regs_synced:
  assumes "list_all2 same_regs (chs ch) (chs ch')" "i < length (chs ch)"
  shows "c_key (chs ch' ! i) = c_key (chs ch ! i)"
  using list_all2_nthD [OF assms] by (simp add: same_regs_def)

lemma mix_bound: "\<bar>x\<bar> \<le> 147420 \<Longrightarrow> \<bar>x * GAIN_MUL div 2 ^ GAIN_SHIFT\<bar> \<le> 92138"
proof -
  assume "\<bar>x\<bar> \<le> 147420"
  then have "- 737100 \<le> x * 5" "x * 5 \<le> 737100" by simp_all
  then have "- 92138 \<le> x * 5 div 8" "x * 5 div 8 \<le> 92137"
    using zdiv_mono1 [of "- 737100" "x * 5" 8] zdiv_mono1 [of "x * 5" 737100 8] by simp_all
  then show ?thesis by (simp add: GAIN_MUL_def GAIN_SHIFT_def)
qed

lemma loud_mix:
  assumes "loud b buf" "loud 147420 t"
  shows "loud (b + 92138) (map2 mix_gain buf t)"
proof -
  have "\<bar>fst (mix_gain x y)\<bar> \<le> b + 92138 \<and> \<bar>snd (mix_gain x y)\<bar> \<le> b + 92138"
    if "\<bar>fst x\<bar> \<le> b" "\<bar>snd x\<bar> \<le> b" "\<bar>fst y\<bar> \<le> 147420" "\<bar>snd y\<bar> \<le> 147420" for x y
    using that mix_bound [of "fst y"] mix_bound [of "snd y"] unfolding mix_gain_def by simp linarith
  note pair = this
  show ?thesis unfolding loud_def
  proof (rule ballI)
    fix z assume "z \<in> set (map2 mix_gain buf t)"
    then obtain x y where xy: "(x, y) \<in> set (zip buf t)" "z = mix_gain x y" by auto
    have "\<bar>fst x\<bar> \<le> b" "\<bar>snd x\<bar> \<le> b" "\<bar>fst y\<bar> \<le> 147420" "\<bar>snd y\<bar> \<le> 147420"
      using assms set_zip_leftD [OF xy(1)] set_zip_rightD [OF xy(1)] by (auto simp: loud_def split_beta)
    from pair [OF this] show "case z of (l, r) \<Rightarrow> \<bar>l\<bar> \<le> b + 92138 \<and> \<bar>r\<bar> \<le> b + 92138" by (simp add: xy(2) split_beta)
  qed
qed

text \<open>A chunk of at most 256 samples, and the rest with the chip as the chunk leaves it.\<close>

lemma s_render_chunk:
  assumes "fm_ok f s" "buf \<noteq> []"
  shows "\<exists>m t ch. 0 < m \<and> m \<le> length buf \<and> length t = m \<and> loud 147420 t \<and> fm_ok f (s\<lparr>fm_chip := ch\<rparr>)
    \<and> opl_render (fm_tabs s) (replicate m (0, 0)) (fm_pan_l s) (fm_pan_r s) (fm_chip s) = Some (t, ch)
    \<and> s_render buf s = map_option (\<lambda>(rest, s2). (map2 mix_gain (take m buf) t @ rest, s2)) (s_render (drop m buf) (s\<lparr>fm_chip := ch\<rparr>))"
proof -
  define m where "m = min 256 (length buf)"
  have m: "0 < m" "m \<le> length buf" using assms(2) by (simp_all add: m_def)
  have b: "fm_base f s" "fm_synced s" using assms(1) by (simp_all add: fm_ok_def)
  have z: "loud 0 (replicate m (0, 0))" by (simp add: loud_def)
  have h: "tabs_ok (fm_tabs s)" "chip_ok (fm_chip s)" "pan_ok (fm_pan_l s)" "pan_ok (fm_pan_r s)" "length (chs (fm_chip s)) = 18"
    using b(1) by (simp_all add: fm_base_def chip_ok_def OPL_CHANNELS_def)
  obtain t ch where t: "opl_render (fm_tabs s) (replicate m (0, 0)) (fm_pan_l s) (fm_pan_r s) (fm_chip s) = Some (t, ch)"
    "chip_ok ch" "list_all2 same_regs (chs (fm_chip s)) (chs ch)" "length t = m" "loud 147420 t"
    using opl_render_ok [OF h(1-4) z] by auto
  have s1: "fm_ok f (s\<lparr>fm_chip := ch\<rparr>)"
    using b t(2) same_regs_synced [OF t(3)] h(5) by (simp add: fm_ok_def fm_base_def fm_synced_def)
  have "s_render buf s = map_option (\<lambda>(rest, s2). (map2 mix_gain (take m buf) t @ rest, s2)) (s_render (drop m buf) (s\<lparr>fm_chip := ch\<rparr>))"
    using assms(2) t(1) by (subst s_render.simps) (simp add: m_def [symmetric] Let_def map_conv_bind_option case_prod_beta' comp_def)
  then show ?thesis using m t(1,4,5) s1 by blast
qed

lemma s_render_ok:
  "fm_ok f s \<Longrightarrow> loud b buf \<Longrightarrow> \<exists>buf' s'. s_render buf s = Some (buf', s') \<and> fm_ok f s' \<and> fm_age s' = fm_age s
    \<and> fm_voices s' = fm_voices s \<and> length buf' = length buf \<and> loud (b + 92138) buf'"
proof (induction "length buf" arbitrary: buf s rule: less_induct)
  case less
  show ?case
  proof (cases "buf = []")
    case True
    then show ?thesis using less.prems by (subst s_render.simps) (simp add: loud_def)
  next
    case False
    from s_render_chunk [OF less.prems(1) False] obtain m t ch where
      m: "0 < m" "m \<le> length buf" and t: "length t = m" "loud 147420 t" and s1: "fm_ok f (s\<lparr>fm_chip := ch\<rparr>)"
      and r: "s_render buf s = map_option (\<lambda>(rest, s2). (map2 mix_gain (take m buf) t @ rest, s2)) (s_render (drop m buf) (s\<lparr>fm_chip := ch\<rparr>))"
      by blast
    have lb: "loud b (take m buf)" "loud b (drop m buf)" using less.prems(2) by (auto simp: loud_def dest: in_set_takeD in_set_dropD)
    have "length (drop m buf) < length buf" using m by simp
    from less.hyps [OF this s1 lb(2)] obtain rest s2 where
      2: "s_render (drop m buf) (s\<lparr>fm_chip := ch\<rparr>) = Some (rest, s2)" "fm_ok f s2" "fm_age s2 = fm_age s" "fm_voices s2 = fm_voices s"
        "length rest = length (drop m buf)" "loud (b + 92138) rest" by auto
    have "loud (b + 92138) (map2 mix_gain (take m buf) t @ rest)"
      using loud_mix [OF lb(1) t(2)] 2(6) by (auto simp: loud_def)
    then show ?thesis using r 2 t(1) m by simp
  qed
qed

text \<open>Rendering counts down to the end of a released channel.\<close>

lemma s_render_ends:
  "fm_ok f s \<Longrightarrow> i < 18 \<Longrightarrow> s_render buf s = Some (buf', s') \<Longrightarrow> over_in (fm_tabs s) (length buf + n) (chs (fm_chip s) ! i)
    \<Longrightarrow> over_in (fm_tabs s) n (chs (fm_chip s') ! i)"
proof (induction "length buf" arbitrary: buf buf' s rule: less_induct)
  case less
  show ?case
  proof (cases "buf = []")
    case True
    then have "s' = s" using less.prems(3) by (simp add: s_render.simps [of "[]"])
    then show ?thesis using less.prems(4) True by simp
  next
    case False
    from s_render_chunk [OF less.prems(1) False] obtain m t ch where
      m: "0 < m" "m \<le> length buf" and s1: "fm_ok f (s\<lparr>fm_chip := ch\<rparr>)"
      and t: "opl_render (fm_tabs s) (replicate m (0, 0)) (fm_pan_l s) (fm_pan_r s) (fm_chip s) = Some (t, ch)"
      and r: "s_render buf s = map_option (\<lambda>(rest, s2). (map2 mix_gain (take m buf) t @ rest, s2)) (s_render (drop m buf) (s\<lparr>fm_chip := ch\<rparr>))"
      by blast
    obtain rest where rest: "s_render (drop m buf) (s\<lparr>fm_chip := ch\<rparr>) = Some (rest, s')" using less.prems(3) r by auto
    have h: "tabs_ok (fm_tabs s)" "chip_ok (fm_chip s)" using less.prems(1) by (simp_all add: fm_ok_def fm_base_def)
    have l: "length (replicate m (0 :: int, 0 :: int)) + (length (drop m buf) + n) = length buf + n" using m by simp
    have "over_in (fm_tabs s) (length (drop m buf) + n) (chs ch ! i)"
      by (rule opl_render_ends [OF h t, of i "length (drop m buf) + n", unfolded l])
        (simp_all add: OPL_CHANNELS_def less.prems(2,4))
    then have e: "over_in (fm_tabs (s\<lparr>fm_chip := ch\<rparr>)) (length (drop m buf) + n) (chs (fm_chip (s\<lparr>fm_chip := ch\<rparr>)) ! i)" by simp
    have "length (drop m buf) < length buf" using m by simp
    from less.hyps [OF this s1 less.prems(2) rest e] show ?thesis by simp
  qed
qed

lemma s_render_tabs: "s_render buf s = Some (buf', s') \<Longrightarrow> fm_tabs s' = fm_tabs s"
proof (induction "length buf" arbitrary: buf buf' s rule: less_induct)
  case less
  show ?case
  proof (cases "buf = []")
    case True
    then show ?thesis using less.prems by (simp add: s_render.simps [of "[]"])
  next
    case False
    define m where "m = min 256 (length buf)"
    have "0 < m" "length (drop m buf) < length buf" using False by (simp_all add: m_def)
    moreover obtain t ch rest where "s_render (drop m buf) (s\<lparr>fm_chip := ch\<rparr>) = Some (rest, s')"
      using less.prems False unfolding s_render.simps [of buf] if_not_P [OF False] Let_def m_def [symmetric]
      by (cases "opl_render (fm_tabs s) (replicate m (0, 0)) (fm_pan_l s) (fm_pan_r s) (fm_chip s)")
        (auto split: bind_splits)
    ultimately show ?thesis using less.hyps by fastforce
  qed
qed

text \<open>Silence on a channel, and then enough samples: what sounded there is silent.\<close>

lemma s_control_silence:
  assumes "fm_ok f s" "room 18 s" "cc = 120 \<or> cc = 123"
  shows "\<exists>s'. s_control ch cc val s = Some s' \<and> fm_ok f s' \<and> fm_tabs s' = fm_tabs s
    \<and> (\<forall>i<18. silenced ch (fm_tabs s) (view i s) (view i s'))"
proof -
  have "s_control ch cc val s = for_voices (silence_voice ch) [0..<NVOICES] s" using assms(3) by (auto simp: s_control_def)
  then show ?thesis using silence_pass.pass [OF assms(1,2), of ch] by (auto simp: touch_def)
qed

end
