(* ===== verification/SynthSong.thy ===== *)
theory SynthSong
  imports SmfTime CInt
begin

text \<open>
  The sequencer and its synthesizer: the interface \<open>struct synth\<close> of \<open>src/apps/midi/synth.h\<close> as the locale \<open>synth_engine\<close>.
  An engine that keeps an invariant over events and adds bounded samples carries out the calls of \<open>smf_render\<close> (\<open>SmfTime\<close>)
  for a whole song. \<open>OplSong\<close> and \<open>SfSong\<close> give its two instances.
\<close>

type_synonym stereo = "(int \<times> int) list"

fun run_calls :: "(synth_call \<Rightarrow> 's \<times> stereo \<Rightarrow> ('s \<times> stereo) option) \<Rightarrow> synth_call list \<Rightarrow> 's \<times> stereo \<Rightarrow> ('s \<times> stereo) option" where
  "run_calls call [] x = Some x"
| "run_calls call (c # cs) x = do { y \<leftarrow> call c x; run_calls call cs y }"

text \<open>Rendering of \<open>k\<close> samples from \<open>left + p\<close> and \<open>right + p\<close> on.\<close>

definition render_at :: "(stereo \<Rightarrow> 's \<Rightarrow> (stereo \<times> 's) option) \<Rightarrow> int \<Rightarrow> int \<Rightarrow> 's \<times> stereo \<Rightarrow> ('s \<times> stereo) option" where
  "render_at render p k = (\<lambda>(s, buf).
     if 0 \<le> p \<and> p + k \<le> int (length buf)
     then do {
       (t, s1) \<leftarrow> render (take (nat k) (drop (nat p) buf)) s;
       Some (s1, take (nat p) buf @ t @ drop (nat (p + k)) buf)
     } else None)"

text \<open>An event that leaves the buffers alone.\<close>

definition keep_buf :: "stereo \<Rightarrow> 's option \<Rightarrow> ('s \<times> stereo) option" where
  "keep_buf buf r = map_option (\<lambda>s. (s, buf)) r"

lemma tiles_le: "tiles a b cs \<Longrightarrow> a \<le> b"
  by (induction a b cs rule: tiles.induct) auto

section \<open>The interface\<close>

text \<open>\<open>room n s\<close>: state \<open>s\<close> has the resources for \<open>n\<close> more events.\<close>

locale synth_engine =
  fixes call :: "synth_call \<Rightarrow> 's \<times> stereo \<Rightarrow> ('s \<times> stereo) option"
    and render :: "stereo \<Rightarrow> 's \<Rightarrow> (stereo \<times> 's) option"
    and inv :: "'s \<Rightarrow> bool" and room :: "nat \<Rightarrow> 's \<Rightarrow> bool" and top :: int
  assumes call_render: "call (Render p k) x = render_at render p k x"
    and call_event: "inv s \<Longrightarrow> room (Suc n) s \<Longrightarrow> midi_call c \<Longrightarrow> \<not> is_render (e, c)
      \<Longrightarrow> \<exists>s'. call c (s, buf) = Some (s', buf) \<and> inv s' \<and> room n s'"
    and renders: "inv s \<Longrightarrow> loud 0 buf \<Longrightarrow> room (Suc n) s
      \<Longrightarrow> \<exists>t s'. render buf s = Some (t, s') \<and> inv s' \<and> room n s' \<and> length t = length buf \<and> loud top t"
begin

lemma render_piece:
  assumes "inv s" "room (Suc n) s" "0 \<le> a" "0 < k" "a + k \<le> int (length buf)" "loud top (take (nat a) buf)" "loud 0 (drop (nat a) buf)"
  shows "\<exists>s1 buf1. call (Render a k) (s, buf) = Some (s1, buf1) \<and> inv s1 \<and> room n s1 \<and> length buf1 = length buf
    \<and> loud top (take (nat (a + k)) buf1) \<and> loud 0 (drop (nat (a + k)) buf1)"
proof -
  define A where "A = nat a"
  define K where "K = nat k"
  have AK: "nat (a + k) = A + K" "A + K \<le> length buf" using assms(3-5) by (simp_all add: A_def K_def nat_add_distrib)
  have "loud 0 (take K (drop A buf))" using assms(7) loud_parts by (simp add: A_def)
  from renders [OF assms(1) this assms(2)] obtain u s1 where
    u: "render (take K (drop A buf)) s = Some (u, s1)" "inv s1" "room n s1" "length u = K" "loud top u"
    using AK(2) by auto
  define buf1 where "buf1 = take A buf @ u @ drop (A + K) buf"
  have c: "call (Render a k) (s, buf) = Some (s1, buf1)"
    using assms(3,5) by (simp add: call_render render_at_def u(1) buf1_def A_def [symmetric] K_def [symmetric] AK(1))
  have parts: "take (A + K) buf1 = take A buf @ u" "drop (A + K) buf1 = drop (A + K) buf" "length buf1 = length buf"
    using AK(2) u(4) by (simp_all add: buf1_def)
  have "loud 0 (drop K (drop A buf))" using loud_parts [OF assms(7), of K] by (simp add: A_def)
  then have "loud 0 (drop (A + K) buf1)" using parts(2) by (simp add: add.commute)
  then show ?thesis using c u(2,3,5) parts assms(6) by (simp add: AK(1) A_def [symmetric])
qed

lemma calls_ok:
  "tiles a b cs \<Longrightarrow> \<forall>c\<in>set cs. midi_call (snd c) \<Longrightarrow> inv s \<Longrightarrow> room (length cs) s \<Longrightarrow> 0 \<le> a \<Longrightarrow> b \<le> int (length buf)
    \<Longrightarrow> loud top (take (nat a) buf) \<Longrightarrow> loud 0 (drop (nat a) buf)
    \<Longrightarrow> \<exists>s' buf'. run_calls call (map snd cs) (s, buf) = Some (s', buf') \<and> inv s' \<and> length buf' = length buf \<and> loud top (take (nat b) buf')"
proof (induction cs arbitrary: a s buf)
  case Nil
  then show ?case by simp
next
  case (Cons x cs)
  obtain e c where x: "x = (e, c)" by force
  have r: "room (Suc (length cs)) s" using Cons.prems(4) by simp
  have midi: "\<forall>c\<in>set cs. midi_call (snd c)" using Cons.prems(2) by simp
  show ?case
  proof (cases "is_render (e, c)")
    case False
    have "midi_call c" using Cons.prems(2) x by simp
    from call_event [OF Cons.prems(3) r this False] obtain s1 where
      s1: "call c (s, buf) = Some (s1, buf)" "inv s1" "room (length cs) s1" by blast
    have t: "tiles a b cs" using Cons.prems(1) False by (cases c) (simp_all add: x)
    from Cons.IH [OF t midi s1(2,3) Cons.prems(5-8)] show ?thesis by (simp add: x s1(1))
  next
    case True
    then obtain p k where c: "c = Render p k" by (cases c) simp_all
    have t: "p = a" "0 < k" "tiles (a + k) b cs" using Cons.prems(1) by (simp_all add: x c)
    have "a + k \<le> int (length buf)" using tiles_le [OF t(3)] Cons.prems(6) by simp
    from render_piece [OF Cons.prems(3) r Cons.prems(5) t(2) this Cons.prems(7,8)] obtain s1 buf1 where
      1: "call (Render a k) (s, buf) = Some (s1, buf1)" "inv s1" "room (length cs) s1" "length buf1 = length buf"
      "loud top (take (nat (a + k)) buf1)" "loud 0 (drop (nat (a + k)) buf1)" by blast
    have "0 \<le> a + k" using Cons.prems(5) t(2) by simp
    from Cons.IH [OF t(3) midi 1(2,3) this _ 1(5,6)] Cons.prems(6) show ?thesis by (simp add: x c t(1) 1(1,4))
  qed
qed

text \<open>A song, whatever its file holds.\<close>

lemma song:
  assumes "song_ok m" "syn m = Some e" "short_song m" "0 \<le> n" "int (now m) + n * int two32 < 9223372036854775808"
    and "tick_time m \<le> now m" "earliest (tracks m) \<noteq> 0xffffffff \<longrightarrow> now m < event_time m + two32"
    and "inv s"
  shows "\<exists>m' cs. smf_render 0 n m = Some m' \<and> calls m' = calls m @ cs
    \<and> (room (length cs) s \<longrightarrow>
        (\<exists>s' buf. run_calls call (map snd cs) (s, replicate (nat n) (0, 0)) = Some (s', buf)
          \<and> inv s' \<and> length buf = nat n \<and> loud top buf))"
proof -
  obtain m' cs where m': "smf_render 0 n m = Some m'" "calls m' = calls m @ cs" "tiles 0 (0 + n) cs"
    "\<forall>c\<in>set cs. fst c = e \<and> midi_call (snd c)"
    using smf_render_exact [of m e n 0] assms unfolding on_time_def by blast
  let ?buf = "replicate (nat n) (0 :: int, 0 :: int)"
  have l: "n \<le> int (length ?buf)" "loud top (take (nat 0) ?buf)" "loud 0 (drop (nat 0) ?buf)"
    using assms(4) by (simp_all add: loud_def)
  have t: "tiles 0 n cs" using m'(3) by simp
  have midi: "\<forall>c\<in>set cs. midi_call (snd c)" using m'(4) by blast
  have "room (length cs) s \<Longrightarrow> \<exists>s' buf. run_calls call (map snd cs) (s, ?buf) = Some (s', buf)
      \<and> inv s' \<and> length buf = nat n \<and> loud top buf"
    using calls_ok [OF t midi assms(8) _ order_refl l] by auto
  then show ?thesis using m'(1,2) by blast
qed

end

end
