(* ===== verification/OplSong.thy ===== *)
theory OplSong
  imports OplEvents SynthSong
begin

text \<open>
  The sequencer on the FM engine: the calls that \<open>smf_render\<close> makes (\<open>SmfTime\<close>), carried out by the functions of
  \<open>synth_opl\<close> (\<open>OplSynth\<close>), as the table \<open>struct synth synth_opl\<close> connects them.
\<close>

section \<open>The engine behind the calls\<close>

fun opl_call :: "synth_call \<Rightarrow> fm \<times> stereo \<Rightarrow> (fm \<times> stereo) option" where
  "opl_call (Note_on ch k v) (s, buf) = keep_buf buf (s_note_on ch k v s)"
| "opl_call (Note_off ch k) (s, buf) = keep_buf buf (s_note_off ch k s)"
| "opl_call (Control ch cc v) (s, buf) = keep_buf buf (s_control ch cc v s)"
| "opl_call (Program ch p) (s, buf) = Some (s_program ch p s, buf)"
| "opl_call (Bend ch v) (s, buf) = keep_buf buf (s_bend ch v s)"
| "opl_call Reset (s, buf) = keep_buf buf (s_reset s)"
| "opl_call (Render p k) (s, buf) = render_at s_render p k (s, buf)"

abbreviation opl_calls :: "synth_call list \<Rightarrow> fm \<times> stereo \<Rightarrow> (fm \<times> stereo) option" where
  "opl_calls \<equiv> run_calls opl_call"

text \<open>The statics of both files before anything is called.\<close>

definition fm_boot :: fm where
  "fm_boot = \<lparr>fm_gm = None, fm_voices = replicate NVOICES voice_zero,
     fm_chans = replicate 16 \<lparr>fc_program = 0, fc_volume = 0, fc_expression = 0, fc_pan = 0, fc_bend = 0, fc_bend_range = 0,
       fc_sustain = False, fc_rpn_msb = 0, fc_rpn_lsb = 0\<rparr>,
     fm_pan_l = replicate OPL_CHANNELS 0, fm_pan_r = replicate OPL_CHANNELS 0, fm_age = 0, fm_fnum = replicate 384 0,
     fm_atten = replicate 128 0,
     fm_tabs = \<lparr>wave_tab = replicate 4 (replicate 1024 0), gain_tab = replicate 1024 0, attack_step = replicate 16 0,
       decay_step = replicate 16 0, step_k = 0\<rparr>, fm_chip = opl_reset\<rparr>"

section \<open>Starting the engine\<close>

lemma atten_while_le: "a \<le> 63 \<Longrightarrow> atten_while louder i a \<le> 63"
  by (induction louder i a rule: atten_while.induct) (subst atten_while.simps, simp)

lemma atten_fill_ok:
  "a \<le> 63 \<Longrightarrow> \<forall>x\<in>set t. x \<le> 63 \<Longrightarrow> length (atten_fill louder a n t) = length t \<and> (\<forall>x\<in>set (atten_fill louder a n t). x \<le> 63)"
proof (induction n arbitrary: a t)
  case (Suc n)
  have "atten_while louder (Suc n) a \<le> 63" by (rule atten_while_le [OF Suc.prems(1)])
  moreover from this have "\<forall>x\<in>set (t[Suc n := atten_while louder (Suc n) a]). x \<le> 63"
    using Suc.prems(2) by (auto dest!: subsetD [OF set_update_subset_insert])
  ultimately show ?case using Suc.IH [of "atten_while louder (Suc n) a"] by (simp add: Let_def)
qed simp

lemma build_atten_ok: "length (build_atten ff) = 128 \<and> (\<forall>a\<in>set (build_atten ff). a \<le> 63)"
proof -
  have "\<forall>x\<in>set ((replicate 128 0)[0 := 63]). x \<le> (63 :: nat)"
    by (auto dest!: subsetD [OF set_update_subset_insert])
  from atten_fill_ok [OF _ this, of 0 "ff_louder ff" 127] show ?thesis by (simp add: build_atten_def)
qed

definition genmidi_ok :: "byte list \<Rightarrow> bool" where
  "genmidi_ok f = (8 + 175 * 36 \<le> length f \<and> take 8 f = [0x23, 0x4f, 0x50, 0x4c, 0x5f, 0x49, 0x49, 0x23])"

lemma synth_opl_init_ok:
  assumes "float_ok (ff_opl ff)" "genmidi_ok f" "pan_ok (fm_pan_l s)" "pan_ok (fm_pan_r s)"
    and "length (fm_chans s) = 16" "\<forall>c\<in>set (fm_chans s). fm_chan_ok c" "room 18 s"
  shows "\<exists>s'. synth_opl_init ff (Some f) s = Some (0, s') \<and> fm_ok f s' \<and> fm_age s' \<le> fm_age s + 18 \<and> s_voices s' = 0"
proof -
  define s1 where "s1 = s\<lparr>fm_gm := Some f, fm_fnum := build_fnum ff, fm_atten := build_atten ff,
    fm_tabs := opl_init_tabs (ff_opl ff), fm_chip := opl_reset\<rparr>"
  define s2 where "s2 = (fm_write 0x01 0x20 s1)\<lparr>fm_voices := replicate NVOICES voice_zero\<rparr>"
  have chip: "fm_chip s2 = opl_reset\<lparr>wave_select := True\<rparr>"
    by (simp add: s2_def fm_write_def s1_def opl_write_def)
  have fields: "fm_gm s2 = Some f" "fm_fnum s2 = build_fnum ff" "fm_atten s2 = build_atten ff" "fm_tabs s2 = opl_init_tabs (ff_opl ff)"
    "fm_voices s2 = replicate NVOICES voice_zero" "fm_chans s2 = fm_chans s" "fm_pan_l s2 = fm_pan_l s" "fm_pan_r s2 = fm_pan_r s"
    "fm_age s2 = fm_age s"
    by (simp_all add: s2_def fm_write_def s1_def)
  have l: "6308 \<le> length f" using assms(2) by (simp add: genmidi_ok_def)
  have "fm_base f s2" unfolding fm_base_def fields chip
    using l assms(3-6) build_atten_ok [of ff] opl_init_tabs_ok [OF assms(1)] opl_reset_ok
    by (simp add: NVOICES_def OPL_CHANNELS_def voice_ok_def voice_zero_def build_fnum_def chip_ok_def)
  moreover have "fm_synced s2" unfolding fm_synced_def fields chip
    by (simp add: NVOICES_def OPL_CHANNELS_def voice_zero_def opl_reset_def)
  ultimately have "fm_ok f s2" by (simp add: fm_ok_def)
  moreover have "room 18 s2" using assms(7) by (simp add: room_def fields)
  ultimately obtain s3 where s3: "s_reset s2 = Some s3" "fm_ok f s3" "fm_age s3 \<le> fm_age s2 + 18" "\<forall>v\<in>set (fm_voices s3). \<not> fv_on v"
    using s_reset_ok by blast
  have "synth_opl_init ff (Some f) s = Option.bind (s_reset s2) (\<lambda>s3. Some (0, s3))"
    using assms(2) unfolding synth_opl_init_def s2_def s1_def Let_def by (simp add: genmidi_ok_def)
  then have "synth_opl_init ff (Some f) s = Some (0, s3)" by (simp add: s3(1))
  moreover have "s_voices s3 = 0" using s3(4) by (simp add: s_voices_def)
  ultimately show ?thesis using s3(2,3) by (simp add: fields)
qed

section \<open>Calls in a row\<close>

lemma opl_event_ok:
  assumes "fm_ok f s" "room 18 s" "midi_call c" "\<not> is_render (e, c)"
  shows "\<exists>s'. opl_call c (s, buf) = Some (s', buf) \<and> fm_ok f s' \<and> fm_age s' \<le> fm_age s + 18"
proof -
  have k: "event_ok f 18 s r \<Longrightarrow> \<exists>s'. keep_buf buf r = Some (s', buf) \<and> fm_ok f s' \<and> fm_age s' \<le> fm_age s + 18" for r
    by (auto simp: event_ok_def keep_buf_def)
  have r: "\<exists>s'. keep_buf buf (s_reset s) = Some (s', buf) \<and> fm_ok f s' \<and> fm_age s' \<le> fm_age s + 18"
    using s_reset_ok [OF assms(1,2)] by (auto simp: keep_buf_def)
  show ?thesis
    using assms(3,4) k [OF s_note_on_ok [OF assms(1,2)]] k [OF s_note_off_ok [OF assms(1,2)]] k [OF s_control_ok [OF assms(1,2)]]
      k [OF s_bend_ok [OF assms(1,2)]] s_program_ok [OF assms(1)] r
    by (cases c) simp_all
qed

text \<open>The FM engine behind the interface of the sequencer: an event takes at most 18 ages.\<close>

interpretation opl: synth_engine opl_call s_render "fm_ok f" "\<lambda>n. room (18 * n)" 92138 for f
proof
  show "opl_call (Render p k) x = render_at s_render p k x" for p k x by (cases x) simp
  show "\<exists>s'. opl_call c (s, buf) = Some (s', buf) \<and> fm_ok f s' \<and> room (18 * n) s'"
    if "fm_ok f s" "room (18 * Suc n) s" "midi_call c" "\<not> is_render (e, c)" for s n c e buf
  proof -
    have "room 18 s" using that(2) by (simp add: room_def)
    from opl_event_ok [OF that(1) this that(3,4), of buf] show ?thesis using that(2) by (auto simp: room_def)
  qed
  show "\<exists>t s'. s_render buf s = Some (t, s') \<and> fm_ok f s' \<and> room (18 * n) s' \<and> length t = length buf \<and> loud 92138 t"
    if "fm_ok f s" "loud 0 buf" "room (18 * Suc n) s" for s buf n
    using s_render_ok [OF that(1,2)] that(3) by (auto simp: room_def)
qed

section \<open>A state with a voice that sounds\<close>

text \<open>Instrument data of zeros behind the header, tables of constants, and the first voice on with its key down.\<close>

definition bank0 :: "byte list" where
  "bank0 = [0x23, 0x4f, 0x50, 0x4c, 0x5f, 0x49, 0x49, 0x23] @ replicate 6300 0"

definition float1 :: fm_float where
  "float1 = \<lparr>ff_opl = \<lparr>fl_sin = \<lambda>_. 0, fl_gain = \<lambda>_. 1, fl_attack = \<lambda>_. 1, fl_decay = \<lambda>_. 1, fl_step_k = 1\<rparr>,
     ff_fnum = \<lambda>_. 0, ff_louder = \<lambda>_ _. False\<rparr>"

lemma bank0_ok: "genmidi_ok bank0" "length bank0 = 6308"
  by (simp_all add: genmidi_ok_def bank0_def)

lemma float1_ok: "float_ok (ff_opl float1)"
  by (simp add: float_ok_def float1_def ENV_MAX_def)

definition fm_ready :: fm where
  "fm_ready = fm_boot\<lparr>fm_gm := Some bank0, fm_atten := replicate 128 0, fm_tabs := opl_init_tabs (ff_opl float1)\<rparr>"

definition sounding_op :: opl_op where
  "sounding_op = op_zero\<lparr>o_env := 0, o_state := EG_SUSTAIN, o_rr := 1\<rparr>"

definition fm_sounding :: fm where
  "fm_sounding = fm_ready\<lparr>fm_voices := voice_zero\<lparr>fv_on := True\<rparr> # replicate 17 voice_zero,
     fm_chip := \<lparr>chs = \<lparr>c_mod = sounding_op, c_car = sounding_op, c_fnum = 0, c_block = 0, c_key = True, c_fb = 0, c_conn = False\<rparr>
       # replicate 17 \<lparr>c_mod = op_zero, c_car = op_zero, c_fnum = 0, c_block = 0, c_key = False, c_fb = 0, c_conn = False\<rparr>,
       wave_select = False\<rparr>\<rparr>"

lemma boot_lists: "pan_ok (fm_pan_l fm_boot)" "pan_ok (fm_pan_r fm_boot)" "length (fm_chans fm_boot) = 16"
  "\<forall>c\<in>set (fm_chans fm_boot). fm_chan_ok c" "room 18 fm_boot"
  by (simp_all add: fm_boot_def pan_ok_def fm_chan_ok_def room_def)

lemma sounding_chan_ok: "chan_ok \<lparr>c_mod = sounding_op, c_car = sounding_op, c_fnum = 0, c_block = 0, c_key = k, c_fb = 0, c_conn = False\<rparr>"
  by (simp add: chan_ok_def op_ok_def sounding_op_def op_zero_def ENV_MAX_def)

lemma zero_chan_ok: "chan_ok \<lparr>c_mod = op_zero, c_car = op_zero, c_fnum = 0, c_block = 0, c_key = k, c_fb = 0, c_conn = False\<rparr>"
  by (simp add: chan_ok_def op_ok_def op_zero_def ENV_MAX_def)

lemma sounding_chip_ok: "chip_ok (fm_chip fm_sounding)"
  by (simp add: fm_sounding_def chip_ok_def OPL_CHANNELS_def sounding_chan_ok zero_chan_ok)

lemma sounding_ok: "fm_ok bank0 fm_sounding"
proof -
  have "fm_base bank0 fm_sounding"
    unfolding fm_base_def using sounding_chip_ok opl_init_tabs_ok [OF float1_ok] boot_lists(1-4)
    by (simp add: fm_sounding_def fm_ready_def bank0_ok(2) voice_ok_def voice_zero_def fm_boot_def)
  moreover have "fm_synced fm_sounding"
    by (simp add: fm_synced_def fm_sounding_def voice_zero_def nth_Cons split: nat.splits)
  ultimately show ?thesis by (simp add: fm_ok_def)
qed

lemma sounding_room: "n < 1000 \<Longrightarrow> room n fm_sounding"
  by (simp add: room_def fm_sounding_def fm_ready_def fm_boot_def)

lemma sounding_releases: "releases (fm_tabs fm_sounding) 1 (chs (fm_chip fm_sounding) ! 0)"
  by (simp add: releases_def fm_sounding_def fm_ready_def sounding_op_def opl_init_tabs_def float1_def)

section \<open>Properties\<close>


text \<open>What \<open>one_note\<close> makes of three samples: a sample, the note, two samples.\<close>

lemma one_note_first: "smf_render 0 3 one_note = smf_render 1 2 (play_samples 0 1 one_note)"
proof -
  have "event_time one_note = two32" "segment one_note 3 = 1" "now one_note = 0"
    by (simp_all add: event_time_def segment_def one_note_def smf_start_def earliest_def s32_def)
  then show ?thesis
    using one_note_earliest by (subst smf_render.simps) simp
qed

lemma one_note_second: "\<exists>s. smf_step 1 (play_samples 0 1 one_note) = Some (True, s) \<and> earliest (tracks s) = 0xffffffff
  \<and> calls s = [(1, Render 0 1), (1, Note_on 0 60 100)] \<and> syn s = Some 1"
  unfolding smf_step_def play_samples_def Let_def
  by (simp add: one_note_def smf_start_def earliest_def call_syn_def event_time_def, subst track_loop.simps,
    simp add: track_event_def event_body_def take_byte_def rd_def read_delta_def Let_def channel_event_def call_syn_def,
    subst track_loop.simps, simp)

lemma one_note_calls: "\<exists>s. smf_render 0 3 one_note = Some s \<and> calls s = [(1, Render 0 1), (1, Note_on 0 60 100), (1, Render 1 2)]"
proof -
  obtain s where s: "smf_step 1 (play_samples 0 1 one_note) = Some (True, s)" "earliest (tracks s) = 0xffffffff"
    "calls s = [(1, Render 0 1), (1, Note_on 0 60 100)]" "syn s = Some 1" using one_note_second by blast
  have due: "earliest (tracks (play_samples 0 1 one_note)) \<noteq> 0xffffffff" "event_time (play_samples 0 1 one_note) \<le> now (play_samples 0 1 one_note)"
    by (simp_all add: play_samples_def call_syn_def event_time_def one_note_def smf_start_def earliest_def)
  have "smf_render 1 2 (play_samples 0 1 one_note) = smf_render 1 2 s"
    using due s(1) by (subst smf_render.simps) simp
  also have "\<dots> = Some (play_samples 1 2 (s\<lparr>finished := True\<rparr>))"
    using s(2) by (subst smf_render.simps) (simp, subst smf_render.simps, simp)
  finally show ?thesis using s(3,4) by (simp add: one_note_first play_samples_def call_syn_def)
qed


text \<open>
  C34: The engine starts from whatever state its statics have, with any instrument data of the length and the
  header that it checks for: the state is in order, the tables are filled and in range, every voice is off and
  its key up, and the result is 0. Data that is too short or has another header is refused with -1, and the
  engine is left without instruments.
\<close>

theorem opl_engine_starts:
  assumes "float_ok (ff_opl ff)" "pan_ok (fm_pan_l s)" "pan_ok (fm_pan_r s)"
    and "length (fm_chans s) = 16" "\<forall>c\<in>set (fm_chans s). fm_chan_ok c" "room 18 s"
  shows "\<exists>r s'. synth_opl_init ff (Some f) s = Some (r, s')
    \<and> (if genmidi_ok f then r = 0 \<and> fm_ok f s' \<and> s_voices s' = 0 else r = - 1 \<and> fm_gm s' = None)"
proof (cases "genmidi_ok f")
  case True
  then show ?thesis using synth_opl_init_ok [OF assms(1) True assms(2-6)] by auto
next
  case False
  then show ?thesis by (auto simp: synth_opl_init_def genmidi_ok_def)
qed

theorem opl_engine_starts_witness:
  "\<exists>s'. synth_opl_init float1 (Some bank0) fm_boot = Some (0, s') \<and> fm_ok bank0 s' \<and> s_voices s' = 0"
  using opl_engine_starts [OF float1_ok boot_lists(1-5), of bank0] bank0_ok(1) by auto

text \<open>
  A note takes the voice that has been off for longest; with every voice on it takes the one that was
  started first, which is released before. The voice then plays the note on its MIDI channel with its key down,
  and no other voice, and no channel of the chip but the one of that voice, has changed.
\<close>

theorem opl_start_voice:
  assumes "fm_ok f s" "room 2 s" "ch < 16" "vel \<le> 127" "ins + 36 \<le> length f"
  shows "\<exists>b s'. start_voice ch key vel ins second s = Some s'
    \<and> (if \<exists>v\<in>set (fm_voices s). \<not> fv_on v then is_oldest (\<lambda>v. \<not> fv_on v) (fm_voices s) b else is_oldest (\<lambda>_. True) (fm_voices s) b)
    \<and> (\<exists>note age. fm_voices s' ! b = new_voice ch key vel ins second note age) \<and> c_key (chs (fm_chip s') ! b)
    \<and> (\<forall>j. j \<noteq> b \<longrightarrow> fm_voices s' ! j = fm_voices s ! j \<and> chs (fm_chip s') ! j = chs (fm_chip s) ! j) \<and> fm_ok f s'"
proof -
  obtain b s' nt age where r: "start_voice ch key vel ins second s = Some s'" "good f {b} 2 s s'"
    "fm_voices s' ! b = new_voice ch key vel ins second nt age"
    "if \<exists>v\<in>set (fm_voices s). \<not> fv_on v then is_oldest (\<lambda>v. \<not> fv_on v) (fm_voices s) b else is_oldest (\<lambda>_. True) (fm_voices s) b"
    using start_voice_spec [OF assms] by blast
  have "length (fm_voices s) = 18" using assms(1) by (simp add: fm_ok_def fm_base_def)
  then have "b < 18" using r(4) by (auto simp: is_oldest_def split: if_splits)
  moreover have "fv_on (fm_voices s' ! b)" by (simp add: r(3) new_voice_def)
  ultimately have "c_key (chs (fm_chip s') ! b)" using r(2) by (simp add: good_def fm_ok_def fm_synced_def)
  moreover have "\<forall>j. j \<noteq> b \<longrightarrow> fm_voices s' ! j = fm_voices s ! j \<and> chs (fm_chip s') ! j = chs (fm_chip s) ! j" "fm_ok f s'"
    using r(2) by (simp_all add: good_def touch_def)
  ultimately show ?thesis using r(1,3,4) by blast
qed

theorem opl_start_voice_witness:
  "\<exists>b s'. start_voice 3 60 100 8 False fm_sounding = Some s' \<and> is_oldest (\<lambda>v. \<not> fv_on v) (fm_voices fm_sounding) b
    \<and> c_key (chs (fm_chip s') ! b) \<and> fm_ok bank0 s'"
proof -
  have "\<exists>v\<in>set (fm_voices fm_sounding). \<not> fv_on v" by (simp add: fm_sounding_def voice_zero_def)
  then show ?thesis
    using opl_start_voice [OF sounding_ok sounding_room, of 3 100 8 60 False] by (auto simp: bank0_ok(2))
qed

text \<open>
  C32: Silence on a MIDI channel (controllers 120 and 123) ends what sounds there: each of its voices is off at
  once, and once as many samples have been rendered as its release needs, at the step that its patch
  gives, its channel of the chip is silent, in whatever pieces the samples are rendered.
\<close>

theorem opl_silence_ends:
  assumes "fm_ok f s" "room 18 s" "cc = 120 \<or> cc = 123"
    and "i < 18" "fv_on (fm_voices s ! i)" "fv_chan (fm_voices s ! i) = ch"
    and "releases (fm_tabs s) d (chs (fm_chip s) ! i)"
    and "nat ENV_MAX div d + 1 \<le> length buf1 + length buf2" "loud b buf1" "loud b buf2"
  shows "\<exists>s0 s1 s2 out1 out2. s_control ch cc val s = Some s0 \<and> \<not> fv_on (fm_voices s0 ! i)
    \<and> s_render buf1 s0 = Some (out1, s1) \<and> s_render buf2 s1 = Some (out2, s2) \<and> chan_silent (chs (fm_chip s2) ! i)"
proof -
  obtain s0 where 0: "s_control ch cc val s = Some s0" "fm_ok f s0" "fm_tabs s0 = fm_tabs s"
    "silenced ch (fm_tabs s) (view i s) (view i s0)"
    using s_control_silence [OF assms(1-3), of ch val] assms(4) by blast
  have e: "chan_ends_in (fm_tabs s) (nat ENV_MAX div d + 1) (chs (fm_chip s0) ! i)" and off: "\<not> fv_on (fm_voices s0 ! i)"
    using 0(4) assms(5-7) by (auto simp: silenced_def view_def)
  have o1: "over_in (fm_tabs s0) (length buf1 + length buf2) (chs (fm_chip s0) ! i)"
    using chan_ends_in_mono [OF e assms(8)] by (simp add: over_in_def 0(3))
  obtain out1 s1 where 1: "s_render buf1 s0 = Some (out1, s1)" "fm_ok f s1" using s_render_ok [OF 0(2) assms(9)] by blast
  have o2: "over_in (fm_tabs s1) (length buf2 + 0) (chs (fm_chip s1) ! i)"
    using s_render_ends [OF 0(2) assms(4) 1(1) o1] s_render_tabs [OF 1(1)] by simp
  obtain out2 s2 where 2: "s_render buf2 s1 = Some (out2, s2)" using s_render_ok [OF 1(2) assms(10)] by blast
  have "chan_silent (chs (fm_chip s2) ! i)" by (rule over_in_0 [OF s_render_ends [OF 1(2) assms(4) 2 o2]])
  then show ?thesis using 0(1) off 1(1) 2 by blast
qed

theorem opl_silence_ends_witness:
  "\<exists>s0 s1 s2 out1 out2. s_control 0 123 0 fm_sounding = Some s0 \<and> \<not> fv_on (fm_voices s0 ! 0)
    \<and> s_render (replicate (nat ENV_MAX) (0, 0)) s0 = Some (out1, s1) \<and> s_render [(0, 0)] s1 = Some (out2, s2)
    \<and> chan_silent (chs (fm_chip s2) ! 0)"
  by (rule opl_silence_ends [where b = 0, OF sounding_ok sounding_room _ _ _ _ sounding_releases])
    (simp_all add: fm_sounding_def voice_zero_def loud_def)

end
