(* ===== verification/SfBank.thy ===== *)
theory SfBank
  imports SfMix Bytes
begin

text \<open>
  The SoundFont file in \<open>src/apps/midi/synth_sf2.c\<close>: \<open>synth_sf2_init\<close> finds the chunks of the file, \<open>find_preset\<close> and the zone
  functions read them. The file is the list of its bytes, in a buffer that begins at an even address; a pointer into it is
  an offset. A read outside of it is \<open>None\<close>.
\<close>

section \<open>State\<close>

record sf_bank =
  bk_file :: "byte list"
  bk_phdr :: "nat option"
  bk_pbag :: "nat option"
  bk_pgen :: "nat option"
  bk_inst :: "nat option"
  bk_ibag :: "nat option"
  bk_igen :: "nat option"
  bk_shdr :: "nat option"
  bk_nphdr :: nat
  bk_npbag :: nat
  bk_npgen :: nat
  bk_ninst :: nat
  bk_nibag :: nat
  bk_nigen :: nat
  bk_nshdr :: nat
  bk_smpl :: "nat option"
  bk_nsmpl :: nat
  bk_name :: "byte list"

text \<open>\<open>rd16\<close> and \<open>rd32\<close> of the file.\<close>

definition sf16 :: "byte list \<Rightarrow> int \<Rightarrow> nat option" where
  "sf16 f p = (if 0 \<le> p \<and> p + 1 < int (length f) then Some (ufs_le16 f (nat p)) else None)"

definition sf32 :: "byte list \<Rightarrow> int \<Rightarrow> nat option" where
  "sf32 f p = (if 0 \<le> p \<and> p + 3 < int (length f) then Some (ufs_le32 f (nat p)) else None)"

definition tag4 :: "byte list \<Rightarrow> int \<Rightarrow> byte list option" where
  "tag4 f p = (if 0 \<le> p \<and> p + 3 < int (length f) then Some (take 4 (drop (nat p) f)) else None)"

section \<open>Chunks\<close>

text \<open>\<open>(n + 1) & ~1u\<close>\<close>

definition even_up :: "nat \<Rightarrow> nat" where
  "even_up n = (let x = add32 n 1 in x - x mod 2)"

fun copy_name :: "byte list \<Rightarrow> int \<Rightarrow> nat \<Rightarrow> byte list option" where
  "copy_name f d 0 = Some []"
| "copy_name f d (Suc n) = do {
     c \<leftarrow> at f d;
     if c = 0 then Some []
     else map_option ((#) (if 32 \<le> c \<and> c < 127 then c else 0x3f)) (copy_name f (d + 1) n)
   }"

definition known_chunk :: "byte list \<Rightarrow> byte list \<Rightarrow> int \<Rightarrow> nat \<Rightarrow> sf_bank \<Rightarrow> sf_bank option" where
  "known_chunk f ident d sz bk =
     (if ident = [0x49, 0x4e, 0x41, 0x4d] then map_option (\<lambda>n. bk\<lparr>bk_name := n\<rparr>) (copy_name f d (min sz 63))
      else if ident = [0x73, 0x6d, 0x70, 0x6c] then Some (bk\<lparr>bk_smpl := Some (nat d), bk_nsmpl := sz div 2\<rparr>)
      else if ident = [0x70, 0x68, 0x64, 0x72] then Some (bk\<lparr>bk_phdr := Some (nat d), bk_nphdr := sz div 38\<rparr>)
      else if ident = [0x70, 0x62, 0x61, 0x67] then Some (bk\<lparr>bk_pbag := Some (nat d), bk_npbag := sz div 4\<rparr>)
      else if ident = [0x70, 0x67, 0x65, 0x6e] then Some (bk\<lparr>bk_pgen := Some (nat d), bk_npgen := sz div 4\<rparr>)
      else if ident = [0x69, 0x6e, 0x73, 0x74] then Some (bk\<lparr>bk_inst := Some (nat d), bk_ninst := sz div 22\<rparr>)
      else if ident = [0x69, 0x62, 0x61, 0x67] then Some (bk\<lparr>bk_ibag := Some (nat d), bk_nibag := sz div 4\<rparr>)
      else if ident = [0x69, 0x67, 0x65, 0x6e] then Some (bk\<lparr>bk_igen := Some (nat d), bk_nigen := sz div 4\<rparr>)
      else if ident = [0x73, 0x68, 0x64, 0x72] then Some (bk\<lparr>bk_shdr := Some (nat d), bk_nshdr := sz div 46\<rparr>)
      else Some bk)"

text \<open>One round of the inner loop. The sizes are unsigned, the positions and \<open>(long) sz\<close> are not: a size from \<open>2 ^ 31\<close> on is not
  cut to the end of the list, and moves back.\<close>

definition list_step :: "byte list \<Rightarrow> int \<Rightarrow> int \<Rightarrow> sf_bank \<Rightarrow> (int \<times> sf_bank) option" where
  "list_step f lend lpos bk = do {
     sz0 \<leftarrow> sf32 f (lpos + 4);
     e \<leftarrow> fit (lpos + 8 + i32 (int sz0));
     let sz = (if e > lend then nat (lend - lpos - 8) else sz0);
     ident \<leftarrow> tag4 f lpos;
     bk1 \<leftarrow> known_chunk f ident (lpos + 8) sz bk;
     Some (i32 (lpos + int (add32 8 (even_up sz))), bk1)
   }"

partial_function (option) list_chunks :: "byte list \<Rightarrow> int \<Rightarrow> int \<Rightarrow> sf_bank \<Rightarrow> sf_bank option" where
  "list_chunks f lend lpos bk =
     (if lpos + 8 \<le> lend
      then Option.bind (list_step f lend lpos bk) (\<lambda>r. list_chunks f lend (fst r) (snd r))
      else Some bk)"

text \<open>One round of the outer loop.\<close>

definition riff_step :: "byte list \<Rightarrow> int \<Rightarrow> sf_bank \<Rightarrow> (int \<times> sf_bank) option" where
  "riff_step f pos bk = do {
     clen \<leftarrow> sf32 f (pos + 4);
     ident \<leftarrow> tag4 f pos;
     let pos1 = i32 (pos + int (add32 8 (even_up clen)));
     if ident \<noteq> [0x4c, 0x49, 0x53, 0x54] then Some (pos1, bk)
     else do {
       bk1 \<leftarrow> list_chunks f (min (i32 (pos + 8 + int clen)) (int (length f))) (pos + 12) bk;
       Some (pos1, bk1)
     }
   }"

partial_function (option) riff_chunks :: "byte list \<Rightarrow> int \<Rightarrow> sf_bank \<Rightarrow> sf_bank option" where
  "riff_chunks f pos bk =
     (if pos + 12 \<le> int (length f)
      then Option.bind (riff_step f pos bk) (\<lambda>r. riff_chunks f (fst r) (snd r))
      else Some bk)"

definition riff_header :: "byte list \<Rightarrow> bool" where
  "riff_header f = (12 \<le> length f \<and> take 4 f = [0x52, 0x49, 0x46, 0x46] \<and> take 4 (drop 8 f) = [0x73, 0x66, 0x62, 0x6b])"

definition bank_clear :: "byte list \<Rightarrow> sf_bank \<Rightarrow> sf_bank" where
  "bank_clear f bk = bk\<lparr>bk_file := f, bk_phdr := None, bk_pbag := None, bk_pgen := None, bk_inst := None, bk_ibag := None,
     bk_igen := None, bk_shdr := None, bk_smpl := None, bk_name := []\<rparr>"

text \<open>The bank of a file, and whether the file is accepted.\<close>

definition bank_load :: "byte list \<Rightarrow> sf_bank \<Rightarrow> (bool \<times> sf_bank) option" where
  "bank_load f bk =
     (if \<not> riff_header f then Some (False, bank_clear f bk)
      else do {
        bk1 \<leftarrow> riff_chunks f 12 (bank_clear f bk);
        let missing = (bk_phdr bk1 = None \<or> bk_pbag bk1 = None \<or> bk_pgen bk1 = None \<or> bk_inst bk1 = None \<or> bk_ibag bk1 = None
          \<or> bk_igen bk1 = None \<or> bk_shdr bk1 = None \<or> bk_smpl bk1 = None \<or> bk_nphdr bk1 < 2);
        if missing \<or> odd (the (bk_smpl bk1)) then Some (False, bk1\<lparr>bk_phdr := None\<rparr>)
        else Some (True, bk1)
      })"

text \<open>The samples from \<open>smpl\<close> on, to the end of the file.\<close>

definition bank_samples :: "sf_bank \<Rightarrow> int list" where
  "bank_samples bk = (case bk_smpl bk of
     None \<Rightarrow> []
   | Some p \<Rightarrow> map (\<lambda>i. i16 (ufs_le16 (bk_file bk) (p + 2 * i))) [0..<(length (bk_file bk) - p) div 2])"

section \<open>Generators\<close>

definition G_COUNT :: nat where "G_COUNT = 61"

text \<open>The pointer \<open>p\<close> and \<open>n\<close> bytes further; a null pointer is not read.\<close>

definition ptr_off :: "nat option \<Rightarrow> nat \<Rightarrow> int option" where
  "ptr_off p n = map_option (\<lambda>b. int (b + n)) p"

definition bank16 :: "sf_bank \<Rightarrow> nat option \<Rightarrow> nat \<Rightarrow> nat option" where
  "bank16 bk p n = do { a \<leftarrow> ptr_off p n; sf16 (bk_file bk) a }"

definition gen_default :: "int list" where
  "gen_default = (replicate G_COUNT 0)[33 := - 12000, 34 := - 12000, 35 := - 12000, 36 := - 12000, 38 := - 12000, 43 := 0x7f00,
     44 := 0x7f00, 46 := - 1, 47 := - 1, 56 := 100, 58 := - 1, 8 := 13500, 21 := - 12000, 23 := - 12000, 25 := - 12000,
     26 := - 12000, 27 := - 12000, 28 := - 12000, 30 := - 12000]"

definition apply_gen :: "bool \<Rightarrow> nat \<Rightarrow> int \<Rightarrow> int list \<Rightarrow> int list" where
  "apply_gen over g_op amt g =
     (if g_op \<ge> G_COUNT then g
      else if over then g[g_op := amt]
      else if g_op = 43 \<or> g_op = 44 then g[g_op := amt]
      else g[g_op := signed_take_bit 15 (g ! g_op + amt)])"

fun apply_list :: "sf_bank \<Rightarrow> nat option \<Rightarrow> bool \<Rightarrow> nat list \<Rightarrow> int list \<Rightarrow> int list option" where
  "apply_list bk gens over [] g = Some g"
| "apply_list bk gens over (i # is) g = do {
     g_op \<leftarrow> bank16 bk gens (i * 4);
     amt \<leftarrow> bank16 bk gens (i * 4 + 2);
     apply_list bk gens over is (apply_gen over g_op (i16 amt) g)
   }"

definition apply_gens :: "sf_bank \<Rightarrow> nat option \<Rightarrow> nat \<Rightarrow> nat \<Rightarrow> bool \<Rightarrow> int list \<Rightarrow> int list option" where
  "apply_gens bk gens from to over g = apply_list bk gens over [from..<to] g"

definition zone_last_gen :: "sf_bank \<Rightarrow> nat option \<Rightarrow> nat option \<Rightarrow> nat \<Rightarrow> nat \<Rightarrow> int option" where
  "zone_last_gen bk bags gens ngens b = do {
     from \<leftarrow> bank16 bk bags (b * 4);
     to \<leftarrow> bank16 bk bags ((b + 1) * 4);
     if to \<le> from \<or> to > ngens then Some (- 1) else map_option int (bank16 bk gens ((to - 1) * 4))
   }"

text \<open>The generators of zone \<open>b\<close>, over those that are there already.\<close>

definition zone_gens :: "sf_bank \<Rightarrow> nat option \<Rightarrow> nat option \<Rightarrow> nat \<Rightarrow> int list \<Rightarrow> int list option" where
  "zone_gens bk bags gens b g = do {
     from \<leftarrow> bank16 bk bags (b * 4);
     to \<leftarrow> bank16 bk bags ((b + 1) * 4);
     apply_gens bk gens from to True g
   }"

definition in_range :: "int \<Rightarrow> int \<Rightarrow> bool" where
  "in_range rg v = (let lo = rg AND 0xff; hi = drop_bit 8 rg AND 0xff in v \<ge> lo \<and> v \<le> hi)"

section \<open>Presets\<close>

fun find_from :: "sf_bank \<Rightarrow> nat \<Rightarrow> nat \<Rightarrow> nat list \<Rightarrow> nat option option" where
  "find_from bk bank prog [] = Some None"
| "find_from bk bank prog (i # is) = do {
     p \<leftarrow> bank16 bk (bk_phdr bk) (i * 38 + 20);
     b \<leftarrow> (if p = prog then bank16 bk (bk_phdr bk) (i * 38 + 22) else Some 0);
     if p = prog \<and> b = bank then Some (Some i) else find_from bk bank prog is
   }"

definition find_preset :: "sf_bank \<Rightarrow> nat \<Rightarrow> nat \<Rightarrow> nat option option" where
  "find_preset bk bank prog = find_from bk bank prog [0..<bk_nphdr bk - 1]"

end
