(* ===== verification/SfSynth.thy ===== *)
theory SfSynth
  imports SfBank
begin

text \<open>
  The SoundFont engine of the MIDI player, \<open>src/apps/midi/synth_sf2.c\<close>: a note starts a voice for every matching zone of its
  preset and instrument. What the code computes in floating point is an argument, the record \<open>sf_float\<close>: the table of the gains,
  the samples of so many timecents, and the step of a pitch, a bend (with its range) and a sample rate.
\<close>

section \<open>State\<close>

record sf_chan =
  sc_program :: nat
  sc_bank :: nat
  sc_volume :: nat
  sc_expression :: nat
  sc_pan :: nat
  sc_bend :: nat
  sc_bend_range :: nat
  sc_sustain :: bool
  sc_rpn_msb :: nat
  sc_rpn_lsb :: nat

record sf_float =
  sfl_gain :: cb_tab
  sfl_samples :: "int \<Rightarrow> nat"
  sfl_step :: "int \<Rightarrow> int \<Rightarrow> nat \<Rightarrow> nat"

record sf =
  sf_bank :: sf_bank
  sf_voices :: "sf_voice list"
  sf_chans :: "sf_chan list"
  sf_age :: nat
  sf_limit :: int
  sf_float :: sf_float

abbreviation gain_of :: "sf \<Rightarrow> cb_tab" where
  "gain_of s \<equiv> sfl_gain (sf_float s)"

definition tc_samples :: "sf_float \<Rightarrow> int \<Rightarrow> int" where
  "tc_samples fl tc = (if tc \<le> - 12000 then 0 else if sfl_samples fl tc > 100000000 then 100000000 else int (sfl_samples fl tc))"

definition set_sf_voice :: "nat \<Rightarrow> sf_voice \<Rightarrow> sf \<Rightarrow> sf" where
  "set_sf_voice i v s = s\<lparr>sf_voices := (sf_voices s)[i := v]\<rparr>"

section \<open>Voices\<close>

definition update_step :: "sf \<Rightarrow> sf_voice \<Rightarrow> sf_voice option" where
  "update_step s v = do {
     c \<leftarrow> at (sf_chans s) (int (sv_chan v));
     Some (v\<lparr>sv_step := sfl_step (sf_float s) (sv_pitch v) ((int (sc_bend c) - 8192) * int (sc_bend_range c)) (sv_rate v) mod two32\<rparr>)
   }"

definition chan_cb :: "sf \<Rightarrow> nat \<Rightarrow> nat option" where
  "chan_cb s ch = do {
     c \<leftarrow> at (sf_chans s) (int ch);
     a \<leftarrow> amp_to_cb (gain_of s) (int (sc_volume c));
     b \<leftarrow> amp_to_cb (gain_of s) (int (sc_expression c));
     Some (a + b)
   }"

text \<open>\<open>alloc_voice\<close>: the first free voice and the number of active ones; the quietest released voice; the oldest.\<close>

definition first_free :: "sf_voice list \<Rightarrow> nat option" where
  "first_free vs = List.find (\<lambda>i. \<not> sv_active (vs ! i)) [0..<length vs]"

definition active_voices :: "sf_voice list \<Rightarrow> nat" where
  "active_voices vs = length (filter sv_active vs)"

definition quietest :: "sf_voice list \<Rightarrow> nat option \<times> int" where
  "quietest vs =
     fold (\<lambda>i (best, best_cb). if sv_released (vs ! i) \<and> sv_env_cb (vs ! i) > best_cb then (Some i, sv_env_cb (vs ! i)) else (best, best_cb))
       [0..<length vs] (None, - 1)"

definition oldest :: "sf_voice list \<Rightarrow> nat option \<times> nat" where
  "oldest vs =
     fold (\<lambda>i (best, best_age). if sv_age (vs ! i) < best_age then (Some i, sv_age (vs ! i)) else (best, best_age))
       [0..<length vs] (None, two32 - 1)"

definition alloc_sf_voice :: "sf \<Rightarrow> nat option" where
  "alloc_sf_voice s =
     (if first_free (sf_voices s) \<noteq> None \<and> int (active_voices (sf_voices s)) < sf_limit s then first_free (sf_voices s)
      else if fst (quietest (sf_voices s)) \<noteq> None then fst (quietest (sf_voices s))
      else fst (oldest (sf_voices s)))"

definition sf_voice_zero :: sf_voice where
  "sf_voice_zero = \<lparr>sv_active = False, sv_chan = 0, sv_key = 0, sv_vel = 0, sv_released = False, sv_sustained = False,
     sv_exclusive = 0, sv_age = 0, sv_data = [], sv_pos = 0, sv_frac = 0, sv_step = 0, sv_end = 0, sv_loop_start = 0,
     sv_loop_end = 0, sv_loop_mode = 0, sv_pitch = 0, sv_rate = 0, sv_base_cb = 0, sv_pan = 0, sv_env = ENV_DELAY, sv_env_t = 0,
     sv_delay_n = 0, sv_attack_n = 0, sv_hold_n = 0, sv_decay_n = 0, sv_release_n = 0, sv_sustain_cb = 0, sv_env_cb = 0,
     sv_rel_step = 0, sv_gain_l = 0, sv_gain_r = 0\<rparr>"

text \<open>A sample header with the offsets of the generators, in unsigned 32 bits.\<close>

record sf_sample =
  ss_start :: nat
  ss_end :: nat
  ss_loop_start :: nat
  ss_loop_end :: nat
  ss_rate :: nat
  ss_root :: int
  ss_correction :: int

definition offset_by :: "nat \<Rightarrow> int \<Rightarrow> int \<Rightarrow> nat" where
  "offset_by a fine coarse = nat ((int a + fine + coarse * 32768) mod 4294967296)"

definition read_sample :: "sf_bank \<Rightarrow> int list \<Rightarrow> sf_sample option option" where
  "read_sample bk g = do {
     sh \<leftarrow> ptr_off (bk_shdr bk) (nat (g ! 53) * 46);
     start \<leftarrow> sf32 (bk_file bk) (sh + 20);
     en \<leftarrow> sf32 (bk_file bk) (sh + 24);
     ls \<leftarrow> sf32 (bk_file bk) (sh + 28);
     le \<leftarrow> sf32 (bk_file bk) (sh + 32);
     rate \<leftarrow> sf32 (bk_file bk) (sh + 36);
     root \<leftarrow> at (bk_file bk) (sh + 40);
     correction \<leftarrow> at (bk_file bk) (sh + 41);
     ty \<leftarrow> sf16 (bk_file bk) (sh + 44);
     if ty AND 0x8000 \<noteq> 0 \<or> rate = 0 then Some None
     else Some (Some \<lparr>ss_start = offset_by start (g ! 0) (g ! 4), ss_end = min (offset_by en (g ! 1) (g ! 12)) (bk_nsmpl bk),
       ss_loop_start = offset_by ls (g ! 2) (g ! 45), ss_loop_end = offset_by le (g ! 3) (g ! 50), ss_rate = rate,
       ss_root = int (unat root), ss_correction = sint correction\<rparr>)
   }"

definition exclude :: "nat \<Rightarrow> int \<Rightarrow> sf_voice list \<Rightarrow> sf_voice list" where
  "exclude ch ex vs = map (\<lambda>v. if sv_active v \<and> sv_chan v = ch \<and> sv_exclusive v = ex then v\<lparr>sv_active := False\<rparr> else v) vs"

definition loop_mode_of :: "int \<Rightarrow> sf_sample \<Rightarrow> nat" where
  "loop_mode_of m x =
     (let k = nat (m AND 3) in if k = 2 \<or> ss_loop_end x \<le> ss_loop_start x \<or> ss_loop_end x > ss_end x then 0 else k)"

definition clamp :: "int \<Rightarrow> int \<Rightarrow> int \<Rightarrow> int" where
  "clamp lo hi x = (if x < lo then lo else if x > hi then hi else x)"

text \<open>The voice of a zone with the generators \<open>g\<close>, its attenuation \<open>cb\<close> from velocity and channel, its channel's pan.\<close>

definition new_sf_voice :: "sf_float \<Rightarrow> int list \<Rightarrow> nat \<Rightarrow> nat \<Rightarrow> nat \<Rightarrow> nat \<Rightarrow> int list \<Rightarrow> sf_sample \<Rightarrow> int \<Rightarrow> nat \<Rightarrow> sf_voice" where
  "new_sf_voice fl d ch key vel age g x cb pan =
     (let k = (if g ! 46 \<ge> 0 then g ! 46 else int key);
          vl = (if g ! 47 \<ge> 0 then g ! 47 else int vel);
          root = (if g ! 58 \<ge> 0 then g ! 58 else if ss_root x > 127 then 60 else ss_root x)
      in sf_voice_zero\<lparr>sv_active := True, sv_chan := ch, sv_key := key, sv_vel := vl, sv_age := age, sv_exclusive := g ! 57,
           sv_data := d, sv_pos := ss_start x, sv_end := ss_end x, sv_loop_start := ss_loop_start x, sv_loop_end := ss_loop_end x,
           sv_loop_mode := loop_mode_of (g ! 54) x, sv_rate := ss_rate x,
           sv_pitch := (k - root) * (g ! 56) + g ! 51 * 100 + g ! 52 + ss_correction x,
           sv_base_cb := max 0 (g ! 48 * 2 sdiv 5 + cb),
           sv_pan := clamp (- 500) 500 (g ! 17 + (int pan - 64) * 1000 sdiv 127),
           sv_delay_n := tc_samples fl (g ! 33), sv_attack_n := tc_samples fl (g ! 34),
           sv_hold_n := tc_samples fl (g ! 35 + g ! 39 * (60 - k)), sv_decay_n := tc_samples fl (g ! 36 + g ! 40 * (60 - k)),
           sv_release_n := tc_samples fl (g ! 38), sv_sustain_cb := clamp 0 1440 (g ! 37), sv_env := ENV_DELAY, sv_env_t := 0,
           sv_env_cb := 0\<rparr>)"

definition start_sf_voice :: "nat \<Rightarrow> nat \<Rightarrow> nat \<Rightarrow> int list \<Rightarrow> sf \<Rightarrow> sf option" where
  "start_sf_voice ch key vel g s =
     (if g ! 53 < 0 \<or> g ! 53 \<ge> int (bk_nshdr (sf_bank s)) - 1 then Some s
      else do {
        smp \<leftarrow> read_sample (sf_bank s) g;
        case smp of
          None \<Rightarrow> Some s
        | Some x \<Rightarrow>
            if ss_start x \<ge> ss_end x then Some s
            else do {
              let s1 = (if g ! 57 \<noteq> 0 then s\<lparr>sf_voices := exclude ch (g ! 57) (sf_voices s)\<rparr> else s);
              vi \<leftarrow> alloc_sf_voice s1;
              let s2 = s1\<lparr>sf_age := add32 (sf_age s1) 1\<rparr>;
              c \<leftarrow> at (sf_chans s2) (int ch);
              vcb \<leftarrow> amp_to_cb (gain_of s2) (if g ! 47 \<ge> 0 then g ! 47 else int vel);
              ccb \<leftarrow> chan_cb s2 ch;
              v \<leftarrow> update_step s2 (new_sf_voice (sf_float s2) (bank_samples (sf_bank s2)) ch key vel (sf_age s2) g x
                     (int vcb + int ccb) (sc_pan c));
              Some (set_sf_voice vi v s2)
            }
      })"

section \<open>Zones\<close>

text \<open>Generators of a preset that are not added to those of the instrument.\<close>

definition not_added :: "nat \<Rightarrow> bool" where
  "not_added k = (k \<le> 4 \<or> k \<in> {12, 41, 43, 44, 45, 46, 47, 50, 53, 54, 57, 58})"

definition add_preset :: "int list \<Rightarrow> int list \<Rightarrow> int list" where
  "add_preset g pz = map (\<lambda>k. if not_added k then g ! k else signed_take_bit 15 (g ! k + pz ! k)) [0..<G_COUNT]"

definition keys_match :: "nat \<Rightarrow> nat \<Rightarrow> int list \<Rightarrow> bool" where
  "keys_match key vel g = (in_range (g ! 43) (int key) \<and> in_range (g ! 44) (int vel))"

text \<open>A zone that is first of several and does not end with its index generator is the global one: its generators, and the first
  zone after it.\<close>

definition global_zone :: "sf_bank \<Rightarrow> nat option \<Rightarrow> nat option \<Rightarrow> nat \<Rightarrow> int \<Rightarrow> nat \<Rightarrow> nat \<Rightarrow> int list \<Rightarrow> (int list \<times> nat) option" where
  "global_zone bk bags gens ngens target b0 b1 g =
     (if int b1 - int b0 > 1
      then do {
        last_gen \<leftarrow> zone_last_gen bk bags gens ngens b0;
        if last_gen \<noteq> target then map_option (\<lambda>g1. (g1, b0 + 1)) (zone_gens bk bags gens b0 g) else Some (g, b0)
      } else Some (g, b0))"

fun inst_zones :: "nat \<Rightarrow> nat \<Rightarrow> nat \<Rightarrow> int list \<Rightarrow> int list \<Rightarrow> nat list \<Rightarrow> sf \<Rightarrow> sf option" where
  "inst_zones ch key vel pz ig [] s = Some s"
| "inst_zones ch key vel pz ig (b # bs) s = do {
     last_gen \<leftarrow> zone_last_gen (sf_bank s) (bk_ibag (sf_bank s)) (bk_igen (sf_bank s)) (bk_nigen (sf_bank s)) b;
     s1 \<leftarrow> (if last_gen \<noteq> 53 then Some s
            else do {
              g \<leftarrow> zone_gens (sf_bank s) (bk_ibag (sf_bank s)) (bk_igen (sf_bank s)) b ig;
              if keys_match key vel g then start_sf_voice ch key vel (add_preset g pz) s else Some s
            });
     inst_zones ch key vel pz ig bs s1
   }"

definition play_inst :: "nat \<Rightarrow> nat \<Rightarrow> nat \<Rightarrow> int list \<Rightarrow> nat \<Rightarrow> sf \<Rightarrow> sf option" where
  "play_inst ch key vel pz ins s = do {
     ib0 \<leftarrow> bank16 (sf_bank s) (bk_inst (sf_bank s)) (ins * 22 + 20);
     ib1 \<leftarrow> bank16 (sf_bank s) (bk_inst (sf_bank s)) ((ins + 1) * 22 + 20);
     (ig, b0) \<leftarrow> global_zone (sf_bank s) (bk_ibag (sf_bank s)) (bk_igen (sf_bank s)) (bk_nigen (sf_bank s)) 53 ib0 ib1 gen_default;
     inst_zones ch key vel pz ig [b0..<min ib1 (bk_nibag (sf_bank s) - 1)] s
   }"

fun preset_zones :: "nat \<Rightarrow> nat \<Rightarrow> nat \<Rightarrow> int list \<Rightarrow> nat list \<Rightarrow> sf \<Rightarrow> sf option" where
  "preset_zones ch key vel pg [] s = Some s"
| "preset_zones ch key vel pg (b # bs) s = do {
     pz \<leftarrow> zone_gens (sf_bank s) (bk_pbag (sf_bank s)) (bk_pgen (sf_bank s)) b pg;
     last_gen \<leftarrow> zone_last_gen (sf_bank s) (bk_pbag (sf_bank s)) (bk_pgen (sf_bank s)) (bk_npgen (sf_bank s)) b;
     s1 \<leftarrow> (if last_gen \<noteq> 41 \<or> \<not> keys_match key vel pz \<or> pz ! 41 < 0 \<or> pz ! 41 \<ge> int (bk_ninst (sf_bank s)) - 1 then Some s
            else play_inst ch key vel pz (nat (pz ! 41)) s);
     preset_zones ch key vel pg bs s1
   }"

definition play_zones :: "nat \<Rightarrow> nat \<Rightarrow> nat \<Rightarrow> nat \<Rightarrow> sf \<Rightarrow> sf option" where
  "play_zones ch key vel preset s = do {
     pb0 \<leftarrow> bank16 (sf_bank s) (bk_phdr (sf_bank s)) (preset * 38 + 24);
     pb1 \<leftarrow> bank16 (sf_bank s) (bk_phdr (sf_bank s)) ((preset + 1) * 38 + 24);
     (pg, b0) \<leftarrow> global_zone (sf_bank s) (bk_pbag (sf_bank s)) (bk_pgen (sf_bank s)) (bk_npgen (sf_bank s)) 41 pb0 pb1
       ((replicate G_COUNT 0)[43 := 0x7f00, 44 := 0x7f00]);
     preset_zones ch key vel pg [b0..<min pb1 (bk_npbag (sf_bank s) - 1)] s
   }"

end
