(* ===== verification/SfEvents.thy ===== *)
theory SfEvents
  imports SfSynth
begin

text \<open>The interface of the SoundFont engine: events, rendering, loading (\<open>struct synth synth_sf2\<close>, \<open>synth_sf2_init\<close>).\<close>

section \<open>Voices in a row\<close>

fun map_voices :: "(sf_voice \<Rightarrow> sf_voice option) \<Rightarrow> sf_voice list \<Rightarrow> sf_voice list option" where
  "map_voices f [] = Some []"
| "map_voices f (v # vs) = do { v1 \<leftarrow> f v; vs1 \<leftarrow> map_voices f vs; Some (v1 # vs1) }"

definition all_voices :: "(sf_voice \<Rightarrow> sf_voice option) \<Rightarrow> sf \<Rightarrow> sf option" where
  "all_voices f s = map_option (\<lambda>vs. s\<lparr>sf_voices := vs\<rparr>) (map_voices f (sf_voices s))"

definition set_sf_chan :: "nat \<Rightarrow> (sf_chan \<Rightarrow> sf_chan) \<Rightarrow> sf \<Rightarrow> sf" where
  "set_sf_chan ch f s = s\<lparr>sf_chans := (sf_chans s)[ch := f (sf_chans s ! ch)]\<rparr>"

section \<open>Notes\<close>

definition sf_note_on :: "nat \<Rightarrow> nat \<Rightarrow> nat \<Rightarrow> sf \<Rightarrow> sf option" where
  "sf_note_on ch key vel s = do {
     c \<leftarrow> at (sf_chans s) (int ch);
     if bk_phdr (sf_bank s) = None then Some s
     else do {
       p0 \<leftarrow> find_preset (sf_bank s) (if ch = 9 then 128 else sc_bank c) (sc_program c);
       p1 \<leftarrow> (if p0 = None then find_preset (sf_bank s) (if ch = 9 then 128 else 0) (if ch = 9 then 0 else sc_program c) else Some p0);
       p2 \<leftarrow> (if p1 = None then find_preset (sf_bank s) 0 0 else Some p1);
       case p2 of None \<Rightarrow> Some s | Some p \<Rightarrow> play_zones ch key vel p s
     }
   }"

definition note_off_op :: "cb_tab \<Rightarrow> nat \<Rightarrow> nat \<Rightarrow> bool \<Rightarrow> sf_voice \<Rightarrow> sf_voice option" where
  "note_off_op g ch key sustain v =
     (if sv_active v \<and> sv_chan v = ch \<and> sv_key v = key \<and> \<not> sv_released v
      then if sustain then Some (v\<lparr>sv_sustained := True\<rparr>) else release_voice g v
      else Some v)"

definition sf_note_off :: "nat \<Rightarrow> nat \<Rightarrow> sf \<Rightarrow> sf option" where
  "sf_note_off ch key s = do {
     c \<leftarrow> at (sf_chans s) (int ch);
     all_voices (note_off_op (gain_of s) ch key (sc_sustain c)) s
   }"

section \<open>Controllers\<close>

definition sf_program :: "nat \<Rightarrow> nat \<Rightarrow> sf \<Rightarrow> sf" where
  "sf_program ch prog s = set_sf_chan ch (\<lambda>c. c\<lparr>sc_program := prog AND 127\<rparr>) s"

definition volume_op :: "nat \<Rightarrow> int \<Rightarrow> sf_voice \<Rightarrow> sf_voice option" where
  "volume_op ch d v = Some (if sv_active v \<and> sv_chan v = ch then v\<lparr>sv_base_cb := sv_base_cb v + d\<rparr> else v)"

definition pedal_op :: "cb_tab \<Rightarrow> nat \<Rightarrow> sf_voice \<Rightarrow> sf_voice option" where
  "pedal_op g ch v =
     (if sv_active v \<and> sv_chan v = ch \<and> sv_sustained v then release_voice g (v\<lparr>sv_sustained := False\<rparr>) else Some v)"

definition cut_op :: "nat \<Rightarrow> sf_voice \<Rightarrow> sf_voice option" where
  "cut_op ch v = Some (if sv_chan v = ch then v\<lparr>sv_active := False\<rparr> else v)"

definition notes_off_op :: "cb_tab \<Rightarrow> nat \<Rightarrow> sf_voice \<Rightarrow> sf_voice option" where
  "notes_off_op g ch v = (if sv_active v \<and> sv_chan v = ch then release_voice g v else Some v)"

definition bend_op :: "sf \<Rightarrow> nat \<Rightarrow> sf_voice \<Rightarrow> sf_voice option" where
  "bend_op s ch v = (if sv_active v \<and> sv_chan v = ch then update_step s v else Some v)"

definition sf_control :: "nat \<Rightarrow> nat \<Rightarrow> nat \<Rightarrow> sf \<Rightarrow> sf option" where
  "sf_control ch cc val s = do {
     old \<leftarrow> chan_cb s ch;
     if cc = 0 then Some (set_sf_chan ch (\<lambda>c. c\<lparr>sc_bank := val\<rparr>) s)
     else if cc = 7 \<or> cc = 11 then do {
       let s1 = set_sf_chan ch (if cc = 7 then (\<lambda>c. c\<lparr>sc_volume := val\<rparr>) else (\<lambda>c. c\<lparr>sc_expression := val\<rparr>)) s;
       new \<leftarrow> chan_cb s1 ch;
       all_voices (volume_op ch (int new - int old)) s1
     }
     else if cc = 10 then Some (set_sf_chan ch (\<lambda>c. c\<lparr>sc_pan := val\<rparr>) s)
     else if cc = 64 then
       (let s1 = set_sf_chan ch (\<lambda>c. c\<lparr>sc_sustain := (val \<ge> 64)\<rparr>) s
        in if \<not> val \<ge> 64 then all_voices (pedal_op (gain_of s1) ch) s1 else Some s1)
     else if cc = 101 then Some (set_sf_chan ch (\<lambda>c. c\<lparr>sc_rpn_msb := val\<rparr>) s)
     else if cc = 100 then Some (set_sf_chan ch (\<lambda>c. c\<lparr>sc_rpn_lsb := val\<rparr>) s)
     else if cc = 6 then
       Some (set_sf_chan ch (\<lambda>c. if sc_rpn_msb c = 0 \<and> sc_rpn_lsb c = 0
                                  then c\<lparr>sc_bend_range := (if val > 24 then 24 else val)\<rparr> else c) s)
     else if cc = 120 then all_voices (cut_op ch) s
     else if cc = 123 then all_voices (notes_off_op (gain_of s) ch) s
     else if cc = 121 then Some (set_sf_chan ch (\<lambda>c. c\<lparr>sc_expression := 127, sc_bend := 8192, sc_sustain := False\<rparr>) s)
     else Some s
   }"

definition sf_bend :: "nat \<Rightarrow> nat \<Rightarrow> sf \<Rightarrow> sf option" where
  "sf_bend ch val s = (let s1 = set_sf_chan ch (\<lambda>c. c\<lparr>sc_bend := val\<rparr>) s in all_voices (bend_op s1 ch) s1)"

definition sf_chan_default :: sf_chan where
  "sf_chan_default = \<lparr>sc_program = 0, sc_bank = 0, sc_volume = 100, sc_expression = 127, sc_pan = 64, sc_bend = 8192,
     sc_bend_range = 2, sc_sustain = False, sc_rpn_msb = 127, sc_rpn_lsb = 127\<rparr>"

definition sf_reset :: "sf \<Rightarrow> sf" where
  "sf_reset s = s\<lparr>sf_voices := replicate SF_VOICES sf_voice_zero, sf_chans := replicate 16 sf_chan_default\<rparr>"

section \<open>Rendering\<close>

text \<open>One block: every active voice moves its envelope on and is mixed into it.\<close>

fun render_block :: "cb_tab \<Rightarrow> sf_voice list \<Rightarrow> mix_buf \<Rightarrow> (mix_buf \<times> sf_voice list) option" where
  "render_block g [] buf = Some (buf, [])"
| "render_block g (v # vs) buf = do {
     (buf1, v1) \<leftarrow> (if sv_active v
       then do {
         v1 \<leftarrow> envelope g v;
         if sv_active v1 \<and> sv_env v1 \<noteq> ENV_DELAY then mix_voice v1 buf else Some (buf, v1)
       } else Some (buf, v));
     (buf2, vs1) \<leftarrow> render_block g vs buf1;
     Some (buf2, v1 # vs1)
   }"

function sf_render :: "mix_buf \<Rightarrow> sf \<Rightarrow> (mix_buf \<times> sf) option" where
  "sf_render buf s =
     (if buf = [] then Some ([], s)
      else do {
        let m = min BLOCK (length buf);
        (t, vs) \<leftarrow> render_block (gain_of s) (sf_voices s) (take m buf);
        (rest, s2) \<leftarrow> sf_render (drop m buf) (s\<lparr>sf_voices := vs\<rparr>);
        Some (t @ rest, s2)
      })"
  by pat_completeness auto
termination by (relation "measure (\<lambda>(buf, _). length buf)") (auto simp: BLOCK_def)

declare sf_render.simps [simp del]

definition sf_voice_count :: "sf \<Rightarrow> nat" where
  "sf_voice_count s = active_voices (sf_voices s)"

section \<open>Loading\<close>

definition synth_sf2_init :: "sf_float \<Rightarrow> byte list \<Rightarrow> sf \<Rightarrow> (int \<times> sf) option" where
  "synth_sf2_init fl f s =
     (if riff_header f then do {
        (ok, bk) \<leftarrow> bank_load f (sf_bank s);
        let s1 = s\<lparr>sf_bank := bk, sf_float := fl\<rparr>;
        Some (if ok then (0, sf_reset s1) else (- 1, s1))
      } else Some (- 1, s\<lparr>sf_bank := bank_clear f (sf_bank s)\<rparr>))"

end
