(* ===== verification/SfNotes.thy ===== *)
theory SfNotes
  imports SfEvents
begin

text \<open>
  Which voices a note starts, as the SoundFont format has it: a preset and an instrument are lists of zones, a zone is a list of
  generators with amounts; in both a global zone comes before the local ones, later generators replace earlier ones, and the
  amounts of the preset are added to those of the instrument. Below this, the bytes of a file whose indices are in range.
\<close>

section \<open>Zones as lists\<close>

type_synonym generators = "(nat \<times> int) list"

definition amount :: "(nat \<Rightarrow> int) \<Rightarrow> generators \<Rightarrow> nat \<Rightarrow> int" where
  "amount d gs k = (case map_of (rev gs) k of Some a \<Rightarrow> a | None \<Rightarrow> d k)"

definition is_local :: "nat \<Rightarrow> generators \<Rightarrow> bool" where
  "is_local target z = (z \<noteq> [] \<and> fst (last z) = target)"

definition local_amounts :: "nat \<Rightarrow> (nat \<Rightarrow> int) \<Rightarrow> generators list \<Rightarrow> (nat \<Rightarrow> int) list" where
  "local_amounts target d zs =
     (let (d', ls) = (if 1 < length zs \<and> \<not> is_local target (hd zs) then (amount d (hd zs), tl zs) else (d, zs))
      in map (amount d') (filter (is_local target) ls))"

definition fits_note :: "nat \<Rightarrow> nat \<Rightarrow> (nat \<Rightarrow> int) \<Rightarrow> bool" where
  "fits_note key vel g = (in_range (g 43) (int key) \<and> in_range (g 44) (int vel))"

definition note_amounts :: "(nat \<Rightarrow> generators list) \<Rightarrow> nat \<Rightarrow> generators list \<Rightarrow> nat \<Rightarrow> nat \<Rightarrow> (nat \<Rightarrow> int) list" where
  "note_amounts inst n preset key vel =
     concat (map (\<lambda>p. if fits_note key vel p \<and> 0 \<le> p 41 \<and> p 41 < int n
                      then map (\<lambda>g k. if not_added k then g k else signed_take_bit 15 (g k + p k))
                             (filter (fits_note key vel) (local_amounts 53 ((!) gen_default) (inst (nat (p 41)))))
                      else [])
               (local_amounts 41 (\<lambda>k. if k = 43 \<or> k = 44 then 0x7f00 else 0) preset))"

section \<open>Banks whose indices are in range\<close>

definition word16 :: "sf_bank \<Rightarrow> nat option \<Rightarrow> nat \<Rightarrow> nat" where
  "word16 bk p n = ufs_le16 (bk_file bk) (the p + n)"

definition table_in :: "sf_bank \<Rightarrow> nat option \<Rightarrow> nat \<Rightarrow> nat \<Rightarrow> bool" where
  "table_in bk p n width = (\<exists>a. p = Some a \<and> a + n * width \<le> length (bk_file bk))"

definition bags_ok :: "sf_bank \<Rightarrow> nat option \<Rightarrow> nat \<Rightarrow> nat option \<Rightarrow> nat \<Rightarrow> bool" where
  "bags_ok bk bags nbags gens ngens = (0 < nbags \<and> table_in bk bags nbags 4 \<and> table_in bk gens ngens 4
     \<and> (\<forall>b<nbags. word16 bk bags (b * 4) \<le> ngens))"

definition heads_ok :: "sf_bank \<Rightarrow> nat option \<Rightarrow> nat \<Rightarrow> nat \<Rightarrow> nat \<Rightarrow> nat \<Rightarrow> bool" where
  "heads_ok bk heads n width field nbags = (table_in bk heads n width \<and> field + 2 \<le> width
     \<and> (\<forall>i<n. word16 bk heads (i * width + field) < nbags))"

definition bank_ok :: "sf_bank \<Rightarrow> bool" where
  "bank_ok bk = (heads_ok bk (bk_phdr bk) (bk_nphdr bk) 38 24 (bk_npbag bk)
     \<and> heads_ok bk (bk_inst bk) (bk_ninst bk) 22 20 (bk_nibag bk)
     \<and> bags_ok bk (bk_pbag bk) (bk_npbag bk) (bk_pgen bk) (bk_npgen bk)
     \<and> bags_ok bk (bk_ibag bk) (bk_nibag bk) (bk_igen bk) (bk_nigen bk)
     \<and> table_in bk (bk_shdr bk) (bk_nshdr bk) 46)"

definition gens_between :: "sf_bank \<Rightarrow> nat option \<Rightarrow> nat \<Rightarrow> nat \<Rightarrow> generators" where
  "gens_between bk gens from to = map (\<lambda>i. (word16 bk gens (i * 4), i16 (word16 bk gens (i * 4 + 2)))) [from..<to]"

definition zone_list :: "sf_bank \<Rightarrow> nat option \<Rightarrow> nat option \<Rightarrow> nat \<Rightarrow> generators" where
  "zone_list bk bags gens b = gens_between bk gens (word16 bk bags (b * 4)) (word16 bk bags ((b + 1) * 4))"

definition zones_of :: "sf_bank \<Rightarrow> nat option \<Rightarrow> nat \<Rightarrow> nat \<Rightarrow> nat option \<Rightarrow> nat option \<Rightarrow> nat \<Rightarrow> generators list" where
  "zones_of bk heads width field bags gens i =
     map (zone_list bk bags gens) [word16 bk heads (i * width + field)..<word16 bk heads ((i + 1) * width + field)]"

definition inst_of :: "sf_bank \<Rightarrow> nat \<Rightarrow> generators list" where
  "inst_of bk = zones_of bk (bk_inst bk) 22 20 (bk_ibag bk) (bk_igen bk)"

definition preset_of :: "sf_bank \<Rightarrow> nat \<Rightarrow> generators list" where
  "preset_of bk = zones_of bk (bk_phdr bk) 38 24 (bk_pbag bk) (bk_pgen bk)"

definition note_gens :: "sf_bank \<Rightarrow> nat \<Rightarrow> nat \<Rightarrow> nat \<Rightarrow> int list list" where
  "note_gens bk p key vel =
     map (\<lambda>g. map g [0..<G_COUNT]) (note_amounts (inst_of bk) (bk_ninst bk - 1) (preset_of bk p) key vel)"

fun start_all :: "nat \<Rightarrow> nat \<Rightarrow> nat \<Rightarrow> int list list \<Rightarrow> sf \<Rightarrow> sf option" where
  "start_all ch key vel [] s = Some s"
| "start_all ch key vel (g # gs) s = do { s1 \<leftarrow> start_sf_voice ch key vel g s; start_all ch key vel gs s1 }"

section \<open>Reading generators\<close>

lemma table16:
  assumes "table_in bk p n width" "i < n" "field + 2 \<le> width"
  shows "bank16 bk p (i * width + field) = Some (word16 bk p (i * width + field))"
proof -
  obtain a where a: "p = Some a" "a + n * width \<le> length (bk_file bk)" using assms(1) by (auto simp: table_in_def)
  have "Suc i * width \<le> n * width" using assms(2) by (intro mult_le_mono1) simp
  then have "a + (i * width + field) + 2 \<le> length (bk_file bk)" using a(2) assms(3) by simp
  then have "int (a + (i * width + field)) + 1 < int (length (bk_file bk))" by linarith
  then show ?thesis by (simp add: bank16_def ptr_off_def sf16_def word16_def a(1) nat_int del: of_nat_add)
qed

lemma amount_Nil [simp]: "amount d [] = d"
  by (simp add: amount_def fun_eq_iff)

lemma amount_Cons: "amount d (x # gs) = amount (d(fst x := snd x)) gs"
  by (auto simp: amount_def fun_eq_iff map_of_append split: option.split)

lemma apply_list_eq:
  assumes "table_in bk gens n 4"
  shows "\<forall>i\<in>set is. i < n \<Longrightarrow> length g = G_COUNT \<Longrightarrow>
    apply_list bk gens True is g =
      Some (map (amount ((!) g) (map (\<lambda>i. (word16 bk gens (i * 4), i16 (word16 bk gens (i * 4 + 2)))) is)) [0..<G_COUNT])"
proof (induction "is" arbitrary: g)
  case Nil
  then show ?case by (simp add: list_eq_iff_nth_eq)
next
  case (Cons i "is")
  let ?k = "word16 bk gens (i * 4)" and ?a = "i16 (word16 bk gens (i * 4 + 2))"
  let ?r = "map (\<lambda>i. (word16 bk gens (i * 4), i16 (word16 bk gens (i * 4 + 2)))) is"
  have r: "bank16 bk gens (i * 4) = Some ?k" "bank16 bk gens (i * 4 + 2) = Some (word16 bk gens (i * 4 + 2))"
    using table16 [OF assms, of i 0] table16 [OF assms, of i 2] Cons.prems(1) by simp_all
  have l: "length (apply_gen True ?k ?a g) = G_COUNT" using Cons.prems(2) by (simp add: apply_gen_def)
  have "amount ((!) (apply_gen True ?k ?a g)) ?r k = amount (((!) g)(?k := ?a)) ?r k" if "k < G_COUNT" for k
    using that Cons.prems(2) by (auto simp: amount_def apply_gen_def split: option.split)
  then have "map (amount ((!) (apply_gen True ?k ?a g)) ?r) [0..<G_COUNT] = map (amount (((!) g)(?k := ?a)) ?r) [0..<G_COUNT]"
    by simp
  then show ?case using Cons.IH [OF _ l] Cons.prems(1) by (simp add: r amount_Cons del: add_2_eq_Suc')
qed

text \<open>A list of generators that stands for a function.\<close>

definition stands_for :: "int list \<Rightarrow> (nat \<Rightarrow> int) \<Rightarrow> bool" where
  "stands_for g d = (g = map d [0..<G_COUNT])"

lemma amount_stands: "stands_for g d \<Longrightarrow> map (amount ((!) g) gs) [0..<G_COUNT] = map (amount d gs) [0..<G_COUNT]"
  by (auto simp: stands_for_def amount_def split: option.split)

lemma bag_word:
  assumes "bags_ok bk bags nbags gens ngens" "b < nbags"
  shows "bank16 bk bags (b * 4) = Some (word16 bk bags (b * 4))" "word16 bk bags (b * 4) \<le> ngens"
  using table16 [of bk bags nbags 4 b 0] assms by (simp_all add: bags_ok_def)

lemma zone_gens_eq:
  assumes "bags_ok bk bags nbags gens ngens" "b + 1 < nbags" "stands_for g d"
  shows "\<exists>g'. zone_gens bk bags gens b g = Some g' \<and> stands_for g' (amount d (zone_list bk bags gens b))"
proof -
  have b: "bank16 bk bags (b * 4) = Some (word16 bk bags (b * 4))" "bank16 bk bags ((b + 1) * 4) = Some (word16 bk bags ((b + 1) * 4))"
    "word16 bk bags ((b + 1) * 4) \<le> ngens"
    using bag_word [OF assms(1), of b] bag_word [OF assms(1), of "b + 1"] assms(2) by simp_all
  have t: "table_in bk gens ngens 4" using assms(1) by (simp add: bags_ok_def)
  have l: "length g = G_COUNT" using assms(3) by (simp add: stands_for_def)
  have i: "\<forall>i\<in>set [word16 bk bags (b * 4)..<word16 bk bags ((b + 1) * 4)]. i < ngens" using b(3) by simp
  show ?thesis
    unfolding zone_gens_def b(1,2) apply_gens_def
    using apply_list_eq [OF t i l] amount_stands [OF assms(3)]
    by (simp add: apply_gens_def stands_for_def zone_list_def gens_between_def)
qed

lemma zone_last_eq:
  assumes "bags_ok bk bags nbags gens ngens" "b + 1 < nbags"
  shows "\<exists>k. zone_last_gen bk bags gens ngens b = Some k \<and> (k = int target \<longleftrightarrow> is_local target (zone_list bk bags gens b))"
proof -
  let ?from = "word16 bk bags (b * 4)" and ?to = "word16 bk bags ((b + 1) * 4)"
  have b: "bank16 bk bags (b * 4) = Some ?from" "bank16 bk bags ((b + 1) * 4) = Some ?to" "?to \<le> ngens"
    using bag_word [OF assms(1), of b] bag_word [OF assms(1), of "b + 1"] assms(2) by simp_all
  show ?thesis
  proof (cases "?to \<le> ?from")
    case True
    then show ?thesis using b unfolding zone_last_gen_def b(1,2) by (simp add: is_local_def zone_list_def gens_between_def)
  next
    case False
    have "table_in bk gens ngens 4" using assms(1) by (simp add: bags_ok_def)
    from table16 [OF this, of "?to - 1" 0] have "bank16 bk gens ((?to - 1) * 4) = Some (word16 bk gens ((?to - 1) * 4))"
      using b(3) False by simp
    moreover have "fst (last (zone_list bk bags gens b)) = word16 bk gens ((?to - 1) * 4)"
      using False by (simp add: zone_list_def gens_between_def last_map last_upt)
    ultimately show ?thesis
      using False b(3) unfolding zone_last_gen_def b(1,2) by (simp add: is_local_def zone_list_def gens_between_def)
  qed
qed

section \<open>The loops over the zones\<close>

lemma stands_nth: "stands_for g d \<Longrightarrow> k < G_COUNT \<Longrightarrow> g ! k = d k"
  by (simp add: stands_for_def)

lemma keys_match_fits: "stands_for g d \<Longrightarrow> keys_match key vel g = fits_note key vel d"
  using stands_nth [of g d 43] stands_nth [of g d 44] by (simp add: keys_match_def fits_note_def G_COUNT_def)

lemma add_preset_stands:
  "stands_for g d \<Longrightarrow> stands_for pz p \<Longrightarrow> add_preset g pz = map (\<lambda>k. if not_added k then d k else signed_take_bit 15 (d k + p k)) [0..<G_COUNT]"
  by (simp add: add_preset_def stands_for_def)

lemma global_zone_eq:
  assumes "bags_ok bk bags nbags gens ngens" "b1 < nbags" "stands_for g d"
  shows "\<exists>g' d' b. global_zone bk bags gens ngens (int target) b0 b1 g = Some (g', b) \<and> stands_for g' d'
    \<and> local_amounts target d (map (zone_list bk bags gens) [b0..<b1])
      = map (amount d') (filter (is_local target) (map (zone_list bk bags gens) [b..<b1]))"
proof (cases "int b1 - int b0 > 1")
  case False
  then have "length [b0..<b1] \<le> 1" by simp
  then show ?thesis using assms(3) False by (simp add: global_zone_def local_amounts_def) blast
next
  case True
  then have b: "b0 + 1 < nbags" "[b0..<b1] = b0 # [Suc b0..<b1]" "1 < length [b0..<b1]" using assms(2) by (simp_all add: upt_conv_Cons)
  obtain k where k: "zone_last_gen bk bags gens ngens b0 = Some k" "k = int target \<longleftrightarrow> is_local target (zone_list bk bags gens b0)"
    using zone_last_eq [OF assms(1) b(1)] by blast
  obtain g1 where g1: "zone_gens bk bags gens b0 g = Some g1" "stands_for g1 (amount d (zone_list bk bags gens b0))"
    using zone_gens_eq [OF assms(1) b(1) assms(3)] by blast
  show ?thesis
  proof (cases "k = int target")
    case True
    then show ?thesis using k assms(3) \<open>int b1 - int b0 > 1\<close> b(3)
      by (simp add: global_zone_def local_amounts_def b(2) del: upt_Suc) blast
  next
    case False
    then show ?thesis using k g1 \<open>int b1 - int b0 > 1\<close> b(3)
      by (simp add: global_zone_def local_amounts_def b(2) del: upt_Suc) blast
  qed
qed

lemma start_keeps_bank: "start_sf_voice ch key vel g s = Some s' \<Longrightarrow> sf_bank s' = sf_bank s"
  by (auto simp: start_sf_voice_def set_sf_voice_def Let_def split: if_splits option.splits Option.bind_splits)

lemma start_all_keeps_bank: "start_all ch key vel gs s = Some s' \<Longrightarrow> sf_bank s' = sf_bank s"
  by (induction gs arbitrary: s) (auto split: Option.bind_splits dest: start_keeps_bank)

lemma start_all_append:
  "start_all ch key vel (gs @ hs) s = Option.bind (start_all ch key vel gs s) (start_all ch key vel hs)"
  by (induction gs arbitrary: s) (auto split: Option.bind_splits)

lemma inst_zones_eq:
  assumes "bags_ok bk (bk_ibag bk) (bk_nibag bk) (bk_igen bk) (bk_nigen bk)" "stands_for ig d" "stands_for pz p"
  shows "\<forall>b\<in>set bs. b + 1 < bk_nibag bk \<Longrightarrow> sf_bank s = bk \<Longrightarrow> inst_zones ch key vel pz ig bs s =
    start_all ch key vel (map (\<lambda>g. map (\<lambda>k. if not_added k then g k else signed_take_bit 15 (g k + p k)) [0..<G_COUNT])
      (filter (fits_note key vel) (map (amount d) (filter (is_local 53) (map (zone_list bk (bk_ibag bk) (bk_igen bk)) bs))))) s"
proof (induction bs arbitrary: s)
  case (Cons b bs)
  have b: "b + 1 < bk_nibag bk" using Cons.prems(1) by simp
  obtain k where k: "zone_last_gen bk (bk_ibag bk) (bk_igen bk) (bk_nigen bk) b = Some k"
    "k = 53 \<longleftrightarrow> is_local 53 (zone_list bk (bk_ibag bk) (bk_igen bk) b)"
    using zone_last_eq [OF assms(1) b, of 53] by auto
  obtain g where g: "zone_gens bk (bk_ibag bk) (bk_igen bk) b ig = Some g" "stands_for g (amount d (zone_list bk (bk_ibag bk) (bk_igen bk) b))"
    using zone_gens_eq [OF assms(1) b assms(2)] by blast
  have IH: "sf_bank s1 = bk \<Longrightarrow> inst_zones ch key vel pz ig bs s1 =
    start_all ch key vel (map (\<lambda>g. map (\<lambda>k. if not_added k then g k else signed_take_bit 15 (g k + p k)) [0..<G_COUNT])
      (filter (fits_note key vel) (map (amount d) (filter (is_local 53) (map (zone_list bk (bk_ibag bk) (bk_igen bk)) bs))))) s1" for s1
    using Cons.IH Cons.prems(1) by simp
  show ?case
  proof (cases "k = 53 \<and> keys_match key vel g")
    case True
    show ?thesis
    proof (cases "start_sf_voice ch key vel (add_preset g pz) s")
      case None
      then show ?thesis using True k g Cons.prems(2)
        by (simp add: keys_match_fits [OF g(2)] add_preset_stands [OF g(2) assms(3)])
    next
      case (Some s1)
      then show ?thesis using True k g Cons.prems(2) IH [of s1] start_keeps_bank [OF Some]
        by (simp add: keys_match_fits [OF g(2)] add_preset_stands [OF g(2) assms(3)])
    qed
  next
    case False
    then show ?thesis using k g Cons.prems(2) IH [of s]
      by (cases "k = 53") (simp_all add: keys_match_fits [OF g(2)])
  qed
qed simp

lemma gen_default_stands: "stands_for gen_default ((!) gen_default)"
proof -
  have "length gen_default = G_COUNT" by (simp add: gen_default_def)
  then show ?thesis by (simp add: stands_for_def list_eq_iff_nth_eq)
qed

lemma head_word:
  assumes "heads_ok bk heads n width field nbags" "i < n"
  shows "bank16 bk heads (i * width + field) = Some (word16 bk heads (i * width + field))" "word16 bk heads (i * width + field) < nbags"
  using table16 [of bk heads n width i field] assms by (simp_all add: heads_ok_def)

lemma play_inst_eq:
  assumes "bank_ok bk" "sf_bank s = bk" "ins + 1 < bk_ninst bk" "stands_for pz p"
  shows "play_inst ch key vel pz ins s =
    start_all ch key vel (map (\<lambda>g. map (\<lambda>k. if not_added k then g k else signed_take_bit 15 (g k + p k)) [0..<G_COUNT])
      (filter (fits_note key vel) (local_amounts 53 ((!) gen_default) (inst_of bk ins)))) s"
proof -
  have h: "heads_ok bk (bk_inst bk) (bk_ninst bk) 22 20 (bk_nibag bk)" and
    g: "bags_ok bk (bk_ibag bk) (bk_nibag bk) (bk_igen bk) (bk_nigen bk)" using assms(1) by (simp_all add: bank_ok_def)
  define ib0 ib1 where ib: "ib0 = word16 bk (bk_inst bk) (ins * 22 + 20)" "ib1 = word16 bk (bk_inst bk) ((ins + 1) * 22 + 20)"
  have w: "bank16 bk (bk_inst bk) (ins * 22 + 20) = Some ib0" "bank16 bk (bk_inst bk) ((ins + 1) * 22 + 20) = Some ib1" "ib1 < bk_nibag bk"
    using head_word [OF h, of ins] head_word [OF h, of "ins + 1"] assms(3) by (simp_all only: ib)
  obtain ig d b where z: "global_zone bk (bk_ibag bk) (bk_igen bk) (bk_nigen bk) (int 53) ib0 ib1 gen_default = Some (ig, b)" "stands_for ig d"
    "local_amounts 53 ((!) gen_default) (map (zone_list bk (bk_ibag bk) (bk_igen bk)) [ib0..<ib1])
      = map (amount d) (filter (is_local 53) (map (zone_list bk (bk_ibag bk) (bk_igen bk)) [b..<ib1]))"
    using global_zone_eq [OF g w(3) gen_default_stands] by blast
  have "min ib1 (bk_nibag bk - 1) = ib1" using w(3) by simp
  moreover have "inst_of bk ins = map (zone_list bk (bk_ibag bk) (bk_igen bk)) [ib0..<ib1]" by (simp only: inst_of_def zones_of_def ib)
  ultimately show ?thesis
    using inst_zones_eq [OF g z(2) assms(4), of "[b..<ib1]" s ch key vel] w z(1,3) assms(2)
    unfolding play_inst_def assms(2) w(1,2) by simp
qed

text \<open>The voices of one preset zone.\<close>

definition zone_voices :: "sf_bank \<Rightarrow> nat \<Rightarrow> nat \<Rightarrow> (nat \<Rightarrow> int) \<Rightarrow> (nat \<Rightarrow> int) list" where
  "zone_voices bk key vel p =
     (if fits_note key vel p \<and> 0 \<le> p 41 \<and> p 41 < int (bk_ninst bk - 1)
      then map (\<lambda>g k. if not_added k then g k else signed_take_bit 15 (g k + p k))
             (filter (fits_note key vel) (local_amounts 53 ((!) gen_default) (inst_of bk (nat (p 41)))))
      else [])"

lemma note_gens_zones:
  "note_gens bk p key vel = concat (map (\<lambda>z. map (\<lambda>g. map g [0..<G_COUNT]) (zone_voices bk key vel z))
     (local_amounts 41 (\<lambda>k. if k = 43 \<or> k = 44 then 0x7f00 else 0) (preset_of bk p)))"
  by (simp add: note_gens_def note_amounts_def zone_voices_def map_concat comp_def)

lemma preset_zone_eq:
  assumes "bank_ok bk" "sf_bank s = bk" "stands_for pz p"
  shows "(if \<not> keys_match key vel pz \<or> pz ! 41 < 0 \<or> pz ! 41 \<ge> int (bk_ninst bk) - 1 then Some s
            else play_inst ch key vel pz (nat (pz ! 41)) s)
    = start_all ch key vel (map (\<lambda>g. map g [0..<G_COUNT]) (zone_voices bk key vel p)) s"
proof -
  have 41: "pz ! 41 = p 41" using stands_nth [OF assms(3), of 41] by (simp add: G_COUNT_def)
  show ?thesis
  proof (cases "fits_note key vel p \<and> 0 \<le> p 41 \<and> p 41 < int (bk_ninst bk - 1)")
    case True
    then have lt: "nat (p 41) + 1 < bk_ninst bk" and le: "\<not> int (bk_ninst bk) - 1 \<le> p 41" by linarith+
    from play_inst_eq [OF assms(1,2) lt assms(3), of ch key vel] show ?thesis
      using True le by (simp add: 41 keys_match_fits [OF assms(3)] zone_voices_def comp_def)
  next
    case False
    then have "\<not> keys_match key vel pz \<or> pz ! 41 < 0 \<or> pz ! 41 \<ge> int (bk_ninst bk) - 1"
      by (auto simp: 41 keys_match_fits [OF assms(3)])
    moreover have "zone_voices bk key vel p = []" unfolding zone_voices_def using False by (simp only: if_False)
    ultimately show ?thesis by simp
  qed
qed

lemma preset_zones_eq:
  assumes "bank_ok bk" "stands_for pg d"
  shows "\<forall>b\<in>set bs. b + 1 < bk_npbag bk \<Longrightarrow> sf_bank s = bk \<Longrightarrow> preset_zones ch key vel pg bs s =
    start_all ch key vel (concat (map (\<lambda>z. map (\<lambda>g. map g [0..<G_COUNT]) (zone_voices bk key vel z))
      (map (amount d) (filter (is_local 41) (map (zone_list bk (bk_pbag bk) (bk_pgen bk)) bs))))) s"
proof (induction bs arbitrary: s)
  case (Cons b bs)
  have b: "b + 1 < bk_npbag bk" using Cons.prems(1) by simp
  have bags: "bags_ok bk (bk_pbag bk) (bk_npbag bk) (bk_pgen bk) (bk_npgen bk)" using assms(1) by (simp add: bank_ok_def)
  let ?z = "zone_list bk (bk_pbag bk) (bk_pgen bk) b"
  obtain k where k: "zone_last_gen bk (bk_pbag bk) (bk_pgen bk) (bk_npgen bk) b = Some k" "k = 41 \<longleftrightarrow> is_local 41 ?z"
    using zone_last_eq [OF bags b, of 41] by auto
  obtain pz where g: "zone_gens bk (bk_pbag bk) (bk_pgen bk) b pg = Some pz" "stands_for pz (amount d ?z)"
    using zone_gens_eq [OF bags b assms(2)] by blast
  let ?rest = "concat (map (\<lambda>z. map (\<lambda>g. map g [0..<G_COUNT]) (zone_voices bk key vel z))
      (map (amount d) (filter (is_local 41) (map (zone_list bk (bk_pbag bk) (bk_pgen bk)) bs))))"
  let ?here = "if k \<noteq> 41 \<or> \<not> keys_match key vel pz \<or> pz ! 41 < 0 \<or> pz ! 41 \<ge> int (bk_ninst bk) - 1 then Some s
            else play_inst ch key vel pz (nat (pz ! 41)) s"
  define gs where "gs = (if k = 41 then map (\<lambda>g. map g [0..<G_COUNT]) (zone_voices bk key vel (amount d ?z)) else [])"
  have here: "?here = start_all ch key vel gs s"
    unfolding gs_def using preset_zone_eq [OF assms(1) Cons.prems(2) g(2), of key vel ch, symmetric] by (cases "k = 41") simp_all
  have "preset_zones ch key vel pg (b # bs) s = Option.bind ?here (preset_zones ch key vel pg bs)"
    using Cons.prems(2) by (simp add: g(1) k(1))
  also have "\<dots> = Option.bind (start_all ch key vel gs s) (start_all ch key vel ?rest)"
    unfolding here
  proof (rule Option.bind_cong [OF refl])
    fix s1 assume "start_all ch key vel gs s = Some s1"
    from start_all_keeps_bank [OF this] show "preset_zones ch key vel pg bs s1 = start_all ch key vel ?rest s1"
      using Cons.IH [of s1] Cons.prems by simp
  qed
  also have "\<dots> = start_all ch key vel (gs @ ?rest) s" by (simp add: start_all_append)
  finally show ?case using k(2) by (simp add: gs_def)
qed simp

lemma play_zones_eq:
  assumes "bank_ok (sf_bank s)" "p + 1 < bk_nphdr (sf_bank s)"
  shows "play_zones ch key vel p s = start_all ch key vel (note_gens (sf_bank s) p key vel) s"
proof -
  define bk where "bk = sf_bank s"
  have h: "heads_ok bk (bk_phdr bk) (bk_nphdr bk) 38 24 (bk_npbag bk)" and
    g: "bags_ok bk (bk_pbag bk) (bk_npbag bk) (bk_pgen bk) (bk_npgen bk)" using assms(1) by (simp_all add: bk_def bank_ok_def)
  define b0 b1 where ib: "b0 = word16 bk (bk_phdr bk) (p * 38 + 24)" "b1 = word16 bk (bk_phdr bk) ((p + 1) * 38 + 24)"
  have w: "bank16 bk (bk_phdr bk) (p * 38 + 24) = Some b0" "bank16 bk (bk_phdr bk) ((p + 1) * 38 + 24) = Some b1" "b1 < bk_npbag bk"
    using head_word [OF h, of p] head_word [OF h, of "p + 1"] assms(2) by (simp_all only: ib bk_def)
  have st: "stands_for ((replicate G_COUNT 0)[43 := 0x7f00, 44 := 0x7f00]) (\<lambda>k. if k = 43 \<or> k = 44 then 0x7f00 else 0)"
    by (simp add: stands_for_def list_eq_iff_nth_eq nth_list_update G_COUNT_def)
  obtain pg d b where z: "global_zone bk (bk_pbag bk) (bk_pgen bk) (bk_npgen bk) (int 41) b0 b1 ((replicate G_COUNT 0)[43 := 0x7f00, 44 := 0x7f00]) = Some (pg, b)"
    "stands_for pg d"
    "local_amounts 41 (\<lambda>k. if k = 43 \<or> k = 44 then 0x7f00 else 0) (map (zone_list bk (bk_pbag bk) (bk_pgen bk)) [b0..<b1])
      = map (amount d) (filter (is_local 41) (map (zone_list bk (bk_pbag bk) (bk_pgen bk)) [b..<b1]))"
    using global_zone_eq [OF g w(3) st] by blast
  have "min b1 (bk_npbag bk - 1) = b1" using w(3) by simp
  moreover have "preset_of bk p = map (zone_list bk (bk_pbag bk) (bk_pgen bk)) [b0..<b1]" by (simp only: preset_of_def zones_of_def ib)
  ultimately show ?thesis
    using preset_zones_eq [of bk pg d "[b..<b1]" s ch key vel] assms(1) w z
    unfolding play_zones_def note_gens_zones bk_def [symmetric] w(1,2) by simp
qed

end
