(* ===== verification/SfRuns.thy ===== *)
theory SfRuns
  imports SfMix
begin

text \<open>
  The mixer sample by sample: what \<open>mix_voice\<close> computes in runs is the loop that looks at the loop point and at the end of the
  sample before each output sample.
\<close>

section \<open>One sample at a time\<close>

definition sf_ref_sample :: "int list \<Rightarrow> sf_voice \<Rightarrow> int \<times> int \<Rightarrow> nat \<Rightarrow> nat \<Rightarrow> ((int \<times> int) \<times> nat \<times> nat) option" where
  "sf_ref_sample d v x pos frac =
     (if sv_gain_l v = 0 \<and> sv_gain_r v = 0 then Some (x, run_silent (sv_step v) 1 pos frac)
      else do {
        t \<leftarrow> tap d pos frac;
        l \<leftarrow> gmul t (sv_gain_l v);
        r \<leftarrow> gmul t (sv_gain_r v);
        y \<leftarrow> add_lr l r x;
        Some (y, advance (sv_step v) pos frac)
      })"

fun ref_mix :: "int list \<Rightarrow> sf_voice \<Rightarrow> mix_buf \<Rightarrow> nat \<Rightarrow> nat \<Rightarrow> (mix_buf \<times> nat \<times> nat \<times> bool) option" where
  "ref_mix d v [] pos frac = Some ([], pos, frac, True)"
| "ref_mix d v (x # xs) pos frac =
     (let p = wrap_pos v pos
      in if p + 1 \<ge> sv_end v then Some (x # xs, p, frac, False)
         else do {
           (y, p1, f1) \<leftarrow> sf_ref_sample d v x p frac;
           (ys, q) \<leftarrow> ref_mix d v xs p1 f1;
           Some (y # ys, q)
         })"

definition ref_voice :: "sf_voice \<Rightarrow> mix_buf \<Rightarrow> (mix_buf \<times> sf_voice) option" where
  "ref_voice v buf = map_option (mix_done v) (ref_mix (sv_data v) v buf (sv_pos v) (sv_frac v))"

text \<open>Samples without a look at the boundaries.\<close>

fun samples :: "int list \<Rightarrow> sf_voice \<Rightarrow> mix_buf \<Rightarrow> nat \<Rightarrow> nat \<Rightarrow> (mix_buf \<times> nat \<times> nat) option" where
  "samples d v [] pos frac = Some ([], pos, frac)"
| "samples d v (x # xs) pos frac = do {
     (y, p1, f1) \<leftarrow> sf_ref_sample d v x pos frac;
     (ys, q) \<leftarrow> samples d v xs p1 f1;
     Some (y # ys, q)
   }"

section \<open>A run is its samples\<close>

lemma two_step: "P [] \<Longrightarrow> (\<And>x. P [x]) \<Longrightarrow> (\<And>x y xs. P xs \<Longrightarrow> P (x # y # xs)) \<Longrightarrow> P xs"
  by induction_schema (pat_completeness, lexicographic_order)

lemma run_centre_samples:
  assumes "sv_gain_l v = gl" "sv_gain_r v = gl" "gl \<noteq> 0"
  shows "run_centre d gl (sv_step v) buf pos frac = samples d v buf pos frac"
proof (induction buf arbitrary: pos frac rule: two_step)
  case (3 x y xs)
  show ?case
  proof -
    obtain p1 f1 where a: "advance (sv_step v) pos frac = (p1, f1)" by force
    obtain p2 f2 where b: "advance (sv_step v) p1 f1 = (p2, f2)" by force
    show ?thesis by (auto simp: assms 3 sf_ref_sample_def a b split: Option.bind_splits)
  qed
qed (auto simp: assms sf_ref_sample_def split: Option.bind_splits)

lemma run_sides_samples:
  assumes "sv_gain_l v = gl" "sv_gain_r v = gr" "gl \<noteq> 0 \<or> gr \<noteq> 0"
  shows "run_sides d gl gr (sv_step v) buf pos frac = samples d v buf pos frac"
proof (induction buf arbitrary: pos frac rule: two_step)
  case (3 x y xs)
  show ?case
  proof -
    obtain p1 f1 where a: "advance (sv_step v) pos frac = (p1, f1)" by force
    obtain p2 f2 where b: "advance (sv_step v) p1 f1 = (p2, f2)" by force
    show ?thesis using assms(3) by (auto simp: assms(1,2) 3 sf_ref_sample_def a b split: Option.bind_splits)
  qed
qed (use assms in \<open>auto simp: sf_ref_sample_def split: Option.bind_splits\<close>)

lemma run_silent_0: "frac < 65536 \<Longrightarrow> pos < two32 \<Longrightarrow> run_silent step 0 pos frac = (pos, frac)"
  by (simp add: run_silent_def add32_def)

lemma run_silent_1: "frac < 65536 \<Longrightarrow>
    run_silent step (Suc 0) pos frac = (add32 pos ((frac + step) div 65536), (frac + step) mod 65536)"
  by (simp add: run_silent_def Let_def add32_def mod_mod_cancel mod_simps)

lemma run_silent_Suc:
  assumes "frac < 65536" "run_silent step (Suc 0) pos frac = (p1, f1)"
  shows "run_silent step m p1 f1 = run_silent step (Suc m) pos frac"
proof -
  have p: "p1 = add32 pos ((frac + step) div 65536)" "f1 = (frac + step) mod 65536"
    using assms by (simp_all add: run_silent_1)
  have "(frac + step) div 65536 + (f1 + step * m) div 65536 = (frac + step * Suc m) div 65536"
  proof -
    have "frac + step * Suc m = 65536 * ((frac + step) div 65536) + (f1 + step * m)"
      unfolding p(2) using mult_div_mod_eq [of 65536 "frac + step"] by (simp del: mult_div_mod_eq add: algebra_simps)
    then show ?thesis by simp
  qed
  moreover have "(f1 + step * m) mod 65536 = (frac + step * Suc m) mod 65536"
    unfolding p(2) by (simp add: mod_simps algebra_simps)
  ultimately show ?thesis
    unfolding run_silent_def p(1) by (simp add: Let_def add32_def mod_mod_cancel mod_simps add.assoc)
qed

lemma run_silent_samples:
  assumes "sv_gain_l v = 0" "sv_gain_r v = 0"
  shows "frac < 65536 \<Longrightarrow> pos < two32 \<Longrightarrow> samples d v buf pos frac = Some (buf, run_silent (sv_step v) (length buf) pos frac)"
proof (induction buf arbitrary: pos frac)
  case (Cons x xs)
  obtain p1 f1 where 1: "run_silent (sv_step v) (Suc 0) pos frac = (p1, f1)" by force
  then have "f1 < 65536" "p1 < two32" using Cons.prems by (auto simp: run_silent_1)
  from Cons.IH [OF this] show ?case
    by (simp add: sf_ref_sample_def assms 1 run_silent_Suc [OF Cons.prems(1) 1])
qed (simp add: run_silent_0)

lemma mix_run_samples:
  "frac < 65536 \<Longrightarrow> pos < two32 \<Longrightarrow> mix_run d v buf pos frac = samples d v buf pos frac"
  by (auto simp: mix_run_def run_silent_samples intro!: run_centre_samples run_sides_samples)

section \<open>The checks inside a run\<close>

text \<open>A voice in order: its loop lies in its sample, its sample in the data of the file.\<close>

definition sf_range_ok :: "sf_voice \<Rightarrow> bool" where
  "sf_range_ok v = (0 < sv_end v \<and> sv_end v < 2147483648 \<and> sv_step v < two32
     \<and> (sv_loop_mode v \<noteq> 0 \<longrightarrow> sv_loop_start v < sv_loop_end v \<and> sv_loop_end v \<le> sv_end v))"

definition pos_ok :: "nat \<Rightarrow> nat \<Rightarrow> bool" where
  "pos_ok pos frac = (pos < 2147614720 \<and> frac < 65536)"

lemma looping_range: "sf_range_ok v \<Longrightarrow> looping v \<Longrightarrow> sv_loop_start v < sv_loop_end v \<and> sv_loop_end v \<le> sv_end v"
  by (simp add: sf_range_ok_def looping_def)

lemma mix_bound_le:
  assumes "sf_range_ok v"
  shows "mix_bound v < sv_end v" "looping v \<Longrightarrow> mix_bound v \<le> sv_loop_end v"
proof -
  have "sub32 (sv_end v) 1 = sv_end v - 1" "0 < sv_end v"
    using assms by (simp_all add: sf_range_ok_def u32_simps)
  then show "mix_bound v < sv_end v" "looping v \<Longrightarrow> mix_bound v \<le> sv_loop_end v" by (auto simp: mix_bound_def Let_def)
qed

lemma wrap_below: "sf_range_ok v \<Longrightarrow> pos < mix_bound v \<Longrightarrow> wrap_pos v pos = pos"
  using mix_bound_le [of v] by (auto simp: wrap_pos_def)

lemma wrap_pos_eq:
  assumes "sf_range_ok v" "pos_ok pos frac"
  shows "wrap_pos v pos = (if looping v \<and> sv_loop_end v \<le> pos then pos - (sv_loop_end v - sv_loop_start v) else pos)"
  using looping_range [OF assms(1)] assms by (auto simp: wrap_pos_def sf_range_ok_def pos_ok_def u32_simps)

lemma wrap_pos_ok: "sf_range_ok v \<Longrightarrow> pos_ok pos frac \<Longrightarrow> pos_ok (wrap_pos v pos) frac"
  using wrap_pos_eq [of v pos frac] by (auto simp: pos_ok_def)

text \<open>The position after a sample.\<close>

lemma advance_eq:
  assumes "pos_ok pos frac" "pos < 2147483648" "step + 65536 \<le> two32"
  shows "advance step pos frac = (pos + (frac + step) div 65536, (frac + step) mod 65536)"
proof -
  have "add32 frac step = frac + step" using assms by (intro add32_id) (simp add: pos_ok_def)
  moreover have "(frac + step) div 65536 \<le> 65536" using assms by (simp add: pos_ok_def)
  ultimately show ?thesis using assms(2) by (simp add: advance_def Let_def u32_simps)
qed

lemma run_silent_eq:
  assumes "pos_ok pos frac" "pos < 2147483648" "step < two32"
  shows "run_silent step (Suc 0) pos frac = (pos + (frac + step) div 65536, (frac + step) mod 65536)"
proof -
  have "(frac + step) div 65536 \<le> 65536" using assms by (simp add: pos_ok_def)
  then show ?thesis using assms by (simp add: run_silent_1 pos_ok_def u32_simps)
qed

lemma split_pos: "(a + (b + s) div 65536) * 65536 + (b + s) mod 65536 = a * 65536 + b + s" for a b s :: nat
  using mult_div_mod_eq [of 65536 "b + s"] by (simp del: mult_div_mod_eq add: algebra_simps)

lemma sf_ref_sample_pos:
  assumes "sf_ref_sample d v x pos frac = Some (y, p1, f1)" "pos_ok pos frac" "pos < 2147483648" "sv_step v < two32"
  shows "pos_ok p1 f1" "sv_step v + 65536 \<le> two32 \<Longrightarrow> p1 * 65536 + f1 = pos * 65536 + frac + sv_step v"
proof -
  have "(p1, f1) = advance (sv_step v) pos frac \<or> (p1, f1) = run_silent (sv_step v) (Suc 0) pos frac"
    using assms(1) by (auto simp: sf_ref_sample_def split: if_splits Option.bind_splits)
  moreover have "pos + (frac + sv_step v) mod two32 div 65536 < 2147614720"
  proof -
    have "(frac + sv_step v) mod two32 div 65536 < 65536" by (simp add: div_less_iff_less_mult)
    then show ?thesis using assms(3) by linarith
  qed
  moreover have "pos + (frac + sv_step v) div 65536 < 2147614720"
  proof -
    have "(frac + sv_step v) div 65536 \<le> 65536" using assms by (simp add: pos_ok_def)
    then show ?thesis using assms(3) by linarith
  qed
  ultimately show "pos_ok p1 f1"
    using run_silent_eq [OF assms(2-4)] by (auto simp: pos_ok_def advance_def Let_def add32_def)
  show "p1 * 65536 + f1 = pos * 65536 + frac + sv_step v" if "sv_step v + 65536 \<le> two32"
    using \<open>_ \<or> _\<close> run_silent_eq [OF assms(2-4)] advance_eq [OF assms(2,3) that] split_pos [of pos frac "sv_step v"] by auto
qed

text \<open>Before the bound no check of the reference does anything.\<close>

lemma ref_mix_run:
  "sf_range_ok v \<Longrightarrow> pos_ok pos frac \<Longrightarrow> m \<le> length buf \<Longrightarrow> sv_step v + 65536 \<le> two32 \<or> m \<le> 1
    \<Longrightarrow> \<forall>i<m. pos * 65536 + frac + i * sv_step v < mix_bound v * 65536
    \<Longrightarrow> ref_mix d v buf pos frac = Option.bind (samples d v (take m buf) pos frac)
          (\<lambda>(ys, p, f). Option.bind (ref_mix d v (drop m buf) p f) (\<lambda>(zs, q). Some (ys @ zs, q)))"
proof (induction m arbitrary: buf pos frac)
  case 0
  then show ?case by (cases "ref_mix d v buf pos frac") auto
next
  case (Suc m)
  obtain x xs where buf: "buf = x # xs" using Suc.prems(3) by (cases buf) auto
  have 0: "pos * 65536 + frac < mix_bound v * 65536" using Suc.prems(5) by (auto dest: spec [of _ 0])
  then have b: "pos < mix_bound v" by linarith
  note e = mix_bound_le(1) [OF Suc.prems(1)]
  have w: "wrap_pos v pos = pos" using wrap_below [OF Suc.prems(1) b] .
  have pe: "\<not> sv_end v \<le> pos + 1" using b e by simp
  have lt: "pos < 2147483648" "sv_step v < two32" using b e Suc.prems(1) by (simp_all add: sf_range_ok_def)
  show ?case
  proof (cases "sf_ref_sample d v x pos frac")
    case None
    then show ?thesis using pe by (simp add: buf w)
  next
    case (Some r)
    obtain y p1 f1 where r: "r = (y, p1, f1)" by (cases r) auto
    note pos1 = sf_ref_sample_pos [OF Some [unfolded r] Suc.prems(2) lt]
    have "ref_mix d v xs p1 f1 = Option.bind (samples d v (take m xs) p1 f1)
          (\<lambda>(ys, p, f). Option.bind (ref_mix d v (drop m xs) p f) (\<lambda>(zs, q). Some (ys @ zs, q)))"
    proof (cases "m = 0")
      case True
      then show ?thesis by (cases "ref_mix d v xs p1 f1") auto
    next
      case False
      then have st: "sv_step v + 65536 \<le> two32" using Suc.prems(4) by simp
      have "\<forall>i<m. p1 * 65536 + f1 + i * sv_step v < mix_bound v * 65536"
      proof (intro allI impI)
        fix i assume "i < m"
        then have "pos * 65536 + frac + Suc i * sv_step v < mix_bound v * 65536" using Suc.prems(5) by blast
        then show "p1 * 65536 + f1 + i * sv_step v < mix_bound v * 65536" using pos1(2) [OF st] by simp
      qed
      then show ?thesis using Suc.prems(1,3) pos1(1) st by (intro Suc.IH) (simp_all add: buf)
    qed
    then show ?thesis using pe
      by (auto simp: buf w Some r split: Option.bind_splits)
  qed
qed

lemma run_length_ok:
  assumes "sf_range_ok v" "pos_ok pos frac" "pos < mix_bound v" "0 < n" "n \<le> 63" "m = min (run_length v n pos frac) n"
  shows "0 < m" "sv_step v + 65536 \<le> two32 \<or> m \<le> 1" "\<forall>i<m. pos * 65536 + frac + i * sv_step v < mix_bound v * 65536"
proof -
  define dist where "dist = mix_bound v - pos"
  have b: "mix_bound v < 2147483648" using mix_bound_le(1) [OF assms(1)] assms(1) by (simp add: sf_range_ok_def)
  have dist: "sub32 (mix_bound v) pos = dist" "0 < dist" using assms(3) b by (simp_all add: dist_def sub32_id)
  have f: "frac < 65536" using assms(2) by (simp add: pos_ok_def)
  have mb: "mix_bound v * 65536 = pos * 65536 + dist * 65536" using assms(3) by (simp add: dist_def algebra_simps)
  define st where "st = sv_step v"
  have rl: "run_length v n pos frac = (if dist > 65535 \<or> st > 67108864 then (if st > 67108864 then 1 else n)
      else add32 (sub32 (sub32 (mul32 dist 65536) frac) 1 div (if st \<noteq> 0 then st else 1)) 1)"
    using assms(3) by (simp add: run_length_def dist(1) Let_def st_def)
  consider "st > 67108864" | "st \<le> 67108864" "dist > 65535" | "st \<le> 67108864" "dist \<le> 65535" by linarith
  then have "0 < m \<and> (st + 65536 \<le> two32 \<or> m \<le> 1) \<and> (\<forall>i<m. frac + i * st < dist * 65536)"
  proof cases
    case 1
    then have "m = 1" using assms(4) by (simp add: assms(6) rl)
    then show ?thesis using f dist(2) by simp
  next
    case 2
    have "frac + i * st < dist * 65536" if "i < m" for i
    proof -
      have "i \<le> 62" using that assms(5,6) by simp
      then have "i * st \<le> 62 * 67108864" using 2(1) by (intro mult_le_mono) simp_all
      moreover have "65536 * 65536 \<le> dist * 65536" using 2(2) by (intro mult_le_mono) simp_all
      ultimately show ?thesis using f by linarith
    qed
    then show ?thesis using 2 assms(4) by (simp add: assms(6) rl)
  next
    case 3
    define q where "q = dist * 65536 - frac - 1"
    have q: "sub32 (sub32 (mul32 dist 65536) frac) 1 = q" "q < 4294967295" "frac + q < dist * 65536"
      using 3(2) dist(2) f by (simp_all add: q_def mul32_id sub32_id)
    let ?s = "if st \<noteq> 0 then st else 1"
    have "q div ?s \<le> q" by simp
    then have "add32 (q div ?s) 1 = q div ?s + 1" using q(2) by (intro add32_id) linarith
    then have r: "run_length v n pos frac = q div ?s + 1" using 3 by (simp only: rl q(1)) simp
    have "frac + i * st < dist * 65536" if "i < m" for i
    proof -
      have "i \<le> q div ?s" using that by (simp add: assms(6) r)
      then have "i * ?s \<le> q" using times_div_less_eq_dividend [of ?s q] mult_le_mono1 [of i "q div ?s" ?s]
        by (metis le_trans mult.commute)
      then have "i * st \<le> q" by (cases "st = 0") simp_all
      then show ?thesis using q(3) by linarith
    qed
    then show ?thesis using 3(1) assms(4) by (simp add: assms(6) r)
  qed
  then show "0 < m" "sv_step v + 65536 \<le> two32 \<or> m \<le> 1" "\<forall>i<m. pos * 65536 + frac + i * sv_step v < mix_bound v * 65536"
    by (auto simp: st_def mb)
qed

lemma samples_pos:
  "sf_range_ok v \<Longrightarrow> pos_ok pos frac \<Longrightarrow> sv_step v + 65536 \<le> two32 \<or> length buf \<le> 1
    \<Longrightarrow> \<forall>i<length buf. pos * 65536 + frac + i * sv_step v < sv_end v * 65536
    \<Longrightarrow> samples d v buf pos frac = Some (ys, p, f) \<Longrightarrow> pos_ok p f \<and> length ys = length buf"
proof (induction buf arbitrary: pos frac ys)
  case (Cons x xs)
  have "pos * 65536 + frac < sv_end v * 65536" using Cons.prems(4) by (auto dest: spec [of _ 0])
  then have lt: "pos < 2147483648" "sv_step v < two32" using Cons.prems(1) by (simp_all add: sf_range_ok_def)
  obtain y p1 f1 ys1 where 1: "sf_ref_sample d v x pos frac = Some (y, p1, f1)" "samples d v xs p1 f1 = Some (ys1, p, f)" "ys = y # ys1"
    using Cons.prems(5) by (auto split: Option.bind_splits)
  note pos1 = sf_ref_sample_pos [OF 1(1) Cons.prems(2) lt]
  show ?case
  proof (cases "xs = []")
    case True
    then show ?thesis using 1(2,3) pos1(1) by auto
  next
    case False
    then have st: "sv_step v + 65536 \<le> two32" using Cons.prems(3) by (cases xs) auto
    have "\<forall>i<length xs. p1 * 65536 + f1 + i * sv_step v < sv_end v * 65536"
    proof (intro allI impI)
      fix i assume "i < length xs"
      then have "Suc i < length (x # xs)" by simp
      with Cons.prems(4) have "pos * 65536 + frac + Suc i * sv_step v < sv_end v * 65536" by blast
      then show "p1 * 65536 + f1 + i * sv_step v < sv_end v * 65536" using pos1(2) [OF st] by simp
    qed
    then show ?thesis using Cons.IH [OF Cons.prems(1) pos1(1) _ _ 1(2)] st 1(3) by simp
  qed
qed simp

section \<open>Runs and samples\<close>

lemma next_run:
  assumes ok: "sf_range_ok v" and po: "pos_ok pos frac" and p: "p = wrap_pos v pos" "\<not> sv_end v \<le> p + 1"
    and buf: "buf \<noteq> []" "length buf \<le> 63" and m: "m = min (run_length v (length buf) p frac) (length buf)"
  shows "0 < m" "sv_step v + 65536 \<le> two32 \<or> m \<le> 1" "\<forall>i<m. p * 65536 + frac + i * sv_step v < sv_end v * 65536"
    "ref_mix d v buf pos frac = Option.bind (samples d v (take m buf) p frac)
      (\<lambda>(ys, p, f). Option.bind (ref_mix d v (drop m buf) p f) (\<lambda>(zs, q). Some (ys @ zs, q)))"
proof -
  have pp: "pos_ok p frac" unfolding p(1) by (rule wrap_pos_ok [OF ok po])
  obtain x xs where x: "buf = x # xs" using buf(1) by (cases buf) auto
  have "0 < m \<and> (sv_step v + 65536 \<le> two32 \<or> m \<le> 1) \<and> (\<forall>i<m. p * 65536 + frac + i * sv_step v < sv_end v * 65536)
    \<and> ref_mix d v buf pos frac = Option.bind (samples d v (take m buf) p frac)
      (\<lambda>(ys, p, f). Option.bind (ref_mix d v (drop m buf) p f) (\<lambda>(zs, q). Some (ys @ zs, q)))"
  proof (cases "p < mix_bound v")
    case True
    note r = run_length_ok [OF ok pp True _ buf(2) m]
    have "0 < length buf" using buf(1) by simp
    note r = r [OF this]
    have "ref_mix d v buf pos frac = ref_mix d v buf p frac"
      using wrap_below [OF ok True] by (simp add: x p(1))
    moreover have "\<forall>i<m. p * 65536 + frac + i * sv_step v < sv_end v * 65536"
      using r(3) mix_bound_le(1) [OF ok] by (meson less_imp_le_nat less_le_trans mult_le_mono1)
    moreover have "m \<le> length buf" by (simp add: m)
    ultimately show ?thesis using r ref_mix_run [OF ok pp _ r(2,3)] by simp
  next
    case False
    then have "m = 1" by (simp add: m run_length_def x)
    moreover have "p * 65536 + frac < sv_end v * 65536" using p(2) pp by (simp add: pos_ok_def)
    ultimately show ?thesis using p by (auto simp: x split: Option.bind_splits)
  qed
  then show "0 < m" "sv_step v + 65536 \<le> two32 \<or> m \<le> 1" "\<forall>i<m. p * 65536 + frac + i * sv_step v < sv_end v * 65536"
    "ref_mix d v buf pos frac = Option.bind (samples d v (take m buf) p frac)
      (\<lambda>(ys, p, f). Option.bind (ref_mix d v (drop m buf) p f) (\<lambda>(zs, q). Some (ys @ zs, q)))"
    by blast+
qed

lemma mix_runs_ref:
  "sf_range_ok v \<Longrightarrow> pos_ok pos frac \<Longrightarrow> length buf \<le> 63 \<Longrightarrow> mix_runs d v buf pos frac = ref_mix d v buf pos frac"
proof (induction "length buf" arbitrary: buf pos frac rule: less_induct)
  case less
  note ok = less.prems(1) and po = less.prems(2)
  show ?case
  proof (cases buf)
    case Nil
    then show ?thesis by (subst mix_runs.simps) simp
  next
    case (Cons x xs)
    define p where "p = wrap_pos v pos"
    have p: "(if pos \<ge> mix_bound v then wrap_pos v pos else pos) = p" using wrap_below [OF ok] by (simp add: p_def)
    have pp: "pos_ok p frac" unfolding p_def by (rule wrap_pos_ok [OF ok po])
    have lim: "p < 2147614720" "frac < 65536" using pp by (simp_all add: pos_ok_def)
    have add: "add32 p 1 = p + 1" using lim by (intro add32_id) simp
    have below: "pos < mix_bound v \<Longrightarrow> p < mix_bound v \<and> \<not> sv_end v \<le> p + 1"
      using wrap_below [OF ok] mix_bound_le(1) [OF ok] by (simp add: p_def)
    show ?thesis
    proof (cases "sv_end v \<le> p + 1")
      case True
      then have "\<not> pos < mix_bound v" using below by blast
      then show ?thesis using True add p by (subst mix_runs.simps) (simp add: Cons p_def [symmetric])
    next
      case False
      define m where "m = min (run_length v (length buf) p frac) (length buf)"
      have "buf \<noteq> []" by (simp add: Cons)
      note m = next_run(1-3) [OF ok po p_def False this less.prems(3) m_def]
        and ref = next_run(4) [OF ok po p_def False this less.prems(3) m_def, of d]
      have len: "m \<le> length buf" by (simp add: m_def)
      have "mix_runs d v buf pos frac = Option.bind (samples d v (take m buf) p frac)
          (\<lambda>(ys, p, f). Option.bind (mix_runs d v (drop m buf) p f) (\<lambda>(zs, q). Some (ys @ zs, q)))"
        using False add mix_run_samples [of frac p d v "take m buf"] lim p
        by (subst mix_runs.simps) (simp add: Cons [symmetric] Let_def m_def [symmetric], simp add: Cons)
      also have "\<dots> = ref_mix d v buf pos frac"
        unfolding ref
      proof (rule Option.bind_cong [OF refl])
        fix r assume r: "samples d v (take m buf) p frac = Some r"
        obtain ys q f where r': "r = (ys, q, f)" by (cases r) auto
        have "pos_ok q f" using samples_pos [OF ok pp _ _ r [unfolded r']] m len by simp
        then have "mix_runs d v (drop m buf) q f = ref_mix d v (drop m buf) q f"
          using less.hyps [of "drop m buf" q f] ok less.prems(3) m(1) Cons by simp
        then show "(case r of (ys, p, f) \<Rightarrow> Option.bind (mix_runs d v (drop m buf) p f) (\<lambda>(zs, q). Some (ys @ zs, q)))
          = (case r of (ys, p, f) \<Rightarrow> Option.bind (ref_mix d v (drop m buf) p f) (\<lambda>(zs, q). Some (ys @ zs, q)))"
          by (simp add: r')
      qed
      finally show ?thesis .
    qed
  qed
qed

end
