(* ===== verification/SfVoice.thy ===== *)
theory SfVoice
  imports SfRuns
begin

text \<open>
  One voice of the SoundFont engine: its ranges, what the mixer adds for it, and the end of its release.
\<close>

section \<open>Interpolation\<close>

text \<open>Samples of 16 bits whose neighbours differ by at most half the range: their interpolation stays within \<open>int\<close>.\<close>

definition smooth :: "int list \<Rightarrow> bool" where
  "smooth d = ((\<forall>x\<in>set d. - 32768 \<le> x \<and> x \<le> 32767) \<and> (\<forall>i. Suc i < length d \<longrightarrow> \<bar>d ! Suc i - d ! i\<bar> \<le> 32768))"

lemma scaled_between:
  fixes s :: int
  assumes "0 \<le> f" "f < 65536"
  shows "min 0 s \<le> s * f div 65536" "s * f div 65536 \<le> max 0 s"
proof -
  have "min 0 s * 65536 \<le> s * f" "s * f \<le> max 0 s * 65536"
  proof -
    have "s * 65536 \<le> s * f" "s * f \<le> 0" if "s < 0"
      using assms that by (auto intro!: mult_left_mono_neg mult_nonpos_nonneg)
    moreover have "0 \<le> s * f" "s * f \<le> s * 65536" if "0 \<le> s"
      using assms that by (auto intro!: mult_left_mono)
    ultimately show "min 0 s * 65536 \<le> s * f" "s * f \<le> max 0 s * 65536" by (cases "0 \<le> s"; simp)+
  qed
  then have "min 0 s * 65536 div 65536 \<le> s * f div 65536" "s * f div 65536 \<le> max 0 s * 65536 div 65536"
    by (auto intro: zdiv_mono1)
  then show "min 0 s \<le> s * f div 65536" "s * f div 65536 \<le> max 0 s" by simp_all
qed

lemma tap_between:
  assumes "smooth d" "Suc pos < length d" "length d \<le> two32" "frac < 65536"
  shows "\<exists>t. tap d pos frac = Some t \<and> min (d ! pos) (d ! Suc pos) \<le> t \<and> t \<le> max (d ! pos) (d ! Suc pos)"
proof -
  let ?a = "d ! pos" and ?b = "d ! Suc pos"
  have in16: "- 32768 \<le> ?a" "?a \<le> 32767" "- 32768 \<le> ?b" "?b \<le> 32767" using assms(1,2) by (simp_all add: smooth_def)
  have le: "\<bar>?b - ?a\<bar> \<le> 32768" using assms(1,2) by (simp add: smooth_def)
  have "\<bar>(?b - ?a) * int frac\<bar> \<le> 32768 * 65535"
    unfolding abs_mult using le assms(4) by (intro mult_mono) simp_all
  then have fit: "fit ((?b - ?a) * int frac) = Some ((?b - ?a) * int frac)" by (intro fit_Some) linarith+
  note s = scaled_between [of "int frac" "?b - ?a"]
  have t: "min ?a ?b \<le> ?a + (?b - ?a) * int frac div 65536" "?a + (?b - ?a) * int frac div 65536 \<le> max ?a ?b"
    using s assms(4) by (auto simp: min_def max_def split: if_splits)
  have "fit (?a + (?b - ?a) * int frac div 65536) = Some (?a + (?b - ?a) * int frac div 65536)"
    using t in16 by (intro fit_Some) (auto simp: min_def max_def split: if_splits)
  moreover have "add32 pos 1 = Suc pos" using assms(2,3) by (simp add: add32_id)
  moreover have "at d (int pos) = Some ?a" "at d (int (Suc pos)) = Some ?b" using assms(2) by (simp_all only: at_Some nat_int of_nat_less_iff of_nat_0_le_iff Suc_lessD)
  ultimately have "tap d pos frac = Some (?a + (?b - ?a) * int frac div 65536)"
    using fit by (simp add: tap_def del: of_nat_Suc)
  then show ?thesis using t by simp
qed

text \<open>A steeper step leaves \<open>int\<close> at the end of its way, and the wrapped product takes the sample by \<open>65537\<close> past the value.\<close>

lemma steep_overflow:
  assumes "32768 < b - a" "b - a \<le> 65535"
  shows "fit ((b - a) * 65535) = None" "a + i32 ((b - a) * 65535) div 65536 = b - 65537"
proof -
  have r: "2147483648 \<le> (b - a) * 65535" "(b - a) * 65535 < 4294967296"
    using mult_right_mono [of 32769 "b - a" 65535] mult_right_mono [of "b - a" 65535 65535] assms by simp_all
  then show "fit ((b - a) * 65535) = None" by (simp add: fit_def)
  define x where "x = (b - a) * 65535"
  have "(x + 2147483648) mod 4294967296 = (x + 2147483648 - 4294967296) mod 4294967296" by (rule minus_mod_self2 [symmetric])
  also have "\<dots> = x - 2147483648" using r by (subst mod_pos_pos_trivial) (simp_all add: x_def)
  finally have "i32 x = x - 4294967296"
    unfolding i32_def signed_take_bit_eq_take_bit_shift by (simp add: take_bit_eq_mod)
  then have i: "i32 ((b - a) * 65535) = (b - a) * 65535 - 4294967296" by (simp only: x_def)
  have "((b - a) * 65535 - 4294967296) div 65536 = b - a - 65537"
    using assms by (intro int_div_pos_eq [of _ _ _ "65536 - (b - a)"]) simp_all
  then show "a + i32 ((b - a) * 65535) div 65536 = b - 65537" unfolding i by linarith
qed

section \<open>What a voice adds\<close>

definition gains_ok :: "sf_voice \<Rightarrow> bool" where
  "gains_ok v = (0 \<le> sv_gain_l v \<and> sv_gain_l v \<le> 11600 \<and> 0 \<le> sv_gain_r v \<and> sv_gain_r v \<le> 11600)"

definition sf_data_ok :: "sf_voice \<Rightarrow> bool" where
  "sf_data_ok v = (sf_range_ok v \<and> pos_ok (sv_pos v) (sv_frac v) \<and> sv_end v \<le> length (sv_data v)
     \<and> length (sv_data v) < 2147483648 \<and> smooth (sv_data v))"

lemma gmul_le:
  assumes "- 32768 \<le> t" "t \<le> 32767" "0 \<le> g" "g \<le> 11600"
  shows "\<exists>s. gmul t g = Some s \<and> \<bar>s\<bar> \<le> 11600"
proof -
  have "- 32768 * g \<le> t * g" "t * g \<le> 32768 * g" using assms by (intro mult_right_mono; simp)+
  moreover from this have "- g * 32768 div 32768 \<le> t * g div 32768" "t * g div 32768 \<le> g * 32768 div 32768"
    by (intro zdiv_mono1; simp)+
  moreover have "fit (t * g) = Some (t * g)" using calculation(1,2) assms(3,4) by (intro fit_Some) linarith+
  ultimately show ?thesis using assms(3,4) by (simp add: gmul_def)
qed

lemma sf_ref_sample_ok:
  assumes "smooth d" "length d < 2147483648" "pos + 1 < length d" "frac < 65536" "gains_ok v"
    and "\<bar>fst x\<bar> \<le> b" "\<bar>snd x\<bar> \<le> b" "b \<le> 2147470000"
  shows "\<exists>y q. sf_ref_sample d v x pos frac = Some (y, q) \<and> \<bar>fst y\<bar> \<le> b + 11600 \<and> \<bar>snd y\<bar> \<le> b + 11600"
proof -
  obtain t where t: "tap d pos frac = Some t" "min (d ! pos) (d ! Suc pos) \<le> t" "t \<le> max (d ! pos) (d ! Suc pos)"
    using tap_between [OF assms(1), of pos frac] assms(2-4) by auto
  have "d ! pos \<in> set d" "d ! Suc pos \<in> set d" using assms(3) by simp_all
  then have t16: "- 32768 \<le> t" "t \<le> 32767" using assms(1) t(2,3) by (force simp: smooth_def min_def max_def split: if_splits)+
  obtain l r where lr: "gmul t (sv_gain_l v) = Some l" "gmul t (sv_gain_r v) = Some r" "\<bar>l\<bar> \<le> 11600" "\<bar>r\<bar> \<le> 11600"
    using gmul_le [OF t16, of "sv_gain_l v"] gmul_le [OF t16, of "sv_gain_r v"] assms(5) unfolding gains_ok_def by blast
  have "fit (fst x + l) = Some (fst x + l)" "fit (snd x + r) = Some (snd x + r)"
    using lr(3,4) assms(6-8) by (intro fit_Some; linarith)+
  then show ?thesis using t(1) lr assms(6,7) by (cases x) (auto simp: sf_ref_sample_def add_lr_def)
qed

lemma ref_mix_ok:
  assumes "sf_range_ok v" "gains_ok v" "sv_end v \<le> length d" "length d < 2147483648" "smooth d" "b \<le> 2147470000"
  shows "pos_ok pos frac \<Longrightarrow> loud b buf \<Longrightarrow>
    \<exists>out p f on. ref_mix d v buf pos frac = Some (out, p, f, on) \<and> length out = length buf \<and> loud (b + 11600) out \<and> pos_ok p f"
proof (induction buf arbitrary: pos frac)
  case (Cons x xs)
  define p where "p = wrap_pos v pos"
  have pp: "pos_ok p frac" unfolding p_def by (rule wrap_pos_ok [OF assms(1) Cons.prems(1)])
  show ?case
  proof (cases "sv_end v \<le> p + 1")
    case True
    have "loud (b + 11600) (x # xs)" using Cons.prems(2) by (force simp: loud_def)
    moreover have "ref_mix d v (x # xs) pos frac = Some (x # xs, p, frac, False)" using True by (simp add: p_def [symmetric])
    ultimately show ?thesis using pp by auto
  next
    case False
    then obtain y p1 f1 where 1: "sf_ref_sample d v x p frac = Some (y, p1, f1)" "\<bar>fst y\<bar> \<le> b + 11600" "\<bar>snd y\<bar> \<le> b + 11600"
      using sf_ref_sample_ok [OF assms(5,4) _ _ assms(2), of p frac x b] assms(3,6) pp Cons.prems(2)
      by (force simp: pos_ok_def loud_def)
    have "p < 2147483648" "sv_step v < two32" using False assms(1) by (simp_all add: sf_range_ok_def)
    then have "pos_ok p1 f1" using sf_ref_sample_pos(1) [OF 1(1) pp] by simp
    from Cons.IH [OF this] Cons.prems(2) obtain out q f on where
      "ref_mix d v xs p1 f1 = Some (out, q, f, on)" "length out = length xs" "loud (b + 11600) out" "pos_ok q f"
      by (auto simp: loud_def)
    then show ?thesis using False 1 by (simp add: p_def [symmetric])
  qed
qed (auto simp: loud_def)

text \<open>The fields of a voice that mixing does not touch.\<close>

definition mixed :: "sf_voice \<Rightarrow> sf_voice \<Rightarrow> bool" where
  "mixed v v' = (\<exists>on p f. v' = v\<lparr>sv_active := sv_active v \<and> on, sv_pos := p, sv_frac := f\<rparr> \<and> pos_ok p f)"

lemma mix_voice_ok:
  assumes "sf_data_ok v" "gains_ok v" "b \<le> 2147470000" "loud b buf" "length buf \<le> 63"
  shows "\<exists>out v'. mix_voice v buf = Some (out, v') \<and> length out = length buf \<and> loud (b + 11600) out \<and> mixed v v'"
proof -
  have ok: "sf_range_ok v" "pos_ok (sv_pos v) (sv_frac v)" using assms(1) by (simp_all add: sf_data_ok_def)
  obtain out p f on where r: "ref_mix (sv_data v) v buf (sv_pos v) (sv_frac v) = Some (out, p, f, on)"
    "length out = length buf" "loud (b + 11600) out" "pos_ok p f"
    using ref_mix_ok [OF ok(1) assms(2) _ _ _ assms(3) ok(2) assms(4), of "sv_data v"] assms(1) by (auto simp: sf_data_ok_def)
  have "mixed v (snd (mix_done v (out, p, f, on)))"
    using r(4) wrap_pos_ok [OF ok(1) r(4)] unfolding mixed_def mix_done_def by auto
  then show ?thesis using r by (simp add: mix_voice_def mix_runs_ref [OF ok assms(5)] mix_done_def)
qed

lemma mixed_data_ok: "mixed v v' \<Longrightarrow> sf_data_ok v \<Longrightarrow> sf_data_ok v'"
  by (auto simp: mixed_def sf_data_ok_def sf_range_ok_def)

section \<open>The envelope\<close>

definition cb_ok :: "cb_tab \<Rightarrow> bool" where
  "cb_ok g = (length g = 1441 \<and> (\<forall>a\<in>set g. a \<le> 32767))"

lemma bisect_ok:
  "length g = 1441 \<Longrightarrow> lo \<le> hi \<Longrightarrow> hi \<le> 1440 \<Longrightarrow> \<exists>r. bisect g x lo hi = Some r \<and> r \<le> hi"
proof (induction g x lo hi rule: bisect.induct)
  case (1 g x lo hi)
  show ?case
  proof (cases "lo < hi")
    case True
    define mid where "mid = (lo + hi) div 2"
    have m: "lo \<le> mid" "mid < hi" using True by (simp_all add: mid_def)
    then have at: "at g (int mid) = Some (g ! mid)" using "1.prems" by (simp add: at_Some)
    show ?thesis
    proof (cases "int (g ! mid) > x")
      case True
      then show ?thesis using 1(1) [OF \<open>lo < hi\<close> mid_def at True] "1.prems" m at
        by (subst bisect.simps) (simp add: mid_def [symmetric])
    next
      case False
      then obtain r where "bisect g x lo mid = Some r" "r \<le> mid"
        using 1(2) [OF \<open>lo < hi\<close> mid_def at False] "1.prems" m by auto
      then show ?thesis using False m at by (subst bisect.simps) (simp add: mid_def [symmetric])
    qed
  qed (use "1.prems" in \<open>subst bisect.simps, simp\<close>)
qed

lemma amp_to_cb_ok: "cb_ok g \<Longrightarrow> \<exists>r. amp_to_cb g v = Some r \<and> r \<le> 1440"
  using bisect_ok [of g 0 1440] by (auto simp: amp_to_cb_def cb_ok_def MAX_CB_def)

definition tc_ok :: "int \<Rightarrow> bool" where
  "tc_ok n = (0 \<le> n \<and> n \<le> 100000000)"

text \<open>An envelope in order: its times and levels have the ranges that its start gives them.\<close>

definition sf_env_ok :: "sf_voice \<Rightarrow> bool" where
  "sf_env_ok v = (tc_ok (sv_delay_n v) \<and> tc_ok (sv_attack_n v) \<and> tc_ok (sv_hold_n v) \<and> tc_ok (sv_decay_n v) \<and> tc_ok (sv_release_n v)
     \<and> 0 \<le> sv_sustain_cb v \<and> sv_sustain_cb v \<le> 1440 \<and> - 500 \<le> sv_pan v \<and> sv_pan v \<le> 500
     \<and> 0 \<le> sv_env_cb v \<and> sv_env_cb v \<le> (if sv_active v then 368640 else 8560640)
     \<and> (sv_env v \<in> {ENV_DELAY, ENV_ATTACK, ENV_HOLD} \<longrightarrow> 0 \<le> sv_env_t v \<and> sv_env_t v \<le> 100000032)
     \<and> (sv_env v = ENV_RELEASE \<longrightarrow> 1 \<le> sv_rel_step v \<and> sv_rel_step v \<le> 256000)
     \<and> (sv_active v \<and> sv_released v \<longrightarrow> sv_env v = ENV_RELEASE))"

text \<open>The fields that the envelope works on.\<close>

definition env_part :: "sf_voice \<Rightarrow> sf_voice" where
  "env_part v = v\<lparr>sv_active := False, sv_env := ENV_OFF, sv_env_t := 0, sv_env_cb := 0, sv_gain_l := 0, sv_gain_r := 0\<rparr>"

definition enveloped :: "sf_voice \<Rightarrow> sf_voice \<Rightarrow> bool" where
  "enveloped v v' = (env_part v' = env_part v \<and> (sv_active v' \<longrightarrow> sv_active v))"

definition stage_ok :: "sf_voice \<Rightarrow> sf_voice + sf_voice \<times> int \<Rightarrow> bool" where
  "stage_ok v r = (case r of
     Inl v' \<Rightarrow> sf_env_ok v' \<and> gains_ok v' \<and> enveloped v v'
   | Inr (v', lin) \<Rightarrow> sf_env_ok (v'\<lparr>sv_env_t := i32 (sv_env_t v' + 32)\<rparr>) \<and> enveloped v v' \<and> 0 \<le> lin \<and> lin \<le> 32767 \<and> sv_active v' = sv_active v)"

lemma enveloped_trans: "enveloped v v1 \<Longrightarrow> enveloped v1 v2 \<Longrightarrow> enveloped v v2"
  by (simp add: enveloped_def)

lemma stage_ok_trans: "enveloped v v1 \<Longrightarrow> sv_active v1 = sv_active v \<Longrightarrow> stage_ok v1 r \<Longrightarrow> stage_ok v r"
  by (auto simp: stage_ok_def split: sum.splits intro: enveloped_trans)

lemmas stage_simps = stage_ok_def sf_env_ok_def enveloped_def env_part_def gains_ok_def BLOCK_def Let_def

lemma sdiv_nonneg: "0 \<le> a \<Longrightarrow> 0 \<le> n \<Longrightarrow> a sdiv n = a div n" for a n :: int
  by (cases "n = 0"; cases "a = 0") (simp_all add: signed_divide_int_def)

lemma env_decay_ok:
  assumes "sf_env_ok v" "sv_active v" "sv_env v = ENV_DECAY"
  shows "stage_ok v (env_decay v)"
proof -
  have "0 \<le> sv_decay_n v" using assms(1) by (simp add: sf_env_ok_def tc_ok_def)
  then have "0 \<le> 8192000 sdiv sv_decay_n v" by (simp add: sdiv_nonneg pos_imp_zdiv_nonneg_iff div_int_pos_iff)
  then show ?thesis using assms by (auto simp: stage_simps env_decay_def)
qed

lemma env_hold_ok:
  assumes "sf_env_ok v" "sv_active v" "sv_env v = ENV_HOLD"
  shows "stage_ok v (env_hold v)"
proof (cases "sv_env_t v \<ge> sv_hold_n v")
  case True
  let ?v = "v\<lparr>sv_env := ENV_DECAY, sv_env_t := 0, sv_env_cb := 0\<rparr>"
  have "stage_ok ?v (env_decay ?v)" using assms by (intro env_decay_ok) (simp_all add: sf_env_ok_def)
  then show ?thesis using True stage_ok_trans [of v ?v] by (simp add: env_hold_def enveloped_def env_part_def)
next
  case False
  then have "i32 (sv_env_t v + 32) = sv_env_t v + 32" using assms by (intro i32_id) (simp_all add: sf_env_ok_def tc_ok_def)
  then show ?thesis using False assms by (auto simp: stage_simps env_hold_def tc_ok_def)
qed

lemma ratio_le: "0 \<le> t \<Longrightarrow> t < n \<Longrightarrow> 0 \<le> t * 32767 sdiv n \<and> t * 32767 sdiv n \<le> 32767" for t n :: int
proof -
  assume "0 \<le> t" "t < n"
  then have "t * 32767 div n \<le> n * 32767 div n" by (intro zdiv_mono1) simp_all
  then show ?thesis using \<open>0 \<le> t\<close> \<open>t < n\<close> by (simp add: sdiv_nonneg div_int_pos_iff)
qed

lemma env_attack_ok:
  assumes "sf_env_ok v" "sv_active v" "sv_env v = ENV_ATTACK"
  shows "stage_ok v (env_attack v)"
proof (cases "sv_env_t v \<ge> sv_attack_n v")
  case True
  let ?v = "v\<lparr>sv_env := ENV_HOLD, sv_env_t := 0\<rparr>"
  have "stage_ok ?v (env_hold ?v)" using assms by (intro env_hold_ok) (simp_all add: sf_env_ok_def)
  then show ?thesis using True stage_ok_trans [of v ?v] by (simp add: env_attack_def enveloped_def env_part_def)
next
  case False
  then have "i32 (sv_env_t v + 32) = sv_env_t v + 32" using assms by (intro i32_id) (simp_all add: sf_env_ok_def tc_ok_def)
  moreover have "0 \<le> sv_env_t v" using assms by (simp add: sf_env_ok_def)
  ultimately show ?thesis using False assms ratio_le [of "sv_env_t v" "sv_attack_n v"]
    by (auto simp: stage_simps env_attack_def tc_ok_def)
qed

lemma env_delay_ok:
  assumes "sf_env_ok v" "sv_active v" "sv_env v = ENV_DELAY"
  shows "stage_ok v (env_delay v)"
proof (cases "sv_env_t v \<ge> sv_delay_n v")
  case True
  let ?v = "v\<lparr>sv_env := ENV_ATTACK, sv_env_t := 0\<rparr>"
  have "stage_ok ?v (env_attack ?v)" using assms by (intro env_attack_ok) (simp_all add: sf_env_ok_def)
  then show ?thesis using True stage_ok_trans [of v ?v] by (simp add: env_delay_def enveloped_def env_part_def)
next
  case False
  then have "i32 (sv_env_t v + 32) = sv_env_t v + 32" using assms by (intro i32_id) (simp_all add: sf_env_ok_def tc_ok_def)
  then show ?thesis using False assms by (auto simp: stage_simps env_delay_def tc_ok_def)
qed

lemma env_release_ok: "sf_env_ok v \<Longrightarrow> sv_active v \<Longrightarrow> sv_env v = ENV_RELEASE \<Longrightarrow> stage_ok v (env_release v)"
  by (auto simp: stage_simps env_release_def)

lemma env_stage_ok: "sf_env_ok v \<Longrightarrow> sv_active v \<Longrightarrow> stage_ok v (env_stage v)"
  by (cases "sv_env v")
    (simp_all add: env_stage_def env_delay_ok env_attack_ok env_hold_ok env_decay_ok env_release_ok, auto simp: stage_simps)

lemma gain_bound:
  assumes "a \<le> 32767" "0 \<le> lin" "lin \<le> 32767"
  shows "0 \<le> int a * lin sdiv 32767 * MASTER sdiv 32767 \<and> int a * lin sdiv 32767 * MASTER sdiv 32767 \<le> 11600"
proof -
  have "int a * lin \<le> 32767 * 32767" using assms by (intro mult_mono) simp_all
  then have 1: "int a * lin div 32767 \<le> 32767" "0 \<le> int a * lin div 32767" using assms by (simp_all add: div_int_pos_iff)
  then have "int a * lin div 32767 * 11600 div 32767 \<le> 32767 * 11600 div 32767" by (intro zdiv_mono1) simp_all
  then show ?thesis using 1 assms by (simp add: sdiv_nonneg MASTER_def div_int_pos_iff)
qed

lemma pan_bound: "0 \<le> l \<Longrightarrow> l \<le> 11600 \<Longrightarrow> 0 \<le> k \<Longrightarrow> k \<le> 500 \<Longrightarrow> 0 \<le> l * k sdiv 500 \<and> l * k sdiv 500 \<le> 11600" for l k :: int
proof -
  assume l: "0 \<le> l" "l \<le> 11600" "0 \<le> k" "k \<le> 500"
  then have "l * k div 500 \<le> 11600 * 500 div 500" by (intro zdiv_mono1 mult_mono) simp_all
  then show ?thesis using l by (simp add: sdiv_nonneg div_int_pos_iff)
qed

lemma env_gain_ok:
  assumes "cb_ok g" "sf_env_ok v" "0 \<le> lin" "lin \<le> 32767"
  shows "\<exists>v'. env_gain g v lin = Some v' \<and> sf_env_ok v' \<and> gains_ok v' \<and> enveloped v v'"
proof -
  let ?cb = "level_cb v"
  consider "sv_env v = ENV_RELEASE \<and> ?cb \<ge> 700" | "?cb \<ge> 1440" "\<not> (sv_env v = ENV_RELEASE \<and> ?cb \<ge> 700)"
    | "?cb < 1440" "\<not> (sv_env v = ENV_RELEASE \<and> ?cb \<ge> 700)" by linarith
  then show ?thesis
  proof cases
    case 3
    define i where "i = nat (max 0 ?cb)"
    have i: "i < 1441" "max 0 ?cb = int i" using 3(1) by (simp_all add: i_def)
    then have a: "at g (max 0 ?cb) = Some (g ! i)" "g ! i \<le> 32767" using assms(1) by (simp_all add: cb_ok_def at_Some)
    note l = gain_bound [OF a(2) assms(3,4)]
    have pan: "- 500 \<le> sv_pan v" "sv_pan v \<le> 500" using assms(2) by (simp_all add: sf_env_ok_def)
    let ?l = "int (g ! i) * lin sdiv 32767 * MASTER sdiv 32767"
    have s: "env_gain g v lin = Some (v\<lparr>sv_gain_l := (if sv_pan v \<le> 0 then ?l else ?l * (500 - sv_pan v) sdiv 500),
                   sv_gain_r := (if sv_pan v \<ge> 0 then ?l else ?l * (500 + sv_pan v) sdiv 500)\<rparr>)"
      using 3 a(1) by (auto simp: env_gain_def Let_def MAX_CB_def)
    show ?thesis unfolding s
      using assms(2) l pan pan_bound [of ?l "500 - sv_pan v"] pan_bound [of ?l "500 + sv_pan v"]
      by (simp add: stage_simps)
  qed (use assms(2) in \<open>auto simp: env_gain_def Let_def MAX_CB_def stage_simps split: if_splits\<close>)
qed

lemma envelope_ok:
  assumes "cb_ok g" "sf_env_ok v" "sv_active v"
  shows "\<exists>v'. envelope g v = Some v' \<and> sf_env_ok v' \<and> gains_ok v' \<and> enveloped v v'"
proof (cases "env_stage v")
  case (Inl v')
  then show ?thesis using env_stage_ok [OF assms(2,3)] by (simp add: envelope_def stage_ok_def)
next
  case (Inr p)
  obtain v1 lin where p: "p = (v1, lin)" by force
  let ?v = "v1\<lparr>sv_env_t := i32 (sv_env_t v1 + 32)\<rparr>"
  have 1: "sf_env_ok ?v" "enveloped v v1" "0 \<le> lin" "lin \<le> 32767"
    using env_stage_ok [OF assms(2,3)] by (simp_all add: Inr p stage_ok_def)
  obtain v' where v': "env_gain g ?v lin = Some v'" "sf_env_ok v'" "gains_ok v'" "enveloped ?v v'"
    using env_gain_ok [OF assms(1) 1(1,3,4)] by blast
  have "enveloped v ?v" using 1(2) by (simp add: enveloped_def env_part_def)
  then show ?thesis using v' enveloped_trans by (auto simp: envelope_def Inr p BLOCK_def)
qed

section \<open>Release\<close>

text \<open>The fields that a release works on.\<close>

definition rel_part :: "sf_voice \<Rightarrow> sf_voice" where
  "rel_part v = v\<lparr>sv_active := False, sv_released := False, sv_env := ENV_OFF, sv_env_t := 0, sv_env_cb := 0, sv_rel_step := 0\<rparr>"

lemma rel_step_of_range: "tc_ok n \<Longrightarrow> 1 \<le> rel_step_of n \<and> rel_step_of n \<le> 256000"
proof -
  assume n: "tc_ok n"
  have "256000 div n \<le> 256000" if "0 < n"
    using zdiv_mono2 [of 256000 1 n] that by simp
  then show ?thesis using n by (auto simp: rel_step_of_def Let_def sdiv_nonneg tc_ok_def)
qed

lemma release_voice_ok:
  assumes "cb_ok g" "sf_env_ok v" "sv_active v"
  shows "\<exists>v'. release_voice g v = Some v' \<and> sf_env_ok v' \<and> rel_part v' = rel_part v \<and> sv_released v'
    \<and> (sv_active v' \<longrightarrow> sv_env v' = ENV_RELEASE)"
proof -
  have "\<exists>cb. release_cb g v = Some cb \<and> 0 \<le> cb \<and> cb \<le> 368640"
  proof (cases "sv_env v = ENV_ATTACK")
    case True
    define lin where "lin = (if sv_attack_n v \<noteq> 0 then sv_env_t v * 32767 sdiv sv_attack_n v else 32767)"
    obtain r where "amp_to_cb g (127 * lin sdiv 32767) = Some r" "r \<le> 1440" using amp_to_cb_ok [OF assms(1)] by blast
    then show ?thesis using True by (simp add: release_cb_def lin_def [symmetric])
  qed (use assms(2,3) in \<open>simp add: release_cb_def sf_env_ok_def\<close>)
  then obtain cb where cb: "release_cb g v = Some cb" "0 \<le> cb" "cb \<le> 368640" by blast
  have n: "1 \<le> rel_step_of (sv_release_n v) \<and> rel_step_of (sv_release_n v) \<le> 256000"
    using assms(2) by (intro rel_step_of_range) (simp add: sf_env_ok_def)
  show ?thesis
  proof (cases "sv_released v")
    case True
    then show ?thesis using assms(2,3) by (simp add: release_voice_def sf_env_ok_def)
  next
    case False
    then show ?thesis using assms(2,3) cb n
      by (cases "sv_env v = ENV_DELAY") (auto simp: release_voice_def sf_env_ok_def rel_part_def)
  qed
qed

text \<open>A voice in its release is over when its level has come to 960 centibels, after so many blocks.\<close>

definition sf_ends_in :: "nat \<Rightarrow> sf_voice \<Rightarrow> bool" where
  "sf_ends_in n v = (sv_active v \<longrightarrow> sv_env v = ENV_RELEASE \<and> 0 < n \<and> 245760 \<le> sv_env_cb v + 32 * sv_rel_step v * int n)"

lemma env_gain_keeps:
  "env_gain g v lin = Some v' \<Longrightarrow> sv_env v' = sv_env v \<and> sv_env_cb v' = sv_env_cb v \<and> sv_rel_step v' = sv_rel_step v"
  by (cases "at g (max 0 (level_cb v))") (auto simp: env_gain_def Let_def split: if_splits)

lemma release_block:
  assumes "sv_env v = ENV_RELEASE" "envelope g v = Some v'"
  shows "if 245760 \<le> sv_env_cb v + sv_rel_step v * 32 then \<not> sv_active v'
    else sv_env v' = ENV_RELEASE \<and> sv_env_cb v' = sv_env_cb v + sv_rel_step v * 32 \<and> sv_rel_step v' = sv_rel_step v"
proof (cases "245760 \<le> sv_env_cb v + sv_rel_step v * 32")
  case True
  then show ?thesis using assms by (auto simp: envelope_def env_stage_def env_release_def BLOCK_def)
next
  case False
  then have "env_stage v = Inr (v\<lparr>sv_env_cb := sv_env_cb v + sv_rel_step v * 32\<rparr>, 32767)"
    by (simp add: env_stage_def assms(1) env_release_def BLOCK_def)
  then have "env_gain g (v\<lparr>sv_env_cb := sv_env_cb v + sv_rel_step v * 32, sv_env_t := i32 (sv_env_t v + 32)\<rparr>) 32767 = Some v'"
    using assms(2) by (simp add: envelope_def BLOCK_def)
  from env_gain_keeps [OF this] show ?thesis using False assms(1) by simp
qed

lemma release_step:
  assumes "sv_active v" "sf_ends_in (Suc n) v" "envelope g v = Some v'"
  shows "sf_ends_in n v'"
proof -
  have "sv_env v = ENV_RELEASE" using assms(1,2) by (simp add: sf_ends_in_def)
  from release_block [OF this assms(3)] assms(1,2) show ?thesis
    by (cases n) (auto simp: sf_ends_in_def algebra_simps split: if_splits)
qed

lemma sf_ends_in_0: "sf_ends_in 0 v \<Longrightarrow> \<not> sv_active v"
  by (simp add: sf_ends_in_def)

lemma mixed_ends: "mixed v v' \<Longrightarrow> sf_ends_in n v \<Longrightarrow> sf_ends_in n v'"
  by (auto simp: mixed_def sf_ends_in_def)

lemma mixed_env_ok:
  assumes "mixed v v'" "sf_env_ok v"
  shows "sf_env_ok v'"
proof -
  obtain on p f where "v' = v\<lparr>sv_active := sv_active v \<and> on, sv_pos := p, sv_frac := f\<rparr>" using assms(1) by (auto simp: mixed_def)
  then show ?thesis using assms(2) by (cases "sv_active v"; cases on) (simp_all add: sf_env_ok_def)
qed

end
