(* ===== verification/SfOrder.thy ===== *)
theory SfOrder
  imports SfNotes SfVoice
begin

text \<open>
  The state of the SoundFont engine stays in order: every active voice plays within the samples of the file, with an envelope and
  a gain in range. The events that visit all voices are instances of one locale.
\<close>

section \<open>The invariant\<close>

definition sf_voice_ok :: "sf_voice \<Rightarrow> bool" where
  "sf_voice_ok v = (sv_active v \<longrightarrow> sf_data_ok v \<and> sf_env_ok v \<and> sv_chan v < 16)"

definition sf_base :: "sf \<Rightarrow> bool" where
  "sf_base s = (length (sf_chans s) = 16 \<and> cb_ok (gain_of s))"

definition bank_ready :: "sf_bank \<Rightarrow> bool" where
  "bank_ready bk = (bank_ok bk \<and> smooth (bank_samples bk) \<and> bk_nsmpl bk \<le> length (bank_samples bk) \<and> length (bank_samples bk) < 2147483648)"

definition sf_ok :: "sf \<Rightarrow> bool" where
  "sf_ok s = (sf_base s \<and> length (sf_voices s) = 128 \<and> (\<forall>v\<in>set (sf_voices s). sf_voice_ok v \<and> sv_age v \<le> sf_age s)
     \<and> (bk_phdr (sf_bank s) \<noteq> None \<longrightarrow> bank_ready (sf_bank s)))"

text \<open>Ages for \<open>n\<close> more voices, before the counter wraps.\<close>

definition sf_room :: "nat \<Rightarrow> sf \<Rightarrow> bool" where
  "sf_room n s = (sf_age s + n < two32 - 1)"

text \<open>What every operation leaves alone.\<close>

definition same_font :: "sf \<Rightarrow> sf \<Rightarrow> bool" where
  "same_font s s' = (sf_bank s' = sf_bank s \<and> sf_float s' = sf_float s \<and> sf_limit s' = sf_limit s)"

lemma same_font_refl [simp]: "same_font s s"
  by (simp add: same_font_def)

lemma same_font_trans: "same_font s t \<Longrightarrow> same_font t u \<Longrightarrow> same_font s u"
  by (simp add: same_font_def)

section \<open>The choice of a voice\<close>

lemma quietest_in: "fst (quietest vs) = Some b \<Longrightarrow> b < length vs \<and> sv_released (vs ! b)"
proof -
  have "case fst (fold (\<lambda>i (best, best_cb). if sv_released (vs ! i) \<and> sv_env_cb (vs ! i) > best_cb
      then (Some i, sv_env_cb (vs ! i)) else (best, best_cb)) [0..<n] (None, - 1)) of None \<Rightarrow> True | Some b \<Rightarrow> b < n \<and> sv_released (vs ! b)" for n
    by (induction n) (auto split: option.splits prod.splits if_splits)
  from this [of "length vs"] show "fst (quietest vs) = Some b \<Longrightarrow> b < length vs \<and> sv_released (vs ! b)"
    by (auto simp: quietest_def)
qed

text \<open>The first of the voices with the smallest age.\<close>

definition oldest_of :: "sf_voice list \<Rightarrow> nat \<Rightarrow> nat option \<times> nat" where
  "oldest_of vs n = fold (\<lambda>i (best, best_age). if sv_age (vs ! i) < best_age then (Some i, sv_age (vs ! i)) else (best, best_age))
     [0..<n] (None, two32 - 1)"

lemma oldest_of_Suc:
  "oldest_of vs (Suc n) = (if sv_age (vs ! n) < snd (oldest_of vs n) then (Some n, sv_age (vs ! n)) else oldest_of vs n)"
  by (simp add: oldest_of_def split: prod.split)

lemma oldest_of_le: "snd (oldest_of vs n) \<le> two32 - 1 \<and> (\<forall>i<n. snd (oldest_of vs n) \<le> sv_age (vs ! i))
    \<and> (case fst (oldest_of vs n) of None \<Rightarrow> snd (oldest_of vs n) = two32 - 1 | Some b \<Rightarrow> b < n \<and> sv_age (vs ! b) = snd (oldest_of vs n))"
proof (induction n)
  case 0
  then show ?case by (simp add: oldest_of_def)
next
  case (Suc n)
  show ?case
  proof (cases "sv_age (vs ! n) < snd (oldest_of vs n)")
    case True
    then show ?thesis using Suc by (auto simp: oldest_of_Suc less_Suc_eq)
  next
    case False
    then show ?thesis using Suc by (auto simp: oldest_of_Suc less_Suc_eq split: option.splits)
  qed
qed

lemma oldest_is:
  assumes "i < length vs" "sv_age (vs ! i) < two32 - 1"
  shows "\<exists>b. fst (oldest vs) = Some b \<and> b < length vs \<and> (\<forall>j<length vs. sv_age (vs ! b) \<le> sv_age (vs ! j))"
proof -
  have o: "oldest vs = oldest_of vs (length vs)" by (simp add: oldest_def oldest_of_def)
  note l = oldest_of_le [of vs "length vs"]
  have "snd (oldest_of vs (length vs)) < two32 - 1" using l assms by (meson le_less_trans)
  then show ?thesis using l by (auto simp: o split: option.splits)
qed

lemma first_free_in: "first_free vs = Some b \<Longrightarrow> b < length vs \<and> \<not> sv_active (vs ! b)"
  by (auto simp: first_free_def find_Some_iff)

lemma alloc_sf_ok:
  assumes "i < length (sf_voices s)" "sv_age (sf_voices s ! i) < two32 - 1"
  shows "\<exists>b. alloc_sf_voice s = Some b \<and> b < length (sf_voices s)"
  using oldest_is [OF assms] first_free_in [of "sf_voices s"] quietest_in [of "sf_voices s"] by (auto simp: alloc_sf_voice_def)

section \<open>Starting a voice\<close>

lemma table_word:
  assumes "table_in bk p n width" "i < n"
  shows "\<exists>a. ptr_off p (i * width) = Some (int a) \<and> a + width \<le> length (bk_file bk)"
proof -
  obtain a where a: "p = Some a" "a + n * width \<le> length (bk_file bk)" using assms(1) by (auto simp: table_in_def)
  have "Suc i * width \<le> n * width" using assms(2) by (intro mult_le_mono1) simp
  then show ?thesis using a by (intro exI [of _ "a + i * width"]) (simp add: ptr_off_def)
qed

definition sample_ok :: "sf_bank \<Rightarrow> sf_sample \<Rightarrow> bool" where
  "sample_ok bk x = (ss_end x \<le> bk_nsmpl bk)"

lemma read_sample_ok:
  assumes "bank_ok bk" "nat (g ! 53) < bk_nshdr bk"
  shows "\<exists>r. read_sample bk g = Some r \<and> (\<forall>x. r = Some x \<longrightarrow> sample_ok bk x)"
proof -
  have "table_in bk (bk_shdr bk) (bk_nshdr bk) 46" using assms(1) by (simp add: bank_ok_def)
  from table_word [OF this assms(2)] obtain a where
    a: "ptr_off (bk_shdr bk) (nat (g ! 53) * 46) = Some (int a)" "a + 46 \<le> length (bk_file bk)" by blast
  have w: "sf32 (bk_file bk) (int a + k) = Some (ufs_le32 (bk_file bk) (a + nat k))" if "0 \<le> k" "k \<le> 42" for k
    using that a(2) by (simp add: sf32_def nat_add_distrib)
  have h: "sf16 (bk_file bk) (int a + 44) = Some (ufs_le16 (bk_file bk) (a + 44))"
    using a(2) by (simp add: sf16_def nat_add_distrib)
  have b: "at (bk_file bk) (int a + k) = Some (bk_file bk ! (a + nat k))" if "0 \<le> k" "k \<le> 45" for k
    using that a(2) by (simp add: at_Some nat_add_distrib)
  show ?thesis by (simp add: read_sample_def a(1) w h b sample_ok_def)
qed

lemma tc_samples_ok: "tc_ok (tc_samples fl tc)"
  by (simp add: tc_ok_def tc_samples_def)

lemma clamp_range: "lo \<le> hi \<Longrightarrow> lo \<le> clamp lo hi x \<and> clamp lo hi x \<le> hi"
  by (simp add: clamp_def)

lemma loop_mode_range: "loop_mode_of m x \<noteq> 0 \<Longrightarrow> ss_loop_start x < ss_loop_end x \<and> ss_loop_end x \<le> ss_end x"
  by (auto simp: loop_mode_of_def Let_def split: if_splits)

lemma new_voice_ok:
  assumes "bank_ready bk" "sample_ok bk x" "ss_start x < ss_end x" "ch < 16" "step < two32"
  shows "sf_voice_ok ((new_sf_voice fl (bank_samples bk) ch key vel age g x cb pan)\<lparr>sv_step := step\<rparr>)"
proof -
  have e: "ss_end x \<le> length (bank_samples bk)" "length (bank_samples bk) < 2147483648" "smooth (bank_samples bk)"
    using assms(1,2) by (simp_all add: bank_ready_def sample_ok_def)
  let ?v = "(new_sf_voice fl (bank_samples bk) ch key vel age g x cb pan)\<lparr>sv_step := step\<rparr>"
  have "sf_data_ok ?v" using e assms(3,5) loop_mode_range [of "g ! 54" x]
    by (auto simp: sf_data_ok_def sf_range_ok_def pos_ok_def new_sf_voice_def Let_def sf_voice_zero_def)
  moreover have "sf_env_ok ?v" using clamp_range [of 0 1440 "g ! 37"] clamp_range [of "- 500" 500 "g ! 17 + (int pan - 64) * 1000 sdiv 127"]
    by (simp add: sf_env_ok_def new_sf_voice_def Let_def sf_voice_zero_def tc_samples_ok)
  moreover have "sv_chan ?v < 16" using assms(4) by (simp add: new_sf_voice_def Let_def)
  ultimately show ?thesis by (simp add: sf_voice_ok_def)
qed

lemma chan_cb_ok: "sf_base s \<Longrightarrow> ch < 16 \<Longrightarrow> \<exists>r. chan_cb s ch = Some r"
proof -
  assume s: "sf_base s" "ch < 16"
  obtain a where "amp_to_cb (gain_of s) (int (sc_volume (sf_chans s ! ch))) = Some a" using amp_to_cb_ok s(1) unfolding sf_base_def by blast
  moreover obtain b where "amp_to_cb (gain_of s) (int (sc_expression (sf_chans s ! ch))) = Some b"
    using amp_to_cb_ok s(1) unfolding sf_base_def by blast
  ultimately show ?thesis using s by (simp add: chan_cb_def sf_base_def at_Some)
qed

lemma exclude_ok: "\<forall>v\<in>set vs. sf_voice_ok v \<and> sv_age v \<le> n \<Longrightarrow> \<forall>v\<in>set (exclude ch ex vs). sf_voice_ok v \<and> sv_age v \<le> n"
  by (auto simp: exclude_def sf_voice_ok_def)

lemma start_sf_voice_ok:
  assumes ok: "sf_ok s" and room: "sf_room 1 s" and ch: "ch < 16" and font: "bk_phdr (sf_bank s) \<noteq> None"
  shows "\<exists>s'. start_sf_voice ch key vel g s = Some s' \<and> sf_ok s' \<and> sf_age s' \<le> sf_age s + 1 \<and> same_font s s'"
proof (cases "g ! 53 < 0 \<or> g ! 53 \<ge> int (bk_nshdr (sf_bank s)) - 1")
  case True
  then show ?thesis using ok by (simp add: start_sf_voice_def)
next
  case False
  have rd: "bank_ready (sf_bank s)" using ok font by (simp add: sf_ok_def)
  have "nat (g ! 53) < bk_nshdr (sf_bank s)" using False by linarith
  then obtain r where r: "read_sample (sf_bank s) g = Some r" "\<forall>x. r = Some x \<longrightarrow> sample_ok (sf_bank s) x"
    using read_sample_ok [of "sf_bank s" g] rd by (auto simp: bank_ready_def)
  show ?thesis
  proof (cases "\<exists>x. r = Some x \<and> ss_start x < ss_end x")
    case none: False
    have "start_sf_voice ch key vel g s = Some s"
    proof (cases r)
      case None
      then show ?thesis using False r(1) by (simp add: start_sf_voice_def)
    next
      case (Some x)
      then show ?thesis using False r(1) none by (simp add: start_sf_voice_def)
    qed
    then show ?thesis using ok by simp
  next
    case True
    then obtain x where x: "r = Some x" "ss_start x < ss_end x" by blast
    define s1 where "s1 = (if g ! 57 \<noteq> 0 then s\<lparr>sf_voices := exclude ch (g ! 57) (sf_voices s)\<rparr> else s)"
    have s1: "sf_base s1" "length (sf_voices s1) = 128" "\<forall>v\<in>set (sf_voices s1). sf_voice_ok v \<and> sv_age v \<le> sf_age s"
      "sf_age s1 = sf_age s" "sf_chans s1 = sf_chans s" "same_font s s1"
    proof -
      have vs: "\<forall>v\<in>set (sf_voices s). sf_voice_ok v \<and> sv_age v \<le> sf_age s" using ok by (simp add: sf_ok_def)
      show "\<forall>v\<in>set (sf_voices s1). sf_voice_ok v \<and> sv_age v \<le> sf_age s"
      proof (cases "g ! 57 = 0")
        case True
        then have "sf_voices s1 = sf_voices s" by (simp add: s1_def)
        then show ?thesis using vs by argo
      next
        case False
        then have "sf_voices s1 = exclude ch (g ! 57) (sf_voices s)" by (simp add: s1_def)
        then show ?thesis using exclude_ok [OF vs, of ch "g ! 57"] by argo
      qed
      show "sf_base s1" "length (sf_voices s1) = 128" "sf_age s1 = sf_age s" "sf_chans s1 = sf_chans s" "same_font s s1"
        using ok by (simp_all add: s1_def sf_ok_def sf_base_def same_font_def exclude_def)
    qed
    have "sf_voices s1 ! 0 \<in> set (sf_voices s1)" using s1(2) by (intro nth_mem) simp
    then have "sv_age (sf_voices s1 ! 0) \<le> sf_age s" using s1(3) by blast
    then have "sv_age (sf_voices s1 ! 0) < two32 - 1" using room by (simp add: sf_room_def)
    then obtain b where b: "alloc_sf_voice s1 = Some b" "b < 128" using alloc_sf_ok [of 0 s1] s1(2) by auto
    define s2 where "s2 = s1\<lparr>sf_age := add32 (sf_age s1) 1\<rparr>"
    have age: "sf_age s2 = sf_age s + 1" using room s1(4) by (simp add: s2_def sf_room_def add32_id)
    have s2: "sf_base s2" "sf_chans s2 = sf_chans s" "same_font s s2" "sf_voices s2 = sf_voices s1"
      using s1 by (simp_all add: s2_def sf_base_def same_font_def)
    have l16: "length (sf_chans s) = 16" using ok by (simp add: sf_ok_def sf_base_def)
    have c: "at (sf_chans s2) (int ch) = Some (sf_chans s ! ch)" using ch l16 s2(2) by (simp add: at_Some)
    obtain vcb where vcb: "amp_to_cb (gain_of s2) (if g ! 47 \<ge> 0 then g ! 47 else int vel) = Some vcb"
      using amp_to_cb_ok s2(1) unfolding sf_base_def by blast
    obtain ccb where ccb: "chan_cb s2 ch = Some ccb" using chan_cb_ok [OF s2(1) ch] by blast
    let ?v = "new_sf_voice (sf_float s2) (bank_samples (sf_bank s2)) ch key vel (sf_age s2) g x (int vcb + int ccb) (sc_pan (sf_chans s ! ch))"
    have vc: "sv_chan ?v = ch" "sv_age ?v = sf_age s2" by (simp_all add: new_sf_voice_def Let_def)
    then obtain step where st: "update_step s2 ?v = Some (?v\<lparr>sv_step := step\<rparr>)" "step < two32"
      using c by (simp add: update_step_def)
    have "start_sf_voice ch key vel g s = Some (set_sf_voice b (?v\<lparr>sv_step := step\<rparr>) s2)"
    proof -
      have "\<not> ss_end x \<le> ss_start x" using x(2) by simp
      then show ?thesis
        unfolding start_sf_voice_def if_not_P [OF False] r(1) x(1) Option.bind.bind_lunit option.case Let_def s1_def [symmetric] b(1) s2_def [symmetric]
          c vcb ccb st(1) by (simp only: if_False)
    qed
    moreover have "sf_voice_ok (?v\<lparr>sv_step := step\<rparr>)"
      using s2(3) new_voice_ok [OF rd _ x(2) ch st(2)] r(2) x(1) by (simp add: same_font_def)
    then have "sf_ok (set_sf_voice b (?v\<lparr>sv_step := step\<rparr>) s2)"
      using s2 s1(2,3) vc(2) age rd
      by (auto simp: sf_ok_def set_sf_voice_def sf_base_def same_font_def dest!: subsetD [OF set_update_subset_insert])
    moreover have "same_font s (set_sf_voice b (?v\<lparr>sv_step := step\<rparr>) s2)" using s2(3) by (simp add: same_font_def set_sf_voice_def)
    ultimately show ?thesis using age by (simp add: set_sf_voice_def)
  qed
qed

section \<open>Notes\<close>

lemma start_all_ok:
  "sf_ok s \<Longrightarrow> sf_room (length gs) s \<Longrightarrow> ch < 16 \<Longrightarrow> bk_phdr (sf_bank s) \<noteq> None \<Longrightarrow>
    \<exists>s'. start_all ch key vel gs s = Some s' \<and> sf_ok s' \<and> sf_age s' \<le> sf_age s + length gs \<and> same_font s s'"
proof (induction gs arbitrary: s)
  case (Cons g gs)
  have "sf_room 1 s" using Cons.prems(2) by (simp add: sf_room_def)
  from start_sf_voice_ok [OF Cons.prems(1) this Cons.prems(3,4), of key vel g] obtain s1 where
    1: "start_sf_voice ch key vel g s = Some s1" "sf_ok s1" "sf_age s1 \<le> sf_age s + 1" "same_font s s1" by blast
  have "sf_room (length gs) s1" "bk_phdr (sf_bank s1) \<noteq> None" using Cons.prems(2,4) 1(3,4) by (simp_all add: sf_room_def same_font_def)
  from Cons.IH [OF 1(2) this(1) Cons.prems(3) this(2)] obtain s2 where
    2: "start_all ch key vel gs s1 = Some s2" "sf_ok s2" "sf_age s2 \<le> sf_age s1 + length gs" "same_font s1 s2" by blast
  have "same_font s s2" by (rule same_font_trans [OF 1(4) 2(4)])
  then show ?case using 1(1,3) 2(1-3) by simp
qed simp

lemma find_from_ok:
  assumes "table_in bk (bk_phdr bk) n 38"
  shows "\<forall>i\<in>set is. i < n \<Longrightarrow> \<exists>r. find_from bk bank prog is = Some r
    \<and> r = List.find (\<lambda>i. word16 bk (bk_phdr bk) (i * 38 + 20) = prog \<and> word16 bk (bk_phdr bk) (i * 38 + 22) = bank) is"
proof (induction "is")
  case (Cons i "is")
  then show ?case using table16 [OF assms, of i 20] table16 [OF assms, of i 22] by auto
qed simp

definition preset_at :: "sf_bank \<Rightarrow> nat \<Rightarrow> nat \<Rightarrow> nat option" where
  "preset_at bk bank prog = List.find (\<lambda>i. word16 bk (bk_phdr bk) (i * 38 + 20) = prog \<and> word16 bk (bk_phdr bk) (i * 38 + 22) = bank)
     [0..<bk_nphdr bk - 1]"

lemma find_preset_eq: "bank_ok bk \<Longrightarrow> find_preset bk bank prog = Some (preset_at bk bank prog)"
proof -
  assume "bank_ok bk"
  then have t: "table_in bk (bk_phdr bk) (bk_nphdr bk) 38" by (simp add: bank_ok_def heads_ok_def)
  have "\<forall>i\<in>set [0..<bk_nphdr bk - 1]. i < bk_nphdr bk" by auto
  from find_from_ok [OF t this] show ?thesis by (simp add: find_preset_def preset_at_def)
qed

lemma preset_at_less: "preset_at bk bank prog = Some p \<Longrightarrow> p + 1 < bk_nphdr bk"
  by (auto simp: preset_at_def find_Some_iff)

text \<open>The preset of a note: of its bank and program, of its program in bank 0 (of channel 9 the first drum kit), the first.\<close>

definition note_preset :: "sf_bank \<Rightarrow> nat \<Rightarrow> sf_chan \<Rightarrow> nat option" where
  "note_preset bk ch c =
     (case preset_at bk (if ch = 9 then 128 else sc_bank c) (sc_program c) of
        Some p \<Rightarrow> Some p
      | None \<Rightarrow> (case preset_at bk (if ch = 9 then 128 else 0) (if ch = 9 then 0 else sc_program c) of
          Some p \<Rightarrow> Some p
        | None \<Rightarrow> preset_at bk 0 0))"

lemma note_preset_less: "note_preset bk ch c = Some p \<Longrightarrow> p + 1 < bk_nphdr bk"
  by (auto simp: note_preset_def dest: preset_at_less split: option.splits)

definition note_list :: "sf_bank \<Rightarrow> nat \<Rightarrow> sf_chan \<Rightarrow> nat \<Rightarrow> nat \<Rightarrow> int list list" where
  "note_list bk ch c key vel = (case note_preset bk ch c of None \<Rightarrow> [] | Some p \<Rightarrow> note_gens bk p key vel)"

lemma sf_note_on_eq:
  assumes "length (sf_chans s) = 16" "bank_ok (sf_bank s)" "bk_phdr (sf_bank s) \<noteq> None" "ch < 16"
  shows "sf_note_on ch key vel s = start_all ch key vel (note_list (sf_bank s) ch (sf_chans s ! ch) key vel) s"
proof -
  let ?c = "sf_chans s ! ch" and ?bk = "sf_bank s"
  let ?p0 = "preset_at ?bk (if ch = 9 then 128 else sc_bank ?c) (sc_program ?c)"
  let ?p1 = "if ?p0 = None then preset_at ?bk (if ch = 9 then 128 else 0) (if ch = 9 then 0 else sc_program ?c) else ?p0"
  let ?p2 = "if ?p1 = None then preset_at ?bk 0 0 else ?p1"
  have p: "note_preset ?bk ch ?c = ?p2" by (auto simp: note_preset_def split: option.splits)
  have "sf_note_on ch key vel s = (case ?p2 of None \<Rightarrow> Some s | Some p \<Rightarrow> play_zones ch key vel p s)"
    using assms(1,3,4) by (auto simp: sf_note_on_def at_Some find_preset_eq [OF assms(2)])
  then show ?thesis
    unfolding note_list_def p [symmetric]
    using play_zones_eq [OF assms(2) note_preset_less] by (cases "note_preset ?bk ch ?c") simp_all
qed

text \<open>No note of the font starts more than \<open>z\<close> voices.\<close>

definition zones_at_most :: "nat \<Rightarrow> sf_bank \<Rightarrow> bool" where
  "zones_at_most z bk = (\<forall>p key vel. p + 1 < bk_nphdr bk \<longrightarrow> length (note_gens bk p key vel) \<le> z)"

lemma sf_note_on_ok:
  assumes "sf_ok s" "sf_room z s" "zones_at_most z (sf_bank s)" "ch < 16"
  shows "\<exists>s'. sf_note_on ch key vel s = Some s' \<and> sf_ok s' \<and> sf_age s' \<le> sf_age s + z \<and> same_font s s'"
proof (cases "bk_phdr (sf_bank s)")
  case None
  then show ?thesis using assms(1,4) by (simp add: sf_note_on_def at_Some sf_ok_def sf_base_def)
next
  case (Some a)
  then have b: "bank_ok (sf_bank s)" "length (sf_chans s) = 16" "bk_phdr (sf_bank s) \<noteq> None"
    using assms(1) by (simp_all add: sf_ok_def bank_ready_def sf_base_def)
  let ?l = "note_list (sf_bank s) ch (sf_chans s ! ch) key vel"
  have l: "length ?l \<le> z"
    using assms(3) note_preset_less [of "sf_bank s" ch "sf_chans s ! ch"] by (auto simp: note_list_def zones_at_most_def split: option.splits)
  have "sf_room (length ?l) s" using assms(2) l by (simp add: sf_room_def)
  from start_all_ok [OF assms(1) this assms(4) b(3), of key vel] show ?thesis
    using l unfolding sf_note_on_eq [OF b(2,1,3) assms(4)] by (meson add_left_mono le_trans)
qed

section \<open>Events that visit every voice\<close>

locale sf_pass =
  fixes s :: sf and f :: "sf_voice \<Rightarrow> sf_voice option"
  assumes one: "sf_base s \<Longrightarrow> sf_voice_ok v \<Longrightarrow> \<exists>v'. f v = Some v' \<and> sf_voice_ok v' \<and> sv_age v' = sv_age v"
begin

lemma pass:
  "sf_base s \<Longrightarrow> \<forall>v\<in>set vs. sf_voice_ok v \<and> sv_age v \<le> n \<Longrightarrow>
    \<exists>vs'. map_voices f vs = Some vs' \<and> length vs' = length vs \<and> (\<forall>v\<in>set vs'. sf_voice_ok v \<and> sv_age v \<le> n)
      \<and> (\<forall>i<length vs. f (vs ! i) = Some (vs' ! i))"
proof (induction vs)
  case (Cons v vs)
  obtain v' where v': "f v = Some v'" "sf_voice_ok v'" "sv_age v' = sv_age v" using one Cons.prems by auto
  obtain vs' where vs': "map_voices f vs = Some vs'" "length vs' = length vs" "\<forall>v\<in>set vs'. sf_voice_ok v \<and> sv_age v \<le> n"
    "\<forall>i<length vs. f (vs ! i) = Some (vs' ! i)" using Cons by auto
  have "\<forall>i<length (v # vs). f ((v # vs) ! i) = Some ((v' # vs') ! i)" using v'(1) vs'(4) by (auto simp: less_Suc_eq_0_disj)
  then show ?case using v' vs' Cons.prems(2) by auto
qed simp

lemma event:
  assumes "sf_ok t" "gain_of t = gain_of s" "sf_chans t = sf_chans s"
  shows "\<exists>t'. all_voices f t = Some t' \<and> sf_ok t' \<and> sf_age t' = sf_age t \<and> same_font t t'
    \<and> (\<forall>i<128. f (sf_voices t ! i) = Some (sf_voices t' ! i))"
proof -
  have b: "sf_base s" "\<forall>v\<in>set (sf_voices t). sf_voice_ok v \<and> sv_age v \<le> sf_age t" "length (sf_voices t) = 128"
    using assms by (simp_all add: sf_ok_def sf_base_def)
  from pass [OF b(1,2)] obtain vs where vs: "map_voices f (sf_voices t) = Some vs" "length vs = 128"
    "\<forall>v\<in>set vs. sf_voice_ok v \<and> sv_age v \<le> sf_age t" "\<forall>i<128. f (sf_voices t ! i) = Some (vs ! i)"
    using b(3) by auto
  then show ?thesis using assms(1) by (simp add: all_voices_def sf_ok_def sf_base_def same_font_def)
qed

end

lemma release_ok:
  assumes "sf_base s" "sf_voice_ok v" "sv_active v"
  shows "\<exists>v'. release_voice (gain_of s) v = Some v' \<and> sf_voice_ok v' \<and> sv_age v' = sv_age v \<and> sv_chan v' = sv_chan v
    \<and> (sv_active v' \<longrightarrow> sv_env v' = ENV_RELEASE)"
proof -
  have v: "sf_data_ok v" "sf_env_ok v" "sv_chan v < 16" using assms(2,3) by (simp_all add: sf_voice_ok_def)
  obtain v' where v': "release_voice (gain_of s) v = Some v'" "sf_env_ok v'" "rel_part v' = rel_part v" "sv_active v' \<longrightarrow> sv_env v' = ENV_RELEASE"
    using release_voice_ok [of "gain_of s" v] v(2) assms(1,3) by (auto simp: sf_base_def)
  have eq: "sf_data_ok (rel_part w) = sf_data_ok w" "sv_age (rel_part w) = sv_age w" "sv_chan (rel_part w) = sv_chan w" for w
    by (simp_all add: rel_part_def sf_data_ok_def sf_range_ok_def)
  have "sf_data_ok v' \<and> sv_age v' = sv_age v \<and> sv_chan v' = sv_chan v" using v(1) eq v'(3) by metis
  then show ?thesis using v'(1,2,4) v(3) by (simp add: sf_voice_ok_def)
qed

lemma sf_voice_ok_upd [simp]:
  "sf_voice_ok (v\<lparr>sv_sustained := b\<rparr>) = sf_voice_ok v" "sf_voice_ok (v\<lparr>sv_base_cb := x\<rparr>) = sf_voice_ok v"
  "n < two32 \<Longrightarrow> sf_voice_ok v \<Longrightarrow> sf_voice_ok (v\<lparr>sv_step := n\<rparr>)" "sf_voice_ok (v\<lparr>sv_active := False\<rparr>)"
  by (simp_all add: sf_voice_ok_def sf_data_ok_def sf_range_ok_def sf_env_ok_def)

interpretation note_off: sf_pass s "note_off_op (gain_of s) ch key sustain" for s ch key sustain
proof
  fix v assume v: "sf_base s" "sf_voice_ok v"
  show "\<exists>v'. note_off_op (gain_of s) ch key sustain v = Some v' \<and> sf_voice_ok v' \<and> sv_age v' = sv_age v"
  proof (cases "sv_active v \<and> sv_chan v = ch \<and> sv_key v = key \<and> \<not> sv_released v \<and> \<not> sustain")
    case True
    then show ?thesis using release_ok [OF v] by (auto simp: note_off_op_def)
  next
    case False
    then show ?thesis using v(2) by (cases sustain) (auto simp: note_off_op_def)
  qed
qed

interpretation volume: sf_pass s "volume_op ch d" for s ch d
  by unfold_locales (simp add: volume_op_def)

interpretation pedal: sf_pass s "pedal_op (gain_of s) ch" for s ch
proof
  fix v assume v: "sf_base s" "sf_voice_ok v"
  then have "sf_voice_ok (v\<lparr>sv_sustained := False\<rparr>)" by simp
  from release_ok [OF v(1) this] show "\<exists>v'. pedal_op (gain_of s) ch v = Some v' \<and> sf_voice_ok v' \<and> sv_age v' = sv_age v"
    using v(2) by (cases "sv_active v \<and> sv_chan v = ch \<and> sv_sustained v") (auto simp: pedal_op_def)
qed

interpretation cut: sf_pass s "cut_op ch" for s ch
  by unfold_locales (simp add: cut_op_def)

interpretation notes_off: sf_pass s "notes_off_op (gain_of s) ch" for s ch
proof
  fix v assume v: "sf_base s" "sf_voice_ok v"
  show "\<exists>v'. notes_off_op (gain_of s) ch v = Some v' \<and> sf_voice_ok v' \<and> sv_age v' = sv_age v"
    using v release_ok [OF v] by (cases "sv_active v \<and> sv_chan v = ch") (auto simp: notes_off_op_def)
qed

interpretation bend: sf_pass s "bend_op s ch" for s ch
proof
  fix v assume v: "sf_base s" "sf_voice_ok v"
  show "\<exists>v'. bend_op s ch v = Some v' \<and> sf_voice_ok v' \<and> sv_age v' = sv_age v"
  proof (cases "sv_active v \<and> sv_chan v = ch")
    case True
    then have "sv_chan v < length (sf_chans s)" using v by (simp add: sf_voice_ok_def sf_base_def)
    then show ?thesis using True v(2) by (simp add: bend_op_def update_step_def at_Some)
  qed (use v(2) in \<open>auto simp: bend_op_def\<close>)
qed

section \<open>Controllers\<close>

definition sf_event_ok :: "nat \<Rightarrow> sf \<Rightarrow> sf option \<Rightarrow> bool" where
  "sf_event_ok n s r = (\<exists>s'. r = Some s' \<and> sf_ok s' \<and> sf_age s' \<le> sf_age s + n \<and> same_font s s')"

lemma set_sf_chan_ok: "sf_ok s \<Longrightarrow> sf_ok (set_sf_chan ch f s) \<and> sf_age (set_sf_chan ch f s) = sf_age s \<and> same_font s (set_sf_chan ch f s)"
  by (simp add: set_sf_chan_def sf_ok_def sf_base_def same_font_def)

lemma pass_event_ok:
  assumes "\<exists>t'. all_voices f t = Some t' \<and> sf_ok t' \<and> sf_age t' = sf_age t \<and> same_font t t' \<and> Q t'"
    and "sf_age t = sf_age s" "same_font s t"
  shows "sf_event_ok n s (all_voices f t)"
  using assms same_font_trans [of s t] by (auto simp: sf_event_ok_def)

lemma sf_note_off_ok:
  assumes "sf_ok s" "ch < 16"
  shows "sf_event_ok n s (sf_note_off ch key s)"
proof -
  have "at (sf_chans s) (int ch) = Some (sf_chans s ! ch)" using assms by (simp add: at_Some sf_ok_def sf_base_def)
  then show ?thesis using pass_event_ok [OF note_off.event [OF assms(1) refl refl]] by (simp add: sf_note_off_def)
qed

lemma sf_bend_ok:
  assumes "sf_ok s"
  shows "sf_event_ok n s (sf_bend ch val s)"
proof -
  note c = set_sf_chan_ok [OF assms, of ch "\<lambda>c. c\<lparr>sc_bend := val\<rparr>"]
  then show ?thesis
    unfolding sf_bend_def Let_def by (intro pass_event_ok [OF bend.event]) simp_all
qed

lemma sf_control_ok:
  assumes "sf_ok s" "ch < 16"
  shows "sf_event_ok n s (sf_control ch cc val s)"
proof -
  have base: "sf_base s" using assms(1) by (simp add: sf_ok_def)
  obtain old where old: "chan_cb s ch = Some old" using chan_cb_ok [OF base assms(2)] by blast
  have set: "sf_event_ok n s (Some (set_sf_chan ch f s))" for f
    using set_sf_chan_ok [OF assms(1)] by (simp add: sf_event_ok_def)
  have 7: "sf_event_ok n s (Option.bind (chan_cb (set_sf_chan ch f s) ch) (\<lambda>new. all_voices (volume_op ch (int new - int old)) (set_sf_chan ch f s)))" for f
  proof -
    note c = set_sf_chan_ok [OF assms(1), of ch f]
    then have "sf_base (set_sf_chan ch f s)" by (simp add: sf_ok_def)
    then obtain new where "chan_cb (set_sf_chan ch f s) ch = Some new" using chan_cb_ok [OF _ assms(2)] by blast
    then show ?thesis using c pass_event_ok [OF volume.event [of _ "set_sf_chan ch f s"]] by simp
  qed
  have pedal: "sf_event_ok n s (all_voices (pedal_op (gain_of (set_sf_chan ch f s)) ch) (set_sf_chan ch f s))" for f
    using set_sf_chan_ok [OF assms(1), of ch f] by (intro pass_event_ok [OF pedal.event]) simp_all
  show ?thesis
    unfolding sf_control_def old Option.bind.bind_lunit Let_def
    using set 7 pedal pass_event_ok [OF cut.event [OF assms(1) refl refl]] pass_event_ok [OF notes_off.event [OF assms(1) refl refl]]
    by (auto simp: sf_event_ok_def [of n s "Some s"] assms(1))
qed

lemma voice_zero_ok: "sf_voice_ok sf_voice_zero" "sv_age sf_voice_zero = 0"
  by (simp_all add: sf_voice_ok_def sf_voice_zero_def)

lemma sf_reset_ok: "cb_ok (gain_of s) \<Longrightarrow> (bk_phdr (sf_bank s) \<noteq> None \<Longrightarrow> bank_ready (sf_bank s)) \<Longrightarrow>
    sf_ok (sf_reset s) \<and> sf_age (sf_reset s) = sf_age s \<and> same_font s (sf_reset s)"
  using voice_zero_ok by (simp add: sf_ok_def sf_base_def sf_reset_def SF_VOICES_def same_font_def)

end
