(* ===== verification/SfRender.thy ===== *)
theory SfRender
  imports SfOrder
begin

text \<open>
  Rendering with the SoundFont engine: no read outside of the samples, a bounded sum of the voices, and an end for every voice in
  its release.
\<close>

section \<open>One voice in one block\<close>

definition voice_block :: "cb_tab \<Rightarrow> sf_voice \<Rightarrow> mix_buf \<Rightarrow> (mix_buf \<times> sf_voice) option" where
  "voice_block g v buf =
     (if sv_active v
      then do {
        v1 \<leftarrow> envelope g v;
        if sv_active v1 \<and> sv_env v1 \<noteq> ENV_DELAY then mix_voice v1 buf else Some (buf, v1)
      } else Some (buf, v))"

lemma render_block_Cons:
  "render_block g (v # vs) buf = do { (buf1, v1) \<leftarrow> voice_block g v buf; (buf2, vs1) \<leftarrow> render_block g vs buf1; Some (buf2, v1 # vs1) }"
  by (simp add: voice_block_def)

lemma enveloped_keeps:
  assumes "enveloped v v'"
  shows "sf_data_ok v' = sf_data_ok v" "sv_age v' = sv_age v" "sv_chan v' = sv_chan v"
proof -
  have "sf_data_ok (env_part w) = sf_data_ok w" "sv_age (env_part w) = sv_age w" "sv_chan (env_part w) = sv_chan w" for w
    by (simp_all add: env_part_def sf_data_ok_def sf_range_ok_def)
  then show "sf_data_ok v' = sf_data_ok v" "sv_age v' = sv_age v" "sv_chan v' = sv_chan v"
    using assms unfolding enveloped_def by metis+
qed

lemma mixed_keeps: "mixed v v' \<Longrightarrow> sv_age v' = sv_age v \<and> sv_chan v' = sv_chan v"
  by (auto simp: mixed_def)

lemma voice_block_ok:
  assumes "cb_ok g" "sf_voice_ok v" "loud b buf" "b \<le> 2147470000" "length buf \<le> 63"
  shows "\<exists>out v'. voice_block g v buf = Some (out, v') \<and> length out = length buf \<and> loud (b + 11600) out
    \<and> sf_voice_ok v' \<and> sv_age v' = sv_age v \<and> (\<forall>n. sf_ends_in n v \<longrightarrow> sf_ends_in (n - 1) v')"
proof (cases "sv_active v")
  case False
  then show ?thesis using assms(2,3) loud_mono [of b buf "b + 11600"] by (simp add: voice_block_def sf_ends_in_def)
next
  case True
  then have v: "sf_data_ok v" "sf_env_ok v" "sv_chan v < 16" using assms(2) by (simp_all add: sf_voice_ok_def)
  obtain v1 where v1: "envelope g v = Some v1" "sf_env_ok v1" "gains_ok v1" "enveloped v v1" using envelope_ok [OF assms(1) v(2) True] by blast
  note k = enveloped_keeps [OF v1(4)]
  have e: "sf_ends_in n v \<Longrightarrow> sf_ends_in (n - 1) v1" for n
    using release_step [OF True _ v1(1)] sf_ends_in_0 [of v] True by (cases n) auto
  show ?thesis
  proof (cases "sv_active v1 \<and> sv_env v1 \<noteq> ENV_DELAY")
    case False
    then show ?thesis using True v1(1,2) v k e assms(3) loud_mono [of b buf "b + 11600"]
      by (auto simp: voice_block_def sf_voice_ok_def)
  next
    case m: True
    have "sf_data_ok v1" using k v(1) by simp
    from mix_voice_ok [OF this v1(3) assms(4,3,5)] obtain out v2 where
      v2: "mix_voice v1 buf = Some (out, v2)" "length out = length buf" "loud (b + 11600) out" "mixed v1 v2" by blast
    have "sf_voice_ok v2" using mixed_data_ok [OF v2(4)] mixed_env_ok [OF v2(4)] mixed_keeps [OF v2(4)] k v v1(2) by (simp add: sf_voice_ok_def)
    then show ?thesis using True m v1(1) v2 k e mixed_ends [OF v2(4)] mixed_keeps [OF v2(4)] by (simp add: voice_block_def)
  qed
qed

section \<open>All voices, all blocks\<close>

lemma render_block_ok:
  "cb_ok g \<Longrightarrow> \<forall>v\<in>set vs. sf_voice_ok v \<and> sv_age v \<le> a \<Longrightarrow> loud b buf \<Longrightarrow> b + 11600 * int (length vs) \<le> 2147481600
    \<Longrightarrow> length buf \<le> 63 \<Longrightarrow> \<exists>out vs'. render_block g vs buf = Some (out, vs') \<and> length out = length buf
      \<and> loud (b + 11600 * int (length vs)) out \<and> length vs' = length vs \<and> (\<forall>v\<in>set vs'. sf_voice_ok v \<and> sv_age v \<le> a)
      \<and> (\<forall>i<length vs. \<forall>n. sf_ends_in n (vs ! i) \<longrightarrow> sf_ends_in (n - 1) (vs' ! i))"
proof (induction vs arbitrary: buf b)
  case (Cons v vs)
  have "b \<le> 2147470000" using Cons.prems(4) by simp
  then obtain out v' where v': "voice_block g v buf = Some (out, v')" "length out = length buf" "loud (b + 11600) out"
    "sf_voice_ok v'" "sv_age v' = sv_age v" "\<forall>n. sf_ends_in n v \<longrightarrow> sf_ends_in (n - 1) v'"
    using voice_block_ok [OF Cons.prems(1) _ Cons.prems(3) _ Cons.prems(5), of v] Cons.prems(2) by auto
  have le: "b + 11600 + 11600 * int (length vs) \<le> 2147481600" "length out \<le> 63" using Cons.prems(4,5) v'(2) by simp_all
  from Cons.IH [OF Cons.prems(1) _ v'(3) le] Cons.prems(2) obtain out2 vs' where
    r: "render_block g vs out = Some (out2, vs')" "length out2 = length out" "loud (b + 11600 + 11600 * int (length vs)) out2"
    "length vs' = length vs" "\<forall>v\<in>set vs'. sf_voice_ok v \<and> sv_age v \<le> a" "\<forall>i<length vs. \<forall>n. sf_ends_in n (vs ! i) \<longrightarrow> sf_ends_in (n - 1) (vs' ! i)"
    by auto
  have "\<forall>i<length (v # vs). \<forall>n. sf_ends_in n ((v # vs) ! i) \<longrightarrow> sf_ends_in (n - 1) ((v' # vs') ! i)"
    using v'(6) r(6) by (auto simp: less_Suc_eq_0_disj)
  moreover have "\<forall>w\<in>set (v' # vs'). sf_voice_ok w \<and> sv_age w \<le> a" using v'(4,5) r(5) Cons.prems(2) by simp
  moreover have "render_block g (v # vs) buf = Some (out2, v' # vs')" by (simp only: render_block_Cons) (simp add: v'(1) r(1))
  moreover have "loud (b + 11600 * int (length (v # vs))) out2" using r(3) by (simp add: add.assoc)
  ultimately show ?case using v'(2) r(2,4) by auto
qed auto

text \<open>The number of blocks in which \<open>n\<close> samples are rendered.\<close>

definition blocks :: "nat \<Rightarrow> nat" where
  "blocks n = (n + 31) div 32"

lemma sf_render_ok:
  "sf_ok s \<Longrightarrow> loud b buf \<Longrightarrow> b \<le> 2145996800 \<Longrightarrow> \<exists>out s'. sf_render buf s = Some (out, s') \<and> sf_ok s' \<and> sf_age s' = sf_age s
    \<and> same_font s s' \<and> length out = length buf \<and> loud (b + 1484800) out
    \<and> (\<forall>i<128. \<forall>n. sf_ends_in n (sf_voices s ! i) \<longrightarrow> sf_ends_in (n - blocks (length buf)) (sf_voices s' ! i))"
proof (induction buf s rule: sf_render.induct)
  case (1 buf s)
  show ?case
  proof (cases "buf = []")
    case True
    then show ?thesis using "1.prems"(1) by (subst sf_render.simps) (simp add: loud_def blocks_def)
  next
    case False
    define m where "m = min BLOCK (length buf)"
    have m: "0 < m" "m \<le> 32" "m \<le> length buf" using False by (simp_all add: m_def BLOCK_def)
    have s: "cb_ok (gain_of s)" "\<forall>v\<in>set (sf_voices s). sf_voice_ok v \<and> sv_age v \<le> sf_age s" "length (sf_voices s) = 128"
      using "1.prems"(1) by (simp_all add: sf_ok_def sf_base_def)
    have l: "loud b (take m buf)" "loud b (drop m buf)"
      using "1.prems"(2) by (auto simp: loud_def dest: in_set_takeD in_set_dropD)
    obtain t vs where t: "render_block (gain_of s) (sf_voices s) (take m buf) = Some (t, vs)" "length t = m" "loud (b + 1484800) t"
      "length vs = 128" "\<forall>v\<in>set vs. sf_voice_ok v \<and> sv_age v \<le> sf_age s" "\<forall>i<128. \<forall>n. sf_ends_in n (sf_voices s ! i) \<longrightarrow> sf_ends_in (n - 1) (vs ! i)"
      using render_block_ok [OF s(1,2) l(1)] s(3) "1.prems"(3) m by auto
    define s1 where "s1 = s\<lparr>sf_voices := vs\<rparr>"
    have s1: "sf_ok s1" "sf_age s1 = sf_age s" "same_font s s1" "sf_voices s1 = vs"
      using "1.prems"(1) t(4,5) by (simp_all add: s1_def sf_ok_def sf_base_def same_font_def)
    obtain out s2 where r: "sf_render (drop m buf) s1 = Some (out, s2)" "sf_ok s2" "sf_age s2 = sf_age s1" "same_font s1 s2"
      "length out = length (drop m buf)" "loud (b + 1484800) out"
      "\<forall>i<128. \<forall>n. sf_ends_in n (sf_voices s1 ! i) \<longrightarrow> sf_ends_in (n - blocks (length (drop m buf))) (sf_voices s2 ! i)"
      using 1(1) [OF False m_def t(1) refl] s1(1) l(2) "1.prems"(3) by (auto simp: s1_def)
    have bl: "blocks (length buf) = Suc (blocks (length (drop m buf)))"
    proof (cases "32 \<le> length buf")
      case True
      then show ?thesis using le_div_geq [of 32 "length buf + 31"] by (simp add: m_def BLOCK_def blocks_def)
    next
      case False
      then have "(length buf + 31) div 32 = 1" using m by (intro div_nat_eqI) simp_all
      then show ?thesis using False by (simp add: m_def BLOCK_def blocks_def)
    qed
    have "\<forall>i<128. \<forall>n. sf_ends_in n (sf_voices s ! i) \<longrightarrow> sf_ends_in (n - blocks (length buf)) (sf_voices s2 ! i)"
    proof (intro allI impI)
      fix i n assume i: "i < (128 :: nat)" "sf_ends_in n (sf_voices s ! i)"
      then have "sf_ends_in (n - 1) (sf_voices s1 ! i)" using t(6) s1(4) by simp
      then have "sf_ends_in (n - 1 - blocks (length (drop m buf))) (sf_voices s2 ! i)" using r(7) i(1) by blast
      then show "sf_ends_in (n - blocks (length buf)) (sf_voices s2 ! i)" by (simp add: bl)
    qed
    moreover have "sf_render buf s = Some (t @ out, s2)"
      using False t(1) r(1) by (subst sf_render.simps) (simp add: m_def [symmetric] s1_def)
    moreover have "loud (b + 1484800) (t @ out)" using t(3) r(6) by (auto simp: loud_def)
    ultimately show ?thesis using r(2-5) s1(2,3) t(2) m(3) same_font_trans [OF s1(3) r(4)] by auto
  qed
qed

end
