(* ===== verification/SfLoad.thy ===== *)
theory SfLoad
  imports SfNotes
begin

text \<open>
  Loading a SoundFont: for a file whose chunks do not claim to end at \<open>2 ^ 31\<close> or later the loops end, no byte outside of the
  file is read, and every table found lies in the file. A size of \<open>2 ^ 32 - 8\<close> is the other case: the loop stays where it is.
\<close>

section \<open>Chunks that end below \<open>2 ^ 31\<close>\<close>

definition next_even :: "nat \<Rightarrow> nat" where
  "next_even n = (n + 1) div 2 * 2"

lemma next_even_ge: "n \<le> next_even n" "next_even n \<le> n + 1"
  unfolding next_even_def by linarith+

lemma even_up_eq: "n + 1 < two32 \<Longrightarrow> even_up n = next_even n"
  using minus_mod_eq_div_mult [of "n + 1" 2] by (simp add: even_up_def add32_id next_even_def Let_def)

function sane_list :: "byte list \<Rightarrow> nat \<Rightarrow> nat \<Rightarrow> bool" where
  "sane_list f lend lpos =
     (lpos + 8 \<le> lend \<longrightarrow>
        (let sz = ufs_le32 f (lpos + 4)
         in lpos + 8 + sz < 2147483648 \<and> sane_list f lend (lpos + 8 + next_even (min sz (lend - lpos - 8)))))"
  by pat_completeness auto
termination by (relation "measure (\<lambda>(f, lend, lpos). lend + 8 - lpos)") (auto simp: next_even_def)

declare sane_list.simps [simp del]

definition list_tag :: "byte list" where
  "list_tag = [0x4c, 0x49, 0x53, 0x54]"

function sane_riff :: "byte list \<Rightarrow> nat \<Rightarrow> bool" where
  "sane_riff f pos =
     (pos + 12 \<le> length f \<longrightarrow>
        (let c = ufs_le32 f (pos + 4)
         in pos + 8 + c + 1 < 2147483648
            \<and> (take 4 (drop pos f) = list_tag \<longrightarrow> sane_list f (min (pos + 8 + c) (length f)) (pos + 12))
            \<and> sane_riff f (pos + 8 + next_even c)))"
  by pat_completeness auto
termination by (relation "measure (\<lambda>(f, pos). length f + 12 - pos)") (auto simp: next_even_def)

declare sane_riff.simps [simp del]

section \<open>Tables in the file\<close>

definition in_file :: "byte list \<Rightarrow> nat option \<Rightarrow> nat \<Rightarrow> nat \<Rightarrow> bool" where
  "in_file f p n width = (\<forall>a. p = Some a \<longrightarrow> a + n * width \<le> length f)"

definition bank_in :: "byte list \<Rightarrow> sf_bank \<Rightarrow> bool" where
  "bank_in f bk = (bk_file bk = f \<and> in_file f (bk_phdr bk) (bk_nphdr bk) 38 \<and> in_file f (bk_pbag bk) (bk_npbag bk) 4
     \<and> in_file f (bk_pgen bk) (bk_npgen bk) 4 \<and> in_file f (bk_inst bk) (bk_ninst bk) 22 \<and> in_file f (bk_ibag bk) (bk_nibag bk) 4
     \<and> in_file f (bk_igen bk) (bk_nigen bk) 4 \<and> in_file f (bk_shdr bk) (bk_nshdr bk) 46 \<and> in_file f (bk_smpl bk) (bk_nsmpl bk) 2)"

lemma copy_name_ok: "0 \<le> d \<Longrightarrow> d + int n \<le> int (length f) \<Longrightarrow> \<exists>r. copy_name f d n = Some r"
proof (induction n arbitrary: d)
  case (Suc n)
  have "\<exists>r. copy_name f (d + 1) n = Some r" using Suc.prems by (intro Suc.IH) simp_all
  then show ?case using Suc.prems by (auto simp: at_Some)
qed simp

lemma in_file_chunk: "0 \<le> d \<Longrightarrow> d + int sz \<le> int (length f) \<Longrightarrow> in_file f (Some (nat d)) (sz div width) width"
proof -
  assume d: "0 \<le> d" "d + int sz \<le> int (length f)"
  have "sz div width * width \<le> sz" by simp
  moreover have "nat d + sz \<le> length f" using d by linarith
  ultimately show ?thesis unfolding in_file_def by (metis add_left_mono le_trans option.inject)
qed

lemma known_chunk_ok:
  assumes "bank_in f bk" "0 \<le> d" "d + int sz \<le> int (length f)"
  shows "\<exists>bk1. known_chunk f ident d sz bk = Some bk1 \<and> bank_in f bk1"
proof -
  have "d + int (min sz 63) \<le> int (length f)" using assms(3) by linarith
  then obtain r where "copy_name f d (min sz 63) = Some r" using copy_name_ok [OF assms(2)] by blast
  then show ?thesis using assms(1) in_file_chunk [OF assms(2,3)] unfolding known_chunk_def by (simp add: bank_in_def)
qed

lemma tag4_Some: "0 \<le> p \<Longrightarrow> p + 3 < int (length f) \<Longrightarrow> tag4 f p = Some (take 4 (drop (nat p) f))"
  by (simp add: tag4_def)

lemma sf32_Some: "a + 3 < length f \<Longrightarrow> sf32 f (int a) = Some (ufs_le32 f a)"
  by (simp add: sf32_def)

lemma list_step_ok:
  assumes "bank_in f bk" "lend \<le> length f" "length f < 2147483000" "lpos + 8 \<le> lend" "lpos + 8 + ufs_le32 f (lpos + 4) < 2147483648"
  shows "\<exists>bk1. list_step f (int lend) (int lpos) bk = Some (int (lpos + 8 + next_even (min (ufs_le32 f (lpos + 4)) (lend - lpos - 8))), bk1)
    \<and> bank_in f bk1"
proof -
  let ?s = "ufs_le32 f (lpos + 4)"
  define sz where "sz = min ?s (lend - lpos - 8)"
  have r: "sf32 f (int lpos + 4) = Some ?s" using sf32_Some [of "lpos + 4" f] assms(2,4) by simp
  have i: "i32 (int ?s) = int ?s" using assms(5) by (intro i32_id) simp_all
  have e: "fit (int lpos + 8 + i32 (int ?s)) = Some (int lpos + 8 + int ?s)" unfolding i using assms(5) by (intro fit_Some) simp_all
  have z: "(if int lpos + 8 + int ?s > int lend then nat (int lend - int lpos - 8) else ?s) = sz"
  proof (cases "int lpos + 8 + int ?s > int lend")
    case True
    then have "nat (int lend - int lpos - 8) = lend - lpos - 8" "sz = lend - lpos - 8" by (simp_all add: sz_def)
    then show ?thesis using True by simp
  next
    case False
    then have "sz = ?s" unfolding sz_def by linarith
    then show ?thesis using False by simp
  qed
  have t: "tag4 f (int lpos) = Some (take 4 (drop lpos f))" using tag4_Some [of "int lpos" f] assms(2,4) by simp
  have le: "lpos + 8 + sz \<le> lend" using assms(4) by (simp add: sz_def)
  obtain bk1 where b: "known_chunk f (take 4 (drop lpos f)) (int lpos + 8) sz bk = Some bk1" "bank_in f bk1"
    using known_chunk_ok [OF assms(1), of "int lpos + 8" sz] le assms(2) by auto
  have n: "even_up sz = next_even sz" "next_even sz \<le> sz + 1" using even_up_eq [of sz] next_even_ge [of sz] le assms(2,3) by simp_all
  then have "add32 8 (even_up sz) = 8 + next_even sz" unfolding n(1) using le assms(2,3) by (intro add32_id) linarith
  moreover have "i32 (int lpos + int (8 + next_even sz)) = int lpos + int (8 + next_even sz)"
    using le n(2) assms(2,3) by (intro i32_id) simp_all
  ultimately have "i32 (int lpos + int (add32 8 (even_up sz))) = int (lpos + 8 + next_even sz)" by simp
  then have "list_step f (int lend) (int lpos) bk = Some (int (lpos + 8 + next_even sz), bk1)"
    using b by (simp add: list_step_def r e t Let_def z)
  then show ?thesis using b(2) unfolding sz_def by blast
qed

lemma list_chunks_ok:
  "sane_list f lend lpos \<Longrightarrow> bank_in f bk \<Longrightarrow> lend \<le> length f \<Longrightarrow> length f < 2147483000
    \<Longrightarrow> \<exists>bk1. list_chunks f (int lend) (int lpos) bk = Some bk1 \<and> bank_in f bk1"
proof (induction f lend lpos arbitrary: bk rule: sane_list.induct)
  case (1 f lend lpos)
  show ?case
  proof (cases "lpos + 8 \<le> lend")
    case False
    then show ?thesis using "1.prems"(2) by (subst list_chunks.simps) simp
  next
    case True
    have s: "lpos + 8 + ufs_le32 f (lpos + 4) < 2147483648"
      "sane_list f lend (lpos + 8 + next_even (min (ufs_le32 f (lpos + 4)) (lend - lpos - 8)))"
      using "1.prems"(1) True by (subst (asm) sane_list.simps, simp add: Let_def)+
    obtain bk1 where b: "list_step f (int lend) (int lpos) bk = Some (int (lpos + 8 + next_even (min (ufs_le32 f (lpos + 4)) (lend - lpos - 8))), bk1)"
      "bank_in f bk1" using list_step_ok [OF "1.prems"(2-4) True s(1)] by blast
    from "1.IH" [OF True refl s(2) b(2) "1.prems"(3,4)] show ?thesis
      using True by (subst list_chunks.simps) (simp add: b(1))
  qed
qed

lemma riff_step_ok:
  assumes "bank_in f bk" "length f < 2147483000" "pos + 12 \<le> length f" "pos + 8 + ufs_le32 f (pos + 4) + 1 < 2147483648"
    and "take 4 (drop pos f) = list_tag \<longrightarrow> sane_list f (min (pos + 8 + ufs_le32 f (pos + 4)) (length f)) (pos + 12)"
  shows "\<exists>bk1. riff_step f (int pos) bk = Some (int (pos + 8 + next_even (ufs_le32 f (pos + 4))), bk1) \<and> bank_in f bk1"
proof -
  let ?c = "ufs_le32 f (pos + 4)"
  have r: "sf32 f (int pos + 4) = Some ?c" using sf32_Some [of "pos + 4" f] assms(3) by simp
  have t: "tag4 f (int pos) = Some (take 4 (drop pos f))" using tag4_Some [of "int pos" f] assms(3) by simp
  have n: "even_up ?c = next_even ?c" "next_even ?c \<le> ?c + 1" using even_up_eq [of ?c] next_even_ge [of ?c] assms(4) by simp_all
  then have "add32 8 (even_up ?c) = 8 + next_even ?c" unfolding n(1) using assms(4) by (intro add32_id) linarith
  moreover have "i32 (int pos + int (8 + next_even ?c)) = int pos + int (8 + next_even ?c)"
    using n(2) assms(4) by (intro i32_id) simp_all
  ultimately have p: "i32 (int pos + int (add32 8 (even_up ?c))) = int (pos + 8 + next_even ?c)" by simp
  have "i32 (int pos + 8 + int ?c) = int pos + 8 + int ?c" using assms(4) by (intro i32_id) simp_all
  then have l: "min (i32 (int pos + 8 + int ?c)) (int (length f)) = int (min (pos + 8 + ?c) (length f))" by simp
  have q: "int pos + 12 = int (pos + 12)" by simp
  show ?thesis
  proof (cases "take 4 (drop pos f) = list_tag")
    case False
    then show ?thesis using assms(1) by (simp add: riff_step_def r t p list_tag_def)
  next
    case True
    obtain bk1 where "list_chunks f (int (min (pos + 8 + ?c) (length f))) (int (pos + 12)) bk = Some bk1" "bank_in f bk1"
      using list_chunks_ok [of f "min (pos + 8 + ?c) (length f)" "pos + 12" bk] assms(1,2,5) True by auto
    then have "list_chunks f (min (i32 (int pos + 8 + int ?c)) (int (length f))) (int pos + 12) bk = Some bk1 \<and> bank_in f bk1"
      by (simp only: l q)
    then show ?thesis using True by (auto simp: riff_step_def r t p list_tag_def)
  qed
qed

lemma riff_chunks_ok:
  "sane_riff f pos \<Longrightarrow> bank_in f bk \<Longrightarrow> length f < 2147483000
    \<Longrightarrow> \<exists>bk1. riff_chunks f (int pos) bk = Some bk1 \<and> bank_in f bk1"
proof (induction f pos arbitrary: bk rule: sane_riff.induct)
  case (1 f pos)
  show ?case
  proof (cases "pos + 12 \<le> length f")
    case False
    then show ?thesis using "1.prems"(2) by (subst riff_chunks.simps) simp
  next
    case True
    have s: "pos + 8 + ufs_le32 f (pos + 4) + 1 < 2147483648"
      "take 4 (drop pos f) = list_tag \<longrightarrow> sane_list f (min (pos + 8 + ufs_le32 f (pos + 4)) (length f)) (pos + 12)"
      "sane_riff f (pos + 8 + next_even (ufs_le32 f (pos + 4)))"
      using "1.prems"(1) True by (subst (asm) sane_riff.simps, simp add: Let_def)+
    obtain bk1 where b: "riff_step f (int pos) bk = Some (int (pos + 8 + next_even (ufs_le32 f (pos + 4))), bk1)" "bank_in f bk1"
      using riff_step_ok [OF "1.prems"(2,3) True s(1,2)] by blast
    from "1.IH" [OF True refl s(3) b(2) "1.prems"(3)] show ?thesis
      using True by (subst riff_chunks.simps) (simp add: b(1))
  qed
qed

lemma bank_load_ok:
  assumes "sane_riff f 12" "length f < 2147483000"
  shows "\<exists>acc bk'. bank_load f bk = Some (acc, bk') \<and> (acc \<longrightarrow> bank_in f bk' \<and> 2 \<le> bk_nphdr bk'
    \<and> None \<notin> {bk_phdr bk', bk_pbag bk', bk_pgen bk', bk_inst bk', bk_ibag bk', bk_igen bk', bk_shdr bk', bk_smpl bk'}
    \<and> even (the (bk_smpl bk'))) \<and> (\<not> acc \<longrightarrow> bk_phdr bk' = None)"
proof (cases "riff_header f")
  case False
  then have "bank_load f bk = Some (False, bank_clear f bk)" by (simp add: bank_load_def)
  then show ?thesis by (auto simp: bank_clear_def)
next
  case True
  have "bank_in f (bank_clear f bk)" by (simp add: bank_in_def bank_clear_def in_file_def)
  then obtain bk1 where b: "riff_chunks f 12 (bank_clear f bk) = Some bk1" "bank_in f bk1"
    using riff_chunks_ok [OF assms(1) _ assms(2)] by auto
  define missing where "missing = (bk_phdr bk1 = None \<or> bk_pbag bk1 = None \<or> bk_pgen bk1 = None \<or> bk_inst bk1 = None \<or> bk_ibag bk1 = None
          \<or> bk_igen bk1 = None \<or> bk_shdr bk1 = None \<or> bk_smpl bk1 = None \<or> bk_nphdr bk1 < 2)"
  have l: "bank_load f bk = (if missing \<or> odd (the (bk_smpl bk1)) then Some (False, bk1\<lparr>bk_phdr := None\<rparr>) else Some (True, bk1))"
    using True b(1) by (simp only: bank_load_def missing_def Let_def not_True_eq_False if_False Option.bind.bind_lunit)
  show ?thesis
  proof (cases "missing \<or> odd (the (bk_smpl bk1))")
    case True
    then show ?thesis unfolding l by (intro exI [of _ False]) simp
  next
    case False
    then have "\<not> missing" "even (the (bk_smpl bk1))" by simp_all
    moreover have "None \<notin> {bk_phdr bk1, bk_pbag bk1, bk_pgen bk1, bk_inst bk1, bk_ibag bk1, bk_igen bk1, bk_shdr bk1, bk_smpl bk1}"
      "2 \<le> bk_nphdr bk1" using calculation(1) unfolding missing_def by (simp only: insert_iff empty_iff de_Morgan_disj eq_commute [of None], blast)
        (use calculation(1) in \<open>simp add: missing_def\<close>)
    ultimately show ?thesis using b(2) unfolding l if_not_P [OF False] by (intro exI [of _ True] exI [of _ bk1]) simp
  qed
qed

section \<open>Chunks that never end\<close>

lemma even_up_8: "even_up 4294967288 = 4294967288"
  by (simp add: even_up_def add32_def)

lemma riff_stays:
  assumes "0 \<le> pos" "pos + 12 \<le> int (length f)" "length f < 2147483000" "ufs_le32 f (nat (pos + 4)) = 4294967288"
    and "take 4 (drop (nat pos) f) \<noteq> list_tag"
  shows "riff_step f pos bk = Some (pos, bk)"
proof -
  have "sf32 f (pos + 4) = Some 4294967288" using assms(1,2,4) by (simp add: sf32_def)
  moreover have "tag4 f pos = Some (take 4 (drop (nat pos) f))" using assms(1,2) by (simp add: tag4_def)
  moreover have "i32 pos = pos" using assms(1-3) by (intro i32_id) simp_all
  ultimately show ?thesis using assms(5) by (simp add: riff_step_def list_tag_def even_up_8 add32_def)
qed

lemma riff_never:
  assumes "pos + 12 \<le> int (length f)" "\<And>bk. riff_step f pos bk = Some (pos, bk)"
  shows "riff_chunks f pos bk = None"
proof (rule ccontr)
  assume "riff_chunks f pos bk \<noteq> None"
  then obtain y where "riff_chunks f pos bk = Some y" by blast
  then have "\<not> (f = f \<and> pos = pos \<and> bk = bk)"
  proof (rule riff_chunks.raw_induct [rotated, where P = "\<lambda>f' pos' bk' y. \<not> (f' = f \<and> pos' = pos \<and> bk' = bk)"])
    fix g f' pos' bk' y
    assume IH: "\<And>f' pos' bk' y. g f' pos' bk' = Some y \<Longrightarrow> \<not> (f' = f \<and> pos' = pos \<and> bk' = bk)"
      and eq: "(if pos' + 12 \<le> int (length f') then Option.bind (riff_step f' pos' bk') (\<lambda>r. g f' (fst r) (snd r)) else Some bk') = Some y"
    show "\<not> (f' = f \<and> pos' = pos \<and> bk' = bk)"
    proof
      assume a: "f' = f \<and> pos' = pos \<and> bk' = bk"
      then have "g f pos bk = Some y" using eq assms by simp
      then show False using IH by blast
    qed
  qed
  then show False by simp
qed

end
