(* ===== verification/SfSong.thy ===== *)
theory SfSong
  imports SfRender SfLoad SynthSong
begin

text \<open>
  The SoundFont engine as a whole: behind the sequencer, from loading to the end of its notes.
\<close>

section \<open>The engine behind the calls\<close>

fun sf_call :: "synth_call \<Rightarrow> sf \<times> stereo \<Rightarrow> (sf \<times> stereo) option" where
  "sf_call (Note_on ch k v) (s, buf) = keep_buf buf (sf_note_on ch k v s)"
| "sf_call (Note_off ch k) (s, buf) = keep_buf buf (sf_note_off ch k s)"
| "sf_call (Control ch cc v) (s, buf) = keep_buf buf (sf_control ch cc v s)"
| "sf_call (Program ch p) (s, buf) = Some (sf_program ch p s, buf)"
| "sf_call (Bend ch v) (s, buf) = keep_buf buf (sf_bend ch v s)"
| "sf_call Reset (s, buf) = Some (sf_reset s, buf)"
| "sf_call (Render p k) (s, buf) = render_at sf_render p k (s, buf)"

definition font_ok :: "nat \<Rightarrow> sf \<Rightarrow> bool" where
  "font_ok z s = (sf_ok s \<and> zones_at_most z (sf_bank s))"

lemma font_ok_same: "zones_at_most z (sf_bank s) \<Longrightarrow> sf_ok s' \<Longrightarrow> same_font s s' \<Longrightarrow> font_ok z s'"
  by (simp add: font_ok_def same_font_def)

lemma sf_event:
  assumes "font_ok z s" "sf_room z s" "midi_call c" "\<not> is_render (e, c)"
  shows "\<exists>s'. sf_call c (s, buf) = Some (s', buf) \<and> font_ok z s' \<and> sf_age s' \<le> sf_age s + z"
proof -
  have s: "sf_ok s" "zones_at_most z (sf_bank s)" using assms(1) by (simp_all add: font_ok_def)
  have k: "sf_event_ok z s r \<Longrightarrow> \<exists>s'. keep_buf buf r = Some (s', buf) \<and> font_ok z s' \<and> sf_age s' \<le> sf_age s + z" for r
    using font_ok_same [OF s(2)] by (auto simp: sf_event_ok_def keep_buf_def)
  have reset: "font_ok z (sf_reset s) \<and> sf_age (sf_reset s) = sf_age s"
  proof -
    have "cb_ok (gain_of s)" "bk_phdr (sf_bank s) \<noteq> None \<Longrightarrow> bank_ready (sf_bank s)" using s(1) by (simp_all add: sf_ok_def sf_base_def)
    from sf_reset_ok [OF this] font_ok_same [OF s(2)] show ?thesis by blast
  qed
  have prog: "font_ok z (sf_program ch p s) \<and> sf_age (sf_program ch p s) = sf_age s" for ch p
    unfolding sf_program_def using set_sf_chan_ok [OF s(1)] font_ok_same [OF s(2)] by blast
  have on: "ch < 16 \<Longrightarrow> sf_event_ok z s (sf_note_on ch key vel s)" for ch key vel
    using sf_note_on_ok [OF s(1) assms(2) s(2)] by (simp add: sf_event_ok_def)
  show ?thesis
    using assms(3,4) k [OF on] k [OF sf_note_off_ok [OF s(1)]] k [OF sf_control_ok [OF s(1)]] k [OF sf_bend_ok [OF s(1)]] prog reset
    by (cases c) simp_all
qed

text \<open>The SoundFont engine behind the interface of the sequencer: an event takes at most \<open>z\<close> ages.\<close>

interpretation sf2: synth_engine sf_call sf_render "font_ok z" "\<lambda>n. sf_room (z * n)" 1484800 for z
proof
  show "sf_call (Render p k) x = render_at sf_render p k x" for p k x by (cases x) simp
  show "\<exists>s'. sf_call c (s, buf) = Some (s', buf) \<and> font_ok z s' \<and> sf_room (z * n) s'"
    if "font_ok z s" "sf_room (z * Suc n) s" "midi_call c" "\<not> is_render (e, c)" for s n c e buf
  proof -
    have "sf_room z s" using that(2) by (simp add: sf_room_def)
    from sf_event [OF that(1) this that(3,4), of buf] show ?thesis using that(2) by (auto simp: sf_room_def)
  qed
  show "\<exists>t s'. sf_render buf s = Some (t, s') \<and> font_ok z s' \<and> sf_room (z * n) s' \<and> length t = length buf \<and> loud 1484800 t"
    if "font_ok z s" "loud 0 buf" "sf_room (z * Suc n) s" for s buf n
  proof -
    have s: "sf_ok s" "zones_at_most z (sf_bank s)" using that(1) by (simp_all add: font_ok_def)
    from sf_render_ok [OF s(1) that(2)] obtain t s' where "sf_render buf s = Some (t, s')" "sf_ok s'" "sf_age s' = sf_age s"
      "same_font s s'" "length t = length buf" "loud 1484800 t" by auto
    then show ?thesis using font_ok_same [OF s(2)] that(3) by (auto simp: sf_room_def)
  qed
qed

section \<open>How many voices a note starts\<close>

lemma length_local_amounts: "length (local_amounts t d zs) \<le> length zs"
proof -
  have "length (filter (is_local t) ls) \<le> length ls" for ls by (rule length_filter_le)
  from this [of "tl zs"] this [of zs] show ?thesis by (auto simp: local_amounts_def)
qed

lemma length_note_amounts:
  assumes "\<forall>i<n. length (inst i) \<le> k"
  shows "length (note_amounts inst n preset key vel) \<le> length preset * k"
proof -
  let ?f = "\<lambda>p :: nat \<Rightarrow> int. if fits_note key vel p \<and> 0 \<le> p 41 \<and> p 41 < int n
    then map (\<lambda>g j. if not_added j then g j else signed_take_bit 15 (g j + p j))
      (filter (fits_note key vel) (local_amounts 53 ((!) gen_default) (inst (nat (p 41))))) else []"
  have one: "length (?f p) \<le> k" for p
  proof (cases "fits_note key vel p \<and> 0 \<le> p 41 \<and> p 41 < int n")
    case True
    then have "length (inst (nat (p 41))) \<le> k" using assms by (simp add: nat_less_iff)
    moreover note length_filter_le [of "fits_note key vel" "local_amounts 53 ((!) gen_default) (inst (nat (p 41)))"]
      length_local_amounts [of 53 "(!) gen_default" "inst (nat (p 41))"]
    ultimately have "length (filter (fits_note key vel) (local_amounts 53 ((!) gen_default) (inst (nat (p 41))))) \<le> k" by linarith
    then show ?thesis using True by simp
  next
    case False
    then show ?thesis by (simp only: if_False list.size(3) le0)
  qed
  have "length (concat (map ?f ps)) \<le> length ps * k" for ps
    using one by (induction ps) (simp_all add: add_mono)
  from le_trans [OF this mult_le_mono1 [OF length_local_amounts]] show ?thesis unfolding note_amounts_def .
qed

lemma zones_at_mostI:
  assumes "\<forall>p. p + 1 < bk_nphdr bk \<longrightarrow> length (preset_of bk p) \<le> m" "\<forall>i<bk_ninst bk - 1. length (inst_of bk i) \<le> k"
  shows "zones_at_most (m * k) bk"
  unfolding zones_at_most_def note_gens_def length_map
  using le_trans [OF length_note_amounts [OF assms(2)] mult_le_mono1] assms(1) by blast

section \<open>Rendering in pieces\<close>

fun render_pieces :: "mix_buf list \<Rightarrow> sf \<Rightarrow> (mix_buf list \<times> sf) option" where
  "render_pieces [] s = Some ([], s)"
| "render_pieces (b # bs) s = do { (t, s1) \<leftarrow> sf_render b s; (ts, s2) \<leftarrow> render_pieces bs s1; Some (t # ts, s2) }"

lemma render_pieces_ends:
  "sf_ok s \<Longrightarrow> \<forall>b\<in>set bs. loud 0 b \<Longrightarrow> \<exists>ts s'. render_pieces bs s = Some (ts, s') \<and> sf_ok s'
    \<and> (\<forall>i<128. \<forall>n. sf_ends_in n (sf_voices s ! i) \<longrightarrow> sf_ends_in (n - sum_list (map (\<lambda>b. blocks (length b)) bs)) (sf_voices s' ! i))"
proof (induction bs arbitrary: s)
  case (Cons b bs)
  from Cons.prems sf_render_ok [OF Cons.prems(1), of 0 b] obtain t s1 where
    1: "sf_render b s = Some (t, s1)" "sf_ok s1" "\<forall>i<128. \<forall>n. sf_ends_in n (sf_voices s ! i) \<longrightarrow> sf_ends_in (n - blocks (length b)) (sf_voices s1 ! i)"
    by auto
  from Cons.IH [OF 1(2)] Cons.prems(2) obtain ts s2 where 2: "render_pieces bs s1 = Some (ts, s2)" "sf_ok s2"
    "\<forall>i<128. \<forall>n. sf_ends_in n (sf_voices s1 ! i) \<longrightarrow> sf_ends_in (n - sum_list (map (\<lambda>b. blocks (length b)) bs)) (sf_voices s2 ! i)"
    by auto
  have "\<forall>i<128. \<forall>n. sf_ends_in n (sf_voices s ! i) \<longrightarrow> sf_ends_in (n - sum_list (map (\<lambda>b. blocks (length b)) (b # bs))) (sf_voices s2 ! i)"
    using 1(3) 2(3) by (simp add: diff_diff_left [symmetric] del: diff_diff_left)
  then show ?case using 1(1) 2(1,2) by simp
qed simp

text \<open>After the controller for all notes off.\<close>

lemma notes_off_ends:
  assumes "sf_ok s" "ch < 16"
  shows "\<exists>s0. sf_control ch 123 val s = Some s0 \<and> sf_ok s0
    \<and> (\<forall>i<128. sv_active (sf_voices s ! i) \<and> sv_chan (sf_voices s ! i) = ch \<longrightarrow> sf_ends_in 7680 (sf_voices s0 ! i))"
proof -
  have base: "sf_base s" "length (sf_voices s) = 128" using assms(1) by (simp_all add: sf_ok_def)
  obtain old where old: "chan_cb s ch = Some old" using chan_cb_ok [OF base(1) assms(2)] by blast
  obtain s0 where s0: "all_voices (notes_off_op (gain_of s) ch) s = Some s0" "sf_ok s0"
    "\<forall>i<128. notes_off_op (gain_of s) ch (sf_voices s ! i) = Some (sf_voices s0 ! i)"
    using notes_off.event [OF assms(1) refl refl] by blast
  have "sf_ends_in 7680 (sf_voices s0 ! i)" if "i < 128" "sv_active (sf_voices s ! i)" "sv_chan (sf_voices s ! i) = ch" for i
  proof -
    have v: "sf_voice_ok (sf_voices s ! i)" using assms(1) that(1) base(2) by (simp add: sf_ok_def)
    have "release_voice (gain_of s) (sf_voices s ! i) = Some (sf_voices s0 ! i)" using s0(3) that by (auto simp: notes_off_op_def)
    with release_ok [OF base(1) v that(2)] have "sf_voice_ok (sf_voices s0 ! i)"
      "sv_active (sf_voices s0 ! i) \<longrightarrow> sv_env (sf_voices s0 ! i) = ENV_RELEASE" by auto
    then show ?thesis by (auto simp: sf_ends_in_def sf_voice_ok_def sf_env_ok_def)
  qed
  then show ?thesis using s0(1,2) by (simp add: sf_control_def old)
qed

end
