(* ===== verification/SfProps.thy ===== *)
theory SfProps
  imports SfSong
begin

text \<open>What the MIDI player relies on when it plays with a SoundFont.\<close>

section \<open>A small font\<close>

text \<open>One preset and one instrument, each with one zone and its end record, one sample of four values.\<close>

definition tiny_data :: "byte list" where
  "tiny_data =
     replicate 62 0 @ [1] @ replicate 13 0
     @ [0, 0, 0, 0, 1, 0, 0, 0] @ [41, 0, 0, 0]
     @ replicate 42 0 @ [1, 0] @ [0, 0, 0, 0, 1, 0, 0, 0] @ [53, 0, 0, 0]
     @ replicate 24 0 @ [4, 0, 0, 0, 1, 0, 0, 0, 3, 0, 0, 0, 0x80, 0xbb, 0, 0, 60, 0, 0, 0, 1, 0] @ replicate 46 0
     @ [0, 0, 0xe8, 3, 0xd0, 7, 0, 0]"

definition tiny_bank :: sf_bank where
  "tiny_bank = \<lparr>bk_file = tiny_data, bk_phdr = Some 0, bk_pbag = Some 76, bk_pgen = Some 84, bk_inst = Some 88, bk_ibag = Some 132,
     bk_igen = Some 140, bk_shdr = Some 144, bk_nphdr = 2, bk_npbag = 2, bk_npgen = 1, bk_ninst = 2, bk_nibag = 2, bk_nigen = 1,
     bk_nshdr = 2, bk_smpl = Some 236, bk_nsmpl = 4, bk_name = []\<rparr>"

lemma tiny_words:
  "word16 tiny_bank (Some 0) 24 = 0" "word16 tiny_bank (Some 0) 62 = 1" "word16 tiny_bank (Some 76) 0 = 0" "word16 tiny_bank (Some 76) 4 = 1"
  "word16 tiny_bank (Some 88) 20 = 0" "word16 tiny_bank (Some 88) 42 = 1" "word16 tiny_bank (Some 132) 0 = 0" "word16 tiny_bank (Some 132) 4 = 1"
  "length tiny_data = 244"
  by (simp_all add: word16_def ufs_le16_eq tiny_bank_def tiny_data_def nth_append)

lemma tiny_samples: "bank_samples tiny_bank = [0, 1000, 2000, 0]"
  by (simp add: bank_samples_def upt_rec ufs_le16_eq tiny_bank_def tiny_data_def nth_append i16_def)

lemma tiny_tables:
  "table_in tiny_bank (Some 0) 2 38" "table_in tiny_bank (Some 76) 2 4" "table_in tiny_bank (Some 84) 1 4" "table_in tiny_bank (Some 88) 2 22"
  "table_in tiny_bank (Some 132) 2 4" "table_in tiny_bank (Some 140) 1 4" "table_in tiny_bank (Some 144) 2 46"
  using tiny_words(9) by (simp_all add: table_in_def tiny_bank_def)

lemma less_2: "(\<forall>i<2 :: nat. P i) = (P 0 \<and> P 1)"
  by (auto simp: less_2_cases_iff)

lemma tiny_fields:
  "bk_phdr tiny_bank = Some 0" "bk_pbag tiny_bank = Some 76" "bk_pgen tiny_bank = Some 84" "bk_inst tiny_bank = Some 88"
  "bk_ibag tiny_bank = Some 132" "bk_igen tiny_bank = Some 140" "bk_shdr tiny_bank = Some 144" "bk_nphdr tiny_bank = 2"
  "bk_npbag tiny_bank = 2" "bk_npgen tiny_bank = 1" "bk_ninst tiny_bank = 2" "bk_nibag tiny_bank = 2" "bk_nigen tiny_bank = 1"
  "bk_nshdr tiny_bank = 2" "bk_nsmpl tiny_bank = 4"
  by (simp_all add: tiny_bank_def)

lemma tiny_bank_ok: "bank_ok tiny_bank"
  unfolding bank_ok_def heads_ok_def bags_ok_def tiny_fields less_2 using tiny_tables tiny_words by simp

lemma tiny_ready: "bank_ready tiny_bank"
proof -
  have "smooth [0, 1000, 2000, 0]" by (auto simp: smooth_def nth_Cons less_Suc_eq split: nat.splits)
  then show ?thesis using tiny_bank_ok by (simp add: bank_ready_def tiny_samples tiny_fields)
qed

lemma tiny_zones: "zones_at_most 1 tiny_bank"
proof -
  have "length (preset_of tiny_bank 0) = 1" "length (inst_of tiny_bank 0) = 1"
    using tiny_words by (simp_all add: preset_of_def inst_of_def zones_of_def tiny_fields)
  then have "zones_at_most (1 * 1) tiny_bank" by (intro zones_at_mostI) (auto simp: tiny_fields less_Suc_eq)
  then show ?thesis by simp
qed

text \<open>The engine with this font, a table of one gain, and as many voices on as the list says.\<close>

definition tiny_float :: sf_float where
  "tiny_float = \<lparr>sfl_gain = replicate 1441 32767, sfl_samples = (\<lambda>_. 0), sfl_step = (\<lambda>_ _ _. 65536)\<rparr>"

definition tiny_voice :: sf_voice where
  "tiny_voice = sf_voice_zero\<lparr>sv_active := True, sv_data := [0, 1000, 2000, 0], sv_end := 4, sv_loop_start := 1, sv_loop_end := 3,
     sv_loop_mode := 1, sv_step := 65536, sv_age := 1, sv_env := ENV_HOLD\<rparr>"

definition tiny_sf :: "sf_voice list \<Rightarrow> sf" where
  "tiny_sf vs = \<lparr>sf_bank = tiny_bank, sf_voices = vs @ replicate (128 - length vs) sf_voice_zero, sf_chans = replicate 16 sf_chan_default,
     sf_age = 1, sf_limit = 1, sf_float = tiny_float\<rparr>"

lemma tiny_voice_ok: "sf_voice_ok tiny_voice"
  using tiny_ready by (simp add: sf_voice_ok_def tiny_voice_def sf_voice_zero_def sf_data_ok_def sf_range_ok_def pos_ok_def sf_env_ok_def tc_ok_def
      bank_ready_def tiny_samples)

lemma tiny_sf_ok: "vs \<in> {[], [tiny_voice]} \<Longrightarrow> font_ok 1 (tiny_sf vs)"
proof -
  assume vs: "vs \<in> {[], [tiny_voice]}"
  have "sf_age (tiny_sf vs) = 1" "sv_age tiny_voice = 1" by (simp_all add: tiny_sf_def tiny_voice_def)
  moreover have "sf_base (tiny_sf vs)" by (simp add: sf_base_def tiny_sf_def tiny_float_def cb_ok_def)
  ultimately show ?thesis using vs voice_zero_ok tiny_voice_ok tiny_ready tiny_zones
    by (auto simp: font_ok_def sf_ok_def tiny_sf_def)
qed

section \<open>Properties\<close>

text \<open>
  C13: The mixer works in runs up to the next boundary, in three versions of its inner loop; it computes what the loop computes that
  looks at the loop point and at the end of the sample before every output sample: the same samples, the same position, the
  same end of the voice, and an overflow or a read outside of the data in the same cases.
\<close>

theorem sf_mix_runs:
  assumes "sf_range_ok v" "pos_ok (sv_pos v) (sv_frac v)" "length buf \<le> 63"
  shows "mix_voice v buf = ref_voice v buf"
  using mix_runs_ref [OF assms] by (simp add: mix_voice_def ref_voice_def)

text \<open>Three samples of the voice from position 1 on, over its loop point at 3.\<close>

definition loud_voice :: sf_voice where
  "loud_voice = tiny_voice\<lparr>sv_pos := 1, sv_gain_l := 16384, sv_gain_r := 8192\<rparr>"

lemmas loud_voice_simps = loud_voice_def tiny_voice_def sf_voice_zero_def

lemma loud_voice_taps:
  "sf_ref_sample [0, 1000, 2000, 0] loud_voice (0, 0) (Suc 0) 0 = Some ((500, 250), 2, 0)"
  "sf_ref_sample [0, 1000, 2000, 0] loud_voice (0, 0) 2 0 = Some ((1000, 500), 3, 0)"
  by (simp_all add: loud_voice_simps sf_ref_sample_def tap_def at_def fit_def add32_def gmul_def add_lr_def advance_def)

lemma loud_voice_wrap: "wrap_pos loud_voice (Suc 0) = 1" "wrap_pos loud_voice 2 = 2" "wrap_pos loud_voice 3 = 1"
  by (simp_all add: wrap_pos_def looping_def loud_voice_simps sub32_def)

theorem sf_mix_runs_witness:
  "mix_voice loud_voice [(0, 0), (0, 0), (0, 0)] = ref_voice loud_voice [(0, 0), (0, 0), (0, 0)]
    \<and> map_option fst (ref_voice loud_voice [(0, 0), (0, 0), (0, 0)]) = Some [(500, 250), (1000, 500), (500, 250)]"
proof
  show "mix_voice loud_voice [(0, 0), (0, 0), (0, 0)] = ref_voice loud_voice [(0, 0), (0, 0), (0, 0)]"
    by (rule sf_mix_runs) (simp_all add: sf_range_ok_def pos_ok_def loud_voice_simps)
  have "sv_data loud_voice = [0, 1000, 2000, 0]" "sv_pos loud_voice = Suc 0" "sv_frac loud_voice = 0" "sv_end loud_voice = 4"
    by (simp_all add: loud_voice_simps)
  then show "map_option fst (ref_voice loud_voice [(0, 0), (0, 0), (0, 0)]) = Some [(500, 250), (1000, 500), (500, 250)]"
    using loud_voice_taps loud_voice_wrap by (simp add: ref_voice_def mix_done_def)
qed

text \<open>
  C14: With a font whose indices are in range a note starts exactly the voices of the SoundFont rules: of the preset of its bank and
  program (else of bank 0, else the first), for every local preset zone and local instrument zone that take its key and velocity, in
  their order, with the last amount of each generator in the zone, else in the global zone, else the default, and the
  amounts of the preset added to those of the instrument.
\<close>

theorem sf_note_zones:
  assumes "sf_ok s" "bk_phdr (sf_bank s) \<noteq> None" "ch < 16"
  shows "sf_note_on ch key vel s =
    (case note_preset (sf_bank s) ch (sf_chans s ! ch) of
       None \<Rightarrow> Some s
     | Some p \<Rightarrow> start_all ch key vel
         (map (\<lambda>g. map g [0..<G_COUNT])
           (note_amounts (inst_of (sf_bank s)) (bk_ninst (sf_bank s) - 1) (preset_of (sf_bank s) p) key vel)) s)"
proof -
  have "length (sf_chans s) = 16" "bank_ok (sf_bank s)" using assms(1,2) by (simp_all add: sf_ok_def sf_base_def bank_ready_def)
  from sf_note_on_eq [OF this assms(2,3)] show ?thesis by (simp add: note_list_def note_gens_def split: option.split)
qed

theorem sf_note_zones_witness:
  "sf_note_on 0 60 100 (tiny_sf []) =
    (case note_preset tiny_bank 0 sf_chan_default of
       None \<Rightarrow> Some (tiny_sf [])
     | Some p \<Rightarrow> start_all 0 60 100 (map (\<lambda>g. map g [0..<G_COUNT]) (note_amounts (inst_of tiny_bank) 1 (preset_of tiny_bank p) 60 100)) (tiny_sf []))"
proof -
  have b: "sf_bank (tiny_sf []) = tiny_bank" "sf_chans (tiny_sf []) ! 0 = sf_chan_default" by (simp_all add: tiny_sf_def)
  have ok: "sf_ok (tiny_sf [])" using tiny_sf_ok by (simp add: font_ok_def)
  have "bk_phdr (sf_bank (tiny_sf [])) \<noteq> None" by (simp add: b tiny_fields)
  from sf_note_zones [OF ok this, of 0 60 100] show ?thesis by (simp add: b tiny_fields cong: option.case_cong)
qed


lemma one_note_ok: "song_ok one_note" "syn one_note = Some 1" "now one_note = 0" "tick_time one_note = 0" "calls one_note = []"
  by (simp_all add: song_ok_def track_ok_def one_note_def smf_start_def)


text \<open>
  C19: \<open>synth_sf2_init\<close> returns for every file whose chunks do not claim to end at \<open>2 ^ 31\<close> or later, and reads only within it. An
  accepted file has all its tables and its samples within its bytes, and no voice is on; if its indices and its samples are in
  order, so is the engine. After a refusal notes do nothing.
\<close>

theorem sf_load_returns:
  assumes "sane_riff f 12" "length f < 2147483000" "cb_ok (sfl_gain fl)"
  shows "\<exists>r s'. synth_sf2_init fl f s = Some (r, s')
    \<and> (r = 0 \<and> bank_in f (sf_bank s') \<and> sf_voice_count s' = 0 \<and> (bank_ok (sf_bank s') \<and> smooth (bank_samples (sf_bank s')) \<longrightarrow> sf_ok s')
       \<or> r = - 1 \<and> bk_phdr (sf_bank s') = None)"
proof (cases "riff_header f")
  case False
  then show ?thesis by (simp add: synth_sf2_init_def bank_clear_def)
next
  case True
  obtain acc bk where b: "bank_load f (sf_bank s) = Some (acc, bk)" "acc \<Longrightarrow> bank_in f bk \<and> bk_smpl bk \<noteq> None" "\<not> acc \<Longrightarrow> bk_phdr bk = None"
    using bank_load_ok [OF assms(1,2), of "sf_bank s"] by (metis insertCI)
  define s1 where "s1 = s\<lparr>sf_bank := bk, sf_float := fl\<rparr>"
  have i: "synth_sf2_init fl f s = Some (if acc then (0, sf_reset s1) else (- 1, s1))" using True b(1) by (simp add: synth_sf2_init_def s1_def)
  show ?thesis
  proof (cases acc)
    case False
    then show ?thesis using b(3) by (simp add: i s1_def)
  next
    case acc: True
    obtain p where p: "bk_smpl bk = Some p" "p + bk_nsmpl bk * 2 \<le> length f" "bk_file bk = f"
      using b(2) [OF acc] by (auto simp: bank_in_def in_file_def)
    have l: "bk_nsmpl bk \<le> length (bank_samples bk)" "length (bank_samples bk) < 2147483648"
      using p(2) assms(2) by (simp_all add: bank_samples_def p(1,3))
    have "cb_ok (gain_of s1)" "sf_bank s1 = bk" using assms(3) by (simp_all add: s1_def)
    then have "bank_ok bk \<and> smooth (bank_samples bk) \<longrightarrow> sf_ok (sf_reset s1)"
      using sf_reset_ok [of s1] l by (simp add: bank_ready_def)
    moreover have "sf_voice_count (sf_reset s1) = 0"
      by (simp add: sf_voice_count_def active_voices_def sf_reset_def sf_voice_zero_def)
    moreover have "sf_bank (sf_reset s1) = bk" by (simp add: sf_reset_def s1_def)
    ultimately show ?thesis using b(2) [OF acc] by (simp add: i acc)
  qed
qed

text \<open>A file with a chunk that is none of the lists.\<close>

definition odd_font :: "byte list" where
  "odd_font = [0x52, 0x49, 0x46, 0x46, 12, 0, 0, 0, 0x73, 0x66, 0x62, 0x6b, 0x4a, 0x55, 0x4e, 0x4b, 0, 0, 0, 0, 0, 0, 0, 0]"

lemma odd_font_sane: "sane_riff odd_font 12"
  by (subst sane_riff.simps, subst sane_riff.simps)
    (simp add: odd_font_def ufs_le32_eq list_tag_def next_even_def)

theorem sf_load_returns_witness:
  "\<exists>r s'. synth_sf2_init tiny_float odd_font (tiny_sf []) = Some (r, s')
    \<and> (r = 0 \<and> bank_in odd_font (sf_bank s') \<and> sf_voice_count s' = 0
         \<and> (bank_ok (sf_bank s') \<and> smooth (bank_samples (sf_bank s')) \<longrightarrow> sf_ok s')
       \<or> r = - 1 \<and> bk_phdr (sf_bank s') = None)"
proof -
  have "cb_ok (sfl_gain tiny_float)" by (simp add: cb_ok_def tiny_float_def)
  moreover have "length odd_font < 2147483000" by (simp add: odd_font_def)
  ultimately show ?thesis using sf_load_returns [OF odd_font_sane] by blast
qed

text \<open>
  C31: All notes off on a channel ends what sounds there, whether a pedal holds it or not: each of its voices is free again after
  \<open>7680\<close> blocks, which are \<open>245760\<close> samples at most, whatever the pieces in which they are rendered. (A piece counts at least one block,
  however short it is: envelopes run faster when the song's events cut the samples into short pieces.)
\<close>

theorem sf_release_ends:
  assumes "sf_ok s" "ch < 16" "i < 128" "sv_active (sf_voices s ! i)" "sv_chan (sf_voices s ! i) = ch"
    and "\<forall>b\<in>set bs. loud 0 b" "7680 \<le> sum_list (map (\<lambda>b. blocks (length b)) bs)"
  shows "\<exists>s0 ts s1. sf_control ch 123 val s = Some s0 \<and> render_pieces bs s0 = Some (ts, s1) \<and> \<not> sv_active (sf_voices s1 ! i) \<and> sf_ok s1"
proof -
  obtain s0 where s0: "sf_control ch 123 val s = Some s0" "sf_ok s0" "sf_ends_in 7680 (sf_voices s0 ! i)"
    using notes_off_ends [OF assms(1,2), of val] assms(3-5) by blast
  from render_pieces_ends [OF s0(2) assms(6)] obtain ts s1 where r: "render_pieces bs s0 = Some (ts, s1)" "sf_ok s1"
    "sf_ends_in (7680 - sum_list (map (\<lambda>b. blocks (length b)) bs)) (sf_voices s1 ! i)" using assms(3) s0(3) by blast
  then have "sf_ends_in 0 (sf_voices s1 ! i)" using assms(7) by simp
  from sf_ends_in_0 [OF this] show ?thesis using s0(1) r(1,2) by blast
qed

theorem sf_release_ends_witness:
  "\<exists>s0 ts s1. sf_control 0 123 0 (tiny_sf [tiny_voice]) = Some s0
    \<and> render_pieces (replicate 7680 [(0, 0)]) s0 = Some (ts, s1) \<and> \<not> sv_active (sf_voices s1 ! 0)"
proof -
  have "sf_ok (tiny_sf [tiny_voice])" using tiny_sf_ok by (simp add: font_ok_def)
  moreover have "sv_active (sf_voices (tiny_sf [tiny_voice]) ! 0)" "sv_chan (sf_voices (tiny_sf [tiny_voice]) ! 0) = 0"
    by (simp_all add: tiny_sf_def tiny_voice_def sf_voice_zero_def)
  moreover have "7680 \<le> sum_list (map (\<lambda>b. blocks (length b)) (replicate 7680 [(0 :: int, 0 :: int)]))"
    by (simp add: blocks_def sum_list_replicate)
  moreover have "\<forall>b\<in>set (replicate 7680 [(0 :: int, 0 :: int)]). loud 0 b" by simp
  ultimately show ?thesis using sf_release_ends [of "tiny_sf [tiny_voice]" 0 0 "replicate 7680 [(0, 0)]" 0] by auto
qed



text \<open>
  Two neighbouring samples that differ by more than 32768 overflow the interpolation: where the voice comes to the last step between
  them, the product leaves \<open>int\<close>, and as the machine wraps it the value is 65537 below the later sample, outside of the range of the two.
\<close>

theorem sf_steep_overflow:
  assumes "pos + 1 < length d" "length d < two32" "32768 < d ! (pos + 1) - d ! pos" "d ! (pos + 1) - d ! pos \<le> 65535"
  shows "tap d pos 65535 = None
    \<and> d ! pos + i32 ((d ! (pos + 1) - d ! pos) * 65535) div 65536 = d ! (pos + 1) - 65537 \<and> d ! (pos + 1) - 65537 < d ! pos"
proof -
  note o = steep_overflow [OF assms(3,4)]
  have "at d (int pos) = Some (d ! pos)" "at d (int (add32 pos 1)) = Some (d ! (pos + 1))"
    using assms(1,2) by (simp_all add: at_Some add32_id del: of_nat_add of_nat_Suc)
  then have "tap d pos 65535 = None" using o(1) by (simp add: tap_def)
  then show ?thesis using o(2) assms(4) by simp
qed

theorem sf_steep_overflow_witness:
  "tap [- 20000, 20000] 0 65535 = None \<and> - 20000 + i32 (40000 * 65535) div 65536 = - 45537"
proof -
  have l: "0 + 1 < length [- 20000, 20000 :: int]" "length [- 20000, 20000 :: int] < two32" by simp_all
  note r = sf_steep_overflow [OF l]
  show ?thesis using r by simp
qed

text \<open>
  A chunk outside of the lists that claims the length \<open>2 ^ 32 - 8\<close> is never left: each round of the loop of \<open>synth_sf2_init\<close>
  reads it again and changes nothing, and the player hangs on the file.
\<close>

theorem sf_load_endless:
  assumes "0 \<le> pos" "pos + 12 \<le> int (length f)" "length f < 2147483000" "ufs_le32 f (nat (pos + 4)) = 4294967288"
    and "take 4 (drop (nat pos) f) \<noteq> list_tag"
  shows "riff_step f pos bk = Some (pos, bk) \<and> riff_chunks f pos bk = None"
  using riff_stays [OF assms] riff_never [OF assms(2)] by blast

theorem sf_load_endless_witness:
  "riff_chunks (odd_font[16 := 0xf8, 17 := 0xff, 18 := 0xff, 19 := 0xff]) 12 tiny_bank = None"
proof -
  let ?f = "odd_font[16 := 0xf8, 17 := 0xff, 18 := 0xff, 19 := 0xff]"
  have "riff_step ?f 12 tiny_bank = Some (12, tiny_bank) \<and> riff_chunks ?f 12 tiny_bank = None"
    by (rule sf_load_endless) (simp_all add: odd_font_def ufs_le32_eq list_tag_def)
  then show ?thesis by simp
qed

end
