(* ===== verification/Spec2Isabelle.thy ===== *)
theory Spec2Isabelle
  imports Hmac KeyWrap FatProps UsbBot LibcHeap LibcScan LibcFile NetDhcp SmfTime TjcTile TjcQoa WlanSafe BrimodProps SdkConfig SdkFiles OplSong SfProps
begin

text \<open>
  Verification of the core software of NCMIPS5874, programs that run on the bare metal of a set-top box
  (a MIPS 24KEc, ILP32, little endian) under U-Boot: no operating system, everything in C.

  \<^bold>\<open>The program and its parts.\<close> An application is linked with the C library \<open>src/sdk/libc/libc.c\<close>, whose files
  come from a USB stick through \<open>src/usbfat.h\<close> (Bulk-Only Transport, FAT16/FAT32, folders, paths). The
  network is \<open>src/wlan.h\<close> (a WPA2 station on the internal radio chip) with the cryptography of
  \<open>src/wpa.h\<close> below and the IPv4 stack \<open>src/netstack.h\<close> above it: \<open>wlan_poll\<close> gives every received data
  frame to \<open>net_rx\<close>, which answers through \<open>wlan_send\<close>. Two of the applications are modelled for their own
  logic: the MIDI player, whose sequencer \<open>src/apps/midi/smf.c\<close> calls one of two engines through the table of functions
  in \<open>synth.h\<close>: \<open>src/apps/midi/synth_opl.c\<close>, which writes the registers of the chip emulator \<open>src/sdk/opl.c\<close> and takes its samples,
  or \<open>src/apps/midi/synth_sf2.c\<close>, which mixes the samples of a SoundFont 2 file; and the decoder
  \<open>src/apps/tjcplay/tjcdec.c\<close> of the video player. An ESP32 on
  the I2C bus of the front panel gives the box a clock, sensors, an FM transmitter and WiFi: \<open>src/sdk/brimod.c\<close> is the driver,
  \<open>src/esp32c3/bridge/bridge.ino\<close> the firmware at the other end.

  \<^bold>\<open>Conventions.\<close> \<open>Prelude\<close> names the machine types and the collections of facts; \<open>Bytes\<close> has the
  byte-order accessors that each module writes out for itself; \<open>CInt\<close> the signed integers of the synthesizers, with
  overflow as \<open>None\<close>. Code that shifts and masks works on
  \<open>32 word\<close>, code that counts on \<open>nat\<close> with \<open>add32\<close>, \<open>sub32\<close>, \<open>mul32\<close> where it can wrap. The static
  variables of a module are one record, its functions take and return it. A read outside of a buffer, or any
  other behaviour C leaves undefined, is the result \<open>None\<close>; results of the code are a number or a flag as in the
  code, or a sum for the errors of a function. What lies outside of the sources (the USB controller, the radio
  chip, the stick, U-Boot's loader, \<open>malloc\<close> where it is another module's) is an argument: a record of functions, or
  the list of the calls made to it.

  \<^bold>\<open>Theories, by component.\<close>
  \<^item> WPA cryptography, \<open>src/wpa.h\<close>: \<open>Sha1\<close> (the streaming hash computes FIPS 180-4 for every split of the
    message), \<open>Hmac\<close> (HMAC, PBKDF2 and the PRF against their standards, whatever is on the stack), \<open>Aes\<close>,
    \<open>AesInverse\<close> (the two directions of AES-128 are inverse), \<open>KeyWrap\<close> (\<open>aes_unwrap\<close> accepts exactly the
    wraps of RFC 3394).
  \<^item> WPA2 station, \<open>src/wlan.h\<close>: \<open>Wlan\<close> (state, frames out, keys), \<open>WlanRx\<close> (every received frame, scanning,
    joining), \<open>WlanKeys\<close> (the access point's side of the 4-way handshake as IEEE 802.11 has it, fields of its
    frames), \<open>WlanProps\<close> (agreement with such an access point; messages out of turn; packet numbers;
    WIFI.TXT), \<open>WlanSafe\<close> (nothing without a key's MIC connects the station or is read past its end).
  \<^item> IPv4 stack, \<open>src/netstack.h\<close>: \<open>NetStack\<close> (ARP, IP, UDP, DHCP), \<open>NetTcp\<close> (ICMP, DNS, TCP, dispatch, the polling
    loops), \<open>NetProps\<close> (every frame is handled within its bytes; UDP round trip; the TCP stream under loss,
    repetition and reordering), \<open>NetDhcp\<close> (the DHCP exchange, DNS names).
  \<^item> USB storage, \<open>src/usbfat.h\<close>: \<open>UsbDisk\<close> (sector reads, the locale \<open>working_disk\<close> of their contract),
    \<open>UsbFat\<close> (mounting, the allocation table), \<open>FatFile\<close> (buffered reads of files), \<open>FatDir\<close> (folders, long
    names, paths, overwriting), \<open>FatProps\<close> (what callers rely on), \<open>UsbBot\<close> (a stick that follows the
    Bulk-Only Transport, as an instance of \<open>working_disk\<close>).
  \<^item> C library, \<open>src/sdk/libc/libc.c\<close>: \<open>LibcMem\<close> (memory and strings), \<open>LibcHeap\<close> (malloc and its invariant),
    \<open>LibcNum\<close> (numbers, sorting), \<open>LibcText\<close> (texts as lists: decimal numbers, lines), \<open>LibcPrintf\<close>, \<open>LibcScan\<close>, \<open>LibcFile\<close>.
  \<^item> MIDI sequencer, \<open>src/apps/midi/smf.c\<close>: \<open>Smf\<close> (the code), \<open>SmfProps\<close> (loading ends and stays within
    the file), \<open>SmfPlay\<close> (the locale \<open>event_map\<close>: one pass over the events seen through a view, with its three
    instances), \<open>SmfTime\<close> (events on time; seeking equals playing).
  \<^item> FM synthesizer, \<open>src/sdk/opl.c\<close> and \<open>src/apps/midi/synth_opl.c\<close>: \<open>OplChip\<close> (registers, envelopes, samples),
    \<open>OplBounds\<close> (ranges of the chip's state and of its output; released channels end), \<open>OplSynth\<close> (the engine),
    \<open>OplVoices\<close> (what each operation on a voice changes, the choice of voices), \<open>OplEvents\<close> (the locale
    \<open>voice_pass\<close>: a pass over the voices, with its six instances; every event keeps the state in order),
    \<open>SynthSong\<close> (the locale \<open>synth_engine\<close>: what the sequencer needs of an engine, and a song under that contract), \<open>OplSong\<close> (its
    interpretation for this engine).
  \<^item> SoundFont synthesizer, \<open>src/apps/midi/synth_sf2.c\<close>: \<open>SfMix\<close> (a voice: gains, envelope, release, the mixer in runs), \<open>SfRuns\<close>
    (the mixer against a loop that goes sample by sample), \<open>SfVoice\<close> (a voice in order, kept by envelope and mixer; released voices end),
    \<open>SfBank\<close> (the tables of a font, its generators and presets), \<open>SfSynth\<close> (the engine: choice and start of voices, zones),
    \<open>SfEvents\<close> (the calls of the sequencer, rendering, loading), \<open>SfNotes\<close> (which voices a note starts, against the rules of the
    SoundFont format), \<open>SfOrder\<close> (the locale \<open>sf_pass\<close>: a pass over the voices, with its six instances; every event keeps the engine in
    order), \<open>SfRender\<close> (bounds of the output, the end of notes), \<open>SfLoad\<close> (loading ends and stays within the file), \<open>SfSong\<close> (the interpretation
    of \<open>synth_engine\<close> for this engine), \<open>SfProps\<close> (its properties).
  \<^item> Runtime of applications, \<open>src/sdk/runtime.c\<close>: \<open>SdkConfig\<close> (the settings of an application and their file),
    \<open>SdkStorage\<close> (mounting, hot-plug, handles of files and folders, over \<open>usbfat.h\<close>), \<open>SdkFiles\<close> (the bytes of a file
    come through a handle; a handle never reads from another stick than its own).
  \<^item> Front panel and ESP32 bridge: \<open>I2c\<close> (\<open>src/i2c.h\<close>, \<open>src/fd650.h\<close>, the bus section of \<open>src/sdk/runtime.c\<close>), \<open>I2cBus\<close>
    (transfers on a controller that follows the register description of \<open>i2c.h\<close>), \<open>BrimodClock\<close> and \<open>Brimod\<close>
    (\<open>src/sdk/brimod.c\<close>: Unix seconds and Gregorian dates; the driver), \<open>Bridge\<close> (the register file and the mailbox of the firmware
    \<open>src/esp32c3/bridge/bridge.ino\<close>), \<open>BrimodLink\<close> (the locale \<open>bridge_link\<close>: what the driver needs of the wire and of time),
    \<open>BrimodRegs\<close>, \<open>BrimodCmd\<close> (registers and commands under that locale), \<open>BrimodBox\<close> (its interpretation: the
    firmware as the slave of the controller), \<open>BrimodProps\<close> (texts, properties, commands, WiFi from end to end).
  \<^item> TJC decoder, \<open>src/apps/tjcplay/tjcdec.c\<close>: \<open>TjcHuff\<close>, \<open>TjcCode\<close> (the lookahead tables against the procedure of
    ITU T.81), \<open>TjcDct\<close> (inverse DCT and its shortcut), \<open>TjcDec\<close> (header, layout, blocks, tiles), \<open>TjcTile\<close> (where a
    tile writes), \<open>TjcQoa\<close> (audio: buffers, the predictor of each channel, the ranges of its integers).

  \<^bold>\<open>Loops and fuel.\<close> Loops with a bound in the code are structural or have a measure. Two kinds need an argument:
  folder scans and cluster chains take fuel, one unit for each entry or cluster, and the theorems that use them give
  a bound from the volume (a chain that ends, a folder of so many entries) with which they do not run out;
  \<open>tcp_read_all\<close>, which ends only when the peer does, is a \<open>partial_function\<close> whose divergence is \<open>None\<close>, and so is the
  wait of \<open>brimod_cmd\<close> for the bridge: it comes back when the bridge takes up a command within the timeout less four rounds of 20 ms.
  The mixer of the SoundFont engine (\<open>mix_runs\<close>) and its two loops over the chunks of a file (\<open>riff_chunks\<close>, \<open>list_chunks\<close>) are of this kind too:
  the mixer returns for every voice in order, the chunk loops for every file whose chunks end below \<open>2 ^ 31\<close>, and not for some others.
  The receive loop of the station takes what it hears as a list of rounds, after which there is silence.

  \<^bold>\<open>Not modelled.\<close> Copies of other projects' code (\<open>net/lwip\<close>, \<open>rtos/FreeRTOS-Kernel\<close>, \<open>helix\<close>, \<open>softfp\<close>,
  \<open>sdk/third_party\<close>, \<open>doom\<close>), the drivers and probes that read and write hardware registers (\<open>ehci.h\<close>,
  \<open>rtl8188.h\<close>, \<open>audio.h\<close>, \<open>osd.h\<close>, the test programs at the top of \<open>src\<close>), screens and menus (\<open>launcher\<close>, the
  players' user interfaces), assembly, C++ and Python. In \<open>libc.c\<close> the conversions between text and floating point,
  in \<open>usbfat.h\<close> the search through the USB descriptors (\<open>ufs_bot_init\<close>); in \<open>opl.c\<close> and \<open>synth_opl.c\<close> the
  floating point that fills the tables, in \<open>synth_sf2.c\<close> the one that gives the table of gains, times in samples and pitch steps (the
  results are parameters with their ranges); console messages
  everywhere. Of the firmware of the bridge the sensors, the FM chip, the clock chip and the commands that only
  start them are parameters. The rest of \<open>sdk/runtime.c\<close> and \<open>net/netsvc.c\<close> are not modelled.
\<close>

end
